(* ===== verification/Prelude.thy ===== *)
theory Prelude
  imports Complex_Main "HOL-Library.AList"
begin

section \<open>Shared vocabulary and lemmas\<close>

text \<open>
  What every component of the development shares: the exceptions of the Python source as
  values, the dictionaries of the source as association lists in insertion order, sums over
  a dictionary, and the named collections of facts the component proofs are driven by.

  A Python \<open>dict\<close> iterates in insertion order, overwriting a key keeps its place, and a new
  key goes to the end: this is exactly \<open>AList.update\<close> on an association list.
\<close>

named_theorems numeric_facts "signs and bounds of rounded arithmetic"
named_theorems dict_simps "lookups and sums over updated dictionaries"
named_theorems invariant_intros "operations that keep a component's invariant"

subsection \<open>Exceptions\<close>

text \<open>The exceptions the modelled code raises; \<open>Inl\<close> is a raise, \<open>Inr\<close> a return.\<close>

datatype py_error =
    ValueError
  | KeyError
  | RuntimeError
  | ZeroDivisionError
  | CalendarCoverageError
  | ConfigError
  | IndexError

type_synonym 'a result = "py_error + 'a"

subsection \<open>Dictionaries\<close>

type_synonym ('k, 'v) dict = "('k \<times> 'v) list"

abbreviation dget :: "('k, 'v) dict \<Rightarrow> 'k \<Rightarrow> 'v option" where
  "dget \<equiv> map_of"

abbreviation dset :: "'k \<Rightarrow> 'v \<Rightarrow> ('k, 'v) dict \<Rightarrow> ('k, 'v) dict" where
  "dset \<equiv> AList.update"

abbreviation dpop :: "'k \<Rightarrow> ('k, 'v) dict \<Rightarrow> ('k, 'v) dict" where
  "dpop \<equiv> AList.delete"

definition dget_or :: "'v \<Rightarrow> ('k, 'v) dict \<Rightarrow> 'k \<Rightarrow> 'v" where
  "dget_or v d k = (case dget d k of None \<Rightarrow> v | Some w \<Rightarrow> w)"

definition dsum :: "('k \<Rightarrow> 'v \<Rightarrow> 'a::comm_monoid_add) \<Rightarrow> ('k, 'v) dict \<Rightarrow> 'a" where
  "dsum f d = sum_list (map (\<lambda>(k, v). f k v) d)"

lemma dsum_Nil [simp]: "dsum f [] = 0"
  by (simp add: dsum_def)

lemma dsum_Cons [simp]: "dsum f ((k, v) # d) = f k v + dsum f d"
  by (simp add: dsum_def)

lemma dsum_dset [dict_simps]:
  fixes f :: "'k \<Rightarrow> 'v \<Rightarrow> 'a::ab_group_add"
  shows "dsum f (dset k v d) = dsum f d - (case dget d k of None \<Rightarrow> 0 | Some w \<Rightarrow> f k w) + f k v"
  by (induction d) (auto simp: algebra_simps split: option.splits)

lemma dsum_cong:
  "(\<And>k v. (k, v) \<in> set d \<Longrightarrow> f k v = g k v) \<Longrightarrow> dsum f d = dsum g d"
  by (induction d) auto

lemma dsum_nonneg:
  fixes f :: "'k \<Rightarrow> 'v \<Rightarrow> 'a::ordered_comm_monoid_add"
  shows "(\<And>k v. (k, v) \<in> set d \<Longrightarrow> 0 \<le> f k v) \<Longrightarrow> 0 \<le> dsum f d"
  by (induction d) (auto intro: add_nonneg_nonneg)

lemma dsum_member_le:
  fixes f :: "'k \<Rightarrow> 'v \<Rightarrow> 'a::ordered_ab_group_add"
  assumes "\<And>k v. (k, v) \<in> set d \<Longrightarrow> 0 \<le> f k v" and "(k, v) \<in> set d"
  shows "f k v \<le> dsum f d"
  using assms
proof (induction d)
  case (Cons p d)
  obtain k' v' where p: "p = (k', v')" by (cases p)
  show ?case
  proof (cases "p = (k, v)")
    case True
    with Cons.prems show ?thesis by (simp add: dsum_nonneg)
  next
    case False
    with Cons have "f k v \<le> dsum f d" by simp
    moreover have "0 \<le> f k' v'" using Cons.prems p by simp
    ultimately show ?thesis using p by (simp add: add_increasing)
  qed
qed simp

lemma dget_dset [dict_simps]: "dget (dset k v d) k' = (if k = k' then Some v else dget d k')"
  by (simp add: update_conv')

lemma dget_dset_same [simp]: "dget (dset k v d) k = Some v"
  by (simp add: update_conv')

lemma set_dset: "(k', v') \<in> set (dset k v d) \<Longrightarrow> (k', v') = (k, v) \<or> (k', v') \<in> set d"
  by (induction d) (auto split: if_splits)

lemma distinct_dset [invariant_intros]:
  "distinct (map fst d) \<Longrightarrow> distinct (map fst (dset k v d))"
  by (rule distinct_update)

lemma dget_in_set: "dget d k = Some v \<Longrightarrow> (k, v) \<in> set d"
  by (rule map_of_SomeD)

lemma keys_dset: "fst ` set (dset k v d) = insert k (fst ` set d)"
  by (induction d) auto

lemma dset_values:
  assumes "distinct (map fst d)" and "(k', v') \<in> set (dset k v d)"
  shows "(k' = k \<and> v' = v) \<or> (k' \<noteq> k \<and> (k', v') \<in> set d)"
proof -
  have "distinct (map fst (dset k v d))" by (rule distinct_dset [OF assms(1)])
  with assms(2) have "dget (dset k v d) k' = Some v'" by simp
  then show ?thesis by (auto simp: dget_dset dest: dget_in_set split: if_splits)
qed

subsection \<open>Lists\<close>

lemma sum_list_split_filter:
  fixes f :: "'a \<Rightarrow> 'b::ab_group_add"
  shows "sum_list (map f xs) =
    sum_list (map f (filter P xs)) + sum_list (map f (filter (\<lambda>x. \<not> P x) xs))"
  by (induction xs) auto

lemma sum_list_pos_ge_1: "(\<And>x. x \<in> set xs \<Longrightarrow> (0::int) < f x) \<Longrightarrow> int (length xs) \<le> sum_list (map f xs)"
proof (induction xs)
  case (Cons x xs)
  then have "0 < f x" "int (length xs) \<le> sum_list (map f xs)" by auto
  then show ?case by simp
qed simp

subsection \<open>Numbers in identifiers\<close>

text \<open>\<open>nat_str\<close> is \<^verbatim>\<open>str(n)\<close>, \<open>zfill6\<close> the format \<^verbatim>\<open>{n:06d}\<close>. Reading the digits
  back shows that neither confuses two numbers.\<close>

fun nat_str :: "nat \<Rightarrow> string" where
  "nat_str n = (if n < 10 then [char_of (48 + n)] else nat_str (n div 10) @ [char_of (48 + n mod 10)])"

declare nat_str.simps [simp del]

definition zfill6 :: "nat \<Rightarrow> string" where
  "zfill6 n = replicate (6 - length (nat_str n)) (CHR ''0'') @ nat_str n"

definition read_digits :: "string \<Rightarrow> nat" where
  "read_digits s = foldl (\<lambda>acc c. 10 * acc + (of_char c - 48)) 0 s"

lemma read_digits_snoc: "read_digits (s @ [c]) = 10 * read_digits s + (of_char c - 48)"
  by (simp add: read_digits_def)

lemma read_nat_str: "read_digits (nat_str n) = n"
proof (induction n rule: nat_str.induct)
  case (1 n)
  show ?case
  proof (cases "n < 10")
    case True
    then show ?thesis by (simp add: nat_str.simps [of n] read_digits_def)
  next
    case False
    with 1 have "read_digits (nat_str (n div 10)) = n div 10" by simp
    with False show ?thesis by (simp add: nat_str.simps [of n] read_digits_snoc)
  qed
qed

lemma read_digits_zeros: "read_digits (replicate k (CHR ''0'') @ s) = read_digits s"
proof -
  have "foldl (\<lambda>acc c. 10 * acc + (of_char c - 48)) 0 (replicate k (CHR ''0'')) = (0::nat)"
    by (induction k) simp_all
  then show ?thesis by (simp add: read_digits_def)
qed

lemma nat_str_inject [simp]: "nat_str m = nat_str n \<longleftrightarrow> m = n"
  by (metis read_nat_str)

lemma zfill6_inject [simp]: "zfill6 m = zfill6 n \<longleftrightarrow> m = n"
  by (metis read_nat_str read_digits_zeros zfill6_def)

end
