(* ===== verification/Py_Numeric.thy ===== *)
theory Py_Numeric
  imports Prelude
begin

section \<open>Python's Decimal and float arithmetic\<close>

text \<open>
  The program computes money with \<^verbatim>\<open>decimal.Decimal\<close> and market data with
  \<^verbatim>\<open>float\<close>. Both are finite rationals, so both are modelled by \<^typ>\<open>rat\<close>; what
  distinguishes them is rounding, and the rounding is written out:

  \<^item> \<open>sig_round b p\<close> rounds to \<open>p\<close> significant digits in base \<open>b\<close>, half to even. The
    default Decimal context is \<open>dec28 = sig_round 10 28\<close>, an IEEE double is
    \<open>fl64 = sig_round 2 53\<close> (subnormals and overflow are outside the range of prices,
    volumes and ratios).
  \<^item> Division rounds: \<open>ddiv\<close> for Decimals, \<open>fdiv\<close> and the other \<open>f\<close>-operations for
    floats. \<open>dadd\<close>, \<open>dsub\<close> and \<open>dmul\<close> round sums, differences and products, and are
    used wherever an operand can be a quotient or a percentage. The position book, the simulated broker's cash and
    the charges add and multiply rupee amounts of at most four decimals and share counts exactly;
    \<open>Book_Rounding\<close> gives the rounded book and the range in which rounding changes nothing.
  \<^item> \<open>dec_of_float x\<close> is \<^verbatim>\<open>Decimal(str(x))\<close>: the shortest decimal that reads back
    as the same double (at most 17 digits).
  \<^item> \<open>quantize_even\<close> and \<open>quantize_up\<close> are \<^verbatim>\<open>Decimal.quantize\<close> with
    ROUND_HALF_EVEN (the default) and ROUND_HALF_UP.

  Every definition computes. The lemmas give the sign, the monotonicity, the relative error
  and the exactness of the rounding, which is all the components use of it.
\<close>

subsection \<open>Rounding to significant digits\<close>

definition round_half_even :: "rat \<Rightarrow> int" where
  "round_half_even q =
     (let f = \<lfloor>q\<rfloor>; r = q - of_int f
      in if r < 1 / 2 then f else if 1 / 2 < r then f + 1 else if even f then f else f + 1)"

function pow_len :: "int \<Rightarrow> int \<Rightarrow> nat" where
  "pow_len b n = (if b < 2 \<or> n < b then 0 else Suc (pow_len b (n div b)))"
  by pat_completeness auto
termination
  by (relation "measure (\<lambda>(b, n). nat n)") (auto simp: int_div_less_self)

declare pow_len.simps [simp del]

definition expo :: "int \<Rightarrow> rat \<Rightarrow> int" where
  "expo b q =
     (let nd = quotient_of \<bar>q\<bar>;
          e = int (pow_len b (fst nd)) - int (pow_len b (snd nd))
      in if of_int b powi e \<le> \<bar>q\<bar> then e else e - 1)"

definition sig_round :: "int \<Rightarrow> nat \<Rightarrow> rat \<Rightarrow> rat" where
  "sig_round b p q =
     (if q = 0 then 0
      else let u = of_int b powi (expo b q - (int p - 1))
           in of_int (round_half_even (q / u)) * u)"

definition dec28 :: "rat \<Rightarrow> rat" where
  "dec28 q = sig_round 10 28 q"

definition fl64 :: "rat \<Rightarrow> rat" where
  "fl64 q = sig_round 2 53 q"

fun shortest_from :: "nat \<Rightarrow> rat \<Rightarrow> rat" where
  "shortest_from 0 x = sig_round 10 17 x"
| "shortest_from (Suc k) x =
     (let d = sig_round 10 (17 - Suc k) x in if fl64 d = x then d else shortest_from k x)"

definition dec_of_float :: "rat \<Rightarrow> rat" where
  "dec_of_float x = shortest_from 16 x"

subsection \<open>Operations of the source\<close>

definition ddiv :: "rat \<Rightarrow> rat \<Rightarrow> rat" where
  "ddiv a b = dec28 (a / b)"

definition dmul :: "rat \<Rightarrow> rat \<Rightarrow> rat" where
  "dmul a b = dec28 (a * b)"

definition dadd :: "rat \<Rightarrow> rat \<Rightarrow> rat" where
  "dadd a b = dec28 (a + b)"

definition dsub :: "rat \<Rightarrow> rat \<Rightarrow> rat" where
  "dsub a b = dec28 (a - b)"

definition quantize_even :: "rat \<Rightarrow> rat \<Rightarrow> rat" where
  "quantize_even q u = of_int (round_half_even (q / u)) * u"

definition round_half_up :: "rat \<Rightarrow> int" where
  "round_half_up q = (if 0 \<le> q then \<lfloor>q + 1 / 2\<rfloor> else - \<lfloor>- q + 1 / 2\<rfloor>)"

definition quantize_up :: "rat \<Rightarrow> rat \<Rightarrow> rat" where
  "quantize_up q u = of_int (round_half_up (q / u)) * u"

definition py_int :: "rat \<Rightarrow> int" where
  "py_int x = (if 0 \<le> x then \<lfloor>x\<rfloor> else \<lceil>x\<rceil>)"

definition fadd :: "rat \<Rightarrow> rat \<Rightarrow> rat" where
  "fadd a b = fl64 (a + b)"

definition fsub :: "rat \<Rightarrow> rat \<Rightarrow> rat" where
  "fsub a b = fl64 (a - b)"

definition fmul :: "rat \<Rightarrow> rat \<Rightarrow> rat" where
  "fmul a b = fl64 (a * b)"

definition fdiv :: "rat \<Rightarrow> rat \<Rightarrow> rat" where
  "fdiv a b = fl64 (a / b)"

text \<open>\<^verbatim>\<open>math.sqrt\<close>, correctly rounded: an integer square root with about 63 bits and a
  sticky half, then one rounding to 53 bits.\<close>

function isqrt :: "int \<Rightarrow> int" where
  "isqrt n =
     (if n < 1 then 0
      else let r = 2 * isqrt (n div 4) in if (r + 1) * (r + 1) \<le> n then r + 1 else r)"
  by pat_completeness auto
termination
  by (relation "measure nat") auto

declare isqrt.simps [simp del]

definition fl_sqrt :: "rat \<Rightarrow> rat" where
  "fl_sqrt x =
     (if x \<le> 0 then 0
      else let k = (126 - expo 2 x) div 2;
               y = x * 4 powi k;
               s = isqrt \<lfloor>y\<rfloor>;
               t = (if of_int (s * s) = y then of_int s else of_int s + 1 / 2)
           in fl64 (t / 2 powi k))"

subsection \<open>Properties of the rounding\<close>

lemma round_half_even_err: "\<bar>of_int (round_half_even q) - q\<bar> \<le> 1 / 2"
proof -
  have "of_int \<lfloor>q\<rfloor> \<le> q" "q < of_int \<lfloor>q\<rfloor> + 1" by linarith+
  then show ?thesis
    by (auto simp: round_half_even_def Let_def abs_le_iff; linarith)
qed

lemma round_half_even_of_int [simp]: "round_half_even (of_int m) = m"
  by (simp add: round_half_even_def)

lemma round_half_even_ge: "of_int m \<le> q \<Longrightarrow> m \<le> round_half_even q"
  unfolding round_half_even_def Let_def using le_floor_iff [of m q] by auto

lemma round_half_even_le: "q \<le> of_int m \<Longrightarrow> round_half_even q \<le> m"
proof -
  assume le: "q \<le> of_int m"
  show ?thesis
  proof (cases "q = of_int m")
    case False
    with le have "\<lfloor>q\<rfloor> < m" by (simp add: floor_less_iff)
    then show ?thesis by (auto simp: round_half_even_def Let_def)
  qed simp
qed

lemma round_half_even_mono: "x \<le> y \<Longrightarrow> round_half_even x \<le> round_half_even y"
proof -
  assume le: "x \<le> y"
  show ?thesis
  proof (cases "\<lfloor>x\<rfloor> = \<lfloor>y\<rfloor>")
    case True
    with le show ?thesis by (auto simp: round_half_even_def Let_def)
  next
    case False
    with le have "\<lfloor>x\<rfloor> + 1 \<le> \<lfloor>y\<rfloor>" using floor_mono [of x y] by linarith
    moreover have "round_half_even x \<le> \<lfloor>x\<rfloor> + 1"
      by (rule round_half_even_le) linarith
    moreover have "\<lfloor>y\<rfloor> \<le> round_half_even y"
      by (rule round_half_even_ge) simp
    ultimately show ?thesis by linarith
  qed
qed

lemma pow_len_bounds:
  assumes "2 \<le> b" "1 \<le> n"
  shows "b ^ pow_len b n \<le> n \<and> n < b ^ Suc (pow_len b n)"
  using assms
proof (induction b n rule: pow_len.induct)
  case (1 b n)
  show ?case
  proof (cases "n < b")
    case True
    with 1 show ?thesis by (simp add: pow_len.simps [of b n])
  next
    case False
    with "1.prems" have *: "1 \<le> n div b"
      by (simp add: int_one_le_iff_zero_less pos_imp_zdiv_pos_iff)
    let ?k = "pow_len b (n div b)"
    have ih: "b ^ ?k \<le> n div b" "n div b + 1 \<le> b ^ Suc ?k"
      using "1.IH" False "1.prems" * by auto
    have n: "n = b * (n div b) + n mod b" by simp
    have m: "0 \<le> n mod b" "n mod b < b" using "1.prems" by auto
    have "b * b ^ ?k \<le> b * (n div b)" "b * (n div b + 1) \<le> b * b ^ Suc ?k"
      using ih "1.prems" by (auto intro!: mult_left_mono)
    moreover have "b * (n div b) \<le> n" "n < b * (n div b + 1)"
      using m n unfolding distrib_left by linarith+
    ultimately have "b * b ^ ?k \<le> n" "n < b * b ^ Suc ?k" by linarith+
    with False "1.prems" show ?thesis by (simp add: pow_len.simps [of b n])
  qed
qed

lemma expo_bounds:
  assumes b: "2 \<le> b" and q: "q \<noteq> 0"
  shows "of_int b powi expo b q \<le> \<bar>q\<bar>" "\<bar>q\<bar> < of_int b powi (expo b q + 1)"
proof -
  obtain n d where nd: "quotient_of \<bar>q\<bar> = (n, d)" by fastforce
  have d: "0 < d" using nd by (rule quotient_of_denom_pos)
  have q': "\<bar>q\<bar> = of_int n / of_int d" using nd by (rule quotient_of_div)
  have n: "0 < n" using q q' d by (simp add: zero_less_divide_iff flip: zero_less_abs_iff [of q])
  let ?k = "pow_len b n" and ?l = "pow_len b d"
  define B where "B = (of_int b :: rat)"
  have B: "2 \<le> B" unfolding B_def using b by (metis of_int_le_iff of_int_numeral)
  have kn: "B ^ ?k \<le> of_int n" "of_int n < B ^ Suc ?k"
    using pow_len_bounds [of b n] b n unfolding B_def
    by (metis int_one_le_iff_zero_less of_int_le_iff of_int_power)
       (metis pow_len_bounds b n int_one_le_iff_zero_less of_int_less_iff of_int_power)
  have ld: "B ^ ?l \<le> of_int d" "of_int d < B ^ Suc ?l"
    using pow_len_bounds [of b d] b d unfolding B_def
    by (metis int_one_le_iff_zero_less of_int_le_iff of_int_power)
       (metis pow_len_bounds b d int_one_le_iff_zero_less of_int_less_iff of_int_power)
  let ?e = "int ?k - int ?l"
  have lo: "B powi (?e - 1) \<le> \<bar>q\<bar>"
  proof -
    have "B powi (?e - 1) = B ^ ?k / B ^ Suc ?l"
      using B by (simp add: power_int_diff power_int_add field_simps)
    also have "\<dots> \<le> of_int n / of_int d"
      using kn ld B d n by (intro frac_le) auto
    finally show ?thesis using q' by simp
  qed
  have hi: "\<bar>q\<bar> < B powi (?e + 1)"
  proof -
    have "of_int n / of_int d < B ^ Suc ?k / B ^ ?l"
      using kn ld B d n by (intro frac_less) auto
    also have "\<dots> = B powi (?e + 1)"
      using B by (simp add: power_int_diff power_int_add field_simps)
    finally show ?thesis using q' by simp
  qed
  show "of_int b powi expo b q \<le> \<bar>q\<bar>" "\<bar>q\<bar> < of_int b powi (expo b q + 1)"
    using lo hi by (auto simp: expo_def nd Let_def B_def)
qed


lemma expo_unique:
  assumes b: "2 \<le> b" and "of_int b powi e \<le> \<bar>q\<bar>" "\<bar>q\<bar> < of_int b powi (e + 1)"
  shows "expo b q = e"
proof -
  have B: "1 < (of_int b :: rat)" using b by simp
  have "0 < (of_int b :: rat) powi e" using B by simp
  with assms(2) have q: "q \<noteq> 0" by auto
  have "(of_int b :: rat) powi expo b q < of_int b powi (e + 1)"
    using expo_bounds(1) [OF b q] assms(3) by linarith
  then have "expo b q < e + 1" using B power_int_increasing [of "e + 1" "expo b q" "of_int b :: rat"] by force
  moreover have "(of_int b :: rat) powi e < of_int b powi (expo b q + 1)"
    using expo_bounds(2) [OF b q] assms(2) by linarith
  then have "e < expo b q + 1" using B power_int_increasing [of "expo b q + 1" e "of_int b :: rat"] by force
  ultimately show ?thesis by linarith
qed

lemma expo_uminus [simp]: "expo b (- q) = expo b q"
  by (simp add: expo_def)

lemma round_half_even_uminus: "round_half_even (- q) = - round_half_even q"
proof -
  show ?thesis
  proof (cases "q \<in> \<int>")
    case True
    then obtain m where "q = of_int m" by (auto elim: Ints_cases)
    then show ?thesis using round_half_even_of_int [of m] round_half_even_of_int [of "- m"] by simp
  next
    case False
    have "of_int \<lfloor>q\<rfloor> \<noteq> q" using False by (metis Ints_of_int)
    then have "of_int \<lfloor>q\<rfloor> < q" "q < of_int \<lfloor>q\<rfloor> + 1" by linarith+
    then have "\<lfloor>- q\<rfloor> = - \<lfloor>q\<rfloor> - 1" by linarith
    then show ?thesis by (auto simp: round_half_even_def Let_def; linarith)
  qed
qed

lemma sig_round_0 [simp]: "sig_round b p 0 = 0"
  by (simp add: sig_round_def)

lemma sig_round_uminus: "sig_round b p (- q) = - sig_round b p q"
  by (simp add: sig_round_def Let_def round_half_even_uminus)

lemma sig_round_err:
  assumes b: "2 \<le> b"
  shows "\<bar>sig_round b p q - q\<bar> \<le> \<bar>q\<bar> * of_int b powi (1 - int p) / 2"
proof (cases "q = 0")
  case False
  define u where "u = (of_int b :: rat) powi (expo b q - (int p - 1))"
  have B: "2 \<le> (of_int b :: rat)" using b by (metis of_int_le_iff of_int_numeral)
  then have u: "0 < u" by (simp add: u_def)
  have "sig_round b p q - q = (of_int (round_half_even (q / u)) - q / u) * u"
    using False u unfolding sig_round_def Let_def u_def [symmetric] by (simp add: left_diff_distrib)
  then have "\<bar>sig_round b p q - q\<bar> = \<bar>of_int (round_half_even (q / u)) - q / u\<bar> * u"
    using u by (simp add: abs_mult)
  also have "\<dots> \<le> 1 / 2 * u"
    using round_half_even_err u by (intro mult_right_mono) auto
  also have "u = of_int b powi expo b q * of_int b powi (1 - int p)"
    using B by (simp add: u_def algebra_simps flip: power_int_add)
  also have "1 / 2 * \<dots> \<le> 1 / 2 * (\<bar>q\<bar> * of_int b powi (1 - int p))"
    using expo_bounds(1) [OF b False] B by (intro mult_left_mono mult_right_mono) auto
  finally show ?thesis by simp
qed simp

lemma sig_round_exact:
  assumes b: "2 \<le> b" and q: "q = of_int m * of_int b powi k" and m: "\<bar>m\<bar> < b ^ p"
  shows "sig_round b p q = q"
proof (cases "q = 0")
  case False
  have B: "1 < (of_int b :: rat)" using b by simp
  define j where "j = k - (expo b q - (int p - 1))"
  have "of_int b powi expo b q \<le> \<bar>q\<bar>" using expo_bounds(1) [OF b False] .
  also have "\<bar>q\<bar> = of_int \<bar>m\<bar> * of_int b powi k" using B by (simp add: q abs_mult)
  also have "\<dots> < of_int b ^ p * of_int b powi k"
    using m B by (intro mult_strict_right_mono) (auto simp flip: of_int_power)
  also have "\<dots> = of_int b powi (int p + k)" using B by (simp add: power_int_add)
  finally have "expo b q < int p + k"
    using B power_int_increasing [of "int p + k" "expo b q" "of_int b :: rat"] by force
  then have j: "0 \<le> j" by (simp add: j_def)
  have "q / of_int b powi (expo b q - (int p - 1)) = of_int m * of_int b powi j"
    using B by (simp add: q j_def power_int_diff)
  also have "\<dots> = of_int (m * b ^ nat j)" using j by (simp add: power_int_def)
  finally have "of_int (round_half_even (q / of_int b powi (expo b q - (int p - 1))))
      = q / of_int b powi (expo b q - (int p - 1))" by (metis round_half_even_of_int)
  then show ?thesis using False B by (simp add: sig_round_def Let_def)
qed simp

lemma sig_round_range:
  assumes b: "2 \<le> b" and p: "1 \<le> p" and q: "0 < q"
  shows "of_int b powi expo b q \<le> sig_round b p q" "sig_round b p q \<le> of_int b powi (expo b q + 1)"
proof -
  have B: "1 < (of_int b :: rat)" using b by simp
  define u where "u = (of_int b :: rat) powi (expo b q - (int p - 1))"
  have u: "0 < u" using B by (simp add: u_def)
  have lo: "of_int (b ^ (p - 1)) * u = of_int b powi expo b q"
  proof -
    have "of_int (b ^ (p - 1)) = (of_int b :: rat) powi (int p - 1)" using p by (simp add: power_int_def nat_diff_distrib)
    then show ?thesis using B by (simp add: u_def flip: power_int_add)
  qed
  have hi: "of_int (b ^ p) * u = of_int b powi (expo b q + 1)"
    using B by (simp add: u_def power_int_diff power_int_add field_simps)
  have "of_int (b ^ (p - 1)) \<le> q / u" "q / u \<le> of_int (b ^ p)"
    using expo_bounds [OF b, of q] q u lo hi by (simp_all add: pos_le_divide_eq pos_divide_le_eq)
  then have "b ^ (p - 1) \<le> round_half_even (q / u)" "round_half_even (q / u) \<le> b ^ p"
    by (auto intro: round_half_even_ge round_half_even_le)
  then have "of_int (b ^ (p - 1)) * u \<le> of_int (round_half_even (q / u)) * u"
     "of_int (round_half_even (q / u)) * u \<le> of_int (b ^ p) * u"
    using u by (auto intro!: mult_right_mono simp del: of_int_power)
  then show "of_int b powi expo b q \<le> sig_round b p q" "sig_round b p q \<le> of_int b powi (expo b q + 1)"
    using q lo hi by (simp_all add: sig_round_def Let_def flip: u_def)
qed

lemma sig_round_pos: "2 \<le> b \<Longrightarrow> 1 \<le> p \<Longrightarrow> 0 < q \<Longrightarrow> 0 < sig_round b p q"
  by (rule less_le_trans [OF _ sig_round_range(1)]) auto

lemma sig_round_nonneg: "2 \<le> b \<Longrightarrow> 1 \<le> p \<Longrightarrow> 0 \<le> q \<Longrightarrow> 0 \<le> sig_round b p q"
  using sig_round_pos [of b p q] by (cases "q = 0") auto

lemma expo_mono:
  assumes b: "2 \<le> b" and "0 < x" "x \<le> y"
  shows "expo b x \<le> expo b y"
proof -
  have B: "1 < (of_int b :: rat)" using b by simp
  have "of_int b powi expo b x < (of_int b powi (expo b y + 1) :: rat)"
    using expo_bounds(1) [OF b, of x] expo_bounds(2) [OF b, of y] assms by auto
  then have "expo b x < expo b y + 1"
    using B power_int_increasing [of "expo b y + 1" "expo b x" "of_int b :: rat"] by force
  then show ?thesis by simp
qed

lemma sig_round_mono_pos:
  assumes b: "2 \<le> b" and p: "1 \<le> p" and x: "0 < x" and xy: "x \<le> y"
  shows "sig_round b p x \<le> sig_round b p y"
proof (cases "expo b x = expo b y")
  case True
  have "0 < (of_int b :: rat)" using b by simp
  then show ?thesis using True x xy
    by (auto simp: sig_round_def Let_def intro!: mult_right_mono round_half_even_mono divide_right_mono)
next
  case False
  have B: "1 \<le> (of_int b :: rat)" using b by simp
  have "expo b x + 1 \<le> expo b y" using False expo_mono [OF b x xy] by simp
  then have "of_int b powi (expo b x + 1) \<le> (of_int b powi expo b y :: rat)"
    using B by (intro power_int_increasing) auto
  then show ?thesis using sig_round_range [OF b p x] sig_round_range [OF b p, of y] x xy by linarith
qed

lemma sig_round_mono:
  assumes b: "2 \<le> b" and p: "1 \<le> p" and xy: "x \<le> y"
  shows "sig_round b p x \<le> sig_round b p y"
proof -
  consider "0 < x" | "x \<le> 0" "0 \<le> y" | "y < 0" by linarith
  then show ?thesis
  proof cases
    case 1 then show ?thesis using sig_round_mono_pos [OF b p _ xy] by simp
  next
    case 2
    then have "0 \<le> sig_round b p (- x)" "0 \<le> sig_round b p y"
      using sig_round_nonneg [OF b p] by auto
    then show ?thesis by (simp add: sig_round_uminus)
  next
    case 3
    then have "sig_round b p (- y) \<le> sig_round b p (- x)"
      using sig_round_mono_pos [OF b p, of "- y" "- x"] xy by simp
    then show ?thesis by (simp add: sig_round_uminus)
  qed
qed

subsection \<open>Properties of the operations\<close>

lemma sig_round_idem:
  assumes b: "2 \<le> b" and p: "1 \<le> p"
  shows "sig_round b p (sig_round b p q) = sig_round b p q"
proof -
  have pos: "sig_round b p (sig_round b p x) = sig_round b p x" if x: "0 < x" for x
  proof -
    define k where "k = expo b x - (int p - 1)"
    define m where "m = round_half_even (x / of_int b powi k)"
    have B: "1 < (of_int b :: rat)" using b by simp
    have eq: "sig_round b p x = of_int m * of_int b powi k" using x by (simp add: sig_round_def k_def m_def Let_def)
    have "of_int m * of_int b powi k \<le> (of_int b :: rat) powi (expo b x + 1)"
      using sig_round_range(2) [OF b p x] eq by simp
    also have "\<dots> = of_int b powi (int p + k)" by (simp add: k_def)
    also have "\<dots> = of_int (b ^ p) * of_int b powi k" using B by (simp add: power_int_add)
    finally have "(of_int m :: rat) \<le> of_int (b ^ p)" using B by (simp only: mult_le_cancel_right) auto
    then have le: "m \<le> b ^ p" by linarith
    have "0 < (of_int m :: rat) * of_int b powi k" using sig_round_pos [OF b p x] eq by simp
    moreover have "0 < (of_int b :: rat) powi k" using B by simp
    ultimately have "0 < m" by (simp add: zero_less_mult_iff)
    show ?thesis
    proof (cases "m = b ^ p")
      case True
      then have "sig_round b p x = of_int 1 * of_int b powi (int p + k)" using eq B by (simp add: power_int_add)
      moreover have "\<bar>1\<bar> < b ^ p" using b p by (simp add: one_less_power)
      ultimately show ?thesis by (rule sig_round_exact [OF b])
    next
      case False
      with le \<open>0 < m\<close> show ?thesis by (intro sig_round_exact [OF b eq]) simp
    qed
  qed
  show ?thesis
  proof (cases "0 < q")
    case False
    then show ?thesis using pos [of "- q"] by (cases "q = 0") (auto simp: sig_round_uminus)
  qed (rule pos)
qed

lemma dec28_0 [simp]: "dec28 0 = 0"
  by (simp add: dec28_def)

lemma dec28_uminus: "dec28 (- q) = - dec28 q"
  by (simp add: dec28_def sig_round_uminus)

lemma dec28_idem [simp]: "dec28 (dec28 q) = dec28 q"
  by (simp add: dec28_def sig_round_idem)

lemma dec28_pos [numeric_facts]: "0 < q \<Longrightarrow> 0 < dec28 q"
  by (simp add: dec28_def sig_round_pos)

lemma dec28_nonneg [numeric_facts]: "0 \<le> q \<Longrightarrow> 0 \<le> dec28 q"
  by (simp add: dec28_def sig_round_nonneg)

lemma dec28_mono: "x \<le> y \<Longrightarrow> dec28 x \<le> dec28 y"
  by (simp add: dec28_def sig_round_mono)

lemma dec28_err: "\<bar>dec28 q - q\<bar> \<le> \<bar>q\<bar> / (2 * 10 ^ 27)"
proof -
  have "(10 :: rat) powi (1 - int 28) = 1 / 10 ^ 27"
    by (simp add: power_int_def power_one_over)
  then show ?thesis using sig_round_err [of 10 28 q] by (simp add: dec28_def)
qed

lemma dec28_exact:
  assumes "q * 10 ^ k = of_int m" and "\<bar>m\<bar> < 10 ^ 28"
  shows "dec28 q = q"
proof -
  have "q = of_int m * of_int 10 powi (- int k)"
    using assms(1) by (simp add: power_int_minus field_simps)
  then show ?thesis
    unfolding dec28_def using assms(2) by (intro sig_round_exact [where m = m]) auto
qed

lemma fl64_0 [simp]: "fl64 0 = 0"
  by (simp add: fl64_def)

lemma fl64_pos [numeric_facts]: "0 < q \<Longrightarrow> 0 < fl64 q"
  by (simp add: fl64_def sig_round_pos)

lemma fl64_nonneg [numeric_facts]: "0 \<le> q \<Longrightarrow> 0 \<le> fl64 q"
  by (simp add: fl64_def sig_round_nonneg)

lemma fl64_mono: "x \<le> y \<Longrightarrow> fl64 x \<le> fl64 y"
  by (simp add: fl64_def sig_round_mono)

lemma shortest_from_pos: "k \<le> 16 \<Longrightarrow> 0 < x \<Longrightarrow> 0 < shortest_from k x"
  by (induction k) (auto simp: Let_def intro!: sig_round_pos)

lemma dec_of_float_pos [numeric_facts]: "0 < x \<Longrightarrow> 0 < dec_of_float x"
  by (simp add: dec_of_float_def shortest_from_pos)

lemma dec_of_float_0 [simp]: "dec_of_float 0 = 0"
  by (simp add: dec_of_float_def numeral_eq_Suc Let_def)

lemma dec_of_float_nonneg [numeric_facts]: "0 \<le> x \<Longrightarrow> 0 \<le> dec_of_float x"
  using dec_of_float_pos [of x] by (cases "x = 0") auto

lemma ddiv_nonneg [numeric_facts]: "0 \<le> a \<Longrightarrow> 0 \<le> b \<Longrightarrow> 0 \<le> ddiv a b"
  by (simp add: ddiv_def dec28_nonneg)

lemma ddiv_pos [numeric_facts]: "0 < a \<Longrightarrow> 0 < b \<Longrightarrow> 0 < ddiv a b"
  by (simp add: ddiv_def dec28_pos)

lemma ddiv_0 [simp]: "ddiv 0 b = 0"
  by (simp add: ddiv_def)

lemma ddiv_mono: "a \<le> a' \<Longrightarrow> 0 < b \<Longrightarrow> ddiv a b \<le> ddiv a' b"
  by (simp add: ddiv_def dec28_mono divide_right_mono)

lemma ddiv_exact:
  "a / b * 10 ^ k = of_int m \<Longrightarrow> \<bar>m\<bar> < 10 ^ 28 \<Longrightarrow> ddiv a b = a / b"
  by (simp add: ddiv_def dec28_exact)

text \<open>A floored Decimal quotient overshoots the exact one by at most one part in \<open>10 ^ 27\<close>.\<close>

lemma floor_ddiv_le:
  assumes "0 \<le> a" and "0 < b"
  shows "of_int \<lfloor>ddiv a b\<rfloor> * b \<le> a * (1 + 1 / 10 ^ 27)"
proof -
  define q where "q = a / b"
  have q: "0 \<le> q" using assms by (simp add: q_def)
  have "ddiv a b \<le> q + q / (2 * 10 ^ 27)"
    using dec28_err [of q] q unfolding ddiv_def q_def [symmetric] abs_le_iff abs_of_nonneg [OF q]
    by linarith
  also have "\<dots> \<le> q * (1 + 1 / 10 ^ 27)"
    using q by (simp add: field_simps)
  finally have "ddiv a b \<le> a / b * (1 + 1 / 10 ^ 27)" by (simp add: q_def)
  then have "of_int \<lfloor>ddiv a b\<rfloor> \<le> a / b * (1 + 1 / 10 ^ 27)" by linarith
  then have "of_int \<lfloor>ddiv a b\<rfloor> * b \<le> a / b * (1 + 1 / 10 ^ 27) * b"
    using assms by (intro mult_right_mono) auto
  then show ?thesis using assms by simp
qed

lemma quantize_even_err: "0 < u \<Longrightarrow> \<bar>quantize_even q u - q\<bar> \<le> u / 2"
proof -
  assume u: "0 < u"
  then have "quantize_even q u - q = (of_int (round_half_even (q / u)) - q / u) * u"
    by (simp add: quantize_even_def left_diff_distrib)
  then have "\<bar>quantize_even q u - q\<bar> = \<bar>of_int (round_half_even (q / u)) - q / u\<bar> * u"
    using u by (simp add: abs_mult)
  also have "\<dots> \<le> 1 / 2 * u"
    using u round_half_even_err by (intro mult_right_mono) auto
  finally show ?thesis by simp
qed

lemma quantize_even_nonneg [numeric_facts]: "0 \<le> q \<Longrightarrow> 0 < u \<Longrightarrow> 0 \<le> quantize_even q u"
  using round_half_even_ge [of 0 "q / u"] by (simp add: quantize_even_def)

lemma round_half_up_nonneg: "0 \<le> q \<Longrightarrow> 0 \<le> round_half_up q"
  by (simp add: round_half_up_def)

lemma round_half_up_mono: "0 \<le> x \<Longrightarrow> x \<le> y \<Longrightarrow> round_half_up x \<le> round_half_up y"
  by (simp add: round_half_up_def floor_mono)

lemma quantize_up_nonneg [numeric_facts]: "0 \<le> q \<Longrightarrow> 0 < u \<Longrightarrow> 0 \<le> quantize_up q u"
  by (simp add: quantize_up_def round_half_up_nonneg)

lemma quantize_up_mono: "0 \<le> x \<Longrightarrow> x \<le> y \<Longrightarrow> 0 < u \<Longrightarrow> quantize_up x u \<le> quantize_up y u"
  by (simp add: quantize_up_def round_half_up_mono divide_right_mono)

lemma quantize_up_err: "0 \<le> q \<Longrightarrow> 0 < u \<Longrightarrow> \<bar>quantize_up q u - q\<bar> \<le> u / 2"
proof -
  assume q: "0 \<le> q" and u: "0 < u"
  have "\<bar>of_int (round_half_up (q / u)) - q / u\<bar> \<le> 1 / 2"
  proof -
    have "of_int \<lfloor>q / u + 1 / 2\<rfloor> \<le> q / u + 1 / 2" "q / u + 1 / 2 < of_int \<lfloor>q / u + 1 / 2\<rfloor> + 1"
      by linarith+
    moreover have "round_half_up (q / u) = \<lfloor>q / u + 1 / 2\<rfloor>"
      using q u by (simp add: round_half_up_def)
    ultimately show ?thesis unfolding abs_le_iff by linarith
  qed
  then have "\<bar>of_int (round_half_up (q / u)) - q / u\<bar> * u \<le> 1 / 2 * u"
    using u by (intro mult_right_mono) auto
  moreover have "quantize_up q u - q = (of_int (round_half_up (q / u)) - q / u) * u"
    using u by (simp add: quantize_up_def left_diff_distrib)
  ultimately show ?thesis using u by (simp add: abs_mult)
qed

lemma quantize_up_0 [simp]: "quantize_up 0 u = 0"
  by (simp add: quantize_up_def round_half_up_def floor_eq_iff)

lemma py_int_nonneg [numeric_facts]: "0 \<le> x \<Longrightarrow> 0 \<le> py_int x"
  by (simp add: py_int_def)

lemma py_int_le: "0 \<le> x \<Longrightarrow> of_int (py_int x) \<le> x"
  by (simp add: py_int_def)

lemma fmul_nonneg [numeric_facts]: "0 \<le> a \<Longrightarrow> 0 \<le> b \<Longrightarrow> 0 \<le> fmul a b"
  by (simp add: fmul_def fl64_nonneg)

lemma fadd_nonneg [numeric_facts]: "0 \<le> a \<Longrightarrow> 0 \<le> b \<Longrightarrow> 0 \<le> fadd a b"
  by (simp add: fadd_def fl64_nonneg)

lemma fdiv_nonneg [numeric_facts]: "0 \<le> a \<Longrightarrow> 0 \<le> b \<Longrightarrow> 0 \<le> fdiv a b"
  by (simp add: fdiv_def fl64_nonneg)

lemma isqrt_bounds:
  assumes "0 \<le> n"
  shows "0 \<le> isqrt n \<and> isqrt n * isqrt n \<le> n \<and> n < (isqrt n + 1) * (isqrt n + 1)"
  using assms
proof (induction n rule: isqrt.induct)
  case (1 n)
  show ?case
  proof (cases "n < 1")
    case True
    with "1.prems" show ?thesis by (simp add: isqrt.simps [of n])
  next
    case False
    let ?r = "isqrt (n div 4)"
    have "0 \<le> n div 4" using False by simp
    then have "0 \<le> ?r \<and> ?r * ?r \<le> n div 4 \<and> n div 4 < (?r + 1) * (?r + 1)"
      using "1.IH" False by blast
    then have r: "0 \<le> ?r" "?r * ?r \<le> n div 4" "n div 4 + 1 \<le> (?r + 1) * (?r + 1)"
      by linarith+
    have "4 * (n div 4) \<le> n" "n < 4 * (n div 4) + 4" by linarith+
    then have "2 * ?r * (2 * ?r) \<le> n" "n < (2 * ?r + 2) * (2 * ?r + 2)"
      using r by (auto simp: algebra_simps)
    with False r show ?thesis by (auto simp: isqrt.simps [of n] Let_def algebra_simps)
  qed
qed

lemma fl_sqrt_nonneg [numeric_facts]: "0 \<le> fl_sqrt x"
proof (cases "x \<le> 0")
  case False
  then have "0 \<le> isqrt \<lfloor>x * 4 powi ((126 - expo 2 x) div 2)\<rfloor>"
    using isqrt_bounds by simp
  with False show ?thesis by (auto simp: fl_sqrt_def Let_def intro!: fl64_nonneg)
qed (simp add: fl_sqrt_def)

subsection \<open>Fast evaluation\<close>

text \<open>Code equations for concrete runs: a value that has few digits is not rounded. They change what the
  simplifier evaluates, not what is defined.\<close>

lemma scaled_quotient:
  assumes "quotient_of q = (a, b)" "n mod b = 0" "0 < n" "\<bar>a\<bar> < m"
  obtains c where "q * of_int n = of_int c" "\<bar>c\<bar> < m * n"
proof -
  have q: "q = of_int a / of_int b" "0 < b"
    using assms(1) quotient_of_div quotient_of_denom_pos by auto
  obtain k where k: "n = b * k"
    using assms(2) by (auto simp: mod_eq_0_iff_dvd)
  have kp: "0 < k" "k \<le> n"
    using k q(2) assms(3) zero_less_mult_pos [of b k] mult_right_mono [of 1 b k] by auto
  have "\<bar>a * k\<bar> \<le> \<bar>a\<bar> * n"
    using kp by (simp add: abs_mult mult_left_mono)
  also have "\<dots> < m * n"
    using assms(3,4) by simp
  finally show thesis
    using q k by (intro that [of "a * k"]) simp_all
qed

lemma dec28_code [code]:
  "dec28 q = (let (a, b) = quotient_of q
     in if 10000000000 mod b = 0 \<and> \<bar>a\<bar> < 1000000000000000000 then q else sig_round 10 28 q)"
proof -
  obtain a b where ab: "quotient_of q = (a, b)" by fastforce
  have "dec28 q = q" if m: "10000000000 mod b = 0" and l: "\<bar>a\<bar> < 1000000000000000000"
  proof -
    obtain c where "q * of_int 10000000000 = of_int c" "\<bar>c\<bar> < 1000000000000000000 * 10000000000"
      using scaled_quotient [OF ab m _ l] by auto
    then show ?thesis
      by (intro dec28_exact [of q 10 c]) simp_all
  qed
  then show ?thesis
    by (auto simp: ab dec28_def)
qed

lemma fl64_code [code]:
  "fl64 q = (let (a, b) = quotient_of q
     in if 1048576 mod b = 0 \<and> \<bar>a\<bar> < 8589934592 then q else sig_round 2 53 q)"
proof -
  obtain a b where ab: "quotient_of q = (a, b)" by fastforce
  have "fl64 q = q" if m: "1048576 mod b = 0" and l: "\<bar>a\<bar> < 8589934592"
  proof -
    obtain c where c: "q * of_int 1048576 = of_int c" "\<bar>c\<bar> < 8589934592 * 1048576"
      using scaled_quotient [OF ab m _ l] by auto
    have "q = of_int c * of_int 2 powi - 20"
      using c(1) by (simp add: power_int_minus field_simps)
    then show ?thesis
      unfolding fl64_def using c(2) by (intro sig_round_exact [of 2 q c "- 20"]) simp_all
  qed
  then show ?thesis
    by (auto simp: ab fl64_def)
qed

lemma dec_of_float_code [code]:
  "dec_of_float x = (let (a, b) = quotient_of x in if b = 1 \<and> \<bar>a\<bar> < 10 then x else shortest_from 16 x)"
proof -
  obtain a b where ab: "quotient_of x = (a, b)" by fastforce
  have "dec_of_float x = x" if "b = 1" "\<bar>a\<bar> < 10"
  proof -
    have x: "x = of_int a * of_int 10 powi 0" "x = of_int a * of_int 2 powi 0"
      using quotient_of_div [OF ab] that(1) by simp_all
    have "sig_round 10 1 x = x" "fl64 x = x"
      using sig_round_exact [OF _ x(1), of 1] sig_round_exact [OF _ x(2), of 53] that(2) by (simp_all add: fl64_def)
    then show ?thesis
      by (simp add: dec_of_float_def numeral_eq_Suc)
  qed
  then show ?thesis
    by (auto simp: ab dec_of_float_def)
qed

text \<open>A tenth is not a double, and its shortest decimal is a tenth again.\<close>

lemma fl64_tenth: "fl64 (1 / 10) = 3602879701896397 / 2 ^ 55"
  by code_simp

lemma dec_of_float_tenth: "dec_of_float (fl64 (1 / 10)) = 1 / 10"
  by code_simp

end
