(* ===== verification/Domain_Types.thy ===== *)
theory Domain_Types
  imports Py_Numeric
begin

section \<open>Canonical domain types\<close>

text \<open>
  The records and enumerations of \<^verbatim>\<open>src/domain/types.py\<close> that the modelled components
  exchange, with the predicates of their Pydantic validators.

  Prices and money (\<^verbatim>\<open>Decimal\<close>) and market data (\<^verbatim>\<open>float\<close>) are \<^typ>\<open>rat\<close> values;
  quantities are \<^typ>\<open>int\<close>. A timezone-aware instant is the number of microseconds since the
  Unix epoch (\<open>ts\<close>), a calendar date the number of days since 1970-01-01 (\<open>date\<close>). A
  validator that raises \<^verbatim>\<open>ValueError\<close> is a predicate: the record can be built exactly
  where it holds. Free-text fields that are only displayed (messages, observed values) are left
  out.
\<close>

type_synonym ts = int
type_synonym date = int

subsection \<open>Enumerations\<close>

datatype side = BUY | SELL

fun side_sign :: "side \<Rightarrow> int" where
  "side_sign BUY = 1"
| "side_sign SELL = - 1"

fun opposite :: "side \<Rightarrow> side" where
  "opposite BUY = SELL"
| "opposite SELL = BUY"

datatype order_type = MARKET | LIMIT | SL | SL_M

datatype product = MIS | CNC | NRML | MTF

datatype validity = DAY | IOC

datatype order_status =
    PENDING_NEW | SUBMITTED | UNKNOWN | OPEN | TRIGGER_PENDING | PARTIALLY_FILLED
  | PENDING_CANCEL | PENDING_MODIFY | FILLED | CANCELLED | REJECTED | EXPIRED

definition is_terminal :: "order_status \<Rightarrow> bool" where
  "is_terminal s = (s \<in> {FILLED, CANCELLED, REJECTED, EXPIRED})"

datatype intent_kind = KOpen | KIncrease | KReduce | KClose | KFlatten

definition reduces_risk :: "intent_kind \<Rightarrow> bool" where
  "reduces_risk k = (k \<in> {KReduce, KClose, KFlatten})"

datatype intent_reason =
    RsEntry | RsStop | RsTarget | RsTrail | RsPartial | RsTime | RsSquareOff | RsFlatten | RsOperator

datatype intent_source = SignalEngine | ExitManagerSrc | KillSwitchSrc | OperatorSrc

datatype market_data_source = YFINANCE | DHAN | REPLAY | SIMULATED | SYNTHETIC

definition is_fabricated :: "market_data_source \<Rightarrow> bool" where
  "is_fabricated s = (s \<in> {SIMULATED, SYNTHETIC})"

datatype session_state =
    SsHoliday | SsPreOpen | SsOpen | SsEntryWindow | SsMonitor | SsClose | SsReport | SsExit

datatype kill_switch_state = ARMED | HALT_NEW | FLATTEN

datatype kill_scope = GlobalScope | StrategyScope | BrokerScope

datatype check_level = LvOrder | LvStrategy | LvPortfolio | LvSystem

datatype check_outcome = ALLOW | RESIZE | BLOCK

datatype risk_outcome = RoApproved | RoResized | RoRejected | RoHalted

text \<open>The reason codes, grouped as the enumeration groups them: by the prefix of their names.\<close>

datatype ord_code =
    ORD_QTY_NONPOS | ORD_NOTIONAL_MAX | ORD_RISK_PER_TRADE | ORD_STOP_WRONG_SIDE
  | ORD_STOP_TOO_WIDE | ORD_STOP_TOO_TIGHT | ORD_RR_MIN | ORD_PRICE_COLLAR | ORD_ADV_PCT
  | ORD_CIRCUIT_BAND | ORD_TICK | ORD_SHORT_NOT_ALLOWED | ORD_REDUCE_EXCEEDS_POS

datatype evt_code = EVT_RESULTS_WINDOW | EVT_ADVERSE_MAJOR

datatype str_code =
    STR_HALTED | STR_NOT_VALIDATED | STR_CAPITAL_ALLOC | STR_DAILY_LOSS | STR_CONSEC_LOSSES
  | STR_ORDER_RATE

datatype pf_code =
    PF_MAX_POSITIONS | PF_DUPLICATE | PF_REENTRY_SAME_DAY | PF_GROSS | PF_NET | PF_SECTOR
  | PF_HEAT | PF_CASH | PF_DAILY_LOSS_MTM | PF_DRAWDOWN | PF_ENTRIES_PER_DAY

datatype sys_code =
    SYS_KILL_GLOBAL | SYS_KILL_BROKER | SYS_SESSION_CLOSED | SYS_HOLIDAY | SYS_ENTRY_CUTOFF
  | SYS_DATA_STALE | SYS_DATA_SIMULATED | SYS_MAX_OPEN_ORDERS | SYS_ORDER_RATE | SYS_REJECT_STORM
  | SYS_UNKNOWN_ORDER | SYS_LLM_DEGRADED | SYS_JOURNAL_NOT_DURABLE | SYS_RECON_DRIFT
  | SYS_CHECK_ERROR

datatype reason_code =
    Ord ord_code | Evt evt_code | Str str_code | Pf pf_code | Sys sys_code

fun rc_prefix :: "reason_code \<Rightarrow> string" where
  "rc_prefix (Ord c) = ''ORD''"
| "rc_prefix (Evt c) = ''EVT''"
| "rc_prefix (Str c) = ''STR''"
| "rc_prefix (Pf c) = ''PF''"
| "rc_prefix (Sys c) = ''SYS''"

definition level_by_prefix :: "(string, check_level) dict" where
  "level_by_prefix =
     [(''ORD'', LvOrder), (''EVT'', LvOrder), (''STR'', LvStrategy), (''PF'', LvPortfolio),
      (''SYS'', LvSystem)]"

definition rc_level :: "reason_code \<Rightarrow> check_level result" where
  "rc_level c = (case dget level_by_prefix (rc_prefix c) of None \<Rightarrow> Inl KeyError | Some l \<Rightarrow> Inr l)"

lemma rc_level_total: "\<exists>l. rc_level c = Inr l"
  by (cases c) (simp_all add: rc_level_def level_by_prefix_def)

datatype advisor_kind = AdvNone | TypedVeto | LlmVeto

datatype verdict = APPROVE | VETO | ABSTAIN

datatype announcement_type =
    AtResults | AtResultsDate | AtDividend | AtSplitBonus | AtPledge | AtInsiderOrPromoter
  | AtOrderWin | AtLitigation | AtManagementChange | AtRatingChange | AtFundraise | AtOther

datatype event_direction = EdPositive | EdNegative | EdNeutral | EdUnclear

datatype materiality = Minor | Moderate | Major

subsection \<open>Reference and market data\<close>

record instrument =
  ins_key :: string
  ins_exchange :: string
  ins_segment :: string
  ins_symbol :: string
  ins_series :: string
  ins_isin :: string
  ins_name :: string
  ins_sector :: "string option"
  ins_tick_size :: rat
  ins_lot_size :: int
  ins_mis_allowed :: bool
  ins_band_pct :: "rat option"

definition instrument_valid :: "instrument \<Rightarrow> bool" where
  "instrument_valid i =
     (ins_key i = ins_exchange i @ '':'' @ ins_series i @ '':'' @ ins_symbol i
      \<and> ins_exchange i \<noteq> [] \<and> ins_segment i \<noteq> [] \<and> ins_symbol i \<noteq> [] \<and> ins_series i \<noteq> []
      \<and> 0 < ins_tick_size i \<and> 0 < ins_lot_size i
      \<and> (case ins_band_pct i of None \<Rightarrow> True | Some b \<Rightarrow> 0 < b))"

definition nse_equity :: "string \<Rightarrow> instrument" where
  "nse_equity symbol =
     \<lparr>ins_key = ''NSE:EQ:'' @ symbol, ins_exchange = ''NSE'', ins_segment = ''CM'',
      ins_symbol = symbol, ins_series = ''EQ'', ins_isin = '''', ins_name = '''',
      ins_sector = None, ins_tick_size = 5 / 100, ins_lot_size = 1, ins_mis_allowed = True,
      ins_band_pct = None\<rparr>"

lemma nse_equity_valid: "symbol \<noteq> [] \<Longrightarrow> instrument_valid (nse_equity symbol)"
  by (simp add: instrument_valid_def nse_equity_def)

record quote =
  q_instrument_key :: string
  q_ltp :: rat
  q_bid :: "rat option"
  q_ask :: "rat option"
  q_prev_close :: "rat option"
  q_volume_cum :: int
  q_exchange_ts :: ts
  q_receipt_ts :: ts
  q_source :: market_data_source
  q_is_delayed :: bool

text \<open>\<open>total_seconds\<close> is the microsecond difference over a million, as a float.\<close>

definition age_seconds :: "quote \<Rightarrow> ts \<Rightarrow> rat" where
  "age_seconds q now = fdiv (of_int (now - q_exchange_ts q)) (10 ^ 6)"

definition quote_valid :: "quote \<Rightarrow> bool" where
  "quote_valid q =
     (q_instrument_key q \<noteq> [] \<and> 0 < q_ltp q
      \<and> (case q_bid q of None \<Rightarrow> True | Some x \<Rightarrow> 0 < x)
      \<and> (case q_ask q of None \<Rightarrow> True | Some x \<Rightarrow> 0 < x)
      \<and> (case q_prev_close q of None \<Rightarrow> True | Some x \<Rightarrow> 0 < x)
      \<and> 0 \<le> q_volume_cum q)"

subsection \<open>Decisions\<close>

record signal =
  sg_signal_id :: string
  sg_decision_id :: string
  sg_instrument_key :: string
  sg_strategy :: string
  sg_side :: side
  sg_bar_date :: date
  sg_agreement_score :: rat
  sg_stop_atr_mult :: rat
  sg_target_atr_mult :: rat
  sg_is_shadow :: bool
  sg_generated_at :: ts

record order_intent =
  i_intent_id :: string
  i_decision_id :: string
  i_parent_decision_id :: "string option"
  i_book_id :: string
  i_strategy :: string
  i_signal_id :: "string option"
  i_instrument :: instrument
  i_side :: side
  i_kind :: intent_kind
  i_quantity :: "int option"
  i_order_type :: order_type
  i_product :: product
  i_validity :: validity
  i_limit_price :: "rat option"
  i_trigger_price :: "rat option"
  i_stop_price :: "rat option"
  i_target_price :: "rat option"
  i_reduce_only :: bool
  i_decision_price :: rat
  i_decision_ts :: ts
  i_reason :: intent_reason
  i_source :: intent_source

definition intent_valid :: "order_intent \<Rightarrow> bool" where
  "intent_valid i =
     (i_reduce_only i = reduces_risk (i_kind i)
      \<and> (i_order_type i = LIMIT \<longrightarrow> i_limit_price i \<noteq> None)
      \<and> (i_order_type i \<in> {SL, SL_M} \<longrightarrow> i_trigger_price i \<noteq> None)
      \<and> (i_order_type i = SL \<longrightarrow> i_limit_price i \<noteq> None)
      \<and> (case i_quantity i of None \<Rightarrow> True | Some q \<Rightarrow> 0 < q)
      \<and> 0 < i_decision_price i)"

abbreviation i_key :: "order_intent \<Rightarrow> string" where
  "i_key i \<equiv> ins_key (i_instrument i)"

record order =
  o_client_order_id :: string
  o_intent :: order_intent
  o_quantity :: int
  o_status :: order_status
  o_broker_order_id :: "string option"
  o_filled_qty :: int
  o_avg_fill_price :: "rat option"
  o_submitted_at :: "ts option"
  o_version :: int

definition order_valid :: "order \<Rightarrow> bool" where
  "order_valid o' =
     (0 < o_quantity o' \<and> 0 \<le> o_filled_qty o' \<and> o_filled_qty o' \<le> o_quantity o'
      \<and> (0 < o_filled_qty o' \<longrightarrow> o_avg_fill_price o' \<noteq> None))"

definition remaining_qty :: "order \<Rightarrow> int" where
  "remaining_qty o' = o_quantity o' - o_filled_qty o'"

record fill =
  f_fill_id :: string
  f_client_order_id :: string
  f_broker_order_id :: "string option"
  f_book_id :: string
  f_decision_id :: string
  f_instrument_key :: string
  f_side :: side
  f_quantity :: int
  f_price :: rat
  f_ts :: ts
  f_charges :: rat

definition fill_valid :: "fill \<Rightarrow> bool" where
  "fill_valid f = (0 < f_quantity f \<and> 0 < f_price f \<and> 0 \<le> f_charges f)"

definition fill_notional :: "fill \<Rightarrow> rat" where
  "fill_notional f = f_price f * of_int (f_quantity f)"

record position =
  p_book_id :: string
  p_instrument_key :: string
  p_product :: product
  p_quantity :: int
  p_avg_price :: "rat option"
  p_realized_pnl :: rat
  p_updated_at :: ts

definition position_valid :: "position \<Rightarrow> bool" where
  "position_valid p =
     ((p_quantity p = 0) = (p_avg_price p = None)
      \<and> (case p_avg_price p of None \<Rightarrow> True | Some a \<Rightarrow> 0 < a))"

subsection \<open>Risk records\<close>

record risk_check_result =
  rr_code :: reason_code
  rr_outcome :: check_outcome
  rr_max_qty :: "int option"

definition rcr_valid :: "risk_check_result \<Rightarrow> bool" where
  "rcr_valid r =
     ((rr_outcome r = RESIZE) = (rr_max_qty r \<noteq> None)
      \<and> (case rr_max_qty r of None \<Rightarrow> True | Some q \<Rightarrow> 0 \<le> q))"

record kill_state =
  ks_global :: kill_switch_state
  ks_broker :: kill_switch_state
  ks_strategies :: "(string, kill_switch_state) dict"

record risk_snapshot_summary =
  rs_equity :: rat
  rs_sod_equity :: rat
  rs_day_pnl_mtm :: rat
  rs_peak_equity :: rat
  rs_gross_exposure :: rat
  rs_net_exposure :: rat
  rs_heat :: rat
  rs_open_positions :: int
  rs_open_orders :: int
  rs_quote_age_s :: "rat option"
  rs_data_source :: "market_data_source option"

record risk_decision =
  rd_decision_id :: string
  rd_intent_id :: string
  rd_client_order_id :: string
  rd_book_id :: string
  rd_strategy :: string
  rd_signal_id :: "string option"
  rd_instrument_key :: string
  rd_side :: side
  rd_product :: product
  rd_kind :: intent_kind
  rd_source :: intent_source
  rd_qty_requested :: "int option"
  rd_qty_approved :: int
  rd_ref_price :: "rat option"
  rd_stop_price :: "rat option"
  rd_target_price :: "rat option"
  rd_outcome :: risk_outcome
  rd_notional :: rat
  rd_risk_amount :: rat
  rd_reasons :: "risk_check_result list"
  rd_checks_run :: "reason_code list"
  rd_snapshot :: risk_snapshot_summary
  rd_kill_state :: kill_state
  rd_evaluated_at :: ts

definition decision_valid :: "risk_decision \<Rightarrow> bool" where
  "decision_valid d =
     ((rd_outcome d \<in> {RoApproved, RoResized}) = (0 < rd_qty_approved d)
      \<and> 0 \<le> rd_qty_approved d
      \<and> (rd_outcome d \<notin> {RoApproved, RoResized} \<longrightarrow> rd_reasons d \<noteq> [])
      \<and> (case rd_qty_requested d of None \<Rightarrow> True | Some q \<Rightarrow> 0 < q)
      \<and> 0 \<le> rd_notional d \<and> 0 \<le> rd_risk_amount d)"

subsection \<open>Typed events\<close>

record typed_event =
  te_event_id :: string
  te_instrument_key :: string
  te_published_at :: ts
  te_relevant :: bool
  te_announcement_type :: "announcement_type option"
  te_direction :: "event_direction option"
  te_materiality :: "materiality option"
  te_event_date :: "date option"

end
