(* ===== verification/Calendar.thy ===== *)
theory Calendar
  imports Domain_Types
begin

section \<open>The exchange calendar\<close>

text \<open>
  \<^verbatim>\<open>src/domain/calendar.py\<close> and the fixed IST offset of \<^verbatim>\<open>src/utils/market_time.py\<close>.
  A time of day is a number of microseconds since midnight. The JSON file is given parsed: the
  years with their holidays and special sessions. Dates outside the covered years raise, and so
  does a scan that leaves them.
\<close>

subsection \<open>Dates and instants\<close>

abbreviation us_per_day :: int where
  "us_per_day \<equiv> 86400000000"

abbreviation ist_offset :: int where
  "ist_offset \<equiv> 19800000000"

definition hm :: "int \<Rightarrow> int \<Rightarrow> int" where
  "hm h m = (h * 60 + m) * 60000000"

definition ist_date :: "ts \<Rightarrow> date" where
  "ist_date t = (t + ist_offset) div us_per_day"

definition combine_ist :: "date \<Rightarrow> int \<Rightarrow> ts" where
  "combine_ist d tod = d * us_per_day + tod - ist_offset"

definition weekday :: "date \<Rightarrow> int" where
  "weekday d = (d + 3) mod 7"

text \<open>The first of January of a year of the proleptic Gregorian calendar.\<close>

definition jan1 :: "int \<Rightarrow> date" where
  "jan1 y = 365 * (y - 1970) + (y - 1) div 4 - (y - 1) div 100 + (y - 1) div 400 - 477"

definition year_of :: "date \<Rightarrow> int" where
  "year_of d =
     (let y = 1970 + 400 * d div 146097
      in if d < jan1 y then y - 1 else if jan1 (y + 1) \<le> d then y + 1 else y)"

subsection \<open>The calendar\<close>

record session_times =
  st_pre_open :: int
  st_open :: int
  st_close :: int

definition session_times_ok :: "session_times \<Rightarrow> bool" where
  "session_times_ok s = (st_pre_open s \<le> st_open s \<and> st_open s < st_close s)"

record session =
  se_day :: date
  se_pre_open :: ts
  se_open :: ts
  se_close :: ts
  se_special :: "string option"

definition contains :: "session \<Rightarrow> ts \<Rightarrow> bool" where
  "contains s t = (se_open s \<le> t \<and> t < se_close s)"

record nse_calendar =
  cal_default :: session_times
  cal_years :: "int list"
  cal_holidays :: "(date, string) dict"
  cal_specials :: "(date, string \<times> session_times option) dict"

record year_spec =
  ys_holidays :: "(date \<times> string) list"
  ys_specials :: "(date \<times> string \<times> session_times option) list"

fun add_holidays :: "int \<Rightarrow> (date \<times> string) list \<Rightarrow> (date, string) dict \<Rightarrow> (date, string) dict result" where
  "add_holidays y [] hs = Inr hs"
| "add_holidays y ((d, name) # rest) hs =
     (if year_of d \<noteq> y then Inl ValueError else add_holidays y rest (dset d name hs))"

fun add_specials ::
  "int \<Rightarrow> (date \<times> string \<times> session_times option) list
    \<Rightarrow> (date, string \<times> session_times option) dict \<Rightarrow> (date, string \<times> session_times option) dict result" where
  "add_specials y [] ss = Inr ss"
| "add_specials y ((d, name, tms) # rest) ss =
     (if year_of d \<noteq> y then Inl ValueError
      else if (case tms of None \<Rightarrow> False | Some t \<Rightarrow> \<not> session_times_ok t) then Inl ValueError
      else add_specials y rest (dset d (name, tms) ss))"

fun add_years :: "(int \<times> year_spec) list \<Rightarrow> nse_calendar \<Rightarrow> nse_calendar result" where
  "add_years [] cal = Inr cal"
| "add_years ((y, spec) # rest) cal =
     (case add_holidays y (ys_holidays spec) (cal_holidays cal) of
        Inl e \<Rightarrow> Inl e
      | Inr hs \<Rightarrow>
          (case add_specials y (ys_specials spec) (cal_specials cal) of
             Inl e \<Rightarrow> Inl e
           | Inr ss \<Rightarrow> add_years rest (cal\<lparr>cal_holidays := hs, cal_specials := ss\<rparr>)))"

definition new_calendar :: "int \<Rightarrow> session_times \<Rightarrow> (int \<times> year_spec) list \<Rightarrow> nse_calendar result" where
  "new_calendar schema_version dflt years =
     (if schema_version \<noteq> 1 then Inl ValueError
      else if \<not> session_times_ok dflt then Inl ValueError
      else add_years years
             \<lparr>cal_default = dflt, cal_years = map fst years, cal_holidays = [], cal_specials = []\<rparr>)"

definition covers :: "nse_calendar \<Rightarrow> date \<Rightarrow> bool" where
  "covers cal d = (year_of d \<in> set (cal_years cal))"

definition holiday_name :: "nse_calendar \<Rightarrow> date \<Rightarrow> string option result" where
  "holiday_name cal d =
     (if \<not> covers cal d then Inl CalendarCoverageError else Inr (dget (cal_holidays cal) d))"

definition make_session :: "date \<Rightarrow> session_times \<Rightarrow> string option \<Rightarrow> session" where
  "make_session d tms special =
     \<lparr>se_day = d, se_pre_open = combine_ist d (st_pre_open tms), se_open = combine_ist d (st_open tms),
      se_close = combine_ist d (st_close tms), se_special = special\<rparr>"

definition session_on :: "nse_calendar \<Rightarrow> date \<Rightarrow> session option result" where
  "session_on cal d =
     (if \<not> covers cal d then Inl CalendarCoverageError
      else case dget (cal_specials cal) d of
             Some (name, None) \<Rightarrow> Inr None
           | Some (name, Some tms) \<Rightarrow> Inr (Some (make_session d tms (Some name)))
           | None \<Rightarrow>
               if 5 \<le> weekday d \<or> dget (cal_holidays cal) d \<noteq> None then Inr None
               else Inr (Some (make_session d (cal_default cal) None)))"

definition is_trading_day :: "nse_calendar \<Rightarrow> date \<Rightarrow> bool result" where
  "is_trading_day cal d = (case session_on cal d of Inl e \<Rightarrow> Inl e | Inr s \<Rightarrow> Inr (s \<noteq> None))"

definition max_scan_days :: nat where
  "max_scan_days = 31"

fun scan_from :: "nse_calendar \<Rightarrow> nat \<Rightarrow> date \<Rightarrow> int \<Rightarrow> date result" where
  "scan_from cal 0 candidate step = Inl CalendarCoverageError"
| "scan_from cal (Suc n) candidate step =
     (case is_trading_day cal (candidate + step) of
        Inl e \<Rightarrow> Inl e
      | Inr True \<Rightarrow> Inr (candidate + step)
      | Inr False \<Rightarrow> scan_from cal n (candidate + step) step)"

definition next_trading_day :: "nse_calendar \<Rightarrow> date \<Rightarrow> date result" where
  "next_trading_day cal d = scan_from cal max_scan_days d 1"

definition previous_trading_day :: "nse_calendar \<Rightarrow> date \<Rightarrow> date result" where
  "previous_trading_day cal d = scan_from cal max_scan_days d (- 1)"

function trading_days :: "nse_calendar \<Rightarrow> date \<Rightarrow> date \<Rightarrow> date list result" where
  "trading_days cal d e =
     (if e < d then Inr []
      else case is_trading_day cal d of
             Inl err \<Rightarrow> Inl err
           | Inr b \<Rightarrow> (case trading_days cal (d + 1) e of
                         Inl err \<Rightarrow> Inl err
                       | Inr ds \<Rightarrow> Inr (if b then d # ds else ds)))"
  by pat_completeness auto
termination
  by (relation "measure (\<lambda>(cal, d, e). nat (e + 1 - d))") auto

declare trading_days.simps [simp del]

definition is_market_open :: "nse_calendar \<Rightarrow> ts \<Rightarrow> bool result" where
  "is_market_open cal t =
     (case session_on cal (ist_date t) of
        Inl e \<Rightarrow> Inl e
      | Inr None \<Rightarrow> Inr False
      | Inr (Some s) \<Rightarrow> Inr (contains s t))"

definition next_session :: "nse_calendar \<Rightarrow> ts \<Rightarrow> session result" where
  "next_session cal t =
     (case session_on cal (ist_date t) of
        Inl e \<Rightarrow> Inl e
      | Inr today \<Rightarrow>
          (if (case today of None \<Rightarrow> False | Some s \<Rightarrow> t < se_close s) then Inr (the today)
           else case next_trading_day cal (ist_date t) of
                  Inl e \<Rightarrow> Inl e
                | Inr d \<Rightarrow> (case session_on cal d of
                             Inl e \<Rightarrow> Inl e
                           | Inr None \<Rightarrow> Inl RuntimeError
                           | Inr (Some s) \<Rightarrow> Inr s)))"

subsection \<open>Dates\<close>

lemma jan1_bounds:
  "146097 * (y - 1970) - 400 * 2 \<le> 400 * jan1 y" "400 * jan1 y \<le> 146097 * (y - 1970) + 400 * 2"
proof -
  define a b c where "a = (y - 1) div 4" "b = (y - 1) div 100" "c = (y - 1) div 400"
  have d: "a * 4 \<le> y - 1" "y - 1 < a * 4 + 4" "b * 100 \<le> y - 1" "y - 1 < b * 100 + 100"
    "c * 400 \<le> y - 1" "y - 1 < c * 400 + 400" unfolding a_b_c_def by (simp; linarith)+
  have j: "jan1 y = 365 * (y - 1970) + a - b + c - 477" by (simp add: jan1_def a_b_c_def)
  show "146097 * (y - 1970) - 400 * 2 \<le> 400 * jan1 y" unfolding j using d by (simp add: algebra_simps)
  show "400 * jan1 y \<le> 146097 * (y - 1970) + 400 * 2" unfolding j using d by (simp add: algebra_simps)
qed

lemma year_of_bounds: "jan1 (year_of d) \<le> d \<and> d < jan1 (year_of d + 1)"
proof -
  define y where "y = 1970 + 400 * d div 146097"
  have "146097 * (y - 1970) \<le> 400 * d" by (simp add: y_def)
  moreover have "400 * d < 146097 * (y - 1970) + 146097" unfolding y_def by (simp; linarith)
  ultimately have "jan1 (y - 1) \<le> d \<and> d < jan1 (2 + y)"
    using jan1_bounds [of "y - 1"] jan1_bounds [of "2 + y"] by (simp add: algebra_simps)
  then show ?thesis by (simp add: year_of_def Let_def flip: y_def)
qed

lemma ist_date_combine: "0 \<le> tod \<Longrightarrow> tod < us_per_day \<Longrightarrow> ist_date (combine_ist d tod) = d"
  by (simp add: ist_date_def combine_ist_def)

subsection \<open>Scanning\<close>

lemma scan_from_sound:
  assumes "scan_from cal n c step = Inr d"
  shows "\<exists>k \<ge> 1. d = c + int k * step \<and> k \<le> n \<and> is_trading_day cal d = Inr True
    \<and> (\<forall>j. 0 < j \<longrightarrow> j < k \<longrightarrow> is_trading_day cal (c + int j * step) = Inr False)"
  using assms
proof (induction n arbitrary: c)
  case (Suc n)
  show ?case
  proof (cases "is_trading_day cal (c + step) = Inr True")
    case True
    with Suc.prems show ?thesis by (intro exI [of _ 1]) auto
  next
    case False
    with Suc.prems have f: "is_trading_day cal (c + step) = Inr False" "scan_from cal n (c + step) step = Inr d"
      by (auto split: sum.splits bool.splits)
    from Suc.IH [OF f(2)] obtain k where k: "1 \<le> k" "d = c + step + int k * step" "k \<le> n"
      "is_trading_day cal d = Inr True"
      "\<And>j. 0 < j \<Longrightarrow> j < k \<Longrightarrow> is_trading_day cal (c + step + int j * step) = Inr False"
      by blast
    have "is_trading_day cal (c + int j * step) = Inr False" if "0 < j" "j < Suc k" for j
      using f(1) k(5) [of "j - 1"] that by (cases "j = 1") (auto simp: algebra_simps of_nat_diff)
    with k show ?thesis by (intro exI [of _ "Suc k"]) (auto simp: algebra_simps)
  qed
qed simp

lemma scan_from_complete:
  assumes "is_trading_day cal (c + int k * step) = Inr True" "1 \<le> k" "k \<le> n"
    and "\<And>j. 0 < j \<Longrightarrow> j < k \<Longrightarrow> is_trading_day cal (c + int j * step) = Inr False"
  shows "scan_from cal n c step = Inr (c + int k * step)"
  using assms
proof (induction k arbitrary: n c)
  case (Suc k)
  then obtain m where n: "n = Suc m" by (cases n) auto
  show ?case
  proof (cases "k = 0")
    case True
    with Suc.prems n show ?thesis by simp
  next
    case False
    have "is_trading_day cal (c + step) = Inr False" using Suc.prems(4) [of 1] False by simp
    moreover have "scan_from cal m (c + step) step = Inr (c + step + int k * step)"
    proof (rule Suc.IH)
      show "is_trading_day cal (c + step + int k * step) = Inr True"
        using Suc.prems(1) by (simp add: algebra_simps)
      show "\<And>j. 0 < j \<Longrightarrow> j < k \<Longrightarrow> is_trading_day cal (c + step + int j * step) = Inr False"
        using Suc.prems(4) by (metis (no_types, lifting) Suc_mono add.assoc add.commute mult_1 of_nat_Suc
            ring_class.ring_distribs(2) zero_less_Suc)
    qed (use False Suc.prems n in auto)
    ultimately show ?thesis using n by (simp add: algebra_simps)
  qed
qed simp

subsection \<open>Properties of the calendar\<close>

lemma next_trading_day_sound:
  assumes "next_trading_day cal d = Inr e"
  shows "d < e \<and> is_trading_day cal e = Inr True \<and> (\<forall>x. d < x \<longrightarrow> x < e \<longrightarrow> is_trading_day cal x = Inr False)"
proof -
  obtain k where k: "1 \<le> k" "e = d + int k" "is_trading_day cal e = Inr True"
    "\<And>j. 0 < j \<Longrightarrow> j < k \<Longrightarrow> is_trading_day cal (d + int j) = Inr False"
    using scan_from_sound [of cal max_scan_days d 1 e] assms by (auto simp: next_trading_day_def)
  have "is_trading_day cal x = Inr False" if "d < x" "x < e" for x
    using k(4) [of "nat (x - d)"] k(2) that by simp
  with k show ?thesis by auto
qed

lemma is_trading_day_covers: "is_trading_day cal d = Inr b \<Longrightarrow> covers cal d"
  by (auto simp: is_trading_day_def session_on_def split: if_splits)

lemma is_market_open_trading: "is_market_open cal t = Inr True \<Longrightarrow> is_trading_day cal (ist_date t) = Inr True"
  by (auto simp: is_market_open_def is_trading_day_def split: sum.splits option.splits)

definition std_times :: session_times where
  "std_times = \<lparr>st_pre_open = hm 9 0, st_open = hm 9 15, st_close = hm 15 30\<rparr>"

text \<open>2026 with one holiday on Monday 2026-01-26, day 20479 of the epoch.\<close>

definition sample_calendar :: nse_calendar where
  "sample_calendar = \<lparr>cal_default = std_times, cal_years = [2026], cal_holidays = [(20479, ''Republic Day'')],
     cal_specials = []\<rparr>"

text \<open>The next trading day is the first trading day strictly after the given day: it trades,
  every day in between is covered by the calendar and does not trade, and if such a day exists
  within the scan limit of 31 days with the days before it covered, it is found.\<close>

theorem next_trading_day_iff:
  "next_trading_day cal d = Inr e \<longleftrightarrow>
     d < e \<and> e \<le> d + 31 \<and> is_trading_day cal e = Inr True
     \<and> (\<forall>x. d < x \<and> x < e \<longrightarrow> is_trading_day cal x = Inr False)"
proof
  assume a: "next_trading_day cal d = Inr e"
  obtain k where "e = d + int k" "k \<le> 31"
    using scan_from_sound [of cal max_scan_days d 1 e] a by (auto simp: next_trading_day_def max_scan_days_def)
  with next_trading_day_sound [OF a] show "d < e \<and> e \<le> d + 31 \<and> is_trading_day cal e = Inr True
     \<and> (\<forall>x. d < x \<and> x < e \<longrightarrow> is_trading_day cal x = Inr False)" by auto
next
  assume a: "d < e \<and> e \<le> d + 31 \<and> is_trading_day cal e = Inr True
     \<and> (\<forall>x. d < x \<and> x < e \<longrightarrow> is_trading_day cal x = Inr False)"
  then show "next_trading_day cal d = Inr e"
    using scan_from_complete [of cal d "nat (e - d)" 1 max_scan_days]
    by (auto simp: next_trading_day_def max_scan_days_def)
qed

text \<open>From Friday 2026-01-23 the next trading day skips the weekend and the holiday.\<close>

theorem next_trading_day_iff_witness:
  "next_trading_day sample_calendar 20476 = Inr 20480
   \<and> is_trading_day sample_calendar 20479 = Inr False \<and> (20476::int) < 20480"
proof -
  have "next_trading_day sample_calendar 20476 = Inr 20480" by code_simp
  with next_trading_day_iff [of sample_calendar 20476 20480] show ?thesis by auto
qed

text \<open>The market is open exactly in the half-open normal session of a covered trading day, the
  bounds being IST wall-clock times: nothing is guessed outside the covered years.\<close>

theorem market_open_iff:
  assumes "dget (cal_specials cal) (ist_date t) = None"
  shows "is_market_open cal t =
    (if \<not> covers cal (ist_date t) then Inl CalendarCoverageError
     else Inr (weekday (ist_date t) < 5 \<and> dget (cal_holidays cal) (ist_date t) = None
       \<and> st_open (cal_default cal) \<le> (t + ist_offset) mod us_per_day
       \<and> (t + ist_offset) mod us_per_day < st_close (cal_default cal)))"
proof -
  have "t = ist_date t * us_per_day + (t + ist_offset) mod us_per_day - ist_offset"
    using div_mult_mod_eq [of "t + ist_offset" us_per_day] by (simp add: ist_date_def)
  then have "combine_ist (ist_date t) x \<le> t \<longleftrightarrow> x \<le> (t + ist_offset) mod us_per_day"
    "t < combine_ist (ist_date t) x \<longleftrightarrow> (t + ist_offset) mod us_per_day < x" for x
    unfolding combine_ist_def by linarith+
  with assms show ?thesis
    by (auto simp: is_market_open_def session_on_def make_session_def contains_def)
qed

theorem market_open_iff_witness:
  "is_market_open sample_calendar (combine_ist 20476 (hm 9 15)) = Inr True
   \<and> is_market_open sample_calendar (combine_ist 20476 (hm 15 30)) = Inr False
   \<and> is_market_open sample_calendar (combine_ist 0 0) = Inl CalendarCoverageError"
proof -
  have none: "dget (cal_specials sample_calendar) d = None" for d by (simp add: sample_calendar_def)
  show ?thesis
    using market_open_iff [OF none, of "combine_ist 20476 (hm 9 15)"]
      market_open_iff [OF none, of "combine_ist 20476 (hm 15 30)"]
      market_open_iff [OF none, of "combine_ist 0 0"]
    by (simp add: sample_calendar_def std_times_def combine_ist_def hm_def ist_date_def covers_def
        year_of_def jan1_def weekday_def)
qed

end
