(* ===== verification/Lifecycle.thy ===== *)
theory Lifecycle
  imports Calendar
begin

section \<open>The session lifecycle\<close>

text \<open>
  \<^verbatim>\<open>src/engine/lifecycle.py\<close>: the day's schedule, the state it gives at an instant, and the
  driver \<open>run\<close>. The clock and the stop request are the environment: every iteration of the
  driver's loop reads the clock (\<open>now\<close>) and learns whether its sleep ended without a stop
  (\<open>go\<close>). The hooks are outside code; whether one raises is a parameter, and the driver then
  emits an alert and carries on. Events are kept in the order they are emitted.
\<close>

datatype ai_purpose = VetoPurpose | Explain | Announcements | NightlyReview

definition always_allowed :: "ai_purpose list" where
  "always_allowed = [Announcements, NightlyReview]"

record lifecycle_config =
  lc_entry_start :: int
  lc_entry_end :: int
  lc_report_after :: int
  lc_exit_after :: int

definition default_lifecycle_config :: lifecycle_config where
  "default_lifecycle_config =
     \<lparr>lc_entry_start = hm 9 20, lc_entry_end = hm 9 45, lc_report_after = hm 0 15, lc_exit_after = hm 0 20\<rparr>"

definition lifecycle_config_ok :: "lifecycle_config \<Rightarrow> bool" where
  "lifecycle_config_ok c =
     (lc_entry_start c < lc_entry_end c \<and> 0 \<le> lc_report_after c \<and> lc_report_after c \<le> lc_exit_after c)"

record schedule =
  sch_session :: session
  sch_entry_start :: "ts option"
  sch_entry_end :: "ts option"
  sch_report :: ts
  sch_exit :: ts

definition state_at :: "schedule \<Rightarrow> ts \<Rightarrow> session_state" where
  "state_at sc t =
     (let s = sch_session sc
      in if t < se_open s then SsPreOpen
         else if t < se_close s then
           (case (sch_entry_start sc, sch_entry_end sc) of
              (Some es, Some ee) \<Rightarrow> if t < es then SsOpen else if t < ee then SsEntryWindow else SsMonitor
            | _ \<Rightarrow> SsMonitor)
         else if t < sch_report sc then SsClose
         else if t < sch_exit sc then SsReport
         else SsExit)"

definition transitions :: "schedule \<Rightarrow> (session_state \<times> ts) list" where
  "transitions sc =
     (let s = sch_session sc;
          steps = (case (sch_entry_start sc, sch_entry_end sc) of
                     (Some es, Some ee) \<Rightarrow>
                       (if se_open s < es then [(SsOpen, se_open s)] else [])
                       @ [(SsEntryWindow, es)]
                       @ (if ee < se_close s then [(SsMonitor, ee)] else [])
                   | _ \<Rightarrow> [(SsMonitor, se_open s)])
      in steps @ [(SsClose, se_close s), (SsReport, sch_report sc), (SsExit, sch_exit sc)])"

definition build_schedule :: "nse_calendar \<Rightarrow> date \<Rightarrow> lifecycle_config \<Rightarrow> schedule option result" where
  "build_schedule cal d c =
     (case session_on cal d of
        Inl e \<Rightarrow> Inl e
      | Inr None \<Rightarrow> Inr None
      | Inr (Some s) \<Rightarrow>
          (let es = combine_ist d (lc_entry_start c);
               ee = combine_ist d (lc_entry_end c);
               fits = (se_open s \<le> es \<and> ee \<le> se_close s)
           in Inr (Some \<lparr>sch_session = s, sch_entry_start = (if fits then Some es else None),
                         sch_entry_end = (if fits then Some ee else None),
                         sch_report = se_close s + lc_report_after c,
                         sch_exit = se_close s + lc_exit_after c\<rparr>)))"

subsection \<open>The driver\<close>

datatype lc_event =
    HolidaySkipped date
  | SessionStateChanged date "session_state option" session_state
  | HookFailed "session_state option"
  | SessionStopped "session_state option"

record lifecycle =
  lf_state :: "session_state option"
  lf_schedule :: "schedule option"
  lf_events :: "lc_event list"

definition new_lifecycle :: lifecycle where
  "new_lifecycle = \<lparr>lf_state = None, lf_schedule = None, lf_events = []\<rparr>"

definition lf_emit :: "lc_event \<Rightarrow> lifecycle \<Rightarrow> lifecycle" where
  "lf_emit e lf = lf\<lparr>lf_events := lf_events lf @ [e]\<rparr>"

definition transition :: "session_state \<Rightarrow> date \<Rightarrow> lifecycle \<Rightarrow> lifecycle" where
  "transition st d lf =
     (if lf_state lf = Some st then lf
      else lf_emit (SessionStateChanged d (lf_state lf) st) (lf\<lparr>lf_state := Some st\<rparr>))"

definition run_hook :: "bool \<Rightarrow> lifecycle \<Rightarrow> lifecycle" where
  "run_hook fails lf = (if fails then lf_emit (HookFailed (lf_state lf)) lf else lf)"

definition enter :: "(session_state \<Rightarrow> bool) \<Rightarrow> session_state \<Rightarrow> schedule \<Rightarrow> lifecycle \<Rightarrow> lifecycle" where
  "enter hook_fails st sc lf =
     run_hook (hook_fails st) (transition st (se_day (sch_session sc)) lf)"

fun run_loop ::
  "(session_state \<Rightarrow> bool) \<Rightarrow> schedule \<Rightarrow> (nat \<Rightarrow> ts \<times> bool) \<Rightarrow> nat \<Rightarrow> (session_state \<times> ts) list
    \<Rightarrow> lifecycle \<Rightarrow> lifecycle" where
  "run_loop hf sc env i [] lf = lf"
| "run_loop hf sc env i ((st, due) # rest) lf =
     (if due \<le> fst (env i) then run_loop hf sc env (Suc i) rest lf
      else if \<not> snd (env i) then lf_emit (SessionStopped (lf_state lf)) lf
      else run_loop hf sc env (Suc i) rest (enter hf st sc lf))"

text \<open>The four clock reads before the loop and the stop flag after the pre-open hook are the
  fields of \<open>run_env\<close>, the reads and wake-ups of the loop its \<open>re_loop\<close>.\<close>

record run_env =
  re_today :: ts
  re_exit_check :: ts
  re_after_pre_open :: ts
  re_stop :: bool
  re_loop :: "nat \<Rightarrow> ts \<times> bool"

definition run_lifecycle ::
  "nse_calendar \<Rightarrow> lifecycle_config \<Rightarrow> (session_state \<Rightarrow> bool) \<Rightarrow> run_env \<Rightarrow> lifecycle \<Rightarrow> lifecycle result" where
  "run_lifecycle cal cfg hf env lf =
     (let today = ist_date (re_today env)
      in case build_schedule cal today cfg of
           Inl CalendarCoverageError \<Rightarrow> Inl ConfigError
         | Inl e \<Rightarrow> Inl e
         | Inr None \<Rightarrow>
             Inr (transition SsHoliday today (lf_emit (HolidaySkipped today) (lf\<lparr>lf_schedule := None\<rparr>)))
         | Inr (Some sc) \<Rightarrow>
             (let lf0 = lf\<lparr>lf_schedule := Some sc\<rparr>
              in if sch_exit sc \<le> re_exit_check env then Inr (transition SsExit today lf0)
                 else
                   let lf1 = run_hook (hf SsPreOpen) (transition SsPreOpen today lf0);
                       current = state_at sc (re_after_pre_open env);
                       lf2 = (if current \<noteq> SsPreOpen \<and> \<not> re_stop env then enter hf current sc lf1 else lf1)
                   in Inr (run_loop hf sc (re_loop env) 0 (transitions sc) lf2)))"

definition state_now :: "lifecycle \<Rightarrow> ts \<Rightarrow> session_state option" where
  "state_now lf now = (case lf_schedule lf of None \<Rightarrow> lf_state lf | Some sc \<Rightarrow> Some (state_at sc now))"

definition decisions_allowed :: "lifecycle \<Rightarrow> ts \<Rightarrow> bool" where
  "decisions_allowed lf now = (state_now lf now = Some SsEntryWindow)"

definition ai_call_allowed :: "lifecycle \<Rightarrow> ai_purpose \<Rightarrow> ts \<Rightarrow> bool" where
  "ai_call_allowed lf p now = (p \<in> set always_allowed \<or> decisions_allowed lf now)"

subsection \<open>Schedules\<close>

fun rank :: "session_state \<Rightarrow> nat" where
  "rank SsHoliday = 0" | "rank SsPreOpen = 1" | "rank SsOpen = 2" | "rank SsEntryWindow = 3"
| "rank SsMonitor = 4" | "rank SsClose = 5" | "rank SsReport = 6" | "rank SsExit = 7"

definition sched_ok :: "schedule \<Rightarrow> bool" where
  "sched_ok sc =
     (let s = sch_session sc
      in se_open s < se_close s \<and> se_close s \<le> sch_report sc \<and> sch_report sc \<le> sch_exit sc
         \<and> (case (sch_entry_start sc, sch_entry_end sc) of
              (Some es, Some ee) \<Rightarrow> se_open s \<le> es \<and> es < ee \<and> ee \<le> se_close s
            | (None, None) \<Rightarrow> True
            | _ \<Rightarrow> False))"

definition specials_ok :: "(date, string \<times> session_times option) dict \<Rightarrow> bool" where
  "specials_ok ss = (\<forall>d name t. (d, name, Some t) \<in> set ss \<longrightarrow> session_times_ok t)"

definition calendar_ok :: "nse_calendar \<Rightarrow> bool" where
  "calendar_ok cal = (session_times_ok (cal_default cal) \<and> specials_ok (cal_specials cal))"

lemma add_specials_ok: "add_specials y xs ss = Inr ss' \<Longrightarrow> specials_ok ss \<Longrightarrow> specials_ok ss'"
proof (induction xs arbitrary: ss)
  case (Cons x xs)
  obtain d name tms where x: "x = (d, name, tms)" by (metis prod.collapse)
  with Cons.prems have r: "add_specials y xs (dset d (name, tms) ss) = Inr ss'"
    and t: "\<And>t. tms = Some t \<Longrightarrow> session_times_ok t"
    by (auto split: if_splits option.splits)
  have "specials_ok (dset d (name, tms) ss)"
    using Cons.prems(2) t by (auto simp: specials_ok_def dest!: set_dset)
  then show ?case by (rule Cons.IH [OF r])
qed simp

lemma add_years_ok: "add_years ys cal = Inr cal' \<Longrightarrow> calendar_ok cal \<Longrightarrow> calendar_ok cal'"
proof (induction ys arbitrary: cal)
  case (Cons y ys)
  obtain yr spec where y: "y = (yr, spec)" by (cases y)
  with Cons.prems obtain hs ss where
    r: "add_specials yr (ys_specials spec) (cal_specials cal) = Inr ss"
      "add_years ys (cal\<lparr>cal_holidays := hs, cal_specials := ss\<rparr>) = Inr cal'"
    by (auto split: sum.splits)
  have "calendar_ok (cal\<lparr>cal_holidays := hs, cal_specials := ss\<rparr>)"
    using add_specials_ok [OF r(1)] Cons.prems(2) by (simp add: calendar_ok_def)
  then show ?case by (rule Cons.IH [OF r(2)])
qed simp

lemma new_calendar_ok: "new_calendar v dflt years = Inr cal \<Longrightarrow> calendar_ok cal"
  by (auto simp: new_calendar_def calendar_ok_def specials_ok_def split: if_splits dest!: add_years_ok)

lemma session_on_ok: "calendar_ok cal \<Longrightarrow> session_on cal d = Inr (Some s) \<Longrightarrow> se_open s < se_close s"
  by (fastforce simp: session_on_def calendar_ok_def specials_ok_def session_times_ok_def make_session_def
      combine_ist_def split: if_splits option.splits prod.splits dest!: dget_in_set)

lemma build_schedule_ok:
  assumes "calendar_ok cal" "lifecycle_config_ok c" "build_schedule cal d c = Inr (Some sc)"
  shows "sched_ok sc"
proof -
  obtain s where s: "session_on cal d = Inr (Some s)" using assms(3)
    by (auto simp: build_schedule_def split: sum.splits option.splits)
  then have "se_open s < se_close s" by (rule session_on_ok [OF assms(1)])
  with s assms(2,3) show ?thesis
    by (auto simp: build_schedule_def sched_ok_def lifecycle_config_ok_def Let_def combine_ist_def)
qed

definition started :: "schedule \<Rightarrow> ts \<Rightarrow> (session_state \<times> ts) list" where
  "started sc t = filter (\<lambda>(st, due). due \<le> t) (transitions sc)"

lemma sched_ok_cases:
  assumes "sched_ok sc"
  obtains (entry) es ee where "sch_entry_start sc = Some es" "sch_entry_end sc = Some ee"
      "se_open (sch_session sc) \<le> es" "es < ee" "ee \<le> se_close (sch_session sc)"
      "se_open (sch_session sc) < se_close (sch_session sc)" "se_close (sch_session sc) \<le> sch_report sc"
      "sch_report sc \<le> sch_exit sc"
    | (no_entry) "sch_entry_start sc = None" "sch_entry_end sc = None"
      "se_open (sch_session sc) < se_close (sch_session sc)" "se_close (sch_session sc) \<le> sch_report sc"
      "sch_report sc \<le> sch_exit sc"
  using assms by (auto simp: sched_ok_def Let_def split: option.splits)

lemma state_at_started:
  assumes "sched_ok sc"
  shows "state_at sc t = (if started sc t = [] then SsPreOpen else fst (last (started sc t)))"
  using assms by (cases rule: sched_ok_cases)
    (auto simp: state_at_def started_def transitions_def Let_def)

lemma transitions_sorted:
  assumes "sched_ok sc"
  shows "sorted_wrt (\<lambda>x y. rank (fst x) < rank (fst y) \<and> snd x \<le> snd y) (transitions sc)"
  using assms by (cases rule: sched_ok_cases) (auto simp: transitions_def Let_def)

lemma transitions_rank: "x \<in> set (transitions sc) \<Longrightarrow> 1 < rank (fst x)"
  by (auto simp: transitions_def Let_def split: option.splits if_splits)

text \<open>A state that starts after \<open>t\<close> ranks above the state at \<open>t\<close>.\<close>

lemma rank_after:
  assumes "sched_ok sc" "(st, due) \<in> set (transitions sc)" "t < due"
  shows "rank (state_at sc t) < rank st"
  using assms by (cases rule: sched_ok_cases)
    (auto simp: state_at_def transitions_def Let_def split: if_splits)

subsection \<open>The driver's progress\<close>

fun announced :: "lc_event list \<Rightarrow> session_state list" where
  "announced [] = []"
| "announced (SessionStateChanged d p c # es) = c # announced es"
| "announced (e # es) = announced es"

lemma announced_append [simp]: "announced (xs @ ys) = announced xs @ announced ys"
  by (induction xs rule: announced.induct) auto

lemma announced_transition:
  "announced (lf_events (transition st d lf)) =
     announced (lf_events lf) @ (if lf_state lf = Some st then [] else [st])"
  "lf_state (transition st d lf) = Some st"
  by (simp_all add: transition_def lf_emit_def)

lemma announced_hook [simp]:
  "announced (lf_events (run_hook b lf)) = announced (lf_events lf)" "lf_state (run_hook b lf) = lf_state lf"
  by (simp_all add: run_hook_def lf_emit_def)

lemma announced_enter:
  "announced (lf_events (enter hf st sc lf)) =
     announced (lf_events lf) @ (if lf_state lf = Some st then [] else [st])"
  "lf_state (enter hf st sc lf) = Some st"
  by (simp_all add: enter_def announced_transition)

text \<open>The log announces ranks in strictly increasing order and ends with the current state.\<close>

definition progress :: "lifecycle \<Rightarrow> bool" where
  "progress lf =
     (sorted_wrt (<) (map rank (announced (lf_events lf)))
      \<and> (\<exists>st. lf_state lf = Some st \<and> announced (lf_events lf) \<noteq> [] \<and> last (announced (lf_events lf)) = st))"

lemma sorted_wrt_snoc_last:
  fixes xs :: "nat list"
  shows "sorted_wrt (<) xs \<Longrightarrow> xs \<noteq> [] \<Longrightarrow> last xs < x \<Longrightarrow> sorted_wrt (<) (xs @ [x])"
proof (induction xs)
  case (Cons y ys)
  then show ?case by (cases "ys = []") (auto intro: less_trans)
qed simp

lemma progress_enter:
  assumes "progress lf" "lf_state lf = Some p" "rank p < rank st"
  shows "progress (enter hf st sc lf)"
proof -
  have "map rank (announced (lf_events lf)) \<noteq> []" "last (map rank (announced (lf_events lf))) = rank p"
    using assms by (auto simp: progress_def last_map)
  with assms sorted_wrt_snoc_last [of "map rank (announced (lf_events lf))" "rank st"] show ?thesis
    by (auto simp: progress_def announced_enter)
qed

lemma progress_stop: "progress lf \<Longrightarrow> progress (lf_emit (SessionStopped s) lf)"
  by (simp add: progress_def lf_emit_def)

lemma run_loop_progress:
  assumes "progress lf" "lf_state lf = Some p"
    and "sorted_wrt (\<lambda>x y. rank (fst x) < rank (fst y) \<and> snd x \<le> snd y) steps"
    and "\<And>st due j. (st, due) \<in> set steps \<Longrightarrow> i \<le> j \<Longrightarrow> fst (env j) < due \<Longrightarrow> rank p < rank st"
  shows "progress (run_loop hf sc env i steps lf)"
  using assms
proof (induction steps arbitrary: i lf p)
  case (Cons s steps)
  obtain st due where s: "s = (st, due)" by (cases s)
  consider "due \<le> fst (env i)" | "fst (env i) < due" "\<not> snd (env i)" | "fst (env i) < due" "snd (env i)"
    by linarith
  then show ?case
  proof cases
    case 1
    then show ?thesis using Cons.prems s
      by simp (rule Cons.IH [of lf p]; auto dest: Suc_leD)
  next
    case 2
    then show ?thesis using Cons.prems s by (simp add: progress_stop)
  next
    case 3
    have r: "rank p < rank st" using Cons.prems(4) [of st due i] 3 s by simp
    have "progress (run_loop hf sc env (Suc i) steps (enter hf st sc lf))"
      using Cons.prems s
      by (intro Cons.IH [of _ st]) (auto simp: announced_enter intro: progress_enter [OF _ _ r])
    with 3 s show ?thesis by simp
  qed
qed simp

lemma progress_first: "lf_state lf = None \<Longrightarrow> lf_events lf = [] \<Longrightarrow> progress (transition st d lf)"
  by (simp add: progress_def announced_transition)

lemma progress_hook: "progress (run_hook b lf) = progress lf"
  by (simp add: progress_def)

lemma run_loop_from_progress:
  assumes "sched_ok sc" "progress lf" "lf_state lf = Some p" "rank p \<le> rank (state_at sc t)"
    and "\<And>j. t \<le> fst (env j)"
  shows "progress (run_loop hf sc env 0 (transitions sc) lf)"
proof (rule run_loop_progress [OF assms(2,3) transitions_sorted [OF assms(1)]])
  fix st due j
  assume "(st, due) \<in> set (transitions sc)" "fst (env j) < due"
  moreover have "t < due" using assms(5) [of j] calculation by linarith
  ultimately have "rank (state_at sc t) < rank st" using rank_after [OF assms(1)] by blast
  with assms(4) show "rank p < rank st" by linarith
qed

lemma run_lifecycle_cases:
  assumes "run_lifecycle cal cfg hf env lf = Inr lf'"
  obtains (holiday) "build_schedule cal (ist_date (re_today env)) cfg = Inr None"
      "lf' = transition SsHoliday (ist_date (re_today env))
        (lf_emit (HolidaySkipped (ist_date (re_today env))) (lf\<lparr>lf_schedule := None\<rparr>))"
    | (over) sc where "build_schedule cal (ist_date (re_today env)) cfg = Inr (Some sc)"
      "lf' = transition SsExit (ist_date (re_today env)) (lf\<lparr>lf_schedule := Some sc\<rparr>)"
    | (day) sc lf1 where "build_schedule cal (ist_date (re_today env)) cfg = Inr (Some sc)"
      "lf1 = run_hook (hf SsPreOpen) (transition SsPreOpen (ist_date (re_today env)) (lf\<lparr>lf_schedule := Some sc\<rparr>))"
      "lf' = run_loop hf sc (re_loop env) 0 (transitions sc)
        (if state_at sc (re_after_pre_open env) \<noteq> SsPreOpen \<and> \<not> re_stop env
         then enter hf (state_at sc (re_after_pre_open env)) sc lf1 else lf1)"
  using assms by (auto simp: run_lifecycle_def Let_def split: sum.splits option.splits if_splits py_error.splits)

lemma state_at_rank: "1 \<le> rank (state_at sc t)" "state_at sc t \<noteq> SsPreOpen \<Longrightarrow> 1 < rank (state_at sc t)"
  by (auto simp: state_at_def Let_def split: option.splits)

subsection \<open>Properties of the lifecycle\<close>

text \<open>C18: The guards and the driver agree. On every schedule built from a loaded calendar, the state
  the guards compute at an instant is the last state whose transition is due, or pre-open before
  the first; it never goes back in time; and entry decisions are allowed exactly in the half-open
  entry window, which is absent when it does not fit the session.\<close>

theorem schedule_state_agrees:
  assumes "new_calendar v dflt years = Inr cal" "lifecycle_config_ok cfg"
    and "build_schedule cal d cfg = Inr (Some sc)"
  shows "state_at sc t = (if started sc t = [] then SsPreOpen else fst (last (started sc t)))
    \<and> (t \<le> t' \<longrightarrow> rank (state_at sc t) \<le> rank (state_at sc t'))
    \<and> (state_at sc t = SsEntryWindow \<longleftrightarrow>
         (\<exists>es ee. sch_entry_start sc = Some es \<and> sch_entry_end sc = Some ee \<and> es \<le> t \<and> t < ee))"
proof -
  have ok: "sched_ok sc" by (rule build_schedule_ok [OF new_calendar_ok [OF assms(1)] assms(2,3)])
  have "t \<le> t' \<longrightarrow> rank (state_at sc t) \<le> rank (state_at sc t')"
    using ok by (cases rule: sched_ok_cases) (auto simp: state_at_def Let_def)
  moreover have "state_at sc t = SsEntryWindow \<longleftrightarrow>
      (\<exists>es ee. sch_entry_start sc = Some es \<and> sch_entry_end sc = Some ee \<and> es \<le> t \<and> t < ee)"
    using ok by (cases rule: sched_ok_cases) (auto simp: state_at_def Let_def)
  ultimately show ?thesis using state_at_started [OF ok] by blast
qed

lemma sample_calendar_loads:
  "new_calendar 1 std_times [(2026, \<lparr>ys_holidays = [(20479, ''Republic Day'')], ys_specials = []\<rparr>)] = Inr sample_calendar"
  by code_simp

lemma sample_schedule_builds: "\<exists>sc. build_schedule sample_calendar 20476 default_lifecycle_config = Inr (Some sc)
  \<and> sch_entry_start sc = Some (combine_ist 20476 (hm 9 20)) \<and> sch_entry_end sc = Some (combine_ist 20476 (hm 9 45))"
proof -
  have "session_on sample_calendar 20476 = Inr (Some (make_session 20476 std_times None))" by code_simp
  then show ?thesis
    by (simp add: build_schedule_def Let_def make_session_def combine_ist_def default_lifecycle_config_def
        std_times_def hm_def)
qed

theorem schedule_state_agrees_witness:
  "\<exists>sc. build_schedule sample_calendar 20476 default_lifecycle_config = Inr (Some sc)
     \<and> state_at sc (combine_ist 20476 (hm 9 30)) = SsEntryWindow"
proof -
  obtain sc where sc: "build_schedule sample_calendar 20476 default_lifecycle_config = Inr (Some sc)"
    "sch_entry_start sc = Some (combine_ist 20476 (hm 9 20))" "sch_entry_end sc = Some (combine_ist 20476 (hm 9 45))"
    using sample_schedule_builds by blast
  have "lifecycle_config_ok default_lifecycle_config"
    by (simp add: lifecycle_config_ok_def default_lifecycle_config_def hm_def)
  from schedule_state_agrees [OF sample_calendar_loads this sc(1), of "combine_ist 20476 (hm 9 30)" 0] sc
  show ?thesis by (auto simp: combine_ist_def hm_def)
qed

text \<open>The driver moves forward only. Whatever the wake-up times, failing hooks, late start or
  stop request, as long as the clock does not run backwards, the states announced in one run are
  in strictly increasing session order, so no state is entered twice or out of order.\<close>

theorem run_announces_in_order:
  assumes "new_calendar v dflt years = Inr cal" "lifecycle_config_ok cfg"
    and "\<forall>j. re_after_pre_open env \<le> fst (re_loop env j)"
    and "run_lifecycle cal cfg hf env new_lifecycle = Inr lf"
  shows "sorted_wrt (<) (map rank (announced (lf_events lf)))"
  using assms(4)
proof (cases rule: run_lifecycle_cases)
  case holiday
  then show ?thesis by (simp add: announced_transition new_lifecycle_def lf_emit_def)
next
  case (over sc)
  then show ?thesis by (simp add: announced_transition new_lifecycle_def)
next
  case (day sc lf1)
  let ?t = "re_after_pre_open env"
  have ok: "sched_ok sc" by (rule build_schedule_ok [OF new_calendar_ok [OF assms(1)] assms(2) day(1)])
  have 1: "progress lf1" "lf_state lf1 = Some SsPreOpen"
    using day(2) by (simp_all add: progress_hook progress_first new_lifecycle_def announced_transition)
  have "progress lf"
  proof (cases "state_at sc ?t \<noteq> SsPreOpen \<and> \<not> re_stop env")
    case True
    have "progress (enter hf (state_at sc ?t) sc lf1)"
      using progress_enter [OF 1] state_at_rank(2) True by simp
    with True day(3) show ?thesis
      using run_loop_from_progress [OF ok, of "enter hf (state_at sc ?t) sc lf1" "state_at sc ?t" ?t "re_loop env" hf]
        assms(3) by (simp add: announced_enter)
  next
    case False
    have "rank SsPreOpen \<le> rank (state_at sc ?t)" using state_at_rank(1) [of sc ?t] by simp
    from run_loop_from_progress [OF ok 1 this, of "re_loop env" hf] False day(3) assms(3)
    show ?thesis by auto
  qed
  then show ?thesis by (simp add: progress_def)
qed

definition sample_env :: run_env where
  "sample_env = \<lparr>re_today = combine_ist 20476 (hm 9 30), re_exit_check = combine_ist 20476 (hm 9 30),
     re_after_pre_open = combine_ist 20476 (hm 9 31), re_stop = False,
     re_loop = (\<lambda>i. (combine_ist 20476 (hm 9 31), True))\<rparr>"

lemma sample_run: "\<exists>lf. run_lifecycle sample_calendar default_lifecycle_config (\<lambda>st. False) sample_env new_lifecycle = Inr lf
  \<and> announced (lf_events lf) = [SsPreOpen, SsEntryWindow, SsMonitor, SsClose, SsReport, SsExit]"
proof -
  have "(case run_lifecycle sample_calendar default_lifecycle_config (\<lambda>st. False) sample_env new_lifecycle of
      Inl e \<Rightarrow> [] | Inr lf \<Rightarrow> announced (lf_events lf)) = [SsPreOpen, SsEntryWindow, SsMonitor, SsClose, SsReport, SsExit]"
    by code_simp
  then show ?thesis by (auto split: sum.splits)
qed

theorem run_announces_in_order_witness:
  "\<exists>lf. run_lifecycle sample_calendar default_lifecycle_config (\<lambda>st. False) sample_env new_lifecycle = Inr lf
     \<and> announced (lf_events lf) = [SsPreOpen, SsEntryWindow, SsMonitor, SsClose, SsReport, SsExit]
     \<and> sorted_wrt (<) (map rank (announced (lf_events lf)))"
proof -
  obtain lf where lf: "run_lifecycle sample_calendar default_lifecycle_config (\<lambda>st. False) sample_env new_lifecycle = Inr lf"
    "announced (lf_events lf) = [SsPreOpen, SsEntryWindow, SsMonitor, SsClose, SsReport, SsExit]"
    using sample_run by blast
  have "lifecycle_config_ok default_lifecycle_config"
    by (simp add: lifecycle_config_ok_def default_lifecycle_config_def hm_def)
  moreover have "\<forall>j. re_after_pre_open sample_env \<le> fst (re_loop sample_env j)" by (simp add: sample_env_def)
  ultimately have "sorted_wrt (<) (map rank (announced (lf_events lf)))"
    using run_announces_in_order [OF sample_calendar_loads _ _ lf(1)] by blast
  with lf show ?thesis by blast
qed

end
