(* ===== verification/Position_Book.thy ===== *)
theory Position_Book
  imports Domain_Types "HOL-Library.List_Lexorder" "HOL-Library.Char_ord" "HOL-Library.Product_Lexorder"
begin

section \<open>The position book\<close>

text \<open>
  A book's positions and cash, changed only by fills: \<^verbatim>\<open>src/oms/position_book.py\<close>.
  \<open>apply_fill\<close> is \<^verbatim>\<open>PositionBook.apply\<close>; its FIFO loop over the lots is
  \<open>close_lots\<close>. The private \<^verbatim>\<open>_books\<close> dictionary is keyed by instrument and product.
  Sums and products of amounts are exact here, quotients are rounded; \<open>Book_Rounding\<close> has the same operations with
  every sum and product rounded to the 28 digits of the Decimal context and proves that both give the same book for
  amounts on four decimals.

  The invariant \<open>pb_inv\<close> says that a book is flat exactly when it has no lots, that every lot
  holds shares, and that the cash is the starting cash plus the realized profit less what the
  open lots cost, so no fill ever creates or loses money. The locale \<open>fill_ledger\<close> is what the
  order manager relies on.
\<close>

subsection \<open>State\<close>

record lot =
  l_quantity :: int
  l_price :: rat
  l_charges :: rat
  l_opened_at :: ts
  l_decision_id :: string
  l_strategy :: string
  l_fill_id :: string

record closed_piece =
  cp_trade_id :: string
  cp_instrument_key :: string
  cp_product :: product
  cp_side :: side
  cp_quantity :: int
  cp_entry_price :: rat
  cp_exit_price :: rat
  cp_entry_ts :: ts
  cp_exit_ts :: ts
  cp_gross_pnl :: rat
  cp_charges :: rat
  cp_net_pnl :: rat
  cp_decision_id :: string
  cp_exit_decision_id :: string
  cp_strategy :: string
  cp_exit_reason :: string

record fill_outcome =
  fo_position :: position
  fo_closed :: "closed_piece list"
  fo_duplicate :: bool

record net_book =
  b_lots :: "lot list"
  b_direction :: int
  b_realized :: rat
  b_updated_at :: "ts option"

definition empty_net :: net_book where
  "empty_net = \<lparr>b_lots = [], b_direction = 0, b_realized = 0, b_updated_at = None\<rparr>"

definition lots_qty :: "lot list \<Rightarrow> int" where
  "lots_qty ls = sum_list (map l_quantity ls)"

definition net_quantity :: "net_book \<Rightarrow> int" where
  "net_quantity b = b_direction b * lots_qty (b_lots b)"

type_synonym pos_key = "string \<times> product"

record position_book =
  pb_book_id :: string
  pb_starting_cash :: rat
  pb_cash :: rat
  pb_books :: "(pos_key, net_book) dict"
  pb_seen :: "string set"

definition new_book :: "string \<Rightarrow> rat \<Rightarrow> position_book" where
  "new_book book_id starting_cash =
     \<lparr>pb_book_id = book_id, pb_starting_cash = starting_cash, pb_cash = starting_cash,
      pb_books = [], pb_seen = {}\<rparr>"

subsection \<open>Operations\<close>

definition alloc_quantum :: rat where
  "alloc_quantum = 1 / 10000"

text \<open>A share of some charges, pro rata, to a hundredth of a paisa.\<close>

definition pro_rata :: "rat \<Rightarrow> int \<Rightarrow> int \<Rightarrow> rat" where
  "pro_rata charges n whole = quantize_even (ddiv (charges * of_int n) (of_int whole)) alloc_quantum"

definition entry_alloc :: "lot \<Rightarrow> int \<Rightarrow> rat" where
  "entry_alloc l n = (if n = l_quantity l then l_charges l else pro_rata (l_charges l) n (l_quantity l))"

definition exit_alloc :: "fill \<Rightarrow> rat \<Rightarrow> int \<Rightarrow> int \<Rightarrow> rat" where
  "exit_alloc f exit_charges n remaining =
     (if n = remaining then exit_charges else pro_rata (f_charges f) n (f_quantity f))"

definition close_piece ::
  "fill \<Rightarrow> product \<Rightarrow> string \<Rightarrow> int \<Rightarrow> lot \<Rightarrow> int \<Rightarrow> rat \<Rightarrow> rat \<Rightarrow> nat \<Rightarrow> closed_piece" where
  "close_piece f pr exit_reason direction l n ea xa k =
     (let gross = (f_price f - l_price l) * of_int n * of_int direction
      in \<lparr>cp_trade_id = f_fill_id f @ ''#'' @ nat_str (k + 1),
          cp_instrument_key = f_instrument_key f, cp_product = pr,
          cp_side = (if 0 < direction then BUY else SELL), cp_quantity = n,
          cp_entry_price = l_price l, cp_exit_price = f_price f,
          cp_entry_ts = l_opened_at l, cp_exit_ts = f_ts f,
          cp_gross_pnl = gross, cp_charges = ea + xa, cp_net_pnl = gross - ea - xa,
          cp_decision_id = l_decision_id l, cp_exit_decision_id = f_decision_id f,
          cp_strategy = l_strategy l, cp_exit_reason = exit_reason\<rparr>)"

record close_state =
  c_lots :: "lot list"
  c_remaining :: int
  c_exit_charges :: rat
  c_realized :: rat
  c_closed :: "closed_piece list"

fun close_lots ::
  "fill \<Rightarrow> product \<Rightarrow> string \<Rightarrow> int \<Rightarrow> lot list \<Rightarrow> int \<Rightarrow> rat \<Rightarrow> rat \<Rightarrow> closed_piece list \<Rightarrow> close_state"
where
  "close_lots f pr er d [] remaining xc realized cl =
     \<lparr>c_lots = [], c_remaining = remaining, c_exit_charges = xc, c_realized = realized,
      c_closed = cl\<rparr>"
| "close_lots f pr er d (l # ls) remaining xc realized cl =
     (if remaining = 0 then
        \<lparr>c_lots = l # ls, c_remaining = remaining, c_exit_charges = xc, c_realized = realized,
         c_closed = cl\<rparr>
      else
        let n = min remaining (l_quantity l);
            ea = entry_alloc l n;
            xa = exit_alloc f xc n remaining;
            piece = close_piece f pr er d l n ea xa (length cl);
            l' = l\<lparr>l_quantity := l_quantity l - n, l_charges := l_charges l - ea\<rparr>;
            realized' = realized + cp_net_pnl piece
        in if l_quantity l' = 0
           then close_lots f pr er d ls (remaining - n) (xc - xa) realized' (cl @ [piece])
           else \<lparr>c_lots = l' # ls, c_remaining = remaining - n, c_exit_charges = xc - xa,
                 c_realized = realized', c_closed = cl @ [piece]\<rparr>)"

definition no_close :: "fill \<Rightarrow> net_book \<Rightarrow> close_state" where
  "no_close f b =
     \<lparr>c_lots = b_lots b, c_remaining = f_quantity f, c_exit_charges = f_charges f,
      c_realized = b_realized b, c_closed = []\<rparr>"

definition reduce_phase :: "net_book \<Rightarrow> fill \<Rightarrow> product \<Rightarrow> string \<Rightarrow> close_state" where
  "reduce_phase b f pr er =
     (if b_direction b \<notin> {0, side_sign (f_side f)}
      then close_lots f pr er (b_direction b) (b_lots b) (f_quantity f) (f_charges f) (b_realized b) []
      else no_close f b)"

definition opening_lot :: "fill \<Rightarrow> string \<Rightarrow> close_state \<Rightarrow> lot" where
  "opening_lot f strategy c =
     \<lparr>l_quantity = c_remaining c, l_price = f_price f,
      l_charges = (if c_closed c \<noteq> [] then c_exit_charges c else f_charges f),
      l_opened_at = f_ts f, l_decision_id = f_decision_id f, l_strategy = strategy,
      l_fill_id = f_fill_id f\<rparr>"

definition apply_net ::
  "net_book \<Rightarrow> fill \<Rightarrow> product \<Rightarrow> string \<Rightarrow> string \<Rightarrow> net_book \<times> closed_piece list" where
  "apply_net b f pr strategy er =
     (let c = reduce_phase b f pr er;
          d0 = (if b_direction b \<notin> {0, side_sign (f_side f)} \<and> c_lots c = [] then 0 else b_direction b);
          d1 = (if c_remaining c \<noteq> 0 then side_sign (f_side f) else d0);
          lots1 = (if c_remaining c \<noteq> 0 then c_lots c @ [opening_lot f strategy c] else c_lots c)
      in (\<lparr>b_lots = lots1, b_direction = d1, b_realized = c_realized c, b_updated_at = Some (f_ts f)\<rparr>,
          c_closed c))"

definition lots_cost :: "lot list \<Rightarrow> rat" where
  "lots_cost ls = sum_list (map (\<lambda>l. l_price l * of_int (l_quantity l)) ls)"

definition position_of :: "position_book \<Rightarrow> pos_key \<Rightarrow> net_book \<Rightarrow> ts \<Rightarrow> position" where
  "position_of pb key b now =
     (let qty = net_quantity b
      in \<lparr>p_book_id = pb_book_id pb, p_instrument_key = fst key, p_product = snd key,
          p_quantity = qty,
          p_avg_price =
            (if qty \<noteq> 0 then Some (ddiv (lots_cost (b_lots b)) (of_int (lots_qty (b_lots b)))) else None),
          p_realized_pnl = b_realized b,
          p_updated_at = (case b_updated_at b of None \<Rightarrow> now | Some t \<Rightarrow> t)\<rparr>)"

definition net_of :: "position_book \<Rightarrow> pos_key \<Rightarrow> net_book" where
  "net_of pb key = dget_or empty_net (pb_books pb) key"

definition cash_after :: "rat \<Rightarrow> fill \<Rightarrow> rat" where
  "cash_after cash f =
     (let notional = f_price f * of_int (f_quantity f)
      in if f_side f = BUY then cash - (notional + f_charges f) else cash + (notional - f_charges f))"

definition apply_fill ::
  "position_book \<Rightarrow> fill \<Rightarrow> product \<Rightarrow> string \<Rightarrow> string \<Rightarrow> (position_book \<times> fill_outcome) result" where
  "apply_fill pb f pr strategy er =
     (if f_book_id f \<noteq> pb_book_id pb then Inl ValueError
      else
        let key = (f_instrument_key f, pr);
            b = net_of pb key;
            books = (if dget (pb_books pb) key = None then dset key b (pb_books pb) else pb_books pb)
        in if f_fill_id f \<in> pb_seen pb
           then Inr (pb\<lparr>pb_books := books\<rparr>,
                     \<lparr>fo_position = position_of pb key b (f_ts f), fo_closed = [], fo_duplicate = True\<rparr>)
           else
             let (b', cl) = apply_net b f pr strategy er
             in Inr (pb\<lparr>pb_seen := insert (f_fill_id f) (pb_seen pb),
                        pb_cash := cash_after (pb_cash pb) f,
                        pb_books := dset key b' books\<rparr>,
                     \<lparr>fo_position = position_of pb key b' (f_ts f), fo_closed = cl,
                      fo_duplicate = False\<rparr>))"

subsection \<open>Reads\<close>

definition has_seen :: "position_book \<Rightarrow> string \<Rightarrow> bool" where
  "has_seen pb fill_id = (fill_id \<in> pb_seen pb)"

definition pb_quantity :: "position_book \<Rightarrow> string \<Rightarrow> product \<Rightarrow> int" where
  "pb_quantity pb ik pr = (case dget (pb_books pb) (ik, pr) of None \<Rightarrow> 0 | Some b \<Rightarrow> net_quantity b)"

definition pb_lots :: "position_book \<Rightarrow> string \<Rightarrow> product \<Rightarrow> lot list" where
  "pb_lots pb ik pr = (case dget (pb_books pb) (ik, pr) of None \<Rightarrow> [] | Some b \<Rightarrow> b_lots b)"

definition pb_position :: "position_book \<Rightarrow> string \<Rightarrow> product \<Rightarrow> ts \<Rightarrow> position" where
  "pb_position pb ik pr now = position_of pb (ik, pr) (net_of pb (ik, pr)) now"

fun product_value :: "product \<Rightarrow> string" where
  "product_value MIS = ''MIS''"
| "product_value CNC = ''CNC''"
| "product_value NRML = ''NRML''"
| "product_value MTF = ''MTF''"

definition pb_positions :: "position_book \<Rightarrow> ts \<Rightarrow> position list" where
  "pb_positions pb now =
     map (\<lambda>(k, b). position_of pb k b (case b_updated_at b of None \<Rightarrow> now | Some t \<Rightarrow> t))
       (sort_key (\<lambda>((ik, pr), b). (ik, product_value pr)) (pb_books pb))"

definition pb_realized_pnl :: "position_book \<Rightarrow> rat" where
  "pb_realized_pnl pb = dsum (\<lambda>k b. b_realized b) (pb_books pb)"

fun market_value_of :: "(pos_key, net_book) dict \<Rightarrow> (string, rat) dict \<Rightarrow> rat \<Rightarrow> rat result" where
  "market_value_of [] marks acc = Inr acc"
| "market_value_of (((ik, pr), b) # rest) marks acc =
     (if net_quantity b \<noteq> 0
      then (case dget marks ik of
              None \<Rightarrow> Inl KeyError
            | Some m \<Rightarrow> market_value_of rest marks (acc + of_int (net_quantity b) * m))
      else market_value_of rest marks acc)"

definition market_value :: "position_book \<Rightarrow> (string, rat) dict \<Rightarrow> rat result" where
  "market_value pb marks = market_value_of (pb_books pb) marks 0"

definition equity :: "position_book \<Rightarrow> (string, rat) dict \<Rightarrow> rat result" where
  "equity pb marks =
     (case market_value pb marks of Inl e \<Rightarrow> Inl e | Inr v \<Rightarrow> Inr (pb_cash pb + v))"

subsection \<open>The invariant\<close>

text \<open>What the open lots cost, charges included: positive for a long, negative for a short.\<close>

definition lots_value :: "int \<Rightarrow> lot list \<Rightarrow> rat" where
  "lots_value d ls = sum_list (map (\<lambda>l. of_int d * of_int (l_quantity l) * l_price l + l_charges l) ls)"

definition net_wf :: "net_book \<Rightarrow> bool" where
  "net_wf b =
     (b_direction b \<in> {- 1, 0, 1} \<and> (b_lots b = []) = (b_direction b = 0)
      \<and> (\<forall>l \<in> set (b_lots b). 0 < l_quantity l \<and> 0 < l_price l))"

definition ledger_ok :: "position_book \<Rightarrow> bool" where
  "ledger_ok pb =
     (pb_cash pb = pb_starting_cash pb
        + dsum (\<lambda>k b. b_realized b - lots_value (b_direction b) (b_lots b)) (pb_books pb))"

definition pb_inv :: "position_book \<Rightarrow> bool" where
  "pb_inv pb =
     (distinct (map fst (pb_books pb)) \<and> (\<forall>(k, b) \<in> set (pb_books pb). net_wf b) \<and> ledger_ok pb)"

subsection \<open>The FIFO loop\<close>

definition lots_pos :: "lot list \<Rightarrow> bool" where
  "lots_pos ls = (\<forall>l \<in> set ls. 0 < l_quantity l \<and> 0 < l_price l)"

text \<open>The shares of a list of lots one by one, oldest first, each with its entry price.\<close>

definition units :: "lot list \<Rightarrow> rat list" where
  "units ls = concat (map (\<lambda>l. replicate (nat (l_quantity l)) (l_price l)) ls)"

definition piece_units :: "closed_piece list \<Rightarrow> rat list" where
  "piece_units cs = concat (map (\<lambda>p. replicate (nat (cp_quantity p)) (cp_entry_price p)) cs)"

lemma lots_qty_simps [simp]:
  "lots_qty [] = 0" "lots_qty (l # ls) = l_quantity l + lots_qty ls"
  "lots_qty (ls @ ms) = lots_qty ls + lots_qty ms"
  by (simp_all add: lots_qty_def)

lemma lots_value_simps [simp]:
  "lots_value d [] = 0"
  "lots_value d (l # ls) = of_int d * of_int (l_quantity l) * l_price l + l_charges l + lots_value d ls"
  "lots_value d (ls @ ms) = lots_value d ls + lots_value d ms"
  by (simp_all add: lots_value_def)

lemma units_simps [simp]:
  "units [] = []" "units (l # ls) = replicate (nat (l_quantity l)) (l_price l) @ units ls"
  "units (ls @ ms) = units ls @ units ms"
  by (simp_all add: units_def)

lemma piece_units_simps [simp]:
  "piece_units [] = []"
  "piece_units (p # ps) = replicate (nat (cp_quantity p)) (cp_entry_price p) @ piece_units ps"
  "piece_units (ps @ qs) = piece_units ps @ piece_units qs"
  by (simp_all add: piece_units_def)

lemma lots_pos_simps [simp]:
  "lots_pos []" "lots_pos (l # ls) = (0 < l_quantity l \<and> 0 < l_price l \<and> lots_pos ls)"
  "lots_pos (ls @ ms) = (lots_pos ls \<and> lots_pos ms)"
  by (auto simp: lots_pos_def)

lemma lots_qty_pos: "lots_pos ls \<Longrightarrow> ls \<noteq> [] \<Longrightarrow> 0 < lots_qty ls"
  by (induction ls) (auto simp: lots_pos_def add_pos_nonneg intro: add_pos_nonneg, fastforce)

lemma close_piece_simps [simp]:
  "cp_quantity (close_piece f pr er d l n ea xa k) = n"
  "cp_entry_price (close_piece f pr er d l n ea xa k) = l_price l"
  "cp_net_pnl (close_piece f pr er d l n ea xa k) =
     (f_price f - l_price l) * of_int n * of_int d - ea - xa"
  by (simp_all add: close_piece_def Let_def)

lemma close_lots_full:
  assumes "r \<noteq> 0" "l_quantity l \<le> r"
  shows "close_lots f pr er d (l # ls) r xc rl cl =
    (let xa = exit_alloc f xc (l_quantity l) r;
         p = close_piece f pr er d l (l_quantity l) (l_charges l) xa (length cl)
     in close_lots f pr er d ls (r - l_quantity l) (xc - xa) (rl + cp_net_pnl p) (cl @ [p]))"
  using assms by (simp add: min_absorb2 entry_alloc_def Let_def)

lemma close_lots_part:
  assumes "r \<noteq> 0" "r < l_quantity l"
  shows "close_lots f pr er d (l # ls) r xc rl cl =
    (let ea = entry_alloc l r; p = close_piece f pr er d l r ea xc (length cl)
     in \<lparr>c_lots = l\<lparr>l_quantity := l_quantity l - r, l_charges := l_charges l - ea\<rparr> # ls,
         c_remaining = 0, c_exit_charges = 0, c_realized = rl + cp_net_pnl p,
         c_closed = cl @ [p]\<rparr>)"
  using assms by (simp add: min_absorb1 exit_alloc_def Let_def)

text \<open>Money is conserved piece by piece: what a piece adds to the realized profit, takes off the
  open lots and allocates of the exit charges balances the proceeds of the shares it sold.\<close>

lemma close_lots_value:
  "c_realized (close_lots f pr er d ls r xc rl cl)
     - lots_value d (c_lots (close_lots f pr er d ls r xc rl cl))
     - c_exit_charges (close_lots f pr er d ls r xc rl cl)
   = rl - lots_value d ls - xc
     + f_price f * of_int d * of_int (r - c_remaining (close_lots f pr er d ls r xc rl cl))"
proof (induction ls arbitrary: r xc rl cl)
  case (Cons l ls)
  consider "r = 0" | "r \<noteq> 0" "l_quantity l \<le> r" | "r \<noteq> 0" "r < l_quantity l" by linarith
  then show ?case
  proof cases
    case 2
    let ?q = "l_quantity l" and ?xa = "exit_alloc f xc (l_quantity l) r"
    let ?p = "close_piece f pr er d l ?q (l_charges l) ?xa (length cl)"
    obtain C where C: "C = close_lots f pr er d ls (r - ?q) (xc - ?xa) (rl + cp_net_pnl ?p) (cl @ [?p])"
      by blast
    have e: "close_lots f pr er d (l # ls) r xc rl cl = C"
      unfolding C using close_lots_full [OF 2, of f pr er d ls xc rl cl] by (simp only: Let_def)
    have "c_realized C - lots_value d (c_lots C) - c_exit_charges C
        = rl + ((f_price f - l_price l) * of_int ?q * of_int d - l_charges l - ?xa) - lots_value d ls
          - (xc - ?xa) + f_price f * of_int d * of_int (r - ?q - c_remaining C)"
      using Cons.IH [of "r - ?q" "xc - ?xa" "rl + cp_net_pnl ?p" "cl @ [?p]"]
      unfolding C [symmetric] by simp
    then show ?thesis unfolding e lots_value_simps by (simp add: algebra_simps)
  next
    case 3
    show ?thesis unfolding close_lots_part [OF 3] Let_def by (simp add: algebra_simps)
  qed simp
qed simp

lemma close_lots_qty:
  assumes "lots_pos ls" "0 \<le> r"
  shows "lots_qty (c_lots (close_lots f pr er d ls r xc rl cl)) = max 0 (lots_qty ls - r)
    \<and> c_remaining (close_lots f pr er d ls r xc rl cl) = max 0 (r - lots_qty ls)
    \<and> lots_pos (c_lots (close_lots f pr er d ls r xc rl cl))"
  using assms
proof (induction ls arbitrary: r xc rl cl)
  case (Cons l ls)
  have nn: "0 \<le> lots_qty ls" using Cons.prems lots_qty_pos [of ls] by (cases "ls = []") auto
  show ?case
  proof (cases "r < l_quantity l")
    case True
    with Cons.prems nn show ?thesis by (auto simp: Let_def min_def)
  next
    case False
    then have "min r (l_quantity l) = l_quantity l" "0 \<le> r - l_quantity l" "r \<noteq> 0"
      using Cons.prems by auto
    then show ?thesis using Cons.IH [of "r - l_quantity l"] Cons.prems
      by (simp add: Let_def algebra_simps)
  qed
qed simp

lemma close_lots_fifo:
  assumes "lots_pos ls" "0 \<le> r"
  shows "units (c_lots (close_lots f pr er d ls r xc rl cl)) = drop (nat r) (units ls)
    \<and> piece_units (c_closed (close_lots f pr er d ls r xc rl cl))
        = piece_units cl @ take (nat r) (units ls)"
  using assms
proof (induction ls arbitrary: r xc rl cl)
  case (Cons l ls)
  show ?case
  proof (cases "r < l_quantity l")
    case True
    with Cons.prems show ?thesis
      by (auto simp: Let_def min_def nat_diff_distrib)
  next
    case False
    then have "min r (l_quantity l) = l_quantity l" "0 \<le> r - l_quantity l" "r \<noteq> 0"
      and "nat r = nat (l_quantity l) + nat (r - l_quantity l)"
      using Cons.prems by auto
    then show ?thesis using Cons.IH [of "r - l_quantity l"] Cons.prems by (simp add: Let_def)
  qed
qed simp

lemma close_lots_exit_charges:
  assumes "lots_pos ls" "0 < r" "c_remaining (close_lots f pr er d ls r xc rl cl) = 0"
  shows "c_exit_charges (close_lots f pr er d ls r xc rl cl) = 0"
  using assms
proof (induction ls arbitrary: r xc rl cl)
  case (Cons l ls)
  consider "r < l_quantity l" | "r = l_quantity l" | "l_quantity l < r" by linarith
  then show ?case
  proof cases
    case 1
    with Cons.prems show ?thesis by (simp add: Let_def exit_alloc_def)
  next
    case 2
    with Cons.prems show ?thesis by (cases ls) (simp_all add: Let_def exit_alloc_def)
  next
    case 3
    then have "min r (l_quantity l) = l_quantity l" "0 < r - l_quantity l" by auto
    then show ?thesis using Cons.IH [of "r - l_quantity l"] Cons.prems by (simp add: Let_def)
  qed
qed simp

lemma close_lots_closed_prefix:
  "\<exists>new. c_closed (close_lots f pr er d ls r xc rl cl) = cl @ new
     \<and> (new = [] \<longrightarrow> c_exit_charges (close_lots f pr er d ls r xc rl cl) = xc)"
proof (induction ls arbitrary: r xc rl cl)
  case (Cons l ls)
  show ?case
  proof (cases "r = 0")
    case False
    let ?n = "min r (l_quantity l)"
    let ?xa = "exit_alloc f xc ?n r"
    let ?p = "close_piece f pr er d l ?n (entry_alloc l ?n) ?xa (length cl)"
    show ?thesis
      using Cons.IH [of "r - ?n" "xc - ?xa" "rl + cp_net_pnl ?p" "cl @ [?p]"] False
      by (auto simp: Let_def)
  qed simp
qed simp

declare close_lots.simps [simp del]

subsection \<open>One fill on one net position\<close>

lemma net_wf_lots_pos: "net_wf b \<Longrightarrow> lots_pos (b_lots b)"
  by (simp add: net_wf_def lots_pos_def)

lemma reduce_phase_value:
  assumes "fill_valid f"
  shows "c_realized (reduce_phase b f pr er) - lots_value (b_direction b) (c_lots (reduce_phase b f pr er))
      - c_exit_charges (reduce_phase b f pr er)
    = b_realized b - lots_value (b_direction b) (b_lots b) - f_charges f
      + f_price f * of_int (b_direction b) * of_int (f_quantity f - c_remaining (reduce_phase b f pr er))"
  by (simp add: reduce_phase_def no_close_def close_lots_value)

lemma opening_lot_charges: "l_charges (opening_lot f st (reduce_phase b f pr er)) = c_exit_charges (reduce_phase b f pr er)"
  using close_lots_closed_prefix [of f pr er "b_direction b" "b_lots b" "f_quantity f" "f_charges f" "b_realized b" "[]"]
  by (auto simp: opening_lot_def reduce_phase_def no_close_def)

lemma reduce_phase_facts:
  assumes "net_wf b" "fill_valid f" "b_direction b \<notin> {0, side_sign (f_side f)}"
  shows "lots_qty (c_lots (reduce_phase b f pr er)) = max 0 (lots_qty (b_lots b) - f_quantity f)"
    and "c_remaining (reduce_phase b f pr er) = max 0 (f_quantity f - lots_qty (b_lots b))"
    and "lots_pos (c_lots (reduce_phase b f pr er))"
    and "c_remaining (reduce_phase b f pr er) = 0 \<Longrightarrow> c_exit_charges (reduce_phase b f pr er) = 0"
  using close_lots_qty [OF net_wf_lots_pos, of b "f_quantity f"] close_lots_exit_charges [OF net_wf_lots_pos, of b "f_quantity f"]
    assms by (auto simp: reduce_phase_def fill_valid_def)

lemma net_wf_direction:
  assumes "net_wf b" "b_direction b \<notin> {0, side_sign (f_side f)}"
  shows "b_direction b = - side_sign (f_side f)"
  using assms by (cases "f_side f") (auto simp: net_wf_def)

lemma apply_net_wf:
  assumes "net_wf b" "fill_valid f"
  shows "net_wf (fst (apply_net b f pr st er))"
proof (cases "b_direction b \<in> {0, side_sign (f_side f)}")
  case True
  with assms show ?thesis
    by (cases "f_side f") (auto simp: apply_net_def reduce_phase_def no_close_def opening_lot_def net_wf_def
        fill_valid_def Let_def)
next
  case False
  note r = reduce_phase_facts [OF assms False, of pr er]
  let ?c = "reduce_phase b f pr er"
  have d: "b_direction b \<noteq> 0" "b_direction b \<in> {- 1, 0, 1}" using False assms(1) by (auto simp: net_wf_def)
  have empty: "c_remaining ?c \<noteq> 0 \<Longrightarrow> c_lots ?c = []"
    using r(1-3) lots_qty_pos [of "c_lots ?c"] by (cases "c_lots ?c = []") auto
  have rem: "0 \<le> c_remaining ?c" using r(2) by simp
  have pos: "lots_pos (c_lots ?c)" by (rule r(3))
  have "net_wf (fst (apply_net b f pr st er))" if "c_remaining ?c = 0"
    using that d False pos by (auto simp: apply_net_def Let_def net_wf_def lots_pos_def)
  moreover have "net_wf (fst (apply_net b f pr st er))" if "c_remaining ?c \<noteq> 0"
    using that empty rem assms(2)
    by (cases "f_side f") (auto simp: apply_net_def Let_def net_wf_def opening_lot_def fill_valid_def)
  ultimately show ?thesis by blast
qed

lemma apply_net_quantity:
  assumes "net_wf b" "fill_valid f"
  shows "net_quantity (fst (apply_net b f pr st er)) = net_quantity b + side_sign (f_side f) * f_quantity f"
proof (cases "b_direction b \<in> {0, side_sign (f_side f)}")
  case True
  with assms show ?thesis
    by (auto simp: apply_net_def reduce_phase_def no_close_def opening_lot_def net_wf_def
        fill_valid_def Let_def net_quantity_def algebra_simps)
next
  case False
  note r = reduce_phase_facts [OF assms False, of pr er]
  have d: "b_direction b = - side_sign (f_side f)" by (rule net_wf_direction [OF assms(1) False])
  show ?thesis
  proof (cases "c_remaining (reduce_phase b f pr er) = 0")
    case True
    with r False d show ?thesis
      by (cases "f_side f") (auto simp: apply_net_def Let_def net_quantity_def)
  next
    case rem: False
    then have "c_lots (reduce_phase b f pr er) = []"
      using r(1-3) lots_qty_pos [of "c_lots (reduce_phase b f pr er)"]
      by (cases "c_lots (reduce_phase b f pr er) = []") auto
    with r rem False d show ?thesis
      by (cases "f_side f") (auto simp: apply_net_def Let_def net_quantity_def opening_lot_def)
  qed
qed

lemma apply_net_value:
  assumes "net_wf b" "fill_valid f"
  shows "b_realized (fst (apply_net b f pr st er))
      - lots_value (b_direction (fst (apply_net b f pr st er))) (b_lots (fst (apply_net b f pr st er)))
    = b_realized b - lots_value (b_direction b) (b_lots b) + (cash_after cash f - cash)"
proof -
  let ?c = "reduce_phase b f pr er" and ?s = "side_sign (f_side f)"
  have cash: "cash_after cash f - cash = - of_int ?s * f_price f * of_int (f_quantity f) - f_charges f"
    by (cases "f_side f") (simp_all add: cash_after_def Let_def)
  have v: "c_realized ?c - lots_value (b_direction b) (c_lots ?c) - c_exit_charges ?c
    = b_realized b - lots_value (b_direction b) (b_lots b) - f_charges f
      + f_price f * of_int (b_direction b) * of_int (f_quantity f - c_remaining ?c)"
    by (rule reduce_phase_value [OF assms(2)])
  show ?thesis
  proof (cases "b_direction b \<in> {0, ?s}")
    case True
    then have c: "?c = no_close f b" by (simp add: reduce_phase_def)
    have "f_quantity f \<noteq> 0" using assms(2) by (simp add: fill_valid_def)
    moreover have "b_direction b = 0 \<Longrightarrow> b_lots b = []" using assms(1) by (simp add: net_wf_def)
    ultimately show ?thesis
      using True c cash by (auto simp: apply_net_def Let_def no_close_def opening_lot_def algebra_simps)
  next
    case False
    note r = reduce_phase_facts [OF assms False, of pr er]
    have d: "b_direction b = - ?s" by (rule net_wf_direction [OF assms(1) False])
    show ?thesis
    proof (cases "c_remaining ?c = 0")
      case True
      then have "b_realized (fst (apply_net b f pr st er)) = c_realized ?c"
        "b_lots (fst (apply_net b f pr st er)) = c_lots ?c"
        "lots_value (b_direction (fst (apply_net b f pr st er))) (c_lots ?c) = lots_value (b_direction b) (c_lots ?c)"
        by (auto simp: apply_net_def Let_def)
      then show ?thesis using v r(4) [OF True] True cash d by (simp add: algebra_simps)
    next
      case rem: False
      then have "c_lots ?c = []"
        using r(1-3) lots_qty_pos [of "c_lots ?c"] by (cases "c_lots ?c = []") auto
      moreover from this have "b_realized (fst (apply_net b f pr st er)) = c_realized ?c"
        "b_lots (fst (apply_net b f pr st er)) = [opening_lot f st ?c]"
        "b_direction (fst (apply_net b f pr st er)) = ?s"
        using rem by (auto simp: apply_net_def Let_def)
      moreover have "l_charges (opening_lot f st ?c) = c_exit_charges ?c"
        by (rule opening_lot_charges)
      moreover have "l_quantity (opening_lot f st ?c) = c_remaining ?c" "l_price (opening_lot f st ?c) = f_price f"
        by (simp_all add: opening_lot_def)
      ultimately show ?thesis using v cash d by (simp add: algebra_simps)
    qed
  qed
qed

subsection \<open>One fill on the book\<close>

lemma net_wf_empty [simp]: "net_wf empty_net"
  by (simp add: net_wf_def empty_net_def)

lemma empty_net_simps [simp]:
  "net_quantity empty_net = 0" "b_lots empty_net = []" "b_realized empty_net = 0" "b_direction empty_net = 0"
  by (simp_all add: empty_net_def net_quantity_def)

lemma net_of_wf: "pb_inv pb \<Longrightarrow> net_wf (net_of pb k)"
  by (auto simp: net_of_def dget_or_def pb_inv_def dest: dget_in_set split: option.splits)

lemma pb_quantity_net_of: "pb_quantity pb ik pr = net_quantity (net_of pb (ik, pr))"
  by (simp add: pb_quantity_def net_of_def dget_or_def split: option.splits)

text \<open>Looking a key up with \<open>setdefault\<close> changes nothing that is read back.\<close>

definition with_default :: "position_book \<Rightarrow> pos_key \<Rightarrow> (pos_key, net_book) dict" where
  "with_default pb key =
     (if dget (pb_books pb) key = None then dset key (net_of pb key) (pb_books pb) else pb_books pb)"

lemma with_default_get: "dget_or empty_net (with_default pb key) k = net_of pb k"
  by (auto simp: with_default_def net_of_def dget_or_def dget_dset split: option.splits)

lemma with_default_sum:
  fixes g :: "pos_key \<Rightarrow> net_book \<Rightarrow> rat"
  assumes "\<And>k. g k empty_net = 0"
  shows "dsum g (with_default pb key) = dsum g (pb_books pb)"
  using assms by (auto simp: with_default_def net_of_def dget_or_def dsum_dset)

lemma with_default_distinct: "distinct (map fst (pb_books pb)) \<Longrightarrow> distinct (map fst (with_default pb key))"
  by (simp add: with_default_def distinct_dset)

lemma with_default_wf:
  "pb_inv pb \<Longrightarrow> (k, b) \<in> set (with_default pb key) \<Longrightarrow> net_wf b"
  using net_of_wf [of pb key] by (auto simp: with_default_def pb_inv_def dest!: set_dset split: if_splits)

lemma dget_with_default: "dget (with_default pb key) key = Some (net_of pb key)"
  by (auto simp: with_default_def net_of_def dget_or_def split: option.splits)

lemma apply_fill_wrong_book: "f_book_id f \<noteq> pb_book_id pb \<Longrightarrow> apply_fill pb f pr st er = Inl ValueError"
  by (simp add: apply_fill_def)

lemma apply_fill_dup:
  assumes "f_book_id f = pb_book_id pb" "f_fill_id f \<in> pb_seen pb"
  shows "apply_fill pb f pr st er = Inr (pb\<lparr>pb_books := with_default pb (f_instrument_key f, pr)\<rparr>,
    \<lparr>fo_position = position_of pb (f_instrument_key f, pr) (net_of pb (f_instrument_key f, pr)) (f_ts f),
     fo_closed = [], fo_duplicate = True\<rparr>)"
  using assms by (simp add: apply_fill_def with_default_def Let_def)

lemma apply_fill_new:
  assumes "f_book_id f = pb_book_id pb" "f_fill_id f \<notin> pb_seen pb"
  shows "apply_fill pb f pr st er =
    (let key = (f_instrument_key f, pr); r = apply_net (net_of pb key) f pr st er
     in Inr (pb\<lparr>pb_seen := insert (f_fill_id f) (pb_seen pb), pb_cash := cash_after (pb_cash pb) f,
                pb_books := dset key (fst r) (with_default pb key)\<rparr>,
             \<lparr>fo_position = position_of pb key (fst r) (f_ts f), fo_closed = snd r, fo_duplicate = False\<rparr>))"
  using assms by (simp add: apply_fill_def with_default_def Let_def case_prod_unfold)

lemma apply_fill_cases [consumes 1, case_names dup new]:
  assumes "apply_fill pb f pr st er = Inr (pb', oc)"
  obtains (dup) "f_book_id f = pb_book_id pb" "f_fill_id f \<in> pb_seen pb"
      "pb' = pb\<lparr>pb_books := with_default pb (f_instrument_key f, pr)\<rparr>" "fo_closed oc = []"
  | (new) "f_book_id f = pb_book_id pb" "f_fill_id f \<notin> pb_seen pb"
      "pb' = pb\<lparr>pb_seen := insert (f_fill_id f) (pb_seen pb), pb_cash := cash_after (pb_cash pb) f,
          pb_books := dset (f_instrument_key f, pr)
            (fst (apply_net (net_of pb (f_instrument_key f, pr)) f pr st er))
            (with_default pb (f_instrument_key f, pr))\<rparr>"
      "fo_closed oc = snd (apply_net (net_of pb (f_instrument_key f, pr)) f pr st er)"
proof (cases "f_book_id f = pb_book_id pb")
  case False
  with assms show ?thesis by (simp add: apply_fill_wrong_book)
next
  case True
  show ?thesis
  proof (cases "f_fill_id f \<in> pb_seen pb")
    case dup: True
    with True assms show ?thesis by (intro that(1)) (auto simp: apply_fill_dup)
  next
    case new: False
    with True assms show ?thesis by (intro that(2)) (auto simp: apply_fill_new Let_def)
  qed
qed

lemma apply_fill_total: "f_book_id f = pb_book_id pb \<Longrightarrow> \<exists>pb' oc. apply_fill pb f pr st er = Inr (pb', oc)"
  by (cases "f_fill_id f \<in> pb_seen pb") (auto simp: apply_fill_dup apply_fill_new Let_def)

lemma apply_fill_frame:
  assumes "apply_fill pb f pr st er = Inr (pb', oc)"
  shows "pb_book_id pb' = pb_book_id pb" "pb_starting_cash pb' = pb_starting_cash pb"
    "pb_seen pb' = insert (f_fill_id f) (pb_seen pb)"
  using assms by (cases rule: apply_fill_cases; auto)+

lemma apply_fill_inv [invariant_intros]:
  assumes "apply_fill pb f pr st er = Inr (pb', oc)" "pb_inv pb" "fill_valid f"
  shows "pb_inv pb'"
  using assms(1)
proof (cases rule: apply_fill_cases)
  case dup
  with assms show ?thesis
    by (auto simp: pb_inv_def ledger_ok_def with_default_distinct with_default_sum
        intro: with_default_wf [OF assms(2)])
next
  case new
  let ?k = "(f_instrument_key f, pr)"
  let ?b' = "fst (apply_net (net_of pb ?k) f pr st er)"
  let ?g = "\<lambda>k b. b_realized b - lots_value (b_direction b) (b_lots b)"
  have wf: "net_wf ?b'" using apply_net_wf net_of_wf [OF assms(2)] assms(3) by blast
  have inv: "distinct (map fst (pb_books pb))" "ledger_ok pb" using assms(2) by (auto simp: pb_inv_def)
  have "dsum ?g (dset ?k ?b' (with_default pb ?k)) = dsum ?g (pb_books pb) - ?g ?k (net_of pb ?k) + ?g ?k ?b'"
    by (simp add: dsum_dset dget_with_default with_default_sum)
  also have "\<dots> = dsum ?g (pb_books pb) + (cash_after (pb_cash pb) f - pb_cash pb)"
    using apply_net_value [OF net_of_wf [OF assms(2)] assms(3), of ?k pr st er "pb_cash pb"] by simp
  finally have "ledger_ok pb'" using inv new by (simp add: ledger_ok_def)
  moreover have "\<forall>(k, b) \<in> set (pb_books pb'). net_wf b"
    using new wf with_default_wf [OF assms(2)] by (auto dest!: set_dset)
  ultimately show ?thesis
    using new inv by (simp add: pb_inv_def distinct_dset with_default_distinct)
qed

lemma apply_fill_dup_quantity:
  assumes "apply_fill pb f pr st er = Inr (pb', oc)" "f_fill_id f \<in> pb_seen pb"
  shows "pb_quantity pb' = pb_quantity pb" "pb_cash pb' = pb_cash pb"
proof -
  have "pb' = pb\<lparr>pb_books := with_default pb (f_instrument_key f, pr)\<rparr>"
    using assms by (cases rule: apply_fill_cases) auto
  then show "pb_quantity pb' = pb_quantity pb" "pb_cash pb' = pb_cash pb"
    using with_default_get by (auto simp: pb_quantity_net_of net_of_def fun_eq_iff)
qed

lemma apply_fill_new_quantity:
  assumes "apply_fill pb f pr st er = Inr (pb', oc)" "f_fill_id f \<notin> pb_seen pb" "pb_inv pb" "fill_valid f"
  shows "pb_quantity pb' ik p = pb_quantity pb ik p
    + (if ik = f_instrument_key f \<and> p = pr then side_sign (f_side f) * f_quantity f else 0)"
proof -
  let ?k = "(f_instrument_key f, pr)"
  let ?b' = "fst (apply_net (net_of pb ?k) f pr st er)"
  have "pb_books pb' = dset ?k ?b' (with_default pb ?k)"
    using assms(1,2) by (cases rule: apply_fill_cases) auto
  then have "net_of pb' (ik, p) = (if (ik, p) = ?k then ?b' else net_of pb (ik, p))"
    using with_default_get [of pb ?k "(ik, p)"] by (auto simp: net_of_def dget_or_def dget_dset)
  then show ?thesis
    using apply_net_quantity [OF net_of_wf [OF assms(3)] assms(4)] by (auto simp: pb_quantity_net_of)
qed

lemma new_book_inv [simp]: "pb_inv (new_book bid cash)"
  by (simp add: pb_inv_def new_book_def ledger_ok_def)

lemma apply_fill_new_cash:
  assumes "apply_fill pb f pr st er = Inr (pb', oc)" "f_fill_id f \<notin> pb_seen pb"
  shows "pb_cash pb' = cash_after (pb_cash pb) f"
  using assms by (cases rule: apply_fill_cases) auto

subsection \<open>What clients of the book rely on\<close>

text \<open>A fill with what the order manager passes along with it: product, strategy, exit reason.\<close>

type_synonym fill_call = "fill \<times> product \<times> string \<times> string"

abbreviation fc_id :: "fill_call \<Rightarrow> string" where
  "fc_id c \<equiv> f_fill_id (fst c)"

fun fold_fills ::
  "('b \<Rightarrow> fill \<Rightarrow> product \<Rightarrow> string \<Rightarrow> string \<Rightarrow> ('b \<times> fill_outcome) result)
    \<Rightarrow> 'b \<Rightarrow> fill_call list \<Rightarrow> 'b result" where
  "fold_fills app b [] = Inr b"
| "fold_fills app b ((f, pr, st, er) # cs) =
     (case app b f pr st er of Inl e \<Rightarrow> Inl e | Inr (b', oc) \<Rightarrow> fold_fills app b' cs)"

text \<open>The calls that carry a fill id not seen before: the reference semantics of a fill stream.\<close>

fun fresh_fills :: "string set \<Rightarrow> fill_call list \<Rightarrow> fill_call list" where
  "fresh_fills seen [] = []"
| "fresh_fills seen (c # cs) =
     (if fc_id c \<in> seen then fresh_fills seen cs else c # fresh_fills (insert (fc_id c) seen) cs)"

definition signed_qty :: "string \<Rightarrow> product \<Rightarrow> fill_call \<Rightarrow> int" where
  "signed_qty ik pr c =
     (if f_instrument_key (fst c) = ik \<and> fst (snd c) = pr
      then side_sign (f_side (fst c)) * f_quantity (fst c) else 0)"

definition cash_flow :: "fill \<Rightarrow> rat" where
  "cash_flow f = - of_int (side_sign (f_side f)) * fill_notional f - f_charges f"

lemma cash_after_flow: "cash_after cash f = cash + cash_flow f"
  by (cases "f_side f") (simp_all add: cash_after_def cash_flow_def fill_notional_def Let_def)

lemma fresh_fills_subset: "set (map fc_id cs) \<subseteq> seen \<Longrightarrow> fresh_fills seen cs = []"
  by (induction cs) auto

lemma fresh_fills_append:
  "fresh_fills seen (cs @ ds) = fresh_fills seen cs @ fresh_fills (seen \<union> set (map fc_id cs)) ds"
proof (induction cs arbitrary: seen)
  case (Cons c cs)
  have "insert (fc_id c) seen \<union> set (map fc_id cs) = seen \<union> set (map fc_id (c # cs))" by auto
  with Cons show ?case by (auto simp: insert_absorb)
qed simp

lemma fresh_fills_distinct: "distinct (map fc_id cs) \<Longrightarrow> seen \<inter> set (map fc_id cs) = {} \<Longrightarrow> fresh_fills seen cs = cs"
  by (induction cs arbitrary: seen) auto

locale fill_ledger =
  fixes app :: "'b \<Rightarrow> fill \<Rightarrow> product \<Rightarrow> string \<Rightarrow> string \<Rightarrow> ('b \<times> fill_outcome) result"
    and seen :: "'b \<Rightarrow> string set"
    and bid :: "'b \<Rightarrow> string"
    and qty :: "'b \<Rightarrow> string \<Rightarrow> product \<Rightarrow> int"
    and cash :: "'b \<Rightarrow> rat"
    and inv :: "'b \<Rightarrow> bool"
  assumes app_total: "f_book_id f = bid b \<Longrightarrow> \<exists>b' oc. app b f pr st er = Inr (b', oc)"
    and app_bid: "app b f pr st er = Inr (b', oc) \<Longrightarrow> bid b' = bid b"
    and app_seen: "app b f pr st er = Inr (b', oc) \<Longrightarrow> seen b' = insert (f_fill_id f) (seen b)"
    and app_inv: "app b f pr st er = Inr (b', oc) \<Longrightarrow> inv b \<Longrightarrow> fill_valid f \<Longrightarrow> inv b'"
    and app_dup: "app b f pr st er = Inr (b', oc) \<Longrightarrow> f_fill_id f \<in> seen b
      \<Longrightarrow> qty b' = qty b \<and> cash b' = cash b"
    and app_new: "app b f pr st er = Inr (b', oc) \<Longrightarrow> f_fill_id f \<notin> seen b \<Longrightarrow> inv b \<Longrightarrow> fill_valid f
      \<Longrightarrow> qty b' ik p = qty b ik p + signed_qty ik p (f, pr, st, er) \<and> cash b' = cash b + cash_flow f"
begin

lemma fold_total:
  assumes "\<And>c. c \<in> set cs \<Longrightarrow> f_book_id (fst c) = bid b"
  shows "\<exists>b'. fold_fills app b cs = Inr b'"
  using assms
proof (induction cs arbitrary: b)
  case (Cons c cs)
  obtain f pr st er where c: "c = (f, pr, st, er)" by (metis prod.collapse)
  obtain b' oc where a: "app b f pr st er = Inr (b', oc)" using app_total [of f b pr st er] Cons.prems [of c] c by auto
  have "\<exists>b''. fold_fills app b' cs = Inr b''"
    using Cons.prems app_bid [OF a] by (intro Cons.IH) auto
  with a c show ?case by simp
qed simp

lemma fold_inv:
  assumes "fold_fills app b cs = Inr b'" "inv b" "\<And>c. c \<in> set cs \<Longrightarrow> fill_valid (fst c)"
  shows "inv b'"
  using assms
proof (induction cs arbitrary: b)
  case (Cons c cs)
  obtain f pr st er where c: "c = (f, pr, st, er)" by (metis prod.collapse)
  with Cons.prems(1) obtain b1 oc where a: "app b f pr st er = Inr (b1, oc)" "fold_fills app b1 cs = Inr b'"
    by (auto split: sum.splits prod.splits)
  have "inv b1" using app_inv [OF a(1) Cons.prems(2)] Cons.prems(3) [of c] c by simp
  with a(2) Cons show ?case by auto
qed simp

lemma fold_frame:
  assumes "fold_fills app b cs = Inr b'"
  shows "bid b' = bid b \<and> seen b' = seen b \<union> set (map fc_id cs)"
  using assms
proof (induction cs arbitrary: b)
  case (Cons c cs)
  obtain f pr st er where c: "c = (f, pr, st, er)" by (metis prod.collapse)
  with Cons.prems(1) obtain b1 oc where a: "app b f pr st er = Inr (b1, oc)" "fold_fills app b1 cs = Inr b'"
    by (auto split: sum.splits prod.splits)
  show ?case using Cons.IH [OF a(2)] app_bid [OF a(1)] app_seen [OF a(1)] c by auto
qed simp

text \<open>The book after a stream is the book before it plus the fresh fills, each counted once.\<close>

lemma fold_refines:
  assumes "fold_fills app b cs = Inr b'" "inv b" "\<And>c. c \<in> set cs \<Longrightarrow> fill_valid (fst c)"
  shows "qty b' ik p = qty b ik p + sum_list (map (signed_qty ik p) (fresh_fills (seen b) cs))
    \<and> cash b' = cash b + sum_list (map (cash_flow \<circ> fst) (fresh_fills (seen b) cs))"
  using assms
proof (induction cs arbitrary: b)
  case (Cons c cs)
  obtain f pr st er where c: "c = (f, pr, st, er)" by (metis prod.collapse)
  with Cons.prems(1) obtain b1 oc where a: "app b f pr st er = Inr (b1, oc)" "fold_fills app b1 cs = Inr b'"
    by (auto split: sum.splits prod.splits)
  have v: "fill_valid f" using Cons.prems(3) [of c] c by simp
  have "inv b1" by (rule app_inv [OF a(1) Cons.prems(2) v])
  note ih = Cons.IH [OF a(2) this] and sn = app_seen [OF a(1)]
  show ?case
  proof (cases "f_fill_id f \<in> seen b")
    case True
    then show ?thesis using ih Cons.prems(3) app_dup [OF a(1) True] sn c by (auto simp: insert_absorb)
  next
    case False
    then show ?thesis using ih Cons.prems(3) app_new [OF a(1) False Cons.prems(2) v, of ik p] sn c by auto
  qed
qed simp

lemma fold_replay:
  assumes "fold_fills app b cs = Inr b'" "inv b'" "set (map fc_id ds) \<subseteq> set (map fc_id cs)"
    and "\<And>c. c \<in> set ds \<Longrightarrow> fill_valid (fst c) \<and> f_book_id (fst c) = bid b"
  shows "\<exists>b''. fold_fills app b' ds = Inr b'' \<and> (\<forall>ik p. qty b'' ik p = qty b' ik p) \<and> cash b'' = cash b'"
proof -
  note fr = fold_frame [OF assms(1)]
  obtain b'' where r: "fold_fills app b' ds = Inr b''" using fold_total [of ds b'] assms(4) fr by auto
  have "fresh_fills (seen b') ds = []" using fr assms(3) by (intro fresh_fills_subset) auto
  with fold_refines [OF r assms(2)] assms(4) r show ?thesis by auto
qed

end

interpretation pbl: fill_ledger apply_fill pb_seen pb_book_id pb_quantity pb_cash pb_inv
proof unfold_locales
  fix b b' f pr st er oc ik p
  show "f_book_id f = pb_book_id b \<Longrightarrow> \<exists>b' oc. apply_fill b f pr st er = Inr (b', oc)"
    by (rule apply_fill_total)
  assume a: "apply_fill b f pr st er = Inr (b', oc)"
  show "pb_book_id b' = pb_book_id b" "pb_seen b' = insert (f_fill_id f) (pb_seen b)"
    by (rule apply_fill_frame [OF a])+
  show "pb_inv b \<Longrightarrow> fill_valid f \<Longrightarrow> pb_inv b'" by (rule apply_fill_inv [OF a])
  show "f_fill_id f \<in> pb_seen b \<Longrightarrow> pb_quantity b' = pb_quantity b \<and> pb_cash b' = pb_cash b"
    using apply_fill_dup_quantity [OF a] by simp
  show "f_fill_id f \<notin> pb_seen b \<Longrightarrow> pb_inv b \<Longrightarrow> fill_valid f \<Longrightarrow>
    pb_quantity b' ik p = pb_quantity b ik p + signed_qty ik p (f, pr, st, er) \<and> pb_cash b' = pb_cash b + cash_flow f"
    using apply_fill_new_quantity [OF a] apply_fill_new_cash [OF a] by (auto simp: signed_qty_def cash_after_flow)
qed

lemma fold_fills_starting_cash:
  "fold_fills apply_fill pb cs = Inr pb' \<Longrightarrow> pb_starting_cash pb' = pb_starting_cash pb"
proof (induction cs arbitrary: pb)
  case (Cons c cs)
  obtain f pr st er where "c = (f, pr, st, er)" by (metis prod.collapse)
  with Cons show ?case by (auto split: sum.splits dest: apply_fill_frame(2))
qed simp

subsection \<open>Positions and equity\<close>

lemma lots_cost_pos: "lots_pos ls \<Longrightarrow> ls \<noteq> [] \<Longrightarrow> 0 < lots_cost ls"
proof (induction ls)
  case (Cons l ls)
  then have "0 < l_price l * of_int (l_quantity l)" by simp
  moreover have "0 \<le> lots_cost ls" using Cons by (cases "ls = []") (auto simp: lots_cost_def)
  ultimately show ?case by (simp add: lots_cost_def)
qed simp

lemma net_quantity_zero: "net_wf b \<Longrightarrow> net_quantity b = 0 \<longleftrightarrow> b_lots b = []"
  using lots_qty_pos [OF net_wf_lots_pos] by (fastforce simp: net_quantity_def net_wf_def)

lemma position_of_valid: "net_wf b \<Longrightarrow> position_valid (position_of pb k b now)"
  using lots_cost_pos [OF net_wf_lots_pos, of b] lots_qty_pos [OF net_wf_lots_pos, of b]
  by (auto simp: position_valid_def position_of_def Let_def net_quantity_zero intro: ddiv_pos)

text \<open>The profit still open on a book: every lot at its mark, less the entry charges it carries.\<close>

definition open_pnl :: "(string, rat) dict \<Rightarrow> string \<Rightarrow> net_book \<Rightarrow> rat" where
  "open_pnl marks ik b =
     sum_list (map (\<lambda>l. of_int (b_direction b * l_quantity l) * (dget_or 0 marks ik - l_price l) - l_charges l)
       (b_lots b))"

definition pb_open_pnl :: "position_book \<Rightarrow> (string, rat) dict \<Rightarrow> rat" where
  "pb_open_pnl pb marks = dsum (\<lambda>k b. open_pnl marks (fst k) b) (pb_books pb)"

definition marks_cover :: "position_book \<Rightarrow> (string, rat) dict \<Rightarrow> bool" where
  "marks_cover pb marks =
     (\<forall>((ik, pr), b) \<in> set (pb_books pb). net_quantity b \<noteq> 0 \<longrightarrow> dget marks ik \<noteq> None)"

lemma open_pnl_value:
  "open_pnl marks ik b = of_int (net_quantity b) * dget_or 0 marks ik - lots_value (b_direction b) (b_lots b)"
proof -
  have "sum_list (map (\<lambda>l. of_int (d * l_quantity l) * (m - l_price l) - l_charges l) ls)
      = of_int (d * lots_qty ls) * m - lots_value d ls" for d m ls
    by (induction ls) (auto simp: algebra_simps)
  then show ?thesis by (simp add: open_pnl_def net_quantity_def)
qed

lemma market_value_of_cover:
  assumes "\<forall>((ik, pr), b) \<in> set bs. net_quantity b \<noteq> 0 \<longrightarrow> dget marks ik \<noteq> None"
  shows "market_value_of bs marks acc
    = Inr (acc + dsum (\<lambda>k b. of_int (net_quantity b) * dget_or 0 marks (fst k)) bs)"
  using assms
proof (induction bs arbitrary: acc)
  case (Cons kb bs)
  obtain ik pr b where kb: "kb = ((ik, pr), b)" by (metis prod.collapse)
  from Cons.prems have "\<forall>((ik, pr), b) \<in> set bs. net_quantity b \<noteq> 0 \<longrightarrow> dget marks ik \<noteq> None" by simp
  note ih = Cons.IH [OF this]
  show ?case
  proof (cases "net_quantity b = 0")
    case True
    with ih kb show ?thesis by simp
  next
    case False
    with Cons.prems kb obtain m where "dget marks ik = Some m" by auto
    with False kb ih show ?thesis by (simp add: dget_or_def)
  qed
qed simp

lemma market_value_of_missing:
  assumes "\<exists>((ik, pr), b) \<in> set bs. net_quantity b \<noteq> 0 \<and> dget marks ik = None"
  shows "market_value_of bs marks acc = Inl KeyError"
  using assms
proof (induction bs arbitrary: acc)
  case (Cons kb bs)
  obtain ik pr b where kb: "kb = ((ik, pr), b)" by (metis prod.collapse)
  with Cons show ?case by (auto split: option.splits)
qed simp

lemma equity_value:
  assumes "pb_inv pb" "marks_cover pb marks"
  shows "equity pb marks = Inr (pb_starting_cash pb + pb_realized_pnl pb + pb_open_pnl pb marks)"
proof -
  have add: "dsum f d + dsum g d = dsum (\<lambda>k b. f k b + g k b) d"
    for f g :: "pos_key \<Rightarrow> net_book \<Rightarrow> rat" and d by (induction d) auto
  have "market_value pb marks = Inr (dsum (\<lambda>k b. of_int (net_quantity b) * dget_or 0 marks (fst k)) (pb_books pb))"
    using market_value_of_cover [of "pb_books pb" marks 0] assms(2)
    by (simp add: market_value_def marks_cover_def)
  moreover have "pb_cash pb = pb_starting_cash pb
      + dsum (\<lambda>k b. b_realized b - lots_value (b_direction b) (b_lots b)) (pb_books pb)"
    using assms(1) by (simp add: pb_inv_def ledger_ok_def)
  ultimately show ?thesis
    by (simp add: equity_def pb_realized_pnl_def pb_open_pnl_def open_pnl_value add algebra_simps)
qed

lemma apply_net_fifo:
  assumes "net_wf b" "fill_valid f" "b_direction b \<notin> {0, side_sign (f_side f)}"
  shows "piece_units (snd (apply_net b f pr st er)) = take (nat (f_quantity f)) (units (b_lots b))"
    and "f_quantity f \<le> lots_qty (b_lots b) \<Longrightarrow>
      units (b_lots (fst (apply_net b f pr st er))) = drop (nat (f_quantity f)) (units (b_lots b))"
proof -
  have q: "0 \<le> f_quantity f" using assms(2) by (simp add: fill_valid_def)
  note z = close_lots_fifo [OF net_wf_lots_pos [OF assms(1)] q, of f pr er "b_direction b" "f_charges f" "b_realized b" "[]"]
  show "piece_units (snd (apply_net b f pr st er)) = take (nat (f_quantity f)) (units (b_lots b))"
    using z assms(3) by (simp add: apply_net_def Let_def reduce_phase_def)
  assume "f_quantity f \<le> lots_qty (b_lots b)"
  then have "c_remaining (reduce_phase b f pr er) = 0" using reduce_phase_facts(2) [OF assms] by simp
  then show "units (b_lots (fst (apply_net b f pr st er))) = drop (nat (f_quantity f)) (units (b_lots b))"
    using z assms(3) by (simp add: apply_net_def Let_def reduce_phase_def)
qed

lemma pb_lots_net_of: "pb_lots pb ik pr = b_lots (net_of pb (ik, pr))"
  by (simp add: pb_lots_def net_of_def dget_or_def empty_net_def split: option.splits)

lemma net_wf_opposes:
  "net_wf b \<Longrightarrow> net_quantity b * side_sign s < 0 \<Longrightarrow> b_direction b \<notin> {0, side_sign s}"
  using lots_qty_pos [OF net_wf_lots_pos, of b]
  by (cases s; cases "b_lots b = []") (auto simp: net_wf_def net_quantity_def mult_less_0_iff)

lemma net_quantity_abs: "net_wf b \<Longrightarrow> \<bar>net_quantity b\<bar> = lots_qty (b_lots b)"
  using lots_qty_pos [OF net_wf_lots_pos, of b]
  by (cases "b_lots b = []") (auto simp: net_wf_def net_quantity_def abs_mult)

subsection \<open>Properties of the book\<close>

definition sample_fill :: "string \<Rightarrow> side \<Rightarrow> int \<Rightarrow> rat \<Rightarrow> fill" where
  "sample_fill fid s n price =
     \<lparr>f_fill_id = fid, f_client_order_id = ''rq1'', f_broker_order_id = None, f_book_id = ''main'',
      f_decision_id = ''d1'', f_instrument_key = ''NSE:EQ:INFY'', f_side = s, f_quantity = n,
      f_price = price, f_ts = 0, f_charges = 2\<rparr>"

definition sample_calls :: "fill_call list" where
  "sample_calls =
     [(sample_fill ''f1'' BUY 10 100, MIS, ''momentum'', ''''),
      (sample_fill ''f2'' SELL 4 110, MIS, ''momentum'', ''target'')]"

lemma sample_calls_valid: "\<forall>c \<in> set sample_calls. fill_valid (fst c) \<and> f_book_id (fst c) = ''main''"
  by (simp add: sample_calls_def sample_fill_def fill_valid_def)

lemma sample_calls_run: "\<exists>pb. fold_fills apply_fill (new_book ''main'' 5000) sample_calls = Inr pb"
  using pbl.fold_total [of sample_calls "new_book ''main'' 5000"] sample_calls_valid
  by (auto simp: new_book_def)

text \<open>Money is conserved by the exact book. Applying any stream of valid fills of the book to a new
  book succeeds; the cash is the starting cash plus the cash flow of each distinct fill, taken once;
  and at any marks that cover the open positions the equity is the starting cash plus the realized
  profit plus the profit of the open lots, charges included, with no residue from the pro-rata
  rounding of the charges.\<close>

theorem exact_book_conserves_money:
  assumes "\<forall>c \<in> set cs. fill_valid (fst c) \<and> f_book_id (fst c) = bid"
  shows "\<exists>pb. fold_fills apply_fill (new_book bid cash) cs = Inr pb
    \<and> pb_cash pb = cash + sum_list (map (cash_flow \<circ> fst) (fresh_fills {} cs))
    \<and> (\<forall>marks. marks_cover pb marks \<longrightarrow>
          equity pb marks = Inr (cash + pb_realized_pnl pb + pb_open_pnl pb marks))"
proof -
  have nb: "pb_book_id (new_book bid cash) = bid" "pb_seen (new_book bid cash) = {}"
    "pb_cash (new_book bid cash) = cash" by (simp_all add: new_book_def)
  obtain pb where r: "fold_fills apply_fill (new_book bid cash) cs = Inr pb"
    using pbl.fold_total [of cs "new_book bid cash"] assms nb by auto
  have inv: "pb_inv pb" using pbl.fold_inv [OF r] assms by simp
  have "pb_starting_cash pb = cash" using fold_fills_starting_cash [OF r] by (simp add: new_book_def)
  with r inv equity_value [OF inv] pbl.fold_refines [OF r] assms nb show ?thesis by simp
qed

text \<open>The net position in every instrument and product is the signed sum of the distinct fills
  received for it: a fill delivered again, in any order, is counted once.\<close>

theorem book_quantity_is_sum_of_fills:
  assumes "\<forall>c \<in> set cs. fill_valid (fst c)" "fold_fills apply_fill (new_book bid cash) cs = Inr pb"
  shows "pb_quantity pb ik pr = sum_list (map (signed_qty ik pr) (fresh_fills {} cs))"
proof -
  have "pb_quantity pb ik pr
      = pb_quantity (new_book bid cash) ik pr + sum_list (map (signed_qty ik pr) (fresh_fills {} cs))"
    using pbl.fold_refines [OF assms(2) new_book_inv, of ik pr] assms(1) by (simp add: new_book_def)
  then show ?thesis by (simp add: new_book_def pb_quantity_def)
qed

theorem book_quantity_is_sum_of_fills_witness:
  "\<exists>pb. fold_fills apply_fill (new_book ''main'' 5000) sample_calls = Inr pb
     \<and> pb_quantity pb ''NSE:EQ:INFY'' MIS = 6"
proof -
  obtain pb where r: "fold_fills apply_fill (new_book ''main'' 5000) sample_calls = Inr pb"
    using sample_calls_run by blast
  with sample_calls_valid book_quantity_is_sum_of_fills [OF _ r, of "''NSE:EQ:INFY''" MIS] show ?thesis
    by (simp add: sample_calls_def sample_fill_def signed_qty_def)
qed

text \<open>Delivering fills again after a stream was applied, as a broker resend or a replay of the
  journal does, changes neither a position nor the cash, and is never refused.\<close>

theorem book_replay_exactly_once:
  assumes "fold_fills apply_fill (new_book bid cash) cs = Inr pb"
    and "\<forall>c \<in> set cs \<union> set ds. fill_valid (fst c) \<and> f_book_id (fst c) = bid"
    and "fc_id ` set ds \<subseteq> fc_id ` set cs"
  shows "\<exists>pb'. fold_fills apply_fill pb ds = Inr pb'
    \<and> (\<forall>ik pr. pb_quantity pb' ik pr = pb_quantity pb ik pr) \<and> pb_cash pb' = pb_cash pb"
proof (rule pbl.fold_replay [OF assms(1)])
  show "pb_inv pb" using pbl.fold_inv [OF assms(1)] assms(2) by simp
  show "set (map fc_id ds) \<subseteq> set (map fc_id cs)" using assms(3) by simp
  show "\<And>c. c \<in> set ds \<Longrightarrow> fill_valid (fst c) \<and> f_book_id (fst c) = pb_book_id (new_book bid cash)"
    using assms(2) by (simp add: new_book_def)
qed

theorem book_replay_exactly_once_witness:
  "\<exists>pb pb'. fold_fills apply_fill (new_book ''main'' 5000) sample_calls = Inr pb
     \<and> fold_fills apply_fill pb (rev sample_calls) = Inr pb' \<and> pb_cash pb' = pb_cash pb"
proof -
  obtain pb where r: "fold_fills apply_fill (new_book ''main'' 5000) sample_calls = Inr pb"
    using sample_calls_run by blast
  with sample_calls_valid book_replay_exactly_once [OF r, of "rev sample_calls"] show ?thesis by auto
qed

text \<open>C2: Matching is first in, first out. A fill against the position closes the oldest shares:
  share by share, the closed pieces are the first shares of the lots, and when the fill is no
  larger than the position the shares left are the rest, in the same order.\<close>

theorem book_matches_fifo:
  assumes "pb_inv pb" "fill_valid f" "f_fill_id f \<notin> pb_seen pb"
    and "pb_quantity pb (f_instrument_key f) pr * side_sign (f_side f) < 0"
    and "apply_fill pb f pr st er = Inr (pb', oc)"
  shows "piece_units (fo_closed oc) = take (nat (f_quantity f)) (units (pb_lots pb (f_instrument_key f) pr))
    \<and> (f_quantity f \<le> \<bar>pb_quantity pb (f_instrument_key f) pr\<bar> \<longrightarrow>
      units (pb_lots pb' (f_instrument_key f) pr)
        = drop (nat (f_quantity f)) (units (pb_lots pb (f_instrument_key f) pr)))"
proof -
  let ?k = "(f_instrument_key f, pr)"
  have wf: "net_wf (net_of pb ?k)" by (rule net_of_wf [OF assms(1)])
  have opp: "b_direction (net_of pb ?k) \<notin> {0, side_sign (f_side f)}"
    using net_wf_opposes [OF wf] assms(4) by (simp add: pb_quantity_net_of)
  have "fo_closed oc = snd (apply_net (net_of pb ?k) f pr st er)
    \<and> net_of pb' ?k = fst (apply_net (net_of pb ?k) f pr st er)"
    using assms(5,3) by (cases rule: apply_fill_cases) (auto simp: net_of_def dget_or_def)
  then show ?thesis
    using apply_net_fifo [OF wf assms(2) opp, of pr st er] net_quantity_abs [OF wf]
    by (simp add: pb_lots_net_of pb_quantity_net_of)
qed


definition sample_lot :: "int \<Rightarrow> rat \<Rightarrow> lot" where
  "sample_lot n price = \<lparr>l_quantity = n, l_price = price, l_charges = 0, l_opened_at = 0,
     l_decision_id = ''d1'', l_strategy = ''momentum'', l_fill_id = ''f0''\<rparr>"

definition sample_book :: position_book where
  "sample_book = \<lparr>pb_book_id = ''main'', pb_starting_cash = 5000, pb_cash = 4485,
     pb_books = [((''NSE:EQ:INFY'', MIS), \<lparr>b_lots = [sample_lot 2 100, sample_lot 3 105], b_direction = 1,
       b_realized = 0, b_updated_at = Some 0\<rparr>)], pb_seen = {}\<rparr>"

lemma sample_book_inv: "pb_inv sample_book"
  by (simp add: sample_book_def pb_inv_def net_wf_def ledger_ok_def sample_lot_def)

theorem book_matches_fifo_witness:
  "\<exists>pb' oc. apply_fill sample_book (sample_fill ''f1'' SELL 3 110) MIS ''momentum'' ''stop'' = Inr (pb', oc)
     \<and> piece_units (fo_closed oc) = [100, 100, 105]
     \<and> units (pb_lots pb' ''NSE:EQ:INFY'' MIS) = [105, 105]"
proof -
  let ?f = "sample_fill ''f1'' SELL 3 110"
  have f: "f_book_id ?f = pb_book_id sample_book" "fill_valid ?f" "f_fill_id ?f \<notin> pb_seen sample_book"
    "f_instrument_key ?f = ''NSE:EQ:INFY''" "f_quantity ?f = 3" "f_side ?f = SELL"
    by (simp_all add: sample_fill_def sample_book_def fill_valid_def)
  have b: "pb_quantity sample_book ''NSE:EQ:INFY'' MIS = 5"
    "units (pb_lots sample_book ''NSE:EQ:INFY'' MIS) = [100, 100, 105, 105, 105]"
    by (simp_all add: sample_book_def pb_quantity_def net_quantity_def pb_lots_def sample_lot_def
        numeral_eq_Suc)
  obtain pb' oc where r: "apply_fill sample_book ?f MIS ''momentum'' ''stop'' = Inr (pb', oc)"
    using apply_fill_total [OF f(1)] by blast
  with book_matches_fifo [OF sample_book_inv f(2,3) _ r] f b show ?thesis by (auto simp: numeral_eq_Suc)
qed

end
