(* ===== verification/Broker_Base.thy ===== *)
theory Broker_Base
  imports Position_Book
begin

section \<open>The broker contract\<close>

text \<open>
  The records and the error taxonomy of \<^verbatim>\<open>src/brokers/base.py\<close> that the order manager and
  the simulated broker share. A broker reports to its subscribers by callbacks, order updates and
  fills in the order they happen; here an operation returns the list of its notices, and the
  order manager processes them in that order. Free text of a message is left out.
\<close>

datatype reject_reason =
    INSUFFICIENT_FUNDS | PRICE_BAND | TICK_SIZE | QTY_VALUE_LIMIT | MARKET_CLOSED
  | PRODUCT_NOT_ALLOWED | SHORT_NOT_ALLOWED | INSTRUMENT_RESTRICTED | RMS_OTHER

datatype broker_error =
    AuthError
  | RateLimitedError
  | TransportError
  | BrokerUnavailableError
  | OrderRejectedError reject_reason
  | InvalidRequestError
  | OtherError py_error

datatype outcome = NOT_PLACED | UNKNOWN_OUTCOME | NA_OUTCOME

fun error_outcome :: "broker_error \<Rightarrow> outcome" where
  "error_outcome AuthError = NOT_PLACED"
| "error_outcome RateLimitedError = NOT_PLACED"
| "error_outcome TransportError = UNKNOWN_OUTCOME"
| "error_outcome BrokerUnavailableError = UNKNOWN_OUTCOME"
| "error_outcome (OrderRejectedError r) = NOT_PLACED"
| "error_outcome InvalidRequestError = NOT_PLACED"
| "error_outcome (OtherError e) = NA_OUTCOME"

record capabilities =
  bc_order_types :: "order_type list"
  bc_products :: "product list"
  bc_validities :: "validity list"

definition supports :: "capabilities \<Rightarrow> order_type \<Rightarrow> product \<Rightarrow> validity \<Rightarrow> bool" where
  "supports c t p v = (t \<in> set (bc_order_types c) \<and> p \<in> set (bc_products c) \<and> v \<in> set (bc_validities c))"

record broker_ack =
  ak_client_order_id :: string
  ak_broker_order_id :: string
  ak_status :: order_status
  ak_ts :: ts

record order_snapshot =
  os_broker_order_id :: string
  os_client_order_id :: string
  os_instrument_key :: string
  os_side :: side
  os_product :: product
  os_order_type :: order_type
  os_quantity :: int
  os_filled_qty :: int
  os_avg_fill_price :: "rat option"
  os_trigger_price :: "rat option"
  os_status :: order_status
  os_updated_at :: ts

record holding =
  hd_instrument_key :: string
  hd_quantity :: int
  hd_avg_price :: rat

record funds =
  fd_available_cash :: rat
  fd_blocked :: rat
  fd_unsettled_credit :: rat

record margin_quote =
  mq_required :: rat
  mq_available :: rat

definition margin_sufficient :: "margin_quote \<Rightarrow> bool" where
  "margin_sufficient m = (mq_required m \<le> mq_available m)"

datatype notice = UpdateNotice order_snapshot | FillNotice fill

fun notice_fills :: "notice list \<Rightarrow> fill list" where
  "notice_fills [] = []"
| "notice_fills (FillNotice f # ns) = f # notice_fills ns"
| "notice_fills (UpdateNotice s # ns) = notice_fills ns"

lemma notice_fills_append [simp]: "notice_fills (xs @ ys) = notice_fills xs @ notice_fills ys"
  by (induction xs rule: notice_fills.induct) auto

end
