(* ===== verification/Costs.thy ===== *)
theory Costs
  imports Domain_Types
begin

section \<open>NSE charges\<close>

text \<open>
  The product-aware charge schedule of \<^verbatim>\<open>src/brokers/simulated/costs.py\<close>. The rates come
  from \<^verbatim>\<open>src/config/costs_nse.yaml\<close>; the schedule is a record here and \<open>from_mapping\<close>
  is the check the loader makes of every rate. Charges are computed on the exact amount and
  rounded half up to the paisa, component by component.
\<close>

definition paisa :: rat where
  "paisa = 1 / 100"

definition paise :: "rat \<Rightarrow> rat" where
  "paise x = quantize_up x paisa"

record product_rates =
  brokerage_pct :: rat
  brokerage_cap_inr :: rat
  stt_buy_pct :: rat
  stt_sell_pct :: rat
  stamp_buy_pct :: rat
  dp_per_sell_inr :: rat

record charge_breakdown =
  cb_brokerage :: rat
  cb_stt :: rat
  cb_exchange :: rat
  cb_sebi :: rat
  cb_ipft :: rat
  cb_stamp :: rat
  cb_dp :: rat
  cb_gst :: rat

definition cb_total :: "charge_breakdown \<Rightarrow> rat" where
  "cb_total c =
     cb_brokerage c + cb_stt c + cb_exchange c + cb_sebi c + cb_ipft c + cb_stamp c + cb_dp c
     + cb_gst c"

definition zero_charges :: charge_breakdown where
  "zero_charges =
     \<lparr>cb_brokerage = 0, cb_stt = 0, cb_exchange = 0, cb_sebi = 0, cb_ipft = 0, cb_stamp = 0,
      cb_dp = 0, cb_gst = 0\<rparr>"

record cost_schedule =
  exchange_txn_pct :: rat
  sebi_pct :: rat
  ipft_pct :: rat
  gst_pct :: rat
  cs_products :: "(product, product_rates) dict"

definition nil_rates :: product_rates where
  "nil_rates =
     \<lparr>brokerage_pct = 0, brokerage_cap_inr = 0, stt_buy_pct = 0, stt_sell_pct = 0,
      stamp_buy_pct = 0, dp_per_sell_inr = 0\<rparr>"

definition zero_schedule :: cost_schedule where
  "zero_schedule =
     \<lparr>exchange_txn_pct = 0, sebi_pct = 0, ipft_pct = 0, gst_pct = 0,
      cs_products = [(MIS, nil_rates), (CNC, nil_rates), (NRML, nil_rates), (MTF, nil_rates)]\<rparr>"

text \<open>The loader refuses a negative rate (\<open>dec\<close> in \<open>from_mapping\<close>).\<close>

definition rates_ok :: "product_rates \<Rightarrow> bool" where
  "rates_ok r =
     (0 \<le> brokerage_pct r \<and> 0 \<le> brokerage_cap_inr r \<and> 0 \<le> stt_buy_pct r \<and> 0 \<le> stt_sell_pct r
      \<and> 0 \<le> stamp_buy_pct r \<and> 0 \<le> dp_per_sell_inr r)"

definition from_mapping :: "int \<Rightarrow> cost_schedule \<Rightarrow> cost_schedule result" where
  "from_mapping schema_version data =
     (if schema_version \<noteq> 1 then Inl ValueError
      else if \<not> list_all (\<lambda>(p, r). rates_ok r) (cs_products data) then Inl ValueError
      else if 0 \<le> exchange_txn_pct data \<and> 0 \<le> sebi_pct data \<and> 0 \<le> ipft_pct data \<and> 0 \<le> gst_pct data
      then Inr data else Inl ValueError)"

definition schedule_ok :: "cost_schedule \<Rightarrow> bool" where
  "schedule_ok cs =
     ((\<forall>(p, r) \<in> set (cs_products cs). rates_ok r)
      \<and> 0 \<le> exchange_txn_pct cs \<and> 0 \<le> sebi_pct cs \<and> 0 \<le> ipft_pct cs \<and> 0 \<le> gst_pct cs)"

definition pct_of :: "rat \<Rightarrow> rat \<Rightarrow> rat" where
  "pct_of notional rate = ddiv (notional * rate) 100"

definition brokerage_of :: "product_rates \<Rightarrow> rat \<Rightarrow> rat" where
  "brokerage_of r notional =
     (let brokerage = pct_of notional (brokerage_pct r)
      in if 0 < brokerage_cap_inr r then min brokerage (brokerage_cap_inr r) else brokerage)"

definition leg_charges ::
  "cost_schedule \<Rightarrow> product_rates \<Rightarrow> side \<Rightarrow> rat \<Rightarrow> bool \<Rightarrow> charge_breakdown" where
  "leg_charges cs r s notional dp_applies =
     (let brokerage = brokerage_of r notional;
          buy = (s = BUY);
          stt = pct_of notional (if buy then stt_buy_pct r else stt_sell_pct r);
          stamp = (if buy then pct_of notional (stamp_buy_pct r) else 0);
          exchange = pct_of notional (exchange_txn_pct cs);
          sebi = pct_of notional (sebi_pct cs);
          ipft = pct_of notional (ipft_pct cs);
          dp = (if \<not> buy \<and> dp_applies then dp_per_sell_inr r else 0);
          gst = ddiv ((brokerage + exchange + sebi + ipft + dp) * gst_pct cs) 100
      in \<lparr>cb_brokerage = paise brokerage, cb_stt = paise stt, cb_exchange = paise exchange,
          cb_sebi = paise sebi, cb_ipft = paise ipft, cb_stamp = paise stamp, cb_dp = paise dp,
          cb_gst = paise gst\<rparr>)"

definition charges ::
  "cost_schedule \<Rightarrow> product \<Rightarrow> side \<Rightarrow> rat \<Rightarrow> bool \<Rightarrow> charge_breakdown result" where
  "charges cs p s notional dp_applies =
     (if notional < 0 then Inl ValueError
      else if notional = 0 then Inr zero_charges
      else case dget (cs_products cs) p of
             None \<Rightarrow> Inl ValueError
           | Some r \<Rightarrow> Inr (leg_charges cs r s notional dp_applies))"

subsection \<open>Lemmas\<close>

lemma paisa_pos [simp]: "0 < paisa"
  by (simp add: paisa_def)

lemma paise_nonneg [numeric_facts]: "0 \<le> x \<Longrightarrow> 0 \<le> paise x"
  by (simp add: paise_def quantize_up_nonneg)

lemma paise_mono: "0 \<le> x \<Longrightarrow> x \<le> y \<Longrightarrow> paise x \<le> paise y"
  by (simp add: paise_def quantize_up_mono)

lemma paise_0 [simp]: "paise 0 = 0"
  by (simp add: paise_def)

lemma pct_of_nonneg [numeric_facts]: "0 \<le> n \<Longrightarrow> 0 \<le> r \<Longrightarrow> 0 \<le> pct_of n r"
  by (simp add: pct_of_def ddiv_nonneg)

lemma pct_of_mono: "0 \<le> r \<Longrightarrow> n \<le> n' \<Longrightarrow> pct_of n r \<le> pct_of n' r"
  by (simp add: pct_of_def ddiv_mono mult_right_mono)

lemma brokerage_of_nonneg [numeric_facts]: "0 \<le> n \<Longrightarrow> rates_ok r \<Longrightarrow> 0 \<le> brokerage_of r n"
  by (simp add: brokerage_of_def Let_def rates_ok_def pct_of_nonneg)

lemma brokerage_of_mono: "rates_ok r \<Longrightarrow> n \<le> n' \<Longrightarrow> brokerage_of r n \<le> brokerage_of r n'"
  using pct_of_mono [of "brokerage_pct r" n n'] by (auto simp: brokerage_of_def Let_def rates_ok_def)

lemma schedule_ok_rates: "schedule_ok cs \<Longrightarrow> dget (cs_products cs) p = Some r \<Longrightarrow> rates_ok r"
  by (auto simp: schedule_ok_def dest: dget_in_set)

lemma from_mapping_ok: "from_mapping v data = Inr cs \<Longrightarrow> schedule_ok cs"
  by (auto simp: from_mapping_def schedule_ok_def list_all_iff split: if_splits)

definition breakdown_nonneg :: "charge_breakdown \<Rightarrow> bool" where
  "breakdown_nonneg c =
     (0 \<le> cb_brokerage c \<and> 0 \<le> cb_stt c \<and> 0 \<le> cb_exchange c \<and> 0 \<le> cb_sebi c \<and> 0 \<le> cb_ipft c
      \<and> 0 \<le> cb_stamp c \<and> 0 \<le> cb_dp c \<and> 0 \<le> cb_gst c)"

lemma leg_charges_nonneg:
  assumes "schedule_ok cs" "rates_ok r" "0 \<le> n"
  shows "breakdown_nonneg (leg_charges cs r s n dp)"
proof -
  have "0 \<le> brokerage_of r n + pct_of n (exchange_txn_pct cs) + pct_of n (sebi_pct cs)
      + pct_of n (ipft_pct cs) + (if s \<noteq> BUY \<and> dp then dp_per_sell_inr r else 0)"
    using assms by (auto simp: schedule_ok_def rates_ok_def intro!: add_nonneg_nonneg numeric_facts)
  with assms show ?thesis
    by (auto simp: breakdown_nonneg_def leg_charges_def Let_def schedule_ok_def rates_ok_def
        intro!: paise_nonneg pct_of_nonneg brokerage_of_nonneg ddiv_nonneg mult_nonneg_nonneg)
qed

lemma cb_total_nonneg: "breakdown_nonneg c \<Longrightarrow> 0 \<le> cb_total c"
  by (simp add: breakdown_nonneg_def cb_total_def)

lemma charges_nonneg:
  assumes "schedule_ok cs" "charges cs p s n dp = Inr c"
  shows "breakdown_nonneg c"
  using assms leg_charges_nonneg schedule_ok_rates
  by (auto simp: charges_def breakdown_nonneg_def zero_charges_def split: if_splits option.splits)

lemma charges_total_nonneg:
  "schedule_ok cs \<Longrightarrow> charges cs p s n dp = Inr c \<Longrightarrow> 0 \<le> cb_total c"
  by (rule cb_total_nonneg [OF charges_nonneg])

lemma charges_Inr_nonneg: "charges cs p s n dp = Inr c \<Longrightarrow> 0 \<le> n"
  by (simp add: charges_def split: if_splits)

lemma leg_charges_total_mono:
  assumes cs: "schedule_ok cs" and r: "rates_ok r" and n: "0 \<le> n" "n \<le> n'"
  shows "cb_total (leg_charges cs r s n dp) \<le> cb_total (leg_charges cs r s n' dp)"
proof -
  let ?b = "\<lambda>n. brokerage_of r n + pct_of n (exchange_txn_pct cs) + pct_of n (sebi_pct cs)
      + pct_of n (ipft_pct cs) + (if s \<noteq> BUY \<and> dp then dp_per_sell_inr r else 0)"
  have b: "0 \<le> ?b n" "?b n \<le> ?b n'"
    using cs r n by (auto simp: schedule_ok_def rates_ok_def
        intro!: add_nonneg_nonneg add_mono numeric_facts pct_of_mono brokerage_of_mono)
  have gst: "0 \<le> ddiv (?b n * gst_pct cs) 100"
     "ddiv (?b n * gst_pct cs) 100 \<le> ddiv (?b n' * gst_pct cs) 100"
    using cs b by (auto simp: schedule_ok_def intro!: ddiv_nonneg ddiv_mono mult_right_mono)
  show ?thesis
    unfolding leg_charges_def Let_def cb_total_def charge_breakdown.simps
    using cs r n gst
    by (intro add_mono paise_mono)
       (auto simp: schedule_ok_def rates_ok_def intro!: numeric_facts pct_of_mono brokerage_of_mono)
qed

subsection \<open>Properties of the schedule\<close>

definition sample_schedule :: cost_schedule where
  "sample_schedule =
     \<lparr>exchange_txn_pct = 297 / 100000, sebi_pct = 1 / 10000, ipft_pct = 1 / 10000, gst_pct = 18,
      cs_products = [(MIS, \<lparr>brokerage_pct = 3 / 100, brokerage_cap_inr = 20, stt_buy_pct = 0,
        stt_sell_pct = 25 / 1000, stamp_buy_pct = 3 / 1000, dp_per_sell_inr = 0\<rparr>)]\<rparr>"

text \<open>Charging a leg on a schedule the loader accepted never fails for a configured product,
  no component of the charges is negative, and a larger notional never costs less: the
  brokerage cap, the 28-digit divisions and the rounding to the paisa keep the order.\<close>

theorem charges_monotone:
  assumes "from_mapping v data = Inr cs" "dget (cs_products cs) p = Some r" "0 \<le> n" "n \<le> n'"
  shows "\<exists>c c'. charges cs p s n dp = Inr c \<and> charges cs p s n' dp = Inr c'
    \<and> breakdown_nonneg c \<and> cb_total c \<le> cb_total c'"
proof -
  have ok: "schedule_ok cs" "rates_ok r"
    using from_mapping_ok [OF assms(1)] schedule_ok_rates assms(2) by auto
  have e: "charges cs p s m dp = Inr (if m = 0 then zero_charges else leg_charges cs r s m dp)" if "0 \<le> m" for m
    using that assms(2) by (simp add: charges_def)
  have "cb_total (if n = 0 then zero_charges else leg_charges cs r s n dp)
      \<le> cb_total (if n' = 0 then zero_charges else leg_charges cs r s n' dp)"
    using leg_charges_total_mono [OF ok assms(3,4), of s dp] assms(3,4)
      cb_total_nonneg [OF leg_charges_nonneg [OF ok, of n' s dp]]
    by (auto simp: cb_total_def zero_charges_def)
  then show ?thesis using e [of n] e [of n'] assms(3,4) charges_nonneg [OF ok(1), of p s n dp] by auto
qed

theorem charges_monotone_witness:
  "\<exists>c c'. charges sample_schedule MIS SELL 1000 False = Inr c
    \<and> charges sample_schedule MIS SELL 2000 False = Inr c' \<and> cb_total c \<le> cb_total c'"
  using charges_monotone [of 1 sample_schedule sample_schedule MIS _ 1000 2000 SELL False]
  by (auto simp: sample_schedule_def from_mapping_def rates_ok_def)

end
