(* ===== verification/Fill_Model.thy ===== *)
theory Fill_Model
  imports Domain_Types
begin

section \<open>The simulated fill model\<close>

text \<open>
  The pure functions of \<^verbatim>\<open>src/brokers/simulated/fill_model.py\<close>: the half-spread by
  liquidity tier, the square-root impact, rounding to the tick against the trader and the price
  a fill gets. Float steps round with \<open>fl64\<close>, Decimal division with \<open>dec28\<close>. The latency
  sample (a seeded generator over a SHA-256 digest) is a parameter of the broker.
\<close>

record fill_model_config =
  latency_median_ms :: rat
  latency_sigma :: rat
  spread_tiers :: "(rat \<times> rat) list"
  impact_k :: rat
  participation :: rat
  max_fill_quotes :: int
  default_sigma_daily :: rat

definition crore :: rat where
  "crore = 10000000"

definition default_fill_config :: fill_model_config where
  "default_fill_config =
     \<lparr>latency_median_ms = 250, latency_sigma = 1 / 2,
      spread_tiers = [(500 * crore, 1), (50 * crore, 3), (5 * crore, 8), (0, 20)],
      impact_k = fl64 (7 / 10), participation = fl64 (1 / 10), max_fill_quotes = 5,
      default_sigma_daily = fl64 (2 / 100)\<rparr>"

definition fill_config_valid :: "fill_model_config \<Rightarrow> bool" where
  "fill_config_valid c = (0 < participation c \<and> participation c \<le> 1 \<and> 1 \<le> max_fill_quotes c)"

record market_context =
  mc_adv_inr :: "rat option"
  mc_adv_shares :: "rat option"
  mc_sigma_daily :: "rat option"

definition no_context :: market_context where
  "no_context = \<lparr>mc_adv_inr = None, mc_adv_shares = None, mc_sigma_daily = None\<rparr>"

fun tier_bps :: "rat \<Rightarrow> (rat \<times> rat) list \<Rightarrow> rat option" where
  "tier_bps adv [] = None"
| "tier_bps adv ((lo, bps) # tiers) = (if lo \<le> adv then Some bps else tier_bps adv tiers)"

text \<open>\<open>spread_tiers[-1]\<close> raises on an empty tuple: \<open>None\<close>.\<close>

definition widest_bps :: "fill_model_config \<Rightarrow> rat option" where
  "widest_bps c = (if spread_tiers c = [] then None else Some (snd (last (spread_tiers c))))"

definition half_spread_bps :: "fill_model_config \<Rightarrow> rat option \<Rightarrow> rat option" where
  "half_spread_bps c adv_inr =
     (case adv_inr of
        None \<Rightarrow> widest_bps c
      | Some adv \<Rightarrow> (case tier_bps adv (spread_tiers c) of Some b \<Rightarrow> Some b | None \<Rightarrow> widest_bps c))"

definition impact_fraction :: "fill_model_config \<Rightarrow> int \<Rightarrow> market_context \<Rightarrow> rat" where
  "impact_fraction c quantity ctx =
     (case mc_adv_shares ctx of
        None \<Rightarrow> 0
      | Some adv \<Rightarrow>
          if adv = 0 \<or> adv \<le> 0 then 0
          else let sigma = (case mc_sigma_daily ctx of
                              None \<Rightarrow> default_sigma_daily c
                            | Some s \<Rightarrow> if s = 0 then default_sigma_daily c else s)
               in fmul (fmul (impact_k c) sigma) (fl_sqrt (fdiv (of_int quantity) adv)))"

definition round_to_tick :: "rat \<Rightarrow> rat \<Rightarrow> side \<Rightarrow> rat" where
  "round_to_tick price tick s =
     (let steps = ddiv price tick;
          whole = (if s = BUY then \<lceil>steps\<rceil> else \<lfloor>steps\<rfloor>)
      in of_int whole * tick)"

definition on_tick :: "rat \<Rightarrow> rat \<Rightarrow> bool" where
  "on_tick price tick = (ddiv price tick = of_int (round_half_even (ddiv price tick)))"

definition adverse_price ::
  "rat \<Rightarrow> side \<Rightarrow> rat \<Rightarrow> fill_model_config \<Rightarrow> market_context \<Rightarrow> int \<Rightarrow> rat option" where
  "adverse_price reference s tick c ctx quantity =
     (case half_spread_bps c (mc_adv_inr ctx) of
        None \<Rightarrow> None
      | Some bps \<Rightarrow>
          (let cost = fadd (fdiv bps 10000) (impact_fraction c quantity ctx);
               move = max (dmul reference (dec_of_float cost)) (ddiv tick 2);
               raw = (if s = BUY then reference + move else reference - move);
               price = round_to_tick raw tick s
           in Some (max price tick)))"

subsection \<open>Lemmas\<close>

text \<open>A price whose quotient by the tick is a decimal of at most 28 digits: the division does
  not round. Every tick of the exchange (0.01, 0.05, 0.10, 1, 5) divides every finite price so.\<close>

definition exact_steps :: "rat \<Rightarrow> rat \<Rightarrow> bool" where
  "exact_steps price tick = (ddiv price tick = price / tick)"

lemma round_to_tick_buy_ge:
  assumes "0 < tick" "exact_steps price tick"
  shows "price \<le> round_to_tick price tick BUY"
proof -
  have "price / tick \<le> of_int \<lceil>price / tick\<rceil>" by simp
  then have "price / tick * tick \<le> of_int \<lceil>price / tick\<rceil> * tick"
    using assms(1) by (intro mult_right_mono) auto
  with assms show ?thesis by (simp add: round_to_tick_def exact_steps_def Let_def)
qed

lemma round_to_tick_sell_le:
  assumes "0 < tick" "exact_steps price tick"
  shows "round_to_tick price tick SELL \<le> price"
proof -
  have "of_int \<lfloor>price / tick\<rfloor> \<le> price / tick" by simp
  then have "of_int \<lfloor>price / tick\<rfloor> * tick \<le> price / tick * tick"
    using assms(1) by (intro mult_right_mono) auto
  with assms show ?thesis by (simp add: round_to_tick_def exact_steps_def Let_def)
qed

lemma round_to_tick_near:
  assumes "0 < tick" "exact_steps price tick"
  shows "\<bar>round_to_tick price tick s - price\<bar> < tick"
proof -
  define q where "q = price / tick"
  have p: "price = q * tick" using assms(1) by (simp add: q_def)
  have st: "ddiv price tick = q" using assms(2) by (simp add: exact_steps_def q_def)
  define w where "w = (if s = BUY then \<lceil>q\<rceil> else \<lfloor>q\<rfloor>)"
  have "\<bar>of_int w - q\<bar> < 1" unfolding w_def abs_less_iff by (cases "s = BUY"; simp; linarith)
  then have "\<bar>of_int w - q\<bar> * tick < 1 * tick" using assms(1) by (intro mult_strict_right_mono)
  moreover have "round_to_tick price tick s - price = (of_int w - q) * tick"
    unfolding round_to_tick_def st Let_def w_def left_diff_distrib by (simp flip: p)
  ultimately show ?thesis using assms(1) by (simp add: abs_mult)
qed

lemma round_to_tick_multiple: "\<exists>n. round_to_tick price tick s = of_int n * tick"
  by (auto simp: round_to_tick_def Let_def)

lemma on_tick_multiple: "on_tick (of_int n * tick) tick" if "0 < tick" "\<bar>n\<bar> < 10 ^ 28"
proof -
  have "ddiv (of_int n * tick) tick = of_int n"
    using that dec28_exact [of "of_int n" 0 n] by (simp add: ddiv_def)
  then show ?thesis by (simp add: on_tick_def)
qed

lemma tier_bps_Some: "tier_bps adv ts = Some b \<Longrightarrow> b \<in> snd ` set ts"
  by (induction ts) (auto split: if_splits)

lemma half_spread_bps_Some: "half_spread_bps c a = Some b \<Longrightarrow> b \<in> snd ` set (spread_tiers c)"
  by (auto simp: half_spread_bps_def widest_bps_def dest: tier_bps_Some split: option.splits if_splits)

lemma half_spread_total: "spread_tiers c \<noteq> [] \<Longrightarrow> \<exists>b. half_spread_bps c a = Some b"
  by (auto simp: half_spread_bps_def widest_bps_def split: option.splits)

lemma adverse_price_ge_tick: "adverse_price r s t c ctx q = Some p \<Longrightarrow> t \<le> p"
  by (auto simp: adverse_price_def Let_def split: option.splits)

lemma adverse_price_pos [numeric_facts]: "adverse_price r s t c ctx q = Some p \<Longrightarrow> 0 < t \<Longrightarrow> 0 < p"
  using adverse_price_ge_tick by force

lemma adverse_price_total:
  "spread_tiers c \<noteq> [] \<Longrightarrow> \<exists>p. adverse_price r s t c ctx q = Some p"
  using half_spread_total [of c "mc_adv_inr ctx"] by (auto simp: adverse_price_def Let_def)

lemma max_scale: "0 < (t::rat) \<Longrightarrow> max (of_int n * t) t = of_int (max n 1) * t"
proof -
  assume t: "0 < t"
  have "(of_int n * t \<le> t) = (n \<le> 1)"
    using t mult_le_cancel_right_pos [of t "of_int n" 1] by simp
  then show ?thesis by (auto simp: max_def)
qed

text \<open>Without the exactness hypothesis the tick rounding is adverse up to the 28th digit.\<close>

lemma dec28_bounds:
  assumes "0 \<le> q"
  shows "q * (1 - 1 / 10 ^ 27) \<le> dec28 q" "dec28 q \<le> q * (1 + 1 / 10 ^ 27)"
proof -
  define d where "d = q * (1 / 10 ^ 27)"
  have "q / (2 * 10 ^ 27) \<le> d" using assms by (simp add: d_def field_simps)
  with dec28_err [of q] assms have e: "\<bar>dec28 q - q\<bar> \<le> d"
    by (metis abs_of_nonneg order_trans)
  have "q * (1 - 1 / 10 ^ 27) = q - d" "q * (1 + 1 / 10 ^ 27) = q + d"
    unfolding d_def by (simp_all only: right_diff_distrib distrib_left mult_1_right)
  then show "q * (1 - 1 / 10 ^ 27) \<le> dec28 q" "dec28 q \<le> q * (1 + 1 / 10 ^ 27)"
    using e by (auto simp only: abs_le_iff)
qed

lemma round_to_tick_buy_bound:
  assumes "0 < tick" "0 \<le> price"
  shows "price * (1 - 1 / 10 ^ 27) \<le> round_to_tick price tick BUY"
proof -
  have "price / tick * (1 - 1 / 10 ^ 27) \<le> ddiv price tick"
    using dec28_bounds(1) [of "price / tick"] assms by (simp add: ddiv_def)
  also have "\<dots> \<le> of_int \<lceil>ddiv price tick\<rceil>" by simp
  finally have "price / tick * (1 - 1 / 10 ^ 27) * tick \<le> of_int \<lceil>ddiv price tick\<rceil> * tick"
    using assms(1) by (intro mult_right_mono) auto
  with assms show ?thesis by (simp add: round_to_tick_def Let_def)
qed

lemma round_to_tick_sell_bound:
  assumes "0 < tick" "0 \<le> price"
  shows "round_to_tick price tick SELL \<le> price * (1 + 1 / 10 ^ 27)"
  using floor_ddiv_le [OF assms(2,1)] by (simp add: round_to_tick_def Let_def)

lemma round_to_tick_sell_neg:
  assumes "0 < tick" "price < 0"
  shows "round_to_tick price tick SELL \<le> 0"
proof -
  have "0 < dec28 (- price / tick)" using assms by (intro dec28_pos) (simp add: divide_neg_pos)
  then have "ddiv price tick < 0" by (simp add: ddiv_def dec28_uminus)
  then have "of_int \<lfloor>ddiv price tick\<rfloor> \<le> (0::rat)" by linarith
  with assms(1) show ?thesis by (simp add: round_to_tick_def Let_def mult_nonpos_nonneg)
qed

lemma ddiv_half: "0 < t \<Longrightarrow> t / 3 < ddiv t 2"
proof -
  assume t: "0 < t"
  have "t / 3 < t / 2 * (1 - 1 / 10 ^ 27)" using t by (simp add: field_simps)
  also have "\<dots> \<le> ddiv t 2" using dec28_bounds(1) [of "t / 2"] t by (simp add: ddiv_def)
  finally show ?thesis .
qed

text \<open>The move against the trader is at least half a tick, so whatever the spread and the impact
  are a fill is never better than its reference price. The bound on the reference (it is less
  than \<open>10 ^ 20\<close> ticks) keeps the 28-digit rounding below the half tick.\<close>

definition adverse_move ::
  "rat \<Rightarrow> rat \<Rightarrow> fill_model_config \<Rightarrow> market_context \<Rightarrow> int \<Rightarrow> rat \<Rightarrow> rat" where
  "adverse_move r t c ctx q b =
     max (dmul r (dec_of_float (fadd (fdiv b 10000) (impact_fraction c q ctx)))) (ddiv t 2)"

lemma adverse_priceE:
  assumes "adverse_price r s t c ctx q = Some p"
  obtains b where "half_spread_bps c (mc_adv_inr ctx) = Some b"
    "p = max (round_to_tick (if s = BUY then r + adverse_move r t c ctx q b
                             else r - adverse_move r t c ctx q b) t s) t"
  using assms by (auto simp: adverse_price_def adverse_move_def Let_def split: option.splits)

lemma adverse_price_buy:
  assumes p: "adverse_price r BUY t c ctx q = Some p" and t: "0 < t" and r: "0 \<le> r" "r \<le> 10 ^ 20 * t"
  shows "r < p"
proof -
  obtain b where b: "p = max (round_to_tick (r + adverse_move r t c ctx q b) t BUY) t"
    using p by (auto elim: adverse_priceE)
  let ?m = "adverse_move r t c ctx q b"
  have m: "t / 3 < ?m" using ddiv_half [OF t] by (simp add: adverse_move_def)
  have "r < (r + t / 3) * (1 - 1 / 10 ^ 27)" using r t by (simp add: field_simps)
  also have "\<dots> \<le> (r + ?m) * (1 - 1 / 10 ^ 27)" using m by (intro mult_right_mono) auto
  also have "\<dots> \<le> round_to_tick (r + ?m) t BUY"
    using round_to_tick_buy_bound [OF t, of "r + ?m"] r m t by simp
  finally show ?thesis using b by simp
qed

lemma adverse_price_sell:
  assumes p: "adverse_price r SELL t c ctx q = Some p" and t: "0 < t" and r: "0 \<le> r" "r \<le> 10 ^ 20 * t"
  shows "p \<le> max r t"
proof -
  obtain b where b: "p = max (round_to_tick (r - adverse_move r t c ctx q b) t SELL) t"
    using p by (auto elim: adverse_priceE)
  let ?m = "adverse_move r t c ctx q b"
  have m: "t / 3 < ?m" using ddiv_half [OF t] by (simp add: adverse_move_def)
  have "round_to_tick (r - ?m) t SELL \<le> r"
  proof (cases "r - ?m < 0")
    case True
    then show ?thesis using round_to_tick_sell_neg [OF t True] r by simp
  next
    case False
    then have "round_to_tick (r - ?m) t SELL \<le> (r - ?m) * (1 + 1 / 10 ^ 27)"
      using round_to_tick_sell_bound [OF t, of "r - ?m"] by simp
    also have "\<dots> \<le> (r - t / 3) * (1 + 1 / 10 ^ 27)" using m by (intro mult_right_mono) auto
    also have "\<dots> \<le> r" using r t by (simp add: field_simps)
    finally show ?thesis .
  qed
  with b show ?thesis by auto
qed

lemma adverse_price_multiple:
  assumes "adverse_price r s t c ctx q = Some p" and "0 < t"
  shows "\<exists>n \<ge> 1. p = of_int n * t"
proof -
  obtain raw where "p = max (round_to_tick raw t s) t" using assms(1) by (auto elim: adverse_priceE)
  moreover obtain n where "round_to_tick raw t s = of_int n * t" using round_to_tick_multiple by blast
  ultimately have "p = of_int (max n 1) * t" using max_scale [OF assms(2)] by simp
  then show ?thesis by (intro exI [of _ "max n 1"]) auto
qed

subsection \<open>Properties of the fill price\<close>

text \<open>A simulated fill is always priced against the trader and on the tick. The price exists
  for every configuration with a spread tier, is a positive multiple of the tick, is above the
  reference for a buy and, down to a floor of one tick, no more than the reference for a sell,
  whatever the float spread and impact are.\<close>

theorem fill_price_is_adverse:
  assumes "spread_tiers c \<noteq> []" "0 < t" "0 \<le> r" "r \<le> 10 ^ 20 * t"
  shows "\<exists>p. adverse_price r s t c ctx q = Some p \<and> (\<exists>n \<ge> 1. p = of_int n * t)
    \<and> (s = BUY \<longrightarrow> r < p) \<and> (s = SELL \<longrightarrow> p \<le> max r t)"
proof -
  obtain p where p: "adverse_price r s t c ctx q = Some p" using adverse_price_total [OF assms(1)] by blast
  moreover have "s = BUY \<Longrightarrow> r < p" using adverse_price_buy p assms(2-4) by blast
  moreover have "s = SELL \<Longrightarrow> p \<le> max r t" using adverse_price_sell p assms(2-4) by blast
  ultimately show ?thesis using adverse_price_multiple [OF p assms(2)] by auto
qed

theorem fill_price_is_adverse_witness:
  "spread_tiers default_fill_config \<noteq> []
   \<and> (\<exists>p. adverse_price 100 BUY (5 / 100) default_fill_config no_context 10 = Some p \<and> 100 < p)"
  using fill_price_is_adverse [of default_fill_config "5 / 100" 100 BUY no_context 10]
  by (auto simp: default_fill_config_def)

end
