(* ===== verification/Sim_Broker.thy ===== *)
theory Sim_Broker
  imports Broker_Base Calendar Costs Fill_Model
begin

section \<open>The simulated broker\<close>

text \<open>
  \<^verbatim>\<open>src/brokers/simulated/broker.py\<close>: the exchange the engine trades against on paper.
  \<open>sim_config\<close> holds what the constructor is given and never changes, \<open>sim_state\<close> the
  persisted state, \<open>sim_broker\<close> adds the tag index and the last quotes. An order is a record in
  the order dictionary; where the source mutates the object, the model puts the changed record
  back under its id. The latency sample (a seeded generator) is the parameter
  \<open>sc_latency\<close>. Writing the rows to the store is I/O and left out.

  Amounts that contain a quotient (the average price of a position) are rounded to 28 digits at
  every step, as \<^verbatim>\<open>decimal\<close> does.
\<close>

subsection \<open>State\<close>

record sim_order =
  so_broker_order_id :: string
  so_client_order_id :: string
  so_decision_id :: string
  so_instrument_key :: string
  so_side :: side
  so_product :: product
  so_order_type :: order_type
  so_quantity :: int
  so_trigger_price :: "rat option"
  so_status :: order_status
  so_filled_qty :: int
  so_filled_notional :: rat
  so_reserved :: rat
  so_eligible_at :: ts
  so_eligible_quotes :: int
  so_fill_count :: nat
  so_session_day :: date
  so_created_at :: ts
  so_updated_at :: ts

definition so_remaining :: "sim_order \<Rightarrow> int" where
  "so_remaining od = so_quantity od - so_filled_qty od"

definition is_live :: "order_status \<Rightarrow> bool" where
  "is_live st = (st \<in> {OPEN, PARTIALLY_FILLED, TRIGGER_PENDING})"

definition snapshot_of :: "sim_order \<Rightarrow> order_snapshot" where
  "snapshot_of od =
     \<lparr>os_broker_order_id = so_broker_order_id od, os_client_order_id = so_client_order_id od,
      os_instrument_key = so_instrument_key od, os_side = so_side od, os_product = so_product od,
      os_order_type = so_order_type od, os_quantity = so_quantity od, os_filled_qty = so_filled_qty od,
      os_avg_fill_price = (if so_filled_qty od \<noteq> 0
        then Some (ddiv (so_filled_notional od) (of_int (so_filled_qty od))) else None),
      os_trigger_price = so_trigger_price od, os_status = so_status od, os_updated_at = so_updated_at od\<rparr>"

record sim_position =
  sp_quantity :: int
  sp_cost :: rat
  sp_realized :: rat
  sp_updated_at :: "ts option"

definition flat_position :: sim_position where
  "flat_position = \<lparr>sp_quantity = 0, sp_cost = 0, sp_realized = 0, sp_updated_at = None\<rparr>"

record sim_state =
  ss_cash :: rat
  ss_blocked :: rat
  ss_unsettled :: "(date \<times> rat) list"
  ss_positions :: "(pos_key, sim_position) dict"
  ss_orders :: "(string, sim_order) dict"
  ss_fills :: "fill list"
  ss_next_order :: nat
  ss_dp_days :: "(string \<times> date) list"
  ss_volume :: "(string, date \<times> int) dict"

record sim_broker = sim_state +
  sb_by_tag :: "(string, string) dict"
  sb_quotes :: "(string, quote) dict"

record sim_config =
  sc_book_id :: string
  sc_instruments :: "(string, instrument) dict"
  sc_calendar :: nse_calendar
  sc_costs :: cost_schedule
  sc_fill :: fill_model_config
  sc_market :: "(string, market_context) dict"
  sc_same_day :: bool
  sc_caps :: capabilities
  sc_latency :: "string \<Rightarrow> date \<Rightarrow> int"

definition sim_capabilities :: capabilities where
  "sim_capabilities = \<lparr>bc_order_types = [MARKET, SL_M], bc_products = [CNC, MIS], bc_validities = [DAY]\<rparr>"

definition new_broker :: "rat \<Rightarrow> sim_broker" where
  "new_broker starting_cash =
     \<lparr>ss_cash = starting_cash, ss_blocked = 0, ss_unsettled = [], ss_positions = [], ss_orders = [],
      ss_fills = [], ss_next_order = 1, ss_dp_days = [], ss_volume = [], sb_by_tag = [], sb_quotes = []\<rparr>"

definition available :: "sim_broker \<Rightarrow> rat" where
  "available s = ss_cash s - ss_blocked s"

definition put_order :: "sim_order \<Rightarrow> sim_broker \<Rightarrow> sim_broker" where
  "put_order od s = s\<lparr>ss_orders := dset (so_broker_order_id od) od (ss_orders s)\<rparr>"

definition finish :: "order_status \<Rightarrow> ts \<Rightarrow> sim_order \<Rightarrow> sim_broker \<Rightarrow> sim_broker \<times> sim_order" where
  "finish st t od s =
     (let od' = od\<lparr>so_status := st, so_updated_at := t, so_reserved := 0\<rparr>
      in (put_order od' (s\<lparr>ss_blocked := ss_blocked s - so_reserved od\<rparr>), od'))"

subsection \<open>Executions\<close>

definition settle :: "date \<Rightarrow> sim_broker \<Rightarrow> sim_broker" where
  "settle today s =
     (let due = filter (\<lambda>(d, a). d \<le> today) (ss_unsettled s)
      in if due \<noteq> []
         then s\<lparr>ss_cash := ss_cash s + sum_list (map snd due),
                ss_unsettled := filter (\<lambda>(d, a). today < d) (ss_unsettled s)\<rparr>
         else s)"

definition interval_volume :: "quote \<Rightarrow> date \<Rightarrow> sim_broker \<Rightarrow> int \<times> sim_broker" where
  "interval_volume q today s =
     (let prev = dget (ss_volume s) (q_instrument_key q);
          s' = s\<lparr>ss_volume := dset (q_instrument_key q) (today, q_volume_cum q) (ss_volume s)\<rparr>
      in (case prev of
            Some (d, v) \<Rightarrow> (if d = today then max 0 (q_volume_cum q - v) else q_volume_cum q)
          | None \<Rightarrow> q_volume_cum q, s'))"

definition apply_position ::
  "sim_position \<Rightarrow> side \<Rightarrow> int \<Rightarrow> rat \<Rightarrow> rat \<Rightarrow> ts \<Rightarrow> sim_position" where
  "apply_position p s qty price charge t =
     (let signed = (if s = BUY then qty else - qty);
          realized = dsub (sp_realized p) charge;
          p' = (if sp_quantity p = 0 \<or> (0 < sp_quantity p) = (0 < signed)
                then p\<lparr>sp_cost := dadd (sp_cost p) (price * of_int qty), sp_quantity := sp_quantity p + signed,
                       sp_realized := realized\<rparr>
                else
                  let direction = (if 0 < sp_quantity p then 1 else - 1);
                      closing = min qty \<bar>sp_quantity p\<bar>;
                      avg = ddiv (sp_cost p) (of_int \<bar>sp_quantity p\<bar>);
                      rest = qty - closing;
                      realized' = dadd realized
                        (dmul (dmul (dsub price avg) (of_int closing)) (of_int direction))
                  in if rest \<noteq> 0
                     then p\<lparr>sp_quantity := - direction * rest, sp_cost := price * of_int rest,
                            sp_realized := realized'\<rparr>
                     else p\<lparr>sp_quantity := sp_quantity p - direction * closing,
                            sp_cost := dsub (sp_cost p) (dmul avg (of_int closing)), sp_realized := realized'\<rparr>)
      in (if sp_quantity p' = 0 then p'\<lparr>sp_cost := 0\<rparr> else p')\<lparr>sp_updated_at := Some t\<rparr>)"

definition pos_of :: "sim_broker \<Rightarrow> pos_key \<Rightarrow> sim_position" where
  "pos_of s k = dget_or flat_position (ss_positions s) k"

definition sim_fill :: "sim_config \<Rightarrow> sim_order \<Rightarrow> int \<Rightarrow> rat \<Rightarrow> rat \<Rightarrow> ts \<Rightarrow> fill" where
  "sim_fill cfg od qty price charge t =
     \<lparr>f_fill_id = so_broker_order_id od @ ''-F'' @ nat_str (so_fill_count od),
      f_client_order_id = so_client_order_id od, f_broker_order_id = Some (so_broker_order_id od),
      f_book_id = sc_book_id cfg, f_decision_id = so_decision_id od,
      f_instrument_key = so_instrument_key od, f_side = so_side od, f_quantity = qty, f_price = price,
      f_ts = t, f_charges = charge\<rparr>"

text \<open>What \<open>_execute\<close> does once the trade is paid for: the position, the order, the fill and the
  notices, the fill before the update.\<close>

definition book_fill ::
  "sim_config \<Rightarrow> sim_broker \<Rightarrow> sim_order \<Rightarrow> int \<Rightarrow> rat \<Rightarrow> rat \<Rightarrow> ts
    \<Rightarrow> sim_broker \<times> sim_order \<times> notice list \<times> fill option" where
  "book_fill cfg s od qty price charge t =
     (let key = (so_instrument_key od, so_product od);
          s1 = s\<lparr>ss_positions := dset key (apply_position (pos_of s key) (so_side od) qty price charge t)
                  (ss_positions s)\<rparr>;
          od1 = od\<lparr>so_fill_count := so_fill_count od + 1, so_filled_qty := so_filled_qty od + qty,
                   so_filled_notional := so_filled_notional od + price * of_int qty, so_updated_at := t\<rparr>;
          f = sim_fill cfg od1 qty price charge t;
          s2 = s1\<lparr>ss_fills := ss_fills s1 @ [f]\<rparr>;
          r = (if so_remaining od1 = 0 then finish FILLED t od1 s2
               else let od2 = od1\<lparr>so_status := PARTIALLY_FILLED\<rparr> in (put_order od2 s2, od2))
      in (fst r, snd r, [FillNotice f, UpdateNotice (snapshot_of (snd r))], Some f))"

definition execute ::
  "sim_config \<Rightarrow> sim_broker \<Rightarrow> sim_order \<Rightarrow> instrument \<Rightarrow> rat \<Rightarrow> int \<Rightarrow> quote
    \<Rightarrow> (sim_broker \<times> sim_order \<times> notice list \<times> fill option) result" where
  "execute cfg s od ins reference qty q =
     (case adverse_price reference (so_side od) (ins_tick_size ins) (sc_fill cfg)
             (dget_or no_context (sc_market cfg) (so_instrument_key od)) qty of
        None \<Rightarrow> Inl IndexError
      | Some price \<Rightarrow>
          (let notional = price * of_int qty;
               t = q_receipt_ts q;
               day = ist_date t;
               dp_key = (so_instrument_key od, day);
               dp = (so_side od = SELL \<and> so_product od = CNC \<and> dp_key \<notin> set (ss_dp_days s))
           in case charges (sc_costs cfg) (so_product od) (so_side od) notional dp of
                Inl e \<Rightarrow> Inl e
              | Inr cb \<Rightarrow>
                  if so_side od = BUY then
                    (let cost = notional + cb_total cb;
                         release = min (so_reserved od) cost
                     in if release + available s < cost
                        then let (s', od') = finish CANCELLED t od s
                             in Inr (s', od', [UpdateNotice (snapshot_of od')], None)
                        else Inr (book_fill cfg
                               (s\<lparr>ss_blocked := ss_blocked s - release, ss_cash := ss_cash s - cost\<rparr>)
                               (od\<lparr>so_reserved := so_reserved od - release\<rparr>) qty price (cb_total cb) t))
                  else
                    (let proceeds = notional - cb_total cb;
                         dp_days = (if dp then ss_dp_days s @ [dp_key] else ss_dp_days s)
                     in if sc_same_day cfg
                        then Inr (book_fill cfg
                               (s\<lparr>ss_cash := ss_cash s + proceeds, ss_dp_days := dp_days\<rparr>)
                               od qty price (cb_total cb) t)
                        else case next_trading_day (sc_calendar cfg) day of
                               Inl e \<Rightarrow> Inl e
                             | Inr d \<Rightarrow> Inr (book_fill cfg
                                 (s\<lparr>ss_unsettled := ss_unsettled s @ [(d, proceeds)], ss_dp_days := dp_days\<rparr>)
                                 od qty price (cb_total cb) t))))"

subsection \<open>Matching\<close>

text \<open>An eligible order at a reference price: \<open>_match\<close> after the trigger.\<close>

definition work_order ::
  "sim_config \<Rightarrow> sim_broker \<Rightarrow> sim_order \<Rightarrow> rat \<Rightarrow> quote \<Rightarrow> int
    \<Rightarrow> (sim_broker \<times> notice list \<times> fill option) result" where
  "work_order cfg s od0 reference q liquidity =
     (let od = od0\<lparr>so_eligible_quotes := so_eligible_quotes od0 + 1\<rparr>;
          s1 = put_order od s
      in case dget (sc_instruments cfg) (so_instrument_key od) of
           None \<Rightarrow> Inl KeyError
         | Some ins \<Rightarrow>
             (let want = min (so_remaining od) (max 0 liquidity);
                  qty = want - want mod ins_lot_size ins
              in case (if 0 < qty then execute cfg s1 od ins reference qty q else Inr (s1, od, [], None)) of
                   Inl e \<Rightarrow> Inl e
                 | Inr (s2, od2, ns, f) \<Rightarrow>
                     if so_order_type od2 = MARKET \<and> 0 < so_remaining od2 \<and> is_live (so_status od2)
                        \<and> max_fill_quotes (sc_fill cfg) \<le> so_eligible_quotes od2
                     then let (s3, od3) = finish CANCELLED (q_receipt_ts q) od2 s2
                          in Inr (s3, ns @ [UpdateNotice (snapshot_of od3)], f)
                     else Inr (s2, ns, f)))"

definition crossed :: "side \<Rightarrow> rat \<Rightarrow> rat \<Rightarrow> bool" where
  "crossed s ltp trigger = (if s = SELL then ltp \<le> trigger else trigger \<le> ltp)"

definition match_order ::
  "sim_config \<Rightarrow> sim_broker \<Rightarrow> sim_order \<Rightarrow> quote \<Rightarrow> int \<Rightarrow> (sim_broker \<times> notice list \<times> fill option) result" where
  "match_order cfg s od q liquidity =
     (if q_receipt_ts q < so_eligible_at od then Inr (s, [], None)
      else
        let ltp = dec_of_float (q_ltp q)
        in if so_status od = TRIGGER_PENDING then
             (case so_trigger_price od of
                None \<Rightarrow> let (s', od') = finish REJECTED (q_receipt_ts q) od s
                        in Inr (s', [UpdateNotice (snapshot_of od')], None)
              | Some trigger \<Rightarrow>
                  if \<not> crossed (so_side od) ltp trigger then Inr (s, [], None)
                  else
                    let reference = (if so_side od = SELL then min trigger ltp else max trigger ltp);
                        od' = od\<lparr>so_status := OPEN, so_updated_at := q_receipt_ts q\<rparr>
                    in case work_order cfg s od' reference q liquidity of
                         Inl e \<Rightarrow> Inl e
                       | Inr (s', ns, f) \<Rightarrow> Inr (s', UpdateNotice (snapshot_of od') # ns, f))
           else work_order cfg s od ltp q liquidity)"

fun match_all ::
  "sim_config \<Rightarrow> quote \<Rightarrow> date \<Rightarrow> string list \<Rightarrow> int \<Rightarrow> sim_broker
    \<Rightarrow> (sim_broker \<times> notice list \<times> fill list) result" where
  "match_all cfg q today [] liquidity s = Inr (s, [], [])"
| "match_all cfg q today (k # ks) liquidity s =
     (case dget (ss_orders s) k of
        None \<Rightarrow> Inl KeyError
      | Some od \<Rightarrow>
          (case (if \<not> is_live (so_status od) then Inr (s, [], None)
                 else if so_session_day od < today then
                   (let (s', od') = finish EXPIRED (q_receipt_ts q) od s
                    in Inr (s', [UpdateNotice (snapshot_of od')], None))
                 else match_order cfg s od q liquidity) of
             Inl e \<Rightarrow> Inl e
           | Inr (s1, ns, f) \<Rightarrow>
               let used = (case f of None \<Rightarrow> 0 | Some x \<Rightarrow> f_quantity x)
               in (case match_all cfg q today ks (liquidity - used) s1 of
                     Inl e \<Rightarrow> Inl e
                   | Inr (s2, ns', fs) \<Rightarrow>
                       Inr (s2, ns @ ns', (case f of None \<Rightarrow> fs | Some x \<Rightarrow> x # fs)))))"

definition orders_of :: "sim_broker \<Rightarrow> string \<Rightarrow> string list" where
  "orders_of s ik =
     sort (map fst (filter (\<lambda>(k, od). so_instrument_key od = ik) (ss_orders s)))"

definition on_quote :: "sim_config \<Rightarrow> sim_broker \<Rightarrow> quote \<Rightarrow> (sim_broker \<times> notice list \<times> fill list) result" where
  "on_quote cfg s q =
     (let today = ist_date (q_receipt_ts q);
          s1 = settle today s;
          (interval, s2) = interval_volume q today s1;
          s3 = s2\<lparr>sb_quotes := dset (q_instrument_key q) q (sb_quotes s2)\<rparr>;
          liquidity = py_int (fmul (participation (sc_fill cfg)) (fl64 (of_int interval)))
      in match_all cfg q today (orders_of s3 (q_instrument_key q)) liquidity s3)"

subsection \<open>Orders\<close>

definition funds_buffer :: rat where
  "funds_buffer = 5 / 1000"

definition buy_reservation :: "sim_config \<Rightarrow> product \<Rightarrow> rat \<Rightarrow> int \<Rightarrow> rat result" where
  "buy_reservation cfg p reference qty =
     (let notional = reference * of_int qty * (1 + funds_buffer)
      in case charges (sc_costs cfg) p BUY notional False of
           Inl e \<Rightarrow> Inl e
         | Inr cb \<Rightarrow> Inr (quantize_even (notional + cb_total cb) (1 / 100)))"

definition band_move :: "rat \<Rightarrow> rat \<Rightarrow> rat" where
  "band_move price prev = fmul \<bar>fsub (fdiv price prev) 1\<bar> 100"

definition beyond_band :: "instrument \<Rightarrow> quote \<Rightarrow> rat option \<Rightarrow> bool" where
  "beyond_band ins q trigger =
     (case (ins_band_pct ins, q_prev_close q) of
        (Some band, Some prev) \<Rightarrow>
          prev \<noteq> 0
          \<and> (band \<le> band_move (q_ltp q) prev
             \<or> (case trigger of None \<Rightarrow> False | Some t \<Rightarrow> band \<le> band_move (fl64 t) prev))
      | _ \<Rightarrow> False)"

definition pending_sells :: "sim_broker \<Rightarrow> string \<Rightarrow> int" where
  "pending_sells s ik =
     dsum (\<lambda>k od. if so_instrument_key od = ik \<and> so_product od = CNC \<and> so_side od = SELL
                     \<and> is_live (so_status od)
                  then so_remaining od else 0) (ss_orders s)"

definition held :: "sim_broker \<Rightarrow> string \<Rightarrow> int" where
  "held s ik = (case dget (ss_positions s) (ik, CNC) of None \<Rightarrow> 0 | Some p \<Rightarrow> max 0 (sp_quantity p))"

definition validate :: "sim_config \<Rightarrow> sim_broker \<Rightarrow> order \<Rightarrow> ts \<Rightarrow> broker_error option" where
  "validate cfg s od now =
     (let i = o_intent od
      in if o_quantity od \<le> 0 then Some InvalidRequestError
         else if \<not> supports (sc_caps cfg) (i_order_type i) (i_product i) (i_validity i)
         then Some InvalidRequestError
         else case dget (sc_instruments cfg) (i_key i) of
           None \<Rightarrow> Some (OrderRejectedError INSTRUMENT_RESTRICTED)
         | Some ins \<Rightarrow>
             if o_quantity od mod ins_lot_size ins \<noteq> 0 then Some InvalidRequestError
             else
               let open_now = (case is_market_open (sc_calendar cfg) now of
                                 Inl CalendarCoverageError \<Rightarrow> Inr False | r \<Rightarrow> r)
               in case open_now of
                    Inl e \<Rightarrow> Some (OtherError e)
                  | Inr False \<Rightarrow> Some (OrderRejectedError MARKET_CLOSED)
                  | Inr True \<Rightarrow>
                      if i_product i = MIS \<and> \<not> ins_mis_allowed ins
                      then Some (OrderRejectedError PRODUCT_NOT_ALLOWED)
                      else case dget (sb_quotes s) (ins_key ins) of
                        None \<Rightarrow> Some (OrderRejectedError RMS_OTHER)
                      | Some q \<Rightarrow>
                          if (case i_trigger_price i of None \<Rightarrow> False
                              | Some t \<Rightarrow> \<not> on_tick t (ins_tick_size ins))
                          then Some (OrderRejectedError TICK_SIZE)
                          else if beyond_band ins q (i_trigger_price i)
                          then Some (OrderRejectedError PRICE_BAND)
                          else if i_product i = CNC \<and> i_side i = SELL
                                  \<and> held s (ins_key ins) - pending_sells s (ins_key ins) < o_quantity od
                          then Some (OrderRejectedError SHORT_NOT_ALLOWED)
                          else None)"

definition find_order :: "sim_broker \<Rightarrow> string \<Rightarrow> sim_order option" where
  "find_order s client_id =
     (case dget (sb_by_tag s) client_id of None \<Rightarrow> None | Some k \<Rightarrow> dget (ss_orders s) k)"

definition ack_of :: "sim_order \<Rightarrow> broker_ack" where
  "ack_of od = \<lparr>ak_client_order_id = so_client_order_id od, ak_broker_order_id = so_broker_order_id od,
     ak_status = so_status od, ak_ts = so_updated_at od\<rparr>"

definition sim_order_id :: "sim_config \<Rightarrow> nat \<Rightarrow> string" where
  "sim_order_id cfg n = ''SIM-'' @ sc_book_id cfg @ ''-'' @ zfill6 n"

definition new_sim_order :: "sim_config \<Rightarrow> sim_broker \<Rightarrow> order \<Rightarrow> string \<Rightarrow> rat \<Rightarrow> ts \<Rightarrow> sim_order" where
  "new_sim_order cfg s od ik reserved now =
     (let i = o_intent od; day = ist_date now
      in \<lparr>so_broker_order_id = sim_order_id cfg (ss_next_order s),
          so_client_order_id = o_client_order_id od, so_decision_id = i_decision_id i,
          so_instrument_key = ik, so_side = i_side i, so_product = i_product i,
          so_order_type = i_order_type i, so_quantity = o_quantity od,
          so_trigger_price = i_trigger_price i,
          so_status = (if i_order_type i = SL_M then TRIGGER_PENDING else OPEN),
          so_filled_qty = 0, so_filled_notional = 0, so_reserved = reserved,
          so_eligible_at = now + sc_latency cfg (o_client_order_id od) day, so_eligible_quotes = 0,
          so_fill_count = 0, so_session_day = day, so_created_at = now, so_updated_at = now\<rparr>)"

type_synonym broker_reply = "sim_broker \<times> notice list \<times> (broker_error + broker_ack)"

definition accept_order :: "sim_config \<Rightarrow> sim_broker \<Rightarrow> order \<Rightarrow> string \<Rightarrow> rat \<Rightarrow> ts \<Rightarrow> broker_reply" where
  "accept_order cfg s od ik reserved now =
     (let so = new_sim_order cfg s od ik reserved now;
          s' = s\<lparr>ss_next_order := ss_next_order s + 1, ss_blocked := ss_blocked s + reserved,
                 ss_orders := dset (so_broker_order_id so) so (ss_orders s),
                 sb_by_tag := dset (so_client_order_id so) (so_broker_order_id so) (sb_by_tag s)\<rparr>
      in (s', [UpdateNotice (snapshot_of so)], Inr (ack_of so)))"

definition place_order :: "sim_config \<Rightarrow> sim_broker \<Rightarrow> order \<Rightarrow> ts \<Rightarrow> broker_reply" where
  "place_order cfg s od now =
     (case find_order s (o_client_order_id od) of
        Some existing \<Rightarrow> (s, [], Inr (ack_of existing))
      | None \<Rightarrow>
          (case validate cfg s od now of
             Some e \<Rightarrow> (s, [], Inl e)
           | None \<Rightarrow>
               (case dget (sc_instruments cfg) (i_key (o_intent od)) of
                  None \<Rightarrow> (s, [], Inl (OtherError KeyError))
                | Some ins \<Rightarrow>
                    (case dget (sb_quotes s) (ins_key ins) of
                       None \<Rightarrow> (s, [], Inl (OtherError KeyError))
                     | Some q \<Rightarrow>
                         if i_side (o_intent od) = BUY then
                           (case buy_reservation cfg (i_product (o_intent od)) (dec_of_float (q_ltp q))
                                   (o_quantity od) of
                              Inl e \<Rightarrow> (s, [], Inl (OtherError e))
                            | Inr reserved \<Rightarrow>
                                if available s < reserved
                                then (s, [], Inl (OrderRejectedError INSUFFICIENT_FUNDS))
                                else accept_order cfg s od (ins_key ins) reserved now)
                         else accept_order cfg s od (ins_key ins) 0 now))))"

text \<open>\<open>modify_order\<close> changes the trigger before it looks at the quantity, so a rejected quantity
  leaves the new trigger in place.\<close>

definition modify_trigger ::
  "instrument \<Rightarrow> sim_order \<Rightarrow> rat option \<Rightarrow> broker_error + sim_order" where
  "modify_trigger ins od trigger =
     (case trigger of
        None \<Rightarrow> Inr od
      | Some t \<Rightarrow>
          if so_order_type od \<noteq> SL_M then Inl InvalidRequestError
          else if \<not> on_tick t (ins_tick_size ins) then Inl (OrderRejectedError TICK_SIZE)
          else Inr (od\<lparr>so_trigger_price := Some t\<rparr>))"

definition modify_order ::
  "sim_config \<Rightarrow> sim_broker \<Rightarrow> string \<Rightarrow> int option \<Rightarrow> rat option \<Rightarrow> rat option \<Rightarrow> ts \<Rightarrow> broker_reply" where
  "modify_order cfg s k qty price trigger now =
     (case dget (ss_orders s) k of
        None \<Rightarrow> (s, [], Inl InvalidRequestError)
      | Some od \<Rightarrow>
          if \<not> is_live (so_status od) then (s, [], Inl InvalidRequestError)
          else if price \<noteq> None then (s, [], Inl InvalidRequestError)
          else case dget (sc_instruments cfg) (so_instrument_key od) of
            None \<Rightarrow> (s, [], Inl (OtherError KeyError))
          | Some ins \<Rightarrow>
              (case modify_trigger ins od trigger of
                 Inl e \<Rightarrow> (s, [], Inl e)
               | Inr od1 \<Rightarrow>
                   if (case qty of None \<Rightarrow> False
                       | Some n \<Rightarrow> n < so_filled_qty od1 \<or> n \<le> 0 \<or> n mod ins_lot_size ins \<noteq> 0)
                   then (put_order od1 s, [], Inl InvalidRequestError)
                   else
                     let od2 = (case qty of None \<Rightarrow> od1 | Some n \<Rightarrow> od1\<lparr>so_quantity := n\<rparr>);
                         od3 = od2\<lparr>so_updated_at := now\<rparr>;
                         (s', od4, ns) =
                           (if so_remaining od3 = 0
                            then let (s4, od4) = finish FILLED now od3 s
                                 in (s4, od4, [UpdateNotice (snapshot_of od4)])
                            else (put_order od3 s, od3, []))
                     in (s', ns @ [UpdateNotice (snapshot_of od4)], Inr (ack_of od4))))"

definition cancel_order :: "sim_broker \<Rightarrow> string \<Rightarrow> ts \<Rightarrow> broker_reply" where
  "cancel_order s k now =
     (case dget (ss_orders s) k of
        None \<Rightarrow> (s, [], Inl InvalidRequestError)
      | Some od \<Rightarrow>
          if is_live (so_status od)
          then let (s', od') = finish CANCELLED now od s
               in (s', [UpdateNotice (snapshot_of od')], Inr (ack_of od'))
          else (s, [], Inr (ack_of od)))"

fun expire_orders :: "string list \<Rightarrow> ts \<Rightarrow> sim_broker \<Rightarrow> sim_broker \<times> order_snapshot list" where
  "expire_orders [] now s = (s, [])"
| "expire_orders (k # ks) now s =
     (case dget (ss_orders s) k of
        None \<Rightarrow> expire_orders ks now s
      | Some od \<Rightarrow>
          if is_live (so_status od)
          then let (s1, od1) = finish EXPIRED now od s; (s2, sn) = expire_orders ks now s1
               in (s2, snapshot_of od1 # sn)
          else expire_orders ks now s)"

definition expire_session :: "sim_broker \<Rightarrow> ts \<Rightarrow> sim_broker \<times> order_snapshot list" where
  "expire_session s now = expire_orders (map fst (ss_orders s)) now s"

subsection \<open>Queries\<close>

definition get_order :: "sim_broker \<Rightarrow> string \<Rightarrow> broker_error + order_snapshot" where
  "get_order s k =
     (case dget (ss_orders s) k of None \<Rightarrow> Inl InvalidRequestError | Some od \<Rightarrow> Inr (snapshot_of od))"

definition find_order_by_tag :: "sim_broker \<Rightarrow> string \<Rightarrow> order_snapshot option" where
  "find_order_by_tag s client_id = map_option snapshot_of (find_order s client_id)"

definition get_orders :: "sim_broker \<Rightarrow> order_snapshot list" where
  "get_orders s = map (\<lambda>(k, od). snapshot_of od) (ss_orders s)"

definition get_trades :: "sim_broker \<Rightarrow> ts option \<Rightarrow> fill list" where
  "get_trades s since =
     filter (\<lambda>f. case since of None \<Rightarrow> True | Some t \<Rightarrow> t \<le> f_ts f) (ss_fills s)"

definition get_positions :: "sim_config \<Rightarrow> sim_broker \<Rightarrow> ts \<Rightarrow> position list" where
  "get_positions cfg s now =
     map (\<lambda>((ik, pr), p).
         \<lparr>p_book_id = sc_book_id cfg, p_instrument_key = ik, p_product = pr, p_quantity = sp_quantity p,
          p_avg_price = (if sp_quantity p \<noteq> 0 then Some (ddiv (sp_cost p) (of_int \<bar>sp_quantity p\<bar>)) else None),
          p_realized_pnl = sp_realized p,
          p_updated_at = (case sp_updated_at p of None \<Rightarrow> now | Some t \<Rightarrow> t)\<rparr>) (ss_positions s)"

definition get_holdings :: "sim_broker \<Rightarrow> holding list" where
  "get_holdings s =
     map (\<lambda>((ik, pr), p). \<lparr>hd_instrument_key = ik, hd_quantity = sp_quantity p,
                           hd_avg_price = ddiv (sp_cost p) (of_int (sp_quantity p))\<rparr>)
       (filter (\<lambda>((ik, pr), p). pr = CNC \<and> 0 < sp_quantity p) (ss_positions s))"

definition get_funds :: "sim_broker \<Rightarrow> ts \<Rightarrow> sim_broker \<times> funds" where
  "get_funds s now =
     (let s' = settle (ist_date now) s
      in (s', \<lparr>fd_available_cash = max 0 (available s'), fd_blocked = ss_blocked s',
               fd_unsettled_credit = sum_list (map snd (ss_unsettled s'))\<rparr>))"

fun margin_required :: "sim_config \<Rightarrow> sim_broker \<Rightarrow> order_intent list \<Rightarrow> rat \<Rightarrow> rat result" where
  "margin_required cfg s [] acc = Inr acc"
| "margin_required cfg s (i # rest) acc =
     (case i_quantity i of
        None \<Rightarrow> margin_required cfg s rest acc
      | Some n \<Rightarrow>
          if i_side i \<noteq> BUY then margin_required cfg s rest acc
          else
            let reference = (case dget (sb_quotes s) (i_key i) of
                               Some q \<Rightarrow> dec_of_float (q_ltp q) | None \<Rightarrow> i_decision_price i)
            in case buy_reservation cfg (i_product i) reference n of
                 Inl e \<Rightarrow> Inl e
               | Inr r \<Rightarrow> margin_required cfg s rest (acc + r))"

definition get_margin_required :: "sim_config \<Rightarrow> sim_broker \<Rightarrow> order_intent list \<Rightarrow> margin_quote result" where
  "get_margin_required cfg s intents =
     (case margin_required cfg s intents 0 of
        Inl e \<Rightarrow> Inl e
      | Inr r \<Rightarrow> Inr \<lparr>mq_required = r, mq_available = max 0 (available s)\<rparr>)"

end
