(* ===== verification/Sim_Broker_Steps.thy ===== *)
theory Sim_Broker_Steps
  imports Sim_Broker
begin

section \<open>Elementary steps of the simulated broker\<close>

text \<open>
  The operations of the broker are decomposed into the elementary steps \<open>bstep\<close>: an order is
  touched or resized, closed, bought or sold against, accepted; cash settles; market data
  arrives. Every public operation is a sequence of such steps, and an invariant is proved once,
  by cases on the step. The flag \<open>g\<close> says whether a delivery sell may be made larger, which only
  \<open>modify_order\<close> does.
\<close>

subsection \<open>Elementary steps\<close>

definition agrees :: "sim_order \<Rightarrow> sim_order \<Rightarrow> bool" where
  "agrees od od' =
     (so_broker_order_id od' = so_broker_order_id od \<and> so_client_order_id od' = so_client_order_id od
      \<and> so_decision_id od' = so_decision_id od \<and> so_instrument_key od' = so_instrument_key od
      \<and> so_side od' = so_side od \<and> so_product od' = so_product od \<and> so_order_type od' = so_order_type od
      \<and> so_filled_qty od' = so_filled_qty od \<and> so_filled_notional od' = so_filled_notional od
      \<and> so_reserved od' = so_reserved od \<and> so_fill_count od' = so_fill_count od)"

definition cnc_sell :: "sim_order \<Rightarrow> bool" where
  "cnc_sell od = (so_product od = CNC \<and> so_side od = SELL)"

definition may_resize :: "bool \<Rightarrow> sim_order \<Rightarrow> sim_order \<Rightarrow> bool" where
  "may_resize g od od' = (g \<or> \<not> cnc_sell od \<or> so_quantity od' \<le> so_quantity od)"

definition config_ok :: "sim_config \<Rightarrow> bool" where
  "config_ok cfg =
     ((\<forall>(k, i) \<in> set (sc_instruments cfg). 0 < ins_tick_size i \<and> 0 < ins_lot_size i)
      \<and> schedule_ok (sc_costs cfg))"

inductive bstep :: "sim_config \<Rightarrow> bool \<Rightarrow> sim_broker \<Rightarrow> sim_broker \<Rightarrow> bool" for cfg g where
  touch: "dget (ss_orders s) k = Some od \<Longrightarrow> is_live (so_status od) \<Longrightarrow> agrees od od' \<Longrightarrow>
    is_live (so_status od') \<Longrightarrow> so_filled_qty od' < so_quantity od' \<Longrightarrow> may_resize g od od' \<Longrightarrow>
    bstep cfg g s (put_order od' s)"
| close: "dget (ss_orders s) k = Some od \<Longrightarrow> is_live (so_status od) \<Longrightarrow> agrees od od' \<Longrightarrow>
    so_filled_qty od' \<le> so_quantity od' \<Longrightarrow> 0 < so_quantity od' \<Longrightarrow> \<not> is_live st \<Longrightarrow>
    bstep cfg g s (put_order (od'\<lparr>so_status := st, so_updated_at := t, so_reserved := 0\<rparr>)
      (s\<lparr>ss_blocked := ss_blocked s - so_reserved od'\<rparr>))"
| buy: "dget (ss_orders s) k = Some od \<Longrightarrow> is_live (so_status od) \<Longrightarrow> so_side od = BUY \<Longrightarrow>
    0 < qty \<Longrightarrow> qty \<le> so_remaining od \<Longrightarrow> 0 < price \<Longrightarrow> 0 \<le> charge \<Longrightarrow>
    release = min (so_reserved od) (price * of_int qty + charge) \<Longrightarrow>
    price * of_int qty + charge \<le> release + available s \<Longrightarrow>
    bstep cfg g s (fst (book_fill cfg
      (s\<lparr>ss_blocked := ss_blocked s - release, ss_cash := ss_cash s - (price * of_int qty + charge)\<rparr>)
      (od\<lparr>so_reserved := so_reserved od - release\<rparr>) qty price charge t))"
| sell_now: "dget (ss_orders s) k = Some od \<Longrightarrow> is_live (so_status od) \<Longrightarrow> so_side od = SELL \<Longrightarrow>
    0 < qty \<Longrightarrow> qty \<le> so_remaining od \<Longrightarrow> 0 < price \<Longrightarrow> 0 \<le> charge \<Longrightarrow>
    bstep cfg g s (fst (book_fill cfg
      (s\<lparr>ss_cash := ss_cash s + (price * of_int qty - charge), ss_dp_days := dps\<rparr>) od qty price charge t))"
| sell_later: "dget (ss_orders s) k = Some od \<Longrightarrow> is_live (so_status od) \<Longrightarrow> so_side od = SELL \<Longrightarrow>
    0 < qty \<Longrightarrow> qty \<le> so_remaining od \<Longrightarrow> 0 < price \<Longrightarrow> 0 \<le> charge \<Longrightarrow>
    bstep cfg g s (fst (book_fill cfg
      (s\<lparr>ss_unsettled := ss_unsettled s @ [(d, price * of_int qty - charge)], ss_dp_days := dps\<rparr>)
      od qty price charge t))"
| accept: "0 < o_quantity od \<Longrightarrow> 0 \<le> reserved \<Longrightarrow> reserved \<le> available s \<or> reserved = 0 \<Longrightarrow>
    (i_side (o_intent od) = SELL \<Longrightarrow> reserved = 0) \<Longrightarrow>
    (i_product (o_intent od) = CNC \<Longrightarrow> i_side (o_intent od) = SELL \<Longrightarrow>
      o_quantity od \<le> held s ik - pending_sells s ik) \<Longrightarrow>
    find_order s (o_client_order_id od) = None \<Longrightarrow>
    bstep cfg g s (fst (accept_order cfg s od ik reserved now))"
| settles: "bstep cfg g s (settle today s)"
| data: "bstep cfg g s (s\<lparr>ss_volume := v, sb_quotes := q\<rparr>)"

abbreviation bsteps :: "sim_config \<Rightarrow> bool \<Rightarrow> sim_broker \<Rightarrow> sim_broker \<Rightarrow> bool" where
  "bsteps cfg g \<equiv> (bstep cfg g)\<^sup>*\<^sup>*"

lemmas bsteps_trans = rtranclp_trans [of "bstep cfg g" for cfg g]

lemma agrees_refl [simp]: "agrees od od"
  by (simp add: agrees_def)

lemma agrees_same [simp]:
  "agrees od (od\<lparr>so_status := st, so_updated_at := t, so_eligible_quotes := n\<rparr>)"
  "agrees od (od\<lparr>so_eligible_quotes := n\<rparr>)"
  "agrees od (od\<lparr>so_trigger_price := tr\<rparr>)"
  by (simp_all add: agrees_def)

lemma is_live_simps [simp]:
  "is_live OPEN" "is_live PARTIALLY_FILLED" "is_live TRIGGER_PENDING"
  "\<not> is_live FILLED" "\<not> is_live CANCELLED" "\<not> is_live REJECTED" "\<not> is_live EXPIRED"
  by (simp_all add: is_live_def)

lemma dget_put_order [simp]: "dget (ss_orders (put_order od s)) (so_broker_order_id od) = Some od"
  by (simp add: put_order_def)

lemma finish_eq [simp]:
  "finish st t od s =
     (put_order (od\<lparr>so_status := st, so_updated_at := t, so_reserved := 0\<rparr>)
        (s\<lparr>ss_blocked := ss_blocked s - so_reserved od\<rparr>),
      od\<lparr>so_status := st, so_updated_at := t, so_reserved := 0\<rparr>)"
  by (simp add: finish_def Let_def)

subsection \<open>Orders and blocked cash\<close>

definition order_ok :: "sim_order \<Rightarrow> bool" where
  "order_ok od =
     (0 < so_quantity od \<and> 0 \<le> so_filled_qty od \<and> so_filled_qty od \<le> so_quantity od \<and> 0 \<le> so_reserved od
      \<and> (\<not> is_live (so_status od) \<longrightarrow> so_reserved od = 0) \<and> (so_side od = SELL \<longrightarrow> so_reserved od = 0)
      \<and> (is_live (so_status od) \<longrightarrow> so_filled_qty od < so_quantity od))"

definition orders_inv :: "sim_config \<Rightarrow> sim_broker \<Rightarrow> bool" where
  "orders_inv cfg s =
     (distinct (map fst (ss_orders s))
      \<and> (\<forall>k od. (k, od) \<in> set (ss_orders s) \<longrightarrow>
            k = so_broker_order_id od \<and> order_ok od \<and> (\<exists>n < ss_next_order s. k = sim_order_id cfg n))
      \<and> ss_blocked s = dsum (\<lambda>k od. so_reserved od) (ss_orders s))"

lemma orders_invD:
  assumes "orders_inv cfg s" "dget (ss_orders s) k = Some od"
  shows "k = so_broker_order_id od" "order_ok od" "\<exists>n < ss_next_order s. k = sim_order_id cfg n"
  using assms by (auto simp: orders_inv_def dest!: dget_in_set)

text \<open>Putting a changed record of a known order back, with the blocked cash moved by the change of
  its reservation.\<close>

lemma orders_inv_put:
  assumes "orders_inv cfg s" "dget (ss_orders s) k = Some od" "so_broker_order_id od' = so_broker_order_id od"
    and "order_ok od'" "ss_orders s' = dset (so_broker_order_id od') od' (ss_orders s)"
    and "ss_next_order s' = ss_next_order s"
    and "ss_blocked s' = ss_blocked s - so_reserved od + so_reserved od'"
  shows "orders_inv cfg s'"
proof -
  note k = orders_invD [OF assms(1,2)]
  have inv: "distinct (map fst (ss_orders s))" "ss_blocked s = dsum (\<lambda>k od. so_reserved od) (ss_orders s)"
    "\<And>k od. (k, od) \<in> set (ss_orders s) \<Longrightarrow>
       k = so_broker_order_id od \<and> order_ok od \<and> (\<exists>n < ss_next_order s. k = sim_order_id cfg n)"
    using assms(1) unfolding orders_inv_def by blast+
  have "dget (ss_orders s) (so_broker_order_id od') = Some od" using assms(2,3) k(1) by simp
  then have "dsum (\<lambda>k od. so_reserved od) (ss_orders s') = ss_blocked s'"
    using assms(5,7) inv(2) by (simp add: dsum_dset)
  moreover have "distinct (map fst (ss_orders s'))" using inv(1) assms(5) by (simp add: distinct_dset)
  moreover have "x = so_broker_order_id y \<and> order_ok y \<and> (\<exists>n < ss_next_order s'. x = sim_order_id cfg n)"
    if "(x, y) \<in> set (ss_orders s')" for x y
    using set_dset [OF that [unfolded assms(5)]] inv(3) [of x y] k(1,3) assms(3,4,6) by auto
  ultimately show ?thesis unfolding orders_inv_def by simp
qed

lemma book_fill_frame:
  "ss_next_order (fst (book_fill cfg s od qty price charge t)) = ss_next_order s"
  "ss_cash (fst (book_fill cfg s od qty price charge t)) = ss_cash s"
  "ss_unsettled (fst (book_fill cfg s od qty price charge t)) = ss_unsettled s"
  "ss_blocked (fst (book_fill cfg s od qty price charge t)) =
     ss_blocked s - (if so_remaining od = qty then so_reserved od else 0)"
  "sb_by_tag (fst (book_fill cfg s od qty price charge t)) = sb_by_tag s"
  by (auto simp: book_fill_def Let_def put_order_def so_remaining_def)

definition filled_order :: "sim_order \<Rightarrow> int \<Rightarrow> rat \<Rightarrow> ts \<Rightarrow> sim_order" where
  "filled_order od qty price t =
     (if so_remaining od = qty
      then od\<lparr>so_fill_count := so_fill_count od + 1, so_filled_qty := so_filled_qty od + qty,
        so_filled_notional := so_filled_notional od + price * of_int qty, so_status := FILLED,
        so_updated_at := t, so_reserved := 0\<rparr>
      else od\<lparr>so_fill_count := so_fill_count od + 1, so_filled_qty := so_filled_qty od + qty,
        so_filled_notional := so_filled_notional od + price * of_int qty, so_updated_at := t,
        so_status := PARTIALLY_FILLED\<rparr>)"

lemma book_fill_orders:
  "ss_orders (fst (book_fill cfg s od qty price charge t)) =
     dset (so_broker_order_id od) (filled_order od qty price t) (ss_orders s)"
  by (auto simp: book_fill_def Let_def put_order_def so_remaining_def filled_order_def)

lemma filled_order_simps [simp]:
  "so_broker_order_id (filled_order od qty price t) = so_broker_order_id od"
  "so_client_order_id (filled_order od qty price t) = so_client_order_id od"
  "so_instrument_key (filled_order od qty price t) = so_instrument_key od"
  "so_product (filled_order od qty price t) = so_product od"
  "so_side (filled_order od qty price t) = so_side od"
  "so_quantity (filled_order od qty price t) = so_quantity od"
  "so_filled_qty (filled_order od qty price t) = so_filled_qty od + qty"
  "so_fill_count (filled_order od qty price t) = so_fill_count od + 1"
  "so_reserved (filled_order od qty price t) = (if so_remaining od = qty then 0 else so_reserved od)"
  "is_live (so_status (filled_order od qty price t)) = (so_remaining od \<noteq> qty)"
  by (auto simp: filled_order_def)

lemma order_ok_filled:
  "order_ok od \<Longrightarrow> is_live (so_status od) \<Longrightarrow> 0 < qty \<Longrightarrow> qty \<le> so_remaining od \<Longrightarrow> order_ok (filled_order od qty price t)"
  by (auto simp: order_ok_def so_remaining_def)

lemma orders_inv_fill:
  assumes "orders_inv cfg s" "dget (ss_orders s) k = Some od" "is_live (so_status od)"
    and "0 < qty" "qty \<le> so_remaining od" "0 \<le> rl" "rl \<le> so_reserved od"
    and "ss_orders s1 = ss_orders s" "ss_next_order s1 = ss_next_order s" "ss_blocked s1 = ss_blocked s - rl"
    and "od1 = od\<lparr>so_reserved := so_reserved od - rl\<rparr>"
  shows "orders_inv cfg (fst (book_fill cfg s1 od1 qty price charge t))"
proof (rule orders_inv_put [OF assms(1,2)])
  note ok = orders_invD(2) [OF assms(1,2)]
  have "order_ok od1" using ok assms(6,7,3) unfolding assms(11) by (auto simp: order_ok_def)
  then show "order_ok (filled_order od1 qty price t)"
    using assms(3-5) by (intro order_ok_filled) (auto simp: assms(11) so_remaining_def)
  show "ss_blocked (fst (book_fill cfg s1 od1 qty price charge t))
      = ss_blocked s - so_reserved od + so_reserved (filled_order od1 qty price t)"
    using assms(10,11) by (auto simp: book_fill_frame so_remaining_def)
qed (use assms in \<open>simp_all add: book_fill_orders book_fill_frame\<close>)

lemma sim_order_id_inject [simp]: "sim_order_id cfg m = sim_order_id cfg n \<longleftrightarrow> m = n"
  by (simp add: sim_order_id_def)

lemma fresh_order_id:
  assumes "orders_inv cfg s"
  shows "dget (ss_orders s) (sim_order_id cfg (ss_next_order s)) = None"
proof (rule ccontr)
  assume "dget (ss_orders s) (sim_order_id cfg (ss_next_order s)) \<noteq> None"
  then obtain od where "dget (ss_orders s) (sim_order_id cfg (ss_next_order s)) = Some od" by blast
  from orders_invD(3) [OF assms this] show False by auto
qed

lemma new_sim_order_simps [simp]:
  "so_broker_order_id (new_sim_order cfg s od ik rv now) = sim_order_id cfg (ss_next_order s)"
  "so_client_order_id (new_sim_order cfg s od ik rv now) = o_client_order_id od"
  "so_instrument_key (new_sim_order cfg s od ik rv now) = ik"
  "so_product (new_sim_order cfg s od ik rv now) = i_product (o_intent od)"
  "so_side (new_sim_order cfg s od ik rv now) = i_side (o_intent od)"
  "so_quantity (new_sim_order cfg s od ik rv now) = o_quantity od"
  "so_filled_qty (new_sim_order cfg s od ik rv now) = 0"
  "so_fill_count (new_sim_order cfg s od ik rv now) = 0"
  "so_reserved (new_sim_order cfg s od ik rv now) = rv"
  "is_live (so_status (new_sim_order cfg s od ik rv now))"
  by (auto simp: new_sim_order_def Let_def)

lemma settle_simps [simp]:
  "ss_orders (settle d s) = ss_orders s" "ss_next_order (settle d s) = ss_next_order s"
  "ss_blocked (settle d s) = ss_blocked s" "ss_fills (settle d s) = ss_fills s"
  "ss_positions (settle d s) = ss_positions s" "sb_by_tag (settle d s) = sb_by_tag s"
  "sb_quotes (settle d s) = sb_quotes s"
  by (auto simp: settle_def Let_def)

lemma settle_total:
  "ss_cash (settle d s) + sum_list (map snd (ss_unsettled (settle d s)))
    = ss_cash s + sum_list (map snd (ss_unsettled s))"
proof -
  have "filter (\<lambda>x. \<not> (case x of (e, a) \<Rightarrow> e \<le> d)) (ss_unsettled s) = filter (\<lambda>(e, a). d < e) (ss_unsettled s)"
    by (rule filter_cong) auto
  then have "sum_list (map snd (ss_unsettled s)) = sum_list (map snd (filter (\<lambda>(e, a). e \<le> d) (ss_unsettled s)))
      + sum_list (map snd (filter (\<lambda>(e, a). d < e) (ss_unsettled s)))"
    using sum_list_split_filter [of snd "ss_unsettled s" "\<lambda>(e, a). e \<le> d"] by simp
  then show ?thesis by (auto simp: settle_def Let_def)
qed

lemma orders_inv_step: "bstep cfg g s s' \<Longrightarrow> orders_inv cfg s \<Longrightarrow> orders_inv cfg s'"
proof (induction rule: bstep.induct)
  case (touch s k od od')
  note ok = orders_invD(2) [OF touch.prems touch.hyps(1)]
  show ?case
  proof (rule orders_inv_put [OF touch.prems touch.hyps(1)])
    show "order_ok od'" using ok touch.hyps by (auto simp: order_ok_def agrees_def)
  qed (use touch.hyps in \<open>auto simp: agrees_def put_order_def\<close>)
next
  case (close s k od od' st t)
  note ok = orders_invD(2) [OF close.prems close.hyps(1)]
  show ?case
  proof (rule orders_inv_put [OF close.prems close.hyps(1)])
    show "order_ok (od'\<lparr>so_status := st, so_updated_at := t, so_reserved := 0\<rparr>)"
      using ok close.hyps by (auto simp: order_ok_def agrees_def)
  qed (use close.hyps in \<open>auto simp: agrees_def put_order_def\<close>)
next
  case (buy s k od qty price charge release t)
  have "0 \<le> price * of_int qty + charge" using buy.hyps by simp
  moreover have "0 \<le> so_reserved od" using orders_invD(2) [OF buy.prems buy.hyps(1)] by (simp add: order_ok_def)
  ultimately have "0 \<le> release" "release \<le> so_reserved od" using buy.hyps(8) by auto
  then show ?case using buy by (intro orders_inv_fill [OF buy.prems buy.hyps(1,2,4,5)]) auto
next
  case (sell_now s k od qty price charge dps t)
  have "0 \<le> so_reserved od" using orders_invD(2) [OF sell_now.prems sell_now.hyps(1)] by (simp add: order_ok_def)
  then show ?case by (intro orders_inv_fill [OF sell_now.prems sell_now.hyps(1,2,4,5), of 0]) auto
next
  case (sell_later s k od qty price charge d dps t)
  have "0 \<le> so_reserved od" using orders_invD(2) [OF sell_later.prems sell_later.hyps(1)] by (simp add: order_ok_def)
  then show ?case by (intro orders_inv_fill [OF sell_later.prems sell_later.hyps(1,2,4,5), of 0]) auto
next
  case (accept od reserved s ik now)
  let ?so = "new_sim_order cfg s od ik reserved now"
  have "order_ok ?so" using accept.hyps by (auto simp: order_ok_def)
  then show ?case using accept.prems fresh_order_id [OF accept.prems]
    by (auto simp: orders_inv_def accept_order_def Let_def distinct_dset dsum_dset less_Suc_eq dest!: set_dset)
next
  case (settles s today)
  then show ?case by (simp add: orders_inv_def)
next
  case (data s v q)
  then show ?case by (simp add: orders_inv_def)
qed

lemma orders_inv_steps: "bsteps cfg g s s' \<Longrightarrow> orders_inv cfg s \<Longrightarrow> orders_inv cfg s'"
  by (induction rule: rtranclp_induct) (auto intro: orders_inv_step)

subsection \<open>Operations as sequences of steps\<close>

text \<open>The order record that \<open>execute\<close> returns is the one in the returned state.\<close>

lemma book_fill_order:
  assumes "book_fill cfg s od qty price charge t = (s', od', ns, f)"
  shows "dget (ss_orders s') (so_broker_order_id od) = Some od'" "so_broker_order_id od' = so_broker_order_id od"
    "ss_orders s' = dset (so_broker_order_id od) od' (ss_orders s)"
    "is_live (so_status od') \<Longrightarrow> so_filled_qty od' < so_quantity od' \<or> so_quantity od < so_filled_qty od + qty"
  using assms by (auto simp: book_fill_def Let_def put_order_def so_remaining_def split: if_splits)

lemma execute_steps:
  assumes "execute cfg s od ins reference qty q = Inr (s', od', ns, f)"
    and "dget (ss_orders s) (so_broker_order_id od) = Some od" "is_live (so_status od)"
    and "0 < qty" "qty \<le> so_remaining od" "0 < ins_tick_size ins" "schedule_ok (sc_costs cfg)"
    and "0 \<le> so_filled_qty od"
  shows "bstep cfg g s s' \<and> dget (ss_orders s') (so_broker_order_id od) = Some od'
    \<and> so_broker_order_id od' = so_broker_order_id od"
proof -
  obtain price cb dp where p: "adverse_price reference (so_side od) (ins_tick_size ins) (sc_fill cfg)
      (dget_or no_context (sc_market cfg) (so_instrument_key od)) qty = Some price"
    and c: "charges (sc_costs cfg) (so_product od) (so_side od) (price * of_int qty) dp = Inr cb"
    and dp: "dp = (so_side od = SELL \<and> so_product od = CNC
      \<and> (so_instrument_key od, ist_date (q_receipt_ts q)) \<notin> set (ss_dp_days s))"
    using assms(1) by (auto simp: execute_def Let_def split: option.splits sum.splits)
  have pos: "0 < price" "0 \<le> cb_total cb"
    using adverse_price_pos [OF p assms(6)] charges_total_nonneg [OF assms(7) c] by auto
  show ?thesis
  proof (cases "so_side od")
    case BUY
    let ?cost = "price * of_int qty + cb_total cb"
    show ?thesis
    proof (cases "min (so_reserved od) ?cost + available s < ?cost")
      case True
      let ?od = "od\<lparr>so_status := CANCELLED, so_updated_at := q_receipt_ts q, so_reserved := 0\<rparr>"
      from True assms(1) p c BUY dp have "s' = put_order ?od (s\<lparr>ss_blocked := ss_blocked s - so_reserved od\<rparr>)"
        "od' = ?od" by (auto simp: execute_def Let_def)
      moreover have "bstep cfg g s (put_order ?od (s\<lparr>ss_blocked := ss_blocked s - so_reserved od\<rparr>))"
        using assms(3-5,8) by (intro close [OF assms(2)]) (auto simp: so_remaining_def)
      ultimately show ?thesis by (simp add: put_order_def)
    next
      case False
      with assms(1) p c BUY dp have b: "book_fill cfg (s\<lparr>ss_blocked := ss_blocked s - min (so_reserved od) ?cost,
          ss_cash := ss_cash s - ?cost\<rparr>) (od\<lparr>so_reserved := so_reserved od - min (so_reserved od) ?cost\<rparr>)
          qty price (cb_total cb) (q_receipt_ts q) = (s', od', ns, f)"
        by (auto simp: execute_def Let_def)
      have "?cost \<le> min (so_reserved od) ?cost + available s" using False by simp
      from bstep.buy [OF assms(2,3) BUY assms(4,5) pos refl this, of cfg g "q_receipt_ts q"] b book_fill_order [OF b]
      show ?thesis by simp
    qed
  next
    case SELL
    let ?pr = "price * of_int qty - cb_total cb"
    define dps where "dps = (if dp then ss_dp_days s @ [(so_instrument_key od, ist_date (q_receipt_ts q))]
      else ss_dp_days s)"
    have "execute cfg s od ins reference qty q =
      (if sc_same_day cfg
       then Inr (book_fill cfg (s\<lparr>ss_cash := ss_cash s + ?pr, ss_dp_days := dps\<rparr>) od qty price
          (cb_total cb) (q_receipt_ts q))
       else case next_trading_day (sc_calendar cfg) (ist_date (q_receipt_ts q)) of
          Inl e \<Rightarrow> Inl e
        | Inr d \<Rightarrow> Inr (book_fill cfg (s\<lparr>ss_unsettled := ss_unsettled s @ [(d, ?pr)], ss_dp_days := dps\<rparr>) od
            qty price (cb_total cb) (q_receipt_ts q)))"
      using p c SELL dp unfolding dps_def by (auto simp: execute_def Let_def)
    with assms(1) have "book_fill cfg (s\<lparr>ss_cash := ss_cash s + ?pr, ss_dp_days := dps\<rparr>) od qty price
          (cb_total cb) (q_receipt_ts q) = (s', od', ns, f)
      \<or> (\<exists>d. book_fill cfg (s\<lparr>ss_unsettled := ss_unsettled s @ [(d, ?pr)], ss_dp_days := dps\<rparr>) od qty price
          (cb_total cb) (q_receipt_ts q) = (s', od', ns, f))"
      by (auto split: if_splits sum.splits)
    then show ?thesis
    proof
      assume b: "book_fill cfg (s\<lparr>ss_cash := ss_cash s + ?pr, ss_dp_days := dps\<rparr>) od qty price
          (cb_total cb) (q_receipt_ts q) = (s', od', ns, f)"
      from bstep.sell_now [OF assms(2,3) SELL assms(4,5) pos, of cfg g dps "q_receipt_ts q"] b book_fill_order [OF b]
      show ?thesis by simp
    next
      assume "\<exists>d. book_fill cfg (s\<lparr>ss_unsettled := ss_unsettled s @ [(d, ?pr)], ss_dp_days := dps\<rparr>) od qty price
          (cb_total cb) (q_receipt_ts q) = (s', od', ns, f)"
      then obtain d where b: "book_fill cfg (s\<lparr>ss_unsettled := ss_unsettled s @ [(d, ?pr)], ss_dp_days := dps\<rparr>) od
          qty price (cb_total cb) (q_receipt_ts q) = (s', od', ns, f)" ..
      from bstep.sell_later [OF assms(2,3) SELL assms(4,5) pos, where cfg = cfg and g = g and d = d and dps = dps and t = "q_receipt_ts q"] b book_fill_order [OF b]
      show ?thesis by simp
    qed
  qed
qed

lemma work_order_steps:
  assumes "work_order cfg s od0 reference q liquidity = Inr (s', ns, f)"
    and "orders_inv cfg s" "dget (ss_orders s) k = Some od" "is_live (so_status od)"
    and "agrees od od0" "so_quantity od0 = so_quantity od" "is_live (so_status od0)" "config_ok cfg"
  shows "bsteps cfg g s s'"
proof -
  define od1 where "od1 = od0\<lparr>so_eligible_quotes := so_eligible_quotes od0 + 1\<rparr>"
  define s1 where "s1 = put_order od1 s"
  note ok = orders_invD [OF assms(2,3)]
  have ag: "agrees od od1" "so_quantity od1 = so_quantity od" "is_live (so_status od1)"
    using assms(5-7) by (simp_all add: od1_def agrees_def)
  have 1: "bstep cfg g s s1" unfolding s1_def
    using ok(2) assms(4) ag by (intro touch [OF assms(3,4) ag(1)]) (auto simp: order_ok_def agrees_def may_resize_def)
  have g1: "dget (ss_orders s1) (so_broker_order_id od1) = Some od1" by (simp add: s1_def)
  note ok1 = orders_invD(2) [OF orders_inv_step [OF 1 assms(2)] g1]
  obtain ins where ins: "dget (sc_instruments cfg) (so_instrument_key od1) = Some ins"
    using assms(1) by (auto simp: work_order_def Let_def od1_def split: option.splits)
  then have pos: "0 < ins_tick_size ins" "0 < ins_lot_size ins" "schedule_ok (sc_costs cfg)"
    using assms(8) by (auto simp: config_ok_def dest!: dget_in_set)
  define want where "want = min (so_remaining od1) (max 0 liquidity)"
  define qty where "qty = want - want mod ins_lot_size ins"
  have "want \<le> so_remaining od1" by (simp add: want_def)
  then have q: "qty \<le> so_remaining od1" using pos_mod_sign [OF pos(2), of want] unfolding qty_def by linarith
  obtain s2 od2 ns2 f2 where
    e: "(if 0 < qty then execute cfg s1 od1 ins reference qty q else Inr (s1, od1, [], None)) = Inr (s2, od2, ns2, f2)"
    and t: "s' = (if so_order_type od2 = MARKET \<and> 0 < so_remaining od2 \<and> is_live (so_status od2)
                     \<and> max_fill_quotes (sc_fill cfg) \<le> so_eligible_quotes od2
                  then put_order (od2\<lparr>so_status := CANCELLED, so_updated_at := q_receipt_ts q, so_reserved := 0\<rparr>)
                    (s2\<lparr>ss_blocked := ss_blocked s2 - so_reserved od2\<rparr>) else s2)"
    using assms(1) ins
    unfolding work_order_def Let_def od1_def [symmetric] s1_def [symmetric] ins option.case
      want_def [symmetric] qty_def [symmetric]
    by (auto split: sum.splits if_splits)
  have 2: "bsteps cfg g s1 s2 \<and> dget (ss_orders s2) (so_broker_order_id od1) = Some od2
      \<and> so_broker_order_id od2 = so_broker_order_id od1"
  proof (cases "0 < qty")
    case True
    with e have "execute cfg s1 od1 ins reference qty q = Inr (s2, od2, ns2, f2)" by simp
    from execute_steps [OF this g1 ag(3) True q pos(1,3), of g] ok1 show ?thesis
      by (auto simp: order_ok_def)
  next
    case False
    with e g1 show ?thesis by simp
  qed
  have inv2: "orders_inv cfg s2" using orders_inv_steps 2 orders_inv_step [OF 1 assms(2)] by blast
  have "bsteps cfg g s2 s'"
  proof (cases "s' = s2")
    case False
    then have s': "is_live (so_status od2)" "s' = put_order (od2\<lparr>so_status := CANCELLED, so_updated_at := q_receipt_ts q,
        so_reserved := 0\<rparr>) (s2\<lparr>ss_blocked := ss_blocked s2 - so_reserved od2\<rparr>)"
      using t by (auto split: if_splits)
    have "order_ok od2" using orders_invD(2) [OF inv2] 2 by blast
    then have "bstep cfg g s2 s'" unfolding s'(2) using 2 s'(1)
      by (intro close [of s2 "so_broker_order_id od1" od2]) (auto simp: order_ok_def)
    then show ?thesis by blast
  qed simp
  with 1 2 show ?thesis by (meson converse_rtranclp_into_rtranclp rtranclp_trans)
qed

lemma finish_steps:
  assumes "orders_inv cfg s" "dget (ss_orders s) k = Some od" "is_live (so_status od)" "\<not> is_live st"
  shows "bsteps cfg g s (fst (finish st t od s))"
  using orders_invD(2) [OF assms(1,2)] assms(3,4)
  by (auto simp: order_ok_def intro!: close [OF assms(2,3)])

lemma match_order_steps:
  assumes "match_order cfg s od q liquidity = Inr (s', ns, f)"
    and "orders_inv cfg s" "dget (ss_orders s) k = Some od" "is_live (so_status od)" "config_ok cfg"
  shows "bsteps cfg g s s'"
proof -
  note fin = finish_steps [OF assms(2-4), of REJECTED g "q_receipt_ts q"]
  consider "s' = s" | "s' = fst (finish REJECTED (q_receipt_ts q) od s)"
    | od0 reference ns0 where "work_order cfg s od0 reference q liquidity = Inr (s', ns0, f)"
      "agrees od od0" "so_quantity od0 = so_quantity od" "is_live (so_status od0)"
    using assms(1,4) by (auto simp: match_order_def Let_def agrees_def split: if_splits option.splits sum.splits)
  then show ?thesis
  proof cases
    case 2
    with fin show ?thesis by simp
  next
    case 3
    from work_order_steps [OF 3(1) assms(2-4) 3(2-4) assms(5)] show ?thesis .
  qed simp
qed

lemma match_all_steps:
  assumes "match_all cfg q today ks liquidity s = Inr (s', ns, fs)" "orders_inv cfg s" "config_ok cfg"
  shows "bsteps cfg g s s'"
  using assms
proof (induction ks arbitrary: s liquidity ns fs)
  case (Cons k ks)
  obtain od where od: "dget (ss_orders s) k = Some od"
    using Cons.prems(1) by (auto split: option.splits)
  define m where "m = (if \<not> is_live (so_status od) then Inr (s, [], None)
         else if so_session_day od < today then
           (let (s', od') = finish EXPIRED (q_receipt_ts q) od s in Inr (s', [UpdateNotice (snapshot_of od')], None))
         else match_order cfg s od q liquidity)"
  have e: "match_all cfg q today (k # ks) liquidity s =
     (case m of Inl e \<Rightarrow> Inl e
      | Inr (s1, ns, f) \<Rightarrow>
          let used = (case f of None \<Rightarrow> 0 | Some x \<Rightarrow> f_quantity x)
          in (case match_all cfg q today ks (liquidity - used) s1 of
                Inl e \<Rightarrow> Inl e
              | Inr (s2, ns', fs) \<Rightarrow> Inr (s2, ns @ ns', (case f of None \<Rightarrow> fs | Some x \<Rightarrow> x # fs))))"
    by (simp only: match_all.simps od option.case m_def)
  obtain s1 ns1 f where m: "m = Inr (s1, ns1, f)" using Cons.prems(1) e by (cases m) auto
  have r: "\<exists>l ns2 fs2. match_all cfg q today ks l s1 = Inr (s', ns2, fs2)"
    using Cons.prems(1) unfolding e m by (auto simp: Let_def split: sum.splits)
  have 1: "bsteps cfg g s s1"
    using m [unfolded m_def] finish_steps [OF Cons.prems(2) od, of EXPIRED g "q_receipt_ts q"]
      match_order_steps [OF _ Cons.prems(2) od _ Cons.prems(3), of q liquidity s1 ns1 f g]
    by (auto split: if_splits)
  from r obtain l ns2 fs2 where "match_all cfg q today ks l s1 = Inr (s', ns2, fs2)" by blast
  from Cons.IH [OF this orders_inv_steps [OF 1 Cons.prems(2)] Cons.prems(3)] 1
  show ?case by (rule bsteps_trans [rotated])
qed simp

lemma data_step: "bstep cfg g s (s\<lparr>ss_volume := v, sb_quotes := qs\<rparr>)"
  by (rule data)

lemma on_quote_steps:
  assumes "on_quote cfg s q = Inr (s', ns, fs)" "orders_inv cfg s" "config_ok cfg"
  shows "bsteps cfg g s s'"
proof -
  let ?t = "ist_date (q_receipt_ts q)"
  obtain v qs l where m: "match_all cfg q ?t (orders_of ((settle ?t s)\<lparr>ss_volume := v, sb_quotes := qs\<rparr>)
      (q_instrument_key q)) l ((settle ?t s)\<lparr>ss_volume := v, sb_quotes := qs\<rparr>) = Inr (s', ns, fs)"
    using assms(1) by (auto simp: on_quote_def interval_volume_def Let_def split: prod.splits)
  have 1: "bsteps cfg g s ((settle ?t s)\<lparr>ss_volume := v, sb_quotes := qs\<rparr>)"
    using settles [of cfg g s ?t] data_step [where s = "settle ?t s" and v = v and qs = qs and cfg = cfg and g = g]
    by (meson converse_rtranclp_into_rtranclp r_into_rtranclp)
  from match_all_steps [OF m orders_inv_steps [OF 1 assms(2)] assms(3), of g] 1
  show ?thesis by (rule bsteps_trans [rotated])
qed

lemma buy_reservation_nonneg: "buy_reservation cfg p r n = Inr v \<Longrightarrow> schedule_ok (sc_costs cfg) \<Longrightarrow> 0 \<le> v"
  by (auto simp: buy_reservation_def Let_def split: sum.splits
      intro!: quantize_even_nonneg add_nonneg_nonneg dest: charges_Inr_nonneg charges_total_nonneg)

lemma validate_None:
  assumes "validate cfg s od now = None"
  obtains ins q where "dget (sc_instruments cfg) (i_key (o_intent od)) = Some ins"
    "dget (sb_quotes s) (ins_key ins) = Some q" "0 < o_quantity od"
    "i_product (o_intent od) = CNC \<longrightarrow> i_side (o_intent od) = SELL \<longrightarrow>
       o_quantity od \<le> held s (ins_key ins) - pending_sells s (ins_key ins)"
    "o_quantity od mod ins_lot_size ins = 0" "is_market_open (sc_calendar cfg) now = Inr True"
    "supports (sc_caps cfg) (i_order_type (o_intent od)) (i_product (o_intent od)) (i_validity (o_intent od))"
  using assms
  by (auto simp: validate_def Let_def split: if_splits option.splits sum.splits bool.splits py_error.splits)

lemma place_order_steps:
  assumes "config_ok cfg"
  shows "bsteps cfg g s (fst (place_order cfg s od now))"
proof (cases "fst (place_order cfg s od now) = s")
  case False
  then have nf: "find_order s (o_client_order_id od) = None" and v: "validate cfg s od now = None"
    by (auto simp: place_order_def split: option.splits)
  obtain ins q where iq: "dget (sc_instruments cfg) (i_key (o_intent od)) = Some ins"
    "dget (sb_quotes s) (ins_key ins) = Some q" "0 < o_quantity od"
    and short: "i_product (o_intent od) = CNC \<longrightarrow> i_side (o_intent od) = SELL \<longrightarrow>
       o_quantity od \<le> held s (ins_key ins) - pending_sells s (ins_key ins)"
    by (rule validate_None [OF v]) blast
  obtain rv where p: "fst (place_order cfg s od now) = fst (accept_order cfg s od (ins_key ins) rv now)"
    and rv: "i_side (o_intent od) = SELL \<Longrightarrow> rv = 0" "rv \<le> available s \<or> rv = 0"
      "rv = 0 \<or> (\<exists>r. buy_reservation cfg (i_product (o_intent od)) r (o_quantity od) = Inr rv)"
  proof (cases "i_side (o_intent od)")
    case BUY
    with False nf v iq obtain rv where "buy_reservation cfg (i_product (o_intent od)) (dec_of_float (q_ltp q))
        (o_quantity od) = Inr rv" "\<not> available s < rv"
      "fst (place_order cfg s od now) = fst (accept_order cfg s od (ins_key ins) rv now)"
      by (auto simp: place_order_def split: sum.splits if_splits)
    with BUY that [of rv] show ?thesis by auto
  next
    case SELL
    with False nf v iq that [of 0] show ?thesis by (auto simp: place_order_def)
  qed
  have "schedule_ok (sc_costs cfg)" using assms by (simp add: config_ok_def)
  with rv(3) have "0 \<le> rv" by (auto dest: buy_reservation_nonneg)
  then have "bstep cfg g s (fst (accept_order cfg s od (ins_key ins) rv now))"
    by (rule accept [OF iq(3) _ rv(2)]) (use rv(1) short nf in blast)+
  then show ?thesis unfolding p by (rule r_into_rtranclp)
qed simp

lemma modify_order_steps:
  assumes "orders_inv cfg s"
    and "g \<or> (\<forall>n od. qty = Some n \<longrightarrow> dget (ss_orders s) k = Some od \<longrightarrow> cnc_sell od \<longrightarrow> n \<le> so_quantity od)"
  shows "bsteps cfg g s (fst (modify_order cfg s k qty price trigger now))"
proof (cases "fst (modify_order cfg s k qty price trigger now) = s")
  case False
  then obtain od ins od1 where od: "dget (ss_orders s) k = Some od" "is_live (so_status od)"
    and ins: "dget (sc_instruments cfg) (so_instrument_key od) = Some ins" "price = None"
    and od1: "modify_trigger ins od trigger = Inr od1"
    by (auto simp: modify_order_def split: option.splits if_splits sum.splits)
  have ag: "agrees od od1" "so_quantity od1 = so_quantity od" "so_status od1 = so_status od"
    using od1 by (auto simp: modify_trigger_def agrees_def split: option.splits if_splits)
  note ok = orders_invD(2) [OF assms(1) od(1)]
  define od3 where "od3 = (case qty of None \<Rightarrow> od1 | Some n \<Rightarrow> od1\<lparr>so_quantity := n\<rparr>)\<lparr>so_updated_at := now\<rparr>"
  have ag3: "agrees od od3" "is_live (so_status od3)"
    using ag od by (auto simp: od3_def agrees_def split: option.splits)
  have f: "fst (modify_order cfg s k qty price trigger now) =
    (if (case qty of None \<Rightarrow> False | Some n \<Rightarrow> n < so_filled_qty od1 \<or> n \<le> 0 \<or> n mod ins_lot_size ins \<noteq> 0)
     then put_order od1 s
     else if so_remaining od3 = 0
     then put_order (od3\<lparr>so_status := FILLED, so_updated_at := now, so_reserved := 0\<rparr>)
       (s\<lparr>ss_blocked := ss_blocked s - so_reserved od3\<rparr>)
     else put_order od3 s)"
    using od ins od1 unfolding od3_def by (auto simp: modify_order_def Let_def split: option.splits)
  show ?thesis
  proof (cases "case qty of None \<Rightarrow> False | Some n \<Rightarrow> n < so_filled_qty od1 \<or> n \<le> 0 \<or> n mod ins_lot_size ins \<noteq> 0")
    case True
    have "bstep cfg g s (put_order od1 s)"
      using ok od ag by (intro touch [OF od ag(1)]) (auto simp: order_ok_def agrees_def may_resize_def)
    with True f show ?thesis by simp
  next
    case valid: False
    have q3: "so_filled_qty od3 \<le> so_quantity od3" "0 < so_quantity od3" "may_resize g od od3"
      using valid ok od ag assms(2)
      by (auto simp: od3_def order_ok_def agrees_def may_resize_def split: option.splits)
    show ?thesis
    proof (cases "so_remaining od3 = 0")
      case True
      have "bstep cfg g s (put_order (od3\<lparr>so_status := FILLED, so_updated_at := now, so_reserved := 0\<rparr>)
          (s\<lparr>ss_blocked := ss_blocked s - so_reserved od3\<rparr>))"
        using q3 by (intro close [OF od ag3(1)]) auto
      with True valid f show ?thesis by simp
    next
      case False
      have "bstep cfg g s (put_order od3 s)"
        using q3 ag3 False by (intro touch [OF od ag3]) (auto simp: so_remaining_def)
      with False valid f show ?thesis by simp
    qed
  qed
qed simp

lemma cancel_order_steps:
  assumes "orders_inv cfg s"
  shows "bsteps cfg g s (fst (cancel_order s k now))"
  using finish_steps [OF assms, of k _ CANCELLED g now]
  by (auto simp: cancel_order_def split: option.splits)

lemma expire_orders_steps:
  assumes "orders_inv cfg s"
  shows "bsteps cfg g s (fst (expire_orders ks now s))"
  using assms
proof (induction ks arbitrary: s)
  case (Cons k ks)
  show ?case
  proof (cases "\<exists>od. dget (ss_orders s) k = Some od \<and> is_live (so_status od)")
    case True
    then obtain od where od: "dget (ss_orders s) k = Some od" "is_live (so_status od)" by blast
    have 1: "bsteps cfg g s (fst (finish EXPIRED now od s))" by (rule finish_steps [OF Cons.prems od]) simp
    from Cons.IH [OF orders_inv_steps [OF 1 Cons.prems]] 1 od show ?thesis
      by (auto simp: case_prod_unfold Let_def intro: bsteps_trans)
  next
    case False
    with Cons show ?thesis by (auto split: option.splits)
  qed
qed simp

end
