(* ===== verification/Sim_Broker_Inv.thy ===== *)
theory Sim_Broker_Inv
  imports Sim_Broker_Steps
begin

section \<open>Invariants of the simulated broker\<close>

text \<open>
  What every elementary step keeps: the money ledger, the positions as the sum of the fills, fill
  ids that are never reused, the client-order tags, delivery sells covered by holdings, and the
  available cash. The properties of the broker follow for every sequence of public operations.
\<close>

subsection \<open>What a step does to the ledger\<close>

lemma book_fill_fills:
  "ss_fills (fst (book_fill cfg s od qty price charge t)) =
     ss_fills s @ [sim_fill cfg (od\<lparr>so_fill_count := so_fill_count od + 1\<rparr>) qty price charge t]"
  by (auto simp: book_fill_def Let_def put_order_def sim_fill_def)

lemma book_fill_positions:
  "ss_positions (fst (book_fill cfg s od qty price charge t)) =
     dset (so_instrument_key od, so_product od)
       (apply_position (pos_of s (so_instrument_key od, so_product od)) (so_side od) qty price charge t)
       (ss_positions s)"
  by (auto simp: book_fill_def Let_def put_order_def)

lemma put_order_frame [simp]:
  "ss_fills (put_order od s) = ss_fills s" "ss_positions (put_order od s) = ss_positions s"
  "ss_cash (put_order od s) = ss_cash s" "ss_unsettled (put_order od s) = ss_unsettled s"
  "ss_blocked (put_order od s) = ss_blocked s" "sb_by_tag (put_order od s) = sb_by_tag s"
  "ss_orders (put_order od s) = dset (so_broker_order_id od) od (ss_orders s)"
  by (simp_all add: put_order_def)

lemma accept_order_frame [simp]:
  "ss_fills (fst (accept_order cfg s od ik rv now)) = ss_fills s"
  "ss_positions (fst (accept_order cfg s od ik rv now)) = ss_positions s"
  "ss_cash (fst (accept_order cfg s od ik rv now)) = ss_cash s"
  "ss_unsettled (fst (accept_order cfg s od ik rv now)) = ss_unsettled s"
  "ss_blocked (fst (accept_order cfg s od ik rv now)) = ss_blocked s + rv"
  "sb_by_tag (fst (accept_order cfg s od ik rv now)) =
     dset (o_client_order_id od) (sim_order_id cfg (ss_next_order s)) (sb_by_tag s)"
  "ss_orders (fst (accept_order cfg s od ik rv now)) =
     dset (sim_order_id cfg (ss_next_order s)) (new_sim_order cfg s od ik rv now) (ss_orders s)"
  by (simp_all add: accept_order_def Let_def)

lemma pos_of_simps [simp]:
  "pos_of (put_order od s) = pos_of s" "pos_of (settle d s) = pos_of s"
  "pos_of (fst (accept_order cfg s or1 ik rv now)) = pos_of s"
  "pos_of (s\<lparr>ss_blocked := b\<rparr>) = pos_of s" "pos_of (s\<lparr>ss_cash := c\<rparr>) = pos_of s"
  "pos_of (s\<lparr>ss_unsettled := u\<rparr>) = pos_of s" "pos_of (s\<lparr>ss_dp_days := dp\<rparr>) = pos_of s"
  "pos_of (s\<lparr>ss_volume := v\<rparr>) = pos_of s" "pos_of (s\<lparr>sb_quotes := q\<rparr>) = pos_of s"
  by (simp_all add: pos_of_def fun_eq_iff)

text \<open>All money the broker keeps: settled cash and sale proceeds still to settle.\<close>

definition money :: "sim_broker \<Rightarrow> rat" where
  "money s = ss_cash s + sum_list (map snd (ss_unsettled s))"

lemma cash_flow_sim_fill [simp]:
  "cash_flow (sim_fill cfg od qty price charge t) =
     - of_int (side_sign (so_side od)) * (price * of_int qty) - charge"
  by (simp add: cash_flow_def fill_notional_def sim_fill_def)

lemma money_step:
  "bstep cfg g s s' \<Longrightarrow> money s' - sum_list (map cash_flow (ss_fills s')) = money s - sum_list (map cash_flow (ss_fills s))"
  by (induction rule: bstep.induct)
     (simp_all add: money_def book_fill_fills book_fill_frame settle_total)

lemma apply_position_quantity:
  assumes "0 < qty"
  shows "sp_quantity (apply_position p s qty price charge t) = sp_quantity p + side_sign s * qty"
  using assms by (cases s) (auto simp: apply_position_def Let_def)

text \<open>The fills as calls of a position book, with the product of the order each belongs to.\<close>

definition fill_product :: "sim_broker \<Rightarrow> fill \<Rightarrow> product" where
  "fill_product s f =
     (case f_broker_order_id f of
        None \<Rightarrow> MIS
      | Some k \<Rightarrow> (case dget (ss_orders s) k of None \<Rightarrow> MIS | Some od \<Rightarrow> so_product od))"

definition broker_calls :: "sim_broker \<Rightarrow> fill_call list" where
  "broker_calls s = map (\<lambda>f. (f, fill_product s f, '''', '''')) (ss_fills s)"

definition fills_inv :: "sim_config \<Rightarrow> sim_broker \<Rightarrow> bool" where
  "fills_inv cfg s =
     (distinct (map f_fill_id (ss_fills s))
      \<and> (\<forall>f \<in> set (ss_fills s). fill_valid f \<and> f_book_id f = sc_book_id cfg
          \<and> (\<exists>k od j. f_broker_order_id f = Some k \<and> dget (ss_orders s) k = Some od
                \<and> f_fill_id f = k @ ''-F'' @ nat_str j \<and> j \<le> so_fill_count od)))"

definition positions_inv :: "sim_broker \<Rightarrow> bool" where
  "positions_inv s =
     (\<forall>ik pr. sp_quantity (pos_of s (ik, pr)) = sum_list (map (signed_qty ik pr) (broker_calls s)))"

text \<open>Orders are never dropped, and keep their product and client id.\<close>

definition keeps :: "sim_broker \<Rightarrow> sim_broker \<Rightarrow> bool" where
  "keeps s s' =
     (\<forall>k od. dget (ss_orders s) k = Some od \<longrightarrow>
        (\<exists>od'. dget (ss_orders s') k = Some od' \<and> so_product od' = so_product od
           \<and> so_client_order_id od' = so_client_order_id od
           \<and> so_instrument_key od' = so_instrument_key od \<and> so_fill_count od \<le> so_fill_count od'))"

lemma keeps_dset:
  assumes "dget (ss_orders s) k = Some od" "so_broker_order_id od = k"
    and "so_product od' = so_product od" "so_client_order_id od' = so_client_order_id od"
    and "so_instrument_key od' = so_instrument_key od" "so_fill_count od \<le> so_fill_count od'"
    and "ss_orders s' = dset k od' (ss_orders s)"
  shows "keeps s s'"
  using assms by (auto simp: keeps_def dget_dset)

lemma keeps_step: "bstep cfg g s s' \<Longrightarrow> orders_inv cfg s \<Longrightarrow> keeps s s'"
proof (induction rule: bstep.induct)
  case (touch s k od od')
  then show ?case using orders_invD(1) [OF touch.prems touch.hyps(1)]
    by (intro keeps_dset [OF touch.hyps(1)]) (auto simp: agrees_def)
next
  case (close s k od od' st t)
  then show ?case using orders_invD(1) [OF close.prems close.hyps(1)]
    by (intro keeps_dset [OF close.hyps(1)]) (auto simp: agrees_def)
next
  case (buy s k od qty price charge release t)
  then show ?case using orders_invD(1) [OF buy.prems buy.hyps(1)]
    by (intro keeps_dset [OF buy.hyps(1)]) (auto simp: book_fill_orders)
next
  case (sell_now s k od qty price charge dps t)
  then show ?case using orders_invD(1) [OF sell_now.prems sell_now.hyps(1)]
    by (intro keeps_dset [OF sell_now.hyps(1)]) (auto simp: book_fill_orders)
next
  case (sell_later s k od qty price charge d dps t)
  then show ?case using orders_invD(1) [OF sell_later.prems sell_later.hyps(1)]
    by (intro keeps_dset [OF sell_later.hyps(1)]) (auto simp: book_fill_orders)
next
  case (accept od reserved s ik now)
  then show ?case using fresh_order_id [OF accept.prems] by (auto simp: keeps_def dget_dset)
qed (auto simp: keeps_def)

lemma broker_calls_keeps:
  assumes "keeps s s'" "fills_inv cfg s" "ss_fills s' = ss_fills s @ fs"
  shows "broker_calls s' = broker_calls s @ map (\<lambda>f. (f, fill_product s' f, '''', '''')) fs"
proof -
  have "fill_product s' f = fill_product s f" if "f \<in> set (ss_fills s)" for f
    using assms(1,2) that by (fastforce simp: fills_inv_def keeps_def fill_product_def)
  with assms(3) show ?thesis by (simp add: broker_calls_def)
qed

subsection \<open>Fill ids\<close>

lemma nat_str_no_F: "CHR ''F'' \<notin> set (nat_str n)"
proof (induction n rule: nat_str.induct)
  case (1 n)
  have d: "CHR ''F'' \<noteq> char_of (48 + m)" if "m < 10" for m :: nat
  proof
    assume "CHR ''F'' = (char_of (48 + m) :: char)"
    then have "of_char (CHR ''F'') = (of_char (char_of (48 + m) :: char) :: nat)" by simp
    with that show False by simp
  qed
  then show ?case using 1 by (auto simp: nat_str.simps [of n])
qed

lemma split_last_F:
  assumes "x @ CHR ''F'' # d = y @ CHR ''F'' # e" "CHR ''F'' \<notin> set d" "CHR ''F'' \<notin> set e"
  shows "x = y \<and> d = e"
  using assms
proof (induction x arbitrary: y)
  case Nil
  then show ?case by (cases y) auto
next
  case (Cons c x)
  then show ?case by (cases y) auto
qed

lemma fill_id_inject: "k @ ''-F'' @ nat_str i = l @ ''-F'' @ nat_str j \<longleftrightarrow> k = l \<and> i = j"
  using split_last_F [of "k @ ''-''" "nat_str i" "l @ ''-''" "nat_str j"] nat_str_no_F by auto

lemma fills_inv_keeps:
  assumes "fills_inv cfg s" "keeps s s'" "ss_fills s' = ss_fills s"
  shows "fills_inv cfg s'"
proof -
  have "\<exists>k od j. f_broker_order_id f = Some k \<and> dget (ss_orders s') k = Some od
      \<and> f_fill_id f = k @ ''-F'' @ nat_str j \<and> j \<le> so_fill_count od" if "f \<in> set (ss_fills s)" for f
  proof -
    obtain k od j where f: "f_broker_order_id f = Some k" "dget (ss_orders s) k = Some od"
      "f_fill_id f = k @ ''-F'' @ nat_str j" "j \<le> so_fill_count od"
      using assms(1) \<open>f \<in> set (ss_fills s)\<close> unfolding fills_inv_def by blast
    moreover obtain od' where "dget (ss_orders s') k = Some od'" "so_fill_count od \<le> so_fill_count od'"
      using assms(2) f(2) unfolding keeps_def by blast
    ultimately show ?thesis using le_trans by blast
  qed
  with assms(1,3) show ?thesis by (auto simp: fills_inv_def)
qed

lemma fills_inv_fill:
  assumes "fills_inv cfg s" "orders_inv cfg s" "dget (ss_orders s) k = Some od" "0 < qty" "0 < price" "0 \<le> charge"
    and "so_broker_order_id od1 = so_broker_order_id od" "so_fill_count od1 = so_fill_count od"
    and "ss_orders s1 = ss_orders s" "ss_fills s1 = ss_fills s"
    and "keeps s (fst (book_fill cfg s1 od1 qty price charge t))"
  shows "fills_inv cfg (fst (book_fill cfg s1 od1 qty price charge t))"
proof -
  let ?f = "sim_fill cfg (od1\<lparr>so_fill_count := so_fill_count od1 + 1\<rparr>) qty price charge t"
  let ?s = "fst (book_fill cfg s1 od1 qty price charge t)"
  have k: "k = so_broker_order_id od" by (rule orders_invD(1) [OF assms(2,3)])
  have fid: "f_fill_id ?f = k @ ''-F'' @ nat_str (so_fill_count od + 1)" "f_broker_order_id ?f = Some k"
    using assms(7,8) k by (simp_all add: sim_fill_def)
  have fresh: "f_fill_id g \<noteq> f_fill_id ?f" if g: "g \<in> set (ss_fills s)" for g
  proof -
    obtain l od' j where "dget (ss_orders s) l = Some od'" "f_fill_id g = l @ ''-F'' @ nat_str j" "j \<le> so_fill_count od'"
      using assms(1) g unfolding fills_inv_def by blast
    then show ?thesis using fid(1) assms(3) fill_id_inject by (metis Suc_eq_plus1 Suc_n_not_le_n option.inject)
  qed
  have new: "dget (ss_orders ?s) k = Some (filled_order od1 qty price t)"
    using k assms(7) by (simp add: book_fill_orders)
  have "keeps s (?s\<lparr>ss_fills := ss_fills s\<rparr>)" using assms(11) unfolding keeps_def by simp
  then have "fills_inv cfg (?s\<lparr>ss_fills := ss_fills s\<rparr>)"
    by (rule fills_inv_keeps [OF assms(1)]) simp
  then have old: "distinct (map f_fill_id (ss_fills s))"
    "\<forall>f \<in> set (ss_fills s). fill_valid f \<and> f_book_id f = sc_book_id cfg
          \<and> (\<exists>k od j. f_broker_order_id f = Some k \<and> dget (ss_orders ?s) k = Some od
                \<and> f_fill_id f = k @ ''-F'' @ nat_str j \<and> j \<le> so_fill_count od)"
    by (simp_all add: fills_inv_def)
  have valid: "fill_valid ?f" "f_book_id ?f = sc_book_id cfg"
    using assms(4-6) by (simp_all add: fill_valid_def sim_fill_def)
  have "so_fill_count od + 1 \<le> so_fill_count (filled_order od1 qty price t)" using assms(8) by simp
  with fid new have "\<exists>k od j. f_broker_order_id ?f = Some k \<and> dget (ss_orders ?s) k = Some od
      \<and> f_fill_id ?f = k @ ''-F'' @ nat_str j \<and> j \<le> so_fill_count od" by blast
  with old valid fresh show ?thesis
    unfolding fills_inv_def book_fill_fills assms(10) by (auto simp: image_iff)
qed

lemma fills_inv_step:
  "bstep cfg g s s' \<Longrightarrow> orders_inv cfg s \<Longrightarrow> fills_inv cfg s \<Longrightarrow> fills_inv cfg s'"
proof -
  assume st: "bstep cfg g s s'" and inv: "orders_inv cfg s" "fills_inv cfg s"
  note keep = keeps_step [OF st inv(1)]
  from st inv keep show ?thesis
  proof (cases rule: bstep.cases)
    case (buy k od qty price charge release t)
    then show ?thesis using inv keep by (auto intro!: fills_inv_fill [OF inv(2,1) buy(2)])
  next
    case (sell_now k od qty price charge dps t)
    then show ?thesis using inv keep by (auto intro!: fills_inv_fill [OF inv(2,1) sell_now(2)])
  next
    case (sell_later k od qty price charge d dps t)
    then show ?thesis using inv keep by (auto intro!: fills_inv_fill [OF inv(2,1) sell_later(2)])
  qed (auto intro: fills_inv_keeps)
qed

subsection \<open>Positions\<close>

lemma pos_of_book_fill:
  assumes "0 < qty"
  shows "sp_quantity (pos_of (fst (book_fill cfg s od qty price charge t)) (ik, pr)) =
    sp_quantity (pos_of s (ik, pr))
    + (if ik = so_instrument_key od \<and> pr = so_product od then side_sign (so_side od) * qty else 0)"
proof -
  let ?k = "(so_instrument_key od, so_product od)"
  have "pos_of (fst (book_fill cfg s od qty price charge t)) (ik, pr) =
    (if (ik, pr) = ?k then apply_position (pos_of s ?k) (so_side od) qty price charge t else pos_of s (ik, pr))"
    by (auto simp: pos_of_def dget_or_def book_fill_positions dget_dset)
  with apply_position_quantity [OF assms] show ?thesis by auto
qed

lemma positions_inv_fill:
  assumes "positions_inv s" "fills_inv cfg s" "orders_inv cfg s" "dget (ss_orders s) k = Some od" "0 < qty"
    and "so_broker_order_id od1 = so_broker_order_id od" "so_instrument_key od1 = so_instrument_key od"
    and "so_product od1 = so_product od" "so_side od1 = so_side od"
    and "ss_fills s1 = ss_fills s" "pos_of s1 = pos_of s"
    and "keeps s (fst (book_fill cfg s1 od1 qty price charge t))"
  shows "positions_inv (fst (book_fill cfg s1 od1 qty price charge t))"
proof -
  let ?f = "sim_fill cfg (od1\<lparr>so_fill_count := so_fill_count od1 + 1\<rparr>) qty price charge t"
  let ?s = "fst (book_fill cfg s1 od1 qty price charge t)"
  have "fill_product ?s ?f = so_product od1"
    by (simp add: fill_product_def sim_fill_def book_fill_orders)
  then have "broker_calls ?s = broker_calls s @ [(?f, so_product od1, '''', '''')]"
    using broker_calls_keeps [OF assms(12,2), of "[?f]"] by (simp add: book_fill_fills assms(10))
  then show ?thesis using assms(1)
    by (auto simp: positions_inv_def pos_of_book_fill [OF assms(5)] assms(11) signed_qty_def sim_fill_def)
qed

lemma positions_inv_keeps:
  assumes "positions_inv s" "fills_inv cfg s" "keeps s s'" "ss_fills s' = ss_fills s" "pos_of s' = pos_of s"
  shows "positions_inv s'"
  using broker_calls_keeps [OF assms(3,2), of "[]"] assms by (simp add: positions_inv_def)

lemma positions_inv_step:
  "bstep cfg g s s' \<Longrightarrow> orders_inv cfg s \<Longrightarrow> fills_inv cfg s \<Longrightarrow> positions_inv s \<Longrightarrow> positions_inv s'"
proof -
  assume st: "bstep cfg g s s'" and inv: "orders_inv cfg s" "fills_inv cfg s" "positions_inv s"
  note keep = keeps_step [OF st inv(1)]
  from st inv keep show ?thesis
  proof (cases rule: bstep.cases)
    case (buy k od qty price charge release t)
    then show ?thesis using inv keep by (auto intro!: positions_inv_fill [OF inv(3,2,1) buy(2)])
  next
    case (sell_now k od qty price charge dps t)
    then show ?thesis using inv keep by (auto intro!: positions_inv_fill [OF inv(3,2,1) sell_now(2)])
  next
    case (sell_later k od qty price charge d dps t)
    then show ?thesis using inv keep by (auto intro!: positions_inv_fill [OF inv(3,2,1) sell_later(2)])
  qed (auto intro: positions_inv_keeps)
qed

subsection \<open>Client order tags\<close>

definition tags_inv :: "sim_broker \<Rightarrow> bool" where
  "tags_inv s =
     ((\<forall>c k. dget (sb_by_tag s) c = Some k \<longrightarrow> (\<exists>od. dget (ss_orders s) k = Some od \<and> so_client_order_id od = c))
      \<and> (\<forall>k od. dget (ss_orders s) k = Some od \<longrightarrow> dget (sb_by_tag s) (so_client_order_id od) = Some k))"

lemma tags_inv_dset:
  assumes "tags_inv s" "dget (ss_orders s) k = Some od" "so_client_order_id od' = so_client_order_id od"
    and "ss_orders s' = dset k od' (ss_orders s)" "sb_by_tag s' = sb_by_tag s"
  shows "tags_inv s'"
  using assms by (fastforce simp: tags_inv_def dget_dset)

lemma tags_inv_step: "bstep cfg g s s' \<Longrightarrow> orders_inv cfg s \<Longrightarrow> tags_inv s \<Longrightarrow> tags_inv s'"
proof (induction rule: bstep.induct)
  case (touch s k od od')
  then show ?case using orders_invD(1) [OF touch.prems(1) touch.hyps(1)]
    by (intro tags_inv_dset [OF touch.prems(2) touch.hyps(1)]) (auto simp: agrees_def)
next
  case (close s k od od' st t)
  then show ?case using orders_invD(1) [OF close.prems(1) close.hyps(1)]
    by (intro tags_inv_dset [OF close.prems(2) close.hyps(1)]) (auto simp: agrees_def)
next
  case (buy s k od qty price charge release t)
  then show ?case using orders_invD(1) [OF buy.prems(1) buy.hyps(1)]
    by (intro tags_inv_dset [OF buy.prems(2) buy.hyps(1)]) (auto simp: book_fill_orders book_fill_frame)
next
  case (sell_now s k od qty price charge dps t)
  then show ?case using orders_invD(1) [OF sell_now.prems(1) sell_now.hyps(1)]
    by (intro tags_inv_dset [OF sell_now.prems(2) sell_now.hyps(1)]) (auto simp: book_fill_orders book_fill_frame)
next
  case (sell_later s k od qty price charge d dps t)
  then show ?case using orders_invD(1) [OF sell_later.prems(1) sell_later.hyps(1)]
    by (intro tags_inv_dset [OF sell_later.prems(2) sell_later.hyps(1)]) (auto simp: book_fill_orders book_fill_frame)
next
  case (accept od reserved s ik now)
  let ?k = "sim_order_id cfg (ss_next_order s)"
  have none: "dget (sb_by_tag s) (o_client_order_id od) = None"
    using accept.hyps(6) accept.prems(2) by (fastforce simp: find_order_def tags_inv_def split: option.splits)
  have "dget (sb_by_tag s) c \<noteq> Some ?k" for c
    using fresh_order_id [OF accept.prems(1)] accept.prems(2) by (fastforce simp: tags_inv_def)
  then show ?case using accept.prems(2) none
    by (auto simp: tags_inv_def dget_dset)
qed (auto simp: tags_inv_def)

subsection \<open>Delivery sells and holdings\<close>

definition pending_of :: "string \<Rightarrow> sim_order \<Rightarrow> int" where
  "pending_of ik od =
     (if so_instrument_key od = ik \<and> so_product od = CNC \<and> so_side od = SELL \<and> is_live (so_status od)
      then so_remaining od else 0)"

lemma pending_sells_dsum: "pending_sells s ik = dsum (\<lambda>k od. pending_of ik od) (ss_orders s)"
  by (simp add: pending_sells_def pending_of_def)

definition covered_inv :: "sim_broker \<Rightarrow> bool" where
  "covered_inv s = (\<forall>ik. pending_sells s ik \<le> sp_quantity (pos_of s (ik, CNC)))"

lemma pending_sells_dset:
  assumes "dget (ss_orders s) k = Some od" "ss_orders s' = dset k od' (ss_orders s)"
  shows "pending_sells s' ik = pending_sells s ik - pending_of ik od + pending_of ik od'"
  using assms by (simp add: pending_sells_dsum dsum_dset)

lemma pending_sells_nonneg: "orders_inv cfg s \<Longrightarrow> 0 \<le> pending_sells s ik"
  unfolding pending_sells_dsum
  by (intro dsum_nonneg) (auto simp: orders_inv_def pending_of_def so_remaining_def order_ok_def)

lemma held_covered:
  assumes "orders_inv cfg s" "covered_inv s"
  shows "held s ik = sp_quantity (pos_of s (ik, CNC))"
proof -
  have "0 \<le> sp_quantity (pos_of s (ik, CNC))"
    using pending_sells_nonneg [OF assms(1), of ik] assms(2) by (auto simp: covered_inv_def intro: order_trans)
  then show ?thesis
    by (auto simp: held_def pos_of_def dget_or_def flat_position_def split: option.splits)
qed

lemma covered_fill:
  assumes "covered_inv s" "orders_inv cfg s" "dget (ss_orders s) k = Some od" "is_live (so_status od)"
    and "0 < qty" "qty \<le> so_remaining od" "od1 = od\<lparr>so_reserved := rv\<rparr>"
    and "ss_orders s1 = ss_orders s" "pos_of s1 = pos_of s"
  shows "covered_inv (fst (book_fill cfg s1 od1 qty price charge t))"
proof -
  let ?s = "fst (book_fill cfg s1 od1 qty price charge t)"
  have k: "k = so_broker_order_id od" by (rule orders_invD(1) [OF assms(2,3)])
  have "pending_sells ?s ik \<le> sp_quantity (pos_of ?s (ik, CNC))" for ik
  proof -
    have p: "pending_sells ?s ik = pending_sells s ik - pending_of ik od + pending_of ik (filled_order od1 qty price t)"
      using k assms(7,8) by (intro pending_sells_dset [OF assms(3)]) (simp add: book_fill_orders)
    have le: "pending_sells s ik \<le> sp_quantity (pos_of s (ik, CNC))" using assms(1) by (simp add: covered_inv_def)
    have r: "so_remaining (filled_order od1 qty price t) = so_remaining od - qty" "so_remaining od1 = so_remaining od"
      using assms(7) by (simp_all add: so_remaining_def)
    show ?thesis unfolding p pos_of_book_fill [OF assms(5)] assms(9)
      using le r assms(4-7) by (cases "so_side od") (auto simp: pending_of_def)
  qed
  then show ?thesis by (simp add: covered_inv_def)
qed

lemma covered_inv_step: "bstep cfg False s s' \<Longrightarrow> orders_inv cfg s \<Longrightarrow> covered_inv s \<Longrightarrow> covered_inv s'"
proof (induction rule: bstep.induct)
  case (touch s k od od')
  have k: "k = so_broker_order_id od" by (rule orders_invD(1) [OF touch.prems(1) touch.hyps(1)])
  have "pending_sells (put_order od' s) ik \<le> pending_sells s ik" for ik
    using touch.hyps(2-4,6) k pending_sells_dset [OF touch.hyps(1), of "put_order od' s" od' ik]
    by (auto simp: agrees_def pending_of_def so_remaining_def may_resize_def cnc_sell_def)
  then show ?case using touch.prems(2) by (auto simp: covered_inv_def intro: order_trans)
next
  case (close s k od od' st t)
  let ?od = "od'\<lparr>so_status := st, so_updated_at := t, so_reserved := 0\<rparr>"
  let ?s = "put_order ?od (s\<lparr>ss_blocked := ss_blocked s - so_reserved od'\<rparr>)"
  have k: "k = so_broker_order_id od" by (rule orders_invD(1) [OF close.prems(1) close.hyps(1)])
  have "0 \<le> pending_of ik od" for ik
    using orders_invD(2) [OF close.prems(1) close.hyps(1)] by (auto simp: pending_of_def so_remaining_def order_ok_def)
  then have "pending_sells ?s ik \<le> pending_sells s ik" for ik
    using close.hyps(3,6) k pending_sells_dset [OF close.hyps(1), of ?s ?od ik]
    by (auto simp: agrees_def pending_of_def)
  then show ?case using close.prems(2) by (auto simp: covered_inv_def intro: order_trans)
next
  case (buy s k od qty price charge release t)
  show ?case by (rule covered_fill [OF buy.prems(2,1) buy.hyps(1,2,4,5) refl]) simp_all
next
  case (sell_now s k od qty price charge dps t)
  show ?case by (rule covered_fill [OF sell_now.prems(2,1) sell_now.hyps(1,2,4,5), of _ "so_reserved od"]) simp_all
next
  case (sell_later s k od qty price charge d dps t)
  show ?case by (rule covered_fill [OF sell_later.prems(2,1) sell_later.hyps(1,2,4,5), of _ "so_reserved od"]) simp_all
next
  case (accept od reserved s ik now)
  let ?so = "new_sim_order cfg s od ik reserved now"
  let ?s = "fst (accept_order cfg s od ik reserved now)"
  have "pending_sells ?s jk = pending_sells s jk + pending_of jk ?so" for jk
    using fresh_order_id [OF accept.prems(1)] by (simp add: pending_sells_dsum dsum_dset)
  moreover have "pending_sells s jk + pending_of jk ?so \<le> sp_quantity (pos_of s (jk, CNC))" for jk
    using accept.hyps(5) accept.prems(2) held_covered [OF accept.prems]
    by (auto simp: covered_inv_def pending_of_def so_remaining_def)
  ultimately show ?case by (simp add: covered_inv_def)
qed (auto simp: covered_inv_def pending_sells_dsum)

subsection \<open>Available cash\<close>

text \<open>A sale never costs more than it brings in. The one way the available cash can shrink below
  zero is a sale whose charges exceed its notional.\<close>

definition sales_pay :: "sim_broker \<Rightarrow> bool" where
  "sales_pay s = (\<forall>f \<in> set (ss_fills s). f_side f = SELL \<longrightarrow> f_charges f \<le> fill_notional f)"

definition solvent :: "sim_broker \<Rightarrow> bool" where
  "solvent s = (0 \<le> available s \<and> (\<forall>(d, a) \<in> set (ss_unsettled s). 0 \<le> a))"

lemma solvent_fill_sell:
  assumes "sales_pay (fst (book_fill cfg s od qty price charge t))" "so_side od = SELL"
  shows "0 \<le> price * of_int qty - charge"
  using assms by (auto simp: sales_pay_def book_fill_fills sim_fill_def fill_notional_def)

lemma settle_solvent: "solvent s \<Longrightarrow> solvent (settle today s)"
proof -
  assume a: "solvent s"
  have "0 \<le> sum_list (map snd (filter (\<lambda>(d, a). d \<le> today) (ss_unsettled s)))"
    using a by (intro sum_list_nonneg) (auto simp: solvent_def)
  with a show ?thesis by (auto simp: solvent_def settle_def Let_def available_def)
qed

lemma solvent_step:
  "bstep cfg g s s' \<Longrightarrow> orders_inv cfg s \<Longrightarrow> sales_pay s' \<Longrightarrow> solvent s \<Longrightarrow> solvent s'"
proof (induction rule: bstep.induct)
  case (close s k od od' st t)
  have "0 \<le> so_reserved od'"
    using orders_invD(2) [OF close.prems(1) close.hyps(1)] close.hyps(3) by (simp add: order_ok_def agrees_def)
  then show ?case using close.prems(3) by (auto simp: solvent_def available_def)
next
  case (buy s k od qty price charge release t)
  have "0 \<le> so_reserved od" using orders_invD(2) [OF buy.prems(1) buy.hyps(1)] by (simp add: order_ok_def)
  then have "0 \<le> so_reserved od - release" using buy.hyps(8) by simp
  then show ?case using buy.prems(3) buy.hyps(9)
    by (auto simp: solvent_def available_def book_fill_frame so_remaining_def)
next
  case (sell_now s k od qty price charge dps t)
  have "so_reserved od = 0" using orders_invD(2) [OF sell_now.prems(1) sell_now.hyps(1)] sell_now.hyps(3)
    by (simp add: order_ok_def)
  then show ?case using sell_now.prems(3) solvent_fill_sell [OF sell_now.prems(2) sell_now.hyps(3)]
    by (auto simp: solvent_def available_def book_fill_frame)
next
  case (sell_later s k od qty price charge d dps t)
  have "so_reserved od = 0" using orders_invD(2) [OF sell_later.prems(1) sell_later.hyps(1)] sell_later.hyps(3)
    by (simp add: order_ok_def)
  then show ?case using sell_later.prems(3) solvent_fill_sell [OF sell_later.prems(2) sell_later.hyps(3)]
    by (auto simp: solvent_def available_def book_fill_frame)
next
  case (settles s today)
  then show ?case by (simp add: settle_solvent)
qed (auto simp: solvent_def available_def)

lemma sales_pay_mono: "bstep cfg g s s' \<Longrightarrow> sales_pay s' \<Longrightarrow> sales_pay s"
  by (induction rule: bstep.induct) (auto simp: sales_pay_def book_fill_fills)

subsection \<open>Sequences of public operations\<close>

datatype sim_op =
    OpQuote quote
  | OpPlace order ts
  | OpModify string "int option" "rat option" "rat option" ts
  | OpCancel string ts
  | OpExpire ts
  | OpFunds ts

fun sim_do :: "sim_config \<Rightarrow> sim_broker \<Rightarrow> sim_op \<Rightarrow> sim_broker result" where
  "sim_do cfg s (OpQuote q) = (case on_quote cfg s q of Inl e \<Rightarrow> Inl e | Inr (s', ns, fs) \<Rightarrow> Inr s')"
| "sim_do cfg s (OpPlace od now) = Inr (fst (place_order cfg s od now))"
| "sim_do cfg s (OpModify k n p tr now) = Inr (fst (modify_order cfg s k n p tr now))"
| "sim_do cfg s (OpCancel k now) = Inr (fst (cancel_order s k now))"
| "sim_do cfg s (OpExpire now) = Inr (fst (expire_session s now))"
| "sim_do cfg s (OpFunds now) = Inr (fst (get_funds s now))"

fun sim_run :: "sim_config \<Rightarrow> sim_broker \<Rightarrow> sim_op list \<Rightarrow> sim_broker result" where
  "sim_run cfg s [] = Inr s"
| "sim_run cfg s (op # ops) = (case sim_do cfg s op of Inl e \<Rightarrow> Inl e | Inr s' \<Rightarrow> sim_run cfg s' ops)"

fun resizes :: "sim_op \<Rightarrow> bool" where
  "resizes (OpModify k n p tr now) = (n \<noteq> None)"
| "resizes op = False"

lemma sim_do_steps:
  assumes "sim_do cfg s op = Inr s'" "orders_inv cfg s" "config_ok cfg" "g \<or> \<not> resizes op"
  shows "bsteps cfg g s s'"
proof (cases op)
  case (OpQuote q)
  with assms show ?thesis by (auto split: sum.splits dest: on_quote_steps)
next
  case (OpPlace od now)
  with assms(1) place_order_steps [OF assms(3)] show ?thesis by auto
next
  case (OpModify k n p tr now)
  then have "s' = fst (modify_order cfg s k n p tr now)" using assms(1) by simp
  then show ?thesis
    using modify_order_steps [OF assms(2), of g n k p tr now] assms(4) OpModify by auto
next
  case (OpCancel k now)
  with assms(1) cancel_order_steps [OF assms(2)] show ?thesis by auto
next
  case (OpExpire now)
  with assms(1) expire_orders_steps [OF assms(2)] show ?thesis by (auto simp: expire_session_def)
next
  case (OpFunds now)
  with assms(1) settles [of cfg g s "ist_date now"] show ?thesis by (auto simp: get_funds_def Let_def)
qed

lemma sim_run_steps:
  assumes "sim_run cfg s ops = Inr s'" "orders_inv cfg s" "config_ok cfg" "g \<or> list_all (\<lambda>op. \<not> resizes op) ops"
  shows "bsteps cfg g s s'"
  using assms
proof (induction ops arbitrary: s)
  case (Cons op ops)
  obtain s1 where 1: "sim_do cfg s op = Inr s1" "sim_run cfg s1 ops = Inr s'"
    using Cons.prems(1) by (auto split: sum.splits)
  have b: "bsteps cfg g s s1" by (rule sim_do_steps [OF 1(1) Cons.prems(2,3)]) (use Cons.prems(4) in auto)
  from Cons.IH [OF 1(2) orders_inv_steps [OF b Cons.prems(2)] Cons.prems(3)] Cons.prems(4) b
  show ?case by (auto intro: bsteps_trans)
qed simp

definition broker_inv :: "sim_config \<Rightarrow> rat \<Rightarrow> sim_broker \<Rightarrow> bool" where
  "broker_inv cfg c0 s =
     (orders_inv cfg s \<and> fills_inv cfg s \<and> positions_inv s \<and> tags_inv s
      \<and> money s = c0 + sum_list (map cash_flow (ss_fills s)))"

lemma new_broker_inv: "broker_inv cfg c0 (new_broker c0)" "covered_inv (new_broker c0)"
  "0 \<le> c0 \<Longrightarrow> solvent (new_broker c0)"
  by (simp_all add: broker_inv_def orders_inv_def fills_inv_def positions_inv_def tags_inv_def money_def
      new_broker_def pos_of_def dget_or_def flat_position_def broker_calls_def covered_inv_def pending_sells_def
      solvent_def available_def)

lemma broker_inv_steps: "bsteps cfg g s s' \<Longrightarrow> broker_inv cfg c0 s \<Longrightarrow> broker_inv cfg c0 s'"
proof (induction rule: rtranclp_induct)
  case (step s1 s2)
  then have i: "broker_inv cfg c0 s1" by blast
  then have "money s2 = c0 + sum_list (map cash_flow (ss_fills s2))"
    using money_step [OF step.hyps(2)] by (simp add: broker_inv_def)
  with i step.hyps(2) show ?case
    by (auto simp: broker_inv_def intro: orders_inv_step fills_inv_step positions_inv_step tags_inv_step)
qed simp

lemma covered_steps: "bsteps cfg False s s' \<Longrightarrow> orders_inv cfg s \<Longrightarrow> covered_inv s \<Longrightarrow> covered_inv s'"
proof (induction rule: rtranclp_induct)
  case (step s1 s2)
  then show ?case using covered_inv_step orders_inv_steps by blast
qed simp

lemma sales_pay_steps: "bsteps cfg g s s' \<Longrightarrow> sales_pay s' \<Longrightarrow> sales_pay s"
  by (induction rule: rtranclp_induct) (auto intro: sales_pay_mono)

lemma solvent_steps: "bsteps cfg g s s' \<Longrightarrow> orders_inv cfg s \<Longrightarrow> sales_pay s' \<Longrightarrow> solvent s \<Longrightarrow> solvent s'"
proof (induction rule: rtranclp_induct)
  case (step s1 s2)
  then show ?case using solvent_step [OF step.hyps(2)] sales_pay_mono orders_inv_steps by blast
qed simp

lemma run_from_new:
  assumes "config_ok cfg" "sim_run cfg (new_broker c0) ops = Inr s"
  shows "bsteps cfg True (new_broker c0) s" "broker_inv cfg c0 s"
proof -
  have o: "orders_inv cfg (new_broker c0)" using new_broker_inv(1) [of cfg c0] by (simp add: broker_inv_def)
  show "bsteps cfg True (new_broker c0) s" by (rule sim_run_steps [OF assms(2) o assms(1)]) simp
  then show "broker_inv cfg c0 s" by (rule broker_inv_steps [OF _ new_broker_inv(1)])
qed

subsection \<open>Liquidity and notices\<close>

lemma book_fill_result:
  assumes "book_fill cfg s od qty price charge t = (s', od', ns, f)"
  shows "\<exists>x. f = Some x \<and> f_quantity x = qty \<and> notice_fills ns = [x] \<and> ss_fills s' = ss_fills s @ [x]"
  using assms by (auto simp: book_fill_def Let_def sim_fill_def put_order_def split: if_splits)

lemma execute_result:
  assumes "execute cfg s od ins reference qty q = Inr (s', od', ns, f)"
  shows "(f = None \<and> notice_fills ns = [] \<and> ss_fills s' = ss_fills s)
    \<or> (\<exists>x. f = Some x \<and> f_quantity x = qty \<and> notice_fills ns = [x] \<and> ss_fills s' = ss_fills s @ [x])"
  using assms book_fill_result
  by (auto simp: execute_def Let_def split: option.splits sum.splits if_splits) (fastforce dest: book_fill_result)+

definition fill_list :: "fill option \<Rightarrow> fill list" where
  "fill_list f = (case f of None \<Rightarrow> [] | Some x \<Rightarrow> [x])"

definition fits_in :: "int \<Rightarrow> sim_broker \<Rightarrow> sim_broker \<Rightarrow> notice list \<Rightarrow> fill list \<Rightarrow> bool" where
  "fits_in liquidity s s' ns fs =
     (notice_fills ns = fs \<and> ss_fills s' = ss_fills s @ fs \<and> (\<forall>x \<in> set fs. 0 < f_quantity x)
      \<and> sum_list (map f_quantity fs) \<le> max 0 liquidity)"

lemma work_order_within:
  assumes "work_order cfg s od reference q liquidity = Inr (s', ns, f)"
    and "config_ok cfg"
  shows "fits_in liquidity s s' ns (fill_list f)"
proof -
  define od1 where "od1 = od\<lparr>so_eligible_quotes := so_eligible_quotes od + 1\<rparr>"
  obtain ins where ins: "dget (sc_instruments cfg) (so_instrument_key od1) = Some ins"
    using assms(1) by (auto simp: work_order_def Let_def od1_def split: option.splits)
  then have lot: "0 < ins_lot_size ins" using assms(2) by (auto simp: config_ok_def dest!: dget_in_set)
  define want where "want = min (so_remaining od1) (max 0 liquidity)"
  define qty where "qty = want - want mod ins_lot_size ins"
  have q: "qty \<le> max 0 liquidity" using pos_mod_sign [OF lot, of want] unfolding qty_def want_def by linarith
  obtain s2 od2 ns2 where
    e: "(if 0 < qty then execute cfg (put_order od1 s) od1 ins reference qty q else Inr (put_order od1 s, od1, [], None))
       = Inr (s2, od2, ns2, f)"
    and t: "notice_fills ns = notice_fills ns2" "ss_fills s' = ss_fills s2"
    using assms(1) ins
    unfolding work_order_def Let_def od1_def [symmetric] ins option.case want_def [symmetric] qty_def [symmetric]
    by (auto split: sum.splits if_splits)
  show ?thesis
  proof (cases "0 < qty")
    case True
    with e have "execute cfg (put_order od1 s) od1 ins reference qty q = Inr (s2, od2, ns2, f)" by simp
    from execute_result [OF this] t q True show ?thesis by (auto simp: fits_in_def fill_list_def)
  next
    case False
    with e t show ?thesis by (auto simp: fits_in_def fill_list_def)
  qed
qed

lemma match_order_within:
  assumes "match_order cfg s od q liquidity = Inr (s', ns, f)" "config_ok cfg"
  shows "fits_in liquidity s s' ns (fill_list f)"
proof -
  have cons: "fits_in liquidity s s' (UpdateNotice sn # ns0) fs = fits_in liquidity s s' ns0 fs" for sn ns0 fs
    by (simp add: fits_in_def)
  consider "f = None" "notice_fills ns = []" "ss_fills s' = ss_fills s"
    | od0 reference where "work_order cfg s od0 reference q liquidity = Inr (s', ns, f)"
    | sn od0 reference ns0 where "work_order cfg s od0 reference q liquidity = Inr (s', ns0, f)" "ns = UpdateNotice sn # ns0"
    using assms(1) by (auto simp: match_order_def Let_def split: if_splits option.splits sum.splits prod.splits)
  then show ?thesis
  proof cases
    case 1
    then show ?thesis by (simp add: fits_in_def fill_list_def)
  next
    case 2
    from work_order_within [OF 2 assms(2)] show ?thesis .
  next
    case 3
    from work_order_within [OF 3(1) assms(2)] 3(2) cons show ?thesis by simp
  qed
qed

lemma match_all_within:
  assumes "match_all cfg q today ks liquidity s = Inr (s', ns, fs)" "config_ok cfg"
  shows "fits_in liquidity s s' ns fs"
  using assms
proof (induction ks arbitrary: s liquidity ns fs)
  case Nil
  then show ?case by (simp add: fits_in_def)
next
  case (Cons k ks)
  obtain od where od: "dget (ss_orders s) k = Some od"
    using Cons.prems(1) by (auto split: option.splits)
  define m where "m = (if \<not> is_live (so_status od) then Inr (s, [], None)
         else if so_session_day od < today then
           (let (s', od') = finish EXPIRED (q_receipt_ts q) od s in Inr (s', [UpdateNotice (snapshot_of od')], None))
         else match_order cfg s od q liquidity)"
  have e: "match_all cfg q today (k # ks) liquidity s =
     (case m of Inl e \<Rightarrow> Inl e
      | Inr (s1, ns, f) \<Rightarrow>
          let used = (case f of None \<Rightarrow> 0 | Some x \<Rightarrow> f_quantity x)
          in (case match_all cfg q today ks (liquidity - used) s1 of
                Inl e \<Rightarrow> Inl e
              | Inr (s2, ns', fs) \<Rightarrow> Inr (s2, ns @ ns', (case f of None \<Rightarrow> fs | Some x \<Rightarrow> x # fs))))"
    by (simp only: match_all.simps od option.case m_def)
  obtain s1 ns1 f where m: "m = Inr (s1, ns1, f)" using Cons.prems(1) e by (cases m) auto
  have 1: "fits_in liquidity s s1 ns1 (fill_list f)"
    using m [unfolded m_def] match_order_within [OF _ Cons.prems(2), of s od q liquidity s1 ns1 f]
    by (auto simp: fits_in_def fill_list_def split: if_splits)
  obtain ns2 fs2 where r: "match_all cfg q today ks (liquidity - sum_list (map f_quantity (fill_list f))) s1 = Inr (s', ns2, fs2)"
    "ns = ns1 @ ns2" "fs = fill_list f @ fs2"
    using Cons.prems(1) unfolding e m by (cases f) (auto simp: Let_def fill_list_def split: sum.splits)
  have "0 \<le> sum_list (map f_quantity (fill_list f))"
    using 1 by (intro sum_list_nonneg) (auto simp: fits_in_def)
  with Cons.IH [OF r(1) Cons.prems(2)] 1 r(2,3) show ?case by (auto simp: fits_in_def)
qed

subsection \<open>Sample runs\<close>

definition sample_config :: sim_config where
  "sample_config =
     \<lparr>sc_book_id = ''main'', sc_instruments = [(''NSE:EQ:INFY'', nse_equity ''INFY'')],
      sc_calendar = sample_calendar, sc_costs = zero_schedule,
      sc_fill = \<lparr>latency_median_ms = 250, latency_sigma = 1 / 2, spread_tiers = [(0, 625)], impact_k = 1 / 2,
        participation = 1 / 8, max_fill_quotes = 5, default_sigma_daily = 1 / 64\<rparr>,
      sc_market = [], sc_same_day = True, sc_caps = sim_capabilities, sc_latency = (\<lambda>c d. 0)\<rparr>"

definition sample_quote :: "int \<Rightarrow> ts \<Rightarrow> quote" where
  "sample_quote vol t =
     \<lparr>q_instrument_key = ''NSE:EQ:INFY'', q_ltp = 100, q_bid = None, q_ask = None, q_prev_close = None,
      q_volume_cum = vol, q_exchange_ts = t, q_receipt_ts = t, q_source = REPLAY, q_is_delayed = False\<rparr>"

definition sample_intent :: "side \<Rightarrow> product \<Rightarrow> int \<Rightarrow> order_intent" where
  "sample_intent s p n =
     \<lparr>i_intent_id = ''i1'', i_decision_id = ''d1'', i_parent_decision_id = None, i_book_id = ''main'',
      i_strategy = ''momentum'', i_signal_id = None, i_instrument = nse_equity ''INFY'', i_side = s,
      i_kind = KOpen, i_quantity = Some n, i_order_type = MARKET, i_product = p, i_validity = DAY,
      i_limit_price = None, i_trigger_price = None, i_stop_price = None, i_target_price = None,
      i_reduce_only = False, i_decision_price = 100, i_decision_ts = 0, i_reason = RsEntry,
      i_source = SignalEngine\<rparr>"

definition sample_order :: "string \<Rightarrow> side \<Rightarrow> product \<Rightarrow> int \<Rightarrow> order" where
  "sample_order cid s p n =
     \<lparr>o_client_order_id = cid, o_intent = sample_intent s p n, o_quantity = n, o_status = PENDING_NEW,
      o_broker_order_id = None, o_filled_qty = 0, o_avg_fill_price = None, o_submitted_at = None,
      o_version = 0\<rparr>"

definition sample_ops :: "sim_op list" where
  "sample_ops =
     (let t = combine_ist 20476 (hm 9 20)
      in [OpQuote (sample_quote 1000 t), OpPlace (sample_order ''c1'' BUY MIS 10) t,
          OpQuote (sample_quote 1048 (t + 1000000))])"

lemma sample_config_ok: "config_ok sample_config"
  by (simp add: config_ok_def sample_config_def nse_equity_def schedule_ok_def zero_schedule_def nil_rates_def rates_ok_def)

lemma sample_ops_run: "(case sim_run sample_config (new_broker 5000) sample_ops of
   Inl e \<Rightarrow> [] | Inr s \<Rightarrow> map (\<lambda>f. (f_quantity f, f_side f)) (ss_fills s)) = [(6, BUY)]"
  by code_simp

lemma sample_run_ok: "\<exists>s. sim_run sample_config (new_broker 5000) sample_ops = Inr s \<and> map f_quantity (ss_fills s) = [6]
  \<and> list_all (\<lambda>f. f_side f = BUY) (ss_fills s)"
  using sample_ops_run by (auto split: sum.splits)

lemma tag_kept_step:
  assumes "bstep cfg g s s'" "tags_inv s" "dget (sb_by_tag s) c = Some k"
  shows "dget (sb_by_tag s') c = Some k"
  using assms
proof (induction rule: bstep.induct)
  case (accept od reserved s ik now)
  have "o_client_order_id od \<noteq> c"
    using accept.hyps(6) accept.prems by (fastforce simp: find_order_def tags_inv_def)
  with accept.prems show ?case by (simp add: dget_dset)
qed (auto simp: book_fill_frame)

lemma tag_kept_steps:
  assumes "bsteps cfg g s s'" "broker_inv cfg c0 s" "dget (sb_by_tag s) c = Some k"
  shows "dget (sb_by_tag s') c = Some k"
  using assms
proof (induction rule: rtranclp_induct)
  case (step s1 s2)
  then have "tags_inv s1" using broker_inv_steps by (fastforce simp: broker_inv_def)
  with step tag_kept_step show ?case by blast
qed simp

lemma find_order_tag:
  assumes "broker_inv cfg c0 s"
  shows "find_order s c = None \<longleftrightarrow> dget (sb_by_tag s) c = None"
    and "find_order s c = Some od \<Longrightarrow> dget (sb_by_tag s) c = Some (so_broker_order_id od)"
proof -
  have o: "orders_inv cfg s" and t: "tags_inv s" using assms by (auto simp: broker_inv_def)
  show "find_order s c = None \<longleftrightarrow> dget (sb_by_tag s) c = None"
    using t by (fastforce simp: find_order_def tags_inv_def split: option.splits)
  show "find_order s c = Some od \<Longrightarrow> dget (sb_by_tag s) c = Some (so_broker_order_id od)"
    using orders_invD(1) [OF o] by (auto simp: find_order_def split: option.splits)
qed

lemma place_order_tag:
  assumes "broker_inv cfg c0 s" "place_order cfg s od now = (s', ns, Inr ack)"
  shows "dget (sb_by_tag s') (o_client_order_id od) = Some (ak_broker_order_id ack)"
proof (cases "find_order s (o_client_order_id od)")
  case None
  with assms(2) obtain ik rv where "accept_order cfg s od ik rv now = (s', ns, Inr ack)"
    by (auto simp: place_order_def split: option.splits if_splits sum.splits)
  then have "s' = fst (accept_order cfg s od ik rv now)" "ack = ack_of (new_sim_order cfg s od ik rv now)"
    by (auto simp: accept_order_def Let_def)
  then show ?thesis by (simp add: ack_of_def)
next
  case (Some so)
  with assms(2) find_order_tag(2) [OF assms(1) Some] show ?thesis by (auto simp: place_order_def ack_of_def)
qed

subsection \<open>Properties of the broker\<close>

text \<open>C17: The broker never lends money. After any sequence of operations with a valid configuration from a fresh
  account with non-negative cash, in which no sale paid more charges than its notional, the cash not reserved is
  non-negative, the blocked cash is exactly the sum of the live orders' reservations, and every
  amount still to settle is non-negative.\<close>

theorem available_cash_nonneg:
  assumes "config_ok cfg" "0 \<le> c0" "sim_run cfg (new_broker c0) ops = Inr s" "sales_pay s"
  shows "0 \<le> available s \<and> ss_blocked s = dsum (\<lambda>k od. so_reserved od) (ss_orders s)
    \<and> (\<forall>(d, a) \<in> set (ss_unsettled s). 0 \<le> a)"
proof -
  note r = run_from_new [OF assms(1,3)]
  have "orders_inv cfg (new_broker c0)" using new_broker_inv(1) [of cfg c0] by (simp add: broker_inv_def)
  from solvent_steps [OF r(1) this assms(4) new_broker_inv(3) [OF assms(2)]] r(2) show ?thesis
    by (simp add: solvent_def broker_inv_def orders_inv_def)
qed

theorem available_cash_nonneg_witness:
  "\<exists>s. sim_run sample_config (new_broker 5000) sample_ops = Inr s \<and> ss_fills s \<noteq> [] \<and> 0 \<le> available s"
proof -
  from sample_run_ok obtain s where r: "sim_run sample_config (new_broker 5000) sample_ops = Inr s
    \<and> map f_quantity (ss_fills s) = [6] \<and> list_all (\<lambda>f. f_side f = BUY) (ss_fills s)" ..
  note s = r [THEN conjunct1] r [THEN conjunct2, THEN conjunct1] r [THEN conjunct2, THEN conjunct2]
  have "sales_pay s" using s(3) by (auto simp: sales_pay_def list_all_iff)
  from available_cash_nonneg [OF sample_config_ok _ s(1) this] have "0 \<le> available s" by simp
  moreover have "ss_fills s \<noteq> []" using s(2) by auto
  ultimately show ?thesis using s(1) by (intro exI [where x = s] conjI)
qed

text \<open>No delivery short. As long as no order is resized, the shares of live CNC sell orders never
  exceed the CNC holding, for every instrument and after every sequence of operations: partial
  fills, cancels, expiries and further sells included. So a delivery holding never goes negative.\<close>

theorem delivery_sells_covered:
  assumes "config_ok cfg" "sim_run cfg (new_broker c0) ops = Inr s" "list_all (\<lambda>op. \<not> resizes op) ops"
  shows "0 \<le> pending_sells s ik \<and> pending_sells s ik \<le> sp_quantity (pos_of s (ik, CNC))"
proof -
  have o: "orders_inv cfg (new_broker c0)" using new_broker_inv(1) [of cfg c0] by (simp add: broker_inv_def)
  have st: "bsteps cfg False (new_broker c0) s" by (rule sim_run_steps [OF assms(2) o assms(1)]) (simp add: assms(3))
  from covered_steps [OF st o new_broker_inv(2)] pending_sells_nonneg [OF orders_inv_steps [OF st o], of ik]
  show ?thesis by (simp add: covered_inv_def)
qed

theorem delivery_sells_covered_witness:
  "\<exists>s. sim_run sample_config (new_broker 5000) sample_ops = Inr s
     \<and> pending_sells s ''NSE:EQ:INFY'' \<le> sp_quantity (pos_of s (''NSE:EQ:INFY'', CNC))"
proof -
  from sample_run_ok obtain s where r: "sim_run sample_config (new_broker 5000) sample_ops = Inr s
    \<and> map f_quantity (ss_fills s) = [6] \<and> list_all (\<lambda>f. f_side f = BUY) (ss_fills s)" ..
  note s = r [THEN conjunct1]
  have "list_all (\<lambda>op. \<not> resizes op) sample_ops" by (simp add: sample_ops_def Let_def)
  note d = delivery_sells_covered [OF sample_config_ok s this, of "''NSE:EQ:INFY''", THEN conjunct2]
  show ?thesis by (intro exI [where x = s] conjI) (fact s, fact d)
qed

text \<open>One quote fills at most the participation share of the volume traded since the previous
  quote, over all orders of the instrument together; the fills returned are exactly the fills the
  subscribers are told of, in the same order, and exactly the fills added to the broker's trades.\<close>

theorem quote_fills_within_participation:
  assumes "config_ok cfg" "on_quote cfg s q = Inr (s', ns, fs)"
  shows "sum_list (map f_quantity fs)
      \<le> max 0 (py_int (fmul (participation (sc_fill cfg))
          (fl64 (of_int (fst (interval_volume q (ist_date (q_receipt_ts q)) (settle (ist_date (q_receipt_ts q)) s)))))))
    \<and> notice_fills ns = fs \<and> ss_fills s' = ss_fills s @ fs"
proof -
  let ?t = "ist_date (q_receipt_ts q)"
  let ?v = "interval_volume q ?t (settle ?t s)"
  define s3 where "s3 = (snd ?v)\<lparr>sb_quotes := dset (q_instrument_key q) q (sb_quotes (snd ?v))\<rparr>"
  have "match_all cfg q ?t (orders_of s3 (q_instrument_key q))
      (py_int (fmul (participation (sc_fill cfg)) (fl64 (of_int (fst ?v))))) s3 = Inr (s', ns, fs)"
    using assms(2) unfolding on_quote_def Let_def case_prod_unfold s3_def .
  moreover have "ss_fills s3 = ss_fills s" by (simp add: s3_def interval_volume_def Let_def)
  ultimately show ?thesis using match_all_within [OF _ assms(1)] by (simp add: fits_in_def)
qed

theorem quote_fills_within_participation_witness:
  "\<exists>s' ns fs. on_quote sample_config (new_broker 5000) (sample_quote 80 0) = Inr (s', ns, fs)
     \<and> sum_list (map f_quantity fs) \<le> 10"
proof -
  have "on_quote sample_config (new_broker 5000) (sample_quote 80 0) \<noteq> Inl e" for e
    by (simp add: on_quote_def interval_volume_def Let_def new_broker_def orders_of_def settle_def)
  then obtain s' ns fs where r: "on_quote sample_config (new_broker 5000) (sample_quote 80 0) = Inr (s', ns, fs)"
    by (cases "on_quote sample_config (new_broker 5000) (sample_quote 80 0)") auto
  moreover have "py_int (fmul (1 / 8) (fl64 80)) = 10" by code_simp
  ultimately show ?thesis
    using quote_fills_within_participation [OF sample_config_ok r]
    by (auto simp: interval_volume_def Let_def new_broker_def settle_def sample_config_def sample_quote_def)
qed

text \<open>Placing is retry-safe for ever. Once an order was acknowledged, placing any order with the
  same client order id later, after any further operations, changes nothing, notifies nobody and
  returns the same broker order.\<close>

theorem place_order_idempotent:
  assumes "config_ok cfg" "sim_run cfg (new_broker c0) ops = Inr s" "place_order cfg s od now = (s1, ns, Inr ack)"
    and "sim_run cfg s1 ops' = Inr s2" "o_client_order_id od' = o_client_order_id od"
  shows "\<exists>ack'. place_order cfg s2 od' now' = (s2, [], Inr ack') \<and> ak_broker_order_id ack' = ak_broker_order_id ack"
proof -
  note inv = run_from_new(2) [OF assms(1,2)]
  have s1: "s1 = fst (place_order cfg s od now)" using assms(3) by simp
  have i1: "broker_inv cfg c0 s1" unfolding s1 by (rule broker_inv_steps [OF place_order_steps [OF assms(1), of True] inv])
  have o1: "orders_inv cfg s1" using i1 by (simp add: broker_inv_def)
  have st: "bsteps cfg True s1 s2" by (rule sim_run_steps [OF assms(4) o1 assms(1)]) simp
  note i2 = broker_inv_steps [OF st i1]
  have tag: "dget (sb_by_tag s2) (o_client_order_id od') = Some (ak_broker_order_id ack)"
    unfolding assms(5) by (rule tag_kept_steps [OF st i1 place_order_tag [OF inv assms(3)]])
  then obtain so where so: "find_order s2 (o_client_order_id od') = Some so" using find_order_tag(1) [OF i2] by fastforce
  with find_order_tag(2) [OF i2 so] tag show ?thesis by (auto simp: place_order_def ack_of_def)
qed

lemma sample_place:
  "(case sim_run sample_config (new_broker 5000) [OpQuote (sample_quote 1000 (combine_ist 20476 (hm 9 20)))] of
      Inl e \<Rightarrow> False
    | Inr s \<Rightarrow> (case place_order sample_config s (sample_order ''c1'' BUY MIS 10) (combine_ist 20476 (hm 9 20)) of
        (s1, ns, Inl e) \<Rightarrow> False | (s1, ns, Inr ack) \<Rightarrow> ak_broker_order_id ack = ''SIM-main-000001''))"
  by code_simp

text \<open>Modifying an order does not repeat the holdings check that placing one makes: from a state in which every
  delivery sell is covered, raising the quantity of a live CNC sell leaves one that is not.\<close>

theorem modify_order_uncovers:
  "\<exists>cfg s k n. config_ok cfg \<and> orders_inv cfg s \<and> covered_inv s
     \<and> \<not> covered_inv (fst (modify_order cfg s k (Some n) None None 0))"
proof -
  define so where "so = (new_sim_order sample_config (new_broker 0) (sample_order ''c1'' SELL CNC 10) ''NSE:EQ:INFY'' 0 0)"
  define s where "s = (new_broker 0)\<lparr>ss_orders := [(sim_order_id sample_config 1, so)], ss_next_order := 2,
    ss_positions := [((''NSE:EQ:INFY'', CNC), \<lparr>sp_quantity = 10, sp_cost = 1000, sp_realized = 0, sp_updated_at = None\<rparr>)]\<rparr>"
  let ?s' = "fst (modify_order sample_config s (sim_order_id sample_config 1) (Some 20) None None 0)"
  have so: "so_broker_order_id so = sim_order_id sample_config 1" "so_instrument_key so = ''NSE:EQ:INFY''"
    "so_product so = CNC" "so_side so = SELL" "so_quantity so = 10" "so_filled_qty so = 0" "so_reserved so = 0"
    "is_live (so_status so)"
    by (simp_all add: so_def new_broker_def sample_order_def sample_intent_def)
  have 1: "orders_inv sample_config s" using so by (auto simp: orders_inv_def s_def new_broker_def order_ok_def)
  have 2: "covered_inv s"
    using so by (auto simp: covered_inv_def s_def pending_sells_def so_remaining_def new_broker_def pos_of_def
        dget_or_def flat_position_def)
  have "?s' = put_order (so\<lparr>so_quantity := 20, so_updated_at := 0\<rparr>) s"
    using so by (simp add: modify_order_def s_def modify_trigger_def sample_config_def nse_equity_def Let_def so_remaining_def)
  then have "pending_sells ?s' ''NSE:EQ:INFY'' = 20" "sp_quantity (pos_of ?s' (''NSE:EQ:INFY'', CNC)) = 10"
    using so by (simp_all add: pending_sells_def s_def so_remaining_def pos_of_def dget_or_def)
  then have "\<not> covered_inv ?s'" by (auto simp: covered_inv_def intro!: exI [of _ "''NSE:EQ:INFY''"])
  with 1 2 sample_config_ok show ?thesis by blast
qed

end
