(* ===== verification/Book_Rounding.thy ===== *)
theory Book_Rounding
  imports Position_Book
begin

text \<open>
  The position book as \<^verbatim>\<open>src/oms/position_book.py\<close> computes it, every sum and product rounded to the 28 digits
  of the Decimal context, and why the exact book of \<open>Position_Book\<close> stands for it: on amounts of at most four decimals,
  within bounds far beyond any account, no operation rounds, so both books are the same. A \<^verbatim>\<open>quantize\<close> whose result
  has more than 28 digits, which raises, is outside those bounds.
\<close>

section \<open>The book with rounded arithmetic\<close>

definition pro_rata28 :: "rat \<Rightarrow> int \<Rightarrow> int \<Rightarrow> rat" where
  "pro_rata28 charges n whole = quantize_even (ddiv (dmul charges (of_int n)) (of_int whole)) alloc_quantum"

definition entry_alloc28 :: "lot \<Rightarrow> int \<Rightarrow> rat" where
  "entry_alloc28 l n = (if n = l_quantity l then l_charges l else pro_rata28 (l_charges l) n (l_quantity l))"

definition exit_alloc28 :: "fill \<Rightarrow> rat \<Rightarrow> int \<Rightarrow> int \<Rightarrow> rat" where
  "exit_alloc28 f exit_charges n remaining =
     (if n = remaining then exit_charges else pro_rata28 (f_charges f) n (f_quantity f))"

definition close_piece28 ::
  "fill \<Rightarrow> product \<Rightarrow> string \<Rightarrow> int \<Rightarrow> lot \<Rightarrow> int \<Rightarrow> rat \<Rightarrow> rat \<Rightarrow> nat \<Rightarrow> closed_piece" where
  "close_piece28 f pr exit_reason direction l n ea xa k =
     (let gross = dmul (dmul (dsub (f_price f) (l_price l)) (of_int n)) (of_int direction)
      in \<lparr>cp_trade_id = f_fill_id f @ ''#'' @ nat_str (k + 1),
          cp_instrument_key = f_instrument_key f, cp_product = pr,
          cp_side = (if 0 < direction then BUY else SELL), cp_quantity = n,
          cp_entry_price = l_price l, cp_exit_price = f_price f,
          cp_entry_ts = l_opened_at l, cp_exit_ts = f_ts f,
          cp_gross_pnl = gross, cp_charges = dadd ea xa, cp_net_pnl = dsub (dsub gross ea) xa,
          cp_decision_id = l_decision_id l, cp_exit_decision_id = f_decision_id f,
          cp_strategy = l_strategy l, cp_exit_reason = exit_reason\<rparr>)"

fun close_lots28 ::
  "fill \<Rightarrow> product \<Rightarrow> string \<Rightarrow> int \<Rightarrow> lot list \<Rightarrow> int \<Rightarrow> rat \<Rightarrow> rat \<Rightarrow> closed_piece list \<Rightarrow> close_state"
where
  "close_lots28 f pr er d [] remaining xc realized cl =
     \<lparr>c_lots = [], c_remaining = remaining, c_exit_charges = xc, c_realized = realized,
      c_closed = cl\<rparr>"
| "close_lots28 f pr er d (l # ls) remaining xc realized cl =
     (if remaining = 0 then
        \<lparr>c_lots = l # ls, c_remaining = remaining, c_exit_charges = xc, c_realized = realized,
         c_closed = cl\<rparr>
      else
        let n = min remaining (l_quantity l);
            ea = entry_alloc28 l n;
            xa = exit_alloc28 f xc n remaining;
            piece = close_piece28 f pr er d l n ea xa (length cl);
            l' = l\<lparr>l_quantity := l_quantity l - n, l_charges := dsub (l_charges l) ea\<rparr>;
            realized' = dadd realized (cp_net_pnl piece)
        in if l_quantity l' = 0
           then close_lots28 f pr er d ls (remaining - n) (dsub xc xa) realized' (cl @ [piece])
           else \<lparr>c_lots = l' # ls, c_remaining = remaining - n, c_exit_charges = dsub xc xa,
                 c_realized = realized', c_closed = cl @ [piece]\<rparr>)"

definition reduce_phase28 :: "net_book \<Rightarrow> fill \<Rightarrow> product \<Rightarrow> string \<Rightarrow> close_state" where
  "reduce_phase28 b f pr er =
     (if b_direction b \<notin> {0, side_sign (f_side f)}
      then close_lots28 f pr er (b_direction b) (b_lots b) (f_quantity f) (f_charges f) (b_realized b) []
      else no_close f b)"

definition apply_net28 ::
  "net_book \<Rightarrow> fill \<Rightarrow> product \<Rightarrow> string \<Rightarrow> string \<Rightarrow> net_book \<times> closed_piece list" where
  "apply_net28 b f pr strategy er =
     (let c = reduce_phase28 b f pr er;
          d0 = (if b_direction b \<notin> {0, side_sign (f_side f)} \<and> c_lots c = [] then 0 else b_direction b);
          d1 = (if c_remaining c \<noteq> 0 then side_sign (f_side f) else d0);
          lots1 = (if c_remaining c \<noteq> 0 then c_lots c @ [opening_lot f strategy c] else c_lots c)
      in (\<lparr>b_lots = lots1, b_direction = d1, b_realized = c_realized c, b_updated_at = Some (f_ts f)\<rparr>,
          c_closed c))"

definition lots_cost28 :: "lot list \<Rightarrow> rat" where
  "lots_cost28 ls = foldl (\<lambda>t l. dadd t (dmul (l_price l) (of_int (l_quantity l)))) 0 ls"

definition position28 :: "position_book \<Rightarrow> pos_key \<Rightarrow> net_book \<Rightarrow> ts \<Rightarrow> position" where
  "position28 pb key b now =
     (let qty = net_quantity b
      in \<lparr>p_book_id = pb_book_id pb, p_instrument_key = fst key, p_product = snd key,
          p_quantity = qty,
          p_avg_price =
            (if qty \<noteq> 0 then Some (ddiv (lots_cost28 (b_lots b)) (of_int (lots_qty (b_lots b)))) else None),
          p_realized_pnl = b_realized b,
          p_updated_at = (case b_updated_at b of None \<Rightarrow> now | Some t \<Rightarrow> t)\<rparr>)"

definition cash_after28 :: "rat \<Rightarrow> fill \<Rightarrow> rat" where
  "cash_after28 cash f =
     (let notional = dmul (f_price f) (of_int (f_quantity f))
      in if f_side f = BUY then dsub cash (dadd notional (f_charges f)) else dadd cash (dsub notional (f_charges f)))"

definition apply_fill28 ::
  "position_book \<Rightarrow> fill \<Rightarrow> product \<Rightarrow> string \<Rightarrow> string \<Rightarrow> (position_book \<times> fill_outcome) result" where
  "apply_fill28 pb f pr strategy er =
     (if f_book_id f \<noteq> pb_book_id pb then Inl ValueError
      else
        let key = (f_instrument_key f, pr);
            b = net_of pb key;
            books = (if dget (pb_books pb) key = None then dset key b (pb_books pb) else pb_books pb)
        in if f_fill_id f \<in> pb_seen pb
           then Inr (pb\<lparr>pb_books := books\<rparr>,
                     \<lparr>fo_position = position28 pb key b (f_ts f), fo_closed = [], fo_duplicate = True\<rparr>)
           else
             let (b', cl) = apply_net28 b f pr strategy er
             in Inr (pb\<lparr>pb_seen := insert (f_fill_id f) (pb_seen pb),
                        pb_cash := cash_after28 (pb_cash pb) f,
                        pb_books := dset key b' books\<rparr>,
                     \<lparr>fo_position = position28 pb key b' (f_ts f), fo_closed = cl,
                      fo_duplicate = False\<rparr>))"

definition realized_pnl28 :: "position_book \<Rightarrow> rat" where
  "realized_pnl28 pb = foldl (\<lambda>t (k, b). dadd t (b_realized b)) 0 (pb_books pb)"

fun market_value28_of :: "(pos_key, net_book) dict \<Rightarrow> (string, rat) dict \<Rightarrow> rat \<Rightarrow> rat result" where
  "market_value28_of [] marks acc = Inr acc"
| "market_value28_of (((ik, pr), b) # rest) marks acc =
     (if net_quantity b \<noteq> 0
      then (case dget marks ik of
              None \<Rightarrow> Inl KeyError
            | Some m \<Rightarrow> market_value28_of rest marks (dadd acc (dmul (of_int (net_quantity b)) m)))
      else market_value28_of rest marks acc)"

definition equity28 :: "position_book \<Rightarrow> (string, rat) dict \<Rightarrow> rat result" where
  "equity28 pb marks =
     (case market_value28_of (pb_books pb) marks 0 of Inl e \<Rightarrow> Inl e | Inr v \<Rightarrow> Inr (dadd (pb_cash pb) v))"

section \<open>Amounts that are not rounded\<close>

definition on_grid :: "rat \<Rightarrow> bool" where
  "on_grid x = (of_int \<lfloor>x * 10000\<rfloor> = x * 10000)"

lemma on_grid_iff: "on_grid x \<longleftrightarrow> (\<exists>k :: int. x * 10000 = of_int k)"
  by (metis floor_of_int on_grid_def)

lemma on_gridE: "on_grid x \<Longrightarrow> (\<And>k. x * 10000 = of_int k \<Longrightarrow> thesis) \<Longrightarrow> thesis"
  by (auto simp: on_grid_iff)

lemma grid_of_int [simp]: "on_grid (of_int k)"
proof -
  have "of_int k * 10000 = (of_int (k * 10000) :: rat)" by simp
  then show ?thesis unfolding on_grid_iff by blast
qed

lemma grid_0 [simp]: "on_grid 0"
  using grid_of_int [of 0] by simp

lemma grid_add [simp]: "on_grid x \<Longrightarrow> on_grid y \<Longrightarrow> on_grid (x + y)"
  unfolding on_grid_iff by (metis distrib_right of_int_add)

lemma grid_diff [simp]: "on_grid x \<Longrightarrow> on_grid y \<Longrightarrow> on_grid (x - y)"
  unfolding on_grid_iff by (metis left_diff_distrib of_int_diff)

lemma grid_times [simp]: "on_grid x \<Longrightarrow> on_grid (x * of_int n)" "on_grid x \<Longrightarrow> on_grid (of_int n * x)"
  unfolding on_grid_iff by (metis mult.commute mult.left_commute of_int_mult)+

lemma grid_quantum [simp]: "on_grid (of_int k * alloc_quantum)"
  by (simp add: on_grid_iff alloc_quantum_def)

definition fits :: "rat \<Rightarrow> bool" where
  "fits x = (on_grid x \<and> \<bar>x\<bar> < 10 ^ 24)"

lemma dec28_fits: "fits x \<Longrightarrow> dec28 x = x"
proof -
  assume f: "fits x"
  then obtain k where k: "x * 10000 = of_int k" by (auto simp: fits_def elim: on_gridE)
  have "\<bar>of_int k :: rat\<bar> < 10 ^ 28" using f unfolding k [symmetric] by (simp add: fits_def abs_mult)
  then have "\<bar>k\<bar> < 10 ^ 28" by (metis of_int_abs of_int_less_iff of_int_numeral of_int_power)
  then show ?thesis using k by (intro dec28_exact [where k = 4 and m = k]) simp_all
qed

lemma exact_ops:
  "fits (x + y) \<Longrightarrow> dadd x y = x + y" "fits (x - y) \<Longrightarrow> dsub x y = x - y" "fits (x * y) \<Longrightarrow> dmul x y = x * y"
  by (simp_all add: dadd_def dsub_def dmul_def dec28_fits)

text \<open>Bounds of one fill: up to ten million rupees a share, ten million shares, ten million rupees of charges.\<close>

definition fill_fits :: "fill \<Rightarrow> bool" where
  "fill_fits f =
     (fill_valid f \<and> on_grid (f_price f) \<and> f_price f \<le> 10 ^ 7 \<and> on_grid (f_charges f) \<and> f_charges f \<le> 10 ^ 7
      \<and> f_quantity f \<le> 10 ^ 7)"

definition lot_fits :: "lot \<Rightarrow> bool" where
  "lot_fits l =
     (0 < l_quantity l \<and> on_grid (l_price l) \<and> 0 < l_price l \<and> l_price l \<le> 10 ^ 7 \<and> on_grid (l_charges l)
      \<and> \<bar>l_charges l\<bar> \<le> 2 * 10 ^ 7)"

lemma of_int_le_ten: "n \<le> 10 ^ k \<Longrightarrow> (of_int n :: rat) \<le> 10 ^ k"
  by (metis of_int_le_iff of_int_numeral of_int_power)

lemma quantize_nearest:
  assumes "on_grid c"
  shows "x \<le> c \<Longrightarrow> quantize_even x alloc_quantum \<le> c" "c \<le> x \<Longrightarrow> c \<le> quantize_even x alloc_quantum"
proof -
  obtain k where k: "c * 10000 = of_int k" using assms by (rule on_gridE)
  have q: "quantize_even x alloc_quantum = of_int (round_half_even (x * 10000)) / 10000"
    by (simp add: quantize_even_def alloc_quantum_def)
  show "quantize_even x alloc_quantum \<le> c" if "x \<le> c"
  proof -
    have "round_half_even (x * 10000) \<le> k" using that by (intro round_half_even_le) (simp flip: k)
    then have "(of_int (round_half_even (x * 10000)) :: rat) \<le> c * 10000" by (simp add: k)
    then show ?thesis by (simp add: q)
  qed
  show "c \<le> quantize_even x alloc_quantum" if "c \<le> x"
  proof -
    have "k \<le> round_half_even (x * 10000)" using that by (intro round_half_even_ge) (simp flip: k)
    then have "c * 10000 \<le> (of_int (round_half_even (x * 10000)) :: rat)" by (simp add: k)
    then show ?thesis by (simp add: q)
  qed
qed

lemma share_of_charges:
  fixes c :: rat
  assumes "0 < n" "n < w"
  shows "0 \<le> c \<Longrightarrow> 0 \<le> c * of_int n / of_int w \<and> c * of_int n / of_int w \<le> c"
    "c \<le> 0 \<Longrightarrow> c \<le> c * of_int n / of_int w \<and> c * of_int n / of_int w \<le> 0"
proof -
  have n: "(0 :: rat) < of_int n" "(of_int n :: rat) \<le> of_int w" "(0 :: rat) < of_int w" using assms by simp_all
  show "0 \<le> c \<Longrightarrow> 0 \<le> c * of_int n / of_int w \<and> c * of_int n / of_int w \<le> c"
    using n mult_left_mono [OF n(2), of c] by (simp add: divide_simps)
  show "c \<le> 0 \<Longrightarrow> c \<le> c * of_int n / of_int w \<and> c * of_int n / of_int w \<le> 0"
    using n mult_left_mono_neg [OF n(2), of c] by (simp add: divide_simps mult_nonpos_nonneg)
qed

lemma pro_rata_fits:
  assumes c: "on_grid c" "\<bar>c\<bar> \<le> 2 * 10 ^ 7" and n: "0 < n" "n < w" "n \<le> 10 ^ 7"
  shows "pro_rata28 c n w = pro_rata c n w" "on_grid (pro_rata c n w)"
    "0 \<le> c \<Longrightarrow> 0 \<le> pro_rata c n w \<and> pro_rata c n w \<le> c" "c \<le> 0 \<Longrightarrow> c \<le> pro_rata c n w \<and> pro_rata c n w \<le> 0"
    "\<bar>pro_rata c n w - c * of_int n / of_int w\<bar> \<le> 1 / 10000"
proof -
  define x where "x = c * of_int n / of_int w"
  have nn: "(0 :: rat) \<le> of_int n" "(of_int n :: rat) \<le> 10 ^ 7" using n of_int_le_ten by simp_all
  have "\<bar>c * of_int n\<bar> \<le> 2 * 10 ^ 7 * 10 ^ 7"
    unfolding abs_mult using c(2) nn by (intro mult_mono) simp_all
  then have "fits (c * of_int n)" using c(1) by (simp add: fits_def)
  then show "pro_rata28 c n w = pro_rata c n w" by (simp add: pro_rata28_def pro_rata_def exact_ops)
  have p: "pro_rata c n w = quantize_even (dec28 x) alloc_quantum" by (simp add: pro_rata_def ddiv_def x_def)
  show "on_grid (pro_rata c n w)" unfolding p quantize_even_def by (rule grid_quantum)
  have dc: "dec28 c = c" using c by (intro dec28_fits) (simp add: fits_def)
  show "0 \<le> c \<Longrightarrow> 0 \<le> pro_rata c n w \<and> pro_rata c n w \<le> c"
    using share_of_charges(1) [OF n(1,2), of c] dec28_mono [of 0 x] dec28_mono [of x c] unfolding p dc x_def [symmetric]
    by (auto intro: quantize_nearest [OF c(1)] quantize_nearest [OF grid_0])
  show "c \<le> 0 \<Longrightarrow> c \<le> pro_rata c n w \<and> pro_rata c n w \<le> 0"
    using share_of_charges(2) [OF n(1,2), of c] dec28_mono [of x 0] dec28_mono [of c x] unfolding p dc x_def [symmetric]
    by (auto intro: quantize_nearest [OF c(1)] quantize_nearest [OF grid_0])
  have "\<bar>x\<bar> \<le> \<bar>c\<bar>"
    using share_of_charges [OF n(1,2), of c] by (cases "0 \<le> c") (auto simp flip: x_def)
  then have "\<bar>dec28 x - x\<bar> \<le> 2 * 10 ^ 7 / (2 * 10 ^ 27)"
    using dec28_err [of x] c(2) by (simp add: field_simps)
  also have "\<dots> \<le> (1 / 20000 :: rat)" by simp
  finally have "\<bar>dec28 x - x\<bar> \<le> 1 / 20000" .
  moreover have "\<bar>quantize_even (dec28 x) alloc_quantum - dec28 x\<bar> \<le> 1 / 20000"
    using quantize_even_err [of alloc_quantum "dec28 x"] by (simp add: alloc_quantum_def)
  ultimately show "\<bar>pro_rata c n w - c * of_int n / of_int w\<bar> \<le> 1 / 10000"
    unfolding p x_def [symmetric] by linarith
qed

section \<open>Closing lots\<close>

lemma entry_alloc_fits:
  assumes "lot_fits l" "0 < n" "n \<le> l_quantity l" "n \<le> 10 ^ 7"
  shows "entry_alloc28 l n = entry_alloc l n" "on_grid (entry_alloc l n)" "\<bar>entry_alloc l n\<bar> \<le> 2 * 10 ^ 7"
    "\<bar>l_charges l - entry_alloc l n\<bar> \<le> 2 * 10 ^ 7"
proof -
  have c: "on_grid (l_charges l)" "\<bar>l_charges l\<bar> \<le> 2 * 10 ^ 7" using assms(1) by (simp_all add: lot_fits_def)
  have "entry_alloc28 l n = entry_alloc l n \<and> on_grid (entry_alloc l n) \<and> \<bar>entry_alloc l n\<bar> \<le> 2 * 10 ^ 7
    \<and> \<bar>l_charges l - entry_alloc l n\<bar> \<le> 2 * 10 ^ 7"
  proof (cases "n = l_quantity l")
    case True
    then show ?thesis using c by (simp add: entry_alloc28_def entry_alloc_def)
  next
    case False
    with assms(3) have w: "n < l_quantity l" by simp
    note p = pro_rata_fits [OF c assms(2) w assms(4)]
    show ?thesis
      using False c p by (cases "0 \<le> l_charges l") (auto simp: entry_alloc28_def entry_alloc_def)
  qed
  then show "entry_alloc28 l n = entry_alloc l n" "on_grid (entry_alloc l n)" "\<bar>entry_alloc l n\<bar> \<le> 2 * 10 ^ 7"
    "\<bar>l_charges l - entry_alloc l n\<bar> \<le> 2 * 10 ^ 7" by simp_all
qed

lemma close_piece_fits:
  assumes "fill_fits f" "lot_fits l" "0 < n" "n \<le> 10 ^ 7" "d \<in> {- 1, 1}"
    and "on_grid ea" "\<bar>ea\<bar> \<le> 2 * 10 ^ 7" "on_grid xa" "\<bar>xa\<bar> \<le> 2 * 10 ^ 7"
  shows "close_piece28 f pr er d l n ea xa k = close_piece f pr er d l n ea xa k"
    "on_grid (cp_net_pnl (close_piece f pr er d l n ea xa k))"
    "\<bar>cp_net_pnl (close_piece f pr er d l n ea xa k)\<bar> \<le> 5 * 10 ^ 7 * of_int n"
proof -
  define g where "g = (f_price f - l_price l) * of_int n"
  have n: "(1 :: rat) \<le> of_int n" "(of_int n :: rat) \<le> 10 ^ 7" using assms(3,4) of_int_le_ten by simp_all
  have diff: "on_grid (f_price f - l_price l)" "\<bar>f_price f - l_price l\<bar> \<le> 10 ^ 7"
    using assms(1,2) by (auto simp: fill_fits_def lot_fits_def fill_valid_def)
  have g: "on_grid g" "\<bar>g\<bar> \<le> 10 ^ 7 * of_int n"
    using diff n unfolding g_def abs_mult by (auto intro: mult_right_mono)
  moreover have "10 ^ 7 * (of_int n :: rat) \<le> 10 ^ 7 * 10 ^ 7" using n by (intro mult_left_mono) auto
  ultimately have gb: "\<bar>g\<bar> \<le> 10 ^ 14" by simp
  have gd: "on_grid (g * of_int d)" "\<bar>g * of_int d\<bar> = \<bar>g\<bar>" using assms(5) g(1) by auto
  have f: "fits (f_price f - l_price l)" "fits g" "fits (g * of_int d)" "fits (g * of_int d - ea)"
    "fits (g * of_int d - ea - xa)" "fits (ea + xa)"
    using diff g gb gd assms(6-9) by (auto simp: fits_def)
  show "close_piece28 f pr er d l n ea xa k = close_piece f pr er d l n ea xa k"
    using f by (simp add: close_piece28_def close_piece_def exact_ops Let_def g_def)
  show "on_grid (cp_net_pnl (close_piece f pr er d l n ea xa k))"
    using f(5) by (simp add: close_piece_def Let_def g_def fits_def)
  have "\<bar>g * of_int d - ea - xa\<bar> \<le> 10 ^ 7 * of_int n + 4 * 10 ^ 7"
    using g(2) gd(2) assms(7,9) by linarith
  also have "\<dots> \<le> 5 * 10 ^ 7 * of_int n" using n by simp
  finally show "\<bar>cp_net_pnl (close_piece f pr er d l n ea xa k)\<bar> \<le> 5 * 10 ^ 7 * of_int n"
    by (simp add: close_piece_def Let_def g_def)
qed

text \<open>What is left of the charges of a fill stays near its share of what is left of the fill.\<close>

definition near_share :: "fill \<Rightarrow> rat \<Rightarrow> int \<Rightarrow> bool" where
  "near_share f xc r =
     (on_grid xc \<and> \<bar>xc - f_charges f * of_int r / of_int (f_quantity f)\<bar> \<le> of_int (f_quantity f - r) / 10000)"

lemma near_share_bound:
  assumes "fill_fits f" "near_share f xc r" "0 \<le> r" "r \<le> f_quantity f"
  shows "\<bar>xc\<bar> \<le> 2 * 10 ^ 7"
proof -
  have q: "0 < f_quantity f" "(of_int (f_quantity f) :: rat) \<le> 10 ^ 7" "0 \<le> f_charges f" "f_charges f \<le> 10 ^ 7"
    using assms(1) of_int_le_ten by (auto simp: fill_fits_def fill_valid_def)
  have "f_charges f * of_int r \<le> f_charges f * of_int (f_quantity f)" using assms(4) q by (intro mult_left_mono) simp_all
  then have "0 \<le> f_charges f * of_int r / of_int (f_quantity f)" "f_charges f * of_int r / of_int (f_quantity f) \<le> f_charges f"
    using q assms(3) by (simp_all add: divide_simps)
  moreover have "of_int (f_quantity f - r) / 10000 \<le> (1000 :: rat)" using q assms(3) by simp
  moreover have "f_charges f \<le> 10000000" using q(4) by simp
  ultimately have "\<bar>xc\<bar> \<le> 20000000" using assms(2) unfolding near_share_def by linarith
  then show ?thesis by simp
qed

lemma exit_alloc_fits:
  assumes f: "fill_fits f" and near: "near_share f xc r" and n: "0 < n" "n \<le> r" "r \<le> f_quantity f"
  shows "exit_alloc28 f xc n r = exit_alloc f xc n r" "on_grid (exit_alloc f xc n r)" "\<bar>exit_alloc f xc n r\<bar> \<le> 2 * 10 ^ 7"
    "near_share f (xc - exit_alloc f xc n r) (r - n)"
proof -
  have c: "on_grid (f_charges f)" "0 \<le> f_charges f" "f_charges f \<le> 10 ^ 7" "0 < f_quantity f" "f_quantity f \<le> 10 ^ 7"
    using f by (auto simp: fill_fits_def fill_valid_def)
  have "exit_alloc28 f xc n r = exit_alloc f xc n r \<and> on_grid (exit_alloc f xc n r) \<and> \<bar>exit_alloc f xc n r\<bar> \<le> 2 * 10 ^ 7
    \<and> near_share f (xc - exit_alloc f xc n r) (r - n)"
  proof (cases "n = r")
    case True
    then show ?thesis
      using near near_share_bound [OF f near] n c by (simp add: exit_alloc28_def exit_alloc_def near_share_def)
  next
    case False
    then have w: "n < f_quantity f" using n by simp
    have b: "\<bar>f_charges f\<bar> \<le> 2 * 10 ^ 7" "n \<le> 10 ^ 7" using c w by simp_all
    note p = pro_rata_fits [OF c(1) b(1) n(1) w b(2)]
    define a where "a = f_charges f * of_int r / of_int (f_quantity f)"
    define b where "b = f_charges f * of_int n / of_int (f_quantity f)"
    define part where "part = pro_rata (f_charges f) n (f_quantity f)"
    have ab: "f_charges f * of_int (r - n) / of_int (f_quantity f) = a - b"
      by (simp add: a_def b_def right_diff_distrib diff_divide_distrib)
    have near': "\<bar>xc - a\<bar> \<le> (of_int (f_quantity f) - of_int r) / 10000" using near by (simp add: near_share_def a_def)
    have part: "\<bar>part - b\<bar> \<le> 1 / 10000" using p(5) by (simp only: part_def b_def)
    have "xc - part - (a - b) = (xc - a) - (part - b)" by simp
    then have "\<bar>xc - part - (a - b)\<bar> \<le> \<bar>xc - a\<bar> + \<bar>part - b\<bar>" by (simp only: abs_triangle_ineq4)
    also have "\<dots> \<le> (of_int (f_quantity f) - of_int r) / 10000 + 1 / 10000" using near' part by (rule add_mono)
    also have "\<dots> \<le> (of_int (f_quantity f) - (of_int r - of_int n)) / 10000" using n(1) by (simp add: divide_simps)
    finally have "\<bar>xc - part - (a - b)\<bar> \<le> (of_int (f_quantity f) - (of_int r - of_int n)) / 10000" .
    then have "near_share f (xc - part) (r - n)"
      using near p(2) unfolding near_share_def ab part_def [symmetric] by simp
    then have "near_share f (xc - pro_rata (f_charges f) n (f_quantity f)) (r - n)" by (simp only: part_def)
    then show ?thesis using False p(1-3) c by (simp add: exit_alloc28_def exit_alloc_def)
  qed
  then show "exit_alloc28 f xc n r = exit_alloc f xc n r" "on_grid (exit_alloc f xc n r)" "\<bar>exit_alloc f xc n r\<bar> \<le> 2 * 10 ^ 7"
    "near_share f (xc - exit_alloc f xc n r) (r - n)" by simp_all
qed

definition close_fits :: "fill \<Rightarrow> rat \<Rightarrow> close_state \<Rightarrow> bool" where
  "close_fits f m c =
     (on_grid (c_realized c) \<and> \<bar>c_realized c\<bar> \<le> m \<and> list_all lot_fits (c_lots c) \<and> 0 \<le> c_remaining c
      \<and> c_remaining c \<le> f_quantity f \<and> near_share f (c_exit_charges c) (c_remaining c))"

lemma close_lots_fits:
  assumes "fill_fits f" "d \<in> {- 1, 1}" "list_all lot_fits ls" "0 \<le> r" "r \<le> f_quantity f" "near_share f xc r"
    and "on_grid rl" "\<bar>rl\<bar> + 5 * 10 ^ 7 * of_int r \<le> m" "m < 10 ^ 24"
  shows "close_lots28 f pr er d ls r xc rl cl = close_lots f pr er d ls r xc rl cl
    \<and> close_fits f m (close_lots f pr er d ls r xc rl cl)"
  using assms(3-8)
proof (induction ls arbitrary: r xc rl cl)
  case Nil
  then have "0 \<le> 5 * 10 ^ 7 * (of_int r :: rat)" by simp
  with Nil show ?case by (simp add: close_fits_def close_lots.simps(1))
next
  case (Cons l ls)
  show ?case
  proof (cases "r = 0")
    case True
    then show ?thesis using Cons.prems by (simp add: close_fits_def close_lots.simps(2))
  next
    case False
    define n where "n = min r (l_quantity l)"
    have l: "lot_fits l" "list_all lot_fits ls" using Cons.prems(1) by simp_all
    then have lq: "0 < l_quantity l" by (simp add: lot_fits_def)
    have n: "0 < n" "n \<le> r" "n \<le> l_quantity l" "n \<le> 10 ^ 7"
      using False Cons.prems(2,3) lq assms(1) by (auto simp: n_def fill_fits_def)
    define ea where "ea = entry_alloc l n"
    define xa where "xa = exit_alloc f xc n r"
    note e = entry_alloc_fits [OF l(1) n(1,3,4), folded ea_def]
    note x = exit_alloc_fits [OF assms(1) Cons.prems(4) n(1,2) Cons.prems(3), folded xa_def]
    note p = close_piece_fits [OF assms(1) l(1) n(1,4) assms(2) e(2,3) x(2,3), of pr er "length cl"]
    define piece where "piece = close_piece f pr er d l n ea xa (length cl)"
    have rl: "on_grid (rl + cp_net_pnl piece)" "\<bar>rl + cp_net_pnl piece\<bar> + 5 * 10 ^ 7 * of_int (r - n) \<le> m"
      using Cons.prems(5,6) p(2,3) by (auto simp: piece_def right_diff_distrib)
    have "0 \<le> 5 * 10 ^ 7 * (of_int (r - n) :: rat)" using n(2) by simp
    then have rb: "\<bar>rl + cp_net_pnl piece\<bar> \<le> m" using rl(2) by linarith
    have lc: "on_grid (l_charges l)" using l(1) by (simp add: lot_fits_def)
    have xb: "\<bar>xc - xa\<bar> \<le> 2 * 10 ^ 7"
      by (rule near_share_bound [OF assms(1) x(4)]) (use n Cons.prems(2,3) in auto)
    have fits: "fits (l_charges l - ea)" "fits (xc - xa)" "fits (rl + cp_net_pnl piece)"
      using e(2,4) lc xb x(2) Cons.prems(4) rl(1) rb assms(9) by (auto simp: fits_def near_share_def)
    define l' where "l' = l\<lparr>l_quantity := l_quantity l - n, l_charges := l_charges l - ea\<rparr>"
    have l': "l_quantity l' \<noteq> 0 \<Longrightarrow> lot_fits l'"
      using l(1) e(2,4) n(3) by (auto simp: l'_def lot_fits_def)
    have step: "close_lots28 f pr er d (l # ls) r xc rl cl =
        (if l_quantity l' = 0 then close_lots28 f pr er d ls (r - n) (xc - xa) (rl + cp_net_pnl piece) (cl @ [piece])
         else \<lparr>c_lots = l' # ls, c_remaining = r - n, c_exit_charges = xc - xa, c_realized = rl + cp_net_pnl piece,
               c_closed = cl @ [piece]\<rparr>)"
      using False e(1) x(1) p(1) fits
      by (simp add: Let_def exact_ops l'_def piece_def flip: n_def ea_def xa_def)
    have exact: "close_lots f pr er d (l # ls) r xc rl cl =
        (if l_quantity l' = 0 then close_lots f pr er d ls (r - n) (xc - xa) (rl + cp_net_pnl piece) (cl @ [piece])
         else \<lparr>c_lots = l' # ls, c_remaining = r - n, c_exit_charges = xc - xa, c_realized = rl + cp_net_pnl piece,
               c_closed = cl @ [piece]\<rparr>)"
      using False by (simp add: close_lots.simps(2) Let_def l'_def piece_def flip: n_def ea_def xa_def)
    show ?thesis
    proof (cases "l_quantity l' = 0")
      case True
      then show ?thesis
        using Cons.IH [OF l(2) _ _ x(4) rl, of "cl @ [piece]"] n(1,2) Cons.prems(2,3) unfolding step exact by simp
    next
      case False
      then show ?thesis
        using l' l(2) rl(1) rb x(4) n(1,2) Cons.prems(2,3) unfolding step exact by (simp add: close_fits_def)
    qed
  qed
qed

section \<open>One fill\<close>

definition net_fits :: "net_book \<Rightarrow> bool" where
  "net_fits b = (net_wf b \<and> list_all lot_fits (b_lots b) \<and> on_grid (b_realized b))"

lemma net_fits_empty [simp]: "net_fits empty_net"
  by (simp add: net_fits_def empty_net_def net_wf_def)

lemma apply_net_fits:
  assumes "fill_fits f" "net_fits b" "\<bar>b_realized b\<bar> + 5 * 10 ^ 14 < 10 ^ 24"
  shows "apply_net28 b f pr st er = apply_net b f pr st er \<and> net_fits (fst (apply_net b f pr st er))
    \<and> \<bar>b_realized (fst (apply_net b f pr st er))\<bar> \<le> \<bar>b_realized b\<bar> + 5 * 10 ^ 14
    \<and> lots_qty (b_lots (fst (apply_net b f pr st er))) \<le> lots_qty (b_lots b) + f_quantity f"
proof -
  have v: "fill_valid f" "0 < f_quantity f" "f_quantity f \<le> 10 ^ 7" "on_grid (f_price f)" "0 < f_price f" "f_price f \<le> 10 ^ 7"
    "on_grid (f_charges f)" "0 \<le> f_charges f" "f_charges f \<le> 10 ^ 7"
    using assms(1) by (auto simp: fill_fits_def fill_valid_def)
  have wf: "net_wf b" "list_all lot_fits (b_lots b)" "on_grid (b_realized b)" using assms(2) by (simp_all add: net_fits_def)
  let ?c = "reduce_phase b f pr er"
  have c: "reduce_phase28 b f pr er = ?c \<and> close_fits f (\<bar>b_realized b\<bar> + 5 * 10 ^ 14) ?c
    \<and> (0 < c_remaining ?c \<longrightarrow> on_grid (c_exit_charges ?c) \<and> \<bar>c_exit_charges ?c\<bar> \<le> 2 * 10 ^ 7)"
  proof (cases "b_direction b \<in> {0, side_sign (f_side f)}")
    case True
    then show ?thesis
      using v wf by (simp add: reduce_phase28_def reduce_phase_def no_close_def close_fits_def near_share_def)
  next
    case False
    then have d: "b_direction b \<in> {- 1, 1}" using wf(1) by (auto simp: net_wf_def)
    have "5 * 10 ^ 7 * (of_int (f_quantity f) :: rat) \<le> 5 * 10 ^ 7 * 10 ^ 7"
      using of_int_le_ten [OF v(3)] by (intro mult_left_mono) simp_all
    then have m: "\<bar>b_realized b\<bar> + 5 * 10 ^ 7 * of_int (f_quantity f) \<le> \<bar>b_realized b\<bar> + 5 * 10 ^ 14" by simp
    have near: "near_share f (f_charges f) (f_quantity f)" using v by (simp add: near_share_def)
    note cl = close_lots_fits [OF assms(1) d wf(2) _ order_refl near wf(3) m assms(3), of pr er "[]"]
    have "close_fits f (\<bar>b_realized b\<bar> + 5 * 10 ^ 14) ?c" "reduce_phase28 b f pr er = ?c"
      using cl v(2) False by (simp_all add: reduce_phase28_def reduce_phase_def)
    then show ?thesis
      using near_share_bound [OF assms(1), of "c_exit_charges ?c" "c_remaining ?c"] by (simp add: close_fits_def near_share_def)
  qed
  have same: "apply_net28 b f pr st er = apply_net b f pr st er"
    using c by (simp add: apply_net28_def apply_net_def)
  have wf': "net_wf (fst (apply_net b f pr st er))" by (rule apply_net_wf [OF wf(1) v(1)])
  have "lots_qty (b_lots (fst (apply_net b f pr st er))) = \<bar>net_quantity b + side_sign (f_side f) * f_quantity f\<bar>"
    using net_quantity_abs [OF wf'] apply_net_quantity [OF wf(1) v(1)] by simp
  also have "\<dots> \<le> \<bar>net_quantity b\<bar> + f_quantity f" using v(2) by (cases "f_side f") auto
  also have "\<bar>net_quantity b\<bar> = lots_qty (b_lots b)" by (rule net_quantity_abs [OF wf(1)])
  finally have q: "lots_qty (b_lots (fst (apply_net b f pr st er))) \<le> lots_qty (b_lots b) + f_quantity f" .
  have "lot_fits (opening_lot f st ?c)" if "c_remaining ?c \<noteq> 0"
    using that c v by (auto simp: lot_fits_def opening_lot_def close_fits_def)
  then show ?thesis
    using same wf' q c by (simp add: net_fits_def apply_net_def Let_def close_fits_def)
qed

text \<open>Sums of exact amounts.\<close>

lemma foldl_dadd:
  assumes "\<And>x. x \<in> set xs \<Longrightarrow> on_grid (g x)" "on_grid t" "\<bar>t\<bar> + sum_list (map (\<lambda>x. \<bar>g x\<bar>) xs) < 10 ^ 24"
  shows "foldl (\<lambda>t x. dadd t (g x)) t xs = t + sum_list (map g xs)"
  using assms
proof (induction xs arbitrary: t)
  case (Cons x xs)
  have nn: "0 \<le> sum_list (map (\<lambda>x. \<bar>g x\<bar>) xs)" by (rule sum_list_nonneg) auto
  have b: "\<bar>t + g x\<bar> + sum_list (map (\<lambda>x. \<bar>g x\<bar>) xs) < 10 ^ 24"
    using Cons.prems(3) abs_triangle_ineq [of t "g x"] by simp
  have g: "on_grid (t + g x)" using Cons.prems(1,2) by simp
  have "\<bar>t + g x\<bar> < 10 ^ 24" using b nn by linarith
  then have "dadd t (g x) = t + g x" using g by (intro exact_ops) (simp add: fits_def)
  then show ?case using Cons.IH [OF _ g b] Cons.prems(1) by (simp add: add.assoc)
qed simp

lemma lots_cost_bound: "list_all lot_fits ls \<Longrightarrow> 0 \<le> lots_cost ls \<and> lots_cost ls \<le> 10 ^ 7 * of_int (lots_qty ls)"
proof (induction ls)
  case (Cons l ls)
  have l: "lot_fits l" "list_all lot_fits ls" using Cons.prems by simp_all
  then have "l_price l * of_int (l_quantity l) \<le> 10 ^ 7 * of_int (l_quantity l)" "0 \<le> l_price l * of_int (l_quantity l)"
    by (auto simp: lot_fits_def intro: mult_right_mono)
  then show ?case using Cons.IH [OF l(2)] by (simp add: lots_cost_def distrib_left)
qed (simp add: lots_cost_def)

lemma lots_cost_fits:
  assumes "list_all lot_fits ls" "lots_qty ls \<le> 10 ^ 16"
  shows "lots_cost28 ls = lots_cost ls"
proof -
  let ?g = "\<lambda>l. l_price l * of_int (l_quantity l)"
  have lot: "lot_fits l" if "l \<in> set ls" for l using that assms(1) by (simp add: list_all_iff)
  have abs: "sum_list (map (\<lambda>l. \<bar>?g l\<bar>) ls) = lots_cost ls"
    unfolding lots_cost_def by (intro arg_cong [of _ _ sum_list] map_cong) (auto simp: lot_fits_def abs_mult dest!: lot)
  have "10 ^ 7 * (of_int (lots_qty ls) :: rat) \<le> 10 ^ 7 * 10 ^ 16"
    using of_int_le_ten [OF assms(2)] by (intro mult_left_mono) simp_all
  then have small: "lots_cost ls < 10 ^ 24" using lots_cost_bound [OF assms(1)] by simp
  have each: "dmul (l_price l) (of_int (l_quantity l)) = ?g l" if "l \<in> set ls" for l
  proof -
    have "\<bar>?g l\<bar> \<le> sum_list (map (\<lambda>l. \<bar>?g l\<bar>) ls)"
      using that by (intro member_le_sum_list) auto
    then show ?thesis using small lot [OF that] unfolding abs by (intro exact_ops) (auto simp: fits_def lot_fits_def)
  qed
  have "lots_cost28 ls = foldl (\<lambda>t l. dadd t (?g l)) 0 ls"
    unfolding lots_cost28_def using each by (intro foldl_cong) auto
  also have "\<dots> = 0 + sum_list (map ?g ls)"
    by (rule foldl_dadd) (use lot small abs in \<open>auto simp: lot_fits_def\<close>)
  finally show ?thesis by (simp add: lots_cost_def)
qed

lemma position_fits:
  assumes "net_fits b" "lots_qty (b_lots b) \<le> 10 ^ 16"
  shows "position28 pb key b now = position_of pb key b now"
  using assms lots_cost_fits [of "b_lots b"] by (simp add: position28_def position_of_def net_fits_def Let_def)

lemma cash_after_fits:
  assumes "fill_fits f" "on_grid cash" "\<bar>cash\<bar> + 2 * 10 ^ 14 < 10 ^ 24"
  shows "cash_after28 cash f = cash_after cash f" "on_grid (cash_after cash f)" "\<bar>cash_after cash f\<bar> \<le> \<bar>cash\<bar> + 2 * 10 ^ 14"
proof -
  define n where "n = f_price f * of_int (f_quantity f)"
  have v: "0 < f_quantity f" "f_quantity f \<le> 10 ^ 7" "on_grid (f_price f)" "0 < f_price f" "f_price f \<le> 10 ^ 7"
    "on_grid (f_charges f)" "0 \<le> f_charges f" "f_charges f \<le> 10 ^ 7"
    using assms(1) by (auto simp: fill_fits_def fill_valid_def)
  have "n \<le> 10 ^ 7 * 10 ^ 7"
    unfolding n_def using v of_int_le_ten [OF v(2)] by (intro mult_mono) simp_all
  then have n: "on_grid n" "0 \<le> n" "n \<le> 10 ^ 14" using v by (simp_all add: n_def)
  have f: "fits n" "fits (n + f_charges f)" "fits (n - f_charges f)" "fits (cash - (n + f_charges f))" "fits (cash + (n - f_charges f))"
    using n v assms(2,3) by (auto simp: fits_def)
  show "cash_after28 cash f = cash_after cash f"
    using f by (simp add: cash_after28_def cash_after_def exact_ops Let_def n_def)
  show "on_grid (cash_after cash f)" "\<bar>cash_after cash f\<bar> \<le> \<bar>cash\<bar> + 2 * 10 ^ 14"
    using n v assms(2) unfolding cash_after_def Let_def n_def [symmetric] by auto
qed

section \<open>The whole book\<close>

definition abs_realized :: "position_book \<Rightarrow> rat" where
  "abs_realized pb = dsum (\<lambda>k b. \<bar>b_realized b\<bar>) (pb_books pb)"

definition shares_open :: "position_book \<Rightarrow> rat" where
  "shares_open pb = dsum (\<lambda>k b. of_int (lots_qty (b_lots b))) (pb_books pb)"

text \<open>The book after at most k fills from a start of at most 10^15 rupees.\<close>

definition book_fits :: "nat \<Rightarrow> position_book \<Rightarrow> bool" where
  "book_fits k pb =
     (pb_inv pb \<and> on_grid (pb_cash pb) \<and> \<bar>pb_cash pb\<bar> \<le> 10 ^ 15 + of_nat k * (2 * 10 ^ 14)
      \<and> (\<forall>(key, b) \<in> set (pb_books pb). net_fits b)
      \<and> abs_realized pb \<le> of_nat k * (5 * 10 ^ 14) \<and> shares_open pb \<le> of_nat k * 10 ^ 7)"

lemma net_wf_qty_nonneg: "net_wf b \<Longrightarrow> 0 \<le> lots_qty (b_lots b)"
  by (metis abs_ge_zero net_quantity_abs)

lemma book_fits_net:
  assumes "book_fits k pb"
  shows "net_fits (net_of pb key)" "\<bar>b_realized (net_of pb key)\<bar> \<le> abs_realized pb"
    "of_int (lots_qty (b_lots (net_of pb key))) \<le> shares_open pb"
proof -
  have fit: "net_fits b" if "(k', b) \<in> set (pb_books pb)" for k' b using assms that by (auto simp: book_fits_def)
  have nn: "0 \<le> (of_int (lots_qty (b_lots b)) :: rat)" if "(k', b) \<in> set (pb_books pb)" for k' b
    using net_wf_qty_nonneg fit [OF that] by (simp add: net_fits_def)
  have sums: "0 \<le> abs_realized pb" "0 \<le> shares_open pb"
    unfolding abs_realized_def shares_open_def using nn by (auto intro: dsum_nonneg)
  have "net_fits (net_of pb key) \<and> \<bar>b_realized (net_of pb key)\<bar> \<le> abs_realized pb
    \<and> of_int (lots_qty (b_lots (net_of pb key))) \<le> shares_open pb"
  proof (cases "dget (pb_books pb) key")
    case None
    then have e: "net_of pb key = empty_net" by (simp add: net_of_def dget_or_def)
    have "b_realized empty_net = 0" "lots_qty (b_lots empty_net) = 0" by (simp_all add: empty_net_def)
    with sums show ?thesis by (simp add: e)
  next
    case (Some b)
    then have b: "net_of pb key = b" "(key, b) \<in> set (pb_books pb)" by (auto simp: net_of_def dget_or_def dest: dget_in_set)
    have "\<bar>b_realized b\<bar> \<le> abs_realized pb"
      unfolding abs_realized_def using dsum_member_le [of "pb_books pb" "\<lambda>k b. \<bar>b_realized b\<bar>", OF _ b(2)] by simp
    moreover have "of_int (lots_qty (b_lots b)) \<le> shares_open pb"
      unfolding shares_open_def
      using dsum_member_le [of "pb_books pb" "\<lambda>k b. of_int (lots_qty (b_lots b)) :: rat", OF nn b(2)] by simp
    ultimately show ?thesis using fit [OF b(2)] by (simp add: b(1))
  qed
  then show "net_fits (net_of pb key)" "\<bar>b_realized (net_of pb key)\<bar> \<le> abs_realized pb"
    "of_int (lots_qty (b_lots (net_of pb key))) \<le> shares_open pb" by simp_all
qed

lemma book_fits_mono: "book_fits k pb \<Longrightarrow> k \<le> n \<Longrightarrow> book_fits n pb"
proof -
  assume b: "book_fits k pb" and "k \<le> n"
  then have "(of_nat k :: rat) \<le> of_nat n" by simp
  then have "of_nat k * (2 * 10 ^ 14) \<le> (of_nat n * (2 * 10 ^ 14) :: rat)" "of_nat k * (5 * 10 ^ 14) \<le> (of_nat n * (5 * 10 ^ 14) :: rat)"
    "of_nat k * 10 ^ 7 \<le> (of_nat n * 10 ^ 7 :: rat)" by (auto intro: mult_right_mono)
  then show "book_fits n pb" using b unfolding book_fits_def by linarith
qed

lemma sums_with_default:
  "dsum (\<lambda>k b. \<bar>b_realized b\<bar>) (with_default pb key) = abs_realized pb"
  "dsum (\<lambda>k b. of_int (lots_qty (b_lots b))) (with_default pb key) = shares_open pb"
  unfolding abs_realized_def shares_open_def
  by (rule with_default_sum; simp add: empty_net_def)+

lemma with_default_fits: "book_fits k pb \<Longrightarrow> (key', b) \<in> set (with_default pb key) \<Longrightarrow> net_fits b"
  using book_fits_net(1) [of k pb key] by (auto simp: with_default_def book_fits_def dest!: set_dset split: if_splits)

lemma apply_fill_fits:
  assumes fits: "book_fits k pb" "fill_fits f" and k: "k < 10 ^ 9"
  shows "apply_fill28 pb f pr st er = apply_fill pb f pr st er"
    "apply_fill pb f pr st er = Inr (pb', oc) \<Longrightarrow> book_fits (Suc k) pb'"
proof -
  let ?key = "(f_instrument_key f, pr)"
  let ?b = "net_of pb ?key"
  let ?b' = "fst (apply_net ?b f pr st er)"
  have "k + 1 \<le> 1000000000" using k by simp
  then have "(of_nat (k + 1) :: rat) \<le> of_nat 1000000000" by (simp only: of_nat_le_iff)
  then have kr: "(of_nat k :: rat) + 1 \<le> 1000000000" by simp
  note nb = book_fits_net [OF fits(1), of ?key]
  have bf: "abs_realized pb \<le> of_nat k * 500000000000000" "shares_open pb \<le> of_nat k * 10000000"
    "\<bar>pb_cash pb\<bar> \<le> 1000000000000000 + of_nat k * 200000000000000"
    using fits(1) by (simp_all add: book_fits_def)
  have step: "of_nat k * c \<le> 999999999 * c" if "0 \<le> c" for c :: rat
    using kr that by (intro mult_right_mono) simp_all
  have bounds: "abs_realized pb \<le> 500000000000000000000000" "shares_open pb + 10000000 \<le> 10000000000000000"
    "\<bar>pb_cash pb\<bar> \<le> 200001000000000000000000"
    subgoal by (rule order_trans [OF bf(1)], rule order_trans [OF step]) simp_all
    subgoal using order_trans [OF bf(2) step] by simp
    subgoal using order_trans [OF bf(3) add_left_mono [OF step]] by simp
    done
  have v: "fill_valid f" "of_int (f_quantity f) \<le> (10 ^ 7 :: rat)" "f_quantity f \<le> 10 ^ 7"
    using fits(2) of_int_le_ten by (auto simp: fill_fits_def)
  have "\<bar>b_realized ?b\<bar> + 5 * 10 ^ 14 < 10 ^ 24" using nb(2) bounds(1) by simp
  note net = apply_net_fits [OF fits(2) nb(1) this, of pr st er]
  have "of_int (lots_qty (b_lots ?b) + 10000000) \<le> (of_int (10 ^ 16) :: rat)" using nb(3) bounds(2) by simp
  then have q0: "lots_qty (b_lots ?b) + 10000000 \<le> 10 ^ 16" by (simp only: of_int_le_iff)
  have l: "lots_qty (b_lots ?b') \<le> lots_qty (b_lots ?b) + f_quantity f" using net by blast
  have q: "lots_qty (b_lots ?b) \<le> 10 ^ 16" "lots_qty (b_lots ?b') \<le> 10 ^ 16" using q0 l v(3) by simp_all
  have "lots_qty (b_lots ?b') \<le> lots_qty (b_lots ?b) + 10000000" using l v(3) by simp
  then have "of_int (lots_qty (b_lots ?b')) \<le> (of_int (lots_qty (b_lots ?b) + 10000000) :: rat)"
    by (simp only: of_int_le_iff)
  then have lq: "of_int (lots_qty (b_lots ?b')) \<le> (of_int (lots_qty (b_lots ?b)) + 10000000 :: rat)" by simp
  have "on_grid (pb_cash pb)" "\<bar>pb_cash pb\<bar> + 2 * 10 ^ 14 < 10 ^ 24" using fits(1) bounds(3) by (simp_all add: book_fits_def)
  note cash = cash_after_fits [OF fits(2) this]
  show "apply_fill28 pb f pr st er = apply_fill pb f pr st er"
    using net position_fits [OF nb(1) q(1)] position_fits [OF _ q(2)] cash(1)
    by (simp add: apply_fill28_def apply_fill_def Let_def case_prod_unfold)
  assume r: "apply_fill pb f pr st er = Inr (pb', oc)"
  have inv: "pb_inv pb'" using apply_fill_inv [OF r] fits(1) v(1) by (simp add: book_fits_def)
  show "book_fits (Suc k) pb'"
    using r
  proof (cases rule: apply_fill_cases)
    case dup
    then have "book_fits k pb'"
      using inv fits(1) with_default_fits [OF fits(1)] sums_with_default [of pb ?key]
      by (auto simp: book_fits_def abs_realized_def shares_open_def)
    then show ?thesis by (rule book_fits_mono) simp
  next
    case new
    have books: "net_fits b" if "(k', b) \<in> set (pb_books pb')" for k' b
      using that new(3) net with_default_fits [OF fits(1), of k' b ?key] by (auto dest!: set_dset simp del: split_paired_All)
    have "abs_realized pb' = abs_realized pb - \<bar>b_realized ?b\<bar> + \<bar>b_realized ?b'\<bar>"
      using new by (simp add: abs_realized_def dsum_dset dget_with_default sums_with_default [unfolded abs_realized_def])
    then have "abs_realized pb' \<le> abs_realized pb + 5 * 10 ^ 14" using net by simp
    moreover have "shares_open pb' = shares_open pb - of_int (lots_qty (b_lots ?b)) + of_int (lots_qty (b_lots ?b'))"
      using new by (simp add: shares_open_def dsum_dset dget_with_default sums_with_default [unfolded shares_open_def])
    then have "shares_open pb' \<le> shares_open pb + 10000000" using lq by simp
    ultimately show ?thesis
      using inv books cash new fits(1) by (auto simp: book_fits_def distrib_right)
  qed
qed

lemma new_book_fits: "on_grid cash \<Longrightarrow> \<bar>cash\<bar> \<le> 10 ^ 15 \<Longrightarrow> book_fits 0 (new_book bid cash)"
  using pbl.fold_inv [of "new_book bid cash" "[]"]
  by (simp add: book_fits_def new_book_def abs_realized_def shares_open_def pb_inv_def ledger_ok_def)

lemma fold_fills_fits:
  assumes "\<forall>c \<in> set cs. fill_fits (fst c)" "book_fits k pb" "k + length cs \<le> 10 ^ 9"
  shows "fold_fills apply_fill28 pb cs = fold_fills apply_fill pb cs"
    "fold_fills apply_fill pb cs = Inr pb' \<Longrightarrow> book_fits (k + length cs) pb'"
proof -
  have "fold_fills apply_fill28 pb cs = fold_fills apply_fill pb cs
      \<and> (\<forall>pb'. fold_fills apply_fill pb cs = Inr pb' \<longrightarrow> book_fits (k + length cs) pb')"
    using assms
  proof (induction cs arbitrary: k pb)
    case (Cons c cs)
    obtain f pr st er where c: "c = (f, pr, st, er)" by (metis prod_cases4)
    have f: "fill_fits f" "k < 10 ^ 9" using Cons.prems(1,3) c by simp_all
    note a = apply_fill_fits [OF Cons.prems(2) f, of pr st er]
    show ?case
    proof (cases "apply_fill pb f pr st er")
      case (Inl e)
      then show ?thesis using a(1) c by simp
    next
      case (Inr x)
      obtain pb1 oc where x: "x = (pb1, oc)" by (cases x)
      then have "book_fits (Suc k) pb1" using a(2) Inr by simp
      from Cons.IH [OF _ this] Cons.prems(1,3) show ?thesis using a(1) c Inr x by simp
    qed
  qed simp
  then show "fold_fills apply_fill28 pb cs = fold_fills apply_fill pb cs"
    "fold_fills apply_fill pb cs = Inr pb' \<Longrightarrow> book_fits (k + length cs) pb'" by simp_all
qed

section \<open>What the book is worth\<close>

definition marks_fit :: "(string, rat) dict \<Rightarrow> bool" where
  "marks_fit marks = (\<forall>(ik, m) \<in> set marks. on_grid m \<and> 0 \<le> m \<and> m \<le> 10 ^ 7)"

lemma market_value_fits:
  assumes "\<forall>(key, b) \<in> set bs. net_wf b" "marks_fit marks" "on_grid acc"
    and "\<bar>acc\<bar> + 10 ^ 7 * dsum (\<lambda>k b. of_int (lots_qty (b_lots b))) bs \<le> m" "m < 10 ^ 24"
  shows "market_value28_of bs marks acc = market_value_of bs marks acc
    \<and> (\<forall>v. market_value_of bs marks acc = Inr v \<longrightarrow> on_grid v \<and> \<bar>v\<bar> \<le> m)"
  using assms(1,3,4)
proof (induction bs arbitrary: acc)
  case (Cons kb bs)
  obtain ik pr b where kb: "kb = ((ik, pr), b)" by (metis prod.collapse)
  let ?rest = "dsum (\<lambda>k b. of_int (lots_qty (b_lots b)) :: rat) bs"
  let ?q = "of_int (lots_qty (b_lots b)) :: rat"
  have wf: "net_wf b" "\<forall>(key, b) \<in> set bs. net_wf b" using Cons.prems(1) kb by auto
  have q: "0 \<le> ?q" "\<bar>of_int (net_quantity b)\<bar> = ?q"
    using net_wf_qty_nonneg [OF wf(1)] net_quantity_abs [OF wf(1)] by (simp_all flip: of_int_abs)
  have rest: "0 \<le> ?rest" using wf(2) by (intro dsum_nonneg) (auto dest: net_wf_qty_nonneg)
  have sum: "\<bar>acc\<bar> + 10 ^ 7 * ?q + 10 ^ 7 * ?rest \<le> m" using Cons.prems(3) kb by (simp add: distrib_left)
  show ?case
  proof (cases "net_quantity b = 0")
    case True
    then have "\<bar>acc\<bar> + 10 ^ 7 * ?rest \<le> m" using sum q(1) by simp
    with Cons.IH [OF wf(2) Cons.prems(2)] True kb show ?thesis by simp
  next
    case False
    show ?thesis
    proof (cases "dget marks ik")
      case None
      with False kb show ?thesis by simp
    next
      case (Some p)
      then have p: "on_grid p" "0 \<le> p" "p \<le> 10 ^ 7" using assms(2) dget_in_set [OF Some] by (auto simp: marks_fit_def)
      define t where "t = of_int (net_quantity b) * p"
      have "\<bar>t\<bar> = ?q * p" unfolding t_def abs_mult q(2) using p(2) by simp
      also have "\<dots> \<le> ?q * 10 ^ 7" using p(3) q(1) by (rule mult_left_mono)
      finally have tb: "\<bar>t\<bar> \<le> 10 ^ 7 * ?q" by simp
      have b: "\<bar>acc + t\<bar> + 10 ^ 7 * ?rest \<le> m" using tb sum abs_triangle_ineq [of acc t] by linarith
      have g: "on_grid t" "on_grid (acc + t)" using p(1) Cons.prems(2) by (simp_all add: t_def)
      have r7: "0 \<le> 10 ^ 7 * ?rest" "0 \<le> 10 ^ 7 * ?q" using rest q(1) by simp_all
      have "\<bar>t\<bar> < 10 ^ 24" using tb sum r7(1) assms(5) abs_ge_zero [of acc] by linarith
      moreover have "\<bar>acc + t\<bar> < 10 ^ 24" using b r7(1) assms(5) by linarith
      ultimately have "dmul (of_int (net_quantity b)) p = t" "dadd acc t = acc + t"
        using g by (auto simp: t_def fits_def intro!: exact_ops)
      then show ?thesis using Cons.IH [OF wf(2) g(2) b] False Some kb by (simp add: t_def)
    qed
  qed
qed simp

lemma equity_fits:
  assumes "book_fits k pb" "k \<le> 10 ^ 9" "marks_fit marks"
  shows "equity28 pb marks = equity pb marks"
proof -
  have "k \<le> 1000000000" using assms(2) by simp
  then have "(of_nat k :: rat) \<le> of_nat 1000000000" by (simp only: of_nat_le_iff)
  then have kr: "(of_nat k :: rat) \<le> 1000000000" by simp
  have bf: "shares_open pb \<le> of_nat k * 10000000" "\<bar>pb_cash pb\<bar> \<le> 1000000000000000 + of_nat k * 200000000000000"
    "on_grid (pb_cash pb)" "\<forall>(key, b) \<in> set (pb_books pb). net_wf b"
    using assms(1) by (auto simp: book_fits_def net_fits_def)
  have step: "of_nat k * c \<le> 1000000000 * c" if "0 \<le> c" for c :: rat using kr that by (rule mult_right_mono)
  have so: "shares_open pb \<le> 10000000000000000" using order_trans [OF bf(1) step] by simp
  have cb: "\<bar>pb_cash pb\<bar> \<le> 200001000000000000000000" using order_trans [OF bf(2) add_left_mono [OF step]] by simp
  have "\<bar>0\<bar> + 10 ^ 7 * dsum (\<lambda>k b. of_int (lots_qty (b_lots b))) (pb_books pb) \<le> (10 ^ 23 :: rat)"
    using so by (simp flip: shares_open_def)
  note mv = market_value_fits [OF bf(4) assms(3) grid_0 this]
  show ?thesis
  proof (cases "market_value_of (pb_books pb) marks 0")
    case (Inl e)
    then show ?thesis using mv by (simp add: equity28_def equity_def market_value_def)
  next
    case (Inr v)
    then have v: "market_value28_of (pb_books pb) marks 0 = Inr v" "on_grid v" "\<bar>v\<bar> \<le> 100000000000000000000000"
      using mv by simp_all
    have "\<bar>pb_cash pb + v\<bar> \<le> 300001000000000000000000" using cb v(3) abs_triangle_ineq [of "pb_cash pb" v] by linarith
    then have "dadd (pb_cash pb) v = pb_cash pb + v" using bf(3) v(2) by (intro exact_ops) (simp add: fits_def)
    then show ?thesis using Inr v(1) by (simp add: equity28_def equity_def market_value_def)
  qed
qed

lemma realized_fits:
  assumes "book_fits k pb" "k \<le> 10 ^ 9"
  shows "realized_pnl28 pb = pb_realized_pnl pb"
proof -
  let ?g = "\<lambda>(k :: pos_key, b). b_realized b"
  have "k \<le> 1000000000" using assms(2) by simp
  then have "(of_nat k :: rat) \<le> of_nat 1000000000" by (simp only: of_nat_le_iff)
  then have kr: "(of_nat k :: rat) * 500000000000000 \<le> 1000000000 * 500000000000000" by (intro mult_right_mono) simp_all
  have "abs_realized pb \<le> of_nat k * 500000000000000" using assms(1) by (simp add: book_fits_def)
  then have ar: "abs_realized pb \<le> 500000000000000000000000" using kr by simp
  have "abs_realized pb = sum_list (map (\<lambda>x. \<bar>?g x\<bar>) (pb_books pb))"
    by (simp add: abs_realized_def dsum_def case_prod_unfold)
  then have small: "\<bar>0\<bar> + sum_list (map (\<lambda>x. \<bar>?g x\<bar>) (pb_books pb)) < 10 ^ 24" using ar by simp
  have "foldl (\<lambda>t x. dadd t (?g x)) 0 (pb_books pb) = 0 + sum_list (map ?g (pb_books pb))"
    by (rule foldl_dadd [OF _ grid_0 small]) (use assms(1) in \<open>auto simp: book_fits_def net_fits_def\<close>)
  then show ?thesis by (simp add: realized_pnl28_def pb_realized_pnl_def dsum_def case_prod_unfold)
qed

text \<open>C1: Money is conserved by the book in the program's own Decimal arithmetic, every sum, product and quotient
  rounded to 28 digits. Applying any stream of at most a thousand million valid fills of the book, their prices and
  charges on four decimals and at most ten million rupees, their quantities at most ten million shares, to a new book
  succeeds and gives the same book as exact arithmetic; the cash is then exactly the starting cash plus the cash flow of each distinct fill, taken once; and at any
  marks of the same size that cover the open positions the equity is exactly the starting cash plus the realized
  profit plus the profit of the open lots, charges included: neither the pro-rata split of the charges nor the rounding
  of the Decimal context leaves a residue. (Prices with more decimals would be rounded; the ticks and paise of the
  exchange have two.)\<close>

theorem book_conserves_money:
  assumes "\<forall>c \<in> set cs. fill_fits (fst c) \<and> f_book_id (fst c) = bid" "length cs \<le> 10 ^ 9"
    and "on_grid cash" "\<bar>cash\<bar> \<le> 10 ^ 15"
  shows "\<exists>pb. fold_fills apply_fill28 (new_book bid cash) cs = Inr pb \<and> fold_fills apply_fill (new_book bid cash) cs = Inr pb
    \<and> pb_cash pb = cash + sum_list (map (cash_flow \<circ> fst) (fresh_fills {} cs))
    \<and> (\<forall>marks. marks_cover pb marks \<and> marks_fit marks \<longrightarrow>
          equity28 pb marks = Inr (cash + realized_pnl28 pb + pb_open_pnl pb marks))"
proof -
  have valid: "\<forall>c \<in> set cs. fill_valid (fst c) \<and> f_book_id (fst c) = bid" "\<forall>c \<in> set cs. fill_fits (fst c)"
    using assms(1) by (auto simp: fill_fits_def)
  obtain pb where pb: "fold_fills apply_fill (new_book bid cash) cs = Inr pb"
    "pb_cash pb = cash + sum_list (map (cash_flow \<circ> fst) (fresh_fills {} cs))"
    "\<And>marks. marks_cover pb marks \<Longrightarrow> equity pb marks = Inr (cash + pb_realized_pnl pb + pb_open_pnl pb marks)"
    using exact_book_conserves_money [OF valid(1), of cash] by blast
  note fits = fold_fills_fits [OF valid(2) new_book_fits [OF assms(3,4)], of bid]
  have "book_fits (length cs) pb" using fits(2) [OF _ pb(1)] assms(2) by simp
  then show ?thesis
    using pb fits(1) assms(2) equity_fits realized_fits [of "length cs" pb] by auto
qed

theorem book_conserves_money_witness:
  "\<exists>pb. fold_fills apply_fill28 (new_book ''main'' 5000) sample_calls = Inr pb \<and> pb_cash pb = 4436"
proof -
  have "on_grid 5000" "on_grid 100" "on_grid 110" "on_grid 2" using grid_of_int [of 5000] grid_of_int [of 100]
    grid_of_int [of 110] grid_of_int [of 2] by simp_all
  then have "\<forall>c \<in> set sample_calls. fill_fits (fst c) \<and> f_book_id (fst c) = ''main''"
    by (simp add: sample_calls_def sample_fill_def fill_fits_def fill_valid_def)
  from book_conserves_money [OF this, of 5000] \<open>on_grid 5000\<close> show ?thesis
    by (auto simp: sample_calls_def sample_fill_def cash_flow_def fill_notional_def)
qed

end
