(* ===== verification/OMS.thy ===== *)
theory OMS
  imports Broker_Base
begin

section \<open>The order manager\<close>

text \<open>
  \<^verbatim>\<open>src/oms/oms.py\<close>: the single entry point for orders and the only writer of the book. The
  state is the record \<open>oms\<close>; the events it emits are kept in order in \<open>om_events\<close>. The
  identifier hash, the gate and the broker are parameters: \<open>coid\<close> maps an intent id to a client
  order id, \<open>gate\<close> gives the quantity it approves, and the broker's answer to a placement is the
  pair of the notices it delivers before it returns and its result. Between the gate's decision and
  the registration of the order the source never suspends, so a submission up to the broker call
  is one step. Listeners are called after the fact and cannot change the state.
\<close>

subsection \<open>State\<close>

type_synonym order_ref = "string \<times> string \<times> string \<times> string"

datatype recon_diff =
    AdoptedFill string
  | OrderUnknownToBroker string order_status
  | StatusDiff string order_status order_status
  | BrokerOrderUnknown string
  | PositionDiff pos_key int int
  | CashDiff rat rat

datatype oms_event =
    OrderSubmitted order
  | OrderAcked order_ref string order_status
  | OrderRejected order_ref
  | OrderUnknown order_ref
  | OrderCancelled order_ref int
  | OrderExpired order_ref int
  | FillReceived fill order_status int rat
  | PositionChanged position string
  | TradeClosed closed_piece
  | ReconciliationResult bool "recon_diff list"
  | AlertEvent string

record oms =
  om_book_id :: string
  om_book :: position_book
  om_orders :: "(string, order) dict"
  om_unknown :: "(string, int) dict"
  om_events :: "oms_event list"

definition new_oms :: "string \<Rightarrow> position_book \<Rightarrow> oms result" where
  "new_oms book_id book =
     (if pb_book_id book \<noteq> book_id then Inl ValueError
      else Inr \<lparr>om_book_id = book_id, om_book = book, om_orders = [], om_unknown = [], om_events = []\<rparr>)"

text \<open>The allowed status moves, \<open>_NEXT\<close>.\<close>

fun next_status :: "order_status \<Rightarrow> order_status list" where
  "next_status PENDING_NEW = [SUBMITTED, REJECTED]"
| "next_status SUBMITTED =
     [OPEN, TRIGGER_PENDING, REJECTED, UNKNOWN, PARTIALLY_FILLED, FILLED, CANCELLED, EXPIRED]"
| "next_status UNKNOWN =
     [OPEN, TRIGGER_PENDING, REJECTED, PARTIALLY_FILLED, FILLED, CANCELLED, EXPIRED]"
| "next_status TRIGGER_PENDING =
     [OPEN, PARTIALLY_FILLED, FILLED, PENDING_CANCEL, CANCELLED, EXPIRED]"
| "next_status OPEN = [PARTIALLY_FILLED, FILLED, PENDING_CANCEL, CANCELLED, EXPIRED]"
| "next_status PARTIALLY_FILLED = [PARTIALLY_FILLED, FILLED, PENDING_CANCEL, CANCELLED, EXPIRED]"
| "next_status PENDING_CANCEL = [CANCELLED, PARTIALLY_FILLED, FILLED]"
| "next_status PENDING_MODIFY = [OPEN, TRIGGER_PENDING, PARTIALLY_FILLED, FILLED]"
| "next_status FILLED = []"
| "next_status CANCELLED = []"
| "next_status REJECTED = []"
| "next_status EXPIRED = []"

subsection \<open>Helpers\<close>

definition om_emit :: "oms_event \<Rightarrow> oms \<Rightarrow> oms" where
  "om_emit e s = s\<lparr>om_events := om_events s @ [e]\<rparr>"

definition ref_of :: "order \<Rightarrow> order_ref" where
  "ref_of od = (o_client_order_id od, i_book_id (o_intent od), i_decision_id (o_intent od), i_key (o_intent od))"

definition set_order :: "order \<Rightarrow> (order \<Rightarrow> order) \<Rightarrow> oms \<Rightarrow> oms" where
  "set_order od upd s =
     (let latest = dget_or od (om_orders s) (o_client_order_id od)
      in s\<lparr>om_orders := dset (o_client_order_id od) ((upd latest)\<lparr>o_version := o_version latest + 1\<rparr>)
             (om_orders s)\<rparr>)"

definition advance :: "order \<Rightarrow> order_status \<Rightarrow> bool \<Rightarrow> oms \<Rightarrow> bool \<times> oms" where
  "advance od st force s =
     (if st = o_status od \<and> st \<noteq> PARTIALLY_FILLED then (False, s)
      else if \<not> force \<and> st \<notin> set (next_status (o_status od)) then (False, s)
      else (True, set_order od (\<lambda>x. x\<lparr>o_status := st\<rparr>) s))"

definition the_order :: "oms \<Rightarrow> order \<Rightarrow> order" where
  "the_order s od = dget_or od (om_orders s) (o_client_order_id od)"

subsection \<open>Broker callbacks\<close>

definition update_event :: "order \<Rightarrow> order_snapshot \<Rightarrow> oms_event" where
  "update_event od sn =
     (case os_status sn of
        CANCELLED \<Rightarrow> OrderCancelled (ref_of od) (os_filled_qty sn)
      | EXPIRED \<Rightarrow> OrderExpired (ref_of od) (os_filled_qty sn)
      | REJECTED \<Rightarrow> OrderRejected (ref_of od)
      | st \<Rightarrow> OrderAcked (ref_of od) (os_broker_order_id sn) st)"

definition on_update :: "order_snapshot \<Rightarrow> oms \<Rightarrow> oms" where
  "on_update sn s =
     (case dget (om_orders s) (os_client_order_id sn) of
        None \<Rightarrow> om_emit (AlertEvent ''oms_unknown_order'') s
      | Some od \<Rightarrow>
          (let s1 = (if o_broker_order_id od = None
                     then set_order od (\<lambda>x. x\<lparr>o_broker_order_id := Some (os_broker_order_id sn)\<rparr>) s else s)
           in if os_status sn \<in> {FILLED, PARTIALLY_FILLED} then s1
              else let (moved, s2) = advance od (os_status sn) False s1
                   in if \<not> moved then s2 else om_emit (update_event (the_order s2 od) sn) s2))"

definition new_avg :: "order \<Rightarrow> fill \<Rightarrow> rat" where
  "new_avg od f =
     (let prior = dmul (case o_avg_fill_price od of None \<Rightarrow> 0 | Some a \<Rightarrow> a) (of_int (o_filled_qty od))
      in ddiv (dadd prior (dmul (f_price f) (of_int (f_quantity f)))) (of_int (o_filled_qty od + f_quantity f)))"

fun reason_value :: "intent_reason \<Rightarrow> string" where
  "reason_value RsEntry = ''entry''"
| "reason_value RsStop = ''stop''"
| "reason_value RsTarget = ''target''"
| "reason_value RsTrail = ''trail''"
| "reason_value RsPartial = ''partial''"
| "reason_value RsTime = ''time''"
| "reason_value RsSquareOff = ''square_off''"
| "reason_value RsFlatten = ''flatten''"
| "reason_value RsOperator = ''operator''"

definition or_id :: "string option \<Rightarrow> string option \<Rightarrow> string option" where
  "or_id a b = (if a = None \<or> a = Some '''' then b else a)"

definition on_known_fill :: "fill \<Rightarrow> order \<Rightarrow> oms \<Rightarrow> oms result" where
  "on_known_fill f od s =
     (let filled0 = o_filled_qty od + f_quantity f;
          over = o_quantity od < filled0;
          s1 = (if over then om_emit (AlertEvent ''oms_overfill'') s else s);
          filled = (if over then o_quantity od else filled0);
          avg = new_avg od f;
          st = (if filled = o_quantity od then FILLED else PARTIALLY_FILLED);
          s2 = set_order od (\<lambda>x. x\<lparr>o_filled_qty := filled, o_avg_fill_price := Some avg,
                 o_broker_order_id := or_id (f_broker_order_id f) (o_broker_order_id od)\<rparr>) s1;
          s3 = snd (advance (the_order s2 od) st True s2);
          od' = the_order s3 od;
          i = o_intent od'
      in case apply_fill (om_book s3) f (i_product i) (i_strategy i) (reason_value (i_reason i)) of
           Inl e \<Rightarrow> Inl e
         | Inr (book, oc) \<Rightarrow>
             Inr (s3\<lparr>om_book := book,
                     om_events := om_events s3 @ [FillReceived f (o_status od') filled avg,
                       PositionChanged (fo_position oc) (f_fill_id f)] @ map TradeClosed (fo_closed oc)\<rparr>))"

definition on_fill :: "fill \<Rightarrow> oms \<Rightarrow> oms result" where
  "on_fill f s =
     (if has_seen (om_book s) (f_fill_id f) then Inr s
      else case dget (om_orders s) (f_client_order_id f) of
             Some od \<Rightarrow> on_known_fill f od s
           | None \<Rightarrow>
               (case apply_fill (om_book s) f CNC ''unknown'' '''' of
                  Inl e \<Rightarrow> Inl e
                | Inr (book, oc) \<Rightarrow>
                    Inr (s\<lparr>om_book := book,
                           om_events := om_events s @ [AlertEvent ''oms_unknown_fill'',
                             FillReceived f FILLED (f_quantity f) (f_price f),
                             PositionChanged (fo_position oc) (f_fill_id f)]\<rparr>)))"

fun on_notices :: "notice list \<Rightarrow> oms \<Rightarrow> oms result" where
  "on_notices [] s = Inr s"
| "on_notices (UpdateNotice sn # ns) s = on_notices ns (on_update sn s)"
| "on_notices (FillNotice f # ns) s = (case on_fill f s of Inl e \<Rightarrow> Inl e | Inr s' \<Rightarrow> on_notices ns s')"

subsection \<open>Submission\<close>

datatype submit_status = StSubmitted | StDuplicate | StBlocked | StRejected | StUnknown

definition accepted :: "submit_status \<Rightarrow> bool" where
  "accepted st = (st \<in> {StSubmitted, StDuplicate, StUnknown})"

definition committed_qty :: "oms \<Rightarrow> string \<Rightarrow> product \<Rightarrow> int" where
  "committed_qty s ik pr =
     dsum (\<lambda>k od. if i_reduce_only (o_intent od) \<and> i_key (o_intent od) = ik \<and> i_product (o_intent od) = pr
                     \<and> \<not> is_terminal (o_status od)
                  then remaining_qty od else 0) (om_orders s)"

definition reducible :: "oms \<Rightarrow> order_intent \<Rightarrow> int" where
  "reducible s i =
     (let position = pb_quantity (om_book s) (i_key i) (i_product i)
      in if position = 0 \<or> (0 < position) = (i_side i = BUY) then 0
         else max 0 (\<bar>position\<bar> - committed_qty s (i_key i) (i_product i)))"

type_synonym gate = "order_intent \<Rightarrow> int option \<Rightarrow> int"

text \<open>The quantity put to the gate: the requested one, capped for a reduce-only order by what is
  left to reduce; then what the submission decides before it reaches the broker, None when it is
  blocked.\<close>

definition asked_qty :: "oms \<Rightarrow> order_intent \<Rightarrow> int option \<Rightarrow> int option" where
  "asked_qty s i quantity =
     (let qty = (case quantity of None \<Rightarrow> i_quantity i | Some q \<Rightarrow> Some q)
      in if i_reduce_only i
         then Some (case qty of None \<Rightarrow> reducible s i | Some q \<Rightarrow> min q (reducible s i)) else qty)"

definition gated_qty :: "oms \<Rightarrow> gate \<Rightarrow> order_intent \<Rightarrow> int option \<Rightarrow> int option" where
  "gated_qty s gate i quantity =
     (let asked = asked_qty s i quantity
      in if i_reduce_only i \<and> (case asked of None \<Rightarrow> False | Some q \<Rightarrow> q \<le> 0) then None
         else let approved = gate i asked
              in if approved \<le> 0 then None
                 else let qty = (case asked of None \<Rightarrow> approved | Some q \<Rightarrow> min q approved)
                      in if qty \<le> 0 then None else Some qty)"

definition make_order :: "string \<Rightarrow> order_intent \<Rightarrow> int \<Rightarrow> ts \<Rightarrow> order" where
  "make_order c i qty now =
     \<lparr>o_client_order_id = c, o_intent = i, o_quantity = qty, o_status = SUBMITTED, o_broker_order_id = None,
      o_filled_qty = 0, o_avg_fill_price = None, o_submitted_at = Some now, o_version = 0\<rparr>"

definition register :: "order \<Rightarrow> oms \<Rightarrow> oms" where
  "register od s =
     om_emit (OrderSubmitted od) (s\<lparr>om_orders := dset (o_client_order_id od) od (om_orders s)\<rparr>)"

definition mark_unknown :: "order \<Rightarrow> oms \<Rightarrow> oms" where
  "mark_unknown od s =
     (let s1 = set_order od (\<lambda>x. x\<lparr>o_status := UNKNOWN\<rparr>) s
      in om_emit (OrderUnknown (ref_of od)) (s1\<lparr>om_unknown := dset (o_client_order_id od) 0 (om_unknown s1)\<rparr>))"

text \<open>What the order manager does with the broker's answer.\<close>

definition place_result :: "order \<Rightarrow> broker_error + broker_ack \<Rightarrow> oms \<Rightarrow> submit_status \<times> oms" where
  "place_result od r s =
     (case r of
        Inl e \<Rightarrow>
          if (case e of OtherError x \<Rightarrow> True | _ \<Rightarrow> error_outcome e = UNKNOWN_OUTCOME)
          then (StUnknown, mark_unknown od s)
          else (StRejected, om_emit (OrderRejected (ref_of od)) (set_order od (\<lambda>x. x\<lparr>o_status := REJECTED\<rparr>) s))
      | Inr ack \<Rightarrow>
          (let current = the_order s od
           in if o_status current = SUBMITTED
              then let s1 = set_order current (\<lambda>x. x\<lparr>o_broker_order_id := Some (ak_broker_order_id ack)\<rparr>) s;
                       s2 = snd (advance current (ak_status ack) False s1)
                   in (StSubmitted, om_emit (OrderAcked (ref_of current) (ak_broker_order_id ack)
                         (o_status (the_order s2 od))) s2)
              else (StSubmitted, s)))"

definition submit ::
  "(string \<Rightarrow> string) \<Rightarrow> gate option \<Rightarrow> (order \<Rightarrow> notice list \<times> (broker_error + broker_ack))
    \<Rightarrow> order_intent \<Rightarrow> int option \<Rightarrow> ts \<Rightarrow> oms \<Rightarrow> (submit_status \<times> oms) result" where
  "submit coid gate place i quantity now s =
     (if i_book_id i \<noteq> om_book_id s then Inr (StBlocked, s)
      else case gate of
        None \<Rightarrow> Inr (StBlocked, s)
      | Some g \<Rightarrow>
          (case dget (om_orders s) (coid (i_intent_id i)) of
             Some existing \<Rightarrow> Inr (StDuplicate, s)
           | None \<Rightarrow>
               (case gated_qty s g i quantity of
                  None \<Rightarrow> Inr (StBlocked, s)
                | Some qty \<Rightarrow>
                    let od = make_order (coid (i_intent_id i)) i qty now;
                        (ns, r) = place od
                    in (case on_notices ns (register od s) of
                          Inl e \<Rightarrow> Inl e
                        | Inr s1 \<Rightarrow> Inr (place_result od r s1)))))"

definition cancel_target :: "oms \<Rightarrow> string \<Rightarrow> string option" where
  "cancel_target s c =
     (case dget (om_orders s) c of
        None \<Rightarrow> None
      | Some od \<Rightarrow> if is_terminal (o_status od) then None else o_broker_order_id od)"

subsection \<open>Restart\<close>

definition restore_fill :: "fill \<Rightarrow> order_status \<Rightarrow> int \<Rightarrow> rat \<Rightarrow> oms \<Rightarrow> oms result" where
  "restore_fill f st filled avg s =
     (case dget (om_orders s) (f_client_order_id f) of
        None \<Rightarrow>
          (case apply_fill (om_book s) f CNC ''unknown'' '''' of
             Inl e \<Rightarrow> Inl e | Inr (book, oc) \<Rightarrow> Inr (s\<lparr>om_book := book\<rparr>))
      | Some od \<Rightarrow>
          (let i = o_intent od
           in case apply_fill (om_book s) f (i_product i) (i_strategy i) (reason_value (i_reason i)) of
                Inl e \<Rightarrow> Inl e
              | Inr (book, oc) \<Rightarrow>
                  Inr (set_order od (\<lambda>x. x\<lparr>o_filled_qty := filled, o_avg_fill_price := Some avg, o_status := st,
                         o_broker_order_id := or_id (f_broker_order_id f) (o_broker_order_id od)\<rparr>)
                         (s\<lparr>om_book := book\<rparr>))))"

definition restore_ack :: "order \<Rightarrow> string \<Rightarrow> order_status \<Rightarrow> oms \<Rightarrow> oms" where
  "restore_ack od k st s =
     (let s1 = (if \<not> is_terminal (o_status od)
                then set_order od (\<lambda>x. x\<lparr>o_broker_order_id := Some k, o_status := st\<rparr>) s
                else if o_broker_order_id od = None
                then set_order od (\<lambda>x. x\<lparr>o_broker_order_id := Some k\<rparr>) s else s)
      in s1\<lparr>om_unknown := dpop (o_client_order_id od) (om_unknown s1)\<rparr>)"

definition restore_final :: "order_ref \<Rightarrow> order_status \<Rightarrow> oms \<Rightarrow> oms" where
  "restore_final r st s =
     (case dget (om_orders s) (fst r) of
        None \<Rightarrow> s
      | Some od \<Rightarrow>
          if fst (snd r) \<noteq> om_book_id s then s
          else let s1 = set_order od (\<lambda>x. x\<lparr>o_status := st\<rparr>) s
               in s1\<lparr>om_unknown := dpop (o_client_order_id od) (om_unknown s1)\<rparr>)"

fun restore_event :: "oms_event \<Rightarrow> oms \<Rightarrow> oms result" where
  "restore_event (OrderSubmitted od) s =
     Inr (if i_book_id (o_intent od) \<noteq> om_book_id s then s
          else s\<lparr>om_orders := dset (o_client_order_id od) od (om_orders s)\<rparr>)"
| "restore_event (FillReceived f st filled avg) s =
     (if f_book_id f \<noteq> om_book_id s then Inr s else restore_fill f st filled avg s)"
| "restore_event (OrderAcked r k st) s =
     Inr (case dget (om_orders s) (fst r) of
            None \<Rightarrow> s
          | Some od \<Rightarrow> if fst (snd r) \<noteq> om_book_id s then s else restore_ack od k st s)"
| "restore_event (OrderUnknown r) s =
     Inr (case dget (om_orders s) (fst r) of
            None \<Rightarrow> s
          | Some od \<Rightarrow>
              if fst (snd r) \<noteq> om_book_id s then s
              else let s1 = set_order od (\<lambda>x. x\<lparr>o_status := UNKNOWN\<rparr>) s
                   in s1\<lparr>om_unknown := dset (o_client_order_id od) 0 (om_unknown s1)\<rparr>)"
| "restore_event (OrderRejected r) s = Inr (restore_final r REJECTED s)"
| "restore_event (OrderCancelled r q) s = Inr (restore_final r CANCELLED s)"
| "restore_event (OrderExpired r q) s = Inr (restore_final r EXPIRED s)"
| "restore_event e s = Inr s"

fun restore_events :: "oms_event list \<Rightarrow> oms \<Rightarrow> oms result" where
  "restore_events [] s = Inr s"
| "restore_events (e # es) s = (case restore_event e s of Inl x \<Rightarrow> Inl x | Inr s' \<Rightarrow> restore_events es s')"

text \<open>The book reports one position per entry, so it has no position exactly when it has no entry.\<close>

definition restore :: "oms_event list \<Rightarrow> oms \<Rightarrow> oms result" where
  "restore es s =
     (if om_orders s \<noteq> [] \<or> pb_books (om_book s) \<noteq> [] then Inl RuntimeError else restore_events es s)"

subsection \<open>Unknown orders and reconciliation\<close>

fun adopt :: "fill list \<Rightarrow> oms \<Rightarrow> oms result" where
  "adopt [] s = Inr s"
| "adopt (f # fs) s = (case on_fill f s of Inl e \<Rightarrow> Inl e | Inr s' \<Rightarrow> adopt fs s')"

definition missing_fills :: "oms \<Rightarrow> fill list \<Rightarrow> fill list" where
  "missing_fills s trades = filter (\<lambda>f. \<not> has_seen (om_book s) (f_fill_id f)) trades"

text \<open>\<open>resolve_unknown\<close>: the broker is asked for an order by its tag (\<open>look\<close>) and for its trades since
  an instant (\<open>trades\<close>); the timeout is in seconds.\<close>

definition resolve_found :: "order \<Rightarrow> order_snapshot \<Rightarrow> (ts option \<Rightarrow> fill list) \<Rightarrow> oms \<Rightarrow> oms result" where
  "resolve_found od sn trades s =
     (let s1 = set_order od (\<lambda>x. x\<lparr>o_broker_order_id := Some (os_broker_order_id sn)\<rparr>) s
      in case adopt (missing_fills s1 (trades (o_submitted_at od))) s1 of
           Inl e \<Rightarrow> Inl e
         | Inr s2 \<Rightarrow>
             let cur = the_order s2 od;
                 s3 = (if \<not> is_terminal (o_status cur) \<and> os_status sn \<notin> {FILLED, PARTIALLY_FILLED}
                       then snd (advance cur (os_status sn) False s2) else s2);
                 s4 = om_emit (OrderAcked (ref_of od) (os_broker_order_id sn) (o_status (the_order s3 od))) s3
             in Inr (s4\<lparr>om_unknown := dpop (o_client_order_id od) (om_unknown s4)\<rparr>))"

definition resolve_absent :: "order \<Rightarrow> rat \<Rightarrow> ts \<Rightarrow> oms \<Rightarrow> oms" where
  "resolve_absent od timeout now s =
     (let c = o_client_order_id od;
          checks = dget_or 0 (om_unknown s) c + 1;
          s1 = s\<lparr>om_unknown := dset c checks (om_unknown s)\<rparr>;
          since = (case o_submitted_at od of None \<Rightarrow> now | Some t \<Rightarrow> t);
          waited = fdiv (of_int (now - since)) (10 ^ 6)
      in if 2 \<le> checks \<and> timeout \<le> waited
         then let s2 = om_emit (OrderRejected (ref_of od)) (set_order od (\<lambda>x. x\<lparr>o_status := REJECTED\<rparr>) s1)
              in s2\<lparr>om_unknown := dpop c (om_unknown s2)\<rparr>
         else s1)"

fun resolve_all ::
  "(string \<Rightarrow> order_snapshot option) \<Rightarrow> (ts option \<Rightarrow> fill list) \<Rightarrow> rat \<Rightarrow> ts \<Rightarrow> string list \<Rightarrow> oms \<Rightarrow> oms result" where
  "resolve_all look trades timeout now [] s = Inr s"
| "resolve_all look trades timeout now (c # cs) s =
     (case dget (om_orders s) c of
        None \<Rightarrow> Inl KeyError
      | Some od \<Rightarrow>
          (case look c of
             Some sn \<Rightarrow>
               (case resolve_found od sn trades s of
                  Inl e \<Rightarrow> Inl e | Inr s' \<Rightarrow> resolve_all look trades timeout now cs s')
           | None \<Rightarrow> resolve_all look trades timeout now cs (resolve_absent od timeout now s)))"

definition resolve_unknown ::
  "(string \<Rightarrow> order_snapshot option) \<Rightarrow> (ts option \<Rightarrow> fill list) \<Rightarrow> rat \<Rightarrow> ts \<Rightarrow> oms \<Rightarrow> oms result" where
  "resolve_unknown look trades timeout now s =
     resolve_all look trades timeout now
       (map fst (filter (\<lambda>(c, od). o_status od = UNKNOWN) (om_orders s))) s"

record broker_view =
  bv_trades :: "fill list"
  bv_orders :: "order_snapshot list"
  bv_positions :: "position list"
  bv_funds :: funds

definition order_diffs :: "oms \<Rightarrow> (string, order_snapshot) dict \<Rightarrow> recon_diff list" where
  "order_diffs s theirs =
     concat (map (\<lambda>(c, od). case dget theirs c of
         None \<Rightarrow> if o_status od \<notin> {REJECTED, UNKNOWN} then [OrderUnknownToBroker c (o_status od)] else []
       | Some sn \<Rightarrow> if os_status sn \<noteq> o_status od then [StatusDiff c (o_status od) (os_status sn)] else [])
       (om_orders s))
     @ concat (map (\<lambda>(c, sn). if dget (om_orders s) c = None then [BrokerOrderUnknown c] else []) theirs)"

definition position_diffs :: "(pos_key, int) dict \<Rightarrow> (pos_key, int) dict \<Rightarrow> recon_diff list" where
  "position_diffs ours theirs =
     concat (map (\<lambda>k. if dget_or 0 ours k \<noteq> dget_or 0 theirs k
                      then [PositionDiff k (dget_or 0 ours k) (dget_or 0 theirs k)] else [])
       (sort_key (\<lambda>(ik, pr). (ik, product_value pr)) (remdups (map fst ours @ map fst theirs))))"

fun to_dict :: "('k \<times> 'v) list \<Rightarrow> ('k, 'v) dict \<Rightarrow> ('k, 'v) dict" where
  "to_dict [] d = d"
| "to_dict ((k, v) # xs) d = to_dict xs (dset k v d)"

fun is_adopted :: "recon_diff \<Rightarrow> bool" where
  "is_adopted (AdoptedFill x) = True"
| "is_adopted d = False"

definition pos_entry :: "position \<Rightarrow> pos_key \<times> int" where
  "pos_entry p = ((p_instrument_key p, p_product p), p_quantity p)"

definition recon_diffs :: "oms \<Rightarrow> broker_view \<Rightarrow> ts \<Rightarrow> recon_diff list" where
  "recon_diffs s v now =
     (let cash = fd_available_cash (bv_funds v) + fd_blocked (bv_funds v) + fd_unsettled_credit (bv_funds v)
      in order_diffs s (to_dict (map (\<lambda>sn. (os_client_order_id sn, sn)) (bv_orders v)) [])
         @ position_diffs (to_dict (map pos_entry (pb_positions (om_book s) now)) [])
             (to_dict (map pos_entry (bv_positions v)) [])
         @ (if cash \<noteq> pb_cash (om_book s) then [CashDiff (pb_cash (om_book s)) cash] else []))"

definition reconcile :: "broker_view \<Rightarrow> ts \<Rightarrow> oms \<Rightarrow> (bool \<times> oms) result" where
  "reconcile v now s =
     (let missing = missing_fills s (bv_trades v)
      in case adopt missing s of
           Inl e \<Rightarrow> Inl e
         | Inr s1 \<Rightarrow>
             let diffs = map (\<lambda>f. AdoptedFill (f_fill_id f)) missing @ recon_diffs s1 v now;
                 in_sync = list_all is_adopted diffs;
                 s2 = om_emit (ReconciliationResult in_sync diffs) s1
             in Inr (in_sync, if in_sync then s2 else om_emit (AlertEvent ''SYS_RECON_DRIFT'') s2))"

end
