(* ===== verification/OMS_Steps.thy ===== *)
theory OMS_Steps
  imports OMS
begin

section \<open>Elementary steps of the order manager\<close>

text \<open>
  Every operation of the order manager is a sequence of the steps \<open>ostep\<close>: an order is
  registered, linked to its broker id, moved to a status with the event that records the move, or
  filled; the other steps only add an event without meaning for the state, or change the counters
  of unknown orders. The parameter \<open>P\<close> restricts the fills that may be applied.
\<close>

subsection \<open>Lemmas on the order dictionary\<close>

definition keyed :: "oms \<Rightarrow> bool" where
  "keyed s = (\<forall>c od. dget (om_orders s) c = Some od \<longrightarrow> o_client_order_id od = c)"

lemma om_emit_simps [simp]:
  "om_orders (om_emit e s) = om_orders s" "om_book (om_emit e s) = om_book s"
  "om_book_id (om_emit e s) = om_book_id s" "om_unknown (om_emit e s) = om_unknown s"
  "om_events (om_emit e s) = om_events s @ [e]"
  by (simp_all add: om_emit_def)

lemma set_order_simps [simp]:
  "om_book (set_order od upd s) = om_book s" "om_book_id (set_order od upd s) = om_book_id s"
  "om_unknown (set_order od upd s) = om_unknown s" "om_events (set_order od upd s) = om_events s"
  by (simp_all add: set_order_def Let_def)

lemma set_order_orders:
  "dget (om_orders s) (o_client_order_id od) = Some od0 \<Longrightarrow>
   om_orders (set_order od upd s) =
     dset (o_client_order_id od) ((upd od0)\<lparr>o_version := o_version od0 + 1\<rparr>) (om_orders s)"
  by (simp add: set_order_def Let_def dget_or_def)

lemma the_order_Some [simp]: "dget (om_orders s) (o_client_order_id od) = Some od0 \<Longrightarrow> the_order s od = od0"
  by (simp add: the_order_def dget_or_def)

lemma register_simps [simp]:
  "om_orders (register od s) = dset (o_client_order_id od) od (om_orders s)"
  "om_book (register od s) = om_book s" "om_book_id (register od s) = om_book_id s"
  "om_events (register od s) = om_events s @ [OrderSubmitted od]"
  by (simp_all add: register_def)

lemma make_order_simps [simp]:
  "o_client_order_id (make_order c i q now) = c" "o_intent (make_order c i q now) = i"
  "o_quantity (make_order c i q now) = q" "o_status (make_order c i q now) = SUBMITTED"
  "o_filled_qty (make_order c i q now) = 0" "o_avg_fill_price (make_order c i q now) = None"
  by (simp_all add: make_order_def)

subsection \<open>Steps\<close>

fun move_event :: "order_status \<Rightarrow> oms_event \<Rightarrow> order \<Rightarrow> bool" where
  "move_event st (OrderAcked r k st') od = (st' = st \<and> r = ref_of od \<and> \<not> is_terminal (o_status od))"
| "move_event st (OrderRejected r) od = (st = REJECTED \<and> r = ref_of od)"
| "move_event st (OrderUnknown r) od = (st = UNKNOWN \<and> r = ref_of od)"
| "move_event st (OrderCancelled r q) od = (st = CANCELLED \<and> r = ref_of od)"
| "move_event st (OrderExpired r q) od = (st = EXPIRED \<and> r = ref_of od)"
| "move_event st e od = False"

fun idle_event :: "oms_event \<Rightarrow> bool" where
  "idle_event (AlertEvent k) = True"
| "idle_event (ReconciliationResult b ds) = True"
| "idle_event e = False"

inductive ostep :: "(oms \<Rightarrow> fill \<Rightarrow> order option \<Rightarrow> bool) \<Rightarrow> oms \<Rightarrow> oms \<Rightarrow> bool" for P where
  reg: "dget (om_orders s) c = None \<Longrightarrow> 0 < qty \<Longrightarrow> i_book_id i = om_book_id s \<Longrightarrow>
    (i_reduce_only i \<Longrightarrow> qty \<le> reducible s i) \<Longrightarrow>
    ostep P s (register (make_order c i qty now) s)"
| link: "dget (om_orders s) c = Some od \<Longrightarrow>
    ostep P s (set_order od (\<lambda>x. x\<lparr>o_broker_order_id := Some k\<rparr>) s)"
| move: "dget (om_orders s) c = Some od \<Longrightarrow> move_event st e od \<Longrightarrow>
    ostep P s (om_emit e (set_order od (\<lambda>x. x\<lparr>o_status := st\<rparr>) s))"
| ack: "dget (om_orders s) c = Some od \<Longrightarrow> ostep P s (om_emit (OrderAcked (ref_of od) k (o_status od)) s)"
| fill_known: "P s f (Some od) \<Longrightarrow> dget (om_orders s) (f_client_order_id f) = Some od \<Longrightarrow> f_fill_id f \<notin> pb_seen (om_book s) \<Longrightarrow>
    on_known_fill f od s = Inr s' \<Longrightarrow> ostep P s s'"
| fill_unknown: "P s f None \<Longrightarrow> dget (om_orders s) (f_client_order_id f) = None \<Longrightarrow> f_fill_id f \<notin> pb_seen (om_book s) \<Longrightarrow>
    apply_fill (om_book s) f CNC ''unknown'' '''' = Inr (book, oc) \<Longrightarrow>
    ostep P s (s\<lparr>om_book := book, om_events := om_events s @ [AlertEvent ''oms_unknown_fill'',
       FillReceived f FILLED (f_quantity f) (f_price f), PositionChanged (fo_position oc) (f_fill_id f)]\<rparr>)"
| idle: "idle_event e \<Longrightarrow> ostep P s (om_emit e s)"
| checks: "ostep P s (s\<lparr>om_unknown := u\<rparr>)"

abbreviation osteps :: "(oms \<Rightarrow> fill \<Rightarrow> order option \<Rightarrow> bool) \<Rightarrow> oms \<Rightarrow> oms \<Rightarrow> bool" where
  "osteps P \<equiv> (ostep P)\<^sup>*\<^sup>*"

inductive_cases ostep_cases: "ostep P s s'"

lemma ostepsI: "ostep P s s' \<Longrightarrow> osteps P s' s'' \<Longrightarrow> osteps P s s''"
  by (rule converse_rtranclp_into_rtranclp)

lemma osteps_snoc: "osteps P s s' \<Longrightarrow> ostep P s' s'' \<Longrightarrow> osteps P s s''"
  by (rule rtranclp.rtrancl_into_rtrancl)

subsection \<open>Keys survive\<close>

lemma keyed_set_order:
  assumes "keyed s" "dget (om_orders s) (o_client_order_id od) = Some od0"
    and "\<And>x. o_client_order_id (upd x) = o_client_order_id x"
  shows "keyed (set_order od upd s)"
  using assms by (auto simp: keyed_def set_order_orders dget_dset)

lemma on_known_fill_orders:
  assumes "on_known_fill f od s = Inr s'" "dget (om_orders s) (o_client_order_id od) = Some od"
  shows "\<exists>v oc. om_orders s' = dset (o_client_order_id od)
      (od\<lparr>o_filled_qty := min (o_quantity od) (o_filled_qty od + f_quantity f), o_avg_fill_price := Some (new_avg od f),
          o_broker_order_id := or_id (f_broker_order_id f) (o_broker_order_id od),
          o_status := (if o_quantity od \<le> o_filled_qty od + f_quantity f then FILLED else PARTIALLY_FILLED),
          o_version := v\<rparr>) (om_orders s)
    \<and> apply_fill (om_book s) f (i_product (o_intent od)) (i_strategy (o_intent od))
        (reason_value (i_reason (o_intent od))) = Inr (om_book s', oc)
    \<and> om_book_id s' = om_book_id s \<and> om_unknown s' = om_unknown s
    \<and> om_events s' = om_events s
        @ (if o_quantity od < o_filled_qty od + f_quantity f then [AlertEvent ''oms_overfill''] else [])
        @ [FillReceived f (if o_quantity od \<le> o_filled_qty od + f_quantity f then FILLED else PARTIALLY_FILLED)
             (min (o_quantity od) (o_filled_qty od + f_quantity f)) (new_avg od f),
           PositionChanged (fo_position oc) (f_fill_id f)] @ map TradeClosed (fo_closed oc)"
proof -
  define filled where "filled = min (o_quantity od) (o_filled_qty od + f_quantity f)"
  define st where "st = (if o_quantity od \<le> o_filled_qty od + f_quantity f then FILLED else PARTIALLY_FILLED)"
  define s1 where "s1 = (if o_quantity od < o_filled_qty od + f_quantity f then om_emit (AlertEvent ''oms_overfill'') s else s)"
  define bid where "bid = or_id (f_broker_order_id f) (o_broker_order_id od)"
  define s2 where "s2 = set_order od (\<lambda>x. x\<lparr>o_filled_qty := filled, o_avg_fill_price := Some (new_avg od f),
    o_broker_order_id := bid\<rparr>) s1"
  define od2 where "od2 = od\<lparr>o_filled_qty := filled, o_avg_fill_price := Some (new_avg od f), o_broker_order_id := bid,
    o_version := o_version od + 1\<rparr>"
  define s3 where "s3 = snd (advance od2 st True s2)"
  have g1: "dget (om_orders s1) (o_client_order_id od) = Some od" using assms(2) by (simp add: s1_def)
  have o2: "om_orders s2 = dset (o_client_order_id od) od2 (om_orders s)"
    unfolding s2_def set_order_orders [OF g1] by (simp add: od2_def s1_def)
  have t2: "the_order s2 od = od2" using o2 by (intro the_order_Some) simp
  obtain v where o3: "om_orders s3 = dset (o_client_order_id od) (od2\<lparr>o_status := st, o_version := v\<rparr>) (om_orders s)"
  proof (cases "st = o_status od2 \<and> st \<noteq> PARTIALLY_FILLED")
    case True
    then have "s3 = s2" by (auto simp: s3_def advance_def)
    moreover have "od2 = od2\<lparr>o_status := st, o_version := o_version od2\<rparr>" using True by simp
    ultimately show ?thesis using o2 that by metis
  next
    case False
    then have "s3 = set_order od2 (\<lambda>x. x\<lparr>o_status := st\<rparr>) s2" by (auto simp: s3_def advance_def)
    moreover have "dget (om_orders s2) (o_client_order_id od2) = Some od2" using o2 by (simp add: od2_def)
    ultimately show ?thesis using o2 that [of "o_version od2 + 1"] by (simp add: set_order_orders od2_def)
  qed
  have t3: "the_order s3 od = od2\<lparr>o_status := st, o_version := v\<rparr>" using o3 by (intro the_order_Some) simp
  have b3: "om_book s3 = om_book s" "om_book_id s3 = om_book_id s" "om_unknown s3 = om_unknown s"
    "om_events s3 = om_events s @ (if o_quantity od < o_filled_qty od + f_quantity f then [AlertEvent ''oms_overfill''] else [])"
    by (auto simp: s3_def advance_def s2_def s1_def)
  have "on_known_fill f od s =
    (case apply_fill (om_book s3) f (i_product (o_intent od)) (i_strategy (o_intent od)) (reason_value (i_reason (o_intent od))) of
       Inl e \<Rightarrow> Inl e
     | Inr (book, oc) \<Rightarrow> Inr (s3\<lparr>om_book := book, om_events := om_events s3 @ [FillReceived f st filled (new_avg od f),
         PositionChanged (fo_position oc) (f_fill_id f)] @ map TradeClosed (fo_closed oc)\<rparr>))"
  proof -
    have f: "(if o_quantity od < o_filled_qty od + f_quantity f then o_quantity od else o_filled_qty od + f_quantity f) = filled"
      by (simp add: filled_def)
    have stq: "(if filled = o_quantity od then FILLED else PARTIALLY_FILLED) = st"
      by (simp add: filled_def st_def min_def)
    have fields: "o_status (od2\<lparr>o_status := st, o_version := v\<rparr>) = st"
      "o_intent (od2\<lparr>o_status := st, o_version := v\<rparr>) = o_intent od" by (simp_all add: od2_def)
    show ?thesis
      unfolding on_known_fill_def Let_def f stq s1_def [symmetric] bid_def [symmetric] s2_def [symmetric] t2
        s3_def [symmetric] t3 fields by (rule refl)
  qed
  with assms(1) obtain book oc where a: "apply_fill (om_book s3) f (i_product (o_intent od)) (i_strategy (o_intent od))
      (reason_value (i_reason (o_intent od))) = Inr (book, oc)"
    and s': "s' = s3\<lparr>om_book := book, om_events := om_events s3 @ [FillReceived f st filled (new_avg od f),
         PositionChanged (fo_position oc) (f_fill_id f)] @ map TradeClosed (fo_closed oc)\<rparr>"
    by (auto split: sum.splits)
  show ?thesis
    unfolding filled_def [symmetric] st_def [symmetric] bid_def [symmetric] s'
    by (intro exI [of _ v] exI [of _ oc] conjI) (use a b3 o3 in \<open>simp_all add: od2_def\<close>)
qed

lemma keyed_step: "ostep P s s' \<Longrightarrow> keyed s \<Longrightarrow> keyed s'"
proof (induction rule: ostep.induct)
  case (link s c od k)
  then show ?case by (intro keyed_set_order) (auto simp: keyed_def)
next
  case (move s c od st e)
  then have "keyed (set_order od (\<lambda>x. x\<lparr>o_status := st\<rparr>) s)" by (intro keyed_set_order) (auto simp: keyed_def)
  then show ?case by (simp add: keyed_def)
next
  case (fill_known s f od s')
  then have "o_client_order_id od = f_client_order_id f" by (simp add: keyed_def)
  then show ?case
    using on_known_fill_orders [OF fill_known.hyps(4)] fill_known
    by (auto simp: keyed_def dget_dset split: if_splits)
qed (auto simp: keyed_def dget_dset)

lemma keyed_steps: "osteps P s s' \<Longrightarrow> keyed s \<Longrightarrow> keyed s'"
  by (induction rule: rtranclp_induct) (auto intro: keyed_step)

lemma keyedD: "keyed s \<Longrightarrow> dget (om_orders s) c = Some od \<Longrightarrow> o_client_order_id od = c"
  by (simp add: keyed_def)

text \<open>Orders are never dropped, and keep their intent.\<close>

definition om_keeps :: "oms \<Rightarrow> oms \<Rightarrow> bool" where
  "om_keeps s s' =
     (om_book_id s' = om_book_id s
      \<and> (\<forall>c od. dget (om_orders s) c = Some od \<longrightarrow>
          (\<exists>od'. dget (om_orders s') c = Some od' \<and> o_intent od' = o_intent od \<and> o_quantity od' = o_quantity od
             \<and> o_submitted_at od' = o_submitted_at od)))"

lemma om_keeps_refl [simp]: "om_keeps s s"
  by (simp add: om_keeps_def)

lemma om_keeps_trans: "om_keeps s s' \<Longrightarrow> om_keeps s' s'' \<Longrightarrow> om_keeps s s''"
  unfolding om_keeps_def by metis

lemma om_keeps_step: "ostep P s s' \<Longrightarrow> keyed s \<Longrightarrow> om_keeps s s'"
proof (induction rule: ostep.induct)
  case (link s c od k)
  then show ?case by (auto simp: om_keeps_def keyed_def set_order_orders dget_dset)
next
  case (move s c od st e)
  then show ?case by (auto simp: om_keeps_def keyed_def set_order_orders dget_dset)
next
  case (fill_known s f od s')
  then have "o_client_order_id od = f_client_order_id f" by (simp add: keyed_def)
  then show ?case
    using on_known_fill_orders [OF fill_known.hyps(4)] fill_known by (auto simp: om_keeps_def dget_dset)
qed (auto simp: om_keeps_def dget_dset)

lemma om_keeps_steps: "osteps P s s' \<Longrightarrow> keyed s \<Longrightarrow> om_keeps s s'"
proof (induction rule: rtranclp_induct)
  case (step s1 s2)
  then show ?case using om_keeps_step keyed_steps om_keeps_trans by blast
qed simp

text \<open>Events are only added.\<close>

lemma ostep_events: "ostep P s s' \<Longrightarrow> keyed s \<Longrightarrow> \<exists>es. om_events s' = om_events s @ es"
proof (induction rule: ostep.induct)
  case (fill_known s f od s')
  then have "o_client_order_id od = f_client_order_id f" by (simp add: keyed_def)
  then show ?case using on_known_fill_orders [OF fill_known.hyps(4)] fill_known by auto
qed auto

lemma osteps_events: "osteps P s s' \<Longrightarrow> keyed s \<Longrightarrow> \<exists>es. om_events s' = om_events s @ es"
proof (induction rule: rtranclp_induct)
  case (step s1 s2)
  from ostep_events [OF step.hyps(2) keyed_steps [OF step.hyps(1) step.prems]] step.IH [OF step.prems]
  show ?case by auto
qed simp

lemma ref_of_keeps: "om_keeps s s' \<Longrightarrow> keyed s \<Longrightarrow> keyed s' \<Longrightarrow> dget (om_orders s) c = Some od \<Longrightarrow>
  \<exists>od'. dget (om_orders s') c = Some od' \<and> ref_of od' = ref_of od"
  by (fastforce simp: om_keeps_def keyed_def ref_of_def)

subsection \<open>Operations as sequences of steps\<close>

lemma next_status_nonterminal: "st \<in> set (next_status cur) \<Longrightarrow> \<not> is_terminal cur"
  by (cases cur) (auto simp: is_terminal_def)

lemma update_event_move:
  "os_status sn \<notin> {FILLED, PARTIALLY_FILLED} \<Longrightarrow> \<not> is_terminal (o_status od) \<Longrightarrow>
   move_event (os_status sn) (update_event od sn) od"
  by (cases "os_status sn") (auto simp: update_event_def)

lemma update_event_ref: "ref_of od' = ref_of od \<Longrightarrow> update_event od' sn = update_event od sn"
  by (cases "os_status sn") (simp_all add: update_event_def)

lemma on_update_steps:
  assumes "keyed s"
  shows "osteps P s (on_update sn s)"
proof (cases "dget (om_orders s) (os_client_order_id sn)")
  case None
  then show ?thesis by (auto simp: on_update_def intro!: r_into_rtranclp idle)
next
  case (Some od)
  have id: "o_client_order_id od = os_client_order_id sn" using assms Some by (simp add: keyed_def)
  define s1 where "s1 = (if o_broker_order_id od = None
     then set_order od (\<lambda>x. x\<lparr>o_broker_order_id := Some (os_broker_order_id sn)\<rparr>) s else s)"
  obtain od1 where od1: "dget (om_orders s1) (os_client_order_id sn) = Some od1" "o_status od1 = o_status od"
    "ref_of od1 = ref_of od" "o_client_order_id od1 = os_client_order_id sn"
    using Some id by (cases "o_broker_order_id od = None")
      (auto simp: s1_def set_order_orders ref_of_def)
  have 1: "osteps P s s1" using link [OF Some] by (auto simp: s1_def)
  define s2 where "s2 = set_order od (\<lambda>x. x\<lparr>o_status := os_status sn\<rparr>) s1"
  show ?thesis
  proof (cases "os_status sn \<in> {FILLED, PARTIALLY_FILLED} \<or> \<not> fst (advance od (os_status sn) False s1)")
    case True
    then have "on_update sn s = s1"
      using Some by (auto simp: on_update_def s1_def advance_def Let_def)
    with 1 show ?thesis by simp
  next
    case False
    then have st: "os_status sn \<notin> {FILLED, PARTIALLY_FILLED}" "os_status sn \<in> set (next_status (o_status od))"
      by (auto simp: advance_def split: if_splits)
    have a: "advance od (os_status sn) False s1 = (True, s2)"
      using False by (auto simp: advance_def s2_def split: if_splits)
    have "s2 = set_order od1 (\<lambda>x. x\<lparr>o_status := os_status sn\<rparr>) s1"
      using od1 id by (simp add: s2_def set_order_def Let_def dget_or_def)
    moreover have "the_order s2 od = od1\<lparr>o_status := os_status sn, o_version := o_version od1 + 1\<rparr>"
      using od1 id by (intro the_order_Some) (simp add: s2_def set_order_orders)
    then have "update_event (the_order s2 od) sn = update_event od1 sn"
      by (intro update_event_ref) (simp add: ref_of_def)
    ultimately have "on_update sn s = om_emit (update_event od1 sn) (set_order od1 (\<lambda>x. x\<lparr>o_status := os_status sn\<rparr>) s1)"
      using Some st a by (simp add: on_update_def flip: s1_def)
    moreover have "ostep P s1 (om_emit (update_event od1 sn) (set_order od1 (\<lambda>x. x\<lparr>o_status := os_status sn\<rparr>) s1))"
      using st od1 next_status_nonterminal by (intro move [OF od1(1)] update_event_move) auto
    ultimately show ?thesis using 1 by (simp add: osteps_snoc)
  qed
qed

lemma on_fill_steps:
  assumes "on_fill f s = Inr s'" "P s f (dget (om_orders s) (f_client_order_id f))"
  shows "osteps P s s'"
  using assms by (auto simp: on_fill_def has_seen_def split: if_splits option.splits sum.splits
      intro: fill_known fill_unknown)

lemma on_notices_steps:
  assumes "on_notices ns s = Inr s'" "keyed s" "\<forall>f \<in> set (notice_fills ns). \<forall>s od. P s f od"
  shows "osteps P s s'"
  using assms
proof (induction ns s rule: on_notices.induct)
  case (2 sn ns s)
  then have "osteps P s (on_update sn s)" "keyed (on_update sn s)"
    using on_update_steps keyed_steps by blast+
  with 2 show ?case by (auto intro: rtranclp_trans)
next
  case (3 f ns s)
  obtain s1 where s1: "on_fill f s = Inr s1" "on_notices ns s1 = Inr s'" using 3 by (auto split: sum.splits)
  have "osteps P s s1" using on_fill_steps [OF s1(1)] 3(4) by simp
  moreover from this have "keyed s1" using keyed_steps 3(3) by blast
  ultimately show ?case using 3 s1 by (auto intro: rtranclp_trans)
qed simp

lemma adopt_steps:
  assumes "adopt fs s = Inr s'" "keyed s" "\<forall>f \<in> set fs. \<forall>s od. P s f od"
  shows "osteps P s s'"
  using assms
proof (induction fs arbitrary: s)
  case (Cons f fs)
  obtain s1 where s1: "on_fill f s = Inr s1" "adopt fs s1 = Inr s'" using Cons by (auto split: sum.splits)
  have "osteps P s s1" using on_fill_steps [OF s1(1)] Cons.prems(3) by simp
  moreover from this have "keyed s1" using keyed_steps Cons.prems(2) by blast
  ultimately show ?case using Cons s1 by (auto intro: rtranclp_trans)
qed simp

lemma set_order_ref:
  "dget (om_orders s) (o_client_order_id od) = Some od0 \<Longrightarrow> o_client_order_id od0 = o_client_order_id od \<Longrightarrow>
   set_order od upd s = set_order od0 upd s"
  by (simp add: set_order_def Let_def dget_or_def)

lemma place_result_steps:
  assumes "keyed s" "dget (om_orders s) (o_client_order_id od) = Some od0" "ref_of od0 = ref_of od"
  shows "osteps P s (snd (place_result od r s))"
proof -
  have id: "o_client_order_id od0 = o_client_order_id od" by (rule keyedD [OF assms(1,2)])
  note so = set_order_ref [OF assms(2) id]
  have unk: "osteps P s (mark_unknown od s)"
  proof -
    have "ostep P s (om_emit (OrderUnknown (ref_of od)) (set_order od0 (\<lambda>x. x\<lparr>o_status := UNKNOWN\<rparr>) s))"
      by (rule move [OF assms(2)]) (simp add: assms(3))
    moreover have "mark_unknown od s =
      (om_emit (OrderUnknown (ref_of od)) (set_order od0 (\<lambda>x. x\<lparr>o_status := UNKNOWN\<rparr>) s))
        \<lparr>om_unknown := dset (o_client_order_id od) 0 (om_unknown s)\<rparr>"
      by (simp add: mark_unknown_def so Let_def om_emit_def)
    ultimately show ?thesis using checks by (metis r_into_rtranclp osteps_snoc)
  qed
  have rej: "ostep P s (om_emit (OrderRejected (ref_of od)) (set_order od (\<lambda>x. x\<lparr>o_status := REJECTED\<rparr>) s))"
    unfolding so by (rule move [OF assms(2)]) (simp add: assms(3))
  show ?thesis
  proof (cases r)
    case (Inl e)
    with unk rej show ?thesis by (auto simp: place_result_def)
  next
    case (Inr ack)
    show ?thesis
    proof (cases "o_status od0 = SUBMITTED")
      case False
      with Inr assms(2) show ?thesis by (simp add: place_result_def)
    next
      case True
      define s1 where "s1 = set_order od0 (\<lambda>x. x\<lparr>o_broker_order_id := Some (ak_broker_order_id ack)\<rparr>) s"
      define od1 where "od1 = od0\<lparr>o_broker_order_id := Some (ak_broker_order_id ack), o_version := o_version od0 + 1\<rparr>"
      have o1: "om_orders s1 = dset (o_client_order_id od) od1 (om_orders s)"
        using assms(2) id by (simp add: s1_def set_order_orders od1_def)
      have g1: "dget (om_orders s1) (o_client_order_id od) = Some od1" using o1 by simp
      have st1: "o_status od1 = SUBMITTED" "ref_of od1 = ref_of od0" "o_client_order_id od1 = o_client_order_id od"
        using True id by (simp_all add: od1_def ref_of_def)
      have 1: "ostep P s s1" unfolding s1_def by (rule link [OF assms(2)])
      define s2 where "s2 = snd (advance od0 (ak_status ack) False s1)"
      have e: "snd (place_result od r s) =
        om_emit (OrderAcked (ref_of od0) (ak_broker_order_id ack) (o_status (the_order s2 od))) s2"
        using Inr assms(2) True unfolding s2_def s1_def by (simp add: place_result_def Let_def)
      have "osteps P s1 (snd (place_result od r s))"
      proof (cases "fst (advance od0 (ak_status ack) False s1)")
        case False
        then have "s2 = s1" by (auto simp: s2_def advance_def split: if_splits)
        with e g1 st1 ack [OF g1, of P "ak_broker_order_id ack"] show ?thesis by simp
      next
        case moved: True
        then have "s2 = set_order od0 (\<lambda>x. x\<lparr>o_status := ak_status ack\<rparr>) s1"
          by (auto simp: s2_def advance_def split: if_splits)
        then have s2: "s2 = set_order od1 (\<lambda>x. x\<lparr>o_status := ak_status ack\<rparr>) s1"
          using set_order_ref [of s1 od0 od1] g1 id st1(3) by simp
        have "the_order s2 od = od1\<lparr>o_status := ak_status ack, o_version := o_version od1 + 1\<rparr>"
          using g1 st1(3) by (intro the_order_Some) (simp add: s2 set_order_orders)
        with e s2 st1 move [OF g1, where st = "ak_status ack" and P = P and e = "OrderAcked (ref_of od0) (ak_broker_order_id ack) (ak_status ack)"]
        show ?thesis by (simp add: is_terminal_def)
      qed
      with 1 show ?thesis by (rule ostepsI)
    qed
  qed
qed

lemma gated_qty_pos: "gated_qty s g i q = Some n \<Longrightarrow> 0 < n"
  by (auto simp: gated_qty_def Let_def split: if_splits option.splits)

lemma gated_qty_reduce: "gated_qty s g i q = Some n \<Longrightarrow> i_reduce_only i \<Longrightarrow> n \<le> reducible s i"
  by (auto simp: gated_qty_def asked_qty_def Let_def split: if_splits option.splits)

lemma gated_qty_le:
  "gated_qty s g i q = Some n \<Longrightarrow>
   n \<le> g i (asked_qty s i q) \<and> (case asked_qty s i q of None \<Rightarrow> True | Some a \<Rightarrow> n \<le> a)"
  by (auto simp: gated_qty_def Let_def split: if_splits option.splits)

lemma submit_steps:
  assumes "submit coid gate place i q now s = Inr (st, s')" "keyed s"
    and "\<forall>od. \<forall>f \<in> set (notice_fills (fst (place od))). \<forall>s od. P s f od"
  shows "osteps P s s'"
proof (cases "s' = s")
  case False
  then obtain g n where r: "gate = Some g" "i_book_id i = om_book_id s" "dget (om_orders s) (coid (i_intent_id i)) = None"
    "gated_qty s g i q = Some n"
    using assms(1) by (auto simp: submit_def split: if_splits option.splits)
  define od where "od = make_order (coid (i_intent_id i)) i n now"
  obtain ns r' where p: "place od = (ns, r')" by (cases "place od")
  obtain s1 where n: "on_notices ns (register od s) = Inr s1" "s' = snd (place_result od r' s1)"
    using assms(1) r p by (auto simp: submit_def Let_def od_def split: sum.splits)
  have 1: "ostep P s (register od s)" unfolding od_def
    using gated_qty_pos [OF r(4)] gated_qty_reduce [OF r(4)] by (intro reg r(2,3)) auto
  note k1 = keyed_step [OF 1 assms(2)]
  have 2: "osteps P (register od s) s1" by (rule on_notices_steps [OF n(1) k1]) (use assms(3) p in \<open>metis fst_conv\<close>)
  obtain od0 where "dget (om_orders s1) (o_client_order_id od) = Some od0" "ref_of od0 = ref_of od"
    using ref_of_keeps [OF om_keeps_steps [OF 2 k1] k1 keyed_steps [OF 2 k1], of "o_client_order_id od" od] by auto
  from place_result_steps [OF keyed_steps [OF 2 k1] this, of P r'] n(2) 1 2 show ?thesis
    by (auto intro: ostepsI rtranclp_trans)
qed simp

lemma resolve_found_steps:
  assumes "resolve_found od sn trades s = Inr s'" "keyed s" "dget (om_orders s) c = Some od"
    and "\<forall>t. \<forall>f \<in> set (trades t). \<forall>s od. P s f od"
  shows "osteps P s s'"
proof -
  have id: "o_client_order_id od = c" by (rule keyedD [OF assms(2,3)])
  define s1 where "s1 = set_order od (\<lambda>x. x\<lparr>o_broker_order_id := Some (os_broker_order_id sn)\<rparr>) s"
  have 1: "ostep P s s1" unfolding s1_def by (rule link [OF assms(3)])
  obtain s2 where a: "adopt (missing_fills s1 (trades (o_submitted_at od))) s1 = Inr s2"
    using assms(1) by (auto simp: resolve_found_def Let_def s1_def split: sum.splits)
  note k1 = keyed_step [OF 1 assms(2)]
  have 2: "osteps P s1 s2" by (rule adopt_steps [OF a k1]) (use assms(4) in \<open>auto simp: missing_fills_def\<close>)
  note k2 = keyed_steps [OF 2 k1]
  have "osteps P s s2" using 1 2 by (rule ostepsI)
  then obtain cur where cur: "dget (om_orders s2) c = Some cur" "ref_of cur = ref_of od"
    using ref_of_keeps [OF om_keeps_steps assms(2) k2 assms(3)] assms(2) by blast
  have tc: "the_order s2 od = cur" using cur id by simp
  define s3 where "s3 = (if \<not> is_terminal (o_status cur) \<and> os_status sn \<notin> {FILLED, PARTIALLY_FILLED}
                       then snd (advance cur (os_status sn) False s2) else s2)"
  have e: "s' = (om_emit (OrderAcked (ref_of od) (os_broker_order_id sn) (o_status (the_order s3 od))) s3)
      \<lparr>om_unknown := dpop (o_client_order_id od) (om_unknown s3)\<rparr>"
    using assms(1) unfolding resolve_found_def Let_def s1_def [symmetric] a sum.case tc s3_def [symmetric] by simp
  have "osteps P s2 (om_emit (OrderAcked (ref_of od) (os_broker_order_id sn) (o_status (the_order s3 od))) s3)"
  proof (cases "s3 = s2")
    case True
    with tc cur ack [OF cur(1), of P "os_broker_order_id sn"] show ?thesis by simp
  next
    case False
    then have m: "\<not> is_terminal (o_status cur)" "s3 = set_order cur (\<lambda>x. x\<lparr>o_status := os_status sn\<rparr>) s2"
      by (auto simp: s3_def advance_def split: if_splits)
    have "the_order s3 od = cur\<lparr>o_status := os_status sn, o_version := o_version cur + 1\<rparr>"
      using cur id keyedD [OF k2 cur(1)] by (intro the_order_Some) (simp add: m(2) set_order_orders)
    with m cur move [OF cur(1), where st = "os_status sn" and P = P and e = "OrderAcked (ref_of od) (os_broker_order_id sn) (os_status sn)"]
    show ?thesis by simp
  qed
  then have "osteps P s2 s'" unfolding e using checks by (metis osteps_snoc)
  with \<open>osteps P s s2\<close> show ?thesis by (rule rtranclp_trans)
qed

lemma resolve_absent_steps:
  assumes "keyed s" "dget (om_orders s) c = Some od"
  shows "osteps P s (resolve_absent od timeout now s)"
proof -
  define s1 where "s1 = s\<lparr>om_unknown := dset (o_client_order_id od) (dget_or 0 (om_unknown s) (o_client_order_id od) + 1)
    (om_unknown s)\<rparr>"
  have 1: "ostep P s s1" unfolding s1_def by (rule checks)
  have g: "dget (om_orders s1) c = Some od" using assms(2) by (simp add: s1_def)
  have 2: "ostep P s1 (om_emit (OrderRejected (ref_of od)) (set_order od (\<lambda>x. x\<lparr>o_status := REJECTED\<rparr>) s1))"
    by (rule move [OF g]) simp
  have "resolve_absent od timeout now s = s1
    \<or> (\<exists>u. resolve_absent od timeout now s =
        (om_emit (OrderRejected (ref_of od)) (set_order od (\<lambda>x. x\<lparr>o_status := REJECTED\<rparr>) s1))\<lparr>om_unknown := u\<rparr>)"
    unfolding resolve_absent_def Let_def s1_def [symmetric] by auto
  then show ?thesis using 1 2 checks by (metis r_into_rtranclp osteps_snoc)
qed

lemma resolve_all_steps:
  assumes "resolve_all look trades timeout now cs s = Inr s'" "keyed s"
    and "\<forall>t. \<forall>f \<in> set (trades t). \<forall>s od. P s f od"
  shows "osteps P s s'"
  using assms
proof (induction cs arbitrary: s)
  case (Cons c cs)
  obtain od where od: "dget (om_orders s) c = Some od" using Cons.prems(1) by (auto split: option.splits)
  obtain s1 where s1: "osteps P s s1" "resolve_all look trades timeout now cs s1 = Inr s'"
  proof (cases "look c")
    case None
    with od Cons.prems that [OF resolve_absent_steps [OF Cons.prems(2) od]] show ?thesis by simp
  next
    case (Some sn)
    with od Cons.prems obtain s1 where "resolve_found od sn trades s = Inr s1"
      "resolve_all look trades timeout now cs s1 = Inr s'" by (auto split: sum.splits)
    with that resolve_found_steps [OF _ Cons.prems(2) od Cons.prems(3)] show ?thesis by blast
  qed
  from Cons.IH [OF s1(2) keyed_steps [OF s1(1) Cons.prems(2)] Cons.prems(3)] s1(1) show ?case by (rule rtranclp_trans [rotated])
qed simp

lemma reconcile_steps:
  assumes "reconcile v now s = Inr (b, s')" "keyed s" "\<forall>f \<in> set (bv_trades v). \<forall>s od. P s f od"
  shows "osteps P s s'"
proof -
  obtain s1 where a: "adopt (missing_fills s (bv_trades v)) s = Inr s1"
    using assms(1) by (auto simp: reconcile_def Let_def split: sum.splits)
  have "osteps P s s1" by (rule adopt_steps [OF a assms(2)]) (use assms(3) in \<open>auto simp: missing_fills_def\<close>)
  moreover define ds where "ds = map (\<lambda>f. AdoptedFill (f_fill_id f)) (missing_fills s (bv_trades v)) @ recon_diffs s1 v now"
  have "b = list_all is_adopted ds" "s' = (if b then om_emit (ReconciliationResult b ds) s1
      else om_emit (AlertEvent ''SYS_RECON_DRIFT'') (om_emit (ReconciliationResult b ds) s1))"
    using assms(1) unfolding reconcile_def Let_def a sum.case ds_def [symmetric] by auto
  ultimately show ?thesis
    using idle [of "ReconciliationResult b ds" P s1]
      idle [of "AlertEvent ''SYS_RECON_DRIFT''" P "om_emit (ReconciliationResult b ds) s1"]
    by (auto intro: osteps_snoc)
qed

end
