(* ===== verification/OMS_Inv.thy ===== *)
theory OMS_Inv
  imports OMS_Steps
begin

section \<open>Invariants of the order manager\<close>

text \<open>
  Three invariants of the steps: every order is well formed and the book balances (\<open>oms_inv\<close>);
  replaying the emitted events rebuilds the orders and the book (\<open>replays\<close>); the shares committed to
  reduce-only orders never exceed the position they reduce (\<open>reduce_inv\<close>).
\<close>

subsection \<open>Well-formed orders\<close>

definition oms_inv :: "oms \<Rightarrow> bool" where
  "oms_inv s =
     (keyed s \<and> distinct (map fst (om_orders s))
      \<and> (\<forall>c od. dget (om_orders s) c = Some od \<longrightarrow> order_valid od \<and> i_book_id (o_intent od) = om_book_id s)
      \<and> pb_inv (om_book s) \<and> pb_book_id (om_book s) = om_book_id s)"

abbreviation valid_fills :: "oms \<Rightarrow> fill \<Rightarrow> order option \<Rightarrow> bool" where
  "valid_fills \<equiv> (\<lambda>s f od. fill_valid f)"

lemma oms_inv_keyed: "oms_inv s \<Longrightarrow> keyed s"
  by (simp add: oms_inv_def)

lemma oms_inv_set_order:
  assumes "oms_inv s" "dget (om_orders s) c = Some od"
    and "o_client_order_id (upd od) = c" "order_valid ((upd od)\<lparr>o_version := o_version od + 1\<rparr>)"
    and "o_intent (upd od) = o_intent od"
  shows "oms_inv (set_order od upd s)"
proof -
  have id: "o_client_order_id od = c" using assms(1,2) by (simp add: oms_inv_def keyed_def)
  then have "om_orders (set_order od upd s) = dset c ((upd od)\<lparr>o_version := o_version od + 1\<rparr>) (om_orders s)"
    using assms(2) set_order_orders [of s od od upd] by simp
  with assms id show ?thesis by (auto simp: oms_inv_def keyed_def dget_dset distinct_dset)
qed

lemma oms_inv_emit [simp]: "oms_inv (om_emit e s) = oms_inv s"
  by (simp add: oms_inv_def keyed_def)

lemma apply_fill_book_inv:
  assumes "apply_fill pb f pr st er = Inr (pb', oc)" "pb_inv pb" "fill_valid f"
  shows "pb_inv pb' \<and> pb_book_id pb' = pb_book_id pb"
  using apply_fill_inv [OF assms] apply_fill_frame [OF assms(1)] by simp

lemma oms_inv_step: "ostep valid_fills s s' \<Longrightarrow> oms_inv s \<Longrightarrow> oms_inv s'"
proof (induction rule: ostep.induct)
  case (reg s c qty i now)
  then show ?case by (auto simp: oms_inv_def keyed_def dget_dset distinct_dset order_valid_def)
next
  case (link s c od k)
  then show ?case
    by (intro oms_inv_set_order [OF link.prems link.hyps]) (auto simp: oms_inv_def keyed_def order_valid_def)
next
  case (move s c od st e)
  have "oms_inv (set_order od (\<lambda>x. x\<lparr>o_status := st\<rparr>) s)"
    using move by (intro oms_inv_set_order [OF move.prems move.hyps(1)]) (auto simp: oms_inv_def keyed_def order_valid_def)
  then show ?case by simp
next
  case (fill_known s f od s')
  have k: "o_client_order_id od = f_client_order_id f" and v: "order_valid od"
    and pb: "pb_inv (om_book s)" "pb_book_id (om_book s) = om_book_id s" and ib: "i_book_id (o_intent od) = om_book_id s"
    using fill_known by (auto simp: oms_inv_def keyed_def)
  obtain ver oc where o: "om_orders s' = dset (f_client_order_id f)
      (od\<lparr>o_filled_qty := min (o_quantity od) (o_filled_qty od + f_quantity f), o_avg_fill_price := Some (new_avg od f),
          o_broker_order_id := or_id (f_broker_order_id f) (o_broker_order_id od),
          o_status := (if o_quantity od \<le> o_filled_qty od + f_quantity f then FILLED else PARTIALLY_FILLED),
          o_version := ver\<rparr>) (om_orders s)"
    and a: "apply_fill (om_book s) f (i_product (o_intent od)) (i_strategy (o_intent od))
        (reason_value (i_reason (o_intent od))) = Inr (om_book s', oc)"
    and b: "om_book_id s' = om_book_id s"
    using on_known_fill_orders [OF fill_known.hyps(4)] fill_known.hyps(2) k by auto
  have "pb_inv (om_book s') \<and> pb_book_id (om_book s') = pb_book_id (om_book s)"
    by (rule apply_fill_book_inv [OF a pb(1) fill_known.hyps(1)])
  moreover have "order_valid (od\<lparr>o_filled_qty := min (o_quantity od) (o_filled_qty od + f_quantity f),
      o_avg_fill_price := Some (new_avg od f), o_broker_order_id := bid, o_status := st, o_version := ver\<rparr>)" for bid st
    using v fill_known.hyps(1) by (auto simp: order_valid_def fill_valid_def)
  ultimately show ?case using fill_known.prems o b k pb(2) ib
    by (auto simp: oms_inv_def keyed_def dget_dset distinct_dset)
next
  case (fill_unknown s f book oc)
  then have "pb_inv book \<and> pb_book_id book = pb_book_id (om_book s)"
    by (intro apply_fill_book_inv [OF fill_unknown.hyps(4)]) (auto simp: oms_inv_def)
  with fill_unknown.prems show ?case by (simp add: oms_inv_def keyed_def)
qed (auto simp: oms_inv_def keyed_def)

lemma oms_inv_steps: "osteps valid_fills s s' \<Longrightarrow> oms_inv s \<Longrightarrow> oms_inv s'"
  by (induction rule: rtranclp_induct) (auto intro: oms_inv_step)

subsection \<open>Replay\<close>

text \<open>What a restart can rebuild of an order: everything but the broker's id and the version count.\<close>

definition strip :: "order \<Rightarrow> order" where
  "strip od = od\<lparr>o_broker_order_id := None, o_version := 0\<rparr>"

definition strip_orders :: "(string, order) dict \<Rightarrow> (string, order) dict" where
  "strip_orders d = map (\<lambda>(c, od). (c, strip od)) d"

definition same_state :: "oms \<Rightarrow> oms \<Rightarrow> bool" where
  "same_state s r =
     (om_book_id r = om_book_id s \<and> om_book r = om_book s \<and> keyed r
      \<and> strip_orders (om_orders r) = strip_orders (om_orders s))"

lemma strip_orders_dset [simp]: "strip_orders (dset c od d) = dset c (strip od) (strip_orders d)"
  by (induction d) (auto simp: strip_orders_def)

lemma dget_strip_orders [simp]: "dget (strip_orders d) c = map_option strip (dget d c)"
  by (induction d) (auto simp: strip_orders_def)

lemma dset_same: "dget d c = Some v \<Longrightarrow> dset c v d = d"
  by (induction d) (auto split: if_splits)

lemma strip_eqD:
  assumes "strip od' = strip od"
  shows "o_intent od' = o_intent od" "o_status od' = o_status od" "o_client_order_id od' = o_client_order_id od"
    "o_quantity od' = o_quantity od" "o_filled_qty od' = o_filled_qty od"
  using assms unfolding strip_def
  by (metis order.select_convs order.surjective order.update_convs)+

lemma same_state_order:
  assumes "same_state s r" "dget (om_orders s) c = Some od"
  obtains od' where "dget (om_orders r) c = Some od'" "strip od' = strip od"
proof -
  have "map_option strip (dget (om_orders r) c) = map_option strip (dget (om_orders s) c)"
    using assms(1) by (metis same_state_def dget_strip_orders)
  with assms(2) that show ?thesis by auto
qed

lemma same_state_None:
  "same_state s r \<Longrightarrow> dget (om_orders s) c = None \<longleftrightarrow> dget (om_orders r) c = None"
  by (metis same_state_def dget_strip_orders option.map_disc_iff)

text \<open>Two orders that agree still agree after the same change.\<close>

lemma same_state_put:
  assumes "same_state s r" "om_orders s' = dset c od (om_orders s)" "om_orders r' = dset c od' (om_orders r)"
    and "strip od' = strip od" "o_client_order_id od = c"
    and "om_book_id s' = om_book_id s" "om_book_id r' = om_book_id r" "om_book s' = om_book r'"
  shows "same_state s' r'"
  using assms strip_eqD(3) [OF assms(4)] by (auto simp: same_state_def keyed_def dget_dset)

lemma restore_events_append:
  "restore_events (xs @ ys) s = (case restore_events xs s of Inl e \<Rightarrow> Inl e | Inr s' \<Rightarrow> restore_events ys s')"
  by (induction xs arbitrary: s) (auto split: sum.splits)

lemma restore_closed [simp]: "restore_events (map TradeClosed ps) s = Inr s"
  by (induction ps) auto

definition replays :: "oms \<Rightarrow> oms \<Rightarrow> bool" where
  "replays s0 s = (\<exists>r. restore_events (om_events s) s0 = Inr r \<and> same_state s r)"

lemma replaysI:
  assumes "replays s0 s" "om_events s' = om_events s @ es"
    and "\<And>r. same_state s r \<Longrightarrow> \<exists>r'. restore_events es r = Inr r' \<and> same_state s' r'"
  shows "replays s0 s'"
  using assms by (fastforce simp: replays_def restore_events_append)

lemma strip_cong:
  "strip od' = strip od \<Longrightarrow> strip (od'\<lparr>o_status := st, o_version := v'\<rparr>) = strip (od\<lparr>o_status := st, o_version := v\<rparr>)"
  by (cases od; cases od') (auto simp: strip_def)

lemma strip_cong_ack:
  "strip od' = strip od \<Longrightarrow>
   strip (od'\<lparr>o_broker_order_id := b, o_status := st, o_version := v'\<rparr>) = strip (od\<lparr>o_status := st, o_version := v\<rparr>)"
  by (cases od; cases od') (auto simp: strip_def)

lemma strip_cong_fill:
  "strip od' = strip od \<Longrightarrow>
   strip (od'\<lparr>o_filled_qty := n, o_avg_fill_price := a, o_status := st, o_broker_order_id := b', o_version := v'\<rparr>)
     = strip (od\<lparr>o_filled_qty := n, o_avg_fill_price := a, o_broker_order_id := b, o_status := st, o_version := v\<rparr>)"
  by (cases od; cases od') (auto simp: strip_def)

lemma apply_fill_book_id: "apply_fill pb f pr st er = Inr (pb', oc) \<Longrightarrow> f_book_id f = pb_book_id pb"
  by (auto simp: apply_fill_def split: if_splits)

lemma set_order_at:
  assumes "keyed r" "dget (om_orders r) c = Some od'"
  shows "om_orders (set_order od' upd r) = dset c ((upd od')\<lparr>o_version := o_version od' + 1\<rparr>) (om_orders r)"
  using assms set_order_orders [of r od' od' upd] by (simp add: keyed_def)

lemma replay_final:
  assumes "same_state s r" "keyed s" "dget (om_orders s) c = Some od" "i_book_id (o_intent od) = om_book_id s"
    and "s' = set_order od (\<lambda>x. x\<lparr>o_status := st\<rparr>) s"
  shows "same_state s' (restore_final (ref_of od) st r)"
proof -
  obtain od' where od': "dget (om_orders r) c = Some od'" "strip od' = strip od"
    by (rule same_state_order [OF assms(1,3)])
  have id: "o_client_order_id od = c" by (rule keyedD [OF assms(2,3)])
  have r: "om_book_id r = om_book_id s" "om_book r = om_book s" "keyed r" using assms(1) by (simp_all add: same_state_def)
  have o: "om_orders s' = dset c (od\<lparr>o_status := st, o_version := o_version od + 1\<rparr>) (om_orders s)"
    "om_orders (restore_final (ref_of od) st r) = dset c (od'\<lparr>o_status := st, o_version := o_version od' + 1\<rparr>) (om_orders r)"
    using assms(4,5) set_order_at [OF assms(2,3)] set_order_at [OF r(3) od'(1)] od' id r
    by (simp_all add: restore_final_def ref_of_def Let_def)
  show ?thesis
    by (rule same_state_put [OF assms(1) o strip_cong [OF od'(2)]])
       (use assms(4,5) id r od' in \<open>simp_all add: restore_final_def ref_of_def Let_def\<close>)
qed

lemma replay_unknown:
  assumes "same_state s r" "keyed s" "dget (om_orders s) c = Some od" "i_book_id (o_intent od) = om_book_id s"
    and "s' = set_order od (\<lambda>x. x\<lparr>o_status := UNKNOWN\<rparr>) s"
  shows "\<exists>r'. restore_event (OrderUnknown (ref_of od)) r = Inr r' \<and> same_state s' r'"
proof -
  obtain od' where od': "dget (om_orders r) c = Some od'" "strip od' = strip od"
    by (rule same_state_order [OF assms(1,3)])
  have id: "o_client_order_id od = c" by (rule keyedD [OF assms(2,3)])
  have r: "om_book_id r = om_book_id s" "om_book r = om_book s" "keyed r" using assms(1) by (simp_all add: same_state_def)
  obtain r' where r': "restore_event (OrderUnknown (ref_of od)) r = Inr r'"
    "om_orders r' = om_orders (set_order od' (\<lambda>x. x\<lparr>o_status := UNKNOWN\<rparr>) r)" "om_book_id r' = om_book_id r" "om_book r' = om_book r"
    using od' id r assms(4) by (simp add: ref_of_def Let_def)
  have o: "om_orders s' = dset c (od\<lparr>o_status := UNKNOWN, o_version := o_version od + 1\<rparr>) (om_orders s)"
    "om_orders r' = dset c (od'\<lparr>o_status := UNKNOWN, o_version := o_version od' + 1\<rparr>) (om_orders r)"
    using assms(5) set_order_at [OF assms(2,3)] set_order_at [OF r(3) od'(1)] r' by simp_all
  have "same_state s' r'"
    by (rule same_state_put [OF assms(1) o strip_cong [OF od'(2)]]) (use assms(5) id r r' in simp_all)
  with r'(1) show ?thesis by blast
qed

lemma replay_ack:
  assumes "same_state s r" "keyed s" "dget (om_orders s) c = Some od" "i_book_id (o_intent od) = om_book_id s"
    and "\<not> is_terminal (o_status od)" "s' = set_order od (\<lambda>x. x\<lparr>o_status := st\<rparr>) s"
  shows "\<exists>r'. restore_event (OrderAcked (ref_of od) k st) r = Inr r' \<and> same_state s' r'"
proof -
  obtain od' where od': "dget (om_orders r) c = Some od'" "strip od' = strip od"
    by (rule same_state_order [OF assms(1,3)])
  have id: "o_client_order_id od = c" by (rule keyedD [OF assms(2,3)])
  have r: "om_book_id r = om_book_id s" "om_book r = om_book s" "keyed r" using assms(1) by (simp_all add: same_state_def)
  have nt: "\<not> is_terminal (o_status od')" using strip_eqD(2) [OF od'(2)] assms(5) by simp
  obtain r' where r': "restore_event (OrderAcked (ref_of od) k st) r = Inr r'"
    "om_orders r' = om_orders (set_order od' (\<lambda>x. x\<lparr>o_broker_order_id := Some k, o_status := st\<rparr>) r)"
    "om_book_id r' = om_book_id r" "om_book r' = om_book r"
    using od' id r assms(4) nt by (simp add: ref_of_def restore_ack_def Let_def)
  have o: "om_orders s' = dset c (od\<lparr>o_status := st, o_version := o_version od + 1\<rparr>) (om_orders s)"
    "om_orders r' = dset c (od'\<lparr>o_broker_order_id := Some k, o_status := st, o_version := o_version od' + 1\<rparr>) (om_orders r)"
    using assms(6) set_order_at [OF assms(2,3)] set_order_at [OF r(3) od'(1)] r' by simp_all
  have "same_state s' r'"
    by (rule same_state_put [OF assms(1) o strip_cong_ack [OF od'(2)]]) (use assms(6) id r r' in simp_all)
  with r'(1) show ?thesis by blast
qed

lemma strip_eq_self: "strip od' = strip od \<Longrightarrow> strip (od'\<lparr>o_broker_order_id := b, o_version := v\<rparr>) = strip od"
  by (cases od; cases od') (auto simp: strip_def)

lemma same_state_noop:
  assumes "same_state s r" "dget (om_orders s) c = Some od" "om_orders r' = dset c od' (om_orders r)"
    and "strip od' = strip od" "o_client_order_id od = c" "om_book_id r' = om_book_id r" "om_book r' = om_book r"
  shows "same_state s r'"
proof -
  have "strip_orders (om_orders r') = strip_orders (om_orders s)"
    using assms dset_same [of "strip_orders (om_orders s)" c "strip od"] by (simp add: same_state_def)
  moreover have "keyed r'" using assms strip_eqD(3) [OF assms(4)] by (auto simp: same_state_def keyed_def dget_dset)
  ultimately show ?thesis using assms by (simp add: same_state_def)
qed

lemma replay_ack_same:
  assumes "same_state s r" "keyed s" "dget (om_orders s) c = Some od" "i_book_id (o_intent od) = om_book_id s"
  shows "\<exists>r'. restore_event (OrderAcked (ref_of od) k (o_status od)) r = Inr r' \<and> same_state s r'"
proof -
  obtain od' where od': "dget (om_orders r) c = Some od'" "strip od' = strip od"
    by (rule same_state_order [OF assms(1,3)])
  have id: "o_client_order_id od = c" by (rule keyedD [OF assms(2,3)])
  have r: "om_book_id r = om_book_id s" "om_book r = om_book s" "keyed r" using assms(1) by (simp_all add: same_state_def)
  define r' where "r' = restore_ack od' k (o_status od) r"
  have e: "restore_event (OrderAcked (ref_of od) k (o_status od)) r = Inr r'"
    using od' id r assms(4) by (simp add: ref_of_def r'_def)
  have f: "om_book_id r' = om_book_id r" "om_book r' = om_book r" by (auto simp: r'_def restore_ack_def Let_def)
  have st: "o_status od = o_status od'" using strip_eqD(2) [OF od'(2)] by simp
  have "om_orders r' = (if \<not> is_terminal (o_status od') \<or> o_broker_order_id od' = None
      then dset c (od'\<lparr>o_broker_order_id := Some k, o_version := o_version od' + 1\<rparr>) (om_orders r) else om_orders r)"
    using set_order_at [OF r(3) od'(1)] st by (auto simp: r'_def restore_ack_def Let_def)
  then consider "om_orders r' = om_orders r"
    | v where "om_orders r' = dset c (od'\<lparr>o_broker_order_id := Some k, o_version := v\<rparr>) (om_orders r)"
    by (auto split: if_splits)
  then have "same_state s r'"
  proof cases
    case 1
    with assms(1) f show ?thesis by (simp add: same_state_def keyed_def)
  next
    case 2
    show ?thesis by (rule same_state_noop [OF assms(1,3) 2 strip_eq_self [OF od'(2)] id f])
  qed
  with e show ?thesis by blast
qed

lemma replay_fill:
  assumes "same_state s r" "keyed s" "dget (om_orders s) c = Some od" "f_client_order_id f = c"
    and "apply_fill (om_book s) f (i_product (o_intent od)) (i_strategy (o_intent od)) (reason_value (i_reason (o_intent od)))
      = Inr (om_book s', oc)"
    and "om_orders s' = dset c (od\<lparr>o_filled_qty := n, o_avg_fill_price := Some a, o_broker_order_id := b, o_status := st,
      o_version := v\<rparr>) (om_orders s)" "om_book_id s' = om_book_id s" "pb_book_id (om_book s) = om_book_id s"
  shows "\<exists>r'. restore_event (FillReceived f st n a) r = Inr r' \<and> same_state s' r'"
proof -
  obtain od' where od': "dget (om_orders r) c = Some od'" "strip od' = strip od"
    by (rule same_state_order [OF assms(1,3)])
  have id: "o_client_order_id od = c" by (rule keyedD [OF assms(2,3)])
  have r: "om_book_id r = om_book_id s" "om_book r = om_book s" "keyed r" using assms(1) by (simp_all add: same_state_def)
  have i: "o_intent od' = o_intent od" by (rule strip_eqD(1) [OF od'(2)])
  have fb: "f_book_id f = om_book_id r" using apply_fill_book_id [OF assms(5)] assms(8) r by simp
  define bid where "bid = or_id (f_broker_order_id f) (o_broker_order_id od')"
  define r' where "r' = set_order od' (\<lambda>x. x\<lparr>o_filled_qty := n, o_avg_fill_price := Some a, o_status := st,
     o_broker_order_id := bid\<rparr>) (r\<lparr>om_book := om_book s'\<rparr>)"
  have e: "restore_event (FillReceived f st n a) r = Inr r'"
    using fb od' assms(4,5) i r by (simp add: restore_fill_def r'_def bid_def Let_def)
  have g: "keyed (r\<lparr>om_book := om_book s'\<rparr>)" "dget (om_orders (r\<lparr>om_book := om_book s'\<rparr>)) c = Some od'"
    using r od' by (simp_all add: keyed_def)
  have o': "om_orders r' = dset c (od'\<lparr>o_filled_qty := n, o_avg_fill_price := Some a, o_status := st,
     o_broker_order_id := bid, o_version := o_version od' + 1\<rparr>) (om_orders r)"
    unfolding r'_def set_order_at [OF g] by simp
  have "same_state s' r'"
    by (rule same_state_put [OF assms(1,6) o' strip_cong_fill [OF od'(2)]])
       (use assms(7) id r in \<open>simp_all add: r'_def\<close>)
  with e show ?thesis by blast
qed

lemma replays_step:
  assumes "ostep P s s'" "oms_inv s" "replays s0 s"
  shows "replays s0 s'"
  using assms
proof (induction rule: ostep.induct)
  case (reg s c qty i now)
  show ?case
  proof (rule replaysI [OF reg.prems(2)])
    fix r assume "same_state s r"
    then show "\<exists>r'. restore_events [OrderSubmitted (make_order c i qty now)] r = Inr r'
        \<and> same_state (register (make_order c i qty now) s) r'"
      using reg.hyps(3) by (auto simp: same_state_def keyed_def dget_dset)
  qed simp
next
  case (link s c od k)
  have "same_state (set_order od (\<lambda>x. x\<lparr>o_broker_order_id := Some k\<rparr>) s) r" if "same_state s r" for r
  proof -
    have kd: "keyed s" by (rule oms_inv_keyed [OF link.prems(1)])
    have "strip_orders (om_orders (set_order od (\<lambda>x. x\<lparr>o_broker_order_id := Some k\<rparr>) s)) = strip_orders (om_orders s)"
      using set_order_at [OF kd link.hyps] strip_eq_self [OF refl] dset_same [of "strip_orders (om_orders s)" c "strip od"] link.hyps
      by simp
    with that show ?thesis by (simp add: same_state_def)
  qed
  then show ?case by (intro replaysI [OF link.prems(2), of _ "[]"]) auto
next
  case (move s c od st e)
  have kd: "keyed s" by (rule oms_inv_keyed [OF move.prems(1)])
  have ib: "i_book_id (o_intent od) = om_book_id s" using move.prems(1) move.hyps(1) by (simp add: oms_inv_def)
  let ?s = "set_order od (\<lambda>x. x\<lparr>o_status := st\<rparr>) s"
  have "\<exists>r'. restore_event e r = Inr r' \<and> same_state ?s r'" if r: "same_state s r" for r
    using move.hyps(2) replay_ack [OF r kd move.hyps(1) ib _ refl] replay_unknown [OF r kd move.hyps(1) ib refl]
      replay_final [OF r kd move.hyps(1) ib refl]
    by (cases e) auto
  then show ?case
    by (intro replaysI [OF move.prems(2), of _ "[e]"]) (fastforce simp: same_state_def)+
next
  case (ack s c od k)
  have kd: "keyed s" by (rule oms_inv_keyed [OF ack.prems(1)])
  have ib: "i_book_id (o_intent od) = om_book_id s" using ack.prems(1) ack.hyps(1) by (simp add: oms_inv_def)
  show ?case
    by (intro replaysI [OF ack.prems(2), of _ "[OrderAcked (ref_of od) k (o_status od)]"])
       (use replay_ack_same [OF _ kd ack.hyps(1) ib] in \<open>fastforce simp: same_state_def\<close>)+
next
  case (fill_known s f od s')
  have kd: "keyed s" by (rule oms_inv_keyed [OF fill_known.prems(1)])
  have bk: "pb_book_id (om_book s) = om_book_id s" using fill_known.prems(1) by (simp add: oms_inv_def)
  have id: "o_client_order_id od = f_client_order_id f" by (rule keyedD [OF kd fill_known.hyps(2)])
  obtain ver oc where o: "om_orders s' = dset (f_client_order_id f)
      (od\<lparr>o_filled_qty := min (o_quantity od) (o_filled_qty od + f_quantity f), o_avg_fill_price := Some (new_avg od f),
          o_broker_order_id := or_id (f_broker_order_id f) (o_broker_order_id od),
          o_status := (if o_quantity od \<le> o_filled_qty od + f_quantity f then FILLED else PARTIALLY_FILLED),
          o_version := ver\<rparr>) (om_orders s)"
    and a: "apply_fill (om_book s) f (i_product (o_intent od)) (i_strategy (o_intent od))
        (reason_value (i_reason (o_intent od))) = Inr (om_book s', oc)"
    and b: "om_book_id s' = om_book_id s"
    and ev: "om_events s' = om_events s
        @ (if o_quantity od < o_filled_qty od + f_quantity f then [AlertEvent ''oms_overfill''] else [])
        @ [FillReceived f (if o_quantity od \<le> o_filled_qty od + f_quantity f then FILLED else PARTIALLY_FILLED)
             (min (o_quantity od) (o_filled_qty od + f_quantity f)) (new_avg od f),
           PositionChanged (fo_position oc) (f_fill_id f)] @ map TradeClosed (fo_closed oc)"
    using on_known_fill_orders [OF fill_known.hyps(4)] fill_known.hyps(2) unfolding id by blast
  show ?case
  proof (rule replaysI [OF fill_known.prems(2) ev])
    fix r assume r: "same_state s r"
    from replay_fill [OF r kd fill_known.hyps(2) refl a o b bk]
    show "\<exists>r'. restore_events ((if o_quantity od < o_filled_qty od + f_quantity f then [AlertEvent ''oms_overfill''] else [])
        @ [FillReceived f (if o_quantity od \<le> o_filled_qty od + f_quantity f then FILLED else PARTIALLY_FILLED)
             (min (o_quantity od) (o_filled_qty od + f_quantity f)) (new_avg od f),
           PositionChanged (fo_position oc) (f_fill_id f)] @ map TradeClosed (fo_closed oc)) r = Inr r' \<and> same_state s' r'"
      by (auto simp: restore_events_append)
  qed
next
  case (fill_unknown s f book oc)
  have bk: "pb_book_id (om_book s) = om_book_id s" using fill_unknown.prems(1) by (simp add: oms_inv_def)
  have fb: "f_book_id f = om_book_id s" using apply_fill_book_id [OF fill_unknown.hyps(4)] bk by simp
  show ?case
  proof (rule replaysI [OF fill_unknown.prems(2)])
    fix r assume r: "same_state s r"
    have "dget (om_orders r) (f_client_order_id f) = None" using same_state_None [OF r] fill_unknown.hyps(2) by simp
    with r fb fill_unknown.hyps(4)
    show "\<exists>r'. restore_events [AlertEvent ''oms_unknown_fill'', FillReceived f FILLED (f_quantity f) (f_price f),
          PositionChanged (fo_position oc) (f_fill_id f)] r = Inr r' \<and> same_state (s\<lparr>om_book := book, om_events := om_events s @
        [AlertEvent ''oms_unknown_fill'', FillReceived f FILLED (f_quantity f) (f_price f),
          PositionChanged (fo_position oc) (f_fill_id f)]\<rparr>) r'"
      by (auto simp: same_state_def restore_fill_def keyed_def)
  qed simp
next
  case (idle e s)
  have "restore_events [e] r = Inr r" for r using idle.hyps by (cases e) auto
  then show ?case by (intro replaysI [OF idle.prems(2), of _ "[e]"]) (auto simp: same_state_def)
next
  case (checks s u)
  then show ?case by (auto simp: replays_def same_state_def)
qed

lemma replays_steps:
  assumes "osteps valid_fills s s'" "oms_inv s" "replays s0 s"
  shows "replays s0 s'"
  using assms
proof (induction rule: rtranclp_induct)
  case (step s1 s2)
  then show ?case using replays_step oms_inv_steps by blast
qed simp

subsection \<open>Sequences of operations\<close>

datatype oms_op =
    OpSubmit "gate option" "order \<Rightarrow> notice list \<times> (broker_error + broker_ack)" order_intent "int option" ts
  | OpNotices "notice list"
  | OpResolve "string \<Rightarrow> order_snapshot option" "ts option \<Rightarrow> fill list" rat ts
  | OpReconcile broker_view ts

fun oms_do :: "(string \<Rightarrow> string) \<Rightarrow> oms \<Rightarrow> oms_op \<Rightarrow> oms result" where
  "oms_do coid s (OpSubmit gate place i q now) =
     (case submit coid gate place i q now s of Inl e \<Rightarrow> Inl e | Inr (st, s') \<Rightarrow> Inr s')"
| "oms_do coid s (OpNotices ns) = on_notices ns s"
| "oms_do coid s (OpResolve look trades timeout now) = resolve_unknown look trades timeout now s"
| "oms_do coid s (OpReconcile v now) = (case reconcile v now s of Inl e \<Rightarrow> Inl e | Inr (b, s') \<Rightarrow> Inr s')"

fun oms_run :: "(string \<Rightarrow> string) \<Rightarrow> oms \<Rightarrow> oms_op list \<Rightarrow> oms result" where
  "oms_run coid s [] = Inr s"
| "oms_run coid s (op # ops) = (case oms_do coid s op of Inl e \<Rightarrow> Inl e | Inr s' \<Rightarrow> oms_run coid s' ops)"

fun op_fills_ok :: "(fill \<Rightarrow> bool) \<Rightarrow> oms_op \<Rightarrow> bool" where
  "op_fills_ok Q (OpSubmit gate place i q now) = (\<forall>od. \<forall>f \<in> set (notice_fills (fst (place od))). Q f)"
| "op_fills_ok Q (OpNotices ns) = (\<forall>f \<in> set (notice_fills ns). Q f)"
| "op_fills_ok Q (OpResolve look trades timeout now) = (\<forall>t. \<forall>f \<in> set (trades t). Q f)"
| "op_fills_ok Q (OpReconcile v now) = (\<forall>f \<in> set (bv_trades v). Q f)"

lemma oms_do_steps:
  assumes "oms_do coid s op = Inr s'" "keyed s" "op_fills_ok Q op"
  shows "osteps (\<lambda>s f od. Q f) s s'"
proof (cases op)
  case (OpSubmit gate place i q now)
  with assms obtain st where "submit coid gate place i q now s = Inr (st, s')" by (auto split: sum.splits)
  from submit_steps [OF this assms(2), of "\<lambda>s f od. Q f"] OpSubmit assms(3) show ?thesis by simp
next
  case (OpNotices ns)
  with assms on_notices_steps [of ns s s' "\<lambda>s f od. Q f"] show ?thesis by simp
next
  case (OpResolve look trades timeout now)
  with assms resolve_all_steps [of look trades timeout now _ s s' "\<lambda>s f od. Q f"] show ?thesis
    by (simp add: resolve_unknown_def)
next
  case (OpReconcile v now)
  with assms obtain b where "reconcile v now s = Inr (b, s')" by (auto split: sum.splits)
  from reconcile_steps [OF this assms(2), of "\<lambda>s f od. Q f"] OpReconcile assms(3) show ?thesis by simp
qed

lemma oms_run_steps:
  assumes "oms_run coid s ops = Inr s'" "keyed s" "list_all (op_fills_ok Q) ops"
  shows "osteps (\<lambda>s f od. Q f) s s'"
  using assms
proof (induction ops arbitrary: s)
  case (Cons op ops)
  obtain s1 where s1: "oms_do coid s op = Inr s1" "oms_run coid s1 ops = Inr s'"
    using Cons.prems(1) by (auto split: sum.splits)
  have 1: "osteps (\<lambda>s f od. Q f) s s1" by (rule oms_do_steps [OF s1(1) Cons.prems(2)]) (use Cons.prems(3) in simp)
  from Cons.IH [OF s1(2) keyed_steps [OF 1 Cons.prems(2)]] Cons.prems(3) 1 show ?case
    by (auto intro: rtranclp_trans)
qed simp

lemma new_oms_inv: "new_oms bid (new_book bid cash) = Inr s \<Longrightarrow> oms_inv s \<and> replays s s \<and> om_orders s = [] \<and> om_book s = new_book bid cash"
  by (auto simp: new_oms_def oms_inv_def keyed_def replays_def same_state_def new_book_def new_book_inv [unfolded new_book_def]
      split: if_splits)

subsection \<open>Reduce-only orders\<close>

definition live_reduce :: "string \<Rightarrow> product \<Rightarrow> order \<Rightarrow> bool" where
  "live_reduce ik pr od =
     (i_reduce_only (o_intent od) \<and> i_key (o_intent od) = ik \<and> i_product (o_intent od) = pr
      \<and> \<not> is_terminal (o_status od))"

definition commits :: "string \<Rightarrow> product \<Rightarrow> order \<Rightarrow> int" where
  "commits ik pr od = (if live_reduce ik pr od then remaining_qty od else 0)"

lemma committed_qty_dsum: "committed_qty s ik pr = dsum (\<lambda>c od. commits ik pr od) (om_orders s)"
  by (simp add: committed_qty_def commits_def live_reduce_def conj_assoc)

text \<open>The shares that live reduce-only orders may still trade never exceed the position, and every
  such order trades against it.\<close>

definition reduce_inv :: "oms \<Rightarrow> bool" where
  "reduce_inv s =
     (\<forall>ik pr. committed_qty s ik pr \<le> \<bar>pb_quantity (om_book s) ik pr\<bar>
        \<and> (\<forall>c od. dget (om_orders s) c = Some od \<longrightarrow> 0 < commits ik pr od \<longrightarrow>
             side_sign (i_side (o_intent od)) * pb_quantity (om_book s) ik pr < 0))"

lemma commits_nonneg: "order_valid od \<Longrightarrow> 0 \<le> commits ik pr od"
  by (auto simp: commits_def remaining_qty_def order_valid_def)

lemma committed_dset:
  assumes "dget (om_orders s) c = Some od" "om_orders s' = dset c od' (om_orders s)"
  shows "committed_qty s' ik pr = committed_qty s ik pr - commits ik pr od + commits ik pr od'"
  using assms by (simp add: committed_qty_dsum dsum_dset)

lemma commits_le_committed:
  assumes "oms_inv s" "dget (om_orders s) c = Some od"
  shows "commits ik pr od \<le> committed_qty s ik pr"
  unfolding committed_qty_dsum
proof (rule dsum_member_le)
  show "(c, od) \<in> set (om_orders s)" using assms(2) by (rule dget_in_set)
  show "0 \<le> commits ik pr od'" if "(c', od') \<in> set (om_orders s)" for c' od'
    using that assms(1) commits_nonneg by (auto simp: oms_inv_def)
qed

lemma commits_sum_le:
  assumes "oms_inv s" "dget (om_orders s) c = Some od" "dget (om_orders s) c' = Some od'" "c \<noteq> c'"
  shows "commits ik pr od + commits ik pr od' \<le> committed_qty s ik pr"
proof -
  let ?f = "\<lambda>c od. commits ik pr od"
  have nn: "0 \<le> commits ik pr x" if "(y, x) \<in> set (om_orders s)" for y x
    using that assms(1) commits_nonneg by (auto simp: oms_inv_def)
  define d where "d = dset c (od\<lparr>o_status := FILLED\<rparr>) (om_orders s)"
  have z: "commits ik pr (od\<lparr>o_status := FILLED\<rparr>) = 0" by (simp add: commits_def live_reduce_def is_terminal_def)
  have "(c', od') \<in> set d" using assms(3,4) by (intro dget_in_set) (simp add: d_def dget_dset)
  moreover have "0 \<le> commits ik pr x" if "(y, x) \<in> set d" for y x
    using set_dset [OF that [unfolded d_def]] nn z by auto
  ultimately have "commits ik pr od' \<le> dsum ?f d" using dsum_member_le [of d ?f c' od'] by blast
  also have "\<dots> = committed_qty s ik pr - commits ik pr od"
    using assms(2) z by (simp add: d_def dsum_dset committed_qty_dsum)
  finally show ?thesis by simp
qed

text \<open>Changes that keep a position and never add to what an order commits.\<close>

lemma reduce_inv_put:
  assumes "reduce_inv s" "oms_inv s" "dget (om_orders s) c = Some od" "om_orders s' = dset c od' (om_orders s)"
    and "om_book s' = om_book s" "o_intent od' = o_intent od" "\<And>ik pr. commits ik pr od' \<le> commits ik pr od"
  shows "reduce_inv s'"
  unfolding reduce_inv_def
proof (intro allI conjI impI)
  fix ik pr
  show "committed_qty s' ik pr \<le> \<bar>pb_quantity (om_book s') ik pr\<bar>"
    using assms(1,5,7) committed_dset [OF assms(3,4), of ik pr]
    by (smt (verit) reduce_inv_def)
  fix c' x assume x: "dget (om_orders s') c' = Some x" "0 < commits ik pr x"
  show "side_sign (i_side (o_intent x)) * pb_quantity (om_book s') ik pr < 0"
  proof (cases "c' = c")
    case True
    then have "x = od'" using x assms(4) by simp
    moreover have "0 < commits ik pr od" using x(2) assms(7) [of ik pr] \<open>x = od'\<close> by simp
    ultimately show ?thesis using assms(1,3,5,6) by (auto simp: reduce_inv_def)
  next
    case False
    with x assms(1,4,5) show ?thesis by (auto simp: reduce_inv_def dget_dset)
  qed
qed

lemma on_update_effect:
  assumes "keyed s"
  shows "om_book (on_update sn s) = om_book s \<and>
    (om_orders (on_update sn s) = om_orders s
     \<or> (\<exists>od od'. dget (om_orders s) (os_client_order_id sn) = Some od
          \<and> om_orders (on_update sn s) = dset (os_client_order_id sn) od' (om_orders s)
          \<and> o_intent od' = o_intent od \<and> remaining_qty od' = remaining_qty od
          \<and> (o_status od' = o_status od
             \<or> os_status sn \<in> set (next_status (o_status od)) \<and> o_status od' = os_status sn)))"
proof (cases "dget (om_orders s) (os_client_order_id sn)")
  case None
  then show ?thesis by (simp add: on_update_def)
next
  case (Some od)
  define s1 where "s1 = (if o_broker_order_id od = None
     then set_order od (\<lambda>x. x\<lparr>o_broker_order_id := Some (os_broker_order_id sn)\<rparr>) s else s)"
  have id: "o_client_order_id od = os_client_order_id sn" using assms Some by (simp add: keyed_def)
  obtain od1 where od1: "om_orders s1 = dset (os_client_order_id sn) od1 (om_orders s)" "o_status od1 = o_status od"
    "o_intent od1 = o_intent od" "remaining_qty od1 = remaining_qty od"
  proof (cases "o_broker_order_id od = None")
    case True
    with Some id that show ?thesis by (auto simp: s1_def set_order_orders remaining_qty_def)
  next
    case False
    with Some that [of od] dset_same [OF Some] show ?thesis by (simp add: s1_def)
  qed
  define s2 where "s2 = set_order od (\<lambda>x. x\<lparr>o_status := os_status sn\<rparr>) s1"
  have g1: "dget (om_orders s1) (o_client_order_id od) = Some od1" using od1(1) id by simp
  have o2: "om_orders s2 = dset (os_client_order_id sn) (od1\<lparr>o_status := os_status sn, o_version := o_version od1 + 1\<rparr>) (om_orders s)"
    unfolding s2_def set_order_orders [OF g1] using od1(1) id by simp
  have b: "om_book s1 = om_book s" "om_book s2 = om_book s" by (simp_all add: s1_def s2_def)
  have "on_update sn s = s1 \<or> (os_status sn \<in> set (next_status (o_status od))
      \<and> on_update sn s = om_emit (update_event (the_order s2 od) sn) s2)"
  proof (cases "os_status sn \<in> {FILLED, PARTIALLY_FILLED} \<or> \<not> fst (advance od (os_status sn) False s1)")
    case True
    then have "on_update sn s = s1" using Some by (auto simp: on_update_def s1_def advance_def Let_def split: if_splits)
    then show ?thesis ..
  next
    case False
    then have a: "advance od (os_status sn) False s1 = (True, s2)" "os_status sn \<in> set (next_status (o_status od))"
      by (auto simp: advance_def s2_def split: if_splits)
    have "on_update sn s = om_emit (update_event (the_order s2 od) sn) s2"
      using Some False a(1) by (simp add: on_update_def flip: s1_def)
    with a(2) show ?thesis by blast
  qed
  then show ?thesis
  proof
    assume "on_update sn s = s1"
    with Some od1 b show ?thesis by auto
  next
    assume "os_status sn \<in> set (next_status (o_status od)) \<and> on_update sn s = om_emit (update_event (the_order s2 od) sn) s2"
    with Some od1 o2 b show ?thesis by (auto simp: remaining_qty_def)
  qed
qed

lemma commits_status:
  assumes "o_intent od' = o_intent od" "remaining_qty od' = remaining_qty od" "order_valid od"
    and "o_status od' = o_status od \<or> \<not> is_terminal (o_status od)"
  shows "commits ik pr od' \<le> commits ik pr od"
  using assms commits_nonneg [OF assms(3), of ik pr] by (auto simp: commits_def live_reduce_def)

lemma oms_inv_order: "oms_inv s \<Longrightarrow> dget (om_orders s) c = Some od \<Longrightarrow> order_valid od"
  by (simp add: oms_inv_def)

lemma oms_inv_update: "oms_inv s \<Longrightarrow> oms_inv (on_update sn s)"
  using on_update_steps [of s valid_fills sn] oms_inv_steps oms_inv_keyed by blast

lemma on_update_reduce:
  assumes "reduce_inv s" "oms_inv s"
  shows "reduce_inv (on_update sn s)"
  using on_update_effect [OF oms_inv_keyed [OF assms(2)], of sn]
proof (elim conjE disjE exE)
  assume "om_book (on_update sn s) = om_book s" "om_orders (on_update sn s) = om_orders s"
  with assms(1) show ?thesis by (simp add: reduce_inv_def committed_qty_dsum)
next
  fix od od'
  assume b: "om_book (on_update sn s) = om_book s" and od: "dget (om_orders s) (os_client_order_id sn) = Some od"
    "om_orders (on_update sn s) = dset (os_client_order_id sn) od' (om_orders s)"
    and i: "o_intent od' = o_intent od" "remaining_qty od' = remaining_qty od" and st: "o_status od' = o_status od"
  show ?thesis
    using commits_status [OF i oms_inv_order [OF assms(2) od(1)]] st
    by (intro reduce_inv_put [OF assms od b i(1)]) auto
next
  fix od od'
  assume b: "om_book (on_update sn s) = om_book s" and od: "dget (om_orders s) (os_client_order_id sn) = Some od"
    "om_orders (on_update sn s) = dset (os_client_order_id sn) od' (om_orders s)"
    and i: "o_intent od' = o_intent od" "remaining_qty od' = remaining_qty od"
    and st: "os_status sn \<in> set (next_status (o_status od))"
  show ?thesis
    using commits_status [OF i oms_inv_order [OF assms(2) od(1)]] next_status_nonterminal [OF st]
    by (intro reduce_inv_put [OF assms od b i(1)]) auto
qed

text \<open>Updates that report a working status leave a working order working.\<close>

fun working_updates :: "notice list \<Rightarrow> bool" where
  "working_updates [] = True"
| "working_updates (UpdateNotice sn # ns) = (\<not> is_terminal (os_status sn) \<and> working_updates ns)"
| "working_updates (FillNotice f # ns) = False"

definition working_order :: "string \<Rightarrow> oms \<Rightarrow> bool" where
  "working_order c s = (\<exists>od. dget (om_orders s) c = Some od \<and> \<not> is_terminal (o_status od))"

lemma on_update_working:
  "keyed s \<Longrightarrow> working_order c s \<Longrightarrow> \<not> is_terminal (os_status sn) \<Longrightarrow> working_order c (on_update sn s)"
  using on_update_effect [of s sn] by (auto simp: working_order_def dget_dset)

lemma on_notices_reduce:
  assumes "on_notices ns s = Inr s'" "working_updates ns" "reduce_inv s" "oms_inv s" "working_order c s"
  shows "reduce_inv s' \<and> oms_inv s' \<and> working_order c s'"
  using assms
proof (induction ns s rule: on_notices.induct)
  case (2 sn ns s)
  then show ?case using on_update_reduce oms_inv_update on_update_working oms_inv_keyed by simp
qed auto

lemma set_status_reduce:
  assumes "reduce_inv s" "oms_inv s" "dget (om_orders s) c = Some od" "\<not> is_terminal (o_status od)"
    and "om_orders s' = dset c od' (om_orders s)" "om_book s' = om_book s"
    and "o_intent od' = o_intent od" "remaining_qty od' = remaining_qty od"
  shows "reduce_inv s'"
  using commits_status [OF assms(7,8) oms_inv_order [OF assms(2,3)]] assms(4)
  by (intro reduce_inv_put [OF assms(1,2,3,5,6,7)]) auto

lemma place_result_reduce:
  assumes "reduce_inv s" "oms_inv s" "working_order (o_client_order_id od) s"
  shows "reduce_inv (snd (place_result od r s))"
proof -
  obtain od0 where od0: "dget (om_orders s) (o_client_order_id od) = Some od0" "\<not> is_terminal (o_status od0)"
    using assms(3) by (auto simp: working_order_def)
  have id: "o_client_order_id od0 = o_client_order_id od" by (rule keyedD [OF oms_inv_keyed [OF assms(2)] od0(1)])
  let ?c = "o_client_order_id od"
  have "\<exists>od'. (om_orders (snd (place_result od r s)) = om_orders s
      \<or> om_orders (snd (place_result od r s)) = dset ?c od' (om_orders s))
    \<and> om_book (snd (place_result od r s)) = om_book s \<and> o_intent od' = o_intent od0 \<and> remaining_qty od' = remaining_qty od0"
  proof (cases r)
    case (Inl e)
    let ?od = "\<lambda>st. od0\<lparr>o_status := st, o_version := o_version od0 + 1\<rparr>"
    have fields: "o_intent (?od st) = o_intent od0" "remaining_qty (?od st) = remaining_qty od0" for st
      by (simp_all add: remaining_qty_def)
    have ords: "om_orders (set_order od (\<lambda>x. x\<lparr>o_status := st\<rparr>) s) = dset ?c (?od st) (om_orders s)" for st
      using od0(1) by (simp add: set_order_orders)
    obtain st where "om_orders (snd (place_result od r s)) = dset ?c (?od st) (om_orders s)"
      "om_book (snd (place_result od r s)) = om_book s"
    proof (cases "case e of OtherError x \<Rightarrow> True | _ \<Rightarrow> error_outcome e = UNKNOWN_OUTCOME")
      case True
      with Inl that [of UNKNOWN] ords show ?thesis by (simp add: place_result_def mark_unknown_def Let_def)
    next
      case False
      with Inl that [of REJECTED] ords show ?thesis by (simp add: place_result_def)
    qed
    with fields show ?thesis by blast
  next
    case (Inr ack)
    show ?thesis
    proof (cases "o_status od0 = SUBMITTED")
      case False
      with Inr od0 show ?thesis by (auto simp: place_result_def)
    next
      case True
      let ?od1 = "od0\<lparr>o_broker_order_id := Some (ak_broker_order_id ack), o_version := o_version od0 + 1\<rparr>"
      let ?s1 = "set_order od0 (\<lambda>x. x\<lparr>o_broker_order_id := Some (ak_broker_order_id ack)\<rparr>) s"
      have o1: "om_orders ?s1 = dset ?c ?od1 (om_orders s)" using od0(1) id by (simp add: set_order_orders)
      have g1: "dget (om_orders ?s1) (o_client_order_id od0) = Some ?od1" using o1 id by simp
      have "om_orders (snd (advance od0 st False ?s1)) = dset ?c ?od1 (om_orders s)
          \<or> om_orders (snd (advance od0 st False ?s1)) = dset ?c (?od1\<lparr>o_status := st, o_version := o_version ?od1 + 1\<rparr>) (om_orders s)" for st
        using o1 set_order_orders [OF g1] id by (auto simp: advance_def)
      moreover have "om_book (snd (advance od0 st False ?s1)) = om_book s" for st by (simp add: advance_def)
      moreover have "om_orders (snd (place_result od r s)) = om_orders (snd (advance od0 (ak_status ack) False ?s1))"
        "om_book (snd (place_result od r s)) = om_book (snd (advance od0 (ak_status ack) False ?s1))"
        using Inr od0(1) True by (simp_all add: place_result_def Let_def)
      moreover have "remaining_qty ?od1 = remaining_qty od0"
        "remaining_qty (?od1\<lparr>o_status := st, o_version := v\<rparr>) = remaining_qty od0" for st v by (simp_all add: remaining_qty_def)
      ultimately show ?thesis by fastforce
    qed
  qed
  then show ?thesis
    using set_status_reduce [OF assms(1,2) od0] assms(1) by (fastforce simp: reduce_inv_def committed_qty_dsum)
qed

lemma register_reduce:
  assumes "reduce_inv s" "oms_inv s" "dget (om_orders s) c = None" "i_reduce_only i \<Longrightarrow> qty \<le> reducible s i" "0 < qty"
  shows "reduce_inv (register (make_order c i qty now) s)"
  unfolding reduce_inv_def
proof (intro allI conjI impI)
  let ?od = "make_order c i qty now" and ?s = "register (make_order c i qty now) s"
  fix ik pr
  have cm: "commits ik pr ?od = (if i_reduce_only i \<and> i_key i = ik \<and> i_product i = pr then qty else 0)"
    by (auto simp: commits_def live_reduce_def is_terminal_def remaining_qty_def)
  have cq: "committed_qty ?s ik pr = committed_qty s ik pr + commits ik pr ?od"
    using assms(3) by (simp add: committed_qty_dsum dsum_dset)
  have old: "committed_qty s ik pr \<le> \<bar>pb_quantity (om_book s) ik pr\<bar>" using assms(1) by (simp add: reduce_inv_def)
  have new: "qty + committed_qty s (i_key i) (i_product i) \<le> \<bar>pb_quantity (om_book s) (i_key i) (i_product i)\<bar>
      \<and> side_sign (i_side i) * pb_quantity (om_book s) (i_key i) (i_product i) < 0" if "i_reduce_only i"
    using assms(4) [OF that] assms(5) by (cases "i_side i") (auto simp: reducible_def Let_def split: if_splits)
  show "committed_qty ?s ik pr \<le> \<bar>pb_quantity (om_book ?s) ik pr\<bar>"
    using old new cm cq by auto
  fix c' x assume x: "dget (om_orders ?s) c' = Some x" "0 < commits ik pr x"
  show "side_sign (i_side (o_intent x)) * pb_quantity (om_book ?s) ik pr < 0"
  proof (cases "c' = c")
    case True
    then have "x = ?od" using x by simp
    with x(2) cm new show ?thesis by (auto split: if_splits)
  next
    case False
    with x assms(1) show ?thesis by (auto simp: reduce_inv_def dget_dset)
  qed
qed

end
