(* ===== verification/OMS_Props.thy ===== *)
theory OMS_Props
  imports OMS_Inv
begin

section \<open>Properties of the order manager\<close>

text \<open>
  What the order manager promises: nothing is routed without a gate's approval or twice, a
  restart rebuilds what was lost, a broker update only moves an order forward, reduce-only orders
  never flip a position, and an in-sync reconciliation means that both sides agree.
\<close>

subsection \<open>A sample session\<close>

definition sample_coid :: "string \<Rightarrow> string" where
  "sample_coid x = ''rq'' @ tl x"

definition sample_ack :: "string \<Rightarrow> broker_ack" where
  "sample_ack c = \<lparr>ak_client_order_id = c, ak_broker_order_id = ''b'' @ c, ak_status = OPEN, ak_ts = 0\<rparr>"

definition sample_entry :: order_intent where
  "sample_entry =
     \<lparr>i_intent_id = ''i1'', i_decision_id = ''d1'', i_parent_decision_id = None, i_book_id = ''main'',
      i_strategy = ''momentum'', i_signal_id = None, i_instrument = nse_equity ''INFY'', i_side = BUY,
      i_kind = KOpen, i_quantity = Some 10, i_order_type = MARKET, i_product = MIS, i_validity = DAY,
      i_limit_price = None, i_trigger_price = None, i_stop_price = None, i_target_price = None,
      i_reduce_only = False, i_decision_price = 100, i_decision_ts = 0, i_reason = RsEntry,
      i_source = SignalEngine\<rparr>"

definition sample_exit :: order_intent where
  "sample_exit = sample_entry\<lparr>i_intent_id := ''i2'', i_side := SELL, i_kind := KClose, i_reduce_only := True, i_reason := RsTarget\<rparr>"

definition sample_place :: "order \<Rightarrow> notice list \<times> (broker_error + broker_ack)" where
  "sample_place od =
     ([FillNotice (sample_fill ''f1'' BUY 10 100)], Inr (sample_ack (o_client_order_id od)))"

definition exit_place :: "order \<Rightarrow> notice list \<times> (broker_error + broker_ack)" where
  "exit_place od = ([], Inr (sample_ack (o_client_order_id od)))"

definition sample_exit_fill :: fill where
  "sample_exit_fill = (sample_fill ''f2'' SELL 4 110)\<lparr>f_client_order_id := ''rq2''\<rparr>"

definition open_ops :: "oms_op list" where
  "open_ops =
     [OpSubmit (Some (\<lambda>i q. 10)) sample_place sample_entry None 0,
      OpSubmit (Some (\<lambda>i q. 10)) exit_place sample_exit None 5]"

definition session_ops :: "oms_op list" where
  "session_ops = open_ops @ [OpNotices [FillNotice sample_exit_fill]]"

definition sample_oms :: oms where
  "sample_oms = \<lparr>om_book_id = ''main'', om_book = new_book ''main'' 5000, om_orders = [], om_unknown = [], om_events = []\<rparr>"

lemma sample_oms_new: "new_oms ''main'' (new_book ''main'' 5000) = Inr sample_oms"
  by (simp add: new_oms_def sample_oms_def new_book_def)

lemma session_run:
  "(case oms_run sample_coid sample_oms session_ops of
      Inl e \<Rightarrow> False
    | Inr s \<Rightarrow> pb_quantity (om_book s) ''NSE:EQ:INFY'' MIS = 6
        \<and> map (\<lambda>(c, od). (c, o_status od, o_filled_qty od)) (om_orders s)
            = [(''rq1'', FILLED, 10), (''rq2'', PARTIALLY_FILLED, 4)])"
  by code_simp

lemma open_run:
  "(case oms_run sample_coid sample_oms open_ops of
      Inl e \<Rightarrow> False
    | Inr s \<Rightarrow> pb_quantity (om_book s) ''NSE:EQ:INFY'' MIS = 10
        \<and> map (\<lambda>(c, od). (c, o_status od, o_filled_qty od)) (om_orders s)
            = [(''rq1'', FILLED, 10), (''rq2'', OPEN, 0)])"
  by code_simp

lemma session_run_ok:
  obtains s where "oms_run sample_coid sample_oms session_ops = Inr s" "pb_quantity (om_book s) ''NSE:EQ:INFY'' MIS = 6"
    "map (\<lambda>(c, od). (c, o_status od, o_filled_qty od)) (om_orders s) = [(''rq1'', FILLED, 10), (''rq2'', PARTIALLY_FILLED, 4)]"
  using session_run by (cases "oms_run sample_coid sample_oms session_ops") simp_all

lemma open_run_ok:
  obtains s where "oms_run sample_coid sample_oms open_ops = Inr s" "pb_quantity (om_book s) ''NSE:EQ:INFY'' MIS = 10"
    "map (\<lambda>(c, od). (c, o_status od, o_filled_qty od)) (om_orders s) = [(''rq1'', FILLED, 10), (''rq2'', OPEN, 0)]"
  using open_run by (cases "oms_run sample_coid sample_oms open_ops") simp_all

lemma open_ops_fills: "list_all (op_fills_ok fill_valid) open_ops"
  by (simp add: open_ops_def sample_place_def exit_place_def sample_fill_def fill_valid_def)

lemma session_ops_fills: "list_all (op_fills_ok fill_valid) session_ops"
  using open_ops_fills by (simp add: session_ops_def sample_exit_fill_def sample_fill_def fill_valid_def)

subsection \<open>Reachable states\<close>

lemma run_inv:
  assumes "new_oms bid (new_book bid cash) = Inr s0" "oms_run coid s0 ops = Inr s" "list_all (op_fills_ok fill_valid) ops"
  shows "oms_inv s" "replays s0 s"
proof -
  note n = new_oms_inv [OF assms(1)]
  have k: "keyed s0" using n by (simp add: oms_inv_def)
  note st = oms_run_steps [OF assms(2) k assms(3)]
  show "oms_inv s" using oms_inv_steps [OF st] n by blast
  show "replays s0 s" using replays_steps [OF st] n by blast
qed

text \<open>C3: A restart loses nothing. After any sequence of submissions, broker notices, lookups of
  unknown orders and reconciliations, restoring a fresh order manager from the recorded events
  succeeds and gives the same position book and, in the same order, the same orders with their
  intents, quantities, statuses, fills and average prices (the broker's id and the version counter
  apart).\<close>

theorem restore_round_trip:
  assumes "new_oms bid (new_book bid cash) = Inr s0" "oms_run coid s0 ops = Inr s" "list_all (op_fills_ok fill_valid) ops"
  shows "\<exists>r. restore (om_events s) s0 = Inr r \<and> om_book r = om_book s
    \<and> strip_orders (om_orders r) = strip_orders (om_orders s)"
proof -
  have "om_orders s0 = []" "pb_books (om_book s0) = []"
    using new_oms_inv [OF assms(1)] by (simp_all add: new_book_def)
  with run_inv(2) [OF assms] show ?thesis by (auto simp: restore_def replays_def same_state_def)
qed

theorem restore_round_trip_witness:
  "\<exists>s r. oms_run sample_coid sample_oms session_ops = Inr s \<and> restore (om_events s) sample_oms = Inr r
     \<and> pb_quantity (om_book r) ''NSE:EQ:INFY'' MIS = 6"
proof -
  obtain s where s: "oms_run sample_coid sample_oms session_ops = Inr s" "pb_quantity (om_book s) ''NSE:EQ:INFY'' MIS = 6"
    by (rule session_run_ok)
  obtain r where "restore (om_events s) sample_oms = Inr r" "om_book r = om_book s"
    using restore_round_trip [OF sample_oms_new s(1) session_ops_fills] by blast
  with s show ?thesis by metis
qed

text \<open>C7: Every order of a reachable state is sound: it sits under its own client order id, belongs
  to the book, has a positive quantity, is never filled beyond that quantity, and has an average
  price once it has a fill; and the book keeps its own invariant.\<close>

theorem orders_stay_valid:
  assumes "new_oms bid (new_book bid cash) = Inr s0" "oms_run coid s0 ops = Inr s" "list_all (op_fills_ok fill_valid) ops"
    and "dget (om_orders s) c = Some od"
  shows "o_client_order_id od = c \<and> i_book_id (o_intent od) = om_book_id s \<and> order_valid od \<and> pb_inv (om_book s)"
  using run_inv(1) [OF assms(1-3)] assms(4) by (auto simp: oms_inv_def keyed_def)

theorem orders_stay_valid_witness:
  "\<exists>s od. oms_run sample_coid sample_oms session_ops = Inr s \<and> dget (om_orders s) ''rq2'' = Some od \<and> order_valid od"
proof -
  obtain s where s: "oms_run sample_coid sample_oms session_ops = Inr s"
    "map (\<lambda>(c, od). (c, o_status od, o_filled_qty od)) (om_orders s) = [(''rq1'', FILLED, 10), (''rq2'', PARTIALLY_FILLED, 4)]"
    by (rule session_run_ok)
  then obtain od where "dget (om_orders s) ''rq2'' = Some od" by (auto simp: map_eq_Cons_conv)
  with s orders_stay_valid [OF sample_oms_new s(1) session_ops_fills] show ?thesis by blast
qed

subsection \<open>Submission\<close>

lemma run_keyed:
  assumes "new_oms bid (new_book bid cash) = Inr s0" "oms_run coid s0 ops = Inr s"
  shows "keyed s"
proof -
  have k: "keyed s0" using new_oms_inv [OF assms(1)] by (simp add: oms_inv_def)
  have "op_fills_ok (\<lambda>f. True) op" for op by (cases op) auto
  then show ?thesis using keyed_steps [OF oms_run_steps [OF assms(2) k, of "\<lambda>f. True"] k] by (simp add: list_all_iff)
qed

text \<open>A submission either leaves everything as it was, or registers the order and then takes what
  the broker says.\<close>

lemma submit_cases:
  assumes "submit coid gate place i quantity now s = Inr (st, s')"
  obtains (stays) "s' = s" "st \<in> {StBlocked, StDuplicate}"
  | (routes) g qty s1 where "gate = Some g" "i_book_id i = om_book_id s" "dget (om_orders s) (coid (i_intent_id i)) = None"
      "gated_qty s g i quantity = Some qty"
      "on_notices (fst (place (make_order (coid (i_intent_id i)) i qty now)))
         (register (make_order (coid (i_intent_id i)) i qty now) s) = Inr s1"
      "(st, s') = place_result (make_order (coid (i_intent_id i)) i qty now)
         (snd (place (make_order (coid (i_intent_id i)) i qty now))) s1"
  using assms unfolding submit_def Let_def
  by (auto split: if_splits option.splits prod.splits sum.splits)

lemma place_result_status: "fst (place_result od r s) \<in> {StSubmitted, StRejected, StUnknown}"
  by (auto simp: place_result_def Let_def split: sum.splits)

lemma place_result_events: "\<exists>es. om_events (snd (place_result od r s)) = om_events s @ es"
  by (auto simp: place_result_def mark_unknown_def advance_def Let_def split: sum.splits)

lemma submit_routed:
  assumes "keyed s" "submit coid gate place i quantity now s = Inr (st, s')" "st \<notin> {StBlocked, StDuplicate}"
  obtains g qty es where "gate = Some g" "i_book_id i = om_book_id s" "dget (om_orders s) (coid (i_intent_id i)) = None"
    "gated_qty s g i quantity = Some qty"
    "om_events s' = om_events s @ OrderSubmitted (make_order (coid (i_intent_id i)) i qty now) # es"
  using assms(2)
proof (cases rule: submit_cases)
  case stays
  with assms(3) show ?thesis by simp
next
  case (routes g qty s1)
  let ?od = "make_order (coid (i_intent_id i)) i qty now"
  have k: "keyed (register ?od s)" using assms(1) by (auto simp: keyed_def dget_dset)
  obtain es where "om_events s1 = om_events (register ?od s) @ es"
    using osteps_events [OF on_notices_steps [OF routes(5) k, of "\<lambda>s f od. True"] k] by auto
  moreover obtain es' where "om_events s' = om_events s1 @ es'"
    using place_result_events [of ?od "snd (place ?od)" s1] routes(6) by (metis snd_conv)
  ultimately have "om_events s' = om_events s @ OrderSubmitted ?od # (es @ es')" by simp
  with routes(1-4) that show ?thesis by blast
qed

text \<open>C4: Nothing reaches the broker ungated, oversized or unrecorded. A submission that is not
  blocked or a duplicate (those change nothing) has an installed gate, is for this book and a client order id
  not used before; its quantity is positive, at most what the gate approved, at most what was asked
  and, for a reduce-only intent, at most what is left to reduce; and the order is recorded before
  any event of the placement.\<close>

theorem submit_is_gated:
  assumes "new_oms bid (new_book bid cash) = Inr s0" "oms_run coid s0 ops = Inr s"
    and "submit coid gate place i quantity now s = Inr (st, s')" "st \<notin> {StBlocked, StDuplicate}"
  shows "\<exists>g qty es. gate = Some g \<and> i_book_id i = om_book_id s \<and> dget (om_orders s) (coid (i_intent_id i)) = None
    \<and> 0 < qty \<and> qty \<le> g i (asked_qty s i quantity)
    \<and> (case asked_qty s i quantity of None \<Rightarrow> True | Some a \<Rightarrow> qty \<le> a)
    \<and> (i_reduce_only i \<longrightarrow> qty \<le> reducible s i)
    \<and> om_events s' = om_events s @ OrderSubmitted (make_order (coid (i_intent_id i)) i qty now) # es"
proof -
  obtain g qty es where r: "gate = Some g" "i_book_id i = om_book_id s" "dget (om_orders s) (coid (i_intent_id i)) = None"
    "gated_qty s g i quantity = Some qty"
    "om_events s' = om_events s @ OrderSubmitted (make_order (coid (i_intent_id i)) i qty now) # es"
    by (rule submit_routed [OF run_keyed [OF assms(1,2)] assms(3,4)])
  with gated_qty_pos [OF r(4)] gated_qty_le [OF r(4)] gated_qty_reduce [OF r(4)] show ?thesis by blast
qed

theorem submit_is_gated_witness:
  "\<exists>s'. submit sample_coid (Some (\<lambda>i q. 7)) sample_place sample_entry None 0 sample_oms = Inr (StSubmitted, s')
     \<and> (\<exists>qty es. qty \<le> 7 \<and> om_events s' = OrderSubmitted (make_order ''rq1'' sample_entry qty 0) # es)"
proof -
  have "case submit sample_coid (Some (\<lambda>i q. 7)) sample_place sample_entry None 0 sample_oms of
      Inl e \<Rightarrow> False | Inr (st, s') \<Rightarrow> st = StSubmitted" by code_simp
  then obtain s' where s': "submit sample_coid (Some (\<lambda>i q. 7)) sample_place sample_entry None 0 sample_oms = Inr (StSubmitted, s')"
    by (auto split: sum.splits)
  have "oms_run sample_coid sample_oms [] = Inr sample_oms" by simp
  from submit_is_gated [OF sample_oms_new this s'] s' show ?thesis
    by (fastforce simp: sample_oms_def sample_coid_def sample_entry_def)
qed

subsection \<open>Duplicates\<close>

lemma run_from_keyed:
  assumes "oms_run coid s ops = Inr s'" "keyed s"
  shows "keyed s' \<and> om_keeps s s'"
proof -
  have "op_fills_ok (\<lambda>f. True) op" for op by (cases op) auto
  then have st: "osteps (\<lambda>s f od. True) s s'"
    using oms_run_steps [OF assms, of "\<lambda>f. True"] by (simp add: list_all_iff)
  show ?thesis using keyed_steps [OF st assms(2)] om_keeps_steps [OF st assms(2)] by blast
qed

lemma submit_run: "submit coid gate place i q now s = Inr (st, s') \<Longrightarrow> oms_run coid s [OpSubmit gate place i q now] = Inr s'"
  by simp

text \<open>An intent is routed at most once. Once a submission has registered an order for it, every
  later submission of an intent with the same id, whatever happened in between, answers duplicate
  (or blocked, when no gate is installed or the book differs), asks no gate, reaches no broker and
  changes nothing.\<close>

theorem resubmit_is_duplicate:
  assumes "new_oms bid (new_book bid cash) = Inr s0" "oms_run coid s0 ops = Inr s"
    and "submit coid gate place i quantity now s = Inr (st, s1)" "st \<notin> {StBlocked, StDuplicate}"
    and "oms_run coid s1 ops' = Inr s2" "i_intent_id i' = i_intent_id i"
  shows "submit coid gate' place' i' quantity' now' s2
    = Inr (if i_book_id i' \<noteq> om_book_id s2 \<or> gate' = None then StBlocked else StDuplicate, s2)"
  using assms(3)
proof (cases rule: submit_cases)
  case stays
  with assms(4) show ?thesis by simp
next
  case (routes g qty s3)
  let ?c = "coid (i_intent_id i)"
  let ?od = "make_order ?c i qty now"
  have k: "keyed s" by (rule run_keyed [OF assms(1,2)])
  have kr: "keyed (register ?od s)" using k by (auto simp: keyed_def dget_dset)
  have st: "osteps (\<lambda>s f od. True) (register ?od s) s3"
    by (rule on_notices_steps [OF routes(5) kr]) simp
  have k3: "keyed s3" by (rule keyed_steps [OF st kr])
  obtain od0 where od0: "dget (om_orders s3) ?c = Some od0" "ref_of od0 = ref_of ?od"
    using ref_of_keeps [OF om_keeps_steps [OF st kr] kr k3, of ?c ?od] by auto
  have "osteps (\<lambda>s f od. True) s3 s1"
    using place_result_steps [OF k3, of ?od od0 "\<lambda>s f od. True" "snd (place ?od)"] od0 routes(6) by (metis make_order_simps(1) snd_conv)
  then have "om_keeps s3 s1" "keyed s1" using om_keeps_steps keyed_steps k3 by blast+
  moreover have "om_keeps s1 s2" using run_from_keyed [OF assms(5)] \<open>keyed s1\<close> by blast
  ultimately have "om_keeps s3 s2" using om_keeps_trans by blast
  then have "dget (om_orders s2) (coid (i_intent_id i')) \<noteq> None"
    using od0(1) assms(6) by (auto simp: om_keeps_def)
  then show ?thesis by (auto simp: submit_def)
qed

subsection \<open>Updates\<close>

text \<open>A broker update moves an order forward or not at all. On a reachable state an update
  changes at most the order it names; that order keeps its intent and its fills and its status
  either stays or follows the transition table, so a final status never changes and a stale or
  illegal report is ignored; the book is never touched.\<close>

theorem update_moves_forward:
  assumes "new_oms bid (new_book bid cash) = Inr s0" "oms_run coid s0 ops = Inr s"
    and "dget (om_orders s) c = Some od"
  shows "\<exists>od'. dget (om_orders (on_update sn s)) c = Some od' \<and> o_intent od' = o_intent od
    \<and> remaining_qty od' = remaining_qty od
    \<and> (o_status od' = o_status od \<or> c = os_client_order_id sn \<and> o_status od' = os_status sn
         \<and> os_status sn \<in> set (next_status (o_status od)))
    \<and> om_book (on_update sn s) = om_book s"
  using on_update_effect [OF run_keyed [OF assms(1,2)], of sn] assms(3) by (auto simp: dget_dset)

definition cancel_report :: order_snapshot where
  "cancel_report =
     \<lparr>os_broker_order_id = ''brq2'', os_client_order_id = ''rq2'', os_instrument_key = ''NSE:EQ:INFY'', os_side = SELL,
      os_product = MIS, os_order_type = MARKET, os_quantity = 10, os_filled_qty = 4, os_avg_fill_price = None,
      os_trigger_price = None, os_status = CANCELLED, os_updated_at = 9\<rparr>"

theorem update_moves_forward_witness:
  "\<exists>s od. oms_run sample_coid sample_oms session_ops = Inr s \<and> dget (om_orders (on_update cancel_report s)) ''rq1'' = Some od
     \<and> o_status od = FILLED"
proof -
  obtain s where s: "oms_run sample_coid sample_oms session_ops = Inr s"
    "map (\<lambda>(c, od). (c, o_status od, o_filled_qty od)) (om_orders s) = [(''rq1'', FILLED, 10), (''rq2'', PARTIALLY_FILLED, 4)]"
    by (rule session_run_ok)
  then obtain od where od: "dget (om_orders s) ''rq1'' = Some od" "o_status od = FILLED" by (auto simp: map_eq_Cons_conv)
  from update_moves_forward [OF sample_oms_new s(1) od(1), of cancel_report] s(1) od(2) show ?thesis by auto
qed

subsection \<open>Reduce-only orders\<close>

lemma reduce_fill:
  assumes "reduce_inv s" "oms_inv s" "dget (om_orders s) (f_client_order_id f) = Some od" "\<not> is_terminal (o_status od)"
    and "i_reduce_only (o_intent od)" "f_instrument_key f = i_key (o_intent od)" "f_side f = i_side (o_intent od)"
    and "fill_valid f" "f_quantity f \<le> remaining_qty od" "f_fill_id f \<notin> pb_seen (om_book s)" "on_known_fill f od s = Inr s'"
  defines "ik \<equiv> i_key (o_intent od)" and "pr \<equiv> i_product (o_intent od)"
  shows "reduce_inv s'" "\<bar>pb_quantity (om_book s') ik pr\<bar> = \<bar>pb_quantity (om_book s) ik pr\<bar> - f_quantity f"
    "0 \<le> pb_quantity (om_book s) ik pr * pb_quantity (om_book s') ik pr"
proof -
  let ?q = "\<lambda>s. pb_quantity (om_book s)" and ?c = "f_client_order_id f"
  have id: "o_client_order_id od = ?c" by (rule keyedD [OF oms_inv_keyed [OF assms(2)] assms(3)])
  obtain od' oc where od': "om_orders s' = dset ?c od' (om_orders s)" "o_intent od' = o_intent od"
    "remaining_qty od' = remaining_qty od - f_quantity f"
    and a: "apply_fill (om_book s) f pr (i_strategy (o_intent od)) (reason_value (i_reason (o_intent od))) = Inr (om_book s', oc)"
    using on_known_fill_orders [OF assms(11)] assms(3,9) id by (fastforce simp: remaining_qty_def pr_def min_def)
  have q': "?q s' k p = ?q s k p + (if k = ik \<and> p = pr then side_sign (i_side (o_intent od)) * f_quantity f else 0)" for k p
    using apply_fill_new_quantity [OF a assms(10) _ assms(8), of k p] assms(2,6,7) by (simp add: oms_inv_def ik_def)
  have n: "0 < f_quantity f" using assms(8) by (simp add: fill_valid_def)
  have live: "live_reduce k p od \<longleftrightarrow> k = ik \<and> p = pr" for k p
    using assms(4,5) by (auto simp: live_reduce_def ik_def pr_def)
  have cm: "commits ik pr od = remaining_qty od" using live by (simp add: commits_def)
  have cm': "commits k p od' = (if k = ik \<and> p = pr \<and> \<not> is_terminal (o_status od') then remaining_qty od - f_quantity f else 0)" for k p
    using od'(2,3) assms(5) by (auto simp: commits_def live_reduce_def ik_def pr_def)
  have pos: "0 < commits ik pr od" using cm n assms(9) by simp
  have opp: "side_sign (i_side (o_intent od)) * ?q s ik pr < 0" using assms(1,3) pos by (auto simp: reduce_inv_def)
  have cle: "commits ik pr od \<le> committed_qty s ik pr" by (rule commits_le_committed [OF assms(2,3)])
  have cq: "committed_qty s k p \<le> \<bar>?q s k p\<bar>" for k p using assms(1) by (simp add: reduce_inv_def)
  have fq: "f_quantity f \<le> \<bar>?q s ik pr\<bar>" using cm assms(9) cle cq [of ik pr] by linarith
  show abs: "\<bar>?q s' ik pr\<bar> = \<bar>?q s ik pr\<bar> - f_quantity f"
    using q' [of ik pr] opp fq n by (cases "i_side (o_intent od)") auto
  show "0 \<le> ?q s ik pr * ?q s' ik pr"
    using q' [of ik pr] opp fq n by (cases "i_side (o_intent od)") (auto simp: zero_le_mult_iff)
  have keeps: "side_sign sd * ?q s' ik pr < 0" if "side_sign sd * ?q s ik pr < 0" "f_quantity f < \<bar>?q s ik pr\<bar>" for sd
    using q' [of ik pr] opp that n by (cases "i_side (o_intent od)"; cases sd) auto
  show "reduce_inv s'"
    unfolding reduce_inv_def
  proof (intro allI conjI impI)
    fix k p
    show "committed_qty s' k p \<le> \<bar>?q s' k p\<bar>"
    proof (cases "k = ik \<and> p = pr")
      case True
      then show ?thesis using committed_dset [OF assms(3) od'(1), of k p] cm cm' [of k p] abs cq [of ik pr] assms(9) by auto
    next
      case False
      then have "commits k p od = 0" using live by (auto simp: commits_def)
      with False show ?thesis using committed_dset [OF assms(3) od'(1), of k p] cm' [of k p] q' [of k p] cq [of k p] by auto
    qed
    fix c x assume x: "dget (om_orders s') c = Some x" "0 < commits k p x"
    show "side_sign (i_side (o_intent x)) * ?q s' k p < 0"
    proof (cases "c = ?c")
      case True
      then have "x = od'" using x od'(1) by simp
      with x(2) cm' [of k p] have k: "k = ik" "p = pr" "f_quantity f < remaining_qty od" by (auto split: if_splits)
      then have "f_quantity f < \<bar>?q s ik pr\<bar>" using cm cle cq [of ik pr] by linarith
      with keeps [OF opp] k \<open>x = od'\<close> od'(2) show ?thesis by simp
    next
      case False
      then have x0: "dget (om_orders s) c = Some x" using x(1) od'(1) by (simp add: dget_dset)
      have old: "side_sign (i_side (o_intent x)) * ?q s k p < 0" using assms(1) x0 x(2) by (auto simp: reduce_inv_def)
      show ?thesis
      proof (cases "k = ik \<and> p = pr")
        case True
        have "f_quantity f < \<bar>?q s ik pr\<bar>"
          using commits_sum_le [OF assms(2) assms(3) x0, of ik pr] False True x(2) cm assms(9) cq [of ik pr] by auto
        with keeps old True show ?thesis by blast
      qed (use q' [of k p] old in auto)
    qed
  qed
qed

lemma submit_reduce_step:
  assumes "reduce_inv s" "oms_inv s" "submit coid gate place i quantity now s = Inr (st, s')"
    and "\<forall>od. working_updates (fst (place od))"
  shows "reduce_inv s'"
  using assms(3)
proof (cases rule: submit_cases)
  case stays
  with assms(1) show ?thesis by simp
next
  case (routes g qty s1)
  let ?od = "make_order (coid (i_intent_id i)) i qty now"
  note pos = gated_qty_pos [OF routes(4)]
  have "ostep valid_fills s (register ?od s)"
    by (intro reg routes(2,3) pos) (rule gated_qty_reduce [OF routes(4)])
  then have invr: "oms_inv (register ?od s)" using oms_inv_step assms(2) by blast
  have "reduce_inv (register ?od s)"
    by (rule register_reduce [OF assms(1,2) routes(3) _ pos]) (rule gated_qty_reduce [OF routes(4)])
  moreover have "working_order (coid (i_intent_id i)) (register ?od s)" by (simp add: working_order_def is_terminal_def)
  ultimately have "reduce_inv s1 \<and> oms_inv s1 \<and> working_order (coid (i_intent_id i)) s1"
    using on_notices_reduce [OF routes(5)] assms(4) invr by blast
  then show ?thesis using place_result_reduce [of s1 ?od "snd (place ?od)"] routes(6) by (metis make_order_simps(1) snd_conv)
qed

text \<open>Reduce-only orders are safe to place together. From a reachable state in which the live
  reduce-only orders fit the position they reduce, a submission whose placement reports working
  statuses leaves them fitting it: their remaining quantities never add up to more than the
  position, and each trades against it.\<close>

theorem submit_keeps_reduce_only:
  assumes "new_oms bid (new_book bid cash) = Inr s0" "oms_run coid s0 ops = Inr s" "list_all (op_fills_ok fill_valid) ops"
    and "reduce_inv s" "submit coid gate place i quantity now s = Inr (st, s')" "\<forall>od. working_updates (fst (place od))"
  shows "reduce_inv s'"
  by (rule submit_reduce_step [OF assms(4) run_inv(1) [OF assms(1-3)] assms(5,6)])

lemma reduce_inv_none:
  assumes "list_all (\<lambda>(c, od). \<not> i_reduce_only (o_intent od)) (om_orders s)"
  shows "reduce_inv s"
proof -
  have z: "commits ik pr od = 0" if "(c, od) \<in> set (om_orders s)" for c od ik pr
    using assms that by (auto simp: list_all_iff commits_def live_reduce_def)
  have "dsum (\<lambda>c od. commits ik pr od) d = 0" if "set d \<subseteq> set (om_orders s)" for d ik pr
    using that by (induction d) (auto simp: z)
  then show ?thesis using z by (fastforce simp: reduce_inv_def committed_qty_dsum dest: dget_in_set)
qed

lemma entry_run:
  "(case oms_run sample_coid sample_oms [OpSubmit (Some (\<lambda>i q. 10)) sample_place sample_entry None 0] of
      Inl e \<Rightarrow> False
    | Inr s \<Rightarrow> list_all (\<lambda>(c, od). \<not> i_reduce_only (o_intent od)) (om_orders s)
        \<and> (case submit sample_coid (Some (\<lambda>i q. 10)) exit_place sample_exit None 5 s of
             Inl e \<Rightarrow> False
           | Inr (st, s') \<Rightarrow> committed_qty s' ''NSE:EQ:INFY'' MIS = 10 \<and> pb_quantity (om_book s') ''NSE:EQ:INFY'' MIS = 10))"
  by code_simp

lemma entry_then_exit:
  obtains s st s' where
    "oms_run sample_coid sample_oms [OpSubmit (Some (\<lambda>i q. 10)) sample_place sample_entry None 0] = Inr s" "reduce_inv s"
    "submit sample_coid (Some (\<lambda>i q. 10)) exit_place sample_exit None 5 s = Inr (st, s')"
    "committed_qty s' ''NSE:EQ:INFY'' MIS = 10" "pb_quantity (om_book s') ''NSE:EQ:INFY'' MIS = 10"
proof -
  obtain s where s: "oms_run sample_coid sample_oms [OpSubmit (Some (\<lambda>i q. 10)) sample_place sample_entry None 0] = Inr s"
    using entry_run by (cases "oms_run sample_coid sample_oms [OpSubmit (Some (\<lambda>i q. 10)) sample_place sample_entry None 0]") simp_all
  note e = entry_run [unfolded s sum.case]
  obtain st s' where s': "submit sample_coid (Some (\<lambda>i q. 10)) exit_place sample_exit None 5 s = Inr (st, s')"
    using e by (cases "submit sample_coid (Some (\<lambda>i q. 10)) exit_place sample_exit None 5 s") auto
  show ?thesis by (rule that [OF s reduce_inv_none s']) (use e s' in simp_all)
qed

theorem submit_keeps_reduce_only_witness:
  "\<exists>s'. reduce_inv s' \<and> committed_qty s' ''NSE:EQ:INFY'' MIS = 10 \<and> pb_quantity (om_book s') ''NSE:EQ:INFY'' MIS = 10"
proof -
  obtain s st s' where s: "oms_run sample_coid sample_oms [OpSubmit (Some (\<lambda>i q. 10)) sample_place sample_entry None 0] = Inr s"
    "reduce_inv s" "submit sample_coid (Some (\<lambda>i q. 10)) exit_place sample_exit None 5 s = Inr (st, s')"
    "committed_qty s' ''NSE:EQ:INFY'' MIS = 10" "pb_quantity (om_book s') ''NSE:EQ:INFY'' MIS = 10" by (rule entry_then_exit)
  have "list_all (op_fills_ok fill_valid) [OpSubmit (Some (\<lambda>i q. 10)) sample_place sample_entry None 0]"
    using open_ops_fills by (simp add: open_ops_def)
  from submit_keeps_reduce_only [OF sample_oms_new s(1) this s(2,3)] s(4,5) show ?thesis by (auto simp: exit_place_def)
qed

text \<open>C15: A reduce-only order never flips a position. In a reachable state in which the live reduce-only
  orders fit the position, a new fill of one of them that is not terminal, within its remaining quantity and
  on the side and instrument of its intent, takes exactly that much off the position, never crosses zero, and
  leaves the reduce-only orders fitting the new position.\<close>

theorem reduce_only_fill_never_flips:
  assumes "new_oms bid (new_book bid cash) = Inr s0" "oms_run coid s0 ops = Inr s" "list_all (op_fills_ok fill_valid) ops"
    and "reduce_inv s" "dget (om_orders s) (f_client_order_id f) = Some od" "\<not> is_terminal (o_status od)"
    and "i_reduce_only (o_intent od)" "f_instrument_key f = i_key (o_intent od)" "f_side f = i_side (o_intent od)"
    and "fill_valid f" "f_quantity f \<le> remaining_qty od" "\<not> has_seen (om_book s) (f_fill_id f)" "on_fill f s = Inr s'"
  shows "\<bar>pb_quantity (om_book s') (i_key (o_intent od)) (i_product (o_intent od))\<bar>
      = \<bar>pb_quantity (om_book s) (i_key (o_intent od)) (i_product (o_intent od))\<bar> - f_quantity f
    \<and> 0 \<le> pb_quantity (om_book s) (i_key (o_intent od)) (i_product (o_intent od))
        * pb_quantity (om_book s') (i_key (o_intent od)) (i_product (o_intent od))
    \<and> reduce_inv s'"
proof -
  have "on_known_fill f od s = Inr s'" "f_fill_id f \<notin> pb_seen (om_book s)"
    using assms(5,12,13) by (simp_all add: on_fill_def has_seen_def)
  from reduce_fill [OF assms(4) run_inv(1) [OF assms(1-3)] assms(5-11) this(2,1)] show ?thesis by blast
qed

lemma open_fill:
  "(case oms_run sample_coid sample_oms open_ops of
      Inl e \<Rightarrow> False
    | Inr s \<Rightarrow> (case dget (om_orders s) ''rq2'' of
        None \<Rightarrow> False
      | Some od \<Rightarrow> o_status od = OPEN \<and> o_intent od = sample_exit \<and> remaining_qty od = 10)
        \<and> \<not> has_seen (om_book s) ''f2'' \<and> (case on_fill sample_exit_fill s of Inl e \<Rightarrow> False | Inr s' \<Rightarrow> True))"
  by code_simp

lemma open_ops_reduce: "oms_run sample_coid sample_oms open_ops = Inr s \<Longrightarrow> reduce_inv s"
proof -
  assume r: "oms_run sample_coid sample_oms open_ops = Inr s"
  let ?op = "OpSubmit (Some (\<lambda>i q. 10)) sample_place sample_entry None 0"
  obtain s1 st s' where s1: "oms_run sample_coid sample_oms [?op] = Inr s1" "reduce_inv s1"
    "submit sample_coid (Some (\<lambda>i q. 10)) exit_place sample_exit None 5 s1 = Inr (st, s')" by (rule entry_then_exit)
  with s1 r have "s' = s" by (auto simp: open_ops_def split: sum.splits)
  have ok: "list_all (op_fills_ok fill_valid) [?op]" using open_ops_fills by (simp add: open_ops_def)
  have "reduce_inv s'"
    by (rule submit_reduce_step [OF s1(2) run_inv(1) [OF sample_oms_new s1(1) ok] s1(3)]) (simp add: exit_place_def)
  with \<open>s' = s\<close> show ?thesis by simp
qed

theorem reduce_only_fill_never_flips_witness:
  "\<exists>s s'. oms_run sample_coid sample_oms open_ops = Inr s \<and> on_fill sample_exit_fill s = Inr s'
     \<and> pb_quantity (om_book s) ''NSE:EQ:INFY'' MIS = 10 \<and> \<bar>pb_quantity (om_book s') ''NSE:EQ:INFY'' MIS\<bar> = 6"
proof -
  obtain s where s: "oms_run sample_coid sample_oms open_ops = Inr s" "pb_quantity (om_book s) ''NSE:EQ:INFY'' MIS = 10"
    by (rule open_run_ok)
  note o = open_fill [unfolded s(1) sum.case]
  obtain od where od: "dget (om_orders s) ''rq2'' = Some od" "o_status od = OPEN" "o_intent od = sample_exit" "remaining_qty od = 10"
    using o by (cases "dget (om_orders s) ''rq2''") auto
  obtain s' where s': "on_fill sample_exit_fill s = Inr s'" using o by (cases "on_fill sample_exit_fill s") auto
  have f: "f_client_order_id sample_exit_fill = ''rq2''" "f_fill_id sample_exit_fill = ''f2''" "f_quantity sample_exit_fill = 4"
    "f_instrument_key sample_exit_fill = i_key sample_exit" "f_side sample_exit_fill = i_side sample_exit" "fill_valid sample_exit_fill"
    "i_reduce_only sample_exit" "i_key sample_exit = ''NSE:EQ:INFY''" "i_product sample_exit = MIS"
    by (simp_all add: sample_exit_fill_def sample_fill_def sample_exit_def sample_entry_def fill_valid_def nse_equity_def)
  have seen: "\<not> has_seen (om_book s) (f_fill_id sample_exit_fill)" using o f by simp
  have "\<bar>pb_quantity (om_book s') ''NSE:EQ:INFY'' MIS\<bar> = 6"
    using reduce_only_fill_never_flips [OF sample_oms_new s(1) open_ops_fills open_ops_reduce [OF s(1)] _ _ _ _ _ f(6) _ seen s', of od]
      od f s(2) by (simp add: is_terminal_def)
  with s s' show ?thesis by (intro exI [where x = s] exI [where x = s'] conjI)
qed

end
