(* ===== verification/OMS_Recon.thy ===== *)
theory OMS_Recon
  imports OMS_Props
begin

section \<open>Reconciliation and unknown orders\<close>

text \<open>
  What an in-sync reconciliation guarantees, when an unknown order is given up, and two states the
  order manager reaches that its documentation rules out.
\<close>

subsection \<open>Dictionaries built from lists\<close>

lemma dget_to_dict: "dget (to_dict xs d) k = (case map_of (rev xs) k of None \<Rightarrow> dget d k | Some v \<Rightarrow> Some v)"
  by (induction xs d rule: to_dict.induct) (auto simp: dget_dset map_add_def split: option.splits)

lemma keys_to_dict: "fst ` set (to_dict xs d) = fst ` set xs \<union> fst ` set d"
  by (induction xs d rule: to_dict.induct) (auto simp: keys_dset)

lemma distinct_to_dict: "distinct (map fst d) \<Longrightarrow> distinct (map fst (to_dict xs d))"
  by (induction xs d rule: to_dict.induct) (auto simp: distinct_dset)

lemma dget_or_absent: "k \<notin> fst ` set d \<Longrightarrow> dget_or x d k = x"
  by (cases "dget d k") (auto simp: dget_or_def dest: map_of_SomeD intro: rev_image_eqI)

lemma map_of_distinct_rev: "distinct (map fst xs) \<Longrightarrow> map_of (rev xs) = map_of xs"
  by (intro map_of_eqI) (auto simp: rev_map [symmetric])

lemma position_diffs_Nil:
  "position_diffs ours theirs = [] \<longleftrightarrow> (\<forall>k. dget_or 0 ours k = dget_or 0 theirs k)"
proof -
  have "position_diffs ours theirs = [] \<longleftrightarrow>
      (\<forall>k \<in> fst ` set ours \<union> fst ` set theirs. dget_or 0 ours k = dget_or 0 theirs k)"
    by (auto simp: position_diffs_def)
  also have "\<dots> \<longleftrightarrow> (\<forall>k. dget_or 0 ours k = dget_or 0 theirs k)"
    using dget_or_absent by (metis UnCI)
  finally show ?thesis .
qed

lemma order_diffs_Nil:
  assumes "distinct (map fst (om_orders s))" "distinct (map fst theirs)"
  shows "order_diffs s theirs = [] \<longleftrightarrow>
    (\<forall>c od. dget (om_orders s) c = Some od \<longrightarrow>
       (case dget theirs c of None \<Rightarrow> o_status od \<in> {REJECTED, UNKNOWN} | Some sn \<Rightarrow> os_status sn = o_status od))
    \<and> (\<forall>c. dget theirs c \<noteq> None \<longrightarrow> dget (om_orders s) c \<noteq> None)"
proof -
  note iff = map_of_eq_Some_iff [OF assms(1)] map_of_eq_Some_iff [OF assms(2)]
  have 1: "concat (map (\<lambda>(c, od). case dget theirs c of
         None \<Rightarrow> if o_status od \<notin> {REJECTED, UNKNOWN} then [OrderUnknownToBroker c (o_status od)] else []
       | Some sn \<Rightarrow> if os_status sn \<noteq> o_status od then [StatusDiff c (o_status od) (os_status sn)] else []) (om_orders s)) = []
    \<longleftrightarrow> (\<forall>c od. dget (om_orders s) c = Some od \<longrightarrow>
       (case dget theirs c of None \<Rightarrow> o_status od \<in> {REJECTED, UNKNOWN} | Some sn \<Rightarrow> os_status sn = o_status od))"
    unfolding iff concat_eq_Nil_conv by (fastforce split: option.splits if_splits)
  have 2: "concat (map (\<lambda>(c, sn). if dget (om_orders s) c = None then [BrokerOrderUnknown c] else []) theirs) = []
    \<longleftrightarrow> (\<forall>c sn. dget theirs c = Some sn \<longrightarrow> dget (om_orders s) c \<noteq> None)"
    unfolding iff concat_eq_Nil_conv by (fastforce split: if_splits)
  show ?thesis unfolding order_diffs_def append_is_Nil_conv 1 2 by auto
qed

lemma book_positions:
  assumes "pb_inv pb"
  shows "dget_or 0 (to_dict (map pos_entry (pb_positions pb now)) []) (ik, pr) = pb_quantity pb ik pr"
proof -
  let ?bs = "sort_key (\<lambda>((ik, pr), b). (ik, product_value pr)) (pb_books pb)"
  have e: "map pos_entry (pb_positions pb now) = map (\<lambda>(k, b). (k, net_quantity b)) ?bs"
    by (auto simp: pb_positions_def pos_entry_def position_of_def Let_def)
  have d: "distinct (map fst ?bs)" using assms by (simp add: pb_inv_def distinct_map)
  have mo: "map_of ?bs = map_of (pb_books pb)"
    using assms d by (intro map_of_eqI) (auto simp: pb_inv_def)
  have "dget (to_dict (map pos_entry (pb_positions pb now)) []) (ik, pr) = map_option net_quantity (map_of (pb_books pb) (ik, pr))"
    using mo map_of_distinct_rev [OF d] by (simp add: dget_to_dict e rev_map map_of_map split: option.splits)
  then show ?thesis by (simp add: dget_or_def pb_quantity_def split: option.splits)
qed

subsection \<open>In sync\<close>

text \<open>What both sides must agree on: every order known to the broker has its status there, an order
  the broker does not know was rejected or is of unknown outcome, the broker has no other order;
  the net positions and the cash, settled, blocked and unsettled, are equal.\<close>

definition broker_orders :: "broker_view \<Rightarrow> (string, order_snapshot) dict" where
  "broker_orders v = to_dict (map (\<lambda>sn. (os_client_order_id sn, sn)) (bv_orders v)) []"

definition broker_positions :: "broker_view \<Rightarrow> (pos_key, int) dict" where
  "broker_positions v = to_dict (map pos_entry (bv_positions v)) []"

definition agrees :: "oms \<Rightarrow> broker_view \<Rightarrow> bool" where
  "agrees s v =
     ((\<forall>c od. dget (om_orders s) c = Some od \<longrightarrow>
         (case dget (broker_orders v) c of
            None \<Rightarrow> o_status od \<in> {REJECTED, UNKNOWN} | Some sn \<Rightarrow> os_status sn = o_status od))
      \<and> (\<forall>c. dget (broker_orders v) c \<noteq> None \<longrightarrow> dget (om_orders s) c \<noteq> None)
      \<and> (\<forall>ik pr. pb_quantity (om_book s) ik pr = dget_or 0 (broker_positions v) (ik, pr))
      \<and> pb_cash (om_book s) = fd_available_cash (bv_funds v) + fd_blocked (bv_funds v) + fd_unsettled_credit (bv_funds v))"

lemma recon_diffs_Nil:
  assumes "oms_inv s"
  shows "recon_diffs s v now = [] \<longleftrightarrow> agrees s v"
proof -
  have d: "distinct (map fst (om_orders s))" "distinct (map fst (broker_orders v))" and pb: "pb_inv (om_book s)"
    using assms by (simp_all add: oms_inv_def broker_orders_def distinct_to_dict)
  show ?thesis
    unfolding recon_diffs_def Let_def broker_orders_def [symmetric] broker_positions_def [symmetric] append_is_Nil_conv
      order_diffs_Nil [OF d] position_diffs_Nil agrees_def split_paired_All book_positions [OF pb] by auto
qed

lemma recon_not_adopted: "list_all is_adopted (recon_diffs s v now) \<longleftrightarrow> recon_diffs s v now = []"
proof -
  have "\<forall>d \<in> set (recon_diffs s v now). \<not> is_adopted d"
    by (auto simp: recon_diffs_def order_diffs_def position_diffs_def Let_def split: option.splits if_splits)
  then show ?thesis by (cases "recon_diffs s v now") auto
qed

lemma on_fill_seen:
  assumes "on_fill f s = Inr s'" "keyed s"
  shows "insert (f_fill_id f) (pb_seen (om_book s)) \<subseteq> pb_seen (om_book s')"
proof (cases "f_fill_id f \<in> pb_seen (om_book s)")
  case True
  with assms(1) show ?thesis by (simp add: on_fill_def has_seen_def)
next
  case False
  show ?thesis
  proof (cases "dget (om_orders s) (f_client_order_id f)")
    case None
    with False assms(1) show ?thesis by (auto simp: on_fill_def has_seen_def split: sum.splits dest: apply_fill_frame(3))
  next
    case (Some od)
    then have k: "on_known_fill f od s = Inr s'" using False assms(1) by (simp add: on_fill_def has_seen_def)
    have "o_client_order_id od = f_client_order_id f" by (rule keyedD [OF assms(2) Some])
    with on_known_fill_orders [OF k] Some show ?thesis by (auto dest: apply_fill_frame(3))
  qed
qed

lemma adopt_seen:
  "adopt fs s = Inr s' \<Longrightarrow> keyed s \<Longrightarrow> f_fill_id ` set fs \<union> pb_seen (om_book s) \<subseteq> pb_seen (om_book s')"
proof (induction fs arbitrary: s)
  case (Cons f fs)
  obtain s1 where s1: "on_fill f s = Inr s1" "adopt fs s1 = Inr s'" using Cons.prems(1) by (auto split: sum.splits)
  have "keyed s1" using on_fill_steps [OF s1(1), of "\<lambda>s f od. True"] keyed_steps Cons.prems(2) by blast
  from Cons.IH [OF s1(2) this] on_fill_seen [OF s1(1) Cons.prems(2)] show ?case by auto
qed simp

text \<open>Reconciliation reports the truth. On a reachable state and for a broker whose trades are
  valid, it reports in sync exactly when, after the missed fills were adopted, both sides agree on
  the orders, the positions and the cash; and every trade of the broker is then booked, in sync or
  not.\<close>

theorem reconcile_in_sync_iff:
  assumes "new_oms bid (new_book bid cash) = Inr s0" "oms_run coid s0 ops = Inr s" "list_all (op_fills_ok fill_valid) ops"
    and "\<forall>f \<in> set (bv_trades v). fill_valid f" "reconcile v now s = Inr (in_sync, s')"
  shows "(in_sync \<longleftrightarrow> agrees s' v) \<and> (\<forall>f \<in> set (bv_trades v). has_seen (om_book s') (f_fill_id f))"
proof -
  have inv: "oms_inv s" by (rule run_inv(1) [OF assms(1-3)])
  obtain s1 where a: "adopt (missing_fills s (bv_trades v)) s = Inr s1"
    using assms(5) by (auto simp: reconcile_def Let_def split: sum.splits)
  have "osteps valid_fills s s1"
    by (rule adopt_steps [OF a oms_inv_keyed [OF inv]]) (use assms(4) in \<open>auto simp: missing_fills_def\<close>)
  then have inv1: "oms_inv s1" using oms_inv_steps inv by blast
  define ds where "ds = map (\<lambda>f. AdoptedFill (f_fill_id f)) (missing_fills s (bv_trades v)) @ recon_diffs s1 v now"
  have "in_sync = list_all is_adopted ds" "s' = (if in_sync then om_emit (ReconciliationResult in_sync ds) s1
      else om_emit (AlertEvent ''SYS_RECON_DRIFT'') (om_emit (ReconciliationResult in_sync ds) s1))"
    using assms(5) unfolding reconcile_def Let_def a sum.case ds_def [symmetric] by auto
  moreover have "list_all is_adopted ds = list_all is_adopted (recon_diffs s1 v now)"
    by (auto simp: ds_def list_all_iff)
  ultimately have r: "in_sync = list_all is_adopted (recon_diffs s1 v now)" "om_orders s' = om_orders s1" "om_book s' = om_book s1"
    by auto
  have "agrees s' v = agrees s1 v" using r by (simp add: agrees_def)
  moreover have "\<forall>f \<in> set (bv_trades v). has_seen (om_book s1) (f_fill_id f)"
    using adopt_seen [OF a oms_inv_keyed [OF inv]] by (auto simp: missing_fills_def has_seen_def)
  ultimately show ?thesis using r recon_not_adopted recon_diffs_Nil [OF inv1] by simp
qed

text \<open>The broker as it stands after the sample session, with one trade whose callback was lost.\<close>

definition report :: "string \<Rightarrow> side \<Rightarrow> int \<Rightarrow> int \<Rightarrow> order_status \<Rightarrow> order_snapshot" where
  "report c sd n filled st =
     \<lparr>os_broker_order_id = ''b'' @ c, os_client_order_id = c, os_instrument_key = ''NSE:EQ:INFY'', os_side = sd,
      os_product = MIS, os_order_type = MARKET, os_quantity = n, os_filled_qty = filled, os_avg_fill_price = None,
      os_trigger_price = None, os_status = st, os_updated_at = 9\<rparr>"

definition sample_view :: broker_view where
  "sample_view =
     \<lparr>bv_trades = [sample_fill ''f1'' BUY 10 100, sample_exit_fill],
      bv_orders = [report ''rq1'' BUY 10 10 FILLED, report ''rq2'' SELL 10 4 PARTIALLY_FILLED],
      bv_positions = [\<lparr>p_book_id = ''main'', p_instrument_key = ''NSE:EQ:INFY'', p_product = MIS, p_quantity = 6,
        p_avg_price = Some 100, p_realized_pnl = 0, p_updated_at = 9\<rparr>],
      bv_funds = \<lparr>fd_available_cash = 4436, fd_blocked = 0, fd_unsettled_credit = 0\<rparr>\<rparr>"

lemma sample_reconcile:
  "(case oms_run sample_coid sample_oms open_ops of
      Inl e \<Rightarrow> False
    | Inr s \<Rightarrow> (case reconcile sample_view 9 s of Inl e \<Rightarrow> False | Inr (in_sync, s') \<Rightarrow> in_sync))"
  by code_simp

theorem reconcile_in_sync_iff_witness:
  "\<exists>s s'. oms_run sample_coid sample_oms open_ops = Inr s \<and> reconcile sample_view 9 s = Inr (True, s')
     \<and> agrees s' sample_view \<and> has_seen (om_book s') ''f2''"
proof -
  obtain s where s: "oms_run sample_coid sample_oms open_ops = Inr s" by (rule open_run_ok)
  obtain s' where s': "reconcile sample_view 9 s = Inr (True, s')"
    using sample_reconcile [unfolded s sum.case] by (cases "reconcile sample_view 9 s") auto
  have "\<forall>f \<in> set (bv_trades sample_view). fill_valid f"
    by (simp add: sample_view_def sample_exit_fill_def sample_fill_def fill_valid_def)
  note r = reconcile_in_sync_iff [OF sample_oms_new s open_ops_fills this s']
  have "sample_exit_fill \<in> set (bv_trades sample_view)" "f_fill_id sample_exit_fill = ''f2''"
    by (simp_all add: sample_view_def sample_exit_fill_def sample_fill_def)
  with r s s' show ?thesis by (metis (no_types, lifting))
qed

subsection \<open>Unknown orders\<close>

text \<open>An order of unknown outcome that the broker does not know is given up only after a second
  check and the timeout: one lookup either leaves the order as it is and counts the check, or
  rejects it when this is at least the second check and the timeout has passed since it was
  submitted. No other order and no position changes.\<close>

theorem unknown_given_up_only_after_two_checks:
  assumes "new_oms bid (new_book bid cash) = Inr s0" "oms_run coid s0 ops = Inr s"
    and "dget (om_orders s) c = Some od"
  shows "let s' = resolve_absent od timeout now s;
             checks = dget_or 0 (om_unknown s) c + 1;
             waited = fdiv (of_int (now - (case o_submitted_at od of None \<Rightarrow> now | Some t \<Rightarrow> t))) (10 ^ 6)
    in om_book s' = om_book s
       \<and> (if 2 \<le> checks \<and> timeout \<le> waited
          then om_orders s' = dset c (od\<lparr>o_status := REJECTED, o_version := o_version od + 1\<rparr>) (om_orders s)
            \<and> om_events s' = om_events s @ [OrderRejected (ref_of od)] \<and> dget (om_unknown s') c = None
          else om_orders s' = om_orders s \<and> om_events s' = om_events s \<and> dget (om_unknown s') c = Some checks)"
proof -
  have id: "o_client_order_id od = c" by (rule keyedD [OF run_keyed [OF assms(1,2)] assms(3)])
  with assms(3) set_order_orders [of "s\<lparr>om_unknown := u\<rparr>" od od "\<lambda>x. x\<lparr>o_status := REJECTED\<rparr>" for u]
  show ?thesis by (simp add: resolve_absent_def Let_def delete_conv)
qed

text \<open>A placement that times out.\<close>

subsection \<open>Where the code departs from its documentation\<close>

text \<open>A late fill reopens a finished order. The order manager is documented to move an order
  forward only, but a fill is applied with the transition check off: after the broker's cancel
  was recorded, a fill of part of the order takes it from cancelled back to partially filled, a
  working status, while the fill itself is booked.\<close>

theorem late_fill_reopens_order:
  "\<exists>s s'. oms_run sample_coid sample_oms (open_ops @ [OpNotices [UpdateNotice cancel_report]]) = Inr s
     \<and> on_fill sample_exit_fill s = Inr s'
     \<and> map_option o_status (dget (om_orders s) ''rq2'') = Some CANCELLED
     \<and> map_option o_status (dget (om_orders s') ''rq2'') = Some PARTIALLY_FILLED
     \<and> committed_qty s ''NSE:EQ:INFY'' MIS = 0 \<and> committed_qty s' ''NSE:EQ:INFY'' MIS = 6"
proof -
  have run: "(case oms_run sample_coid sample_oms (open_ops @ [OpNotices [UpdateNotice cancel_report]]) of
      Inl e \<Rightarrow> False
    | Inr s \<Rightarrow> (case on_fill sample_exit_fill s of
        Inl e \<Rightarrow> False
      | Inr s' \<Rightarrow> map_option o_status (dget (om_orders s) ''rq2'') = Some CANCELLED
         \<and> map_option o_status (dget (om_orders s') ''rq2'') = Some PARTIALLY_FILLED
         \<and> committed_qty s ''NSE:EQ:INFY'' MIS = 0 \<and> committed_qty s' ''NSE:EQ:INFY'' MIS = 6))"
    by code_simp
  obtain s where s: "oms_run sample_coid sample_oms (open_ops @ [OpNotices [UpdateNotice cancel_report]]) = Inr s"
    using run by (cases "oms_run sample_coid sample_oms (open_ops @ [OpNotices [UpdateNotice cancel_report]])") simp_all
  note r = run [unfolded s sum.case]
  obtain s' where s': "on_fill sample_exit_fill s = Inr s'" using r by (cases "on_fill sample_exit_fill s") simp_all
  from r [unfolded s' sum.case] s s' show ?thesis by (intro exI [where x = s] exI [where x = s'] conjI) simp_all
qed

definition early_place :: "order \<Rightarrow> notice list \<times> (broker_error + broker_ack)" where
  "early_place od = ([FillNotice (sample_fill ''f1'' BUY 10 100)], Inl TransportError)"

definition early_ops :: "oms_op list" where
  "early_ops = [OpSubmit (Some (\<lambda>i q. 10)) early_place sample_entry None 0]"

definition filled_lookup :: oms_op where
  "filled_lookup = OpResolve (\<lambda>c. Some (report c BUY 10 10 FILLED)) (\<lambda>t. [sample_fill ''f1'' BUY 10 100]) 30 60000000"

definition stuck :: "oms \<Rightarrow> bool" where
  "stuck s =
     (\<exists>od. om_orders s = [(''rq1'', od)] \<and> o_client_order_id od = ''rq1'' \<and> o_status od = UNKNOWN
        \<and> o_filled_qty od = 10 \<and> o_quantity od = 10 \<and> has_seen (om_book s) ''f1'')"

lemma early_run:
  "(case oms_run sample_coid sample_oms early_ops of
      Inl e \<Rightarrow> False
    | Inr s \<Rightarrow> map (\<lambda>(c, od). (c, o_client_order_id od, o_status od, o_filled_qty od, o_quantity od)) (om_orders s)
          = [(''rq1'', ''rq1'', UNKNOWN, 10, 10)] \<and> has_seen (om_book s) ''f1'')"
  by code_simp

lemma stuck_step:
  assumes "stuck s"
  shows "\<exists>s'. oms_do sample_coid s filled_lookup = Inr s' \<and> stuck s'"
proof -
  obtain od where od: "om_orders s = [(''rq1'', od)]" "o_client_order_id od = ''rq1''" "o_status od = UNKNOWN"
    "o_filled_qty od = 10" "o_quantity od = 10" "has_seen (om_book s) ''f1''"
    using assms by (auto simp: stuck_def)
  have "has_seen (om_book (set_order od upd s)) (f_fill_id (sample_fill ''f1'' BUY 10 100))" for upd
    using od(6) by (simp add: sample_fill_def)
  then show ?thesis
    using od by (auto simp: filled_lookup_def resolve_unknown_def resolve_found_def missing_fills_def Let_def report_def
        stuck_def set_order_def dget_or_def)
qed

lemma stuck_run: "stuck s \<Longrightarrow> \<exists>s'. oms_run sample_coid s (replicate n filled_lookup) = Inr s' \<and> stuck s'"
proof (induction n arbitrary: s)
  case (Suc n)
  obtain s1 where "oms_do sample_coid s filled_lookup = Inr s1" "stuck s1" using stuck_step [OF Suc.prems] by blast
  with Suc.IH [of s1] show ?case by auto
qed simp

lemma oms_run_append:
  "oms_run coid s (xs @ ys) = (case oms_run coid s xs of Inl e \<Rightarrow> Inl e | Inr s' \<Rightarrow> oms_run coid s' ys)"
  by (induction xs arbitrary: s) (auto split: sum.splits)

text \<open>An order filled before its placement times out stays unknown for ever. The fill arrives by
  callback and completes the order, then the placement call fails with a transport error and
  the order is marked unknown; the broker reports it filled, its trade is already booked, and no
  number of lookups moves it on, since a filled report is left to the fills.\<close>

theorem filled_order_stuck_unknown:
  "\<exists>s od. oms_run sample_coid sample_oms (early_ops @ replicate n filled_lookup) = Inr s
     \<and> dget (om_orders s) ''rq1'' = Some od \<and> o_status od = UNKNOWN \<and> o_filled_qty od = o_quantity od"
proof -
  obtain s where s: "oms_run sample_coid sample_oms early_ops = Inr s"
    using early_run by (cases "oms_run sample_coid sample_oms early_ops") simp_all
  have "stuck s" using early_run [unfolded s sum.case] by (auto simp: stuck_def map_eq_Cons_conv)
  with stuck_run [of s n] obtain s' where "oms_run sample_coid s (replicate n filled_lookup) = Inr s'" "stuck s'" by blast
  with s show ?thesis by (auto simp: oms_run_append stuck_def)
qed

end
