(* ===== verification/Risk_Events.thy ===== *)
theory Risk_Events
  imports Calendar
begin

section \<open>The event calendar\<close>

text \<open>
  \<^verbatim>\<open>src/risk/events.py\<close>: classified announcements give windows, counted in trading
  sessions, in which new entries in an instrument are blocked. The rules are given parsed; the
  reason text of a block is left out, and \<open>te_event_date\<close> is the parsed date of the event's extra
  data (\<^verbatim>\<open>_event_date\<close>).
\<close>

record event_rules =
  er_results_types :: "announcement_type list"
  er_results_before :: int
  er_results_after :: int
  er_adverse_direction :: event_direction
  er_adverse_materiality :: materiality
  er_adverse_after :: int
  er_held_direction :: event_direction
  er_held_materiality :: materiality

definition default_event_rules :: event_rules where
  "default_event_rules =
     \<lparr>er_results_types = [AtResults, AtResultsDate], er_results_before = 1, er_results_after = 1,
      er_adverse_direction = EdNegative, er_adverse_materiality = Major, er_adverse_after = 2,
      er_held_direction = EdNegative, er_held_materiality = Major\<rparr>"

definition load_event_rules :: "event_rules \<Rightarrow> event_rules result" where
  "load_event_rules r =
     (if min (er_results_before r) (min (er_results_after r) (er_adverse_after r)) < 0
      then Inl ValueError else Inr r)"

definition is_adverse :: "event_rules \<Rightarrow> typed_event \<Rightarrow> bool" where
  "is_adverse r e =
     (te_relevant e \<and> te_direction e = Some (er_adverse_direction r)
      \<and> te_materiality e = Some (er_adverse_materiality r))"

definition is_held_alert :: "event_rules \<Rightarrow> typed_event \<Rightarrow> bool" where
  "is_held_alert r e =
     (te_relevant e \<and> te_direction e = Some (er_held_direction r)
      \<and> te_materiality e = Some (er_held_materiality r))"

record event_block =
  eb_code :: evt_code
  eb_start :: date
  eb_end :: date
  eb_event_id :: string

definition eb_covers :: "event_block \<Rightarrow> date \<Rightarrow> bool" where
  "eb_covers b d = (eb_start b \<le> d \<and> d \<le> eb_end b)"

subsection \<open>Counting sessions\<close>

text \<open>\<open>shift_sessions\<close> steps from session to session; where the calendar does not cover the
  date, weekdays stand in for sessions.\<close>

definition step_of :: "bool \<Rightarrow> int" where
  "step_of fwd = (if fwd then 1 else - 1)"

function skip_weekend :: "bool \<Rightarrow> date \<Rightarrow> date" where
  "skip_weekend fwd d = (if 5 \<le> weekday d then skip_weekend fwd (d + step_of fwd) else d)"
  by auto
termination
proof (relation "measure (\<lambda>(fwd, d). if weekday d < 5 then 0 else if fwd then nat (7 - weekday d) else nat (weekday d - 4))")
  fix fwd d assume w: "5 \<le> weekday d"
  have "weekday d = 5 \<or> weekday d = 6" using w pos_mod_bound [of 7 "d + 3"] by (auto simp: weekday_def)
  then have "weekday (d + 1) = (if weekday d = 5 then 6 else 0)" "weekday (d - 1) = (if weekday d = 5 then 4 else 5)"
    unfolding weekday_def by presburger+
  with \<open>weekday d = 5 \<or> weekday d = 6\<close> show "((fwd, d + step_of fwd), fwd, d)
      \<in> measure (\<lambda>(fwd, d). if weekday d < 5 then 0 else if fwd then nat (7 - weekday d) else nat (weekday d - 4))"
    by (cases fwd) (auto simp: step_of_def)
qed simp

declare skip_weekend.simps [simp del]

definition next_session_day :: "nse_calendar \<Rightarrow> bool \<Rightarrow> date \<Rightarrow> date result" where
  "next_session_day cal fwd d =
     (case (if fwd then next_trading_day cal d else previous_trading_day cal d) of
        Inr d' \<Rightarrow> Inr d'
      | Inl CalendarCoverageError \<Rightarrow> Inr (skip_weekend fwd (d + step_of fwd))
      | Inl e \<Rightarrow> Inl e)"

fun shift_steps :: "nse_calendar \<Rightarrow> bool \<Rightarrow> nat \<Rightarrow> date \<Rightarrow> date result" where
  "shift_steps cal fwd 0 d = Inr d"
| "shift_steps cal fwd (Suc n) d =
     (case next_session_day cal fwd d of Inl e \<Rightarrow> Inl e | Inr d' \<Rightarrow> shift_steps cal fwd n d')"

definition shift_sessions :: "nse_calendar \<Rightarrow> date \<Rightarrow> int \<Rightarrow> date result" where
  "shift_sessions cal d n = shift_steps cal (0 < n) (nat \<bar>n\<bar>) d"

subsection \<open>Blocks\<close>

definition block_of :: "nse_calendar \<Rightarrow> event_rules \<Rightarrow> typed_event \<Rightarrow> event_block option result" where
  "block_of cal r e =
     (let published = ist_date (te_published_at e)
      in if (case te_announcement_type e of None \<Rightarrow> False | Some t \<Rightarrow> t \<in> set (er_results_types r)) then
           (let d = (case te_event_date e of None \<Rightarrow> published | Some x \<Rightarrow> x)
            in case shift_sessions cal d (- er_results_before r) of
                 Inl x \<Rightarrow> Inl x
               | Inr s \<Rightarrow>
                   (case shift_sessions cal d (er_results_after r) of
                      Inl x \<Rightarrow> Inl x
                    | Inr t \<Rightarrow> Inr (Some \<lparr>eb_code = EVT_RESULTS_WINDOW, eb_start = s, eb_end = t,
                        eb_event_id = te_event_id e\<rparr>)))
         else if is_adverse r e then
           (case shift_sessions cal published (er_adverse_after r) of
              Inl x \<Rightarrow> Inl x
            | Inr t \<Rightarrow> Inr (Some \<lparr>eb_code = EVT_ADVERSE_MAJOR, eb_start = published, eb_end = t,
                eb_event_id = te_event_id e\<rparr>))
         else Inr None)"

fun event_blocks_from ::
  "nse_calendar \<Rightarrow> event_rules \<Rightarrow> ts \<Rightarrow> typed_event list \<Rightarrow> (string, event_block list) dict
    \<Rightarrow> (string, event_block list) dict result" where
  "event_blocks_from cal r now [] out = Inr out"
| "event_blocks_from cal r now (e # es) out =
     (if now < te_published_at e then event_blocks_from cal r now es out
      else case block_of cal r e of
             Inl x \<Rightarrow> Inl x
           | Inr None \<Rightarrow> event_blocks_from cal r now es out
           | Inr (Some b) \<Rightarrow>
               event_blocks_from cal r now es
                 (if ist_date now \<le> eb_end b
                  then dset (te_instrument_key e) (dget_or [] out (te_instrument_key e) @ [b]) out else out))"

definition event_blocks ::
  "typed_event list \<Rightarrow> nse_calendar \<Rightarrow> event_rules \<Rightarrow> ts \<Rightarrow> (string, event_block list) dict result" where
  "event_blocks es cal r now = event_blocks_from cal r now es []"

subsection \<open>Lemmas\<close>

lemma skip_weekend_weekday: "weekday (skip_weekend fwd d) < 5"
proof (induction fwd d rule: skip_weekend.induct)
  case (1 fwd d)
  then show ?case by (cases "5 \<le> weekday d") (simp_all add: skip_weekend.simps [of fwd d])
qed

lemma skip_weekend_direction: "if fwd then d \<le> skip_weekend fwd d else skip_weekend fwd d \<le> d"
proof (induction fwd d rule: skip_weekend.induct)
  case (1 fwd d)
  show ?case
  proof (cases "5 \<le> weekday d")
    case True
    then have "skip_weekend fwd d = skip_weekend fwd (d + step_of fwd)" by (simp add: skip_weekend.simps [of fwd d])
    with 1 [OF True] show ?thesis by (cases fwd) (auto simp: step_of_def)
  next
    case False
    then have "skip_weekend fwd d = d" by (simp add: skip_weekend.simps [of fwd d])
    then show ?thesis by (cases fwd) simp_all
  qed
qed

lemma scan_coverage_error: "scan_from cal n c step = Inl e \<Longrightarrow> e = CalendarCoverageError"
  by (induction n arbitrary: c)
     (auto simp: is_trading_day_def session_on_def split: sum.splits option.splits if_splits bool.splits)

lemma next_session_day_total:
  obtains d' where "next_session_day cal fwd d = Inr d'" "if fwd then d < d' else d' < d"
proof (cases "if fwd then next_trading_day cal d else previous_trading_day cal d")
  case (Inl e)
  then have "e = CalendarCoverageError"
    using scan_coverage_error by (auto simp: next_trading_day_def previous_trading_day_def split: if_splits)
  with Inl that [of "skip_weekend fwd (d + step_of fwd)"] skip_weekend_direction [of fwd "d + step_of fwd"] show ?thesis
    by (cases fwd) (auto simp: next_session_day_def step_of_def)
next
  case (Inr d')
  have "if fwd then d < d' else d' < d"
    using Inr scan_from_sound [of cal max_scan_days d 1 d'] scan_from_sound [of cal max_scan_days d "- 1" d']
    by (auto simp: next_trading_day_def previous_trading_day_def split: if_splits)
  with Inr that show ?thesis by (auto simp: next_session_day_def)
qed

lemma shift_steps_total: "\<exists>d'. shift_steps cal fwd n d = Inr d' \<and> (if fwd then d + int n \<le> d' else d' \<le> d - int n)"
proof (induction n arbitrary: d)
  case (Suc n)
  obtain d1 where d1: "next_session_day cal fwd d = Inr d1" "if fwd then d < d1 else d1 < d" by (rule next_session_day_total)
  with Suc.IH [of d1] show ?case by (cases fwd) auto
qed simp

lemma shift_sessions_total:
  "\<exists>d'. shift_sessions cal d n = Inr d' \<and> (0 \<le> n \<longrightarrow> d + n \<le> d') \<and> (n \<le> 0 \<longrightarrow> d' \<le> d + n)"
  using shift_steps_total [of cal "0 < n" "nat \<bar>n\<bar>" d] by (auto simp: shift_sessions_def split: if_splits)


subsection \<open>Properties of the event calendar\<close>

text \<open>The day an event is about, and the block it gives at an instant.\<close>

definition event_day :: "typed_event \<Rightarrow> date" where
  "event_day e = (case te_event_date e of None \<Rightarrow> ist_date (te_published_at e) | Some d \<Rightarrow> d)"

definition is_results :: "event_rules \<Rightarrow> typed_event \<Rightarrow> bool" where
  "is_results r e = (case te_announcement_type e of None \<Rightarrow> False | Some t \<Rightarrow> t \<in> set (er_results_types r))"

definition blocks_at :: "nse_calendar \<Rightarrow> event_rules \<Rightarrow> ts \<Rightarrow> typed_event \<Rightarrow> event_block list" where
  "blocks_at cal r now e =
     (if now < te_published_at e then []
      else case block_of cal r e of
             Inr (Some b) \<Rightarrow> if ist_date now \<le> eb_end b then [b] else []
           | _ \<Rightarrow> [])"

lemma block_of_total: "\<exists>b. block_of cal r e = Inr b"
  using shift_sessions_total [of cal "event_day e"] shift_sessions_total [of cal "ist_date (te_published_at e)"]
  unfolding block_of_def event_day_def Let_def by (metis (mono_tags, lifting) sum.case(2))

lemma event_blocks_from_exact:
  "\<exists>out'. event_blocks_from cal r now es out = Inr out'
     \<and> (\<forall>ik. dget_or [] out' ik = dget_or [] out ik
          @ concat (map (blocks_at cal r now) (filter (\<lambda>e. te_instrument_key e = ik) es)))"
proof (induction es arbitrary: out)
  case (Cons e es)
  obtain b where b: "block_of cal r e = Inr b" using block_of_total by blast
  define out1 where "out1 = (if blocks_at cal r now e = [] then out
    else dset (te_instrument_key e) (dget_or [] out (te_instrument_key e) @ blocks_at cal r now e) out)"
  have "event_blocks_from cal r now (e # es) out = event_blocks_from cal r now es out1"
    using b by (cases b) (auto simp: out1_def blocks_at_def)
  moreover have "dget_or [] out1 ik = dget_or [] out ik @ (if te_instrument_key e = ik then blocks_at cal r now e else [])" for ik
    by (simp add: out1_def dget_or_def dget_dset)
  ultimately show ?case using Cons.IH [of out1] by auto
qed simp

lemma block_of_window:
  assumes "load_event_rules r = Inr r'" "block_of cal r e = Inr (Some b)"
  shows "if is_results r e
    then eb_code b = EVT_RESULTS_WINDOW \<and> eb_start b \<le> event_day e - er_results_before r
      \<and> event_day e + er_results_after r \<le> eb_end b
    else is_adverse r e \<and> eb_code b = EVT_ADVERSE_MAJOR \<and> eb_start b = ist_date (te_published_at e)
      \<and> eb_start b + er_adverse_after r \<le> eb_end b"
proof -
  have nn: "0 \<le> er_results_before r" "0 \<le> er_results_after r" "0 \<le> er_adverse_after r"
    using assms(1) by (auto simp: load_event_rules_def split: if_splits)
  obtain s t where st: "shift_sessions cal (event_day e) (- er_results_before r) = Inr s" "s \<le> event_day e - er_results_before r"
    "shift_sessions cal (event_day e) (er_results_after r) = Inr t" "event_day e + er_results_after r \<le> t"
    using shift_sessions_total [of cal "event_day e" "- er_results_before r"]
      shift_sessions_total [of cal "event_day e" "er_results_after r"] nn by auto
  obtain u where u: "shift_sessions cal (ist_date (te_published_at e)) (er_adverse_after r) = Inr u"
    "ist_date (te_published_at e) + er_adverse_after r \<le> u"
    using shift_sessions_total [of cal "ist_date (te_published_at e)" "er_adverse_after r"] nn by auto
  show ?thesis
    using assms(2) st u unfolding block_of_def is_results_def [symmetric] event_day_def [symmetric] Let_def
    by (auto split: if_splits)
qed

text \<open>The event calendar is exact and uses no knowledge of the future. With loaded rules it never
  fails, inside and outside the calendar's coverage; the blocks of an instrument are, in order,
  those of its events published by then that have not ended; and every block spans its
  event's day and at least the configured number of days on each side.\<close>

theorem event_blocks_exact:
  assumes "load_event_rules r = Inr r'"
  shows "\<exists>out. event_blocks es cal r now = Inr out
    \<and> (\<forall>ik. dget_or [] out ik = concat (map (blocks_at cal r now) (filter (\<lambda>e. te_instrument_key e = ik) es)))
    \<and> (\<forall>e b. b \<in> set (blocks_at cal r now e) \<longrightarrow> te_published_at e \<le> now \<and> ist_date now \<le> eb_end b
         \<and> (if is_results r e
            then eb_start b \<le> event_day e - er_results_before r \<and> event_day e + er_results_after r \<le> eb_end b
            else eb_start b = ist_date (te_published_at e) \<and> eb_start b + er_adverse_after r \<le> eb_end b))"
proof -
  obtain out where "event_blocks es cal r now = Inr out"
    "\<forall>ik. dget_or [] out ik = concat (map (blocks_at cal r now) (filter (\<lambda>e. te_instrument_key e = ik) es))"
    using event_blocks_from_exact [of cal r now es "[]"] by (auto simp: event_blocks_def dget_or_def)
  moreover have "te_published_at e \<le> now \<and> ist_date now \<le> eb_end b
      \<and> (if is_results r e
         then eb_start b \<le> event_day e - er_results_before r \<and> event_day e + er_results_after r \<le> eb_end b
         else eb_start b = ist_date (te_published_at e) \<and> eb_start b + er_adverse_after r \<le> eb_end b)"
    if "b \<in> set (blocks_at cal r now e)" for e b
    using that block_of_window [OF assms, of cal e b] by (auto simp: blocks_at_def split: if_splits sum.splits option.splits)
  ultimately show ?thesis by blast
qed

definition sample_event :: typed_event where
  "sample_event =
     \<lparr>te_event_id = ''e1'', te_instrument_key = ''NSE:EQ:INFY'', te_published_at = combine_ist 20475 (hm 18 0), te_relevant = True,
      te_announcement_type = Some AtResultsDate, te_direction = None, te_materiality = None, te_event_date = Some 20476\<rparr>"

theorem event_blocks_exact_witness:
  "\<exists>out. event_blocks [sample_event] sample_calendar default_event_rules (combine_ist 20476 (hm 10 0)) = Inr out
     \<and> dget_or [] out ''NSE:EQ:INFY''
       = [\<lparr>eb_code = EVT_RESULTS_WINDOW, eb_start = 20475, eb_end = 20480, eb_event_id = ''e1''\<rparr>]"
proof -
  have "load_event_rules default_event_rules = Inr default_event_rules"
    by (simp add: load_event_rules_def default_event_rules_def)
  note e = event_blocks_exact [OF this, of "[sample_event]" sample_calendar "combine_ist 20476 (hm 10 0)"]
  have "concat (map (blocks_at sample_calendar default_event_rules (combine_ist 20476 (hm 10 0)))
      (filter (\<lambda>e. te_instrument_key e = ''NSE:EQ:INFY'') [sample_event]))
    = [\<lparr>eb_code = EVT_RESULTS_WINDOW, eb_start = 20475, eb_end = 20480, eb_event_id = ''e1''\<rparr>]"
    by code_simp
  with e show ?thesis by metis
qed

end
