(* ===== verification/Risk_Base.thy ===== *)
theory Risk_Base
  imports Risk_Events Fill_Model
begin

section \<open>Limits, snapshots and check results\<close>

text \<open>
  \<^verbatim>\<open>src/config/limits.py\<close>, \<^verbatim>\<open>src/risk/snapshot.py\<close> and
  \<^verbatim>\<open>src/risk/checks/base.py\<close>: the bounded limits, what one risk decision is made against, and
  the helpers that build check results. A float limit is the rational value of the double. Decimal
  operations here round to 28 digits (\<open>dadd\<close>, \<open>dsub\<close>, \<open>dmul\<close>, \<open>ddiv\<close>), since a mark may be an
  average price. The displayed columns of a result and the hash of the limits are left out.
\<close>

subsection \<open>Limits\<close>

datatype kill_action = ActHaltNew | ActFlatten

record risk_limits =
  rl_risk_per_trade :: rat
  rl_max_position_pct :: rat
  rl_max_position_inr :: rat
  rl_adv_pct :: rat
  rl_kelly_enabled :: bool
  rl_kelly_min_trades :: int
  rl_kelly_scale :: rat
  rl_min_rr :: rat
  rl_stop_atr_min :: rat
  rl_stop_atr_max :: rat
  rl_max_stop_pct :: rat
  rl_price_collar_pct :: rat
  rl_allow_short :: bool
  rl_max_positions :: int
  rl_max_gross_exposure_pct :: rat
  rl_max_sector_pct :: rat
  rl_max_heat_pct :: rat
  rl_daily_loss_limit_pct :: rat
  rl_max_drawdown_pct :: rat
  rl_max_entries_per_day :: int
  rl_enabled_strategies :: "string list"
  rl_strategy_capital_pct :: rat
  rl_strategy_daily_loss_pct :: rat
  rl_strategy_max_consec_losses :: int
  rl_strategy_orders_per_min :: int
  rl_max_quote_age_s :: rat
  rl_max_open_orders :: int
  rl_orders_per_min :: int
  rl_reject_storm_count :: int
  rl_reject_storm_window_s :: rat
  rl_daily_loss_action :: kill_action
  rl_drawdown_action :: kill_action
  rl_rearm_on_new_day :: bool
  rl_flatten_escalate_after :: int

definition default_limits :: risk_limits where
  "default_limits =
     \<lparr>rl_risk_per_trade = fl64 (2 / 100), rl_max_position_pct = fl64 (10 / 100), rl_max_position_inr = 100000,
      rl_adv_pct = fl64 (1 / 100), rl_kelly_enabled = False, rl_kelly_min_trades = 30, rl_kelly_scale = fl64 (25 / 100),
      rl_min_rr = fl64 (15 / 10), rl_stop_atr_min = fl64 (5 / 10), rl_stop_atr_max = 3,
      rl_max_stop_pct = fl64 (5 / 100), rl_price_collar_pct = fl64 (3 / 100), rl_allow_short = False,
      rl_max_positions = 5, rl_max_gross_exposure_pct = fl64 (50 / 100), rl_max_sector_pct = fl64 (30 / 100),
      rl_max_heat_pct = fl64 (6 / 100), rl_daily_loss_limit_pct = fl64 (1 / 100), rl_max_drawdown_pct = fl64 (5 / 100),
      rl_max_entries_per_day = 10, rl_enabled_strategies = [''momentum'', ''mean_reversion''],
      rl_strategy_capital_pct = fl64 (50 / 100), rl_strategy_daily_loss_pct = fl64 (5 / 1000),
      rl_strategy_max_consec_losses = 4, rl_strategy_orders_per_min = 5, rl_max_quote_age_s = 1200,
      rl_max_open_orders = 20, rl_orders_per_min = 10, rl_reject_storm_count = 5, rl_reject_storm_window_s = 600,
      rl_daily_loss_action = ActFlatten, rl_drawdown_action = ActFlatten, rl_rearm_on_new_day = False,
      rl_flatten_escalate_after = 3\<rparr>"

text \<open>The bounds of the fields; a bound such as \<^verbatim>\<open>le=0.05\<close> is a double itself.\<close>

definition gt_le :: "rat \<Rightarrow> rat \<Rightarrow> bool" where
  "gt_le x hi = (0 < x \<and> x \<le> fl64 hi)"

definition within_range :: "int \<Rightarrow> int \<Rightarrow> int \<Rightarrow> bool" where
  "within_range lo x hi = (lo \<le> x \<and> x \<le> hi)"

definition limits_bounded :: "risk_limits \<Rightarrow> bool" where
  "limits_bounded l =
     (gt_le (rl_risk_per_trade l) (5 / 100) \<and> gt_le (rl_max_position_pct l) (25 / 100)
      \<and> 0 < rl_max_position_inr l \<and> gt_le (rl_adv_pct l) (10 / 100) \<and> 30 \<le> rl_kelly_min_trades l
      \<and> gt_le (rl_kelly_scale l) 1 \<and> 1 / 2 \<le> rl_min_rr l \<and> rl_min_rr l \<le> 10
      \<and> gt_le (rl_stop_atr_min l) 10 \<and> gt_le (rl_stop_atr_max l) 10 \<and> gt_le (rl_max_stop_pct l) (25 / 100)
      \<and> gt_le (rl_price_collar_pct l) (20 / 100) \<and> within_range 1 (rl_max_positions l) 20
      \<and> gt_le (rl_max_gross_exposure_pct l) 1 \<and> gt_le (rl_max_sector_pct l) 1
      \<and> gt_le (rl_max_heat_pct l) (25 / 100) \<and> gt_le (rl_daily_loss_limit_pct l) (10 / 100)
      \<and> gt_le (rl_max_drawdown_pct l) (25 / 100) \<and> within_range 1 (rl_max_entries_per_day l) 100
      \<and> gt_le (rl_strategy_capital_pct l) 1 \<and> gt_le (rl_strategy_daily_loss_pct l) (10 / 100)
      \<and> within_range 1 (rl_strategy_max_consec_losses l) 50 \<and> within_range 1 (rl_strategy_orders_per_min l) 60
      \<and> gt_le (rl_max_quote_age_s l) 3600 \<and> within_range 1 (rl_max_open_orders l) 200
      \<and> within_range 1 (rl_orders_per_min l) 120 \<and> within_range 1 (rl_reject_storm_count l) 100
      \<and> gt_le (rl_reject_storm_window_s l) 86400 \<and> within_range 1 (rl_flatten_escalate_after l) 20)"

definition limits_consistent :: "risk_limits \<Rightarrow> bool" where
  "limits_consistent l =
     (rl_stop_atr_min l < rl_stop_atr_max l \<and> rl_risk_per_trade l \<le> rl_max_position_pct l
      \<and> rl_max_position_pct l \<le> rl_max_gross_exposure_pct l \<and> rl_enabled_strategies l \<noteq> [])"

definition load_risk_limits :: "risk_limits \<Rightarrow> risk_limits result" where
  "load_risk_limits l = (if limits_bounded l \<and> limits_consistent l then Inr l else Inl ConfigError)"

subsection \<open>The snapshot\<close>

definition unknown_sector :: string where
  "unknown_sector = ''Unknown''"

record position_info =
  pi_instrument_key :: string
  pi_quantity :: int
  pi_avg_price :: rat
  pi_mark :: rat
  pi_sector :: "string option"
  pi_strategy :: "string option"
  pi_stop_price :: "rat option"

definition pi_notional :: "position_info \<Rightarrow> rat" where
  "pi_notional p = dmul (of_int \<bar>pi_quantity p\<bar>) (pi_mark p)"

definition pi_open_risk :: "position_info \<Rightarrow> rat" where
  "pi_open_risk p =
     (case pi_stop_price p of
        None \<Rightarrow> pi_notional p
      | Some stop \<Rightarrow> max 0 (dmul (dsub (pi_mark p) stop) (of_int (pi_quantity p))))"

record strategy_stats =
  st_day_pnl :: rat
  st_consecutive_losses :: int
  st_orders_last_min :: int
  st_trades :: int
  st_win_rate :: "rat option"
  st_payoff :: "rat option"

definition no_stats :: strategy_stats where
  "no_stats =
     \<lparr>st_day_pnl = 0, st_consecutive_losses = 0, st_orders_last_min = 0, st_trades = 0,
      st_win_rate = None, st_payoff = None\<rparr>"

record market_facts =
  mf_quote :: "quote option"
  mf_atr :: "rat option"
  mf_adv_shares :: "rat option"
  mf_data_source :: "market_data_source option"

definition no_facts :: market_facts where
  "no_facts = \<lparr>mf_quote = None, mf_atr = None, mf_adv_shares = None, mf_data_source = None\<rparr>"

record risk_snapshot =
  sn_now :: ts
  sn_environment :: string
  sn_equity :: rat
  sn_cash :: rat
  sn_sod_equity :: rat
  sn_peak_equity :: rat
  sn_positions :: "(string, position_info) dict"
  sn_market :: "(string, market_facts) dict"
  sn_strategies :: "(string, strategy_stats) dict"
  sn_kill :: kill_state
  sn_open_orders :: int
  sn_orders_last_min :: int
  sn_rejects_in_window :: int
  sn_entries_today :: int
  sn_symbols_entered_today :: "string list"
  sn_symbols_exited_today :: "string list"
  sn_unknown_order_keys :: "string list"
  sn_is_trading_day :: bool
  sn_is_weekend :: bool
  sn_session_open :: bool
  sn_entry_window :: bool
  sn_llm_degraded :: bool
  sn_journal_durable :: bool
  sn_recon_drift :: bool
  sn_event_blocks :: "(string, event_block list) dict"

text \<open>\<^verbatim>\<open>sum(..., Decimal(0))\<close>, from the left.\<close>

definition dec_sum :: "rat list \<Rightarrow> rat" where
  "dec_sum xs = foldl dadd 0 xs"

definition day_pnl_mtm :: "risk_snapshot \<Rightarrow> rat" where
  "day_pnl_mtm s = dsub (sn_equity s) (sn_sod_equity s)"

definition gross_exposure :: "risk_snapshot \<Rightarrow> rat" where
  "gross_exposure s = dec_sum (map (\<lambda>(k, p). pi_notional p) (sn_positions s))"

definition net_exposure :: "risk_snapshot \<Rightarrow> rat" where
  "net_exposure s = dec_sum (map (\<lambda>(k, p). dmul (of_int (pi_quantity p)) (pi_mark p)) (sn_positions s))"

definition heat_of :: "risk_snapshot \<Rightarrow> rat" where
  "heat_of s = dec_sum (map (\<lambda>(k, p). pi_open_risk p) (sn_positions s))"

text \<open>\<^verbatim>\<open>sector or UNKNOWN_SECTOR\<close>: an empty name counts as unmapped.\<close>

definition sector_name :: "string option \<Rightarrow> string" where
  "sector_name s = (if s = None \<or> s = Some '''' then unknown_sector else the s)"

definition sector_exposure :: "risk_snapshot \<Rightarrow> string \<Rightarrow> rat" where
  "sector_exposure s name =
     dec_sum (map (\<lambda>(k, p). pi_notional p) (filter (\<lambda>(k, p). sector_name (pi_sector p) = name) (sn_positions s)))"

definition deployed :: "risk_snapshot \<Rightarrow> string \<Rightarrow> rat" where
  "deployed s strategy =
     dec_sum (map (\<lambda>(k, p). pi_notional p) (filter (\<lambda>(k, p). pi_strategy p = Some strategy) (sn_positions s)))"

definition summary :: "risk_snapshot \<Rightarrow> rat option \<Rightarrow> market_data_source option \<Rightarrow> risk_snapshot_summary" where
  "summary s age source =
     \<lparr>rs_equity = sn_equity s, rs_sod_equity = sn_sod_equity s, rs_day_pnl_mtm = day_pnl_mtm s,
      rs_peak_equity = sn_peak_equity s, rs_gross_exposure = gross_exposure s, rs_net_exposure = net_exposure s,
      rs_heat = heat_of s,
      rs_open_positions = int (length (filter (\<lambda>(k, p). pi_quantity p \<noteq> 0) (sn_positions s))),
      rs_open_orders = sn_open_orders s, rs_quote_age_s = map_option (max 0) age, rs_data_source = source\<rparr>"

subsection \<open>Reservations and the context of a decision\<close>

record reservations =
  rv_symbols :: "string list"
  rv_gross :: rat
  rv_heat :: rat
  rv_cash :: rat
  rv_entries :: int
  rv_orders :: int
  rv_by_sector :: "(string, rat) dict"
  rv_by_strategy :: "(string, rat) dict"

definition no_reservations :: reservations where
  "no_reservations =
     \<lparr>rv_symbols = [], rv_gross = 0, rv_heat = 0, rv_cash = 0, rv_entries = 0, rv_orders = 0,
      rv_by_sector = [], rv_by_strategy = []\<rparr>"

record risk_context =
  cx_intent :: order_intent
  cx_snapshot :: risk_snapshot
  cx_limits :: risk_limits
  cx_reserved :: reservations
  cx_requested :: "int option"

definition is_opening :: "risk_context \<Rightarrow> bool" where
  "is_opening c = (\<not> reduces_risk (i_kind (cx_intent c)))"

abbreviation cx_key :: "risk_context \<Rightarrow> string" where
  "cx_key c \<equiv> i_key (cx_intent c)"

definition facts :: "risk_context \<Rightarrow> market_facts" where
  "facts c = dget_or no_facts (sn_market (cx_snapshot c)) (cx_key c)"

definition cx_price :: "risk_context \<Rightarrow> rat option" where
  "cx_price c = map_option (\<lambda>q. dec_of_float (q_ltp q)) (mf_quote (facts c))"

definition stop_distance :: "risk_context \<Rightarrow> rat option" where
  "stop_distance c =
     (case (i_stop_price (cx_intent c), cx_price c) of
        (Some stop, Some price) \<Rightarrow>
          Some (if i_side (cx_intent c) = BUY then dsub price stop else dsub stop price)
      | _ \<Rightarrow> None)"

definition cx_sector :: "risk_context \<Rightarrow> string" where
  "cx_sector c = sector_name (ins_sector (i_instrument (cx_intent c)))"

definition cx_position :: "risk_context \<Rightarrow> position_info option" where
  "cx_position c = dget (sn_positions (cx_snapshot c)) (cx_key c)"

definition pct :: "risk_context \<Rightarrow> rat \<Rightarrow> rat" where
  "pct c fraction = dmul (sn_equity (cx_snapshot c)) (dec_of_float fraction)"

definition add_to :: "string \<Rightarrow> rat \<Rightarrow> (string, rat) dict \<Rightarrow> (string, rat) dict" where
  "add_to k x d = dset k (dadd (dget_or 0 d k) x) d"

definition reserve :: "risk_context \<Rightarrow> int \<Rightarrow> bool \<Rightarrow> reservations \<Rightarrow> reservations" where
  "reserve c quantity counted r =
     (let r1 = (if counted then r\<lparr>rv_orders := rv_orders r + 1\<rparr> else r)
      in case cx_price c of
           None \<Rightarrow> r1
         | Some price \<Rightarrow>
             if \<not> is_opening c then r1
             else let notional = dmul price (of_int quantity);
                      r2 = r1\<lparr>rv_symbols := List.insert (cx_key c) (rv_symbols r1),
                              rv_gross := dadd (rv_gross r1) notional, rv_cash := dadd (rv_cash r1) notional\<rparr>;
                      r3 = (if counted then r2\<lparr>rv_entries := rv_entries r2 + 1\<rparr> else r2);
                      r4 = (case stop_distance c of
                              None \<Rightarrow> r3
                            | Some d \<Rightarrow> r3\<lparr>rv_heat := dadd (rv_heat r3) (dmul d (of_int quantity))\<rparr>)
                  in r4\<lparr>rv_by_sector := add_to (cx_sector c) notional (rv_by_sector r4),
                        rv_by_strategy := add_to (i_strategy (cx_intent c)) notional (rv_by_strategy r4)\<rparr>)"

subsection \<open>Check results\<close>

definition opens_kinds :: "intent_kind list" where
  "opens_kinds = [KOpen, KIncrease]"

definition reduces_kinds :: "intent_kind list" where
  "reduces_kinds = [KReduce, KClose, KFlatten]"

definition all_kinds :: "intent_kind list" where
  "all_kinds = opens_kinds @ reduces_kinds"

type_synonym check_fn = "risk_context \<Rightarrow> risk_check_result option result"

record risk_check =
  rk_code :: reason_code
  rk_applies_to :: "intent_kind list"
  rk_fn :: check_fn

definition block :: "reason_code \<Rightarrow> risk_check_result option result" where
  "block c = Inr (Some \<lparr>rr_code = c, rr_outcome = BLOCK, rr_max_qty = None\<rparr>)"

definition resize :: "reason_code \<Rightarrow> int \<Rightarrow> risk_check_result option result" where
  "resize c q = Inr (Some \<lparr>rr_code = c, rr_outcome = RESIZE, rr_max_qty = Some (max 0 q)\<rparr>)"

definition info :: "reason_code \<Rightarrow> risk_check_result option result" where
  "info c = Inr (Some \<lparr>rr_code = c, rr_outcome = ALLOW, rr_max_qty = None\<rparr>)"

abbreviation pass :: "risk_check_result option result" where
  "pass \<equiv> Inr None"

definition shares :: "rat \<Rightarrow> rat \<Rightarrow> int" where
  "shares amount per_share = (if per_share \<le> 0 \<or> amount \<le> 0 then 0 else \<lfloor>ddiv amount per_share\<rfloor>)"

lemma shares_nonneg [simp]: "0 \<le> shares a p"
  by (simp add: shares_def ddiv_nonneg)

text \<open>What a number of shares costs stays within the amount, up to the rounding of one division.\<close>

lemma shares_le: "0 < p \<Longrightarrow> n \<le> shares a p \<Longrightarrow> 0 \<le> n \<Longrightarrow> of_int n * p \<le> max 0 a * (1 + 1 / 10 ^ 27)"
proof -
  assume p: "0 < p" and n: "n \<le> shares a p" "0 \<le> n"
  show ?thesis
  proof (cases "a \<le> 0")
    case True
    with n p show ?thesis by (simp add: shares_def)
  next
    case False
    with n p have "of_int n * p \<le> of_int \<lfloor>ddiv a p\<rfloor> * p" by (simp add: shares_def)
    also have "\<dots> \<le> a * (1 + 1 / 10 ^ 27)" using floor_ddiv_le [of a p] False p by simp
    finally show ?thesis using False by simp
  qed
qed

end
