(* ===== verification/Risk_Checks.thy ===== *)
theory Risk_Checks
  imports Risk_Base
begin

section \<open>The risk checks\<close>

text \<open>
  \<^verbatim>\<open>src/risk/checks/\<close>: one function per check, in the order of the files \<^verbatim>\<open>system.py\<close>,
  \<^verbatim>\<open>strategy.py\<close>, \<^verbatim>\<open>portfolio.py\<close>, \<^verbatim>\<open>events.py\<close> and \<^verbatim>\<open>order.py\<close>, and the tables that say to which
  intents each applies. A check passes silently, blocks, caps the quantity, or raises; the
  divisions by a price raise when the price is zero.
\<close>

subsection \<open>System\<close>

definition check_data_source :: "market_data_source option \<Rightarrow> string \<Rightarrow> risk_check_result" where
  "check_data_source source environment =
     \<lparr>rr_code = Sys SYS_DATA_SIMULATED,
      rr_outcome =
        (case source of
           None \<Rightarrow> BLOCK
         | Some s \<Rightarrow> if is_fabricated s \<and> environment \<noteq> ''demo'' then BLOCK else ALLOW),
      rr_max_qty = None\<rparr>"

definition kill_global :: check_fn where
  "kill_global c = (if ks_global (sn_kill (cx_snapshot c)) \<noteq> ARMED then block (Sys SYS_KILL_GLOBAL) else pass)"

definition kill_broker :: check_fn where
  "kill_broker c = (if ks_broker (sn_kill (cx_snapshot c)) \<noteq> ARMED then block (Sys SYS_KILL_BROKER) else pass)"

definition session_closed :: check_fn where
  "session_closed c =
     (let s = cx_snapshot c
      in if sn_is_weekend s \<or> (sn_is_trading_day s \<and> \<not> sn_session_open s) then block (Sys SYS_SESSION_CLOSED) else pass)"

definition holiday :: check_fn where
  "holiday c =
     (let s = cx_snapshot c
      in if \<not> sn_is_trading_day s \<and> \<not> sn_is_weekend s then block (Sys SYS_HOLIDAY) else pass)"

definition entry_cutoff :: check_fn where
  "entry_cutoff c = (if \<not> sn_entry_window (cx_snapshot c) then block (Sys SYS_ENTRY_CUTOFF) else pass)"

definition data_stale :: check_fn where
  "data_stale c =
     (case mf_quote (facts c) of
        None \<Rightarrow> block (Sys SYS_DATA_STALE)
      | Some q \<Rightarrow>
          if rl_max_quote_age_s (cx_limits c) < age_seconds q (sn_now (cx_snapshot c))
          then block (Sys SYS_DATA_STALE) else pass)"

definition data_simulated :: check_fn where
  "data_simulated c =
     (let source = mf_data_source (facts c)
      in if source = None \<and> \<not> is_opening c then pass
         else let r = check_data_source source (sn_environment (cx_snapshot c))
              in if rr_outcome r = BLOCK then Inr (Some r) else pass)"

definition max_open_orders :: check_fn where
  "max_open_orders c =
     (if rl_max_open_orders (cx_limits c) \<le> sn_open_orders (cx_snapshot c) then block (Sys SYS_MAX_OPEN_ORDERS) else pass)"

definition sys_order_rate :: check_fn where
  "sys_order_rate c =
     (if rl_orders_per_min (cx_limits c) \<le> sn_orders_last_min (cx_snapshot c) + rv_orders (cx_reserved c)
      then block (Sys SYS_ORDER_RATE) else pass)"

definition reject_storm :: check_fn where
  "reject_storm c =
     (if rl_reject_storm_count (cx_limits c) \<le> sn_rejects_in_window (cx_snapshot c) then block (Sys SYS_REJECT_STORM) else pass)"

definition unknown_order :: check_fn where
  "unknown_order c =
     (if cx_key c \<in> set (sn_unknown_order_keys (cx_snapshot c)) then block (Sys SYS_UNKNOWN_ORDER) else pass)"

definition llm_degraded :: check_fn where
  "llm_degraded c = (if sn_llm_degraded (cx_snapshot c) then info (Sys SYS_LLM_DEGRADED) else pass)"

definition journal_not_durable :: check_fn where
  "journal_not_durable c = (if \<not> sn_journal_durable (cx_snapshot c) then block (Sys SYS_JOURNAL_NOT_DURABLE) else pass)"

definition recon_drift :: check_fn where
  "recon_drift c = (if sn_recon_drift (cx_snapshot c) then block (Sys SYS_RECON_DRIFT) else pass)"

definition system_checks :: "risk_check list" where
  "system_checks =
     [\<lparr>rk_code = Sys SYS_SESSION_CLOSED, rk_applies_to = all_kinds, rk_fn = session_closed\<rparr>,
      \<lparr>rk_code = Sys SYS_HOLIDAY, rk_applies_to = all_kinds, rk_fn = holiday\<rparr>,
      \<lparr>rk_code = Sys SYS_DATA_SIMULATED, rk_applies_to = all_kinds, rk_fn = data_simulated\<rparr>,
      \<lparr>rk_code = Sys SYS_KILL_GLOBAL, rk_applies_to = opens_kinds, rk_fn = kill_global\<rparr>,
      \<lparr>rk_code = Sys SYS_KILL_BROKER, rk_applies_to = opens_kinds, rk_fn = kill_broker\<rparr>,
      \<lparr>rk_code = Sys SYS_ENTRY_CUTOFF, rk_applies_to = opens_kinds, rk_fn = entry_cutoff\<rparr>,
      \<lparr>rk_code = Sys SYS_DATA_STALE, rk_applies_to = opens_kinds, rk_fn = data_stale\<rparr>,
      \<lparr>rk_code = Sys SYS_MAX_OPEN_ORDERS, rk_applies_to = opens_kinds, rk_fn = max_open_orders\<rparr>,
      \<lparr>rk_code = Sys SYS_ORDER_RATE, rk_applies_to = opens_kinds, rk_fn = sys_order_rate\<rparr>,
      \<lparr>rk_code = Sys SYS_REJECT_STORM, rk_applies_to = opens_kinds, rk_fn = reject_storm\<rparr>,
      \<lparr>rk_code = Sys SYS_UNKNOWN_ORDER, rk_applies_to = opens_kinds, rk_fn = unknown_order\<rparr>,
      \<lparr>rk_code = Sys SYS_LLM_DEGRADED, rk_applies_to = opens_kinds, rk_fn = llm_degraded\<rparr>,
      \<lparr>rk_code = Sys SYS_JOURNAL_NOT_DURABLE, rk_applies_to = opens_kinds, rk_fn = journal_not_durable\<rparr>,
      \<lparr>rk_code = Sys SYS_RECON_DRIFT, rk_applies_to = opens_kinds, rk_fn = recon_drift\<rparr>]"

subsection \<open>Strategy\<close>

definition stats_of :: "risk_context \<Rightarrow> strategy_stats" where
  "stats_of c = dget_or no_stats (sn_strategies (cx_snapshot c)) (i_strategy (cx_intent c))"

definition halted :: check_fn where
  "halted c =
     (if dget_or ARMED (ks_strategies (sn_kill (cx_snapshot c))) (i_strategy (cx_intent c)) \<noteq> ARMED
      then block (Str STR_HALTED) else pass)"

definition not_validated :: check_fn where
  "not_validated c =
     (if i_strategy (cx_intent c) \<notin> set (rl_enabled_strategies (cx_limits c)) then block (Str STR_NOT_VALIDATED) else pass)"

definition capital_used :: "risk_context \<Rightarrow> rat" where
  "capital_used c =
     dadd (deployed (cx_snapshot c) (i_strategy (cx_intent c)))
          (dget_or 0 (rv_by_strategy (cx_reserved c)) (i_strategy (cx_intent c)))"

definition capital_alloc :: check_fn where
  "capital_alloc c =
     (case cx_price c of
        None \<Rightarrow> pass
      | Some price \<Rightarrow>
          let budget = pct c (rl_strategy_capital_pct (cx_limits c));
              room = dsub budget (capital_used c)
          in if room \<le> 0 then block (Str STR_CAPITAL_ALLOC)
             else resize (Str STR_CAPITAL_ALLOC) (shares room price))"

definition str_daily_loss :: check_fn where
  "str_daily_loss c =
     (let limit = dmul (sn_sod_equity (cx_snapshot c)) (dec_of_float (rl_strategy_daily_loss_pct (cx_limits c)))
      in if st_day_pnl (stats_of c) \<le> - limit then block (Str STR_DAILY_LOSS) else pass)"

definition consec_losses :: check_fn where
  "consec_losses c =
     (if rl_strategy_max_consec_losses (cx_limits c) \<le> st_consecutive_losses (stats_of c)
      then block (Str STR_CONSEC_LOSSES) else pass)"

definition str_order_rate :: check_fn where
  "str_order_rate c =
     (if rl_strategy_orders_per_min (cx_limits c) \<le> st_orders_last_min (stats_of c) then block (Str STR_ORDER_RATE) else pass)"

definition strategy_checks :: "risk_check list" where
  "strategy_checks =
     [\<lparr>rk_code = Str STR_HALTED, rk_applies_to = opens_kinds, rk_fn = halted\<rparr>,
      \<lparr>rk_code = Str STR_NOT_VALIDATED, rk_applies_to = opens_kinds, rk_fn = not_validated\<rparr>,
      \<lparr>rk_code = Str STR_CAPITAL_ALLOC, rk_applies_to = opens_kinds, rk_fn = capital_alloc\<rparr>,
      \<lparr>rk_code = Str STR_DAILY_LOSS, rk_applies_to = opens_kinds, rk_fn = str_daily_loss\<rparr>,
      \<lparr>rk_code = Str STR_CONSEC_LOSSES, rk_applies_to = opens_kinds, rk_fn = consec_losses\<rparr>,
      \<lparr>rk_code = Str STR_ORDER_RATE, rk_applies_to = opens_kinds, rk_fn = str_order_rate\<rparr>]"

subsection \<open>Portfolio\<close>

definition buy_cost_buffer :: rat where
  "buy_cost_buffer = 10065 / 10000"

definition new_symbol :: "risk_context \<Rightarrow> bool" where
  "new_symbol c =
     (\<not> (case cx_position c of None \<Rightarrow> False | Some p \<Rightarrow> pi_quantity p \<noteq> 0)
      \<and> cx_key c \<notin> set (rv_symbols (cx_reserved c)))"

definition held_keys :: "risk_snapshot \<Rightarrow> string list" where
  "held_keys s = remdups (map (\<lambda>(k, p). pi_instrument_key p) (filter (\<lambda>(k, p). pi_quantity p \<noteq> 0) (sn_positions s)))"

definition positions_count :: "risk_context \<Rightarrow> int" where
  "positions_count c =
     (let held_now = held_keys (cx_snapshot c)
      in int (length held_now) + int (length (filter (\<lambda>k. k \<notin> set held_now) (rv_symbols (cx_reserved c)))))"

definition max_positions :: check_fn where
  "max_positions c =
     (if \<not> new_symbol c then pass
      else if rl_max_positions (cx_limits c) \<le> positions_count c then block (Pf PF_MAX_POSITIONS) else pass)"

definition duplicate :: check_fn where
  "duplicate c = (if i_kind (cx_intent c) = KOpen \<and> \<not> new_symbol c then block (Pf PF_DUPLICATE) else pass)"

definition reentry_same_day :: check_fn where
  "reentry_same_day c =
     (if cx_key c \<in> set (sn_symbols_exited_today (cx_snapshot c)) \<or> cx_key c \<in> set (sn_symbols_entered_today (cx_snapshot c))
      then block (Pf PF_REENTRY_SAME_DAY) else pass)"

text \<open>Three checks leave room below a share of the equity.\<close>

definition room_check :: "reason_code \<Rightarrow> rat \<Rightarrow> rat \<Rightarrow> rat \<Rightarrow> risk_check_result option result" where
  "room_check code limit used per_share =
     (if limit \<le> used then block code else resize code (shares (dsub limit used) per_share))"

definition gross_used :: "risk_context \<Rightarrow> rat" where
  "gross_used c = dadd (gross_exposure (cx_snapshot c)) (rv_gross (cx_reserved c))"

definition gross :: check_fn where
  "gross c =
     (case cx_price c of
        None \<Rightarrow> pass
      | Some price \<Rightarrow> room_check (Pf PF_GROSS) (pct c (rl_max_gross_exposure_pct (cx_limits c))) (gross_used c) price)"

definition sector_used :: "risk_context \<Rightarrow> rat" where
  "sector_used c =
     dadd (sector_exposure (cx_snapshot c) (cx_sector c)) (dget_or 0 (rv_by_sector (cx_reserved c)) (cx_sector c))"

definition sector :: check_fn where
  "sector c =
     (case cx_price c of
        None \<Rightarrow> pass
      | Some price \<Rightarrow> room_check (Pf PF_SECTOR) (pct c (rl_max_sector_pct (cx_limits c))) (sector_used c) price)"

definition heat_used :: "risk_context \<Rightarrow> rat" where
  "heat_used c = dadd (heat_of (cx_snapshot c)) (rv_heat (cx_reserved c))"

definition heat :: check_fn where
  "heat c =
     (case stop_distance c of
        None \<Rightarrow> pass
      | Some distance \<Rightarrow>
          if distance \<le> 0 then pass
          else room_check (Pf PF_HEAT) (pct c (rl_max_heat_pct (cx_limits c))) (heat_used c) distance)"

definition cash_free :: "risk_context \<Rightarrow> rat" where
  "cash_free c = dsub (sn_cash (cx_snapshot c)) (rv_cash (cx_reserved c))"

definition cash :: check_fn where
  "cash c =
     (case cx_price c of
        None \<Rightarrow> pass
      | Some price \<Rightarrow>
          if i_side (cx_intent c) = SELL then pass
          else if cash_free c \<le> 0 then block (Pf PF_CASH)
          else resize (Pf PF_CASH) (shares (cash_free c) (dmul price buy_cost_buffer)))"

definition daily_loss_mtm :: check_fn where
  "daily_loss_mtm c =
     (let limit = dmul (sn_sod_equity (cx_snapshot c)) (dec_of_float (rl_daily_loss_limit_pct (cx_limits c)))
      in if day_pnl_mtm (cx_snapshot c) \<le> - limit then block (Pf PF_DAILY_LOSS_MTM) else pass)"

definition drawdown :: check_fn where
  "drawdown c =
     (let peak = sn_peak_equity (cx_snapshot c)
      in if peak \<le> 0 then pass
         else if dec_of_float (rl_max_drawdown_pct (cx_limits c)) \<le> ddiv (dsub peak (sn_equity (cx_snapshot c))) peak
         then block (Pf PF_DRAWDOWN) else pass)"

definition entries_per_day :: check_fn where
  "entries_per_day c =
     (if rl_max_entries_per_day (cx_limits c) \<le> sn_entries_today (cx_snapshot c) + rv_entries (cx_reserved c)
      then block (Pf PF_ENTRIES_PER_DAY) else pass)"

definition portfolio_checks :: "risk_check list" where
  "portfolio_checks =
     [\<lparr>rk_code = Pf PF_MAX_POSITIONS, rk_applies_to = opens_kinds, rk_fn = max_positions\<rparr>,
      \<lparr>rk_code = Pf PF_DUPLICATE, rk_applies_to = opens_kinds, rk_fn = duplicate\<rparr>,
      \<lparr>rk_code = Pf PF_REENTRY_SAME_DAY, rk_applies_to = opens_kinds, rk_fn = reentry_same_day\<rparr>,
      \<lparr>rk_code = Pf PF_GROSS, rk_applies_to = opens_kinds, rk_fn = gross\<rparr>,
      \<lparr>rk_code = Pf PF_SECTOR, rk_applies_to = opens_kinds, rk_fn = sector\<rparr>,
      \<lparr>rk_code = Pf PF_HEAT, rk_applies_to = opens_kinds, rk_fn = heat\<rparr>,
      \<lparr>rk_code = Pf PF_CASH, rk_applies_to = opens_kinds, rk_fn = cash\<rparr>,
      \<lparr>rk_code = Pf PF_DAILY_LOSS_MTM, rk_applies_to = opens_kinds, rk_fn = daily_loss_mtm\<rparr>,
      \<lparr>rk_code = Pf PF_DRAWDOWN, rk_applies_to = opens_kinds, rk_fn = drawdown\<rparr>,
      \<lparr>rk_code = Pf PF_ENTRIES_PER_DAY, rk_applies_to = opens_kinds, rk_fn = entries_per_day\<rparr>]"

subsection \<open>Events\<close>

definition in_window :: "evt_code \<Rightarrow> check_fn" where
  "in_window code c =
     (let today = ist_date (sn_now (cx_snapshot c))
      in if list_ex (\<lambda>b. eb_code b = code \<and> eb_covers b today) (dget_or [] (sn_event_blocks (cx_snapshot c)) (cx_key c))
         then block (Evt code) else pass)"

definition event_checks :: "risk_check list" where
  "event_checks =
     [\<lparr>rk_code = Evt EVT_RESULTS_WINDOW, rk_applies_to = opens_kinds, rk_fn = in_window EVT_RESULTS_WINDOW\<rparr>,
      \<lparr>rk_code = Evt EVT_ADVERSE_MAJOR, rk_applies_to = opens_kinds, rk_fn = in_window EVT_ADVERSE_MAJOR\<rparr>]"

subsection \<open>Order\<close>

definition qty_nonpos :: check_fn where
  "qty_nonpos c =
     (case cx_requested c of None \<Rightarrow> pass | Some q \<Rightarrow> if q \<le> 0 then block (Ord ORD_QTY_NONPOS) else pass)"

definition notional_cap :: "risk_context \<Rightarrow> rat" where
  "notional_cap c =
     min (pct c (rl_max_position_pct (cx_limits c))) (dec_of_float (rl_max_position_inr (cx_limits c)))"

definition notional_max :: check_fn where
  "notional_max c =
     (case cx_price c of
        None \<Rightarrow> pass
      | Some price \<Rightarrow> resize (Ord ORD_NOTIONAL_MAX) (shares (notional_cap c) price))"

text \<open>The risk budget: the configured fraction, or the scaled Kelly fraction when that is smaller.\<close>

definition risk_fraction :: "risk_context \<Rightarrow> rat" where
  "risk_fraction c =
     (let fraction = rl_risk_per_trade (cx_limits c)
      in case dget (sn_strategies (cx_snapshot c)) (i_strategy (cx_intent c)) of
           None \<Rightarrow> fraction
         | Some s \<Rightarrow>
             (case (st_win_rate s, st_payoff s) of
                (Some win_rate, Some payoff) \<Rightarrow>
                  if rl_kelly_enabled (cx_limits c) \<and> rl_kelly_min_trades (cx_limits c) \<le> st_trades s \<and> payoff \<noteq> 0
                  then let kelly = fsub win_rate (fdiv (fsub 1 win_rate) payoff)
                       in min fraction (max 0 (fmul kelly (rl_kelly_scale (cx_limits c))))
                  else fraction
              | _ \<Rightarrow> fraction))"

definition risk_per_trade :: check_fn where
  "risk_per_trade c =
     (case stop_distance c of
        None \<Rightarrow> block (Ord ORD_RISK_PER_TRADE)
      | Some distance \<Rightarrow>
          if distance \<le> 0 then pass
          else resize (Ord ORD_RISK_PER_TRADE) (shares (pct c (risk_fraction c)) distance))"

definition stop_wrong_side :: check_fn where
  "stop_wrong_side c =
     (case stop_distance c of
        None \<Rightarrow> pass
      | Some distance \<Rightarrow> if distance \<le> 0 then block (Ord ORD_STOP_WRONG_SIDE) else pass)"

definition stop_too_wide :: check_fn where
  "stop_too_wide c =
     (case (stop_distance c, cx_price c) of
        (Some distance, Some price) \<Rightarrow>
          if distance \<le> 0 then pass
          else if price = 0 then Inl ZeroDivisionError
          else if dec_of_float (rl_max_stop_pct (cx_limits c)) < ddiv distance price then block (Ord ORD_STOP_TOO_WIDE)
          else (case mf_atr (facts c) of
                  None \<Rightarrow> pass
                | Some atr \<Rightarrow>
                    if 0 < atr \<and> dmul atr (dec_of_float (rl_stop_atr_max (cx_limits c))) < distance
                    then block (Ord ORD_STOP_TOO_WIDE) else pass)
      | _ \<Rightarrow> pass)"

definition stop_too_tight :: check_fn where
  "stop_too_tight c =
     (case (stop_distance c, mf_atr (facts c)) of
        (Some distance, Some atr) \<Rightarrow>
          if distance \<le> 0 \<or> atr \<le> 0 then pass
          else if distance < dmul atr (dec_of_float (rl_stop_atr_min (cx_limits c)))
          then block (Ord ORD_STOP_TOO_TIGHT) else pass
      | _ \<Rightarrow> pass)"

definition rr_min :: check_fn where
  "rr_min c =
     (case (stop_distance c, cx_price c, i_target_price (cx_intent c)) of
        (Some distance, Some price, Some target) \<Rightarrow>
          if distance \<le> 0 then pass
          else let reward = (if i_side (cx_intent c) = BUY then dsub target price else dsub price target)
               in if ddiv reward distance < dec_of_float (rl_min_rr (cx_limits c)) then block (Ord ORD_RR_MIN) else pass
      | _ \<Rightarrow> pass)"

definition price_collar :: check_fn where
  "price_collar c =
     (case cx_price c of
        None \<Rightarrow> pass
      | Some price \<Rightarrow>
          if price = 0 then Inl ZeroDivisionError
          else if dec_of_float (rl_price_collar_pct (cx_limits c)) < \<bar>dsub (ddiv (i_decision_price (cx_intent c)) price) 1\<bar>
          then block (Ord ORD_PRICE_COLLAR) else pass)"

definition adv_cap :: check_fn where
  "adv_cap c =
     (case mf_adv_shares (facts c) of
        None \<Rightarrow> pass
      | Some adv \<Rightarrow>
          if adv \<le> 0 then pass
          else resize (Ord ORD_ADV_PCT) (py_int (fmul adv (rl_adv_pct (cx_limits c)))))"

definition circuit_band :: check_fn where
  "circuit_band c =
     (case (ins_band_pct (i_instrument (cx_intent c)), mf_quote (facts c)) of
        (Some band, Some q) \<Rightarrow>
          (case q_prev_close q of
             None \<Rightarrow> pass
           | Some prev \<Rightarrow>
               if prev = 0 then pass
               else let move = fmul \<bar>fsub (fdiv (q_ltp q) prev) 1\<bar> 100
                    in if fsub band (1 / 2) \<le> move then block (Ord ORD_CIRCUIT_BAND) else pass)
      | _ \<Rightarrow> pass)"

definition off_tick :: "risk_context \<Rightarrow> rat option \<Rightarrow> bool" where
  "off_tick c price =
     (case price of None \<Rightarrow> False | Some p \<Rightarrow> \<not> on_tick p (ins_tick_size (i_instrument (cx_intent c))))"

definition tick :: check_fn where
  "tick c =
     (if off_tick c (i_limit_price (cx_intent c)) \<or> off_tick c (i_trigger_price (cx_intent c))
      then block (Ord ORD_TICK) else pass)"

definition short_not_allowed :: check_fn where
  "short_not_allowed c =
     (if i_side (cx_intent c) = SELL \<and> \<not> rl_allow_short (cx_limits c) then block (Ord ORD_SHORT_NOT_ALLOWED) else pass)"

definition held_qty :: "risk_context \<Rightarrow> int" where
  "held_qty c = (case cx_position c of None \<Rightarrow> 0 | Some p \<Rightarrow> pi_quantity p)"

definition reduce_exceeds_pos :: check_fn where
  "reduce_exceeds_pos c =
     (let can_reduce = (if i_side (cx_intent c) = SELL then held_qty c else - held_qty c)
      in if can_reduce \<le> 0 then block (Ord ORD_REDUCE_EXCEEDS_POS)
         else resize (Ord ORD_REDUCE_EXCEEDS_POS) can_reduce)"

definition order_checks :: "risk_check list" where
  "order_checks =
     [\<lparr>rk_code = Ord ORD_QTY_NONPOS, rk_applies_to = all_kinds, rk_fn = qty_nonpos\<rparr>,
      \<lparr>rk_code = Ord ORD_NOTIONAL_MAX, rk_applies_to = opens_kinds, rk_fn = notional_max\<rparr>,
      \<lparr>rk_code = Ord ORD_RISK_PER_TRADE, rk_applies_to = opens_kinds, rk_fn = risk_per_trade\<rparr>,
      \<lparr>rk_code = Ord ORD_STOP_WRONG_SIDE, rk_applies_to = opens_kinds, rk_fn = stop_wrong_side\<rparr>,
      \<lparr>rk_code = Ord ORD_STOP_TOO_WIDE, rk_applies_to = opens_kinds, rk_fn = stop_too_wide\<rparr>,
      \<lparr>rk_code = Ord ORD_STOP_TOO_TIGHT, rk_applies_to = opens_kinds, rk_fn = stop_too_tight\<rparr>,
      \<lparr>rk_code = Ord ORD_RR_MIN, rk_applies_to = opens_kinds, rk_fn = rr_min\<rparr>,
      \<lparr>rk_code = Ord ORD_PRICE_COLLAR, rk_applies_to = opens_kinds, rk_fn = price_collar\<rparr>,
      \<lparr>rk_code = Ord ORD_ADV_PCT, rk_applies_to = opens_kinds, rk_fn = adv_cap\<rparr>,
      \<lparr>rk_code = Ord ORD_CIRCUIT_BAND, rk_applies_to = opens_kinds, rk_fn = circuit_band\<rparr>,
      \<lparr>rk_code = Ord ORD_TICK, rk_applies_to = all_kinds, rk_fn = tick\<rparr>,
      \<lparr>rk_code = Ord ORD_SHORT_NOT_ALLOWED, rk_applies_to = opens_kinds, rk_fn = short_not_allowed\<rparr>,
      \<lparr>rk_code = Ord ORD_REDUCE_EXCEEDS_POS, rk_applies_to = reduces_kinds, rk_fn = reduce_exceeds_pos\<rparr>]"

definition default_checks :: "risk_check list" where
  "default_checks = system_checks @ strategy_checks @ portfolio_checks @ event_checks @ order_checks"

end
