(* ===== verification/Risk_Engine.thy ===== *)
theory Risk_Engine
  imports Risk_Checks
begin

section \<open>The risk engine\<close>

text \<open>
  \<^verbatim>\<open>src/risk/engine.py\<close>: the decision over a list of checks. The client order id is computed by
  a parameter, the hash of the limits, the engine version and the displayed percentage of equity
  are left out of the record.
\<close>

record evaluation =
  ev_decision :: risk_decision
  ev_context :: risk_context

definition check_error :: "risk_context \<Rightarrow> risk_check_result" where
  "check_error c =
     \<lparr>rr_code = Sys SYS_CHECK_ERROR, rr_outcome = (if is_opening c then BLOCK else ALLOW), rr_max_qty = None\<rparr>"

definition run_check :: "risk_context \<Rightarrow> risk_check \<Rightarrow> risk_check_result option" where
  "run_check c ck = (case rk_fn ck c of Inl e \<Rightarrow> Some (check_error c) | Inr r \<Rightarrow> r)"

definition applicable :: "intent_kind \<Rightarrow> risk_check list \<Rightarrow> risk_check list" where
  "applicable k cks = filter (\<lambda>ck. k \<in> set (rk_applies_to ck)) cks"

definition results_of :: "risk_context \<Rightarrow> risk_check list \<Rightarrow> risk_check_result list" where
  "results_of c cks =
     concat (map (\<lambda>ck. case run_check c ck of None \<Rightarrow> [] | Some r \<Rightarrow> [r]) (applicable (i_kind (cx_intent c)) cks))"

definition blocks_of :: "risk_check_result list \<Rightarrow> risk_check_result list" where
  "blocks_of rs = filter (\<lambda>r. rr_outcome r = BLOCK) rs"

definition caps_of :: "risk_check_result list \<Rightarrow> risk_check_result list" where
  "caps_of rs = filter (\<lambda>r. rr_outcome r = RESIZE) rs"

fun list_min :: "int list \<Rightarrow> int option" where
  "list_min [] = None"
| "list_min (x # xs) = (case list_min xs of None \<Rightarrow> Some x | Some m \<Rightarrow> Some (min x m))"

definition cap_values :: "risk_check_result list \<Rightarrow> int list" where
  "cap_values rs = concat (map (\<lambda>r. case rr_max_qty r of None \<Rightarrow> [] | Some q \<Rightarrow> [q]) (caps_of rs))"

definition is_capped :: "risk_context \<Rightarrow> risk_check_result list \<Rightarrow> bool" where
  "is_capped c rs =
     (case list_min (cap_values rs) of
        None \<Rightarrow> False
      | Some m \<Rightarrow> (case cx_requested c of None \<Rightarrow> True | Some q \<Rightarrow> m < q))"

definition sized_qty :: "risk_context \<Rightarrow> risk_check_result list \<Rightarrow> int option" where
  "sized_qty c rs =
     (let qty = (if is_capped c rs then list_min (cap_values rs) else cx_requested c);
          lot = ins_lot_size (i_instrument (cx_intent c))
      in map_option (\<lambda>q. q - q mod lot) qty)"

definition halt_codes :: "reason_code list" where
  "halt_codes = [Sys SYS_KILL_GLOBAL, Sys SYS_KILL_BROKER, Str STR_HALTED]"

definition unsized :: risk_check_result where
  "unsized = \<lparr>rr_code = Ord ORD_QTY_NONPOS, rr_outcome = BLOCK, rr_max_qty = None\<rparr>"

text \<open>The outcome, the approved quantity and the reasons.\<close>

definition verdict_of :: "risk_context \<Rightarrow> risk_check_result list \<Rightarrow> risk_outcome \<times> int \<times> risk_check_result list" where
  "verdict_of c rs =
     (if blocks_of rs \<noteq> [] then
        (if list_ex (\<lambda>b. rr_code b \<in> set halt_codes) (blocks_of rs) then RoHalted else RoRejected, 0, blocks_of rs)
      else case sized_qty c rs of
        None \<Rightarrow> (RoRejected, 0, if caps_of rs \<noteq> [] then caps_of rs else [unsized])
      | Some qty \<Rightarrow>
          if qty \<le> 0 then (RoRejected, 0, if caps_of rs \<noteq> [] then caps_of rs else [unsized])
          else (case cx_requested c of
                  None \<Rightarrow> RoApproved
                | Some requested \<Rightarrow> if qty < requested then RoResized else RoApproved,
                qty,
                if is_capped c rs then filter (\<lambda>r. rr_max_qty r = list_min (cap_values rs)) (caps_of rs) else []))"

definition decide :: "(string \<Rightarrow> string) \<Rightarrow> risk_context \<Rightarrow> risk_check_result list \<Rightarrow> reason_code list \<Rightarrow> risk_decision" where
  "decide coid c rs codes =
     (let i = cx_intent c;
          (outcome, approved, reasons) = verdict_of c rs;
          price = (case cx_price c of None \<Rightarrow> i_decision_price i | Some p \<Rightarrow> if p = 0 then i_decision_price i else p);
          risk = (case stop_distance c of
                    None \<Rightarrow> 0
                  | Some d \<Rightarrow> if 0 < d then dmul d (of_int approved) else 0)
      in \<lparr>rd_decision_id = i_decision_id i, rd_intent_id = i_intent_id i, rd_client_order_id = coid (i_intent_id i),
          rd_book_id = i_book_id i, rd_strategy = i_strategy i, rd_signal_id = i_signal_id i,
          rd_instrument_key = i_key i, rd_side = i_side i, rd_product = i_product i, rd_kind = i_kind i,
          rd_source = i_source i,
          rd_qty_requested = (case cx_requested c of None \<Rightarrow> None | Some q \<Rightarrow> if 0 < q then Some q else None),
          rd_qty_approved = approved, rd_ref_price = cx_price c, rd_stop_price = i_stop_price i,
          rd_target_price = i_target_price i, rd_outcome = outcome, rd_notional = dmul price (of_int approved),
          rd_risk_amount = risk, rd_reasons = reasons @ filter (\<lambda>r. rr_outcome r = ALLOW) rs, rd_checks_run = codes,
          rd_snapshot = summary (cx_snapshot c)
            (map_option (\<lambda>q. age_seconds q (sn_now (cx_snapshot c))) (mf_quote (facts c))) (mf_data_source (facts c)),
          rd_kill_state = sn_kill (cx_snapshot c), rd_evaluated_at = sn_now (cx_snapshot c)\<rparr>)"

definition context_of ::
  "risk_limits \<Rightarrow> order_intent \<Rightarrow> risk_snapshot \<Rightarrow> int option \<Rightarrow> reservations \<Rightarrow> risk_context" where
  "context_of l i s quantity reserved =
     \<lparr>cx_intent = i, cx_snapshot = s, cx_limits = l, cx_reserved = reserved,
      cx_requested = (case quantity of None \<Rightarrow> i_quantity i | Some q \<Rightarrow> Some q)\<rparr>"

definition evaluate ::
  "(string \<Rightarrow> string) \<Rightarrow> risk_limits \<Rightarrow> risk_check list \<Rightarrow> order_intent \<Rightarrow> risk_snapshot \<Rightarrow> int option
    \<Rightarrow> reservations \<Rightarrow> evaluation" where
  "evaluate coid l cks i s quantity reserved =
     (let c = context_of l i s quantity reserved
      in \<lparr>ev_decision = decide coid c (results_of c cks) (map rk_code (applicable (i_kind i) cks)), ev_context = c\<rparr>)"

abbreviation approved_qty :: "evaluation \<Rightarrow> int" where
  "approved_qty e \<equiv> rd_qty_approved (ev_decision e)"

fun evaluate_from ::
  "(string \<Rightarrow> string) \<Rightarrow> risk_limits \<Rightarrow> risk_check list \<Rightarrow> risk_snapshot \<Rightarrow> order_intent list \<Rightarrow> reservations
    \<Rightarrow> evaluation list" where
  "evaluate_from coid l cks s [] r = []"
| "evaluate_from coid l cks s (i # is) r =
     (let e = evaluate coid l cks i s None r;
          r' = (if 0 < approved_qty e then reserve (ev_context e) (approved_qty e) True r else r)
      in e # evaluate_from coid l cks s is r')"

definition evaluate_batch ::
  "(string \<Rightarrow> string) \<Rightarrow> risk_limits \<Rightarrow> risk_check list \<Rightarrow> order_intent list \<Rightarrow> risk_snapshot \<Rightarrow> evaluation list" where
  "evaluate_batch coid l cks is s = evaluate_from coid l cks s is no_reservations"

definition preview ::
  "(string \<Rightarrow> string) \<Rightarrow> risk_limits \<Rightarrow> risk_check list \<Rightarrow> order_intent \<Rightarrow> risk_snapshot \<Rightarrow> risk_decision" where
  "preview coid l cks i s = ev_decision (evaluate coid l cks i s None no_reservations)"

subsection \<open>What a check lets through\<close>

definition allows :: "risk_check \<Rightarrow> risk_context \<Rightarrow> int \<Rightarrow> bool" where
  "allows ck c n =
     (case run_check c ck of
        None \<Rightarrow> True
      | Some r \<Rightarrow> rr_outcome r \<noteq> BLOCK \<and> (rr_outcome r = RESIZE \<longrightarrow> (case rr_max_qty r of None \<Rightarrow> True | Some m \<Rightarrow> n \<le> m)))"

definition all_allow :: "risk_check list \<Rightarrow> risk_context \<Rightarrow> int \<Rightarrow> bool" where
  "all_allow cks c n = list_all (\<lambda>ck. allows ck c n) (applicable (i_kind (cx_intent c)) cks)"

lemma list_min_None: "list_min xs = None \<longleftrightarrow> xs = []"
  by (cases xs) (auto split: option.splits)

lemma list_min_le: "list_min xs = Some m \<Longrightarrow> n \<le> m \<longleftrightarrow> (\<forall>x \<in> set xs. n \<le> x)"
proof (induction xs arbitrary: m)
  case (Cons x xs)
  then show ?case by (cases "list_min xs") (auto simp: list_min_None)
qed simp

lemma all_allow_results:
  "all_allow cks c n \<longleftrightarrow> blocks_of (results_of c cks) = [] \<and> (\<forall>m \<in> set (cap_values (results_of c cks)). n \<le> m)"
proof -
  let ?cks = "applicable (i_kind (cx_intent c)) cks"
  have "set (results_of c cks) = {r. \<exists>ck \<in> set ?cks. run_check c ck = Some r}"
    by (auto simp: results_of_def split: option.splits)
  moreover have "set (cap_values rs) = {m. \<exists>r \<in> set rs. rr_outcome r = RESIZE \<and> rr_max_qty r = Some m}" for rs
    by (auto simp: cap_values_def caps_of_def split: option.splits)
  ultimately show ?thesis
    by (fastforce simp: all_allow_def list_all_iff allows_def blocks_of_def filter_empty_conv split: option.splits)
qed

lemma decide_simps [simp]:
  "rd_qty_approved (decide coid c rs codes) = fst (snd (verdict_of c rs))"
  "rd_outcome (decide coid c rs codes) = fst (verdict_of c rs)"
  "rd_kind (decide coid c rs codes) = i_kind (cx_intent c)"
  by (simp_all add: decide_def Let_def split: prod.splits)

lemma evaluate_simps [simp]:
  "approved_qty (evaluate coid l cks i s q r) = fst (snd (verdict_of (context_of l i s q r) (results_of (context_of l i s q r) cks)))"
  "ev_context (evaluate coid l cks i s q r) = context_of l i s q r"
  by (simp_all add: evaluate_def Let_def)

lemma context_of_simps [simp]:
  "cx_intent (context_of l i s q r) = i" "cx_snapshot (context_of l i s q r) = s" "cx_limits (context_of l i s q r) = l"
  "cx_reserved (context_of l i s q r) = r"
  "cx_requested (context_of l i s q r) = (case q of None \<Rightarrow> i_quantity i | Some n \<Rightarrow> Some n)"
  by (simp_all add: context_of_def)

text \<open>The decision as the engine's documentation states it: the largest whole number of lots
  that the request and every check allow.\<close>

lemma lot_floor: "0 < lot \<Longrightarrow> m \<le> q \<Longrightarrow> lot dvd m \<Longrightarrow> m \<le> q - q mod (lot::int)"
proof -
  assume l: "0 < lot" and m: "m \<le> q" "lot dvd m"
  then obtain k where k: "m = lot * k" by blast
  have "k \<le> q div lot" using zdiv_mono1 [OF m(1) l] k l by simp
  then have "lot * k \<le> lot * (q div lot)" using l by simp
  also have "\<dots> = q - q mod lot" by (simp add: minus_mod_eq_mult_div)
  finally show ?thesis using k by simp
qed

lemma verdict_approved:
  assumes "0 < fst (snd (verdict_of c rs))" "0 < ins_lot_size (i_instrument (cx_intent c))"
  defines "n \<equiv> fst (snd (verdict_of c rs))"
  shows "blocks_of rs = []" "\<forall>m \<in> set (cap_values rs). n \<le> m" "case cx_requested c of None \<Rightarrow> True | Some q \<Rightarrow> n \<le> q"
    "ins_lot_size (i_instrument (cx_intent c)) dvd n" "sized_qty c rs = Some n"
proof -
  let ?lot = "ins_lot_size (i_instrument (cx_intent c))"
  show b: "blocks_of rs = []" using assms(1) by (auto simp: verdict_of_def split: if_splits)
  show sz: "sized_qty c rs = Some n"
    using assms(1) b unfolding n_def by (auto simp: verdict_of_def split: option.splits if_splits)
  define qty where "qty = (if is_capped c rs then list_min (cap_values rs) else cx_requested c)"
  obtain q where q: "qty = Some q" "n = q - q mod ?lot"
    using sz unfolding sized_qty_def Let_def qty_def [symmetric] by auto
  have nq: "n \<le> q" using q(2) assms(2) by simp
  show "?lot dvd n" using q(2) by (simp add: minus_mod_eq_mult_div)
  show "\<forall>m \<in> set (cap_values rs). n \<le> m"
  proof (cases "list_min (cap_values rs)")
    case None
    then show ?thesis by (simp add: list_min_None)
  next
    case (Some m)
    have "q \<le> m" using q(1) Some by (auto simp: qty_def is_capped_def split: if_splits option.splits)
    with nq list_min_le [OF Some, of n] show ?thesis by simp
  qed
  show "case cx_requested c of None \<Rightarrow> True | Some q \<Rightarrow> n \<le> q"
    using q(1) nq by (auto simp: qty_def is_capped_def split: if_splits option.splits)
qed

lemma verdict_largest:
  assumes "0 < ins_lot_size (i_instrument (cx_intent c))" "blocks_of rs = []" "\<forall>x \<in> set (cap_values rs). m \<le> x"
    and "case cx_requested c of None \<Rightarrow> cap_values rs \<noteq> [] | Some q \<Rightarrow> m \<le> q"
    and "0 < m" "ins_lot_size (i_instrument (cx_intent c)) dvd m"
  shows "m \<le> fst (snd (verdict_of c rs))"
proof -
  let ?lot = "ins_lot_size (i_instrument (cx_intent c))"
  define qty where "qty = (if is_capped c rs then list_min (cap_values rs) else cx_requested c)"
  obtain q where q: "qty = Some q" "m \<le> q"
  proof (cases "list_min (cap_values rs)")
    case None
    then have "cap_values rs = []" by (simp add: list_min_None)
    with None assms(4) that show ?thesis by (auto simp: qty_def is_capped_def split: option.splits)
  next
    case (Some x)
    have "m \<le> x" using list_min_le [OF Some, of m] assms(3) by simp
    with Some assms(4) show ?thesis
      by (cases "cx_requested c"; cases "x < the (cx_requested c)") (auto simp: qty_def is_capped_def intro: that)
  qed
  have le: "m \<le> q - q mod ?lot" by (rule lot_floor [OF assms(1) q(2) assms(6)])
  have "sized_qty c rs = Some (q - q mod ?lot)" unfolding sized_qty_def Let_def qty_def [symmetric] q(1) by simp
  with assms(2,5) le show ?thesis by (auto simp: verdict_of_def)
qed


subsection \<open>Interface between the checks and the engine\<close>

text \<open>A check has a contract: whatever number of shares it lets an opening order take satisfies a
  guarantee. The engine then promises the guarantee of every check in its table.\<close>

locale sound_check =
  fixes ck :: risk_check and guarantee :: "risk_context \<Rightarrow> int \<Rightarrow> bool"
  assumes sound: "\<And>c n. is_opening c \<Longrightarrow> allows ck c n \<Longrightarrow> 0 < n \<Longrightarrow> guarantee c n"
    and for_opens: "set opens_kinds \<subseteq> set (rk_applies_to ck)"
begin

lemma allowed_guarantee:
  assumes "is_opening c" "all_allow cks c n" "0 < n" "ck \<in> set cks"
  shows "guarantee c n"
proof -
  have "i_kind (cx_intent c) \<in> set opens_kinds"
    using assms(1) by (cases "i_kind (cx_intent c)") (simp_all add: is_opening_def reduces_risk_def opens_kinds_def)
  then have "ck \<in> set (applicable (i_kind (cx_intent c)) cks)"
    using assms(4) for_opens by (auto simp: applicable_def)
  with assms(2) have "allows ck c n" by (simp add: all_allow_def list_all_iff)
  with sound assms(1,3) show ?thesis by blast
qed

end

lemma evaluate_allows:
  assumes "0 < approved_qty (evaluate coid l cks i s q r)" "0 < ins_lot_size (i_instrument i)"
  shows "all_allow cks (context_of l i s q r) (approved_qty (evaluate coid l cks i s q r))"
  using verdict_approved [of "context_of l i s q r" "results_of (context_of l i s q r) cks"] assms
  by (simp add: all_allow_results)

lemmas check_simps = allows_def run_check_def check_error_def block_def resize_def info_def

end
