(* ===== verification/Risk_Props.thy ===== *)
theory Risk_Props
  imports Risk_Engine
begin

section \<open>Properties of the risk engine\<close>

text \<open>
  The engine meets its specification for any table of checks; each default check meets its
  contract (\<open>sound_check\<close>); together they bound every approved entry. Orders that reduce risk
  pass whatever the limits and the kill switches say.
\<close>

subsection \<open>The contracts of the default checks\<close>

abbreviation entry_check :: "reason_code \<Rightarrow> check_fn \<Rightarrow> risk_check" where
  "entry_check code fn \<equiv> \<lparr>rk_code = code, rk_applies_to = opens_kinds, rk_fn = fn\<rparr>"

abbreviation any_check :: "reason_code \<Rightarrow> check_fn \<Rightarrow> risk_check" where
  "any_check code fn \<equiv> \<lparr>rk_code = code, rk_applies_to = all_kinds, rk_fn = fn\<rparr>"

text \<open>What an amount buys, up to the rounding of the division that computes it.\<close>

definition fits :: "int \<Rightarrow> rat \<Rightarrow> rat \<Rightarrow> bool" where
  "fits n per_share amount = (of_int n * per_share \<le> amount * (1 + 1 / 10 ^ 27))"

lemma fits_shares: "0 < p \<Longrightarrow> 0 < n \<Longrightarrow> n \<le> shares a p \<Longrightarrow> fits n p a"
proof -
  assume p: "0 < p" and n: "0 < n" "n \<le> shares a p"
  have "0 < a" using n p by (auto simp: shares_def split: if_splits)
  with shares_le [OF p n(2)] n(1) show ?thesis by (simp add: fits_def)
qed

definition priced :: "risk_context \<Rightarrow> bool" where
  "priced c = (case cx_price c of None \<Rightarrow> True | Some p \<Rightarrow> 0 < p)"

interpretation kill_global_ck: sound_check "entry_check (Sys SYS_KILL_GLOBAL) kill_global"
  "\<lambda>c n. ks_global (sn_kill (cx_snapshot c)) = ARMED"
  by unfold_locales (auto simp: check_simps kill_global_def split: if_splits)

interpretation kill_broker_ck: sound_check "entry_check (Sys SYS_KILL_BROKER) kill_broker"
  "\<lambda>c n. ks_broker (sn_kill (cx_snapshot c)) = ARMED"
  by unfold_locales (auto simp: check_simps kill_broker_def split: if_splits)

interpretation halted_ck: sound_check "entry_check (Str STR_HALTED) halted"
  "\<lambda>c n. dget_or ARMED (ks_strategies (sn_kill (cx_snapshot c))) (i_strategy (cx_intent c)) = ARMED"
  by unfold_locales (auto simp: check_simps halted_def split: if_splits)

interpretation session_ck: sound_check "any_check (Sys SYS_SESSION_CLOSED) session_closed"
  "\<lambda>c n. \<not> sn_is_weekend (cx_snapshot c) \<and> (sn_is_trading_day (cx_snapshot c) \<longrightarrow> sn_session_open (cx_snapshot c))"
  by unfold_locales (auto simp: check_simps session_closed_def Let_def all_kinds_def split: if_splits)

interpretation holiday_ck: sound_check "any_check (Sys SYS_HOLIDAY) holiday"
  "\<lambda>c n. sn_is_trading_day (cx_snapshot c) \<or> sn_is_weekend (cx_snapshot c)"
  by unfold_locales (auto simp: check_simps holiday_def Let_def all_kinds_def split: if_splits)

interpretation cutoff_ck: sound_check "entry_check (Sys SYS_ENTRY_CUTOFF) entry_cutoff"
  "\<lambda>c n. sn_entry_window (cx_snapshot c)"
  by unfold_locales (auto simp: check_simps entry_cutoff_def split: if_splits)

interpretation stale_ck: sound_check "entry_check (Sys SYS_DATA_STALE) data_stale"
  "\<lambda>c n. \<exists>q. mf_quote (facts c) = Some q \<and> age_seconds q (sn_now (cx_snapshot c)) \<le> rl_max_quote_age_s (cx_limits c)"
  by unfold_locales (auto simp: check_simps data_stale_def split: if_splits option.splits)

interpretation simulated_ck: sound_check "any_check (Sys SYS_DATA_SIMULATED) data_simulated"
  "\<lambda>c n. \<exists>src. mf_data_source (facts c) = Some src \<and> (is_fabricated src \<longrightarrow> sn_environment (cx_snapshot c) = ''demo'')"
  by unfold_locales
     (auto simp: check_simps data_simulated_def check_data_source_def Let_def all_kinds_def split: if_splits option.splits)

interpretation unknown_ck: sound_check "entry_check (Sys SYS_UNKNOWN_ORDER) unknown_order"
  "\<lambda>c n. cx_key c \<notin> set (sn_unknown_order_keys (cx_snapshot c))"
  by unfold_locales (auto simp: check_simps unknown_order_def split: if_splits)

interpretation journal_ck: sound_check "entry_check (Sys SYS_JOURNAL_NOT_DURABLE) journal_not_durable"
  "\<lambda>c n. sn_journal_durable (cx_snapshot c)"
  by unfold_locales (auto simp: check_simps journal_not_durable_def split: if_splits)

interpretation drift_ck: sound_check "entry_check (Sys SYS_RECON_DRIFT) recon_drift"
  "\<lambda>c n. \<not> sn_recon_drift (cx_snapshot c)"
  by unfold_locales (auto simp: check_simps recon_drift_def split: if_splits)

interpretation enabled_ck: sound_check "entry_check (Str STR_NOT_VALIDATED) not_validated"
  "\<lambda>c n. i_strategy (cx_intent c) \<in> set (rl_enabled_strategies (cx_limits c))"
  by unfold_locales (auto simp: check_simps not_validated_def split: if_splits)

interpretation short_ck: sound_check "entry_check (Ord ORD_SHORT_NOT_ALLOWED) short_not_allowed"
  "\<lambda>c n. i_side (cx_intent c) = BUY \<or> rl_allow_short (cx_limits c)"
  by unfold_locales (auto simp: check_simps short_not_allowed_def intro: side.exhaust split: if_splits)

interpretation day_loss_ck: sound_check "entry_check (Pf PF_DAILY_LOSS_MTM) daily_loss_mtm"
  "\<lambda>c n. - dmul (sn_sod_equity (cx_snapshot c)) (dec_of_float (rl_daily_loss_limit_pct (cx_limits c)))
     < day_pnl_mtm (cx_snapshot c)"
  by unfold_locales (auto simp: check_simps daily_loss_mtm_def Let_def split: if_splits)

interpretation events_ck: sound_check "entry_check (Evt EVT_RESULTS_WINDOW) (in_window EVT_RESULTS_WINDOW)"
  "\<lambda>c n. list_all (\<lambda>b. eb_code b = EVT_RESULTS_WINDOW \<longrightarrow> \<not> eb_covers b (ist_date (sn_now (cx_snapshot c))))
     (dget_or [] (sn_event_blocks (cx_snapshot c)) (cx_key c))"
  by unfold_locales (auto simp: check_simps in_window_def Let_def list_ex_iff list_all_iff split: if_splits)

interpretation notional_ck: sound_check "entry_check (Ord ORD_NOTIONAL_MAX) notional_max"
  "\<lambda>c n. \<forall>p. cx_price c = Some p \<and> 0 < p \<longrightarrow> fits n p (notional_cap c)"
  by unfold_locales (auto simp: check_simps notional_max_def intro!: fits_shares split: if_splits option.splits)

interpretation capital_ck: sound_check "entry_check (Str STR_CAPITAL_ALLOC) capital_alloc"
  "\<lambda>c n. \<forall>p. cx_price c = Some p \<and> 0 < p \<longrightarrow>
     fits n p (dsub (pct c (rl_strategy_capital_pct (cx_limits c))) (capital_used c))"
  by unfold_locales (auto simp: check_simps capital_alloc_def Let_def intro!: fits_shares split: if_splits option.splits)

interpretation gross_ck: sound_check "entry_check (Pf PF_GROSS) gross"
  "\<lambda>c n. \<forall>p. cx_price c = Some p \<and> 0 < p \<longrightarrow>
     gross_used c < pct c (rl_max_gross_exposure_pct (cx_limits c))
     \<and> n \<le> shares (dsub (pct c (rl_max_gross_exposure_pct (cx_limits c))) (gross_used c)) p"
  by unfold_locales (auto simp: check_simps gross_def room_check_def split: if_splits option.splits)

interpretation sector_ck: sound_check "entry_check (Pf PF_SECTOR) sector"
  "\<lambda>c n. \<forall>p. cx_price c = Some p \<and> 0 < p \<longrightarrow>
     fits n p (dsub (pct c (rl_max_sector_pct (cx_limits c))) (sector_used c))"
  by unfold_locales (auto simp: check_simps sector_def room_check_def intro!: fits_shares split: if_splits option.splits)

interpretation cash_ck: sound_check "entry_check (Pf PF_CASH) cash"
  "\<lambda>c n. \<forall>p. cx_price c = Some p \<and> 0 < p \<and> i_side (cx_intent c) = BUY \<longrightarrow> fits n (dmul p buy_cost_buffer) (cash_free c)"
  by unfold_locales
     (auto simp: check_simps cash_def dmul_def buy_cost_buffer_def intro!: fits_shares dec28_pos split: if_splits option.splits)

interpretation stop_side_ck: sound_check "entry_check (Ord ORD_STOP_WRONG_SIDE) stop_wrong_side"
  "\<lambda>c n. \<forall>d. stop_distance c = Some d \<longrightarrow> 0 < d"
  by unfold_locales (auto simp: check_simps stop_wrong_side_def split: if_splits option.splits)

interpretation risk_ck: sound_check "entry_check (Ord ORD_RISK_PER_TRADE) risk_per_trade"
  "\<lambda>c n. \<exists>d. stop_distance c = Some d \<and> (0 < d \<longrightarrow> fits n d (pct c (risk_fraction c)))"
  by unfold_locales (auto simp: check_simps risk_per_trade_def intro!: fits_shares split: if_splits option.splits)

interpretation heat_ck: sound_check "entry_check (Pf PF_HEAT) heat"
  "\<lambda>c n. \<forall>d. stop_distance c = Some d \<and> 0 < d \<longrightarrow>
     fits n d (dsub (pct c (rl_max_heat_pct (cx_limits c))) (heat_used c))"
  by unfold_locales (auto simp: check_simps heat_def room_check_def intro!: fits_shares split: if_splits option.splits)

interpretation positions_ck: sound_check "entry_check (Pf PF_MAX_POSITIONS) max_positions"
  "\<lambda>c n. new_symbol c \<longrightarrow> positions_count c < rl_max_positions (cx_limits c)"
  by unfold_locales (auto simp: check_simps max_positions_def split: if_splits)

interpretation entries_ck: sound_check "entry_check (Pf PF_ENTRIES_PER_DAY) entries_per_day"
  "\<lambda>c n. sn_entries_today (cx_snapshot c) + rv_entries (cx_reserved c) < rl_max_entries_per_day (cx_limits c)"
  by unfold_locales (auto simp: check_simps entries_per_day_def split: if_splits)

subsection \<open>The specification of the engine\<close>

definition allowed_size :: "risk_check list \<Rightarrow> risk_context \<Rightarrow> int \<Rightarrow> bool" where
  "allowed_size cks c n =
     (0 < n \<and> (case cx_requested c of None \<Rightarrow> True | Some q \<Rightarrow> n \<le> q)
      \<and> ins_lot_size (i_instrument (cx_intent c)) dvd n \<and> all_allow cks c n)"

text \<open>C8: The engine approves the largest quantity that everything allows. For any table of checks,
  an opening intent with a requested quantity, the approved
  quantity is zero exactly when no positive whole number of lots within the request is let through
  by every check that applies; otherwise it is the largest such number. A check that raises lets
  nothing through: the engine fails closed.\<close>

theorem evaluate_largest_allowed:
  assumes "0 < ins_lot_size (i_instrument i)" "\<not> reduces_risk (i_kind i)"
    and "(case q of None \<Rightarrow> i_quantity i | Some n \<Rightarrow> Some n) = Some requested"
  shows "(if 0 < approved_qty (evaluate coid l cks i s q r)
      then allowed_size cks (context_of l i s q r) (approved_qty (evaluate coid l cks i s q r))
        \<and> (\<forall>m. allowed_size cks (context_of l i s q r) m \<longrightarrow> m \<le> approved_qty (evaluate coid l cks i s q r))
      else approved_qty (evaluate coid l cks i s q r) = 0 \<and> (\<forall>m. \<not> allowed_size cks (context_of l i s q r) m))
    \<and> (list_ex (\<lambda>ck. \<exists>e. rk_fn ck (context_of l i s q r) = Inl e) (applicable (i_kind i) cks)
        \<longrightarrow> approved_qty (evaluate coid l cks i s q r) = 0)"
proof -
  let ?c = "context_of l i s q r"
  let ?n = "approved_qty (evaluate coid l cks i s q r)"
  have n: "?n = fst (snd (verdict_of ?c (results_of ?c cks)))" by simp
  have req: "cx_requested ?c = Some requested" using assms(3) by simp
  have nn: "0 \<le> ?n" unfolding n by (auto simp: verdict_of_def split: option.splits)
  have sound: "allowed_size cks ?c ?n" if "0 < ?n"
    using verdict_approved [of ?c "results_of ?c cks"] that assms(1) req n
    by (simp add: allowed_size_def all_allow_results)
  have largest: "m \<le> ?n" if "allowed_size cks ?c m" for m
    using verdict_largest [of ?c "results_of ?c cks" m] that assms(1) req n
    by (simp add: allowed_size_def all_allow_results)
  have "?n = 0" if "ck \<in> set (applicable (i_kind i) cks)" "rk_fn ck ?c = Inl e" for ck e
  proof -
    have "\<not> allows ck ?c m" for m
      using that(2) assms(2) by (simp add: allows_def run_check_def check_error_def is_opening_def)
    with that(1) have "\<not> all_allow cks ?c m" for m by (auto simp: all_allow_def list_all_iff)
    then have "\<not> allowed_size cks ?c m" for m by (simp add: allowed_size_def)
    with sound nn show ?thesis by fastforce
  qed
  moreover have "\<not> allowed_size cks ?c m" if "\<not> 0 < ?n" for m using largest [of m] that by (auto simp: allowed_size_def)
  ultimately show ?thesis using sound largest nn by (auto simp: list_ex_iff)
qed

definition calm_snapshot :: risk_snapshot where
  "calm_snapshot =
     \<lparr>sn_now = combine_ist 20476 (hm 9 30), sn_environment = ''paper'', sn_equity = 100000, sn_cash = 100000,
      sn_sod_equity = 100000, sn_peak_equity = 100000, sn_positions = [],
      sn_market = [(''NSE:EQ:INFY'', \<lparr>mf_quote = Some \<lparr>q_instrument_key = ''NSE:EQ:INFY'', q_ltp = 100, q_bid = None,
         q_ask = None, q_prev_close = Some 99, q_volume_cum = 1000, q_exchange_ts = combine_ist 20476 (hm 9 30),
         q_receipt_ts = combine_ist 20476 (hm 9 30), q_source = YFINANCE, q_is_delayed = False\<rparr>,
         mf_atr = Some 2, mf_adv_shares = None, mf_data_source = Some YFINANCE\<rparr>)],
      sn_strategies = [], sn_kill = \<lparr>ks_global = ARMED, ks_broker = ARMED, ks_strategies = []\<rparr>,
      sn_open_orders = 0, sn_orders_last_min = 0, sn_rejects_in_window = 0, sn_entries_today = 0,
      sn_symbols_entered_today = [], sn_symbols_exited_today = [], sn_unknown_order_keys = [],
      sn_is_trading_day = True, sn_is_weekend = False, sn_session_open = True, sn_entry_window = True,
      sn_llm_degraded = False, sn_journal_durable = True, sn_recon_drift = False, sn_event_blocks = []\<rparr>"

definition sample_open :: order_intent where
  "sample_open =
     \<lparr>i_intent_id = ''i1'', i_decision_id = ''d1'', i_parent_decision_id = None, i_book_id = ''main'',
      i_strategy = ''momentum'', i_signal_id = None, i_instrument = nse_equity ''INFY'', i_side = BUY,
      i_kind = KOpen, i_quantity = Some 500, i_order_type = MARKET, i_product = CNC, i_validity = DAY,
      i_limit_price = None, i_trigger_price = None, i_stop_price = Some 97, i_target_price = Some 106,
      i_reduce_only = False, i_decision_price = 100, i_decision_ts = 0, i_reason = RsEntry,
      i_source = SignalEngine\<rparr>"

definition sample_limits :: risk_limits where
  "sample_limits =
     \<lparr>rl_risk_per_trade = 1 / 32, rl_max_position_pct = 1 / 8, rl_max_position_inr = 10000,
      rl_adv_pct = 1 / 16, rl_kelly_enabled = False, rl_kelly_min_trades = 30, rl_kelly_scale = 1 / 4,
      rl_min_rr = 3 / 2, rl_stop_atr_min = 1 / 2, rl_stop_atr_max = 3,
      rl_max_stop_pct = 1 / 16, rl_price_collar_pct = 1 / 16, rl_allow_short = False,
      rl_max_positions = 5, rl_max_gross_exposure_pct = 1 / 2, rl_max_sector_pct = 1 / 4,
      rl_max_heat_pct = 1 / 16, rl_daily_loss_limit_pct = 1 / 16, rl_max_drawdown_pct = 1 / 8,
      rl_max_entries_per_day = 10, rl_enabled_strategies = [''momentum''],
      rl_strategy_capital_pct = 1 / 2, rl_strategy_daily_loss_pct = 1 / 16,
      rl_strategy_max_consec_losses = 4, rl_strategy_orders_per_min = 5, rl_max_quote_age_s = 1200,
      rl_max_open_orders = 20, rl_orders_per_min = 10, rl_reject_storm_count = 5, rl_reject_storm_window_s = 600,
      rl_daily_loss_action = ActFlatten, rl_drawdown_action = ActFlatten, rl_rearm_on_new_day = False,
      rl_flatten_escalate_after = 3\<rparr>"

abbreviation sample_context :: risk_context where
  "sample_context \<equiv> context_of sample_limits sample_open calm_snapshot None no_reservations"

definition sample_eval :: evaluation where
  "sample_eval = evaluate id sample_limits default_checks sample_open calm_snapshot None no_reservations"

abbreviation cap :: "reason_code \<Rightarrow> int \<Rightarrow> risk_check_result" where
  "cap code n \<equiv> \<lparr>rr_code = code, rr_outcome = RESIZE, rr_max_qty = Some n\<rparr>"

lemma results_append: "results_of c (xs @ ys) = results_of c xs @ results_of c ys"
  by (simp add: results_of_def applicable_def)

lemma sample_system: "results_of sample_context system_checks = []"
  by code_simp

lemma sample_strategy: "results_of sample_context strategy_checks = [cap (Str STR_CAPITAL_ALLOC) 500]"
  by code_simp

lemma sample_portfolio:
  "results_of sample_context portfolio_checks
   = [cap (Pf PF_GROSS) 500, cap (Pf PF_SECTOR) 250, cap (Pf PF_HEAT) 2083, cap (Pf PF_CASH) 993]"
  by code_simp

lemma sample_events: "results_of sample_context event_checks = []"
  by code_simp

lemma sample_order: "results_of sample_context order_checks = [cap (Ord ORD_NOTIONAL_MAX) 100, cap (Ord ORD_RISK_PER_TRADE) 1041]"
  by code_simp

lemma sample_eval_run: "approved_qty sample_eval = 100"
proof -
  have "fst (snd (verdict_of sample_context (results_of sample_context default_checks))) = 100"
    unfolding default_checks_def results_append sample_system sample_strategy sample_portfolio sample_events sample_order
    by (simp add: verdict_of_def blocks_of_def sized_qty_def is_capped_def cap_values_def caps_of_def context_of_def
        sample_open_def nse_equity_def)
  then show ?thesis by (simp add: sample_eval_def)
qed

theorem evaluate_largest_allowed_witness:
  "approved_qty sample_eval = 100
   \<and> \<not> all_allow default_checks (context_of sample_limits sample_open calm_snapshot None no_reservations) 101"
proof -
  have s: "0 < ins_lot_size (i_instrument sample_open)" "\<not> reduces_risk (i_kind sample_open)"
    "(case None of None \<Rightarrow> i_quantity sample_open | Some n \<Rightarrow> Some n) = Some 500"
    "ins_lot_size (i_instrument sample_open) = 1"
    by (simp_all add: sample_open_def nse_equity_def reduces_risk_def)
  have "\<not> allowed_size default_checks (context_of sample_limits sample_open calm_snapshot None no_reservations) 101"
    using evaluate_largest_allowed [OF s(1-3), of id sample_limits default_checks calm_snapshot no_reservations]
      sample_eval_run unfolding sample_eval_def [symmetric] by fastforce
  with s sample_eval_run show ?thesis by (simp add: allowed_size_def)
qed

subsection \<open>Entries\<close>

lemma default_check_members:
  "ck \<in> set system_checks \<or> ck \<in> set strategy_checks \<or> ck \<in> set portfolio_checks \<or> ck \<in> set event_checks
    \<or> ck \<in> set order_checks \<Longrightarrow> ck \<in> set default_checks"
  by (auto simp: default_checks_def)

lemma entry_guarantee:
  assumes "\<not> reduces_risk (i_kind i)" "0 < ins_lot_size (i_instrument i)"
    and "0 < approved_qty (evaluate coid l default_checks i s q r)" "sound_check ck g"
    and "ck \<in> set system_checks \<or> ck \<in> set strategy_checks \<or> ck \<in> set portfolio_checks \<or> ck \<in> set event_checks
      \<or> ck \<in> set order_checks"
  shows "g (context_of l i s q r) (approved_qty (evaluate coid l default_checks i s q r))"
  by (rule sound_check.allowed_guarantee [OF assms(4) _ evaluate_allows [OF assms(3,2)] assms(3) default_check_members [OF assms(5)]])
     (simp add: is_opening_def assms(1))

lemma system_clear:
  assumes "\<not> reduces_risk (i_kind i)" "0 < ins_lot_size (i_instrument i)"
    and "0 < approved_qty (evaluate coid l default_checks i s q r)"
  shows "ks_global (sn_kill s) = ARMED \<and> ks_broker (sn_kill s) = ARMED
    \<and> dget_or ARMED (ks_strategies (sn_kill s)) (i_strategy i) = ARMED
    \<and> sn_is_trading_day s \<and> sn_session_open s \<and> \<not> sn_is_weekend s \<and> sn_entry_window s
    \<and> (\<exists>quote. mf_quote (facts (context_of l i s q r)) = Some quote \<and> age_seconds quote (sn_now s) \<le> rl_max_quote_age_s l)
    \<and> (\<exists>src. mf_data_source (facts (context_of l i s q r)) = Some src \<and> (is_fabricated src \<longrightarrow> sn_environment s = ''demo''))
    \<and> i_key i \<notin> set (sn_unknown_order_keys s) \<and> sn_journal_durable s \<and> \<not> sn_recon_drift s"
proof -
  note g = entry_guarantee [OF assms(1-3)]
  note sys = g [OF kill_global_ck.sound_check_axioms] g [OF kill_broker_ck.sound_check_axioms] g [OF session_ck.sound_check_axioms]
    g [OF holiday_ck.sound_check_axioms] g [OF cutoff_ck.sound_check_axioms] g [OF stale_ck.sound_check_axioms]
    g [OF simulated_ck.sound_check_axioms] g [OF unknown_ck.sound_check_axioms] g [OF journal_ck.sound_check_axioms]
    g [OF drift_ck.sound_check_axioms]
  show ?thesis
    using sys [unfolded context_of_simps, simplified system_checks_def list.set]
      g [OF halted_ck.sound_check_axioms, unfolded context_of_simps, simplified strategy_checks_def list.set]
    by auto
qed

lemma entry_allows:
  assumes "\<not> reduces_risk (i_kind i)" "0 < ins_lot_size (i_instrument i)"
    and "0 < approved_qty (evaluate coid l default_checks i s q r)"
    and "ck \<in> set system_checks \<or> ck \<in> set strategy_checks \<or> ck \<in> set portfolio_checks \<or> ck \<in> set event_checks
      \<or> ck \<in> set order_checks" "set opens_kinds \<subseteq> set (rk_applies_to ck)"
  shows "allows ck (context_of l i s q r) (approved_qty (evaluate coid l default_checks i s q r))"
proof -
  have "i_kind i \<in> set opens_kinds"
    using assms(1) by (cases "i_kind i") (auto simp: opens_kinds_def reduces_risk_def)
  then show ?thesis
    using evaluate_allows [OF assms(3,2)] default_check_members [OF assms(4)] assms(5)
    by (auto simp: all_allow_def applicable_def list_all_iff context_of_def)
qed

lemma rate_blocks_clear:
  assumes "\<not> reduces_risk (i_kind i)" "0 < ins_lot_size (i_instrument i)"
    and "0 < approved_qty (evaluate coid l default_checks i s q r)"
  shows "sn_open_orders s < rl_max_open_orders l \<and> sn_orders_last_min s + rv_orders r < rl_orders_per_min l
    \<and> sn_rejects_in_window s < rl_reject_storm_count l"
proof -
  note a = entry_allows [OF assms]
  show ?thesis
    using a [of "\<lparr>rk_code = Sys SYS_MAX_OPEN_ORDERS, rk_applies_to = opens_kinds, rk_fn = max_open_orders\<rparr>"]
      a [of "\<lparr>rk_code = Sys SYS_ORDER_RATE, rk_applies_to = opens_kinds, rk_fn = sys_order_rate\<rparr>"]
      a [of "\<lparr>rk_code = Sys SYS_REJECT_STORM, rk_applies_to = opens_kinds, rk_fn = reject_storm\<rparr>"]
    by (auto simp: system_checks_def check_simps max_open_orders_def sys_order_rate_def reject_storm_def context_of_def
        split: if_splits)
qed

lemma strategy_blocks_clear:
  assumes "\<not> reduces_risk (i_kind i)" "0 < ins_lot_size (i_instrument i)"
    and "0 < approved_qty (evaluate coid l default_checks i s q r)"
  defines "stats \<equiv> dget_or no_stats (sn_strategies s) (i_strategy i)"
  shows "- dmul (sn_sod_equity s) (dec_of_float (rl_strategy_daily_loss_pct l)) < st_day_pnl stats
    \<and> st_consecutive_losses stats < rl_strategy_max_consec_losses l \<and> st_orders_last_min stats < rl_strategy_orders_per_min l"
proof -
  note a = entry_allows [OF assms(1-3)]
  show ?thesis
    using a [of "\<lparr>rk_code = Str STR_DAILY_LOSS, rk_applies_to = opens_kinds, rk_fn = str_daily_loss\<rparr>"]
      a [of "\<lparr>rk_code = Str STR_CONSEC_LOSSES, rk_applies_to = opens_kinds, rk_fn = consec_losses\<rparr>"]
      a [of "\<lparr>rk_code = Str STR_ORDER_RATE, rk_applies_to = opens_kinds, rk_fn = str_order_rate\<rparr>"]
    by (auto simp: strategy_checks_def check_simps str_daily_loss_def consec_losses_def str_order_rate_def stats_of_def stats_def
        context_of_def Let_def split: if_splits)
qed

lemma portfolio_blocks_clear:
  assumes "\<not> reduces_risk (i_kind i)" "0 < ins_lot_size (i_instrument i)"
    and "0 < approved_qty (evaluate coid l default_checks i s q r)"
  shows "(i_kind i = KOpen \<longrightarrow> new_symbol (context_of l i s q r))
    \<and> i_key i \<notin> set (sn_symbols_exited_today s) \<and> i_key i \<notin> set (sn_symbols_entered_today s)
    \<and> (0 < sn_peak_equity s \<longrightarrow> ddiv (dsub (sn_peak_equity s) (sn_equity s)) (sn_peak_equity s) < dec_of_float (rl_max_drawdown_pct l))
    \<and> list_all (\<lambda>b. eb_code b = EVT_ADVERSE_MAJOR \<longrightarrow> \<not> eb_covers b (ist_date (sn_now s))) (dget_or [] (sn_event_blocks s) (i_key i))"
proof -
  note a = entry_allows [OF assms]
  show ?thesis
    using a [of "\<lparr>rk_code = Pf PF_DUPLICATE, rk_applies_to = opens_kinds, rk_fn = duplicate\<rparr>"]
      a [of "\<lparr>rk_code = Pf PF_REENTRY_SAME_DAY, rk_applies_to = opens_kinds, rk_fn = reentry_same_day\<rparr>"]
      a [of "\<lparr>rk_code = Pf PF_DRAWDOWN, rk_applies_to = opens_kinds, rk_fn = drawdown\<rparr>"]
      a [of "\<lparr>rk_code = Evt EVT_ADVERSE_MAJOR, rk_applies_to = opens_kinds, rk_fn = in_window EVT_ADVERSE_MAJOR\<rparr>"]
    by (auto simp: portfolio_checks_def event_checks_def check_simps duplicate_def reentry_same_day_def drawdown_def in_window_def
        context_of_def Let_def list_all_iff list_ex_iff split: if_splits)
qed

text \<open>C9: No entry while anything is wrong. An opening order gets a positive quantity only when every block that is not about the order
  itself is clear. System: the global and broker kill switches are armed; the exchange is open, it is a trading day and
  the entry window is on; the quote exists and is fresh, and fabricated prices trade in the demo environment only; open
  orders, the order rate and the rejects are below their limits; no order in the instrument is of unknown outcome, the
  journal is durable and the book agrees with the broker. Strategy: its switch is armed, it is enabled, its loss of the
  day, its losing streak and its order rate are below their limits, a short is allowed if it is one. Portfolio: a new
  position is in a symbol not held and there is room for one more, the symbol was neither entered nor exited that day, the day's
  loss, the drawdown from a positive peak and the entries of the day are below their limits. Events: neither a
  results window nor an adverse announcement blocks the instrument.\<close>

theorem entry_needs_clear_system:
  assumes "\<not> reduces_risk (i_kind i)" "0 < ins_lot_size (i_instrument i)"
    and "0 < approved_qty (evaluate coid l default_checks i s q r)"
  defines "c \<equiv> context_of l i s q r" and "stats \<equiv> dget_or no_stats (sn_strategies s) (i_strategy i)"
  shows "ks_global (sn_kill s) = ARMED \<and> ks_broker (sn_kill s) = ARMED
    \<and> dget_or ARMED (ks_strategies (sn_kill s)) (i_strategy i) = ARMED
    \<and> sn_is_trading_day s \<and> sn_session_open s \<and> \<not> sn_is_weekend s \<and> sn_entry_window s
    \<and> (\<exists>quote. mf_quote (facts c) = Some quote \<and> age_seconds quote (sn_now s) \<le> rl_max_quote_age_s l)
    \<and> (\<exists>src. mf_data_source (facts c) = Some src \<and> (is_fabricated src \<longrightarrow> sn_environment s = ''demo''))
    \<and> sn_open_orders s < rl_max_open_orders l \<and> sn_orders_last_min s + rv_orders r < rl_orders_per_min l
    \<and> sn_rejects_in_window s < rl_reject_storm_count l
    \<and> i_key i \<notin> set (sn_unknown_order_keys s) \<and> sn_journal_durable s \<and> \<not> sn_recon_drift s
    \<and> i_strategy i \<in> set (rl_enabled_strategies l) \<and> (i_side i = BUY \<or> rl_allow_short l)
    \<and> - dmul (sn_sod_equity s) (dec_of_float (rl_strategy_daily_loss_pct l)) < st_day_pnl stats
    \<and> st_consecutive_losses stats < rl_strategy_max_consec_losses l \<and> st_orders_last_min stats < rl_strategy_orders_per_min l
    \<and> (i_kind i = KOpen \<longrightarrow> new_symbol c)
    \<and> i_key i \<notin> set (sn_symbols_exited_today s) \<and> i_key i \<notin> set (sn_symbols_entered_today s)
    \<and> - dmul (sn_sod_equity s) (dec_of_float (rl_daily_loss_limit_pct l)) < day_pnl_mtm s
    \<and> (0 < sn_peak_equity s \<longrightarrow> ddiv (dsub (sn_peak_equity s) (sn_equity s)) (sn_peak_equity s) < dec_of_float (rl_max_drawdown_pct l))
    \<and> list_all (\<lambda>b. eb_code b \<in> {EVT_RESULTS_WINDOW, EVT_ADVERSE_MAJOR} \<longrightarrow> \<not> eb_covers b (ist_date (sn_now s)))
        (dget_or [] (sn_event_blocks s) (i_key i))
    \<and> (new_symbol c \<longrightarrow> positions_count c < rl_max_positions l)
    \<and> sn_entries_today s + rv_entries r < rl_max_entries_per_day l"
proof -
  note g = entry_guarantee [OF assms(1-3)]
  note oth = g [OF enabled_ck.sound_check_axioms] g [OF short_ck.sound_check_axioms]
    g [OF day_loss_ck.sound_check_axioms] g [OF events_ck.sound_check_axioms] g [OF positions_ck.sound_check_axioms]
    g [OF entries_ck.sound_check_axioms]
  have rest: "i_strategy i \<in> set (rl_enabled_strategies l) \<and> (i_side i = BUY \<or> rl_allow_short l)
    \<and> - dmul (sn_sod_equity s) (dec_of_float (rl_daily_loss_limit_pct l)) < day_pnl_mtm s
    \<and> list_all (\<lambda>b. eb_code b = EVT_RESULTS_WINDOW \<longrightarrow> \<not> eb_covers b (ist_date (sn_now s)))
        (dget_or [] (sn_event_blocks s) (i_key i))
    \<and> (new_symbol c \<longrightarrow> positions_count c < rl_max_positions l)
    \<and> sn_entries_today s + rv_entries r < rl_max_entries_per_day l"
    unfolding c_def
    using oth [unfolded context_of_simps, simplified strategy_checks_def portfolio_checks_def event_checks_def order_checks_def list.set]
    by auto
  have events: "list_all (\<lambda>b. eb_code b \<in> {EVT_RESULTS_WINDOW, EVT_ADVERSE_MAJOR} \<longrightarrow> \<not> eb_covers b (ist_date (sn_now s)))
        (dget_or [] (sn_event_blocks s) (i_key i))"
    using rest portfolio_blocks_clear [OF assms(1-3)] by (simp add: list_all_iff)
  show ?thesis
    using system_clear [OF assms(1-3)] rate_blocks_clear [OF assms(1-3)] strategy_blocks_clear [OF assms(1-3)]
      portfolio_blocks_clear [OF assms(1-3)] rest events
    unfolding c_def stats_def by (intro conjI) argo+
qed

theorem entry_needs_clear_system_witness:
  "approved_qty sample_eval = 100 \<and> ks_global (sn_kill calm_snapshot) = ARMED \<and> sn_entry_window calm_snapshot"
proof -
  have "0 < ins_lot_size (i_instrument sample_open)" "\<not> reduces_risk (i_kind sample_open)"
    by (simp_all add: sample_open_def nse_equity_def reduces_risk_def)
  with entry_needs_clear_system [of sample_open id sample_limits calm_snapshot None no_reservations] sample_eval_run
  show ?thesis unfolding sample_eval_def [symmetric] by simp
qed

text \<open>C10: The size of an entry is within every limit. An approved opening order with a valid quote
  has a stop on the right side of the price; its loss to the stop is within the risk budget of the
  trade and the heat that is left; its cost is within the position cap in rupees and in percent of
  equity, within the gross, sector and strategy room left by positions and reservations, and a
  buy's cost with the fill buffer is within the free cash. The bounds hold up to the rounding of
  one 28-digit division.\<close>

theorem entry_size_within_limits:
  assumes "\<not> reduces_risk (i_kind i)" "0 < ins_lot_size (i_instrument i)"
    and "0 < approved_qty (evaluate coid l default_checks i s q r)"
    and "\<forall>quote. mf_quote (facts (context_of l i s q r)) = Some quote \<longrightarrow> quote_valid quote"
  defines "c \<equiv> context_of l i s q r" and "n \<equiv> approved_qty (evaluate coid l default_checks i s q r)"
  shows "\<exists>price d. cx_price c = Some price \<and> stop_distance c = Some d \<and> 0 < price \<and> 0 < d
    \<and> fits n d (pct c (risk_fraction c)) \<and> fits n d (dsub (pct c (rl_max_heat_pct l)) (heat_used c))
    \<and> fits n price (pct c (rl_max_position_pct l)) \<and> fits n price (dec_of_float (rl_max_position_inr l))
    \<and> fits n price (dsub (pct c (rl_max_gross_exposure_pct l)) (gross_used c))
    \<and> fits n price (dsub (pct c (rl_max_sector_pct l)) (sector_used c))
    \<and> fits n price (dsub (pct c (rl_strategy_capital_pct l)) (capital_used c))
    \<and> (i_side i = BUY \<longrightarrow> fits n (dmul price buy_cost_buffer) (cash_free c))"
proof -
  note g = entry_guarantee [OF assms(1-3), folded c_def n_def]
  have l: "cx_limits c = l" "cx_intent c = i" by (simp_all add: c_def)
  obtain quote where quote: "mf_quote (facts c) = Some quote"
    using g [OF stale_ck.sound_check_axioms] by (auto simp: system_checks_def)
  have "quote_valid quote" using assms(4) quote unfolding c_def by blast
  then obtain price where price: "cx_price c = Some price" "0 < price"
    using quote by (auto simp: cx_price_def quote_valid_def dec_of_float_pos)
  obtain d where d: "stop_distance c = Some d" "0 < d \<longrightarrow> fits n d (pct c (risk_fraction c))"
    using g [OF risk_ck.sound_check_axioms] by (auto simp: order_checks_def)
  have "0 < d" using g [OF stop_side_ck.sound_check_axioms] d(1) by (auto simp: order_checks_def)
  have n: "0 < n" using assms(3) by (simp add: n_def)
  have nc: "fits n price (notional_cap c)" using g [OF notional_ck.sound_check_axioms] price by (auto simp: order_checks_def)
  have cap: "fits n price a" if "notional_cap c \<le> a" for a
  proof -
    have "notional_cap c * (1 + 1 / 10 ^ 27) \<le> a * (1 + 1 / 10 ^ 27)" using that by (intro mult_right_mono) auto
    with nc show ?thesis unfolding fits_def by linarith
  qed
  have "gross_used c < pct c (rl_max_gross_exposure_pct l)
      \<and> n \<le> shares (dsub (pct c (rl_max_gross_exposure_pct l)) (gross_used c)) price"
    using g [OF gross_ck.sound_check_axioms] price l by (auto simp: portfolio_checks_def)
  then have gr: "fits n price (dsub (pct c (rl_max_gross_exposure_pct l)) (gross_used c))"
    using fits_shares [OF price(2) n] by blast
  have "fits n d (dsub (pct c (rl_max_heat_pct l)) (heat_used c))"
    using g [OF heat_ck.sound_check_axioms] d(1) \<open>0 < d\<close> l by (auto simp: portfolio_checks_def)
  moreover have "fits n price (dsub (pct c (rl_max_sector_pct l)) (sector_used c))"
    using g [OF sector_ck.sound_check_axioms] price l by (auto simp: portfolio_checks_def)
  moreover have "fits n price (dsub (pct c (rl_strategy_capital_pct l)) (capital_used c))"
    using g [OF capital_ck.sound_check_axioms] price l by (auto simp: strategy_checks_def)
  moreover have "i_side i = BUY \<longrightarrow> fits n (dmul price buy_cost_buffer) (cash_free c)"
    using g [OF cash_ck.sound_check_axioms] price l by (auto simp: portfolio_checks_def)
  ultimately show ?thesis
    using price d \<open>0 < d\<close> gr cap [of "pct c (rl_max_position_pct l)"] cap [of "dec_of_float (rl_max_position_inr l)"] l
    by (auto simp: notional_cap_def)
qed

lemma sample_quote_ok: "\<forall>quote. mf_quote (facts sample_context) = Some quote \<longrightarrow> quote_valid quote"
  by (simp add: facts_def dget_or_def calm_snapshot_def sample_open_def nse_equity_def quote_valid_def)

lemma sample_derived:
  "cx_price sample_context = Some 100" "stop_distance sample_context = Some 3"
  "pct sample_context (rl_max_position_pct sample_limits) = 12500"
  by code_simp+

theorem entry_size_within_limits_witness:
  "approved_qty sample_eval = 100 \<and> fits (approved_qty sample_eval) 100 12500
   \<and> fits (approved_qty sample_eval) 3 (pct sample_context (risk_fraction sample_context))"
proof -
  have "0 < ins_lot_size (i_instrument sample_open)" "\<not> reduces_risk (i_kind sample_open)"
    by (simp_all add: sample_open_def nse_equity_def reduces_risk_def)
  with entry_size_within_limits [of sample_open id sample_limits calm_snapshot None no_reservations] sample_eval_run sample_quote_ok
  show ?thesis unfolding sample_eval_def [symmetric] by (simp add: sample_derived del: context_of_simps)
qed

subsection \<open>Exits\<close>

definition can_reduce :: "risk_context \<Rightarrow> int" where
  "can_reduce c = (if i_side (cx_intent c) = SELL then held_qty c else - held_qty c)"

lemma reduce_applicable:
  assumes "reduces_risk k"
  shows "applicable k default_checks =
    [any_check (Sys SYS_SESSION_CLOSED) session_closed, any_check (Sys SYS_HOLIDAY) holiday,
     any_check (Sys SYS_DATA_SIMULATED) data_simulated, any_check (Ord ORD_QTY_NONPOS) qty_nonpos, any_check (Ord ORD_TICK) tick,
     \<lparr>rk_code = Ord ORD_REDUCE_EXCEEDS_POS, rk_applies_to = reduces_kinds, rk_fn = reduce_exceeds_pos\<rparr>]"
proof -
  have k: "k \<notin> set opens_kinds" "k \<in> set all_kinds" "k \<in> set reduces_kinds"
    using assms by (cases k; simp add: reduces_risk_def opens_kinds_def all_kinds_def reduces_kinds_def)+
  show ?thesis
    by (simp add: applicable_def default_checks_def system_checks_def strategy_checks_def portfolio_checks_def event_checks_def
        order_checks_def k)
qed

lemma reduce_results:
  assumes "reduces_risk (i_kind (cx_intent c))" "sn_is_trading_day (cx_snapshot c)" "\<not> sn_is_weekend (cx_snapshot c)"
    and "sn_session_open (cx_snapshot c)" "\<not> off_tick c (i_limit_price (cx_intent c))" "\<not> off_tick c (i_trigger_price (cx_intent c))"
    and "case mf_data_source (facts c) of None \<Rightarrow> True | Some src \<Rightarrow> is_fabricated src \<longrightarrow> sn_environment (cx_snapshot c) = ''demo''"
    and "case cx_requested c of None \<Rightarrow> True | Some n \<Rightarrow> 0 < n" "0 < can_reduce c"
  shows "results_of c default_checks = [cap (Ord ORD_REDUCE_EXCEEDS_POS) (can_reduce c)]"
proof -
  have "data_simulated c = pass"
    using assms(1,7) by (auto simp: data_simulated_def check_data_source_def is_opening_def Let_def split: option.splits)
  moreover have "session_closed c = pass" "holiday c = pass" "tick c = pass" "qty_nonpos c = pass"
    using assms(2-6,8) by (auto simp: session_closed_def holiday_def tick_def qty_nonpos_def Let_def split: option.splits)
  moreover have "reduce_exceeds_pos c = resize (Ord ORD_REDUCE_EXCEEDS_POS) (can_reduce c)"
    using assms(9) by (simp add: reduce_exceeds_pos_def can_reduce_def Let_def)
  ultimately show ?thesis
    using assms(9) by (simp add: results_of_def reduce_applicable [OF assms(1)] run_check_def resize_def)
qed

text \<open>C11: An exit always gets through. While the exchange trades, an order that reduces risk on real
  or unknown data, with a positive or open quantity and prices on the tick, is approved for the
  smaller of what it asks and what the position allows (lots of one share): kill switches, loss limits,
  stale quotes, event windows, unknown orders, rates, a broken journal and drift never hold it
  back, and it never exceeds the position.\<close>

theorem exit_always_passes:
  assumes "reduces_risk (i_kind i)" "sn_is_trading_day s" "\<not> sn_is_weekend s" "sn_session_open s"
    and "\<not> off_tick (context_of l i s q r) (i_limit_price i)" "\<not> off_tick (context_of l i s q r) (i_trigger_price i)"
    and "case mf_data_source (facts (context_of l i s q r)) of
           None \<Rightarrow> True | Some src \<Rightarrow> is_fabricated src \<longrightarrow> sn_environment s = ''demo''"
    and "case (case q of None \<Rightarrow> i_quantity i | Some n \<Rightarrow> Some n) of None \<Rightarrow> True | Some n \<Rightarrow> 0 < n"
    and "0 < can_reduce (context_of l i s q r)" "ins_lot_size (i_instrument i) = 1"
  shows "approved_qty (evaluate coid l default_checks i s q r)
      = (case (case q of None \<Rightarrow> i_quantity i | Some n \<Rightarrow> Some n) of
           None \<Rightarrow> can_reduce (context_of l i s q r)
         | Some n \<Rightarrow> min n (can_reduce (context_of l i s q r)))
    \<and> 0 < approved_qty (evaluate coid l default_checks i s q r)"
proof -
  let ?c = "context_of l i s q r"
  have r: "results_of ?c default_checks = [cap (Ord ORD_REDUCE_EXCEEDS_POS) (can_reduce ?c)]"
    by (rule reduce_results) (use assms in \<open>simp_all cong: option.case_cong\<close>)
  have "fst (snd (verdict_of ?c (results_of ?c default_checks)))
      = (case cx_requested ?c of None \<Rightarrow> can_reduce ?c | Some n \<Rightarrow> min n (can_reduce ?c))"
    unfolding r using assms(8-10)
    by (auto simp: verdict_of_def blocks_of_def sized_qty_def is_capped_def cap_values_def caps_of_def split: option.splits)
  then have "approved_qty (evaluate coid l default_checks i s q r)
      = (case cx_requested ?c of None \<Rightarrow> can_reduce ?c | Some n \<Rightarrow> min n (can_reduce ?c))" by simp
  then show ?thesis using assms(8,9) by (simp split: option.splits)
qed

definition stormy_snapshot :: risk_snapshot where
  "stormy_snapshot = calm_snapshot\<lparr>
     sn_positions := [(''NSE:EQ:INFY'', \<lparr>pi_instrument_key = ''NSE:EQ:INFY'', pi_quantity = 40, pi_avg_price = 110, pi_mark = 100,
       pi_sector = None, pi_strategy = Some ''momentum'', pi_stop_price = None\<rparr>)],
     sn_kill := \<lparr>ks_global = FLATTEN, ks_broker = HALT_NEW, ks_strategies = [(''momentum'', HALT_NEW)]\<rparr>,
     sn_market := [], sn_journal_durable := False, sn_recon_drift := True, sn_entry_window := False\<rparr>"

definition sample_close :: order_intent where
  "sample_close = sample_open\<lparr>i_kind := KClose, i_side := SELL, i_reduce_only := True, i_stop_price := None,
     i_target_price := None\<rparr>"

theorem exit_always_passes_witness:
  "approved_qty (evaluate id sample_limits default_checks sample_close stormy_snapshot (Some 60) no_reservations) = 40"
  using exit_always_passes [of sample_close stormy_snapshot sample_limits "Some 60" no_reservations id]
  by (simp add: sample_close_def sample_open_def stormy_snapshot_def calm_snapshot_def reduces_risk_def off_tick_def nse_equity_def
      facts_def dget_or_def no_facts_def can_reduce_def held_qty_def cx_position_def del: evaluate_simps)

subsection \<open>The decision record\<close>

lemma verdict_valid:
  "(fst (verdict_of c rs) \<in> {RoApproved, RoResized}) = (0 < fst (snd (verdict_of c rs))) \<and> 0 \<le> fst (snd (verdict_of c rs))
   \<and> (fst (verdict_of c rs) \<notin> {RoApproved, RoResized} \<longrightarrow> snd (snd (verdict_of c rs)) \<noteq> [])"
  by (auto simp: verdict_of_def split: option.splits)

text \<open>Every decision is a valid record. For any table of checks, whatever they return or raise,
  the decision satisfies the validators of the record it is stored as: approved or resized
  exactly when the quantity is positive, a rejection always has a reason, the amounts are not
  negative; so building it never fails.\<close>

theorem decision_always_valid:
  assumes "0 < i_decision_price i" "\<forall>quote. mf_quote (facts (context_of l i s q r)) = Some quote \<longrightarrow> quote_valid quote"
  shows "decision_valid (ev_decision (evaluate coid l cks i s q r))"
proof -
  let ?c = "context_of l i s q r"
  obtain oc n reasons where v: "verdict_of ?c (results_of ?c cks) = (oc, n, reasons)" by (metis prod.collapse)
  have "0 \<le> cxp" if "cx_price ?c = Some cxp" for cxp
    using that assms(2) by (auto simp: cx_price_def quote_valid_def dec_of_float_nonneg less_imp_le)
  then have "0 \<le> (case cx_price ?c of None \<Rightarrow> i_decision_price i | Some p \<Rightarrow> if p = 0 then i_decision_price i else p)"
    using assms(1) by (auto split: option.splits)
  moreover have "0 \<le> n" using verdict_valid [of ?c "results_of ?c cks"] v by simp
  ultimately have "0 \<le> rd_notional (ev_decision (evaluate coid l cks i s q r))"
      "0 \<le> rd_risk_amount (ev_decision (evaluate coid l cks i s q r))"
    using v by (auto simp: evaluate_def decide_def Let_def dmul_def intro!: dec28_nonneg split: option.splits)
  then show ?thesis
    using verdict_valid [of ?c "results_of ?c cks"] v
    by (auto simp: decision_valid_def evaluate_def decide_def Let_def split: option.splits)
qed

theorem decision_always_valid_witness: "decision_valid (ev_decision sample_eval)"
  unfolding sample_eval_def
  by (rule decision_always_valid [OF _ sample_quote_ok]) (simp add: sample_open_def)

end
