(* ===== verification/Risk_Batch.thy ===== *)
theory Risk_Batch
  imports Risk_Props
begin

section \<open>Decisions of one batch\<close>

text \<open>
  The proposals of one cycle are decided against one snapshot; each approval reserves its capacity
  for the ones that follow. Amounts on a common decimal grid add up without rounding, and then the
  batch as a whole stays within the gross limit.
\<close>

definition on_grid :: "nat \<Rightarrow> rat \<Rightarrow> bool" where
  "on_grid k x = (\<exists>m. x * 10 ^ k = of_int m)"

lemma on_grid_add: "on_grid k x \<Longrightarrow> on_grid k y \<Longrightarrow> on_grid k (x + y)"
  unfolding on_grid_def by (metis of_int_add distrib_right)

lemma on_grid_diff: "on_grid k x \<Longrightarrow> on_grid k y \<Longrightarrow> on_grid k (x - y)"
  unfolding on_grid_def by (metis of_int_diff left_diff_distrib)

lemma on_grid_scale: "on_grid k x \<Longrightarrow> on_grid k (x * of_int n)"
  unfolding on_grid_def by (metis mult.assoc mult.commute of_int_mult)

lemma on_grid_0 [simp]: "on_grid k 0"
  unfolding on_grid_def by (rule exI [of _ 0]) simp

lemma dec28_grid:
  assumes "on_grid k x" "\<bar>x\<bar> * 10 ^ k < 10 ^ 27"
  shows "dec28 x = x"
proof -
  obtain m where m: "x * 10 ^ k = of_int m" using assms(1) by (auto simp: on_grid_def)
  have "of_int \<bar>m\<bar> = \<bar>x\<bar> * 10 ^ k" using m by (metis abs_mult abs_of_pos of_int_abs zero_less_power zero_less_numeral)
  with assms(2) have "(of_int \<bar>m\<bar> :: rat) < of_int (10 ^ 27)" by simp
  then have "\<bar>m\<bar> < 10 ^ 27" by linarith
  then show ?thesis by (intro dec28_exact [OF m]) simp
qed

text \<open>On the grid the rounding of the division is invisible.\<close>

lemma fits_grid:
  assumes "fits n p a" "on_grid k p" "on_grid k a" "0 \<le> a" "a * 10 ^ k < 10 ^ 27"
  shows "of_int n * p \<le> a"
proof -
  obtain x y where x: "p * of_int n * 10 ^ k = of_int x" and y: "a * 10 ^ k = of_int y"
    using on_grid_scale [OF assms(2), of n] assms(3) by (auto simp: on_grid_def)
  have "of_int n * p * 10 ^ k \<le> a * (1 + 1 / 10 ^ 27) * 10 ^ k"
    using assms(1) unfolding fits_def by (intro mult_right_mono) auto
  also have "\<dots> = a * 10 ^ k + a * 10 ^ k / 10 ^ 27" by (simp add: field_simps)
  also have "\<dots> < a * 10 ^ k + 1" using assms(5) by simp
  finally have "(of_int x :: rat) < of_int (y + 1)" using x y by (simp add: mult.commute)
  then have "x \<le> y" by linarith
  then have "(of_int x :: rat) \<le> of_int y" by simp
  then have "of_int n * p * 10 ^ k \<le> a * 10 ^ k" using x y by (simp add: mult.commute)
  then show ?thesis by (rule mult_right_le_imp_le) simp
qed

abbreviation gross_limit :: "risk_limits \<Rightarrow> risk_snapshot \<Rightarrow> rat" where
  "gross_limit l s \<equiv> dmul (sn_equity s) (dec_of_float (rl_max_gross_exposure_pct l))"

definition entry_notional :: "evaluation \<Rightarrow> rat" where
  "entry_notional e =
     (case cx_price (ev_context e) of
        None \<Rightarrow> 0
      | Some p \<Rightarrow> if is_opening (ev_context e) then p * of_int (approved_qty e) else 0)"

definition market_ok :: "nat \<Rightarrow> risk_snapshot \<Rightarrow> bool" where
  "market_ok k s =
     (\<forall>(key, f) \<in> set (sn_market s). \<forall>quote. mf_quote f = Some quote \<longrightarrow>
        quote_valid quote \<and> on_grid k (dec_of_float (q_ltp quote)))"

lemma market_price:
  assumes "market_ok k s" "cx_price (context_of l i s q r) = Some p"
  shows "0 < p" "on_grid k p"
proof -
  obtain quote where quote: "mf_quote (dget_or no_facts (sn_market s) (i_key i)) = Some quote" "p = dec_of_float (q_ltp quote)"
    using assms(2) by (auto simp: cx_price_def facts_def)
  then have "\<exists>f. (i_key i, f) \<in> set (sn_market s) \<and> mf_quote f = Some quote"
    by (auto simp: dget_or_def no_facts_def split: option.splits dest: map_of_SomeD)
  with assms(1) quote show "0 < p" "on_grid k p"
    by (fastforce simp: market_ok_def quote_valid_def dec_of_float_pos)+
qed

lemma reserve_gross:
  "rv_gross (reserve c n True r) =
     (case cx_price c of None \<Rightarrow> rv_gross r | Some p \<Rightarrow> if is_opening c then dadd (rv_gross r) (dmul p (of_int n)) else rv_gross r)"
  by (auto simp: reserve_def Let_def split: option.splits)

lemma batch_step:
  assumes "on_grid k E" "on_grid k g" "on_grid k L" "0 \<le> E" "0 \<le> g" "L * 10 ^ k < 10 ^ 27"
    and "E = gross_exposure s" "g = rv_gross r" "L = gross_limit l s" "market_ok k s"
    and "0 < approved_qty (evaluate coid l default_checks i s None r)" "0 < ins_lot_size (i_instrument i)"
    and "\<not> reduces_risk (i_kind i)"
  defines "e \<equiv> evaluate coid l default_checks i s None r"
  shows "E + g + entry_notional e \<le> L" "0 \<le> entry_notional e" "on_grid k (entry_notional e)"
    "rv_gross (reserve (ev_context e) (approved_qty e) True r) = g + entry_notional e"
proof -
  let ?c = "context_of l i s None r" and ?n = "approved_qty e"
  note gu = entry_guarantee [OF assms(13,12,11)]
  have ev: "ev_context e = ?c" "?n = approved_qty (evaluate coid l default_checks i s None r)" by (simp_all add: e_def)
  have n: "0 < ?n" using assms(11) by (simp add: e_def)
  obtain quote where "mf_quote (facts ?c) = Some quote" using gu [OF stale_ck.sound_check_axioms] by (auto simp: system_checks_def)
  then obtain p where p: "cx_price ?c = Some p" by (simp add: cx_price_def)
  note pp = market_price [OF assms(10) p]
  have lim: "pct ?c (rl_max_gross_exposure_pct l) = L" by (simp add: pct_def assms(9))
  have used: "gross_used ?c = dec28 (E + g)" by (simp add: gross_used_def dadd_def assms(7,8))
  have G: "dec28 (E + g) < L" "?n \<le> shares (dsub L (dec28 (E + g))) p"
    using gu [OF gross_ck.sound_check_axioms] p pp(1) lim used ev by (auto simp: portfolio_checks_def)
  have L: "\<bar>L\<bar> * 10 ^ k < 10 ^ 27" if "0 \<le> L" using assms(6) that by simp
  have lt: "E + g < L"
  proof (rule ccontr)
    assume a: "\<not> E + g < L"
    show False
    proof (cases "0 \<le> L")
      case True
      with a dec28_mono [of L "E + g"] dec28_grid [OF assms(3) L] G(1) show False by simp
    next
      case False
      with G(1) dec28_nonneg [of "E + g"] assms(4,5) show False by simp
    qed
  qed
  have b: "x * 10 ^ k < 10 ^ 27" if "x \<le> L" for x
    by (rule order_le_less_trans [OF mult_right_mono [OF that] assms(6)]) simp
  have eg: "dec28 (E + g) = E + g"
    using lt assms(4,5) b [of "E + g"] by (intro dec28_grid [where k = k] on_grid_add assms(1,2)) auto
  have room: "dsub L (E + g) = L - (E + g)"
    unfolding dsub_def using lt assms(4,5) b [of "L - (E + g)"]
    by (intro dec28_grid [where k = k] on_grid_diff on_grid_add assms(1,2,3)) auto
  have f: "fits ?n p (L - (E + g))" using fits_shares [OF pp(1) n, of "dsub L (dec28 (E + g))"] G(2) eg room by simp
  have np: "of_int ?n * p \<le> L - (E + g)"
    using lt assms(4,5) b [of "L - (E + g)"] by (intro fits_grid [OF f pp(2)] on_grid_diff on_grid_add assms(1,2,3)) auto
  have en: "entry_notional e = p * of_int ?n"
    using p ev assms(13) by (simp add: entry_notional_def is_opening_def)
  show nn: "0 \<le> entry_notional e" using en pp(1) n by simp
  show gr: "on_grid k (entry_notional e)" unfolding en by (rule on_grid_scale [OF pp(2)])
  show le: "E + g + entry_notional e \<le> L" using np en by (simp add: mult.commute)
  have "dmul p (of_int ?n) = entry_notional e"
    unfolding dmul_def en [symmetric] using nn le assms(4,5) b [of "entry_notional e"] by (intro dec28_grid [OF gr]) auto
  moreover have "dadd g (entry_notional e) = g + entry_notional e"
    unfolding dadd_def using nn le assms(4,5) b [of "g + entry_notional e"]
    by (intro dec28_grid [OF on_grid_add [OF assms(2) gr]]) auto
  ultimately show "rv_gross (reserve (ev_context e) ?n True r) = g + entry_notional e"
    using p ev assms(8,13) by (simp add: reserve_gross is_opening_def)
qed

lemma batch_from:
  assumes "on_grid k (gross_exposure s)" "on_grid k (gross_limit l s)" "0 \<le> gross_exposure s"
    and "gross_limit l s * 10 ^ k < 10 ^ 27" "market_ok k s"
    and "on_grid k (rv_gross r)" "0 \<le> rv_gross r" "\<forall>i \<in> set is. 0 < ins_lot_size (i_instrument i)"
  shows "sum_list (map entry_notional (evaluate_from coid l default_checks s is r)) = 0
    \<or> gross_exposure s + rv_gross r + sum_list (map entry_notional (evaluate_from coid l default_checks s is r)) \<le> gross_limit l s"
  using assms(6-8)
proof (induction "is" arbitrary: r)
  case (Cons i "is")
  let ?e = "evaluate coid l default_checks i s None r"
  define r' where "r' = (if 0 < approved_qty ?e then reserve (ev_context ?e) (approved_qty ?e) True r else r)"
  have split: "evaluate_from coid l default_checks s (i # is) r = ?e # evaluate_from coid l default_checks s is r'"
    unfolding r'_def by (simp add: Let_def del: evaluate_simps)
  have nn: "0 \<le> approved_qty ?e" using verdict_valid by simp
  have key: "entry_notional ?e = 0 \<and> rv_gross r' = rv_gross r
      \<or> gross_exposure s + rv_gross r + entry_notional ?e \<le> gross_limit l s \<and> 0 \<le> entry_notional ?e
        \<and> on_grid k (entry_notional ?e) \<and> rv_gross r' = rv_gross r + entry_notional ?e"
  proof (cases "0 < approved_qty ?e \<and> \<not> reduces_risk (i_kind i)")
    case True
    then have a: "0 < approved_qty ?e" "\<not> reduces_risk (i_kind i)" by blast+
    have "0 < ins_lot_size (i_instrument i)" using Cons.prems(3) by simp
    note st = batch_step [OF assms(1) Cons.prems(1) assms(2,3) Cons.prems(2) assms(4) refl refl refl assms(5) a(1) this a(2)]
    have "rv_gross r' = rv_gross (reserve (ev_context ?e) (approved_qty ?e) True r)" unfolding r'_def using a(1) by simp
    with st show ?thesis by simp
  next
    case False
    with nn have "approved_qty ?e = 0 \<or> reduces_risk (i_kind i)" by linarith
    then have "entry_notional ?e = 0" "rv_gross r' = rv_gross r"
      unfolding entry_notional_def r'_def by (auto simp: is_opening_def reserve_gross split: option.splits)
    then show ?thesis by blast
  qed
  have "on_grid k (rv_gross r')" "0 \<le> rv_gross r'" using key Cons.prems(1,2) on_grid_add by auto
  from Cons.IH [OF this] Cons.prems(3) key show ?case unfolding split by auto
qed simp

text \<open>C12: One batch cannot spend the same headroom twice. When the exposure, the limit and the quoted
  prices are decimals of a common scale, the entries approved in one batch, all together and on
  top of the positions held, stay within the gross exposure limit, however many signals the cycle
  produced.\<close>

theorem batch_within_gross_limit:
  assumes "on_grid k (gross_exposure s)" "on_grid k (gross_limit l s)" "0 \<le> gross_exposure s"
    and "gross_limit l s * 10 ^ k < 10 ^ 27" "market_ok k s" "\<forall>i \<in> set is. 0 < ins_lot_size (i_instrument i)"
  shows "sum_list (map entry_notional (evaluate_batch coid l default_checks is s)) = 0
    \<or> gross_exposure s + sum_list (map entry_notional (evaluate_batch coid l default_checks is s)) \<le> gross_limit l s"
  using batch_from [OF assms(1-5), of no_reservations "is" coid] assms(6)
  by (simp add: evaluate_batch_def no_reservations_def)

lemma sample_limit: "gross_limit sample_limits calm_snapshot = 50000" "gross_exposure calm_snapshot = 0"
  "dec_of_float 100 = 100"
  by code_simp+

theorem batch_within_gross_limit_witness:
  "entry_notional sample_eval = 10000
   \<and> sum_list (map entry_notional (evaluate_batch id sample_limits default_checks [sample_open, sample_open] calm_snapshot)) \<le> 50000"
proof -
  have g: "on_grid 2 (gross_limit sample_limits calm_snapshot)" "on_grid 2 (100 :: rat)"
    unfolding sample_limit on_grid_def by (rule exI [of _ 5000000], simp) (rule exI [of _ 10000], simp)
  have m: "market_ok 2 calm_snapshot"
    using g(2) by (simp add: market_ok_def calm_snapshot_def quote_valid_def sample_limit)
  have "on_grid 2 (gross_exposure calm_snapshot)" "0 \<le> gross_exposure calm_snapshot"
    "gross_limit sample_limits calm_snapshot * 10 ^ 2 < 10 ^ 27" "\<forall>i \<in> set [sample_open, sample_open]. 0 < ins_lot_size (i_instrument i)"
    by (simp_all add: sample_limit sample_open_def nse_equity_def)
  from batch_within_gross_limit [OF this(1) g(1) this(2,3) m this(4), of id]
  have "sum_list (map entry_notional (evaluate_batch id sample_limits default_checks [sample_open, sample_open] calm_snapshot)) \<le> 50000"
    by (auto simp: sample_limit)
  moreover have "is_opening (ev_context sample_eval)"
    by (simp add: sample_eval_def is_opening_def reduces_risk_def sample_open_def)
  then have "entry_notional sample_eval = 10000"
    using sample_eval_run sample_derived(1) by (simp add: entry_notional_def sample_eval_def del: context_of_simps)
  ultimately show ?thesis by blast
qed

end
