(* ===== verification/Risk_State.thy ===== *)
theory Risk_State
  imports OMS Risk_Base
begin

section \<open>The risk state of a day\<close>

text \<open>
  \<^verbatim>\<open>src/risk/state.py\<close>: what the limits of one book are measured against on one IST day.
  The tracker is the record \<open>tracker\<close>: the current state, the copy in the state store and the
  events it emits. The clock is the argument \<open>now\<close>. The JSON text in the store is represented
  by the state it encodes. A breach key, the text code:name of the source, is the pair of the
  two; the observed value, the limit and the message of a breach are for display and left out.
  The sets of the source are lists without duplicates.
\<close>

subsection \<open>State\<close>

definition us_of_seconds :: "rat \<Rightarrow> int" where
  "us_of_seconds x = (let i = (if 0 \<le> x then \<lfloor>x\<rfloor> else \<lceil>x\<rceil>) in i * 10 ^ 6 + round_half_even (fmul (x - of_int i) (10 ^ 6)))"

definition order_rate_window :: int where
  "order_rate_window = 60 * 10 ^ 6"

record strategy_day =
  sd_realized_pnl :: rat
  sd_trades :: int
  sd_consecutive_losses :: int
  sd_entries :: int
  sd_order_ts :: "ts list"
  sd_last_exit :: "string option"

definition new_strategy_day :: strategy_day where
  "new_strategy_day =
     \<lparr>sd_realized_pnl = 0, sd_trades = 0, sd_consecutive_losses = 0, sd_entries = 0, sd_order_ts = [],
      sd_last_exit = None\<rparr>"

type_synonym breach_key = "reason_code \<times> string"

record daily_state =
  ds_book_id :: string
  ds_ist_date :: date
  ds_sod_equity :: rat
  ds_peak_equity :: rat
  ds_last_equity :: rat
  ds_low_equity :: rat
  ds_realized_pnl :: rat
  ds_entries :: int
  ds_symbols_entered :: "string list"
  ds_symbols_exited :: "string list"
  ds_strategies :: "(string, strategy_day) dict"
  ds_order_ts :: "ts list"
  ds_reject_ts :: "ts list"
  ds_breaches :: "breach_key list"
  ds_last_tick :: "ts option"

definition ds_day_pnl_mtm :: "daily_state \<Rightarrow> rat" where
  "ds_day_pnl_mtm st = dsub (ds_last_equity st) (ds_sod_equity st)"

definition ds_drawdown :: "daily_state \<Rightarrow> rat" where
  "ds_drawdown st =
     (if ds_peak_equity st \<le> 0 then 0
      else max 0 (ddiv (dsub (ds_peak_equity st) (ds_last_equity st)) (ds_peak_equity st)))"

record breach =
  br_scope :: kill_scope
  br_name :: string
  br_action :: kill_action
  br_code :: reason_code

definition br_key :: "breach \<Rightarrow> breach_key" where
  "br_key b = (br_code b, br_name b)"

datatype tracker_event =
    DailyRiskStateRolled date daily_state
  | LimitBreached reason_code

record tracker =
  rt_book_id :: string
  rt_limits :: risk_limits
  rt_state :: "daily_state option"
  rt_saved :: "daily_state option"
  rt_events :: "tracker_event list"

definition new_tracker :: "string \<Rightarrow> risk_limits \<Rightarrow> daily_state option \<Rightarrow> tracker result" where
  "new_tracker book_id l saved =
     (if (case saved of None \<Rightarrow> False | Some st \<Rightarrow> ds_book_id st \<noteq> book_id) then Inl ValueError
      else Inr \<lparr>rt_book_id = book_id, rt_limits = l, rt_state = saved, rt_saved = saved, rt_events = []\<rparr>)"

definition recent :: "ts list \<Rightarrow> ts \<Rightarrow> int \<Rightarrow> ts list" where
  "recent stamps now window = filter (\<lambda>t. now - t < window) stamps"

definition rt_save :: "tracker \<Rightarrow> tracker" where
  "rt_save tr = (case rt_state tr of None \<Rightarrow> tr | Some st \<Rightarrow> tr\<lparr>rt_saved := Some st\<rparr>)"

definition rt_put :: "daily_state \<Rightarrow> tracker \<Rightarrow> tracker" where
  "rt_put st tr = rt_save (tr\<lparr>rt_state := Some st\<rparr>)"

subsection \<open>The day\<close>

definition carry_over :: "strategy_day \<Rightarrow> strategy_day" where
  "carry_over d =
     new_strategy_day\<lparr>sd_consecutive_losses := sd_consecutive_losses d, sd_last_exit := sd_last_exit d\<rparr>"

definition rolled_state :: "string \<Rightarrow> date \<Rightarrow> rat \<Rightarrow> daily_state option \<Rightarrow> daily_state" where
  "rolled_state book_id today sod previous =
     \<lparr>ds_book_id = book_id, ds_ist_date = today, ds_sod_equity = sod,
      ds_peak_equity = (case previous of None \<Rightarrow> sod | Some p \<Rightarrow> max (ds_peak_equity p) sod),
      ds_last_equity = sod, ds_low_equity = sod, ds_realized_pnl = 0, ds_entries = 0,
      ds_symbols_entered = [], ds_symbols_exited = [],
      ds_strategies = (case previous of None \<Rightarrow> [] | Some p \<Rightarrow> map (\<lambda>(n, d). (n, carry_over d)) (ds_strategies p)),
      ds_order_ts = [], ds_reject_ts = [], ds_breaches = [], ds_last_tick = None\<rparr>"

definition start_day :: "ts \<Rightarrow> rat \<Rightarrow> tracker \<Rightarrow> (daily_state \<times> tracker) result" where
  "start_day now sod tr =
     (let today = ist_date now;
          roll = (\<lambda>evs. let st = rolled_state (rt_book_id tr) today sod (rt_state tr)
                        in Inr (st, rt_put st (tr\<lparr>rt_events := rt_events tr @ evs\<rparr>)))
      in case rt_state tr of
           None \<Rightarrow> roll []
         | Some p \<Rightarrow>
             if ds_ist_date p = today then Inr (p, tr)
             else if today < ds_ist_date p then Inl ValueError
             else roll [DailyRiskStateRolled (ds_ist_date p) p])"

definition current_state :: "ts \<Rightarrow> rat option \<Rightarrow> tracker \<Rightarrow> (daily_state \<times> tracker) result" where
  "current_state now hint tr =
     (case rt_state tr of
        None \<Rightarrow> (case hint of None \<Rightarrow> Inl RuntimeError | Some e \<Rightarrow> start_day now e tr)
      | Some st \<Rightarrow>
          if ds_ist_date st = ist_date now then Inr (st, tr)
          else start_day now (case hint of None \<Rightarrow> ds_last_equity st | Some e \<Rightarrow> e) tr)"

subsection \<open>What happened\<close>

definition day_of :: "daily_state \<Rightarrow> string \<Rightarrow> strategy_day" where
  "day_of st name = dget_or new_strategy_day (ds_strategies st) name"

definition note_order :: "ts \<Rightarrow> order_intent \<Rightarrow> daily_state \<Rightarrow> daily_state" where
  "note_order now i st =
     (let d = day_of st (i_strategy i);
          opens = \<not> reduces_risk (i_kind i);
          d' = d\<lparr>sd_order_ts := recent (sd_order_ts d) now order_rate_window @ [now],
                 sd_entries := (if opens then sd_entries d + 1 else sd_entries d)\<rparr>
      in st\<lparr>ds_strategies := dset (i_strategy i) d' (ds_strategies st),
            ds_order_ts := recent (ds_order_ts st) now order_rate_window @ [now],
            ds_entries := (if opens then ds_entries st + 1 else ds_entries st),
            ds_symbols_entered := (if opens then List.insert (i_key i) (ds_symbols_entered st) else ds_symbols_entered st)\<rparr>)"

definition record_order :: "ts \<Rightarrow> order \<Rightarrow> tracker \<Rightarrow> tracker result" where
  "record_order now od tr =
     (case current_state now None tr of
        Inl e \<Rightarrow> Inl e
      | Inr (st, tr1) \<Rightarrow> Inr (rt_put (note_order now (o_intent od) st) tr1))"

definition record_reject :: "ts \<Rightarrow> tracker \<Rightarrow> tracker result" where
  "record_reject now tr =
     (case current_state now None tr of
        Inl e \<Rightarrow> Inl e
      | Inr (st, tr1) \<Rightarrow>
          Inr (rt_put (st\<lparr>ds_reject_ts :=
            recent (ds_reject_ts st) now (us_of_seconds (rl_reject_storm_window_s (rt_limits tr))) @ [now]\<rparr>) tr1))"

definition exit_ref :: "closed_piece \<Rightarrow> string" where
  "exit_ref t = (if cp_exit_decision_id t = '''' then cp_trade_id t else cp_exit_decision_id t) @ ''|'' @ cp_instrument_key t"

definition count_exit :: "closed_piece \<Rightarrow> strategy_day \<Rightarrow> strategy_day" where
  "count_exit t d =
     (if Some (exit_ref t) = sd_last_exit d then d
      else d\<lparr>sd_last_exit := Some (exit_ref t), sd_trades := sd_trades d + 1,
             sd_consecutive_losses :=
               (if cp_net_pnl t < 0 then sd_consecutive_losses d + 1
                else if 0 < cp_net_pnl t then 0 else sd_consecutive_losses d)\<rparr>)"

definition note_trade :: "closed_piece \<Rightarrow> daily_state \<Rightarrow> daily_state" where
  "note_trade t st =
     (let d = day_of st (cp_strategy t);
          d' = count_exit t (d\<lparr>sd_realized_pnl := dadd (sd_realized_pnl d) (cp_net_pnl t)\<rparr>)
      in st\<lparr>ds_strategies := dset (cp_strategy t) d' (ds_strategies st),
            ds_realized_pnl := dadd (ds_realized_pnl st) (cp_net_pnl t),
            ds_symbols_exited := List.insert (cp_instrument_key t) (ds_symbols_exited st)\<rparr>)"

definition record_trade :: "ts \<Rightarrow> closed_piece \<Rightarrow> tracker \<Rightarrow> tracker result" where
  "record_trade now t tr =
     (case current_state now None tr of
        Inl e \<Rightarrow> Inl e
      | Inr (st, tr1) \<Rightarrow> Inr (rt_put (note_trade t st) tr1))"

fun rt_on_event :: "ts \<Rightarrow> oms_event \<Rightarrow> tracker \<Rightarrow> tracker result" where
  "rt_on_event now (OrderSubmitted od) tr = record_order now od tr"
| "rt_on_event now (OrderRejected r) tr = record_reject now tr"
| "rt_on_event now (TradeClosed t) tr = record_trade now t tr"
| "rt_on_event now _ tr = Inr tr"

definition acknowledge_streak :: "string \<Rightarrow> tracker \<Rightarrow> bool \<times> tracker" where
  "acknowledge_streak strategy tr =
     (case rt_state tr of
        None \<Rightarrow> (False, tr)
      | Some st \<Rightarrow>
          (case dget (ds_strategies st) strategy of
             None \<Rightarrow> (False, tr)
           | Some d \<Rightarrow>
               if sd_consecutive_losses d = 0 then (False, tr)
               else (True, rt_put (st\<lparr>ds_strategies := dset strategy (d\<lparr>sd_consecutive_losses := 0\<rparr>) (ds_strategies st),
                       ds_breaches := removeAll (Str STR_CONSEC_LOSSES, strategy) (ds_breaches st)\<rparr>) tr)))"

subsection \<open>The monitor tick\<close>

definition mark_equity :: "ts \<Rightarrow> rat \<Rightarrow> daily_state \<Rightarrow> daily_state" where
  "mark_equity now eqty st =
     st\<lparr>ds_last_equity := eqty, ds_low_equity := min (ds_low_equity st) eqty,
        ds_peak_equity := max (ds_peak_equity st) eqty, ds_last_tick := Some now\<rparr>"

definition global_breach :: "kill_action \<Rightarrow> reason_code \<Rightarrow> breach" where
  "global_breach a c = \<lparr>br_scope = GlobalScope, br_name = ''global'', br_action = a, br_code = c\<rparr>"

definition strategy_breach :: "string \<Rightarrow> reason_code \<Rightarrow> breach" where
  "strategy_breach name c = \<lparr>br_scope = StrategyScope, br_name = name, br_action = ActHaltNew, br_code = c\<rparr>"

definition daily_loss_hit :: "risk_limits \<Rightarrow> daily_state \<Rightarrow> bool" where
  "daily_loss_hit l st =
     (0 < ds_sod_equity st
      \<and> dmul (ds_sod_equity st) (dec_of_float (rl_daily_loss_limit_pct l)) \<le> dsub (ds_sod_equity st) (ds_last_equity st))"

definition drawdown_hit :: "risk_limits \<Rightarrow> daily_state \<Rightarrow> bool" where
  "drawdown_hit l st = (dec_of_float (rl_max_drawdown_pct l) \<le> ds_drawdown st)"

definition reject_storm_hit :: "risk_limits \<Rightarrow> ts \<Rightarrow> daily_state \<Rightarrow> bool" where
  "reject_storm_hit l now st =
     (rl_reject_storm_count l
        \<le> int (length (recent (ds_reject_ts st) now (us_of_seconds (rl_reject_storm_window_s l)))))"

definition strategy_pnl :: "(string, rat) dict \<Rightarrow> daily_state \<Rightarrow> string \<Rightarrow> rat" where
  "strategy_pnl unrealized st name = dadd (sd_realized_pnl (day_of st name)) (dget_or 0 unrealized name)"

definition strategy_breaches :: "risk_limits \<Rightarrow> (string, rat) dict \<Rightarrow> daily_state \<Rightarrow> string \<Rightarrow> breach list" where
  "strategy_breaches l unrealized st name =
     (if 0 < ds_sod_equity st
         \<and> dmul (ds_sod_equity st) (dec_of_float (rl_strategy_daily_loss_pct l)) \<le> - strategy_pnl unrealized st name
      then [strategy_breach name (Str STR_DAILY_LOSS)] else [])
     @ (if rl_strategy_max_consec_losses l \<le> sd_consecutive_losses (day_of st name)
        then [strategy_breach name (Str STR_CONSEC_LOSSES)] else [])"

definition found_breaches :: "risk_limits \<Rightarrow> ts \<Rightarrow> (string, rat) dict \<Rightarrow> daily_state \<Rightarrow> breach list" where
  "found_breaches l now unrealized st =
     (if daily_loss_hit l st then [global_breach (rl_daily_loss_action l) (Pf PF_DAILY_LOSS_MTM)] else [])
     @ (if drawdown_hit l st then [global_breach (rl_drawdown_action l) (Pf PF_DRAWDOWN)] else [])
     @ (if reject_storm_hit l now st then [global_breach ActHaltNew (Sys SYS_REJECT_STORM)] else [])
     @ concat (map (strategy_breaches l unrealized st)
         (sort (remdups (map fst (ds_strategies st) @ map fst unrealized))))"

definition risk_tick :: "ts \<Rightarrow> rat \<Rightarrow> (string, rat) dict \<Rightarrow> tracker \<Rightarrow> (breach list \<times> tracker) result" where
  "risk_tick now eqty unrealized tr =
     (case current_state now (Some eqty) tr of
        Inl e \<Rightarrow> Inl e
      | Inr (st0, tr1) \<Rightarrow>
          (let st = mark_equity now eqty st0;
               new = filter (\<lambda>b. br_key b \<notin> set (ds_breaches st)) (found_breaches (rt_limits tr) now unrealized st);
               st' = st\<lparr>ds_breaches := fold (\<lambda>b. List.insert (br_key b)) new (ds_breaches st)\<rparr>
           in Inr (new, rt_put st' (tr1\<lparr>rt_events := rt_events tr1 @ map (LimitBreached \<circ> br_code) new\<rparr>))))"

subsection \<open>What the risk engine reads\<close>

definition orders_last_min :: "ts \<Rightarrow> tracker \<Rightarrow> int" where
  "orders_last_min now tr =
     (case rt_state tr of None \<Rightarrow> 0 | Some st \<Rightarrow> int (length (recent (ds_order_ts st) now order_rate_window)))"

definition rejects_in_window :: "ts \<Rightarrow> tracker \<Rightarrow> int" where
  "rejects_in_window now tr =
     (case rt_state tr of
        None \<Rightarrow> 0
      | Some st \<Rightarrow> int (length (recent (ds_reject_ts st) now (us_of_seconds (rl_reject_storm_window_s (rt_limits tr))))))"

definition tracker_stats :: "ts \<Rightarrow> (string, rat) dict \<Rightarrow> tracker \<Rightarrow> (string, strategy_stats) dict" where
  "tracker_stats now unrealized tr =
     (case rt_state tr of
        None \<Rightarrow> []
      | Some st \<Rightarrow>
          if ds_ist_date st \<noteq> ist_date now then []
          else map (\<lambda>(n, d). (n, no_stats\<lparr>st_day_pnl := dadd (sd_realized_pnl d) (dget_or 0 unrealized n),
                 st_consecutive_losses := sd_consecutive_losses d,
                 st_orders_last_min := int (length (recent (sd_order_ts d) now order_rate_window))\<rparr>)) (ds_strategies st))"

subsection \<open>Sequences of operations\<close>

text \<open>A step reports the breaches it raised. A restart builds a new tracker from the store; the
  journal of events goes on.\<close>

datatype tracker_op =
    TEvent ts oms_event
  | TTick ts rat "(string, rat) dict"
  | TStart ts rat
  | TAck string
  | TRestart

definition quietly :: "tracker result \<Rightarrow> (breach list \<times> tracker) result" where
  "quietly r = (case r of Inl e \<Rightarrow> Inl e | Inr tr \<Rightarrow> Inr ([], tr))"

fun tracker_step :: "tracker_op \<Rightarrow> tracker \<Rightarrow> (breach list \<times> tracker) result" where
  "tracker_step (TEvent now e) tr = quietly (rt_on_event now e tr)"
| "tracker_step (TTick now eqty u) tr = risk_tick now eqty u tr"
| "tracker_step (TStart now sod) tr = (case start_day now sod tr of Inl e \<Rightarrow> Inl e | Inr (st, tr') \<Rightarrow> Inr ([], tr'))"
| "tracker_step (TAck strategy) tr = Inr ([], snd (acknowledge_streak strategy tr))"
| "tracker_step TRestart tr =
     (case new_tracker (rt_book_id tr) (rt_limits tr) (rt_saved tr) of
        Inl e \<Rightarrow> Inl e
      | Inr tr' \<Rightarrow> Inr ([], tr'\<lparr>rt_events := rt_events tr\<rparr>))"

fun tracker_run :: "tracker_op list \<Rightarrow> tracker \<Rightarrow> (breach list \<times> tracker) result" where
  "tracker_run [] tr = Inr ([], tr)"
| "tracker_run (op # ops) tr =
     (case tracker_step op tr of
        Inl e \<Rightarrow> Inl e
      | Inr (bs, tr1) \<Rightarrow>
          (case tracker_run ops tr1 of Inl e \<Rightarrow> Inl e | Inr (bs', tr') \<Rightarrow> Inr (bs @ bs', tr')))"

subsection \<open>Invariant\<close>

definition state_ok :: "daily_state \<Rightarrow> bool" where
  "state_ok st =
     (ds_low_equity st \<le> ds_sod_equity st \<and> ds_sod_equity st \<le> ds_peak_equity st
      \<and> ds_low_equity st \<le> ds_last_equity st \<and> ds_last_equity st \<le> ds_peak_equity st)"

definition tracker_inv :: "tracker \<Rightarrow> bool" where
  "tracker_inv tr =
     (rt_saved tr = rt_state tr
      \<and> (case rt_state tr of None \<Rightarrow> True | Some st \<Rightarrow> ds_book_id st = rt_book_id tr \<and> state_ok st))"

text \<open>How a state may follow another one on the same or a later day, when the keys \<open>ks\<close> are raised
  in between.\<close>

definition day_le :: "daily_state \<Rightarrow> daily_state \<Rightarrow> bool" where
  "day_le st st' =
     (ds_ist_date st \<le> ds_ist_date st' \<and> ds_peak_equity st \<le> ds_peak_equity st'
      \<and> (ds_ist_date st = ds_ist_date st' \<longrightarrow>
           ds_sod_equity st' = ds_sod_equity st \<and> ds_low_equity st' \<le> ds_low_equity st \<and> ds_entries st \<le> ds_entries st'
           \<and> set (ds_symbols_entered st) \<subseteq> set (ds_symbols_entered st')
           \<and> set (ds_symbols_exited st) \<subseteq> set (ds_symbols_exited st')
           \<and> (\<forall>k \<in> set (ds_breaches st). fst k = Str STR_CONSEC_LOSSES \<or> k \<in> set (ds_breaches st'))))"

definition day_raise :: "breach_key list \<Rightarrow> daily_state \<Rightarrow> daily_state \<Rightarrow> bool" where
  "day_raise ks st st' =
     (ds_ist_date st \<le> ds_ist_date st'
      \<and> (ds_ist_date st = ds_ist_date st' \<longrightarrow>
           distinct ks \<and> set ks \<inter> set (ds_breaches st) = {} \<and> set (ds_breaches st') = set (ds_breaches st) \<union> set ks))"

lemma day_le_refl [simp]: "day_le st st"
  by (simp add: day_le_def)

lemma day_le_trans: "day_le a b \<Longrightarrow> day_le b c \<Longrightarrow> day_le a c"
  unfolding day_le_def by (smt (verit) order_antisym order_trans subset_trans)

lemma day_raise_trans: "day_raise ks a b \<Longrightarrow> day_raise ks' b c \<Longrightarrow> day_raise (ks @ ks') a c"
  unfolding day_raise_def by (smt (verit) Int_Un_distrib Un_assoc distinct_append inf_commute order_antisym order_trans set_append sup_eq_bot_iff Un_empty)

lemma rt_put_simps [simp]:
  "rt_state (rt_put st tr) = Some st" "rt_saved (rt_put st tr) = Some st" "rt_book_id (rt_put st tr) = rt_book_id tr"
  "rt_limits (rt_put st tr) = rt_limits tr" "rt_events (rt_put st tr) = rt_events tr"
  by (simp_all add: rt_put_def rt_save_def)

text \<open>A step good for the whole argument: the invariant is kept, the state moves on.\<close>

definition moves :: "breach_key list \<Rightarrow> tracker \<Rightarrow> tracker \<Rightarrow> bool" where
  "moves ks tr tr' =
     (tracker_inv tr' \<and> rt_book_id tr' = rt_book_id tr \<and> rt_limits tr' = rt_limits tr
      \<and> (\<forall>st. rt_state tr = Some st \<longrightarrow> (\<exists>st'. rt_state tr' = Some st' \<and> day_le st st' \<and> day_raise ks st st')))"

lemma moves_trans: "moves ks a b \<Longrightarrow> moves ks' b c \<Longrightarrow> moves (ks @ ks') a c"
  unfolding moves_def by (metis day_le_trans day_raise_trans)

lemma moves_refl: "tracker_inv tr \<Longrightarrow> moves [] tr tr"
  by (simp add: moves_def day_raise_def)

lemma moves_put:
  assumes "tracker_inv tr" "rt_state tr = Some st" "ds_book_id st' = ds_book_id st" "state_ok st'" "day_le st st'" "day_raise ks st st'"
  shows "moves ks tr (rt_put st' (tr\<lparr>rt_events := evs\<rparr>))"
  using assms by (simp add: moves_def tracker_inv_def)

lemma start_day_moves:
  assumes "tracker_inv tr" "start_day now sod tr = Inr (st, tr')"
  shows "moves [] tr tr' \<and> rt_state tr' = Some st \<and> ds_ist_date st = ist_date now"
proof (cases "rt_state tr")
  case None
  with assms show ?thesis
    by (auto simp: start_day_def rolled_state_def moves_def tracker_inv_def state_ok_def Let_def)
next
  case (Some p)
  show ?thesis
  proof (cases "ds_ist_date p = ist_date now")
    case True
    with Some assms show ?thesis by (auto simp: start_day_def Let_def moves_refl)
  next
    case False
    with Some assms show ?thesis
      by (auto simp: start_day_def rolled_state_def moves_def tracker_inv_def state_ok_def day_le_def day_raise_def Let_def
          split: if_splits)
  qed
qed

lemma current_moves:
  assumes "tracker_inv tr" "current_state now hint tr = Inr (st, tr')"
  shows "moves [] tr tr' \<and> rt_state tr' = Some st \<and> ds_ist_date st = ist_date now"
  using assms start_day_moves
  by (auto simp: current_state_def moves_refl split: option.splits if_splits)

text \<open>An update of the current state that raises nothing and marks nothing.\<close>

definition bookkeeping :: "daily_state \<Rightarrow> daily_state \<Rightarrow> bool" where
  "bookkeeping st st' =
     (ds_book_id st' = ds_book_id st \<and> ds_ist_date st' = ds_ist_date st \<and> ds_sod_equity st' = ds_sod_equity st
      \<and> ds_peak_equity st' = ds_peak_equity st \<and> ds_last_equity st' = ds_last_equity st
      \<and> ds_low_equity st' = ds_low_equity st \<and> ds_entries st \<le> ds_entries st' \<and> ds_breaches st' = ds_breaches st
      \<and> set (ds_symbols_entered st) \<subseteq> set (ds_symbols_entered st')
      \<and> set (ds_symbols_exited st) \<subseteq> set (ds_symbols_exited st'))"

lemma record_moves:
  assumes "tracker_inv tr" "current_state now hint tr = Inr (st, tr1)" "bookkeeping st st'"
  shows "moves [] tr (rt_put st' tr1)"
proof -
  note c = current_moves [OF assms(1,2)]
  have "moves [] tr1 (rt_put st' (tr1\<lparr>rt_events := rt_events tr1\<rparr>))"
    by (rule moves_put) (use c assms(3) in \<open>auto simp: moves_def tracker_inv_def bookkeeping_def state_ok_def day_le_def day_raise_def\<close>)
  then show ?thesis using c moves_trans [of "[]" tr tr1 "[]"] by simp
qed

lemma bookkeepings:
  "bookkeeping st (note_order now i st)" "bookkeeping st (st\<lparr>ds_reject_ts := rs\<rparr>)" "bookkeeping st (note_trade t st)"
  by (auto simp: bookkeeping_def note_order_def note_trade_def Let_def)

lemma on_event_moves: "tracker_inv tr \<Longrightarrow> rt_on_event now e tr = Inr tr' \<Longrightarrow> moves [] tr tr'"
  by (cases e) (auto simp: record_order_def record_reject_def record_trade_def moves_refl
      intro: record_moves bookkeepings split: sum.splits)

lemma fold_insert_set: "set (fold (\<lambda>b. List.insert (f b)) bs ks) = set ks \<union> f ` set bs"
  by (induction bs arbitrary: ks) auto

lemma strategy_keys:
  assumes "distinct names"
  shows "distinct (map br_key (concat (map (strategy_breaches l u st) names)))
    \<and> (\<forall>k \<in> br_key ` set (concat (map (strategy_breaches l u st) names)). snd k \<in> set names \<and> (\<exists>c. fst k = Str c))"
  using assms by (induction names) (auto simp: strategy_breaches_def strategy_breach_def br_key_def split: if_splits)

lemma found_keys_distinct: "distinct (map br_key (found_breaches l now u st))"
proof -
  define bs where "bs = concat (map (strategy_breaches l u st) (sort (remdups (map fst (ds_strategies st) @ map fst u))))"
  have k: "distinct (map br_key bs) \<and> (\<forall>k \<in> br_key ` set bs. \<exists>c. fst k = Str c)"
    unfolding bs_def using strategy_keys [OF distinct_sort [THEN iffD2, OF distinct_remdups]] by blast
  have "\<exists>x. c = Str x" if "(c, n) \<in> br_key ` set bs" for c n using k that by (metis fst_conv)
  with k show ?thesis
    unfolding found_breaches_def bs_def [symmetric] by (auto simp: global_breach_def br_key_def image_iff)
qed

lemma tick_moves:
  assumes "tracker_inv tr" "risk_tick now eqty u tr = Inr (new, tr')"
  shows "moves (map br_key new) tr tr'"
proof -
  obtain st0 tr1 where c: "current_state now (Some eqty) tr = Inr (st0, tr1)"
    using assms(2) by (auto simp: risk_tick_def split: sum.splits)
  note m = current_moves [OF assms(1) c]
  define st where "st = mark_equity now eqty st0"
  have new: "new = filter (\<lambda>b. br_key b \<notin> set (ds_breaches st)) (found_breaches (rt_limits tr) now u st)"
    and tr': "tr' = rt_put (st\<lparr>ds_breaches := fold (\<lambda>b. List.insert (br_key b)) new (ds_breaches st)\<rparr>)
      (tr1\<lparr>rt_events := rt_events tr1 @ map (LimitBreached \<circ> br_code) new\<rparr>)"
    using assms(2) unfolding risk_tick_def c Let_def st_def by auto
  have d: "distinct (map br_key new)" unfolding new by (simp add: distinct_map_filter found_keys_distinct)
  have "moves (map br_key new) tr1 tr'" unfolding tr'
    by (rule moves_put)
      (use m d in \<open>auto simp: moves_def tracker_inv_def st_def mark_equity_def state_ok_def day_le_def day_raise_def fold_insert_set new\<close>)
  with m moves_trans [of "[]" tr tr1] show ?thesis by simp
qed

lemma restart_moves: "tracker_inv tr \<Longrightarrow> tracker_step TRestart tr = Inr (bs, tr') \<Longrightarrow> bs = [] \<and> moves [] tr tr' \<and> rt_state tr' = rt_state tr"
  by (auto simp: new_tracker_def moves_def tracker_inv_def day_raise_def split: if_splits option.splits)

text \<open>An acknowledged streak is the one thing that takes a breach back.\<close>

lemma acknowledge_le:
  assumes "tracker_inv tr"
  shows "tracker_inv (snd (acknowledge_streak n tr)) \<and> rt_book_id (snd (acknowledge_streak n tr)) = rt_book_id tr
    \<and> (\<forall>st. rt_state tr = Some st \<longrightarrow> (\<exists>st'. rt_state (snd (acknowledge_streak n tr)) = Some st' \<and> day_le st st'))"
  using assms by (auto simp: acknowledge_streak_def tracker_inv_def state_ok_def day_le_def split: option.splits)

definition is_ack :: "tracker_op \<Rightarrow> bool" where
  "is_ack op = (case op of TAck n \<Rightarrow> True | _ \<Rightarrow> False)"

lemma step_moves:
  assumes "tracker_inv tr" "tracker_step op tr = Inr (bs, tr')" "\<not> is_ack op"
  shows "moves (map br_key bs) tr tr'"
proof (cases op)
  case TRestart
  with assms show ?thesis using restart_moves [of tr bs tr'] by simp
qed (use assms in \<open>auto simp: quietly_def is_ack_def split: sum.splits intro: on_event_moves tick_moves
      dest: start_day_moves\<close>)

lemma step_le:
  assumes "tracker_inv tr" "tracker_step op tr = Inr (bs, tr')"
  shows "tracker_inv tr' \<and> (\<forall>st. rt_state tr = Some st \<longrightarrow> (\<exists>st'. rt_state tr' = Some st' \<and> day_le st st'))"
proof (cases "is_ack op")
  case True
  with assms acknowledge_le [OF assms(1)] show ?thesis by (auto simp: is_ack_def split: tracker_op.splits)
next
  case False
  with step_moves [OF assms] show ?thesis by (auto simp: moves_def)
qed

text \<open>C14: The risk day never forgets. Over any sequence of order events, ticks, day starts, streak
  acknowledgements and restarts, what is stored is always the current state, the date and the
  running peak never go back, and within one IST day the start-of-day equity is fixed, entries and
  traded symbols only accumulate, the day's low only falls, and every breach stays recorded; only
  an acknowledged losing streak is ever taken back.\<close>

theorem risk_day_never_forgets:
  assumes "tracker_inv tr" "tracker_run ops tr = Inr (raised, tr')" "rt_state tr = Some st"
  shows "tracker_inv tr' \<and> rt_saved tr' = rt_state tr' \<and> (\<exists>st'. rt_state tr' = Some st' \<and> day_le st st')"
  using assms
proof (induction ops arbitrary: tr raised st)
  case (Cons op ops)
  then obtain bs tr1 bs' where s: "tracker_step op tr = Inr (bs, tr1)" "tracker_run ops tr1 = Inr (bs', tr')"
    by (auto split: sum.splits)
  from step_le [OF Cons.prems(1) s(1)] Cons.prems(3) obtain st1 where
    "tracker_inv tr1" "rt_state tr1 = Some st1" "day_le st st1" by blast
  with Cons.IH [OF _ s(2)] show ?case by (meson day_le_trans)
qed (auto simp: tracker_inv_def)

lemma run_moves:
  "tracker_inv tr \<Longrightarrow> tracker_run ops tr = Inr (raised, tr') \<Longrightarrow> list_all (\<lambda>op. \<not> is_ack op) ops \<Longrightarrow> moves (map br_key raised) tr tr'"
proof (induction ops arbitrary: tr raised)
  case (Cons op ops)
  then obtain bs tr1 bs' where s: "tracker_step op tr = Inr (bs, tr1)" "tracker_run ops tr1 = Inr (bs', tr')" "raised = bs @ bs'"
    by (auto split: sum.splits)
  with step_moves [OF Cons.prems(1) s(1)] Cons.prems(3) have m: "moves (map br_key bs) tr tr1" by simp
  then have "tracker_inv tr1" by (simp add: moves_def)
  from Cons.IH [OF this s(2)] Cons.prems(3) have "moves (map br_key bs') tr1 tr'" by simp
  with m s(3) show ?case by (simp add: moves_trans)
qed (simp add: moves_refl)

text \<open>Each breach is raised once a day, across restarts. In any sequence of operations on one IST
  day, without acknowledgements, the breaches reported are pairwise different and none had been
  raised before, and afterwards exactly they and the earlier ones are recorded.\<close>

theorem breaches_raised_once:
  assumes "tracker_inv tr" "tracker_run ops tr = Inr (raised, tr')" "list_all (\<lambda>op. \<not> is_ack op) ops"
    and "rt_state tr = Some st" "rt_state tr' = Some st'" "ds_ist_date st' = ds_ist_date st"
  shows "distinct (map br_key raised) \<and> br_key ` set raised \<inter> set (ds_breaches st) = {}
    \<and> set (ds_breaches st') = set (ds_breaches st) \<union> br_key ` set raised"
  using run_moves [OF assms(1-3)] assms(4-6) by (auto simp: moves_def day_raise_def)

subsection \<open>A sample day\<close>

definition sample_tracker :: tracker where
  "sample_tracker =
     \<lparr>rt_book_id = ''A'', rt_limits = default_limits\<lparr>rl_daily_loss_limit_pct := 1 / 128, rl_max_drawdown_pct := 1 / 16,
        rl_strategy_daily_loss_pct := 1 / 256, rl_reject_storm_window_s := 600\<rparr>,
      rt_state = Some (rolled_state ''A'' 20000 100000 None), rt_saved = Some (rolled_state ''A'' 20000 100000 None), rt_events = []\<rparr>"

abbreviation sample_noon :: ts where
  "sample_noon \<equiv> 20000 * us_per_day + 3600 * 10 ^ 6"

definition loss_ops :: "tracker_op list" where
  "loss_ops = [TTick sample_noon 98000 [], TRestart, TTick (sample_noon + 1) 97500 []]"

lemma sample_tracker_inv: "tracker_inv sample_tracker" "rt_state sample_tracker = Some (rolled_state ''A'' 20000 100000 None)"
  by (simp_all add: sample_tracker_def tracker_inv_def state_ok_def rolled_state_def)

lemma sample_loss:
  "case tracker_run loss_ops sample_tracker of
     Inl e \<Rightarrow> False
   | Inr (raised, tr') \<Rightarrow> map br_key raised = [(Pf PF_DAILY_LOSS_MTM, ''global'')]
       \<and> (case rt_state tr' of None \<Rightarrow> False | Some st' \<Rightarrow> ds_ist_date st' = 20000 \<and> ds_low_equity st' = 97500)"
  by code_simp

lemma sample_loss_run:
  obtains raised tr' st' where "tracker_run loss_ops sample_tracker = Inr (raised, tr')" "rt_state tr' = Some st'"
    "map br_key raised = [(Pf PF_DAILY_LOSS_MTM, ''global'')]" "ds_ist_date st' = 20000" "ds_low_equity st' = 97500"
  using sample_loss by (auto split: sum.splits option.splits)

theorem risk_day_never_forgets_witness:
  "\<exists>raised tr' st'. tracker_run loss_ops sample_tracker = Inr (raised, tr') \<and> rt_saved tr' = Some st'
     \<and> ds_sod_equity st' = 100000 \<and> ds_low_equity st' = 97500 \<and> 100000 \<le> ds_peak_equity st'"
proof -
  obtain raised tr' st' where r: "tracker_run loss_ops sample_tracker = Inr (raised, tr')" "rt_state tr' = Some st'"
    "ds_ist_date st' = 20000" "ds_low_equity st' = 97500" by (rule sample_loss_run)
  from risk_day_never_forgets [OF sample_tracker_inv(1) r(1) sample_tracker_inv(2)] r
  show ?thesis by (auto simp: day_le_def rolled_state_def)
qed

theorem breaches_raised_once_witness:
  "\<exists>raised tr' st'. tracker_run loss_ops sample_tracker = Inr (raised, tr') \<and> rt_state tr' = Some st'
     \<and> set (ds_breaches st') = {(Pf PF_DAILY_LOSS_MTM, ''global'')}"
proof -
  obtain raised tr' st' where r: "tracker_run loss_ops sample_tracker = Inr (raised, tr')" "rt_state tr' = Some st'"
    "map br_key raised = [(Pf PF_DAILY_LOSS_MTM, ''global'')]" "ds_ist_date st' = 20000" by (rule sample_loss_run)
  have "list_all (\<lambda>op. \<not> is_ack op) loss_ops" by (simp add: loss_ops_def is_ack_def)
  from breaches_raised_once [OF sample_tracker_inv(1) r(1) this sample_tracker_inv(2) r(2)] r
  have "set (ds_breaches st') = br_key ` set raised" by (simp add: rolled_state_def)
  also have "\<dots> = set (map br_key raised)" by simp
  finally show ?thesis using r by (auto simp del: set_map)
qed

end
