(* ===== verification/Kill_Switch.thy ===== *)
theory Kill_Switch
  imports Risk_State
begin

section \<open>Kill switches\<close>

text \<open>
  \<^verbatim>\<open>src/risk/kill_switch.py\<close>, the class \<^verbatim>\<open>KillSwitchRegistry\<close>: one global, one broker
  and one switch per strategy, ordered ARMED, HALT_NEW, FLATTEN. The registry is the record
  \<open>registry\<close> with the copy in the state store and the events it emits. The clock is the argument
  \<open>now\<close>; the HALT file, when it is there, is its text (empty when it cannot be read, ASCII
  otherwise). The free texts of a record are left out; what tripped it is a \<open>switch_code\<close>.
\<close>

subsection \<open>State\<close>

fun kill_rank :: "kill_switch_state \<Rightarrow> nat" where
  "kill_rank ARMED = 0"
| "kill_rank HALT_NEW = 1"
| "kill_rank FLATTEN = 2"

datatype switch_code = ByReason reason_code | ByHaltFile | ByOther string

record switch_record =
  sw_state :: kill_switch_state
  sw_actor :: string
  sw_ts :: "ts option"
  sw_code :: "switch_code option"
  sw_ist_date :: "date option"

definition new_switch :: switch_record where
  "new_switch = \<lparr>sw_state = ARMED, sw_actor = '''', sw_ts = None, sw_code = None, sw_ist_date = None\<rparr>"

record switches =
  kw_global :: switch_record
  kw_broker :: switch_record
  kw_strategies :: "(string, switch_record) dict"

definition new_switches :: switches where
  "new_switches = \<lparr>kw_global = new_switch, kw_broker = new_switch, kw_strategies = []\<rparr>"

datatype kill_event =
    KillSwitchChanged kill_scope string kill_switch_state kill_switch_state
  | KillAlert bool kill_scope string

record registry =
  kr_limits :: risk_limits
  kr_switches :: switches
  kr_saved :: "switches option"
  kr_events :: "kill_event list"

definition new_registry :: "risk_limits \<Rightarrow> switches option \<Rightarrow> registry" where
  "new_registry l saved =
     \<lparr>kr_limits = l, kr_switches = (case saved of None \<Rightarrow> new_switches | Some w \<Rightarrow> w), kr_saved = saved, kr_events = []\<rparr>"

subsection \<open>Reading\<close>

definition global_name :: string where
  "global_name = ''global''"

definition switch_of :: "registry \<Rightarrow> kill_scope \<Rightarrow> string \<Rightarrow> switch_record" where
  "switch_of kr scope name =
     (case scope of
        GlobalScope \<Rightarrow> kw_global (kr_switches kr)
      | BrokerScope \<Rightarrow> kw_broker (kr_switches kr)
      | StrategyScope \<Rightarrow> dget_or new_switch (kw_strategies (kr_switches kr)) name)"

definition switch_state :: "registry \<Rightarrow> kill_scope \<Rightarrow> string \<Rightarrow> kill_switch_state" where
  "switch_state kr scope name = sw_state (switch_of kr scope name)"

definition kill_state_of :: "registry \<Rightarrow> kill_state" where
  "kill_state_of kr =
     \<lparr>ks_global = sw_state (kw_global (kr_switches kr)), ks_broker = sw_state (kw_broker (kr_switches kr)),
      ks_strategies = map (\<lambda>(n, r). (n, sw_state r)) (kw_strategies (kr_switches kr))\<rparr>"

definition flattening :: "registry \<Rightarrow> string option list" where
  "flattening kr =
     (if sw_state (kw_global (kr_switches kr)) = FLATTEN then [None]
      else map Some (sort (map fst (filter (\<lambda>(n, r). sw_state r = FLATTEN) (kw_strategies (kr_switches kr))))))"

subsection \<open>Changing\<close>

definition put_switch :: "kill_scope \<Rightarrow> string \<Rightarrow> switch_record \<Rightarrow> switches \<Rightarrow> switches" where
  "put_switch scope name r w =
     (case scope of
        GlobalScope \<Rightarrow> w\<lparr>kw_global := r\<rparr>
      | BrokerScope \<Rightarrow> w\<lparr>kw_broker := r\<rparr>
      | StrategyScope \<Rightarrow> w\<lparr>kw_strategies := dset name r (kw_strategies w)\<rparr>)"

definition set_switch ::
  "ts \<Rightarrow> kill_scope \<Rightarrow> string \<Rightarrow> switch_record \<Rightarrow> kill_switch_state \<Rightarrow> string \<Rightarrow> switch_code option \<Rightarrow> registry \<Rightarrow> registry" where
  "set_switch now scope name current target actor code kr =
     (let r = \<lparr>sw_state = target, sw_actor = actor, sw_ts = Some now, sw_code = code, sw_ist_date = Some (ist_date now)\<rparr>;
          w = put_switch scope name r (kr_switches kr)
      in kr\<lparr>kr_switches := w, kr_saved := Some w,
            kr_events := kr_events kr @ [KillSwitchChanged scope name (sw_state current) target]\<rparr>)"

definition trip ::
  "ts \<Rightarrow> kill_scope \<Rightarrow> kill_switch_state \<Rightarrow> string \<Rightarrow> string \<Rightarrow> switch_code option \<Rightarrow> registry \<Rightarrow> (bool \<times> registry) result" where
  "trip now scope target actor name code kr =
     (if target = ARMED then Inl ValueError
      else let current = switch_of kr scope name
           in if kill_rank target \<le> kill_rank (sw_state current) then Inr (False, kr)
              else let kr1 = set_switch now scope name current target actor code kr
                   in Inr (True, kr1\<lparr>kr_events := kr_events kr1 @
                        [KillAlert (target = FLATTEN \<or> scope = BrokerScope) scope name]\<rparr>))"

text \<open>\<open>file_there\<close>: a HALT file is configured and exists. The callback of the source is run by
  the caller, on the result True.\<close>

definition resume :: "ts \<Rightarrow> bool \<Rightarrow> kill_scope \<Rightarrow> string \<Rightarrow> string \<Rightarrow> registry \<Rightarrow> (bool \<times> registry) result" where
  "resume now file_there scope actor name kr =
     (let current = switch_of kr scope name
      in if sw_state current = ARMED then Inr (False, kr)
         else if scope = GlobalScope \<and> file_there then Inl RuntimeError
         else Inr (True, set_switch now scope name current ARMED actor None kr))"

definition breach_target :: "breach \<Rightarrow> kill_switch_state" where
  "breach_target b = (if br_action b = ActFlatten then FLATTEN else HALT_NEW)"

fun apply_breaches :: "ts \<Rightarrow> breach list \<Rightarrow> registry \<Rightarrow> (breach list \<times> registry) result" where
  "apply_breaches now [] kr = Inr ([], kr)"
| "apply_breaches now (b # bs) kr =
     (case trip now (br_scope b) (breach_target b) ''monitor'' (br_name b) (Some (ByReason (br_code b))) kr of
        Inl e \<Rightarrow> Inl e
      | Inr (changed, kr1) \<Rightarrow>
          (case apply_breaches now bs kr1 of
             Inl e \<Rightarrow> Inl e
           | Inr (cs, kr') \<Rightarrow> Inr (if changed then b # cs else cs, kr')))"

definition upper_char :: "char \<Rightarrow> char" where
  "upper_char c = (if 97 \<le> (of_char c :: nat) \<and> (of_char c :: nat) \<le> 122 then char_of (of_char c - 32 :: nat) else c)"

definition is_space :: "char \<Rightarrow> bool" where
  "is_space c = (let n = (of_char c :: nat) in n = 32 \<or> 9 \<le> n \<and> n \<le> 13 \<or> 28 \<le> n \<and> n \<le> 31 \<or> n = 133 \<or> n = 160)"

definition says_flatten :: "string \<Rightarrow> bool" where
  "says_flatten text = (take 7 (map upper_char (dropWhile is_space text)) = ''FLATTEN'')"

definition check_halt_file :: "ts \<Rightarrow> string option \<Rightarrow> registry \<Rightarrow> (bool \<times> registry) result" where
  "check_halt_file now file kr =
     (case file of
        None \<Rightarrow> Inr (False, kr)
      | Some text \<Rightarrow>
          trip now GlobalScope (if says_flatten text then FLATTEN else HALT_NEW) ''halt_file'' global_name (Some ByHaltFile) kr)"

definition daily_codes :: "switch_code list" where
  "daily_codes = [ByReason (Pf PF_DAILY_LOSS_MTM), ByReason (Str STR_DAILY_LOSS)]"

definition rearms :: "date \<Rightarrow> switch_record \<Rightarrow> bool" where
  "rearms today r =
     (sw_state r \<noteq> ARMED \<and> (case sw_code r of None \<Rightarrow> False | Some c \<Rightarrow> c \<in> set daily_codes)
      \<and> (case sw_ist_date r of None \<Rightarrow> False | Some d \<Rightarrow> d < today))"

fun rearm_all :: "ts \<Rightarrow> (kill_scope \<times> string) list \<Rightarrow> registry \<Rightarrow> string list \<times> registry" where
  "rearm_all now [] kr = ([], kr)"
| "rearm_all now ((scope, name) # cs) kr =
     (let r = switch_of kr scope name
      in if rearms (ist_date now) r
         then let (ns, kr') = rearm_all now cs (set_switch now scope name r ARMED ''rearm'' None kr) in (name # ns, kr')
         else rearm_all now cs kr)"

definition new_day :: "ts \<Rightarrow> registry \<Rightarrow> string list \<times> registry" where
  "new_day now kr =
     (if \<not> rl_rearm_on_new_day (kr_limits kr) then ([], kr)
      else rearm_all now ((GlobalScope, global_name) # map (Pair StrategyScope \<circ> fst) (kw_strategies (kr_switches kr))) kr)"

subsection \<open>Sequences of operations\<close>

datatype kill_op =
    KTrip ts kill_scope kill_switch_state string string "switch_code option"
  | KResume ts bool kill_scope string string
  | KApply ts "breach list"
  | KHaltFile ts "string option"
  | KNewDay ts
  | KRestart

fun kill_step :: "kill_op \<Rightarrow> registry \<Rightarrow> registry result" where
  "kill_step (KTrip now scope target actor name code) kr = map_sum id snd (trip now scope target actor name code kr)"
| "kill_step (KResume now there scope actor name) kr = map_sum id snd (resume now there scope actor name kr)"
| "kill_step (KApply now bs) kr = map_sum id snd (apply_breaches now bs kr)"
| "kill_step (KHaltFile now file) kr = map_sum id snd (check_halt_file now file kr)"
| "kill_step (KNewDay now) kr = Inr (snd (new_day now kr))"
| "kill_step KRestart kr = Inr ((new_registry (kr_limits kr) (kr_saved kr))\<lparr>kr_events := kr_events kr\<rparr>)"

fun kill_run :: "kill_op list \<Rightarrow> registry \<Rightarrow> registry result" where
  "kill_run [] kr = Inr kr"
| "kill_run (op # ops) kr = (case kill_step op kr of Inl e \<Rightarrow> Inl e | Inr kr1 \<Rightarrow> kill_run ops kr1)"

lemma map_snd_Inr: "map_sum id snd x = Inr y \<longleftrightarrow> (\<exists>c. x = Inr (c, y))"
  by (cases x) auto

subsection \<open>Latching\<close>

definition same_switch :: "kill_scope \<Rightarrow> string \<Rightarrow> kill_scope \<Rightarrow> string \<Rightarrow> bool" where
  "same_switch s n s' n' = (s = s' \<and> (s = StrategyScope \<longrightarrow> n = n'))"

lemma switch_of_set:
  "switch_of (set_switch now scope name cur target actor code kr) s n =
     (if same_switch scope name s n
      then \<lparr>sw_state = target, sw_actor = actor, sw_ts = Some now, sw_code = code, sw_ist_date = Some (ist_date now)\<rparr>
      else switch_of kr s n)"
  by (cases scope; cases s) (auto simp: switch_of_def set_switch_def put_switch_def same_switch_def dget_or_def dget_dset Let_def)

lemma switch_of_events [simp]: "switch_of (kr\<lparr>kr_events := evs\<rparr>) s n = switch_of kr s n"
  by (cases s) (simp_all add: switch_of_def)

lemma same_switch_eq: "same_switch s n s' n' \<Longrightarrow> switch_of kr s n = switch_of kr s' n'"
  by (cases s) (auto simp: same_switch_def switch_of_def)

text \<open>The store always holds the switches, and a store without an entry means untouched ones.\<close>

definition kill_inv :: "registry \<Rightarrow> bool" where
  "kill_inv kr = (kr_switches kr = (case kr_saved kr of None \<Rightarrow> new_switches | Some w \<Rightarrow> w))"

lemma kill_inv_set [simp]: "kill_inv (set_switch now scope name cur target actor code kr)"
  by (simp add: kill_inv_def set_switch_def Let_def)

lemma kill_inv_events [simp]: "kill_inv (kr\<lparr>kr_events := evs\<rparr>) = kill_inv kr"
  by (simp add: kill_inv_def)

definition latched :: "registry \<Rightarrow> registry \<Rightarrow> bool" where
  "latched kr kr' =
     ((kill_inv kr \<longrightarrow> kill_inv kr') \<and> kr_limits kr' = kr_limits kr
      \<and> (\<forall>s n. kill_rank (switch_state kr s n) \<le> kill_rank (switch_state kr' s n)))"

lemma latched_refl [simp]: "latched kr kr"
  by (simp add: latched_def)

lemma latched_trans: "latched a b \<Longrightarrow> latched b c \<Longrightarrow> latched a c"
  unfolding latched_def by (metis order_trans)

lemma set_switch_limits [simp]: "kr_limits (set_switch now scope name cur target actor code kr) = kr_limits kr"
  by (simp add: set_switch_def Let_def)

lemma trip_latched:
  assumes "trip now scope target actor name code kr = Inr (changed, kr')"
  shows "latched kr kr' \<and> kill_rank target \<le> kill_rank (switch_state kr' scope name)"
proof (cases "kill_rank target \<le> kill_rank (sw_state (switch_of kr scope name))")
  case True
  with assms show ?thesis by (auto simp: trip_def switch_state_def Let_def split: if_splits)
next
  case False
  then have "kr' = (set_switch now scope name (switch_of kr scope name) target actor code kr)
      \<lparr>kr_events := kr_events kr' \<rparr>"
    using assms by (auto simp: trip_def Let_def split: if_splits)
  then obtain evs where kr': "kr' = (set_switch now scope name (switch_of kr scope name) target actor code kr)\<lparr>kr_events := evs\<rparr>"
    by blast
  have "kill_rank (sw_state (switch_of kr s n)) \<le> kill_rank target" if "same_switch scope name s n" for s n
    using False same_switch_eq [OF that, of kr] by simp
  then show ?thesis unfolding kr' by (auto simp: latched_def switch_state_def switch_of_set same_switch_def)
qed

lemma trip_total: "target \<noteq> ARMED \<Longrightarrow> \<exists>c kr'. trip now scope target actor name code kr = Inr (c, kr')"
  by (auto simp: trip_def Let_def)

lemma breach_target_tripped [simp]: "breach_target b \<noteq> ARMED"
  by (simp add: breach_target_def)

lemma apply_breaches_latched:
  "\<exists>cs kr'. apply_breaches now bs kr = Inr (cs, kr') \<and> latched kr kr'
     \<and> (\<forall>b \<in> set bs. kill_rank (breach_target b) \<le> kill_rank (switch_state kr' (br_scope b) (br_name b)))"
proof (induction bs arbitrary: kr)
  case (Cons b bs)
  obtain c kr1 where t: "trip now (br_scope b) (breach_target b) ''monitor'' (br_name b) (Some (ByReason (br_code b))) kr = Inr (c, kr1)"
    using trip_total [OF breach_target_tripped] by blast
  note t1 = trip_latched [OF t]
  obtain cs kr' where r: "apply_breaches now bs kr1 = Inr (cs, kr')" "latched kr1 kr'"
    "\<forall>b \<in> set bs. kill_rank (breach_target b) \<le> kill_rank (switch_state kr' (br_scope b) (br_name b))"
    using Cons.IH by blast
  with t1 latched_trans [of kr kr1 kr'] show ?case by (auto simp: t latched_def intro: order_trans)
qed simp

lemma halt_file_latched: "check_halt_file now file kr = Inr (c, kr') \<Longrightarrow> latched kr kr'"
  by (auto simp: check_halt_file_def split: option.splits dest: trip_latched)

lemma armed_not_rearmed [simp]: "\<not> rearms d \<lparr>sw_state = ARMED, sw_actor = a, sw_ts = t, sw_code = c, sw_ist_date = i\<rparr>"
  by (simp add: rearms_def)

text \<open>The new day touches the switches that re-arm, and no other.\<close>

lemma rearm_all_exact:
  "switch_of (snd (rearm_all now cs kr)) s n =
     (if rearms (ist_date now) (switch_of kr s n) \<and> (\<exists>(s', n') \<in> set cs. same_switch s' n' s n)
      then \<lparr>sw_state = ARMED, sw_actor = ''rearm'', sw_ts = Some now, sw_code = None, sw_ist_date = Some (ist_date now)\<rparr>
      else switch_of kr s n)
   \<and> (kill_inv kr \<longrightarrow> kill_inv (snd (rearm_all now cs kr))) \<and> kr_limits (snd (rearm_all now cs kr)) = kr_limits kr"
proof (induction cs arbitrary: kr)
  case (Cons c cs)
  obtain s' n' where c: "c = (s', n')" by (cases c)
  let ?kr1 = "set_switch now s' n' (switch_of kr s' n') ARMED ''rearm'' None kr"
  have step: "snd (rearm_all now (c # cs) kr) =
      (if rearms (ist_date now) (switch_of kr s' n') then snd (rearm_all now cs ?kr1) else snd (rearm_all now cs kr))"
    by (simp add: c Let_def case_prod_beta)
  show ?case
    using Cons.IH [of kr] Cons.IH [of ?kr1] same_switch_eq [of s' n' s n kr]
    unfolding step by (auto simp: c switch_of_set)
qed simp

lemma new_day_exact:
  "switch_state (snd (new_day now kr)) s n =
     (if rl_rearm_on_new_day (kr_limits kr) \<and> s \<noteq> BrokerScope \<and> rearms (ist_date now) (switch_of kr s n)
      then ARMED else switch_state kr s n)"
proof -
  have "\<exists>(s', n') \<in> set ((GlobalScope, global_name) # map (Pair StrategyScope \<circ> fst) (kw_strategies (kr_switches kr))).
      same_switch s' n' s n" if "rearms (ist_date now) (switch_of kr s n)" "s \<noteq> BrokerScope"
  proof (cases s)
    case StrategyScope
    with that have "dget (kw_strategies (kr_switches kr)) n \<noteq> None"
      by (auto simp: switch_of_def dget_or_def new_switch_def rearms_def split: option.splits)
    then show ?thesis using StrategyScope by (force simp: same_switch_def dest: map_of_SomeD)
  qed (use that in \<open>auto simp: same_switch_def\<close>)
  moreover have "\<not> (\<exists>(s', n') \<in> set ((GlobalScope, global_name) # map (Pair StrategyScope \<circ> fst) (kw_strategies (kr_switches kr))).
      same_switch s' n' BrokerScope n)" by (auto simp: same_switch_def)
  ultimately show ?thesis
    unfolding new_day_def switch_state_def
    using rearm_all_exact [of now "(GlobalScope, global_name) # map (Pair StrategyScope \<circ> fst) (kw_strategies (kr_switches kr))" kr s n]
    by (auto simp del: rearm_all.simps)
qed

definition resumes :: "kill_scope \<Rightarrow> string \<Rightarrow> kill_op \<Rightarrow> bool" where
  "resumes s n op = (case op of KResume now there scope actor name \<Rightarrow> same_switch scope name s n | _ \<Rightarrow> False)"

lemma kill_step_keeps:
  assumes "kill_inv kr" "kill_step op kr = Inr kr'"
  shows "kill_inv kr' \<and> kr_limits kr' = kr_limits kr
    \<and> (\<not> resumes s n op \<and> (\<not> rl_rearm_on_new_day (kr_limits kr) \<or> s = BrokerScope)
        \<longrightarrow> kill_rank (switch_state kr s n) \<le> kill_rank (switch_state kr' s n))"
proof (cases op)
  case (KTrip now scope target actor name code)
  then obtain c where "trip now scope target actor name code kr = Inr (c, kr')"
    using assms(2) by (auto simp: map_snd_Inr)
  from trip_latched [OF this] assms(1) show ?thesis by (auto simp: latched_def)
next
  case (KResume now there scope actor name)
  with assms show ?thesis
    by (auto simp: map_snd_Inr resume_def resumes_def switch_state_def switch_of_set Let_def split: if_splits)
next
  case (KApply now bs)
  then obtain cs where "apply_breaches now bs kr = Inr (cs, kr')"
    using assms(2) by (auto simp: map_snd_Inr)
  with apply_breaches_latched [of now bs kr] assms(1) show ?thesis by (auto simp: latched_def)
next
  case (KHaltFile now halt)
  then obtain c where "check_halt_file now halt kr = Inr (c, kr')"
    using assms(2) by (auto simp: map_snd_Inr)
  from halt_file_latched [OF this] assms(1) show ?thesis by (auto simp: latched_def)
next
  case (KNewDay now)
  then have kr': "kr' = snd (new_day now kr)" using assms(2) by simp
  then have "kill_inv kr' \<and> kr_limits kr' = kr_limits kr"
    using assms(1) rearm_all_exact by (simp add: new_day_def del: rearm_all.simps)
  with kr' show ?thesis by (auto simp: new_day_exact)
next
  case KRestart
  with assms show ?thesis
    by (cases s) (auto simp: new_registry_def kill_inv_def switch_state_def switch_of_def split: option.splits)
qed

lemma kill_run_keeps:
  assumes "kill_inv kr" "kill_run ops kr = Inr kr'"
  shows "kill_inv kr' \<and> (list_all (\<lambda>op. \<not> resumes s n op) ops \<and> (\<not> rl_rearm_on_new_day (kr_limits kr) \<or> s = BrokerScope)
      \<longrightarrow> kill_rank (switch_state kr s n) \<le> kill_rank (switch_state kr' s n))"
  using assms
proof (induction ops arbitrary: kr)
  case (Cons op ops)
  then obtain kr1 where s: "kill_step op kr = Inr kr1" "kill_run ops kr1 = Inr kr'" by (auto split: sum.splits)
  note k = kill_step_keeps [OF Cons.prems(1) s(1), of s n]
  from Cons.IH [OF _ s(2)] k show ?case by auto
qed simp

lemma kill_run_limits: "kill_inv kr \<Longrightarrow> kill_run ops kr = Inr kr' \<Longrightarrow> kr_limits kr' = kr_limits kr"
proof (induction ops arbitrary: kr)
  case (Cons op ops)
  then obtain kr1 where s: "kill_step op kr = Inr kr1" "kill_run ops kr1 = Inr kr'" by (auto split: sum.splits)
  with Cons.IH [OF _ s(2)] kill_step_keeps [OF Cons.prems(1) s(1)] show ?case by auto
qed simp

text \<open>C13: A tripped switch stays tripped. Over any sequence of trips, breaches, HALT-file checks, new
  days and restarts, a switch never goes down unless that very switch is resumed, or re-arming on
  a new day is configured and it is not the broker switch; and the store always holds the switches
  in force, so a restart comes up with them.\<close>

theorem kill_switch_latches:
  assumes "kill_inv kr" "kill_run ops kr = Inr kr'" "list_all (\<lambda>op. \<not> resumes s n op) ops"
    and "\<not> rl_rearm_on_new_day (kr_limits kr) \<or> s = BrokerScope"
  shows "kill_rank (switch_state kr s n) \<le> kill_rank (switch_state kr' s n)
    \<and> kr_switches (new_registry (kr_limits kr') (kr_saved kr')) = kr_switches kr'"
  using kill_run_keeps [OF assms(1,2), of s n] assms(3,4) by (simp add: new_registry_def kill_inv_def)

definition sample_registry :: registry where
  "sample_registry = new_registry default_limits None"

definition sample_kill_ops :: "kill_op list" where
  "sample_kill_ops =
     [KHaltFile 0 (Some '' flatten now''), KTrip 1 GlobalScope HALT_NEW ''op'' global_name None, KRestart, KNewDay (2 * us_per_day)]"

lemma sample_kill_run:
  "\<exists>kr'. kill_run sample_kill_ops sample_registry = Inr kr' \<and> switch_state kr' GlobalScope global_name = FLATTEN"
proof -
  have "case kill_run sample_kill_ops sample_registry of Inl e \<Rightarrow> False | Inr kr' \<Rightarrow> switch_state kr' GlobalScope global_name = FLATTEN"
    by code_simp
  then show ?thesis by (auto split: sum.splits)
qed

theorem kill_switch_latches_witness:
  "\<exists>kr'. kill_run (sample_kill_ops @ [KTrip 3 StrategyScope HALT_NEW ''op'' ''momentum'' None]) sample_registry = Inr kr'
     \<and> kr_switches (new_registry (kr_limits kr') (kr_saved kr')) = kr_switches kr'"
proof -
  let ?ops = "sample_kill_ops @ [KTrip 3 StrategyScope HALT_NEW ''op'' ''momentum'' None]"
  have "case kill_run ?ops sample_registry of Inl e \<Rightarrow> False | Inr kr' \<Rightarrow> True" by code_simp
  then obtain kr' where r: "kill_run ?ops sample_registry = Inr kr'" by (auto split: sum.splits)
  have "kill_inv sample_registry" "list_all (\<lambda>op. \<not> resumes BrokerScope global_name op) ?ops"
    by (simp_all add: sample_registry_def new_registry_def kill_inv_def sample_kill_ops_def resumes_def)
  from kill_switch_latches [OF this(1) r this(2)] r show ?thesis by blast
qed

text \<open>An operator's halt that a daily-loss breach escalates carries the code of the breach from then
  on, and the new day re-arms it, although the operator never resumed.\<close>

theorem escalated_operator_halt_rearms:
  "\<exists>kr kr'. kill_run [KTrip 0 GlobalScope HALT_NEW ''operator'' global_name None,
        KApply 1 [global_breach ActFlatten (Pf PF_DAILY_LOSS_MTM)]] (new_registry (default_limits\<lparr>rl_rearm_on_new_day := True\<rparr>) None) = Inr kr
     \<and> switch_state kr GlobalScope global_name = FLATTEN
     \<and> kill_run [KNewDay us_per_day] kr = Inr kr' \<and> switch_state kr' GlobalScope global_name = ARMED"
proof -
  have "case kill_run [KTrip 0 GlobalScope HALT_NEW ''operator'' global_name None,
        KApply 1 [global_breach ActFlatten (Pf PF_DAILY_LOSS_MTM)]] (new_registry (default_limits\<lparr>rl_rearm_on_new_day := True\<rparr>) None) of
      Inl e \<Rightarrow> False
    | Inr kr \<Rightarrow> switch_state kr GlobalScope global_name = FLATTEN
        \<and> (case kill_run [KNewDay us_per_day] kr of Inl e \<Rightarrow> False | Inr kr' \<Rightarrow> switch_state kr' GlobalScope global_name = ARMED)"
    by code_simp
  then show ?thesis by (auto split: sum.splits)
qed

end
