(* ===== verification/Risk_Gate.thy ===== *)
theory Risk_Gate
  imports Kill_Switch Lifecycle Risk_Props OMS_Props
begin

section \<open>Marks, the pre-trade gate and the meters\<close>

text \<open>
  \<^verbatim>\<open>src/risk/marks.py\<close>, \<^verbatim>\<open>src/risk/gate.py\<close> and \<^verbatim>\<open>src/risk/utilisation.py\<close>. The gate
  assembles a snapshot from the order manager, the day's tracker, the kill switches, the calendar
  and the market source, reserves what working entries may still take, and asks the engine. The
  market source (the engine's market component) is the parameter \<open>mkt\<close>; the list of known
  events may be absent or fail, which is the value \<open>ge_events\<close>.
\<close>

subsection \<open>Marks\<close>

definition open_positions :: "position_book \<Rightarrow> ts \<Rightarrow> position list" where
  "open_positions pb now = filter (\<lambda>p. p_quantity p \<noteq> 0) (pb_positions pb now)"

definition owner :: "position_book \<Rightarrow> position \<Rightarrow> string" where
  "owner pb p = (case pb_lots pb (p_instrument_key p) (p_product p) of [] \<Rightarrow> ''unknown'' | l # ls \<Rightarrow> l_strategy l)"

definition lot_pnl :: "int \<Rightarrow> rat \<Rightarrow> lot \<Rightarrow> rat" where
  "lot_pnl sign mark l = dmul (dmul (dsub mark (l_price l)) (of_int (l_quantity l))) (of_int sign)"

definition add_lots :: "int \<Rightarrow> rat \<Rightarrow> lot list \<Rightarrow> (string, rat) dict \<Rightarrow> (string, rat) dict" where
  "add_lots sign mark ls out =
     fold (\<lambda>l d. dset (l_strategy l) (dadd (dget_or 0 d (l_strategy l)) (lot_pnl sign mark l)) d) ls out"

fun unrealized_from :: "position_book \<Rightarrow> (string, rat) dict \<Rightarrow> position list \<Rightarrow> (string, rat) dict \<Rightarrow> (string, rat) dict result" where
  "unrealized_from pb marks [] out = Inr out"
| "unrealized_from pb marks (p # ps) out =
     (case dget marks (p_instrument_key p) of
        None \<Rightarrow> Inl KeyError
      | Some mark \<Rightarrow>
          unrealized_from pb marks ps
            (add_lots (if 0 < p_quantity p then 1 else - 1) mark (pb_lots pb (p_instrument_key p) (p_product p)) out))"

definition unrealized_by_strategy :: "position_book \<Rightarrow> (string, rat) dict \<Rightarrow> ts \<Rightarrow> (string, rat) dict result" where
  "unrealized_by_strategy pb marks now = unrealized_from pb marks (open_positions pb now) []"

subsection \<open>The snapshot\<close>

record system_flags =
  fl_llm_degraded :: bool
  fl_journal_durable :: bool
  fl_recon_drift :: bool

record gate_env =
  ge_limits :: risk_limits
  ge_calendar :: nse_calendar
  ge_environment :: string
  ge_lifecycle :: lifecycle_config
  ge_instruments :: "(string, instrument) dict"
  ge_flags :: system_flags
  ge_events :: "typed_event list result option"
  ge_event_rules :: event_rules

definition set_default :: "'k \<Rightarrow> 'v \<Rightarrow> ('k, 'v) dict \<Rightarrow> ('k, 'v) dict" where
  "set_default k v d = (if dget d k = None then dset k v d else d)"

definition working_orders :: "oms \<Rightarrow> order list" where
  "working_orders s = filter (\<lambda>od. \<not> is_terminal (o_status od)) (map snd (om_orders s))"

definition known_instruments :: "gate_env \<Rightarrow> oms \<Rightarrow> order_intent option \<Rightarrow> (string, instrument) dict" where
  "known_instruments g s i =
     (let d0 = (case i of None \<Rightarrow> [] | Some x \<Rightarrow> [(i_key x, i_instrument x)]);
          d1 = fold (\<lambda>(k, od). set_default (i_key (o_intent od)) (i_instrument (o_intent od))) (om_orders s) d0
      in fold (\<lambda>(k, ins). set_default k ins) (ge_instruments g) d1)"

definition wanted_keys :: "oms \<Rightarrow> ts \<Rightarrow> order_intent option \<Rightarrow> string list" where
  "wanted_keys s now i =
     remdups (map p_instrument_key (open_positions (om_book s) now)
       @ (case i of None \<Rightarrow> [] | Some x \<Rightarrow> [i_key x]) @ map (i_key \<circ> o_intent) (working_orders s))"

definition market_of :: "(instrument \<Rightarrow> market_facts) \<Rightarrow> (string, instrument) dict \<Rightarrow> string list \<Rightarrow> (string, market_facts) dict" where
  "market_of mkt instruments keys =
     map (\<lambda>k. (k, case dget instruments k of None \<Rightarrow> no_facts | Some ins \<Rightarrow> mkt ins)) keys"

definition mark_of :: "(string, market_facts) dict \<Rightarrow> position \<Rightarrow> rat" where
  "mark_of market p =
     (case mf_quote (dget_or no_facts market (p_instrument_key p)) of
        Some quote \<Rightarrow> dec_of_float (q_ltp quote)
      | None \<Rightarrow> (case p_avg_price p of None \<Rightarrow> 0 | Some a \<Rightarrow> a))"

definition marks_of :: "(string, market_facts) dict \<Rightarrow> position list \<Rightarrow> (string, rat) dict" where
  "marks_of market ps = fold (\<lambda>p. dset (p_instrument_key p) (mark_of market p)) ps []"

definition resting_stops :: "oms \<Rightarrow> (string, rat option) dict" where
  "resting_stops s =
     fold (\<lambda>od. dset (i_key (o_intent od)) (i_trigger_price (o_intent od)))
       (filter (\<lambda>od. i_reduce_only (o_intent od) \<and> i_order_type (o_intent od) \<in> {SL_M, SL}) (working_orders s)) []"

definition info_of ::
  "position_book \<Rightarrow> (string, instrument) dict \<Rightarrow> (string, rat) dict \<Rightarrow> (string, rat option) dict \<Rightarrow> position \<Rightarrow> position_info" where
  "info_of pb instruments marks stops p =
     (let k = p_instrument_key p
      in \<lparr>pi_instrument_key = k, pi_quantity = p_quantity p,
          pi_avg_price = (case p_avg_price p of None \<Rightarrow> 0 | Some a \<Rightarrow> a), pi_mark = dget_or 0 marks k,
          pi_sector = (case dget instruments k of None \<Rightarrow> None | Some ins \<Rightarrow> ins_sector ins),
          pi_strategy = Some (owner pb p),
          pi_stop_price = dget_or None stops k\<rparr>)"

text \<open>What the calendar says; a year it does not cover leaves the market closed.\<close>

definition session_flags :: "gate_env \<Rightarrow> ts \<Rightarrow> (bool \<times> bool \<times> bool) result" where
  "session_flags g now =
     (let covered = (\<lambda>partial e. if e = CalendarCoverageError then Inr partial else Inl e)
      in case is_trading_day (ge_calendar g) (ist_date now) of
           Inl e \<Rightarrow> covered (False, False, False) e
         | Inr td \<Rightarrow>
             (case is_market_open (ge_calendar g) now of
                Inl e \<Rightarrow> covered (td, False, False) e
              | Inr so \<Rightarrow>
                  (case build_schedule (ge_calendar g) (ist_date now) (ge_lifecycle g) of
                     Inl e \<Rightarrow> covered (td, so, False) e
                   | Inr sch \<Rightarrow>
                       Inr (td, so, case sch of None \<Rightarrow> False | Some sc \<Rightarrow> state_at sc now = SsEntryWindow))))"

definition gate_event_blocks :: "gate_env \<Rightarrow> order_intent option \<Rightarrow> ts \<Rightarrow> (string, event_block list) dict" where
  "gate_event_blocks g i now =
     (case ge_events g of
        None \<Rightarrow> []
      | Some r \<Rightarrow>
          (case (case r of Inl e \<Rightarrow> Inl e | Inr es \<Rightarrow> event_blocks es (ge_calendar g) (ge_event_rules g) now) of
             Inr out \<Rightarrow> out
           | Inl e \<Rightarrow>
               (case i of
                  None \<Rightarrow> []
                | Some x \<Rightarrow> [(i_key x, [\<lparr>eb_code = EVT_RESULTS_WINDOW, eb_start = ist_date now, eb_end = ist_date now,
                     eb_event_id = ''unknown''\<rparr>])])))"

definition tracker_today :: "ts \<Rightarrow> tracker \<Rightarrow> daily_state option" where
  "tracker_today now tr =
     (case rt_state tr of None \<Rightarrow> None | Some st \<Rightarrow> if ds_ist_date st = ist_date now then Some st else None)"

definition gate_snapshot ::
  "gate_env \<Rightarrow> (instrument \<Rightarrow> market_facts) \<Rightarrow> oms \<Rightarrow> tracker \<Rightarrow> registry \<Rightarrow> ts \<Rightarrow> order_intent option \<Rightarrow> risk_snapshot result" where
  "gate_snapshot g mkt s tr kr now i =
     (let pb = om_book s;
          instruments = known_instruments g s i;
          positions = open_positions pb now;
          market = market_of mkt instruments (wanted_keys s now i);
          marks = marks_of market positions;
          stops = resting_stops s;
          infos = fold (\<lambda>p. dset (p_instrument_key p) (info_of pb instruments marks stops p)) positions [];
          today = tracker_today now tr
      in case equity pb marks of
           Inl e \<Rightarrow> Inl e
         | Inr eqty \<Rightarrow>
             (case session_flags g now of
                Inl e \<Rightarrow> Inl e
              | Inr (td, so, ew) \<Rightarrow>
                  (case unrealized_by_strategy pb marks now of
                     Inl e \<Rightarrow> Inl e
                   | Inr unrealized \<Rightarrow>
                       Inr \<lparr>sn_now = now, sn_environment = ge_environment g, sn_equity = eqty, sn_cash = pb_cash pb,
                            sn_sod_equity = (case today of None \<Rightarrow> eqty | Some st \<Rightarrow> ds_sod_equity st),
                            sn_peak_equity = (case rt_state tr of None \<Rightarrow> eqty | Some st \<Rightarrow> max eqty (ds_peak_equity st)),
                            sn_positions = infos, sn_market = market, sn_strategies = tracker_stats now unrealized tr,
                            sn_kill = kill_state_of kr, sn_open_orders = int (length (working_orders s)),
                            sn_orders_last_min = orders_last_min now tr, sn_rejects_in_window = rejects_in_window now tr,
                            sn_entries_today = (case today of None \<Rightarrow> 0 | Some st \<Rightarrow> ds_entries st),
                            sn_symbols_entered_today = (case today of None \<Rightarrow> [] | Some st \<Rightarrow> ds_symbols_entered st),
                            sn_symbols_exited_today = (case today of None \<Rightarrow> [] | Some st \<Rightarrow> ds_symbols_exited st),
                            sn_unknown_order_keys =
                              map (i_key \<circ> o_intent) (filter (\<lambda>od. o_status od = UNKNOWN) (map snd (om_orders s))),
                            sn_is_trading_day = td, sn_is_weekend = (5 \<le> weekday (ist_date now)), sn_session_open = so,
                            sn_entry_window = ew, sn_llm_degraded = fl_llm_degraded (ge_flags g),
                            sn_journal_durable = fl_journal_durable (ge_flags g), sn_recon_drift = fl_recon_drift (ge_flags g),
                            sn_event_blocks = gate_event_blocks g i now\<rparr>)))"

subsection \<open>The gate\<close>

definition gate_working :: "risk_limits \<Rightarrow> oms \<Rightarrow> risk_snapshot \<Rightarrow> reservations" where
  "gate_working l s sn =
     fold (\<lambda>od r. reserve \<lparr>cx_intent = o_intent od, cx_snapshot = sn, cx_limits = l, cx_reserved = r, cx_requested = None\<rparr>
                    (remaining_qty od) False r)
       (filter (\<lambda>od. \<not> (is_terminal (o_status od) \<or> reduces_risk (i_kind (o_intent od)))) (map snd (om_orders s))) no_reservations"

definition gate_decide ::
  "(string \<Rightarrow> string) \<Rightarrow> gate_env \<Rightarrow> (instrument \<Rightarrow> market_facts) \<Rightarrow> oms \<Rightarrow> tracker \<Rightarrow> registry \<Rightarrow> ts
    \<Rightarrow> order_intent \<Rightarrow> int option \<Rightarrow> risk_decision result" where
  "gate_decide coid g mkt s tr kr now i quantity =
     (case gate_snapshot g mkt s tr kr now (Some i) of
        Inl e \<Rightarrow> Inl e
      | Inr sn \<Rightarrow> Inr (ev_decision (evaluate coid (ge_limits g) default_checks i sn quantity (gate_working (ge_limits g) s sn))))"

text \<open>\<^verbatim>\<open>RiskGate.__call__\<close>: the decision that is persisted and the switches after the HALT-file
  check. The quantity of the answer is the approved one, and 0 when that is not positive.\<close>

definition gate_call ::
  "(string \<Rightarrow> string) \<Rightarrow> gate_env \<Rightarrow> (instrument \<Rightarrow> market_facts) \<Rightarrow> string option \<Rightarrow> oms \<Rightarrow> tracker \<Rightarrow> registry \<Rightarrow> ts
    \<Rightarrow> order_intent \<Rightarrow> int option \<Rightarrow> (risk_decision \<times> registry) result" where
  "gate_call coid g mkt halt s tr kr now i quantity =
     (case check_halt_file now halt kr of
        Inl e \<Rightarrow> Inl e
      | Inr (c, kr1) \<Rightarrow>
          (case gate_decide coid g mkt s tr kr1 now i quantity of Inl e \<Rightarrow> Inl e | Inr d \<Rightarrow> Inr (d, kr1)))"

text \<open>The gate as the order manager calls it. An exception leaves the submission without an order,
  as a refusal does.\<close>

definition risk_gate ::
  "(string \<Rightarrow> string) \<Rightarrow> gate_env \<Rightarrow> (instrument \<Rightarrow> market_facts) \<Rightarrow> string option \<Rightarrow> oms \<Rightarrow> tracker \<Rightarrow> registry \<Rightarrow> ts \<Rightarrow> gate" where
  "risk_gate coid g mkt halt s tr kr now i quantity =
     (case gate_call coid g mkt halt s tr kr now i quantity of
        Inl e \<Rightarrow> 0
      | Inr (d, kr1) \<Rightarrow> if rd_qty_approved d \<le> 0 then 0 else rd_qty_approved d)"

definition gate_preview ::
  "(string \<Rightarrow> string) \<Rightarrow> gate_env \<Rightarrow> (instrument \<Rightarrow> market_facts) \<Rightarrow> oms \<Rightarrow> tracker \<Rightarrow> registry \<Rightarrow> ts
    \<Rightarrow> order_intent \<Rightarrow> int option \<Rightarrow> risk_decision result" where
  "gate_preview coid g mkt s tr kr now i quantity = gate_decide coid g mkt s tr kr now i quantity"

definition book_snapshot ::
  "gate_env \<Rightarrow> (instrument \<Rightarrow> market_facts) \<Rightarrow> oms \<Rightarrow> tracker \<Rightarrow> registry \<Rightarrow> ts \<Rightarrow> risk_snapshot result" where
  "book_snapshot g mkt s tr kr now = gate_snapshot g mkt s tr kr now None"

subsection \<open>The meters\<close>

record usage =
  us_key :: reason_code
  us_used :: rat
  us_limit :: rat

definition of_equity :: "risk_snapshot \<Rightarrow> rat \<Rightarrow> rat" where
  "of_equity sn fraction = dmul (sn_equity sn) (dec_of_float fraction)"

definition held_count :: "risk_snapshot \<Rightarrow> int" where
  "held_count sn = int (length (filter (\<lambda>(k, p). pi_quantity p \<noteq> 0) (sn_positions sn)))"

definition utilisation :: "risk_snapshot \<Rightarrow> risk_limits \<Rightarrow> usage list" where
  "utilisation sn l =
     [\<lparr>us_key = Pf PF_DAILY_LOSS_MTM, us_used = max 0 (- day_pnl_mtm sn),
       us_limit = dmul (sn_sod_equity sn) (dec_of_float (rl_daily_loss_limit_pct l))\<rparr>,
      \<lparr>us_key = Pf PF_DRAWDOWN,
       us_used = max 0 (if 0 < sn_peak_equity sn then ddiv (dsub (sn_peak_equity sn) (sn_equity sn)) (sn_peak_equity sn) else 0),
       us_limit = dec_of_float (rl_max_drawdown_pct l)\<rparr>,
      \<lparr>us_key = Pf PF_GROSS, us_used = gross_exposure sn, us_limit = of_equity sn (rl_max_gross_exposure_pct l)\<rparr>,
      \<lparr>us_key = Pf PF_HEAT, us_used = heat_of sn, us_limit = of_equity sn (rl_max_heat_pct l)\<rparr>,
      \<lparr>us_key = Pf PF_MAX_POSITIONS, us_used = of_int (held_count sn), us_limit = of_int (rl_max_positions l)\<rparr>,
      \<lparr>us_key = Pf PF_ENTRIES_PER_DAY, us_used = of_int (sn_entries_today sn), us_limit = of_int (rl_max_entries_per_day l)\<rparr>]"

definition us_fraction :: "usage \<Rightarrow> rat option" where
  "us_fraction u = (if 0 < us_limit u then Some (fl64 (ddiv (us_used u) (us_limit u))) else None)"

definition sector_usage :: "risk_snapshot \<Rightarrow> risk_limits \<Rightarrow> (string \<times> rat \<times> rat) list" where
  "sector_usage sn l =
     (let held = filter (\<lambda>p. pi_quantity p \<noteq> 0) (map snd (sn_positions sn));
          sectors = remdups (map (sector_name \<circ> pi_sector) held);
          limit = of_equity sn (rl_max_sector_pct l)
      in sort_key (\<lambda>(name, used, lim). (- used, name)) (map (\<lambda>name. (name, sector_exposure sn name, limit)) sectors))"

end
