(* ===== verification/Gate_Props.thy ===== *)
theory Gate_Props
  imports Risk_Gate
begin

section \<open>What the gate guarantees\<close>

text \<open>
  The order manager with the risk gate installed: an entry that reaches the broker was decided on
  the state of the book, the switches, the calendar and the market of that moment. And the meters
  of the risk view are full exactly where the checks start to block.
\<close>

subsection \<open>The snapshot of the gate\<close>

lemma fold_set_default: "dget d k = Some v \<Longrightarrow> dget (fold (\<lambda>(k', w). set_default (f k' w) (h k' w)) ds d) k = Some v"
  by (induction ds arbitrary: d) (auto simp: set_default_def dget_dset split: prod.splits)

lemma known_intent: "dget (known_instruments g s (Some i)) (i_key i) = Some (i_instrument i)"
  unfolding known_instruments_def Let_def option.case
  by (rule fold_set_default [where f = "\<lambda>k ins. k" and h = "\<lambda>k ins. ins"], rule fold_set_default) simp

lemma market_of_key: "k \<in> set keys \<Longrightarrow> dget (market_of mkt instruments keys) k
    = Some (case dget instruments k of None \<Rightarrow> no_facts | Some ins \<Rightarrow> mkt ins)"
  by (induction keys) (auto simp: market_of_def)

lemma gate_snapshot_facts:
  assumes "gate_snapshot g mkt s tr kr now (Some i) = Inr sn"
  shows "sn_now sn = now" "sn_kill sn = kill_state_of kr" "sn_cash sn = pb_cash (om_book s)"
    "sn_journal_durable sn = fl_journal_durable (ge_flags g)" "sn_recon_drift sn = fl_recon_drift (ge_flags g)"
    "sn_environment sn = ge_environment g"
    "set (sn_unknown_order_keys sn) = (i_key \<circ> o_intent) ` {od \<in> snd ` set (om_orders s). o_status od = UNKNOWN}"
    "dget (sn_market sn) (i_key i) = Some (mkt (i_instrument i))"
    "session_flags g now = Inr (sn_is_trading_day sn, sn_session_open sn, sn_entry_window sn)"
proof -
  have key: "i_key i \<in> set (wanted_keys s now (Some i))" by (simp add: wanted_keys_def)
  obtain eqty td so ew u where
    "equity (om_book s) (marks_of (market_of mkt (known_instruments g s (Some i)) (wanted_keys s now (Some i)))
       (open_positions (om_book s) now)) = Inr eqty"
    and sf: "session_flags g now = Inr (td, so, ew)"
    and "unrealized_by_strategy (om_book s) (marks_of (market_of mkt (known_instruments g s (Some i)) (wanted_keys s now (Some i)))
       (open_positions (om_book s) now)) now = Inr u"
    using assms unfolding gate_snapshot_def Let_def by (auto split: sum.splits)
  note sn = assms [unfolded gate_snapshot_def Let_def this sum.case prod.case]
  show "sn_now sn = now" "sn_kill sn = kill_state_of kr" "sn_cash sn = pb_cash (om_book s)"
    "sn_journal_durable sn = fl_journal_durable (ge_flags g)" "sn_recon_drift sn = fl_recon_drift (ge_flags g)"
    "sn_environment sn = ge_environment g"
    using sn by auto
  show "session_flags g now = Inr (sn_is_trading_day sn, sn_session_open sn, sn_entry_window sn)"
    using sn sf by auto
  show "set (sn_unknown_order_keys sn) = (i_key \<circ> o_intent) ` {od \<in> snd ` set (om_orders s). o_status od = UNKNOWN}"
  proof -
    have "sn_unknown_order_keys sn = map (i_key \<circ> o_intent) (filter (\<lambda>od. o_status od = UNKNOWN) (map snd (om_orders s)))"
      using sn by auto
    then show ?thesis by simp
  qed
  have "sn_market sn = market_of mkt (known_instruments g s (Some i)) (wanted_keys s now (Some i))" using sn by auto
  then show "dget (sn_market sn) (i_key i) = Some (mkt (i_instrument i))"
    by (simp add: market_of_key [OF key] known_intent)
qed

lemma session_flags_open:
  assumes "session_flags g now = Inr (td, True, ew)"
  shows "is_market_open (ge_calendar g) now = Inr True"
  using assms by (auto simp: session_flags_def Let_def split: sum.splits if_splits)

lemma session_flags_window:
  assumes "session_flags g now = Inr (td, so, True)"
  shows "\<exists>sc. build_schedule (ge_calendar g) (ist_date now) (ge_lifecycle g) = Inr (Some sc) \<and> state_at sc now = SsEntryWindow"
  using assms by (auto simp: session_flags_def Let_def split: sum.splits if_splits option.splits)

lemma halt_file_trips:
  assumes "check_halt_file now (Some text) kr = Inr (c, kr1)"
  shows "ks_global (kill_state_of kr1) \<noteq> ARMED"
proof -
  have "kill_rank (if says_flatten text then FLATTEN else HALT_NEW) \<le> kill_rank (switch_state kr1 GlobalScope global_name)"
    using assms trip_latched by (auto simp: check_halt_file_def split: if_splits)
  then show ?thesis by (auto simp: switch_state_def switch_of_def kill_state_of_def split: if_splits)
qed

lemma kill_state_lookup:
  "dget_or ARMED (ks_strategies (kill_state_of kr)) n = switch_state kr StrategyScope n"
  by (simp add: kill_state_of_def switch_state_def switch_of_def dget_or_def map_of_map new_switch_def split: option.splits)

lemma risk_gate_positive:
  assumes "0 < risk_gate coid g mkt halt s tr kr now i q"
  obtains c kr1 sn where "check_halt_file now halt kr = Inr (c, kr1)" "gate_snapshot g mkt s tr kr1 now (Some i) = Inr sn"
    "risk_gate coid g mkt halt s tr kr now i q
       = approved_qty (evaluate coid (ge_limits g) default_checks i sn q (gate_working (ge_limits g) s sn))"
  using assms unfolding risk_gate_def gate_call_def gate_decide_def
  by (auto split: sum.splits if_splits)

subsection \<open>Entries\<close>

text \<open>C5: No entry gets past the gate. When the order manager submits through the risk gate and an
  opening order reaches the broker, then at that moment there was no HALT file, the global switch, the
  broker switch and the switch of the order's strategy were armed, the exchange was open and in the entry window of its schedule,
  the market source had a fresh quote of the instrument, no order of the instrument was of unknown
  outcome, the journal was durable and no drift was flagged; and the quantity recorded is at most
  what the engine approved on that snapshot.\<close>

theorem no_entry_past_the_gate:
  assumes "new_oms bid (new_book bid c0) = Inr s0" "oms_run coid s0 ops = Inr s"
    and "submit coid (Some (risk_gate coid g mkt halt s tr kr now)) place i quantity now s = Inr (st, s')"
    and "st \<notin> {StBlocked, StDuplicate}" "\<not> reduces_risk (i_kind i)" "0 < ins_lot_size (i_instrument i)"
  shows "halt = None \<and> switch_state kr GlobalScope global_name = ARMED \<and> switch_state kr BrokerScope global_name = ARMED
    \<and> switch_state kr StrategyScope (i_strategy i) = ARMED
    \<and> is_market_open (ge_calendar g) now = Inr True
    \<and> (\<exists>sc. build_schedule (ge_calendar g) (ist_date now) (ge_lifecycle g) = Inr (Some sc) \<and> state_at sc now = SsEntryWindow)
    \<and> (\<exists>quote. mf_quote (mkt (i_instrument i)) = Some quote \<and> age_seconds quote now \<le> rl_max_quote_age_s (ge_limits g))
    \<and> (\<forall>(c, od) \<in> set (om_orders s). i_key (o_intent od) = i_key i \<longrightarrow> o_status od \<noteq> UNKNOWN)
    \<and> fl_journal_durable (ge_flags g) \<and> \<not> fl_recon_drift (ge_flags g)
    \<and> (\<exists>sn qty es. gate_snapshot g mkt s tr kr now (Some i) = Inr sn
        \<and> om_events s' = om_events s @ OrderSubmitted (make_order (coid (i_intent_id i)) i qty now) # es
        \<and> 0 < qty \<and> qty \<le> approved_qty (evaluate coid (ge_limits g) default_checks i sn (asked_qty s i quantity)
             (gate_working (ge_limits g) s sn)))"
proof -
  obtain qty es where gq: "gated_qty s (risk_gate coid g mkt halt s tr kr now) i quantity = Some qty"
    and ev: "om_events s' = om_events s @ OrderSubmitted (make_order (coid (i_intent_id i)) i qty now) # es"
    by (rule submit_routed [OF run_keyed [OF assms(1,2)] assms(3,4)]) auto
  note q = gated_qty_pos [OF gq] gated_qty_le [OF gq, THEN conjunct1]
  from q have pos: "0 < risk_gate coid g mkt halt s tr kr now i (asked_qty s i quantity)" by linarith
  then obtain c kr1 sn where r: "check_halt_file now halt kr = Inr (c, kr1)" "gate_snapshot g mkt s tr kr1 now (Some i) = Inr sn"
    "risk_gate coid g mkt halt s tr kr now i (asked_qty s i quantity)
       = approved_qty (evaluate coid (ge_limits g) default_checks i sn (asked_qty s i quantity) (gate_working (ge_limits g) s sn))"
    by (rule risk_gate_positive)
  note sf = gate_snapshot_facts [OF r(2)]
  note clear = system_clear [OF assms(5,6) pos [unfolded r(3)]]
  have kr1: "kr1 = kr" "halt = None"
    using r(1) clear halt_file_trips sf(2) by (cases halt; force simp: check_halt_file_def)+
  have "i_key i \<notin> (i_key \<circ> o_intent) ` {od \<in> snd ` set (om_orders s). o_status od = UNKNOWN}"
    using clear sf(7) by simp
  then have unk: "\<forall>(c, od) \<in> set (om_orders s). i_key (o_intent od) = i_key i \<longrightarrow> o_status od \<noteq> UNKNOWN" by force
  have sw: "switch_state kr GlobalScope global_name = ARMED" "switch_state kr BrokerScope global_name = ARMED"
    "switch_state kr StrategyScope (i_strategy i) = ARMED"
    using clear sf(2) kr1 kill_state_lookup [of kr "i_strategy i"]
    by (simp_all add: kill_state_of_def switch_state_def switch_of_def)
  have fq: "\<exists>quote. mf_quote (mkt (i_instrument i)) = Some quote \<and> age_seconds quote now \<le> rl_max_quote_age_s (ge_limits g)"
    using clear sf(1,8) by (auto simp: facts_def dget_or_def)
  have "sn_session_open sn" "sn_entry_window sn" using clear by blast+
  then have "is_market_open (ge_calendar g) now = Inr True"
    "\<exists>sc. build_schedule (ge_calendar g) (ist_date now) (ge_lifecycle g) = Inr (Some sc) \<and> state_at sc now = SsEntryWindow"
    using sf(9) session_flags_open session_flags_window by fastforce+
  with sw fq unk kr1 clear sf(4,5) q ev r(2,3) show ?thesis by auto
qed
definition quiet_env :: gate_env where
  "quiet_env =
     \<lparr>ge_limits = sample_limits, ge_calendar = sample_calendar, ge_environment = ''paper'', ge_lifecycle = default_lifecycle_config,
      ge_instruments = [], ge_flags = \<lparr>fl_llm_degraded = False, fl_journal_durable = True, fl_recon_drift = False\<rparr>,
      ge_events = None, ge_event_rules = default_event_rules\<rparr>"

definition quiet_market :: "instrument \<Rightarrow> market_facts" where
  "quiet_market ins =
     \<lparr>mf_quote = Some \<lparr>q_instrument_key = ins_key ins, q_ltp = 100, q_bid = None,
         q_ask = None, q_prev_close = Some 99, q_volume_cum = 1000, q_exchange_ts = combine_ist 20476 (hm 9 30),
         q_receipt_ts = combine_ist 20476 (hm 9 30), q_source = YFINANCE, q_is_delayed = False\<rparr>,
      mf_atr = Some 2, mf_adv_shares = None, mf_data_source = Some YFINANCE\<rparr>"

definition funded_oms :: oms where
  "funded_oms =
     \<lparr>om_book_id = ''main'', om_book = new_book ''main'' 100000, om_orders = [], om_unknown = [], om_events = []\<rparr>"

definition idle_tracker :: tracker where
  "idle_tracker = \<lparr>rt_book_id = ''main'', rt_limits = sample_limits, rt_state = None, rt_saved = None, rt_events = []\<rparr>"

abbreviation quiet_gate :: gate where
  "quiet_gate \<equiv> risk_gate id quiet_env quiet_market None funded_oms idle_tracker (new_registry sample_limits None)
     (combine_ist 20476 (hm 9 30))"

lemma funded_oms_new: "new_oms ''main'' (new_book ''main'' 100000) = Inr funded_oms"
  by (simp add: new_oms_def funded_oms_def new_book_def)

lemma quiet_session: "session_flags quiet_env (combine_ist 20476 (hm 9 30)) = Inr (True, True, True)"
  "\<not> 5 \<le> weekday (ist_date (combine_ist 20476 (hm 9 30)))"
  by code_simp+

lemma quiet_snapshot:
  "gate_snapshot quiet_env quiet_market funded_oms idle_tracker (new_registry sample_limits None)
     (combine_ist 20476 (hm 9 30)) (Some sample_open) = Inr calm_snapshot"
proof -
  have pos: "open_positions (new_book ''main'' 100000) t = []" "equity (new_book ''main'' 100000) [] = Inr 100000"
    "pb_cash (new_book ''main'' 100000) = 100000" for t
    by (simp_all add: open_positions_def pb_positions_def new_book_def equity_def market_value_def)
  have key: "i_key sample_open = ''NSE:EQ:INFY''" "ins_key (i_instrument sample_open) = ''NSE:EQ:INFY''"
    by (simp_all add: sample_open_def nse_equity_def)
  have known: "known_instruments quiet_env funded_oms (Some sample_open) = [(''NSE:EQ:INFY'', i_instrument sample_open)]"
    by (simp add: known_instruments_def funded_oms_def quiet_env_def key)
  have wanted: "wanted_keys funded_oms t (Some sample_open) = [''NSE:EQ:INFY'']" for t
    by (simp add: wanted_keys_def funded_oms_def working_orders_def pos key)
  have book: "om_book funded_oms = new_book ''main'' 100000" by (simp add: funded_oms_def)
  show ?thesis
    unfolding gate_snapshot_def Let_def known wanted book pos quiet_session(1)
    using quiet_session(2)
    by (simp add: marks_of_def pos market_of_def quiet_market_def key unrealized_by_strategy_def
        tracker_today_def idle_tracker_def tracker_stats_def orders_last_min_def rejects_in_window_def kill_state_of_def
        new_registry_def new_switches_def new_switch_def working_orders_def gate_event_blocks_def quiet_env_def calm_snapshot_def
        funded_oms_def)
qed

lemma quiet_parts:
  "gate_working l funded_oms sn = no_reservations" "asked_qty funded_oms sample_open None = Some 500"
  "ge_limits quiet_env = sample_limits" "ge_calendar quiet_env = sample_calendar" "om_events funded_oms = []"
  "evaluate id sample_limits default_checks sample_open calm_snapshot (Some 500) no_reservations = sample_eval"
proof -
  have c: "context_of sample_limits sample_open calm_snapshot (Some 500) no_reservations = sample_context"
    by (simp add: context_of_def sample_open_def)
  show "evaluate id sample_limits default_checks sample_open calm_snapshot (Some 500) no_reservations = sample_eval"
    unfolding sample_eval_def evaluate_def c ..
qed (simp_all add: gate_working_def funded_oms_def asked_qty_def sample_open_def quiet_env_def)

lemma quiet_gate_approves: "quiet_gate sample_open (Some 500) = 100"
  unfolding risk_gate_def gate_call_def gate_decide_def check_halt_file_def option.case sum.case prod.case quiet_snapshot quiet_parts
  by (simp add: sample_eval_run)

lemma submit_sample:
  assumes "g sample_open (Some 500) = 100"
  shows "\<exists>s'. submit id (Some g) exit_place sample_open None now funded_oms = Inr (StSubmitted, s')"
proof -
  have q: "gated_qty funded_oms g sample_open None = Some 100"
    using assms by (simp add: gated_qty_def asked_qty_def sample_open_def Let_def)
  have b: "i_book_id sample_open = om_book_id funded_oms" "dget (om_orders funded_oms) c = None" for c
    by (simp_all add: funded_oms_def sample_open_def)
  let ?od = "make_order (i_intent_id sample_open) sample_open 100 now"
  have "submit id (Some g) exit_place sample_open None now funded_oms
      = Inr (place_result ?od (Inr (sample_ack (i_intent_id sample_open))) (register ?od funded_oms))"
    unfolding submit_def by (simp add: b q exit_place_def make_order_def Let_def)
  moreover have "fst (place_result ?od (Inr (sample_ack (i_intent_id sample_open))) (register ?od funded_oms)) = StSubmitted"
    by (simp add: place_result_def Let_def)
  ultimately show ?thesis by (metis prod.collapse)
qed

theorem no_entry_past_the_gate_witness:
  "\<exists>s' qty es. submit id (Some quiet_gate) exit_place sample_open None (combine_ist 20476 (hm 9 30)) funded_oms = Inr (StSubmitted, s')
     \<and> om_events s' = OrderSubmitted (make_order ''i1'' sample_open qty (combine_ist 20476 (hm 9 30))) # es
     \<and> qty \<le> approved_qty sample_eval
     \<and> is_market_open sample_calendar (combine_ist 20476 (hm 9 30)) = Inr True"
proof -
  obtain s' where s': "submit id (Some quiet_gate) exit_place sample_open None (combine_ist 20476 (hm 9 30)) funded_oms = Inr (StSubmitted, s')"
    using submit_sample [of quiet_gate, OF quiet_gate_approves] by blast
  have run: "oms_run id funded_oms [] = Inr funded_oms" by simp
  have i: "\<not> reduces_risk (i_kind sample_open)" "0 < ins_lot_size (i_instrument sample_open)" "i_intent_id sample_open = ''i1''"
    by (simp_all add: sample_open_def nse_equity_def reduces_risk_def)
  have "StSubmitted \<notin> {StBlocked, StDuplicate}" by simp
  note w = no_entry_past_the_gate [OF funded_oms_new run s' this i(1,2), unfolded quiet_snapshot quiet_parts i(3)]
  then have "is_market_open sample_calendar (combine_ist 20476 (hm 9 30)) = Inr True" by blast
  moreover from w obtain qty es where "om_events s' = [] @ OrderSubmitted (make_order (id ''i1'') sample_open qty (combine_ist 20476 (hm 9 30))) # es
      \<and> qty \<le> approved_qty (evaluate id sample_limits default_checks sample_open calm_snapshot (Some 500) no_reservations)"
    using quiet_parts(6) by fastforce
  ultimately show ?thesis using s' unfolding quiet_parts(6) by auto
qed

subsection \<open>Meters\<close>

definition meter_full :: "reason_code \<Rightarrow> risk_snapshot \<Rightarrow> risk_limits \<Rightarrow> bool" where
  "meter_full code sn l = list_ex (\<lambda>u. us_key u = code \<and> us_limit u \<le> us_used u) (utilisation sn l)"

lemma meter_full_simps:
  "meter_full (Pf PF_DAILY_LOSS_MTM) sn l
     \<longleftrightarrow> dmul (sn_sod_equity sn) (dec_of_float (rl_daily_loss_limit_pct l)) \<le> max 0 (- day_pnl_mtm sn)"
  "meter_full (Pf PF_DRAWDOWN) sn l
     \<longleftrightarrow> dec_of_float (rl_max_drawdown_pct l)
        \<le> max 0 (if 0 < sn_peak_equity sn then ddiv (dsub (sn_peak_equity sn) (sn_equity sn)) (sn_peak_equity sn) else 0)"
  "meter_full (Pf PF_GROSS) sn l \<longleftrightarrow> of_equity sn (rl_max_gross_exposure_pct l) \<le> gross_exposure sn"
  "meter_full (Pf PF_HEAT) sn l \<longleftrightarrow> of_equity sn (rl_max_heat_pct l) \<le> heat_of sn"
  "meter_full (Pf PF_MAX_POSITIONS) sn l \<longleftrightarrow> rl_max_positions l \<le> held_count sn"
  "meter_full (Pf PF_ENTRIES_PER_DAY) sn l \<longleftrightarrow> rl_max_entries_per_day l \<le> sn_entries_today sn"
  by (simp_all add: meter_full_def utilisation_def)

lemma block_neq: "pass \<noteq> block code" "resize code' n \<noteq> block code"
  by (simp_all add: block_def resize_def)

lemma dec28_dec_sum: "dec28 (dec_sum xs) = dec_sum xs"
  by (cases xs rule: rev_cases) (simp_all add: dec_sum_def dadd_def)

lemma held_count_keys:
  assumes "distinct (map fst (sn_positions sn))" "\<forall>(k, p) \<in> set (sn_positions sn). pi_instrument_key p = k"
  shows "int (length (held_keys sn)) = held_count sn"
proof -
  let ?held = "filter (\<lambda>(k, p). pi_quantity p \<noteq> 0) (sn_positions sn)"
  have "map (\<lambda>(k, p). pi_instrument_key p) ?held = map fst ?held" using assms(2) by (auto intro: map_cong)
  moreover have "distinct (map fst ?held)" using assms(1) by (rule distinct_map_filter)
  ultimately have "held_keys sn = map fst ?held" unfolding held_keys_def by (metis distinct_remdups_id)
  then show ?thesis by (simp add: held_count_def)
qed

text \<open>A meter of the risk view is full exactly where its check starts to block. With loaded limits
  and a positive start-of-day equity, and nothing reserved, the daily loss, drawdown and
  entries-per-day checks block if and only if their meters reach their limits; so do the gross check
  for a priced order, the heat check for an order with a stop below its price, and the position
  check for a new symbol.\<close>

theorem meters_match_checks:
  assumes "load_risk_limits l = Inr l'" "0 < sn_sod_equity (cx_snapshot c)" "cx_limits c = l" "cx_reserved c = no_reservations"
    and "distinct (map fst (sn_positions (cx_snapshot c)))"
    and "\<forall>(k, p) \<in> set (sn_positions (cx_snapshot c)). pi_instrument_key p = k"
  shows "(daily_loss_mtm c = block (Pf PF_DAILY_LOSS_MTM)) = meter_full (Pf PF_DAILY_LOSS_MTM) (cx_snapshot c) l
    \<and> (drawdown c = block (Pf PF_DRAWDOWN)) = meter_full (Pf PF_DRAWDOWN) (cx_snapshot c) l
    \<and> (entries_per_day c = block (Pf PF_ENTRIES_PER_DAY)) = meter_full (Pf PF_ENTRIES_PER_DAY) (cx_snapshot c) l
    \<and> (cx_price c \<noteq> None \<longrightarrow> (gross c = block (Pf PF_GROSS)) = meter_full (Pf PF_GROSS) (cx_snapshot c) l)
    \<and> (\<forall>d. stop_distance c = Some d \<and> 0 < d \<longrightarrow> (heat c = block (Pf PF_HEAT)) = meter_full (Pf PF_HEAT) (cx_snapshot c) l)
    \<and> (new_symbol c \<longrightarrow> (max_positions c = block (Pf PF_MAX_POSITIONS)) = meter_full (Pf PF_MAX_POSITIONS) (cx_snapshot c) l)"
proof (intro conjI allI impI)
  have l: "0 < rl_daily_loss_limit_pct l" "0 < rl_max_drawdown_pct l"
    using assms(1) by (auto simp: load_risk_limits_def limits_bounded_def gt_le_def split: if_splits)
  have "0 < dmul (sn_sod_equity (cx_snapshot c)) (dec_of_float (rl_daily_loss_limit_pct l))"
    unfolding dmul_def using assms(2) l by (intro dec28_pos mult_pos_pos dec_of_float_pos)
  then show "(daily_loss_mtm c = block (Pf PF_DAILY_LOSS_MTM)) = meter_full (Pf PF_DAILY_LOSS_MTM) (cx_snapshot c) l"
    by (auto simp: daily_loss_mtm_def meter_full_simps block_neq assms(3) Let_def max_def)
  show "(drawdown c = block (Pf PF_DRAWDOWN)) = meter_full (Pf PF_DRAWDOWN) (cx_snapshot c) l"
    using dec_of_float_pos [OF l(2)] by (auto simp: drawdown_def meter_full_simps block_neq assms(3) Let_def max_def)
  show "(entries_per_day c = block (Pf PF_ENTRIES_PER_DAY)) = meter_full (Pf PF_ENTRIES_PER_DAY) (cx_snapshot c) l"
    by (auto simp: entries_per_day_def meter_full_simps block_neq assms(3,4) no_reservations_def)
  have used: "gross_used c = gross_exposure (cx_snapshot c)" "heat_used c = heat_of (cx_snapshot c)"
    by (simp_all add: gross_used_def heat_used_def assms(4) no_reservations_def dadd_def gross_exposure_def heat_of_def dec28_dec_sum)
  show "(gross c = block (Pf PF_GROSS)) = meter_full (Pf PF_GROSS) (cx_snapshot c) l" if "cx_price c \<noteq> None"
    using that by (auto simp: gross_def room_check_def meter_full_simps block_neq used assms(3) pct_def of_equity_def split: if_splits)
  show "(heat c = block (Pf PF_HEAT)) = meter_full (Pf PF_HEAT) (cx_snapshot c) l" if "stop_distance c = Some d \<and> 0 < d" for d
    using that by (auto simp: heat_def room_check_def meter_full_simps block_neq used assms(3) pct_def of_equity_def split: if_splits)
  show "(max_positions c = block (Pf PF_MAX_POSITIONS)) = meter_full (Pf PF_MAX_POSITIONS) (cx_snapshot c) l" if "new_symbol c"
    using that held_count_keys [OF assms(5,6)]
    by (auto simp: max_positions_def positions_count_def meter_full_simps block_neq assms(3,4) no_reservations_def Let_def)
qed

theorem meters_match_checks_witness:
  "\<not> meter_full (Pf PF_DAILY_LOSS_MTM) (calm_snapshot\<lparr>sn_equity := 94000\<rparr>) sample_limits
   \<and> daily_loss_mtm (context_of sample_limits sample_open (calm_snapshot\<lparr>sn_equity := 93000\<rparr>) None no_reservations)
       = block (Pf PF_DAILY_LOSS_MTM)"
proof -
  have l: "load_risk_limits sample_limits = Inr sample_limits" by code_simp
  let ?c = "\<lambda>e. context_of sample_limits sample_open (calm_snapshot\<lparr>sn_equity := e\<rparr>) None no_reservations"
  have p: "sn_positions (cx_snapshot (?c e)) = []" "0 < sn_sod_equity (cx_snapshot (?c e))" for e
    by (simp_all add: calm_snapshot_def)
  have m: "(daily_loss_mtm (?c e) = block (Pf PF_DAILY_LOSS_MTM)) = meter_full (Pf PF_DAILY_LOSS_MTM) (cx_snapshot (?c e)) sample_limits" for e
    by (rule meters_match_checks [OF l p(2) _ _ _ _, THEN conjunct1]) (simp_all add: calm_snapshot_def)
  have "meter_full (Pf PF_DAILY_LOSS_MTM) (cx_snapshot (?c 93000)) sample_limits"
    "\<not> meter_full (Pf PF_DAILY_LOSS_MTM) (cx_snapshot (?c 94000)) sample_limits"
    by code_simp+
  with m [of 93000] show ?thesis by simp
qed

end
