(* ===== verification/Risk_Monitor.thy ===== *)
theory Risk_Monitor
  imports Gate_Props
begin

section \<open>The flattener and the risk monitor\<close>

text \<open>
  The class \<^verbatim>\<open>Flattener\<close> of \<^verbatim>\<open>src/risk/kill_switch.py\<close>, \<^verbatim>\<open>src/risk/monitor.py\<close> and the
  deterministic identifiers of \<^verbatim>\<open>src/domain/ids.py\<close>. An operation that may raise after it has
  changed something returns the state it leaves together with its result. What the code awaits is
  the record \<open>flat_env\<close>: the notices the broker delivers while resting exits are cancelled, the
  gate as a function of the order manager it sees, and the broker's answer to a placement; further
  the ISO text of a date, the fresh decision ids and the clock.
\<close>

subsection \<open>Identifiers\<close>

definition has_colon :: "string \<Rightarrow> bool" where
  "has_colon s = (CHR '':'' \<in> set s)"

definition intent_id :: "(date \<Rightarrow> string) \<Rightarrow> string \<Rightarrow> string \<Rightarrow> string \<Rightarrow> date \<Rightarrow> string \<Rightarrow> string result" where
  "intent_id isof book_id strategy instrument_key bar_date leg =
     (if list_ex (\<lambda>v. v = [] \<or> has_colon v) [book_id, strategy, leg] then Inl ValueError
      else if instrument_key = [] then Inl ValueError
      else Inr (book_id @ '':'' @ strategy @ '':'' @ instrument_key @ '':'' @ isof bar_date @ '':'' @ leg))"

subsection \<open>Flattening\<close>

record flat_env =
  fe_coid :: "string \<Rightarrow> string"
  fe_isoformat :: "date \<Rightarrow> string"
  fe_new_id :: "position \<Rightarrow> string"
  fe_release :: "position \<Rightarrow> notice list"
  fe_gate :: "oms \<Rightarrow> gate option"
  fe_place :: "order \<Rightarrow> notice list \<times> (broker_error + broker_ack)"
  fe_limits :: risk_limits
  fe_instruments :: "(string, instrument) dict"
  fe_now :: ts

record flat =
  fs_attempts :: "(string, int) dict"
  fs_escalated :: "string list"
  fs_oms :: oms
  fs_alerts :: "string list"

definition flatten_in_flight :: "oms \<Rightarrow> position \<Rightarrow> bool" where
  "flatten_in_flight s p =
     list_ex (\<lambda>(c, od). i_kind (o_intent od) = KFlatten \<and> i_key (o_intent od) = p_instrument_key p
       \<and> i_product (o_intent od) = p_product p \<and> \<not> is_terminal (o_status od)) (om_orders s)"

definition split_key :: "string \<Rightarrow> (string \<times> string \<times> string) option" where
  "split_key k =
     (let e = takeWhile (\<lambda>c. c \<noteq> CHR '':'') k; r = dropWhile (\<lambda>c. c \<noteq> CHR '':'') k
      in case r of
           [] \<Rightarrow> None
         | _ # r1 \<Rightarrow>
             (case dropWhile (\<lambda>c. c \<noteq> CHR '':'') r1 of
                [] \<Rightarrow> None
              | _ # rest \<Rightarrow> Some (e, takeWhile (\<lambda>c. c \<noteq> CHR '':'') r1, rest)))"

definition flat_instrument :: "(string, instrument) dict \<Rightarrow> oms \<Rightarrow> string \<Rightarrow> instrument result" where
  "flat_instrument instruments s k =
     (case dget instruments k of
        Some ins \<Rightarrow> Inr ins
      | None \<Rightarrow>
          (case List.find (\<lambda>(c, od). i_key (o_intent od) = k) (om_orders s) of
             Some (c, od) \<Rightarrow> Inr (i_instrument (o_intent od))
           | None \<Rightarrow>
               (case split_key k of
                  None \<Rightarrow> Inl ValueError
                | Some (exch, series, symbol) \<Rightarrow>
                    (let ins = (nse_equity symbol)\<lparr>ins_key := k, ins_exchange := exch, ins_series := series\<rparr>
                     in if instrument_valid ins then Inr ins else Inl ValueError))))"

definition truthy :: "rat option \<Rightarrow> rat option" where
  "truthy x = (if x = Some 0 then None else x)"

definition flat_mark :: "(string, rat) dict \<Rightarrow> position \<Rightarrow> rat" where
  "flat_mark marks p =
     (case truthy (dget marks (p_instrument_key p)) of
        Some m \<Rightarrow> m
      | None \<Rightarrow> (case truthy (p_avg_price p) of Some a \<Rightarrow> a | None \<Rightarrow> 1))"

definition flat_strategy :: "string \<Rightarrow> string" where
  "flat_strategy own = (if own \<noteq> [] \<and> \<not> has_colon own then own else ''unknown'')"

definition flatten_leg :: "int \<Rightarrow> string" where
  "flatten_leg attempt = ''flatten-'' @ nat_str (nat attempt)"

definition flatten_intent ::
  "flat_env \<Rightarrow> oms \<Rightarrow> position \<Rightarrow> string \<Rightarrow> int \<Rightarrow> (string, rat) dict \<Rightarrow> order_intent result" where
  "flatten_intent env s p own attempt marks =
     (case flat_instrument (fe_instruments env) s (p_instrument_key p) of
        Inl e \<Rightarrow> Inl e
      | Inr ins \<Rightarrow>
          (case intent_id (fe_isoformat env) (om_book_id s) (flat_strategy own) (p_instrument_key p) (ist_date (fe_now env))
                  (flatten_leg attempt) of
             Inl e \<Rightarrow> Inl e
           | Inr iid \<Rightarrow>
               (let i = \<lparr>i_intent_id = iid, i_decision_id = fe_new_id env p, i_parent_decision_id = None, i_book_id = om_book_id s,
                         i_strategy = flat_strategy own, i_signal_id = None, i_instrument = ins,
                         i_side = (if 0 < p_quantity p then SELL else BUY), i_kind = KFlatten,
                         i_quantity = Some \<bar>p_quantity p\<bar>, i_order_type = MARKET, i_product = p_product p, i_validity = DAY,
                         i_limit_price = None, i_trigger_price = None, i_stop_price = None, i_target_price = None,
                         i_reduce_only = True, i_decision_price = flat_mark marks p, i_decision_ts = fe_now env,
                         i_reason = RsFlatten, i_source = KillSwitchSrc\<rparr>
                in if intent_valid i then Inr i else Inl ValueError)))"

definition attempt_key :: "flat_env \<Rightarrow> position \<Rightarrow> string" where
  "attempt_key env p =
     fe_isoformat env (ist_date (fe_now env)) @ ''|'' @ p_instrument_key p @ ''|'' @ product_value (p_product p)"

definition escalate :: "flat_env \<Rightarrow> string \<Rightarrow> int \<Rightarrow> flat \<Rightarrow> flat" where
  "escalate env k attempt fs =
     (if rl_flatten_escalate_after (fe_limits env) \<le> attempt \<and> k \<notin> set (fs_escalated fs)
      then fs\<lparr>fs_escalated := k # fs_escalated fs, fs_alerts := fs_alerts fs @ [''flatten_escalated'']\<rparr> else fs)"

text \<open>One attempt for one open position; the attempt number is spent before the order exists.\<close>

definition flatten_one :: "flat_env \<Rightarrow> (string, rat) dict \<Rightarrow> position \<Rightarrow> string \<Rightarrow> flat \<Rightarrow> flat \<times> unit result" where
  "flatten_one env marks p own fs =
     (case on_notices (fe_release env p) (fs_oms fs) of
        Inl e \<Rightarrow> (fs, Inl e)
      | Inr s1 \<Rightarrow>
          (let k = attempt_key env p;
               attempt = dget_or 0 (fs_attempts fs) k + 1;
               fs1 = fs\<lparr>fs_oms := s1, fs_attempts := dset k attempt (fs_attempts fs)\<rparr>
           in case flatten_intent env s1 p own attempt marks of
                Inl e \<Rightarrow> (fs1, Inl e)
              | Inr i \<Rightarrow>
                  (case submit (fe_coid env) (fe_gate env s1) (fe_place env) i None (fe_now env) s1 of
                     Inl e \<Rightarrow> (fs1, Inl e)
                   | Inr (st, s2) \<Rightarrow> (escalate env k attempt (fs1\<lparr>fs_oms := s2\<rparr>), Inr ()))))"

fun flatten_positions ::
  "flat_env \<Rightarrow> (string, rat) dict \<Rightarrow> string option \<Rightarrow> position list \<Rightarrow> int \<Rightarrow> flat \<Rightarrow> flat \<times> int result" where
  "flatten_positions env marks strategy [] remaining fs = (fs, Inr remaining)"
| "flatten_positions env marks strategy (p # ps) remaining fs =
     (if p_quantity p = 0 then flatten_positions env marks strategy ps remaining fs
      else let own = owner (om_book (fs_oms fs)) p
           in if strategy \<noteq> None \<and> strategy \<noteq> Some own then flatten_positions env marks strategy ps remaining fs
              else if flatten_in_flight (fs_oms fs) p then flatten_positions env marks strategy ps (remaining + 1) fs
              else case flatten_one env marks p own fs of
                     (fs1, Inl e) \<Rightarrow> (fs1, Inl e)
                   | (fs1, Inr u) \<Rightarrow> flatten_positions env marks strategy ps (remaining + 1) fs1)"

definition flatten_step :: "flat_env \<Rightarrow> (string, rat) dict \<Rightarrow> string option \<Rightarrow> flat \<Rightarrow> flat \<times> int result" where
  "flatten_step env marks strategy fs =
     flatten_positions env marks strategy (pb_positions (om_book (fs_oms fs)) (fe_now env)) 0 fs"

fun flatten_all :: "flat_env \<Rightarrow> (string, rat) dict \<Rightarrow> string option list \<Rightarrow> int \<Rightarrow> flat \<Rightarrow> flat \<times> int result" where
  "flatten_all env marks [] remaining fs = (fs, Inr remaining)"
| "flatten_all env marks (n # ns) remaining fs =
     (case flatten_step env marks n fs of
        (fs1, Inl e) \<Rightarrow> (fs1, Inl e)
      | (fs1, Inr r) \<Rightarrow> flatten_all env marks ns (remaining + r) fs1)"

subsection \<open>The monitor\<close>

record monitor =
  mn_last_marks :: "(string, rat) dict"
  mn_unmarked :: "string list"
  mn_tracker :: tracker
  mn_registry :: registry
  mn_flat :: flat
  mn_alerts :: "string list"

abbreviation mn_book :: "monitor \<Rightarrow> position_book" where
  "mn_book m \<equiv> om_book (fs_oms (mn_flat m))"

record tick_report =
  tk_equity :: rat
  tk_breaches :: "breach list"
  tk_tripped :: "breach list"
  tk_halt_file :: bool
  tk_rearmed :: "string list"
  tk_flatten_remaining :: int

text \<open>The latest marks; a held instrument never quoted is valued at cost and alerted once.\<close>

definition mark_held :: "position \<Rightarrow> (string, rat) dict \<times> monitor \<Rightarrow> (string, rat) dict \<times> monitor" where
  "mark_held p r =
     (case r of (marks, m) \<Rightarrow>
        let k = p_instrument_key p
        in if p_quantity p = 0 \<or> dget marks k \<noteq> None then (marks, m)
           else (dset k (case p_avg_price p of None \<Rightarrow> 0 | Some a \<Rightarrow> a) marks,
                 if k \<in> set (mn_unmarked m) then m
                 else m\<lparr>mn_unmarked := k # mn_unmarked m, mn_alerts := mn_alerts m @ [''risk_no_mark'']\<rparr>))"

definition monitor_marks :: "ts \<Rightarrow> (string, rat) dict \<Rightarrow> monitor \<Rightarrow> (string, rat) dict \<times> monitor" where
  "monitor_marks now src m =
     (let lm = fold (\<lambda>(k, v). dset k v) src (mn_last_marks m)
      in fold mark_held (pb_positions (mn_book m) now) (lm, m\<lparr>mn_last_marks := lm\<rparr>))"

definition monitor_start_day :: "ts \<Rightarrow> (string, rat) dict \<Rightarrow> monitor \<Rightarrow> monitor \<times> unit result" where
  "monitor_start_day now src m =
     (let (marks, m1) = monitor_marks now src m
      in case equity (mn_book m1) marks of
           Inl e \<Rightarrow> (m1, Inl e)
         | Inr v \<Rightarrow>
             (case start_day now v (mn_tracker m1) of
                Inl e \<Rightarrow> (m1, Inl e)
              | Inr (st, tr) \<Rightarrow> (m1\<lparr>mn_tracker := tr\<rparr>, Inr ())))"

definition monitor_tick ::
  "ts \<Rightarrow> string option \<Rightarrow> (string, rat) dict \<Rightarrow> flat_env \<Rightarrow> monitor \<Rightarrow> monitor \<times> tick_report result" where
  "monitor_tick now halt src env m =
     (let (rearmed, kr1) = new_day now (mn_registry m)
      in case check_halt_file now halt kr1 of
           Inl e \<Rightarrow> (m\<lparr>mn_registry := kr1\<rparr>, Inl e)
         | Inr (halted_now, kr2) \<Rightarrow>
             (let (marks, m1) = monitor_marks now src (m\<lparr>mn_registry := kr2\<rparr>)
              in case equity (mn_book m1) marks of
                   Inl e \<Rightarrow> (m1, Inl e)
                 | Inr v \<Rightarrow>
                     (case unrealized_by_strategy (mn_book m1) marks now of
                        Inl e \<Rightarrow> (m1, Inl e)
                      | Inr unrealized \<Rightarrow>
                          (case risk_tick now v unrealized (mn_tracker m1) of
                             Inl e \<Rightarrow> (m1, Inl e)
                           | Inr (breaches, tr) \<Rightarrow>
                               (case apply_breaches now breaches kr2 of
                                  Inl e \<Rightarrow> (m1\<lparr>mn_tracker := tr\<rparr>, Inl e)
                                | Inr (tripped, kr3) \<Rightarrow>
                                    (let m2 = m1\<lparr>mn_tracker := tr, mn_registry := kr3\<rparr>
                                     in case flatten_all env marks (flattening kr3) 0 (mn_flat m2) of
                                          (fs, Inl e) \<Rightarrow> (m2\<lparr>mn_flat := fs\<rparr>, Inl e)
                                        | (fs, Inr remaining) \<Rightarrow>
                                            (m2\<lparr>mn_flat := fs\<rparr>,
                                             Inr \<lparr>tk_equity = v, tk_breaches = breaches, tk_tripped = tripped,
                                                  tk_halt_file = halted_now, tk_rearmed = rearmed,
                                                  tk_flatten_remaining = remaining\<rparr>)))))))"

record tick_input =
  ti_now :: ts
  ti_halt :: "string option"
  ti_marks :: "(string, rat) dict"
  ti_env :: flat_env

text \<open>The loop over the ticks until the stop: a failing tick is alerted and the loop goes on.\<close>

fun monitor_run :: "tick_input list \<Rightarrow> monitor \<Rightarrow> monitor" where
  "monitor_run [] m = m"
| "monitor_run (t # ts) m =
     monitor_run ts
       (case monitor_tick (ti_now t) (ti_halt t) (ti_marks t) (ti_env t) m of
          (m1, Inr rep) \<Rightarrow> m1
        | (m1, Inl e) \<Rightarrow> m1\<lparr>mn_alerts := mn_alerts m1 @ [''risk_tick_failed'']\<rparr>)"

subsection \<open>From a loss to the gate\<close>

lemma tripped_gate_refuses:
  assumes "switch_state kr GlobalScope global_name \<noteq> ARMED" "\<not> reduces_risk (i_kind i)" "0 < ins_lot_size (i_instrument i)"
  shows "risk_gate coid g mkt halt s tr kr now i q = 0"
proof (rule ccontr)
  assume "risk_gate coid g mkt halt s tr kr now i q \<noteq> 0"
  then have pos: "0 < risk_gate coid g mkt halt s tr kr now i q"
    by (auto simp: risk_gate_def split: sum.splits if_splits)
  then obtain c kr1 sn where r: "check_halt_file now halt kr = Inr (c, kr1)" "gate_snapshot g mkt s tr kr1 now (Some i) = Inr sn"
    "risk_gate coid g mkt halt s tr kr now i q
       = approved_qty (evaluate coid (ge_limits g) default_checks i sn q (gate_working (ge_limits g) s sn))"
    by (rule risk_gate_positive)
  have "ks_global (kill_state_of kr1) = ARMED"
    using system_clear [OF assms(2,3) pos [unfolded r(3)]] gate_snapshot_facts(2) [OF r(2)] by simp
  moreover have "kill_rank (switch_state kr GlobalScope global_name) \<le> kill_rank (switch_state kr1 GlobalScope global_name)"
    using halt_file_latched [OF r(1)] by (simp add: latched_def)
  ultimately show False
    using assms(1) by (cases "switch_state kr GlobalScope global_name") (auto simp: switch_state_def switch_of_def kill_state_of_def)
qed

lemma mark_held_keeps: "mn_tracker (snd (mark_held p r)) = mn_tracker (snd r)" "mn_registry (snd (mark_held p r)) = mn_registry (snd r)"
  "mn_flat (snd (mark_held p r)) = mn_flat (snd r)"
  by (auto simp: mark_held_def Let_def split: prod.splits)

lemma monitor_marks_keeps:
  "mn_tracker (snd (monitor_marks now src m)) = mn_tracker m" "mn_registry (snd (monitor_marks now src m)) = mn_registry m"
  "mn_flat (snd (monitor_marks now src m)) = mn_flat m"
proof -
  have "mn_tracker (snd (fold mark_held ps r)) = mn_tracker (snd r) \<and> mn_registry (snd (fold mark_held ps r)) = mn_registry (snd r)
      \<and> mn_flat (snd (fold mark_held ps r)) = mn_flat (snd r)" for ps r
    by (induction ps arbitrary: r) (simp_all add: mark_held_keeps)
  then show "mn_tracker (snd (monitor_marks now src m)) = mn_tracker m" "mn_registry (snd (monitor_marks now src m)) = mn_registry m"
    "mn_flat (snd (monitor_marks now src m)) = mn_flat m"
    by (simp_all add: monitor_marks_def Let_def)
qed

text \<open>What a successful tick did to the tracker and the switches.\<close>

lemma monitor_tick_parts:
  assumes "monitor_tick now halt src env m = (m', Inr rep)"
  obtains kr2 marks unrealized tr where
    "kill_run [KNewDay now, KHaltFile now halt] (mn_registry m) = Inr kr2"
    "equity (mn_book m) marks = Inr (tk_equity rep)" "unrealized_by_strategy (mn_book m) marks now = Inr unrealized"
    "risk_tick now (tk_equity rep) unrealized (mn_tracker m) = Inr (tk_breaches rep, tr)"
    "apply_breaches now (tk_breaches rep) kr2 = Inr (tk_tripped rep, mn_registry m')" "mn_tracker m' = tr"
proof -
  obtain rearmed kr1 where nd: "new_day now (mn_registry m) = (rearmed, kr1)" by fastforce
  obtain hn kr2 where hf: "check_halt_file now halt kr1 = Inr (hn, kr2)"
    using assms by (auto simp: monitor_tick_def nd split: sum.splits)
  obtain marks m1 where mm: "monitor_marks now src (m\<lparr>mn_registry := kr2\<rparr>) = (marks, m1)" by fastforce
  have m1: "mn_tracker m1 = mn_tracker m" "mn_flat m1 = mn_flat m"
    using monitor_marks_keeps [of now src "m\<lparr>mn_registry := kr2\<rparr>"] mm by simp_all
  note t = assms [unfolded monitor_tick_def nd hf mm Let_def prod.case sum.case m1]
  obtain v where v: "equity (mn_book m) marks = Inr v" using t by (auto split: sum.splits)
  obtain u where u: "unrealized_by_strategy (mn_book m) marks now = Inr u" using t by (auto simp: v split: sum.splits)
  obtain bs tr where bs: "risk_tick now v u (mn_tracker m) = Inr (bs, tr)" using t by (auto simp: v u split: sum.splits)
  obtain cs kr3 where kr3: "apply_breaches now bs kr2 = Inr (cs, kr3)" using t by (auto simp: v u bs split: sum.splits)
  have "tk_equity rep = v \<and> tk_breaches rep = bs \<and> tk_tripped rep = cs \<and> mn_registry m' = kr3 \<and> mn_tracker m' = tr"
    using t by (auto simp: v u bs kr3 split: sum.splits prod.splits)
  moreover have "kill_run [KNewDay now, KHaltFile now halt] (mn_registry m) = Inr kr2" by (simp add: nd hf)
  ultimately show ?thesis using that v u bs kr3 by blast
qed

lemma tick_finds_loss:
  assumes "rt_state tr = Some st" "ds_ist_date st = ist_date now" "(Pf PF_DAILY_LOSS_MTM, ''global'') \<notin> set (ds_breaches st)"
    and "0 < ds_sod_equity st" "risk_tick now v u tr = Inr (bs, tr')"
    and "dmul (ds_sod_equity st) (dec_of_float (rl_daily_loss_limit_pct (rt_limits tr))) \<le> dsub (ds_sod_equity st) v"
  shows "global_breach (rl_daily_loss_action (rt_limits tr)) (Pf PF_DAILY_LOSS_MTM) \<in> set bs"
proof -
  have c: "current_state now (Some v) tr = Inr (st, tr)" by (simp add: current_state_def assms(1,2))
  have "daily_loss_hit (rt_limits tr) (mark_equity now v st)" using assms(4,6) by (simp add: daily_loss_hit_def mark_equity_def)
  moreover have "ds_breaches (mark_equity now v st) = ds_breaches st" by (simp add: mark_equity_def)
  ultimately show ?thesis
    using assms(3,5) by (auto simp: risk_tick_def c Let_def found_breaches_def global_breach_def br_key_def)
qed

text \<open>C6: A day's loss stops every entry until an operator resumes. When a monitor tick on the day of the
  tracker's state, whose start-of-day equity is positive, marks the book at an equity that is down on the start of the
  day by the daily-loss limit or more, and the breach had not been raised that day, then from that tick on the gate approves nothing for any
  opening order, in any state of the order manager, the tracker and the market, through any trips,
  new days and restarts of the switches, as long as the global switch is not resumed and automatic
  re-arming is off.\<close>

theorem loss_stops_entries:
  assumes "kill_inv (mn_registry m)" "\<not> rl_rearm_on_new_day (kr_limits (mn_registry m))"
    and "rt_state (mn_tracker m) = Some st" "ds_ist_date st = ist_date now"
    and "(Pf PF_DAILY_LOSS_MTM, ''global'') \<notin> set (ds_breaches st)" "0 < ds_sod_equity st"
    and "monitor_tick now halt src env m = (m', Inr rep)"
    and "dmul (ds_sod_equity st) (dec_of_float (rl_daily_loss_limit_pct (rt_limits (mn_tracker m))))
           \<le> dsub (ds_sod_equity st) (tk_equity rep)"
    and "kill_run ops (mn_registry m') = Inr kr" "list_all (\<lambda>op. \<not> resumes GlobalScope global_name op) ops"
    and "\<not> reduces_risk (i_kind i)" "0 < ins_lot_size (i_instrument i)"
  shows "risk_gate coid g mkt halt' s tr kr now' i q = 0"
proof -
  obtain kr2 marks u tr' where t: "kill_run [KNewDay now, KHaltFile now halt] (mn_registry m) = Inr kr2"
    "risk_tick now (tk_equity rep) u (mn_tracker m) = Inr (tk_breaches rep, tr')"
    "apply_breaches now (tk_breaches rep) kr2 = Inr (tk_tripped rep, mn_registry m')"
    by (rule monitor_tick_parts [OF assms(7)])
  let ?b = "global_breach (rl_daily_loss_action (rt_limits (mn_tracker m))) (Pf PF_DAILY_LOSS_MTM)"
  have b: "?b \<in> set (tk_breaches rep)" by (rule tick_finds_loss [OF assms(3-6) t(2) assms(8)])
  have all: "kill_run [KNewDay now, KHaltFile now halt, KApply now (tk_breaches rep)] (mn_registry m) = Inr (mn_registry m')"
    using t(1,3) by (auto split: sum.splits)
  have inv: "kill_inv (mn_registry m')" using kill_run_keeps [OF assms(1) all] by blast
  have lim: "kr_limits (mn_registry m') = kr_limits (mn_registry m)" by (rule kill_run_limits [OF assms(1) all])
  have "kill_rank (breach_target ?b) \<le> kill_rank (switch_state (mn_registry m') GlobalScope ''global'')"
    using apply_breaches_latched [of now "tk_breaches rep" kr2] b t(3) by (auto simp: global_breach_def)
  then have "kill_rank (breach_target ?b) \<le> kill_rank (switch_state (mn_registry m') GlobalScope global_name)"
    by (simp add: switch_state_def switch_of_def)
  moreover have "kill_rank (switch_state (mn_registry m') GlobalScope global_name) \<le> kill_rank (switch_state kr GlobalScope global_name)"
    using kill_run_keeps [OF inv assms(9), of GlobalScope global_name] assms(2,10) lim by simp
  moreover have "0 < kill_rank (breach_target ?b)" by (simp add: breach_target_def)
  ultimately have "switch_state kr GlobalScope global_name \<noteq> ARMED" by auto
  then show ?thesis by (rule tripped_gate_refuses [OF _ assms(11,12)])
qed

definition sample_flat_env :: flat_env where
  "sample_flat_env =
     \<lparr>fe_coid = id, fe_isoformat = (\<lambda>d. ''2026-01-23''), fe_new_id = (\<lambda>p. ''d'' @ product_value (p_product p)), fe_release = (\<lambda>p. []),
      fe_gate = (\<lambda>s. Some (\<lambda>i q. case q of None \<Rightarrow> 0 | Some n \<Rightarrow> n)), fe_place = exit_place, fe_limits = sample_limits,
      fe_instruments = [], fe_now = combine_ist 20476 (hm 10 0)\<rparr>"

definition losing_monitor :: monitor where
  "losing_monitor =
     \<lparr>mn_last_marks = [], mn_unmarked = [],
      mn_tracker = idle_tracker\<lparr>rt_state := Some (rolled_state ''main'' 20476 100000 None), rt_saved := Some (rolled_state ''main'' 20476 100000 None)\<rparr>,
      mn_registry = new_registry sample_limits None,
      mn_flat = \<lparr>fs_attempts = [], fs_escalated = [], fs_oms = funded_oms\<lparr>om_book := new_book ''main'' 93000\<rparr>, fs_alerts = []\<rparr>,
      mn_alerts = []\<rparr>"

lemma losing_tick:
  "case snd (monitor_tick (combine_ist 20476 (hm 10 0)) None [] sample_flat_env losing_monitor) of
     Inl e \<Rightarrow> False
   | Inr rep \<Rightarrow> tk_equity rep = 93000 \<and> dmul 100000 (dec_of_float (rl_daily_loss_limit_pct sample_limits)) \<le> dsub 100000 (tk_equity rep)"
  by code_simp

theorem loss_stops_entries_witness:
  "\<exists>m' rep. monitor_tick (combine_ist 20476 (hm 10 0)) None [] sample_flat_env losing_monitor = (m', Inr rep)
     \<and> risk_gate id quiet_env quiet_market None funded_oms idle_tracker (mn_registry m') (combine_ist 20476 (hm 9 30)) sample_open (Some 500) = 0
     \<and> quiet_gate sample_open (Some 500) = 100"
proof -
  let ?t = "monitor_tick (combine_ist 20476 (hm 10 0)) None [] sample_flat_env losing_monitor"
  obtain m' rep where t: "?t = (m', Inr rep)" using losing_tick by (cases ?t; cases "snd ?t") auto
  have e: "dmul 100000 (dec_of_float (rl_daily_loss_limit_pct sample_limits)) \<le> dsub 100000 (tk_equity rep)"
    using losing_tick [unfolded t snd_conv sum.case] by (rule conjunct2)
  let ?st = "rolled_state ''main'' 20476 100000 None"
  have "kill_inv (mn_registry losing_monitor)" "\<not> rl_rearm_on_new_day (kr_limits (mn_registry losing_monitor))"
    "rt_state (mn_tracker losing_monitor) = Some ?st" "rt_limits (mn_tracker losing_monitor) = sample_limits"
    by (simp_all add: losing_monitor_def new_registry_def kill_inv_def sample_limits_def idle_tracker_def)
  moreover have "ds_ist_date ?st = ist_date (combine_ist 20476 (hm 10 0))" by code_simp
  moreover have "(Pf PF_DAILY_LOSS_MTM, ''global'') \<notin> set (ds_breaches ?st)" "0 < ds_sod_equity ?st" "ds_sod_equity ?st = 100000"
    by (simp_all add: rolled_state_def)
  moreover have "kill_run [] (mn_registry m') = Inr (mn_registry m')" "list_all (\<lambda>op. \<not> resumes GlobalScope global_name op) []"
    by simp_all
  moreover have "\<not> reduces_risk (i_kind sample_open)" "0 < ins_lot_size (i_instrument sample_open)"
    by (simp_all add: sample_open_def nse_equity_def reduces_risk_def)
  ultimately have "risk_gate id quiet_env quiet_market None funded_oms idle_tracker (mn_registry m') (combine_ist 20476 (hm 9 30)) sample_open (Some 500) = 0"
    using loss_stops_entries [of losing_monitor ?st "combine_ist 20476 (hm 10 0)" None "[]" sample_flat_env m' rep "[]" "mn_registry m'" sample_open]
      t e by simp
  with t quiet_gate_approves show ?thesis by blast
qed

subsection \<open>Two products of one instrument\<close>

text \<open>The intent id of a flatten names the strategy, the instrument, the day and the attempt, but not
  the product, while the attempts are counted per product. Two products of one instrument held
  by one strategy get the same id on the same attempt, and the second is taken for a duplicate.\<close>

definition two_products :: oms where
  "two_products =
     (case fold_fills apply_fill (new_book ''main'' 5000)
            [(sample_fill ''f1'' BUY 10 100, MIS, ''momentum'', ''entry''), (sample_fill ''f2'' BUY 4 100, CNC, ''momentum'', ''entry'')] of
        Inl e \<Rightarrow> funded_oms
      | Inr pb \<Rightarrow> funded_oms\<lparr>om_book := pb\<rparr>)"

theorem flatten_ids_collide:
  "map p_quantity (pb_positions (om_book two_products) 0) = [4, 10]
   \<and> (case flatten_step sample_flat_env [] None \<lparr>fs_attempts = [], fs_escalated = [], fs_oms = two_products, fs_alerts = []\<rparr> of
        (fs, Inr remaining) \<Rightarrow> remaining = 2 \<and> map (i_product \<circ> o_intent \<circ> snd) (om_orders (fs_oms fs)) = [CNC]
          \<and> map snd (fs_attempts fs) = [1, 1]
      | (fs, Inl e) \<Rightarrow> False)"
  by code_simp

end
