(* ===== verification/Exit_Manager.thy ===== *)
theory Exit_Manager
  imports Risk_Monitor
begin

section \<open>The exit manager\<close>

text \<open>
  \<^verbatim>\<open>src/oms/exit_manager.py\<close>: stops, targets, partial and time exits of the delivery positions.
  The manager keeps references to position objects and mutates them across its awaits, while the
  fill listener may replace or drop the entry of the dictionary meanwhile; so the objects live in a
  store (\<open>xm_objs\<close>, an address is an index) and the dictionary maps a key to an address.

  An operation returns the state it leaves together with its result, a raise being \<open>Inl\<close>. What the
  code awaits is the record \<open>exit_env\<close>: the notices the broker delivers while a placement or a
  cancellation is awaited with the broker's answer, the gate, the fresh decision ids, the ISO text of a
  date and the clock. The listener runs after each fill of a known order, as the order manager calls it.
\<close>

subsection \<open>State\<close>

record exit_policy =
  xp_k_stop_atr :: rat
  xp_k_target_atr :: rat
  xp_k_trail_atr :: "rat option"
  xp_max_hold_days :: int
  xp_partial_at_r :: "rat option"
  xp_partial_fraction :: rat

definition default_exit_policy :: exit_policy where
  "default_exit_policy =
     \<lparr>xp_k_stop_atr = 2, xp_k_target_atr = 3, xp_k_trail_atr = Some 2, xp_max_hold_days = 10, xp_partial_at_r = None,
      xp_partial_fraction = 1 / 2\<rparr>"

definition exit_policy_ok :: "exit_policy \<Rightarrow> bool" where
  "exit_policy_ok p =
     (\<not> (xp_k_stop_atr p \<le> 0 \<or> xp_k_target_atr p \<le> 0) \<and> \<not> xp_max_hold_days p < 1
      \<and> (0 < xp_partial_fraction p \<and> xp_partial_fraction p < 1))"

record managed =
  mp_instrument :: instrument
  mp_product :: product
  mp_strategy :: string
  mp_entry_decision_id :: string
  mp_signal_bar_date :: date
  mp_entry_price :: rat
  mp_quantity :: int
  mp_stop_price :: rat
  mp_target_price :: rat
  mp_r_distance :: rat
  mp_atr :: rat
  mp_entered_on :: date
  mp_highest_close :: rat
  mp_partial_taken :: bool
  mp_stop_coid :: "string option"
  mp_stop_version :: nat
  mp_closing :: bool

definition key_text :: "string \<Rightarrow> product \<Rightarrow> string" where
  "key_text ik pr = ik @ ''|'' @ product_value pr"

definition mp_key :: "managed \<Rightarrow> string" where
  "mp_key p = key_text (ins_key (mp_instrument p)) (mp_product p)"

record pending_entry =
  pe_atr :: rat
  pe_strategy :: string
  pe_decision_id :: string
  pe_bar_date :: date

record exits =
  xm_policy :: exit_policy
  xm_calendar :: nse_calendar
  xm_oms :: oms
  xm_objs :: "managed list"
  xm_positions :: "(string, nat) dict"
  xm_pending :: "(string, pending_entry) dict"
  xm_stale :: "string list"
  xm_alerts :: "(string \<times> string) list"
  xm_saved :: "((string, managed) dict \<times> (string, pending_entry) dict) option"

text \<open>The saved text is represented by the positions and pending entries it encodes; a restart
  allocates a fresh object per position.\<close>

definition new_exits ::
  "exit_policy \<Rightarrow> nse_calendar \<Rightarrow> oms \<Rightarrow> ((string, managed) dict \<times> (string, pending_entry) dict) option \<Rightarrow> exits" where
  "new_exits policy cal s saved =
     (let (ps, pend) = (case saved of None \<Rightarrow> ([], []) | Some st \<Rightarrow> st)
      in \<lparr>xm_policy = policy, xm_calendar = cal, xm_oms = s, xm_objs = map snd ps,
          xm_positions = zip (map fst ps) [0..<length ps], xm_pending = pend, xm_stale = [], xm_alerts = [], xm_saved = saved\<rparr>)"

definition mobj :: "exits \<Rightarrow> nat \<Rightarrow> managed" where
  "mobj x a = xm_objs x ! a"

definition set_mobj :: "nat \<Rightarrow> (managed \<Rightarrow> managed) \<Rightarrow> exits \<Rightarrow> exits" where
  "set_mobj a f x = x\<lparr>xm_objs := (xm_objs x)[a := f (mobj x a)]\<rparr>"

definition alloc_pos :: "string \<Rightarrow> managed \<Rightarrow> exits \<Rightarrow> exits" where
  "alloc_pos k p x =
     x\<lparr>xm_objs := xm_objs x @ [p], xm_positions := dset k (length (xm_objs x)) (xm_positions x)\<rparr>"

definition managed_at :: "exits \<Rightarrow> string \<Rightarrow> managed option" where
  "managed_at x k = map_option (mobj x) (dget (xm_positions x) k)"

definition stale_add :: "string \<Rightarrow> exits \<Rightarrow> exits" where
  "stale_add k x = x\<lparr>xm_stale := List.insert k (xm_stale x)\<rparr>"

definition stale_discard :: "string \<Rightarrow> exits \<Rightarrow> exits" where
  "stale_discard k x = x\<lparr>xm_stale := removeAll k (xm_stale x)\<rparr>"

definition exit_alert :: "string \<Rightarrow> string \<Rightarrow> exits \<Rightarrow> exits" where
  "exit_alert level k x = x\<lparr>xm_alerts := xm_alerts x @ [(level, k)]\<rparr>"

definition exits_save :: "exits \<Rightarrow> exits" where
  "exits_save x =
     x\<lparr>xm_saved := Some (map (\<lambda>(k, a). (k, mobj x a)) (xm_positions x), xm_pending x)\<rparr>"

subsection \<open>Fills\<close>

definition expect_entry :: "(string \<Rightarrow> string) \<Rightarrow> order_intent \<Rightarrow> rat \<Rightarrow> date \<Rightarrow> exits \<Rightarrow> exits \<times> unit result" where
  "expect_entry coid i atr bar x =
     (if atr \<le> 0 then (x, Inl ValueError)
      else (exits_save (x\<lparr>xm_pending := dset (coid (i_intent_id i))
              \<lparr>pe_atr = atr, pe_strategy = i_strategy i, pe_decision_id = i_decision_id i, pe_bar_date = bar\<rparr> (xm_pending x)\<rparr>), Inr ()))"

definition exit_levels :: "exit_policy \<Rightarrow> rat \<Rightarrow> rat \<Rightarrow> instrument \<Rightarrow> rat \<times> rat" where
  "exit_levels pol entry atr ins =
     (let t = ins_tick_size ins;
          stop = round_to_tick (dsub entry (dmul (dec_of_float (xp_k_stop_atr pol)) atr)) t SELL;
          target = round_to_tick (dadd entry (dmul (dec_of_float (xp_k_target_atr pol)) atr)) t BUY
      in (max stop t, target))"

definition entry_source :: "exits \<Rightarrow> order \<Rightarrow> string \<Rightarrow> pending_entry option" where
  "entry_source x od k =
     (case dget (xm_pending x) (o_client_order_id od) of
        Some pe \<Rightarrow> Some pe
      | None \<Rightarrow>
          (case managed_at x k of
             Some p \<Rightarrow> Some \<lparr>pe_atr = mp_atr p, pe_strategy = mp_strategy p, pe_decision_id = mp_entry_decision_id p,
                             pe_bar_date = mp_signal_bar_date p\<rparr>
           | None \<Rightarrow> None))"

definition entry_managed :: "exits \<Rightarrow> fill \<Rightarrow> order_intent \<Rightarrow> int \<Rightarrow> pending_entry \<Rightarrow> managed option \<Rightarrow> managed" where
  "entry_managed x f i held pe old =
     (let entry = pb_position (om_book (xm_oms x)) (i_key i) (i_product i) (f_ts f);
          price = (case truthy (p_avg_price entry) of Some a \<Rightarrow> a | None \<Rightarrow> f_price f);
          (stop, target) = exit_levels (xm_policy x) price (pe_atr pe) (i_instrument i)
      in \<lparr>mp_instrument = i_instrument i, mp_product = i_product i, mp_strategy = pe_strategy pe,
          mp_entry_decision_id = pe_decision_id pe, mp_signal_bar_date = pe_bar_date pe, mp_entry_price = price, mp_quantity = held,
          mp_stop_price = stop, mp_target_price = target, mp_r_distance = dsub price stop, mp_atr = pe_atr pe,
          mp_entered_on = (case old of Some q \<Rightarrow> mp_entered_on q | None \<Rightarrow> ist_date (f_ts f)),
          mp_highest_close = price,
          mp_partial_taken = (case old of Some q \<Rightarrow> mp_partial_taken q | None \<Rightarrow> False),
          mp_stop_coid = (case old of Some q \<Rightarrow> mp_stop_coid q | None \<Rightarrow> None),
          mp_stop_version = (case old of Some q \<Rightarrow> mp_stop_version q | None \<Rightarrow> 0), mp_closing = False\<rparr>)"

definition on_entry_fill :: "fill \<Rightarrow> order \<Rightarrow> string \<Rightarrow> int \<Rightarrow> exits \<Rightarrow> exits" where
  "on_entry_fill f od k held x =
     (case entry_source x od k of
        None \<Rightarrow> exit_alert ''WARNING'' ''exit_unmanaged_entry'' x
      | Some pe \<Rightarrow>
          (let x1 = alloc_pos k (entry_managed x f (o_intent od) held pe (managed_at x k)) x;
               done_pending = dpop (o_client_order_id od) (xm_pending x1)
           in stale_add k (x1\<lparr>xm_pending := (if is_terminal (o_status od) then done_pending else xm_pending x1)\<rparr>)))"

definition exits_on_fill :: "fill \<Rightarrow> order \<Rightarrow> exits \<Rightarrow> exits" where
  "exits_on_fill f od x =
     (let i = o_intent od; k = key_text (i_key i) (i_product i);
          held = pb_quantity (om_book (xm_oms x)) (i_key i) (i_product i)
      in if \<not> i_reduce_only i then exits_save (on_entry_fill f od k held x)
         else case dget (xm_positions x) k of
                None \<Rightarrow> x
              | Some a \<Rightarrow>
                  if held \<le> 0 then exits_save (x\<lparr>xm_positions := dpop k (xm_positions x)\<rparr>)
                  else exits_save (stale_add k (set_mobj a (\<lambda>p. p\<lparr>mp_quantity := held,
                         mp_partial_taken := (i_reason i = RsPartial \<or> mp_partial_taken p)\<rparr>) x)))"

text \<open>One notice at a time, the listener after a new fill of a known order.\<close>

definition exits_fill :: "fill \<Rightarrow> exits \<Rightarrow> exits \<times> unit result" where
  "exits_fill f x =
     (case on_fill f (xm_oms x) of
        Inl e \<Rightarrow> (x, Inl e)
      | Inr s \<Rightarrow>
          (let x1 = x\<lparr>xm_oms := s\<rparr>
           in if has_seen (om_book (xm_oms x)) (f_fill_id f) then (x1, Inr ())
              else case dget (om_orders (xm_oms x)) (f_client_order_id f) of
                     None \<Rightarrow> (x1, Inr ())
                   | Some od \<Rightarrow> (exits_on_fill f (the_order s od) x1, Inr ())))"

fun exits_notices :: "notice list \<Rightarrow> exits \<Rightarrow> exits \<times> unit result" where
  "exits_notices [] x = (x, Inr ())"
| "exits_notices (UpdateNotice sn # ns) x = exits_notices ns (x\<lparr>xm_oms := on_update sn (xm_oms x)\<rparr>)"
| "exits_notices (FillNotice f # ns) x =
     (case exits_fill f x of (x1, Inl e) \<Rightarrow> (x1, Inl e) | (x1, Inr u) \<Rightarrow> exits_notices ns x1)"

subsection \<open>Orders\<close>

record exit_env =
  xe_coid :: "string \<Rightarrow> string"
  xe_isoformat :: "date \<Rightarrow> string"
  xe_new_id :: "string \<Rightarrow> string"
  xe_gate :: "oms \<Rightarrow> gate option"
  xe_place :: "order \<Rightarrow> notice list \<times> (broker_error + broker_ack)"
  xe_cancel :: "oms \<Rightarrow> string \<Rightarrow> notice list \<times> broker_error option"
  xe_now :: ts

type_synonym 'a exit_result = "exits \<times> (broker_error + 'a)"

definition price_ok :: "rat option \<Rightarrow> bool" where
  "price_ok x = (case x of None \<Rightarrow> True | Some v \<Rightarrow> 0 < v)"

definition intent_fields_ok :: "order_intent \<Rightarrow> bool" where
  "intent_fields_ok i =
     (i_intent_id i \<noteq> [] \<and> i_decision_id i \<noteq> [] \<and> i_book_id i \<noteq> [] \<and> i_strategy i \<noteq> []
      \<and> list_all price_ok [i_limit_price i, i_trigger_price i, i_stop_price i, i_target_price i])"

definition exit_intent ::
  "exit_env \<Rightarrow> exits \<Rightarrow> managed \<Rightarrow> string \<Rightarrow> intent_kind \<Rightarrow> intent_reason \<Rightarrow> int \<Rightarrow> order_type \<Rightarrow> rat option \<Rightarrow> rat option
    \<Rightarrow> order_intent result" where
  "exit_intent env x p leg kind reason qty ot trigger price =
     (case intent_id (xe_isoformat env) (om_book_id (xm_oms x)) (mp_strategy p) (ins_key (mp_instrument p))
             (mp_signal_bar_date p) leg of
        Inl e \<Rightarrow> Inl e
      | Inr iid \<Rightarrow>
          (let i = \<lparr>i_intent_id = iid, i_decision_id = xe_new_id env iid, i_parent_decision_id = Some (mp_entry_decision_id p),
                    i_book_id = om_book_id (xm_oms x), i_strategy = mp_strategy p, i_signal_id = None,
                    i_instrument = mp_instrument p, i_side = SELL, i_kind = kind, i_quantity = Some qty,
                    i_order_type = ot, i_product = mp_product p, i_validity = DAY, i_limit_price = None,
                    i_trigger_price = trigger, i_stop_price = None, i_target_price = None, i_reduce_only = True,
                    i_decision_price = (case truthy price of Some v \<Rightarrow> v | None \<Rightarrow> mp_stop_price p),
                    i_decision_ts = xe_now env, i_reason = reason, i_source = ExitManagerSrc\<rparr>
           in if intent_valid i \<and> intent_fields_ok i then Inr i else Inl ValueError))"

text \<open>\<open>OMS.submit\<close> and \<open>OMS.cancel\<close> with the listener in the notices.\<close>

definition exits_submit :: "exit_env \<Rightarrow> order_intent \<Rightarrow> exits \<Rightarrow> submit_status exit_result" where
  "exits_submit env i x =
     (let s = xm_oms x; c = xe_coid env (i_intent_id i)
      in if i_book_id i \<noteq> om_book_id s then (x, Inr StBlocked)
         else case xe_gate env s of
           None \<Rightarrow> (x, Inr StBlocked)
         | Some g \<Rightarrow>
             (case dget (om_orders s) c of
                Some existing \<Rightarrow> (x, Inr StDuplicate)
              | None \<Rightarrow>
                  (case gated_qty s g i None of
                     None \<Rightarrow> (x, Inr StBlocked)
                   | Some qty \<Rightarrow>
                       let od = make_order c i qty (xe_now env);
                           (ns, r) = xe_place env od
                       in (case exits_notices ns (x\<lparr>xm_oms := register od s\<rparr>) of
                             (x1, Inl e) \<Rightarrow> (x1, Inl (OtherError e))
                           | (x1, Inr u) \<Rightarrow>
                               (let (st, s1) = place_result od r (xm_oms x1) in (x1\<lparr>xm_oms := s1\<rparr>, Inr st))))))"

definition exits_cancel :: "exit_env \<Rightarrow> string \<Rightarrow> exits \<Rightarrow> unit exit_result" where
  "exits_cancel env c x =
     (case cancel_target (xm_oms x) c of
        None \<Rightarrow> (x, Inr ())
      | Some b \<Rightarrow>
          (let (ns, r) = xe_cancel env (xm_oms x) b
           in case exits_notices ns x of
                (x1, Inl e) \<Rightarrow> (x1, Inl (OtherError e))
              | (x1, Inr u) \<Rightarrow> (case r of None \<Rightarrow> (x1, Inr ()) | Some e \<Rightarrow> (x1, Inl e))))"

subsection \<open>Actions\<close>

definition cancel_stop :: "exit_env \<Rightarrow> nat \<Rightarrow> exits \<Rightarrow> unit exit_result" where
  "cancel_stop env a x =
     (case mp_stop_coid (mobj x a) of
        None \<Rightarrow> (x, Inr ())
      | Some c \<Rightarrow>
          (case exits_cancel env c x of
             (x1, Inl e) \<Rightarrow> (x1, Inl e)
           | (x1, Inr u) \<Rightarrow> (set_mobj a (\<lambda>p. p\<lparr>mp_stop_coid := None\<rparr>) x1, Inr ())))"

text \<open>The intent is built, which may raise, and submitted.\<close>

definition send_exit ::
  "exit_env \<Rightarrow> nat \<Rightarrow> string \<Rightarrow> intent_kind \<Rightarrow> intent_reason \<Rightarrow> int \<Rightarrow> order_type \<Rightarrow> rat option \<Rightarrow> rat option
    \<Rightarrow> exits \<Rightarrow> (string \<times> submit_status) exit_result" where
  "send_exit env a leg kind reason qty ot trigger price x =
     (case exit_intent env x (mobj x a) leg kind reason qty ot trigger price of
        Inl e \<Rightarrow> (x, Inl (OtherError e))
      | Inr i \<Rightarrow>
          (case exits_submit env i x of
             (x1, Inl e) \<Rightarrow> (x1, Inl e)
           | (x1, Inr st) \<Rightarrow> (x1, Inr (xe_coid env (i_intent_id i), st))))"

definition exit_all :: "exit_env \<Rightarrow> nat \<Rightarrow> intent_reason \<Rightarrow> string \<Rightarrow> rat option \<Rightarrow> exits \<Rightarrow> unit exit_result" where
  "exit_all env a reason leg price x =
     (case cancel_stop env a x of
        (x1, Inl e) \<Rightarrow> (x1, Inl e)
      | (x1, Inr u) \<Rightarrow>
          (case send_exit env a leg KClose reason (mp_quantity (mobj x1 a)) MARKET None price x1 of
             (x2, Inl e) \<Rightarrow> (x2, Inl e)
           | (x2, Inr (c, st)) \<Rightarrow>
               (if accepted st then (set_mobj a (\<lambda>p. p\<lparr>mp_closing := True\<rparr>) x2, Inr ())
                else (stale_add (mp_key (mobj x2 a)) (exit_alert ''WARNING'' ''exit_not_submitted'' x2), Inr ()))))"

definition partial_qty :: "exit_policy \<Rightarrow> managed \<Rightarrow> int" where
  "partial_qty pol p =
     (let l = ins_lot_size (mp_instrument p)
      in py_int (fmul (fl64 (of_int (mp_quantity p))) (xp_partial_fraction pol)) div l * l)"

definition exit_partial :: "exit_env \<Rightarrow> nat \<Rightarrow> rat \<Rightarrow> exits \<Rightarrow> unit exit_result" where
  "exit_partial env a price x =
     (let qty = partial_qty (xm_policy x) (mobj x a)
      in if qty \<le> 0 \<or> mp_quantity (mobj x a) \<le> qty then (set_mobj a (\<lambda>p. p\<lparr>mp_partial_taken := True\<rparr>) x, Inr ())
         else case cancel_stop env a x of
           (x1, Inl e) \<Rightarrow> (x1, Inl e)
         | (x1, Inr u) \<Rightarrow>
             (case send_exit env a ''partial'' KReduce RsPartial qty MARKET None (Some price) x1 of
                (x2, Inl e) \<Rightarrow> (x2, Inl e)
              | (x2, Inr (c, st)) \<Rightarrow>
                  (let x3 = (if accepted st then x2 else exit_alert ''WARNING'' ''exit_not_submitted'' x2);
                       x4 = set_mobj a (\<lambda>p. p\<lparr>mp_partial_taken := True\<rparr>) x3
                   in (stale_add (mp_key (mobj x4 a)) x4, Inr ()))))"

subsection \<open>Stops\<close>

definition live_stop :: "oms \<Rightarrow> managed \<Rightarrow> order option" where
  "live_stop s p =
     map_option snd (List.find (\<lambda>(c, od). i_reduce_only (o_intent od) \<and> i_order_type (o_intent od) = SL_M
       \<and> i_key (o_intent od) = ins_key (mp_instrument p) \<and> i_product (o_intent od) = mp_product p
       \<and> \<not> is_terminal (o_status od)) (om_orders s))"

definition stop_leg :: "exit_env \<Rightarrow> nat \<Rightarrow> string" where
  "stop_leg env n = ''stop-'' @ xe_isoformat env (ist_date (xe_now env)) @ ''-v'' @ nat_str n"

definition place_stop :: "exit_env \<Rightarrow> string \<Rightarrow> nat \<Rightarrow> exits \<Rightarrow> unit exit_result" where
  "place_stop env k a x =
     (let x1 = set_mobj a (\<lambda>p. p\<lparr>mp_stop_version := mp_stop_version p + 1\<rparr>) x; p = mobj x1 a
      in case send_exit env a (stop_leg env (mp_stop_version p)) KClose RsStop (mp_quantity p) SL_M
                (Some (mp_stop_price p)) (Some (mp_stop_price p)) x1 of
           (x2, Inl e) \<Rightarrow> (x2, Inl e)
         | (x2, Inr (c, st)) \<Rightarrow>
             (if accepted st then (stale_discard k (set_mobj a (\<lambda>p. p\<lparr>mp_stop_coid := Some c\<rparr>) x2), Inr ())
              else (exit_alert ''WARNING'' ''exit_stop_not_placed'' x2, Inr ())))"

text \<open>The stop still resting at the broker that a position without one adopts.\<close>

definition adoptable :: "managed \<Rightarrow> order \<Rightarrow> rat option" where
  "adoptable p od = (if remaining_qty od = mp_quantity p then truthy (i_trigger_price (o_intent od)) else None)"

definition clear_old_stop :: "exit_env \<Rightarrow> nat \<Rightarrow> exits \<Rightarrow> unit exit_result" where
  "clear_old_stop env a x =
     (case mp_stop_coid (mobj x a) of
        None \<Rightarrow>
          (case live_stop (xm_oms x) (mobj x a) of
             None \<Rightarrow> (x, Inr ())
           | Some od \<Rightarrow> exits_cancel env (o_client_order_id od) x)
      | Some c \<Rightarrow>
          (case dget (om_orders (xm_oms x)) c of
             Some od \<Rightarrow> if is_terminal (o_status od) then (x, Inr ()) else exits_cancel env c x
           | None \<Rightarrow> (x, Inr ())))"

definition refresh_one :: "exit_env \<Rightarrow> string \<Rightarrow> exits \<Rightarrow> unit exit_result" where
  "refresh_one env k x =
     (case dget (xm_positions x) k of
        None \<Rightarrow> (stale_discard k x, Inr ())
      | Some a \<Rightarrow>
          (let p = mobj x a;
               found = (if mp_stop_coid p = None then live_stop (xm_oms x) p else None)
           in if mp_closing p \<or> mp_quantity p \<le> 0 then (stale_discard k x, Inr ())
              else case (case found of None \<Rightarrow> None | Some od \<Rightarrow> adoptable p od) of
                Some t \<Rightarrow>
                  (stale_discard k (set_mobj a (\<lambda>p. p\<lparr>mp_stop_coid := map_option o_client_order_id found,
                     mp_stop_price := t\<rparr>) x), Inr ())
              | None \<Rightarrow>
                  (case clear_old_stop env a x of
                     (x1, Inl e) \<Rightarrow> (x1, Inl e)
                   | (x1, Inr u) \<Rightarrow> place_stop env k a x1)))"

fun refresh_keys :: "exit_env \<Rightarrow> string list \<Rightarrow> exits \<Rightarrow> unit exit_result" where
  "refresh_keys env [] x = (x, Inr ())"
| "refresh_keys env (k # ks) x =
     (case refresh_one env k x of (x1, Inl e) \<Rightarrow> (x1, Inl e) | (x1, Inr u) \<Rightarrow> refresh_keys env ks x1)"

definition saved_ok :: "unit exit_result \<Rightarrow> unit exit_result" where
  "saved_ok r = (case r of (x, Inl e) \<Rightarrow> (x, Inl e) | (x, Inr u) \<Rightarrow> (exits_save x, Inr ()))"

definition refresh_stops :: "exit_env \<Rightarrow> exits \<Rightarrow> unit exit_result" where
  "refresh_stops env x = saved_ok (refresh_keys env (sort (xm_stale x)) x)"

subsection \<open>Quotes, sessions, flattening\<close>

definition at_partial :: "exit_policy \<Rightarrow> managed \<Rightarrow> rat \<Rightarrow> bool" where
  "at_partial pol p price =
     (case xp_partial_at_r pol of
        None \<Rightarrow> False
      | Some r \<Rightarrow> \<not> mp_partial_taken p \<and> dadd (mp_entry_price p) (dmul (dec_of_float r) (mp_r_distance p)) \<le> price)"

definition quote_one :: "exit_env \<Rightarrow> string \<Rightarrow> rat \<Rightarrow> nat \<Rightarrow> exits \<Rightarrow> unit exit_result" where
  "quote_one env ik price a x =
     (let p = mobj x a
      in if ins_key (mp_instrument p) \<noteq> ik \<or> mp_closing p then (x, Inr ())
         else if mp_target_price p \<le> price then exit_all env a RsTarget ''target'' (Some price) x
         else if at_partial (xm_policy x) p price then exit_partial env a price x
         else (x, Inr ()))"

fun each_pos :: "(nat \<Rightarrow> exits \<Rightarrow> unit exit_result) \<Rightarrow> nat list \<Rightarrow> exits \<Rightarrow> unit exit_result" where
  "each_pos f [] x = (x, Inr ())"
| "each_pos f (a # as) x = (case f a x of (x1, Inl e) \<Rightarrow> (x1, Inl e) | (x1, Inr u) \<Rightarrow> each_pos f as x1)"

definition exits_on_quote :: "exit_env \<Rightarrow> quote \<Rightarrow> exits \<Rightarrow> unit exit_result" where
  "exits_on_quote env q x =
     (case refresh_stops env x of
        (x1, Inl e) \<Rightarrow> (x1, Inl e)
      | (x1, Inr u) \<Rightarrow>
          saved_ok (each_pos (quote_one env (q_instrument_key q) (dec_of_float (q_ltp q))) (map snd (xm_positions x1)) x1))"

definition trailed :: "exit_policy \<Rightarrow> (string, rat) dict \<Rightarrow> (string, rat) dict \<Rightarrow> managed \<Rightarrow> managed" where
  "trailed pol atr closes p =
     (let k = ins_key (mp_instrument p);
          high = (case dget closes k of None \<Rightarrow> mp_highest_close p | Some c \<Rightarrow> max (mp_highest_close p) c);
          new_atr = dget_or (mp_atr p) atr k;
          stop = (case xp_k_trail_atr pol of
                    None \<Rightarrow> mp_stop_price p
                  | Some m \<Rightarrow>
                      (let trail = round_to_tick (dsub high (dmul (dec_of_float m) new_atr)) (ins_tick_size (mp_instrument p)) SELL
                       in if mp_stop_price p < trail then trail else mp_stop_price p))
      in p\<lparr>mp_highest_close := high, mp_stop_price := stop, mp_stop_coid := None\<rparr>)"

definition session_one ::
  "exit_env \<Rightarrow> date \<Rightarrow> (string, rat) dict \<Rightarrow> (string, rat) dict \<Rightarrow> (string \<times> nat) \<Rightarrow> exits \<Rightarrow> unit exit_result" where
  "session_one env day atr closes ka x =
     (case ka of (k, a) \<Rightarrow>
        let p = mobj x a
        in if mp_closing p then (x, Inr ())
           else case trading_days (xm_calendar x) (mp_entered_on p) day of
             Inl e \<Rightarrow> (x, Inl (OtherError e))
           | Inr ds \<Rightarrow>
               (if xp_max_hold_days (xm_policy x) \<le> int (length ds) - 1
                then exit_all env a RsTime (''time-'' @ xe_isoformat env day) None x
                else (stale_add k (set_mobj a (trailed (xm_policy x) atr closes) x), Inr ())))"

fun session_loop ::
  "exit_env \<Rightarrow> date \<Rightarrow> (string, rat) dict \<Rightarrow> (string, rat) dict \<Rightarrow> (string \<times> nat) list \<Rightarrow> exits \<Rightarrow> unit exit_result" where
  "session_loop env day atr closes [] x = (x, Inr ())"
| "session_loop env day atr closes (ka # kas) x =
     (case session_one env day atr closes ka x of
        (x1, Inl e) \<Rightarrow> (x1, Inl e)
      | (x1, Inr u) \<Rightarrow> session_loop env day atr closes kas x1)"

definition on_session_start ::
  "exit_env \<Rightarrow> date \<Rightarrow> (string, rat) dict \<Rightarrow> (string, rat) dict \<Rightarrow> exits \<Rightarrow> unit exit_result" where
  "on_session_start env day atr closes x =
     (case session_loop env day atr closes (xm_positions x) x of
        (x1, Inl e) \<Rightarrow> (x1, Inl e)
      | (x1, Inr u) \<Rightarrow> saved_ok (refresh_stops env x1))"

definition exits_flatten :: "exit_env \<Rightarrow> string \<Rightarrow> exits \<Rightarrow> unit exit_result" where
  "exits_flatten env reason x =
     saved_ok (each_pos (\<lambda>a. exit_all env a RsFlatten reason None) (map snd (xm_positions x)) x)"

definition stand_down :: "exit_env \<Rightarrow> string \<Rightarrow> product \<Rightarrow> exits \<Rightarrow> unit exit_result" where
  "stand_down env ik pr x =
     (let k = key_text ik pr
      in case dget (xm_positions x) k of
           None \<Rightarrow> (x, Inr ())
         | Some a \<Rightarrow>
             (case cancel_stop env a x of
                (x1, Inl e) \<Rightarrow> (x1, Inl e)
              | (x1, Inr u) \<Rightarrow>
                  (exits_save (stale_discard k (set_mobj a (\<lambda>p. p\<lparr>mp_closing := True\<rparr>) x1)), Inr ())))"

subsection \<open>Restart reconciliation\<close>

definition exit_working :: "oms \<Rightarrow> managed \<Rightarrow> bool" where
  "exit_working s p =
     list_ex (\<lambda>(c, od). i_reduce_only (o_intent od) \<and> i_key (o_intent od) = ins_key (mp_instrument p)
       \<and> i_product (o_intent od) = mp_product p \<and> \<not> is_terminal (o_status od)) (om_orders s)"

definition instrument_for :: "oms \<Rightarrow> string \<Rightarrow> instrument option" where
  "instrument_for s ik =
     map_option (\<lambda>(c, od). i_instrument (o_intent od)) (List.find (\<lambda>(c, od). i_key (o_intent od) = ik) (om_orders s))"

datatype exit_note =
    DroppedNote string
  | QuantityNote string int int
  | ManagedAgainNote string
  | ShortNote string int
  | NoExitsNote string int
  | AdoptedNote string int rat rat

fun has_text :: "string \<Rightarrow> string \<Rightarrow> bool" where
  "has_text pat [] = (pat = [])"
| "has_text pat (c # s) = (take (length pat) (c # s) = pat \<or> has_text pat s)"

fun note_key :: "exit_note \<Rightarrow> string" where
  "note_key (DroppedNote k) = k"
| "note_key (QuantityNote k m n) = k"
| "note_key (ManagedAgainNote k) = k"
| "note_key (ShortNote k n) = k"
| "note_key (NoExitsNote k n) = k"
| "note_key (AdoptedNote k n p s) = k"

text \<open>The level is read off the text of the note, which carries the key.\<close>

definition note_level :: "exit_note \<Rightarrow> string" where
  "note_level n =
     (if (case n of ShortNote k q \<Rightarrow> True | NoExitsNote k q \<Rightarrow> True | _ \<Rightarrow> False)
         \<or> has_text ''NO exits'' (note_key n) \<or> has_text ''SHORT'' (note_key n)
      then ''CRITICAL'' else ''WARNING'')"

definition held_positions :: "exits \<Rightarrow> ts \<Rightarrow> (string, position) dict" where
  "held_positions x now =
     to_dict (map (\<lambda>p. (key_text (p_instrument_key p) (p_product p), p))
       (filter (\<lambda>p. p_quantity p \<noteq> 0) (pb_positions (om_book (xm_oms x)) now))) []"

fun drop_ghosts :: "(string, position) dict \<Rightarrow> string list \<Rightarrow> exits \<times> exit_note list \<Rightarrow> exits \<times> exit_note list" where
  "drop_ghosts held [] r = r"
| "drop_ghosts held (k # ks) (x, notes) =
     drop_ghosts held ks
       (if dget held k = None then (x\<lparr>xm_positions := dpop k (xm_positions x)\<rparr>, notes @ [DroppedNote k]) else (x, notes))"

definition resync :: "string \<Rightarrow> nat \<Rightarrow> position \<Rightarrow> exits \<times> exit_note list \<Rightarrow> exits \<times> exit_note list" where
  "resync k a p r =
     (case r of (x, notes) \<Rightarrow>
        let q = mp_quantity (mobj x a);
            (x1, notes1) = (if q \<noteq> p_quantity p
               then (stale_add k (set_mobj a (\<lambda>m. m\<lparr>mp_quantity := p_quantity p\<rparr>) x), notes @ [QuantityNote k q (p_quantity p)])
               else (x, notes))
        in if mp_closing (mobj x1 a) \<and> \<not> exit_working (xm_oms x1) (mobj x1 a)
           then (stale_add k (set_mobj a (\<lambda>m. m\<lparr>mp_closing := False\<rparr>) x1), notes1 @ [ManagedAgainNote k])
           else (x1, notes1))"

definition adopted_pos :: "exit_policy \<Rightarrow> (string \<Rightarrow> string) \<Rightarrow> string \<Rightarrow> instrument \<Rightarrow> position \<Rightarrow> rat \<Rightarrow> rat \<Rightarrow> date \<Rightarrow> managed" where
  "adopted_pos pol new_id k ins p avg atr day =
     (let (stop, target) = exit_levels pol avg atr ins
      in \<lparr>mp_instrument = ins, mp_product = p_product p, mp_strategy = ''adopted'', mp_entry_decision_id = new_id k,
          mp_signal_bar_date = day, mp_entry_price = avg, mp_quantity = p_quantity p, mp_stop_price = stop,
          mp_target_price = target, mp_r_distance = dsub avg stop, mp_atr = atr, mp_entered_on = day, mp_highest_close = avg,
          mp_partial_taken = False, mp_stop_coid = None, mp_stop_version = 0, mp_closing = False\<rparr>)"

definition take_on :: "exit_env \<Rightarrow> (string, rat) dict \<Rightarrow> string \<Rightarrow> position \<Rightarrow> exits \<times> exit_note list \<Rightarrow> exits \<times> exit_note list" where
  "take_on env atr k p r =
     (case r of (x, notes) \<Rightarrow>
        if p_quantity p < 0 then (x, notes @ [ShortNote k (p_quantity p)])
        else case (dget atr (p_instrument_key p), instrument_for (xm_oms x) (p_instrument_key p), p_avg_price p) of
               (Some v, Some ins, Some avg) \<Rightarrow>
                 (let m = adopted_pos (xm_policy x) (xe_new_id env) k ins p avg v (ist_date (xe_now env))
                  in (stale_add k (alloc_pos k m x), notes @ [AdoptedNote k (p_quantity p) avg (mp_stop_price m)]))
             | _ \<Rightarrow> (x, notes @ [NoExitsNote k (p_quantity p)]))"

fun reconcile_held ::
  "exit_env \<Rightarrow> (string, rat) dict \<Rightarrow> (string \<times> position) list \<Rightarrow> exits \<times> exit_note list \<Rightarrow> exits \<times> exit_note list" where
  "reconcile_held env atr [] r = r"
| "reconcile_held env atr ((k, p) # ps) r =
     reconcile_held env atr ps
       (case dget (xm_positions (fst r)) k of Some a \<Rightarrow> resync k a p r | None \<Rightarrow> take_on env atr k p r)"

definition exits_reconcile :: "exit_env \<Rightarrow> (string, rat) dict \<Rightarrow> exits \<Rightarrow> exit_note list exit_result" where
  "exits_reconcile env atr x =
     (let held = held_positions x (xe_now env);
          (x1, notes) = reconcile_held env atr held (drop_ghosts held (map fst (xm_positions x)) (x, []));
          x2 = fold (\<lambda>n. exit_alert (note_level n) ''exit_reconcile'') notes x1
      in case saved_ok (refresh_stops env x2) of
           (x3, Inl e) \<Rightarrow> (x3, Inl e)
         | (x3, Inr u) \<Rightarrow> (x3, Inr notes))"

end
