(* ===== verification/Exit_Props.thy ===== *)
theory Exit_Props
  imports Exit_Manager
begin

section \<open>Properties of the exit manager\<close>

text \<open>
  What an await may change (\<open>awaits\<close>: fills reach the listener, nothing else touches the manager), the
  well-formedness of the store of positions, and the properties that rest on them: no managed
  position is silently left without protection, every exit order only reduces, the managed quantities
  follow the book, the levels bracket the entry and the trailing stop never loosens.
\<close>

subsection \<open>The store of positions\<close>

definition exits_inv :: "exits \<Rightarrow> bool" where
  "exits_inv x =
     (distinct (map fst (xm_positions x))
      \<and> (\<forall>(k, a) \<in> set (xm_positions x). a < length (xm_objs x) \<and> mp_key (mobj x a) = k))"

lemma exits_invD:
  assumes "exits_inv x" "(k, a) \<in> set (xm_positions x)"
  shows "a < length (xm_objs x)" "mp_key (mobj x a) = k" "dget (xm_positions x) k = Some a"
  using assms by (auto simp: exits_inv_def)

lemma exits_inv_get:
  assumes "exits_inv x" "dget (xm_positions x) k = Some a"
  shows "a < length (xm_objs x)" "mp_key (mobj x a) = k" "(k, a) \<in> set (xm_positions x)"
  using exits_invD [OF assms(1) dget_in_set [OF assms(2)]] dget_in_set [OF assms(2)] by auto

lemma exits_simps [simp]:
  "xm_positions (set_mobj a f x) = xm_positions x" "xm_stale (set_mobj a f x) = xm_stale x"
  "xm_oms (set_mobj a f x) = xm_oms x" "xm_policy (set_mobj a f x) = xm_policy x"
  "length (xm_objs (set_mobj a f x)) = length (xm_objs x)"
  "xm_positions (stale_add k x) = xm_positions x" "xm_objs (stale_add k x) = xm_objs x" "xm_oms (stale_add k x) = xm_oms x"
  "xm_positions (stale_discard k x) = xm_positions x" "xm_objs (stale_discard k x) = xm_objs x" "xm_oms (stale_discard k x) = xm_oms x"
  "xm_positions (exit_alert l k x) = xm_positions x" "xm_objs (exit_alert l k x) = xm_objs x" "xm_oms (exit_alert l k x) = xm_oms x"
  "xm_stale (exit_alert l k x) = xm_stale x"
  "xm_positions (exits_save x) = xm_positions x" "xm_objs (exits_save x) = xm_objs x" "xm_oms (exits_save x) = xm_oms x"
  "xm_stale (exits_save x) = xm_stale x"
  "xm_policy (exits_save x) = xm_policy x" "xm_policy (exit_alert l k x) = xm_policy x"
  "xm_policy (stale_add k x) = xm_policy x" "xm_policy (stale_discard k x) = xm_policy x"
  "xm_calendar (exits_save x) = xm_calendar x" "xm_calendar (exit_alert l k x) = xm_calendar x"
  "xm_calendar (stale_add k x) = xm_calendar x" "xm_calendar (stale_discard k x) = xm_calendar x"
  "xm_calendar (set_mobj a f x) = xm_calendar x"
  "set (xm_stale (stale_add k x)) = insert k (set (xm_stale x))"
  "set (xm_stale (stale_discard k x)) = set (xm_stale x) - {k}"
  by (simp_all add: set_mobj_def stale_add_def stale_discard_def exit_alert_def exits_save_def)

lemma mobj_simps [simp]:
  "mobj (stale_add k x) = mobj x" "mobj (stale_discard k x) = mobj x" "mobj (exit_alert l k x) = mobj x"
  "mobj (exits_save x) = mobj x" "mobj (x\<lparr>xm_oms := s\<rparr>) = mobj x" "mobj (x\<lparr>xm_positions := ps\<rparr>) = mobj x"
  "mobj (x\<lparr>xm_pending := pe\<rparr>) = mobj x"
  by (simp_all add: mobj_def fun_eq_iff)

lemma mobj_set_mobj: "b < length (xm_objs x) \<Longrightarrow> mobj (set_mobj a f x) b = (if a = b then f (mobj x a) else mobj x b)"
  by (auto simp: mobj_def set_mobj_def)

lemma alloc_pos_simps [simp]:
  "xm_objs (alloc_pos k p x) = xm_objs x @ [p]" "xm_positions (alloc_pos k p x) = dset k (length (xm_objs x)) (xm_positions x)"
  "xm_oms (alloc_pos k p x) = xm_oms x" "xm_stale (alloc_pos k p x) = xm_stale x" "xm_policy (alloc_pos k p x) = xm_policy x"
  "mobj (alloc_pos k p x) (length (xm_objs x)) = p"
  by (simp_all add: alloc_pos_def mobj_def)

lemma mobj_alloc_old: "a < length (xm_objs x) \<Longrightarrow> mobj (alloc_pos k p x) a = mobj x a"
  by (simp add: alloc_pos_def mobj_def nth_append)

text \<open>What a listener may do to an object: only its quantity and the partial flag.\<close>

definition same_but_qty :: "managed \<Rightarrow> managed \<Rightarrow> bool" where
  "same_but_qty p q = (\<exists>n b. q = p\<lparr>mp_quantity := n, mp_partial_taken := b\<rparr>)"

lemma same_but_qty_refl [simp]: "same_but_qty p p"
  unfolding same_but_qty_def by (rule exI [of _ "mp_quantity p"], rule exI [of _ "mp_partial_taken p"]) simp

lemma same_but_qty_trans: "same_but_qty p q \<Longrightarrow> same_but_qty q r \<Longrightarrow> same_but_qty p r"
  unfolding same_but_qty_def by fastforce

lemma same_but_qtyD:
  "same_but_qty p q \<Longrightarrow> mp_key q = mp_key p \<and> mp_closing q = mp_closing p \<and> mp_stop_coid q = mp_stop_coid p
    \<and> mp_stop_price q = mp_stop_price p"
  unfolding same_but_qty_def mp_key_def by auto

definition awaits :: "exits \<Rightarrow> exits \<Rightarrow> bool" where
  "awaits x x' =
     (exits_inv x' \<and> xm_policy x' = xm_policy x \<and> length (xm_objs x) \<le> length (xm_objs x') \<and> set (xm_stale x) \<subseteq> set (xm_stale x')
      \<and> (\<forall>a < length (xm_objs x). same_but_qty (mobj x a) (mobj x' a))
      \<and> (\<forall>(k, a) \<in> set (xm_positions x').
           k \<in> set (xm_stale x') \<or> (k, a) \<in> set (xm_positions x) \<and> mp_quantity (mobj x' a) = mp_quantity (mobj x a)))"

lemma awaits_refl: "exits_inv x \<Longrightarrow> awaits x x"
  by (auto simp: awaits_def)

lemma awaits_trans:
  assumes "awaits x y" "awaits y z" "exits_inv x"
  shows "awaits x z"
proof -
  have "k \<in> set (xm_stale z) \<or> (k, a) \<in> set (xm_positions x) \<and> mp_quantity (mobj z a) = mp_quantity (mobj x a)"
    if "(k, a) \<in> set (xm_positions z)" for k a
    using assms that by (fastforce simp: awaits_def)
  moreover have "same_but_qty (mobj x a) (mobj z a)" if "a < length (xm_objs x)" for a
    using assms(1,2) that same_but_qty_trans unfolding awaits_def by (metis dual_order.strict_trans1)
  ultimately show ?thesis using assms unfolding awaits_def by auto
qed

lemma awaits_oms: "awaits x x' \<Longrightarrow> awaits x (x'\<lparr>xm_oms := s\<rparr>)"
  by (simp add: awaits_def exits_inv_def mobj_def)

lemma awaits_oms_left: "awaits (x\<lparr>xm_oms := s\<rparr>) x' = awaits x x'"
  by (simp add: awaits_def mobj_def)

subsection \<open>The listener\<close>

lemma mp_key_fields [simp]:
  "mp_key (p\<lparr>mp_quantity := n\<rparr>) = mp_key p" "mp_key (p\<lparr>mp_partial_taken := b\<rparr>) = mp_key p"
  "mp_key (p\<lparr>mp_stop_coid := c\<rparr>) = mp_key p" "mp_key (p\<lparr>mp_closing := b\<rparr>) = mp_key p"
  "mp_key (p\<lparr>mp_stop_version := v\<rparr>) = mp_key p" "mp_key (p\<lparr>mp_stop_price := t\<rparr>) = mp_key p"
  "mp_key (p\<lparr>mp_highest_close := t\<rparr>) = mp_key p"
  by (simp_all add: mp_key_def)

lemma exits_inv_set_mobj:
  assumes "exits_inv x" "\<And>p. mp_key (f p) = mp_key p"
  shows "exits_inv (set_mobj a f x)"
  using assms by (auto simp: exits_inv_def mobj_set_mobj)

lemma exits_inv_cong:
  "exits_inv x \<Longrightarrow> xm_positions y = xm_positions x \<Longrightarrow> xm_objs y = xm_objs x \<Longrightarrow> exits_inv y"
  by (simp add: exits_inv_def mobj_def)

lemma exits_inv_drop: "exits_inv x \<Longrightarrow> exits_inv (x\<lparr>xm_positions := dpop k (xm_positions x)\<rparr>)"
  by (auto simp: exits_inv_def AList.delete_eq distinct_map_filter)

lemma dset_pos:
  assumes "exits_inv x" "(k', a) \<in> set (dset k b (xm_positions x))"
  shows "(k' = k \<and> a = b) \<or> (k' \<noteq> k \<and> (k', a) \<in> set (xm_positions x))"
  by (rule dset_values [OF _ assms(2)]) (use assms(1) in \<open>simp add: exits_inv_def\<close>)

lemma exits_inv_alloc:
  assumes "exits_inv x" "mp_key p = k"
  shows "exits_inv (alloc_pos k p x)"
proof -
  have "a < length (xm_objs x @ [p]) \<and> mp_key (mobj (alloc_pos k p x) a) = k'"
    if m: "(k', a) \<in> set (dset k (length (xm_objs x)) (xm_positions x))" for k' a
    using dset_pos [OF assms(1) m]
  proof
    assume "k' = k \<and> a = length (xm_objs x)"
    then show ?thesis using assms(2) by simp
  next
    assume o: "k' \<noteq> k \<and> (k', a) \<in> set (xm_positions x)"
    then show ?thesis using exits_invD [OF assms(1), of k' a] mobj_alloc_old [of a x k p] by simp
  qed
  then show ?thesis using assms(1) by (auto simp: exits_inv_def distinct_update)
qed

lemma on_entry_fill_awaits:
  assumes "exits_inv x" "k = key_text (i_key (o_intent od)) (i_product (o_intent od))"
  shows "awaits x (on_entry_fill f od k held x)"
proof (cases "entry_source x od k")
  case None
  then show ?thesis using assms(1) by (simp add: on_entry_fill_def) (auto simp: awaits_def exits_inv_def)
next
  case (Some pe)
  define p where "p = entry_managed x f (o_intent od) held pe (managed_at x k)"
  have "mp_key p = k" using assms(2) by (simp add: p_def entry_managed_def mp_key_def Let_def split_beta)
  then obtain ps where y: "mp_key p = k" "on_entry_fill f od k held x = stale_add k ((alloc_pos k p x)\<lparr>xm_pending := ps\<rparr>)"
    using Some by (simp add: on_entry_fill_def Let_def flip: p_def)
  have i: "exits_inv (stale_add k ((alloc_pos k p x)\<lparr>xm_pending := ps\<rparr>))"
    by (rule exits_inv_cong [OF exits_inv_alloc [OF assms(1) y(1)]]) simp_all
  have "k' = k \<or> (k', a) \<in> set (xm_positions x) \<and> mobj (alloc_pos k p x) a = mobj x a"
    if "(k', a) \<in> set (dset k (length (xm_objs x)) (xm_positions x))" for k' a
    using dset_pos [OF assms(1) that] exits_invD(1) [OF assms(1), of k' a] mobj_alloc_old [of a x k p] by blast
  then show ?thesis unfolding y(2) awaits_def using i mobj_alloc_old [of _ x k p] by simp fastforce
qed

lemma exits_on_fill_awaits:
  assumes "exits_inv x"
  shows "awaits x (exits_on_fill f od x)"
proof -
  define k where "k = key_text (i_key (o_intent od)) (i_product (o_intent od))"
  define held where "held = pb_quantity (om_book (xm_oms x)) (i_key (o_intent od)) (i_product (o_intent od))"
  have save: "awaits x (exits_save y)" if "awaits x y" for y using that by (auto simp: awaits_def exits_inv_def)
  show ?thesis
  proof (cases "i_reduce_only (o_intent od)")
    case False
    then show ?thesis
      using on_entry_fill_awaits [OF assms k_def, of f held] save by (simp add: exits_on_fill_def Let_def flip: k_def held_def)
  next
    case True
    show ?thesis
    proof (cases "dget (xm_positions x) k")
      case None
      with True show ?thesis using awaits_refl [OF assms] by (simp add: exits_on_fill_def Let_def flip: k_def)
    next
      case (Some a)
      note a = exits_inv_get [OF assms Some]
      have d: "awaits x (x\<lparr>xm_positions := dpop k (xm_positions x)\<rparr>)"
        using exits_inv_drop [OF assms] by (auto simp: awaits_def AList.delete_eq)
      let ?f = "\<lambda>p. p\<lparr>mp_quantity := held, mp_partial_taken := (i_reason (o_intent od) = RsPartial \<or> mp_partial_taken p)\<rparr>"
      have "same_but_qty p (?f p)" for p unfolding same_but_qty_def by blast
      moreover have "k' = k" if "(k', a) \<in> set (xm_positions x)" for k' using exits_invD(2) [OF assms that] a(2) by simp
      moreover have "exits_inv (set_mobj a ?f x)" by (rule exits_inv_set_mobj [OF assms]) simp
      ultimately have "awaits x (stale_add k (set_mobj a ?f x))"
        using exits_invD(1) [OF assms] by (auto simp: awaits_def exits_inv_def mobj_set_mobj)
      with d Some True save show ?thesis by (simp add: exits_on_fill_def Let_def flip: k_def held_def)
    qed
  qed
qed

lemma exits_fill_awaits: "exits_inv x \<Longrightarrow> awaits x (fst (exits_fill f x))"
  using exits_on_fill_awaits [of "x\<lparr>xm_oms := s\<rparr>" f "od" for s od] awaits_refl [of x]
  by (auto simp: exits_fill_def Let_def awaits_oms awaits_oms_left exits_inv_cong split: sum.splits option.splits)

lemma exits_notices_awaits: "exits_inv x \<Longrightarrow> awaits x (fst (exits_notices ns x))"
proof (induction ns x rule: exits_notices.induct)
  case (2 sn ns x)
  then show ?case using exits_inv_cong [OF 2(2)] by (simp add: awaits_oms_left)
next
  case (3 f ns x)
  obtain y r where y: "exits_fill f x = (y, r)" by fastforce
  have a: "awaits x y" using exits_fill_awaits [OF 3(2), of f] y by simp
  then have "exits_inv y" by (simp add: awaits_def)
  with 3 y a show ?case by (cases r) (auto intro: awaits_trans)
qed (simp add: awaits_refl)

lemma exits_submit_awaits: "exits_inv x \<Longrightarrow> awaits x (fst (exits_submit env i x))"
  using exits_notices_awaits [of "x\<lparr>xm_oms := s\<rparr>" ns for s ns] awaits_refl [of x]
  by (auto simp: exits_submit_def Let_def split_beta awaits_oms awaits_oms_left exits_inv_cong
      split: sum.splits option.splits prod.splits)

lemma exits_cancel_awaits: "exits_inv x \<Longrightarrow> awaits x (fst (exits_cancel env c x))"
  using exits_notices_awaits [of x ns for ns] awaits_refl [of x]
  by (auto simp: exits_cancel_def Let_def split: sum.splits option.splits prod.splits) (metis fst_conv)+

lemma send_exit_awaits: "exits_inv x \<Longrightarrow> awaits x (fst (send_exit env a leg kind reason qty ot trigger price x))"
  using exits_submit_awaits [of x env] awaits_refl [of x]
  by (auto simp: send_exit_def split: sum.splits prod.splits) (metis fst_conv)+

subsection \<open>Protection\<close>

text \<open>A managed position is protected when an exit has been submitted for it, its stop is due to be
  placed, a stop is recorded for it, or nothing is held; \<open>guarded B\<close> says this of every position but
  those at the addresses in \<open>B\<close>.\<close>

definition shielded :: "exits \<Rightarrow> string \<Rightarrow> nat \<Rightarrow> bool" where
  "shielded x k a =
     (mp_closing (mobj x a) \<or> k \<in> set (xm_stale x) \<or> mp_stop_coid (mobj x a) \<noteq> None \<or> mp_quantity (mobj x a) \<le> 0)"

definition guarded :: "nat set \<Rightarrow> exits \<Rightarrow> bool" where
  "guarded B x = (\<forall>(k, a) \<in> set (xm_positions x). a \<in> B \<or> shielded x k a)"

definition all_protected :: "exits \<Rightarrow> bool" where
  "all_protected x = list_all (\<lambda>(k, a). shielded x k a) (xm_positions x)"

lemma all_protected_guarded: "all_protected x = guarded {} x"
  by (auto simp: all_protected_def guarded_def list_all_iff)

lemma guarded_mono: "guarded B x \<Longrightarrow> B \<subseteq> C \<Longrightarrow> guarded C x"
  by (auto simp: guarded_def)

lemma guarded_awaits:
  assumes "exits_inv x" "guarded B x" "awaits x x'"
  shows "guarded B x'"
  unfolding guarded_def
proof clarify
  fix k a assume m: "(k, a) \<in> set (xm_positions x')" "\<not> shielded x' k a"
  then have s: "k \<notin> set (xm_stale x')" by (simp add: shielded_def)
  then have o: "(k, a) \<in> set (xm_positions x)" "mp_quantity (mobj x' a) = mp_quantity (mobj x a)"
    using m(1) assms(3) by (auto simp: awaits_def)
  have "same_but_qty (mobj x a) (mobj x' a)" "set (xm_stale x) \<subseteq> set (xm_stale x')"
    using assms(3) exits_invD(1) [OF assms(1) o(1)] by (auto simp: awaits_def)
  then have "\<not> shielded x k a" using m(2) o(2) same_but_qtyD [of "mobj x a" "mobj x' a"] by (auto simp: shielded_def)
  then show "a \<in> B" using assms(2) o(1) by (auto simp: guarded_def)
qed

lemma guarded_set_mobj: "exits_inv x \<Longrightarrow> guarded B x \<Longrightarrow> guarded (insert a B) (set_mobj a f x)"
  using exits_invD(1) [of x] by (fastforce simp: guarded_def shielded_def mobj_set_mobj)

lemma guarded_neutral:
  assumes "exits_inv x" "guarded B x" "\<And>p. mp_closing (f p) = mp_closing p \<and> mp_stop_coid (f p) = mp_stop_coid p \<and> mp_quantity (f p) = mp_quantity p"
  shows "guarded B (set_mobj a f x)"
  unfolding guarded_def
proof clarify
  fix k b assume m: "(k, b) \<in> set (xm_positions (set_mobj a f x))" "\<not> shielded (set_mobj a f x) k b"
  then have m1: "(k, b) \<in> set (xm_positions x)" by simp
  have "\<not> shielded x k b" using m(2) exits_invD(1) [OF assms(1) m1] assms(3) by (auto simp: shielded_def mobj_set_mobj split: if_splits)
  then show "b \<in> B" using assms(2) m1 by (auto simp: guarded_def)
qed

lemma guarded_discard:
  assumes "exits_inv x" "guarded B x" "dget (xm_positions x) k = Some a"
  shows "guarded (insert a B) (stale_discard k x)"
  using assms exits_invD(3) [OF assms(1)] by (fastforce simp: guarded_def shielded_def)

text \<open>Where the address is settled afterwards, the exception goes away.\<close>

lemma guarded_settle:
  assumes "guarded (insert a B) x" "\<And>k. (k, a) \<in> set (xm_positions x) \<Longrightarrow> shielded x k a"
  shows "guarded B x"
  using assms by (fastforce simp: guarded_def)

lemma guarded_cong: "guarded B x \<Longrightarrow> xm_positions y = xm_positions x \<Longrightarrow> xm_objs y = xm_objs x \<Longrightarrow> set (xm_stale x) \<subseteq> set (xm_stale y) \<Longrightarrow> guarded B y"
  by (fastforce simp: guarded_def shielded_def mobj_def)

lemma guarded_close:
  assumes "exits_inv x" "guarded (insert a B) x"
  shows "guarded B (set_mobj a (\<lambda>p. p\<lparr>mp_closing := True\<rparr>) x)"
proof (rule guarded_settle)
  show "guarded (insert a B) (set_mobj a (\<lambda>p. p\<lparr>mp_closing := True\<rparr>) x)"
    using guarded_set_mobj [OF assms, of a] by simp
qed (use exits_invD(1) [OF assms(1)] in \<open>auto simp: shielded_def mobj_set_mobj\<close>)

lemma guarded_restale:
  assumes "exits_inv x" "guarded (insert a B) x"
  shows "guarded B (stale_add (mp_key (mobj x a)) x)"
proof (rule guarded_settle)
  show "guarded (insert a B) (stale_add (mp_key (mobj x a)) x)" by (rule guarded_cong [OF assms(2)]) auto
qed (use exits_invD(2) [OF assms(1)] in \<open>auto simp: shielded_def\<close>)

definition keeps_guard :: "nat set \<Rightarrow> exits \<Rightarrow> unit exit_result \<Rightarrow> bool" where
  "keeps_guard B x r = (exits_inv (fst r) \<and> xm_policy (fst r) = xm_policy x \<and> (\<forall>u. snd r = Inr u \<longrightarrow> guarded B (fst r)))"

lemma cancel_stop_guarded:
  assumes "exits_inv x" "guarded B x" "cancel_stop env a x = (y, r)"
  shows "exits_inv y \<and> guarded (insert a B) y \<and> xm_policy y = xm_policy x"
proof (cases "mp_stop_coid (mobj x a)")
  case None
  then show ?thesis using assms by (auto simp: cancel_stop_def intro: guarded_mono)
next
  case (Some c)
  obtain z q where z: "exits_cancel env c x = (z, q)" by fastforce
  then have w: "awaits x z" using exits_cancel_awaits [OF assms(1), of env c] by simp
  then have "exits_inv z" "guarded B z" "xm_policy z = xm_policy x" using guarded_awaits [OF assms(1,2)] by (auto simp: awaits_def)
  moreover have "y = z \<or> y = set_mobj a (\<lambda>p. p\<lparr>mp_stop_coid := None\<rparr>) z"
    using assms(3) Some z by (auto simp: cancel_stop_def split: sum.splits)
  ultimately show ?thesis
    using exits_inv_set_mobj [of z "\<lambda>p. p\<lparr>mp_stop_coid := None\<rparr>" a] guarded_set_mobj [of z B a] guarded_mono [of B z "insert a B"] by auto
qed

lemma send_exit_guarded:
  assumes "exits_inv x" "guarded B x" "send_exit env a leg kind reason qty ot trigger price x = (y, r)"
  shows "exits_inv y \<and> guarded B y \<and> xm_policy y = xm_policy x"
  using send_exit_awaits [OF assms(1), of env a leg kind reason qty ot trigger price] assms guarded_awaits [OF assms(1,2)]
  by (auto simp: awaits_def)

lemma exit_all_guarded:
  assumes "exits_inv x" "guarded (insert a B) x"
  shows "keeps_guard B x (exit_all env a reason leg price x)"
proof -
  obtain y r where y: "cancel_stop env a x = (y, r)" by fastforce
  have 1: "exits_inv y \<and> guarded (insert a B) y \<and> xm_policy y = xm_policy x" using cancel_stop_guarded [OF assms y] by simp
  obtain z q where z: "send_exit env a leg KClose reason (mp_quantity (mobj y a)) MARKET None price y = (z, q)" by fastforce
  have 2: "exits_inv z \<and> guarded (insert a B) z \<and> xm_policy z = xm_policy y" using send_exit_guarded [OF _ _ z] 1 by blast
  let ?w = "exit_alert ''WARNING'' ''exit_not_submitted'' z"
  have w: "exits_inv ?w" "guarded (insert a B) ?w" using 2 by (auto intro: exits_inv_cong guarded_cong)
  have "exits_inv (stale_add (mp_key (mobj z a)) ?w)" using w(1) by (rule exits_inv_cong) simp_all
  moreover have "exits_inv (set_mobj a (\<lambda>p. p\<lparr>mp_closing := True\<rparr>) z)" using 2 by (intro exits_inv_set_mobj) auto
  ultimately show ?thesis
    using 1 2 y z guarded_close [of z a B] guarded_restale [OF w]
    by (auto simp: keeps_guard_def exit_all_def split: sum.splits)
qed

lemma exit_partial_guarded:
  assumes "exits_inv x" "guarded {} x"
  shows "keeps_guard {} x (exit_partial env a price x)"
proof -
  let ?f = "\<lambda>p. p\<lparr>mp_partial_taken := True\<rparr>" and ?q = "partial_qty (xm_policy x) (mobj x a)"
  have t: "guarded {} (set_mobj a ?f x)"
    by (rule guarded_neutral [OF assms]) simp
  have t': "exits_inv (set_mobj a ?f x)" by (rule exits_inv_set_mobj [OF assms(1)]) simp
  obtain y r where y: "cancel_stop env a x = (y, r)" by fastforce
  note 1 = cancel_stop_guarded [OF assms y]
  obtain z q where z: "send_exit env a ''partial'' KReduce RsPartial ?q MARKET None (Some price) y = (z, q)" by fastforce
  have 2: "exits_inv z \<and> guarded {a} z \<and> xm_policy z = xm_policy y" using send_exit_guarded [OF _ _ z] 1 by blast
  have w: "exits_inv (set_mobj a ?f w) \<and> guarded {} (stale_add (mp_key (mobj (set_mobj a ?f w) a)) (set_mobj a ?f w)) \<and> xm_policy w = xm_policy z"
    if "w = z \<or> w = exit_alert ''WARNING'' ''exit_not_submitted'' z" for w
  proof -
    have "exits_inv w" "guarded {a} w" "xm_policy w = xm_policy z" using 2 that by (auto intro: exits_inv_cong guarded_cong)
    then show ?thesis using exits_inv_set_mobj [of w ?f a] guarded_restale [of "set_mobj a ?f w" a "{}"] guarded_set_mobj [of w "{a}" a ?f]
      by simp
  qed
  have "exits_inv (stale_add k w)" if "exits_inv w" for k w using that by (rule exits_inv_cong) simp_all
  then show ?thesis using 1 2 y z t t' w [of z] w [of "exit_alert ''WARNING'' ''exit_not_submitted'' z"]
    by (auto simp: keeps_guard_def exit_partial_def Let_def split: sum.splits)
qed

subsection \<open>Awaits without entry fills\<close>

definition same_intents :: "oms \<Rightarrow> oms \<Rightarrow> bool" where
  "same_intents s s' = (\<forall>c. map_option o_intent (dget (om_orders s') c) = map_option o_intent (dget (om_orders s) c))"

lemma same_intents_refl [simp]: "same_intents s s"
  by (simp add: same_intents_def)

lemma same_intents_trans: "same_intents s t \<Longrightarrow> same_intents t u \<Longrightarrow> same_intents s u"
  by (simp add: same_intents_def)

lemma same_intents_emit [simp]: "same_intents s (om_emit e t) = same_intents s t"
  by (simp add: same_intents_def)

lemma same_intents_put:
  "dget (om_orders s) c = Some od \<Longrightarrow> o_intent od' = o_intent od \<Longrightarrow> om_orders s' = dset c od' (om_orders s) \<Longrightarrow> same_intents s s'"
  by (simp add: same_intents_def dget_dset)

lemma same_intents_set_order:
  assumes "dget (om_orders s) (o_client_order_id od) = Some od0" "\<And>x. o_intent (upd x) = o_intent x"
  shows "same_intents s (set_order od upd s)"
  by (rule same_intents_put [OF assms(1) _ set_order_orders [OF assms(1)]]) (simp add: assms(2))

lemma on_update_intents:
  assumes "keyed s"
  shows "same_intents s (on_update sn s)"
  using on_update_effect [OF assms, of sn] by (auto simp: same_intents_def dget_dset)

lemma on_fill_intents:
  assumes "keyed s" "on_fill f s = Inr s'"
  shows "same_intents s s'"
proof (cases "has_seen (om_book s) (f_fill_id f)")
  case True
  then show ?thesis using assms(2) by (simp add: on_fill_def)
next
  case False
  show ?thesis
  proof (cases "dget (om_orders s) (f_client_order_id f)")
    case None
    then show ?thesis using assms(2) False by (auto simp: on_fill_def same_intents_def split: sum.splits)
  next
    case (Some od)
    then have k: "on_known_fill f od s = Inr s'" "dget (om_orders s) (o_client_order_id od) = Some od"
      using assms False keyedD [OF assms(1) Some] by (simp_all add: on_fill_def)
    obtain od' where "om_orders s' = dset (o_client_order_id od) od' (om_orders s)" "o_intent od' = o_intent od"
      using on_known_fill_orders [OF k] by auto
    then show ?thesis using same_intents_put [OF k(2)] by blast
  qed
qed

lemma keyed_update: "keyed s \<Longrightarrow> keyed (on_update sn s)"
  using keyed_steps [OF on_update_steps] by blast

lemma keyed_fill: "keyed s \<Longrightarrow> on_fill f s = Inr s' \<Longrightarrow> keyed s'"
  using keyed_steps [OF on_fill_steps [where P = "\<lambda>s f od. True"]] by blast

lemma place_result_intents:
  assumes "keyed s" "dget (om_orders s) (o_client_order_id od) = Some od0"
  shows "same_intents s (snd (place_result od r s)) \<and> keyed (snd (place_result od r s))"
proof -
  have id: "o_client_order_id od0 = o_client_order_id od" by (rule keyedD [OF assms])
  have so: "same_intents s' (set_order od' upd s') \<and> keyed (set_order od' upd s')"
    if "keyed s'" "dget (om_orders s') (o_client_order_id od') = Some w" "\<And>x. o_intent (upd x) = o_intent x"
      "\<And>x. o_client_order_id (upd x) = o_client_order_id x" for s' od' upd w
    using same_intents_set_order [OF that(2,3)] keyed_set_order [OF that(1,2)] that(4) by blast
  have ke: "keyed (om_emit e t) = keyed t" for e t by (simp add: keyed_def)
  show ?thesis
  proof (cases r)
    case (Inl e)
    then show ?thesis using so [OF assms, of "\<lambda>x. x\<lparr>o_status := UNKNOWN\<rparr>"] so [OF assms, of "\<lambda>x. x\<lparr>o_status := REJECTED\<rparr>"]
      by (auto simp: place_result_def mark_unknown_def Let_def ke same_intents_def keyed_def)
  next
    case (Inr ack)
    define s1 where "s1 = set_order od0 (\<lambda>x. x\<lparr>o_broker_order_id := Some (ak_broker_order_id ack)\<rparr>) s"
    have d0: "dget (om_orders s) (o_client_order_id od0) = Some od0" using assms(2) id by simp
    have 1: "same_intents s s1 \<and> keyed s1" unfolding s1_def by (rule so [OF assms(1) d0]) simp_all
    obtain w where w: "dget (om_orders s1) (o_client_order_id od0) = Some w"
      using 1 d0 unfolding same_intents_def by (metis map_option_eq_Some)
    have 2: "same_intents s1 (snd (advance od0 st False s1)) \<and> keyed (snd (advance od0 st False s1))" for st
      using so [OF _ w, of "\<lambda>x. x\<lparr>o_status := st\<rparr>"] 1 by (auto simp: advance_def)
    show ?thesis using Inr assms 1 2 [of "ak_status ack"] same_intents_trans [of s s1]
      by (auto simp: place_result_def Let_def ke simp flip: s1_def)
  qed
qed

definition entries_in :: "string set \<Rightarrow> exits \<Rightarrow> bool" where
  "entries_in E x =
     (keyed (xm_oms x) \<and> (\<forall>c od. dget (om_orders (xm_oms x)) c = Some od \<longrightarrow> \<not> i_reduce_only (o_intent od) \<longrightarrow> c \<in> E))"

definition calm :: "string set \<Rightarrow> exits \<Rightarrow> exits \<Rightarrow> bool" where
  "calm E x x' = (entries_in E x' \<and> set (xm_positions x') \<subseteq> set (xm_positions x))"

lemma entries_in_same:
  assumes "entries_in E x" "same_intents (xm_oms x) (xm_oms y)" "keyed (xm_oms y)"
  shows "entries_in E y"
proof -
  have "c \<in> E" if o: "dget (om_orders (xm_oms y)) c = Some od" "\<not> i_reduce_only (o_intent od)" for c od
  proof -
    have "map_option o_intent (dget (om_orders (xm_oms x)) c) = Some (o_intent od)"
      using assms(2) o(1) unfolding same_intents_def by (metis option.map(2))
    then show ?thesis using assms(1) o(2) by (auto simp: entries_in_def)
  qed
  with assms(3) show ?thesis by (auto simp: entries_in_def)
qed

lemma exits_fill_intents:
  "keyed (xm_oms x) \<Longrightarrow> same_intents (xm_oms x) (xm_oms (fst (exits_fill f x))) \<and> keyed (xm_oms (fst (exits_fill f x)))"
  using on_fill_intents [of "xm_oms x" f] keyed_fill [of "xm_oms x" f]
  by (auto simp: exits_fill_def exits_on_fill_def on_entry_fill_def Let_def split: sum.splits option.splits)

lemma exits_fill_calm:
  assumes "entries_in E x" "f_client_order_id f \<notin> E"
  shows "calm E x (fst (exits_fill f x))"
proof -
  have k: "keyed (xm_oms x)" using assms(1) by (simp add: entries_in_def)
  have e: "entries_in E (fst (exits_fill f x))" using exits_fill_intents [OF k] entries_in_same [OF assms(1)] by blast
  have "set (xm_positions (fst (exits_fill f x))) \<subseteq> set (xm_positions x)"
  proof (cases "\<exists>s od. on_fill f (xm_oms x) = Inr s \<and> dget (om_orders (xm_oms x)) (f_client_order_id f) = Some od")
    case True
    then obtain s od where s: "on_fill f (xm_oms x) = Inr s" "dget (om_orders (xm_oms x)) (f_client_order_id f) = Some od" by blast
    have "map_option o_intent (dget (om_orders s) (f_client_order_id f)) = Some (o_intent od)"
      using on_fill_intents [OF k s(1)] s(2) unfolding same_intents_def by (metis option.map(2))
    then have "o_intent (the_order s od) = o_intent od" using keyedD [OF k s(2)] by (auto simp: the_order_def dget_or_def)
    moreover have "i_reduce_only (o_intent od)" using assms s(2) by (auto simp: entries_in_def)
    ultimately show ?thesis using s
      by (auto simp: exits_fill_def Let_def exits_on_fill_def AList.delete_eq split: option.splits)
  qed (auto simp: exits_fill_def Let_def split: sum.splits option.splits)
  with e show ?thesis by (simp add: calm_def)
qed

lemma exits_notices_calm:
  assumes "entries_in E x" "\<forall>f \<in> set (notice_fills ns). f_client_order_id f \<notin> E"
  shows "calm E x (fst (exits_notices ns x)) \<and> same_intents (xm_oms x) (xm_oms (fst (exits_notices ns x)))"
  using assms
proof (induction ns x rule: exits_notices.induct)
  case (2 sn ns x)
  let ?y = "x\<lparr>xm_oms := on_update sn (xm_oms x)\<rparr>"
  have k: "keyed (xm_oms x)" using 2(2) by (simp add: entries_in_def)
  have "entries_in E ?y" using on_update_intents [OF k] keyed_update [OF k] by (intro entries_in_same [OF 2(2)]) simp_all
  with 2 show ?case using same_intents_trans [OF on_update_intents [OF k]] by (auto simp: calm_def)
next
  case (3 f ns x)
  have k: "keyed (xm_oms x)" using 3(2) by (simp add: entries_in_def)
  obtain y r where y: "exits_fill f x = (y, r)" by fastforce
  have c: "calm E x y" "same_intents (xm_oms x) (xm_oms y)"
    using exits_fill_calm [OF 3(2), of f] exits_fill_intents [OF k, of f] 3(3) y by simp_all
  have i: "calm E y (fst (exits_notices ns y)) \<and> same_intents (xm_oms y) (xm_oms (fst (exits_notices ns y)))" if "r = Inr u" for u
    by (rule 3(1) [OF y [symmetric] that]) (use c(1) 3(3) in \<open>auto simp: calm_def\<close>)
  show ?case using c y i same_intents_trans by (cases r) (auto simp: calm_def)
qed (simp add: calm_def)

definition env_calm :: "string set \<Rightarrow> exit_env \<Rightarrow> bool" where
  "env_calm E env =
     ((\<forall>od. \<forall>f \<in> set (notice_fills (fst (xe_place env od))). f_client_order_id f \<notin> E)
      \<and> (\<forall>s b. \<forall>f \<in> set (notice_fills (fst (xe_cancel env s b))). f_client_order_id f \<notin> E))"

lemma calm_refl [simp]: "entries_in E x \<Longrightarrow> calm E x x"
  by (simp add: calm_def)

lemma calm_trans: "calm E x y \<Longrightarrow> calm E y z \<Longrightarrow> calm E x z"
  by (auto simp: calm_def)

lemma exits_cancel_calm: "env_calm E env \<Longrightarrow> entries_in E x \<Longrightarrow> calm E x (fst (exits_cancel env c x))"
  using exits_notices_calm [of E x ns for ns] unfolding env_calm_def
  by (auto simp: exits_cancel_def Let_def split: sum.splits option.splits prod.splits) (metis fst_conv)+

lemma entries_in_oms: "entries_in E x \<Longrightarrow> xm_oms y = xm_oms x \<Longrightarrow> entries_in E y"
  by (simp add: entries_in_def)

lemma exits_submit_shape:
  obtains "fst (exits_submit env i x) = x"
  | od where "o_intent od = i" "o_client_order_id od = xe_coid env (i_intent_id i)" "0 < o_quantity od"
      "i_reduce_only i \<longrightarrow> o_quantity od \<le> reducible (xm_oms x) i" "i_book_id i = om_book_id (xm_oms x)"
      "od = make_order (xe_coid env (i_intent_id i)) i (o_quantity od) (xe_now env)"
      "dget (om_orders (xm_oms x)) (o_client_order_id od) = None"
      "fst (exits_submit env i x) =
         (case exits_notices (fst (xe_place env od)) (x\<lparr>xm_oms := register od (xm_oms x)\<rparr>) of
            (z, Inl e) \<Rightarrow> z
          | (z, Inr u) \<Rightarrow> z\<lparr>xm_oms := snd (place_result od (snd (xe_place env od)) (xm_oms z))\<rparr>)"
proof (cases "\<exists>g qty. i_book_id i = om_book_id (xm_oms x) \<and> xe_gate env (xm_oms x) = Some g
    \<and> dget (om_orders (xm_oms x)) (xe_coid env (i_intent_id i)) = None \<and> gated_qty (xm_oms x) g i None = Some qty")
  case False
  then have "fst (exits_submit env i x) = x" by (auto simp: exits_submit_def Let_def split: option.splits)
  then show ?thesis by (rule that(1))
next
  case True
  then obtain g qty where g: "i_book_id i = om_book_id (xm_oms x)" "xe_gate env (xm_oms x) = Some g"
    "dget (om_orders (xm_oms x)) (xe_coid env (i_intent_id i)) = None" "gated_qty (xm_oms x) g i None = Some qty" by blast
  define od where "od = make_order (xe_coid env (i_intent_id i)) i qty (xe_now env)"
  show ?thesis
  proof (rule that(2) [of od])
    show "fst (exits_submit env i x) =
         (case exits_notices (fst (xe_place env od)) (x\<lparr>xm_oms := register od (xm_oms x)\<rparr>) of
            (z, Inl e) \<Rightarrow> z
          | (z, Inr u) \<Rightarrow> z\<lparr>xm_oms := snd (place_result od (snd (xe_place env od)) (xm_oms z))\<rparr>)"
      using g by (simp add: exits_submit_def Let_def split_beta flip: od_def split: sum.splits)
  qed (use g gated_qty_pos [OF g(4)] gated_qty_reduce [OF g(4)] in \<open>simp_all add: od_def\<close>)
qed

lemma exits_notices_intents:
  assumes "keyed (xm_oms x)"
  shows "same_intents (xm_oms x) (xm_oms (fst (exits_notices ns x))) \<and> keyed (xm_oms (fst (exits_notices ns x)))"
  using assms
proof (induction ns x rule: exits_notices.induct)
  case (2 sn ns x)
  then show ?case using same_intents_trans [OF on_update_intents [OF 2(2), of sn]] keyed_update by simp
next
  case (3 f ns x)
  obtain y r where y: "exits_fill f x = (y, r)" by fastforce
  have i: "same_intents (xm_oms x) (xm_oms y) \<and> keyed (xm_oms y)" using exits_fill_intents [OF 3(2), of f] y by simp
  show ?case using i y 3(1) [OF y [symmetric]] same_intents_trans by (cases r) auto
qed simp

definition intent_at :: "oms \<Rightarrow> string \<Rightarrow> order_intent option" where
  "intent_at s c = map_option o_intent (dget (om_orders s) c)"

text \<open>What a submission leaves of the orders: the new one has its intent, the others keep theirs.\<close>

lemma exits_submit_intents:
  assumes "keyed (xm_oms x)"
  shows "keyed (xm_oms (fst (exits_submit env i x)))
    \<and> (\<forall>c. intent_at (xm_oms (fst (exits_submit env i x))) c = intent_at (xm_oms x) c
         \<or> (c = xe_coid env (i_intent_id i) \<and> intent_at (xm_oms x) c = None \<and> intent_at (xm_oms (fst (exits_submit env i x))) c = Some i))"
proof (rule exits_submit_shape [of env i x])
  assume "fst (exits_submit env i x) = x"
  then show ?thesis using assms by simp
next
  fix od assume o: "o_intent od = i" "o_client_order_id od = xe_coid env (i_intent_id i)" "dget (om_orders (xm_oms x)) (o_client_order_id od) = None"
    "fst (exits_submit env i x) =
         (case exits_notices (fst (xe_place env od)) (x\<lparr>xm_oms := register od (xm_oms x)\<rparr>) of
            (z, Inl e) \<Rightarrow> z
          | (z, Inr u) \<Rightarrow> z\<lparr>xm_oms := snd (place_result od (snd (xe_place env od)) (xm_oms z))\<rparr>)"
  define y where "y = x\<lparr>xm_oms := register od (xm_oms x)\<rparr>"
  obtain z q where z: "exits_notices (fst (xe_place env od)) y = (z, q)" by fastforce
  have ky: "keyed (xm_oms y)" using assms by (auto simp: y_def keyed_def dget_dset)
  have n: "same_intents (xm_oms y) (xm_oms z)" "keyed (xm_oms z)" using exits_notices_intents [OF ky, of "fst (xe_place env od)"] z by simp_all
  have "map_option o_intent (dget (om_orders (xm_oms z)) (o_client_order_id od)) = Some (o_intent od)"
    using n(1) by (simp add: same_intents_def y_def)
  then obtain od0 where d: "dget (om_orders (xm_oms z)) (o_client_order_id od) = Some od0" by auto
  have "same_intents (xm_oms y) (xm_oms (fst (exits_submit env i x))) \<and> keyed (xm_oms (fst (exits_submit env i x)))"
    using n place_result_intents [OF n(2) d, of "snd (xe_place env od)"] same_intents_trans [OF n(1)] o(4) z
    by (cases q) (auto simp flip: y_def)
  moreover have "map_option o_intent (dget (om_orders (xm_oms y)) c)
      = (if c = xe_coid env (i_intent_id i) then Some i else map_option o_intent (dget (om_orders (xm_oms x)) c))" for c
    using o(1,2) by (auto simp: y_def dget_dset)
  ultimately show ?thesis using o(2,3) unfolding same_intents_def intent_at_def by (metis option.map_disc_iff)
qed

lemma exits_submit_entries:
  assumes "entries_in E x" "\<not> i_reduce_only i \<longrightarrow> xe_coid env (i_intent_id i) \<in> E"
  shows "entries_in E (fst (exits_submit env i x))"
proof -
  let ?y = "fst (exits_submit env i x)"
  have k: "keyed (xm_oms x)" using assms(1) by (simp add: entries_in_def)
  have "c \<in> E" if od: "dget (om_orders (xm_oms ?y)) c = Some od" "\<not> i_reduce_only (o_intent od)" for c od
  proof -
    have "intent_at (xm_oms ?y) c = Some (o_intent od)" using od(1) by (simp add: intent_at_def)
    then consider "intent_at (xm_oms x) c = Some (o_intent od)" | "c = xe_coid env (i_intent_id i)" "o_intent od = i"
      using exits_submit_intents [OF k, of env i] by (metis option.inject)
    then show ?thesis using assms od(2) by cases (auto simp: intent_at_def entries_in_def)
  qed
  then show ?thesis using exits_submit_intents [OF k, of env i] by (auto simp: entries_in_def)
qed

lemma exits_submit_calm:
  assumes "env_calm E env" "entries_in E x" "i_reduce_only i"
  shows "calm E x (fst (exits_submit env i x))"
proof -
  have e: "entries_in E (fst (exits_submit env i x))" by (rule exits_submit_entries [OF assms(2)]) (simp add: assms(3))
  show ?thesis
  proof (rule exits_submit_shape [of env i x])
    assume "fst (exits_submit env i x) = x"
    then show ?thesis using assms(2) by simp
  next
    fix od assume o: "o_intent od = i" "fst (exits_submit env i x) =
         (case exits_notices (fst (xe_place env od)) (x\<lparr>xm_oms := register od (xm_oms x)\<rparr>) of
            (z, Inl e) \<Rightarrow> z
          | (z, Inr u) \<Rightarrow> z\<lparr>xm_oms := snd (place_result od (snd (xe_place env od)) (xm_oms z))\<rparr>)"
    let ?y = "x\<lparr>xm_oms := register od (xm_oms x)\<rparr>"
    have "entries_in E ?y" using assms(2,3) o(1) by (auto simp: entries_in_def keyed_def dget_dset)
    then have "calm E ?y (fst (exits_notices (fst (xe_place env od)) ?y))"
      using exits_notices_calm [of E ?y "fst (xe_place env od)"] assms(1) by (simp add: env_calm_def)
    then show ?thesis using e o(2) by (auto simp: calm_def split: prod.splits sum.splits)
  qed
qed

lemma exit_intent_facts:
  assumes "exit_intent env x p leg kind reason qty ot trigger price = Inr i"
  shows "i_reduce_only i \<and> i_side i = SELL \<and> i_source i = ExitManagerSrc \<and> i_instrument i = mp_instrument p \<and> i_product i = mp_product p
    \<and> i_quantity i = Some qty \<and> i_book_id i = om_book_id (xm_oms x) \<and> intent_valid i \<and> i_kind i = kind \<and> i_reason i = reason
    \<and> i_parent_decision_id i = Some (mp_entry_decision_id p) \<and> i_trigger_price i = trigger"
  using assms by (auto simp: exit_intent_def Let_def split: sum.splits if_splits)

lemma send_exit_calm:
  assumes "env_calm E env" "entries_in E x"
  shows "calm E x (fst (send_exit env a leg kind reason qty ot trigger price x))"
proof (cases "exit_intent env x (mobj x a) leg kind reason qty ot trigger price")
  case (Inr i)
  have "calm E x (fst (exits_submit env i x))" by (rule exits_submit_calm [OF assms]) (use exit_intent_facts [OF Inr] in simp)
  then show ?thesis using Inr by (auto simp: send_exit_def split: prod.splits sum.splits)
qed (use assms(2) in \<open>simp add: send_exit_def\<close>)

lemma cancel_stop_calm: "env_calm E env \<Longrightarrow> entries_in E x \<Longrightarrow> calm E x (fst (cancel_stop env a x))"
  using exits_cancel_calm [of E env x]
  by (auto simp: cancel_stop_def calm_def entries_in_oms split: option.splits prod.splits sum.splits)
     (metis calm_def entries_in_oms exits_simps(3) fst_conv subsetD)+

lemma clear_old_stop_calm: "env_calm E env \<Longrightarrow> entries_in E x \<Longrightarrow> calm E x (fst (clear_old_stop env a x))"
  by (auto simp: clear_old_stop_def exits_cancel_calm split: option.splits)

lemma clear_old_stop_awaits: "exits_inv x \<Longrightarrow> awaits x (fst (clear_old_stop env a x))"
  by (auto simp: clear_old_stop_def exits_cancel_awaits awaits_refl split: option.splits)

lemma exit_all_calm:
  assumes "env_calm E env" "entries_in E x"
  shows "calm E x (fst (exit_all env a reason leg price x))"
proof -
  obtain y r where y: "cancel_stop env a x = (y, r)" by fastforce
  obtain z q where z: "send_exit env a leg KClose reason (mp_quantity (mobj y a)) MARKET None price y = (z, q)" by fastforce
  have cy: "calm E x y" using cancel_stop_calm [OF assms, of a] y by simp
  then have ey: "entries_in E y" by (simp add: calm_def)
  have cz: "calm E x z" using calm_trans [OF cy] send_exit_calm [OF assms(1) ey, of a leg KClose reason] z by (metis fst_conv)
  let ?r = "fst (exit_all env a reason leg price x)"
  have "\<exists>w \<in> {y, z}. xm_oms ?r = xm_oms w \<and> xm_positions ?r = xm_positions w"
    using y z by (auto simp: exit_all_def split: sum.splits)
  with cy cz show ?thesis using entries_in_oms unfolding calm_def by (metis insertE singletonD)
qed

lemma exit_partial_entries:
  assumes "env_calm E env" "entries_in E x"
  shows "entries_in E (fst (exit_partial env a price x))"
proof -
  obtain y r where y: "cancel_stop env a x = (y, r)" by fastforce
  let ?q = "partial_qty (xm_policy x) (mobj x a)"
  obtain z q where z: "send_exit env a ''partial'' KReduce RsPartial ?q MARKET None (Some price) y = (z, q)" by fastforce
  have ey: "entries_in E y" using cancel_stop_calm [OF assms, of a] y by (simp add: calm_def)
  then have ez: "entries_in E z" using send_exit_calm [OF assms(1) ey, of a "''partial''"] z unfolding calm_def by (metis fst_conv)
  have "xm_oms (fst (exit_partial env a price x)) \<in> {xm_oms x, xm_oms y, xm_oms z}"
    using y z by (auto simp: exit_partial_def Let_def split: sum.splits)
  with assms(2) ey ez show ?thesis using entries_in_oms by blast
qed

definition exits_ok :: "string set \<Rightarrow> exits \<Rightarrow> bool" where
  "exits_ok E x = (exits_inv x \<and> guarded {} x \<and> entries_in E x)"

definition stays_ok :: "string set \<Rightarrow> 'a exit_result \<Rightarrow> bool" where
  "stays_ok E r = (\<forall>u. snd r = Inr u \<longrightarrow> exits_ok E (fst r))"

lemma exit_all_ok: "env_calm E env \<Longrightarrow> exits_ok E x \<Longrightarrow> stays_ok E (exit_all env a reason leg price x)"
  using exit_all_guarded [of x a "{}" env reason leg price] guarded_mono [of "{}" x "{a}"] exit_all_calm [of E env x a reason leg price]
  by (auto simp: stays_ok_def exits_ok_def keeps_guard_def calm_def)

lemma exit_partial_ok: "env_calm E env \<Longrightarrow> exits_ok E x \<Longrightarrow> stays_ok E (exit_partial env a price x)"
  using exit_partial_guarded [of x env a price] exit_partial_entries [of E env x a price]
  by (auto simp: stays_ok_def exits_ok_def keeps_guard_def)

subsection \<open>Every operation keeps the positions protected\<close>

lemma exits_ok_neutral:
  assumes "exits_ok E x" "\<And>p. mp_key (f p) = mp_key p \<and> mp_closing (f p) = mp_closing p \<and> mp_stop_coid (f p) = mp_stop_coid p \<and> mp_quantity (f p) = mp_quantity p"
  shows "exits_ok E (set_mobj a f x)"
proof -
  have "exits_inv x" "guarded {} x" "entries_in E x" using assms(1) by (simp_all add: exits_ok_def)
  then show ?thesis using exits_inv_set_mobj [of x f a] guarded_neutral [of x "{}" f a] entries_in_oms [of E x] assms(2)
    by (simp add: exits_ok_def)
qed

lemma exits_ok_cong:
  "exits_ok E x \<Longrightarrow> xm_positions y = xm_positions x \<Longrightarrow> xm_objs y = xm_objs x \<Longrightarrow> set (xm_stale x) \<subseteq> set (xm_stale y) \<Longrightarrow>
   xm_oms y = xm_oms x \<Longrightarrow> exits_ok E y"
  unfolding exits_ok_def by (metis exits_inv_cong guarded_cong entries_in_oms)

lemma exits_ok_stale: "exits_ok E x \<Longrightarrow> exits_ok E (stale_add k x)"
  by (rule exits_ok_cong) auto

lemma exits_ok_save: "exits_ok E x \<Longrightarrow> exits_ok E (exits_save x)"
  by (rule exits_ok_cong) auto

lemma exits_ok_alert: "exits_ok E x \<Longrightarrow> exits_ok E (exit_alert l k x)"
  by (rule exits_ok_cong) auto

lemma exits_ok_awaits:
  assumes "exits_ok E x" "awaits x y" "calm E x y"
  shows "exits_ok E y"
  using assms guarded_awaits [of x "{}" y] by (simp add: exits_ok_def awaits_def calm_def)

lemma stays_ok_bind:
  assumes "stays_ok E r" "\<And>y u. r = (y, Inr u) \<Longrightarrow> exits_ok E y \<Longrightarrow> stays_ok E (g y u)"
  shows "stays_ok E (case r of (y, Inl e) \<Rightarrow> (y, Inl e) | (y, Inr u) \<Rightarrow> g y u)"
  using assms by (cases r; cases "snd r") (auto simp: stays_ok_def)

lemma stays_ok_ret: "exits_ok E x \<Longrightarrow> stays_ok E (x, v)"
  by (simp add: stays_ok_def)

lemma stays_ok_saved: "stays_ok E r \<Longrightarrow> stays_ok E (saved_ok r)"
  by (cases r; cases "snd r") (auto simp: stays_ok_def saved_ok_def exits_ok_save)

text \<open>Dropping a key from the pending stops is harmless where its position is settled.\<close>

lemma exits_ok_discard:
  assumes "exits_ok E x" "\<And>a. (k, a) \<in> set (xm_positions x) \<Longrightarrow> shielded (stale_discard k x) k a"
  shows "exits_ok E (stale_discard k x)"
proof -
  have "exits_inv (stale_discard k x)" "entries_in E (stale_discard k x)"
    using assms(1) exits_inv_cong [of x] entries_in_oms [of E x] by (simp_all add: exits_ok_def)
  moreover have "shielded (stale_discard k x) k' a" if "(k', a) \<in> set (xm_positions x)" for k' a
    using that assms by (cases "k' = k") (auto simp: exits_ok_def guarded_def shielded_def)
  ultimately show ?thesis by (auto simp: exits_ok_def guarded_def)
qed

lemma exits_ok_settled:
  assumes "exits_ok E x" "\<And>b. (k, b) \<in> set (xm_positions x) \<Longrightarrow> b = a" "\<And>p. mp_key (f p) = mp_key p"
    and "\<And>p. mp_closing (f p) \<or> mp_stop_coid (f p) \<noteq> None"
  shows "exits_ok E (stale_discard k (set_mobj a f x))"
proof (rule exits_ok_discard)
  have i: "exits_inv x" using assms(1) by (simp add: exits_ok_def)
  have "guarded {} (set_mobj a f x)"
  proof (rule guarded_settle)
    show "guarded (insert a {}) (set_mobj a f x)" using guarded_set_mobj [OF i, of "{}"] assms(1) by (simp add: exits_ok_def)
  qed (use exits_invD(1) [OF i] assms(4) [of "mobj x a"] in \<open>auto simp: shielded_def mobj_set_mobj\<close>)
  then show "exits_ok E (set_mobj a f x)"
    using exits_inv_set_mobj [OF i assms(3)] assms(1) entries_in_oms [of E x] by (simp add: exits_ok_def)
  fix b assume "(k, b) \<in> set (xm_positions (set_mobj a f x))"
  then have "(k, b) \<in> set (xm_positions x)" by simp
  then show "shielded (stale_discard k (set_mobj a f x)) k b"
    using assms(2) exits_invD(1) [OF i, of k b] assms(4) [of "mobj x a"] by (auto simp: shielded_def mobj_set_mobj)
qed

lemma send_exit_ok:
  assumes "env_calm E env" "exits_ok E x" "send_exit env a leg kind reason qty ot trigger price x = (y, r)"
  shows "exits_ok E y \<and> set (xm_positions y) \<subseteq> set (xm_positions x)"
  using send_exit_awaits [of x env a leg kind reason qty ot trigger price] assms
    send_exit_calm [of E env x a leg kind reason qty ot trigger price] exits_ok_awaits [OF assms(2), of y]
  by (auto simp: exits_ok_def calm_def)

lemma place_stop_ok:
  assumes "env_calm E env" "exits_ok E x" "\<And>b. (k, b) \<in> set (xm_positions x) \<Longrightarrow> b = a"
  shows "stays_ok E (place_stop env k a x)"
proof -
  define x1 where "x1 = set_mobj a (\<lambda>p. p\<lparr>mp_stop_version := mp_stop_version p + 1\<rparr>) x"
  define leg where "leg = stop_leg env (mp_stop_version (mobj x1 a))"
  have 1: "exits_ok E x1" unfolding x1_def by (rule exits_ok_neutral [OF assms(2)]) simp
  obtain y r where y: "send_exit env a leg KClose RsStop (mp_quantity (mobj x1 a)) SL_M
      (Some (mp_stop_price (mobj x1 a))) (Some (mp_stop_price (mobj x1 a))) x1 = (y, r)" by fastforce
  note 2 = send_exit_ok [OF assms(1) 1 y]
  have u: "b = a" if "(k, b) \<in> set (xm_positions y)" for b using that 2 assms(3) by (auto simp: x1_def)
  have "exits_ok E (stale_discard k (set_mobj a (\<lambda>p. p\<lparr>mp_stop_coid := Some c\<rparr>) y))" for c
    by (rule exits_ok_settled) (use 2 u in auto)
  then show ?thesis using 2 exits_ok_alert
    unfolding place_stop_def Let_def x1_def [symmetric] leg_def [symmetric] y by (auto simp: stays_ok_def split: sum.splits)
qed

lemma refresh_one_ok:
  assumes "env_calm E env" "exits_ok E x"
  shows "stays_ok E (refresh_one env k x)"
proof (cases "dget (xm_positions x) k")
  case None
  then have "(k, a) \<notin> set (xm_positions x)" for a by (auto simp: map_of_eq_None_iff image_iff)
  then show ?thesis using None exits_ok_discard [OF assms(2), of k] by (simp add: refresh_one_def stays_ok_def)
next
  case (Some a)
  have i: "exits_inv x" using assms(2) by (simp add: exits_ok_def)
  have u: "b = a" if "(k, b) \<in> set (xm_positions x)" for b using exits_invD(3) [OF i that] Some by simp
  define p where "p = mobj x a"
  define found where "found = (if mp_stop_coid p = None then live_stop (xm_oms x) p else None)"
  define pick where "pick = (case found of None \<Rightarrow> None | Some od \<Rightarrow> adoptable p od)"
  have r: "refresh_one env k x =
      (if mp_closing p \<or> mp_quantity p \<le> 0 then (stale_discard k x, Inr ())
       else case pick of
         Some t \<Rightarrow> (stale_discard k (set_mobj a (\<lambda>p. p\<lparr>mp_stop_coid := map_option o_client_order_id found, mp_stop_price := t\<rparr>) x), Inr ())
       | None \<Rightarrow> (case clear_old_stop env a x of (x1, Inl e) \<Rightarrow> (x1, Inl e) | (x1, Inr u) \<Rightarrow> place_stop env k a x1))"
    unfolding refresh_one_def pick_def found_def p_def by (simp add: Some Let_def)
  consider "mp_closing p \<or> mp_quantity p \<le> 0" | t where "\<not> (mp_closing p \<or> mp_quantity p \<le> 0)" "pick = Some t"
    | "\<not> (mp_closing p \<or> mp_quantity p \<le> 0)" "pick = None" by (cases pick) auto
  then show ?thesis
  proof cases
    case 1
    then show ?thesis using exits_ok_discard [OF assms(2), of k] u unfolding r by (auto simp: stays_ok_def shielded_def p_def)
  next
    case (2 t)
    then obtain od where "found = Some od" by (auto simp: pick_def split: option.splits)
    then show ?thesis using 2 u exits_ok_settled [OF assms(2), of k a "\<lambda>p. p\<lparr>mp_stop_coid := map_option o_client_order_id found, mp_stop_price := t\<rparr>"]
      unfolding r by (simp add: stays_ok_def)
  next
    case 3
    obtain y q where y: "clear_old_stop env a x = (y, q)" by fastforce
    have c: "calm E x y" using clear_old_stop_calm [OF assms(1), of x a] assms(2) y by (simp add: exits_ok_def)
    then have "exits_ok E y" using exits_ok_awaits [OF assms(2)] clear_old_stop_awaits [OF i, of env a] y by simp
    moreover have "b = a" if "(k, b) \<in> set (xm_positions y)" for b using that c u by (auto simp: calm_def)
    ultimately show ?thesis unfolding r using 3 y place_stop_ok [OF assms(1), of y k a] by (cases q) (auto simp: stays_ok_def)
  qed
qed

lemma refresh_keys_ok: "env_calm E env \<Longrightarrow> exits_ok E x \<Longrightarrow> stays_ok E (refresh_keys env ks x)"
proof (induction ks arbitrary: x)
  case (Cons k ks)
  then show ?case using stays_ok_bind [OF refresh_one_ok, of E env x k "\<lambda>y u. refresh_keys env ks y"] by simp
qed (simp add: stays_ok_ret)

lemma refresh_stops_ok: "env_calm E env \<Longrightarrow> exits_ok E x \<Longrightarrow> stays_ok E (refresh_stops env x)"
  unfolding refresh_stops_def by (intro stays_ok_saved refresh_keys_ok)

lemma each_pos_ok: "(\<And>a y. exits_ok E y \<Longrightarrow> stays_ok E (f a y)) \<Longrightarrow> exits_ok E x \<Longrightarrow> stays_ok E (each_pos f as x)"
proof (induction as arbitrary: x)
  case (Cons a as)
  then show ?case using stays_ok_bind [of E "f a x" "\<lambda>y u. each_pos f as y"] by simp
qed (simp add: stays_ok_ret)

lemma exits_on_quote_ok: "env_calm E env \<Longrightarrow> exits_ok E x \<Longrightarrow> stays_ok E (exits_on_quote env q x)"
  unfolding exits_on_quote_def
  by (intro stays_ok_bind refresh_stops_ok stays_ok_saved each_pos_ok)
     (auto simp: quote_one_def Let_def exit_all_ok exit_partial_ok stays_ok_ret)

lemma trailed_key [simp]: "mp_key (trailed pol atr closes p) = mp_key p"
  by (simp add: trailed_def Let_def mp_key_def)

lemma exits_ok_touch:
  assumes "exits_ok E x" "\<And>k'. (k', a) \<in> set (xm_positions x) \<Longrightarrow> k' = k" "\<And>p. mp_key (f p) = mp_key p"
  shows "exits_ok E (stale_add k (set_mobj a f x))"
proof -
  have i: "exits_inv x" "guarded {} x" using assms(1) by (simp_all add: exits_ok_def)
  have "guarded {} (stale_add k (set_mobj a f x))"
    by (rule guarded_settle, rule guarded_cong [OF guarded_set_mobj [OF i, of a]]) (use assms(2) in \<open>auto simp: shielded_def\<close>)
  moreover have "exits_inv (stale_add k (set_mobj a f x))" by (rule exits_inv_cong [OF exits_inv_set_mobj [OF i(1) assms(3)]]) simp_all
  ultimately show ?thesis using assms(1) entries_in_oms [of E x] by (simp add: exits_ok_def)
qed

lemma exits_ok_only: "exits_ok E x \<Longrightarrow> dget (xm_positions x) k = Some a \<Longrightarrow> (k', a) \<in> set (xm_positions x) \<Longrightarrow> k' = k"
  using exits_inv_get(2) [of x k a] exits_invD(2) [of x k' a] by (simp add: exits_ok_def)

text \<open>The session start visits every position, so it protects also those that were not protected
  before, for example after a restart.\<close>

lemma session_one_guarded:
  assumes "env_calm E env" "exits_inv x" "entries_in E x" "guarded (insert a B) x" "\<And>k'. (k', a) \<in> set (xm_positions x) \<Longrightarrow> k' = k"
    and "session_one env day atr closes (k, a) x = (y, Inr u)"
  shows "exits_inv y \<and> entries_in E y \<and> guarded B y \<and> set (xm_positions y) \<subseteq> set (xm_positions x)"
proof -
  define p where "p = mobj x a"
  define w where "w = stale_add k (set_mobj a (trailed (xm_policy x) atr closes) x)"
  define leg where "leg = ''time-'' @ xe_isoformat env day"
  have s: "session_one env day atr closes (k, a) x =
      (if mp_closing p then (x, Inr ())
       else case trading_days (xm_calendar x) (mp_entered_on p) day of
         Inl e \<Rightarrow> (x, Inl (OtherError e))
       | Inr ds \<Rightarrow> if xp_max_hold_days (xm_policy x) \<le> int (length ds) - 1 then exit_all env a RsTime leg None x else (w, Inr ()))"
    unfolding session_one_def p_def w_def leg_def Let_def by simp
  consider "mp_closing p" "y = x" | "exit_all env a RsTime leg None x = (y, Inr u)" | "y = w"
  proof (cases "trading_days (xm_calendar x) (mp_entered_on p) day")
    case (Inl e)
    then show ?thesis using assms(6) that unfolding s by (cases "mp_closing p") auto
  next
    case (Inr ds)
    then show ?thesis using assms(6) that unfolding s
      by (cases "mp_closing p"; cases "xp_max_hold_days (xm_policy x) \<le> int (length ds) - 1") auto
  qed
  then show ?thesis
  proof cases
    case 1
    then have "guarded B x" using guarded_settle [OF assms(4)] by (simp add: shielded_def p_def)
    then show ?thesis using 1 assms(2,3) by simp
  next
    case 2
    then show ?thesis using exit_all_guarded [OF assms(2,4), of env RsTime leg None] exit_all_calm [OF assms(1,3), of a RsTime leg None]
      by (simp add: keeps_guard_def calm_def)
  next
    case 3
    have g: "guarded (insert a B) (set_mobj a (trailed (xm_policy x) atr closes) x)"
      using guarded_set_mobj [OF assms(2,4), of a] by simp
    have "guarded (insert a B) w" unfolding w_def by (rule guarded_cong [OF g]) auto
    then have "guarded B w" by (rule guarded_settle) (use assms(5) in \<open>auto simp: w_def shielded_def\<close>)
    moreover have "exits_inv w" unfolding w_def by (rule exits_inv_cong [OF exits_inv_set_mobj [OF assms(2)]]) simp_all
    moreover have "entries_in E w" by (rule entries_in_oms [OF assms(3)]) (simp add: w_def)
    ultimately show ?thesis using 3 by (simp add: w_def)
  qed
qed

lemma session_loop_protects:
  assumes "env_calm E env" "exits_inv x" "entries_in E x" "guarded (snd ` set kas) x"
    and "\<And>k k' a. (k, a) \<in> set kas \<Longrightarrow> (k', a) \<in> set (xm_positions x) \<Longrightarrow> k' = k"
  shows "stays_ok E (session_loop env day atr closes kas x)"
  using assms(2-)
proof (induction kas arbitrary: x)
  case Nil
  then show ?case by (simp add: stays_ok_def exits_ok_def)
next
  case (Cons ka kas)
  obtain k a where ka: "ka = (k, a)" by fastforce
  obtain y r where y: "session_one env day atr closes (k, a) x = (y, r)" by fastforce
  show ?case
  proof (cases r)
    case (Inr u)
    have g: "exits_inv y \<and> entries_in E y \<and> guarded (snd ` set kas) y \<and> set (xm_positions y) \<subseteq> set (xm_positions x)"
    proof (rule session_one_guarded [OF assms(1) Cons.prems(1,2)])
      show "guarded (insert a (snd ` set kas)) x" using Cons.prems(3) ka by simp
      show "k' = k" if "(k', a) \<in> set (xm_positions x)" for k' using Cons.prems(4) [of k a k'] ka that by simp
      show "session_one env day atr closes (k, a) x = (y, Inr u)" using y Inr by simp
    qed
    have "stays_ok E (session_loop env day atr closes kas y)"
    proof (rule Cons.IH)
      fix k k' a assume "(k, a) \<in> set kas" "(k', a) \<in> set (xm_positions y)"
      then show "k' = k" using g Cons.prems(4) [of k a k'] by auto
    qed (use g in auto)
    then show ?thesis using y Inr ka by simp
  qed (use y ka in \<open>simp add: stays_ok_def\<close>)
qed

lemma session_start_protects:
  assumes "env_calm E env" "exits_inv x" "entries_in E x"
  shows "stays_ok E (on_session_start env day atr closes x)"
  unfolding on_session_start_def
proof (rule stays_ok_bind)
  have "guarded (snd ` set (xm_positions x)) x" by (force simp: guarded_def)
  then show "stays_ok E (session_loop env day atr closes (xm_positions x) x)"
    by (rule session_loop_protects [OF assms]) (use exits_invD(2) [OF assms(2)] in auto)
qed (auto intro: stays_ok_saved refresh_stops_ok assms(1))

lemma on_session_start_ok: "env_calm E env \<Longrightarrow> exits_ok E x \<Longrightarrow> stays_ok E (on_session_start env day atr closes x)"
  by (simp add: session_start_protects exits_ok_def)

lemma exits_flatten_ok: "env_calm E env \<Longrightarrow> exits_ok E x \<Longrightarrow> stays_ok E (exits_flatten env reason x)"
  unfolding exits_flatten_def by (intro stays_ok_saved each_pos_ok exit_all_ok)

lemma stand_down_ok:
  assumes "env_calm E env" "exits_ok E x"
  shows "stays_ok E (stand_down env ik pr x)"
proof (cases "dget (xm_positions x) (key_text ik pr)")
  case None
  then show ?thesis using assms(2) by (simp add: stand_down_def Let_def stays_ok_ret)
next
  case (Some a)
  let ?k = "key_text ik pr" and ?f = "\<lambda>p. p\<lparr>mp_closing := True\<rparr>"
  have i: "exits_inv x" "guarded {} x" "entries_in E x" using assms(2) by (simp_all add: exits_ok_def)
  obtain y r where y: "cancel_stop env a x = (y, r)" by fastforce
  note g = cancel_stop_guarded [OF i(1,2) y]
  have c: "calm E x y" using cancel_stop_calm [OF assms(1) i(3), of a] y by simp
  have u: "b = a" if "(?k, b) \<in> set (xm_positions y)" for b
    using that c exits_invD(3) [OF i(1), of ?k b] Some by (auto simp: calm_def)
  have ok: "exits_ok E (set_mobj a ?f y)"
    using g c guarded_close [of y a "{}"] exits_inv_set_mobj [of y ?f a] entries_in_oms [of E y] by (simp add: exits_ok_def calm_def)
  have "exits_ok E (stale_discard ?k (set_mobj a ?f y))"
  proof (rule exits_ok_discard [OF ok])
    fix b assume "(?k, b) \<in> set (xm_positions (set_mobj a ?f y))"
    then show "shielded (stale_discard ?k (set_mobj a ?f y)) ?k b"
      using u exits_invD(1) [of y ?k b] g by (auto simp: shielded_def mobj_set_mobj)
  qed
  then show ?thesis using Some y by (auto simp: stand_down_def Let_def stays_ok_def exits_ok_save split: sum.splits)
qed

lemma exits_ok_drop: "exits_ok E x \<Longrightarrow> exits_ok E (x\<lparr>xm_positions := dpop k (xm_positions x)\<rparr>)"
  using exits_inv_drop [of x k] entries_in_oms [of E x] by (auto simp: exits_ok_def guarded_def shielded_def AList.delete_eq)

lemma exits_ok_adopt:
  assumes "exits_ok E x" "mp_key p = k"
  shows "exits_ok E (stale_add k (alloc_pos k p x))"
proof -
  have i: "exits_inv x" using assms(1) by (simp add: exits_ok_def)
  have "shielded (stale_add k (alloc_pos k p x)) k' a" if m: "(k', a) \<in> set (dset k (length (xm_objs x)) (xm_positions x))" for k' a
  proof (cases "k' = k")
    case False
    then have o: "(k', a) \<in> set (xm_positions x)" using dset_pos [OF i m] by simp
    then have "shielded x k' a" using assms(1) by (auto simp: exits_ok_def guarded_def)
    then show ?thesis using exits_invD(1) [OF i o] by (auto simp: shielded_def mobj_alloc_old)
  qed (simp add: shielded_def)
  moreover have "exits_inv (stale_add k (alloc_pos k p x))" by (rule exits_inv_cong [OF exits_inv_alloc [OF i assms(2)]]) simp_all
  ultimately show ?thesis using assms(1) entries_in_oms [of E x] by (auto simp: exits_ok_def guarded_def)
qed

lemma drop_ghosts_ok: "exits_ok E (fst r) \<Longrightarrow> exits_ok E (fst (drop_ghosts held ks r))"
proof (induction ks arbitrary: r)
  case (Cons k ks)
  then show ?case using exits_ok_drop by (cases r) auto
qed simp

definition held_keys_ok :: "(string, position) dict \<Rightarrow> bool" where
  "held_keys_ok d = (\<forall>(k, p) \<in> set d. k = key_text (p_instrument_key p) (p_product p))"

lemma instrument_for_key: "instrument_for s ik = Some ins \<Longrightarrow> ins_key ins = ik"
  by (auto simp: instrument_for_def find_Some_iff)

lemma reconcile_held_ok:
  assumes "exits_ok E (fst r)" "held_keys_ok ps"
  shows "exits_ok E (fst (reconcile_held env atr ps r))"
  using assms
proof (induction ps arbitrary: r)
  case (Cons kp ps)
  obtain k p where kp: "kp = (k, p)" by fastforce
  obtain x nts where r: "r = (x, nts)" by fastforce
  have x: "exits_ok E x" using Cons.prems(1) r by simp
  have k: "k = key_text (p_instrument_key p) (p_product p)" using Cons.prems(2) kp by (simp add: held_keys_ok_def)
  have "exits_ok E (fst (case dget (xm_positions x) k of Some a \<Rightarrow> resync k a p r | None \<Rightarrow> take_on env atr k p r))"
  proof (cases "dget (xm_positions x) k")
    case None
    have "mp_key (adopted_pos pol nid k ins p avg v d) = k" if "instrument_for (xm_oms x) (p_instrument_key p) = Some ins" for pol nid ins avg v d
      using instrument_for_key [OF that] k by (simp add: adopted_pos_def mp_key_def split_beta)
    then show ?thesis using None x r exits_ok_adopt by (auto simp: take_on_def Let_def split: option.splits)
  next
    case (Some a)
    have t: "exits_ok E (stale_add k (set_mobj a f y))" if "exits_ok E y" "xm_positions y = xm_positions x" "\<And>p. mp_key (f p) = mp_key p" for f y
      by (rule exits_ok_touch [OF that(1) _ that(3)]) (use exits_ok_only [OF x Some] that(2) in auto)
    then show ?thesis using Some x r by (auto simp: resync_def Let_def)
  qed
  moreover have "held_keys_ok ps" using Cons.prems(2) by (simp add: held_keys_ok_def)
  ultimately show ?case using Cons.IH r unfolding kp reconcile_held.simps by simp
qed simp

lemma to_dict_set: "set (to_dict xs d) \<subseteq> set xs \<union> set d"
proof (induction xs d rule: to_dict.induct)
  case (2 k v xs d)
  have "set (dset k v d) \<subseteq> insert (k, v) (set d)" using set_dset by fastforce
  with 2 show ?case by auto
qed simp

lemma held_positions_keys: "held_keys_ok (held_positions x now)"
  unfolding held_keys_ok_def held_positions_def using to_dict_set by fastforce

lemma exits_reconcile_ok:
  assumes "env_calm E env" "exits_ok E x"
  shows "stays_ok E (exits_reconcile env atr x)"
proof -
  define held where "held = held_positions x (xe_now env)"
  obtain y nts where y: "reconcile_held env atr held (drop_ghosts held (map fst (xm_positions x)) (x, [])) = (y, nts)" by fastforce
  have "exits_ok E (fst (reconcile_held env atr held (drop_ghosts held (map fst (xm_positions x)) (x, []))))"
    unfolding held_def by (intro reconcile_held_ok drop_ghosts_ok held_positions_keys) (simp add: assms(2))
  then have "exits_ok E y" using y by simp
  then have "exits_ok E (fold (\<lambda>n. exit_alert (note_level n) ''exit_reconcile'') nts y)"
    by (induction nts arbitrary: y) (simp_all add: exits_ok_alert)
  then have "stays_ok E (saved_ok (refresh_stops env (fold (\<lambda>n. exit_alert (note_level n) ''exit_reconcile'') nts y)))"
    by (intro stays_ok_saved refresh_stops_ok assms(1))
  then show ?thesis using y by (auto simp: exits_reconcile_def Let_def stays_ok_def simp flip: held_def split: prod.splits sum.splits)
qed

subsection \<open>Runs\<close>

text \<open>The calls of the engine, each with the environment it meets, between notices of the broker and
  orders of the other components.\<close>

datatype exit_op =
    XExpect order_intent rat date
  | XQuote quote
  | XSession date "(string, rat) dict" "(string, rat) dict"
  | XRefresh
  | XFlatten string
  | XStandDown string product
  | XReconcile "(string, rat) dict"
  | XNotices "notice list"
  | XOrder order_intent

definition lift_result :: "exits \<times> 'a result \<Rightarrow> unit exit_result" where
  "lift_result r = (case r of (x, Inl e) \<Rightarrow> (x, Inl (OtherError e)) | (x, Inr v) \<Rightarrow> (x, Inr ()))"

definition drop_value :: "'a exit_result \<Rightarrow> unit exit_result" where
  "drop_value r = (case r of (x, Inl e) \<Rightarrow> (x, Inl e) | (x, Inr v) \<Rightarrow> (x, Inr ()))"

fun exit_do :: "exit_env \<Rightarrow> exit_op \<Rightarrow> exits \<Rightarrow> unit exit_result" where
  "exit_do env (XExpect i atr bar) x = lift_result (expect_entry (xe_coid env) i atr bar x)"
| "exit_do env (XQuote q) x = exits_on_quote env q x"
| "exit_do env (XSession day atr closes) x = on_session_start env day atr closes x"
| "exit_do env XRefresh x = refresh_stops env x"
| "exit_do env (XFlatten reason) x = exits_flatten env reason x"
| "exit_do env (XStandDown ik pr) x = stand_down env ik pr x"
| "exit_do env (XReconcile atr) x = drop_value (exits_reconcile env atr x)"
| "exit_do env (XNotices ns) x = lift_result (exits_notices ns x)"
| "exit_do env (XOrder i) x = drop_value (exits_submit env i x)"

fun exits_run :: "(exit_env \<times> exit_op) list \<Rightarrow> exits \<Rightarrow> unit exit_result" where
  "exits_run [] x = (x, Inr ())"
| "exits_run ((env, op) # ops) x =
     (case exit_do env op x of (x1, Inl e) \<Rightarrow> (x1, Inl e) | (x1, Inr u) \<Rightarrow> exits_run ops x1)"

text \<open>While the manager itself waits for the broker no entry fill arrives; entries of the other components
  carry the ids of \<open>E\<close>.\<close>

fun exit_op_ok :: "string set \<Rightarrow> exit_env \<times> exit_op \<Rightarrow> bool" where
  "exit_op_ok E (env, XOrder i) = (\<not> i_reduce_only i \<longrightarrow> xe_coid env (i_intent_id i) \<in> E)"
| "exit_op_ok E (env, XNotices ns) = True"
| "exit_op_ok E (env, op) = env_calm E env"

lemma exit_do_ok:
  assumes "exit_op_ok E (env, op)" "exits_ok E x"
  shows "stays_ok E (exit_do env op x)"
proof (cases op)
  case (XExpect i atr bar)
  have "exits_ok E (exits_save (x\<lparr>xm_pending := p\<rparr>))" for p by (rule exits_ok_save, rule exits_ok_cong [OF assms(2)]) simp_all
  with XExpect show ?thesis by (simp add: lift_result_def expect_entry_def stays_ok_def)
next
  case (XNotices ns)
  have i: "exits_inv x" "guarded {} x" "entries_in E x" "keyed (xm_oms x)" using assms(2) by (simp_all add: exits_ok_def entries_in_def)
  have "exits_ok E (fst (exits_notices ns x))"
    using guarded_awaits [OF i(1,2) exits_notices_awaits [OF i(1)], of ns] exits_notices_awaits [OF i(1), of ns]
      exits_notices_intents [OF i(4), of ns] entries_in_same [OF i(3), of "fst (exits_notices ns x)"] by (simp add: exits_ok_def awaits_def)
  with XNotices show ?thesis by (cases "exits_notices ns x") (auto simp: lift_result_def stays_ok_def split: sum.splits)
next
  case (XOrder i)
  have j: "exits_inv x" "guarded {} x" "entries_in E x" using assms(2) by (simp_all add: exits_ok_def)
  have "exits_ok E (fst (exits_submit env i x))"
    using guarded_awaits [OF j(1,2) exits_submit_awaits [OF j(1)], of env i] exits_submit_awaits [OF j(1), of env i]
      exits_submit_entries [OF j(3), of i env] assms(1) XOrder by (simp add: exits_ok_def awaits_def)
  with XOrder show ?thesis by (cases "exits_submit env i x") (auto simp: drop_value_def stays_ok_def split: sum.splits)
next
  case (XReconcile atr)
  have "env_calm E env" using assms(1) XReconcile by simp
  from exits_reconcile_ok [OF this assms(2), of atr] XReconcile show ?thesis
    by (cases "exits_reconcile env atr x") (auto simp: drop_value_def stays_ok_def split: sum.splits)
qed (use assms in \<open>auto intro: exits_on_quote_ok on_session_start_ok refresh_stops_ok exits_flatten_ok stand_down_ok\<close>)

lemma exits_run_ok:
  assumes "list_all (exit_op_ok E) ops" "exits_ok E x"
  shows "stays_ok E (exits_run ops x)"
  using assms
proof (induction ops arbitrary: x)
  case (Cons eo ops)
  obtain env op where eo: "eo = (env, op)" by fastforce
  then show ?case using Cons stays_ok_bind [OF exit_do_ok, of E env op x "\<lambda>y u. exits_run ops y"] by simp
qed (simp add: stays_ok_ret)

lemma new_exits_ok: "om_orders s = [] \<Longrightarrow> exits_ok E (new_exits pol cal s None)"
  by (simp add: new_exits_def exits_ok_def exits_inv_def guarded_def entries_in_def keyed_def)

subsection \<open>No position is silently unprotected\<close>

definition saved_wf :: "((string, managed) dict \<times> (string, pending_entry) dict) option \<Rightarrow> bool" where
  "saved_wf st = (case st of None \<Rightarrow> True | Some (ps, pend) \<Rightarrow> distinct (map fst ps) \<and> list_all (\<lambda>(k, p). mp_key p = k) ps)"

lemma new_exits_inv:
  assumes "saved_wf st"
  shows "exits_inv (new_exits pol cal s st)"
proof (cases st)
  case None
  then show ?thesis by (simp add: new_exits_def exits_inv_def)
next
  case (Some v)
  obtain ps pend where v: "v = (ps, pend)" by fastforce
  have wf: "distinct (map fst ps)" "list_all (\<lambda>(k, p). mp_key p = k) ps" using assms Some v by (simp_all add: saved_wf_def)
  let ?z = "zip (map fst ps) [0..<length ps]"
  have "a < length ps \<and> mp_key (map snd ps ! a) = k" if m: "(k, a) \<in> set ?z" for k a
  proof -
    obtain j where j: "j < length ps" "k = fst (ps ! j)" "a = j" using m by (auto simp: set_zip)
    have "ps ! j \<in> set ps" using j(1) by simp
    then have "mp_key (snd (ps ! j)) = fst (ps ! j)" using wf(2) by (auto simp: list_all_iff)
    then show ?thesis using j by simp
  qed
  then show ?thesis using Some v wf(1) by (auto simp: new_exits_def exits_inv_def mobj_def)
qed

text \<open>C19: No managed position is ever silently without protection. Take an exit manager on any saved
  state, started with the session start the engine always makes, through any sequence of quotes, fills,
  session starts, flattenings, stand-downs, reconciliations and orders of other components that return.
  Afterwards every managed position has an exit submitted, a stop recorded, or its stop on the list of
  stops to place (or nothing is held), provided that no entry fill arrives while the manager waits for
  the broker.\<close>

theorem positions_stay_protected:
  assumes "keyed s" "\<forall>c od. dget (om_orders s) c = Some od \<longrightarrow> \<not> i_reduce_only (o_intent od) \<longrightarrow> c \<in> E" "saved_wf st"
    and "list_all (exit_op_ok E) ((env, XSession day atr closes) # ops)"
    and "exits_run ((env, XSession day atr closes) # ops) (new_exits pol cal s st) = (x, Inr u)"
  shows "all_protected x"
proof -
  let ?x = "new_exits pol cal s st"
  have "entries_in E ?x" using assms(1,2) by (simp add: entries_in_def new_exits_def split_beta Let_def)
  then have 1: "stays_ok E (on_session_start env day atr closes ?x)"
    using session_start_protects [of E env ?x] new_exits_inv [OF assms(3)] assms(4) by simp
  obtain y v where y: "on_session_start env day atr closes ?x = (y, Inr v)" "exits_run ops y = (x, Inr u)"
    using assms(5) by (auto split: prod.splits sum.splits)
  then have "exits_ok E y" using 1 by (simp add: stays_ok_def)
  then have "stays_ok E (exits_run ops y)" using exits_run_ok assms(4) by simp
  then show ?thesis using y(2) by (simp add: stays_ok_def exits_ok_def all_protected_guarded)
qed

lemma returnedE:
  fixes r :: "unit exit_result"
  assumes "case r of (x, Inl e) \<Rightarrow> False | (x, Inr u) \<Rightarrow> P x"
  obtains x where "r = (x, Inr ())" "P x"
  using assms by (cases r; cases "snd r") auto

definition cnc_entry :: order_intent where
  "cnc_entry = sample_entry\<lparr>i_product := CNC\<rparr>"

definition part_fill :: "string \<Rightarrow> int \<Rightarrow> notice" where
  "part_fill fid q = FillNotice (sample_fill fid BUY q 100)"

definition exit_world :: "(order \<Rightarrow> notice list) \<Rightarrow> exit_env" where
  "exit_world arrives =
     \<lparr>xe_coid = sample_coid, xe_isoformat = (\<lambda>d. ''2026-01-23''), xe_new_id = (\<lambda>i. ''d'' @ i), xe_gate = (\<lambda>s. Some (\<lambda>i q. 10)),
      xe_place = (\<lambda>od. (arrives od, Inr (sample_ack (o_client_order_id od)))), xe_cancel = (\<lambda>s b. ([], None)),
      xe_now = combine_ist 20476 (hm 10 0)\<rparr>"

definition quiet_world :: exit_env where
  "quiet_world = exit_world (\<lambda>od. [])"

definition infy_quote :: "rat \<Rightarrow> quote" where
  "infy_quote p =
     \<lparr>q_instrument_key = ''NSE:EQ:INFY'', q_ltp = p, q_bid = None, q_ask = None, q_prev_close = None, q_volume_cum = 0,
      q_exchange_ts = 0, q_receipt_ts = 0, q_source = DHAN, q_is_delayed = False\<rparr>"

definition exits0 :: exits where
  "exits0 = new_exits default_exit_policy sample_calendar sample_oms None"

definition first_fill :: "(exit_env \<times> exit_op) list" where
  "first_fill = [(quiet_world, XExpect cnc_entry 5 20475), (exit_world (\<lambda>od. [part_fill ''f1'' 4]), XOrder cnc_entry)]"

lemma covered_run:
  "case exits_run ((quiet_world, XSession 20476 [] []) # first_fill @ [(quiet_world, XNotices [part_fill ''f2'' 6]), (quiet_world, XQuote (infy_quote 101))]) exits0 of
     (x, Inl e) \<Rightarrow> False
   | (x, Inr u) \<Rightarrow> map (\<lambda>(k, a). (mp_quantity (mobj x a), mp_stop_price (mobj x a), mp_stop_coid (mobj x a) \<noteq> None)) (xm_positions x) = [(10, 90, True)]
       \<and> map (\<lambda>(c, od). (i_order_type (o_intent od), o_quantity od)) (om_orders (xm_oms x)) = [(MARKET, 10), (SL_M, 10)]"
  by code_simp

theorem positions_stay_protected_witness:
  "\<exists>x. exits_run ((quiet_world, XSession 20476 [] []) # first_fill @ [(quiet_world, XNotices [part_fill ''f2'' 6]), (quiet_world, XQuote (infy_quote 101))]) exits0 = (x, Inr ())
     \<and> xm_positions x \<noteq> [] \<and> all_protected x"
proof -
  let ?ops = "first_fill @ [(quiet_world, XNotices [part_fill ''f2'' 6]), (quiet_world, XQuote (infy_quote 101))]"
  obtain x where x: "exits_run ((quiet_world, XSession 20476 [] []) # ?ops) exits0 = (x, Inr ())" "xm_positions x \<noteq> []"
    using returnedE [OF covered_run] by (metis (no_types, lifting) list.map(1) not_Cons_self2)
  have "list_all (exit_op_ok {sample_coid ''i1''}) ((quiet_world, XSession 20476 [] []) # ?ops)"
    by (simp add: first_fill_def quiet_world_def exit_world_def env_calm_def cnc_entry_def sample_entry_def)
  moreover have "keyed sample_oms" "saved_wf None" by (simp_all add: keyed_def sample_oms_def saved_wf_def)
  ultimately have "all_protected x"
    using positions_stay_protected [of sample_oms "{sample_coid ''i1''}" None quiet_world 20476 "[]" "[]" ?ops default_exit_policy sample_calendar x "()"] x(1)
    by (simp add: exits0_def sample_oms_def)
  with x show ?thesis by blast
qed

text \<open>An entry fill that arrives while the stop of the first part is being placed replaces the managed
  object; the manager then records the stop on the old object and takes the key off its list. Ten shares are
  held, a stop covers four, and nothing is due for the rest.\<close>

lemma entry_fill_loses_stop:
  "case exits_run ((quiet_world, XSession 20476 [] []) # first_fill
       @ [(exit_world (\<lambda>od. [part_fill ''f2'' 6]), XQuote (infy_quote 101)), (quiet_world, XQuote (infy_quote 101)), (quiet_world, XRefresh)]) exits0 of
     (x, Inl e) \<Rightarrow> False
   | (x, Inr u) \<Rightarrow> \<not> all_protected x
       \<and> map (\<lambda>(k, a). (mp_quantity (mobj x a), mp_stop_coid (mobj x a))) (xm_positions x) = [(10, None)] \<and> xm_stale x = []
       \<and> map (\<lambda>(c, od). (i_order_type (o_intent od), o_quantity od)) (om_orders (xm_oms x)) = [(MARKET, 10), (SL_M, 4)]"
  by code_simp

end
