(* ===== verification/Exit_Orders.thy ===== *)
theory Exit_Orders
  imports Exit_Props
begin

section \<open>The orders of the exit manager\<close>

text \<open>
  What the manager does to the order manager goes through two calls, the submission of an exit and a
  cancellation. The locale \<open>exit_relation\<close> lifts a relation between states that both calls respect to
  every operation; it is interpreted for the orders that are added and for the steps of the order manager.
\<close>

subsection \<open>Reconciliation leaves the order manager alone\<close>

lemma fold_alert_oms: "xm_oms (fold (\<lambda>n. exit_alert (l n) k) ns x) = xm_oms x"
  by (induction ns arbitrary: x) simp_all

lemma drop_ghosts_oms: "xm_oms (fst (drop_ghosts held ks r)) = xm_oms (fst r)"
proof (induction ks arbitrary: r)
  case (Cons k ks)
  then show ?case by (cases r) simp
qed simp

lemma reconcile_held_oms: "xm_oms (fst (reconcile_held env atr ps r)) = xm_oms (fst r)"
proof (induction ps arbitrary: r)
  case (Cons kp ps)
  obtain k p x nts where "kp = (k, p)" "r = (x, nts)" by (metis surj_pair)
  then show ?case using Cons by (auto simp: resync_def take_on_def Let_def split: option.split)
qed simp

subsection \<open>Relations that the two calls respect\<close>

locale exit_relation =
  fixes env :: exit_env and R :: "exits \<Rightarrow> exits \<Rightarrow> bool"
  assumes local_change: "xm_oms y = xm_oms x \<Longrightarrow> R x y"
    and compose: "R x y \<Longrightarrow> R y z \<Longrightarrow> R x z"
    and cancels: "R x (fst (exits_cancel env c x))"
    and sends: "R x (fst (send_exit env a leg kind reason qty ot trigger price x))"
begin

lemma seq:
  assumes "R x (fst r)" "\<And>y u. r = (y, Inr u) \<Longrightarrow> R y (fst (g y u))"
  shows "R x (fst (case r of (y, Inl e) \<Rightarrow> (y, Inl e) | (y, Inr u) \<Rightarrow> g y u))"
  using assms compose by (cases r; cases "snd r") auto

lemma saved: "R x (fst r) \<Longrightarrow> R x (fst (saved_ok r))"
  using compose [OF _ local_change [of "exits_save (fst r)" "fst r"]]
  by (cases r; cases "snd r") (auto simp: saved_ok_def)

lemma cancel_stop_rel: "R x (fst (cancel_stop env a x))"
proof (cases "mp_stop_coid (mobj x a)")
  case (Some c)
  then show ?thesis unfolding cancel_stop_def by (simp, intro seq cancels) (auto intro: local_change)
qed (simp add: cancel_stop_def local_change)

lemma exit_all_rel: "R x (fst (exit_all env a reason leg price x))"
  unfolding exit_all_def by (intro seq cancel_stop_rel sends) (auto intro: local_change)

lemma exit_partial_rel: "R x (fst (exit_partial env a price x))"
proof -
  let ?q = "partial_qty (xm_policy x) (mobj x a)"
  have "R x (fst (case cancel_stop env a x of
           (x1, Inl e) \<Rightarrow> (x1, Inl e)
         | (x1, Inr u) \<Rightarrow>
             (case send_exit env a ''partial'' KReduce RsPartial ?q MARKET None (Some price) x1 of
                (x2, Inl e) \<Rightarrow> (x2, Inl e)
              | (x2, Inr (c, st)) \<Rightarrow>
                  (let x3 = (if accepted st then x2 else exit_alert ''WARNING'' ''exit_not_submitted'' x2);
                       x4 = set_mobj a (\<lambda>p. p\<lparr>mp_partial_taken := True\<rparr>) x3
                   in (stale_add (mp_key (mobj x4 a)) x4, Inr ())))))"
    by (intro seq cancel_stop_rel sends) (auto simp: Let_def intro: local_change)
  then show ?thesis unfolding exit_partial_def Let_def by (auto intro: local_change)
qed

lemma place_stop_rel: "R x (fst (place_stop env k a x))"
proof -
  let ?x = "set_mobj a (\<lambda>p. p\<lparr>mp_stop_version := mp_stop_version p + 1\<rparr>) x"
  have "R ?x (fst (place_stop env k a x))"
    unfolding place_stop_def Let_def by (intro seq sends) (auto intro: local_change)
  then show ?thesis by (rule compose [rotated]) (simp add: local_change)
qed

lemma clear_old_stop_rel: "R x (fst (clear_old_stop env a x))"
  by (auto simp: clear_old_stop_def cancels local_change split: option.splits)

lemma refresh_one_rel: "R x (fst (refresh_one env k x))"
proof (cases "dget (xm_positions x) k")
  case (Some a)
  have "R x (fst (case clear_old_stop env a x of (x1, Inl e) \<Rightarrow> (x1, Inl e) | (x1, Inr u) \<Rightarrow> place_stop env k a x1))"
    by (intro seq clear_old_stop_rel place_stop_rel)
  then show ?thesis using Some by (auto simp: refresh_one_def Let_def local_change split: option.split)
qed (simp add: refresh_one_def local_change)

lemma refresh_keys_rel: "R x (fst (refresh_keys env ks x))"
proof (induction ks arbitrary: x)
  case (Cons k ks)
  then show ?case unfolding refresh_keys.simps by (intro seq refresh_one_rel)
qed (simp add: local_change)

lemma refresh_stops_rel: "R x (fst (refresh_stops env x))"
  unfolding refresh_stops_def by (intro saved refresh_keys_rel)

lemma each_pos_rel: "(\<And>a y. R y (fst (f a y))) \<Longrightarrow> R x (fst (each_pos f as x))"
proof (induction as arbitrary: x)
  case (Cons a as)
  then show ?case unfolding each_pos.simps by (intro seq) auto
qed (simp add: local_change)

lemma on_quote_rel: "R x (fst (exits_on_quote env q x))"
  unfolding exits_on_quote_def
  by (intro seq refresh_stops_rel saved each_pos_rel)
     (auto simp: quote_one_def Let_def exit_all_rel exit_partial_rel local_change)

lemma session_loop_rel: "R x (fst (session_loop env day atr closes kas x))"
proof (induction kas arbitrary: x)
  case (Cons ka kas)
  have "R x (fst (session_one env day atr closes ka x))"
    by (cases ka) (auto simp: session_one_def Let_def exit_all_rel local_change split: sum.split)
  then show ?case unfolding session_loop.simps by (rule seq) (rule Cons.IH)
qed (simp add: local_change)

lemma on_session_start_rel: "R x (fst (on_session_start env day atr closes x))"
  unfolding on_session_start_def by (intro seq session_loop_rel saved refresh_stops_rel)

lemma flatten_rel: "R x (fst (exits_flatten env reason x))"
  unfolding exits_flatten_def by (intro saved each_pos_rel exit_all_rel)

lemma stand_down_rel: "R x (fst (stand_down env ik pr x))"
proof (cases "dget (xm_positions x) (key_text ik pr)")
  case (Some a)
  then show ?thesis unfolding stand_down_def Let_def by (simp, intro seq cancel_stop_rel) (auto intro: local_change)
qed (simp add: stand_down_def local_change)

lemma reconcile_rel: "R x (fst (exits_reconcile env atr x))"
proof -
  define held where "held = held_positions x (xe_now env)"
  obtain y nts where y: "reconcile_held env atr held (drop_ghosts held (map fst (xm_positions x)) (x, [])) = (y, nts)" by fastforce
  define w where "w = fold (\<lambda>n. exit_alert (note_level n) ''exit_reconcile'') nts y"
  have "fst (exits_reconcile env atr x) = fst (saved_ok (refresh_stops env w))"
    using y by (simp add: exits_reconcile_def Let_def flip: held_def w_def split: prod.split sum.split)
  moreover have "xm_oms w = xm_oms x"
    using reconcile_held_oms [of env atr held "drop_ghosts held (map fst (xm_positions x)) (x, [])"] y
    by (simp add: w_def fold_alert_oms drop_ghosts_oms)
  ultimately show ?thesis using compose [OF local_change [of w x] saved [OF refresh_stops_rel]] by simp
qed

end

subsection \<open>Only exits are added\<close>

definition exit_made :: "order_intent \<Rightarrow> bool" where
  "exit_made i = (i_reduce_only i \<and> reduces_risk (i_kind i) \<and> i_side i = SELL \<and> i_source i = ExitManagerSrc \<and> intent_valid i
     \<and> i_parent_decision_id i \<noteq> None)"

definition only_exits :: "exits \<Rightarrow> exits \<Rightarrow> bool" where
  "only_exits x y =
     (keyed (xm_oms x) \<longrightarrow> keyed (xm_oms y)
        \<and> (\<forall>c. intent_at (xm_oms y) c = intent_at (xm_oms x) c
             \<or> (intent_at (xm_oms x) c = None \<and> (\<exists>i. intent_at (xm_oms y) c = Some i \<and> exit_made i))))"

lemma only_exits_trans: "only_exits x y \<Longrightarrow> only_exits y z \<Longrightarrow> only_exits x z"
  unfolding only_exits_def by metis

lemma only_exits_same: "same_intents (xm_oms x) (xm_oms y) \<Longrightarrow> (keyed (xm_oms x) \<Longrightarrow> keyed (xm_oms y)) \<Longrightarrow> only_exits x y"
  by (simp add: only_exits_def same_intents_def intent_at_def)

lemma notices_only_exits: "only_exits x (fst (exits_notices ns x))"
  using exits_notices_intents [of x ns] by (auto simp: only_exits_def same_intents_def intent_at_def)

lemma send_only_exits: "only_exits x (fst (send_exit env a leg kind reason qty ot trigger price x))"
proof (cases "exit_intent env x (mobj x a) leg kind reason qty ot trigger price")
  case (Inl e)
  then show ?thesis by (simp add: send_exit_def only_exits_def)
next
  case (Inr i)
  then have m: "exit_made i" using exit_intent_facts [OF Inr] by (auto simp: exit_made_def intent_valid_def)
  have "only_exits x (fst (exits_submit env i x))"
    using exits_submit_intents [of x env i] m unfolding only_exits_def by blast
  then show ?thesis using Inr by (auto simp: send_exit_def split: prod.split sum.split)
qed

lemma cancel_only_exits: "only_exits x (fst (exits_cancel env c x))"
  using notices_only_exits [of x]
  by (auto simp: exits_cancel_def Let_def only_exits_def split: option.split prod.split sum.split) (metis fst_conv)+

interpretation xo: exit_relation env only_exits for env
  by unfold_locales
    (simp add: only_exits_def, rule only_exits_trans, assumption+, rule cancel_only_exits, rule send_only_exits)

subsection \<open>The order manager takes its own steps\<close>

definition arriving :: "exit_env \<Rightarrow> fill set" where
  "arriving env =
     {f. (\<exists>od. f \<in> set (notice_fills (fst (xe_place env od)))) \<or> (\<exists>s b. f \<in> set (notice_fills (fst (xe_cancel env s b))))}"

definition oms_moves :: "fill set \<Rightarrow> exits \<Rightarrow> exits \<Rightarrow> bool" where
  "oms_moves F x y = (keyed (xm_oms x) \<longrightarrow> osteps (\<lambda>s f od. f \<in> F) (xm_oms x) (xm_oms y))"

lemma exits_on_fill_oms: "xm_oms (exits_on_fill f od x) = xm_oms x"
  by (simp add: exits_on_fill_def on_entry_fill_def Let_def split: option.split)

lemma exits_fill_oms: "xm_oms (fst (exits_fill f x)) = (case on_fill f (xm_oms x) of Inl e \<Rightarrow> xm_oms x | Inr s \<Rightarrow> s)"
  by (simp add: exits_fill_def Let_def exits_on_fill_oms split: sum.split option.split)

lemma notices_moves: "set (notice_fills ns) \<subseteq> F \<Longrightarrow> oms_moves F x (fst (exits_notices ns x))"
proof (induction ns x rule: exits_notices.induct)
  case (2 sn ns x)
  show ?case unfolding oms_moves_def
  proof
    assume k: "keyed (xm_oms x)"
    have "osteps (\<lambda>s f od. f \<in> F) (xm_oms x) (on_update sn (xm_oms x))" by (rule on_update_steps [OF k])
    with 2 keyed_update [OF k, of sn] show "osteps (\<lambda>s f od. f \<in> F) (xm_oms x) (xm_oms (fst (exits_notices (UpdateNotice sn # ns) x)))"
      by (auto simp: oms_moves_def intro: rtranclp_trans)
  qed
next
  case (3 f ns x)
  show ?case unfolding oms_moves_def
  proof
    assume k: "keyed (xm_oms x)"
    obtain y r where y: "exits_fill f x = (y, r)" by fastforce
    have s: "osteps (\<lambda>s f od. f \<in> F) (xm_oms x) (xm_oms y)"
      using exits_fill_oms [of f x] y on_fill_steps [of f "xm_oms x" "xm_oms y" "\<lambda>s f od. f \<in> F"] 3(2)
      by (cases "on_fill f (xm_oms x)") auto
    have "oms_moves F y (fst (exits_notices ns y))" if "r = Inr u" for u using 3 y that by auto
    with s y k keyed_steps [OF s k] show "osteps (\<lambda>s f od. f \<in> F) (xm_oms x) (xm_oms (fst (exits_notices (FillNotice f # ns) x)))"
      by (cases r) (auto simp: oms_moves_def intro: rtranclp_trans)
  qed
qed (simp add: oms_moves_def)

lemma submit_moves:
  assumes "arriving env \<subseteq> F"
  shows "oms_moves F x (fst (exits_submit env i x))"
  unfolding oms_moves_def
proof
  assume k: "keyed (xm_oms x)"
  show "osteps (\<lambda>s f od. f \<in> F) (xm_oms x) (xm_oms (fst (exits_submit env i x)))"
  proof (rule exits_submit_shape [of env i x])
    fix od assume o: "o_client_order_id od = xe_coid env (i_intent_id i)" "0 < o_quantity od"
      "i_reduce_only i \<longrightarrow> o_quantity od \<le> reducible (xm_oms x) i" "i_book_id i = om_book_id (xm_oms x)"
      "od = make_order (xe_coid env (i_intent_id i)) i (o_quantity od) (xe_now env)"
      "dget (om_orders (xm_oms x)) (o_client_order_id od) = None"
      "fst (exits_submit env i x) =
         (case exits_notices (fst (xe_place env od)) (x\<lparr>xm_oms := register od (xm_oms x)\<rparr>) of
            (z, Inl e) \<Rightarrow> z
          | (z, Inr u) \<Rightarrow> z\<lparr>xm_oms := snd (place_result od (snd (xe_place env od)) (xm_oms z))\<rparr>)"
    let ?P = "\<lambda>s f od. f \<in> F" and ?s1 = "register od (xm_oms x)"
    obtain z q where z: "exits_notices (fst (xe_place env od)) (x\<lparr>xm_oms := ?s1\<rparr>) = (z, q)" by fastforce
    have 1: "ostep ?P (xm_oms x) ?s1"
      by (subst o(5)) (rule reg, use o in auto)
    have k1: "keyed ?s1" by (rule keyed_step [OF 1 k])
    have f: "set (notice_fills (fst (xe_place env od))) \<subseteq> F" using assms by (auto simp: arriving_def)
    have 2: "osteps ?P ?s1 (xm_oms z)" using notices_moves [OF f, of "x\<lparr>xm_oms := ?s1\<rparr>"] k1 z by (simp add: oms_moves_def)
    have k2: "keyed (xm_oms z)" by (rule keyed_steps [OF 2 k1])
    obtain od0 where "dget (om_orders (xm_oms z)) (o_client_order_id od) = Some od0" "ref_of od0 = ref_of od"
      using ref_of_keeps [OF om_keeps_steps [OF 2 k1] k1 k2, of "o_client_order_id od" od] by auto
    from place_result_steps [OF k2 this, of ?P "snd (xe_place env od)"] 1 2 o(7) z show ?thesis
      by (cases q) (auto intro: ostepsI rtranclp_trans)
  qed simp
qed

lemma send_moves: "arriving env \<subseteq> F \<Longrightarrow> oms_moves F x (fst (send_exit env a leg kind reason qty ot trigger price x))"
  using submit_moves [of env F x] by (auto simp: send_exit_def oms_moves_def split: sum.split prod.split) (metis fst_conv)+

lemma cancel_moves:
  assumes "arriving env \<subseteq> F"
  shows "oms_moves F x (fst (exits_cancel env c x))"
proof (cases "cancel_target (xm_oms x) c")
  case (Some b)
  have "set (notice_fills (fst (xe_cancel env (xm_oms x) b))) \<subseteq> F" using assms by (auto simp: arriving_def)
  from notices_moves [OF this, of x] Some show ?thesis
    by (auto simp: exits_cancel_def Let_def split: prod.split sum.split option.split)
qed (simp add: exits_cancel_def oms_moves_def)

lemma oms_moves_trans: "oms_moves F x y \<Longrightarrow> oms_moves F y z \<Longrightarrow> oms_moves F x z"
  unfolding oms_moves_def by (meson keyed_steps rtranclp_trans)

interpretation xs: exit_relation env "oms_moves (arriving env)" for env
  by unfold_locales
    (simp add: oms_moves_def, rule oms_moves_trans, assumption+, rule cancel_moves, simp, rule send_moves, simp)

subsection \<open>Runs of the exit manager\<close>

fun own_op :: "exit_op \<Rightarrow> bool" where
  "own_op (XOrder i) = False"
| "own_op op = True"

lemma drop_value_fst [simp]: "fst (drop_value r) = fst r"
  by (cases r; cases "snd r") (simp_all add: drop_value_def)

lemma lift_result_fst [simp]: "fst (lift_result r) = fst r"
  by (cases r; cases "snd r") (simp_all add: lift_result_def)

lemma own_op_only_exits: "own_op op \<Longrightarrow> only_exits x (fst (exit_do env op x))"
  by (cases op) (auto simp: expect_entry_def notices_only_exits intro: xo.local_change xo.on_quote_rel xo.on_session_start_rel
      xo.refresh_stops_rel xo.flatten_rel xo.stand_down_rel xo.reconcile_rel)

fun op_arriving :: "exit_env \<times> exit_op \<Rightarrow> fill set" where
  "op_arriving (env, op) = arriving env \<union> (case op of XNotices ns \<Rightarrow> set (notice_fills ns) | _ \<Rightarrow> {})"

lemma oms_moves_mono: "oms_moves F x y \<Longrightarrow> F \<subseteq> G \<Longrightarrow> oms_moves G x y"
proof -
  assume m: "oms_moves F x y" and g: "F \<subseteq> G"
  have "ostep (\<lambda>s f od. f \<in> F) s t \<Longrightarrow> ostep (\<lambda>s f od. f \<in> G) s t" for s t
  proof (induction rule: ostep.induct)
    case (fill_known s f od s')
    then show ?case using g by (blast intro: ostep.fill_known)
  next
    case (fill_unknown s f book oc)
    show ?case by (rule ostep.fill_unknown [OF _ fill_unknown(2-4)]) (use g fill_unknown(1) in blast)
  next
    case (idle e s)
    then show ?case by (rule ostep.idle)
  next
    case (checks s u)
    show ?case by (rule ostep.checks)
  next
    case (reg s c qty i now)
    then show ?case by (intro ostep.reg)
  next
    case (link s c od k)
    then show ?case by (rule ostep.link)
  next
    case (move s c od st e)
    then show ?case by (rule ostep.move)
  next
    case (ack s c od k)
    then show ?case by (rule ostep.ack)
  qed
  then have "ostep (\<lambda>s f od. f \<in> F) \<le> ostep (\<lambda>s f od. f \<in> G)" by (intro predicate2I)
  then have "osteps (\<lambda>s f od. f \<in> F) \<le> osteps (\<lambda>s f od. f \<in> G)" by (rule rtranclp_mono)
  with m show ?thesis unfolding oms_moves_def by (auto dest: predicate2D)
qed

lemma exit_do_moves:
  assumes "op_arriving (env, op) \<subseteq> F"
  shows "oms_moves F x (fst (exit_do env op x))"
proof -
  have a: "arriving env \<subseteq> F" using assms by simp
  note up = oms_moves_mono [OF _ a]
  show ?thesis
  proof (cases op)
    case (XExpect i atr bar)
    have "xm_oms (fst (expect_entry (xe_coid env) i atr bar x)) = xm_oms x" by (simp add: expect_entry_def)
    then show ?thesis using XExpect by (simp add: up xs.local_change)
  next
    case (XNotices ns)
    then show ?thesis using assms by (simp add: notices_moves)
  next
    case (XOrder i)
    then show ?thesis using a by (simp add: submit_moves)
  qed (simp_all add: up xs.on_quote_rel xs.on_session_start_rel xs.refresh_stops_rel xs.flatten_rel xs.stand_down_rel xs.reconcile_rel)
qed

lemma exits_run_moves:
  assumes "\<Union> (op_arriving ` set ops) \<subseteq> F"
  shows "oms_moves F x (fst (exits_run ops x))"
  using assms
proof (induction ops arbitrary: x)
  case (Cons eo ops)
  obtain env op where eo: "eo = (env, op)" by fastforce
  obtain z r where z: "exit_do env op x = (z, r)" by fastforce
  have "oms_moves F x z" using exit_do_moves [of env op F x] Cons.prems eo z by simp
  moreover have "oms_moves F z (fst (exits_run ops z))" using Cons by simp
  ultimately show ?case using eo z oms_moves_trans by (cases r) auto
qed (simp add: oms_moves_def)

lemma exits_run_only_exits: "list_all (own_op \<circ> snd) ops \<Longrightarrow> only_exits x (fst (exits_run ops x))"
proof (induction ops arbitrary: x)
  case (Cons eo ops)
  obtain env op where eo: "eo = (env, op)" by fastforce
  obtain z r where z: "exit_do env op x = (z, r)" by fastforce
  have "only_exits x z" using own_op_only_exits [of op x env] Cons.prems eo z by simp
  moreover have "only_exits z (fst (exits_run ops z))" using Cons by simp
  ultimately show ?case using eo z only_exits_trans by (cases r) auto
qed (simp add: only_exits_def)

lemma exits_run_oms_inv:
  assumes "oms_inv (xm_oms x)" "\<forall>eo \<in> set ops. \<forall>f \<in> op_arriving eo. fill_valid f"
  shows "oms_inv (xm_oms (fst (exits_run ops x)))"
proof -
  have "oms_moves {f. fill_valid f} x (fst (exits_run ops x))" by (rule exits_run_moves) (use assms(2) in blast)
  then show ?thesis using oms_inv_steps oms_inv_keyed assms(1) by (auto simp: oms_moves_def)
qed

text \<open>C20: The exit manager can only reduce. Over any run of its operations, with any notices of the broker in
  between, also one that is cut short by an error, every order that was not known before is a
  reduce-only sell made for a managed position with its entry as parent, valid and never filled beyond its quantity,
  and the order manager keeps its invariant.\<close>

theorem exit_orders_only_reduce:
  assumes "oms_inv (xm_oms x)" "list_all (own_op \<circ> snd) ops" "\<forall>eo \<in> set ops. \<forall>f \<in> op_arriving eo. fill_valid f"
    and "exits_run ops x = (y, r)"
  shows "oms_inv (xm_oms y) \<and> (\<forall>c od. dget (om_orders (xm_oms y)) c = Some od \<longrightarrow> dget (om_orders (xm_oms x)) c = None \<longrightarrow>
      exit_made (o_intent od) \<and> order_valid od)"
proof -
  have inv: "oms_inv (xm_oms y)" using exits_run_oms_inv [OF assms(1,3)] assms(4) by simp
  have k: "keyed (xm_oms x)" by (rule oms_inv_keyed [OF assms(1)])
  have o: "only_exits x y" using exits_run_only_exits [OF assms(2), of x] assms(4) by simp
  have "exit_made (o_intent od) \<and> order_valid od"
    if od: "dget (om_orders (xm_oms y)) c = Some od" "dget (om_orders (xm_oms x)) c = None" for c od
  proof -
    have "intent_at (xm_oms x) c = None" "intent_at (xm_oms y) c = Some (o_intent od)" using od by (simp_all add: intent_at_def)
    then have "exit_made (o_intent od)" using o k unfolding only_exits_def by (metis option.distinct(1) option.inject)
    then show ?thesis using oms_inv_order [OF inv od(1)] by simp
  qed
  then show ?thesis using inv by blast
qed

definition dated_entry :: "(exit_env \<times> exit_op) list" where
  "dated_entry =
     [(quiet_world, XExpect cnc_entry 5 20475),
      (exit_world (\<lambda>od. [FillNotice ((sample_fill ''f1'' BUY 4 100)\<lparr>f_ts := combine_ist 20476 (hm 10 0)\<rparr>)]), XOrder cnc_entry)]"

definition entered :: exits where
  "entered = fst (exits_run dated_entry exits0)"

lemma entered_quote:
  "case exits_run [(quiet_world, XQuote (infy_quote 101))] entered of
     (y, Inl e) \<Rightarrow> False
   | (y, Inr u) \<Rightarrow> dget (om_orders (xm_oms entered)) ''rqain:momentum:NSE:EQ:INFY:2026-01-23:stop-2026-01-23-v1'' = None
       \<and> map fst (om_orders (xm_oms y)) = [''rq1'', ''rqain:momentum:NSE:EQ:INFY:2026-01-23:stop-2026-01-23-v1'']"
  by code_simp

theorem exit_orders_only_reduce_witness:
  "\<exists>y od. exits_run [(quiet_world, XQuote (infy_quote 101))] entered = (y, Inr ())
     \<and> dget (om_orders (xm_oms y)) ''rqain:momentum:NSE:EQ:INFY:2026-01-23:stop-2026-01-23-v1'' = Some od \<and> exit_made (o_intent od)"
proof -
  let ?ops = "[(quiet_world, XQuote (infy_quote 101))]" and ?c = "''rqain:momentum:NSE:EQ:INFY:2026-01-23:stop-2026-01-23-v1''"
  obtain y where y: "exits_run ?ops entered = (y, Inr ())" "dget (om_orders (xm_oms entered)) ?c = None"
    "map fst (om_orders (xm_oms y)) = [''rq1'', ?c]"
    by (rule returnedE [OF entered_quote]) (elim conjE, rule that)
  have "?c \<in> set (map fst (om_orders (xm_oms y)))" unfolding y(3) by simp
  then have "dget (om_orders (xm_oms y)) ?c \<noteq> None" unfolding map_of_eq_None_iff by simp
  then obtain od where od: "dget (om_orders (xm_oms y)) ?c = Some od" by blast
  have f: "op_arriving (quiet_world, XQuote q) = {}" for q
    by (simp add: arriving_def quiet_world_def exit_world_def)
  have "oms_inv (xm_oms exits0)"
    using new_oms_inv [OF sample_oms_new] by (simp add: exits0_def new_exits_def)
  then have "oms_inv (xm_oms entered)" unfolding entered_def
    by (rule exits_run_oms_inv)
      (simp add: dated_entry_def arriving_def quiet_world_def exit_world_def sample_fill_def fill_valid_def)
  from exit_orders_only_reduce [OF this _ _ y(1)] f y od show ?thesis by auto
qed

subsection \<open>Levels\<close>

lemma stop_below:
  assumes "0 < t" "t < e" "e \<le> 10 ^ 26 * t" "t \<le> d"
  shows "round_to_tick (dsub e d) t SELL < e"
proof (cases "dsub e d < 0")
  case True
  then show ?thesis using round_to_tick_sell_neg [OF assms(1)] assms by fastforce
next
  case False
  have q: "0 \<le> e - d" using False dec28_pos [of "d - e"] dec28_uminus [of "e - d"] by (fastforce simp: dsub_def)
  have "round_to_tick (dsub e d) t SELL \<le> dsub e d * (1 + 1 / 10 ^ 27)"
    using round_to_tick_sell_bound [OF assms(1)] False by simp
  also have "\<dots> \<le> (e - d) * (1 + 1 / 10 ^ 27) * (1 + 1 / 10 ^ 27)"
    using dec28_bounds(2) [OF q] by (intro mult_right_mono) (simp_all add: dsub_def)
  also have "\<dots> \<le> (e - d) * (1 + 3 / 10 ^ 27)" using q by (simp add: mult.assoc mult_left_mono)
  also have "\<dots> = (e - d) + (e - d) * 3 / 10 ^ 27" by (simp only: distrib_left mult_1_right times_divide_eq_right)
  also have "\<dots> \<le> (e - d) + e * 3 / 10 ^ 27" using assms by (simp add: divide_right_mono)
  also have "\<dots> < e" using assms by (simp add: field_simps)
  finally show ?thesis .
qed

lemma target_above:
  assumes "0 < t" "t < e" "e \<le> 10 ^ 26 * t" "t \<le> d" "d \<le> e"
  shows "e < round_to_tick (dadd e d) t BUY"
proof -
  have q: "0 \<le> e + d" using assms by simp
  have "e + d \<le> 2 * 10 ^ 26 * t" using assms by simp
  then have "e < (e + d) - (e + d) * 2 / 10 ^ 27" using assms(4,1) by (simp add: field_simps)
  also have "\<dots> = (e + d) * (1 - 2 / 10 ^ 27)" by (simp add: algebra_simps)
  also have "\<dots> \<le> (e + d) * (1 - 1 / 10 ^ 27) * (1 - 1 / 10 ^ 27)" using q by (simp add: mult.assoc mult_left_mono)
  also have "\<dots> \<le> dadd e d * (1 - 1 / 10 ^ 27)"
    using dec28_bounds(1) [OF q] by (intro mult_right_mono) (simp_all add: dadd_def)
  also have "\<dots> \<le> round_to_tick (dadd e d) t BUY"
    using round_to_tick_buy_bound [OF assms(1), of "dadd e d"] dec28_nonneg [OF q] by (simp add: dadd_def)
  finally show ?thesis .
qed

text \<open>The levels bracket the fill. With distances of at least a tick and at most the price, the stop is
  at least one tick and strictly below the entry price, the target strictly above it, and both are whole ticks.\<close>

theorem exit_levels_bracket_entry:
  assumes "exit_levels pol entry atr ins = (stop, target)"
    and "0 < ins_tick_size ins" "ins_tick_size ins < entry" "entry \<le> 10 ^ 26 * ins_tick_size ins"
    and "ins_tick_size ins \<le> dmul (dec_of_float (xp_k_stop_atr pol)) atr"
    and "ins_tick_size ins \<le> dmul (dec_of_float (xp_k_target_atr pol)) atr" "dmul (dec_of_float (xp_k_target_atr pol)) atr \<le> entry"
  shows "ins_tick_size ins \<le> stop \<and> stop < entry \<and> entry < target
    \<and> (\<exists>m n. stop = of_int m * ins_tick_size ins \<and> target = of_int n * ins_tick_size ins)"
proof -
  let ?t = "ins_tick_size ins"
  obtain m n where mn: "round_to_tick (dsub entry (dmul (dec_of_float (xp_k_stop_atr pol)) atr)) ?t SELL = of_int m * ?t"
    "round_to_tick (dadd entry (dmul (dec_of_float (xp_k_target_atr pol)) atr)) ?t BUY = of_int n * ?t"
    using round_to_tick_multiple by metis
  have s: "stop = max (of_int m * ?t) ?t" "target = of_int n * ?t" using assms(1) mn by (auto simp: exit_levels_def Let_def)
  have "stop = of_int (max m 1) * ?t" using s(1) max_scale [OF assms(2)] by simp
  moreover have "of_int m * ?t < entry" using stop_below [OF assms(2,3,4,5)] mn by simp
  moreover have "entry < of_int n * ?t" using target_above [OF assms(2,3,4,6,7)] mn by simp
  ultimately show ?thesis using s assms(3) by auto
qed

subsection \<open>The managed quantity follows the book\<close>

definition tracks_book :: "exits \<Rightarrow> bool" where
  "tracks_book x =
     list_all (\<lambda>(k, a). mp_quantity (mobj x a)
        = pb_quantity (om_book (xm_oms x)) (ins_key (mp_instrument (mobj x a))) (mp_product (mobj x a))) (xm_positions x)"

lemma product_value_last: "last (product_value pr) = (case pr of MIS \<Rightarrow> CHR ''S'' | CNC \<Rightarrow> CHR ''C'' | NRML \<Rightarrow> CHR ''L'' | MTF \<Rightarrow> CHR ''F'')"
  by (cases pr) simp_all

lemma key_text_inject: "key_text ik pr = key_text ik' pr' \<Longrightarrow> ik = ik' \<and> pr = pr'"
proof -
  assume e: "key_text ik pr = key_text ik' pr'"
  have "product_value q \<noteq> []" for q by (cases q) simp_all
  then have "last (product_value pr) = last (product_value pr')" using arg_cong [OF e, of last] by (simp add: key_text_def)
  then have "pr = pr'" by (cases pr; cases pr'; simp)
  with e show ?thesis by (simp add: key_text_def)
qed

lemma known_fill_quantity:
  assumes "oms_inv s" "fill_valid f" "dget (om_orders s) (f_client_order_id f) = Some od" "\<not> has_seen (om_book s) (f_fill_id f)"
    and "on_fill f s = Inr s'" "f_instrument_key f = i_key (o_intent od)" "(ik, pr) \<noteq> (i_key (o_intent od), i_product (o_intent od))"
  shows "pb_quantity (om_book s') ik pr = pb_quantity (om_book s) ik pr"
proof -
  have id: "o_client_order_id od = f_client_order_id f" using keyedD [OF oms_inv_keyed [OF assms(1)] assms(3)] .
  have k: "on_known_fill f od s = Inr s'" "dget (om_orders s) (o_client_order_id od) = Some od"
    using assms(3,4,5) id by (simp_all add: on_fill_def)
  obtain oc where "apply_fill (om_book s) f (i_product (o_intent od)) (i_strategy (o_intent od)) (reason_value (i_reason (o_intent od)))
      = Inr (om_book s', oc)" using on_known_fill_orders [OF k] by blast
  moreover have "pb_inv (om_book s)" using assms(1) by (simp add: oms_inv_def)
  ultimately show ?thesis
    using apply_fill_new_quantity [of "om_book s" f] assms(2,4,6,7) by (auto simp: has_seen_def)
qed

definition tracked :: "exits \<Rightarrow> nat \<Rightarrow> bool" where
  "tracked x a = (mp_quantity (mobj x a)
     = pb_quantity (om_book (xm_oms x)) (ins_key (mp_instrument (mobj x a))) (mp_product (mobj x a)))"

lemma tracks_book_iff: "tracks_book x = (\<forall>(k, a) \<in> set (xm_positions x). tracked x a)"
  by (auto simp: tracks_book_def tracked_def list_all_iff)

lemma tracked_cong: "mobj y a = mobj x a \<Longrightarrow> xm_oms y = xm_oms x \<Longrightarrow> tracked y a = tracked x a"
  by (simp add: tracked_def)

text \<open>The listener settles the key of the fill and leaves the other positions alone.\<close>

lemma listener_tracks:
  assumes "exits_inv x" "\<And>k a. (k, a) \<in> set (xm_positions x) \<Longrightarrow> k \<noteq> key_text (i_key (o_intent od)) (i_product (o_intent od)) \<Longrightarrow> tracked x a"
  shows "tracks_book (exits_on_fill f od x)
    \<and> (i_reduce_only (o_intent od) \<and> pb_quantity (om_book (xm_oms x)) (i_key (o_intent od)) (i_product (o_intent od)) \<le> 0 \<longrightarrow>
        dget (xm_positions (exits_on_fill f od x)) (key_text (i_key (o_intent od)) (i_product (o_intent od))) = None)"
proof -
  define k where "k = key_text (i_key (o_intent od)) (i_product (o_intent od))"
  define held where "held = pb_quantity (om_book (xm_oms x)) (i_key (o_intent od)) (i_product (o_intent od))"
  have others: "tracked x a" if "(k', a) \<in> set (xm_positions x)" "k' \<noteq> k" for k' a using assms(2) that by (simp add: k_def)
  have save: "tracks_book (exits_save y) = tracks_book y" for y by (simp add: tracks_book_def)
  show ?thesis
  proof (cases "i_reduce_only (o_intent od)")
    case False
    have "tracks_book (on_entry_fill f od k held x)"
    proof (cases "entry_source x od k")
      case None
      then have "dget (xm_positions x) k = None" by (auto simp: entry_source_def managed_at_def split: option.splits)
      then have "tracks_book x" unfolding tracks_book_iff using others by (force simp: map_of_eq_None_iff)
      then show ?thesis using None by (simp add: on_entry_fill_def tracks_book_def)
    next
      case (Some pe)
      define p where "p = entry_managed x f (o_intent od) held pe (managed_at x k)"
      obtain ps where y: "on_entry_fill f od k held x = stale_add k ((alloc_pos k p x)\<lparr>xm_pending := ps\<rparr>)"
        using Some by (simp add: on_entry_fill_def Let_def flip: p_def)
      have "mp_instrument p = i_instrument (o_intent od)" "mp_product p = i_product (o_intent od)" "mp_quantity p = held"
        by (simp_all add: p_def entry_managed_def Let_def split_beta)
      then have n: "tracked (alloc_pos k p x) (length (xm_objs x))" by (simp add: tracked_def held_def)
      have "tracked (alloc_pos k p x) a" if m: "(k', a) \<in> set (dset k (length (xm_objs x)) (xm_positions x))" for k' a
        using dset_pos [OF assms(1) m]
      proof
        assume o: "k' \<noteq> k \<and> (k', a) \<in> set (xm_positions x)"
        then have "a < length (xm_objs x)" using exits_invD(1) [OF assms(1)] by blast
        then show ?thesis using others [of k' a] o tracked_cong [OF mobj_alloc_old] by simp
      qed (use n in simp)
      then show ?thesis unfolding y tracks_book_iff by (auto simp: tracked_def)
    qed
    then show ?thesis using False by (simp add: exits_on_fill_def Let_def save flip: k_def held_def)
  next
    case True
    show ?thesis
    proof (cases "dget (xm_positions x) k")
      case None
      then have "tracks_book x" unfolding tracks_book_iff using others by (force simp: map_of_eq_None_iff)
      then show ?thesis using True None by (simp add: exits_on_fill_def Let_def flip: k_def)
    next
      case (Some a)
      note a = exits_inv_get [OF assms(1) Some]
      let ?f = "\<lambda>p. p\<lparr>mp_quantity := held, mp_partial_taken := (i_reason (o_intent od) = RsPartial \<or> mp_partial_taken p)\<rparr>"
      have d: "tracks_book (x\<lparr>xm_positions := dpop k (xm_positions x)\<rparr>)"
        unfolding tracks_book_iff using others by (auto simp: AList.delete_eq tracked_def)
      have "ins_key (mp_instrument (mobj x a)) = i_key (o_intent od) \<and> mp_product (mobj x a) = i_product (o_intent od)"
        using a(2) key_text_inject by (simp add: mp_key_def k_def)
      then have na: "tracked (set_mobj a ?f x) a" using a(1) by (simp add: tracked_def mobj_set_mobj held_def)
      have "tracked (set_mobj a ?f x) b" if m: "(k', b) \<in> set (xm_positions x)" for k' b
      proof (cases "b = a")
        case False
        then have "k' \<noteq> k" using exits_invD(3) [OF assms(1) m] Some by auto
        then show ?thesis using others [OF m] False exits_invD(1) [OF assms(1) m] tracked_cong [of "set_mobj a ?f x" b x]
          by (simp add: mobj_set_mobj)
      qed (use na in simp)
      then have "tracks_book (stale_add k (set_mobj a ?f x))" unfolding tracks_book_iff by (auto simp: tracked_def)
      then show ?thesis using True Some d
        by (simp add: exits_on_fill_def Let_def save delete_conv' flip: k_def held_def)
    qed
  qed
qed

text \<open>The managed quantity follows the book. After every new fill of a known order in its instrument the
  managed quantity of every position is the quantity in the book, and a reduce-only fill that leaves nothing to sell
  ends the management of the position.\<close>

theorem managed_follows_book:
  assumes "exits_inv x" "oms_inv (xm_oms x)" "tracks_book x" "fill_valid f"
    and "dget (om_orders (xm_oms x)) (f_client_order_id f) = Some od" "f_instrument_key f = i_key (o_intent od)"
    and "\<not> has_seen (om_book (xm_oms x)) (f_fill_id f)" "exits_fill f x = (y, Inr u)"
  shows "tracks_book y
    \<and> (i_reduce_only (o_intent od) \<and> pb_quantity (om_book (xm_oms y)) (i_key (o_intent od)) (i_product (o_intent od)) \<le> 0 \<longrightarrow>
        managed_at y (key_text (i_key (o_intent od)) (i_product (o_intent od))) = None)"
proof -
  obtain s where s: "on_fill f (xm_oms x) = Inr s" using assms(8) by (auto simp: exits_fill_def split: sum.splits)
  have k: "keyed (xm_oms x)" by (rule oms_inv_keyed [OF assms(2)])
  have "map_option o_intent (dget (om_orders s) (f_client_order_id f)) = Some (o_intent od)"
    using on_fill_intents [OF k s] assms(5) unfolding same_intents_def by (metis option.map(2))
  then have i: "o_intent (the_order s od) = o_intent od" using keyedD [OF k assms(5)] by (auto simp: the_order_def dget_or_def)
  let ?x = "x\<lparr>xm_oms := s\<rparr>"
  have y: "y = exits_on_fill f (the_order s od) ?x" using assms(5,7,8) s by (simp add: exits_fill_def)
  have "tracked ?x a" if m: "(k', a) \<in> set (xm_positions x)" "k' \<noteq> key_text (i_key (o_intent od)) (i_product (o_intent od))" for k' a
  proof -
    have "tracked x a" using assms(3) m(1) by (auto simp: tracks_book_iff)
    moreover have "(ins_key (mp_instrument (mobj x a)), mp_product (mobj x a)) \<noteq> (i_key (o_intent od), i_product (o_intent od))"
      using exits_invD(2) [OF assms(1) m(1)] m(2) by (auto simp: mp_key_def)
    ultimately show ?thesis using known_fill_quantity [OF assms(2,4,5,7) s assms(6)] by (simp add: tracked_def)
  qed
  moreover have "exits_inv ?x" by (rule exits_inv_cong [OF assms(1)]) simp_all
  moreover have "xm_oms y = s" using y by (simp add: exits_on_fill_oms)
  ultimately show ?thesis using listener_tracks [of ?x "the_order s od" f] y i by (simp add: managed_at_def)
qed

lemma entered_fill:
  "case exits_fill (sample_fill ''f2'' BUY 6 100) entered of
     (y, Inl e) \<Rightarrow> False
   | (y, Inr u) \<Rightarrow> map (\<lambda>(k, a). mp_quantity (mobj y a)) (xm_positions y) = [10]"
  by code_simp

lemma entered_facts:
  "exits_inv entered \<and> oms_inv (xm_oms entered)"
proof
  have "exits_ok {''rq1''} exits0" unfolding exits0_def by (rule new_exits_ok) (simp add: sample_oms_def)
  moreover have "list_all (exit_op_ok {''rq1''}) dated_entry"
    by (simp add: dated_entry_def quiet_world_def exit_world_def env_calm_def cnc_entry_def sample_entry_def sample_coid_def)
  moreover have "case exits_run dated_entry exits0 of (x, Inl e) \<Rightarrow> False | (x, Inr u) \<Rightarrow> True" by code_simp
  ultimately show "exits_inv entered"
    using exits_run_ok [of "{''rq1''}" dated_entry exits0] by (auto simp: entered_def stays_ok_def exits_ok_def split: prod.splits sum.splits)
  have "oms_inv (xm_oms exits0)" using new_oms_inv [OF sample_oms_new] by (simp add: exits0_def new_exits_def)
  then show "oms_inv (xm_oms entered)" unfolding entered_def
    by (rule exits_run_oms_inv)
      (simp add: dated_entry_def arriving_def quiet_world_def exit_world_def sample_fill_def fill_valid_def)
qed

theorem managed_follows_book_witness:
  "\<exists>y. exits_fill (sample_fill ''f2'' BUY 6 100) entered = (y, Inr ()) \<and> tracks_book y \<and> map (\<lambda>(k, a). mp_quantity (mobj y a)) (xm_positions y) = [10]"
proof -
  let ?f = "sample_fill ''f2'' BUY 6 100"
  obtain y where y: "exits_fill ?f entered = (y, Inr ())" "map (\<lambda>(k, a). mp_quantity (mobj y a)) (xm_positions y) = [10]"
    using entered_fill by (cases "exits_fill ?f entered"; cases "snd (exits_fill ?f entered)") auto
  have "case dget (om_orders (xm_oms entered)) (f_client_order_id ?f) of None \<Rightarrow> False | Some od \<Rightarrow> f_instrument_key ?f = i_key (o_intent od)"
    by code_simp
  then obtain od where od: "dget (om_orders (xm_oms entered)) (f_client_order_id ?f) = Some od" "f_instrument_key ?f = i_key (o_intent od)"
    by (auto split: option.splits)
  have "tracks_book entered" "\<not> has_seen (om_book (xm_oms entered)) (f_fill_id ?f)" by code_simp+
  with managed_follows_book [OF _ _ _ _ od _ y(1)] entered_facts y show ?thesis by (simp add: sample_fill_def fill_valid_def)
qed

subsection \<open>The trailing stop\<close>

abbreviation stop_at :: "exits \<Rightarrow> nat \<Rightarrow> rat" where
  "stop_at x a \<equiv> mp_stop_price (mobj x a)"

definition rises :: "exits \<Rightarrow> exits \<Rightarrow> bool" where
  "rises x y = (exits_inv y \<and> length (xm_objs x) \<le> length (xm_objs y) \<and> (\<forall>a < length (xm_objs x). stop_at x a \<le> stop_at y a))"

text \<open>A recorded stop is the old one, or the trigger of an exit stop the order manager knows.\<close>

definition resting :: "oms \<Rightarrow> rat \<Rightarrow> bool" where
  "resting s t = (\<exists>c i. intent_at s c = Some i \<and> i_reduce_only i \<and> i_order_type i = SL_M \<and> i_trigger_price i = Some t)"

definition firm :: "exits \<Rightarrow> exits \<Rightarrow> bool" where
  "firm x y =
     (exits_inv y \<and> only_exits x y \<and> length (xm_objs x) \<le> length (xm_objs y)
      \<and> (\<forall>a < length (xm_objs x). stop_at y a = stop_at x a \<or> resting (xm_oms y) (stop_at y a)))"

lemma rises_trans: "rises x y \<Longrightarrow> rises y z \<Longrightarrow> rises x z"
  unfolding rises_def by (meson order_trans less_le_trans)

lemma awaits_rises: "awaits x y \<Longrightarrow> rises x y"
  using same_but_qtyD by (fastforce simp: rises_def awaits_def)

lemma set_mobj_rises:
  assumes "exits_inv x" "\<And>p. mp_key (f p) = mp_key p" "\<And>p. mp_stop_price p \<le> mp_stop_price (f p)"
  shows "rises x (set_mobj a f x)"
  using assms exits_inv_set_mobj [OF assms(1,2)] by (auto simp: rises_def mobj_set_mobj)

lemma rises_cong: "rises x y \<Longrightarrow> xm_objs z = xm_objs y \<Longrightarrow> xm_positions z = xm_positions y \<Longrightarrow> rises x z"
  by (simp add: rises_def exits_inv_def mobj_def)

lemma rises_inv: "rises x y \<Longrightarrow> exits_inv y"
  by (simp add: rises_def)

lemma cancel_stop_rises: "exits_inv x \<Longrightarrow> rises x (fst (cancel_stop env a x))"
proof (cases "mp_stop_coid (mobj x a)")
  case (Some c)
  assume i: "exits_inv x"
  obtain y r where y: "exits_cancel env c x = (y, r)" by fastforce
  have r: "rises x y" using awaits_rises [OF exits_cancel_awaits [OF i, of env c]] y by simp
  have "rises y (set_mobj a (\<lambda>p. p\<lparr>mp_stop_coid := None\<rparr>) y)" by (rule set_mobj_rises [OF rises_inv [OF r]]) simp_all
  with r Some y rises_trans show ?thesis by (cases r) (auto simp: cancel_stop_def split: sum.splits)
qed (simp add: cancel_stop_def rises_def)

lemma exit_all_rises:
  assumes "exits_inv x"
  shows "rises x (fst (exit_all env a reason leg price x))"
proof -
  obtain y r where y: "cancel_stop env a x = (y, r)" by fastforce
  obtain z q where z: "send_exit env a leg KClose reason (mp_quantity (mobj y a)) MARKET None price y = (z, q)" by fastforce
  have 1: "rises x y" using cancel_stop_rises [OF assms, of env a] y by simp
  have "rises y z" using awaits_rises [OF send_exit_awaits [OF rises_inv [OF 1], of env a leg KClose reason]] z by (metis fst_conv)
  then have 2: "rises x z" by (rule rises_trans [OF 1])
  have 3: "rises z (set_mobj a (\<lambda>p. p\<lparr>mp_closing := True\<rparr>) z)" by (rule set_mobj_rises [OF rises_inv [OF 2]]) simp_all
  have 4: "rises x (stale_add k (exit_alert l m z))" for k l m by (rule rises_cong [OF 2]) simp_all
  show ?thesis using y z 1 2 4 rises_trans [OF 2 3] by (auto simp: exit_all_def split: sum.split)
qed

lemma trailed_rises: "mp_stop_price p \<le> mp_stop_price (trailed pol atr closes p)"
  by (simp add: trailed_def Let_def split: option.split)

lemma session_loop_rises: "exits_inv x \<Longrightarrow> rises x (fst (session_loop env day atr closes kas x))"
proof (induction kas arbitrary: x)
  case (Cons ka kas)
  obtain k a where ka: "ka = (k, a)" by fastforce
  obtain y r where y: "session_one env day atr closes ka x = (y, r)" by fastforce
  have "rises x (set_mobj a (trailed (xm_policy x) atr closes) x)"
    by (rule set_mobj_rises [OF Cons.prems]) (simp_all add: trailed_rises)
  then have "rises x (stale_add k (set_mobj a (trailed (xm_policy x) atr closes) x))" by (rule rises_cong) simp_all
  moreover have "rises x x" using Cons.prems by (simp add: rises_def)
  ultimately have "rises x (fst (session_one env day atr closes ka x))"
    using exit_all_rises [OF Cons.prems] unfolding ka session_one_def Let_def by (simp split: sum.split)
  then have "rises x y" using y by simp
  with y Cons.IH [OF rises_inv [OF this]] rises_trans show ?case by (cases r) auto
qed (simp add: rises_def)

lemma resting_keeps:
  assumes "only_exits x y" "keyed (xm_oms x)" "resting (xm_oms x) t"
  shows "resting (xm_oms y) t"
proof -
  obtain c i where i: "intent_at (xm_oms x) c = Some i" "i_reduce_only i" "i_order_type i = SL_M" "i_trigger_price i = Some t"
    using assms(3) by (auto simp: resting_def)
  have "intent_at (xm_oms y) c = Some i" using assms(1,2) i(1) unfolding only_exits_def by (metis option.distinct(1))
  with i show ?thesis by (auto simp: resting_def)
qed

lemma firm_trans:
  assumes "firm x y" "firm y z" "keyed (xm_oms x)"
  shows "firm x z"
proof -
  have k: "keyed (xm_oms y)" using assms(1,3) by (simp add: firm_def only_exits_def)
  have "stop_at z a = stop_at x a \<or> resting (xm_oms z) (stop_at z a)" if "a < length (xm_objs x)" for a
  proof -
    have "stop_at y a = stop_at x a \<or> resting (xm_oms y) (stop_at y a)" "stop_at z a = stop_at y a \<or> resting (xm_oms z) (stop_at z a)"
      using assms(1,2) that by (auto simp: firm_def)
    then show ?thesis using resting_keeps [of y z "stop_at y a"] assms(2) k by (auto simp: firm_def)
  qed
  then show ?thesis using assms(1,2) only_exits_trans [of x y z] by (auto simp: firm_def)
qed

lemma awaits_firm: "awaits x y \<Longrightarrow> only_exits x y \<Longrightarrow> firm x y"
  using same_but_qtyD by (fastforce simp: firm_def awaits_def)

lemma set_mobj_firm:
  assumes "exits_inv x" "\<And>p. mp_key (f p) = mp_key p" "\<And>p. mp_stop_price (f p) = mp_stop_price p"
  shows "firm x (set_mobj a f x)"
  using assms exits_inv_set_mobj [OF assms(1,2)] by (auto simp: firm_def mobj_set_mobj only_exits_def)

lemma firm_cong: "firm x y \<Longrightarrow> xm_objs z = xm_objs y \<Longrightarrow> xm_positions z = xm_positions y \<Longrightarrow> xm_oms z = xm_oms y \<Longrightarrow> firm x z"
  by (simp add: firm_def exits_inv_def mobj_def only_exits_def)

lemma place_stop_firm:
  assumes "exits_inv x" "keyed (xm_oms x)"
  shows "firm x (fst (place_stop env k a x))"
proof -
  define x1 where "x1 = set_mobj a (\<lambda>p. p\<lparr>mp_stop_version := mp_stop_version p + 1\<rparr>) x"
  define leg where "leg = stop_leg env (mp_stop_version (mobj x1 a))"
  obtain y r where y: "send_exit env a leg KClose RsStop (mp_quantity (mobj x1 a)) SL_M
      (Some (mp_stop_price (mobj x1 a))) (Some (mp_stop_price (mobj x1 a))) x1 = (y, r)" by fastforce
  have 1: "firm x x1" unfolding x1_def by (rule set_mobj_firm [OF assms(1)]) simp_all
  then have i: "exits_inv x1" by (simp add: firm_def)
  have "firm x1 y" using awaits_firm [OF send_exit_awaits [OF i] send_only_exits] y by (metis fst_conv)
  then have 2: "firm x y" using firm_trans [OF 1 _ assms(2)] by blast
  have "firm y (set_mobj a (\<lambda>p. p\<lparr>mp_stop_coid := Some c\<rparr>) y)" for c by (rule set_mobj_firm) (use 2 in \<open>simp_all add: firm_def\<close>)
  then have 3: "firm x (set_mobj a (\<lambda>p. p\<lparr>mp_stop_coid := Some c\<rparr>) y)" for c using firm_trans [OF 2 _ assms(2)] by blast
  have 4: "firm x (stale_discard k (set_mobj a (\<lambda>p. p\<lparr>mp_stop_coid := Some c\<rparr>) y))" for c by (rule firm_cong [OF 3]) simp_all
  have 5: "firm x (exit_alert l m y)" for l m by (rule firm_cong [OF 2]) simp_all
  show ?thesis unfolding place_stop_def Let_def x1_def [symmetric] leg_def [symmetric] y
    using 2 4 5 by (auto split: sum.split)
qed

lemma live_stop_resting:
  assumes "live_stop s p = Some od" "adoptable p od = Some t" "distinct (map fst (om_orders s))"
  shows "resting s t"
proof -
  obtain c where c: "(c, od) \<in> set (om_orders s)" "i_reduce_only (o_intent od)" "i_order_type (o_intent od) = SL_M"
    using assms(1) by (auto simp: live_stop_def find_Some_iff) (metis nth_mem)
  then have "intent_at s c = Some (o_intent od)" using assms(3) by (simp add: intent_at_def)
  moreover have "i_trigger_price (o_intent od) = Some t" using assms(2) by (auto simp: adoptable_def truthy_def split: if_splits)
  ultimately show ?thesis using c by (auto simp: resting_def)
qed

lemma moves_oms_inv:
  assumes "oms_moves (arriving env) x y" "oms_inv (xm_oms x)" "\<forall>f \<in> arriving env. fill_valid f"
  shows "oms_inv (xm_oms y)"
proof -
  have "oms_moves {f. fill_valid f} x y" by (rule oms_moves_mono [OF assms(1)]) (use assms(3) in blast)
  then show ?thesis using oms_inv_steps oms_inv_keyed assms(2) by (auto simp: oms_moves_def)
qed

lemma refresh_one_firm:
  assumes "exits_inv x" "oms_inv (xm_oms x)"
  shows "firm x (fst (refresh_one env k x))"
proof -
  have k: "keyed (xm_oms x)" by (rule oms_inv_keyed [OF assms(2)])
  have same: "firm x x" using assms(1) by (simp add: firm_def only_exits_def)
  then have drop: "firm x (stale_discard k x)" by (rule firm_cong) simp_all
  show ?thesis
  proof (cases "dget (xm_positions x) k")
    case None
    then show ?thesis using drop by (simp add: refresh_one_def)
  next
    case (Some a)
    define p where "p = mobj x a"
    define found where "found = (if mp_stop_coid p = None then live_stop (xm_oms x) p else None)"
    define pick where "pick = (case found of None \<Rightarrow> None | Some od \<Rightarrow> adoptable p od)"
    obtain y q where y: "clear_old_stop env a x = (y, q)" by fastforce
    have fy: "firm x y" using awaits_firm [OF clear_old_stop_awaits [OF assms(1)] xo.clear_old_stop_rel, of env a] y by simp
    then have "exits_inv y" "keyed (xm_oms y)" using k by (simp_all add: firm_def only_exits_def)
    then have fp: "firm x (fst (place_stop env k a y))" using firm_trans [OF fy _ k] place_stop_firm by blast
    have ad: "firm x (stale_discard k (set_mobj a (\<lambda>p. p\<lparr>mp_stop_coid := c, mp_stop_price := t\<rparr>) x))" if pk: "pick = Some t" for t c
    proof -
      obtain od where od: "live_stop (xm_oms x) p = Some od" "adoptable p od = Some t"
        using pk by (auto simp: pick_def found_def split: option.splits if_splits)
      have "resting (xm_oms x) t" by (rule live_stop_resting [OF od]) (use assms(2) in \<open>simp add: oms_inv_def\<close>)
      moreover have "exits_inv (set_mobj a (\<lambda>p. p\<lparr>mp_stop_coid := c, mp_stop_price := t\<rparr>) x)"
        by (rule exits_inv_set_mobj [OF assms(1)]) simp
      ultimately have "firm x (set_mobj a (\<lambda>p. p\<lparr>mp_stop_coid := c, mp_stop_price := t\<rparr>) x)"
        by (auto simp: firm_def only_exits_def mobj_set_mobj)
      then show ?thesis by (rule firm_cong) simp_all
    qed
    have r: "refresh_one env k x =
        (if mp_closing p \<or> mp_quantity p \<le> 0 then (stale_discard k x, Inr ())
         else case pick of
           Some t \<Rightarrow> (stale_discard k (set_mobj a (\<lambda>p. p\<lparr>mp_stop_coid := map_option o_client_order_id found, mp_stop_price := t\<rparr>) x), Inr ())
         | None \<Rightarrow> (case clear_old_stop env a x of (x1, Inl e) \<Rightarrow> (x1, Inl e) | (x1, Inr u) \<Rightarrow> place_stop env k a x1))"
      unfolding refresh_one_def pick_def found_def p_def by (simp add: Some Let_def)
    show ?thesis unfolding r y using drop ad fy fp by (cases pick; cases q) auto
  qed
qed

lemma refresh_keys_firm:
  assumes "exits_inv x" "oms_inv (xm_oms x)" "\<forall>f \<in> arriving env. fill_valid f"
  shows "firm x (fst (refresh_keys env ks x))"
  using assms(1,2)
proof (induction ks arbitrary: x)
  case Nil
  then show ?case by (simp add: firm_def only_exits_def)
next
  case (Cons k ks)
  obtain y r where y: "refresh_one env k x = (y, r)" by fastforce
  have 1: "firm x y" using refresh_one_firm [OF Cons.prems, of env k] y by simp
  have o: "oms_inv (xm_oms y)" using moves_oms_inv [OF xs.refresh_one_rel Cons.prems(2) assms(3), of k] y by simp
  have "exits_inv y" using 1 by (simp add: firm_def)
  from Cons.IH [OF this o] firm_trans [OF 1 _ oms_inv_keyed [OF Cons.prems(2)]] 1 y show ?case by (cases r) auto
qed

text \<open>The trailing stop never loosens. Over a session start no recorded stop goes down, whatever closes, volatilities
  and broker notices arrive, except that a position whose recorded stop was dropped takes over the trigger of an exit
  stop that the order manager knows.\<close>

theorem trailing_stop_never_loosens:
  assumes "exits_inv x" "oms_inv (xm_oms x)" "\<forall>f \<in> arriving env. fill_valid f"
    and "on_session_start env day atr closes x = (y, Inr u)" "a < length (xm_objs x)"
  shows "stop_at x a \<le> stop_at y a \<or> resting (xm_oms y) (stop_at y a)"
proof -
  obtain z v where z: "session_loop env day atr closes (xm_positions x) x = (z, Inr v)" "saved_ok (refresh_stops env z) = (y, Inr u)"
    using assms(4) by (auto simp: on_session_start_def split: prod.splits sum.splits)
  have r: "rises x z" using session_loop_rises [OF assms(1), of env day atr closes "xm_positions x"] z(1) by simp
  have o: "oms_inv (xm_oms z)" using moves_oms_inv [OF xs.session_loop_rel assms(2,3), of day atr closes "xm_positions x"] z(1) by simp
  obtain w where w: "refresh_keys env (sort (xm_stale z)) z = (w, Inr ())" "y = exits_save (exits_save w)"
    using z(2) by (cases "refresh_keys env (sort (xm_stale z)) z"; cases "snd (refresh_keys env (sort (xm_stale z)) z)")
      (auto simp: refresh_stops_def saved_ok_def)
  have f: "firm z w" using refresh_keys_firm [OF rises_inv [OF r] o assms(3), of "sort (xm_stale z)"] w(1) by simp
  have "stop_at x a \<le> stop_at z a" "a < length (xm_objs z)" using r assms(5) by (auto simp: rises_def)
  then show ?thesis using f w(2) by (auto simp: firm_def)
qed

lemma entered_session:
  "case on_session_start quiet_world 20480 [(''NSE:EQ:INFY'', 4)] [(''NSE:EQ:INFY'', 120)] entered of
     (y, Inl e) \<Rightarrow> False
   | (y, Inr u) \<Rightarrow> map (\<lambda>(k, a). (a, stop_at y a)) (xm_positions y) = [(0, 112)] \<and> 0 < length (xm_objs entered) \<and> stop_at entered 0 = 90"
  by code_simp

theorem trailing_stop_never_loosens_witness:
  "\<exists>y. on_session_start quiet_world 20480 [(''NSE:EQ:INFY'', 4)] [(''NSE:EQ:INFY'', 120)] entered = (y, Inr ())
     \<and> stop_at entered 0 = 90 \<and> xm_positions y \<noteq> [] \<and> (stop_at entered 0 \<le> stop_at y 0 \<or> resting (xm_oms y) (stop_at y 0))"
proof -
  obtain y where y: "on_session_start quiet_world 20480 [(''NSE:EQ:INFY'', 4)] [(''NSE:EQ:INFY'', 120)] entered = (y, Inr ())"
    "map (\<lambda>(k, a). (a, stop_at y a)) (xm_positions y) = [(0, 112)]" "0 < length (xm_objs entered)" "stop_at entered 0 = 90"
    by (rule returnedE [OF entered_session]) (elim conjE, rule that)
  have "\<forall>f \<in> arriving quiet_world. fill_valid f" by (simp add: arriving_def quiet_world_def exit_world_def)
  with trailing_stop_never_loosens [OF _ _ _ y(1) y(3)] entered_facts
  have "stop_at entered 0 \<le> stop_at y 0 \<or> resting (xm_oms y) (stop_at y 0)" by blast
  moreover have "xm_positions y \<noteq> []" using y(2) by auto
  ultimately show ?thesis using y by blast
qed

end
