(* ===== verification/Strategies.thy ===== *)
theory Strategies
  imports Exit_Manager
begin

section \<open>Features, regime, strategies and trade policy\<close>

text \<open>
  The package \<^verbatim>\<open>src/strategies\<close> with the record of features of \<^verbatim>\<open>src/features/technical.py\<close>
  and the regime labels of \<^verbatim>\<open>src/features/regime.py\<close>. The indicators themselves are computed by
  pandas and ta and come in as values; a float that is not finite never reaches a feature. The
  structured reasons of a signal are display data and are left out.
\<close>

subsection \<open>Features\<close>

record features =
  ft_instrument_key :: string
  ft_bar_date :: date
  ft_bars :: int
  ft_open :: rat
  ft_high :: rat
  ft_low :: rat
  ft_close :: rat
  ft_volume :: rat
  ft_prev_close :: "rat option"
  ft_rsi_14 :: "rat option"
  ft_macd :: "rat option"
  ft_macd_signal :: "rat option"
  ft_macd_hist :: "rat option"
  ft_adx_14 :: "rat option"
  ft_plus_di_14 :: "rat option"
  ft_minus_di_14 :: "rat option"
  ft_atr_14 :: "rat option"
  ft_bb_upper :: "rat option"
  ft_bb_middle :: "rat option"
  ft_bb_lower :: "rat option"
  ft_bb_percent :: "rat option"
  ft_ema :: "(int, rat) dict"
  ft_sma :: "(int, rat) dict"
  ft_adv20_shares :: "rat option"
  ft_adv20_inr :: "rat option"
  ft_sigma_daily :: "rat option"

definition ft_atr_pct :: "features \<Rightarrow> rat option" where
  "ft_atr_pct f = (case ft_atr_14 f of None \<Rightarrow> None | Some a \<Rightarrow> if ft_close f \<le> 0 then None else Some (fdiv a (ft_close f)))"

definition ft_bb_width :: "features \<Rightarrow> rat option" where
  "ft_bb_width f =
     (case (ft_bb_upper f, ft_bb_lower f, truthy (ft_bb_middle f)) of
        (Some u, Some l, Some m) \<Rightarrow> Some (fdiv (fsub u l) m)
      | _ \<Rightarrow> None)"

subsection \<open>Regime\<close>

datatype regime = TRENDING_UP | TRENDING_DOWN | RANGING | VOLATILE

record regime_config =
  rg_adx_window :: int
  rg_adx_trend :: rat
  rg_vol_window :: int
  rg_vol_lookback :: int
  rg_vol_high_pct :: rat
  rg_confirm :: nat

definition regime_config_ok :: "regime_config \<Rightarrow> bool" where
  "regime_config_ok c =
     ((0 < rg_vol_high_pct c \<and> rg_vol_high_pct c < 1)
      \<and> \<not> (rg_confirm c < 1 \<or> rg_adx_window c < 2 \<or> rg_vol_window c < 2)
      \<and> \<not> rg_vol_lookback c < rg_vol_window c)"

definition classify :: "rat option \<Rightarrow> rat option \<Rightarrow> rat option \<Rightarrow> rat option \<Rightarrow> regime_config \<Rightarrow> regime option" where
  "classify adx pdi mdi vpct c =
     (if (case vpct of None \<Rightarrow> False | Some v \<Rightarrow> rg_vol_high_pct c \<le> v) then Some VOLATILE
      else case (adx, pdi, mdi) of
        (Some a, Some p, Some m) \<Rightarrow>
          (if rg_adx_trend c \<le> a then Some (if m \<le> p then TRENDING_UP else TRENDING_DOWN) else Some RANGING)
      | _ \<Rightarrow> None)"

record hyst =
  hy_confirmed :: "regime option"
  hy_candidate :: "regime option"
  hy_streak :: nat
  hy_changed :: bool

definition hyst_step :: "nat \<Rightarrow> regime option \<Rightarrow> hyst \<Rightarrow> hyst" where
  "hyst_step confirm raw h =
     (case raw of
        None \<Rightarrow> h\<lparr>hy_changed := False\<rparr>
      | Some r \<Rightarrow>
          (if hy_confirmed h = None then h\<lparr>hy_confirmed := Some r, hy_changed := True\<rparr>
           else if Some r = hy_confirmed h then h\<lparr>hy_candidate := None, hy_streak := 0, hy_changed := False\<rparr>
           else let n = (if Some r = hy_candidate h then hy_streak h + 1 else 1)
                in if confirm \<le> n then \<lparr>hy_confirmed = Some r, hy_candidate = None, hy_streak = 0, hy_changed = True\<rparr>
                   else h\<lparr>hy_candidate := Some r, hy_streak := n, hy_changed := False\<rparr>))"

definition hyst0 :: hyst where
  "hyst0 = \<lparr>hy_confirmed = None, hy_candidate = None, hy_streak = 0, hy_changed = False\<rparr>"

definition hysteresis :: "regime option list \<Rightarrow> nat \<Rightarrow> regime option \<times> bool" where
  "hysteresis raws confirm =
     (let h = fold (hyst_step confirm) raws hyst0 in (hy_confirmed h, hy_changed h))"

definition regime_allows :: "string \<Rightarrow> regime option \<Rightarrow> (string, regime list) dict \<Rightarrow> bool" where
  "regime_allows strategy reg gates =
     (case dget gates strategy of
        None \<Rightarrow> True
      | Some allowed \<Rightarrow> (case reg of None \<Rightarrow> False | Some r \<Rightarrow> r \<in> set allowed))"

subsection \<open>Strategies\<close>

definition score_cap :: rat where
  "score_cap = fl64 (95 / 100)"

record strategy_params =
  sp_rsi_oversold :: rat
  sp_rsi_overbought :: rat
  sp_adx_trend :: rat
  sp_adx_strong :: rat
  sp_bb_squeeze :: rat

definition default_params :: strategy_params where
  "default_params = \<lparr>sp_rsi_oversold = 30, sp_rsi_overbought = 70, sp_adx_trend = 25, sp_adx_strong = 40, sp_bb_squeeze = fl64 (1 / 10)\<rparr>"

record detection =
  dt_side :: side
  dt_base_score :: rat

record strategy =
  st_name :: string
  st_rsi_contrarian :: bool
  st_detect :: "features \<Rightarrow> detection option"

definition momentum_detect :: "strategy_params \<Rightarrow> features \<Rightarrow> detection option" where
  "momentum_detect p f =
     (case (ft_rsi_14 f, ft_macd_hist f) of
        (Some rsi, Some hist) \<Rightarrow>
          (if rsi < 50 \<and> 0 < hist
           then Some \<lparr>dt_side = BUY, dt_base_score = (if rsi < sp_rsi_oversold p then fl64 (8 / 10) else if rsi < 40 then fl64 (6 / 10) else fl64 (4 / 10))\<rparr>
           else if 50 < rsi \<and> hist < 0
           then Some \<lparr>dt_side = SELL, dt_base_score = (if sp_rsi_overbought p < rsi then fl64 (8 / 10) else if 60 < rsi then fl64 (6 / 10) else fl64 (4 / 10))\<rparr>
           else None)
      | _ \<Rightarrow> None)"

definition mean_reversion_detect :: "strategy_params \<Rightarrow> features \<Rightarrow> detection option" where
  "mean_reversion_detect p f =
     (case (ft_bb_lower f, ft_bb_upper f, ft_rsi_14 f) of
        (Some lower, Some upper, Some rsi) \<Rightarrow>
          (if ft_close f \<le> lower
           then Some \<lparr>dt_side = BUY, dt_base_score = (if rsi < sp_rsi_oversold p then 3 / 4 else 1 / 2)\<rparr>
           else if upper \<le> ft_close f
           then Some \<lparr>dt_side = SELL, dt_base_score = (if sp_rsi_overbought p < rsi then 3 / 4 else 1 / 2)\<rparr>
           else None)
      | _ \<Rightarrow> None)"

definition breakout_detect :: "strategy_params \<Rightarrow> features \<Rightarrow> detection option" where
  "breakout_detect p f =
     (case (ft_bb_width f, ft_bb_upper f, ft_bb_lower f) of
        (Some width, Some upper, Some lower) \<Rightarrow>
          (if sp_bb_squeeze p \<le> width then None
           else if upper < ft_close f then Some \<lparr>dt_side = BUY, dt_base_score = fl64 (7 / 10)\<rparr>
           else if ft_close f < lower then Some \<lparr>dt_side = SELL, dt_base_score = fl64 (7 / 10)\<rparr>
           else None)
      | _ \<Rightarrow> None)"

definition trend_following_detect :: "strategy_params \<Rightarrow> features \<Rightarrow> detection option" where
  "trend_following_detect p f =
     (case (ft_adx_14 f, ft_plus_di_14 f, ft_minus_di_14 f, dget (ft_ema f) 21) of
        (Some adx, Some pdi, Some mdi, Some ema21) \<Rightarrow>
          (if adx \<le> sp_adx_trend p then None
           else let base = (if sp_adx_strong p < adx then fl64 (8 / 10) else fl64 (6 / 10))
                in if mdi < pdi \<and> ema21 < ft_close f then Some \<lparr>dt_side = BUY, dt_base_score = base\<rparr>
                   else if pdi < mdi \<and> ft_close f < ema21 then Some \<lparr>dt_side = SELL, dt_base_score = base\<rparr>
                   else None)
      | _ \<Rightarrow> None)"

definition registry_of :: "strategy_params \<Rightarrow> (string, strategy) dict" where
  "registry_of p =
     map (\<lambda>s. (st_name s, s))
       [\<lparr>st_name = ''momentum'', st_rsi_contrarian = False, st_detect = momentum_detect p\<rparr>,
        \<lparr>st_name = ''mean_reversion'', st_rsi_contrarian = True, st_detect = mean_reversion_detect p\<rparr>,
        \<lparr>st_name = ''breakout'', st_rsi_contrarian = False, st_detect = breakout_detect p\<rparr>,
        \<lparr>st_name = ''trend_following'', st_rsi_contrarian = False, st_detect = trend_following_detect p\<rparr>]"

subsection \<open>Signals\<close>

definition opt_list :: "'a option \<Rightarrow> 'a list" where
  "opt_list x = (case x of None \<Rightarrow> [] | Some v \<Rightarrow> [v])"

definition votes_of :: "features \<Rightarrow> side \<Rightarrow> bool \<Rightarrow> bool list" where
  "votes_of f sd contrarian =
     (let buy = (sd = BUY);
          ref = (case truthy (dget (ft_ema f) 21) of Some v \<Rightarrow> Some v | None \<Rightarrow> dget (ft_sma f) 20)
      in opt_list (map_option (\<lambda>rsi.
            let supports_buy = (if contrarian then rsi < 50 else 50 < rsi);
                supports_sell = (if contrarian then 50 < rsi else rsi < 50)
            in if buy then supports_buy else supports_sell) (ft_rsi_14 f))
         @ opt_list (map_option (\<lambda>h. if buy then 0 < h else h < 0) (ft_macd_hist f))
         @ (case (ft_plus_di_14 f, ft_minus_di_14 f) of
              (Some p, Some m) \<Rightarrow> [if buy then m < p else p < m]
            | _ \<Rightarrow> [])
         @ opt_list (map_option (\<lambda>r. if buy then r < ft_close f else ft_close f < r) ref))"

definition agreement :: "features \<Rightarrow> side \<Rightarrow> bool \<Rightarrow> rat" where
  "agreement f sd contrarian =
     (let vs = votes_of f sd contrarian
      in if vs = [] then 1 / 2 else fdiv (of_nat (length (filter id vs))) (of_nat (length vs)))"

text \<open>\<^verbatim>\<open>round(x, 2)\<close> rounds the exact value half to even and returns the nearest float.\<close>

definition py_round2 :: "rat \<Rightarrow> rat" where
  "py_round2 x = fl64 (of_int (round_half_even (x * 100)) / 100)"

definition agreement_score :: "features \<Rightarrow> detection \<Rightarrow> bool \<Rightarrow> rat" where
  "agreement_score f d contrarian =
     (let a = agreement f (dt_side d) contrarian;
          blended = fadd (fmul (fl64 (4 / 10)) (dt_base_score d))
                      (fmul (fl64 (6 / 10)) (fadd (fl64 (35 / 100)) (fmul (fl64 (55 / 100)) a)))
      in py_round2 (min score_cap blended))"

definition signal_id_of :: "(date \<Rightarrow> string) \<Rightarrow> string \<Rightarrow> features \<Rightarrow> string" where
  "signal_id_of isof strategy f = strategy @ '':'' @ ft_instrument_key f @ '':'' @ isof (ft_bar_date f)"

definition signal_valid :: "signal \<Rightarrow> bool" where
  "signal_valid s =
     (sg_signal_id s \<noteq> [] \<and> sg_decision_id s \<noteq> [] \<and> sg_instrument_key s \<noteq> [] \<and> sg_strategy s \<noteq> []
      \<and> 0 \<le> sg_agreement_score s \<and> sg_agreement_score s \<le> 1 \<and> 0 < sg_stop_atr_mult s \<and> 0 < sg_target_atr_mult s)"

record signal_env =
  se_isoformat :: "date \<Rightarrow> string"
  se_decision_id :: string
  se_generated_at :: ts
  se_stop_atr_mult :: rat
  se_target_atr_mult :: rat

definition make_signal :: "signal_env \<Rightarrow> strategy \<Rightarrow> features \<Rightarrow> detection \<Rightarrow> bool \<Rightarrow> signal result" where
  "make_signal env st f d shadow =
     (let s = \<lparr>sg_signal_id = signal_id_of (se_isoformat env) (st_name st) f, sg_decision_id = se_decision_id env,
               sg_instrument_key = ft_instrument_key f, sg_strategy = st_name st, sg_side = dt_side d,
               sg_bar_date = ft_bar_date f, sg_agreement_score = agreement_score f d (st_rsi_contrarian st),
               sg_stop_atr_mult = se_stop_atr_mult env, sg_target_atr_mult = se_target_atr_mult env,
               sg_is_shadow = shadow, sg_generated_at = se_generated_at env\<rparr>
      in if signal_valid s then Inr s else Inl ValueError)"

fun first_seen :: "'a list \<Rightarrow> 'a list" where
  "first_seen [] = []"
| "first_seen (x # xs) = x # filter (\<lambda>y. y \<noteq> x) (first_seen xs)"

definition shadow_names :: "string list \<Rightarrow> string list \<Rightarrow> string list" where
  "shadow_names enabled shadow = filter (\<lambda>n. n \<notin> set (first_seen enabled)) (first_seen shadow)"

fun signals_loop ::
  "signal_env \<Rightarrow> (string, strategy) dict \<Rightarrow> features \<Rightarrow> (string \<times> bool) list \<Rightarrow> signal list result" where
  "signals_loop env known f [] = Inr []"
| "signals_loop env known f ((n, shadow) # ns) =
     (case dget known n of
        None \<Rightarrow> Inl KeyError
      | Some st \<Rightarrow>
          (case st_detect st f of
             None \<Rightarrow> signals_loop env known f ns
           | Some d \<Rightarrow>
               (case make_signal env st f d shadow of
                  Inl e \<Rightarrow> Inl e
                | Inr s \<Rightarrow> (case signals_loop env known f ns of Inl e \<Rightarrow> Inl e | Inr ss \<Rightarrow> Inr (s # ss)))))"

definition generate_signals ::
  "signal_env \<Rightarrow> (string, strategy) dict \<Rightarrow> string list \<Rightarrow> string list \<Rightarrow> features \<Rightarrow> signal list result" where
  "generate_signals env known enabled shadow f =
     (let en = first_seen enabled; sh = shadow_names enabled shadow
      in if list_ex (\<lambda>n. dget known n = None) (en @ sh) then Inl ValueError
         else signals_loop env known f (map (\<lambda>n. (n, False)) en @ map (\<lambda>n. (n, True)) sh))"

subsection \<open>Trade policy\<close>

record policy_config =
  tp_k_stop_atr :: rat
  tp_k_target_atr :: rat
  tp_k_trail_atr :: "rat option"
  tp_max_hold_days :: int
  tp_partial_at_r :: "rat option"
  tp_partial_fraction :: rat
  tp_product :: product

definition exit_policy_of :: "policy_config \<Rightarrow> exit_policy" where
  "exit_policy_of c =
     \<lparr>xp_k_stop_atr = tp_k_stop_atr c, xp_k_target_atr = tp_k_target_atr c, xp_k_trail_atr = tp_k_trail_atr c,
      xp_max_hold_days = tp_max_hold_days c, xp_partial_at_r = tp_partial_at_r c, xp_partial_fraction = tp_partial_fraction c\<rparr>"

definition policy_config_ok :: "policy_config \<Rightarrow> bool" where
  "policy_config_ok c = (exit_policy_ok (exit_policy_of c) \<and> tp_product c = CNC)"

record proposal =
  pp_intent :: order_intent
  pp_signal :: signal
  pp_atr :: rat

datatype skip_reason = SkShadow | SkLongOnly | SkNoAtr

datatype policy_outcome = Proposed proposal | Skipped signal skip_reason

definition entry_intent ::
  "(date \<Rightarrow> string) \<Rightarrow> policy_config \<Rightarrow> signal \<Rightarrow> instrument \<Rightarrow> string \<Rightarrow> rat \<Rightarrow> rat \<Rightarrow> rat \<Rightarrow> ts \<Rightarrow> order_intent result" where
  "entry_intent isof c s ins book_id price stop target now =
     (case intent_id isof book_id (sg_strategy s) (ins_key ins) (sg_bar_date s) ''entry'' of
        Inl e \<Rightarrow> Inl e
      | Inr iid \<Rightarrow>
          (let i = \<lparr>i_intent_id = iid, i_decision_id = sg_decision_id s, i_parent_decision_id = None, i_book_id = book_id,
                    i_strategy = sg_strategy s, i_signal_id = Some (sg_signal_id s), i_instrument = ins, i_side = BUY,
                    i_kind = KOpen, i_quantity = None, i_order_type = MARKET, i_product = tp_product c, i_validity = DAY,
                    i_limit_price = None, i_trigger_price = None, i_stop_price = Some stop, i_target_price = Some target,
                    i_reduce_only = False, i_decision_price = price, i_decision_ts = now, i_reason = RsEntry,
                    i_source = SignalEngine\<rparr>
           in if intent_valid i \<and> intent_fields_ok i then Inr i else Inl ValueError))"

definition propose ::
  "(date \<Rightarrow> string) \<Rightarrow> policy_config \<Rightarrow> signal \<Rightarrow> instrument \<Rightarrow> string \<Rightarrow> rat \<Rightarrow> rat option \<Rightarrow> ts \<Rightarrow> rat option
    \<Rightarrow> policy_outcome result" where
  "propose isof c s ins book_id price atr now arrival =
     (if sg_instrument_key s \<noteq> ins_key ins then Inl ValueError
      else if sg_is_shadow s then Inr (Skipped s SkShadow)
      else if sg_side s \<noteq> BUY then Inr (Skipped s SkLongOnly)
      else let anchor = (case arrival of Some a \<Rightarrow> a | None \<Rightarrow> price)
           in case atr of
                None \<Rightarrow> Inr (Skipped s SkNoAtr)
              | Some v \<Rightarrow>
                  (if v \<le> 0 \<or> price \<le> 0 \<or> anchor \<le> 0 then Inr (Skipped s SkNoAtr)
                   else let stop = dsub anchor (dmul (dec_of_float (sg_stop_atr_mult s)) v);
                            target = dadd anchor (dmul (dec_of_float (sg_target_atr_mult s)) v)
                        in if stop \<le> 0 then Inr (Skipped s SkNoAtr)
                           else case entry_intent isof c s ins book_id price stop target now of
                                  Inl e \<Rightarrow> Inl e
                                | Inr i \<Rightarrow> Inr (Proposed \<lparr>pp_intent = i, pp_signal = s, pp_atr = v\<rparr>)))"

end
