(* ===== verification/Strategy_Props.thy ===== *)
theory Strategy_Props
  imports Strategies
begin

section \<open>Properties of regime, signals and policy\<close>

text \<open>
  The confirmed regime label changes exactly when the new label has held for the required number of
  classified bars; the enabled and the shadow strategies always give signals with a score between 0 and
  0.95; and the policy proposes nothing but valid long entries with their stop below the price.
\<close>

subsection \<open>Hysteresis\<close>

definition classified :: "regime option list \<Rightarrow> regime list" where
  "classified raws = map the (filter (\<lambda>r. r \<noteq> None) raws)"

definition run_length :: "'a \<Rightarrow> 'a list \<Rightarrow> nat" where
  "run_length r ys = length (takeWhile (\<lambda>y. y = r) (rev ys))"

definition hyst_inv :: "nat \<Rightarrow> regime list \<Rightarrow> hyst \<Rightarrow> bool" where
  "hyst_inv c ys h =
     (if ys = [] then hy_confirmed h = None \<and> hy_candidate h = None \<and> hy_streak h = 0
      else \<exists>l. hy_confirmed h = Some l
        \<and> (if last ys = l then hy_candidate h = None \<and> hy_streak h = 0
           else hy_candidate h = Some (last ys) \<and> hy_streak h = run_length (last ys) ys \<and> hy_streak h < c))"

lemma classified_snoc [simp]:
  "classified (raws @ [None]) = classified raws" "classified (raws @ [Some r]) = classified raws @ [r]"
  by (simp_all add: classified_def)

lemma run_length_snoc: "run_length r (ys @ [s]) = (if s = r then Suc (run_length r ys) else 0)"
  by (simp add: run_length_def)

lemma run_length_last: "ys = [] \<or> last ys \<noteq> r \<Longrightarrow> run_length r ys = 0"
  by (cases ys rule: rev_cases) (auto simp: run_length_def)

lemma hyst_step_inv:
  assumes "hyst_inv c ys h" "1 \<le> c"
  shows "hyst_inv c (ys @ [r]) (hyst_step c (Some r) h)"
proof (cases "ys = []")
  case True
  then show ?thesis using assms by (auto simp: hyst_inv_def hyst_step_def)
next
  case False
  then obtain l where l: "hy_confirmed h = Some l"
    "if last ys = l then hy_candidate h = None \<and> hy_streak h = 0
     else hy_candidate h = Some (last ys) \<and> hy_streak h = run_length (last ys) ys \<and> hy_streak h < c"
    using assms(1) by (auto simp: hyst_inv_def)
  have "(if Some r = hy_candidate h then hy_streak h + 1 else 1) = Suc (run_length r ys)" if "r \<noteq> l"
    using l(2) that run_length_last [of ys r] by (auto split: if_splits)
  then show ?thesis using l by (auto simp: hyst_inv_def hyst_step_def Let_def run_length_snoc)
qed

lemma hyst_fold_inv: "1 \<le> c \<Longrightarrow> hyst_inv c (classified raws) (fold (hyst_step c) raws hyst0)"
proof (induction raws rule: rev_induct)
  case Nil
  then show ?case by (simp add: hyst_inv_def hyst0_def classified_def)
next
  case (snoc r raws)
  show ?case
  proof (cases r)
    case None
    have "hyst_inv c ys (h\<lparr>hy_changed := False\<rparr>) = hyst_inv c ys h" for ys h by (simp add: hyst_inv_def)
    then show ?thesis using None snoc by (simp add: hyst_step_def [of c None])
  next
    case (Some l)
    then show ?thesis using snoc hyst_step_inv by simp
  qed
qed

text \<open>The regime label changes exactly when it is confirmed. A new bar with a classified label replaces the confirmed label
  exactly when it differs from it and the last classified bars, this one included and as many as the confirmation count, all read the new label, and the
  change is flagged then and only then; an unclassified bar changes nothing; the first classified bar is the first label.\<close>

theorem regime_changes_when_confirmed:
  assumes "1 \<le> c"
  shows "fst (hysteresis (raws @ [None]) c) = fst (hysteresis raws c) \<and> \<not> snd (hysteresis (raws @ [None]) c)
    \<and> hysteresis (raws @ [Some r]) c =
        (case fst (hysteresis raws c) of
           None \<Rightarrow> (Some r, True)
         | Some l \<Rightarrow> if r \<noteq> l \<and> c \<le> run_length r (classified raws @ [r]) then (Some r, True) else (Some l, False))
    \<and> (fst (hysteresis raws c) = None) = (classified raws = [])"
proof -
  define h where "h = fold (hyst_step c) raws hyst0"
  have inv: "hyst_inv c (classified raws) h" unfolding h_def by (rule hyst_fold_inv [OF assms])
  have e: "hysteresis raws c = (hy_confirmed h, hy_changed h)"
    "hysteresis (raws @ [x]) c = (hy_confirmed (hyst_step c x h), hy_changed (hyst_step c x h))" for x
    by (simp_all add: hysteresis_def h_def Let_def)
  show ?thesis
  proof (cases "hy_confirmed h")
    case None
    then show ?thesis using inv by (auto simp: e hyst_step_def hyst_inv_def split: if_splits)
  next
    case (Some l)
    then have ne: "classified raws \<noteq> []" using inv by (auto simp: hyst_inv_def)
    then have l: "if last (classified raws) = l then hy_candidate h = None \<and> hy_streak h = 0
       else hy_candidate h = Some (last (classified raws)) \<and> hy_streak h = run_length (last (classified raws)) (classified raws) \<and> hy_streak h < c"
      using inv Some by (auto simp: hyst_inv_def)
    have "(if Some r = hy_candidate h then hy_streak h + 1 else 1) = Suc (run_length r (classified raws))" if "r \<noteq> l"
      using l that run_length_last [of "classified raws" r] by (auto split: if_splits)
    then show ?thesis using Some ne by (auto simp: e hyst_step_def Let_def run_length_snoc)
  qed
qed

theorem regime_changes_when_confirmed_witness:
  "hysteresis [Some RANGING, Some VOLATILE, None, Some VOLATILE] 2 = (Some VOLATILE, True)
   \<and> hysteresis [Some RANGING, Some VOLATILE] 2 = (Some RANGING, False)"
proof -
  have "fst (hysteresis [Some RANGING, Some VOLATILE, None] 2) = Some RANGING" by code_simp
  moreover have "run_length VOLATILE (classified [Some RANGING, Some VOLATILE, None] @ [VOLATILE]) = 2"
    by (simp add: run_length_def classified_def)
  moreover have "hysteresis [Some RANGING, Some VOLATILE] 2 = (Some RANGING, False)" by code_simp
  ultimately show ?thesis using regime_changes_when_confirmed [of 2 "[Some RANGING, Some VOLATILE, None]" VOLATILE] by simp
qed

subsection \<open>Scores\<close>

lemma fl64_1 [simp]: "fl64 1 = 1"
  by code_simp

lemma fl64_le_1: "x \<le> 1 \<Longrightarrow> fl64 x \<le> 1"
  using fl64_mono [of x 1] by simp

lemma agreement_unit: "0 \<le> agreement f sd c \<and> agreement f sd c \<le> 1"
proof -
  have "of_nat (length (filter id vs)) / of_nat (length vs) \<le> (1::rat)" for vs
    by (cases "vs = []") (simp_all add: length_filter_le)
  then show ?thesis by (simp add: agreement_def Let_def fdiv_def fl64_le_1 fl64_nonneg)
qed

lemma py_round2_mono: "x \<le> y \<Longrightarrow> py_round2 x \<le> py_round2 y"
  unfolding py_round2_def by (intro fl64_mono divide_right_mono of_int_le_iff [THEN iffD2] round_half_even_mono mult_right_mono) simp_all

lemma py_round2_nonneg: "0 \<le> x \<Longrightarrow> 0 \<le> py_round2 x"
  using py_round2_mono [of 0 x] by (simp add: py_round2_def round_half_even_def)

lemma score_range:
  assumes "0 \<le> dt_base_score d"
  shows "0 \<le> agreement_score f d c \<and> agreement_score f d c \<le> score_cap"
proof
  have "0 \<le> fadd (fmul (fl64 (4 / 10)) (dt_base_score d)) (fmul (fl64 (6 / 10)) (fadd (fl64 (35 / 100)) (fmul (fl64 (55 / 100)) (agreement f (dt_side d) c))))"
    using assms agreement_unit [of f "dt_side d" c] by (intro fadd_nonneg fmul_nonneg fl64_nonneg) simp_all
  then show "0 \<le> agreement_score f d c"
    unfolding agreement_score_def Let_def by (intro py_round2_nonneg) (simp add: score_cap_def fl64_nonneg)
  have "py_round2 score_cap = score_cap" by code_simp
  then show "agreement_score f d c \<le> score_cap"
    unfolding agreement_score_def Let_def using py_round2_mono [of "min score_cap _" score_cap] by (metis min.cobounded1)
qed

lemma score_cap_le_1: "score_cap \<le> 1"
  by (simp add: score_cap_def fl64_le_1)

lemma detect_base_nonneg:
  assumes "dget (registry_of p) n = Some st" "st_detect st f = Some d"
  shows "0 \<le> dt_base_score d \<and> st_name st = n"
  using assms
  by (auto simp: registry_of_def momentum_detect_def mean_reversion_detect_def breakout_detect_def trend_following_detect_def Let_def fl64_nonneg
      split: if_splits option.splits)

definition signal_env_ok :: "signal_env \<Rightarrow> bool" where
  "signal_env_ok env = (se_decision_id env \<noteq> [] \<and> 0 < se_stop_atr_mult env \<and> 0 < se_target_atr_mult env)"

lemma known_names: "dget (registry_of p) n \<noteq> None \<Longrightarrow> n \<noteq> []"
  by (auto simp: registry_of_def split: if_splits)

lemma signals_loop_total:
  assumes "signal_env_ok env" "ft_instrument_key f \<noteq> []" "\<forall>(n, sh) \<in> set ns. dget (registry_of p) n \<noteq> None"
  shows "\<exists>ss. signals_loop env (registry_of p) f ns = Inr ss
    \<and> (\<forall>s \<in> set ss. signal_valid s \<and> sg_agreement_score s \<le> score_cap \<and> (sg_strategy s, sg_is_shadow s) \<in> set ns \<and> sg_instrument_key s = ft_instrument_key f)"
  using assms(3)
proof (induction ns)
  case (Cons a ns)
  obtain n sh where a: "a = (n, sh)" by fastforce
  obtain st where st: "dget (registry_of p) n = Some st" using Cons.prems a by auto
  obtain ss where ss: "signals_loop env (registry_of p) f ns = Inr ss"
    "\<forall>s \<in> set ss. signal_valid s \<and> sg_agreement_score s \<le> score_cap \<and> (sg_strategy s, sg_is_shadow s) \<in> set ns \<and> sg_instrument_key s = ft_instrument_key f"
    using Cons by auto
  show ?case
  proof (cases "st_detect st f")
    case None
    then show ?thesis using a st ss by auto
  next
    case (Some d)
    note b = detect_base_nonneg [OF st Some]
    have n: "st_name st \<noteq> []" using known_names [of p n] st b by simp
    obtain s where s: "make_signal env st f d sh = Inr s" "signal_valid s" "sg_strategy s = n" "sg_is_shadow s = sh"
      "sg_agreement_score s = agreement_score f d (st_rsi_contrarian st)" "sg_instrument_key s = ft_instrument_key f"
      using b n assms(1,2) score_range [of d f "st_rsi_contrarian st"] score_cap_le_1
      by (auto simp: make_signal_def signal_valid_def signal_id_of_def signal_env_ok_def Let_def)
    then have "sg_agreement_score s \<le> score_cap" using score_range b by simp
    then show ?thesis using a st Some s ss by auto
  qed
qed simp

lemma set_first_seen [simp]: "set (first_seen xs) = set xs"
  by (induction xs) auto

text \<open>Signals never fail and shadow strategies stay shadow. With the strategies of the registry, signal generation
  succeeds exactly when every enabled and shadow name is known; then every signal is valid, its score is between 0 and 0.95,
  and it is marked as shadow exactly when its strategy is not enabled.\<close>

theorem signals_total_and_marked:
  assumes "signal_env_ok env" "ft_instrument_key f \<noteq> []"
  shows "((\<exists>ss. generate_signals env (registry_of p) en sh f = Inr ss) \<longleftrightarrow>
      (\<forall>n \<in> set en \<union> set sh. n \<in> {''momentum'', ''mean_reversion'', ''breakout'', ''trend_following''}))
    \<and> (\<forall>ss. generate_signals env (registry_of p) en sh f = Inr ss \<longrightarrow>
      list_all (\<lambda>s. signal_valid s \<and> sg_agreement_score s \<le> score_cap \<and> sg_is_shadow s = (sg_strategy s \<notin> set en)
        \<and> sg_strategy s \<in> set en \<union> set sh) ss)"
proof -
  let ?ns = "map (\<lambda>n. (n, False)) (first_seen en) @ map (\<lambda>n. (n, True)) (shadow_names en sh)"
  have names: "dget (registry_of p) n \<noteq> None \<longleftrightarrow> n \<in> {''momentum'', ''mean_reversion'', ''breakout'', ''trend_following''}" for n
    by (simp add: registry_of_def)
  have ids: "set (first_seen en @ shadow_names en sh) = set en \<union> set sh" by (auto simp: shadow_names_def)
  have ex: "list_ex (\<lambda>n. dget (registry_of p) n = None) (first_seen en @ shadow_names en sh)
      \<longleftrightarrow> \<not> (\<forall>n \<in> set en \<union> set sh. dget (registry_of p) n \<noteq> None)"
    unfolding list_ex_iff ids by auto
  have tot: "\<exists>ss. signals_loop env (registry_of p) f ?ns = Inr ss
    \<and> (\<forall>s \<in> set ss. signal_valid s \<and> sg_agreement_score s \<le> score_cap \<and> (sg_strategy s, sg_is_shadow s) \<in> set ?ns \<and> sg_instrument_key s = ft_instrument_key f)"
    if "\<forall>n \<in> set en \<union> set sh. dget (registry_of p) n \<noteq> None"
    by (rule signals_loop_total [OF assms]) (use that ids in \<open>auto simp: shadow_names_def\<close>)
  have "(\<exists>ss. generate_signals env (registry_of p) en sh f = Inr ss) \<longleftrightarrow>
      (\<forall>n \<in> set en \<union> set sh. n \<in> {''momentum'', ''mean_reversion'', ''breakout'', ''trend_following''})"
    unfolding names [symmetric] using tot ex by (auto simp: generate_signals_def Let_def)
  moreover have "signal_valid s \<and> sg_agreement_score s \<le> score_cap \<and> sg_is_shadow s = (sg_strategy s \<notin> set en) \<and> sg_strategy s \<in> set en \<union> set sh"
    if g: "generate_signals env (registry_of p) en sh f = Inr ss" "s \<in> set ss" for ss s
  proof -
    have k: "\<forall>n \<in> set en \<union> set sh. dget (registry_of p) n \<noteq> None" using ex g(1) by (auto simp: generate_signals_def Let_def split: if_splits)
    then have "signals_loop env (registry_of p) f ?ns = Inr ss" using g(1) ex by (simp add: generate_signals_def Let_def)
    with tot [OF k] g(2) show ?thesis by (auto simp: shadow_names_def)
  qed
  ultimately show ?thesis by (auto simp: list_all_iff)
qed

definition oversold :: features where
  "oversold =
     \<lparr>ft_instrument_key = ''NSE:EQ:INFY'', ft_bar_date = 20475, ft_bars = 60, ft_open = 95, ft_high = 96, ft_low = 89, ft_close = 90,
      ft_volume = 1000, ft_prev_close = Some 95, ft_rsi_14 = Some 25, ft_macd = None, ft_macd_signal = None, ft_macd_hist = Some (1 / 2),
      ft_adx_14 = None, ft_plus_di_14 = None, ft_minus_di_14 = None, ft_atr_14 = Some 2, ft_bb_upper = Some 110, ft_bb_middle = Some 100,
      ft_bb_lower = Some 91, ft_bb_percent = None, ft_ema = [], ft_sma = [(20, 100)], ft_adv20_shares = None, ft_adv20_inr = None,
      ft_sigma_daily = None\<rparr>"

definition sample_signal_env :: signal_env where
  "sample_signal_env = \<lparr>se_isoformat = (\<lambda>d. ''2026-01-22''), se_decision_id = ''d1'', se_generated_at = 0, se_stop_atr_mult = 2, se_target_atr_mult = 3\<rparr>"

subsection \<open>Proposals\<close>

text \<open>The policy proposes only valid long delivery entries. A proposal exists only for a BUY signal of an enabled strategy, with
  a known volatility and positive prices; its intent is a valid, unsized opening BUY in the policy's product with the
  deterministic id of its signal, a positive stop at or below the anchor price and a target at or above it. A shadow or SELL signal is
  always skipped, and nothing but a mismatched instrument or an unusable name raises.\<close>

theorem proposals_are_valid_entries:
  assumes "propose isof c s ins book_id price atr now arrival = r" "sg_instrument_key s = ins_key ins"
    and "0 < sg_stop_atr_mult s" "0 < sg_target_atr_mult s"
  shows "(case r of
      Inl e \<Rightarrow> e = ValueError
    | Inr (Skipped s' why) \<Rightarrow> s' = s
    | Inr (Proposed p) \<Rightarrow>
        \<not> sg_is_shadow s \<and> sg_side s = BUY \<and> pp_signal p = s \<and> atr = Some (pp_atr p) \<and> 0 < pp_atr p
        \<and> intent_valid (pp_intent p) \<and> i_kind (pp_intent p) = KOpen \<and> i_side (pp_intent p) = BUY \<and> i_quantity (pp_intent p) = None
        \<and> i_product (pp_intent p) = tp_product c \<and> \<not> i_reduce_only (pp_intent p) \<and> i_instrument (pp_intent p) = ins
        \<and> intent_id isof book_id (sg_strategy s) (ins_key ins) (sg_bar_date s) ''entry'' = Inr (i_intent_id (pp_intent p))
        \<and> (\<exists>stop target. i_stop_price (pp_intent p) = Some stop \<and> i_target_price (pp_intent p) = Some target \<and> 0 < stop
             \<and> stop \<le> dec28 (case arrival of Some a \<Rightarrow> a | None \<Rightarrow> price)
             \<and> dec28 (case arrival of Some a \<Rightarrow> a | None \<Rightarrow> price) \<le> target))
    \<and> (sg_is_shadow s \<or> sg_side s = SELL \<longrightarrow> (\<exists>why. r = Inr (Skipped s why)))"
proof (cases "sg_is_shadow s \<or> sg_side s \<noteq> BUY")
  case True
  then show ?thesis using assms(1,2) by (cases "sg_side s") (auto simp: propose_def)
next
  case False
  then have b: "\<not> sg_is_shadow s" "sg_side s = BUY" by simp_all
  define anchor where "anchor = (case arrival of Some a \<Rightarrow> a | None \<Rightarrow> price)"
  show ?thesis
  proof (cases "case atr of None \<Rightarrow> True | Some v \<Rightarrow> v \<le> 0 \<or> price \<le> 0 \<or> anchor \<le> 0
      \<or> dsub anchor (dmul (dec_of_float (sg_stop_atr_mult s)) v) \<le> 0")
    case True
    then have "r = Inr (Skipped s SkNoAtr)"
      using assms(1,2) b by (auto simp: propose_def Let_def simp flip: anchor_def split: option.splits)
    then show ?thesis using b by simp
  next
    case False
    then obtain v where v: "atr = Some v" "0 < v" "0 < price" "0 < anchor" "0 < dsub anchor (dmul (dec_of_float (sg_stop_atr_mult s)) v)"
      by (cases atr) auto
    define stop where "stop = dsub anchor (dmul (dec_of_float (sg_stop_atr_mult s)) v)"
    define target where "target = dadd anchor (dmul (dec_of_float (sg_target_atr_mult s)) v)"
    have r: "r = (case entry_intent isof c s ins book_id price stop target now of
        Inl e \<Rightarrow> Inl e | Inr i \<Rightarrow> Inr (Proposed \<lparr>pp_intent = i, pp_signal = s, pp_atr = v\<rparr>))"
      using assms(1,2) b v by (simp add: propose_def Let_def stop_def target_def flip: anchor_def)
    have "0 \<le> dmul (dec_of_float (sg_stop_atr_mult s)) v" "0 \<le> dmul (dec_of_float (sg_target_atr_mult s)) v"
      using v(2) assms(3,4) by (simp_all add: dmul_def dec28_nonneg dec_of_float_nonneg)
    then have st: "stop \<le> dec28 anchor" "dec28 anchor \<le> target" by (simp_all add: stop_def target_def dsub_def dadd_def dec28_mono)
    have err: "e = ValueError" if "intent_id isof bk nm k d l = Inl e" for bk nm k d l e
      using that by (auto simp: intent_id_def split: if_splits)
    show ?thesis
    proof (cases "entry_intent isof c s ins book_id price stop target now")
      case (Inl e)
      then have "e = ValueError" using err by (auto simp: entry_intent_def Let_def split: sum.splits if_splits)
      then show ?thesis using r Inl b by simp
    next
      case (Inr i)
      then have "intent_valid i \<and> i_kind i = KOpen \<and> i_side i = BUY \<and> i_quantity i = None \<and> i_product i = tp_product c \<and> \<not> i_reduce_only i
          \<and> i_instrument i = ins \<and> i_stop_price i = Some stop \<and> i_target_price i = Some target
          \<and> intent_id isof book_id (sg_strategy s) (ins_key ins) (sg_bar_date s) ''entry'' = Inr (i_intent_id i)"
        by (auto simp: entry_intent_def Let_def split: sum.splits if_splits)
      then show ?thesis using r Inr b v st by (simp add: stop_def flip: anchor_def)
    qed
  qed
qed

definition buy_signal :: signal where
  "buy_signal =
     \<lparr>sg_signal_id = ''s1'', sg_decision_id = ''d1'', sg_instrument_key = ''NSE:EQ:INFY'', sg_strategy = ''momentum'', sg_side = BUY,
      sg_bar_date = 20475, sg_agreement_score = 1 / 2, sg_stop_atr_mult = 2, sg_target_atr_mult = 3, sg_is_shadow = False, sg_generated_at = 0\<rparr>"

definition sample_policy :: policy_config where
  "sample_policy =
     \<lparr>tp_k_stop_atr = 2, tp_k_target_atr = 3, tp_k_trail_atr = Some 2, tp_max_hold_days = 10, tp_partial_at_r = None,
      tp_partial_fraction = 1 / 2, tp_product = CNC\<rparr>"

theorem proposals_are_valid_entries_witness:
  "\<exists>p. propose (\<lambda>d. ''2026-01-22'') sample_policy buy_signal (nse_equity ''INFY'') ''A'' 100 (Some 5) 0 (Some 101) = Inr (Proposed p)
     \<and> intent_valid (pp_intent p) \<and> i_stop_price (pp_intent p) = Some 91"
proof -
  let ?r = "propose (\<lambda>d. ''2026-01-22'') sample_policy buy_signal (nse_equity ''INFY'') ''A'' 100 (Some 5) 0 (Some 101)"
  have "case ?r of Inr (Proposed p) \<Rightarrow> i_stop_price (pp_intent p) = Some 91 | _ \<Rightarrow> False" by code_simp
  then obtain p where p: "?r = Inr (Proposed p)" "i_stop_price (pp_intent p) = Some 91" by (auto split: sum.splits policy_outcome.splits)
  from proposals_are_valid_entries [OF p(1)] p show ?thesis by (simp add: buy_signal_def nse_equity_def)
qed

end
