(* ===== verification/Decision.thy ===== *)
theory Decision
  imports Strategy_Props Exit_Props "HOL-Library.Multiset"
begin

section \<open>The decision cycle\<close>

text \<open>
  \<^verbatim>\<open>src/decision/engine.py\<close>: one cycle from the settled bars to the submissions of every book. The market
  view is a parameter: per instrument the features of its settled series (or the exception of computing them) with the
  last close, whether the series lags, and the fresh quotes. An advisor is a function from the proposal to its
  verdict or its exception. The events of the cycle are kept in order; a disposition names its signal.
\<close>

subsection \<open>Types\<close>

datatype disposition =
    ShadowStrategy | RegimeGated | PolicySkipped | Vetoed | SubmittedD | RiskRejected | BrokerRejected | UnknownD

datatype decision_event =
    SignalGenerated signal
  | SignalDisposition signal string disposition "string option"
  | OrderIntentProposed order_intent
  | DecisionAlert string

record daily_series =
  dy_features :: "features result"
  dy_last_close :: rat

record market_view =
  mv_daily :: "string \<Rightarrow> daily_series option"
  mv_lagging :: "string \<Rightarrow> bool"
  mv_requote :: "string list \<Rightarrow> (string, quote) dict result"

record book_target =
  bt_exits :: exits
  bt_env :: exit_env
  bt_advisor :: "(proposal \<Rightarrow> features \<Rightarrow> verdict result) option"

record decision_config =
  dc_enabled :: "string list"
  dc_shadow :: "string list"
  dc_regime_gates :: "(string, regime list) dict"

datatype cycle_skip =
    NoHistory | Lagging | SignalError py_error | RegimeSkip "regime option" | PolicySkip skip_reason

record decision_env =
  de_config :: decision_config
  de_market :: market_view
  de_policy :: policy_config
  de_known :: "(string, strategy) dict"
  de_isoformat :: "date \<Rightarrow> string"
  de_new_id :: "string \<Rightarrow> string"
  de_now :: ts

record cycle =
  cy_signals :: "signal list"
  cy_skipped :: "(string, cycle_skip) dict"
  cy_proposals :: "proposal list"
  cy_vetoed :: "proposal list"
  cy_submitted :: "(proposal \<times> submit_status) list"
  cy_events :: "decision_event list"
  cy_books :: "(string, book_target) dict"

definition books_ok :: "(string, book_target) dict \<Rightarrow> bool" where
  "books_ok books = (books \<noteq> [] \<and> distinct (map fst books) \<and> list_all (\<lambda>(b, t). om_book_id (xm_oms (bt_exits t)) = b) books)"

definition new_cycle :: "(string, book_target) dict \<Rightarrow> cycle" where
  "new_cycle books =
     \<lparr>cy_signals = [], cy_skipped = [], cy_proposals = [], cy_vetoed = [], cy_submitted = [], cy_events = [], cy_books = books\<rparr>"

definition cy_emit :: "decision_event \<Rightarrow> cycle \<Rightarrow> cycle" where
  "cy_emit e c = c\<lparr>cy_events := cy_events c @ [e]\<rparr>"

definition cy_skip :: "string \<Rightarrow> cycle_skip \<Rightarrow> cycle \<Rightarrow> cycle" where
  "cy_skip k why c = c\<lparr>cy_skipped := dset k why (cy_skipped c)\<rparr>"

definition dispose :: "string \<Rightarrow> signal \<Rightarrow> disposition \<Rightarrow> string option \<Rightarrow> cycle \<Rightarrow> cycle" where
  "dispose b s d coid c = cy_emit (SignalDisposition s b d coid) c"

definition dispose_all :: "signal \<Rightarrow> disposition \<Rightarrow> cycle \<Rightarrow> cycle" where
  "dispose_all s d c = fold (\<lambda>b. dispose b s d None) (map fst (cy_books c)) c"

subsection \<open>Signals\<close>

definition find_signals :: "decision_env \<Rightarrow> instrument \<Rightarrow> cycle \<Rightarrow> cycle \<times> (features \<times> signal list) option" where
  "find_signals env ins c =
     (let k = ins_key ins; mk = de_market env; cf = de_config env
      in case mv_daily mk k of
           None \<Rightarrow> (cy_skip k NoHistory c, None)
         | Some series \<Rightarrow>
             (if mv_lagging mk k then (cy_skip k Lagging c, None)
              else let failed = (\<lambda>e. (cy_emit (DecisionAlert ''decision_symbol_failed'') (cy_skip k (SignalError e) c), None))
                   in case dy_features series of
                        Inl e \<Rightarrow> failed e
                      | Inr f \<Rightarrow>
                          (case generate_signals
                                  \<lparr>se_isoformat = de_isoformat env, se_decision_id = de_new_id env k, se_generated_at = de_now env,
                                   se_stop_atr_mult = tp_k_stop_atr (de_policy env), se_target_atr_mult = tp_k_target_atr (de_policy env)\<rparr>
                                  (de_known env) (dc_enabled cf) (dc_shadow cf) f of
                             Inl e \<Rightarrow> failed e
                           | Inr ss \<Rightarrow> (c, Some (f, ss)))))"

type_synonym candidate = "signal \<times> instrument"

definition take_signal :: "decision_env \<Rightarrow> regime option \<Rightarrow> instrument \<Rightarrow> signal \<Rightarrow> cycle \<times> candidate list \<Rightarrow> cycle \<times> candidate list" where
  "take_signal env reg ins s r =
     (case r of (c, cands) \<Rightarrow>
        let c1 = (cy_emit (SignalGenerated s) c)\<lparr>cy_signals := cy_signals c @ [s]\<rparr>
        in if sg_is_shadow s then (dispose_all s ShadowStrategy c1, cands)
           else if \<not> regime_allows (sg_strategy s) reg (dc_regime_gates (de_config env))
           then (dispose_all s RegimeGated (cy_skip (sg_signal_id s) (RegimeSkip reg) c1), cands)
           else (c1, cands @ [(s, ins)]))"

fun scan_universe ::
  "decision_env \<Rightarrow> regime option \<Rightarrow> instrument list \<Rightarrow> (string, features) dict \<Rightarrow> cycle \<times> candidate list
    \<Rightarrow> (string, features) dict \<times> cycle \<times> candidate list" where
  "scan_universe env reg [] fs r = (fs, r)"
| "scan_universe env reg (ins # universe) fs (c, cands) =
     (case find_signals env ins c of
        (c1, None) \<Rightarrow> scan_universe env reg universe fs (c1, cands)
      | (c1, Some (f, ss)) \<Rightarrow>
          scan_universe env reg universe (dset (ins_key ins) f fs) (fold (take_signal env reg ins) ss (c1, cands)))"

definition requote :: "decision_env \<Rightarrow> string list \<Rightarrow> cycle \<Rightarrow> cycle \<times> (string, quote) dict" where
  "requote env keys c =
     (case mv_requote (de_market env) keys of
        Inr qs \<Rightarrow> (c, qs)
      | Inl e \<Rightarrow> (cy_emit (DecisionAlert ''decision_requote_failed'') c, []))"

subsection \<open>Per book\<close>

text \<open>A feature that is missing raises \<open>KeyError\<close>; the close falls back to zero, which the policy skips.\<close>

definition propose_for ::
  "decision_env \<Rightarrow> string \<Rightarrow> (string, features) dict \<Rightarrow> (string, quote) dict \<Rightarrow> candidate \<Rightarrow> policy_outcome result" where
  "propose_for env b fs qs cand =
     (case cand of (s, ins) \<Rightarrow>
        let k = ins_key ins;
            close = (case mv_daily (de_market env) k of None \<Rightarrow> 0 | Some series \<Rightarrow> dec_of_float (dy_last_close series));
            arrival = map_option (\<lambda>q. dec_of_float (q_ltp q)) (dget qs k)
        in case dget fs k of
             None \<Rightarrow> Inl KeyError
           | Some f \<Rightarrow>
               propose (de_isoformat env) (de_policy env) s ins b close (map_option dec_of_float (truthy (ft_atr_14 f))) (de_now env) arrival)"

fun propose_all ::
  "decision_env \<Rightarrow> string \<Rightarrow> (string, features) dict \<Rightarrow> (string, quote) dict \<Rightarrow> candidate list \<Rightarrow> proposal list \<Rightarrow> cycle
    \<Rightarrow> cycle \<times> proposal list result" where
  "propose_all env b fs qs [] ps c = (c, Inr ps)"
| "propose_all env b fs qs (cand # cands) ps c =
     (case propose_for env b fs qs cand of
        Inl e \<Rightarrow> (c, Inl e)
      | Inr (Skipped s why) \<Rightarrow>
          propose_all env b fs qs cands ps
            (dispose b (fst cand) PolicySkipped None (cy_skip (sg_signal_id (fst cand)) (PolicySkip why) c))
      | Inr (Proposed p) \<Rightarrow>
          propose_all env b fs qs cands (ps @ [p]) (cy_emit (OrderIntentProposed (pp_intent p)) c))"

definition proposal_rank :: "proposal \<Rightarrow> rat \<times> string \<times> string" where
  "proposal_rank p = (- sg_agreement_score (pp_signal p), i_key (pp_intent p), i_strategy (pp_intent p))"

definition is_vetoed :: "book_target \<Rightarrow> proposal \<Rightarrow> features \<Rightarrow> bool" where
  "is_vetoed t p f =
     (case bt_advisor t of
        None \<Rightarrow> False
      | Some adv \<Rightarrow> (case adv p f of Inl e \<Rightarrow> False | Inr v \<Rightarrow> v = VETO))"

fun disposition_of :: "submit_status \<Rightarrow> disposition" where
  "disposition_of StSubmitted = SubmittedD"
| "disposition_of StDuplicate = SubmittedD"
| "disposition_of StBlocked = RiskRejected"
| "disposition_of StRejected = BrokerRejected"
| "disposition_of StUnknown = UnknownD"

definition set_exits :: "string \<Rightarrow> exits \<Rightarrow> cycle \<Rightarrow> cycle" where
  "set_exits b x c =
     (case dget (cy_books c) b of None \<Rightarrow> c | Some t \<Rightarrow> c\<lparr>cy_books := dset b (t\<lparr>bt_exits := x\<rparr>) (cy_books c)\<rparr>)"

text \<open>A blocked submission has no order, so its disposition has no order id.\<close>

definition submit_proposal :: "string \<Rightarrow> features \<Rightarrow> proposal \<Rightarrow> cycle \<Rightarrow> cycle \<times> (broker_error + unit)" where
  "submit_proposal b f p c =
     (case dget (cy_books c) b of
        None \<Rightarrow> (c, Inl (OtherError KeyError))
      | Some t \<Rightarrow>
          (let s = pp_signal p; i = pp_intent p; env = bt_env t
           in if is_vetoed t p f then (dispose b s Vetoed None (c\<lparr>cy_vetoed := cy_vetoed c @ [p]\<rparr>), Inr ())
              else case expect_entry (xe_coid env) i (pp_atr p) (sg_bar_date s) (bt_exits t) of
                (x1, Inl e) \<Rightarrow> (set_exits b x1 c, Inl (OtherError e))
              | (x1, Inr u) \<Rightarrow>
                  (case exits_submit env i x1 of
                     (x2, Inl e) \<Rightarrow> (set_exits b x2 c, Inl e)
                   | (x2, Inr st) \<Rightarrow>
                       (let c1 = (set_exits b x2 c)\<lparr>cy_submitted := cy_submitted c @ [(p, st)]\<rparr>
                        in (dispose b s (disposition_of st) (if st = StBlocked then None else Some (xe_coid env (i_intent_id i))) c1, Inr ())))))"

fun submit_ranked :: "string \<Rightarrow> (string, features) dict \<Rightarrow> proposal list \<Rightarrow> cycle \<Rightarrow> cycle \<times> (broker_error + unit)" where
  "submit_ranked b fs [] c = (c, Inr ())"
| "submit_ranked b fs (p # ps) c =
     (case dget fs (i_key (pp_intent p)) of
        None \<Rightarrow> (c, Inl (OtherError KeyError))
      | Some f \<Rightarrow>
          (case submit_proposal b f p c of
             (c1, Inl e) \<Rightarrow> (c1, Inl e)
           | (c1, Inr u) \<Rightarrow> submit_ranked b fs ps c1))"

fun run_books ::
  "decision_env \<Rightarrow> (string, features) dict \<Rightarrow> (string, quote) dict \<Rightarrow> candidate list \<Rightarrow> string list \<Rightarrow> cycle
    \<Rightarrow> cycle \<times> (broker_error + unit)" where
  "run_books env fs qs cands [] c = (c, Inr ())"
| "run_books env fs qs cands (b # bs) c =
     (case propose_all env b fs qs cands [] c of
        (c1, Inl e) \<Rightarrow> (c1, Inl (OtherError e))
      | (c1, Inr ps) \<Rightarrow>
          (case submit_ranked b fs (sort_key proposal_rank ps) (c1\<lparr>cy_proposals := cy_proposals c1 @ ps\<rparr>) of
             (c2, Inl e) \<Rightarrow> (c2, Inl e)
           | (c2, Inr u) \<Rightarrow> run_books env fs qs cands bs c2))"

definition run_cycle :: "decision_env \<Rightarrow> instrument list \<Rightarrow> regime option \<Rightarrow> (string, book_target) dict \<Rightarrow> cycle \<times> (broker_error + unit)" where
  "run_cycle env universe reg books =
     (case scan_universe env reg universe [] (new_cycle books, []) of
        (fs, c, cands) \<Rightarrow>
          if cands = [] then (c, Inr ())
          else case requote env (remdups (map (\<lambda>(s, ins). ins_key ins) cands)) c of
                 (c1, qs) \<Rightarrow> run_books env fs qs cands (map fst books) c1)"

subsection \<open>Every signal is disposed of once per book\<close>

fun disposed :: "string \<Rightarrow> decision_event \<Rightarrow> signal list" where
  "disposed b (SignalDisposition s b' d coid) = (if b' = b then [s] else [])"
| "disposed b e = []"

definition disposals :: "string \<Rightarrow> cycle \<Rightarrow> signal list" where
  "disposals b c = concat (map (disposed b) (cy_events c))"

lemma disposals_simps [simp]:
  "disposals b (cy_emit (SignalGenerated s) c) = disposals b c"
  "disposals b (cy_emit (OrderIntentProposed i) c) = disposals b c"
  "disposals b (cy_emit (DecisionAlert k) c) = disposals b c"
  "disposals b (cy_skip k w c) = disposals b c"
  "disposals b (c\<lparr>cy_signals := ss\<rparr>) = disposals b c" "disposals b (c\<lparr>cy_proposals := ps\<rparr>) = disposals b c"
  "disposals b (c\<lparr>cy_vetoed := ps\<rparr>) = disposals b c" "disposals b (c\<lparr>cy_submitted := sb\<rparr>) = disposals b c"
  "disposals b (set_exits b' x c) = disposals b c"
  "disposals b (dispose b' s d coid c) = disposals b c @ (if b' = b then [s] else [])"
  by (simp_all add: disposals_def cy_emit_def cy_skip_def set_exits_def dispose_def split: option.split)

lemma cycle_simps [simp]:
  "cy_signals (cy_emit e c) = cy_signals c" "cy_books (cy_emit e c) = cy_books c"
  "cy_signals (cy_skip k w c) = cy_signals c" "cy_books (cy_skip k w c) = cy_books c"
  "cy_signals (dispose b s d coid c) = cy_signals c" "cy_books (dispose b s d coid c) = cy_books c"
  "cy_signals (set_exits b x c) = cy_signals c"
  by (simp_all add: cy_emit_def cy_skip_def dispose_def set_exits_def split: option.split)

lemma dispose_fold:
  "cy_signals (fold (\<lambda>b. dispose b s d None) bs c) = cy_signals c \<and> cy_books (fold (\<lambda>b. dispose b s d None) bs c) = cy_books c
   \<and> disposals b' (fold (\<lambda>b. dispose b s d None) bs c) = disposals b' c @ replicate (count_list bs b') s"
proof (induction bs arbitrary: c)
  case (Cons b bs)
  then show ?case by (simp add: replicate_append_same)
qed simp

lemma count_list_distinct: "distinct xs \<Longrightarrow> count_list xs b = (if b \<in> set xs then 1 else 0)"
  by (induction xs) auto

lemma dispose_all_effect:
  assumes "distinct (map fst (cy_books c))" "b \<in> set (map fst (cy_books c))"
  shows "disposals b (dispose_all s d c) = disposals b c @ [s]"
proof -
  have "count_list (map fst (cy_books c)) b = 1" using assms by (simp add: count_list_distinct)
  then show ?thesis using dispose_fold [of s d "map fst (cy_books c)" c b] by (simp add: dispose_all_def)
qed

text \<open>\<open>balanced b\<close>: what book \<open>b\<close> has disposed of, with the candidates still open, are the signals so far.\<close>

definition balanced :: "string \<Rightarrow> candidate list \<Rightarrow> cycle \<Rightarrow> bool" where
  "balanced b cands c = (mset (disposals b c) + mset (map fst cands) = mset (cy_signals c))"

definition books_known :: "string list \<Rightarrow> cycle \<Rightarrow> bool" where
  "books_known bs c = (map fst (cy_books c) = bs \<and> distinct bs)"

lemma take_signal_balanced:
  assumes "books_known bs c" "b \<in> set bs" "balanced b cands c" "take_signal env reg ins s (c, cands) = (c', cands')"
  shows "books_known bs c' \<and> balanced b cands' c'"
proof -
  have k: "distinct (map fst (cy_books c))" "b \<in> set (map fst (cy_books c))" using assms(1,2) by (auto simp: books_known_def)
  define c1 where "c1 = (cy_emit (SignalGenerated s) c)\<lparr>cy_signals := cy_signals c @ [s]\<rparr>"
  have c1: "cy_books c1 = cy_books c" "cy_signals c1 = cy_signals c @ [s]" "disposals b c1 = disposals b c" for b by (simp_all add: c1_def)
  have all: "disposals b (dispose_all s d c2) = disposals b c2 @ [s]" "cy_books (dispose_all s d c2) = cy_books c2" "cy_signals (dispose_all s d c2) = cy_signals c2"
    if "cy_books c2 = cy_books c" for d c2
    using dispose_all_effect [of c2 b s d] dispose_fold [of s d "map fst (cy_books c2)" c2 b] k that by (simp_all add: dispose_all_def)
  consider "c' = dispose_all s ShadowStrategy c1" "cands' = cands"
    | "c' = dispose_all s RegimeGated (cy_skip (sg_signal_id s) (RegimeSkip reg) c1)" "cands' = cands"
    | "c' = c1" "cands' = cands @ [(s, ins)]"
    using assms(4) by (auto simp: take_signal_def Let_def c1_def split: if_splits)
  then show ?thesis
    using assms(1,3) c1 all [of c1] all [of "cy_skip (sg_signal_id s) (RegimeSkip reg) c1"] by cases (auto simp: books_known_def balanced_def)
qed

lemma take_signals_balanced:
  assumes "books_known bs c" "b \<in> set bs" "balanced b cands c" "fold (take_signal env reg ins) ss (c, cands) = (c', cands')"
  shows "books_known bs c' \<and> balanced b cands' c'"
  using assms
proof (induction ss arbitrary: c cands)
  case (Cons s ss)
  obtain c1 cands1 where t: "take_signal env reg ins s (c, cands) = (c1, cands1)" by fastforce
  with take_signal_balanced [OF Cons.prems(1,2,3) t] Cons show ?case by simp blast
qed simp

lemma find_signals_keeps:
  "find_signals env ins c = (c', r) \<Longrightarrow> cy_books c' = cy_books c \<and> cy_signals c' = cy_signals c \<and> disposals b c' = disposals b c"
  by (auto simp: find_signals_def Let_def split: option.splits sum.splits if_splits)

lemma scan_universe_balanced:
  assumes "books_known bs c" "b \<in> set bs" "balanced b cands c" "scan_universe env reg universe fs (c, cands) = (fs', c', cands')"
  shows "books_known bs c' \<and> balanced b cands' c'"
  using assms
proof (induction universe arbitrary: fs c cands)
  case (Cons ins universe)
  obtain c1 r where f: "find_signals env ins c = (c1, r)" by fastforce
  have c1: "books_known bs c1" "balanced b cands c1"
    using Cons.prems(1,3) find_signals_keeps [OF f, of b] by (simp_all add: books_known_def balanced_def)
  show ?case
  proof (cases r)
    case None
    then show ?thesis using Cons f c1 by simp
  next
    case (Some p)
    obtain g ss where p: "p = (g, ss)" by fastforce
    obtain c2 cands2 where t: "fold (take_signal env reg ins) ss (c1, cands) = (c2, cands2)" by fastforce
    show ?thesis using take_signals_balanced [OF c1(1) Cons.prems(2) c1(2) t] Cons f Some p t by simp blast
  qed
qed simp

lemma propose_for_signal: "propose_for env b fs qs cand = Inr (Proposed p) \<Longrightarrow> pp_signal p = fst cand"
  by (auto simp: propose_for_def propose_def Let_def split: prod.splits option.splits if_splits sum.splits)

lemma propose_all_effect:
  assumes "propose_all env b fs qs cands ps c = (c', Inr ps')"
  shows "cy_books c' = cy_books c \<and> cy_signals c' = cy_signals c
    \<and> mset (disposals b c') + mset (map pp_signal ps') = mset (disposals b c) + mset (map pp_signal ps) + mset (map fst cands)
    \<and> (\<forall>b'. b' \<noteq> b \<longrightarrow> disposals b' c' = disposals b' c)"
  using assms
proof (induction cands arbitrary: ps c)
  case (Cons cand cands)
  obtain oc where oc: "propose_for env b fs qs cand = Inr oc" using Cons.prems by (auto split: sum.splits)
  show ?case
  proof (cases oc)
    case (Proposed p)
    then show ?thesis using Cons oc propose_for_signal [of env b fs qs cand p] by fastforce
  next
    case (Skipped s why)
    then show ?thesis using Cons.IH [of ps] Cons.prems oc by fastforce
  qed
qed simp

lemma set_exits_books: "map fst (cy_books (set_exits b x c)) = map fst (cy_books c)"
  by (auto simp: set_exits_def update_keys split: option.splits dest: map_of_SomeD) (metis domIff map_of_eq_None_iff option.distinct(1) image_set)

lemma submit_proposal_effect:
  assumes "submit_proposal b f p c = (c', Inr u)"
  shows "map fst (cy_books c') = map fst (cy_books c) \<and> cy_signals c' = cy_signals c
    \<and> disposals b' c' = disposals b' c @ (if b = b' then [pp_signal p] else [])"
proof -
  obtain t where t: "dget (cy_books c) b = Some t" using assms by (auto simp: submit_proposal_def split: option.splits)
  show ?thesis
  proof (cases "is_vetoed t p f")
    case True
    then show ?thesis using assms t by (auto simp: submit_proposal_def Let_def)
  next
    case False
    obtain x1 r1 where e: "expect_entry (xe_coid (bt_env t)) (pp_intent p) (pp_atr p) (sg_bar_date (pp_signal p)) (bt_exits t) = (x1, r1)" by fastforce
    obtain x2 r2 where s: "exits_submit (bt_env t) (pp_intent p) x1 = (x2, r2)" by fastforce
    show ?thesis using assms t False e s by (cases r1; cases r2) (auto simp: submit_proposal_def Let_def set_exits_books)
  qed
qed

lemma submit_ranked_effect:
  assumes "submit_ranked b fs ps c = (c', Inr u)"
  shows "map fst (cy_books c') = map fst (cy_books c) \<and> cy_signals c' = cy_signals c
    \<and> disposals b' c' = disposals b' c @ (if b = b' then map pp_signal ps else [])"
  using assms
proof (induction ps arbitrary: c)
  case (Cons p ps)
  obtain f where f: "dget fs (i_key (pp_intent p)) = Some f" using Cons.prems by (auto split: option.splits)
  obtain c1 r where c1: "submit_proposal b f p c = (c1, r)" by fastforce
  then obtain v where r: "r = Inr v" using Cons.prems f by (cases r) auto
  show ?case using Cons.IH [of c1] Cons.prems f c1 r submit_proposal_effect [of b f p c c1 v b'] by auto
qed simp

lemma run_books_effect:
  assumes "run_books env fs qs cands bs c = (c', Inr u)" "distinct bs"
  shows "cy_signals c' = cy_signals c
    \<and> mset (disposals b c') = mset (disposals b c) + (if b \<in> set bs then mset (map fst cands) else {#})"
  using assms
proof (induction bs arbitrary: c)
  case (Cons b1 bs)
  obtain c1 r1 where p: "propose_all env b1 fs qs cands [] c = (c1, r1)" by fastforce
  then obtain ps where ps: "r1 = Inr ps" using Cons.prems by (cases r1) auto
  obtain c2 r2 where s: "submit_ranked b1 fs (sort_key proposal_rank ps) (c1\<lparr>cy_proposals := cy_proposals c1 @ ps\<rparr>) = (c2, r2)" by fastforce
  then obtain v where r2: "r2 = Inr v" using Cons.prems p ps by (cases r2) auto
  note 1 = propose_all_effect [OF p [unfolded ps]] and 2 = submit_ranked_effect [OF s [unfolded r2], of b]
  have m: "mset (map pp_signal (sort_key proposal_rank ps)) = mset (map pp_signal ps)" by (simp only: mset_map mset_sort)
  have 3: "cy_signals c' = cy_signals c2 \<and> mset (disposals b c') = mset (disposals b c2) + (if b \<in> set bs then mset (map fst cands) else {#})"
    using Cons p ps s r2 by simp
  show ?case using 1 2 3 m Cons.prems(2) by (cases "b = b1") auto
qed simp

text \<open>C21: Every signal is accounted for in every book. In a cycle that returns, each book has recorded exactly one
  disposition for each signal of the cycle, whatever the regime, the policy, the advisors, the gates and the brokers
  decide.\<close>

theorem every_signal_disposed_once:
  assumes "books_ok books" "run_cycle env universe reg books = (c, Inr u)" "b \<in> set (map fst books)"
  shows "mset (disposals b c) = mset (cy_signals c)"
proof -
  obtain fs c0 cands where s: "scan_universe env reg universe [] (new_cycle books, []) = (fs, c0, cands)" by (metis prod_cases3)
  let ?bs = "map fst books"
  have "books_known ?bs (new_cycle books)" "balanced b [] (new_cycle books)"
    using assms(1) by (simp_all add: books_ok_def books_known_def new_cycle_def balanced_def disposals_def)
  then have k: "books_known ?bs c0" "balanced b cands c0" using scan_universe_balanced [OF _ assms(3) _ s] by blast+
  show ?thesis
  proof (cases "cands = []")
    case True
    then show ?thesis using assms(2) s k(2) by (simp add: run_cycle_def balanced_def)
  next
    case False
    obtain c1 qs where q: "requote env (remdups (map (\<lambda>(s, ins). ins_key ins) cands)) c0 = (c1, qs)" by fastforce
    then have c1: "cy_signals c1 = cy_signals c0" "disposals b c1 = disposals b c0" by (auto simp: requote_def split: sum.splits)
    have "run_books env fs qs cands ?bs c1 = (c, Inr u)" using assms(2) s False q by (simp add: run_cycle_def)
    from run_books_effect [OF this, of b] k assms(3) c1 show ?thesis by (simp add: books_known_def balanced_def)
  qed
qed

subsection \<open>What is submitted\<close>

text \<open>The candidates are enabled signals that the regime lets through, in the universe with their features.\<close>

definition candidate_ok :: "decision_env \<Rightarrow> regime option \<Rightarrow> candidate \<Rightarrow> bool" where
  "candidate_ok env reg cand =
     (sg_strategy (fst cand) \<in> set (dc_enabled (de_config env)) \<and> \<not> sg_is_shadow (fst cand) \<and> regime_allows (sg_strategy (fst cand)) reg (dc_regime_gates (de_config env)))"

text \<open>The registry files every strategy under its name, so a signal that is not marked as shadow comes from an enabled one.\<close>

definition names_ok :: "(string, strategy) dict \<Rightarrow> bool" where
  "names_ok known = (\<forall>(n, st) \<in> set known. st_name st = n)"

lemma signals_loop_names:
  assumes "signals_loop env known f ns = Inr ss" "names_ok known" "s \<in> set ss"
  shows "(sg_strategy s, sg_is_shadow s) \<in> set ns"
  using assms(1,3)
proof (induction ns arbitrary: ss)
  case (Cons a ns)
  obtain n sh where a: "a = (n, sh)" by fastforce
  obtain st where st: "dget known n = Some st" using Cons.prems(1) a by (auto split: option.splits)
  then have n: "st_name st = n" using assms(2) by (auto simp: names_ok_def dest: map_of_SomeD)
  show ?case
    using Cons a st n by (auto simp: make_signal_def Let_def split: option.splits sum.splits if_splits)
qed simp

lemma find_signals_enabled:
  assumes "find_signals env ins c = (c1, Some (f, ss))" "names_ok (de_known env)" "s \<in> set ss" "\<not> sg_is_shadow s"
  shows "sg_strategy s \<in> set (dc_enabled (de_config env))"
proof -
  obtain senv where "generate_signals senv (de_known env) (dc_enabled (de_config env)) (dc_shadow (de_config env)) f = Inr ss"
    using assms(1) by (auto simp: find_signals_def Let_def split: option.splits sum.splits if_splits)
  then have "signals_loop senv (de_known env) f (map (\<lambda>n. (n, False)) (first_seen (dc_enabled (de_config env)))
      @ map (\<lambda>n. (n, True)) (shadow_names (dc_enabled (de_config env)) (dc_shadow (de_config env)))) = Inr ss"
    by (auto simp: generate_signals_def Let_def split: if_splits)
  from signals_loop_names [OF this assms(2,3)] assms(4) show ?thesis by auto
qed

definition features_ok :: "decision_env \<Rightarrow> (string, features) dict \<Rightarrow> bool" where
  "features_ok env fs =
     (\<forall>(k, f) \<in> set fs. \<not> mv_lagging (de_market env) k \<and> (\<exists>series. mv_daily (de_market env) k = Some series \<and> dy_features series = Inr f))"

lemma take_signal_candidates:
  assumes "take_signal env reg ins s (c, cands) = (c', cands')" "\<forall>cand \<in> set cands. candidate_ok env reg cand" "cy_submitted c = []"
    and "\<not> sg_is_shadow s \<Longrightarrow> sg_strategy s \<in> set (dc_enabled (de_config env))"
  shows "(\<forall>cand \<in> set cands'. candidate_ok env reg cand) \<and> cy_submitted c' = []"
proof -
  have "cy_submitted (fold (\<lambda>b. dispose b s d None) bs x) = cy_submitted x" for d bs x
    by (induction bs arbitrary: x) (simp_all add: dispose_def cy_emit_def)
  then show ?thesis using assms
    by (auto simp: take_signal_def candidate_ok_def Let_def dispose_all_def cy_emit_def cy_skip_def split: if_splits)
qed

lemma take_signals_candidates:
  assumes "fold (take_signal env reg ins) ss (c, cands) = (c', cands')" "\<forall>cand \<in> set cands. candidate_ok env reg cand" "cy_submitted c = []"
    and "\<forall>s \<in> set ss. \<not> sg_is_shadow s \<longrightarrow> sg_strategy s \<in> set (dc_enabled (de_config env))"
  shows "(\<forall>cand \<in> set cands'. candidate_ok env reg cand) \<and> cy_submitted c' = []"
  using assms
proof (induction ss arbitrary: c cands)
  case (Cons s ss)
  obtain c1 cands1 where t: "take_signal env reg ins s (c, cands) = (c1, cands1)" by fastforce
  have "(\<forall>cand \<in> set cands1. candidate_ok env reg cand) \<and> cy_submitted c1 = []" by (rule take_signal_candidates [OF t Cons.prems(2,3)]) (use Cons.prems(4) in simp)
  then show ?case using Cons.IH [of c1 cands1] Cons.prems(1,4) t by simp
qed simp

lemma scan_universe_candidates:
  assumes "scan_universe env reg universe fs (c, cands) = (fs', c', cands')"
    and "\<forall>cand \<in> set cands. candidate_ok env reg cand" "cy_submitted c = []" "features_ok env fs" "names_ok (de_known env)"
  shows "(\<forall>cand \<in> set cands'. candidate_ok env reg cand) \<and> cy_submitted c' = [] \<and> features_ok env fs'"
  using assms
proof (induction universe arbitrary: fs c cands)
  case (Cons ins universe)
  obtain c1 r where f: "find_signals env ins c = (c1, r)" by fastforce
  then have c1: "cy_submitted c1 = []" using Cons.prems(3)
    by (auto simp: find_signals_def Let_def cy_emit_def cy_skip_def split: option.splits sum.splits if_splits)
  show ?case
  proof (cases r)
    case None
    then show ?thesis using Cons f c1 by simp
  next
    case (Some p)
    obtain g ss where p: "p = (g, ss)" by fastforce
    obtain c2 cands2 where t: "fold (take_signal env reg ins) ss (c1, cands) = (c2, cands2)" by fastforce
    have 2: "(\<forall>cand \<in> set cands2. candidate_ok env reg cand) \<and> cy_submitted c2 = []" 
      by (rule take_signals_candidates [OF t Cons.prems(2) c1]) (use find_signals_enabled f Some p Cons.prems(5) in blast)
    have "\<not> mv_lagging (de_market env) (ins_key ins) \<and> (\<exists>series. mv_daily (de_market env) (ins_key ins) = Some series \<and> dy_features series = Inr g)"
      using f Some p by (auto simp: find_signals_def Let_def split: option.splits sum.splits if_splits)
    then have "features_ok env (dset (ins_key ins) g fs)" using Cons.prems(4) by (auto simp: features_ok_def dest!: set_dset)
    with Cons.IH [of "dset (ins_key ins) g fs" c2 cands2] 2 show ?thesis using Cons.prems(1,5) f Some p t by simp
  qed
qed simp

lemma take_signals_books: "cy_books (fst (fold (take_signal env reg ins) ss r)) = cy_books (fst r)"
proof (induction ss arbitrary: r)
  case (Cons s ss)
  have "cy_books (dispose_all s d c) = cy_books c" for d c
    using dispose_fold [of s d "map fst (cy_books c)" c] by (simp add: dispose_all_def)
  then show ?case using Cons by (cases r) (simp add: take_signal_def Let_def)
qed simp

lemma scan_books: "scan_universe env reg universe fs (c, cands) = (fs', c', cands') \<Longrightarrow> cy_books c' = cy_books c"
proof (induction universe arbitrary: fs c cands)
  case (Cons ins universe)
  obtain c1 r where f: "find_signals env ins c = (c1, r)" by fastforce
  have c1: "cy_books c1 = cy_books c" using find_signals_keeps [OF f] by simp
  show ?case
  proof (cases r)
    case (Some p)
    obtain g ss where p: "p = (g, ss)" by fastforce
    obtain c2 cands2 where t: "fold (take_signal env reg ins) ss (c1, cands) = (c2, cands2)" by fastforce
    have "cy_books c2 = cy_books c1" using take_signals_books [of env reg ins ss "(c1, cands)"] t by simp
    then show ?thesis using Cons.IH [of "dset (ins_key ins) g fs" c2 cands2] Cons.prems f Some p t c1 by simp
  qed (use Cons f c1 in auto)
qed simp

text \<open>What a submitted entry satisfies.\<close>

definition entry_ok :: "decision_env \<Rightarrow> regime option \<Rightarrow> (string, book_target) dict \<Rightarrow> proposal \<Rightarrow> bool" where
  "entry_ok env reg books p =
     (let s = pp_signal p; i = pp_intent p; k = i_key i
      in sg_strategy s \<in> set (dc_enabled (de_config env)) \<and> \<not> sg_is_shadow s \<and> sg_side s = BUY \<and> regime_allows (sg_strategy s) reg (dc_regime_gates (de_config env))
         \<and> intent_valid i \<and> i_kind i = KOpen \<and> i_side i = BUY \<and> i_product i = tp_product (de_policy env) \<and> i_quantity i = None
         \<and> \<not> mv_lagging (de_market env) k
         \<and> (\<exists>t series f. dget books (i_book_id i) = Some t \<and> mv_daily (de_market env) k = Some series \<and> dy_features series = Inr f
              \<and> \<not> is_vetoed t p f))"

definition proposal_ok :: "decision_env \<Rightarrow> regime option \<Rightarrow> string \<Rightarrow> proposal \<Rightarrow> bool" where
  "proposal_ok env reg b p =
     (let s = pp_signal p; i = pp_intent p
      in sg_strategy s \<in> set (dc_enabled (de_config env)) \<and> \<not> sg_is_shadow s \<and> sg_side s = BUY \<and> regime_allows (sg_strategy s) reg (dc_regime_gates (de_config env))
         \<and> intent_valid i \<and> i_kind i = KOpen \<and> i_side i = BUY \<and> i_product i = tp_product (de_policy env) \<and> i_quantity i = None \<and> i_book_id i = b)"

lemma propose_for_ok:
  assumes "propose_for env b fs qs cand = Inr (Proposed p)" "candidate_ok env reg cand"
  shows "proposal_ok env reg b p"
  using assms
  by (auto simp: propose_for_def propose_def entry_intent_def proposal_ok_def candidate_ok_def Let_def
      split: prod.splits option.splits if_splits sum.splits)

lemma propose_all_ok:
  assumes "propose_all env b fs qs cands ps c = (c', Inr ps')" "\<forall>cand \<in> set cands. candidate_ok env reg cand" "\<forall>p \<in> set ps. proposal_ok env reg b p"
  shows "(\<forall>p \<in> set ps'. proposal_ok env reg b p) \<and> cy_submitted c' = cy_submitted c"
  using assms
proof (induction cands arbitrary: ps c)
  case (Cons cand cands)
  obtain oc where oc: "propose_for env b fs qs cand = Inr oc" using Cons.prems by (auto split: sum.splits)
  show ?case
  proof (cases oc)
    case (Proposed p)
    then have "proposal_ok env reg b p" using propose_for_ok oc Cons.prems(2) by simp
    then show ?thesis using Cons.IH [of "ps @ [p]"] Cons.prems oc Proposed by (auto simp: cy_emit_def)
  next
    case (Skipped s why)
    then show ?thesis using Cons.IH [of ps] Cons.prems oc by (auto simp: dispose_def cy_emit_def cy_skip_def)
  qed
qed simp

text \<open>The exit manager of a book changes during the cycle, its advisor does not.\<close>

definition same_advisors :: "(string, book_target) dict \<Rightarrow> cycle \<Rightarrow> bool" where
  "same_advisors books c = (\<forall>b. map_option bt_advisor (dget (cy_books c) b) = map_option bt_advisor (dget books b))"

lemma is_vetoed_advisor: "bt_advisor t = bt_advisor t' \<Longrightarrow> is_vetoed t p f = is_vetoed t' p f"
  by (simp add: is_vetoed_def)

lemma set_exits_advisors: "same_advisors books c \<Longrightarrow> same_advisors books (set_exits b x c)"
  unfolding same_advisors_def set_exits_def by (auto simp: dget_dset split: option.splits) (metis option.map(2))

lemma submit_proposal_ok:
  assumes "submit_proposal b f p c = (c', r)" "same_advisors books c" "proposal_ok env reg b p"
    and "\<not> mv_lagging (de_market env) (i_key (pp_intent p))" "mv_daily (de_market env) (i_key (pp_intent p)) = Some series" "dy_features series = Inr f"
    and "\<forall>(q, st) \<in> set (cy_submitted c). entry_ok env reg books q"
  shows "same_advisors books c' \<and> (\<forall>(q, st) \<in> set (cy_submitted c'). entry_ok env reg books q)"
proof (cases "dget (cy_books c) b")
  case None
  then show ?thesis using assms(1,2,7) by (simp add: submit_proposal_def)
next
  case (Some t)
  then have "map_option bt_advisor (dget books b) = Some (bt_advisor t)"
    using assms(2) unfolding same_advisors_def by (metis option.map(2))
  then obtain t' where t': "dget books b = Some t'" "bt_advisor t' = bt_advisor t" by auto
  have keep: "same_advisors books (dispose b' s d o' y) = same_advisors books y" "cy_submitted (dispose b' s d o' y) = cy_submitted y"
    "same_advisors books (y\<lparr>cy_vetoed := vs\<rparr>) = same_advisors books y" "same_advisors books (y\<lparr>cy_submitted := ss\<rparr>) = same_advisors books y"
    "cy_submitted (set_exits b' x y) = cy_submitted y" for b' s d o' y vs ss x
    by (simp_all add: same_advisors_def dispose_def cy_emit_def set_exits_def split: option.split)
  show ?thesis
  proof (cases "is_vetoed t p f")
    case True
    then show ?thesis using assms(1,2,7) Some by (auto simp: submit_proposal_def Let_def keep)
  next
    case False
    have "i_book_id (pp_intent p) = b" using assms(3) by (simp add: proposal_ok_def Let_def)
    then have "entry_ok env reg books p"
      using assms(3-6) t' False is_vetoed_advisor [OF t'(2), of p f] by (auto simp: entry_ok_def proposal_ok_def Let_def)
    moreover obtain x1 r1 where e: "expect_entry (xe_coid (bt_env t)) (pp_intent p) (pp_atr p) (sg_bar_date (pp_signal p)) (bt_exits t) = (x1, r1)" by fastforce
    moreover obtain x2 r2 where s: "exits_submit (bt_env t) (pp_intent p) x1 = (x2, r2)" by fastforce
    ultimately show ?thesis using assms(1,2,7) Some False set_exits_advisors [OF assms(2)]
      by (cases r1; cases r2) (auto simp: submit_proposal_def Let_def keep)
  qed
qed

lemma submit_ranked_ok:
  assumes "submit_ranked b fs ps c = (c', r)" "same_advisors books c" "\<forall>p \<in> set ps. proposal_ok env reg b p" "features_ok env fs"
    and "\<forall>(q, st) \<in> set (cy_submitted c). entry_ok env reg books q"
  shows "same_advisors books c' \<and> (\<forall>(q, st) \<in> set (cy_submitted c'). entry_ok env reg books q)"
  using assms
proof (induction ps arbitrary: c)
  case (Cons p ps)
  show ?case
  proof (cases "dget fs (i_key (pp_intent p))")
    case None
    then show ?thesis using Cons.prems by simp
  next
    case (Some f)
    then obtain series where se: "\<not> mv_lagging (de_market env) (i_key (pp_intent p))" "mv_daily (de_market env) (i_key (pp_intent p)) = Some series"
      "dy_features series = Inr f" using Cons.prems(4) dget_in_set by (fastforce simp: features_ok_def)
    obtain c1 r1 where c1: "submit_proposal b f p c = (c1, r1)" by fastforce
    have "same_advisors books c1 \<and> (\<forall>(q, st) \<in> set (cy_submitted c1). entry_ok env reg books q)"
      by (rule submit_proposal_ok [OF c1 Cons.prems(2) _ se Cons.prems(5)]) (use Cons.prems(3) in simp)
    then show ?thesis using Cons.IH [of c1] Cons.prems Some c1 by (cases r1) auto
  qed
qed simp

lemma run_books_ok:
  assumes "run_books env fs qs cands bs c = (c', r)" "same_advisors books c" "features_ok env fs"
    and "\<forall>cand \<in> set cands. candidate_ok env reg cand" "\<forall>(q, st) \<in> set (cy_submitted c). entry_ok env reg books q"
  shows "\<forall>(q, st) \<in> set (cy_submitted c'). entry_ok env reg books q \<or> r \<noteq> Inr ()"
  using assms
proof (induction bs arbitrary: c)
  case (Cons b bs)
  obtain c1 r1 where p: "propose_all env b fs qs cands [] c = (c1, r1)" by fastforce
  show ?case
  proof (cases r1)
    case (Inl e)
    then show ?thesis using Cons.prems p by auto
  next
    case (Inr ps)
    have ps: "(\<forall>p \<in> set ps. proposal_ok env reg b p) \<and> cy_submitted c1 = cy_submitted c"
      by (rule propose_all_ok [OF p [unfolded Inr] Cons.prems(4)]) simp
    have adv: "same_advisors books c1" using Cons.prems(2) propose_all_effect [OF p [unfolded Inr]] by (simp add: same_advisors_def)
    obtain c2 r2 where s: "submit_ranked b fs (sort_key proposal_rank ps) (c1\<lparr>cy_proposals := cy_proposals c1 @ ps\<rparr>) = (c2, r2)" by fastforce
    have 2: "same_advisors books c2 \<and> (\<forall>(q, st) \<in> set (cy_submitted c2). entry_ok env reg books q)"
      by (rule submit_ranked_ok [OF s _ _ Cons.prems(3)]) (use adv ps Cons.prems(5) in \<open>simp_all add: same_advisors_def\<close>)
    then show ?thesis using Cons.IH [of c2] Cons.prems p Inr s by (cases r2) auto
  qed
qed auto

text \<open>C22: Nothing reaches an order manager but a checked entry. With a valid policy and a registry that files each strategy
  under its name, every proposal that a returning cycle submits comes from a BUY signal, not marked as shadow, of an enabled strategy that the
  regime gate lets through, on a series that does not lag; its intent is a valid unsized delivery (CNC) entry for one of
  the books; and the advisor of that book did not veto it. An advisor that fails vetoes nothing.\<close>

theorem cycle_submits_only_approved:
  assumes "run_cycle env universe reg books = (c, Inr u)" "(p, st) \<in> set (cy_submitted c)"
    and "names_ok (de_known env)" "policy_config_ok (de_policy env)"
  shows "entry_ok env reg books p \<and> sg_strategy (pp_signal p) \<in> set (dc_enabled (de_config env)) \<and> i_product (pp_intent p) = CNC"
proof -
  obtain fs c0 cands where s: "scan_universe env reg universe [] (new_cycle books, []) = (fs, c0, cands)" by (metis prod_cases3)
  have 0: "(\<forall>cand \<in> set cands. candidate_ok env reg cand) \<and> cy_submitted c0 = [] \<and> features_ok env fs"
    by (rule scan_universe_candidates [OF s]) (simp_all add: new_cycle_def features_ok_def assms(3))
  show ?thesis
  proof (cases "cands = []")
    case True
    then show ?thesis using assms(1,2) s 0 by (simp add: run_cycle_def)
  next
    case False
    obtain c1 qs where q: "requote env (remdups (map (\<lambda>(s, ins). ins_key ins) cands)) c0 = (c1, qs)" by fastforce
    have "cy_books c0 = books" using scan_books [OF s] by (simp add: new_cycle_def)
    then have c1: "same_advisors books c1" "cy_submitted c1 = []" using q 0
      by (auto simp: requote_def same_advisors_def cy_emit_def split: sum.splits)
    have "run_books env fs qs cands (map fst books) c1 = (c, Inr u)" using assms(1) s False q by (simp add: run_cycle_def)
    from run_books_ok [OF this c1(1), of reg] 0 c1(2) assms(2) have "entry_ok env reg books p" by auto
    with assms(4) show ?thesis by (auto simp: entry_ok_def Let_def policy_config_ok_def)
  qed
qed

subsection \<open>A sample cycle\<close>

definition sample_market :: market_view where
  "sample_market =
     \<lparr>mv_daily = (\<lambda>k. if k = ''NSE:EQ:INFY'' then Some \<lparr>dy_features = Inr oversold, dy_last_close = 90\<rparr> else None),
      mv_lagging = (\<lambda>k. False), mv_requote = (\<lambda>ks. Inr [(''NSE:EQ:INFY'', infy_quote 91)])\<rparr>"

definition sample_decisions :: decision_env where
  "sample_decisions =
     \<lparr>de_config = \<lparr>dc_enabled = [''momentum'', ''mean_reversion''], dc_shadow = [''breakout''], dc_regime_gates = []\<rparr>,
      de_market = sample_market, de_policy = sample_policy, de_known = registry_of default_params,
      de_isoformat = (\<lambda>d. ''2026-01-22''), de_new_id = (\<lambda>k. ''d'' @ k), de_now = 0\<rparr>"

definition sample_books :: "(string, book_target) dict" where
  "sample_books =
     [(''main'', \<lparr>bt_exits = exits0, bt_env = quiet_world,
        bt_advisor = Some (\<lambda>p f. if i_strategy (pp_intent p) = ''momentum'' then Inr VETO else Inl ValueError)\<rparr>)]"

definition sample_universe :: "instrument list" where
  "sample_universe = [nse_equity ''INFY'', nse_equity ''TCS'']"

lemma sample_cycle:
  "case run_cycle sample_decisions sample_universe None sample_books of
     (c, Inl e) \<Rightarrow> False
   | (c, Inr u) \<Rightarrow> map sg_strategy (disposals ''main'' c) = [''mean_reversion'', ''momentum'']
       \<and> map (\<lambda>(p, st). (sg_strategy (pp_signal p), st)) (cy_submitted c) = [(''mean_reversion'', StSubmitted)]
       \<and> map (\<lambda>p. sg_strategy (pp_signal p)) (cy_vetoed c) = [''momentum'']"
  by code_simp

lemma cycle_returnedE:
  fixes r :: "cycle \<times> (broker_error + unit)"
  assumes "case r of (c, Inl e) \<Rightarrow> False | (c, Inr u) \<Rightarrow> P c \<and> Q c \<and> R c"
  obtains c where "r = (c, Inr ())" "P c" "Q c" "R c"
  using assms by (cases r; cases "snd r") auto

lemmas sample_cycle_runs = cycle_returnedE [OF sample_cycle]

theorem every_signal_disposed_once_witness:
  "\<exists>c. run_cycle sample_decisions sample_universe None sample_books = (c, Inr ())
     \<and> mset (disposals ''main'' c) = mset (cy_signals c) \<and> length (cy_signals c) = 2"
proof -
  obtain c where c: "run_cycle sample_decisions sample_universe None sample_books = (c, Inr ())"
    "map sg_strategy (disposals ''main'' c) = [''mean_reversion'', ''momentum'']" by (rule sample_cycle_runs)
  have "books_ok sample_books" by (simp add: books_ok_def sample_books_def exits0_def new_exits_def sample_oms_def)
  moreover have "''main'' \<in> set (map fst sample_books)" by (simp add: sample_books_def)
  ultimately have m: "mset (disposals ''main'' c) = mset (cy_signals c)"
    using every_signal_disposed_once [OF _ c(1)] by blast
  have "length (disposals ''main'' c) = 2" using c(2) by (metis (no_types) length_Cons length_map list.size(3) numeral_2_eq_2)
  then have "length (cy_signals c) = 2" using m by (metis size_mset)
  then show ?thesis using c(1) m by blast
qed

theorem cycle_submits_only_approved_witness:
  "\<exists>c p. run_cycle sample_decisions sample_universe None sample_books = (c, Inr ())
     \<and> (p, StSubmitted) \<in> set (cy_submitted c) \<and> entry_ok sample_decisions None sample_books p"
proof -
  obtain c where c: "run_cycle sample_decisions sample_universe None sample_books = (c, Inr ())"
    "map (\<lambda>(p, st). (sg_strategy (pp_signal p), st)) (cy_submitted c) = [(''mean_reversion'', StSubmitted)]" by (rule sample_cycle_runs)
  then obtain p where "(p, StSubmitted) \<in> set (cy_submitted c)" by (auto simp: map_eq_Cons_conv)
  moreover have "names_ok (de_known sample_decisions)"
    by (simp add: names_ok_def sample_decisions_def registry_of_def)
  moreover have "policy_config_ok (de_policy sample_decisions)"
    by (simp add: sample_decisions_def sample_policy_def policy_config_ok_def exit_policy_ok_def exit_policy_of_def)
  ultimately show ?thesis using cycle_submits_only_approved [OF c(1)] c(1) by blast
qed

end
