(* ===== verification/Py_Text.thy ===== *)
theory Py_Text
  imports Py_Numeric
begin

text \<open>
  Python text as the sources use it, over the code points of Latin-1: \<^verbatim>\<open>str.strip\<close>, \<^verbatim>\<open>partition\<close>,
  \<^verbatim>\<open>split\<close>, \<^verbatim>\<open>startswith\<close>, \<^verbatim>\<open>isdigit\<close> and the conversion \<^verbatim>\<open>float(text)\<close>, with the
  infinities and the not-a-number value it can return, and \<^verbatim>\<open>timedelta(seconds=x)\<close>.
\<close>

section \<open>Characters and words\<close>

abbreviation code :: "char \<Rightarrow> nat" where
  "code c \<equiv> of_char c"

definition is_ws :: "char \<Rightarrow> bool" where
  "is_ws c = (let n = code c in n = 32 \<or> 9 \<le> n \<and> n \<le> 13 \<or> 28 \<le> n \<and> n \<le> 31 \<or> n = 133 \<or> n = 160)"

definition strip :: "string \<Rightarrow> string" where
  "strip s = rev (dropWhile is_ws (rev (dropWhile is_ws s)))"

definition starts_with :: "string \<Rightarrow> string \<Rightarrow> bool" where
  "starts_with p s = (take (length p) s = p)"

definition ends_with :: "string \<Rightarrow> string \<Rightarrow> bool" where
  "ends_with p s = starts_with (rev p) (rev s)"

definition partition_on :: "char \<Rightarrow> string \<Rightarrow> string \<times> bool \<times> string" where
  "partition_on c s = (takeWhile (\<lambda>x. x \<noteq> c) s, c \<in> set s, drop 1 (dropWhile (\<lambda>x. x \<noteq> c) s))"

fun split_on :: "char \<Rightarrow> string \<Rightarrow> string list" where
  "split_on c [] = [[]]"
| "split_on c (x # s) =
     (if x = c then [] # split_on c s
      else case split_on c s of w # ws \<Rightarrow> (x # w) # ws | [] \<Rightarrow> [[x]])"

definition ascii_digit :: "char \<Rightarrow> bool" where
  "ascii_digit c = (48 \<le> code c \<and> code c \<le> 57)"

text \<open>The superscripts of Latin-1 are digits for \<^verbatim>\<open>isdigit\<close>, but not for \<^verbatim>\<open>float\<close>.\<close>

definition isdigit :: "char \<Rightarrow> bool" where
  "isdigit c = (ascii_digit c \<or> code c \<in> {178, 179, 185})"

definition lower :: "char \<Rightarrow> char" where
  "lower c = (if 65 \<le> code c \<and> code c \<le> 90 then char_of (code c + 32) else c)"

section \<open>Floats that may be infinite or undefined\<close>

datatype flt = Fin rat | Inf bool | NaN

definition to_flt :: "rat \<Rightarrow> flt" where
  "to_flt q = (let r = fl64 q in if 2 ^ 1024 \<le> \<bar>r\<bar> then Inf (r < 0) else Fin r)"

text \<open>Sum and product as the sources need them: of a value that is not negative, and of a positive finite
  factor and a value that is not negative.\<close>

fun flt_add :: "flt \<Rightarrow> flt \<Rightarrow> flt" where
  "flt_add (Fin a) (Fin b) = to_flt (a + b)"
| "flt_add NaN _ = NaN"
| "flt_add _ NaN = NaN"
| "flt_add (Inf s) (Inf t) = (if s = t then Inf s else NaN)"
| "flt_add (Inf s) (Fin _) = Inf s"
| "flt_add (Fin _) (Inf s) = Inf s"

fun flt_scale :: "rat \<Rightarrow> flt \<Rightarrow> flt" where
  "flt_scale k (Fin a) = to_flt (k * a)"
| "flt_scale k (Inf s) = Inf s"
| "flt_scale k NaN = NaN"

section \<open>Reading a float\<close>

text \<open>Underscores are allowed between two digits only and are dropped.\<close>

fun drop_underscores :: "bool \<Rightarrow> string \<Rightarrow> string option" where
  "drop_underscores prev [] = Some []"
| "drop_underscores prev (c # s) =
     (if c = CHR ''_'' then
        (if prev \<and> s \<noteq> [] \<and> ascii_digit (hd s) then drop_underscores False s else None)
      else map_option ((#) c) (drop_underscores (ascii_digit c) s))"

definition read_sign :: "string \<Rightarrow> bool \<times> string" where
  "read_sign s = (case s of [] \<Rightarrow> (False, []) | c # r \<Rightarrow> if c = CHR ''-'' then (True, r) else if c = CHR ''+'' then (False, r) else (False, s))"

definition span_digits :: "string \<Rightarrow> string \<times> string" where
  "span_digits s = (takeWhile ascii_digit s, dropWhile ascii_digit s)"

text \<open>Digits with an optional point and at least one digit: the mantissa and the number of its decimals.\<close>

definition read_mantissa :: "string \<Rightarrow> (rat \<times> string) option" where
  "read_mantissa s =
     (let (whole, r) = span_digits s;
          (frac, r') = (case r of [] \<Rightarrow> ([], []) | c # t \<Rightarrow> if c = CHR ''.'' then span_digits t else ([], r))
      in if whole @ frac = [] then None
         else Some (of_nat (read_digits (whole @ frac)) / 10 ^ length frac, r'))"

definition read_exponent :: "string \<Rightarrow> int option" where
  "read_exponent s =
     (case s of
        [] \<Rightarrow> Some 0
      | c # r \<Rightarrow>
          if lower c \<noteq> CHR ''e'' then None
          else (let (neg, d) = read_sign r
                in if d = [] \<or> \<not> list_all ascii_digit d then None
                   else Some (if neg then - int (read_digits d) else int (read_digits d))))"

definition read_float :: "string \<Rightarrow> flt option" where
  "read_float s =
     (let (neg, r) = read_sign s; w = map lower r
      in if w = ''inf'' \<or> w = ''infinity'' then Some (Inf neg)
         else if w = ''nan'' then Some NaN
         else case read_mantissa r of
            None \<Rightarrow> None
          | Some (m, r') \<Rightarrow>
              map_option (\<lambda>e. to_flt ((if neg then - 1 else 1) * m * (if 0 \<le> e then 10 ^ nat e else 1 / 10 ^ nat (- e)))) (read_exponent r'))"

definition py_float :: "string \<Rightarrow> flt result" where
  "py_float text =
     (case Option.bind (drop_underscores False (strip text)) read_float of
        None \<Rightarrow> Inl ValueError | Some x \<Rightarrow> Inr x)"

section \<open>Time spans\<close>

definition us_of_seconds :: "rat \<Rightarrow> int" where
  "us_of_seconds s = \<lfloor>s\<rfloor> * 1000000 + round_half_even (fmul 1000000 (s - of_int \<lfloor>s\<rfloor>))"

section \<open>Lemmas\<close>

lemma starts_with_append [simp]: "starts_with p (p @ s)"
  by (simp add: starts_with_def)

lemma starts_with_length: "starts_with p s \<Longrightarrow> length p \<le> length s"
  unfolding starts_with_def by (metis length_take min.cobounded1 min_def nat_le_linear)

lemma split_on_ne [simp]: "split_on c s \<noteq> []"
  by (induction s) (auto split: list.splits)

lemma ascii_isdigit [simp]: "ascii_digit c \<Longrightarrow> isdigit c"
  by (simp add: isdigit_def)

lemma drop_underscores_digits:
  "list_all (\<lambda>c. c \<noteq> CHR ''_'') s \<Longrightarrow> drop_underscores b s = Some s"
  by (induction s arbitrary: b) auto

lemma us_of_seconds_ge: "of_int n \<le> s \<Longrightarrow> n * 1000000 \<le> us_of_seconds s"
proof -
  assume *: "of_int n \<le> s"
  have "0 \<le> round_half_even (fmul 1000000 (s - of_int \<lfloor>s\<rfloor>))"
    by (rule round_half_even_ge) (simp add: fmul_nonneg)
  moreover have "n \<le> \<lfloor>s\<rfloor>"
    using * by (simp add: le_floor_iff)
  ultimately show ?thesis
    by (simp add: us_of_seconds_def)
qed

end
