(* ===== verification/LLM_Registry.thy ===== *)
theory LLM_Registry
  imports Py_Text
begin

text \<open>
  \<^verbatim>\<open>src/llm/registry.py\<close>: the provider table, the \<^verbatim>\<open>provider:model\<close> strings and the roles read from the
  settings. The settings are given as the texts of their attributes; a missing, empty or null attribute is the
  empty text, which is how the code reads them. Messages are left out: a \<^verbatim>\<open>ConfigError\<close> is the value
  \<^const>\<open>ConfigError\<close>.
\<close>

section \<open>Providers and models\<close>

datatype provider_kind = OPENAI_COMPAT | ANTHROPIC

record provider_spec =
  pv_name :: string
  pv_kind :: provider_kind
  pv_base_url :: "string option"
  pv_api_key_env :: "string option"
  pv_key_setting :: "string option"
  pv_key_optional :: bool
  pv_base_url_setting :: "string option"
  pv_headers :: "(string, string) dict"
  pv_json_schema :: bool
  pv_json_mode :: bool

definition openai_compat :: "string \<Rightarrow> string option \<Rightarrow> string option \<Rightarrow> string option \<Rightarrow> provider_spec" where
  "openai_compat name url env key =
     \<lparr>pv_name = name, pv_kind = OPENAI_COMPAT, pv_base_url = url, pv_api_key_env = env, pv_key_setting = key,
      pv_key_optional = False, pv_base_url_setting = None, pv_headers = [], pv_json_schema = False, pv_json_mode = True\<rparr>"

definition providers :: "(string, provider_spec) dict" where
  "providers = map (\<lambda>p. (pv_name p, p))
     [(openai_compat ''openai'' None (Some ''OPENAI_API_KEY'') (Some ''openai_api_key''))\<lparr>pv_json_schema := True\<rparr>,
      (openai_compat ''openrouter'' (Some ''https://openrouter.ai/api/v1'') (Some ''OPENROUTER_API_KEY'') (Some ''openrouter_api_key''))
        \<lparr>pv_headers := [(''X-OpenRouter-Title'', ''RakshaQuant'')]\<rparr>,
      openai_compat ''groq'' (Some ''https://api.groq.com/openai/v1'') (Some ''GROQ_API_KEY'') (Some ''groq_api_key''),
      (openai_compat ''anthropic'' None (Some ''ANTHROPIC_API_KEY'') (Some ''anthropic_api_key''))
        \<lparr>pv_kind := ANTHROPIC, pv_json_schema := True, pv_json_mode := False\<rparr>,
      (openai_compat ''ollama'' (Some ''http://localhost:11434/v1'') None None)
        \<lparr>pv_key_optional := True, pv_base_url_setting := Some ''ollama_base_url''\<rparr>,
      (openai_compat ''compat'' None (Some ''LLM_COMPAT_API_KEY'') (Some ''llm_compat_api_key''))
        \<lparr>pv_key_optional := True, pv_base_url_setting := Some ''llm_compat_base_url''\<rparr>]"

definition json_schema_overrides :: "(string, bool) dict" where
  "json_schema_overrides =
     [(''groq:openai/gpt-oss'', True), (''groq:moonshotai/kimi-k2'', True), (''openrouter:openai/'', True),
      (''openrouter:anthropic/'', True), (''openrouter:google/gemini'', True)]"

record model_spec =
  ms_provider :: string
  ms_model :: string

definition spec_text :: "model_spec \<Rightarrow> string" where
  "spec_text m = ms_provider m @ '':'' @ ms_model m"

definition provider_of :: "model_spec \<Rightarrow> provider_spec result" where
  "provider_of m = (case dget providers (ms_provider m) of Some p \<Rightarrow> Inr p | None \<Rightarrow> Inl KeyError)"

definition is_free :: "model_spec \<Rightarrow> bool" where
  "is_free m = ends_with '':free'' (ms_model m)"

definition supports_json_schema :: "model_spec \<Rightarrow> bool result" where
  "supports_json_schema m =
     (case find (\<lambda>(prefix, _). starts_with prefix (spec_text m)) json_schema_overrides of
        Some (_, supported) \<Rightarrow> Inr supported
      | None \<Rightarrow> (case provider_of m of Inr p \<Rightarrow> Inr (pv_json_schema p) | Inl e \<Rightarrow> Inl e))"

definition parse_model :: "string \<Rightarrow> model_spec result" where
  "parse_model text =
     (let (provider, sep, model) = partition_on (CHR '':'') (strip text)
      in if \<not> sep \<or> provider = [] \<or> model = [] then Inl ConfigError
         else if dget providers provider = None then Inl ConfigError
         else Inr \<lparr>ms_provider = provider, ms_model = model\<rparr>)"

section \<open>Roles\<close>

record role_config =
  rc_role :: string
  rc_chain :: "model_spec list"
  rc_effort :: "string option"

definition role_enabled :: "role_config \<Rightarrow> bool" where
  "role_enabled c = (rc_chain c \<noteq> [])"

type_synonym settings = "string \<Rightarrow> string"

definition roles :: "string list" where
  "roles = [''veto'', ''review'', ''explain'', ''label'', ''research'']"

definition efforts :: "string list" where
  "efforts = [''low'', ''medium'', ''high'', ''max'']"

definition optional :: "string \<Rightarrow> string option" where
  "optional s = (if s = [] then None else Some s)"

fun all_ok :: "('a \<Rightarrow> 'b result) \<Rightarrow> 'a list \<Rightarrow> 'b list result" where
  "all_ok f [] = Inr []"
| "all_ok f (x # xs) =
     (case f x of
        Inl e \<Rightarrow> Inl e
      | Inr y \<Rightarrow> (case all_ok f xs of Inl e \<Rightarrow> Inl e | Inr ys \<Rightarrow> Inr (y # ys)))"

definition in_order :: "'a list \<Rightarrow> 'a list" where
  "in_order xs = rev (remdups (rev xs))"

definition role_config_of :: "settings \<Rightarrow> string \<Rightarrow> role_config result" where
  "role_config_of st role =
     (let primary = strip (st (''llm_role_'' @ role));
          fallbacks = st (''llm_role_'' @ role @ ''_fallbacks'');
          effort = optional (st (''llm_role_'' @ role @ ''_effort''))
      in if (case effort of Some e \<Rightarrow> e \<notin> set efforts | None \<Rightarrow> False) then Inl ConfigError
         else if primary = [] then Inr \<lparr>rc_role = role, rc_chain = [], rc_effort = effort\<rparr>
         else case all_ok parse_model (primary # filter (\<lambda>f. f \<noteq> []) (map strip (split_on (CHR '','') fallbacks))) of
            Inl e \<Rightarrow> Inl e
          | Inr chain \<Rightarrow> Inr \<lparr>rc_role = role, rc_chain = in_order chain, rc_effort = effort\<rparr>)"

definition role_configs :: "settings \<Rightarrow> (string, role_config) dict result" where
  "role_configs st =
     (case all_ok (role_config_of st) roles of
        Inl e \<Rightarrow> Inl e
      | Inr cs \<Rightarrow> Inr (map (\<lambda>c. (rc_role c, c)) cs))"

definition api_key :: "provider_spec \<Rightarrow> settings \<Rightarrow> string option" where
  "api_key p st = (case pv_key_setting p of None \<Rightarrow> None | Some k \<Rightarrow> optional (st k))"

definition base_url :: "provider_spec \<Rightarrow> settings \<Rightarrow> string option" where
  "base_url p st =
     (case pv_base_url_setting p of
        Some k \<Rightarrow> (case optional (st k) of Some u \<Rightarrow> Some u | None \<Rightarrow> pv_base_url p)
      | None \<Rightarrow> pv_base_url p)"

definition model_usable :: "settings \<Rightarrow> model_spec \<Rightarrow> bool result" where
  "model_usable st m =
     (case provider_of m of
        Inl e \<Rightarrow> Inl e
      | Inr p \<Rightarrow> Inr (\<not> (\<not> pv_key_optional p \<and> api_key p st = None)
          \<and> \<not> (pv_base_url_setting p \<noteq> None \<and> (case base_url p st of None \<Rightarrow> True | Some u \<Rightarrow> u = []))))"

definition validate_roles :: "settings \<Rightarrow> (string, role_config) dict result" where
  "validate_roles st =
     (case role_configs st of
        Inl e \<Rightarrow> Inl e
      | Inr rs \<Rightarrow>
          (case all_ok (model_usable st) (concat (map (\<lambda>(_, c). rc_chain c) rs)) of
             Inl e \<Rightarrow> Inl e
           | Inr oks \<Rightarrow> if list_all (\<lambda>ok. ok) oks then Inr rs else Inl ConfigError))"

end
