(* ===== verification/LLM_Router.thy ===== *)
theory LLM_Router
  imports LLM_Registry Calendar
begin

text \<open>
  \<^verbatim>\<open>src/llm/router.py\<close>, \<^verbatim>\<open>src/llm/pricing.py\<close> and \<^verbatim>\<open>src/llm/types.py\<close>: the only way the program calls
  a language model. The clients, the hash, the rendering of the messages and the encoding of a parsed reply are
  parameters (\<open>llm_env\<close>, \<open>request\<close>); so are the instants the clock shows before and after each call.
  Latencies and error texts are left out. An attempt is split where the code awaits the client: \<open>gate_model\<close> is
  what runs before, \<open>settle_call\<close> what runs after.
\<close>

section \<open>Prices\<close>

record price =
  pr_input :: rat
  pr_output :: rat
  pr_cache_read :: rat
  pr_cache_write :: rat

record usage_tokens =
  ut_input :: int
  ut_output :: int
  ut_cache_read :: int
  ut_cache_write :: int
  ut_reported_usd :: "rat option"

definition no_usage :: usage_tokens where
  "no_usage = \<lparr>ut_input = 0, ut_output = 0, ut_cache_read = 0, ut_cache_write = 0, ut_reported_usd = None\<rparr>"

fun longest :: "string list \<Rightarrow> string option" where
  "longest [] = None"
| "longest (k # ks) =
     (case longest ks of
        None \<Rightarrow> Some k
      | Some k' \<Rightarrow> if length k < length k' then Some k' else Some k)"

definition price_of :: "(string, price) dict \<Rightarrow> model_spec \<Rightarrow> price option" where
  "price_of prices m =
     (if is_free m then Some \<lparr>pr_input = 0, pr_output = 0, pr_cache_read = 1, pr_cache_write = 1\<rparr>
      else case longest (filter (\<lambda>k. starts_with k (spec_text m)) (map fst prices)) of
         None \<Rightarrow> None
       | Some k \<Rightarrow> dget prices k)"

definition cost_usd :: "(string, price) dict \<Rightarrow> model_spec \<Rightarrow> usage_tokens \<Rightarrow> rat option" where
  "cost_usd prices m u =
     (case ut_reported_usd u of
        Some c \<Rightarrow> Some c
      | None \<Rightarrow>
          map_option (\<lambda>p.
            let sofar = dadd (dadd (dadd (dmul (of_int (ut_input u)) (pr_input p)) (dmul (of_int (ut_output u)) (pr_output p)))
                         (dmul (dmul (of_int (ut_cache_read u)) (pr_input p)) (pr_cache_read p)))
                         (dmul (dmul (of_int (ut_cache_write u)) (pr_input p)) (pr_cache_write p))
            in quantize_even (ddiv sofar 1000000) (1 / 1000000)) (price_of prices m))"

definition to_inr :: "rat option \<Rightarrow> rat \<Rightarrow> rat option" where
  "to_inr usd usd_inr = map_option (\<lambda>u. quantize_even (dmul u (dec_of_float usd_inr)) (1 / 10000)) usd"

section \<open>Outcomes and calls\<close>

datatype llm_outcome =
    LOk | LTimeout | LRateLimited | LServerError | LInvalidOutput | LRefusal | LBudgetExceeded | LBreakerOpen | LError

datatype llm_error =
    LLMError
  | LLMTimeoutError
  | LLMRateLimitedError "flt option"
  | LLMServerError
  | LLMInvalidOutputError
  | LLMRefusalError
  | BudgetExceededError

fun error_kind :: "llm_error \<Rightarrow> llm_outcome" where
  "error_kind LLMError = LError"
| "error_kind LLMTimeoutError = LTimeout"
| "error_kind (LLMRateLimitedError _) = LRateLimited"
| "error_kind LLMServerError = LServerError"
| "error_kind LLMInvalidOutputError = LInvalidOutput"
| "error_kind LLMRefusalError = LRefusal"
| "error_kind BudgetExceededError = LBudgetExceeded"

record 'a client_reply =
  cr_parsed :: 'a
  cr_usage :: usage_tokens
  cr_headers :: "(string, string) dict"

datatype 'a client_result =
    TimedOut
  | Failed llm_error
  | Crashed
  | Replied "'a client_reply"

record llm_call =
  lc_ts :: ts
  lc_decision_id :: "string option"
  lc_book_id :: "string option"
  lc_role :: string
  lc_provider :: string
  lc_model :: string
  lc_attempt :: nat
  lc_prompt_version :: string
  lc_prompt_sha :: string
  lc_usage :: usage_tokens
  lc_usd :: "rat option"
  lc_inr :: "rat option"
  lc_hit :: bool
  lc_outcome :: llm_outcome

definition call_valid :: "llm_call \<Rightarrow> bool" where
  "call_valid c =
     (lc_role c \<noteq> [] \<and> lc_provider c \<noteq> [] \<and> lc_model c \<noteq> [] \<and> lc_prompt_version c \<noteq> [] \<and> lc_prompt_sha c \<noteq> []
      \<and> 0 \<le> ut_input (lc_usage c) \<and> 0 \<le> ut_output (lc_usage c) \<and> 0 \<le> ut_cache_read (lc_usage c)
      \<and> 0 \<le> ut_cache_write (lc_usage c)
      \<and> (case lc_usd c of None \<Rightarrow> True | Some x \<Rightarrow> 0 \<le> x) \<and> (case lc_inr c of None \<Rightarrow> True | Some x \<Rightarrow> 0 \<le> x))"

section \<open>Budgets\<close>

record budget_limits =
  bl_daily_inr :: rat
  bl_role_daily_inr :: "(string, rat) dict"
  bl_decision_inr :: rat

record spend_ledger =
  sl_day :: date
  sl_total :: rat
  sl_roles :: "(string, rat) dict"
  sl_decisions :: "(string, rat) dict"

definition new_ledger :: "date \<Rightarrow> spend_ledger" where
  "new_ledger d = \<lparr>sl_day = d, sl_total = 0, sl_roles = [], sl_decisions = []\<rparr>"

definition ledger_add :: "string \<Rightarrow> string option \<Rightarrow> rat \<Rightarrow> spend_ledger \<Rightarrow> spend_ledger" where
  "ledger_add role decision inr l =
     l\<lparr>sl_total := dadd (sl_total l) inr,
       sl_roles := dset role (dadd (dget_or 0 (sl_roles l) role) inr) (sl_roles l),
       sl_decisions := (case decision of
          Some d \<Rightarrow> if d = [] then sl_decisions l else dset d (dadd (dget_or 0 (sl_decisions l) d) inr) (sl_decisions l)
        | None \<Rightarrow> sl_decisions l)\<rparr>"

definition ledger_exceeded :: "string \<Rightarrow> string option \<Rightarrow> budget_limits \<Rightarrow> spend_ledger \<Rightarrow> bool" where
  "ledger_exceeded role decision bl l =
     (bl_daily_inr bl \<noteq> 0 \<and> bl_daily_inr bl \<le> sl_total l
      \<or> (let role_cap = dget_or 0 (bl_role_daily_inr bl) role in role_cap \<noteq> 0 \<and> role_cap \<le> dget_or 0 (sl_roles l) role)
      \<or> (case decision of
           Some d \<Rightarrow> d \<noteq> [] \<and> bl_decision_inr bl \<noteq> 0 \<and> bl_decision_inr bl \<le> dget_or 0 (sl_decisions l) d
         | None \<Rightarrow> False))"

definition book_call :: "date \<Rightarrow> llm_call \<Rightarrow> spend_ledger \<Rightarrow> spend_ledger" where
  "book_call day c l =
     (case lc_inr c of
        Some inr \<Rightarrow> if ist_date (lc_ts c) = day \<and> inr \<noteq> 0 then ledger_add (lc_role c) (lc_decision_id c) inr l else l
      | None \<Rightarrow> l)"

definition ledger_from_events :: "llm_call list \<Rightarrow> date \<Rightarrow> spend_ledger" where
  "ledger_from_events cs day = fold (book_call day) cs (new_ledger day)"

section \<open>Rate-limit headers\<close>

text \<open>The durations of the reset headers, such as \<^verbatim>\<open>2m59.56s\<close>. The scan is the loop of the code; whether it
  returns is the outer option, a raise of \<^verbatim>\<open>float\<close> the result, an unknown unit the inner option.\<close>

definition unit_seconds :: "string \<Rightarrow> rat option" where
  "unit_seconds u =
     (if u = ''h'' then Some 3600 else if u = ''m'' then Some 60 else if u = ''s'' then Some 1
      else if u = ''ms'' then Some (fl64 (1 / 1000)) else None)"

definition unit_at :: "string \<Rightarrow> nat \<Rightarrow> string" where
  "unit_at text i = (if starts_with ''ms'' (drop i text) then ''ms'' else [text ! i])"

definition add_part :: "flt \<Rightarrow> string \<Rightarrow> flt \<Rightarrow> flt" where
  "add_part sofar unit v = flt_add sofar (case unit_seconds unit of Some k \<Rightarrow> flt_scale k v | None \<Rightarrow> NaN)"

definition scan_end :: "flt \<Rightarrow> string \<Rightarrow> flt option result" where
  "scan_end sofar number =
     (case (if number = [] then Inr sofar else case py_float number of Inl e \<Rightarrow> Inl e | Inr v \<Rightarrow> Inr (flt_add sofar v)) of
        Inl e \<Rightarrow> Inl e
      | Inr t \<Rightarrow> Inr (if t = NaN then None else Some t))"

partial_function (option) duration_scan :: "string \<Rightarrow> nat \<Rightarrow> flt \<Rightarrow> string \<Rightarrow> flt option result option" where
  "duration_scan text i sofar number =
     (if i < length text then
        (if isdigit (text ! i) \<or> text ! i = CHR ''.'' then duration_scan text (i + 1) sofar (number @ [text ! i])
         else if number = [] then Some (Inr None)
         else case py_float number of
            Inl e \<Rightarrow> Some (Inl e)
          | Inr v \<Rightarrow> duration_scan text (i + length (unit_at text i)) (add_part sofar (unit_at text i) v) [])
      else Some (scan_end sofar number))"

declare duration_scan.simps [code]

definition duration_s :: "string \<Rightarrow> flt option result option" where
  "duration_s raw =
     (let text = strip raw
      in if text = [] then Some (Inr None)
         else case py_float text of
            Inr v \<Rightarrow> Some (Inr (Some v))
          | Inl _ \<Rightarrow> duration_scan text 0 (Fin 0) [])"

lemma unit_at_pos: "0 < length (unit_at text i)"
  by (simp add: unit_at_def)

lemma duration_scan_returns: "\<exists>r. duration_scan text i sofar number = Some r"
proof (induction "length text - i" arbitrary: i sofar number rule: less_induct)
  case less
  have "length text - (i + length (unit_at text i)) < length text - i" if "i < length text"
    using that unit_at_pos [of "text" i] by linarith
  then show ?case
    using less(1) [of "i + 1"] less(1) [of "i + length (unit_at text i)"]
    by (subst duration_scan.simps) (auto split: sum.splits)
qed

lemma duration_s_returns: "\<exists>r. duration_s text = Some r"
  by (auto simp: duration_s_def Let_def duration_scan_returns split: sum.splits)

section \<open>The router\<close>

record breaker =
  bk_failures :: nat
  bk_open_until :: "ts option"

definition new_breaker :: breaker where
  "new_breaker = \<lparr>bk_failures = 0, bk_open_until = None\<rparr>"

record router_config =
  rg_roles :: "(string, role_config) dict"
  rg_prices :: "(string, price) dict"
  rg_usd_inr :: rat
  rg_budgets :: budget_limits
  rg_breaker_failures :: nat
  rg_cooldown :: int

record router =
  rt_ledger :: spend_ledger
  rt_cache :: "(string, string) dict option"
  rt_breakers :: "(string, breaker) dict"
  rt_paused :: "(string, ts) dict"
  rt_log :: "llm_call list"

definition new_router :: "ts \<Rightarrow> spend_ledger option \<Rightarrow> (string, string) dict option \<Rightarrow> router" where
  "new_router now ledger cache =
     \<lparr>rt_ledger = (case ledger of Some l \<Rightarrow> l | None \<Rightarrow> new_ledger (ist_date now)), rt_cache = cache,
      rt_breakers = [], rt_paused = [], rt_log = []\<rparr>"

definition roll_day :: "ts \<Rightarrow> router \<Rightarrow> router" where
  "roll_day now rt = (if sl_day (rt_ledger rt) \<noteq> ist_date now then rt\<lparr>rt_ledger := new_ledger (ist_date now)\<rparr> else rt)"

definition breaker_of :: "router \<Rightarrow> string \<Rightarrow> breaker" where
  "breaker_of rt spec = dget_or new_breaker (rt_breakers rt) spec"

definition breaker_failed :: "router_config \<Rightarrow> string \<Rightarrow> ts \<Rightarrow> router \<Rightarrow> router" where
  "breaker_failed cfg spec now rt =
     (let b = breaker_of rt spec; n = bk_failures b + 1
      in rt\<lparr>rt_breakers := dset spec
           (if rg_breaker_failures cfg \<le> n then \<lparr>bk_failures = 0, bk_open_until = Some (now + rg_cooldown cfg)\<rparr>
            else b\<lparr>bk_failures := n\<rparr>) (rt_breakers rt)\<rparr>)"

fun clamp_pause :: "flt \<Rightarrow> rat" where
  "clamp_pause (Fin q) = max 1 (min q 3600)"
| "clamp_pause (Inf neg) = (if neg then 1 else 3600)"
| "clamp_pause NaN = 1"

definition pause_provider :: "string \<Rightarrow> ts \<Rightarrow> flt \<Rightarrow> router \<Rightarrow> router" where
  "pause_provider provider now seconds rt =
     (let until = now + us_of_seconds (clamp_pause seconds)
      in rt\<lparr>rt_paused := dset provider (max until (dget_or until (rt_paused rt) provider)) (rt_paused rt)\<rparr>)"

definition rate_header :: "string \<Rightarrow> ts \<Rightarrow> (string, string) dict \<Rightarrow> string \<times> string \<Rightarrow> router \<Rightarrow> router result" where
  "rate_header provider now headers = (\<lambda>(remaining, reset) rt.
     if dget headers remaining = Some ''0'' then
       (case duration_s (dget_or [] headers reset) of
          Some (Inl e) \<Rightarrow> Inl e
        | Some (Inr (Some s)) \<Rightarrow> Inr (pause_provider provider now s rt)
        | _ \<Rightarrow> Inr rt)
     else Inr rt)"

definition rate_headers :: "(string \<times> string) list" where
  "rate_headers =
     [(''x-ratelimit-remaining-requests'', ''x-ratelimit-reset-requests''),
      (''x-ratelimit-remaining-tokens'', ''x-ratelimit-reset-tokens'')]"

fun fold_ok :: "('a \<Rightarrow> 's \<Rightarrow> 's result) \<Rightarrow> 'a list \<Rightarrow> 's \<Rightarrow> 's \<times> unit result" where
  "fold_ok f [] s = (s, Inr ())"
| "fold_ok f (x # xs) s = (case f x s of Inl e \<Rightarrow> (s, Inl e) | Inr s' \<Rightarrow> fold_ok f xs s')"

definition read_rate_headers :: "string \<Rightarrow> ts \<Rightarrow> (string, string) dict \<Rightarrow> router \<Rightarrow> router \<times> unit result" where
  "read_rate_headers provider now headers rt = fold_ok (rate_header provider now headers) rate_headers rt"

section \<open>One attempt\<close>

record 'a request =
  rq_role :: string
  rq_messages :: "(string \<times> string) list"
  rq_prompt_version :: string
  rq_decision_id :: "string option"
  rq_book_id :: "string option"
  rq_decode :: "string \<Rightarrow> 'a option"
  rq_encode :: "'a \<Rightarrow> string"
  rq_is_schema :: "'a \<Rightarrow> bool"

record client_args =
  ca_messages :: "(string \<times> string) list"
  ca_effort :: "string option"
  ca_max_tokens :: int
  ca_private :: bool

record 'a llm_env =
  le_sha :: "string \<Rightarrow> string"
  le_render :: "(string \<times> string) list \<Rightarrow> string"
  le_begin :: ts
  le_start :: "nat \<Rightarrow> ts"
  le_done :: "nat \<Rightarrow> ts"
  le_client :: "nat \<Rightarrow> model_spec \<Rightarrow> client_args \<Rightarrow> 'a client_result"

definition max_tokens :: "(string, int) dict" where
  "max_tokens = [(''veto'', 2048), (''explain'', 2048), (''label'', 4096), (''review'', 8192), (''research'', 16000)]"

definition private_roles :: "string list" where
  "private_roles = [''veto'', ''review'', ''explain'', ''research'']"

definition args_of :: "'a request \<Rightarrow> role_config \<Rightarrow> client_args" where
  "args_of rq c =
     \<lparr>ca_messages = rq_messages rq, ca_effort = rc_effort c, ca_max_tokens = dget_or 4096 max_tokens (rq_role rq),
      ca_private = rq_role rq \<in> set private_roles\<rparr>"

definition cache_key :: "'a llm_env \<Rightarrow> 'a request \<Rightarrow> model_spec \<Rightarrow> string" where
  "cache_key env rq m =
     le_sha env (rq_prompt_version rq @ [CHR 0x0A] @ spec_text m @ [CHR 0x0A] @ le_render env (rq_messages rq))"

definition cached_reply :: "'a request \<Rightarrow> string \<Rightarrow> router \<Rightarrow> 'a option" where
  "cached_reply rq key rt = Option.bind (Option.bind (rt_cache rt) (\<lambda>c. dget c key)) (rq_decode rq)"

definition store_reply :: "'a request \<Rightarrow> string \<Rightarrow> 'a \<Rightarrow> router \<Rightarrow> router" where
  "store_reply rq key v rt = rt\<lparr>rt_cache := map_option (dset key (rq_encode rq v)) (rt_cache rt)\<rparr>"

definition record_call ::
  "'a llm_env \<Rightarrow> 'a request \<Rightarrow> model_spec \<Rightarrow> nat \<Rightarrow> ts \<Rightarrow> llm_outcome \<Rightarrow> usage_tokens \<Rightarrow> rat option \<Rightarrow> rat option \<Rightarrow> bool \<Rightarrow> router \<Rightarrow> router \<times> unit result" where
  "record_call env rq m i t oc u usd inr hit rt =
     (let c = \<lparr>lc_ts = t, lc_decision_id = rq_decision_id rq, lc_book_id = rq_book_id rq, lc_role = rq_role rq,
               lc_provider = ms_provider m, lc_model = ms_model m, lc_attempt = i, lc_prompt_version = rq_prompt_version rq,
               lc_prompt_sha = le_sha env (le_render env (rq_messages rq)), lc_usage = u, lc_usd = usd, lc_inr = inr,
               lc_hit = hit, lc_outcome = oc\<rparr>
      in if call_valid c then (rt\<lparr>rt_log := rt_log rt @ [c]\<rparr>, Inr ()) else (rt, Inl ValueError))"

text \<open>What runs before the call: the breaker of the model, the pause of its provider and the budget, in this
  order. \<open>None\<close> lets the call through.\<close>

definition costs_nothing :: "router_config \<Rightarrow> model_spec \<Rightarrow> bool" where
  "costs_nothing cfg m = (case price_of (rg_prices cfg) m of Some p \<Rightarrow> pr_input p = 0 \<and> pr_output p = 0 | None \<Rightarrow> False)"

definition gate_model :: "router_config \<Rightarrow> string \<Rightarrow> string option \<Rightarrow> model_spec \<Rightarrow> ts \<Rightarrow> router \<Rightarrow> llm_outcome option" where
  "gate_model cfg role decision m now rt =
     (if (case bk_open_until (breaker_of rt (spec_text m)) of Some t \<Rightarrow> now < t | None \<Rightarrow> False) then Some LBreakerOpen
      else if (case dget (rt_paused rt) (ms_provider m) of Some t \<Rightarrow> now < t | None \<Rightarrow> False) then Some LRateLimited
      else if \<not> costs_nothing cfg m \<and> ledger_exceeded role decision (rg_budgets cfg) (rt_ledger rt) then Some LBudgetExceeded
      else None)"

text \<open>What runs after the call.\<close>

type_synonym 'a answer = "llm_outcome \<times> ('a \<times> rat \<times> bool) option"

definition answered :: "router \<times> unit result \<Rightarrow> 'a answer \<Rightarrow> router \<times> 'a answer result" where
  "answered = (\<lambda>(rt, r) a. (rt, case r of Inl e \<Rightarrow> Inl e | Inr _ \<Rightarrow> Inr a))"

definition open_failure :: "llm_outcome \<Rightarrow> bool" where
  "open_failure oc = (oc \<in> {LServerError, LError, LTimeout})"

fun retry_after :: "flt option \<Rightarrow> flt" where
  "retry_after None = Fin 60"
| "retry_after (Some s) = (if s = Fin 0 then Fin 60 else s)"

definition settle_failure :: "router_config \<Rightarrow> model_spec \<Rightarrow> ts \<Rightarrow> llm_error \<Rightarrow> router \<Rightarrow> router" where
  "settle_failure cfg m now e rt =
     (case e of
        LLMRateLimitedError s \<Rightarrow> pause_provider (ms_provider m) now (retry_after s) rt
      | _ \<Rightarrow> if open_failure (error_kind e) then breaker_failed cfg (spec_text m) now rt else rt)"

definition settle_reply ::
  "'a llm_env \<Rightarrow> router_config \<Rightarrow> 'a request \<Rightarrow> model_spec \<Rightarrow> nat \<Rightarrow> 'a client_reply \<Rightarrow> router \<Rightarrow> router \<times> 'a answer result" where
  "settle_reply env cfg rq m i rep rt =
     (let rt1 = rt\<lparr>rt_breakers := dset (spec_text m) new_breaker (rt_breakers rt)\<rparr>
      in case read_rate_headers (ms_provider m) (le_start env i) (cr_headers rep) rt1 of
         (rt2, Inl e) \<Rightarrow> (rt2, Inl e)
       | (rt2, Inr _) \<Rightarrow>
           (let usd = cost_usd (rg_prices cfg) m (cr_usage rep);
                inr = to_inr usd (rg_usd_inr cfg);
                rt3 = (case inr of
                         Some x \<Rightarrow> if x \<noteq> 0 then rt2\<lparr>rt_ledger := ledger_add (rq_role rq) (rq_decision_id rq) x (rt_ledger rt2)\<rparr> else rt2
                       | None \<Rightarrow> rt2)
            in case record_call env rq m i (le_done env i) LOk (cr_usage rep) usd inr False rt3 of
                 (rt4, Inl e) \<Rightarrow> (rt4, Inl e)
               | (rt4, Inr _) \<Rightarrow>
                   if \<not> rq_is_schema rq (cr_parsed rep) then (rt4, Inr (LInvalidOutput, None))
                   else (store_reply rq (cache_key env rq m) (cr_parsed rep) rt4,
                         Inr (LOk, Some (cr_parsed rep, (case inr of Some x \<Rightarrow> x | None \<Rightarrow> 0), False)))))"

definition settle_call ::
  "'a llm_env \<Rightarrow> router_config \<Rightarrow> 'a request \<Rightarrow> model_spec \<Rightarrow> nat \<Rightarrow> 'a client_result \<Rightarrow> router \<Rightarrow> router \<times> 'a answer result" where
  "settle_call env cfg rq m i res rt =
     (let failed = (\<lambda>oc rt'. answered (record_call env rq m i (le_done env i) oc no_usage None None False rt') (oc, None))
      in case res of
         TimedOut \<Rightarrow> failed LTimeout (breaker_failed cfg (spec_text m) (le_start env i) rt)
       | Failed e \<Rightarrow> failed (error_kind e) (settle_failure cfg m (le_start env i) e rt)
       | Crashed \<Rightarrow> failed LError (breaker_failed cfg (spec_text m) (le_start env i) rt)
       | Replied rep \<Rightarrow> settle_reply env cfg rq m i rep rt)"

definition attempt ::
  "'a llm_env \<Rightarrow> router_config \<Rightarrow> 'a request \<Rightarrow> role_config \<Rightarrow> model_spec \<Rightarrow> nat \<Rightarrow> router \<Rightarrow> router \<times> 'a answer result" where
  "attempt env cfg rq c m i rt =
     (case cached_reply rq (cache_key env rq m) rt of
        Some v \<Rightarrow> answered (record_call env rq m i (le_start env i) LOk no_usage (Some 0) (Some 0) True rt) (LOk, Some (v, 0, True))
      | None \<Rightarrow>
          (let rt1 = rt\<lparr>rt_breakers := dset (spec_text m) (breaker_of rt (spec_text m)) (rt_breakers rt)\<rparr>
           in case gate_model cfg (rq_role rq) (rq_decision_id rq) m (le_start env i) rt1 of
              Some oc \<Rightarrow> answered (record_call env rq m i (le_start env i) oc no_usage None None False rt1) (oc, None)
            | None \<Rightarrow> settle_call env cfg rq m i (le_client env i m (args_of rq c)) rt1))"

section \<open>The chain\<close>

record 'a llm_result =
  lr_role :: string
  lr_outcome :: "llm_outcome option"
  lr_parsed :: "'a option"
  lr_model :: "string option"
  lr_attempts :: nat
  lr_cost_inr :: rat
  lr_cache_hit :: bool

definition failed_result :: "string \<Rightarrow> llm_outcome option \<Rightarrow> nat \<Rightarrow> 'a llm_result" where
  "failed_result role oc n =
     \<lparr>lr_role = role, lr_outcome = oc, lr_parsed = None, lr_model = None, lr_attempts = n, lr_cost_inr = 0, lr_cache_hit = False\<rparr>"

fun try_chain ::
  "'a llm_env \<Rightarrow> router_config \<Rightarrow> 'a request \<Rightarrow> role_config \<Rightarrow> model_spec list \<Rightarrow> nat \<Rightarrow> llm_outcome \<Rightarrow> router \<Rightarrow> router \<times> 'a llm_result result" where
  "try_chain env cfg rq c [] i last_oc rt = (rt, Inr (failed_result (rq_role rq) (Some last_oc) i))"
| "try_chain env cfg rq c (m # ms) i last_oc rt =
     (case attempt env cfg rq c m i rt of
        (rt', Inl e) \<Rightarrow> (rt', Inl e)
      | (rt', Inr (oc, Some (v, cost, hit))) \<Rightarrow>
          (rt', Inr \<lparr>lr_role = rq_role rq, lr_outcome = Some LOk, lr_parsed = Some v, lr_model = Some (spec_text m),
                     lr_attempts = i + 1, lr_cost_inr = cost, lr_cache_hit = hit\<rparr>)
      | (rt', Inr (oc, None)) \<Rightarrow> try_chain env cfg rq c ms (i + 1) oc rt')"

text \<open>A disabled role has no outcome (the code's \<^verbatim>\<open>"disabled"\<close>).\<close>

definition complete :: "'a llm_env \<Rightarrow> router_config \<Rightarrow> 'a request \<Rightarrow> router \<Rightarrow> router \<times> 'a llm_result result" where
  "complete env cfg rq rt =
     (case dget (rg_roles cfg) (rq_role rq) of
        None \<Rightarrow> (rt, Inr (failed_result (rq_role rq) None 0))
      | Some c \<Rightarrow>
          if \<not> role_enabled c then (rt, Inr (failed_result (rq_role rq) None 0))
          else try_chain env cfg rq c (rc_chain c) 0 LError (roll_day (le_begin env) rt))"

end
