(* ===== verification/LLM_Props.thy ===== *)
theory LLM_Props
  imports LLM_Router
begin

text \<open>
  What the router guarantees: the duration parser returns on every text and reads rendered durations exactly, the
  chain of models is tried in order and never raises on well-formed replies, the spend of a day stays within its caps
  up to the calls in flight, the ledger of a restarted router is the ledger it had, and validated roles are usable.
\<close>

section \<open>Durations\<close>

definition render_duration :: "(nat \<times> char) list \<Rightarrow> string" where
  "render_duration ps = concat (map (\<lambda>(n, u). nat_str n @ [u]) ps)"

fun unit_factor :: "char \<Rightarrow> nat" where
  "unit_factor u = (if u = CHR ''h'' then 3600 else if u = CHR ''m'' then 60 else 1)"

definition duration_of :: "(nat \<times> char) list \<Rightarrow> nat" where
  "duration_of ps = (\<Sum>(n, u)\<leftarrow>ps. n * unit_factor u)"

abbreviation time_unit :: "char \<Rightarrow> bool" where
  "time_unit u \<equiv> u = CHR ''h'' \<or> u = CHR ''m'' \<or> u = CHR ''s''"

lemma nat_str_digits: "list_all ascii_digit (nat_str n)"
proof (induction n rule: nat_str.induct)
  case (1 n)
  have *: "ascii_digit (char_of (48 + n mod 10))"
    by (simp add: ascii_digit_def)
  show ?case
    using 1 * by (subst nat_str.simps) (auto simp del: nat_str.simps)
qed

lemma nat_str_ne [simp]: "nat_str n \<noteq> []"
  by (subst nat_str.simps) simp

lemma digit_not_ws: "ascii_digit c \<Longrightarrow> \<not> is_ws c"
  by (auto simp: ascii_digit_def is_ws_def Let_def)

lemma strip_digits:
  assumes "list_all ascii_digit s"
  shows "strip s = s"
proof -
  have *: "dropWhile is_ws t = t" if "list_all ascii_digit t" for t
    using that by (cases t) (auto simp: digit_not_ws)
  show ?thesis
    using assms * by (simp add: strip_def)
qed

lemma takeWhile_digits:
  "list_all ascii_digit s \<Longrightarrow> takeWhile ascii_digit (s @ t) = s @ takeWhile ascii_digit t"
  "list_all ascii_digit s \<Longrightarrow> dropWhile ascii_digit (s @ t) = dropWhile ascii_digit t"
  by (induction s) auto

lemma digits_ne:
  assumes "ascii_digit c"
  shows "c \<noteq> CHR ''-''" "c \<noteq> CHR ''+''" "c \<noteq> CHR ''_''" "c \<noteq> CHR ''.''" "lower c = c"
  using assms by (auto simp: ascii_digit_def lower_def)

lemma read_float_digits:
  assumes s: "list_all ascii_digit s" "s \<noteq> []" and t: "t = [] \<or> \<not> ascii_digit (hd t) \<and> hd t \<noteq> CHR ''.''"
  shows "read_float (s @ t) = map_option (\<lambda>e. to_flt (of_nat (read_digits s) * (if 0 \<le> e then 10 ^ nat e else 1 / 10 ^ nat (- e)))) (read_exponent t)"
proof -
  obtain c s' where cs: "s = c # s'" and c: "ascii_digit c"
    using s by (cases s) auto
  have "takeWhile ascii_digit t = []" "dropWhile ascii_digit t = t"
    using t by (cases t; auto)+
  then have m: "read_mantissa (s @ t) = Some (of_nat (read_digits s), t)"
    using s t takeWhile_digits [of s t] by (auto simp: read_mantissa_def span_digits_def Let_def split: list.splits)
  have w: "c \<noteq> CHR ''i''" "c \<noteq> CHR ''n''"
    using c by (auto simp: ascii_digit_def)
  show ?thesis
    using w m digits_ne [OF c] by (simp add: read_float_def read_sign_def cs Let_def)
qed

lemma py_float_digits:
  assumes "list_all ascii_digit s" "s \<noteq> []"
  shows "py_float s = Inr (to_flt (of_nat (read_digits s)))"
proof -
  have "list_all (\<lambda>c. c \<noteq> CHR ''_'') s"
    using assms(1) by (auto simp: list_all_iff dest: digits_ne)
  then show ?thesis
    using assms read_float_digits [of s "[]"]
    by (simp add: py_float_def strip_digits drop_underscores_digits read_exponent_def)
qed

lemma py_float_not_number:
  assumes s: "list_all ascii_digit s" "s \<noteq> []" and u: "time_unit u" "strip (s @ u # t) = s @ u # t"
  shows "py_float (s @ u # t) = Inl ValueError"
proof -
  have r: "read_float (s @ u # t') = None" for t'
    using read_float_digits [OF s, of "u # t'"] u(1) by (auto simp: read_exponent_def ascii_digit_def lower_def)
  have d: "drop_underscores b (xs @ u # t) = map_option (\<lambda>t'. xs @ u # t') (drop_underscores (ascii_digit u) t)"
    if "list_all ascii_digit xs" for b xs
    using that u(1) by (induction xs arbitrary: b) (auto simp: digits_ne option.map_comp o_def)
  show ?thesis
    using r s by (cases "drop_underscores (ascii_digit u) t") (auto simp: py_float_def u(2) d)
qed

lemma scan_digits:
  "drop i text = ds @ r \<Longrightarrow> list_all ascii_digit ds \<Longrightarrow>
   duration_scan text i sofar num = duration_scan text (i + length ds) sofar (num @ ds)"
proof (induction ds arbitrary: i num)
  case (Cons d ds)
  have i: "i < length text" "text ! i = d" "drop (i + 1) text = ds @ r"
    using Cons.prems(1) by (auto simp: nth_via_drop drop_Suc simp flip: drop_drop tl_drop
        intro: ccontr [of "i < length text"] )
  show ?case
    using Cons.IH [OF i(3), of "num @ [d]"] Cons.prems(2) i(1,2) by (subst duration_scan.simps) simp
qed simp

lemma unit_at_single:
  assumes "drop i text = u # r" "time_unit u" "r = [] \<or> ascii_digit (hd r)"
  shows "unit_at text i = [u]" "text ! i = u" "i < length text"
proof -
  show "i < length text"
    using assms(1) by (rule_tac ccontr) simp
  then show "text ! i = u"
    using assms(1) by (simp add: nth_via_drop)
  then show "unit_at text i = [u]"
    using assms by (cases r) (auto simp: unit_at_def starts_with_def ascii_digit_def)
qed

lemma scan_part:
  assumes d: "drop i text = nat_str n @ u # r" and u: "time_unit u" and r: "r = [] \<or> ascii_digit (hd r)"
  shows "duration_scan text i sofar [] =
    duration_scan text (i + length (nat_str n) + 1) (add_part sofar [u] (to_flt (of_nat n))) []"
proof -
  let ?j = "i + length (nat_str n)"
  have dj: "drop ?j text = u # r"
    using d by (metis append_eq_conv_conj drop_drop add.commute)
  note uj = unit_at_single [OF dj u r]
  have nd: "\<not> isdigit u" "u \<noteq> CHR ''.''"
    using u by (auto simp: isdigit_def ascii_digit_def)
  have "duration_scan text i sofar [] = duration_scan text ?j sofar (nat_str n)"
    using scan_digits [OF d nat_str_digits] by simp
  also have "\<dots> = duration_scan text (?j + 1) (add_part sofar [u] (to_flt (of_nat n))) []"
    using uj nd py_float_digits [OF nat_str_digits nat_str_ne] by (subst duration_scan.simps) (simp add: read_nat_str)
  finally show ?thesis .
qed

lemma render_Cons: "render_duration ((n, u) # ps) = nat_str n @ u # render_duration ps"
  by (simp add: render_duration_def)

lemma render_hd: "render_duration ps = [] \<or> ascii_digit (hd (render_duration ps))"
proof (cases ps)
  case (Cons p qs)
  then show ?thesis
    using nat_str_digits [of "fst p"] nat_str_ne [of "fst p"]
    by (cases p) (auto simp: render_Cons hd_append list_all_iff simp del: nat_str_ne)
qed (simp add: render_duration_def)

lemma scan_render:
  "drop i text = render_duration ps \<Longrightarrow> list_all (\<lambda>(n, u). time_unit u) ps \<Longrightarrow>
   duration_scan text i sofar [] = Some (scan_end (fold (\<lambda>(n, u) t. add_part t [u] (to_flt (of_nat n))) ps sofar) [])"
proof (induction ps arbitrary: i sofar)
  case Nil
  then show ?case
    by (subst duration_scan.simps) (simp add: render_duration_def)
next
  case (Cons p ps)
  obtain n u where p: "p = (n, u)" by (cases p)
  have d: "drop i text = nat_str n @ u # render_duration ps" and u: "time_unit u"
    using Cons.prems by (auto simp: p render_Cons)
  have "drop (i + length (nat_str n) + 1) text = render_duration ps"
    using arg_cong [OF d, of "drop (length (nat_str n) + 1)"] by (simp add: add.commute)
  from Cons.IH [OF this] show ?case
    using scan_part [OF d u render_hd] Cons.prems(2) by (simp add: p)
qed

lemma fl64_of_nat: "n < 2 ^ 53 \<Longrightarrow> fl64 (of_nat n) = of_nat n"
  unfolding fl64_def by (rule sig_round_exact [of 2 _ "int n" 0]) auto

lemma to_flt_of_nat: "n < 2 ^ 53 \<Longrightarrow> to_flt (of_nat n) = Fin (of_nat n)"
proof -
  assume *: "n < 2 ^ 53"
  then have "(of_nat n :: rat) < 2 ^ 53"
    by (metis of_nat_less_iff of_nat_numeral of_nat_power)
  also have "\<dots> < 2 ^ 1024"
    by simp
  finally show ?thesis
    using * by (simp add: to_flt_def fl64_of_nat Let_def)
qed

lemma add_part_nat:
  assumes "time_unit u" "t + n * unit_factor u < 2 ^ 53"
  shows "add_part (Fin (of_nat t)) [u] (to_flt (of_nat n)) = Fin (of_nat (t + n * unit_factor u))"
proof -
  have "n \<le> n * unit_factor u"
    by simp
  then have n: "n < 2 ^ 53" "n * unit_factor u < 2 ^ 53"
    using assms(2) by linarith+
  have k: "unit_seconds [u] = Some (of_nat (unit_factor u))"
    using assms(1) by (auto simp: unit_seconds_def)
  have "flt_scale (of_nat (unit_factor u)) (Fin (of_nat n)) = Fin (of_nat (n * unit_factor u))"
    using to_flt_of_nat [OF n(2)] by (simp add: mult.commute del: unit_factor.simps)
  then show ?thesis
    using to_flt_of_nat [OF n(1)] to_flt_of_nat [OF assms(2)]
    by (simp add: add_part_def k del: unit_factor.simps)
qed

lemma fold_parts:
  "list_all (\<lambda>(n, u). time_unit u) ps \<Longrightarrow> t + duration_of ps < 2 ^ 53 \<Longrightarrow>
   fold (\<lambda>(n, u) t. add_part t [u] (to_flt (of_nat n))) ps (Fin (of_nat t)) = Fin (of_nat (t + duration_of ps))"
proof (induction ps arbitrary: t)
  case (Cons p ps)
  obtain n u where p: "p = (n, u)" by (cases p)
  have *: "duration_of (p # ps) = n * unit_factor u + duration_of ps"
    by (simp add: p duration_of_def)
  then show ?case
    using Cons.IH [of "t + n * unit_factor u"] Cons.prems add_part_nat [of u t n]
    by (simp add: p del: unit_factor.simps)
qed (simp add: duration_of_def)

lemma py_float_error: "py_float s = Inl e \<Longrightarrow> e = ValueError"
  by (auto simp: py_float_def split: option.splits)

lemma scan_end_error: "scan_end sofar number = Inl e \<Longrightarrow> e = ValueError"
  by (auto simp: scan_end_def py_float_error split: if_splits sum.splits)

lemma duration_scan_error: "duration_scan text i sofar number = Some (Inl e) \<Longrightarrow> e = ValueError"
proof (induction "length text - i" arbitrary: i sofar number rule: less_induct)
  case less
  have "length text - (i + length (unit_at text i)) < length text - i" if "i < length text"
    using that unit_at_pos [of "text" i] by linarith
  then show ?case
    using less.prems less.hyps [of "i + 1"] less.hyps [of "i + length (unit_at text i)"]
    by (subst (asm) duration_scan.simps) (auto simp: scan_end_error py_float_error split: if_splits sum.splits)
qed

lemma strip_between:
  assumes "s \<noteq> []" "\<not> is_ws (hd s)" "\<not> is_ws (last s)"
  shows "strip s = s"
proof -
  have *: "dropWhile is_ws t = t" if "t \<noteq> []" "\<not> is_ws (hd t)" for t
    using that by (cases t) auto
  show ?thesis
    using assms by (simp add: strip_def * hd_rev)
qed

lemma strip_render:
  assumes "list_all (\<lambda>(n, u). time_unit u) ps" "ps \<noteq> []"
  shows "strip (render_duration ps) = render_duration ps"
proof (rule strip_between)
  obtain qs n u where ps: "ps = qs @ [(n, u)]"
    using assms(2) by (metis old.prod.exhaust rev_exhaust)
  then show ne: "render_duration ps \<noteq> []"
    by (simp add: render_duration_def)
  have "last (render_duration ps) = u"
    by (simp add: ps render_duration_def)
  then show "\<not> is_ws (last (render_duration ps))"
    using assms(1) by (auto simp: ps is_ws_def)
  show "\<not> is_ws (hd (render_duration ps))"
    using render_hd [of ps] ne digit_not_ws by blast
qed

lemma duration_of_render:
  assumes "ps \<noteq> []" "list_all (\<lambda>(n, u). time_unit u) ps" "duration_of ps < 2 ^ 53"
  shows "duration_s (render_duration ps) = Some (Inr (Some (Fin (of_nat (duration_of ps)))))"
proof -
  obtain n u qs where ps: "ps = (n, u) # qs" and u: "time_unit u"
    using assms(1,2) by (cases ps) auto
  have "py_float (render_duration ps) = Inl ValueError"
    using py_float_not_number [OF nat_str_digits nat_str_ne u] strip_render [OF assms(2,1)] by (simp add: ps render_Cons)
  moreover have "render_duration ps \<noteq> []"
    by (simp add: ps render_Cons)
  ultimately show ?thesis
    using scan_render [of 0 "render_duration ps" ps "Fin 0"] fold_parts [of ps 0] assms strip_render [OF assms(2,1)]
    by (simp add: duration_s_def scan_end_def)
qed

text \<open>C27: The loop over a reset duration ends on every text, and what it can do there is return or raise
  ValueError. A duration rendered as numbers of hours, minutes and seconds is read back as exactly its
  number of seconds, in any order of the units.\<close>

theorem duration_parser_returns:
  "(\<exists>r. duration_s raw = Some r \<and> (\<forall>e. r = Inl e \<longrightarrow> e = ValueError))
   \<and> (ps \<noteq> [] \<and> list_all (\<lambda>(n, u). time_unit u) ps \<and> duration_of ps < 2 ^ 53
      \<longrightarrow> duration_s (render_duration ps) = Some (Inr (Some (Fin (of_nat (duration_of ps))))))"
proof -
  obtain r where r: "duration_s raw = Some r"
    using duration_s_returns by blast
  have "e = ValueError" if "r = Inl e" for e
    using r that duration_scan_error by (auto simp: duration_s_def Let_def split: if_splits sum.splits)
  then show ?thesis
    using r duration_of_render by blast
qed

theorem duration_parser_returns_witness:
  "duration_s ''2m59s'' = Some (Inr (Some (Fin 179)))"
proof -
  have "render_duration [(2, CHR ''m''), (59, CHR ''s'')] = ''2m59s''"
    by code_simp
  then show ?thesis
    using duration_parser_returns [of "[]" "[(2, CHR ''m''), (59, CHR ''s'')]"] by (simp add: duration_of_def)
qed

section \<open>Roles\<close>

lemma all_ok_Inr: "all_ok f xs = Inr ys \<longleftrightarrow> length ys = length xs \<and> (\<forall>i < length xs. f (xs ! i) = Inr (ys ! i))"
proof (induction xs arbitrary: ys)
  case (Cons x xs)
  show ?case
  proof (cases ys)
    case Nil
    then show ?thesis by (auto split: sum.splits)
  next
    case (Cons y zs)
    then show ?thesis
      using Cons.IH [of zs] by (auto simp: less_Suc_eq_0_disj split: sum.splits)
  qed
qed auto

lemma all_ok_mem: "all_ok f xs = Inr ys \<Longrightarrow> y \<in> set ys \<Longrightarrow> \<exists>x \<in> set xs. f x = Inr y"
  by (auto simp: all_ok_Inr in_set_conv_nth [of y] intro!: bexI [OF _ nth_mem])

lemma all_ok_mem': "all_ok f xs = Inr ys \<Longrightarrow> x \<in> set xs \<Longrightarrow> \<exists>y \<in> set ys. f x = Inr y"
  by (auto simp: all_ok_Inr in_set_conv_nth)

lemma dropWhile_id_iff: "dropWhile P s = s \<longleftrightarrow> s = [] \<or> \<not> P (hd s)"
proof (cases s)
  case (Cons a t)
  have "length (dropWhile P t) \<le> length t"
    by (rule length_dropWhile_le)
  then show ?thesis
    using Cons by auto
qed simp

lemma strip_strip [simp]: "strip (strip s) = strip s"
proof -
  let ?t = "dropWhile is_ws s" and ?u = "strip s"
  have u: "?u = rev (dropWhile is_ws (rev ?t))"
    by (simp add: strip_def)
  have "?u = [] \<or> \<not> is_ws (last ?u)"
    unfolding u last_rev by (metis hd_dropWhile rev_is_Nil_conv)
  moreover have "\<not> is_ws (hd ?u)" if "?u \<noteq> []"
  proof -
    obtain w where "rev ?t = w @ dropWhile is_ws (rev ?t)"
      by (metis takeWhile_dropWhile_id)
    then have "?t = ?u @ rev w"
      by (metis u rev_append rev_rev_ident)
    then show ?thesis
      using that by (metis hd_append2 hd_dropWhile append_is_Nil_conv)
  qed
  ultimately show ?thesis
  proof (cases "?u = []")
    case True
    then show ?thesis
      by (simp only: True) (simp add: strip_def)
  qed (simp add: strip_between)
qed

lemma parse_model_Inr:
  assumes "parse_model s = Inr m"
  shows "spec_text m = strip s" "parse_model (spec_text m) = Inr m" "ms_provider m \<noteq> []" "ms_model m \<noteq> []" "\<exists>p. provider_of m = Inr p"
proof -
  let ?t = "strip s"
  have m: "m = \<lparr>ms_provider = takeWhile (\<lambda>x. x \<noteq> CHR '':'') ?t, ms_model = drop 1 (dropWhile (\<lambda>x. x \<noteq> CHR '':'') ?t)\<rparr>"
    and c: "CHR '':'' \<in> set ?t" and ne: "ms_provider m \<noteq> []" "ms_model m \<noteq> []" and p: "dget providers (ms_provider m) \<noteq> None"
    using assms by (auto simp: parse_model_def partition_on_def split: if_splits)
  have "dropWhile (\<lambda>x. x \<noteq> CHR '':'') ?t = CHR '':'' # drop 1 (dropWhile (\<lambda>x. x \<noteq> CHR '':'') ?t)"
  proof -
    have "dropWhile (\<lambda>x. x \<noteq> CHR '':'') ?t \<noteq> []"
      using c by (auto simp: dropWhile_eq_Nil_conv)
    then show ?thesis
      using hd_dropWhile [of "\<lambda>x. x \<noteq> CHR '':''" ?t] by (cases "dropWhile (\<lambda>x. x \<noteq> CHR '':'') ?t") auto
  qed
  then show sp: "spec_text m = ?t"
    using takeWhile_dropWhile_id [of "\<lambda>x. x \<noteq> CHR '':''" ?t] by (simp add: m spec_text_def)
  show "parse_model (spec_text m) = Inr m"
    using assms by (simp add: sp parse_model_def)
  show "ms_provider m \<noteq> []" "ms_model m \<noteq> []" "\<exists>p. provider_of m = Inr p"
    using ne p by (auto simp: provider_of_def)
qed

lemma set_in_order [simp]: "set (in_order xs) = set xs" "distinct (in_order xs)"
  by (simp_all add: in_order_def)

lemma hd_in_order: "hd (in_order (x # xs)) = x"
proof -
  have "ys @ [x] \<noteq> [] \<Longrightarrow> last (remdups (ys @ [x])) = x" for ys
    by (induction ys) auto
  then show ?thesis
    by (simp add: in_order_def hd_rev)
qed

lemma in_order_Nil [simp]: "in_order xs = [] \<longleftrightarrow> xs = []"
  by (simp add: in_order_def)

lemma role_config_Inr:
  assumes "role_config_of st role = Inr c"
  shows "rc_role c = role" "distinct (rc_chain c)" "rc_chain c = [] \<longleftrightarrow> strip (st (''llm_role_'' @ role)) = []"
    and "m \<in> set (rc_chain c) \<Longrightarrow> \<exists>s. parse_model s = Inr m"
    and "rc_chain c \<noteq> [] \<Longrightarrow> parse_model (strip (st (''llm_role_'' @ role))) = Inr (hd (rc_chain c))"
proof -
  let ?p = "strip (st (''llm_role_'' @ role))"
  let ?fs = "filter (\<lambda>f. f \<noteq> []) (map strip (split_on (CHR '','') (st (''llm_role_'' @ role @ ''_fallbacks''))))"
  show "rc_role c = role"
    using assms by (auto simp: role_config_of_def Let_def split: if_splits sum.splits)
  consider "?p = []" "rc_chain c = []" | ch where "?p \<noteq> []" "all_ok parse_model (?p # ?fs) = Inr ch" "rc_chain c = in_order ch"
    using assms by (auto simp: role_config_of_def Let_def split: if_splits sum.splits)
  note cs = this
  show "distinct (rc_chain c)"
    using cs by cases auto
  show "rc_chain c = [] \<longleftrightarrow> ?p = []"
    using cs by cases (auto split: sum.splits)
  show "\<exists>s. parse_model s = Inr m" if "m \<in> set (rc_chain c)"
    using cs that by cases (use all_ok_mem in fastforce)+
  show "parse_model ?p = Inr (hd (rc_chain c))" if "rc_chain c \<noteq> []"
    using cs that by cases (auto simp: hd_in_order split: sum.splits)
qed

lemma role_configs_Inr:
  assumes "role_configs st = Inr rs"
  shows "map fst rs = roles" "(r, c) \<in> set rs \<Longrightarrow> role_config_of st r = Inr c"
proof -
  obtain cs where cs: "all_ok (role_config_of st) roles = Inr cs" "rs = map (\<lambda>c. (rc_role c, c)) cs"
    using assms by (auto simp: role_configs_def split: sum.splits)
  have n: "length cs = length roles" and i: "\<And>i. i < length roles \<Longrightarrow> role_config_of st (roles ! i) = Inr (cs ! i)"
    using cs(1) by (auto simp: all_ok_Inr)
  have "map rc_role cs = roles"
    using n role_config_Inr(1) [OF i] by (simp add: list_eq_iff_nth_eq)
  then show "map fst rs = roles"
    by (simp add: cs(2) o_def)
  show "role_config_of st r = Inr c" if "(r, c) \<in> set rs"
  proof -
    obtain j where j: "j < length cs" "r = rc_role (cs ! j)" "c = cs ! j"
      using \<open>(r, c) \<in> set rs\<close> by (auto simp: cs(2) in_set_conv_nth)
    then show ?thesis
      using i [of j] n role_config_Inr(1) [OF i [of j]] by simp
  qed
qed

definition usable :: "settings \<Rightarrow> model_spec \<Rightarrow> bool" where
  "usable st m =
     (\<exists>p. provider_of m = Inr p \<and> (pv_key_optional p \<or> api_key p st \<noteq> None)
        \<and> (pv_base_url_setting p = None \<or> (\<exists>u. base_url p st = Some u \<and> u \<noteq> [])))"

lemma model_usable_iff: "model_usable st m = Inr True \<longleftrightarrow> usable st m"
  by (auto simp: model_usable_def usable_def split: sum.splits option.splits)

text \<open>A validated configuration can be used. Validation returns exactly the five roles or raises ConfigError. Every
  role it returns is enabled exactly when its primary setting is not blank, its chain starts with the primary, has no
  duplicates, and each of its models reads back from its own text, names a known provider, and has the key and the
  address that provider needs.\<close>

theorem validated_roles_usable:
  assumes "validate_roles st = Inr rs"
  shows "map fst rs = roles \<and> (\<forall>(r, c) \<in> set rs. rc_role c = r \<and> distinct (rc_chain c)
      \<and> (role_enabled c \<longleftrightarrow> strip (st (''llm_role_'' @ r)) \<noteq> [])
      \<and> (role_enabled c \<longrightarrow> parse_model (strip (st (''llm_role_'' @ r))) = Inr (hd (rc_chain c)))
      \<and> (\<forall>m \<in> set (rc_chain c). parse_model (spec_text m) = Inr m \<and> usable st m))"
proof -
  obtain oks where rs: "role_configs st = Inr rs" and oks: "all_ok (model_usable st) (concat (map (\<lambda>(_, c). rc_chain c) rs)) = Inr oks" "list_all (\<lambda>ok. ok) oks"
    using assms by (auto simp: validate_roles_def split: sum.splits if_splits)
  have u: "usable st m" if m: "(r, c) \<in> set rs" "m \<in> set (rc_chain c)" for r c m
  proof -
    have "m \<in> set (concat (map (\<lambda>(_, c). rc_chain c) rs))"
      using m by force
    then obtain ok where "ok \<in> set oks" "model_usable st m = Inr ok"
      using all_ok_mem' [OF oks(1)] by blast
    then show ?thesis
      using oks(2) by (auto simp: list_all_iff simp flip: model_usable_iff)
  qed
  have c: "role_config_of st r = Inr c" if "(r, c) \<in> set rs" for r c
    using role_configs_Inr(2) [OF rs that] .
  show ?thesis
  proof (intro conjI ballI, rule role_configs_Inr(1) [OF rs], clarify)
    fix r c' assume rc: "(r, c') \<in> set rs"
    note f = role_config_Inr [OF c [OF rc]]
    have "parse_model (spec_text m) = Inr m" if "m \<in> set (rc_chain c')" for m
      using f(4) [OF that] parse_model_Inr(2) by blast
    then show "rc_role c' = r \<and> distinct (rc_chain c') \<and> (role_enabled c' \<longleftrightarrow> strip (st (''llm_role_'' @ r)) \<noteq> [])
      \<and> (role_enabled c' \<longrightarrow> parse_model (strip (st (''llm_role_'' @ r))) = Inr (hd (rc_chain c')))
      \<and> (\<forall>m \<in> set (rc_chain c'). parse_model (spec_text m) = Inr m \<and> usable st m)"
      using f(1,2,3,5) u [OF rc] by (simp add: role_enabled_def)
  qed
qed

definition groq_settings :: settings where
  "groq_settings k =
     (if k = ''llm_role_veto'' then '' groq:llama '' else if k = ''llm_role_veto_fallbacks'' then ''ollama:phi, ,groq:llama''
      else if k = ''groq_api_key'' then ''secret'' else [])"

lemma groq_validates:
  "validate_roles groq_settings = Inr (map (\<lambda>r. (r, \<lparr>rc_role = r,
     rc_chain = (if r = ''veto'' then [\<lparr>ms_provider = ''groq'', ms_model = ''llama''\<rparr>, \<lparr>ms_provider = ''ollama'', ms_model = ''phi''\<rparr>] else []),
     rc_effort = None\<rparr>)) roles)"
  by code_simp

theorem validated_roles_usable_witness:
  "usable groq_settings \<lparr>ms_provider = ''ollama'', ms_model = ''phi''\<rparr>"
  using validated_roles_usable [OF groq_validates] by (simp add: roles_def)

end
