(* ===== verification/LLM_Budget.thy ===== *)
theory LLM_Budget
  imports LLM_Props
begin

text \<open>
  The budget of the router while calls overlap. Calls of several tasks interleave where the code awaits a client, so the
  router is a transition system: a call is launched when its gate lets it through, it is in flight, and it lands with the
  client's result. The three meters of the ledger share one argument, a locale with an interpretation for each.
\<close>

section \<open>Calls in flight\<close>

record 'a flight =
  fl_env :: "'a llm_env"
  fl_request :: "'a request"
  fl_model :: model_spec
  fl_index :: nat

definition landed_inr :: "router_config \<Rightarrow> model_spec \<Rightarrow> 'a client_result \<Rightarrow> rat option" where
  "landed_inr cfg m res = (case res of Replied rep \<Rightarrow> to_inr (cost_usd (rg_prices cfg) m (cr_usage rep)) (rg_usd_inr cfg) | _ \<Rightarrow> None)"

text \<open>What is assumed of the clients: no reply costs more than \<open>mc\<close>, and a free model reports no cost.\<close>

definition fair_result :: "router_config \<Rightarrow> rat \<Rightarrow> model_spec \<Rightarrow> 'a client_result \<Rightarrow> bool" where
  "fair_result cfg mc m res =
     ((case landed_inr cfg m res of Some x \<Rightarrow> x \<le> mc | None \<Rightarrow> True)
      \<and> (costs_nothing cfg m \<longrightarrow> (case res of Replied rep \<Rightarrow> ut_reported_usd (cr_usage rep) \<in> {None, Some 0} | _ \<Rightarrow> True)))"

definition launched :: "model_spec \<Rightarrow> router \<Rightarrow> router" where
  "launched m rt = rt\<lparr>rt_breakers := dset (spec_text m) (breaker_of rt (spec_text m)) (rt_breakers rt)\<rparr>"

inductive hop :: "router_config \<Rightarrow> rat \<Rightarrow> nat \<Rightarrow> router \<times> 'a flight list \<Rightarrow> router \<times> 'a flight list \<Rightarrow> bool"
  for cfg mc k where
  Roll: "hop cfg mc k (rt, fs) (roll_day now rt, fs)"
| Served: "cached_reply (rq :: 'a request) (cache_key env rq m) rt \<noteq> None
    \<or> gate_model cfg (rq_role rq) (rq_decision_id rq) m (le_start env i) (launched m rt) \<noteq> None
    \<Longrightarrow> hop cfg mc k (rt, fs :: 'a flight list) (fst (attempt env cfg rq c m i rt), fs)"
| Launch: "cached_reply rq (cache_key env rq m) rt = None
    \<Longrightarrow> gate_model cfg (rq_role rq) (rq_decision_id rq) m (le_start env i) (launched m rt) = None
    \<Longrightarrow> length fs < k
    \<Longrightarrow> hop cfg mc k (rt, fs) (launched m rt, \<lparr>fl_env = env, fl_request = rq, fl_model = m, fl_index = i\<rparr> # fs)"
| Land: "fair_result cfg mc (fl_model f) res
    \<Longrightarrow> hop cfg mc k (rt, xs @ f # ys)
          (fst (settle_call (fl_env f) cfg (fl_request f) (fl_model f) (fl_index f) res rt), xs @ ys)"



section \<open>What an attempt does to the ledger\<close>

lemma record_call_ledger: "record_call env rq m i t oc u usd inr hit rt = (rt', r) \<Longrightarrow> rt_ledger rt' = rt_ledger rt"
  by (auto simp: record_call_def Let_def split: if_splits)

lemma answered_fst: "fst (answered x a) = fst x"
  by (cases x) (simp add: answered_def)

lemma record_ledger [simp]: "rt_ledger (fst (record_call env rq m i t oc u usd inr hit rt)) = rt_ledger rt"
  using record_call_ledger by (metis prod.collapse)

lemma pause_ledger [simp]: "rt_ledger (pause_provider p now s rt) = rt_ledger rt"
  by (simp add: pause_provider_def Let_def)

lemma breaker_ledger [simp]: "rt_ledger (breaker_failed cfg sp now rt) = rt_ledger rt"
  by (simp add: breaker_failed_def Let_def)

lemma failure_ledger [simp]: "rt_ledger (settle_failure cfg m now e rt) = rt_ledger rt"
  by (cases e) (auto simp: settle_failure_def)

lemma launched_ledger [simp]: "rt_ledger (launched m rt) = rt_ledger rt"
  by (simp add: launched_def)

lemma store_ledger [simp]: "rt_ledger (store_reply rq key v rt) = rt_ledger rt"
  by (simp add: store_reply_def)

lemma rate_header_same:
  assumes "rate_header p now hs x rt = Inr rt'"
  shows "rt_ledger rt' = rt_ledger rt \<and> rt_log rt' = rt_log rt"
  using assms by (auto simp: rate_header_def pause_provider_def Let_def split: prod.splits if_splits option.splits sum.splits)

lemma fold_ok_same:
  assumes "\<And>x s s'. f x s = Inr s' \<Longrightarrow> P s \<Longrightarrow> P s'" "P s"
  shows "P (fst (fold_ok f xs s))"
  using assms(2) by (induction xs arbitrary: s) (auto split: sum.splits intro: assms(1))

lemma read_rate_headers_same [simp]:
  "rt_ledger (fst (read_rate_headers p now hs rt)) = rt_ledger rt"
  "rt_log (fst (read_rate_headers p now hs rt)) = rt_log rt"
proof -
  have "(\<lambda>s. rt_ledger s = rt_ledger rt \<and> rt_log s = rt_log rt) (fst (fold_ok (rate_header p now hs) rate_headers rt))"
    by (rule fold_ok_same) (auto dest: rate_header_same)
  then show "rt_ledger (fst (read_rate_headers p now hs rt)) = rt_ledger rt" "rt_log (fst (read_rate_headers p now hs rt)) = rt_log rt"
    by (simp_all add: read_rate_headers_def)
qed

lemma settle_ledger:
  "rt_ledger (fst (settle_call env cfg rq m i res rt)) = rt_ledger rt
   \<or> (\<exists>x. landed_inr cfg m res = Some x \<and> x \<noteq> 0
        \<and> rt_ledger (fst (settle_call env cfg rq m i res rt)) = ledger_add (rq_role rq) (rq_decision_id rq) x (rt_ledger rt))"
proof (cases res)
  case (Replied rep)
  let ?rt1 = "rt\<lparr>rt_breakers := dset (spec_text m) new_breaker (rt_breakers rt)\<rparr>"
  obtain rt2 r2 where r2: "read_rate_headers (ms_provider m) (le_start env i) (cr_headers rep) ?rt1 = (rt2, r2)"
    by fastforce
  have l2: "rt_ledger rt2 = rt_ledger rt"
    using read_rate_headers_same(1) [of "ms_provider m" "le_start env i" "cr_headers rep" ?rt1] by (simp add: r2)
  show ?thesis
    unfolding Replied settle_call_def settle_reply_def landed_inr_def
    by (auto simp: r2 l2 Let_def split: sum.splits option.splits prod.splits if_splits dest!: record_call_ledger)
qed (simp_all add: settle_call_def answered_fst)

lemma served_ledger:
  assumes "cached_reply rq (cache_key env rq m) rt \<noteq> None
    \<or> gate_model cfg (rq_role rq) (rq_decision_id rq) m (le_start env i) (launched m rt) \<noteq> None"
  shows "rt_ledger (fst (attempt env cfg rq c m i rt)) = rt_ledger rt"
  using assms by (auto simp: attempt_def answered_fst launched_def Let_def split: option.splits)

section \<open>One argument for three meters\<close>

lemma dadd_mono: "a \<le> a' \<Longrightarrow> b \<le> b' \<Longrightarrow> dadd a b \<le> dadd a' b'"
  unfolding dadd_def by (intro dec28_mono add_mono)

lemma dadd_ge: "dec28 a = a \<Longrightarrow> 0 \<le> b \<Longrightarrow> a \<le> dadd a b"
  unfolding dadd_def by (metis dec28_mono le_add_same_cancel1)

text \<open>The most a meter can show when \<open>n\<close> calls of at most \<open>mc\<close> land.\<close>

definition after_calls :: "rat \<Rightarrow> nat \<Rightarrow> rat \<Rightarrow> rat" where
  "after_calls mc n x = ((\<lambda>y. dadd y mc) ^^ n) x"

lemma after_calls_Suc: "after_calls mc (Suc n) x = after_calls mc n (dadd x mc)"
  by (simp only: after_calls_def funpow_Suc_right o_apply)

lemma after_calls_0 [simp]: "after_calls mc 0 x = x"
  by (simp add: after_calls_def)

lemma after_calls_mono: "x \<le> y \<Longrightarrow> after_calls mc n x \<le> after_calls mc n y"
  by (induction n arbitrary: x y) (auto simp: after_calls_Suc intro: dadd_mono)

lemma dec28_dadd [simp]: "dec28 (dadd a b) = dadd a b"
  by (simp add: dadd_def)

lemma after_calls_ge: "0 \<le> mc \<Longrightarrow> dec28 x = x \<Longrightarrow> x \<le> after_calls mc n x"
  by (induction n arbitrary: x) (auto simp: after_calls_Suc intro: order_trans [OF dadd_ge])

lemma after_calls_more:
  assumes "0 \<le> mc" "dec28 x = x" "n \<le> n'"
  shows "after_calls mc n x \<le> after_calls mc n' x"
  using assms(3)
proof (induction n' rule: dec_induct)
  case (step n')
  have "after_calls mc n' x \<le> after_calls mc n' (dadd x mc)"
    using assms by (intro after_calls_mono dadd_ge)
  then show ?case
    using step.IH by (simp add: after_calls_Suc)
qed simp

locale spend_meter =
  fixes cfg :: router_config and meter :: "spend_ledger \<Rightarrow> rat" and cap :: rat
    and relevant :: "string \<Rightarrow> string option \<Rightarrow> bool"
  assumes meter_fresh: "meter (new_ledger d) = 0"
    and meter_add: "meter (ledger_add r dc x l) = (if relevant r dc then dadd (meter l) x else meter l)"
    and meter_stops: "cap \<noteq> 0 \<Longrightarrow> relevant r dc \<Longrightarrow> cap \<le> meter l \<Longrightarrow> ledger_exceeded r dc (rg_budgets cfg) l"
begin

definition counts :: "'a flight \<Rightarrow> bool" where
  "counts f = (relevant (rq_role (fl_request f)) (rq_decision_id (fl_request f)) \<and> \<not> costs_nothing cfg (fl_model f))"

definition metered :: "rat \<Rightarrow> nat \<Rightarrow> router \<times> 'a flight list \<Rightarrow> bool" where
  "metered mc k s =
     (case s of (rt, fs) \<Rightarrow>
        dec28 (meter (rt_ledger rt)) = meter (rt_ledger rt) \<and> length fs \<le> k
        \<and> after_calls mc (length (filter counts fs)) (meter (rt_ledger rt)) \<le> after_calls mc k (dec28 cap))"

lemma metered_below:
  assumes "dec28 (meter l) = meter l" "meter l < cap" "0 \<le> mc" "n \<le> k"
  shows "after_calls mc n (meter l) \<le> after_calls mc k (dec28 cap)"
proof -
  have "meter l \<le> dec28 cap"
    using assms(1,2) dec28_mono [of "meter l" cap] by simp
  then have "after_calls mc n (meter l) \<le> after_calls mc n (dec28 cap)"
    by (rule after_calls_mono)
  also have "\<dots> \<le> after_calls mc k (dec28 cap)"
    using assms by (intro after_calls_more) auto
  finally show ?thesis .
qed

lemma metered_fresh:
  assumes "l = new_ledger d" "0 \<le> mc" "n \<le> k" "0 < cap"
  shows "dec28 (meter l) = meter l" "after_calls mc n (meter l) \<le> after_calls mc k (dec28 cap)"
  using assms meter_fresh metered_below [of l mc n k] by auto

lemma free_lands_nothing:
  assumes "costs_nothing cfg m" "fair_result cfg mc m res" "landed_inr cfg m res = Some x"
  shows "x = 0"
proof -
  obtain rep where rep: "res = Replied rep"
    using assms(3) by (auto simp: landed_inr_def split: client_result.splits)
  obtain p where p: "price_of (rg_prices cfg) m = Some p" "pr_input p = 0" "pr_output p = 0"
    using assms(1) by (auto simp: costs_nothing_def split: option.splits)
  note zero = round_half_even_of_int [of 0, simplified]
  have "cost_usd (rg_prices cfg) m (cr_usage rep) = Some 0"
    using assms(1,2) p zero by (auto simp: rep fair_result_def cost_usd_def dmul_def dadd_def ddiv_def quantize_even_def Let_def)
  then show ?thesis
    using assms(3) zero by (auto simp: landed_inr_def rep to_inr_def dmul_def quantize_even_def)
qed

lemma metered_land:
  fixes f :: "'a flight"
  assumes "metered mc k (rt, xs @ f # ys)" "fair_result cfg mc (fl_model f) res" "0 \<le> mc"
  shows "metered mc k (fst (settle_call (fl_env f) cfg (fl_request f) (fl_model f) (fl_index f) res rt), xs @ ys)"
proof -
  let ?l = "rt_ledger rt" and ?n = "length (filter counts (xs @ ys))"
  let ?l' = "rt_ledger (fst (settle_call (fl_env f) cfg (fl_request f) (fl_model f) (fl_index f) res rt))"
  have m: "dec28 (meter ?l) = meter ?l" "length (xs @ ys) \<le> k"
    and b: "after_calls mc (if counts f then Suc ?n else ?n) (meter ?l) \<le> after_calls mc k (dec28 cap)"
    using assms(1) by (auto simp: metered_def)
  have keep: "after_calls mc ?n (meter ?l) \<le> after_calls mc k (dec28 cap)"
    using b m(1) assms(3) after_calls_more [of mc "meter ?l" ?n "Suc ?n"] by (auto split: if_splits)
  consider "?l' = ?l" | x where "landed_inr cfg (fl_model f) res = Some x" "x \<noteq> 0"
      "?l' = ledger_add (rq_role (fl_request f)) (rq_decision_id (fl_request f)) x ?l"
    using settle_ledger [of "fl_env f" cfg "fl_request f" "fl_model f" "fl_index f" res rt] by blast
  then show ?thesis
  proof cases
    case 2
    have x: "x \<le> mc" "\<not> costs_nothing cfg (fl_model f)"
      using 2(1,2) assms(2) free_lands_nothing [OF _ assms(2) 2(1)] by (auto simp: fair_result_def)
    show ?thesis
    proof (cases "counts f")
      case True
      have "after_calls mc ?n (dadd (meter ?l) x) \<le> after_calls mc (Suc ?n) (meter ?l)"
        using x(1) by (auto simp: after_calls_Suc intro: after_calls_mono dadd_mono)
      then show ?thesis
        using True b m by (auto simp: metered_def 2(3) meter_add counts_def)
    next
      case False
      then show ?thesis
        using x keep m by (auto simp: metered_def 2(3) meter_add counts_def)
    qed
  qed (use keep m in \<open>auto simp: metered_def\<close>)
qed

lemma metered_step:
  assumes "hop cfg mc k s s'" "metered mc k s" "0 \<le> mc" "0 < cap"
  shows "metered mc k s'"
  using assms
proof (cases rule: hop.cases)
  case (Roll rt fs now)
  show ?thesis
  proof (cases "sl_day (rt_ledger rt) = ist_date now")
    case False
    have "length (filter counts fs) \<le> k"
      using Roll assms(2) le_trans [OF length_filter_le [of counts fs]] by (simp add: metered_def)
    then show ?thesis
      using Roll False assms(2-4) metered_fresh [of "new_ledger (ist_date now)"] by (simp add: metered_def roll_day_def new_ledger_def)
  qed (use Roll assms in \<open>simp add: roll_day_def\<close>)
next
  case (Served rq env m rt i fs c)
  then show ?thesis
    using assms(2) served_ledger [OF Served(3)] by (simp add: metered_def)
next
  case (Launch rq env m rt i fs)
  let ?f = "\<lparr>fl_env = env, fl_request = rq, fl_model = m, fl_index = i\<rparr>"
  have m: "dec28 (meter (rt_ledger rt)) = meter (rt_ledger rt)"
    using Launch assms(2) by (simp add: metered_def)
  have "meter (rt_ledger rt) < cap" if "counts ?f"
    using that Launch(4) meter_stops assms(4) by (force simp: gate_model_def counts_def split: if_splits)
  moreover have "length (filter counts fs) < k"
    using Launch(5) length_filter_le [of counts fs] by linarith
  ultimately show ?thesis
    using Launch m assms(2,3) metered_below [of "rt_ledger rt" mc "Suc (length (filter counts fs))" k] by (auto simp: metered_def)
next
  case (Land f res rt xs ys)
  then show ?thesis
    using assms metered_land by blast
qed

lemma metered_run:
  assumes "(hop cfg mc k)\<^sup>*\<^sup>* (rt, []) s" "rt_ledger rt = new_ledger d" "0 \<le> mc" "0 < cap"
  shows "meter (rt_ledger (fst s)) \<le> after_calls mc k (dec28 cap)"
proof -
  have "metered mc k s"
    using assms(1)
  proof (induction rule: rtranclp_induct)
    case base
    then show ?case
      using metered_fresh [of "new_ledger d" d mc 0 k] assms(2-4) by (simp add: metered_def)
  next
    case (step y z)
    then show ?case
      using metered_step assms(3,4) by blast
  qed
  then obtain n where "dec28 (meter (rt_ledger (fst s))) = meter (rt_ledger (fst s))"
    "after_calls mc n (meter (rt_ledger (fst s))) \<le> after_calls mc k (dec28 cap)"
    by (cases s) (auto simp: metered_def)
  then show ?thesis
    using after_calls_ge [of mc "meter (rt_ledger (fst s))" n] assms(3) by linarith
qed

end

interpretation daily: spend_meter cfg sl_total "bl_daily_inr (rg_budgets cfg)" "\<lambda>_ _. True"
  for cfg
  by unfold_locales (auto simp: new_ledger_def ledger_add_def ledger_exceeded_def)

interpretation per_role: spend_meter cfg "\<lambda>l. dget_or 0 (sl_roles l) role" "dget_or 0 (bl_role_daily_inr (rg_budgets cfg)) role" "\<lambda>r _. r = role"
  for cfg role
  by unfold_locales
    (auto simp: new_ledger_def ledger_add_def ledger_exceeded_def dget_or_def dict_simps Let_def)

interpretation per_decision: spend_meter cfg "\<lambda>l. dget_or 0 (sl_decisions l) dc" "bl_decision_inr (rg_budgets cfg)" "\<lambda>_ d. d = Some dc \<and> dc \<noteq> []"
  for cfg dc
  by unfold_locales
    (auto simp: new_ledger_def ledger_add_def ledger_exceeded_def dget_or_def dict_simps Let_def split: option.splits)

text \<open>C23: No task can spend past a cap by more than what is already in flight. Let any number of tasks use the router
  at once, with at most k calls in flight, none costing more than mc, and free models reporting no cost. Then, at any
  moment of any interleaving, midnight included, the spend of the day, of each role and of each decision is at most its
  cap plus k calls, for every cap that is set.\<close>

theorem spend_within_caps:
  assumes "(hop cfg mc k)\<^sup>*\<^sup>* (new_router now None cache, [] :: 'a flight list) (rt, fs)" "0 \<le> mc"
  shows "(0 < bl_daily_inr (rg_budgets cfg) \<longrightarrow>
            sl_total (rt_ledger rt) \<le> after_calls mc k (dec28 (bl_daily_inr (rg_budgets cfg))))
    \<and> (0 < dget_or 0 (bl_role_daily_inr (rg_budgets cfg)) role \<longrightarrow>
            dget_or 0 (sl_roles (rt_ledger rt)) role \<le> after_calls mc k (dec28 (dget_or 0 (bl_role_daily_inr (rg_budgets cfg)) role)))
    \<and> (0 < bl_decision_inr (rg_budgets cfg) \<longrightarrow>
            dget_or 0 (sl_decisions (rt_ledger rt)) dc \<le> after_calls mc k (dec28 (bl_decision_inr (rg_budgets cfg))))"
proof -
  have fresh: "rt_ledger (new_router now None cache) = new_ledger (ist_date now)"
    by (simp add: new_router_def)
  show ?thesis
    using daily.metered_run [OF assms(1) fresh assms(2)] per_role.metered_run [OF assms(1) fresh assms(2)]
      per_decision.metered_run [OF assms(1) fresh assms(2)] by simp
qed

definition sample_model :: model_spec where
  "sample_model = \<lparr>ms_provider = ''groq'', ms_model = ''llama''\<rparr>"

definition sample_router :: router_config where
  "sample_router = \<lparr>rg_roles = [(''veto'', \<lparr>rc_role = ''veto'', rc_chain = [sample_model], rc_effort = None\<rparr>)],
     rg_prices = [(''groq:'', \<lparr>pr_input = 10, pr_output = 20, pr_cache_read = 1, pr_cache_write = 1\<rparr>)], rg_usd_inr = 80,
     rg_budgets = \<lparr>bl_daily_inr = 50, bl_role_daily_inr = [], bl_decision_inr = 0\<rparr>, rg_breaker_failures = 3, rg_cooldown = 120000000\<rparr>"

definition sample_request :: "string request" where
  "sample_request = \<lparr>rq_role = ''veto'', rq_messages = [(''user'', ''?'')], rq_prompt_version = ''v1'', rq_decision_id = Some ''d'',
     rq_book_id = None, rq_decode = Some, rq_encode = (\<lambda>s. s), rq_is_schema = (\<lambda>_. True)\<rparr>"

definition sample_reply :: "(string, string) dict \<Rightarrow> string client_reply" where
  "sample_reply headers = \<lparr>cr_parsed = ''ok'',
     cr_usage = \<lparr>ut_input = 100000, ut_output = 0, ut_cache_read = 0, ut_cache_write = 0, ut_reported_usd = Some 1\<rparr>, cr_headers = headers\<rparr>"

definition sample_llm_env :: "string client_result \<Rightarrow> string llm_env" where
  "sample_llm_env res = \<lparr>le_sha = (\<lambda>s. s), le_render = (\<lambda>ms. concat (map snd ms)), le_begin = 0, le_start = (\<lambda>_. 0), le_done = (\<lambda>_. 1),
     le_client = (\<lambda>_ _ _. res)\<rparr>"

lemma sample_inr: "to_inr (Some 1) 80 = Some 80"
  by code_simp

lemma sample_launch:
  "cached_reply sample_request (cache_key (sample_llm_env TimedOut) sample_request sample_model) (new_router 0 None None) = None"
  "gate_model sample_router ''veto'' (Some ''d'') sample_model 0 (launched sample_model (new_router 0 None None)) = None"
  by (simp_all add: cached_reply_def new_router_def gate_model_def launched_def breaker_of_def dget_or_def new_breaker_def
      ledger_exceeded_def sample_router_def new_ledger_def Let_def)

lemma sample_landed_inr: "landed_inr sample_router sample_model (Replied (sample_reply headers)) = Some 80"
  by (simp add: landed_inr_def sample_reply_def cost_usd_def sample_router_def sample_inr)

lemma sample_paid: "\<not> costs_nothing sample_router sample_model"
  by (simp add: costs_nothing_def price_of_def is_free_def sample_model_def sample_router_def ends_with_def starts_with_def spec_text_def)

lemma sample_fair: "fair_result sample_router 100 sample_model (Replied (sample_reply []))"
  by (simp add: fair_result_def sample_landed_inr sample_paid)

lemma dec28_80: "dec28 80 = 80"
  by (rule dec28_exact [of _ 0 80]) simp_all

lemma no_rate_headers: "read_rate_headers p now [] rt = (rt, Inr ())"
  by (simp add: read_rate_headers_def rate_headers_def rate_header_def)

lemma sample_cost: "cost_usd prices m (cr_usage (sample_reply headers)) = Some 1"
  by (simp add: cost_usd_def sample_reply_def)

lemma sample_landed:
  "sl_total (rt_ledger (fst (settle_call (sample_llm_env TimedOut) sample_router sample_request sample_model 0
     (Replied (sample_reply [])) (launched sample_model (new_router 0 None None))))) = 80"
proof -
  have u: "rg_usd_inr sample_router = 80" "cr_headers (sample_reply []) = []"
    by (simp_all add: sample_router_def sample_reply_def)
  have "rt_ledger (fst (settle_call (sample_llm_env TimedOut) sample_router sample_request sample_model 0
     (Replied (sample_reply [])) (launched sample_model (new_router 0 None None)))) = ledger_add ''veto'' (Some ''d'') 80 (new_ledger (ist_date 0))"
    by (auto simp: settle_call_def settle_reply_def no_rate_headers sample_cost u sample_inr Let_def new_router_def sample_request_def
        split: prod.splits sum.splits dest!: record_call_ledger)
  then show ?thesis
    by (simp add: ledger_add_def new_ledger_def dadd_def dec28_80)
qed

theorem spend_within_caps_witness:
  "\<exists>rt. (hop sample_router 100 1)\<^sup>*\<^sup>* (new_router 0 None None, [] :: string flight list) (rt, [])
     \<and> sl_total (rt_ledger rt) = 80 \<and> 80 \<le> after_calls 100 1 (dec28 50)"
proof -
  let ?rt1 = "launched sample_model (new_router 0 None None)"
  let ?f = "\<lparr>fl_env = sample_llm_env TimedOut, fl_request = sample_request, fl_model = sample_model, fl_index = 0\<rparr>"
  let ?rt2 = "fst (settle_call (sample_llm_env TimedOut) sample_router sample_request sample_model 0 (Replied (sample_reply [])) ?rt1)"
  have "hop sample_router 100 1 (new_router 0 None None, []) (?rt1, [?f])"
    using sample_launch by (intro hop.Launch) (simp_all add: sample_request_def sample_llm_env_def)
  moreover have "hop sample_router 100 1 (?rt1, [] @ ?f # []) (?rt2, [] @ [])"
    using hop.Land [of sample_router 100 ?f "Replied (sample_reply [])" 1 ?rt1 "[]" "[]"] sample_fair by simp
  ultimately have run: "(hop sample_router 100 1)\<^sup>*\<^sup>* (new_router 0 None None, [] :: string flight list) (?rt2, [])"
    by (auto intro: converse_rtranclp_into_rtranclp)
  have "sl_total (rt_ledger ?rt2) \<le> after_calls 100 1 (dec28 50)"
    using spend_within_caps [OF run] by (simp add: sample_router_def)
  then show ?thesis
    using run sample_landed by (intro exI [of _ ?rt2]) simp
qed

end
