(* ===== verification/LLM_Chain.thy ===== *)
theory LLM_Chain
  imports LLM_Budget
begin

text \<open>
  Whole calls of the router: the chain of a role is tried in order, one recorded event per attempt, a result always comes
  back when the replies are well-formed, and the ledger can be rebuilt from the recorded events.
\<close>

section \<open>Well-formed requests and replies\<close>

definition request_ok :: "'a llm_env \<Rightarrow> 'a request \<Rightarrow> bool" where
  "request_ok env rq = (rq_role rq \<noteq> [] \<and> rq_prompt_version rq \<noteq> [] \<and> le_sha env (le_render env (rq_messages rq)) \<noteq> [])"

definition reply_ok :: "router_config \<Rightarrow> model_spec \<Rightarrow> 'a client_reply \<Rightarrow> bool" where
  "reply_ok cfg m rep =
     (let u = cr_usage rep
      in 0 \<le> ut_input u \<and> 0 \<le> ut_output u \<and> 0 \<le> ut_cache_read u \<and> 0 \<le> ut_cache_write u
         \<and> (case cost_usd (rg_prices cfg) m u of Some x \<Rightarrow> 0 \<le> x | None \<Rightarrow> True) \<and> 0 \<le> rg_usd_inr cfg
         \<and> list_all (\<lambda>(_, reset). \<forall>e. duration_s (dget_or [] (cr_headers rep) reset) \<noteq> Some (Inl e)) rate_headers)"

definition client_ok :: "'a llm_env \<Rightarrow> router_config \<Rightarrow> bool" where
  "client_ok env cfg = (\<forall>i m args. case le_client env i m args of Replied rep \<Rightarrow> reply_ok cfg m rep | _ \<Rightarrow> True)"

definition model_ok :: "model_spec \<Rightarrow> bool" where
  "model_ok m = (ms_provider m \<noteq> [] \<and> ms_model m \<noteq> [])"

section \<open>One attempt\<close>

text \<open>The event of an attempt.\<close>

definition event_of :: "'a request \<Rightarrow> model_spec \<Rightarrow> nat \<Rightarrow> llm_call \<Rightarrow> bool" where
  "event_of rq m i c =
     (lc_attempt c = i \<and> lc_provider c = ms_provider m \<and> lc_model c = ms_model m \<and> lc_role c = rq_role rq \<and> lc_decision_id c = rq_decision_id rq)"

definition reports :: "'a request \<Rightarrow> model_spec \<Rightarrow> nat \<Rightarrow> router \<Rightarrow> router \<times> 'b result \<Rightarrow> bool" where
  "reports rq m i rt x = (\<exists>rt' a c. x = (rt', Inr a) \<and> rt_log rt' = rt_log rt @ [c] \<and> event_of rq m i c)"

lemma record_call_ok:
  assumes "request_ok env rq" "model_ok m" "0 \<le> ut_input u" "0 \<le> ut_output u" "0 \<le> ut_cache_read u" "0 \<le> ut_cache_write u"
    and "case usd of Some x \<Rightarrow> 0 \<le> x | None \<Rightarrow> True" "case inr of Some x \<Rightarrow> 0 \<le> x | None \<Rightarrow> True"
  obtains c where "record_call env rq m i t oc u usd inr hit rt = (rt\<lparr>rt_log := rt_log rt @ [c]\<rparr>, Inr ())"
    "event_of rq m i c" "lc_outcome c = oc" "lc_ts c = t" "lc_inr c = inr" "lc_hit c = hit"
proof
  let ?c = "\<lparr>lc_ts = t, lc_decision_id = rq_decision_id rq, lc_book_id = rq_book_id rq, lc_role = rq_role rq,
               lc_provider = ms_provider m, lc_model = ms_model m, lc_attempt = i, lc_prompt_version = rq_prompt_version rq,
               lc_prompt_sha = le_sha env (le_render env (rq_messages rq)), lc_usage = u, lc_usd = usd, lc_inr = inr,
               lc_hit = hit, lc_outcome = oc\<rparr>"
  show "record_call env rq m i t oc u usd inr hit rt = (rt\<lparr>rt_log := rt_log rt @ [?c]\<rparr>, Inr ())"
    using assms by (simp add: record_call_def call_valid_def request_ok_def model_ok_def)
qed (simp_all add: event_of_def)

lemma no_usage_nonneg: "0 \<le> ut_input no_usage" "0 \<le> ut_output no_usage" "0 \<le> ut_cache_read no_usage" "0 \<le> ut_cache_write no_usage"
  by (simp_all add: no_usage_def)

lemma log_same [simp]:
  "rt_log (pause_provider p now s rt) = rt_log rt" "rt_log (breaker_failed cfg sp now rt) = rt_log rt"
  "rt_log (store_reply rq key v rt) = rt_log rt"
  by (simp_all add: pause_provider_def breaker_failed_def store_reply_def Let_def)

lemma failure_log [simp]: "rt_log (settle_failure cfg m now e rt) = rt_log rt"
  by (cases e) (auto simp: settle_failure_def)

lemma rate_headers_ok:
  assumes "reply_ok cfg m rep"
  shows "snd (read_rate_headers p now (cr_headers rep) rt) = Inr ()"
proof -
  have "(\<exists>rt'. rate_header p now (cr_headers rep) x rt = Inr rt')"
    if "x \<in> set rate_headers" for x rt
    using assms that by (cases x) (auto simp: reply_ok_def rate_header_def list_all_iff Let_def split: option.splits sum.splits)
  then have "snd (fold_ok (rate_header p now (cr_headers rep)) xs rt) = Inr ()" if "set xs \<subseteq> set rate_headers" for xs
    using that
  proof (induction xs arbitrary: rt)
    case (Cons x xs)
    then obtain rt' where "rate_header p now (cr_headers rep) x rt = Inr rt'"
      by (meson list.set_intros(1) subset_code(1))
    with Cons show ?case by simp
  qed simp
  then show ?thesis
    by (simp add: read_rate_headers_def)
qed

lemma to_inr_nonneg: "0 \<le> r \<Longrightarrow> (case usd of Some x \<Rightarrow> 0 \<le> x | None \<Rightarrow> True) \<Longrightarrow> (case to_inr usd r of Some x \<Rightarrow> 0 \<le> x | None \<Rightarrow> True)"
  by (cases usd) (auto simp: to_inr_def dmul_def intro!: quantize_even_nonneg dec28_nonneg mult_nonneg_nonneg dec_of_float_nonneg)

text \<open>What the ledger books is what the event says.\<close>

definition books_event :: "router \<Rightarrow> router \<Rightarrow> llm_call \<Rightarrow> bool" where
  "books_event rt rt' c =
     (rt_ledger rt' = (case lc_inr c of
        Some x \<Rightarrow> if x \<noteq> 0 then ledger_add (lc_role c) (lc_decision_id c) x (rt_ledger rt) else rt_ledger rt
      | None \<Rightarrow> rt_ledger rt))"

definition answer_from :: "'a llm_env \<Rightarrow> 'a request \<Rightarrow> role_config \<Rightarrow> model_spec \<Rightarrow> nat \<Rightarrow> router \<Rightarrow> 'a \<Rightarrow> bool \<Rightarrow> bool" where
  "answer_from env rq c m i rt v hit =
     (if hit then cached_reply rq (cache_key env rq m) rt = Some v
      else \<exists>rep. le_client env i m (args_of rq c) = Replied rep \<and> cr_parsed rep = v \<and> rq_is_schema rq v)"

definition attempt_fine :: "'a llm_env \<Rightarrow> 'a request \<Rightarrow> role_config \<Rightarrow> model_spec \<Rightarrow> nat \<Rightarrow> router \<Rightarrow> router \<times> 'a answer result \<Rightarrow> bool" where
  "attempt_fine env rq c m i rt x =
     (\<exists>rt' oc a e. x = (rt', Inr (oc, a)) \<and> rt_log rt' = rt_log rt @ [e] \<and> event_of rq m i e \<and> books_event rt rt' e
        \<and> lc_ts e \<in> {le_start env i, le_done env i} \<and> (a = None \<longleftrightarrow> oc \<noteq> LOk)
        \<and> (case a of None \<Rightarrow> True | Some (v, cost, hit) \<Rightarrow> lc_outcome e = LOk \<and> lc_hit e = hit \<and> answer_from env rq c m i rt v hit))"

lemma attempt_fine_no_call:
  assumes "request_ok env rq" "model_ok m" "oc \<noteq> LOk" "rt_log rt1 = rt_log rt" "rt_ledger rt1 = rt_ledger rt" "t \<in> {le_start env i, le_done env i}"
  shows "attempt_fine env rq c m i rt (answered (record_call env rq m i t oc no_usage None None False rt1) (oc, None))"
proof -
  obtain e where e: "record_call env rq m i t oc no_usage None None False rt1 = (rt1\<lparr>rt_log := rt_log rt1 @ [e]\<rparr>, Inr ())"
    "event_of rq m i e" "lc_outcome e = oc" "lc_ts e = t" "lc_inr e = None" "lc_hit e = False"
    by (rule record_call_ok [OF assms(1,2) no_usage_nonneg, of None None]) auto
  then show ?thesis
    using assms(3-6) by (auto simp: attempt_fine_def answered_def books_event_def)
qed

lemma error_kind_not_ok: "error_kind e \<noteq> LOk"
  by (cases e) auto

lemma gate_not_ok: "gate_model cfg role d m now rt \<noteq> Some LOk"
  by (auto simp: gate_model_def)

lemma settle_reply_fine:
  assumes ok: "request_ok env rq" "model_ok m" "reply_ok cfg m rep"
    and call: "le_client env i m (args_of rq c) = Replied rep" and same: "rt_log rt1 = rt_log rt" "rt_ledger rt1 = rt_ledger rt"
  shows "attempt_fine env rq c m i rt (settle_reply env cfg rq m i rep rt1)"
proof -
  let ?rt2 = "rt1\<lparr>rt_breakers := dset (spec_text m) new_breaker (rt_breakers rt1)\<rparr>"
  let ?hs = "read_rate_headers (ms_provider m) (le_start env i) (cr_headers rep) ?rt2"
  define usd where "usd = cost_usd (rg_prices cfg) m (cr_usage rep)"
  define inr where "inr = to_inr usd (rg_usd_inr cfg)"
  obtain rt3 where h: "?hs = (rt3, Inr ())"
    using rate_headers_ok [OF ok(3)] by (metis prod.collapse)
  have s3: "rt_log rt3 = rt_log rt" "rt_ledger rt3 = rt_ledger rt"
    using read_rate_headers_same [of "ms_provider m" "le_start env i" "cr_headers rep" ?rt2] same by (simp_all add: h)
  define rt4 where "rt4 = (case inr of Some x \<Rightarrow> if x \<noteq> 0 then rt3\<lparr>rt_ledger := ledger_add (rq_role rq) (rq_decision_id rq) x (rt_ledger rt3)\<rparr> else rt3 | None \<Rightarrow> rt3)"
  have u: "case usd of Some x \<Rightarrow> 0 \<le> x | None \<Rightarrow> True" "0 \<le> rg_usd_inr cfg"
    using ok(3) by (auto simp: reply_ok_def usd_def Let_def)
  obtain e where e: "record_call env rq m i (le_done env i) LOk (cr_usage rep) usd inr False rt4 = (rt4\<lparr>rt_log := rt_log rt4 @ [e]\<rparr>, Inr ())"
    "event_of rq m i e" "lc_outcome e = LOk" "lc_ts e = le_done env i" "lc_inr e = inr" "lc_hit e = False"
    by (rule record_call_ok [OF ok(1,2), where u = "cr_usage rep" and usd = usd and inr = inr])
      (use ok(3) u to_inr_nonneg [OF u(2,1)] in \<open>auto simp: reply_ok_def inr_def Let_def\<close>)
  have x: "settle_reply env cfg rq m i rep rt1 =
    (if \<not> rq_is_schema rq (cr_parsed rep) then (rt4\<lparr>rt_log := rt_log rt4 @ [e]\<rparr>, Inr (LInvalidOutput, None))
     else (store_reply rq (cache_key env rq m) (cr_parsed rep) (rt4\<lparr>rt_log := rt_log rt4 @ [e]\<rparr>),
           Inr (LOk, Some (cr_parsed rep, (case inr of Some x \<Rightarrow> x | None \<Rightarrow> 0), False))))"
    using h e(1) by (simp add: settle_reply_def Let_def usd_def inr_def rt4_def)
  have l4: "rt_log rt4 = rt_log rt"
    using s3 by (simp add: rt4_def split: option.splits)
  have "books_event rt rt4 e"
    using e(2,5) s3 by (auto simp: books_event_def rt4_def event_of_def split: option.splits)
  then show ?thesis
    using e(2-6) l4 call by (auto simp: attempt_fine_def x books_event_def answer_from_def)
qed

lemma attempt_is_fine:
  assumes ok: "request_ok env rq" "model_ok m" "client_ok env cfg"
  shows "attempt_fine env rq c m i rt (attempt env cfg rq c m i rt)"
proof (cases "cached_reply rq (cache_key env rq m) rt")
  case (Some v)
  obtain e where e: "record_call env rq m i (le_start env i) LOk no_usage (Some 0) (Some 0) True rt = (rt\<lparr>rt_log := rt_log rt @ [e]\<rparr>, Inr ())"
    "event_of rq m i e" "lc_outcome e = LOk" "lc_ts e = le_start env i" "lc_inr e = Some 0" "lc_hit e = True"
    by (rule record_call_ok [OF ok(1,2) no_usage_nonneg, where usd = "Some 0" and inr = "Some 0" and hit = True and i = i
          and t = "le_start env i" and oc = LOk and rt = rt]) auto
  then show ?thesis
    using Some by (auto simp: attempt_def attempt_fine_def answered_def books_event_def answer_from_def)
next
  case None
  let ?rt1 = "rt\<lparr>rt_breakers := dset (spec_text m) (breaker_of rt (spec_text m)) (rt_breakers rt)\<rparr>"
  let ?res = "le_client env i m (args_of rq c)"
  have "attempt_fine env rq c m i rt (settle_call env cfg rq m i ?res ?rt1)"
  proof (cases ?res)
    case (Replied rep)
    have "case ?res of Replied rep \<Rightarrow> reply_ok cfg m rep | _ \<Rightarrow> True"
      using ok(3) unfolding client_ok_def by blast
    then have "reply_ok cfg m rep"
      by (simp add: Replied)
    then show ?thesis
      using settle_reply_fine [OF ok(1,2) _ Replied, of cfg ?rt1 rt] by (simp add: settle_call_def Replied)
  qed (use ok(1,2) error_kind_not_ok in \<open>auto simp: settle_call_def Let_def intro!: attempt_fine_no_call\<close>)
  then show ?thesis
    using None ok(1,2) gate_not_ok [of cfg "rq_role rq" "rq_decision_id rq" m "le_start env i" ?rt1]
    by (auto simp: attempt_def Let_def split: option.splits intro!: attempt_fine_no_call)
qed

text \<open>An answer satisfies the schema, or was read back from the cache.\<close>

lemma attempt_schema:
  assumes "attempt env cfg rq c m i rt = (rt', Inr (oc, Some (v, cost, hit)))"
  shows "rq_is_schema rq v \<or> (\<exists>t. rq_decode rq t = Some v)"
proof (cases "cached_reply rq (cache_key env rq m) rt")
  case None
  then show ?thesis
    using assms by (auto simp: attempt_def answered_def settle_call_def settle_reply_def Let_def
      split: option.splits client_result.splits prod.splits sum.splits if_splits)
next
  case (Some w)
  then show ?thesis
    using assms by (auto simp: attempt_def answered_def cached_reply_def bind_eq_Some_conv split: prod.splits sum.splits)
qed

lemma try_chain_schema:
  assumes "try_chain env cfg rq c ms i oc rt = (rt', Inr r)" "lr_parsed r = Some v"
  shows "rq_is_schema rq v \<or> (\<exists>t. rq_decode rq t = Some v)"
  using assms
proof (induction ms arbitrary: i oc rt)
  case (Cons m ms)
  obtain rt1 x where a: "attempt env cfg rq c m i rt = (rt1, x)" by fastforce
  show ?case
  proof (cases x)
    case (Inr y)
    obtain oc' z where y: "y = (oc', z)" by (cases y)
    then show ?thesis using Cons a Inr attempt_schema by (cases z) fastforce+
  qed (use Cons.prems a in auto)
qed (auto simp: failed_result_def)

lemma complete_schema:
  assumes "complete env cfg rq rt = (rt', Inr r)" "lr_parsed r = Some v"
  shows "rq_is_schema rq v \<or> (\<exists>t. rq_decode rq t = Some v)"
  using assms try_chain_schema by (fastforce simp: complete_def failed_result_def split: option.splits if_splits)

section \<open>The chain\<close>



text \<open>What the events of some calls book: the reported cost of each, also of a reply the schema refuses.\<close>

definition book_calls :: "llm_call list \<Rightarrow> spend_ledger \<Rightarrow> spend_ledger" where
  "book_calls es l =
     foldl (\<lambda>l c. case lc_inr c of
        Some x \<Rightarrow> if x \<noteq> 0 then ledger_add (lc_role c) (lc_decision_id c) x l else l
      | None \<Rightarrow> l) l es"

lemma book_calls_simps [simp]:
  "book_calls [] l = l"
  "books_event rt rt' e \<Longrightarrow> book_calls (e # es) (rt_ledger rt) = book_calls es (rt_ledger rt')"
  by (simp_all add: book_calls_def books_event_def)




lemma duration_empty: "duration_s [] = Some (Inr None)"
  by (simp add: duration_s_def strip_def)

lemma sample_reply_ok: "reply_ok sample_router m (sample_reply [])"
  by (simp add: reply_ok_def sample_cost Let_def rate_headers_def dget_or_def duration_empty)
    (simp add: sample_reply_def sample_router_def duration_empty)

definition second_model :: model_spec where
  "second_model = \<lparr>ms_provider = ''openai'', ms_model = ''gpt''\<rparr>"

definition sample_chain :: role_config where
  "sample_chain = \<lparr>rc_role = ''veto'', rc_chain = [sample_model, second_model], rc_effort = None\<rparr>"

definition flaky_env :: "string llm_env" where
  "flaky_env = (sample_llm_env TimedOut)\<lparr>le_client := \<lambda>i _ _. if i = 0 then TimedOut else Replied (sample_reply [])\<rparr>"

lemma flaky_ok: "client_ok flaky_env (sample_router\<lparr>rg_roles := rs\<rparr>)"
  using sample_reply_ok by (auto simp: client_ok_def flaky_env_def reply_ok_def split: client_result.splits if_splits)


text \<open>A reply whose reset header is not a duration raises out of the router, after the provider has answered and before the
  cost is booked or the call recorded.\<close>

definition odd_headers :: "(string, string) dict" where
  "odd_headers = [(''x-ratelimit-remaining-requests'', ''0''), (''x-ratelimit-reset-requests'', ''1.2.3s'')]"

lemma odd_number: "py_float ''1.2.3s'' = Inl ValueError" "py_float ''1.2.3'' = Inl ValueError"
  by (simp_all add: py_float_def strip_def is_ws_def Let_def ascii_digit_def read_float_def read_sign_def lower_def
      read_mantissa_def span_digits_def read_exponent_def)

lemma odd_duration: "duration_s ''1.2.3s'' = Some (Inl ValueError)"
  by (simp add: duration_s_def odd_number strip_def is_ws_def Let_def)
    (simp add: duration_scan.simps odd_number isdigit_def ascii_digit_def)

lemma bad_reset_header_escapes:
  "complete (sample_llm_env (Replied (sample_reply odd_headers))) sample_router sample_request (new_router 0 None None) = (rt, r)
   \<Longrightarrow> r = Inl ValueError \<and> rt_log rt = [] \<and> sl_total (rt_ledger rt) = 0"
proof -
  have h: "read_rate_headers p now (cr_headers (sample_reply odd_headers)) s = (s, Inl ValueError)" for p now s
    by (simp add: read_rate_headers_def rate_headers_def rate_header_def sample_reply_def odd_headers_def dget_or_def odd_duration)
  have g: "gate_model sample_router ''veto'' (Some ''d'') sample_model 0 (launched sample_model (new_router 0 None None)) = None"
    by (rule sample_launch)
  have n: "roll_day 0 (new_router 0 None None) = new_router 0 None None"
    by (simp add: roll_day_def new_router_def new_ledger_def)
  have r: "rg_roles sample_router = [(''veto'', \<lparr>rc_role = ''veto'', rc_chain = [sample_model], rc_effort = None\<rparr>)]"
    by (simp add: sample_router_def)
  have e: "le_begin (sample_llm_env x) = 0" "le_start (sample_llm_env x) 0 = 0" "le_client (sample_llm_env x) i m c = x" for x i m c
    by (simp_all add: sample_llm_env_def)
  have q: "rq_role sample_request = ''veto''" "rq_decision_id sample_request = Some ''d''"
    by (simp_all add: sample_request_def)
  have s: "rt_cache (new_router 0 None None) = None" "rt_log (new_router 0 None None) = []" "sl_total (rt_ledger (new_router 0 None None)) = 0"
    by (simp_all add: new_router_def new_ledger_def)
  assume "complete (sample_llm_env (Replied (sample_reply odd_headers))) sample_router sample_request (new_router 0 None None) = (rt, r)"
  then show ?thesis
    using g by (auto simp: complete_def r q e s role_enabled_def n attempt_def cached_reply_def launched_def settle_call_def settle_reply_def h Let_def)
qed

section \<open>Restart\<close>

definition on_day :: "date \<Rightarrow> 'a llm_env \<Rightarrow> bool" where
  "on_day d env = (ist_date (le_begin env) = d \<and> (\<forall>i. ist_date (le_start env i) = d \<and> ist_date (le_done env i) = d))"

definition call_ok :: "router_config \<Rightarrow> date \<times> 'a llm_env \<times> 'a request \<Rightarrow> bool" where
  "call_ok cfg = (\<lambda>(d, env, rq). on_day d env \<and> request_ok env rq \<and> client_ok env cfg)"

definition run_calls :: "router_config \<Rightarrow> (date \<times> 'a llm_env \<times> 'a request) list \<Rightarrow> router \<Rightarrow> router" where
  "run_calls cfg = fold (\<lambda>(d, env, rq) rt. fst (complete env cfg rq rt))"

definition chains_ok :: "router_config \<Rightarrow> bool" where
  "chains_ok cfg = list_all (\<lambda>(_, c). list_all model_ok (rc_chain c)) (rg_roles cfg)"

definition ledger_true :: "date \<Rightarrow> router \<Rightarrow> bool" where
  "ledger_true d rt =
     (sl_day (rt_ledger rt) \<le> d \<and> rt_ledger rt = ledger_from_events (rt_log rt) (sl_day (rt_ledger rt))
      \<and> list_all (\<lambda>c. ist_date (lc_ts c) \<le> sl_day (rt_ledger rt)) (rt_log rt))"

lemma ledger_from_events_snoc: "ledger_from_events (cs @ [c]) d = book_call d c (ledger_from_events cs d)"
  by (simp add: ledger_from_events_def)

lemma book_call_day [simp]: "sl_day (book_call d c l) = sl_day l"
  by (simp add: book_call_def ledger_add_def split: option.splits)

lemma other_days_book_nothing:
  "list_all (\<lambda>c. ist_date (lc_ts c) \<noteq> d) cs \<Longrightarrow> ledger_from_events cs d = new_ledger d"
  by (induction cs rule: rev_induct) (auto simp: ledger_from_events_snoc book_call_def ledger_from_events_def split: option.splits)

lemma roll_day_true:
  assumes "ledger_true d' rt" "ist_date now = d" "d' \<le> d"
  shows "ledger_true d (roll_day now rt)" "sl_day (rt_ledger (roll_day now rt)) = d"
proof -
  show day: "sl_day (rt_ledger (roll_day now rt)) = d"
    using assms(2) by (simp add: roll_day_def new_ledger_def)
  show "ledger_true d (roll_day now rt)"
  proof (cases "sl_day (rt_ledger rt) = d")
    case True
    then show ?thesis
      using assms by (auto simp: roll_day_def ledger_true_def)
  next
    case False
    then have "list_all (\<lambda>c. ist_date (lc_ts c) < d) (rt_log rt)"
      using assms by (force simp: ledger_true_def list_all_iff)
    moreover from this have "ledger_from_events (rt_log rt) d = new_ledger d"
      by (intro other_days_book_nothing) (auto simp: list_all_iff)
    ultimately show ?thesis
      using False assms(2) by (force simp: roll_day_def ledger_true_def new_ledger_def list_all_iff)
  qed
qed

lemma attempt_true:
  assumes "request_ok env rq" "model_ok m" "client_ok env cfg" "on_day d env" "ledger_true d rt" "sl_day (rt_ledger rt) = d"
  obtains rt' oc a where "attempt env cfg rq c m i rt = (rt', Inr (oc, a))" "ledger_true d rt'" "sl_day (rt_ledger rt') = d"
proof -
  obtain rt' oc a e where a: "attempt env cfg rq c m i rt = (rt', Inr (oc, a))" "rt_log rt' = rt_log rt @ [e]"
    and e: "books_event rt rt' e" "lc_ts e \<in> {le_start env i, le_done env i}"
    using attempt_is_fine [OF assms(1-3), of c i rt] unfolding attempt_fine_def by blast
  have d: "ist_date (lc_ts e) = d"
    using e(2) assms(4) by (auto simp: on_day_def)
  have l: "rt_ledger rt' = book_call d e (rt_ledger rt)"
    using e(1) d by (simp add: books_event_def book_call_def split: option.splits)
  have "ledger_true d rt'" "sl_day (rt_ledger rt') = d"
    using assms(5,6) d by (auto simp: ledger_true_def a(2) l ledger_from_events_snoc)
  with a(1) show thesis
    by (rule that)
qed

lemma try_chain_true:
  assumes ok: "request_ok env rq" "client_ok env cfg" "on_day d env"
  shows "list_all model_ok ms \<Longrightarrow> ledger_true d rt \<Longrightarrow> sl_day (rt_ledger rt) = d \<Longrightarrow>
    ledger_true d (fst (try_chain env cfg rq c ms i oc rt)) \<and> sl_day (rt_ledger (fst (try_chain env cfg rq c ms i oc rt))) = d"
proof (induction ms arbitrary: i oc rt)
  case (Cons m ms)
  obtain rt' oc' a where "attempt env cfg rq c m i rt = (rt', Inr (oc', a))" "ledger_true d rt'" "sl_day (rt_ledger rt') = d"
    using attempt_true [OF ok(1) _ ok(2,3) Cons.prems(2,3), of m c i] Cons.prems(1) by auto
  then show ?case
    using Cons.IH [of rt' "i + 1" oc'] Cons.prems(1) by (auto split: option.splits)
qed simp

lemma complete_true:
  assumes "call_ok cfg (d, env, rq)" "chains_ok cfg" "ledger_true d' rt" "d' \<le> d"
  shows "ledger_true d (fst (complete env cfg rq rt))"
proof -
  have c: "list_all model_ok (rc_chain c)" if "dget (rg_roles cfg) (rq_role rq) = Some c" for c
    using assms(2) dget_in_set [OF that] by (auto simp: chains_ok_def list_all_iff)
  have ok: "request_ok env rq" "client_ok env cfg" "on_day d env" "ist_date (le_begin env) = d"
    using assms(1) by (auto simp: call_ok_def on_day_def)
  have "ledger_true d rt"
    using assms(3,4) by (auto simp: ledger_true_def)
  then show ?thesis
    using try_chain_true [OF ok(1-3) c roll_day_true [OF assms(3) ok(4) assms(4)]] by (auto simp: complete_def split: option.splits)
qed

lemma run_calls_true:
  "list_all (call_ok cfg) cs \<Longrightarrow> sorted (d # map fst cs) \<Longrightarrow> chains_ok cfg \<Longrightarrow> ledger_true d rt \<Longrightarrow>
   ledger_true (last (d # map fst cs)) (run_calls cfg cs rt)"
proof (induction cs arbitrary: d rt)
  case (Cons x cs)
  obtain d' env rq where x: "x = (d', env, rq)" by (cases x)
  have "ledger_true d' (fst (complete env cfg rq rt))"
    using complete_true [of cfg d' env rq d rt] Cons.prems by (simp add: x)
  then show ?case
    using Cons.IH [of d' "fst (complete env cfg rq rt)"] Cons.prems by (simp add: x run_calls_def)
qed (simp add: run_calls_def)

text \<open>C25: A restart never resets a budget. After any sequence of well-formed calls over any days, with no call crossing
  midnight, the ledger rebuilt from the recorded events is the ledger in force: a router restarted on the same day
  goes on with exactly the totals, role totals and decision totals it had.\<close>

theorem restart_keeps_ledger:
  assumes "list_all (call_ok cfg) cs" "sorted (ist_date now # map fst cs)" "chains_ok cfg"
    and "rt = run_calls cfg cs (new_router now None cache)" "ist_date later = sl_day (rt_ledger rt)"
  shows "rt_ledger (new_router later (Some (ledger_from_events (rt_log rt) (ist_date later))) (rt_cache rt)) = rt_ledger rt"
proof -
  have "ledger_true (ist_date now) (new_router now None cache)"
    by (simp add: ledger_true_def new_router_def new_ledger_def ledger_from_events_def)
  then have "ledger_true (last (ist_date now # map fst cs)) rt"
    using run_calls_true [OF assms(1-3)] assms(4) by simp
  then show ?thesis
    using assms(5) by (simp add: ledger_true_def new_router_def)
qed

lemma flaky_day:
  "sl_day (rt_ledger (run_calls (sample_router\<lparr>rg_roles := [(''veto'', sample_chain)]\<rparr>) [(ist_date 0, flaky_env, sample_request)] (new_router 0 None None))) = ist_date 1"
proof -
  let ?cfg = "sample_router\<lparr>rg_roles := [(''veto'', sample_chain)]\<rparr>" and ?rt = "new_router 0 None None"
  have ok: "request_ok flaky_env sample_request" "on_day (ist_date 0) flaky_env" "list_all model_ok (rc_chain sample_chain)" "le_begin flaky_env = 0"
    by (simp_all add: request_ok_def on_day_def flaky_env_def sample_llm_env_def sample_request_def ist_date_def sample_chain_def model_ok_def
        sample_model_def second_model_def)
  have r: "ledger_true (ist_date 0) (roll_day 0 ?rt)" "sl_day (rt_ledger (roll_day 0 ?rt)) = ist_date 0"
    by (simp_all add: ledger_true_def new_router_def new_ledger_def ledger_from_events_def roll_day_def)
  have "dget (rg_roles ?cfg) (rq_role sample_request) = Some sample_chain" "role_enabled sample_chain"
    by (simp_all add: sample_request_def role_enabled_def sample_chain_def)
  then show ?thesis
    using try_chain_true [OF ok(1) flaky_ok ok(2,3) r, of "[(''veto'', sample_chain)]" sample_chain 0 LError] ok(4)
    by (simp add: run_calls_def complete_def ist_date_def)
qed

theorem restart_keeps_ledger_witness:
  "\<exists>rt. rt = run_calls (sample_router\<lparr>rg_roles := [(''veto'', sample_chain)]\<rparr>) [(ist_date 0, flaky_env, sample_request)] (new_router 0 None None)
     \<and> sl_day (rt_ledger rt) = ist_date 1
     \<and> rt_ledger (new_router 1 (Some (ledger_from_events (rt_log rt) (ist_date 1))) (rt_cache rt)) = rt_ledger rt
     \<and> call_ok (sample_router\<lparr>rg_roles := [(''veto'', sample_chain)]\<rparr>) (ist_date 0, flaky_env, sample_request)"
proof -
  have "call_ok (sample_router\<lparr>rg_roles := [(''veto'', sample_chain)]\<rparr>) (ist_date 0, flaky_env, sample_request)"
    using flaky_ok [of "[(''veto'', sample_chain)]"]
    by (simp add: call_ok_def on_day_def request_ok_def flaky_env_def sample_llm_env_def sample_request_def ist_date_def)
  moreover have "chains_ok (sample_router\<lparr>rg_roles := [(''veto'', sample_chain)]\<rparr>)"
    by (simp add: chains_ok_def sample_chain_def model_ok_def sample_model_def second_model_def)
  ultimately show ?thesis
    using restart_keeps_ledger [of "sample_router\<lparr>rg_roles := [(''veto'', sample_chain)]\<rparr>" "[(ist_date 0, flaky_env, sample_request)]" 0 _ None 1]
      flaky_day by simp
qed

end
