(* ===== verification/Cascade.thy ===== *)
theory Cascade
  imports LLM_Router
begin

text \<open>
  \<^verbatim>\<open>src/decision_models/base.py\<close> and \<^verbatim>\<open>src/decision_models/cascade.py\<close>: typed questions, the answers of the two
  decision models, and the cascade that asks the remote model only where the local one should not be trusted. The models,
  the calibrator and the hash bucket of the shadow sample are parameters; an answer on the wire is given with its numbers
  read. Floats may be infinite or undefined, since a model's reply is read with \<^verbatim>\<open>float\<close>.
\<close>

section \<open>Questions and answers\<close>

datatype qtype = Noul | Choice | Score

datatype criteria = Labelled "(string, string) dict" | Levels "string list"

record question =
  qn_type :: qtype
  qn_instructions :: string
  qn_criteria :: "criteria option"

fun criteria_size :: "criteria \<Rightarrow> nat" where
  "criteria_size (Labelled d) = length d"
| "criteria_size (Levels ls) = length ls"

definition max_choices_allowed :: nat where
  "max_choices_allowed = 255"

definition question_ok :: "question \<Rightarrow> bool" where
  "question_ok q =
     ((qn_type q = Choice \<longrightarrow> (case qn_criteria q of Some (Labelled d) \<Rightarrow> 2 \<le> length d \<and> length d \<le> max_choices_allowed | _ \<Rightarrow> False))
      \<and> (qn_type q = Score \<longrightarrow> (case qn_criteria q of Some (Levels ls) \<Rightarrow> 2 \<le> length ls | _ \<Rightarrow> False)))"

definition cardinality :: "question \<Rightarrow> nat" where
  "cardinality q = (case qn_criteria q of Some c \<Rightarrow> criteria_size c | None \<Rightarrow> 2)"

definition wire_criteria :: "question \<Rightarrow> criteria option" where
  "wire_criteria q =
     (case qn_criteria q of
        Some c \<Rightarrow> Some c
      | None \<Rightarrow> if qn_type q = Noul then Some (Labelled [(''false'', ''no''), (''true'', ''yes'')]) else None)"

datatype avalue = VBool bool | VText string | VNum flt

record manswer =
  ma_type :: qtype
  ma_value :: avalue
  ma_probs :: "(string, flt) dict"
  ma_confidence :: flt
  ma_model :: string
  ma_calibrated :: bool

definition p_true :: "manswer \<Rightarrow> flt option" where
  "p_true a =
     (if ma_type a \<noteq> Noul then None
      else Some (dget_or (if ma_value a = VBool True then Fin 1 else Fin 0) (ma_probs a) ''true''))"

section \<open>Comparing floats\<close>

fun flt_le :: "flt \<Rightarrow> flt \<Rightarrow> bool" where
  "flt_le NaN _ = False"
| "flt_le _ NaN = False"
| "flt_le (Inf True) _ = True"
| "flt_le _ (Inf False) = True"
| "flt_le (Fin a) (Fin b) = (a \<le> b)"
| "flt_le _ _ = False"

definition flt_less :: "flt \<Rightarrow> flt \<Rightarrow> bool" where
  "flt_less a b = (flt_le a b \<and> \<not> flt_le b a)"

fun one_minus :: "flt \<Rightarrow> flt" where
  "one_minus (Fin q) = to_flt (1 - q)"
| "one_minus (Inf s) = Inf (\<not> s)"
| "one_minus NaN = NaN"

text \<open>\<^verbatim>\<open>max\<close> keeps the first of the values that none of the later ones exceeds.\<close>

definition flt_max :: "flt \<Rightarrow> flt list \<Rightarrow> flt" where
  "flt_max x xs = fold (\<lambda>y m. if flt_less m y then y else m) xs x"

section \<open>Reading a reply\<close>

datatype model_error = DecisionModelError

record raw_answer =
  ra_type :: "string option"
  ra_noul :: "flt option"
  ra_choice :: "string option"
  ra_score :: "flt option"
  ra_probs :: "(string, flt) dict"
  ra_answer_confidence :: "flt option"
  ra_confidence :: "flt option"

fun type_name :: "qtype \<Rightarrow> string" where
  "type_name Noul = ''noul''"
| "type_name Choice = ''choice''"
| "type_name Score = ''score''"

definition raw_value :: "qtype \<Rightarrow> raw_answer \<Rightarrow> (avalue \<times> (string, flt) dict) option" where
  "raw_value t r =
     (case t of
        Noul \<Rightarrow> map_option (\<lambda>p. (VBool (flt_le (Fin (1 / 2)) p),
                   if ra_probs r = [] then [(''false'', one_minus p), (''true'', p)] else ra_probs r)) (ra_noul r)
      | Choice \<Rightarrow> map_option (\<lambda>c. (VText c, ra_probs r)) (ra_choice r)
      | Score \<Rightarrow> map_option (\<lambda>s. (VNum s, ra_probs r)) (ra_score r))"

definition raw_confidence :: "raw_answer \<Rightarrow> (string, flt) dict \<Rightarrow> flt" where
  "raw_confidence r probs =
     (case ra_answer_confidence r of
        Some c \<Rightarrow> c
      | None \<Rightarrow>
          (case ra_confidence r of
             Some c \<Rightarrow> c
           | None \<Rightarrow> (case map snd probs of [] \<Rightarrow> Fin 0 | x # xs \<Rightarrow> flt_max x xs)))"

definition parse_answer :: "qtype \<Rightarrow> raw_answer \<Rightarrow> string \<Rightarrow> model_error + manswer" where
  "parse_answer t r model =
     (case raw_value t r of
        None \<Rightarrow> Inl DecisionModelError
      | Some (v, probs) \<Rightarrow>
          Inr \<lparr>ma_type = t, ma_value = v, ma_probs = probs, ma_confidence = raw_confidence r probs, ma_model = model, ma_calibrated = False\<rparr>)"

fun parse_each :: "(string, raw_answer) dict \<Rightarrow> (string, question) dict \<Rightarrow> string \<Rightarrow> model_error + (string, manswer) dict" where
  "parse_each raws [] model = Inr []"
| "parse_each raws ((n, q) # qs) model =
     (case dget raws n of
        None \<Rightarrow> Inl DecisionModelError
      | Some r \<Rightarrow>
          if (case ra_type r of Some t \<Rightarrow> t \<noteq> type_name (qn_type q) | None \<Rightarrow> False) then Inl DecisionModelError
          else (case parse_answer (qn_type q) r model of
                  Inl e \<Rightarrow> Inl e
                | Inr a \<Rightarrow> (case parse_each raws qs model of Inl e \<Rightarrow> Inl e | Inr as \<Rightarrow> Inr ((n, a) # as))))"

definition parse_answers :: "(string, raw_answer) dict option \<Rightarrow> (string, question) dict \<Rightarrow> string \<Rightarrow> model_error + (string, manswer) dict" where
  "parse_answers payload qs model = (case payload of None \<Rightarrow> Inl DecisionModelError | Some raws \<Rightarrow> parse_each raws qs model)"

definition estimate_tokens :: "(string, string) dict \<Rightarrow> nat" where
  "estimate_tokens st = (\<Sum>(k, v)\<leftarrow>st. length k + length v) div 4 + 8 * length st"

section \<open>The cascade\<close>

record dmodel =
  dm_name :: string
  dm_checkpoint :: string
  dm_context :: "nat option"
  dm_decide :: "(string, string) dict \<Rightarrow> (string, question) dict \<Rightarrow> (string, manswer) dict option"

record cascade_config =
  cf_low :: rat
  cf_high :: rat
  cf_max_choices :: nat
  cf_shadow_pct :: rat

definition cascade_config_ok :: "cascade_config \<Rightarrow> bool" where
  "cascade_config_ok c = (0 \<le> cf_low c \<and> cf_low c \<le> cf_high c \<and> cf_high c \<le> 1 \<and> 0 \<le> cf_shadow_pct c \<and> cf_shadow_pct c \<le> 1)"

record cascade =
  cs_laya :: "dmodel option"
  cs_jev :: "dmodel option"
  cs_config :: cascade_config
  cs_calibrate :: "string \<Rightarrow> string \<Rightarrow> manswer \<Rightarrow> manswer option"
  cs_bucket :: "string \<Rightarrow> (string, string) dict \<Rightarrow> string list \<Rightarrow> int"

definition cascade_ok :: "cascade \<Rightarrow> bool" where
  "cascade_ok c = (\<not> (cs_laya c = None \<and> cs_jev c = None))"

datatype escalation = NoLaya | StateExceedsContext | LayaError | HighCardinality | Uncertain

datatype abstention = JevNotConfigured | JevUnavailable

record model_call =
  mc_decision_id :: "string option"
  mc_book_id :: "string option"
  mc_task :: string
  mc_model :: string
  mc_checkpoint :: string
  mc_questions :: nat
  mc_escalated :: "escalation list option"
  mc_shadow :: bool
  mc_calibrated :: bool
  mc_answers :: "(string, manswer) dict"
  mc_outcome :: llm_outcome

definition model_call_valid :: "model_call \<Rightarrow> bool" where
  "model_call_valid e = (mc_task e \<noteq> [] \<and> mc_model e \<noteq> [] \<and> mc_checkpoint e \<noteq> [])"

record cascade_result =
  cr_answers :: "(string, manswer) dict"
  cr_abstained :: "(string, abstention) dict"
  cr_escalated :: "(string, escalation) dict"
  cr_shadow :: bool

record ask =
  ak_task :: string
  ak_state :: "(string, string) dict"
  ak_questions :: "(string, question) dict"
  ak_decision_id :: "string option"
  ak_book_id :: "string option"

fun calibrate_all :: "(string \<Rightarrow> manswer \<Rightarrow> manswer option) \<Rightarrow> (string, manswer) dict \<Rightarrow> (string, manswer) dict option" where
  "calibrate_all f [] = Some []"
| "calibrate_all f ((n, a) # as) =
     (case f n a of
        None \<Rightarrow> None
      | Some b \<Rightarrow> map_option ((#) (n, b)) (calibrate_all f as))"

text \<open>One call: the answers and whether it failed, the event, and a raise when the event cannot be built.\<close>

definition call_model ::
  "cascade \<Rightarrow> ask \<Rightarrow> dmodel \<Rightarrow> (string, question) dict \<Rightarrow> escalation list option \<Rightarrow> bool \<Rightarrow> model_call list \<Rightarrow> model_call list \<times> ((string, manswer) dict \<times> bool) result" where
  "call_model c a m qs why shadow evs =
     (let got = Option.bind (dm_decide m (ak_state a) qs) (calibrate_all (cs_calibrate c (ak_task a)));
          answers = (case got of Some as \<Rightarrow> as | None \<Rightarrow> []);
          e = \<lparr>mc_decision_id = ak_decision_id a, mc_book_id = ak_book_id a, mc_task = ak_task a, mc_model = dm_name m,
               mc_checkpoint = dm_checkpoint m, mc_questions = length qs, mc_escalated = why, mc_shadow = shadow,
               mc_calibrated = list_ex (\<lambda>(_, x). ma_calibrated x) answers, mc_answers = answers,
               mc_outcome = (if got = None then LError else LOk)\<rparr>
      in if model_call_valid e then (evs @ [e], Inr (answers, got = None)) else (evs, Inl ValueError))"

definition uncertain :: "cascade_config \<Rightarrow> (string, question) dict \<Rightarrow> (string, manswer) dict \<Rightarrow> (string, escalation) dict" where
  "uncertain cf qs answers =
     concat (map (\<lambda>(n, q).
       if qn_type q = Choice \<and> cf_max_choices cf < cardinality q then [(n, HighCardinality)]
       else case dget answers n of
          None \<Rightarrow> [(n, LayaError)]
        | Some a \<Rightarrow> if flt_le (Fin (cf_low cf)) (ma_confidence a) \<and> flt_le (ma_confidence a) (Fin (cf_high cf)) then [(n, Uncertain)] else []) qs)"

definition sampled :: "cascade \<Rightarrow> ask \<Rightarrow> bool" where
  "sampled c a =
     (0 < cf_shadow_pct (cs_config c)
      \<and> of_int (cs_bucket c (ak_task a) (ak_state a) (map fst (ak_questions a))) < fmul (cf_shadow_pct (cs_config c)) 10000)"

definition ask_laya :: "cascade \<Rightarrow> ask \<Rightarrow> model_call list \<Rightarrow> model_call list \<times> ((string, manswer) dict \<times> (string, escalation) dict) result" where
  "ask_laya c a evs =
     (let all_of = (\<lambda>why. map (\<lambda>(n, _). (n, why)) (ak_questions a))
      in case cs_laya c of
         None \<Rightarrow> (evs, Inr ([], all_of NoLaya))
       | Some m \<Rightarrow>
           if (case dm_context m of Some limit \<Rightarrow> limit < estimate_tokens (ak_state a) | None \<Rightarrow> False)
           then (evs, Inr ([], all_of StateExceedsContext))
           else (case call_model c a m (ak_questions a) None False evs of
                   (evs1, Inl e) \<Rightarrow> (evs1, Inl e)
                 | (evs1, Inr (answers, failed)) \<Rightarrow>
                     (evs1, Inr (answers, if failed then all_of LayaError else uncertain (cs_config c) (ak_questions a) answers))))"

fun take_jev :: "string list \<Rightarrow> (string, manswer) dict \<Rightarrow> abstention \<Rightarrow> cascade_result \<Rightarrow> cascade_result" where
  "take_jev [] js why r = r"
| "take_jev (n # ns) js why r =
     take_jev ns js why
       (case dget js n of
          Some a \<Rightarrow> r\<lparr>cr_answers := dset n a (cr_answers r)\<rparr>
        | None \<Rightarrow> r\<lparr>cr_abstained := dset n why (cr_abstained r)\<rparr>)"

definition asked_of :: "ask \<Rightarrow> (string, escalation) dict \<Rightarrow> (string, question) dict" where
  "asked_of a esc = filter (\<lambda>(n, _). n \<in> set (map fst esc)) (ak_questions a)"

definition ask_jev :: "cascade \<Rightarrow> ask \<Rightarrow> (string, escalation) dict \<Rightarrow> model_call list \<Rightarrow> model_call list \<times> ((string, manswer) dict \<times> abstention) result" where
  "ask_jev c a esc evs =
     (case cs_jev c of
        None \<Rightarrow> (evs, Inr ([], JevNotConfigured))
      | Some m \<Rightarrow>
          (case call_model c a m (asked_of a esc) (Some (map snd esc)) False evs of
             (evs1, Inl e) \<Rightarrow> (evs1, Inl e)
           | (evs1, Inr (answers, failed)) \<Rightarrow> (evs1, Inr (answers, if failed then JevUnavailable else JevNotConfigured))))"

definition decide_cascade :: "cascade \<Rightarrow> ask \<Rightarrow> model_call list \<Rightarrow> model_call list \<times> cascade_result result" where
  "decide_cascade c a evs =
     (case ask_laya c a evs of
        (evs1, Inl e) \<Rightarrow> (evs1, Inl e)
      | (evs1, Inr (answers, esc)) \<Rightarrow>
          (let r = \<lparr>cr_answers = filter (\<lambda>(n, _). n \<notin> set (map fst esc)) answers, cr_abstained = [], cr_escalated = esc, cr_shadow = False\<rparr>
           in if esc \<noteq> [] then
                (case ask_jev c a esc evs1 of
                   (evs2, Inl e) \<Rightarrow> (evs2, Inl e)
                 | (evs2, Inr (js, why)) \<Rightarrow> (evs2, Inr (take_jev (map fst esc) js why r)))
              else if cs_jev c \<noteq> None \<and> sampled c a then
                (case call_model c a (the (cs_jev c)) (ak_questions a) None True evs1 of
                   (evs2, Inl e) \<Rightarrow> (evs2, Inl e)
                 | (evs2, Inr _) \<Rightarrow> (evs2, Inr (r\<lparr>cr_shadow := True\<rparr>)))
              else (evs1, Inr r)))"

end
