(* ===== verification/Cascade_Props.thy ===== *)
theory Cascade_Props
  imports Cascade
begin

text \<open>
  The cascade answers or abstains on every question exactly once, uses a local answer only where it is confident, and
  never raises, whatever the models do.
\<close>

section \<open>Replies\<close>

lemma parse_each_keys: "parse_each raws qs model = Inr as \<Longrightarrow> map fst as = map fst qs"
  by (induction raws qs model arbitrary: as rule: parse_each.induct) (auto split: option.splits sum.splits if_splits)

lemma parse_answers_keys: "parse_answers payload qs model = Inr as \<Longrightarrow> map fst as = map fst qs"
  by (auto simp: parse_answers_def parse_each_keys split: option.splits)

lemma calibrate_all_keys: "calibrate_all f as = Some bs \<Longrightarrow> map fst bs = map fst as"
  by (induction as arbitrary: bs) (auto split: option.splits)

text \<open>A model that reads its reply with \<open>parse_answers\<close> answers exactly the questions it was asked.\<close>

definition dmodel_ok :: "dmodel \<Rightarrow> bool" where
  "dmodel_ok m = (dm_name m \<noteq> [] \<and> dm_checkpoint m \<noteq> [] \<and> (\<forall>st qs as. dm_decide m st qs = Some as \<longrightarrow> map fst as = map fst qs))"

definition cascade_wf :: "cascade \<Rightarrow> bool" where
  "cascade_wf c = ((\<forall>m. cs_laya c = Some m \<longrightarrow> dmodel_ok m) \<and> (\<forall>m. cs_jev c = Some m \<longrightarrow> dmodel_ok m))"

definition ask_ok :: "ask \<Rightarrow> bool" where
  "ask_ok a = (ak_task a \<noteq> [] \<and> distinct (map fst (ak_questions a)))"

lemma call_model_returns:
  assumes "dmodel_ok m" "ak_task a \<noteq> []"
  obtains as failed e where "call_model c a m qs why shadow evs = (evs @ [e], Inr (as, failed))"
    "failed \<longrightarrow> as = []" "\<not> failed \<longrightarrow> map fst as = map fst qs"
proof -
  let ?got = "Option.bind (dm_decide m (ak_state a) qs) (calibrate_all (cs_calibrate c (ak_task a)))"
  have k: "map fst as = map fst qs" if g: "?got = Some as" for as
  proof -
    obtain bs where "dm_decide m (ak_state a) qs = Some bs" "calibrate_all (cs_calibrate c (ak_task a)) bs = Some as"
      using g by (cases "dm_decide m (ak_state a) qs") auto
    then show ?thesis
      using assms(1) calibrate_all_keys by (auto simp: dmodel_ok_def)
  qed
  have "\<exists>e. call_model c a m qs why shadow evs = (evs @ [e], Inr (case ?got of Some as \<Rightarrow> as | None \<Rightarrow> [], ?got = None))"
    using assms by (auto simp: call_model_def model_call_valid_def dmodel_ok_def Let_def)
  then obtain e where "call_model c a m qs why shadow evs = (evs @ [e], Inr (case ?got of Some as \<Rightarrow> as | None \<Rightarrow> [], ?got = None))"
    by blast
  then show thesis
    by (rule that) (use k in \<open>auto split: option.splits\<close>)
qed

section \<open>Which questions are escalated\<close>

definition trusts :: "cascade_config \<Rightarrow> question \<Rightarrow> manswer \<Rightarrow> bool" where
  "trusts cf q x =
     (\<not> (qn_type q = Choice \<and> cf_max_choices cf < cardinality q)
      \<and> \<not> (flt_le (Fin (cf_low cf)) (ma_confidence x) \<and> flt_le (ma_confidence x) (Fin (cf_high cf))))"

lemma uncertain_keys: "set (map fst (uncertain cf qs as)) \<subseteq> set (map fst qs)"
  by (force simp: uncertain_def split: if_splits option.splits)

lemma distinct_uncertain: "distinct (map fst qs) \<Longrightarrow> distinct (map fst (uncertain cf qs as))"
proof (induction qs)
  case (Cons q qs)
  have "uncertain cf (q # qs) as = uncertain cf [q] as @ uncertain cf qs as"
    by (simp add: uncertain_def)
  moreover have "map fst (uncertain cf [q] as) \<in> {[], [fst q]}"
    by (cases q) (simp add: uncertain_def split: option.splits)
  moreover have "fst q \<notin> set (map fst (uncertain cf qs as))"
    using Cons.prems uncertain_keys [of cf qs as] by auto
  ultimately show ?case
    using Cons by (auto simp: image_iff)
qed (simp add: uncertain_def)

lemma not_uncertain:
  assumes "(n, q) \<in> set qs" "n \<notin> set (map fst (uncertain cf qs as))"
  shows "\<exists>x. dget as n = Some x \<and> trusts cf q x"
proof -
  have "n \<notin> set (map fst (uncertain cf [(n, q)] as))"
    using assms by (force simp: uncertain_def)
  then show ?thesis
    by (auto simp: uncertain_def trusts_def split: if_splits option.splits)
qed

definition laya_says :: "cascade \<Rightarrow> ask \<Rightarrow> (string, manswer) dict \<Rightarrow> (string, escalation) dict \<Rightarrow> bool" where
  "laya_says c a as esc =
     (set (map fst as) \<subseteq> set (map fst (ak_questions a)) \<and> set (map fst esc) \<subseteq> set (map fst (ak_questions a)) \<and> distinct (map fst esc)
      \<and> distinct (map fst as)
      \<and> (\<forall>(n, q) \<in> set (ak_questions a). n \<notin> set (map fst esc) \<longrightarrow> (\<exists>x. dget as n = Some x \<and> trusts (cs_config c) q x)))"

lemma ask_laya_returns:
  assumes "cascade_wf c" "ask_ok a"
  shows "\<exists>evs1 as esc. ask_laya c a evs = (evs1, Inr (as, esc)) \<and> laya_says c a as esc"
proof -
  have all: "laya_says c a [] (map (\<lambda>(n, _). (n, why)) (ak_questions a))" for why
    using assms(2) by (force simp: laya_says_def ask_ok_def o_def case_prod_unfold)
  show ?thesis
  proof (cases "cs_laya c")
    case (Some m)
    have m: "dmodel_ok m" "ak_task a \<noteq> []"
      using assms Some by (auto simp: cascade_wf_def ask_ok_def)
    obtain as failed e where r: "call_model c a m (ak_questions a) None False evs = (evs @ [e], Inr (as, failed))"
      "failed \<longrightarrow> as = []" "\<not> failed \<longrightarrow> map fst as = map fst (ak_questions a)"
      using call_model_returns [OF m] .
    have "laya_says c a as (uncertain (cs_config c) (ak_questions a) as)" if "\<not> failed"
      using r(3) that assms(2) uncertain_keys [of "cs_config c" "ak_questions a" as] not_uncertain [of _ _ "ak_questions a" "cs_config c" as]
      by (auto simp: laya_says_def ask_ok_def distinct_uncertain)
    then show ?thesis
      using r all Some by (auto simp: ask_laya_def Let_def)
  qed (use all in \<open>simp add: ask_laya_def\<close>)
qed

section \<open>What is taken from the remote model\<close>

lemma take_jev_parts:
  "cr_escalated (take_jev ns js why r) = cr_escalated r"
  "dget (cr_answers (take_jev ns js why r)) n =
     (if n \<in> set ns then (case dget js n of Some x \<Rightarrow> Some x | None \<Rightarrow> dget (cr_answers r) n) else dget (cr_answers r) n)"
  "dget (cr_abstained (take_jev ns js why r)) n =
     (if n \<in> set ns \<and> dget js n = None then Some why else dget (cr_abstained r) n)"
  by (induction ns arbitrary: r) (auto simp: dict_simps split: option.splits)

lemma ask_jev_returns:
  assumes "cascade_wf c" "ask_ok a"
  shows "\<exists>evs1 js why. ask_jev c a esc evs = (evs1, Inr (js, why))"
proof (cases "cs_jev c")
  case (Some m)
  have m: "dmodel_ok m" "ak_task a \<noteq> []"
    using assms Some by (auto simp: cascade_wf_def ask_ok_def)
  obtain as failed e where "call_model c a m (asked_of a esc) (Some (map snd esc)) False evs = (evs @ [e], Inr (as, failed))"
    using call_model_returns [OF m] .
  then show ?thesis
    by (simp add: ask_jev_def Some)
qed (simp add: ask_jev_def)

text \<open>The outcome of a question: answered by the local model, which is trusted, or escalated and then answered by the remote
  model or abstained, never both.\<close>

definition settled :: "cascade \<Rightarrow> cascade_result \<Rightarrow> string \<times> question \<Rightarrow> bool" where
  "settled c r = (\<lambda>(n, q).
     if n \<in> set (map fst (cr_escalated r)) then (dget (cr_answers r) n = None) \<noteq> (dget (cr_abstained r) n = None)
     else (\<exists>x. dget (cr_answers r) n = Some x \<and> trusts (cs_config c) q x) \<and> dget (cr_abstained r) n = None)"

definition only_asked :: "ask \<Rightarrow> cascade_result \<Rightarrow> bool" where
  "only_asked a r = (\<forall>n. dget (cr_answers r) n \<noteq> None \<or> dget (cr_abstained r) n \<noteq> None \<longrightarrow> n \<in> set (map fst (ak_questions a)))"

lemma dget_filter: "dget (filter (\<lambda>(n, _). n \<notin> S) d) n = (if n \<in> S then None else dget d n)"
  by (induction d) (auto split: if_splits)

lemma dget_none: "dget d n = None \<longleftrightarrow> n \<notin> fst ` set d"
  by (rule map_of_eq_None_iff)

lemma laya_settles:
  assumes "laya_says c a as esc"
    and r: "cr_answers r = filter (\<lambda>(n, _). n \<notin> set (map fst esc)) as" "cr_abstained r = []" "cr_escalated r = esc"
  shows "esc = [] \<Longrightarrow> list_all (settled c r) (ak_questions a) \<and> only_asked a r"
    "list_all (settled c (take_jev (map fst esc) js why r)) (ak_questions a) \<and> only_asked a (take_jev (map fst esc) js why r)"
proof -
  have q: "\<exists>x. dget as n = Some x \<and> trusts (cs_config c) q x" if "(n, q) \<in> set (ak_questions a)" "n \<notin> set (map fst esc)" for n q
    using assms(1) that by (auto simp: laya_says_def)
  have k: "n \<in> set (map fst (ak_questions a))" if "dget as n = Some x \<or> n \<in> set (map fst esc)" for n x
  proof -
    have "fst ` set as \<subseteq> fst ` set (ak_questions a)" "fst ` set esc \<subseteq> fst ` set (ak_questions a)"
      using assms(1) by (auto simp: laya_says_def)
    moreover have "n \<in> fst ` set as \<or> n \<in> fst ` set esc"
      using that dget_in_set [of as n x] by (metis fst_conv image_eqI set_map)
    ultimately show ?thesis
      by auto
  qed
  show "list_all (settled c r) (ak_questions a) \<and> only_asked a r" if "esc = []"
    using q k that by (auto simp: list_all_iff settled_def only_asked_def r dget_filter)
  let ?r = "take_jev (map fst esc) js why r"
  have "settled c ?r (n, q)" if "(n, q) \<in> set (ak_questions a)" for n q
    using q [OF that] by (auto simp: settled_def take_jev_parts r dget_filter split: option.splits)
  moreover have "only_asked a ?r"
    using k by (auto simp: only_asked_def take_jev_parts r dget_filter split: option.splits if_splits)
  ultimately show "list_all (settled c ?r) (ak_questions a) \<and> only_asked a ?r"
    by (auto simp: list_all_iff)
qed

text \<open>C26: The cascade settles every question exactly once and never raises. Whatever the two models do, provided a model
  that replies answers what it was asked, the cascade returns; each question is either answered by the local model with a
  calibrated confidence outside the escalation band and few enough labels, or escalated, and then answered by the remote model or
  abstained but not both; and nothing else is answered.\<close>

theorem cascade_settles_every_question:
  assumes "cascade_wf c" "ask_ok a"
  shows "\<exists>evs' r. decide_cascade c a evs = (evs', Inr r) \<and> list_all (settled c r) (ak_questions a) \<and> only_asked a r"
proof -
  obtain evs1 as esc where l: "ask_laya c a evs = (evs1, Inr (as, esc))" "laya_says c a as esc"
    using ask_laya_returns [OF assms] by blast
  let ?r = "\<lparr>cr_answers = filter (\<lambda>(n, _). n \<notin> set (map fst esc)) as, cr_abstained = [], cr_escalated = esc, cr_shadow = False\<rparr>"
  show ?thesis
  proof (cases "esc = []")
    case False
    obtain evs2 js why where "ask_jev c a esc evs1 = (evs2, Inr (js, why))"
      using ask_jev_returns [OF assms] by blast
    then show ?thesis
      using False l laya_settles(2) [OF l(2), of ?r js why] by (simp add: decide_cascade_def)
  next
    case True
    have s: "list_all (settled c x) (ak_questions a) \<and> only_asked a x" if "x \<in> {?r, ?r\<lparr>cr_shadow := True\<rparr>}" for x
      using that True laya_settles(1) [OF l(2), of x] by auto
    show ?thesis
    proof (cases "cs_jev c \<noteq> None \<and> sampled c a")
      case sh: True
      then obtain m where m: "cs_jev c = Some m" by auto
      then have "dmodel_ok m" "ak_task a \<noteq> []"
        using assms by (auto simp: cascade_wf_def ask_ok_def)
      then obtain as' f' e where "call_model c a m (ak_questions a) None True evs1 = (evs1 @ [e], Inr (as', f'))"
        using call_model_returns by metis
      then show ?thesis
        using s sh True l m by (auto simp: decide_cascade_def)
    next
      case sh: False
      then show ?thesis
        using s True l by (auto simp: decide_cascade_def)
    qed
  qed
qed

text \<open>An undefined confidence is inside no band: the local answer is used although nothing is known of it.\<close>

lemma undefined_confidence_is_trusted:
  "ma_confidence x = NaN \<Longrightarrow> qn_type q \<noteq> Choice \<Longrightarrow> uncertain cf [(n, q)] [(n, x)] = []"
  by (simp add: uncertain_def)

definition yes_no :: question where
  "yes_no = \<lparr>qn_type = Noul, qn_instructions = ''?'', qn_criteria = None\<rparr>"

definition unsure_laya :: dmodel where
  "unsure_laya = \<lparr>dm_name = ''laya'', dm_checkpoint = ''v1'', dm_context = Some 512,
     dm_decide = (\<lambda>st qs. Some (map (\<lambda>(n, q). (n, \<lparr>ma_type = qn_type q, ma_value = VBool True, ma_probs = [], ma_confidence = Fin (1 / 2),
       ma_model = ''laya'', ma_calibrated = False\<rparr>)) qs))\<rparr>"

definition laya_only :: cascade where
  "laya_only = \<lparr>cs_laya = Some unsure_laya, cs_jev = None, cs_config = \<lparr>cf_low = 35 / 100, cf_high = 65 / 100, cf_max_choices = 20, cf_shadow_pct = 0\<rparr>,
     cs_calibrate = (\<lambda>_ _ x. Some x), cs_bucket = (\<lambda>_ _ _. 0)\<rparr>"

definition sample_ask :: ask where
  "sample_ask = \<lparr>ak_task = ''typed_veto'', ak_state = [], ak_questions = [(''veto'', yes_no)], ak_decision_id = None, ak_book_id = None\<rparr>"

theorem cascade_settles_every_question_witness:
  "\<exists>evs r. decide_cascade laya_only sample_ask [] = (evs, Inr r) \<and> dget (cr_abstained r) ''veto'' = Some JevNotConfigured
     \<and> list_all (settled laya_only r) (ak_questions sample_ask)"
proof -
  have "cascade_wf laya_only" "ask_ok sample_ask"
    by (auto simp: cascade_wf_def ask_ok_def laya_only_def sample_ask_def dmodel_ok_def unsure_laya_def o_def case_prod_unfold)
  moreover have "\<exists>evs r. decide_cascade laya_only sample_ask [] = (evs, Inr r) \<and> dget (cr_abstained r) ''veto'' = Some JevNotConfigured"
    by (simp add: decide_cascade_def ask_laya_def laya_only_def sample_ask_def unsure_laya_def call_model_def model_call_valid_def estimate_tokens_def
        uncertain_def yes_no_def ask_jev_def Let_def)
  ultimately show ?thesis
    using cascade_settles_every_question [of laya_only sample_ask "[]"] by auto
qed

end
