(* ===== verification/Advisors.thy ===== *)
theory Advisors
  imports Decision LLM_Chain Cascade_Props Evidence Risk_Events
begin

text \<open>
  The advisors of the books: \<^verbatim>\<open>src/decision/advisors/typed_veto.py\<close> (Book B: the decision-model cascade) and
  \<^verbatim>\<open>src/decision/advisors/llm_veto.py\<close> (Book C: the language-model router). Both review one proposal, record what
  they asked and answered as events, and return a verdict; whatever fails becomes an abstention. The error texts of
  the fallback events are not modelled; the reasons a signal carries (read from its indicators) are a parameter.
\<close>

section \<open>Events\<close>

type_synonym verdict_reason = "string \<times> string"

record advisor_verdict =
  av_decision_id :: string
  av_book_id :: string
  av_advisor :: advisor_kind
  av_verdict :: verdict
  av_confidence :: "flt option"
  av_reasons :: "verdict_reason list"
  av_provider :: "string option"
  av_model :: "string option"
  av_abstain_reason :: "string option"

definition probability :: "flt \<Rightarrow> bool" where
  "probability x = (flt_le (Fin 0) x \<and> flt_le x (Fin 1))"

definition advisor_verdict_valid :: "advisor_verdict \<Rightarrow> bool" where
  "advisor_verdict_valid v =
     (av_decision_id v \<noteq> [] \<and> av_book_id v \<noteq> [] \<and> (case av_confidence v of None \<Rightarrow> True | Some x \<Rightarrow> probability x)
      \<and> list_all (\<lambda>(claim, ref). claim \<noteq> [] \<and> ref \<noteq> []) (av_reasons v)
      \<and> (av_verdict v = ABSTAIN) = (av_abstain_reason v \<noteq> None))"

datatype advisor_event =
    AdvisorRequested string string advisor_kind string
  | AdvisorFallback string string advisor_kind string
  | AdvisorVerdict advisor_verdict

text \<open>A constructor refuses what is not valid; the events of a review are in the order of their emission.\<close>

definition judge :: "advisor_verdict \<Rightarrow> advisor_event list \<times> verdict result" where
  "judge v = (if advisor_verdict_valid v then ([AdvisorVerdict v], Inr (av_verdict v)) else ([], Inl ValueError))"

definition abstain :: "string \<Rightarrow> string \<Rightarrow> advisor_kind \<Rightarrow> string \<Rightarrow> advisor_event list \<times> verdict result" where
  "abstain d b k why =
     (case judge \<lparr>av_decision_id = d, av_book_id = b, av_advisor = k, av_verdict = ABSTAIN, av_confidence = None,
                   av_reasons = [], av_provider = None, av_model = None, av_abstain_reason = Some why\<rparr> of
        (evs, r) \<Rightarrow> (AdvisorFallback d b k why # evs, r))"

definition requested :: "string \<Rightarrow> advisor_kind \<Rightarrow> proposal \<Rightarrow> advisor_event" where
  "requested b k p = AdvisorRequested (i_decision_id (pp_intent p)) b k (sg_signal_id (pp_signal p))"

section \<open>The typed veto\<close>

subsection \<open>Words for numbers\<close>

definition rsi_words :: "rat \<Rightarrow> string" where
  "rsi_words x = (if 70 \<le> x then ''RSI overbought'' else if x \<le> 30 then ''RSI oversold''
     else if 60 \<le> x then ''RSI strong'' else if x \<le> 40 then ''RSI weak'' else ''RSI neutral'')"

definition volatility_words :: "rat \<Rightarrow> string" where
  "volatility_words x = (if fl64 (3 / 100) \<le> x then ''volatility high''
     else if x \<le> fl64 (12 / 1000) then ''volatility low'' else ''volatility normal'')"

definition trend_words :: "rat \<Rightarrow> string" where
  "trend_words x = (if 30 \<le> x then ''strong trend'' else if x < 20 then ''weak trend'' else ''moderate trend'')"

definition average_words :: "rat \<Rightarrow> rat \<Rightarrow> string \<Rightarrow> string" where
  "average_words close average label = ''price '' @ (if average \<le> close then ''above'' else ''below'') @ '' its '' @ label @ '' average''"

definition band_words :: "rat \<Rightarrow> string" where
  "band_words x = (if 1 < x then ''price above the upper Bollinger band''
     else if x < 0 then ''price below the lower Bollinger band'' else ''price inside the Bollinger bands'')"

definition move_words :: "rat \<Rightarrow> string" where
  "move_words m = (if fl64 (4 / 100) \<le> m then ''sharp rise last session''
     else if m \<le> - fl64 (4 / 100) then ''sharp fall last session'' else ''ordinary last session'')"

definition liquidity_words :: "rat \<Rightarrow> string" where
  "liquidity_words x = (if 5 * 10 ^ 9 \<le> x then ''liquidity high'' else if x < 2 * 10 ^ 8 then ''liquidity low'' else ''liquidity adequate'')"

definition when_known :: "string \<Rightarrow> ('a \<Rightarrow> string) \<Rightarrow> 'a option \<Rightarrow> (string, string) dict" where
  "when_known k f x = (case x of None \<Rightarrow> [] | Some v \<Rightarrow> [(k, f v)])"

definition verbalise :: "features \<Rightarrow> (string, string) dict" where
  "verbalise f =
     when_known ''rsi'' rsi_words (ft_rsi_14 f)
     @ when_known ''volatility'' volatility_words (ft_atr_pct f)
     @ when_known ''trend_strength'' trend_words (ft_adx_14 f)
     @ when_known ''vs_50d'' (\<lambda>a. average_words (ft_close f) a ''50-day'') (truthy (dget (ft_sma f) 50))
     @ when_known ''vs_200d'' (\<lambda>a. average_words (ft_close f) a ''200-day'') (truthy (dget (ft_sma f) 200))
     @ when_known ''bands'' band_words (ft_bb_percent f)
     @ when_known ''last_session'' (\<lambda>c. move_words (fsub (fdiv (ft_close f) c) 1)) (truthy (ft_prev_close f))
     @ when_known ''liquidity'' liquidity_words (ft_adv20_inr f)"

subsection \<open>The announcements it sees\<close>

text \<open>An announcement with its title and the free text of its date.\<close>

record notice_event = typed_event +
  ne_title :: string
  ne_when :: "json option"

fun announcement_words :: "announcement_type \<Rightarrow> string" where
  "announcement_words AtResults = ''results''"
| "announcement_words AtResultsDate = ''results date''"
| "announcement_words AtDividend = ''dividend''"
| "announcement_words AtSplitBonus = ''split bonus''"
| "announcement_words AtPledge = ''pledge''"
| "announcement_words AtInsiderOrPromoter = ''insider or promoter''"
| "announcement_words AtOrderWin = ''order win''"
| "announcement_words AtLitigation = ''litigation or regulatory''"
| "announcement_words AtManagementChange = ''management change''"
| "announcement_words AtRatingChange = ''rating change''"
| "announcement_words AtFundraise = ''fundraise''"
| "announcement_words AtOther = ''other''"

fun direction_words :: "event_direction \<Rightarrow> string" where
  "direction_words EdPositive = ''positive''"
| "direction_words EdNegative = ''negative''"
| "direction_words EdNeutral = ''neutral''"
| "direction_words EdUnclear = ''unclear''"

fun materiality_words :: "materiality \<Rightarrow> string" where
  "materiality_words Minor = ''minor''"
| "materiality_words Moderate = ''moderate''"
| "materiality_words Major = ''major''"

fun regime_words :: "regime \<Rightarrow> string" where
  "regime_words TRENDING_UP = ''trending up''"
| "regime_words TRENDING_DOWN = ''trending down''"
| "regime_words RANGING = ''ranging''"
| "regime_words VOLATILE = ''volatile''"

fun side_words :: "side \<Rightarrow> string" where
  "side_words BUY = ''BUY''"
| "side_words SELL = ''SELL''"

definition listed :: "('a \<Rightarrow> string) \<Rightarrow> 'a option \<Rightarrow> string list" where
  "listed f x = (case x of None \<Rightarrow> [] | Some v \<Rightarrow> [f v])"

definition describe_event :: "(date \<Rightarrow> string) \<Rightarrow> notice_event \<Rightarrow> string" where
  "describe_event day_text e =
     join '' | ''
       ([day_text (ist_date (te_published_at e))]
        @ listed announcement_words (te_announcement_type e) @ listed direction_words (te_direction e)
        @ listed materiality_words (te_materiality e)
        @ (case ne_when e of Some (JText w) \<Rightarrow> [''scheduled '' @ w] | _ \<Rightarrow> []))
     @ '': '' @ take 200 (ne_title e)"

definition or_text :: "string \<Rightarrow> string \<Rightarrow> string" where
  "or_text s d = (if s = [] then d else s)"

definition veto_state ::
  "(date \<Rightarrow> string) \<Rightarrow> proposal \<Rightarrow> features \<Rightarrow> regime option \<Rightarrow> notice_event list \<Rightarrow> (string, string) dict" where
  "veto_state day_text p f reg evs =
     (let i = pp_intent p; ins = i_instrument i
      in [(''instrument'', or_text (ins_name ins) (ins_symbol ins) @ '' ('' @ ins_symbol ins @ '', ''
             @ or_text (case ins_sector ins of None \<Rightarrow> [] | Some s \<Rightarrow> s) ''sector unknown'' @ '')''),
          (''proposal'', ''open a '' @ side_words (i_side i) @ '' position, strategy '' @ i_strategy i),
          (''market_regime'', case reg of None \<Rightarrow> ''unknown'' | Some r \<Rightarrow> regime_words r),
          (''features'', or_text (join ''; '' (map snd (verbalise f))) ''unknown''),
          (''events'', or_text (join newline (map (describe_event day_text) evs)) ''no announcements'')])"

subsection \<open>The review\<close>

record typed_advisor =
  ta_cascade :: cascade
  ta_book_id :: string
  ta_calendar :: nse_calendar
  ta_events :: "string \<Rightarrow> notice_event list"
  ta_regime :: "regime option"
  ta_threshold :: rat
  ta_isoformat :: "date \<Rightarrow> string"
  ta_now :: ts

definition typed_ok :: "typed_advisor \<Rightarrow> bool" where
  "typed_ok a = (0 < ta_threshold a \<and> ta_threshold a \<le> 1)"

definition lookback_sessions :: int where
  "lookback_sessions = 10"

definition veto_questions :: "(string, question) dict" where
  "veto_questions =
     [(''veto'', \<lparr>qn_type = Noul,
         qn_instructions = ''Is there a concrete adverse event or condition in the context that makes opening a ''
           @ ''long position in this instrument today imprudent?'',
         qn_criteria = Some (Labelled [(''false'', ''no concrete adverse event or condition''),
           (''true'', ''a concrete adverse event or condition is present'')])\<rparr>),
      (''concern'', \<lparr>qn_type = Choice, qn_instructions = ''What is the main concern about opening this long position?'',
         qn_criteria = Some (Labelled [(''none'', ''no material concern''), (''event_risk'', ''a pending or recent corporate event''),
           (''trend_against'', ''the market or stock trend is against a long''),
           (''overextended'', ''the price has already moved too far''), (''liquidity'', ''thin liquidity''), (''other'', ''another concern'')])\<rparr>)]"

definition recent_events :: "typed_advisor \<Rightarrow> string \<Rightarrow> notice_event list result" where
  "recent_events a k =
     (case shift_sessions (ta_calendar a) (ist_date (ta_now a)) (- (lookback_sessions - 1)) of
        Inl e \<Rightarrow> Inl e
      | Inr since \<Rightarrow>
          Inr (sort_key te_published_at
                 (filter (\<lambda>e. te_published_at e \<le> ta_now a \<and> since \<le> ist_date (te_published_at e)) (ta_events a k))))"

fun abstention_words :: "abstention \<Rightarrow> string" where
  "abstention_words JevNotConfigured = ''jev_not_configured''"
| "abstention_words JevUnavailable = ''jev_unavailable''"

text \<open>\<^verbatim>\<open>round(p, 4)\<close>: the infinities and the undefined value stay what they are.\<close>

fun round4 :: "flt \<Rightarrow> flt" where
  "round4 (Fin q) = Fin (fl64 (of_int (round_half_even (q * 10000)) / 10000))"
| "round4 x = x"

definition concern_reasons :: "manswer option \<Rightarrow> verdict_reason list" where
  "concern_reasons c =
     (case c of
        None \<Rightarrow> []
      | Some a \<Rightarrow> (case ma_value a of VText v \<Rightarrow> if v \<noteq> ''none'' then [(''main concern: '' @ v, ''concern:'' @ v)] else [] | _ \<Rightarrow> []))"

definition typed_verdict :: "typed_advisor \<Rightarrow> string \<Rightarrow> cascade_result \<Rightarrow> advisor_event list \<times> verdict result" where
  "typed_verdict a d r =
     (let veto = dget (cr_answers r) ''veto''
      in case Option.bind veto p_true of
         None \<Rightarrow> abstain d (ta_book_id a) TypedVeto
                   (''veto_'' @ (case dget (cr_abstained r) ''veto'' of Some w \<Rightarrow> abstention_words w | None \<Rightarrow> ''no_answer''))
       | Some p \<Rightarrow>
           (case partition_on (CHR '':'') (ma_model (the veto)) of
              (model, _, checkpoint) \<Rightarrow>
                judge \<lparr>av_decision_id = d, av_book_id = ta_book_id a, av_advisor = TypedVeto,
                       av_verdict = (if flt_le (Fin (ta_threshold a)) p then VETO else APPROVE), av_confidence = Some (round4 p),
                       av_reasons = concern_reasons (dget (cr_answers r) ''concern''), av_provider = optional model,
                       av_model = optional checkpoint, av_abstain_reason = None\<rparr>))"

definition typed_ask :: "typed_advisor \<Rightarrow> proposal \<Rightarrow> features \<Rightarrow> notice_event list \<Rightarrow> ask" where
  "typed_ask a p f evs =
     \<lparr>ak_task = ''typed_veto'', ak_state = veto_state (ta_isoformat a) p f (ta_regime a) evs, ak_questions = veto_questions,
      ak_decision_id = Some (i_decision_id (pp_intent p)), ak_book_id = Some (ta_book_id a)\<rparr>"

definition typed_review ::
  "typed_advisor \<Rightarrow> proposal \<Rightarrow> features \<Rightarrow> model_call list \<Rightarrow> model_call list \<times> advisor_event list \<times> verdict result" where
  "typed_review a p f calls =
     (let d = i_decision_id (pp_intent p); asked = requested (ta_book_id a) TypedVeto p
      in case recent_events a (i_key (pp_intent p)) of
         Inl e \<Rightarrow> (calls, [asked], Inl e)
       | Inr evs \<Rightarrow>
           (case decide_cascade (ta_cascade a) (typed_ask a p f evs) calls of
              (calls1, Inl e) \<Rightarrow> (case abstain d (ta_book_id a) TypedVeto ''cascade_error'' of (out, r) \<Rightarrow> (calls1, asked # out, r))
            | (calls1, Inr r) \<Rightarrow> (case typed_verdict a d r of (out, v) \<Rightarrow> (calls1, asked # out, v))))"

text \<open>Outside the guarded call nothing is caught: an undefined probability of a veto is refused by the validator of
  the verdict event, and the review raises with no verdict and no fallback recorded.\<close>

lemma undefined_veto_raises:
  assumes "dget (cr_answers r) ''veto'' = Some x" "p_true x = Some NaN"
  shows "typed_verdict a d r = ([], Inl ValueError)"
  using assms by (simp add: typed_verdict_def judge_def advisor_verdict_valid_def probability_def split: prod.split)

section \<open>The language-model veto\<close>

subsection \<open>What it sees\<close>

definition json_num :: "rat option \<Rightarrow> json" where
  "json_num x = (case x of None \<Rightarrow> JNull | Some v \<Rightarrow> JNum (Fin v))"

definition period_key :: "string \<Rightarrow> int \<Rightarrow> string" where
  "period_key pre n = pre @ nat_str (nat n)"

definition features_json :: "(date \<Rightarrow> string) \<Rightarrow> features \<Rightarrow> (string, json) dict" where
  "features_json day_text f =
     (let num = (\<lambda>n x. (n, JNum (Fin x)));
          periods = (\<lambda>pre d. map (\<lambda>(n, x). (period_key pre n, JNum (Fin x))) (sort_key fst d))
      in fold (\<lambda>(k, v). dset k v)
           ([(''instrument_key'', JText (ft_instrument_key f)), (''bar_date'', JText (day_text (ft_bar_date f))),
             (''bars'', JNum (Fin (of_int (ft_bars f)))), num ''open'' (ft_open f), num ''high'' (ft_high f), num ''low'' (ft_low f),
             num ''close'' (ft_close f), num ''volume'' (ft_volume f), (''prev_close'', json_num (ft_prev_close f)),
             (''rsi_14'', json_num (ft_rsi_14 f)), (''macd'', json_num (ft_macd f)), (''macd_signal'', json_num (ft_macd_signal f)),
             (''macd_hist'', json_num (ft_macd_hist f)), (''adx_14'', json_num (ft_adx_14 f)), (''plus_di_14'', json_num (ft_plus_di_14 f)),
             (''minus_di_14'', json_num (ft_minus_di_14 f)), (''atr_14'', json_num (ft_atr_14 f)), (''bb_upper'', json_num (ft_bb_upper f)),
             (''bb_middle'', json_num (ft_bb_middle f)), (''bb_lower'', json_num (ft_bb_lower f)), (''bb_percent'', json_num (ft_bb_percent f)),
             (''adv20_shares'', json_num (ft_adv20_shares f)), (''adv20_inr'', json_num (ft_adv20_inr f)),
             (''sigma_daily'', json_num (ft_sigma_daily f))]
            @ periods ''ema_'' (ft_ema f) @ periods ''sma_'' (ft_sma f)) [])"

definition veto_input ::
  "(date \<Rightarrow> string) \<Rightarrow> (signal \<Rightarrow> (string, json) dict) \<Rightarrow> proposal \<Rightarrow> features \<Rightarrow> (string, json) dict" where
  "veto_input day_text why p f =
     (let s = pp_signal p; ins = i_instrument (pp_intent p)
      in [(''signal'', JObj
            [(''instrument'', JText (ins_symbol ins)), (''sector'', case ins_sector ins of None \<Rightarrow> JNull | Some t \<Rightarrow> JText t),
             (''strategy'', JText (sg_strategy s)), (''side'', JText (side_words (sg_side s))),
             (''bar_date'', JText (day_text (sg_bar_date s))), (''agreement_score'', JNum (Fin (sg_agreement_score s))),
             (''reasons'', JObj (why s))]),
          (''features'', JObj (features_json day_text f)), (''events'', JList [])])"

subsection \<open>The review\<close>

record veto_output =
  vo_verdict :: verdict
  vo_confidence :: rat
  vo_reasons :: "verdict_reason list"
  vo_schema_version :: int

text \<open>The output schema: at most five reasons, a confidence between 0 and 1, version 1.\<close>

definition veto_output_ok :: "veto_output \<Rightarrow> bool" where
  "veto_output_ok out =
     (0 \<le> vo_confidence out \<and> vo_confidence out \<le> 1 \<and> length (vo_reasons out) \<le> 5 \<and> vo_schema_version out = 1
      \<and> list_all (\<lambda>(claim, ref). length claim \<le> 300 \<and> length ref \<le> 120) (vo_reasons out))"

record llm_advisor =
  la_book_id :: string
  la_template :: prompt_template
  la_role :: string
  la_threshold :: "rat option"
  la_isoformat :: "date \<Rightarrow> string"
  la_reasons :: "signal \<Rightarrow> (string, json) dict"
  la_dumps :: "json \<Rightarrow> string"
  la_sha256 :: "string \<Rightarrow> string"
  la_decode :: "string \<Rightarrow> veto_output option"
  la_encode :: "veto_output \<Rightarrow> string"

definition llm_advisor_ok :: "llm_advisor \<Rightarrow> bool" where
  "llm_advisor_ok a = (case la_threshold a of None \<Rightarrow> True | Some t \<Rightarrow> 0 < t \<and> t \<le> 1)"

fun outcome_words :: "llm_outcome option \<Rightarrow> string" where
  "outcome_words None = ''disabled''"
| "outcome_words (Some LOk) = ''ok''"
| "outcome_words (Some LTimeout) = ''timeout''"
| "outcome_words (Some LRateLimited) = ''rate_limited''"
| "outcome_words (Some LServerError) = ''server_error''"
| "outcome_words (Some LInvalidOutput) = ''invalid_output''"
| "outcome_words (Some LRefusal) = ''refusal''"
| "outcome_words (Some LBudgetExceeded) = ''budget_exceeded''"
| "outcome_words (Some LBreakerOpen) = ''breaker_open''"
| "outcome_words (Some LError) = ''error''"

definition llm_verdict ::
  "llm_advisor \<Rightarrow> string \<Rightarrow> (string, json) dict \<Rightarrow> veto_output llm_result \<Rightarrow> advisor_event list \<times> verdict result" where
  "llm_verdict a d dat r =
     (case (if lr_outcome r = Some LOk then lr_parsed r else None) of
        None \<Rightarrow> abstain d (la_book_id a) LlmVeto (''llm_'' @ outcome_words (lr_outcome r))
      | Some out \<Rightarrow>
          if unsupported (map snd (vo_reasons out)) (JObj dat) \<noteq> [] then abstain d (la_book_id a) LlmVeto ''hallucinated_evidence''
          else if vo_verdict out = VETO \<and> vo_reasons out = [] then abstain d (la_book_id a) LlmVeto ''veto_without_evidence''
          else if vo_verdict out = VETO \<and> (case la_threshold a of None \<Rightarrow> False | Some t \<Rightarrow> vo_confidence out < t)
          then abstain d (la_book_id a) LlmVeto ''veto_below_threshold''
          else case partition_on (CHR '':'') (case lr_model r of None \<Rightarrow> [] | Some m \<Rightarrow> m) of
            (provider, _, model) \<Rightarrow>
              judge \<lparr>av_decision_id = d, av_book_id = la_book_id a, av_advisor = LlmVeto, av_verdict = vo_verdict out,
                     av_confidence = Some (Fin (vo_confidence out)),
                     av_reasons = filter (\<lambda>(claim, ref). claim \<noteq> [] \<and> ref \<noteq> []) (vo_reasons out),
                     av_provider = optional provider, av_model = optional model,
                     av_abstain_reason = (if vo_verdict out = ABSTAIN then Some ''model abstained'' else None)\<rparr>)"

definition llm_request :: "llm_advisor \<Rightarrow> proposal \<Rightarrow> (string, json) dict \<Rightarrow> veto_output request" where
  "llm_request a p dat =
     \<lparr>rq_role = la_role a, rq_messages = render (la_dumps a) (la_template a) dat,
      rq_prompt_version = prompt_version (la_sha256 a) (la_template a), rq_decision_id = Some (i_decision_id (pp_intent p)),
      rq_book_id = Some (la_book_id a), rq_decode = la_decode a, rq_encode = la_encode a, rq_is_schema = veto_output_ok\<rparr>"

definition llm_review ::
  "llm_advisor \<Rightarrow> veto_output llm_env \<Rightarrow> router_config \<Rightarrow> proposal \<Rightarrow> features \<Rightarrow> router
    \<Rightarrow> router \<times> advisor_event list \<times> verdict result" where
  "llm_review a env cfg p f rt =
     (let dat = veto_input (la_isoformat a) (la_reasons a) p f; asked = requested (la_book_id a) LlmVeto p
      in case complete env cfg (llm_request a p dat) rt of
         (rt1, Inl e) \<Rightarrow> (rt1, [asked], Inl e)
       | (rt1, Inr r) \<Rightarrow> (case llm_verdict a (i_decision_id (pp_intent p)) dat r of (out, v) \<Rightarrow> (rt1, asked # out, v)))"

section \<open>A veto is grounded\<close>

text \<open>C29: A language model can only veto with evidence. Reading back a stored reply validates it against the schema. When the
  review of a proposal returns a veto, the router answered with a veto that satisfies the schema (a confidence between
  0 and 1, at most five reasons within their lengths, version 1), gives at least one reason, cites only paths that are in
  the input, and is at least as confident as the book requires; the verdict it recorded is that veto.\<close>

theorem llm_veto_is_grounded:
  assumes "llm_review a env cfg p f rt = (rt', evs, Inr VETO)" "\<forall>t out. la_decode a t = Some out \<longrightarrow> veto_output_ok out"
  shows "\<exists>r out v. complete env cfg (llm_request a p (veto_input (la_isoformat a) (la_reasons a) p f)) rt = (rt', Inr r)
    \<and> lr_outcome r = Some LOk \<and> lr_parsed r = Some out \<and> vo_verdict out = VETO \<and> vo_reasons out \<noteq> []
    \<and> 0 \<le> vo_confidence out \<and> vo_confidence out \<le> 1 \<and> length (vo_reasons out) \<le> 5 \<and> vo_schema_version out = 1
    \<and> (\<forall>(claim, ref)\<in>set (vo_reasons out). length claim \<le> 300 \<and> length ref \<le> 120)
    \<and> (\<forall>(claim, ref)\<in>set (vo_reasons out). normalise ref \<in> set (key_paths (JObj (veto_input (la_isoformat a) (la_reasons a) p f)) []))
    \<and> (\<forall>t. la_threshold a = Some t \<longrightarrow> t \<le> vo_confidence out)
    \<and> evs = [requested (la_book_id a) LlmVeto p, AdvisorVerdict v] \<and> av_verdict v = VETO \<and> av_confidence v = Some (Fin (vo_confidence out))"
proof -
  let ?dat = "veto_input (la_isoformat a) (la_reasons a) p f"
  obtain r out where r: "complete env cfg (llm_request a p ?dat) rt = (rt', Inr r)"
    "llm_verdict a (i_decision_id (pp_intent p)) ?dat r = (out, Inr VETO)" "evs = requested (la_book_id a) LlmVeto p # out"
    using assms(1) by (auto simp: llm_review_def Let_def split: prod.splits sum.splits)
  have no: "snd (abstain d b k w) \<noteq> Inr VETO" for d b k w by (simp add: abstain_def judge_def)
  obtain ow where ow: "lr_outcome r = Some LOk" "lr_parsed r = Some ow"
    using r(2) no by (cases "lr_parsed r") (auto simp: llm_verdict_def split: if_splits dest: arg_cong [of _ _ snd])
  have ok: "unsupported (map snd (vo_reasons ow)) (JObj ?dat) = []" "\<not> (vo_verdict ow = VETO \<and> vo_reasons ow = [])"
    "\<not> (vo_verdict ow = VETO \<and> (case la_threshold a of None \<Rightarrow> False | Some t \<Rightarrow> vo_confidence ow < t))"
    using r(2) ow no by (auto simp: llm_verdict_def split: if_splits dest: arg_cong [of _ _ snd])
  then obtain v where v: "out = [AdvisorVerdict v]" "av_verdict v = VETO" "vo_verdict ow = VETO" "av_confidence v = Some (Fin (vo_confidence ow))"
    using r(2) ow by (auto simp: llm_verdict_def judge_def split: prod.splits if_splits option.splits)
  have "veto_output_ok ow"
    using complete_schema [OF r(1) ow(2)] assms(2) by (auto simp: llm_request_def)
  then have s: "0 \<le> vo_confidence ow" "vo_confidence ow \<le> 1" "length (vo_reasons ow) \<le> 5" "vo_schema_version ow = 1"
    "\<forall>(claim, ref)\<in>set (vo_reasons ow). length claim \<le> 300 \<and> length ref \<le> 120"
    by (simp_all add: veto_output_ok_def list_all_iff)
  have "\<forall>(claim, ref)\<in>set (vo_reasons ow). normalise ref \<in> set (key_paths (JObj ?dat) [])"
    using ok(1) by (auto simp: unsupported_def filter_empty_conv)
  with r(1,3) ow ok v s show ?thesis by (intro exI [of _ r] exI [of _ ow] exI [of _ v]) (auto split: option.splits)
qed

subsection \<open>An example\<close>

definition plain_features :: features where
  "plain_features =
     \<lparr>ft_instrument_key = ''NSE:EQ:INFY'', ft_bar_date = 20454, ft_bars = 250, ft_open = 100, ft_high = 102, ft_low = 99, ft_close = 101,
      ft_volume = 1000, ft_prev_close = Some 100, ft_rsi_14 = Some 78, ft_macd = None, ft_macd_signal = None, ft_macd_hist = None,
      ft_adx_14 = Some 25, ft_plus_di_14 = None, ft_minus_di_14 = None, ft_atr_14 = Some 2, ft_bb_upper = None, ft_bb_middle = None,
      ft_bb_lower = None, ft_bb_percent = None, ft_ema = [(21, 100)], ft_sma = [(50, 98)], ft_adv20_shares = None, ft_adv20_inr = None,
      ft_sigma_daily = None\<rparr>"

definition plain_signal :: signal where
  "plain_signal =
     \<lparr>sg_signal_id = ''s1'', sg_decision_id = ''d1'', sg_instrument_key = ''NSE:EQ:INFY'', sg_strategy = ''momentum'', sg_side = BUY,
      sg_bar_date = 20454, sg_agreement_score = 1 / 2, sg_stop_atr_mult = 2, sg_target_atr_mult = 3, sg_is_shadow = False, sg_generated_at = 0\<rparr>"

definition plain_proposal :: proposal where
  "plain_proposal = \<lparr>pp_intent = sample_entry, pp_signal = plain_signal, pp_atr = 2\<rparr>"

definition plain_output :: "verdict \<Rightarrow> verdict_reason list \<Rightarrow> veto_output" where
  "plain_output v rs = \<lparr>vo_verdict = v, vo_confidence = 3 / 4, vo_reasons = rs, vo_schema_version = 1\<rparr>"

definition plain_llm :: llm_advisor where
  "plain_llm =
     \<lparr>la_book_id = ''llm'', la_template = \<lparr>pt_name = ''veto'', pt_version = 1, pt_system = [], pt_instructions = []\<rparr>, la_role = ''veto'',
      la_threshold = Some (1 / 2), la_isoformat = (\<lambda>_. ''d''), la_reasons = (\<lambda>_. []), la_dumps = (\<lambda>_. ''{}''), la_sha256 = (\<lambda>s. s),
      la_decode = (\<lambda>t. if t = ''hold'' then Some (plain_output APPROVE []) else None), la_encode = (\<lambda>_. [])\<rparr>"

definition plain_answer :: veto_output where
  "plain_answer = plain_output VETO [(''overbought'', ''features.rsi_14'')]"

definition answer_env :: "'a client_result \<Rightarrow> 'a llm_env" where
  "answer_env res = \<lparr>le_sha = (\<lambda>s. s), le_render = (\<lambda>ms. ''r''), le_begin = 0, le_start = (\<lambda>_. 0), le_done = (\<lambda>_. 1), le_client = (\<lambda>_ _ _. res)\<rparr>"

definition plain_reply :: "veto_output client_reply" where
  "plain_reply = \<lparr>cr_parsed = plain_answer, cr_usage = no_usage, cr_headers = []\<rparr>"

lemma plain_review:
  "case llm_review plain_llm (answer_env (Replied plain_reply)) sample_router plain_proposal plain_features (new_router 0 None None) of
     (rt, evs, r) \<Rightarrow> r = Inr VETO"
  by code_simp

theorem llm_veto_is_grounded_witness:
  "\<exists>rt evs v. llm_review plain_llm (answer_env (Replied plain_reply)) sample_router plain_proposal plain_features (new_router 0 None None)
     = (rt, evs, Inr VETO) \<and> evs = [requested ''llm'' LlmVeto plain_proposal, AdvisorVerdict v] \<and> av_verdict v = VETO"
proof -
  obtain rt evs where r: "llm_review plain_llm (answer_env (Replied plain_reply)) sample_router plain_proposal plain_features
      (new_router 0 None None) = (rt, evs, Inr VETO)"
    using plain_review by (auto split: prod.splits)
  have b: "la_book_id plain_llm = ''llm''" by (simp add: plain_llm_def)
  have "\<forall>t out. la_decode plain_llm t = Some out \<longrightarrow> veto_output_ok out"
    by (simp add: plain_llm_def plain_output_def veto_output_ok_def)
  from llm_veto_is_grounded [OF r this] show ?thesis unfolding b r by blast
qed

end
