(* ===== verification/Outage.thy ===== *)
theory Outage
  imports Advisors
begin

text \<open>
  Fail-safe advice: with every language model or every decision model failing, an advisor never vetoes, and a decision
  cycle of books with such advisors is, event for event, the cycle of the same books without advisors.
\<close>

section \<open>A failing router never vetoes\<close>

definition outage :: "'a llm_env \<Rightarrow> bool" where
  "outage env = (\<forall>i m a rep. le_client env i m a \<noteq> Replied rep)"

definition no_replies :: "router \<Rightarrow> bool" where
  "no_replies rt = (case rt_cache rt of None \<Rightarrow> True | Some c \<Rightarrow> c = [])"

lemma no_replies_miss: "no_replies rt \<Longrightarrow> cached_reply rq k rt = None"
  by (auto simp: no_replies_def cached_reply_def split: option.splits)

lemma cache_same [simp]:
  "no_replies (rt\<lparr>rt_breakers := b\<rparr>) = no_replies rt" "no_replies (rt\<lparr>rt_ledger := l\<rparr>) = no_replies rt"
  "no_replies (fst (record_call env rq m i t oc u usd inr hit rt)) = no_replies rt"
  "no_replies (breaker_failed cfg s t rt) = no_replies rt"
  "no_replies (settle_failure cfg m t e rt) = no_replies rt"
  "no_replies (roll_day t rt) = no_replies rt"
  by (auto simp: no_replies_def record_call_def Let_def breaker_failed_def settle_failure_def pause_provider_def roll_day_def split: llm_error.splits)

text \<open>An attempt that answers nothing: no reply is stored, and what it returns has no value.\<close>

definition unanswered :: "router \<times> 'a answer result \<Rightarrow> bool" where
  "unanswered x = (no_replies (fst x) \<and> (\<forall>oc a. snd x = Inr (oc, a) \<longrightarrow> a = None))"

lemma unanswered_record:
  "no_replies rt \<Longrightarrow> unanswered (answered (record_call env rq m i t oc u usd inr hit rt) (oc', None))"
  using cache_same(3) [of env rq m i t oc u usd inr hit rt]
  by (cases "record_call env rq m i t oc u usd inr hit rt") (auto simp: unanswered_def answered_def split: sum.splits)

lemma settle_call_down:
  assumes "\<nexists>rep. res = Replied rep" "no_replies rt"
  shows "unanswered (settle_call env cfg rq m i res rt)"
  using assms by (cases res) (simp_all add: settle_call_def unanswered_record)

lemma attempt_down:
  assumes "outage env" "no_replies rt"
  shows "unanswered (attempt env cfg rq c m i rt)"
proof -
  have "\<nexists>rep. le_client env i m (args_of rq c) = Replied rep" using assms(1) by (simp add: outage_def)
  then show ?thesis
    using assms(2) by (simp add: attempt_def no_replies_miss Let_def settle_call_down unanswered_record split: option.split)
qed

lemma try_chain_down:
  assumes "outage env" "no_replies rt" "try_chain env cfg rq c ms i oc rt = (rt', Inr r)"
  shows "lr_parsed r = None"
  using assms(2,3)
proof (induction ms arbitrary: i oc rt)
  case (Cons m ms)
  note down = attempt_down [OF assms(1) Cons.prems(1), of cfg rq c m i, unfolded unanswered_def]
  obtain rt1 x where a: "attempt env cfg rq c m i rt = (rt1, x)" by fastforce
  obtain oc1 where x: "x = Inr (oc1, None)" using Cons.prems(2) down a by (cases x) auto
  show ?case using Cons.IH [of rt1] Cons.prems(2) down a x by simp
qed (auto simp: failed_result_def)

lemma complete_down:
  assumes "outage env" "no_replies rt" "complete env cfg rq rt = (rt', Inr r)"
  shows "lr_parsed r = None"
  using assms(3) try_chain_down [OF assms(1), of "roll_day (le_begin env) rt"] assms(2)
  by (auto simp: complete_def failed_result_def split: option.splits if_splits)

lemma abstain_no_veto: "abstain d b k w = (evs, r) \<Longrightarrow> r \<noteq> Inr VETO"
  by (auto simp: abstain_def judge_def split: if_splits)

lemma llm_down:
  assumes "outage env" "no_replies rt"
  shows "snd (snd (llm_review a env cfg p f rt)) \<noteq> Inr VETO"
proof -
  let ?dat = "veto_input (la_isoformat a) (la_reasons a) p f"
  obtain rt1 x where c: "complete env cfg (llm_request a p ?dat) rt = (rt1, x)" by fastforce
  show ?thesis
  proof (cases x)
    case (Inr r)
    then have "lr_parsed r = None" using complete_down [OF assms] c by blast
    then have "llm_verdict a d ?dat r = abstain d (la_book_id a) LlmVeto (''llm_'' @ outcome_words (lr_outcome r))" for d
      by (simp add: llm_verdict_def)
    then show ?thesis using c Inr abstain_no_veto by (auto simp: llm_review_def Let_def split: prod.splits)
  qed (use c in \<open>simp add: llm_review_def\<close>)
qed

section \<open>A failing cascade never vetoes\<close>

definition models_down :: "cascade \<Rightarrow> bool" where
  "models_down c = (\<forall>m. cs_laya c = Some m \<or> cs_jev c = Some m \<longrightarrow> (\<forall>st qs. dm_decide m st qs = None))"

lemma call_down: "\<forall>st qs. dm_decide m st qs = None \<Longrightarrow> call_model c a m qs why shadow evs = (evs1, Inr (answers, x)) \<Longrightarrow> answers = []"
  by (auto simp: call_model_def Let_def split: if_splits)

lemma ask_laya_down: "models_down c \<Longrightarrow> ask_laya c a evs = (evs1, Inr (answers, esc)) \<Longrightarrow> answers = []"
  by (auto simp: ask_laya_def Let_def models_down_def split: option.splits if_splits prod.splits sum.splits dest: call_down)

lemma ask_jev_down: "models_down c \<Longrightarrow> ask_jev c a esc evs = (evs1, Inr (answers, why)) \<Longrightarrow> answers = []"
  by (auto simp: ask_jev_def models_down_def split: option.splits prod.splits sum.splits dest: call_down)

lemma take_jev_none: "cr_answers (take_jev ns [] why r) = cr_answers r"
  by (induction ns arbitrary: r) simp_all

lemma cascade_down:
  assumes "models_down c" "decide_cascade c a evs = (evs1, Inr r)"
  shows "cr_answers r = []"
proof -
  obtain evs2 esc where l: "ask_laya c a evs = (evs2, Inr ([], esc))"
    using assms ask_laya_down [OF assms(1)] by (auto simp: decide_cascade_def split: prod.splits sum.splits)
  show ?thesis
    using assms l by (auto simp: decide_cascade_def Let_def take_jev_none split: prod.splits sum.splits if_splits dest: ask_jev_down)
qed

lemma typed_down:
  assumes "models_down (ta_cascade a)"
  shows "snd (snd (typed_review a p f calls)) \<noteq> Inr VETO"
proof (cases "recent_events a (i_key (pp_intent p))")
  case (Inr evs)
  obtain calls1 x where d: "decide_cascade (ta_cascade a) (typed_ask a p f evs) calls = (calls1, x)" by fastforce
  have "\<exists>w. typed_verdict a k r = abstain k (ta_book_id a) TypedVeto w" if "cr_answers r = []" for k r
    using that by (simp add: typed_verdict_def Let_def del: append_Cons append_Nil) (rule exI, rule refl)
  then have "snd (typed_verdict a k r) \<noteq> Inr VETO" if "cr_answers r = []" for k r
    using that abstain_no_veto by (metis prod.collapse)
  then show ?thesis using d Inr cascade_down [OF assms, of "typed_ask a p f evs" calls calls1] abstain_no_veto
    by (cases x) (auto simp: typed_review_def split: prod.split dest: arg_cong [of _ _ snd])
qed (simp add: typed_review_def)

section \<open>The cycle without a veto\<close>

text \<open>What an advisor says of each proposal; the clock, the clients and the router it has then are arbitrary.\<close>

datatype advisor =
    TypedAdvisor "proposal \<Rightarrow> typed_advisor" "proposal \<Rightarrow> model_call list"
  | LLMAdvisor llm_advisor "proposal \<Rightarrow> veto_output llm_env" router_config "proposal \<Rightarrow> router"

fun advice :: "advisor \<Rightarrow> proposal \<Rightarrow> features \<Rightarrow> verdict result" where
  "advice (TypedAdvisor a calls) p f = snd (snd (typed_review (a p) p f (calls p)))"
| "advice (LLMAdvisor a env cfg rt) p f = snd (snd (llm_review a (env p) cfg p f (rt p)))"

fun failing :: "advisor \<Rightarrow> bool" where
  "failing (TypedAdvisor a calls) = (\<forall>p. models_down (ta_cascade (a p)))"
| "failing (LLMAdvisor a env cfg rt) = (\<forall>p. outage (env p) \<and> no_replies (rt p))"

lemma failing_silent: "failing a \<Longrightarrow> advice a p f \<noteq> Inr VETO"
  by (cases a) (simp_all add: typed_down llm_down)

definition advised :: "(string \<Rightarrow> advisor option) \<Rightarrow> (string, book_target) dict \<Rightarrow> (string, book_target) dict" where
  "advised adv books = map (\<lambda>(b, t). (b, t\<lparr>bt_advisor := map_option advice (adv b)\<rparr>)) books"

text \<open>The same cycle with the advisors taken out of the books.\<close>

definition unadvised_books :: "(string, book_target) dict \<Rightarrow> (string, book_target) dict" where
  "unadvised_books books = map (map_prod id (\<lambda>t. t\<lparr>bt_advisor := None\<rparr>)) books"

definition unadvised :: "cycle \<Rightarrow> cycle" where
  "unadvised c = c\<lparr>cy_books := unadvised_books (cy_books c)\<rparr>"

definition quiet_target :: "book_target \<Rightarrow> bool" where
  "quiet_target t = (\<forall>p f. \<not> is_vetoed t p f)"

definition quiet :: "cycle \<Rightarrow> bool" where
  "quiet c = (\<forall>(b, t)\<in>set (cy_books c). quiet_target t)"

lemma unadvised_simps [simp]:
  "unadvised (cy_emit e c) = cy_emit e (unadvised c)" "unadvised (cy_skip k w c) = cy_skip k w (unadvised c)"
  "unadvised (dispose b s d x c) = dispose b s d x (unadvised c)"
  "unadvised (c\<lparr>cy_signals := ss\<rparr>) = (unadvised c)\<lparr>cy_signals := ss\<rparr>" "unadvised (c\<lparr>cy_proposals := ps\<rparr>) = (unadvised c)\<lparr>cy_proposals := ps\<rparr>"
  "unadvised (c\<lparr>cy_submitted := sb\<rparr>) = (unadvised c)\<lparr>cy_submitted := sb\<rparr>"
  "cy_signals (unadvised c) = cy_signals c" "cy_proposals (unadvised c) = cy_proposals c" "cy_submitted (unadvised c) = cy_submitted c"
  "cy_books (unadvised c) = unadvised_books (cy_books c)" "map fst (unadvised_books books) = map fst books"
  by (simp_all add: unadvised_def cy_emit_def cy_skip_def dispose_def unadvised_books_def)

lemma quiet_simps [simp]:
  "quiet (cy_emit e c) = quiet c" "quiet (cy_skip k w c) = quiet c" "quiet (dispose b s d x c) = quiet c"
  "quiet (c\<lparr>cy_signals := ss\<rparr>) = quiet c" "quiet (c\<lparr>cy_proposals := ps\<rparr>) = quiet c" "quiet (c\<lparr>cy_submitted := sb\<rparr>) = quiet c"
  by (simp_all add: quiet_def cy_emit_def cy_skip_def dispose_def)

lemma dget_unadvised: "dget (unadvised_books books) b = map_option (\<lambda>t. t\<lparr>bt_advisor := None\<rparr>) (dget books b)"
  by (induction books) (auto simp: unadvised_books_def)

lemma dset_unadvised: "unadvised_books (dset b t books) = dset b (t\<lparr>bt_advisor := None\<rparr>) (unadvised_books books)"
  by (induction books) (auto simp: unadvised_books_def)

lemma set_exits_unadvised [simp]: "unadvised (set_exits b x c) = set_exits b x (unadvised c)"
proof (cases "dget (cy_books c) b")
  case (Some t)
  have eq: "t\<lparr>bt_exits := x, bt_advisor := None\<rparr> = t\<lparr>bt_advisor := None, bt_exits := x\<rparr>" by simp
  show ?thesis using Some by (simp add: set_exits_def unadvised_def dget_unadvised dset_unadvised eq)
qed (simp add: set_exits_def unadvised_def dget_unadvised)

lemma quiet_exits:
  assumes "quiet c"
  shows "quiet (set_exits b x c)"
proof (cases "dget (cy_books c) b")
  case (Some t)
  then have "quiet_target (t\<lparr>bt_exits := x\<rparr>)"
    using assms by (auto simp: quiet_def quiet_target_def is_vetoed_def dest!: dget_in_set)
  then have "quiet_target t'" if m: "(b', t') \<in> set (dset b (t\<lparr>bt_exits := x\<rparr>) (cy_books c))" for b' t'
    using set_dset [OF m] assms by (auto simp: quiet_def)
  then show ?thesis using Some by (auto simp: quiet_def set_exits_def)
qed (use assms in \<open>simp add: set_exits_def\<close>)

lemma dispose_all_unadvised [simp]: "unadvised (dispose_all s d c) = dispose_all s d (unadvised c)" "quiet (dispose_all s d c) = quiet c"
proof -
  have "unadvised (fold (\<lambda>b. dispose b s d None) bs c) = fold (\<lambda>b. dispose b s d None) bs (unadvised c)
    \<and> quiet (fold (\<lambda>b. dispose b s d None) bs c) = quiet c" for bs
    by (induction bs arbitrary: c) simp_all
  then show "unadvised (dispose_all s d c) = dispose_all s d (unadvised c)" "quiet (dispose_all s d c) = quiet c"
    by (simp_all add: dispose_all_def)
qed

text \<open>Every part of the cycle commutes with taking the advisors out.\<close>

definition commutes :: "cycle \<times> 'r \<Rightarrow> cycle \<times> 'r \<Rightarrow> bool" where
  "commutes x y = (quiet (fst x) \<and> y = (unadvised (fst x), snd x))"

lemma find_signals_commutes: "quiet c \<Longrightarrow> commutes (find_signals env ins c) (find_signals env ins (unadvised c))"
  by (auto simp: commutes_def find_signals_def Let_def split: option.splits sum.splits)

lemma take_signal_commutes: "quiet c \<Longrightarrow> commutes (take_signal env reg ins s (c, cands)) (take_signal env reg ins s (unadvised c, cands))"
  by (auto simp: commutes_def take_signal_def Let_def)

lemma take_signals_commutes:
  "quiet c \<Longrightarrow> commutes (fold (take_signal env reg ins) ss (c, cands)) (fold (take_signal env reg ins) ss (unadvised c, cands))"
proof (induction ss arbitrary: c cands)
  case (Cons s ss)
  obtain c1 cands1 where t: "take_signal env reg ins s (c, cands) = (c1, cands1)" by fastforce
  show ?case using take_signal_commutes [OF Cons.prems, of env reg ins s cands] Cons.IH [of c1 cands1] t by (auto simp: commutes_def)
qed (simp add: commutes_def)

lemma scan_commutes:
  "quiet c \<Longrightarrow> fst (scan_universe env reg us fs (unadvised c, cands)) = fst (scan_universe env reg us fs (c, cands))
     \<and> commutes (snd (scan_universe env reg us fs (c, cands))) (snd (scan_universe env reg us fs (unadvised c, cands)))"
proof (induction us arbitrary: fs c cands)
  case (Cons ins us)
  obtain c1 r where f: "find_signals env ins c = (c1, r)" by fastforce
  note 1 = find_signals_commutes [OF Cons.prems, of env ins, unfolded commutes_def f fst_conv snd_conv]
  show ?case
  proof (cases r)
    case None
    then show ?thesis using 1 f Cons.IH [of c1 fs cands] by simp
  next
    case (Some p)
    obtain g ss where p: "p = (g, ss)" by fastforce
    obtain c2 cands2 where t: "fold (take_signal env reg ins) ss (c1, cands) = (c2, cands2)" by fastforce
    have "commutes (c2, cands2) (fold (take_signal env reg ins) ss (unadvised c1, cands))"
      using take_signals_commutes [of c1 env reg ins ss cands] 1 t by simp
    then show ?thesis using 1 f Some p t Cons.IH [of c2 "dset (ins_key ins) g fs" cands2] by (simp add: commutes_def)
  qed
qed (simp add: commutes_def)

lemma requote_commutes: "quiet c \<Longrightarrow> commutes (requote env ks c) (requote env ks (unadvised c))"
  by (auto simp: commutes_def requote_def split: sum.splits)

lemma propose_all_commutes:
  "quiet c \<Longrightarrow> commutes (propose_all env b fs qs cands ps c) (propose_all env b fs qs cands ps (unadvised c))"
proof (induction cands arbitrary: ps c)
  case (Cons cand cands)
  then show ?case
  proof (cases "propose_for env b fs qs cand")
    case (Inr oc)
    show ?thesis
    proof (cases oc)
      case (Proposed p)
      then show ?thesis using Cons.IH [of "cy_emit (OrderIntentProposed (pp_intent p)) c" "ps @ [p]"] Cons.prems Inr by simp
    next
      case (Skipped s why)
      then show ?thesis
        using Cons.IH [of "dispose b (fst cand) PolicySkipped None (cy_skip (sg_signal_id (fst cand)) (PolicySkip why) c)" ps] Cons.prems Inr
        by simp
    qed
  qed (use Cons.prems in \<open>simp add: commutes_def\<close>)
qed (simp add: commutes_def)

lemma submit_commutes:
  assumes "quiet c"
  shows "commutes (submit_proposal b f p c) (submit_proposal b f p (unadvised c))"
proof (cases "dget (cy_books c) b")
  case (Some t)
  let ?t = "t\<lparr>bt_advisor := None\<rparr>"
  have nv: "\<not> is_vetoed t p f" "\<not> is_vetoed ?t p f"
    using assms Some by (auto simp: quiet_def quiet_target_def is_vetoed_def dest!: dget_in_set)
  obtain x1 r1 where e: "expect_entry (xe_coid (bt_env t)) (pp_intent p) (pp_atr p) (sg_bar_date (pp_signal p)) (bt_exits t) = (x1, r1)" by fastforce
  obtain x2 r2 where s: "exits_submit (bt_env t) (pp_intent p) x1 = (x2, r2)" by fastforce
  show ?thesis using assms Some nv e s quiet_exits [OF assms]
    by (cases r1; cases r2) (simp_all add: commutes_def submit_proposal_def Let_def dget_unadvised)
qed (use assms in \<open>simp add: commutes_def submit_proposal_def dget_unadvised\<close>)

lemma submit_ranked_commutes: "quiet c \<Longrightarrow> commutes (submit_ranked b fs ps c) (submit_ranked b fs ps (unadvised c))"
proof (induction ps arbitrary: c)
  case (Cons p ps)
  show ?case
  proof (cases "dget fs (i_key (pp_intent p))")
    case (Some f)
    obtain c1 r where s: "submit_proposal b f p c = (c1, r)" by fastforce
    show ?thesis using submit_commutes [OF Cons.prems, of b f p] Cons.IH [of c1] Some s by (cases r) (auto simp: commutes_def)
  qed (use Cons.prems in \<open>simp add: commutes_def\<close>)
qed (simp add: commutes_def)

lemma run_books_commutes: "quiet c \<Longrightarrow> commutes (run_books env fs qs cands bs c) (run_books env fs qs cands bs (unadvised c))"
proof (induction bs arbitrary: c)
  case (Cons b bs)
  obtain c1 r1 where p: "propose_all env b fs qs cands [] c = (c1, r1)" by fastforce
  note 1 = propose_all_commutes [OF Cons.prems, of env b fs qs cands "[]", unfolded commutes_def p fst_conv snd_conv]
  show ?case
  proof (cases r1)
    case (Inr ps)
    let ?c = "c1\<lparr>cy_proposals := cy_proposals c1 @ ps\<rparr>"
    obtain c2 r2 where s: "submit_ranked b fs (sort_key proposal_rank ps) ?c = (c2, r2)" by fastforce
    have "commutes (c2, r2) (submit_ranked b fs (sort_key proposal_rank ps) (unadvised ?c))"
      using submit_ranked_commutes [of ?c b fs "sort_key proposal_rank ps"] 1 s by simp
    then show ?thesis using 1 p s Inr Cons.IH [of c2] by (cases r2) (auto simp: commutes_def)
  qed (use 1 p in \<open>simp add: commutes_def\<close>)
qed (simp add: commutes_def)

lemma run_cycle_unadvised:
  assumes "\<forall>(b, t)\<in>set books. quiet_target t" "run_cycle env universe reg books = (c, r)"
  shows "run_cycle env universe reg (unadvised_books books) = (unadvised c, r)"
proof -
  let ?n = "new_cycle books"
  have n: "quiet ?n" "unadvised ?n = new_cycle (unadvised_books books)"
    using assms(1) by (simp_all add: quiet_def new_cycle_def unadvised_def)
  obtain fs c0 cands where s: "scan_universe env reg universe [] (?n, []) = (fs, c0, cands)" by (metis prod_cases3)
  note 1 = scan_commutes [OF n(1), of env reg universe "[]" "[]", unfolded s commutes_def fst_conv snd_conv]
  then have s': "scan_universe env reg universe [] (unadvised ?n, []) = (fs, unadvised c0, cands)" and q0: "quiet c0"
    by (auto intro: prod_eqI)
  obtain c1 qs where rq: "requote env (remdups (map (\<lambda>(s, ins). ins_key ins) cands)) c0 = (c1, qs)" by fastforce
  note 2 = requote_commutes [OF q0, of env "remdups (map (\<lambda>(s, ins). ins_key ins) cands)", unfolded rq commutes_def fst_conv snd_conv]
  have 3: "commutes (run_books env fs qs cands (map fst books) c1) (run_books env fs qs cands (map fst books) (unadvised c1))"
    using run_books_commutes 2 by blast
  show ?thesis using assms(2) s s' rq 2 3 unfolding n(2) [symmetric] run_cycle_def
    by (auto simp: commutes_def n(2) split: if_splits)
qed

text \<open>C28: An outage changes nothing. When the models behind every advisor fail (each client call of a router without
  stored replies fails, or each model of a cascade fails), the decision cycle has the same result, the same events and
  the same orders as the cycle of the same books with no advisors: the deterministic decision stands.\<close>

theorem outage_trades_unadvised:
  assumes "\<forall>b a. adv b = Some a \<longrightarrow> failing a" "run_cycle env universe reg (advised adv books) = (c, r)"
  shows "run_cycle env universe reg (advised (\<lambda>b. None) books) = (unadvised c, r)"
proof -
  have "\<forall>(b, t)\<in>set (advised adv books). quiet_target t"
    using assms(1) failing_silent by (auto simp: advised_def quiet_target_def is_vetoed_def split: option.splits sum.splits)
  moreover have "unadvised_books (advised adv books) = advised (\<lambda>b. None) books"
    by (simp add: unadvised_books_def advised_def split_def map_prod_def)
  ultimately show ?thesis using run_cycle_unadvised assms(2) by metis
qed

definition dead_advisor :: advisor where
  "dead_advisor = LLMAdvisor plain_llm (\<lambda>_. answer_env TimedOut) sample_router (\<lambda>_. new_router 0 None None)"

theorem outage_trades_unadvised_witness:
  "run_cycle sample_decisions sample_universe None (advised (\<lambda>b. None) sample_books)
     = (unadvised (fst (run_cycle sample_decisions sample_universe None (advised (\<lambda>b. Some dead_advisor) sample_books))),
        snd (run_cycle sample_decisions sample_universe None (advised (\<lambda>b. Some dead_advisor) sample_books)))"
proof -
  have "failing dead_advisor" by (simp add: dead_advisor_def outage_def answer_env_def no_replies_def new_router_def)
  then show ?thesis
    using outage_trades_unadvised [of "\<lambda>b. Some dead_advisor" sample_decisions sample_universe None sample_books] by (metis option.inject prod.collapse)
qed

end
