(* ===== verification/Event_Store.thy ===== *)
theory Event_Store
  imports Advisors OMS_Props
begin

text \<open>
  The event log and its read model: envelopes and their routing (\<^verbatim>\<open>src/domain/events.py\<close>,
  \<^verbatim>\<open>src/store/sink.py\<close>), the projectors (\<^verbatim>\<open>src/store/projections.py\<close>) and the append-only store
  (\<^verbatim>\<open>src/store/event_store.py\<close>). A table is a dictionary from its primary key; \<^verbatim>\<open>INSERT OR REPLACE\<close> is
  an update, \<^verbatim>\<open>INSERT OR IGNORE\<close> keeps what is there, and a transaction that raises gives the old state back. Columns
  hold values where SQLite holds their texts; the JSON text of a payload is a parameter, and so are the errors of the
  database. Message texts and latencies are left out.
\<close>

section \<open>Events\<close>

record kill_change =
  kc_book_id :: string
  kc_scope :: kill_scope
  kc_name :: string
  kc_previous :: kill_switch_state
  kc_current :: kill_switch_state
  kc_reason :: string
  kc_actor :: string

text \<open>The payloads that are projected, the order manager's with their book, and the others by type and lineage.\<close>

datatype payload =
    OmsPayload string oms_event
  | DecisionPayload risk_decision
  | KillPayload kill_change
  | RiskDayPayload string date json
  | LlmCallPayload llm_call
  | ModelCallPayload model_call
  | TypedEventPayload notice_event
  | OtherPayload string "string option" "string option" "string option"

fun oms_type :: "oms_event \<Rightarrow> string" where
  "oms_type (OrderSubmitted od) = ''OrderSubmitted''"
| "oms_type (OrderAcked r k st) = ''OrderAcked''"
| "oms_type (OrderRejected r) = ''OrderRejected''"
| "oms_type (OrderUnknown r) = ''OrderUnknown''"
| "oms_type (OrderCancelled r q) = ''OrderCancelled''"
| "oms_type (OrderExpired r q) = ''OrderExpired''"
| "oms_type (FillReceived f st q a) = ''FillReceived''"
| "oms_type (PositionChanged p k) = ''PositionChanged''"
| "oms_type (TradeClosed c) = ''TradeClosed''"
| "oms_type (ReconciliationResult b ds) = ''ReconciliationResult''"
| "oms_type (AlertEvent k) = ''Alert''"

fun event_type :: "payload \<Rightarrow> string" where
  "event_type (OmsPayload b e) = oms_type e"
| "event_type (DecisionPayload d) = ''RiskDecision''"
| "event_type (KillPayload c) = ''KillSwitchChanged''"
| "event_type (RiskDayPayload b d st) = ''DailyRiskStateRolled''"
| "event_type (LlmCallPayload c) = ''LLMCall''"
| "event_type (ModelCallPayload c) = ''DecisionModelCall''"
| "event_type (TypedEventPayload e) = ''TypedEvent''"
| "event_type (OtherPayload t d b i) = t"

text \<open>The lineage of a payload: decision, book and instrument.\<close>

type_synonym routing = "string option \<times> string option \<times> string option"

fun ref_routing :: "order_ref \<Rightarrow> routing" where
  "ref_routing (c, b, d, i) = (Some d, Some b, Some i)"

fun oms_routing :: "string \<Rightarrow> oms_event \<Rightarrow> routing" where
  "oms_routing b (OrderSubmitted od) = (Some (i_decision_id (o_intent od)), Some (i_book_id (o_intent od)), Some (i_key (o_intent od)))"
| "oms_routing b (OrderAcked r k st) = ref_routing r"
| "oms_routing b (OrderRejected r) = ref_routing r"
| "oms_routing b (OrderUnknown r) = ref_routing r"
| "oms_routing b (OrderCancelled r q) = ref_routing r"
| "oms_routing b (OrderExpired r q) = ref_routing r"
| "oms_routing b (FillReceived f st q a) = (Some (f_decision_id f), Some (f_book_id f), Some (f_instrument_key f))"
| "oms_routing b (PositionChanged p k) = (None, Some (p_book_id p), Some (p_instrument_key p))"
| "oms_routing b (TradeClosed c) = (Some (cp_decision_id c), Some b, Some (cp_instrument_key c))"
| "oms_routing b (ReconciliationResult s ds) = (None, Some b, None)"
| "oms_routing b (AlertEvent k) = (None, None, None)"

fun routing_of :: "payload \<Rightarrow> routing" where
  "routing_of (OmsPayload b e) = oms_routing b e"
| "routing_of (DecisionPayload d) = (Some (rd_decision_id d), Some (rd_book_id d), Some (rd_instrument_key d))"
| "routing_of (KillPayload c) = (None, Some (kc_book_id c), None)"
| "routing_of (RiskDayPayload b d st) = (None, Some b, None)"
| "routing_of (LlmCallPayload c) = (lc_decision_id c, lc_book_id c, None)"
| "routing_of (ModelCallPayload c) = (mc_decision_id c, mc_book_id c, None)"
| "routing_of (TypedEventPayload e) = (None, None, Some (te_instrument_key e))"
| "routing_of (OtherPayload t d b i) = (d, b, i)"

record envelope =
  ev_seq :: "nat option"
  ev_ts :: ts
  ev_source :: string
  ev_payload :: payload
  ev_version :: int
  ev_decision_id :: "string option"
  ev_cycle_id :: "string option"
  ev_book_id :: "string option"
  ev_symbol :: "string option"

definition symbol_of :: "string \<Rightarrow> string" where
  "symbol_of k = last (split_on (CHR '':'') k)"

definition merge :: "string option \<Rightarrow> string option \<Rightarrow> string option result" where
  "merge explicit derived =
     (if explicit \<noteq> None \<and> derived \<noteq> None \<and> explicit \<noteq> derived then Inl ValueError
      else Inr (if explicit \<noteq> None then explicit else derived))"

definition make_event ::
  "payload \<Rightarrow> ts \<Rightarrow> string \<Rightarrow> string option \<Rightarrow> string option \<Rightarrow> string option \<Rightarrow> string option \<Rightarrow> envelope result" where
  "make_event p t source cycle decision book symbol =
     (case routing_of p of (rd, rb, ri) \<Rightarrow>
        if source = [] then Inl ValueError
        else case merge decision rd of
          Inl e \<Rightarrow> Inl e
        | Inr d \<Rightarrow>
            (case merge book rb of
               Inl e \<Rightarrow> Inl e
             | Inr b \<Rightarrow>
                 (case merge symbol (Option.bind ri (\<lambda>k. if k = [] then None else Some (symbol_of k))) of
                    Inl e \<Rightarrow> Inl e
                  | Inr s \<Rightarrow>
                      Inr \<lparr>ev_seq = None, ev_ts = t, ev_source = source, ev_payload = p, ev_version = 1, ev_decision_id = d,
                           ev_cycle_id = cycle, ev_book_id = b, ev_symbol = s\<rparr>)))"

section \<open>Tables\<close>

record order_row =
  or_book_id :: string
  or_decision_id :: string
  or_intent_id :: string
  or_instrument_key :: string
  or_strategy :: string
  or_side :: side
  or_product :: product
  or_order_type :: order_type
  or_kind :: intent_kind
  or_reason :: intent_reason
  or_quantity :: int
  or_status :: order_status
  or_filled_qty :: int
  or_avg_fill_price :: "rat option"
  or_broker_order_id :: "string option"
  or_created_seq :: nat
  or_updated_seq :: nat
  or_updated_ts :: ts

record tables =
  tb_orders :: "(string, order_row) dict"
  tb_fills :: "(string, fill \<times> nat) dict"
  tb_positions :: "(string \<times> string \<times> product, position \<times> ts \<times> nat) dict"
  tb_trades :: "(string, string \<times> closed_piece \<times> nat) dict"
  tb_risk_days :: "(string \<times> date, json \<times> nat) dict"
  tb_kill_switches :: "(string \<times> kill_scope \<times> string, kill_switch_state \<times> string \<times> string \<times> ts \<times> nat) dict"
  tb_decisions :: "(string \<times> string, risk_decision \<times> ts \<times> nat) dict"
  tb_llm_calls :: "(nat, llm_call \<times> ts) dict"
  tb_model_calls :: "(nat, model_call \<times> ts) dict"
  tb_typed_events :: "(string, notice_event \<times> nat) dict"

definition no_tables :: tables where
  "no_tables = \<lparr>tb_orders = [], tb_fills = [], tb_positions = [], tb_trades = [], tb_risk_days = [], tb_kill_switches = [],
     tb_decisions = [], tb_llm_calls = [], tb_model_calls = [], tb_typed_events = []\<rparr>"

definition order_row_of :: "order \<Rightarrow> nat \<Rightarrow> ts \<Rightarrow> order_row" where
  "order_row_of od n t =
     (let i = o_intent od
      in \<lparr>or_book_id = i_book_id i, or_decision_id = i_decision_id i, or_intent_id = i_intent_id i, or_instrument_key = i_key i,
          or_strategy = i_strategy i, or_side = i_side i, or_product = i_product i, or_order_type = i_order_type i, or_kind = i_kind i,
          or_reason = i_reason i, or_quantity = o_quantity od, or_status = o_status od, or_filled_qty = o_filled_qty od,
          or_avg_fill_price = o_avg_fill_price od, or_broker_order_id = o_broker_order_id od, or_created_seq = n, or_updated_seq = n,
          or_updated_ts = t\<rparr>)"

definition update_row :: "string \<Rightarrow> nat \<Rightarrow> ts \<Rightarrow> (order_row \<Rightarrow> order_row) \<Rightarrow> (string, order_row) dict \<Rightarrow> (string, order_row) dict" where
  "update_row c n t upd d =
     (case dget d c of None \<Rightarrow> d | Some r \<Rightarrow> dset c ((upd r)\<lparr>or_updated_seq := n, or_updated_ts := t\<rparr>) d)"

fun project_order :: "oms_event \<Rightarrow> nat \<Rightarrow> ts \<Rightarrow> (string, order_row) dict \<Rightarrow> (string, order_row) dict" where
  "project_order (OrderSubmitted od) n t d = dset (o_client_order_id od) (order_row_of od n t) d"
| "project_order (OrderAcked r k st) n t d = update_row (fst r) n t (\<lambda>x. x\<lparr>or_status := st, or_broker_order_id := Some k\<rparr>) d"
| "project_order (OrderRejected r) n t d = update_row (fst r) n t (\<lambda>x. x\<lparr>or_status := REJECTED\<rparr>) d"
| "project_order (OrderUnknown r) n t d = update_row (fst r) n t (\<lambda>x. x\<lparr>or_status := UNKNOWN\<rparr>) d"
| "project_order (OrderCancelled r q) n t d = update_row (fst r) n t (\<lambda>x. x\<lparr>or_status := CANCELLED, or_filled_qty := q\<rparr>) d"
| "project_order (OrderExpired r q) n t d = update_row (fst r) n t (\<lambda>x. x\<lparr>or_status := EXPIRED, or_filled_qty := q\<rparr>) d"
| "project_order (FillReceived f st q a) n t d =
     update_row (f_client_order_id f) n t (\<lambda>x. x\<lparr>or_status := st, or_filled_qty := q, or_avg_fill_price := Some a\<rparr>) d"
| "project_order e n t d = d"

definition insert_new :: "'k \<Rightarrow> 'v \<Rightarrow> ('k, 'v) dict \<Rightarrow> ('k, 'v) dict" where
  "insert_new k v d = (if dget d k = None then dset k v d else d)"

fun project_fill :: "oms_event \<Rightarrow> nat \<Rightarrow> (string, fill \<times> nat) dict \<Rightarrow> (string, fill \<times> nat) dict" where
  "project_fill (FillReceived f st q a) n d = insert_new (f_fill_id f) (f, n) d"
| "project_fill e n d = d"

fun project_position ::
  "oms_event \<Rightarrow> nat \<Rightarrow> ts \<Rightarrow> (string \<times> string \<times> product, position \<times> ts \<times> nat) dict \<Rightarrow> (string \<times> string \<times> product, position \<times> ts \<times> nat) dict" where
  "project_position (PositionChanged p k) n t d = dset (p_book_id p, p_instrument_key p, p_product p) (p, t, n) d"
| "project_position e n t d = d"

fun project_trade :: "string \<Rightarrow> oms_event \<Rightarrow> nat \<Rightarrow> (string, string \<times> closed_piece \<times> nat) dict \<Rightarrow> (string, string \<times> closed_piece \<times> nat) dict" where
  "project_trade b (TradeClosed c) n d = dset (cp_trade_id c) (b, c, n) d"
| "project_trade b e n d = d"

fun project :: "payload \<Rightarrow> nat \<Rightarrow> ts \<Rightarrow> tables \<Rightarrow> tables" where
  "project (OmsPayload b e) n t tb =
     tb\<lparr>tb_orders := project_order e n t (tb_orders tb), tb_fills := project_fill e n (tb_fills tb),
        tb_positions := project_position e n t (tb_positions tb), tb_trades := project_trade b e n (tb_trades tb)\<rparr>"
| "project (DecisionPayload d) n t tb = tb\<lparr>tb_decisions := dset (rd_book_id d, rd_intent_id d) (d, t, n) (tb_decisions tb)\<rparr>"
| "project (KillPayload c) n t tb =
     tb\<lparr>tb_kill_switches := dset (kc_book_id c, kc_scope c, kc_name c) (kc_current c, kc_reason c, kc_actor c, t, n) (tb_kill_switches tb)\<rparr>"
| "project (RiskDayPayload b d st) n t tb = tb\<lparr>tb_risk_days := dset (b, d) (st, n) (tb_risk_days tb)\<rparr>"
| "project (LlmCallPayload c) n t tb = tb\<lparr>tb_llm_calls := dset n (c, t) (tb_llm_calls tb)\<rparr>"
| "project (ModelCallPayload c) n t tb = tb\<lparr>tb_model_calls := dset n (c, t) (tb_model_calls tb)\<rparr>"
| "project (TypedEventPayload e) n t tb = tb\<lparr>tb_typed_events := dset (te_event_id e) (e, n) (tb_typed_events tb)\<rparr>"
| "project (OtherPayload ty d b i) n t tb = tb"

section \<open>The store\<close>

record 'x event_row =
  er_seq :: nat
  er_ts :: ts
  er_type :: string
  er_version :: int
  er_decision_id :: "string option"
  er_cycle_id :: "string option"
  er_book_id :: "string option"
  er_symbol :: "string option"
  er_source :: string
  er_text :: 'x

record 'x store =
  es_rows :: "'x event_row list"
  es_last :: nat
  es_tables :: tables
  es_kv :: "(string \<times> string, string \<times> ts) dict"

definition new_store :: "'x store" where
  "new_store = \<lparr>es_rows = [], es_last = 0, es_tables = no_tables, es_kv = []\<rparr>"

text \<open>How a payload is written and read back.\<close>

record 'x codec =
  cd_dump :: "payload \<Rightarrow> 'x"
  cd_load :: "string \<Rightarrow> int \<Rightarrow> 'x \<Rightarrow> payload result"

definition row_of :: "'x codec \<Rightarrow> nat \<Rightarrow> envelope \<Rightarrow> 'x event_row" where
  "row_of cd n e =
     \<lparr>er_seq = n, er_ts = ev_ts e, er_type = event_type (ev_payload e), er_version = ev_version e, er_decision_id = ev_decision_id e,
      er_cycle_id = ev_cycle_id e, er_book_id = ev_book_id e, er_symbol = ev_symbol e, er_source = ev_source e,
      er_text = cd_dump cd (ev_payload e)\<rparr>"

definition row_to_event :: "'x codec \<Rightarrow> 'x event_row \<Rightarrow> envelope result" where
  "row_to_event cd r =
     (case cd_load cd (er_type r) (er_version r) (er_text r) of
        Inl e \<Rightarrow> Inl e
      | Inr p \<Rightarrow>
          Inr \<lparr>ev_seq = Some (er_seq r), ev_ts = er_ts r, ev_source = er_source r, ev_payload = p, ev_version = er_version r,
               ev_decision_id = er_decision_id r, ev_cycle_id = er_cycle_id r, ev_book_id = er_book_id r, ev_symbol = er_symbol r\<rparr>)"

text \<open>\<open>fault n\<close> is the error of the database at the \<open>n\<close>-th row, if it has one.\<close>

type_synonym faults = "nat \<Rightarrow> py_error option"

definition insert_event :: "'x codec \<Rightarrow> faults \<Rightarrow> envelope \<Rightarrow> 'x store \<Rightarrow> (nat \<times> 'x store) result" where
  "insert_event cd fault e s =
     (if ev_seq e \<noteq> None then Inl ValueError
      else let n = es_last s + 1
           in case fault n of
                Some x \<Rightarrow> Inl x
              | None \<Rightarrow>
                  Inr (n, s\<lparr>es_rows := es_rows s @ [row_of cd n e], es_last := n,
                            es_tables := project (ev_payload e) n (ev_ts e) (es_tables s)\<rparr>))"

fun insert_all :: "'x codec \<Rightarrow> faults \<Rightarrow> envelope list \<Rightarrow> 'x store \<Rightarrow> (nat list \<times> 'x store) result" where
  "insert_all cd fault [] s = Inr ([], s)"
| "insert_all cd fault (e # es) s =
     (case insert_event cd fault e s of
        Inl x \<Rightarrow> Inl x
      | Inr (n, s1) \<Rightarrow> (case insert_all cd fault es s1 of Inl x \<Rightarrow> Inl x | Inr (ns, s2) \<Rightarrow> Inr (n # ns, s2)))"

definition append_many :: "'x codec \<Rightarrow> faults \<Rightarrow> envelope list \<Rightarrow> 'x store \<Rightarrow> 'x store \<times> nat list result" where
  "append_many cd fault es s =
     (case insert_all cd fault es s of Inl x \<Rightarrow> (s, Inl x) | Inr (ns, s') \<Rightarrow> (s', Inr ns))"

definition append_event :: "'x codec \<Rightarrow> faults \<Rightarrow> envelope \<Rightarrow> 'x store \<Rightarrow> 'x store \<times> nat result" where
  "append_event cd fault e s =
     (case append_many cd fault [e] s of (s', Inl x) \<Rightarrow> (s', Inl x) | (s', Inr ns) \<Rightarrow> (s', Inr (hd ns)))"

definition emit ::
  "'x codec \<Rightarrow> faults \<Rightarrow> ts \<Rightarrow> string \<Rightarrow> payload \<Rightarrow> string option \<Rightarrow> string option \<Rightarrow> 'x store \<Rightarrow> 'x store \<times> envelope result" where
  "emit cd fault now usual p source cycle s =
     (case make_event p now (case source of Some x \<Rightarrow> if x = [] then usual else x | None \<Rightarrow> usual) cycle None None None of
        Inl x \<Rightarrow> (s, Inl x)
      | Inr e \<Rightarrow> (case append_event cd fault e s of (s', Inl x) \<Rightarrow> (s', Inl x) | (s', Inr n) \<Rightarrow> (s', Inr (e\<lparr>ev_seq := Some n\<rparr>))))"

fun replay_rows :: "'x codec \<Rightarrow> 'x event_row list \<Rightarrow> tables \<Rightarrow> tables result" where
  "replay_rows cd [] tb = Inr tb"
| "replay_rows cd (r # rs) tb =
     (case row_to_event cd r of Inl x \<Rightarrow> Inl x | Inr e \<Rightarrow> replay_rows cd rs (project (ev_payload e) (er_seq r) (ev_ts e) tb))"

definition rebuild_projections :: "'x codec \<Rightarrow> 'x store \<Rightarrow> 'x store \<times> nat result" where
  "rebuild_projections cd s =
     (case replay_rows cd (sort_key er_seq (es_rows s)) no_tables of
        Inl x \<Rightarrow> (s, Inl x)
      | Inr tb \<Rightarrow> (s\<lparr>es_tables := tb\<rparr>, Inr (length (es_rows s))))"

definition last_seq :: "'x store \<Rightarrow> nat" where
  "last_seq s = (if es_rows s = [] then 0 else Max (er_seq ` set (es_rows s)))"

record filters =
  fl_since :: nat
  fl_types :: "string list option"
  fl_decision_id :: "string option"
  fl_symbol :: "string option"
  fl_book_id :: "string option"
  fl_ist_date :: "date option"
  fl_limit :: "int option"

definition wanted :: "'a option \<Rightarrow> 'a option \<Rightarrow> bool" where
  "wanted want have = (case want of None \<Rightarrow> True | Some v \<Rightarrow> have = Some v)"

definition row_matches :: "filters \<Rightarrow> 'x event_row \<Rightarrow> bool" where
  "row_matches q r =
     (fl_since q < er_seq r \<and> (case fl_types q of None \<Rightarrow> True | Some ts \<Rightarrow> er_type r \<in> set ts)
      \<and> wanted (fl_decision_id q) (er_decision_id r) \<and> wanted (fl_symbol q) (er_symbol r) \<and> wanted (fl_book_id q) (er_book_id r)
      \<and> wanted (fl_ist_date q) (Some (ist_date (er_ts r))))"

definition read_events :: "'x codec \<Rightarrow> filters \<Rightarrow> 'x store \<Rightarrow> envelope list result" where
  "read_events cd q s =
     (if fl_types q = Some [] then Inr []
      else let rs = filter (row_matches q) (sort_key er_seq (es_rows s))
           in case fl_limit q of
                None \<Rightarrow> all_ok (row_to_event cd) rs
              | Some n \<Rightarrow> if n < 0 then Inl ValueError else all_ok (row_to_event cd) (take (nat n) rs))"

subsection \<open>Key and value state\<close>

definition kv_put :: "string \<Rightarrow> string \<Rightarrow> string \<Rightarrow> ts \<Rightarrow> 'x store \<Rightarrow> 'x store" where
  "kv_put ns k v t s = s\<lparr>es_kv := dset (ns, k) (v, t) (es_kv s)\<rparr>"

definition kv_put_many :: "string \<Rightarrow> (string, string) dict \<Rightarrow> ts \<Rightarrow> 'x store \<Rightarrow> 'x store" where
  "kv_put_many ns rows t s = fold (\<lambda>(k, v). kv_put ns k v t) rows s"

definition kv_get :: "string \<Rightarrow> string \<Rightarrow> 'x store \<Rightarrow> string option" where
  "kv_get ns k s = map_option fst (dget (es_kv s) (ns, k))"

definition kv_items :: "string \<Rightarrow> 'x store \<Rightarrow> (string, string) dict" where
  "kv_items ns s = map (\<lambda>((n, k), (v, t)). (k, v)) (filter (\<lambda>((n, k), _). n = ns) (es_kv s))"

end
