(* ===== verification/Store_Props.thy ===== *)
theory Store_Props
  imports Event_Store
begin

text \<open>
  What the store promises: the log is append-only and numbered without gaps, a batch is stored whole or not at all,
  the tables are always the projection of the log and can be rebuilt from it, and the orders table shows the orders
  of the order manager whose events it was fed.
\<close>

section \<open>The tables are a function of the log\<close>

datatype 'x store_op =
    Append faults "envelope list"
  | Rebuild
  | KvPut string string string ts
  | KvPutMany string "(string, string) dict" ts

fun store_step :: "'x codec \<Rightarrow> 'x store_op \<Rightarrow> 'x store \<Rightarrow> 'x store" where
  "store_step cd (Append fault es) s = fst (append_many cd fault es s)"
| "store_step cd Rebuild s = fst (rebuild_projections cd s)"
| "store_step cd (KvPut ns k v t) s = kv_put ns k v t s"
| "store_step cd (KvPutMany ns rows t) s = kv_put_many ns rows t s"

definition store_run :: "'x codec \<Rightarrow> 'x store_op list \<Rightarrow> 'x store \<Rightarrow> 'x store" where
  "store_run cd ops s = fold (store_step cd) ops s"

text \<open>Reading back what was written, for the payloads and the version the code writes.\<close>

definition codec_ok :: "'x codec \<Rightarrow> bool" where
  "codec_ok cd = (\<forall>p. cd_load cd (event_type p) 1 (cd_dump cd p) = Inr p)"

definition log_of :: "'x codec \<Rightarrow> envelope list \<Rightarrow> 'x event_row list" where
  "log_of cd es = map (\<lambda>e. row_of cd (the (ev_seq e)) e) es"

definition project_all :: "envelope list \<Rightarrow> tables" where
  "project_all es = fold (\<lambda>e. project (ev_payload e) (the (ev_seq e)) (ev_ts e)) es no_tables"

text \<open>The log of a store as the events it holds, numbered from one.\<close>

definition holds :: "'x codec \<Rightarrow> envelope list \<Rightarrow> 'x store \<Rightarrow> bool" where
  "holds cd es s =
     (es_rows s = log_of cd es \<and> map ev_seq es = map Some [1..<length es + 1] \<and> es_last s = length es
      \<and> es_tables s = project_all es)"

definition current_version :: "envelope \<Rightarrow> bool" where
  "current_version e = (ev_version e = 1)"

lemma row_to_event_row: "codec_ok cd \<Longrightarrow> current_version e \<Longrightarrow> ev_seq e = Some n \<Longrightarrow> row_to_event cd (row_of cd n e) = Inr e"
  by (cases e) (simp add: row_to_event_def row_of_def codec_ok_def current_version_def)

lemma holds_seq: "holds cd es s \<Longrightarrow> e \<in> set es \<Longrightarrow> \<exists>n. ev_seq e = Some n"
  by (metis (no_types, lifting) holds_def image_eqI image_iff list.set_map)

lemma insert_holds:
  assumes "holds cd es s" "insert_event cd fault e s = Inr (n, s')"
  shows "n = length es + 1 \<and> holds cd (es @ [e\<lparr>ev_seq := Some n\<rparr>]) s' \<and> es_kv s' = es_kv s"
proof -
  have n: "n = length es + 1" "s' = s\<lparr>es_rows := es_rows s @ [row_of cd n e], es_last := n,
      es_tables := project (ev_payload e) n (ev_ts e) (es_tables s)\<rparr>"
    using assms by (auto simp: insert_event_def holds_def Let_def split: if_splits option.splits)
  have "row_of cd n (e\<lparr>ev_seq := Some n\<rparr>) = row_of cd n e" by (simp add: row_of_def)
  then show ?thesis using assms(1) n by (simp add: holds_def log_of_def project_all_def)
qed

lemma insert_all_holds:
  "holds cd es s \<Longrightarrow> insert_all cd fault bs s = Inr (ns, s') \<Longrightarrow>
   ns = [length es + 1..<length es + 1 + length bs]
   \<and> holds cd (es @ map2 (\<lambda>e n. e\<lparr>ev_seq := Some n\<rparr>) bs ns) s' \<and> es_kv s' = es_kv s"
proof (induction bs arbitrary: es s ns s')
  case (Cons b bs)
  obtain n s1 where i: "insert_event cd fault b s = Inr (n, s1)" using Cons.prems(2) by (auto split: sum.splits)
  obtain ms where m: "insert_all cd fault bs s1 = Inr (ms, s')" "ns = n # ms" using Cons.prems(2) i by (auto split: sum.splits)
  note n = insert_holds [OF Cons.prems(1) i]
  note r = Cons.IH [OF conjunct1 [OF conjunct2 [OF n]] m(1)]
  have "[length es + 1..<length es + 1 + length (b # bs)] = (length es + 1) # [length es + 2..<length es + 2 + length bs]"
    by (simp add: upt_rec del: upt_Suc)
  moreover have "ms = [length es + 2..<length es + 2 + length bs]" using conjunct1 [OF r] by (simp del: upt_Suc)
  ultimately show ?case using n conjunct2 [OF r] m(2) by (simp del: upt_Suc)
qed simp

lemma log_sorted: "holds cd es s \<Longrightarrow> sort_key er_seq (es_rows s) = es_rows s"
proof -
  assume h: "holds cd es s"
  have "map er_seq (es_rows s) = map (\<lambda>e. the (ev_seq e)) es" using h by (simp add: holds_def log_of_def row_of_def)
  also have "\<dots> = map the (map ev_seq es)" by simp
  also have "\<dots> = [1..<length es + 1]" 
  proof -
    have "map the (map Some xs) = xs" for xs :: "nat list" by (induction xs) simp_all
    then show ?thesis using h by (simp add: holds_def del: map_map upt_Suc)
  qed
  finally have "sorted (map er_seq (es_rows s))" by (simp del: upt_Suc)
  then show ?thesis by (rule sort_key_id_if_sorted)
qed

lemma replay_log:
  assumes "codec_ok cd"
  shows "\<forall>e\<in>set es. current_version e \<and> ev_seq e \<noteq> None \<Longrightarrow>
    replay_rows cd (log_of cd es) tb = Inr (fold (\<lambda>e. project (ev_payload e) (the (ev_seq e)) (ev_ts e)) es tb)"
proof (induction es arbitrary: tb)
  case (Cons e es)
  then have "row_to_event cd (row_of cd (the (ev_seq e)) e) = Inr e" using row_to_event_row [OF assms] by force
  moreover have "er_seq (row_of cd n e) = n" for n by (simp add: row_of_def)
  ultimately show ?case using Cons by (simp add: log_of_def)
qed (simp add: log_of_def)

lemma all_ok_map: "\<forall>x\<in>set xs. f (g x) = Inr x \<Longrightarrow> all_ok f (map g xs) = Inr xs"
  by (induction xs) auto

lemma read_log:
  assumes "codec_ok cd" "\<forall>e\<in>set es. current_version e \<and> ev_seq e \<noteq> None"
  shows "all_ok (row_to_event cd) (log_of cd es) = Inr es"
  unfolding log_of_def using assms(2) row_to_event_row [OF assms(1)] by (intro all_ok_map) fastforce

text \<open>What a run stores: the batches that went through, in order.\<close>

fun accepted_batches :: "'x codec \<Rightarrow> 'x store_op list \<Rightarrow> 'x store \<Rightarrow> envelope list" where
  "accepted_batches cd [] s = []"
| "accepted_batches cd (Append fault bs # ops) s =
     (case append_many cd fault bs s of
        (s', Inl x) \<Rightarrow> accepted_batches cd ops s'
      | (s', Inr ns) \<Rightarrow> map2 (\<lambda>e n. e\<lparr>ev_seq := Some n\<rparr>) bs ns @ accepted_batches cd ops s')"
| "accepted_batches cd (opn # ops) s = accepted_batches cd ops (store_step cd opn s)"

fun op_current :: "'x store_op \<Rightarrow> bool" where
  "op_current (Append fault bs) = list_all current_version bs"
| "op_current opn = True"

lemma kv_same [simp]:
  "es_rows (kv_put ns k v t s) = es_rows s" "es_last (kv_put ns k v t s) = es_last s" "es_tables (kv_put ns k v t s) = es_tables s"
  by (simp_all add: kv_put_def)

lemma kv_many_same: "es_rows (kv_put_many ns rows t s) = es_rows s \<and> es_last (kv_put_many ns rows t s) = es_last s
    \<and> es_tables (kv_put_many ns rows t s) = es_tables s"
  unfolding kv_put_many_def by (induction rows arbitrary: s) auto

lemma rebuild_same:
  assumes "codec_ok cd" "holds cd es s" "list_all current_version es"
  shows "rebuild_projections cd s = (s, Inr (length es))"
proof -
  have "\<forall>e\<in>set es. current_version e \<and> ev_seq e \<noteq> None" using assms(3) holds_seq [OF assms(2)] by (auto simp: list_all_iff)
  note rp = replay_log [OF assms(1) this]
  have "replay_rows cd (es_rows s) no_tables = Inr (es_tables s)" using rp assms(2) by (simp add: holds_def project_all_def)
  then show ?thesis using log_sorted [OF assms(2)] assms(2) by (simp add: rebuild_projections_def holds_def log_of_def)
qed

lemma store_run_holds:
  assumes "codec_ok cd" "holds cd es s" "list_all current_version es" "list_all op_current ops"
  shows "holds cd (es @ accepted_batches cd ops s) (store_run cd ops s) \<and> list_all current_version (accepted_batches cd ops s)"
  using assms(2-)
proof (induction ops arbitrary: es s)
  case Nil
  then show ?case by (simp add: store_run_def)
next
  case (Cons opn ops)
  have run: "store_run cd (opn # ops) s = store_run cd ops (store_step cd opn s)" by (simp add: store_run_def)
  show ?case
  proof (cases opn)
    case (Append fault bs)
    show ?thesis
    proof (cases "insert_all cd fault bs s")
      case (Inl x)
      then have "append_many cd fault bs s = (s, Inl x)" by (simp add: append_many_def)
      then show ?thesis using Cons.IH [OF Cons.prems(1,2)] Cons.prems(3) Append run by simp
    next
      case (Inr p)
      obtain ns s1 where p: "p = (ns, s1)" by fastforce
      let ?new = "map2 (\<lambda>e n. e\<lparr>ev_seq := Some n\<rparr>) bs ns"
      have a: "append_many cd fault bs s = (s1, Inr ns)" using Inr p by (simp add: append_many_def)
      have h: "holds cd (es @ ?new) s1" using conjunct1 [OF conjunct2 [OF insert_all_holds [OF Cons.prems(1), of fault bs ns s1]]] Inr p by blast
      have c: "list_all current_version ?new"
        using Cons.prems(3) Append by (auto simp: list_all_iff current_version_def dest: set_zip_leftD)
      have "holds cd ((es @ ?new) @ accepted_batches cd ops s1) (store_run cd ops s1) \<and> list_all current_version (accepted_batches cd ops s1)"
        by (rule Cons.IH [OF h]) (use Cons.prems c in simp_all)
      then show ?thesis using Append a run c by simp
    qed
  next
    case Rebuild
    then show ?thesis using Cons.IH [OF Cons.prems(1,2)] Cons.prems rebuild_same [OF assms(1) Cons.prems(1,2)] run by simp
  next
    case (KvPut ns k v t)
    have "holds cd es (kv_put ns k v t s)" using Cons.prems(1) by (simp add: holds_def)
    from Cons.IH [OF this Cons.prems(2)] show ?thesis using Cons.prems(3) KvPut run by simp
  next
    case (KvPutMany ns rows t)
    have "holds cd es (kv_put_many ns rows t s)" using Cons.prems(1) kv_many_same [of ns rows t s] by (simp add: holds_def)
    from Cons.IH [OF this Cons.prems(2)] show ?thesis using Cons.prems(3) KvPutMany run by simp
  qed
qed

definition no_filter :: filters where
  "no_filter = \<lparr>fl_since = 0, fl_types = None, fl_decision_id = None, fl_symbol = None, fl_book_id = None, fl_ist_date = None, fl_limit = None\<rparr>"

lemma Max_nat_upto: "0 < n \<Longrightarrow> Max {Suc 0..n} = n"
  by (intro Max_eqI) auto

text \<open>C32: The read model is the log. After any run of batches (also failing ones, which leave no trace), rebuilds and
  key/value writes on a new store, reading gives exactly the events of the batches that went through, numbered from
  one without gaps and in order, the tables are the projection of those events, and rebuilding the tables counts
  them and changes nothing.\<close>

theorem tables_are_projection_of_log:
  assumes "codec_ok cd" "list_all op_current ops"
  defines "s \<equiv> store_run cd ops new_store" and "es \<equiv> accepted_batches cd ops new_store"
  shows "read_events cd no_filter s = Inr es \<and> map ev_seq es = map Some [1..<length es + 1]
    \<and> es_tables s = project_all es \<and> rebuild_projections cd s = (s, Inr (length es)) \<and> last_seq s = length es"
proof -
  have "holds cd [] new_store" by (simp add: holds_def new_store_def log_of_def project_all_def)
  from store_run_holds [OF assms(1) this _ assms(2)] have h: "holds cd es s" and c: "list_all current_version es"
    by (simp_all add: s_def es_def)
  have seq: "\<forall>e\<in>set es. current_version e \<and> ev_seq e \<noteq> None" using c holds_seq [OF h] by (auto simp: list_all_iff)
  have rows: "es_rows s = log_of cd es" and nums: "map ev_seq es = map Some [1..<length es + 1]" using h by (simp_all add: holds_def)
  have pos: "\<forall>r\<in>set (es_rows s). 0 < er_seq r \<and> er_seq r \<le> length es"
  proof
    fix r assume "r \<in> set (es_rows s)"
    then obtain e where e: "e \<in> set es" "r = row_of cd (the (ev_seq e)) e" unfolding rows log_of_def by auto
    then have "ev_seq e \<in> Some ` set [1..<length es + 1]" using nums by (metis image_eqI list.set_map)
    then show "0 < er_seq r \<and> er_seq r \<le> length es" using e(2) by (auto simp: row_of_def)
  qed
  have "filter (row_matches no_filter) (es_rows s) = es_rows s"
    using pos by (simp add: row_matches_def no_filter_def wanted_def filter_id_conv)
  then have "read_events cd no_filter s = Inr es"
    using read_log [OF assms(1) seq] log_sorted [OF h] rows by (simp add: read_events_def no_filter_def)
  moreover have "last_seq s = length es"
  proof (cases "es = []")
    case False
    have "er_seq ` set (es_rows s) = (\<lambda>e. the (ev_seq e)) ` set es" by (simp add: rows log_of_def row_of_def image_image)
    also have "\<dots> = the ` set (map ev_seq es)" by (simp add: image_image)
    also have "\<dots> = {1..<length es + 1}" unfolding nums by (simp add: image_image del: upt_Suc)
    finally have "er_seq ` set (es_rows s) = {1..length es}" by auto
    moreover have "es_rows s \<noteq> []" using False rows by (simp add: log_of_def)
    ultimately show ?thesis using False by (simp add: last_seq_def Max_nat_upto)
  qed (simp add: last_seq_def rows log_of_def)
  ultimately show ?thesis using h nums rebuild_same [OF assms(1) h c] by (simp add: holds_def)
qed

definition plain_codec :: "payload codec" where
  "plain_codec = \<lparr>cd_dump = (\<lambda>p. p), cd_load = (\<lambda>t v p. Inr p)\<rparr>"

definition sample_envelope :: "string \<Rightarrow> envelope" where
  "sample_envelope k =
     \<lparr>ev_seq = None, ev_ts = 0, ev_source = ''oms'', ev_payload = OmsPayload ''main'' (AlertEvent k), ev_version = 1, ev_decision_id = None,
      ev_cycle_id = None, ev_book_id = None, ev_symbol = None\<rparr>"

definition sample_log_ops :: "payload store_op list" where
  "sample_log_ops =
     [Append (\<lambda>n. None) [sample_envelope ''a''], Append (\<lambda>n. if n = 3 then Some RuntimeError else None) [sample_envelope ''b'', sample_envelope ''c''],
      Rebuild, Append (\<lambda>n. None) [sample_envelope ''d'']]"

theorem tables_are_projection_of_log_witness:
  "map ev_seq (accepted_batches plain_codec sample_log_ops new_store) = [Some 1, Some 2]
   \<and> last_seq (store_run plain_codec sample_log_ops new_store) = 2"
proof -
  have "codec_ok plain_codec" by (simp add: codec_ok_def plain_codec_def)
  moreover have "list_all op_current sample_log_ops" by (simp add: sample_log_ops_def sample_envelope_def current_version_def)
  moreover have "length (accepted_batches plain_codec sample_log_ops new_store) = 2" by code_simp
  ultimately show ?thesis using tables_are_projection_of_log [of plain_codec sample_log_ops] by (simp add: numeral_2_eq_2)
qed

section \<open>The orders table\<close>

text \<open>The filled quantity a cancellation or an expiry reported for an order, if no fill came after it: the broker's
  count, which the table shows.\<close>

fun reported :: "string \<Rightarrow> oms_event \<Rightarrow> int option \<Rightarrow> int option" where
  "reported c (OrderCancelled r q) x = (if fst r = c then Some q else x)"
| "reported c (OrderExpired r q) x = (if fst r = c then Some q else x)"
| "reported c (FillReceived f st q a) x = (if f_client_order_id f = c then None else x)"
| "reported c (OrderSubmitted od) x = (if o_client_order_id od = c then None else x)"
| "reported c e x = x"

definition reported_qty :: "oms_event list \<Rightarrow> string \<Rightarrow> int option" where
  "reported_qty es c = fold (reported c) es None"

fun shown_qty :: "int option \<Rightarrow> int \<Rightarrow> int" where
  "shown_qty None q = q"
| "shown_qty (Some k) q = k"

definition shows_order :: "order \<Rightarrow> int option \<Rightarrow> order_row \<Rightarrow> bool" where
  "shows_order od told r =
     (let i = o_intent od
      in or_book_id r = i_book_id i \<and> or_decision_id r = i_decision_id i \<and> or_intent_id r = i_intent_id i \<and> or_instrument_key r = i_key i
         \<and> or_strategy r = i_strategy i \<and> or_side r = i_side i \<and> or_product r = i_product i \<and> or_order_type r = i_order_type i
         \<and> or_kind r = i_kind i \<and> or_reason r = i_reason i \<and> or_quantity r = o_quantity od \<and> or_status r = o_status od
         \<and> or_avg_fill_price r = o_avg_fill_price od
         \<and> or_filled_qty r = shown_qty told (o_filled_qty od))"

text \<open>Projecting the events of an order manager in order, at any numbers and times.\<close>

definition project_orders :: "(oms_event \<times> nat \<times> ts) list \<Rightarrow> (string, order_row) dict" where
  "project_orders xs = fold (\<lambda>(e, n, t). project_order e n t) xs []"

definition table_shows :: "oms \<Rightarrow> (string, order_row) dict \<Rightarrow> bool" where
  "table_shows s d =
     (\<forall>c. rel_option (\<lambda>od r. shows_order od (reported_qty (om_events s) c) r) (dget (om_orders s) c) (dget d c))"

lemma reported_snoc [simp]: "reported_qty (es @ [e]) c = reported c e (reported_qty es c)"
  by (simp add: reported_qty_def)

lemma update_row_get: "dget (update_row c n t upd d) c' =
    (if c' = c then map_option (\<lambda>r. (upd r)\<lparr>or_updated_seq := n, or_updated_ts := t\<rparr>) (dget d c) else dget d c')"
  by (auto simp: update_row_def dget_dset split: option.splits)

text \<open>One event: an order whose identity stays and whose status, fill and price move as the event says.\<close>

lemma table_update:
  assumes "table_shows s d" "dget (om_orders s) c = Some od" "om_orders s' = dset c od' (om_orders s)"
    and "om_events s' = om_events s @ [e]" "project_order e n t d = update_row c n t upd d"
    and "\<And>c'. c' \<noteq> c \<Longrightarrow> reported c' e = (\<lambda>x. x)"
    and "\<And>r. shows_order od (reported_qty (om_events s) c) r \<Longrightarrow>
           shows_order od' (reported c e (reported_qty (om_events s) c)) ((upd r)\<lparr>or_updated_seq := n, or_updated_ts := t\<rparr>)"
  shows "table_shows s' (project_order e n t d)"
proof -
  have "rel_option (\<lambda>x r. shows_order x (reported_qty (om_events s') c') r) (dget (om_orders s') c') (dget (project_order e n t d) c')" for c'
  proof (cases "c' = c")
    case True
    obtain r where r: "dget d c = Some r" "shows_order od (reported_qty (om_events s) c) r"
      using assms(1,2) unfolding table_shows_def by (metis option_rel_Some1)
    then show ?thesis using True assms(3-5) assms(7) [OF r(2)] by (simp add: update_row_get dget_dset)
  next
    case False
    then have "dget (om_orders s') c' = dget (om_orders s) c'" "dget (project_order e n t d) c' = dget d c'"
      "reported_qty (om_events s') c' = reported_qty (om_events s) c'"
      using assms(3-6) by (simp_all add: update_row_get dget_dset)
    then show ?thesis using assms(1) by (simp only: table_shows_def)
  qed
  then show ?thesis by (simp add: table_shows_def)
qed

lemma table_same:
  assumes "table_shows s d" "om_orders s' = om_orders s" "om_events s' = om_events s @ [e]"
    and "\<And>c. dget (om_orders s) c \<noteq> None \<Longrightarrow> reported c e = (\<lambda>x. x)" "\<And>c. dget (project_order e n t d) c = dget d c"
  shows "table_shows s' (project_order e n t d)"
proof -
  have "rel_option (\<lambda>x r. shows_order x (reported_qty (om_events s') c) r) (dget (om_orders s') c) (dget (project_order e n t d) c)" for c
  proof (cases "dget (om_orders s) c")
    case None
    then show ?thesis using assms(1,2,5) by (metis option.rel_distinct(1) option_rel_Some2 rel_option_None1 table_shows_def)
  next
    case (Some od)
    then have "reported_qty (om_events s') c = reported_qty (om_events s) c" using assms(3,4) by simp
    then show ?thesis using assms(1,2,5) by (simp only: table_shows_def)
  qed
  then show ?thesis by (simp add: table_shows_def)
qed

text \<open>The events of a step, projected at any numbers and times, keep the table in step with the orders.\<close>

definition tracks :: "oms \<Rightarrow> bool" where
  "tracks s = (\<forall>xs. map fst xs = om_events s \<longrightarrow> table_shows s (project_orders xs))"

lemma tracksI:
  assumes "tracks s" "om_events s' = om_events s @ [e]"
    and "\<And>d n t. table_shows s d \<Longrightarrow> table_shows s' (project_order e n t d)"
  shows "tracks s'"
proof -
  have "table_shows s' (project_orders xs)" if m: "map fst xs = om_events s'" for xs
  proof -
    obtain ys e' n t where xs: "xs = ys @ [(e', n, t)]" using m assms(2) by (cases xs rule: rev_cases) (auto simp: prod_eq_iff)
    then have "map fst ys = om_events s" "e' = e" using m assms(2) by simp_all
    then show ?thesis using assms(1,3) xs by (simp add: tracks_def project_orders_def)
  qed
  then show ?thesis by (simp add: tracks_def)
qed

lemma tracks_cong: "tracks s \<Longrightarrow> om_orders s' = om_orders s \<Longrightarrow> om_events s' = om_events s \<Longrightarrow> tracks s'"
  by (simp add: tracks_def table_shows_def)

fun order_silent :: "oms_event \<Rightarrow> bool" where
  "order_silent (AlertEvent k) = True"
| "order_silent (ReconciliationResult b ds) = True"
| "order_silent (PositionChanged p k) = True"
| "order_silent (TradeClosed c) = True"
| "order_silent e = False"

lemma silent_facts: "order_silent e \<Longrightarrow> reported c e = (\<lambda>x. x)" "order_silent e \<Longrightarrow> project_order e n t d = d"
  by (cases e; auto)+

lemma tracks_silent:
  "tracks s \<Longrightarrow> list_all order_silent es \<Longrightarrow> om_orders s' = om_orders s \<Longrightarrow> om_events s' = om_events s @ es \<Longrightarrow> tracks s'"
proof (induction es arbitrary: s' rule: rev_induct)
  case (snoc e es)
  let ?m = "s\<lparr>om_events := om_events s @ es\<rparr>"
  have "tracks ?m" using snoc by simp
  then show ?case
  proof (rule tracksI)
    fix d n t assume "table_shows ?m d"
    then show "table_shows s' (project_order e n t d)"
      by (rule table_same) (use snoc.prems silent_facts [of e] in simp_all)
  qed (use snoc.prems in simp)
qed (auto intro: tracks_cong)

lemma tracks_move:
  assumes "tracks s" "keyed s" "dget (om_orders s) c = Some od" "move_event st e od"
  shows "tracks (om_emit e (set_order od (\<lambda>x. x\<lparr>o_status := st\<rparr>) s))" (is "tracks ?s'")
proof (rule tracksI [OF assms(1)])
  have id: "o_client_order_id od = c" by (rule keyedD [OF assms(2,3)])
  have o: "om_orders ?s' = dset c (od\<lparr>o_status := st, o_version := o_version od + 1\<rparr>) (om_orders s)"
    using set_order_at [OF assms(2,3)] by simp
  fix d n t assume d: "table_shows s d"
  have ref: "fst (ref_of od) = c" using id by (simp add: ref_of_def)
  show "table_shows ?s' (project_order e n t d)"
  proof (cases e)
    case (OrderAcked r k st')
    then show ?thesis using assms(4) ref
      by (intro table_update [OF d assms(3) o, where upd = "\<lambda>x. x\<lparr>or_status := st', or_broker_order_id := Some k\<rparr>"])
         (auto simp: shows_order_def Let_def fun_eq_iff)
  next
    case (OrderRejected r)
    then show ?thesis using assms(4) ref
      by (intro table_update [OF d assms(3) o, where upd = "\<lambda>x. x\<lparr>or_status := REJECTED\<rparr>"]) (auto simp: shows_order_def Let_def fun_eq_iff)
  next
    case (OrderUnknown r)
    then show ?thesis using assms(4) ref
      by (intro table_update [OF d assms(3) o, where upd = "\<lambda>x. x\<lparr>or_status := UNKNOWN\<rparr>"]) (auto simp: shows_order_def Let_def fun_eq_iff)
  next
    case (OrderCancelled r q)
    then show ?thesis using assms(4) ref
      by (intro table_update [OF d assms(3) o, where upd = "\<lambda>x. x\<lparr>or_status := CANCELLED, or_filled_qty := q\<rparr>"])
         (auto simp: shows_order_def Let_def fun_eq_iff)
  next
    case (OrderExpired r q)
    then show ?thesis using assms(4) ref
      by (intro table_update [OF d assms(3) o, where upd = "\<lambda>x. x\<lparr>or_status := EXPIRED, or_filled_qty := q\<rparr>"])
         (auto simp: shows_order_def Let_def fun_eq_iff)
  qed (use assms(4) in auto)
qed simp

lemma tracks_ack:
  assumes "tracks s" "keyed s" "dget (om_orders s) c = Some od"
  shows "tracks (om_emit (OrderAcked (ref_of od) k (o_status od)) s)"
proof (rule tracksI [OF assms(1)])
  have id: "o_client_order_id od = c" by (rule keyedD [OF assms(2,3)])
  fix d n t assume d: "table_shows s d"
  have "om_orders (om_emit (OrderAcked (ref_of od) k (o_status od)) s) = dset c od (om_orders s)" using dset_same [OF assms(3)] by simp
  then show "table_shows (om_emit (OrderAcked (ref_of od) k (o_status od)) s) (project_order (OrderAcked (ref_of od) k (o_status od)) n t d)"
    by (rule table_update [OF d assms(3), where upd = "\<lambda>x. x\<lparr>or_status := o_status od, or_broker_order_id := Some k\<rparr>"])
       (use id in \<open>auto simp: shows_order_def Let_def ref_of_def fun_eq_iff\<close>)
qed simp

lemma tracks_step: "ostep P s s' \<Longrightarrow> keyed s \<Longrightarrow> tracks s \<Longrightarrow> tracks s'"
proof (induction rule: ostep.induct)
  case (reg s c qty i now)
  let ?od = "make_order c i qty now" and ?e = "OrderSubmitted (make_order c i qty now)"
  show ?case
  proof (rule tracksI [OF reg.prems(2), of _ ?e])
    fix d n t assume d: "table_shows s d"
    have id: "o_client_order_id ?od = c" by (simp add: make_order_def)
    have "rel_option (\<lambda>x r. shows_order x (reported_qty (om_events (register ?od s)) c') r) (dget (om_orders (register ?od s)) c')
        (dget (project_order ?e n t d) c')" for c'
    proof (cases "c' = c")
      case True
      then show ?thesis using id by (simp add: register_def dget_dset shows_order_def order_row_of_def Let_def)
    next
      case False
      then show ?thesis using d id by (simp add: register_def dget_dset table_shows_def)
    qed
    then show "table_shows (register ?od s) (project_order ?e n t d)" by (simp add: table_shows_def)
  qed (simp add: register_def)
next
  case (link s c od k)
  have o: "om_orders (set_order od (\<lambda>x. x\<lparr>o_broker_order_id := Some k\<rparr>) s)
      = dset c (od\<lparr>o_broker_order_id := Some k, o_version := o_version od + 1\<rparr>) (om_orders s)"
    using set_order_at [OF link.prems(1) link.hyps] by simp
  have "table_shows (set_order od (\<lambda>x. x\<lparr>o_broker_order_id := Some k\<rparr>) s) d" if d: "table_shows s d" for d
  proof -
    obtain r where "dget d c = Some r" "shows_order od (reported_qty (om_events s) c) r"
      using d link.hyps unfolding table_shows_def by (metis option_rel_Some1)
    then show ?thesis using d by (simp add: table_shows_def o dget_dset shows_order_def Let_def)
  qed
  then show ?case using link.prems(2) by (simp add: tracks_def)
next
  case (move s c od st e)
  then show ?case using tracks_move by blast
next
  case (ack s c od k)
  then show ?case using tracks_ack by blast
next
  case (fill_known s f od s')
  have id: "o_client_order_id od = f_client_order_id f" by (rule keyedD [OF fill_known.prems(1) fill_known.hyps(2)])
  let ?c = "f_client_order_id f" and ?st = "if o_quantity od \<le> o_filled_qty od + f_quantity f then FILLED else PARTIALLY_FILLED"
    and ?q = "min (o_quantity od) (o_filled_qty od + f_quantity f)"
  obtain v and oc :: fill_outcome where o: "om_orders s' = dset ?c (od\<lparr>o_filled_qty := ?q, o_avg_fill_price := Some (new_avg od f),
          o_broker_order_id := or_id (f_broker_order_id f) (o_broker_order_id od), o_status := ?st, o_version := v\<rparr>) (om_orders s)"
    and ev: "om_events s' = om_events s @ (if o_quantity od < o_filled_qty od + f_quantity f then [AlertEvent ''oms_overfill''] else [])
        @ [FillReceived f ?st ?q (new_avg od f), PositionChanged (fo_position oc) (f_fill_id f)] @ map TradeClosed (fo_closed oc)"
    using on_known_fill_orders [OF fill_known.hyps(4), unfolded id, OF fill_known.hyps(2)] by (elim exE conjE) (rule that)
  let ?al = "if o_quantity od < o_filled_qty od + f_quantity f then [AlertEvent ''oms_overfill''] else []"
  let ?a = "s\<lparr>om_events := om_events s @ ?al\<rparr>" and ?F = "FillReceived f ?st ?q (new_avg od f)"
  let ?b = "s'\<lparr>om_events := om_events s @ ?al @ [?F]\<rparr>"
  have a: "tracks ?a" by (rule tracks_silent [OF fill_known.prems(2), of ?al]) simp_all
  have "tracks ?b"
  proof (rule tracksI [OF a, of _ ?F])
    fix d n t assume d: "table_shows ?a d"
    show "table_shows ?b (project_order ?F n t d)"
      by (rule table_update [OF d, where c = ?c and od = od and upd = "\<lambda>x. x\<lparr>or_status := ?st, or_filled_qty := ?q, or_avg_fill_price := Some (new_avg od f)\<rparr>"])
         (use fill_known.hyps(2) o in \<open>auto simp: shows_order_def Let_def fun_eq_iff\<close>)
  qed simp
  then show ?case
    by (rule tracks_silent [where es = "PositionChanged (fo_position oc) (f_fill_id f) # map TradeClosed (fo_closed oc)"])
       (use ev in \<open>simp_all add: list_all_iff\<close>)
next
  case (fill_unknown s f book oc)
  let ?a = "s\<lparr>om_book := book, om_events := om_events s @ [AlertEvent ''oms_unknown_fill'']\<rparr>"
    and ?F = "FillReceived f FILLED (f_quantity f) (f_price f)"
  let ?b = "?a\<lparr>om_events := om_events ?a @ [?F]\<rparr>"
  have a: "tracks ?a" by (rule tracks_silent [OF fill_unknown.prems(2), of "[AlertEvent ''oms_unknown_fill'']"]) simp_all
  have "tracks ?b"
  proof (rule tracksI [OF a, of _ ?F])
    fix d n t assume d: "table_shows ?a d"
    then have "rel_option (\<lambda>od r. shows_order od (reported_qty (om_events ?a) (f_client_order_id f)) r)
        (dget (om_orders ?a) (f_client_order_id f)) (dget d (f_client_order_id f))"
      unfolding table_shows_def by blast
    then have "dget d (f_client_order_id f) = None" using fill_unknown.hyps(2) by simp
    then show "table_shows ?b (project_order ?F n t d)"
      using d fill_unknown.hyps(2) by (intro table_same [OF d]) (auto simp: update_row_def fun_eq_iff)
  qed simp
  then show ?case by (rule tracks_silent [where es = "[PositionChanged (fo_position oc) (f_fill_id f)]"]) simp_all
next
  case (idle e s)
  have "order_silent e" using idle.hyps by (cases e) auto
  then show ?case using tracks_silent [OF idle.prems(2), of "[e]"] by simp
next
  case (checks s u)
  then show ?case by (intro tracks_cong [OF checks.prems(2)]) simp_all
qed

lemma tracks_run:
  assumes "new_oms bid (new_book bid c0) = Inr s0" "oms_run coid s0 ops = Inr s" "list_all (op_fills_ok fill_valid) ops"
  shows "tracks s"
proof -
  have s0: "keyed s0" using new_oms_inv [OF assms(1)] by (simp add: oms_inv_def)
  have "s0 = \<lparr>om_book_id = bid, om_book = new_book bid c0, om_orders = [], om_unknown = [], om_events = []\<rparr>"
    using assms(1) by (simp add: new_oms_def split: if_splits)
  then have e0: "om_orders s0 = []" "om_events s0 = []" by simp_all
  have t0: "tracks s0" using e0 by (simp add: tracks_def table_shows_def project_orders_def)
  have "osteps valid_fills s0 s" by (rule oms_run_steps [OF assms(2) s0 assms(3)])
  then show ?thesis
  proof (induction rule: rtranclp_induct)
    case base
    show ?case by (rule t0)
  next
    case (step s1 s2)
    have "keyed s1" by (rule keyed_steps [OF step.hyps(1) s0])
    then show ?case using tracks_step [OF step.hyps(2)] step.IH by blast
  qed
qed

text \<open>The order manager's events of one book in a log, and whether an event of another book is about an order.\<close>

fun order_id_of :: "oms_event \<Rightarrow> string option" where
  "order_id_of (OrderSubmitted od) = Some (o_client_order_id od)"
| "order_id_of (OrderAcked r k st) = Some (fst r)"
| "order_id_of (OrderRejected r) = Some (fst r)"
| "order_id_of (OrderUnknown r) = Some (fst r)"
| "order_id_of (OrderCancelled r q) = Some (fst r)"
| "order_id_of (OrderExpired r q) = Some (fst r)"
| "order_id_of (FillReceived f st q a) = Some (f_client_order_id f)"
| "order_id_of e = None"

fun own_event :: "string \<Rightarrow> envelope \<Rightarrow> (oms_event \<times> nat \<times> ts) list" where
  "own_event b e = (case ev_payload e of OmsPayload b' x \<Rightarrow> if b' = b then [(x, the (ev_seq e), ev_ts e)] else [] | _ \<Rightarrow> [])"

fun about_order :: "string \<Rightarrow> string \<Rightarrow> envelope \<Rightarrow> bool" where
  "about_order b c e = (case ev_payload e of OmsPayload b' x \<Rightarrow> b' \<noteq> b \<and> order_id_of x = Some c | _ \<Rightarrow> False)"

definition own_events :: "string \<Rightarrow> envelope list \<Rightarrow> (oms_event \<times> nat \<times> ts) list" where
  "own_events b es = concat (map (own_event b) es)"

lemma project_order_local: "dget d c = dget d' c \<Longrightarrow> dget (project_order e n t d) c = dget (project_order e n t d') c"
  by (cases e) (auto simp: update_row_get dget_dset)

lemma project_order_other: "order_id_of e \<noteq> Some c \<Longrightarrow> dget (project_order e n t d) c = dget d c"
  by (cases e) (auto simp: update_row_get dget_dset)

lemma project_all_orders:
  assumes "\<forall>e\<in>set es. \<not> about_order b c e"
  shows "dget (tb_orders (project_all es)) c = dget (project_orders (own_events b es)) c"
  using assms
proof (induction es rule: rev_induct)
  case Nil
  then show ?case by (simp add: project_all_def project_orders_def own_events_def no_tables_def)
next
  case (snoc e es)
  have IH: "dget (tb_orders (project_all es)) c = dget (project_orders (own_events b es)) c" using snoc by simp
  let ?n = "the (ev_seq e)" and ?t = "ev_ts e"
  have step: "project_all (es @ [e]) = project (ev_payload e) ?n ?t (project_all es)" by (simp add: project_all_def)
  show ?case
  proof (cases "ev_payload e")
    case (OmsPayload b' x)
    then have "tb_orders (project_all (es @ [e])) = project_order x ?n ?t (tb_orders (project_all es))" using step by simp
    then show ?thesis
      using IH OmsPayload snoc.prems project_order_local [OF IH, of x ?n ?t] project_order_other [of x c]
      by (auto simp: own_events_def project_orders_def)
  qed (use step IH in \<open>simp_all add: own_events_def\<close>)
qed

text \<open>C33: The orders table shows the orders. Let the log of a store hold, among any other events, the events of one
  book's order manager in their order. Then an order that no other book's event is about is in the orders table
  exactly when the order manager has it, with its lineage, its quantity, its status and its average price; its filled
  quantity there is the order manager's, or the broker's count after a cancellation or an expiry that no fill
  followed.\<close>

theorem orders_table_shows_orders:
  assumes "codec_ok cd" "list_all op_current sops" "es = accepted_batches cd sops new_store"
    and "new_oms bid (new_book bid c0) = Inr s0" "oms_run coid s0 ops = Inr s" "list_all (op_fills_ok fill_valid) ops"
    and "map fst (own_events bid es) = om_events s" "\<forall>e\<in>set es. \<not> about_order bid c e"
  shows "rel_option (\<lambda>od r. shows_order od (reported_qty (om_events s) c) r) (dget (om_orders s) c)
      (dget (tb_orders (es_tables (store_run cd sops new_store))) c)"
proof -
  have "holds cd [] (new_store :: 'a store)" by (simp add: holds_def new_store_def log_of_def project_all_def)
  then have "es_tables (store_run cd sops new_store) = project_all es"
    using store_run_holds [OF assms(1) _ _ assms(2), of "[]" new_store] assms(3) by (simp add: holds_def)
  moreover have "table_shows s (project_orders (own_events bid es))" using tracks_run [OF assms(4-6)] assms(7) by (simp add: tracks_def)
  ultimately show ?thesis using project_all_orders [OF assms(8)] by (simp add: table_shows_def)
qed

definition oms_envelope :: "oms_event \<Rightarrow> envelope" where
  "oms_envelope x = (sample_envelope [])\<lparr>ev_payload := OmsPayload ''main'' x\<rparr>"

definition session_log :: "oms \<Rightarrow> payload store_op list" where
  "session_log s = [Append (\<lambda>n. None) (map oms_envelope (om_events s))]"

lemma session_log_own:
  "map fst (own_events ''main'' (accepted_batches plain_codec (session_log s) new_store)) = om_events s
   \<and> (\<forall>e\<in>set (accepted_batches plain_codec (session_log s) new_store). \<not> about_order ''main'' c e)"
proof -
  have all: "\<exists>ns st'. insert_all plain_codec (\<lambda>n. None) es st = Inr (ns, st') \<and> length ns = length es"
    if "\<forall>e\<in>set es. ev_seq e = None" for es and st :: "payload store"
    using that
  proof (induction es arbitrary: st)
    case (Cons e es)
    then obtain n st1 where i: "insert_event plain_codec (\<lambda>n. None) e st = Inr (n, st1)" by (simp add: insert_event_def)
    with Cons.IH [of st1] Cons.prems show ?case by auto
  qed simp
  obtain ns st where a: "insert_all plain_codec (\<lambda>n. None) (map oms_envelope (om_events s)) new_store = Inr (ns, st)"
    "length ns = length (map oms_envelope (om_events s))"
    using all [of "map oms_envelope (om_events s)" new_store] by (auto simp: oms_envelope_def sample_envelope_def)
  have own: "map fst (concat (map (own_event ''main'') (map2 (\<lambda>e n. e\<lparr>ev_seq := Some n\<rparr>) (map oms_envelope xs) ms))) = xs"
    if "length ms = length xs" for xs :: "oms_event list" and ms
    using that by (induction ms xs rule: list_induct2) (simp_all add: oms_envelope_def)
  have "\<not> about_order ''main'' c e" if "e \<in> set (map2 (\<lambda>e n. e\<lparr>ev_seq := Some n\<rparr>) (map oms_envelope xs) ms)" for e xs and ms :: "nat list"
    using that by (auto simp: oms_envelope_def dest!: set_zip_leftD)
  with a own [of ns "om_events s"] show ?thesis by (simp add: session_log_def append_many_def own_events_def)
qed

theorem orders_table_shows_orders_witness:
  "\<exists>s od r. oms_run sample_coid sample_oms session_ops = Inr s \<and> dget (om_orders s) ''rq2'' = Some od
     \<and> dget (tb_orders (es_tables (store_run plain_codec (session_log s) new_store))) ''rq2'' = Some r
     \<and> or_status r = PARTIALLY_FILLED \<and> or_quantity r = o_quantity od"
proof -
  obtain s where s: "oms_run sample_coid sample_oms session_ops = Inr s"
    "map (\<lambda>(c, od). (c, o_status od, o_filled_qty od)) (om_orders s) = [(''rq1'', FILLED, 10), (''rq2'', PARTIALLY_FILLED, 4)]"
    by (rule session_run_ok)
  obtain od where od: "dget (om_orders s) ''rq2'' = Some od" "o_status od = PARTIALLY_FILLED" using s(2) by auto
  have "codec_ok plain_codec" by (simp add: codec_ok_def plain_codec_def)
  moreover have "list_all op_current (session_log s)"
    by (simp add: session_log_def list_all_iff oms_envelope_def sample_envelope_def current_version_def)
  ultimately have "rel_option (\<lambda>od r. shows_order od (reported_qty (om_events s) ''rq2'') r) (dget (om_orders s) ''rq2'')
      (dget (tb_orders (es_tables (store_run plain_codec (session_log s) new_store))) ''rq2'')"
    using orders_table_shows_orders [OF _ _ refl sample_oms_new s(1) session_ops_fills, of plain_codec "session_log s" "''rq2''"]
      session_log_own [of s "''rq2''"] by blast
  then obtain r where "dget (tb_orders (es_tables (store_run plain_codec (session_log s) new_store))) ''rq2'' = Some r"
    "shows_order od (reported_qty (om_events s) ''rq2'') r"
    using od(1) by (auto simp: option_rel_Some1)
  then show ?thesis using s(1) od by (intro exI [of _ s] exI [of _ od] exI [of _ r]) (simp add: shows_order_def Let_def)
qed

end
