(* ===== verification/Shadow_Ledger.thy ===== *)
theory Shadow_Ledger
  imports Exit_Manager Costs "HOL-Library.Multiset"
begin

text \<open>
  The counterfactual ledger (\<^verbatim>\<open>src/evaluation/shadow_ledger.py\<close>): every new BUY signal is entered at the first
  later quote, followed on the tape with the exit rules, closed net of charges and settled against the index. The
  ledger keeps its events and, beside its state, the state it last saved, which a restart loads.
\<close>

section \<open>State\<close>

record shadow_pending =
  sp_signal_id :: string
  sp_decision_id :: string
  sp_instrument_key :: string
  sp_strategy :: string
  sp_is_shadow :: bool
  sp_decided_at :: ts
  sp_atr :: rat

record shadow_trade =
  st_signal_id :: string
  st_decision_id :: string
  st_instrument_key :: string
  st_strategy :: string
  st_is_shadow :: bool
  st_entry_ts :: ts
  st_entry_price :: rat
  st_quantity :: int
  st_stop :: rat
  st_target :: rat
  st_atr :: rat
  st_highest_close :: rat
  st_entered_on :: date
  st_time_exit :: bool

record shadow_settling =
  sx_signal_id :: string
  sx_decision_id :: string
  sx_instrument_key :: string
  sx_entry_date :: date
  sx_exit_date :: date
  sx_net_return_pct :: rat

record shadow_close =
  sc_trade :: shadow_trade
  sc_exit_ts :: ts
  sc_exit_price :: rat
  sc_exit_reason :: string
  sc_gross_pnl :: rat
  sc_charges :: rat
  sc_net_pnl :: rat
  sc_net_return_pct :: rat
  sc_hold_sessions :: int

datatype shadow_event =
    ShadowTradeOpened shadow_trade rat
  | ShadowTradeClosed shadow_close
  | ShadowAlphaSettled shadow_settling rat rat

record shadow_state =
  ss_seen :: "string list"
  ss_pending :: "shadow_pending list"
  ss_open :: "shadow_trade list"
  ss_settling :: "shadow_settling list"

record shadow_ledger =
  sl_state :: shadow_state
  sl_saved :: "shadow_state option"
  sl_events :: "shadow_event list"

record shadow_env =
  sv_policy :: exit_policy
  sv_costs :: cost_schedule
  sv_calendar :: nse_calendar
  sv_notional :: rat

definition no_shadows :: shadow_state where
  "no_shadows = \<lparr>ss_seen = [], ss_pending = [], ss_open = [], ss_settling = []\<rparr>"

definition new_shadow_ledger :: "shadow_env \<Rightarrow> shadow_state option \<Rightarrow> shadow_ledger result" where
  "new_shadow_ledger env saved =
     (if sv_notional env \<le> 0 then Inl ValueError
      else Inr \<lparr>sl_state = (case saved of None \<Rightarrow> no_shadows | Some st \<Rightarrow> st), sl_saved = saved, sl_events = []\<rparr>)"

definition shadow_save :: "shadow_ledger \<Rightarrow> shadow_ledger" where
  "shadow_save l = l\<lparr>sl_saved := Some (sl_state l)\<rparr>"

definition shadow_emit :: "shadow_event \<Rightarrow> shadow_ledger \<Rightarrow> shadow_ledger" where
  "shadow_emit e l = l\<lparr>sl_events := sl_events l @ [e]\<rparr>"

definition on_state :: "(shadow_state \<Rightarrow> shadow_state) \<Rightarrow> shadow_ledger \<Rightarrow> shadow_ledger" where
  "on_state f l = l\<lparr>sl_state := f (sl_state l)\<rparr>"

section \<open>Signals\<close>

definition pending_entry_of :: "signal \<Rightarrow> rat \<Rightarrow> shadow_pending" where
  "pending_entry_of s a =
     \<lparr>sp_signal_id = sg_signal_id s, sp_decision_id = sg_decision_id s, sp_instrument_key = sg_instrument_key s,
      sp_strategy = sg_strategy s, sp_is_shadow = sg_is_shadow s, sp_decided_at = sg_generated_at s, sp_atr = a\<rparr>"

fun track_each :: "(string, rat option) dict \<Rightarrow> signal list \<Rightarrow> nat \<Rightarrow> shadow_state \<Rightarrow> nat \<times> shadow_state" where
  "track_each atrs [] n st = (n, st)"
| "track_each atrs (s # ss) n st =
     (case Option.bind (dget atrs (sg_instrument_key s)) (\<lambda>x. x) of
        None \<Rightarrow> track_each atrs ss n st
      | Some a \<Rightarrow>
          if sg_signal_id s \<in> set (ss_seen st) \<or> sg_side s \<noteq> BUY \<or> a \<le> 0 then track_each atrs ss n st
          else track_each atrs ss (n + 1)
                 (st\<lparr>ss_seen := ss_seen st @ [sg_signal_id s], ss_pending := ss_pending st @ [pending_entry_of s a]\<rparr>))"

definition track :: "(string, rat option) dict \<Rightarrow> signal list \<Rightarrow> shadow_ledger \<Rightarrow> nat \<times> shadow_ledger" where
  "track atrs ss l = (case track_each atrs ss 0 (sl_state l) of (n, st) \<Rightarrow> (n, shadow_save (l\<lparr>sl_state := st\<rparr>)))"

section \<open>The tape\<close>

definition shadow_sessions_held :: "nse_calendar \<Rightarrow> date \<Rightarrow> date \<Rightarrow> int result" where
  "shadow_sessions_held cal from day =
     (case trading_days cal from day of
        Inr ds \<Rightarrow> Inr (max 0 (int (length ds) - 1))
      | Inl e \<Rightarrow> if e = CalendarCoverageError then Inr (max 0 (day - from)) else Inl e)"

definition open_shadow :: "shadow_env \<Rightarrow> shadow_pending \<Rightarrow> rat \<Rightarrow> ts \<Rightarrow> shadow_ledger \<Rightarrow> shadow_ledger" where
  "open_shadow env p price t l =
     (let quantity = \<lfloor>ddiv (sv_notional env) price\<rfloor>
      in if quantity < 1 then l
         else let pol = sv_policy env;
                  trade = \<lparr>st_signal_id = sp_signal_id p, st_decision_id = sp_decision_id p, st_instrument_key = sp_instrument_key p,
                           st_strategy = sp_strategy p, st_is_shadow = sp_is_shadow p, st_entry_ts = t, st_entry_price = price,
                           st_quantity = quantity, st_stop = dsub price (dmul (dec_of_float (xp_k_stop_atr pol)) (sp_atr p)),
                           st_target = dadd price (dmul (dec_of_float (xp_k_target_atr pol)) (sp_atr p)), st_atr = sp_atr p,
                           st_highest_close = price, st_entered_on = ist_date t, st_time_exit = False\<rparr>
              in shadow_emit (ShadowTradeOpened trade (max (st_stop trade) (1 / 100)))
                   (on_state (\<lambda>st. st\<lparr>ss_open := ss_open st @ [trade]\<rparr>) l))"

definition round_4 :: "rat \<Rightarrow> rat" where
  "round_4 x = fl64 (of_int (round_half_even (x * 10000)) / 10000)"

definition close_shadow ::
  "shadow_env \<Rightarrow> shadow_trade \<Rightarrow> rat \<Rightarrow> ts \<Rightarrow> string \<Rightarrow> shadow_ledger \<Rightarrow> shadow_ledger \<times> unit result" where
  "close_shadow env tr price t reason l =
     (let l1 = on_state (\<lambda>st. st\<lparr>ss_open := remove1 tr (ss_open st)\<rparr>) l; qty = of_int (st_quantity tr);
          cost = dmul (st_entry_price tr) qty
      in case charges (sv_costs env) CNC BUY cost False of
         Inl e \<Rightarrow> (l1, Inl e)
       | Inr buy \<Rightarrow>
           (case charges (sv_costs env) CNC SELL (dmul price qty) True of
              Inl e \<Rightarrow> (l1, Inl e)
            | Inr sell \<Rightarrow>
                let fee = dadd (cb_total buy) (cb_total sell); gross = dmul (dsub price (st_entry_price tr)) qty; net = dsub gross fee;
                    ret = round_4 (fl64 (dmul (ddiv net cost) 100)); day = ist_date t
                in case shadow_sessions_held (sv_calendar env) (st_entered_on tr) day of
                     Inl e \<Rightarrow> (l1, Inl e)
                   | Inr held \<Rightarrow>
                       (on_state (\<lambda>st. st\<lparr>ss_settling := ss_settling st @
                            [\<lparr>sx_signal_id = st_signal_id tr, sx_decision_id = st_decision_id tr, sx_instrument_key = st_instrument_key tr,
                              sx_entry_date = st_entered_on tr, sx_exit_date = day, sx_net_return_pct = ret\<rparr>]\<rparr>)
                          (shadow_emit (ShadowTradeClosed \<lparr>sc_trade = tr, sc_exit_ts = t, sc_exit_price = price, sc_exit_reason = reason,
                             sc_gross_pnl = gross, sc_charges = fee, sc_net_pnl = net, sc_net_return_pct = ret, sc_hold_sessions = held\<rparr>) l1),
                        Inr ())))"

definition shadow_exit_reason :: "shadow_trade \<Rightarrow> rat \<Rightarrow> string option" where
  "shadow_exit_reason tr price =
     (if st_time_exit tr then Some ''time'' else if price \<le> st_stop tr then Some ''stop''
      else if st_target tr \<le> price then Some ''target'' else None)"

fun enter_due :: "shadow_env \<Rightarrow> shadow_pending list \<Rightarrow> rat \<Rightarrow> ts \<Rightarrow> bool \<times> shadow_ledger \<Rightarrow> bool \<times> shadow_ledger" where
  "enter_due env [] price t r = r"
| "enter_due env (p # ps) price t (changed, l) =
     (if sp_decided_at p < t
      then enter_due env ps price t (True, open_shadow env p price t (on_state (\<lambda>st. st\<lparr>ss_pending := remove1 p (ss_pending st)\<rparr>) l))
      else enter_due env ps price t (changed, l))"

fun exit_due :: "shadow_env \<Rightarrow> shadow_trade list \<Rightarrow> rat \<Rightarrow> ts \<Rightarrow> bool \<times> shadow_ledger \<Rightarrow> (bool \<times> shadow_ledger) \<times> unit result" where
  "exit_due env [] price t r = (r, Inr ())"
| "exit_due env (tr # trs) price t (changed, l) =
     (if t \<le> st_entry_ts tr then exit_due env trs price t (changed, l)
      else case shadow_exit_reason tr price of
             None \<Rightarrow> exit_due env trs price t (changed, l)
           | Some reason \<Rightarrow>
               (case close_shadow env tr price t reason l of
                  (l1, Inl e) \<Rightarrow> ((changed, l1), Inl e)
                | (l1, Inr u) \<Rightarrow> exit_due env trs price t (True, l1)))"

definition shadow_on_quote :: "shadow_env \<Rightarrow> quote \<Rightarrow> shadow_ledger \<Rightarrow> shadow_ledger \<times> unit result" where
  "shadow_on_quote env q l =
     (let key = q_instrument_key q; price = dec_of_float (q_ltp q); t = q_receipt_ts q;
          r1 = enter_due env (filter (\<lambda>p. sp_instrument_key p = key) (ss_pending (sl_state l))) price t (False, l)
      in case exit_due env (filter (\<lambda>tr. st_instrument_key tr = key) (ss_open (sl_state (snd r1)))) price t r1 of
           ((changed, l2), Inl e) \<Rightarrow> (l2, Inl e)
         | ((changed, l2), Inr u) \<Rightarrow> (if changed then shadow_save l2 else l2, Inr ()))"

subsection \<open>Every session\<close>

definition trail_shadow ::
  "shadow_env \<Rightarrow> (string, rat) dict \<Rightarrow> (string, rat) dict \<Rightarrow> shadow_trade \<Rightarrow> shadow_trade" where
  "trail_shadow env closes atrs tr =
     (let tr1 = (case dget closes (st_instrument_key tr) of None \<Rightarrow> tr | Some c \<Rightarrow> tr\<lparr>st_highest_close := max (st_highest_close tr) c\<rparr>)
      in case xp_k_trail_atr (sv_policy env) of
           None \<Rightarrow> tr1
         | Some k \<Rightarrow>
             tr1\<lparr>st_stop := max (st_stop tr1)
                   (dsub (st_highest_close tr1) (dmul (dec_of_float k) (dget_or (st_atr tr1) atrs (st_instrument_key tr1))))\<rparr>)"

fun session_each ::
  "shadow_env \<Rightarrow> date \<Rightarrow> (string, rat) dict \<Rightarrow> (string, rat) dict \<Rightarrow> shadow_trade list \<Rightarrow> shadow_trade list \<times> unit result" where
  "session_each env day closes atrs [] = ([], Inr ())"
| "session_each env day closes atrs (tr # trs) =
     (case shadow_sessions_held (sv_calendar env) (st_entered_on tr) day of
        Inl e \<Rightarrow> (tr # trs, Inl e)
      | Inr held \<Rightarrow>
          (case session_each env day closes atrs trs of
             (trs', r) \<Rightarrow>
               ((if xp_max_hold_days (sv_policy env) \<le> held then tr\<lparr>st_time_exit := True\<rparr> else trail_shadow env closes atrs tr) # trs', r)))"

definition shadow_session_start ::
  "shadow_env \<Rightarrow> date \<Rightarrow> (string, rat) dict \<Rightarrow> (string, rat) dict \<Rightarrow> shadow_ledger \<Rightarrow> shadow_ledger \<times> unit result" where
  "shadow_session_start env day closes atrs l =
     (case session_each env day closes atrs (ss_open (sl_state l)) of
        (trs, Inl e) \<Rightarrow> (on_state (\<lambda>st. st\<lparr>ss_open := trs\<rparr>) l, Inl e)
      | (trs, Inr u) \<Rightarrow> (shadow_save (on_state (\<lambda>st. st\<lparr>ss_open := trs\<rparr>) l), Inr ()))"

subsection \<open>Alpha\<close>

fun settle_each ::
  "shadow_env \<Rightarrow> (date, rat) dict \<Rightarrow> shadow_settling list \<Rightarrow> nat \<Rightarrow> shadow_ledger \<Rightarrow> shadow_ledger \<times> nat result" where
  "settle_each env closes [] n l = (l, Inr n)"
| "settle_each env closes (x # xs) n l =
     (case previous_trading_day (sv_calendar env) (sx_entry_date x) of
        Inl e \<Rightarrow> if e = CalendarCoverageError then settle_each env closes xs n l else (l, Inl e)
      | Inr d \<Rightarrow>
          (case (dget closes d, dget closes (sx_exit_date x)) of
             (Some a, Some b) \<Rightarrow>
               if a = 0 then (l, Inl ZeroDivisionError)
               else let nifty = fmul (fsub (fdiv b a) 1) 100
                    in settle_each env closes xs (n + 1)
                         (on_state (\<lambda>st. st\<lparr>ss_settling := remove1 x (ss_settling st)\<rparr>)
                            (shadow_emit (ShadowAlphaSettled x (round_4 nifty) (round_4 (fsub (sx_net_return_pct x) nifty))) l))
           | _ \<Rightarrow> settle_each env closes xs n l))"

definition settle_alpha :: "shadow_env \<Rightarrow> (date, rat) dict \<Rightarrow> shadow_ledger \<Rightarrow> shadow_ledger \<times> nat result" where
  "settle_alpha env closes l =
     (case settle_each env closes (ss_settling (sl_state l)) 0 l of
        (l1, Inl e) \<Rightarrow> (l1, Inl e)
      | (l1, Inr n) \<Rightarrow> (if n \<noteq> 0 then shadow_save l1 else l1, Inr n))"

end
