(* ===== verification/Shadow_Props.thy ===== *)
theory Shadow_Props
  imports Shadow_Ledger
begin

text \<open>
  What the counterfactual ledger guarantees over any run: no signal is counted twice, no opened trade is lost between
  opening, closing and settlement, a restart changes nothing, and every close follows the exit rules with a stop that
  never went down.
\<close>

section \<open>Runs\<close>

datatype shadow_op =
    OpTrack "(string, rat option) dict" "signal list"
  | OpQuote quote
  | OpSession date "(string, rat) dict" "(string, rat) dict"
  | OpSettle "(date, rat) dict"
  | OpRestart

text \<open>A restart builds a new ledger from the state last saved; the events stay in the event log.\<close>

definition shadow_restart :: "shadow_env \<Rightarrow> shadow_ledger \<Rightarrow> shadow_ledger result" where
  "shadow_restart env l =
     (case new_shadow_ledger env (sl_saved l) of Inl e \<Rightarrow> Inl e | Inr l' \<Rightarrow> Inr (l'\<lparr>sl_events := sl_events l\<rparr>))"

definition returning :: "'a \<times> 'b result \<Rightarrow> 'a result" where
  "returning r = (case snd r of Inl e \<Rightarrow> Inl e | Inr u \<Rightarrow> Inr (fst r))"

fun shadow_do :: "shadow_env \<Rightarrow> shadow_op \<Rightarrow> shadow_ledger \<Rightarrow> shadow_ledger result" where
  "shadow_do env (OpTrack atrs ss) l = Inr (snd (track atrs ss l))"
| "shadow_do env (OpQuote q) l = returning (shadow_on_quote env q l)"
| "shadow_do env (OpSession day closes atrs) l = returning (shadow_session_start env day closes atrs l)"
| "shadow_do env (OpSettle closes) l = returning (settle_alpha env closes l)"
| "shadow_do env OpRestart l = shadow_restart env l"

fun shadow_run :: "shadow_env \<Rightarrow> shadow_op list \<Rightarrow> shadow_ledger \<Rightarrow> shadow_ledger result" where
  "shadow_run env [] l = Inr l"
| "shadow_run env (x # xs) l = (case shadow_do env x l of Inl e \<Rightarrow> Inl e | Inr l' \<Rightarrow> shadow_run env xs l')"

section \<open>Conservation\<close>

fun opened_of :: "shadow_event \<Rightarrow> string list" where
  "opened_of (ShadowTradeOpened tr s) = [st_signal_id tr]"
| "opened_of e = []"

fun closed_of :: "shadow_event \<Rightarrow> string list" where
  "closed_of (ShadowTradeClosed c) = [st_signal_id (sc_trade c)]"
| "closed_of e = []"

fun settled_of :: "shadow_event \<Rightarrow> string list" where
  "settled_of (ShadowAlphaSettled x a b) = [sx_signal_id x]"
| "settled_of e = []"

definition opened_ids :: "shadow_ledger \<Rightarrow> string multiset" where
  "opened_ids l = mset (concat (map opened_of (sl_events l)))"

definition closed_ids :: "shadow_ledger \<Rightarrow> string multiset" where
  "closed_ids l = mset (concat (map closed_of (sl_events l)))"

definition settled_ids :: "shadow_ledger \<Rightarrow> string multiset" where
  "settled_ids l = mset (concat (map settled_of (sl_events l)))"

definition pending_ids :: "shadow_state \<Rightarrow> string multiset" where
  "pending_ids st = image_mset sp_signal_id (mset (ss_pending st))"

definition open_ids :: "shadow_state \<Rightarrow> string multiset" where
  "open_ids st = image_mset st_signal_id (mset (ss_open st))"

definition settling_ids :: "shadow_state \<Rightarrow> string multiset" where
  "settling_ids st = image_mset sx_signal_id (mset (ss_settling st))"

definition conserves :: "shadow_ledger \<Rightarrow> bool" where
  "conserves l =
     (distinct (ss_seen (sl_state l)) \<and> pending_ids (sl_state l) + opened_ids l \<subseteq># mset (ss_seen (sl_state l))
      \<and> opened_ids l = open_ids (sl_state l) + closed_ids l \<and> closed_ids l = settling_ids (sl_state l) + settled_ids l)"

lemma ids_emit [simp]:
  "opened_ids (shadow_emit e l) = opened_ids l + mset (opened_of e)" "closed_ids (shadow_emit e l) = closed_ids l + mset (closed_of e)"
  "settled_ids (shadow_emit e l) = settled_ids l + mset (settled_of e)" "sl_state (shadow_emit e l) = sl_state l"
  by (simp_all add: opened_ids_def closed_ids_def settled_ids_def shadow_emit_def)

lemma ids_state [simp]:
  "opened_ids (on_state f l) = opened_ids l" "closed_ids (on_state f l) = closed_ids l" "settled_ids (on_state f l) = settled_ids l"
  "sl_state (on_state f l) = f (sl_state l)"
  "opened_ids (l\<lparr>sl_state := st\<rparr>) = opened_ids l" "closed_ids (l\<lparr>sl_state := st\<rparr>) = closed_ids l" "settled_ids (l\<lparr>sl_state := st\<rparr>) = settled_ids l"
  "opened_ids (shadow_save l) = opened_ids l" "closed_ids (shadow_save l) = closed_ids l" "settled_ids (shadow_save l) = settled_ids l"
  "sl_state (shadow_save l) = sl_state l"
  by (simp_all add: opened_ids_def closed_ids_def settled_ids_def on_state_def shadow_save_def)

lemma state_ids [simp]:
  "pending_ids (st\<lparr>ss_open := os\<rparr>) = pending_ids st" "pending_ids (st\<lparr>ss_settling := xs\<rparr>) = pending_ids st"
  "pending_ids (st\<lparr>ss_pending := ps\<rparr>) = image_mset sp_signal_id (mset ps)"
  "open_ids (st\<lparr>ss_pending := ps\<rparr>) = open_ids st" "open_ids (st\<lparr>ss_settling := xs\<rparr>) = open_ids st"
  "open_ids (st\<lparr>ss_open := os\<rparr>) = image_mset st_signal_id (mset os)"
  "settling_ids (st\<lparr>ss_pending := ps\<rparr>) = settling_ids st" "settling_ids (st\<lparr>ss_open := os\<rparr>) = settling_ids st"
  "settling_ids (st\<lparr>ss_settling := xs\<rparr>) = image_mset sx_signal_id (mset xs)"
  "pending_ids (st\<lparr>ss_seen := ys\<rparr>) = pending_ids st" "open_ids (st\<lparr>ss_seen := ys\<rparr>) = open_ids st" "settling_ids (st\<lparr>ss_seen := ys\<rparr>) = settling_ids st"
  by (simp_all add: pending_ids_def open_ids_def settling_ids_def)

lemma sub_rest:
  assumes "mset (x # xs) \<subseteq># M"
  shows "mset xs \<subseteq># M - {#x#}" "mset xs \<subseteq># M" "x \<in># M"
proof -
  show 1: "mset xs \<subseteq># M - {#x#}" "x \<in># M" using assms by (auto simp: insert_subset_eq_iff)
  show "mset xs \<subseteq># M" using 1(1) diff_subset_eq_self subset_mset.order_trans by blast
qed

lemma sub_drop: "add_mset x A \<subseteq># M \<Longrightarrow> A \<subseteq># M"
  by (auto dest: mset_subset_eq_insertD subset_mset.less_imp_le)

lemma sub_right: "A + B \<subseteq># M \<Longrightarrow> B \<subseteq># M"
  by (rule subset_mset.order_trans [OF mset_subset_eq_add_right])

lemma image_remove1: "x \<in># mset xs \<Longrightarrow> image_mset f (mset xs) = image_mset f (mset (remove1 x xs)) + {#f x#}"
  by (metis add_mset_add_single insert_DiffM image_mset_add_mset mset_remove1)

lemma track_each_conserves:
  "track_each atrs ss n st = (n', st') \<Longrightarrow> conserves (l\<lparr>sl_state := st\<rparr>) \<Longrightarrow> conserves (l\<lparr>sl_state := st'\<rparr>)"
proof (induction ss arbitrary: n st)
  case (Cons s ss)
  show ?case
  proof (cases "Option.bind (dget atrs (sg_instrument_key s)) (\<lambda>x. x)")
    case None
    then show ?thesis using Cons by simp
  next
    case (Some a)
    let ?st = "st\<lparr>ss_seen := ss_seen st @ [sg_signal_id s], ss_pending := ss_pending st @ [pending_entry_of s a]\<rparr>"
    show ?thesis
    proof (cases "sg_signal_id s \<in> set (ss_seen st) \<or> sg_side s \<noteq> BUY \<or> a \<le> 0")
      case True
      then show ?thesis using Cons Some by simp
    next
      case False
      have "conserves (l\<lparr>sl_state := ?st\<rparr>)"
        using Cons.prems(2) False by (auto simp: conserves_def pending_ids_def open_ids_def settling_ids_def pending_entry_of_def)
      then show ?thesis using Cons.IH [of "n + 1" ?st] Cons.prems(1) Some False by simp
    qed
  qed
qed simp

lemma conserves_save [simp]: "conserves (shadow_save l) = conserves l"
  by (simp add: conserves_def)

lemma open_shadow_effect:
  "ss_pending (sl_state (open_shadow env p price t l)) = ss_pending (sl_state l) \<and>
   (conserves (on_state (\<lambda>st. st\<lparr>ss_pending := p # ss_pending st\<rparr>) l) \<longrightarrow> conserves (open_shadow env p price t l))"
  by (auto simp: open_shadow_def Let_def conserves_def on_state_def pending_ids_def open_ids_def settling_ids_def shadow_emit_def
      opened_ids_def closed_ids_def settled_ids_def dest: sub_drop)

lemma conserves_remove_pending:
  assumes "conserves l" "p \<in># mset (ss_pending (sl_state l))"
  shows "conserves (on_state (\<lambda>st. st\<lparr>ss_pending := p # ss_pending st\<rparr>) (on_state (\<lambda>st. st\<lparr>ss_pending := remove1 p (ss_pending st)\<rparr>) l))"
  using assms image_remove1 [OF assms(2), of sp_signal_id] by (auto simp: conserves_def pending_ids_def)

lemma enter_due_conserves:
  "enter_due env ps price t (ch, l) = (ch', l') \<Longrightarrow> conserves l \<Longrightarrow> mset ps \<subseteq># mset (ss_pending (sl_state l)) \<Longrightarrow> conserves l'"
proof (induction ps arbitrary: ch l)
  case (Cons p ps)
  show ?case
  proof (cases "sp_decided_at p < t")
    case True
    let ?l = "on_state (\<lambda>st. st\<lparr>ss_pending := remove1 p (ss_pending st)\<rparr>) l"
    have p: "p \<in># mset (ss_pending (sl_state l))" by (rule sub_rest(3) [OF Cons.prems(3)])
    note o = open_shadow_effect [of env p price t ?l]
    have c: "conserves (open_shadow env p price t ?l)" using o conserves_remove_pending [OF Cons.prems(2) p] by blast
    note rest = sub_rest(1) [OF Cons.prems(3)]
    show ?thesis using Cons.IH [of True "open_shadow env p price t ?l"] Cons.prems(1) True c o rest by simp
  next
    case False
    have "mset ps \<subseteq># mset (ss_pending (sl_state l))" using Cons.prems(3) by (rule sub_rest(2))
    then show ?thesis using Cons False by simp
  qed
qed simp

lemma close_shadow_conserves:
  assumes "close_shadow env tr price t reason l = (l', Inr u)" "conserves l" "tr \<in># mset (ss_open (sl_state l))"
  shows "conserves l' \<and> ss_open (sl_state l') = remove1 tr (ss_open (sl_state l))"
  using assms image_remove1 [OF assms(3), of st_signal_id]
  by (auto simp: close_shadow_def Let_def conserves_def pending_ids_def open_ids_def settling_ids_def split: sum.splits)

lemma exit_due_conserves:
  "exit_due env trs price t (ch, l) = ((ch', l'), Inr u) \<Longrightarrow> conserves l \<Longrightarrow> mset trs \<subseteq># mset (ss_open (sl_state l)) \<Longrightarrow> conserves l'"
proof (induction trs arbitrary: ch l)
  case (Cons tr trs)
  have sub: "mset trs \<subseteq># mset (ss_open (sl_state l))"
    using Cons.prems(3) by (rule sub_rest(2))
  show ?case
  proof (cases "t \<le> st_entry_ts tr \<or> shadow_exit_reason tr price = None")
    case True
    then show ?thesis using Cons sub by (auto split: if_splits)
  next
    case False
    then obtain reason where r: "shadow_exit_reason tr price = Some reason" by auto
    obtain l1 v where c: "close_shadow env tr price t reason l = (l1, Inr v)" using Cons.prems(1) False r by (auto split: prod.splits sum.splits)
    have "tr \<in># mset (ss_open (sl_state l))" by (rule sub_rest(3) [OF Cons.prems(3)])
    note cl = close_shadow_conserves [OF c Cons.prems(2) this]
    note rest = sub_rest(1) [OF Cons.prems(3)]
    show ?thesis using Cons.IH [of True l1] Cons.prems(1) False r c cl rest by simp
  qed
qed simp

lemma mset_filter_sub: "mset (filter P xs) \<subseteq># mset xs"
  by simp

lemma on_quote_conserves:
  assumes "shadow_on_quote env q l = (l', Inr u)" "conserves l"
  shows "conserves l'"
proof -
  let ?price = "dec_of_float (q_ltp q)" and ?t = "q_receipt_ts q" and ?k = "q_instrument_key q"
  obtain ch l1 where e: "enter_due env (filter (\<lambda>p. sp_instrument_key p = ?k) (ss_pending (sl_state l))) ?price ?t (False, l) = (ch, l1)" by fastforce
  have c1: "conserves l1" by (rule enter_due_conserves [OF e assms(2) mset_filter_sub])
  obtain ch2 l2 r where x: "exit_due env (filter (\<lambda>tr. st_instrument_key tr = ?k) (ss_open (sl_state l1))) ?price ?t (ch, l1) = ((ch2, l2), r)"
    by (metis prod.collapse)
  then obtain v where r: "r = Inr v" using assms(1) e by (cases r) (auto simp: shadow_on_quote_def Let_def)
  have "conserves l2" by (rule exit_due_conserves [OF x [unfolded r] c1 mset_filter_sub])
  then show ?thesis using assms(1) e x r by (auto simp: shadow_on_quote_def Let_def split: if_splits)
qed

lemma session_each_ids: "session_each env day closes atrs trs = (trs', r) \<Longrightarrow> map st_signal_id trs' = map st_signal_id trs"
  by (induction trs arbitrary: trs' r) (auto simp: trail_shadow_def Let_def split: sum.splits prod.splits option.splits)

lemma session_conserves: "shadow_session_start env day closes atrs l = (l', r) \<Longrightarrow> conserves l \<Longrightarrow> conserves l'"
proof -
  assume s: "shadow_session_start env day closes atrs l = (l', r)" and c: "conserves l"
  obtain trs x where e: "session_each env day closes atrs (ss_open (sl_state l)) = (trs, x)" by fastforce
  have "image_mset st_signal_id (mset trs) = image_mset st_signal_id (mset (ss_open (sl_state l)))"
    using arg_cong [OF session_each_ids [OF e], of mset] by simp
  then have "conserves (on_state (\<lambda>st. st\<lparr>ss_open := trs\<rparr>) l)" using c by (auto simp: conserves_def open_ids_def)
  then show ?thesis using s e by (cases x) (auto simp: shadow_session_start_def)
qed

lemma settle_each_conserves:
  "settle_each env closes xs n l = (l', r) \<Longrightarrow> conserves l \<Longrightarrow> mset xs \<subseteq># mset (ss_settling (sl_state l)) \<Longrightarrow> conserves l'"
proof (induction xs arbitrary: n l)
  case (Cons x xs)
  have sub: "mset xs \<subseteq># mset (ss_settling (sl_state l))"
    using Cons.prems(3) by (rule sub_rest(2))
  have x: "x \<in># mset (ss_settling (sl_state l))" by (rule sub_rest(3) [OF Cons.prems(3)])
  note rest = sub_rest(1) [OF Cons.prems(3)]
  have gone: "conserves (on_state (\<lambda>st. st\<lparr>ss_settling := remove1 x (ss_settling st)\<rparr>) (shadow_emit (ShadowAlphaSettled x a b) l))" for a b
    using Cons.prems(2) image_remove1 [OF x, of sx_signal_id] by (auto simp: conserves_def settling_ids_def)
  show ?case
  proof (cases "previous_trading_day (sv_calendar env) (sx_entry_date x)")
    case (Inl e)
    then show ?thesis using Cons sub by (auto split: if_splits)
  next
    case (Inr d)
    show ?thesis
      using Cons.IH [OF _ Cons.prems(2) sub] Cons.IH [OF _ gone] Cons.prems(1,2) Inr rest
      by (auto simp: Let_def split: option.splits if_splits)
  qed
qed simp

section \<open>Restarts\<close>

definition shadow_saved :: "shadow_ledger \<Rightarrow> bool" where
  "shadow_saved l = (sl_state l = (case sl_saved l of None \<Rightarrow> no_shadows | Some st \<Rightarrow> st))"

lemma saved_save [simp]: "shadow_saved (shadow_save l)"
  by (simp add: shadow_saved_def shadow_save_def)

lemma enter_due_unchanged: "enter_due env ps price t (ch, l) = (ch', l') \<Longrightarrow> \<not> ch' \<Longrightarrow> l' = l \<and> \<not> ch"
  by (induction ps arbitrary: ch l) (auto split: if_splits)

lemma exit_due_unchanged: "exit_due env trs price t (ch, l) = ((ch', l'), Inr u) \<Longrightarrow> \<not> ch' \<Longrightarrow> l' = l \<and> \<not> ch"
  by (induction trs arbitrary: ch l) (auto split: if_splits option.splits prod.splits sum.splits)

lemma on_quote_saved:
  assumes "shadow_on_quote env q l = (l', Inr u)" "shadow_saved l"
  shows "shadow_saved l'"
proof -
  let ?price = "dec_of_float (q_ltp q)" and ?t = "q_receipt_ts q" and ?k = "q_instrument_key q"
  obtain ch l1 where e: "enter_due env (filter (\<lambda>p. sp_instrument_key p = ?k) (ss_pending (sl_state l))) ?price ?t (False, l) = (ch, l1)" by fastforce
  obtain ch2 l2 r where x: "exit_due env (filter (\<lambda>tr. st_instrument_key tr = ?k) (ss_open (sl_state l1))) ?price ?t (ch, l1) = ((ch2, l2), r)"
    by (metis prod.collapse)
  then obtain v where r: "r = Inr v" using assms(1) e by (cases r) (auto simp: shadow_on_quote_def Let_def)
  have l': "l' = (if ch2 then shadow_save l2 else l2)" using assms(1) e x r by (simp add: shadow_on_quote_def Let_def)
  show ?thesis
  proof (cases ch2)
    case False
    then have "l2 = l" using exit_due_unchanged [OF x [unfolded r]] enter_due_unchanged [OF e] by simp
    then show ?thesis using l' False assms(2) by simp
  qed (simp add: l')
qed

lemma settle_each_unchanged: "settle_each env closes xs n l = (l', Inr m) \<Longrightarrow> n \<le> m \<and> (m = n \<longrightarrow> l' = l)"
proof (induction xs arbitrary: n l)
  case (Cons x xs)
  then show ?case by (force simp: Let_def split: sum.splits option.splits if_splits)
qed simp

lemma shadow_do_inv:
  assumes "shadow_do env x l = Inr l'" "conserves l" "shadow_saved l"
  shows "conserves l' \<and> shadow_saved l'"
proof (cases x)
  case (OpTrack atrs ss)
  obtain n st where t: "track_each atrs ss 0 (sl_state l) = (n, st)" by fastforce
  have "conserves (l\<lparr>sl_state := st\<rparr>)" using track_each_conserves [OF t, of l] assms(2) by simp
  then show ?thesis using assms(1) OpTrack t by (auto simp: track_def)
next
  case (OpQuote q)
  obtain r where "shadow_on_quote env q l = (l', Inr r)" using assms(1) OpQuote by (auto simp: returning_def split: sum.splits) (metis prod.collapse)
  then show ?thesis using on_quote_conserves on_quote_saved assms(2,3) by blast
next
  case (OpSession day closes atrs)
  obtain r where s: "shadow_session_start env day closes atrs l = (l', Inr r)"
    using assms(1) OpSession by (auto simp: returning_def split: sum.splits) (metis prod.collapse)
  then have "shadow_saved l'" by (auto simp: shadow_session_start_def split: prod.splits sum.splits)
  then show ?thesis using session_conserves [OF s assms(2)] by blast
next
  case (OpSettle closes)
  obtain n where s: "settle_alpha env closes l = (l', Inr n)" using assms(1) OpSettle by (auto simp: returning_def split: sum.splits) (metis prod.collapse)
  then obtain l1 where e: "settle_each env closes (ss_settling (sl_state l)) 0 l = (l1, Inr n)" "l' = (if n \<noteq> 0 then shadow_save l1 else l1)"
    by (auto simp: settle_alpha_def split: prod.splits sum.splits)
  have "conserves l1" by (rule settle_each_conserves [OF e(1) assms(2)]) simp
  moreover have "n = 0 \<longrightarrow> l1 = l" using settle_each_unchanged [OF e(1)] by simp
  ultimately show ?thesis using e(2) assms(3) by auto
next
  case OpRestart
  obtain r where r: "new_shadow_ledger env (sl_saved l) = Inr r" "l' = r\<lparr>sl_events := sl_events l\<rparr>"
    using assms(1) OpRestart by (auto simp: shadow_restart_def split: sum.splits)
  then have "l' = l" using assms(3) by (auto simp: new_shadow_ledger_def shadow_saved_def split: if_splits option.splits)
  then show ?thesis using assms by simp
qed

lemma shadow_run_inv: "shadow_run env xs l = Inr l' \<Longrightarrow> conserves l \<Longrightarrow> shadow_saved l \<Longrightarrow> conserves l' \<and> shadow_saved l'"
  by (induction xs arbitrary: l) (auto split: sum.splits dest: shadow_do_inv)

text \<open>C34: No signal is counted twice and no trade is lost. After any run of a new ledger that returns, over signals,
  quotes, sessions, settlements and restarts, every signal has been entered at most once, the trades opened are
  exactly the trades still open and the trades closed, and the trades closed are exactly those waiting for the index
  and those settled; what a restart would load is the state in force.\<close>

theorem one_counterfactual_per_signal:
  assumes "new_shadow_ledger env None = Inr l0" "shadow_run env xs l0 = Inr l"
  shows "(\<forall>i. count (opened_ids l) i \<le> 1) \<and> opened_ids l = open_ids (sl_state l) + closed_ids l
    \<and> closed_ids l = settling_ids (sl_state l) + settled_ids l \<and> set_mset (opened_ids l) \<subseteq> set (ss_seen (sl_state l))
    \<and> shadow_restart env l = Inr l"
proof -
  have l0: "l0 = \<lparr>sl_state = no_shadows, sl_saved = None, sl_events = []\<rparr>" "0 < sv_notional env"
    using assms(1) by (auto simp: new_shadow_ledger_def split: if_splits)
  have "conserves l0" "shadow_saved l0"
    by (simp_all add: l0 conserves_def no_shadows_def opened_ids_def closed_ids_def settled_ids_def pending_ids_def open_ids_def settling_ids_def
        shadow_saved_def)
  then have c: "conserves l" "shadow_saved l" using shadow_run_inv [OF assms(2)] by simp_all
  have sub: "opened_ids l \<subseteq># mset (ss_seen (sl_state l))" and d: "distinct (ss_seen (sl_state l))"
    using c(1) by (auto simp: conserves_def dest: sub_right)
  have "count (opened_ids l) i \<le> 1" for i
    using mset_subset_eq_count [OF sub, of i] distinct_count_atmost_1 [of "ss_seen (sl_state l)"] d by (metis le_trans order_refl zero_le_one)
  moreover have "shadow_restart env l = Inr l"
    using c(2) l0(2) by (auto simp: shadow_restart_def new_shadow_ledger_def shadow_saved_def split: option.splits)
  ultimately show ?thesis using c(1) set_mset_mono [OF sub] by (auto simp: conserves_def)
qed

section \<open>Closes follow the rules\<close>

text \<open>A trade as it was opened, but for its stop, its highest close and its time exit; the stop has not gone down.\<close>

definition grown_from :: "shadow_trade \<Rightarrow> shadow_trade \<Rightarrow> bool" where
  "grown_from tr0 tr =
     (tr\<lparr>st_stop := st_stop tr0, st_highest_close := st_highest_close tr0, st_time_exit := st_time_exit tr0\<rparr> = tr0 \<and> st_stop tr0 \<le> st_stop tr)"

text \<open>How a trade is opened: its size from the notional, its stop and target from the volatility at the signal.\<close>

definition opened_right :: "shadow_env \<Rightarrow> shadow_trade \<Rightarrow> bool" where
  "opened_right env tr =
     (st_quantity tr = \<lfloor>ddiv (sv_notional env) (st_entry_price tr)\<rfloor> \<and> 0 < st_quantity tr
      \<and> st_stop tr = dsub (st_entry_price tr) (dmul (dec_of_float (xp_k_stop_atr (sv_policy env))) (st_atr tr))
      \<and> st_target tr = dadd (st_entry_price tr) (dmul (dec_of_float (xp_k_target_atr (sv_policy env))) (st_atr tr))
      \<and> st_entered_on tr = ist_date (st_entry_ts tr) \<and> \<not> st_time_exit tr)"

text \<open>A time exit is due for trades of a day when a session start of the run found them held for the maximum.\<close>

definition due_in :: "shadow_env \<Rightarrow> shadow_op list \<Rightarrow> date \<Rightarrow> bool" where
  "due_in env xs d =
     (\<exists>x\<in>set xs. case x of
        OpSession day closes atrs \<Rightarrow>
          (case shadow_sessions_held (sv_calendar env) d day of Inl e \<Rightarrow> False | Inr held \<Rightarrow> xp_max_hold_days (sv_policy env) \<le> held)
      | _ \<Rightarrow> False)"

definition known :: "shadow_env \<Rightarrow> shadow_op list \<Rightarrow> shadow_event list \<Rightarrow> shadow_trade \<Rightarrow> bool" where
  "known env xs es tr =
     ((\<exists>tr0 s. ShadowTradeOpened tr0 s \<in> set es \<and> opened_right env tr0 \<and> grown_from tr0 tr)
      \<and> (st_time_exit tr \<longrightarrow> due_in env xs (st_entered_on tr)))"

definition both_legs :: "shadow_env \<Rightarrow> shadow_trade \<Rightarrow> rat \<Rightarrow> rat \<Rightarrow> bool" where
  "both_legs env tr price fee =
     (\<exists>buy sell. charges (sv_costs env) CNC BUY (dmul (st_entry_price tr) (of_int (st_quantity tr))) False = Inr buy
        \<and> charges (sv_costs env) CNC SELL (dmul price (of_int (st_quantity tr))) True = Inr sell
        \<and> fee = dadd (cb_total buy) (cb_total sell))"

definition close_ok :: "shadow_env \<Rightarrow> shadow_op list \<Rightarrow> shadow_event list \<Rightarrow> shadow_close \<Rightarrow> bool" where
  "close_ok env xs es c =
     (known env xs es (sc_trade c) \<and> st_entry_ts (sc_trade c) < sc_exit_ts c
      \<and> shadow_exit_reason (sc_trade c) (sc_exit_price c) = Some (sc_exit_reason c)
      \<and> both_legs env (sc_trade c) (sc_exit_price c) (sc_charges c)
      \<and> sc_gross_pnl c = dmul (dsub (sc_exit_price c) (st_entry_price (sc_trade c))) (of_int (st_quantity (sc_trade c)))
      \<and> sc_net_pnl c = dsub (sc_gross_pnl c) (sc_charges c))"

definition follows :: "shadow_env \<Rightarrow> shadow_op list \<Rightarrow> shadow_ledger \<Rightarrow> bool" where
  "follows env xs l =
     ((\<forall>tr\<in>set (ss_open (sl_state l)). known env xs (sl_events l) tr)
      \<and> (\<forall>c. ShadowTradeClosed c \<in> set (sl_events l) \<longrightarrow> close_ok env xs (sl_events l) c))"

lemma grown_refl [simp]: "grown_from tr tr"
  by (simp add: grown_from_def)

lemma grown_trail: "grown_from tr0 tr \<Longrightarrow> grown_from tr0 (trail_shadow env closes atrs tr)"
  by (auto simp: grown_from_def trail_shadow_def Let_def split: option.splits)

lemma grown_time: "grown_from tr0 tr \<Longrightarrow> grown_from tr0 (tr\<lparr>st_time_exit := b\<rparr>)"
  by (simp add: grown_from_def)

lemma trail_keeps:
  "st_time_exit (trail_shadow env closes atrs tr) = st_time_exit tr" "st_entered_on (trail_shadow env closes atrs tr) = st_entered_on tr"
  by (simp_all add: trail_shadow_def Let_def split: option.split)

lemma known_mono: "known env xs es tr \<Longrightarrow> known env xs (es @ fs) tr"
  by (auto simp: known_def)

lemma close_mono: "close_ok env xs es c \<Longrightarrow> close_ok env xs (es @ fs) c"
  by (auto simp: close_ok_def intro: known_mono)

lemma follows_save [simp]: "follows env xs (shadow_save l) = follows env xs l"
  by (simp add: follows_def shadow_save_def)

lemma follows_fewer: "follows env xs l \<Longrightarrow> set (ss_open (sl_state l')) \<subseteq> set (ss_open (sl_state l)) \<Longrightarrow> sl_events l' = sl_events l \<Longrightarrow> follows env xs l'"
  by (auto simp: follows_def)

lemma follows_emit:
  assumes "follows env xs l" "\<And>c. e = ShadowTradeClosed c \<Longrightarrow> close_ok env xs (sl_events l) c" "sl_events l' = sl_events l @ [e]"
    and "\<And>tr. tr \<in> set (ss_open (sl_state l')) \<Longrightarrow> tr \<in> set (ss_open (sl_state l)) \<or> opened_right env tr \<and> (\<exists>s. e = ShadowTradeOpened tr s)"
  shows "follows env xs l'"
proof -
  have "known env xs (sl_events l') tr" if m: "tr \<in> set (ss_open (sl_state l'))" for tr
    using assms(4) [OF m] assms(1,3) by (auto simp: follows_def intro: known_mono) (auto simp: known_def opened_right_def intro: grown_refl)
  moreover have "close_ok env xs (sl_events l') c" if m: "ShadowTradeClosed c \<in> set (sl_events l')" for c
    using m assms(1-3) by (auto simp: follows_def intro: close_mono)
  ultimately show ?thesis by (simp add: follows_def)
qed

lemma open_shadow_follows: "follows env xs l \<Longrightarrow> follows env xs (open_shadow env p price t l)"
  by (auto simp: open_shadow_def Let_def shadow_emit_def on_state_def opened_right_def intro: follows_emit)

lemma enter_due_follows: "enter_due env ps price t (ch, l) = (ch', l') \<Longrightarrow> follows env xs l \<Longrightarrow> follows env xs l'"
proof (induction ps arbitrary: ch l)
  case (Cons p ps)
  have "follows env xs (on_state (\<lambda>st. st\<lparr>ss_pending := remove1 p (ss_pending st)\<rparr>) l)"
    by (rule follows_fewer [OF Cons.prems(2)]) (simp_all add: on_state_def)
  then show ?case using Cons open_shadow_follows by (auto split: if_splits)
qed simp

lemma close_shadow_follows:
  assumes "close_shadow env tr price t reason l = (l', Inr u)" "follows env xs l" "known env xs (sl_events l) tr"
    and "st_entry_ts tr < t" "shadow_exit_reason tr price = Some reason"
  shows "follows env xs l' \<and> (\<exists>e. sl_events l' = sl_events l @ [e])"
proof -
  obtain c where c: "sl_events l' = sl_events l @ [ShadowTradeClosed c]" "ss_open (sl_state l') = remove1 tr (ss_open (sl_state l))"
    "sc_trade c = tr" "sc_exit_ts c = t" "sc_exit_price c = price" "sc_exit_reason c = reason" "sc_net_pnl c = dsub (sc_gross_pnl c) (sc_charges c)"
    "sc_gross_pnl c = dmul (dsub price (st_entry_price tr)) (of_int (st_quantity tr))" "both_legs env tr price (sc_charges c)"
    using assms(1) unfolding both_legs_def by (fastforce simp: close_shadow_def Let_def shadow_emit_def on_state_def split: sum.splits)
  have "close_ok env xs (sl_events l) c" using c assms(3-5) by (simp add: close_ok_def)
  then have "follows env xs l'"
    by (intro follows_emit [OF assms(2) _ c(1)]) (use c(2) in \<open>auto dest: set_mp [OF set_remove1_subset]\<close>)
  with c(1) show ?thesis by blast
qed

lemma exit_due_follows:
  "exit_due env trs price t (ch, l) = ((ch', l'), Inr u) \<Longrightarrow> follows env xs l \<Longrightarrow> \<forall>tr\<in>set trs. known env xs (sl_events l) tr \<Longrightarrow> follows env xs l'"
proof (induction trs arbitrary: ch l)
  case (Cons tr trs)
  show ?case
  proof (cases "t \<le> st_entry_ts tr \<or> shadow_exit_reason tr price = None")
    case True
    then show ?thesis using Cons by (auto split: if_splits)
  next
    case False
    then obtain reason where r: "shadow_exit_reason tr price = Some reason" by auto
    obtain l1 v where c: "close_shadow env tr price t reason l = (l1, Inr v)" using Cons.prems(1) False r by (auto split: prod.splits sum.splits)
    have cl: "follows env xs l1" "\<exists>e. sl_events l1 = sl_events l @ [e]"
      using close_shadow_follows [OF c Cons.prems(2)] Cons.prems(3) False r by auto
    then have "\<forall>tr\<in>set trs. known env xs (sl_events l1) tr" using Cons.prems(3) known_mono by auto
    then show ?thesis using Cons.IH [of True l1] Cons.prems(1) False r c cl by simp
  qed
qed simp

lemma session_each_follows:
  "session_each env day closes atrs trs = (trs', r) \<Longrightarrow> OpSession day closes atrs \<in> set xs \<Longrightarrow> \<forall>tr\<in>set trs. known env xs es tr \<Longrightarrow> \<forall>tr\<in>set trs'. known env xs es tr"
proof (induction trs arbitrary: trs' r)
  case (Cons tr trs)
  obtain trs1 r1 where s: "session_each env day closes atrs trs = (trs1, r1)" by fastforce
  have "known env xs es (trail_shadow env closes atrs tr)"
    using Cons.prems(3) grown_trail by (auto simp: known_def trail_keeps)
  moreover have "known env xs es (tr\<lparr>st_time_exit := True\<rparr>)"
    if "shadow_sessions_held (sv_calendar env) (st_entered_on tr) day = Inr held" "xp_max_hold_days (sv_policy env) \<le> held" for held
  proof -
    have "due_in env xs (st_entered_on tr)" using that Cons.prems(2) by (auto simp: due_in_def intro!: bexI [of _ "OpSession day closes atrs"])
    then show ?thesis using Cons.prems(3) grown_time by (auto simp: known_def)
  qed
  ultimately show ?case using Cons s by (auto split: sum.splits if_splits)
qed simp

lemma settle_each_follows: "settle_each env closes ys n l = (l', r) \<Longrightarrow> follows env xs l \<Longrightarrow> follows env xs l'"
proof (induction ys arbitrary: n l)
  case (Cons x ys)
  have "follows env xs (on_state (\<lambda>st. st\<lparr>ss_settling := remove1 x (ss_settling st)\<rparr>) (shadow_emit (ShadowAlphaSettled x a b) l))" for a b
    by (rule follows_emit [OF Cons.prems(2), of "ShadowAlphaSettled x a b"]) (simp_all add: on_state_def shadow_emit_def)
  then show ?case using Cons by (auto simp: Let_def split: sum.splits option.splits if_splits)
qed simp

lemma on_quote_follows:
  assumes "shadow_on_quote env q l = (l', Inr u)" "follows env xs l"
  shows "follows env xs l'"
proof -
  let ?price = "dec_of_float (q_ltp q)" and ?t = "q_receipt_ts q" and ?k = "q_instrument_key q"
  obtain ch l1 where e: "enter_due env (filter (\<lambda>p. sp_instrument_key p = ?k) (ss_pending (sl_state l))) ?price ?t (False, l) = (ch, l1)" by fastforce
  have f1: "follows env xs l1" by (rule enter_due_follows [OF e assms(2)])
  obtain ch2 l2 r where x: "exit_due env (filter (\<lambda>tr. st_instrument_key tr = ?k) (ss_open (sl_state l1))) ?price ?t (ch, l1) = ((ch2, l2), r)"
    by (metis prod.collapse)
  then obtain v where r: "r = Inr v" using assms(1) e by (cases r) (auto simp: shadow_on_quote_def Let_def)
  have "follows env xs l2" by (rule exit_due_follows [OF x [unfolded r] f1]) (use f1 in \<open>auto simp: follows_def\<close>)
  then show ?thesis using assms(1) e x r by (auto simp: shadow_on_quote_def Let_def split: if_splits)
qed

lemma returning_InrD: "returning r = Inr l' \<Longrightarrow> \<exists>u. r = (l', Inr u)"
  by (cases r) (auto simp: returning_def split: sum.splits)

lemma shadow_do_follows:
  assumes "shadow_do env x l = Inr l'" "follows env xs l" "shadow_saved l" "x \<in> set xs"
  shows "follows env xs l'"
proof (cases x)
  case (OpTrack atrs ss)
  have "track_each atrs ss n st = (n', st') \<Longrightarrow> ss_open st' = ss_open st" for n st n' st'
    by (induction ss arbitrary: n st) (auto split: option.splits if_splits)
  then show ?thesis using assms OpTrack by (auto simp: track_def follows_def shadow_save_def split: prod.splits)
next
  case (OpQuote q)
  then obtain u where "shadow_on_quote env q l = (l', Inr u)" using assms(1) returning_InrD by fastforce
  then show ?thesis using on_quote_follows assms(2) by blast
next
  case (OpSession day closes atrs)
  then obtain u where s: "shadow_session_start env day closes atrs l = (l', Inr u)" using assms(1) returning_InrD by fastforce
  obtain trs r where e: "session_each env day closes atrs (ss_open (sl_state l)) = (trs, r)" by fastforce
  have "\<forall>tr\<in>set trs. known env xs (sl_events l) tr" using session_each_follows [OF e] assms(2,4) OpSession by (simp add: follows_def)
  then have "follows env xs (on_state (\<lambda>st. st\<lparr>ss_open := trs\<rparr>) l)" using assms(2) by (simp add: follows_def on_state_def)
  then show ?thesis using s e by (auto simp: shadow_session_start_def split: sum.splits)
next
  case (OpSettle closes)
  then obtain n where "settle_alpha env closes l = (l', Inr n)" using assms(1) returning_InrD by fastforce
  then show ?thesis using settle_each_follows assms(2)
    by (auto simp: settle_alpha_def split: prod.splits sum.splits if_splits)
next
  case OpRestart
  then have "l' = l" using assms(1,3)
    by (auto simp: shadow_restart_def new_shadow_ledger_def shadow_saved_def split: if_splits option.splits sum.splits)
  then show ?thesis using assms(2) by simp
qed

lemma shadow_run_follows:
  "shadow_run env ys l = Inr l' \<Longrightarrow> set ys \<subseteq> set xs \<Longrightarrow> conserves l \<Longrightarrow> shadow_saved l \<Longrightarrow> follows env xs l \<Longrightarrow> follows env xs l'"
proof (induction ys arbitrary: l)
  case (Cons y ys)
  then obtain l1 where l1: "shadow_do env y l = Inr l1" "shadow_run env ys l1 = Inr l'" by (auto split: sum.splits)
  with Cons.prems have "follows env xs l1" by (intro shadow_do_follows [OF l1(1)]) auto
  with Cons l1 show ?case using shadow_do_inv by fastforce
qed simp

subsection \<open>What stays open\<close>

lemma session_marks_due:
  assumes "session_each env day closes atrs trs = (trs', Inr u)"
  shows "list_all2 (\<lambda>tr tr'. \<exists>held. shadow_sessions_held (sv_calendar env) (st_entered_on tr) day = Inr held
           \<and> st_time_exit tr' = (st_time_exit tr \<or> xp_max_hold_days (sv_policy env) \<le> held)) trs trs'"
  using assms
proof (induction trs arbitrary: trs')
  case (Cons tr trs)
  then show ?case by (auto simp: trail_keeps split: sum.splits prod.splits if_splits)
qed simp

text \<open>Open after a quote is what was open, less every trade of the instrument whose exit was due at its price.\<close>

definition exits_at :: "rat \<Rightarrow> ts \<Rightarrow> shadow_trade \<Rightarrow> bool" where
  "exits_at price t tr = (st_entry_ts tr < t \<and> shadow_exit_reason tr price \<noteq> None)"

lemma close_shadow_open:
  "close_shadow env tr price t reason l = (l', Inr u) \<Longrightarrow> mset (ss_open (sl_state l')) = mset (ss_open (sl_state l)) - {#tr#}"
  by (auto simp: close_shadow_def Let_def on_state_def shadow_emit_def split: sum.splits)

lemma exit_due_open:
  "exit_due env trs price t (ch, l) = ((ch', l'), Inr u) \<Longrightarrow>
   mset (ss_open (sl_state l')) = mset (ss_open (sl_state l)) - mset (filter (exits_at price t) trs)"
proof (induction trs arbitrary: ch l)
  case (Cons tr trs)
  show ?case
  proof (cases "exits_at price t tr")
    case True
    then obtain reason where "shadow_exit_reason tr price = Some reason" "\<not> t \<le> st_entry_ts tr" by (auto simp: exits_at_def)
    then obtain l1 v where "close_shadow env tr price t reason l = (l1, Inr v)" "exit_due env trs price t (True, l1) = ((ch', l'), Inr u)"
      using Cons.prems by (auto split: prod.splits sum.splits)
    with Cons.IH [of True l1] close_shadow_open show ?thesis using True by (simp add: diff_diff_add_mset)
  next
    case False
    then have "exit_due env trs price t (ch, l) = ((ch', l'), Inr u)" using Cons.prems by (auto simp: exits_at_def split: if_splits)
    with Cons.IH False show ?thesis by simp
  qed
qed simp

lemma no_exit_left:
  assumes "shadow_on_quote env q l = (l', Inr u)" "tr \<in> set (ss_open (sl_state l'))" "st_instrument_key tr = q_instrument_key q"
  shows "\<not> exits_at (dec_of_float (q_ltp q)) (q_receipt_ts q) tr"
proof
  let ?price = "dec_of_float (q_ltp q)" and ?t = "q_receipt_ts q" and ?k = "q_instrument_key q"
  assume e: "exits_at ?price ?t tr"
  obtain ch l1 where 1: "enter_due env (filter (\<lambda>p. sp_instrument_key p = ?k) (ss_pending (sl_state l))) ?price ?t (False, l) = (ch, l1)" by fastforce
  obtain ch2 l2 r where x: "exit_due env (filter (\<lambda>tr. st_instrument_key tr = ?k) (ss_open (sl_state l1))) ?price ?t (ch, l1) = ((ch2, l2), r)"
    by (metis prod.collapse)
  then obtain v where r: "r = Inr v" using assms(1) 1 by (cases r) (auto simp: shadow_on_quote_def Let_def)
  have "mset (ss_open (sl_state l')) = mset (ss_open (sl_state l2))"
    using assms(1) 1 x r by (auto simp: shadow_on_quote_def Let_def shadow_save_def split: if_splits)
  also have "\<dots> = mset (ss_open (sl_state l1)) - mset (filter (exits_at ?price ?t) (filter (\<lambda>tr. st_instrument_key tr = ?k) (ss_open (sl_state l1))))"
    by (rule exit_due_open [OF x [unfolded r]])
  finally have "count (mset (ss_open (sl_state l'))) tr = 0" using e assms(3) by simp
  with assms(2) show False by (metis count_mset_0_iff)
qed

text \<open>C35: The exit rules, from both sides. After any run of a new ledger that returns, each closed counterfactual is a trade that was
  opened with the size of the notional and with its stop and target at their multiples of the volatility; entry,
  quantity and target are unchanged and the stop never went down. It closed after it was entered, for ''time'' when a
  session start of the run had found it held for the maximum number of sessions; otherwise for ''stop'' at a price at or
  below its stop; otherwise for ''target'' at a price above its stop and at or above its target; and its net result is
  the gross one less the charges of both legs. A session start marks for a time exit exactly the trades held for the maximum, and a quote
  leaves no entered trade of its instrument open that is marked, at its stop or at its target.\<close>

theorem closes_follow_exit_rules:
  assumes "new_shadow_ledger env None = Inr l0" "shadow_run env xs l0 = Inr l"
  shows "(\<forall>c. ShadowTradeClosed c \<in> set (sl_events l) \<longrightarrow>
      (let tr = sc_trade c; price = sc_exit_price c
       in (\<exists>tr0 s. ShadowTradeOpened tr0 s \<in> set (sl_events l) \<and> opened_right env tr0 \<and> grown_from tr0 tr)
        \<and> st_entry_ts tr < sc_exit_ts c
        \<and> (sc_exit_reason c = ''time'' \<and> st_time_exit tr \<and> due_in env xs (st_entered_on tr)
           \<or> sc_exit_reason c = ''stop'' \<and> \<not> st_time_exit tr \<and> price \<le> st_stop tr
           \<or> sc_exit_reason c = ''target'' \<and> \<not> st_time_exit tr \<and> st_stop tr < price \<and> st_target tr \<le> price)
        \<and> both_legs env tr price (sc_charges c)
        \<and> sc_net_pnl c = dsub (dmul (dsub price (st_entry_price tr)) (of_int (st_quantity tr))) (sc_charges c)))
    \<and> (\<forall>day closes atrs l'. shadow_session_start env day closes atrs l = (l', Inr ()) \<longrightarrow>
         list_all2 (\<lambda>tr tr'. \<exists>held. shadow_sessions_held (sv_calendar env) (st_entered_on tr) day = Inr held
             \<and> st_time_exit tr' = (st_time_exit tr \<or> xp_max_hold_days (sv_policy env) \<le> held))
           (ss_open (sl_state l)) (ss_open (sl_state l')))
    \<and> (\<forall>q l'. shadow_on_quote env q l = (l', Inr ()) \<longrightarrow>
         (\<forall>tr\<in>set (ss_open (sl_state l')). st_instrument_key tr = q_instrument_key q \<and> st_entry_ts tr < q_receipt_ts q \<longrightarrow>
            \<not> st_time_exit tr \<and> st_stop tr < dec_of_float (q_ltp q) \<and> dec_of_float (q_ltp q) < st_target tr))"
proof (intro conjI allI impI)
  have l0: "l0 = \<lparr>sl_state = no_shadows, sl_saved = None, sl_events = []\<rparr>"
    using assms(1) by (auto simp: new_shadow_ledger_def split: if_splits)
  have "conserves l0" "shadow_saved l0" "follows env xs l0"
    by (simp_all add: l0 conserves_def no_shadows_def opened_ids_def closed_ids_def settled_ids_def pending_ids_def open_ids_def settling_ids_def
        shadow_saved_def follows_def)
  then have f: "follows env xs l" by (rule shadow_run_follows [OF assms(2) subset_refl])
  fix c assume "ShadowTradeClosed c \<in> set (sl_events l)"
  with f have ok: "close_ok env xs (sl_events l) c" by (simp add: follows_def)
  then show "let tr = sc_trade c; price = sc_exit_price c
       in (\<exists>tr0 s. ShadowTradeOpened tr0 s \<in> set (sl_events l) \<and> opened_right env tr0 \<and> grown_from tr0 tr)
        \<and> st_entry_ts tr < sc_exit_ts c
        \<and> (sc_exit_reason c = ''time'' \<and> st_time_exit tr \<and> due_in env xs (st_entered_on tr)
           \<or> sc_exit_reason c = ''stop'' \<and> \<not> st_time_exit tr \<and> price \<le> st_stop tr
           \<or> sc_exit_reason c = ''target'' \<and> \<not> st_time_exit tr \<and> st_stop tr < price \<and> st_target tr \<le> price)
        \<and> both_legs env tr price (sc_charges c)
        \<and> sc_net_pnl c = dsub (dmul (dsub price (st_entry_price tr)) (of_int (st_quantity tr))) (sc_charges c)"
    by (auto simp: close_ok_def known_def shadow_exit_reason_def Let_def split: if_splits)
next
  fix day closes atrs l' assume "shadow_session_start env day closes atrs l = (l', Inr ())"
  then show "list_all2 (\<lambda>tr tr'. \<exists>held. shadow_sessions_held (sv_calendar env) (st_entered_on tr) day = Inr held
             \<and> st_time_exit tr' = (st_time_exit tr \<or> xp_max_hold_days (sv_policy env) \<le> held))
           (ss_open (sl_state l)) (ss_open (sl_state l'))"
    by (auto simp: shadow_session_start_def on_state_def shadow_save_def intro: session_marks_due split: prod.splits sum.splits)
next
  fix q l' assume q: "shadow_on_quote env q l = (l', Inr ())"
  show "\<forall>tr\<in>set (ss_open (sl_state l')). st_instrument_key tr = q_instrument_key q \<and> st_entry_ts tr < q_receipt_ts q \<longrightarrow>
            \<not> st_time_exit tr \<and> st_stop tr < dec_of_float (q_ltp q) \<and> dec_of_float (q_ltp q) < st_target tr"
  proof (intro ballI impI)
    fix tr assume "tr \<in> set (ss_open (sl_state l'))" "st_instrument_key tr = q_instrument_key q \<and> st_entry_ts tr < q_receipt_ts q"
    with no_exit_left [OF q] have "shadow_exit_reason tr (dec_of_float (q_ltp q)) = None" by (auto simp: exits_at_def)
    then show "\<not> st_time_exit tr \<and> st_stop tr < dec_of_float (q_ltp q) \<and> dec_of_float (q_ltp q) < st_target tr"
      by (simp add: shadow_exit_reason_def split: if_splits)
  qed
qed

section \<open>An example\<close>

definition shadow_env0 :: shadow_env where
  "shadow_env0 = \<lparr>sv_policy = default_exit_policy, sv_costs = zero_schedule, sv_calendar = sample_calendar, sv_notional = 100000\<rparr>"

definition shadow_signal :: signal where
  "shadow_signal =
     \<lparr>sg_signal_id = ''s1'', sg_decision_id = ''d1'', sg_instrument_key = ''NSE:EQ:INFY'', sg_strategy = ''momentum'', sg_side = BUY,
      sg_bar_date = 20474, sg_agreement_score = 1 / 2, sg_stop_atr_mult = 2, sg_target_atr_mult = 3, sg_is_shadow = False, sg_generated_at = 0\<rparr>"

definition shadow_quote :: "rat \<Rightarrow> ts \<Rightarrow> quote" where
  "shadow_quote price t =
     \<lparr>q_instrument_key = ''NSE:EQ:INFY'', q_ltp = price, q_bid = None, q_ask = None, q_prev_close = None, q_volume_cum = 0, q_exchange_ts = t,
      q_receipt_ts = t, q_source = REPLAY, q_is_delayed = False\<rparr>"

definition shadow_ops :: "shadow_op list" where
  "shadow_ops =
     [OpTrack [(''NSE:EQ:INFY'', Some 2)] [shadow_signal, shadow_signal], OpQuote (shadow_quote 100 (combine_ist 20476 1)), OpRestart,
      OpQuote (shadow_quote 96 (combine_ist 20476 2))]"

lemma shadow_sample_run:
  "case new_shadow_ledger shadow_env0 None of
     Inl e \<Rightarrow> False
   | Inr l0 \<Rightarrow> (case shadow_run shadow_env0 shadow_ops l0 of
       Inl e \<Rightarrow> False
     | Inr l \<Rightarrow> concat (map opened_of (sl_events l)) = [''s1''] \<and> concat (map closed_of (sl_events l)) = [''s1'']
        \<and> map (\<lambda>e. case e of ShadowTradeClosed c \<Rightarrow> sc_exit_reason c | _ \<Rightarrow> []) (sl_events l) = [[], ''stop''])"
  by code_simp

lemma shadow_sample:
  obtains l0 l c where "new_shadow_ledger shadow_env0 None = Inr l0" "shadow_run shadow_env0 shadow_ops l0 = Inr l"
    "opened_ids l = {#''s1''#}" "closed_ids l = {#''s1''#}" "ShadowTradeClosed c \<in> set (sl_events l)" "sc_exit_reason c = ''stop''"
proof -
  obtain l0 l where l: "new_shadow_ledger shadow_env0 None = Inr l0" "shadow_run shadow_env0 shadow_ops l0 = Inr l"
    and o: "concat (map opened_of (sl_events l)) = [''s1'']" and cl: "concat (map closed_of (sl_events l)) = [''s1'']"
    and m: "map (\<lambda>e. case e of ShadowTradeClosed c \<Rightarrow> sc_exit_reason c | _ \<Rightarrow> []) (sl_events l) = [[], ''stop'']"
    using shadow_sample_run by (auto split: sum.splits)
  obtain e1 e2 where e: "sl_events l = [e1, e2]" using m by (cases "sl_events l"; cases "tl (sl_events l)") auto
  then obtain c where "e2 = ShadowTradeClosed c" "sc_exit_reason c = ''stop''" using m by (cases e2) auto
  then show ?thesis using that [OF l, of c] o cl e by (simp add: opened_ids_def closed_ids_def)
qed

theorem one_counterfactual_per_signal_witness:
  "\<exists>l. shadow_restart shadow_env0 l = Inr l \<and> opened_ids l = {#''s1''#} \<and> open_ids (sl_state l) = {#} \<and> count (opened_ids l) ''s1'' \<le> 1"
proof -
  obtain l0 l c where l: "new_shadow_ledger shadow_env0 None = Inr l0" "shadow_run shadow_env0 shadow_ops l0 = Inr l"
    "opened_ids l = {#''s1''#}" "closed_ids l = {#''s1''#}" by (rule shadow_sample)
  have "shadow_restart shadow_env0 l = Inr l" "opened_ids l = open_ids (sl_state l) + closed_ids l" "count (opened_ids l) ''s1'' \<le> 1"
    using one_counterfactual_per_signal [OF l(1,2)] by blast+
  with l(3,4) show ?thesis by (intro exI [of _ l]) simp
qed

theorem closes_follow_exit_rules_witness:
  "\<exists>l c tr0 s. shadow_run shadow_env0 shadow_ops \<lparr>sl_state = no_shadows, sl_saved = None, sl_events = []\<rparr> = Inr l
     \<and> ShadowTradeClosed c \<in> set (sl_events l) \<and> ShadowTradeOpened tr0 s \<in> set (sl_events l) \<and> grown_from tr0 (sc_trade c)
     \<and> sc_exit_reason c = ''stop''"
proof -
  obtain l0 l c where l: "new_shadow_ledger shadow_env0 None = Inr l0" "shadow_run shadow_env0 shadow_ops l0 = Inr l"
    "ShadowTradeClosed c \<in> set (sl_events l)" "sc_exit_reason c = ''stop''" by (rule shadow_sample)
  have "l0 = \<lparr>sl_state = no_shadows, sl_saved = None, sl_events = []\<rparr>"
    using l(1) by (auto simp: new_shadow_ledger_def split: if_splits)
  with l(2) have r: "shadow_run shadow_env0 shadow_ops \<lparr>sl_state = no_shadows, sl_saved = None, sl_events = []\<rparr> = Inr l" by simp
  obtain tr0 s where "ShadowTradeOpened tr0 s \<in> set (sl_events l)" "grown_from tr0 (sc_trade c)"
    using closes_follow_exit_rules [OF l(1,2)] l(3) unfolding Let_def by blast
  with r l(3,4) show ?thesis by blast
qed

end
