(* ===== verification/Replay_Clock.thy ===== *)
theory Replay_Clock
  imports Domain_Types Py_Text "HOL-Library.Product_Lexorder" "HOL-Library.Multiset"
begin

text \<open>
  The virtual clock of replays and tests (\<^verbatim>\<open>src/domain/clock.py\<close>, class \<^verbatim>\<open>ReplayClock\<close>): a heap of
  sleepers ordered by wake time and registration number, and a driver that moves time and wakes them.

  The heap is a list in the order in which the heap pops: registration numbers are unique, so the futures
  are never compared. The tasks of the event loop are a parameter: what they do with the clock in each turn
  of the loop, numbered from the start. The log of the driver is what it took from the heap, with whether the
  sleeper was woken or found cancelled; it exists for the statements only. Whether waking ends at all depends
  on the tasks, which may sleep again whenever they are woken, so the loop is a partial function.
\<close>

section \<open>The clock\<close>

record sleeper =
  sl_wake :: ts
  sl_order :: nat
  sl_done :: bool

record replay_clock =
  rk_now :: ts
  rk_settle_rounds :: nat
  rk_sleepers :: "sleeper list"
  rk_order :: nat

definition new_replay_clock :: "ts \<Rightarrow> nat \<Rightarrow> replay_clock" where
  "new_replay_clock start rounds =
     \<lparr>rk_now = start, rk_settle_rounds = rounds, rk_sleepers = [], rk_order = 0\<rparr>"

definition pending_sleepers :: "replay_clock \<Rightarrow> nat" where
  "pending_sleepers c = length (filter (\<lambda>s. \<not> sl_done s) (rk_sleepers c))"

abbreviation heap_key :: "sleeper \<Rightarrow> ts \<times> nat" where
  "heap_key s \<equiv> (sl_wake s, sl_order s)"

definition sleep_until :: "ts \<Rightarrow> replay_clock \<Rightarrow> replay_clock" where
  "sleep_until wake c =
     (if wake \<le> rk_now c then c
      else c\<lparr>rk_sleepers := insort_key heap_key \<lparr>sl_wake = wake, sl_order = rk_order c, sl_done = False\<rparr> (rk_sleepers c),
             rk_order := Suc (rk_order c)\<rparr>)"

definition clock_sleep :: "rat \<Rightarrow> replay_clock \<Rightarrow> replay_clock" where
  "clock_sleep seconds c = (if seconds \<le> 0 then c else sleep_until (rk_now c + us_of_seconds seconds) c)"

text \<open>What a task does with the clock: sleep, sleep until an instant, or be cancelled while it sleeps.\<close>

datatype task_act = Sleep rat | SleepUntil ts | CancelSleeper nat

fun task_do :: "task_act \<Rightarrow> replay_clock \<Rightarrow> replay_clock" where
  "task_do (Sleep s) c = clock_sleep s c"
| "task_do (SleepUntil t) c = sleep_until t c"
| "task_do (CancelSleeper n) c =
     c\<lparr>rk_sleepers := map (\<lambda>s. if sl_order s = n then s\<lparr>sl_done := True\<rparr> else s) (rk_sleepers c)\<rparr>"

type_synonym tasks = "nat \<Rightarrow> task_act list"

primrec settle_turns :: "nat \<Rightarrow> tasks \<Rightarrow> replay_clock \<times> nat \<Rightarrow> replay_clock \<times> nat" where
  "settle_turns 0 ts s = s"
| "settle_turns (Suc k) ts s = settle_turns k ts (fold task_do (ts (snd s)) (fst s), Suc (snd s))"

definition settle_clock :: "tasks \<Rightarrow> replay_clock \<times> nat \<Rightarrow> replay_clock \<times> nat" where
  "settle_clock ts s = settle_turns (rk_settle_rounds (fst s)) ts s"

type_synonym wake_log = "(ts \<times> nat \<times> bool) list"

partial_function (option) wake_due ::
  "tasks \<Rightarrow> ts \<Rightarrow> (replay_clock \<times> nat) \<times> wake_log \<Rightarrow> ((replay_clock \<times> nat) \<times> wake_log) option" where
  "wake_due ts target x =
     (case x of ((c, n), l) \<Rightarrow>
        (case rk_sleepers c of
           [] \<Rightarrow> Some x
         | s # rest \<Rightarrow>
             if target < sl_wake s then Some x
             else if sl_done s then wake_due ts target ((c\<lparr>rk_sleepers := rest\<rparr>, n), l @ [(sl_wake s, sl_order s, False)])
             else wake_due ts target
                    (settle_clock ts (c\<lparr>rk_sleepers := rest, rk_now := sl_wake s\<rparr>, n), l @ [(sl_wake s, sl_order s, True)])))"

definition advance_to ::
  "tasks \<Rightarrow> ts \<Rightarrow> (replay_clock \<times> nat) \<times> wake_log \<Rightarrow> ((replay_clock \<times> nat) \<times> wake_log) result option" where
  "advance_to ts target x =
     (if target < rk_now (fst (fst x)) then Some (Inl ValueError)
      else map_option (\<lambda>((c, n), l). Inr ((c\<lparr>rk_now := target\<rparr>, n), l)) (wake_due ts target (settle_clock ts (fst x), snd x)))"

definition advance_clock ::
  "tasks \<Rightarrow> rat \<Rightarrow> (replay_clock \<times> nat) \<times> wake_log \<Rightarrow> ((replay_clock \<times> nat) \<times> wake_log) result option" where
  "advance_clock ts seconds x = advance_to ts (rk_now (fst (fst x)) + us_of_seconds seconds) x"

text \<open>A driver that moves the clock to one instant after the other, until one of them is in the past.\<close>

fun drive ::
  "tasks \<Rightarrow> ts list \<Rightarrow> (replay_clock \<times> nat) \<times> wake_log \<Rightarrow> ((replay_clock \<times> nat) \<times> wake_log) result option" where
  "drive ts [] x = Some (Inr x)"
| "drive ts (t # rest) x =
     (case advance_to ts t x of Some (Inr y) \<Rightarrow> drive ts rest y | r \<Rightarrow> r)"

section \<open>Time moves forward, sleepers wake in order\<close>

definition taken :: "wake_log \<Rightarrow> (ts \<times> nat) list" where
  "taken l = map (\<lambda>(t, k, w). (t, k)) l"

text \<open>
  Everything ever registered was either taken from the heap, in the order of wake time and registration, or is
  still in it, later than everything taken and not before now.
\<close>

definition clock_ok :: "(replay_clock \<times> nat) \<times> wake_log \<Rightarrow> bool" where
  "clock_ok x =
     (case x of ((c, n), l) \<Rightarrow>
        sorted (taken l @ map heap_key (rk_sleepers c))
        \<and> mset (map snd (taken l) @ map sl_order (rk_sleepers c)) = mset [0..<rk_order c]
        \<and> (\<forall>s \<in> set (rk_sleepers c). rk_now c \<le> sl_wake s))"

text \<open>At the moments when tasks run, everything taken is due: a new sleeper comes after it.\<close>

definition log_due :: "(replay_clock \<times> nat) \<times> wake_log \<Rightarrow> bool" where
  "log_due x = (\<forall>(t, k) \<in> set (taken (snd x)). t \<le> rk_now (fst (fst x)))"

lemma taken_snoc [simp]: "taken (l @ [(t, k, w)]) = taken l @ [(t, k)]"
  by (simp add: taken_def)

lemma mset_insort: "mset (map g (insort_key f x xs)) = add_mset (g x) (mset (map g xs))"
  by (induction xs) auto

lemma sleep_until_ok:
  assumes "clock_ok ((c, n), l)" "log_due ((c, n), l)"
  shows "clock_ok ((sleep_until t c, n), l)"
proof (cases "t \<le> rk_now c")
  case False
  let ?s = "\<lparr>sl_wake = t, sl_order = rk_order c, sl_done = False\<rparr>"
  have "\<forall>a \<in> set (taken l). \<forall>b \<in> set (map heap_key (insort_key heap_key ?s (rk_sleepers c))). a \<le> b"
    using assms False by (auto simp: clock_ok_def log_due_def sorted_append set_insort_key less_eq_prod_def)
  with assms False show ?thesis
    by (auto simp: clock_ok_def sleep_until_def sorted_append sorted_insort_key set_insort_key mset_insort atLeast0_lessThan_Suc)
qed (use assms in \<open>simp add: sleep_until_def\<close>)

lemma map_cancel [simp]:
  "map heap_key (map (\<lambda>s. if sl_order s = n then s\<lparr>sl_done := True\<rparr> else s) ss) = map heap_key ss"
  "map sl_order (map (\<lambda>s. if sl_order s = n then s\<lparr>sl_done := True\<rparr> else s) ss) = map sl_order ss"
  by (auto simp: comp_def)

lemma task_do_now [simp]:
  "rk_now (task_do a c) = rk_now c" "rk_settle_rounds (task_do a c) = rk_settle_rounds c"
  by (cases a; simp add: clock_sleep_def sleep_until_def)+

lemma task_do_ok:
  assumes "clock_ok ((c, n), l)" "log_due ((c, n), l)"
  shows "clock_ok ((task_do a c, n), l)"
proof (cases a)
  case (CancelSleeper k)
  with assms show ?thesis
    by (auto simp: clock_ok_def simp del: map_map mset_map)
qed (use assms sleep_until_ok in \<open>auto simp: clock_sleep_def\<close>)

lemma fold_task_do_now [simp]:
  "rk_now (fold task_do as c) = rk_now c" "rk_settle_rounds (fold task_do as c) = rk_settle_rounds c"
  by (induction as arbitrary: c) auto

lemma fold_task_do_ok:
  assumes "clock_ok ((c, n), l)" "log_due ((c, n), l)"
  shows "clock_ok ((fold task_do as c, m), l)"
  using assms
proof (induction as arbitrary: c)
  case (Cons a as)
  have "log_due ((task_do a c, n), l)" using Cons.prems(2) by (simp add: log_due_def)
  with Cons task_do_ok show ?case by simp
qed (simp add: clock_ok_def)

lemma settle_turns_now: "rk_now (fst (settle_turns k ts s)) = rk_now (fst s)"
  by (induction k arbitrary: s) simp_all

lemma settle_turns_ok:
  "clock_ok (s, l) \<Longrightarrow> log_due (s, l) \<Longrightarrow>
     clock_ok (settle_turns k ts s, l) \<and> log_due (settle_turns k ts s, l)"
proof (induction k arbitrary: s)
  case (Suc k)
  let ?t = "(fold task_do (ts (snd s)) (fst s), Suc (snd s))"
  have "clock_ok (?t, l)" "log_due (?t, l)"
    using Suc.prems fold_task_do_ok [of "fst s" "snd s" l] by (simp_all add: log_due_def)
  with Suc.IH [of ?t] show ?case by simp
qed simp

text \<open>Sleepers that are due now never become more while tasks run: a task can only sleep into the future.\<close>

definition due_now :: "replay_clock \<Rightarrow> nat" where
  "due_now c = length (filter (\<lambda>s. sl_wake s \<le> rk_now c) (rk_sleepers c))"

lemma filter_insort_length: "\<not> P x \<Longrightarrow> length (filter P (insort_key f x xs)) = length (filter P xs)"
  by (induction xs) auto

lemma task_do_due: "due_now (task_do a c) = due_now c"
  by (cases a) (auto simp: due_now_def clock_sleep_def sleep_until_def filter_insort_length filter_map comp_def
      if_distrib [of sl_wake] cong: if_cong)

lemma settle_due: "due_now (fst (settle_turns k ts s)) = due_now (fst s)"
proof (induction k arbitrary: s)
  case (Suc k)
  have "due_now (fold task_do as c) = due_now c" for as c
    by (induction as arbitrary: c) (auto simp: task_do_due)
  with Suc show ?case by simp
qed simp

text \<open>Only a sleeper that some task has cancelled is passed over.\<close>

definition cancelled :: "tasks \<Rightarrow> nat \<Rightarrow> nat \<Rightarrow> bool" where
  "cancelled ts n k = (\<exists>m < n. CancelSleeper k \<in> set (ts m))"

definition skips_ok :: "tasks \<Rightarrow> (replay_clock \<times> nat) \<times> wake_log \<Rightarrow> bool" where
  "skips_ok ts x =
     (case x of ((c, n), l) \<Rightarrow>
        (\<forall>s \<in> set (rk_sleepers c). sl_done s \<longrightarrow> cancelled ts n (sl_order s))
        \<and> (\<forall>(t, k, w) \<in> set l. w \<or> cancelled ts n k))"

lemma task_do_done:
  assumes "s \<in> set (rk_sleepers (task_do a c))" "sl_done s"
  shows "(\<exists>s' \<in> set (rk_sleepers c). sl_done s' \<and> sl_order s' = sl_order s) \<or> a = CancelSleeper (sl_order s)"
  using assms by (cases a) (auto simp: clock_sleep_def sleep_until_def set_insort_key split: if_splits)

lemma fold_task_do_done:
  assumes "s \<in> set (rk_sleepers (fold task_do as c))" "sl_done s"
  shows "(\<exists>s' \<in> set (rk_sleepers c). sl_done s' \<and> sl_order s' = sl_order s) \<or> CancelSleeper (sl_order s) \<in> set as"
  using assms
proof (induction as arbitrary: c)
  case (Cons a as)
  then show ?case using task_do_done [of _ a c] by fastforce
qed auto

lemma cancelled_mono: "cancelled ts n k \<Longrightarrow> n \<le> m \<Longrightarrow> cancelled ts m k"
  unfolding cancelled_def by (meson order_less_le_trans)

lemma settle_turns_skips: "skips_ok ts (s, l) \<Longrightarrow> skips_ok ts (settle_turns k ts s, l)"
proof (induction k arbitrary: s)
  case (Suc k)
  have "skips_ok ts ((fold task_do (ts (snd s)) (fst s), Suc (snd s)), l)"
    unfolding skips_ok_def prod.case
  proof (intro conjI ballI impI)
    fix x assume x: "x \<in> set (rk_sleepers (fold task_do (ts (snd s)) (fst s)))" "sl_done x"
    from fold_task_do_done [OF this] show "cancelled ts (Suc (snd s)) (sl_order x)"
    proof
      assume "\<exists>s' \<in> set (rk_sleepers (fst s)). sl_done s' \<and> sl_order s' = sl_order x"
      with Suc.prems have "cancelled ts (snd s) (sl_order x)" by (cases s) (auto simp: skips_ok_def)
      then show ?thesis by (rule cancelled_mono) simp
    qed (auto simp: cancelled_def)
  next
    fix y assume "y \<in> set l"
    with Suc.prems show "case y of (t, k, w) \<Rightarrow> w \<or> cancelled ts (Suc (snd s)) k"
      using cancelled_mono [of ts "snd s" _ "Suc (snd s)"] by (cases s) (fastforce simp: skips_ok_def)
  qed
  then show ?case by (simp add: Suc.IH)
qed simp

section \<open>Waking ends\<close>

text \<open>
  Each round of the loop either moves time towards its target, or takes one of the finitely many sleepers due
  now, or drops a cancelled one.
\<close>

definition wake_measures :: "ts \<Rightarrow> ((replay_clock \<times> nat) \<times> wake_log) rel" where
  "wake_measures target =
     measures [\<lambda>x. nat (target - rk_now (fst (fst x))), \<lambda>x. due_now (fst (fst x)), \<lambda>x. length (rk_sleepers (fst (fst x)))]"

lemma wf_wake_measures: "wf (wake_measures target)"
  by (simp add: wake_measures_def)

lemma take_done_less:
  assumes "rk_sleepers c = s # rest"
  shows "(((c\<lparr>rk_sleepers := rest\<rparr>, n), l'), ((c, n), l)) \<in> wake_measures target"
  using assms by (auto simp: wake_measures_def due_now_def)

lemma wake_less:
  assumes "rk_sleepers c = s # rest" "rk_now c \<le> sl_wake s" "sl_wake s \<le> target"
  shows "((settle_clock ts (c\<lparr>rk_sleepers := rest, rk_now := sl_wake s\<rparr>, n), l'), ((c, n), l)) \<in> wake_measures target"
proof -
  let ?c = "c\<lparr>rk_sleepers := rest, rk_now := sl_wake s\<rparr>"
  have now: "rk_now (fst (settle_clock ts (?c, n))) = sl_wake s"
    using settle_turns_now [of "rk_settle_rounds ?c" ts "(?c, n)"] by (simp add: settle_clock_def)
  have due: "due_now (fst (settle_clock ts (?c, n))) = due_now ?c"
    by (simp add: settle_clock_def settle_due)
  show ?thesis
    using assms now due by (cases "rk_now c = sl_wake s") (auto simp: wake_measures_def due_now_def)
qed

definition woken_until :: "tasks \<Rightarrow> ts \<Rightarrow> (replay_clock \<times> nat) \<times> wake_log \<Rightarrow> bool" where
  "woken_until ts target x =
     (clock_ok x \<and> skips_ok ts x \<and> rk_now (fst (fst x)) \<le> target \<and> (\<forall>(t, k) \<in> set (taken (snd x)). t \<le> target))"

lemma woken_until_done:
  assumes "woken_until ts target ((c, n), l)" "rk_sleepers c = s # rest" "sl_wake s \<le> target" "sl_done s"
  shows "woken_until ts target ((c\<lparr>rk_sleepers := rest\<rparr>, n), l @ [(sl_wake s, sl_order s, False)])"
  using assms by (auto simp: woken_until_def clock_ok_def skips_ok_def)

lemma woken_until_wake:
  assumes "woken_until ts target ((c, n), l)" "rk_sleepers c = s # rest" "sl_wake s \<le> target"
  shows "woken_until ts target
           (settle_clock ts (c\<lparr>rk_sleepers := rest, rk_now := sl_wake s\<rparr>, n), l @ [(sl_wake s, sl_order s, True)])"
proof -
  let ?x = "((c\<lparr>rk_sleepers := rest, rk_now := sl_wake s\<rparr>, n), l @ [(sl_wake s, sl_order s, True)])"
  have ok: "clock_ok ?x" "log_due ?x" "skips_ok ts ?x"
    using assms by (auto simp: woken_until_def clock_ok_def log_due_def skips_ok_def sorted_append less_eq_prod_def)
  have "\<forall>(t, k) \<in> set (taken (snd ?x)). t \<le> target"
    using assms by (auto simp: woken_until_def)
  then show ?thesis
    using settle_turns_ok [OF ok(1,2)] settle_turns_skips [OF ok(3)] assms(3)
    by (simp add: woken_until_def settle_clock_def settle_turns_now)
qed

lemma wake_due_returns:
  assumes "woken_until ts target x"
  shows "\<exists>y. wake_due ts target x = Some y \<and> woken_until ts target y
             \<and> (\<forall>s \<in> set (rk_sleepers (fst (fst y))). target < sl_wake s)"
  using assms
proof (induction x rule: wf_induct_rule [OF wf_wake_measures [of target]])
  case (1 x)
  note IH = 1(1)
  obtain c n l where x: "x = ((c, n), l)" by (metis prod.collapse)
  show ?case
  proof (cases "rk_sleepers c")
    case Nil
    then show ?thesis using 1(2) x by (simp add: wake_due.simps)
  next
    case (Cons s rest)
    have srt: "sorted (map heap_key (rk_sleepers c))" and later: "rk_now c \<le> sl_wake s"
      using 1(2) Cons by (auto simp: x woken_until_def clock_ok_def sorted_append)
    show ?thesis
    proof (cases "target < sl_wake s")
      case True
      then have "\<forall>r \<in> set (rk_sleepers c). target < sl_wake r"
        using srt Cons by (auto simp: less_eq_prod_def)
      then show ?thesis using 1(2) Cons True by (auto simp: wake_due.simps x)
    next
      case False
      then have due: "sl_wake s \<le> target" by simp
      show ?thesis
      proof (cases "sl_done s")
        case True
        with IH [OF _ woken_until_done [OF _ Cons due True]] take_done_less [OF Cons] 1(2) False Cons show ?thesis
          by (subst wake_due.simps) (simp add: x)
      next
        case nd: False
        with IH [OF _ woken_until_wake [OF _ Cons due]] wake_less [OF Cons later due] 1(2) False Cons show ?thesis
          by (subst wake_due.simps) (simp add: x)
      qed
    qed
  qed
qed

section \<open>Driving the clock\<close>

lemma advance_to_returns:
  assumes "clock_ok x" "skips_ok ts x" "log_due x" "rk_now (fst (fst x)) \<le> target"
  shows "\<exists>y. advance_to ts target x = Some (Inr y) \<and> clock_ok y \<and> skips_ok ts y \<and> log_due y
             \<and> rk_now (fst (fst y)) = target \<and> (\<forall>s \<in> set (rk_sleepers (fst (fst y))). target < sl_wake s)"
proof -
  let ?s = "(settle_clock ts (fst x), snd x)"
  have "clock_ok ?s" "log_due ?s" "skips_ok ts ?s" "rk_now (fst (fst ?s)) = rk_now (fst (fst x))"
    using assms settle_turns_ok [of "fst x" "snd x"] settle_turns_skips [of ts "fst x" "snd x"]
    by (simp_all add: settle_clock_def settle_turns_now)
  then have "woken_until ts target ?s"
    using assms(4) by (auto simp: woken_until_def log_due_def)
  from wake_due_returns [OF this] obtain c n l where y: "wake_due ts target ?s = Some ((c, n), l)"
      "woken_until ts target ((c, n), l)" "\<forall>s \<in> set (rk_sleepers c). target < sl_wake s"
    by auto
  let ?y = "((c\<lparr>rk_now := target\<rparr>, n), l)"
  have "clock_ok ?y" "skips_ok ts ?y" "log_due ?y"
    using y(2,3) by (auto simp: woken_until_def clock_ok_def skips_ok_def log_due_def)
  with y assms(4) show ?thesis by (simp add: advance_to_def)
qed

definition driven :: "tasks \<Rightarrow> (replay_clock \<times> nat) \<times> wake_log \<Rightarrow> bool" where
  "driven ts x = (clock_ok x \<and> skips_ok ts x \<and> log_due x \<and> (\<forall>s \<in> set (rk_sleepers (fst (fst x))). rk_now (fst (fst x)) < sl_wake s))"

lemma drive_returns:
  assumes "driven ts x"
  shows "\<exists>r. drive ts targets x = Some r
             \<and> (case r of Inl e \<Rightarrow> e = ValueError \<and> \<not> sorted (rk_now (fst (fst x)) # targets)
                | Inr y \<Rightarrow> sorted (rk_now (fst (fst x)) # targets) \<and> driven ts y
                           \<and> rk_now (fst (fst y)) = last (rk_now (fst (fst x)) # targets))"
  using assms
proof (induction targets arbitrary: x)
  case (Cons t rest)
  show ?case
  proof (cases "t < rk_now (fst (fst x))")
    case True
    then show ?thesis by (simp add: advance_to_def)
  next
    case False
    then obtain y where y: "advance_to ts t x = Some (Inr y)" "driven ts y" "rk_now (fst (fst y)) = t"
      using advance_to_returns [of x ts t] Cons.prems by (auto simp: driven_def)
    then have d: "drive ts (t # rest) x = drive ts rest y" by simp
    have srt: "sorted (rk_now (fst (fst x)) # t # rest) = sorted (t # rest)" using False by auto
    from Cons.IH [OF y(2)] have *: "\<exists>r. drive ts (t # rest) x = Some r
        \<and> (case r of Inl e \<Rightarrow> e = ValueError \<and> \<not> sorted (t # rest)
           | Inr z \<Rightarrow> sorted (t # rest) \<and> driven ts z \<and> rk_now (fst (fst z)) = last (t # rest))"
      unfolding d y(3) .
    have l: "last (rk_now (fst (fst x)) # t # rest) = last (t # rest)" by simp
    show ?thesis unfolding srt l by (fact *)
  qed
qed simp

text \<open>C36: Whatever the tasks do with the clock while they are awake, moving the replay clock to a list of instants
  always comes to an end. It raises ValueError exactly when an instant lies before the one it follows; otherwise
  the clock stands at the last instant and everything that was due has been taken in the order of wake time, first
  registered first, each registration once; what is still asleep is due later, and only sleepers that a task had
  cancelled were passed over.
\<close>

theorem replay_clock_wakes_in_order:
  "\<exists>r. drive ts targets ((new_replay_clock start rounds, 0), []) = Some r
     \<and> (case r of
          Inl e \<Rightarrow> e = ValueError \<and> \<not> sorted (start # targets)
        | Inr ((c, n), l) \<Rightarrow>
            sorted (start # targets) \<and> rk_now c = last (start # targets)
            \<and> sorted (taken l) \<and> mset (map snd (taken l) @ map sl_order (rk_sleepers c)) = mset [0..<rk_order c]
            \<and> (\<forall>(t, k) \<in> set (taken l). t \<le> rk_now c) \<and> (\<forall>s \<in> set (rk_sleepers c). rk_now c < sl_wake s)
            \<and> (\<forall>(t, k, w) \<in> set l. w \<or> cancelled ts n k))"
proof -
  have d: "driven ts ((new_replay_clock start rounds, 0), [])"
    by (simp add: driven_def clock_ok_def skips_ok_def log_due_def new_replay_clock_def taken_def)
  have now: "rk_now (fst (fst ((new_replay_clock start rounds, 0 :: nat), [] :: wake_log))) = start"
    by (simp add: new_replay_clock_def)
  obtain r where r: "drive ts targets ((new_replay_clock start rounds, 0), []) = Some r"
      "case r of Inl e \<Rightarrow> e = ValueError \<and> \<not> sorted (start # targets)
       | Inr y \<Rightarrow> sorted (start # targets) \<and> driven ts y \<and> rk_now (fst (fst y)) = last (start # targets)"
    using drive_returns [OF d, of targets] unfolding now by blast
  then show ?thesis
    by (intro exI [of _ r]) (auto simp: driven_def clock_ok_def skips_ok_def log_due_def sorted_append split: sum.splits)
qed

text \<open>Two sleepers; the later one is cancelled by a task that then sleeps itself.\<close>

definition sample_tasks :: tasks where
  "sample_tasks n =
     (if n = 0 then [SleepUntil 5, SleepUntil 3] else if n = 1 then [SleepUntil 4, CancelSleeper 0] else [])"

theorem replay_clock_wakes_in_order_witness:
  "\<exists>c n l. drive sample_tasks [10] ((new_replay_clock 0 1, 0), []) = Some (Inr ((c, n), l))
     \<and> l = [(3, 1, True), (4, 2, True), (5, 0, False)] \<and> sorted (taken l) \<and> rk_now c = 10"
proof -
  have run: "\<exists>c n. drive sample_tasks [10] ((new_replay_clock 0 1, 0), [])
      = Some (Inr ((c, n), [(3, 1, True), (4, 2, True), (5, 0, False)]))"
    by (simp add: advance_to_def wake_due.simps settle_clock_def new_replay_clock_def sample_tasks_def sleep_until_def numeral_eq_Suc)
  then show ?thesis
    using replay_clock_wakes_in_order [of sample_tasks "[10]" 0 1] by auto
qed

end
