(* ===== verification/Quote_Feed.thy ===== *)
theory Quote_Feed
  imports Calendar Py_Text "HOL-Library.List_Lexorder" "HOL-Library.Char_ord"
begin

text \<open>
  Live quotes: the validation of vendor quotes (\<^verbatim>\<open>src/marketdata/validation.py\<close>) and the polling source with
  its back-off and staleness bookkeeping (\<^verbatim>\<open>src/marketdata/yfinance_source.py\<close>).

  The download is a parameter of a poll: a frame of minute bars per ticker, a time-out or an exception; so is whether
  the download that timed out before has finished by now. A missing cell of a frame is \<open>NaN\<close>. Day volumes are whole
  numbers below \<open>2 ^ 53\<close>, so the order in which pandas adds them does not matter. The quote tape is not modelled.
\<close>

section \<open>Validation\<close>

text \<open>A vendor quote before validation; an aware time stamp is the normal case.\<close>

record raw_quote =
  rw_instrument_key :: string
  rw_ltp :: flt
  rw_volume_cum :: int
  rw_exchange_ts :: ts
  rw_aware :: bool
  rw_prev_close :: "flt option"

definition with_prev_close :: "flt option \<Rightarrow> raw_quote \<Rightarrow> raw_quote" where
  "with_prev_close c r = r\<lparr>rw_prev_close := c\<rparr>"

definition default_band_pct :: rat where
  "default_band_pct = 20"

definition band_tolerance_pct :: rat where
  "band_tolerance_pct = 2"

definition band_lookup :: "instrument list \<Rightarrow> string \<Rightarrow> rat" where
  "band_lookup is =
     (let bands = foldl (\<lambda>d i. dset (ins_key i) (ins_band_pct i) d) [] is
      in (\<lambda>key. case dget bands key of Some (Some b) \<Rightarrow> b | _ \<Rightarrow> default_band_pct))"

text \<open>The previous close of the quote: only a positive one is kept; the quote forbids an infinite one.\<close>

definition kept_prev_close :: "raw_quote \<Rightarrow> rat option result" where
  "kept_prev_close r =
     (case rw_prev_close r of
        Some (Fin c) \<Rightarrow> Inr (if 0 < c then Some c else None)
      | Some (Inf False) \<Rightarrow> Inl ValueError
      | _ \<Rightarrow> Inr None)"

definition to_quote :: "ts \<Rightarrow> market_data_source \<Rightarrow> raw_quote \<Rightarrow> quote result" where
  "to_quote receipt source r =
     (case (rw_ltp r, kept_prev_close r) of
        (Fin p, Inr c) \<Rightarrow>
          (let q = \<lparr>q_instrument_key = rw_instrument_key r, q_ltp = p, q_bid = None, q_ask = None, q_prev_close = c,
                    q_volume_cum = rw_volume_cum r, q_exchange_ts = rw_exchange_ts r, q_receipt_ts = receipt,
                    q_source = source, q_is_delayed = (source = YFINANCE)\<rparr>
           in if quote_valid q \<and> rw_aware r then Inr q else Inl ValueError)
      | _ \<Rightarrow> Inl ValueError)"

record quote_validator =
  qv_band_pct_for :: "string \<Rightarrow> rat"
  qv_tolerance_pct :: rat
  qv_seen :: "(string, date \<times> int) dict"

definition new_validator :: "(string \<Rightarrow> rat) option \<Rightarrow> rat \<Rightarrow> quote_validator" where
  "new_validator band tolerance =
     \<lparr>qv_band_pct_for = (case band of None \<Rightarrow> (\<lambda>key. default_band_pct) | Some b \<Rightarrow> b), qv_tolerance_pct = tolerance, qv_seen = []\<rparr>"

definition move_pct :: "rat \<Rightarrow> rat \<Rightarrow> rat" where
  "move_pct ltp prev = fmul \<bar>fsub (fdiv ltp prev) 1\<bar> 100"

definition out_of_band :: "quote_validator \<Rightarrow> string \<Rightarrow> rat \<Rightarrow> flt option \<Rightarrow> bool" where
  "out_of_band v key ltp prev =
     (case prev of
        Some (Fin c) \<Rightarrow> 0 < c \<and> fadd (qv_band_pct_for v key) (qv_tolerance_pct v) < move_pct ltp c
      | _ \<Rightarrow> False)"

definition volume_down :: "quote_validator \<Rightarrow> raw_quote \<Rightarrow> bool" where
  "volume_down v r =
     (case dget (qv_seen v) (rw_instrument_key r) of
        None \<Rightarrow> False
      | Some (d, n) \<Rightarrow> d = ist_date (rw_exchange_ts r) \<and> rw_volume_cum r < n)"

definition check_quote :: "quote_validator \<Rightarrow> raw_quote \<Rightarrow> string option" where
  "check_quote v r =
     (case rw_ltp r of
        Fin p \<Rightarrow>
          if p \<le> 0 then Some ''non_positive_price''
          else if rw_volume_cum r < 0 then Some ''negative_volume''
          else if \<not> rw_aware r then Some ''naive_timestamp''
          else if out_of_band v (rw_instrument_key r) p (rw_prev_close r) then Some ''out_of_band''
          else if volume_down v r then Some ''volume_decreased''
          else None
      | _ \<Rightarrow> Some ''non_finite_price'')"

definition accept_quote :: "quote \<Rightarrow> quote_validator \<Rightarrow> quote_validator" where
  "accept_quote q v = v\<lparr>qv_seen := dset (q_instrument_key q) (ist_date (q_exchange_ts q), q_volume_cum q) (qv_seen v)\<rparr>"

section \<open>The polling source\<close>

datatype feed_event =
    FeedStale "string list" "rat option"
  | FeedRecovered "string list" rat
  | QuoteRejected string string

record quote_source =
  qs_by_ticker :: "(string, string) dict"
  qs_validator :: quote_validator
  qs_market_open :: "ts \<Rightarrow> bool"
  qs_poll_interval_s :: rat
  qs_max_backoff_s :: rat
  qs_stale_after_s :: rat
  qs_prev_close :: "(string, flt) dict"
  qs_failures :: nat
  qs_feed_down_since :: "ts option"
  qs_stale_since :: "(string, ts) dict"
  qs_inflight :: bool
  qs_last_quotes :: "(string, quote) dict"
  qs_events :: "feed_event list"

definition yahoo_ticker :: "string \<Rightarrow> string result" where
  "yahoo_ticker symbol = (if symbol = [] \<or> symbol \<noteq> strip symbol then Inl ValueError else Inr (symbol @ ''.NS''))"

fun keys_by_ticker :: "instrument list \<Rightarrow> (string, string) dict \<Rightarrow> (string, string) dict result" where
  "keys_by_ticker [] d = Inr d"
| "keys_by_ticker (i # rest) d =
     (case yahoo_ticker (ins_symbol i) of Inl e \<Rightarrow> Inl e | Inr t \<Rightarrow> keys_by_ticker rest (dset t (ins_key i) d))"

definition new_quote_source ::
  "instrument list \<Rightarrow> quote_validator \<Rightarrow> (ts \<Rightarrow> bool) \<Rightarrow> rat \<Rightarrow> rat \<Rightarrow> rat \<Rightarrow> quote_source result" where
  "new_quote_source is v is_open interval backoff stale_after =
     (if is = [] then Inl ValueError
      else case keys_by_ticker is [] of Inl e \<Rightarrow> Inl e | Inr keys \<Rightarrow>
           Inr \<lparr>qs_by_ticker = keys, qs_validator = v,
                qs_market_open = is_open, qs_poll_interval_s = interval, qs_max_backoff_s = backoff,
                qs_stale_after_s = stale_after, qs_prev_close = [], qs_failures = 0, qs_feed_down_since = None,
                qs_stale_since = [], qs_inflight = False, qs_last_quotes = [], qs_events = []\<rparr>)"

definition qs_emit :: "feed_event \<Rightarrow> quote_source \<Rightarrow> quote_source" where
  "qs_emit e s = s\<lparr>qs_events := qs_events s @ [e]\<rparr>"

definition set_prev_closes :: "(string, flt) dict \<Rightarrow> quote_source \<Rightarrow> quote_source" where
  "set_prev_closes closes s = s\<lparr>qs_prev_close := closes\<rparr>"

text \<open>The power \<^verbatim>\<open>2.0 ** failures\<close> overflows at 1024 and raises \<^verbatim>\<open>OverflowError\<close>: no value.\<close>

definition next_delay_s :: "quote_source \<Rightarrow> rat option" where
  "next_delay_s s =
     (if qs_failures s = 0 then Some (qs_poll_interval_s s)
      else if 1024 \<le> qs_failures s then None
      else Some (min (qs_max_backoff_s s) (fmul (qs_poll_interval_s s) (2 ^ qs_failures s))))"

subsection \<open>From the frame to raw quotes\<close>

record minute_bar =
  mb_ts :: ts
  mb_aware :: bool
  mb_close :: flt
  mb_volume :: flt

type_synonym frame = "(string, minute_bar list) dict"

definition volume_sum :: "minute_bar list \<Rightarrow> flt" where
  "volume_sum bs = foldl (\<lambda>v b. flt_add v (if mb_volume b = NaN then Fin 0 else mb_volume b)) (Fin 0) bs"

definition ticker_quote :: "string \<Rightarrow> minute_bar list \<Rightarrow> raw_quote option result" where
  "ticker_quote key bars =
     (let sub = filter (\<lambda>b. mb_close b \<noteq> NaN) bars
      in if sub = [] then Inr None
         else if \<not> mb_aware (last sub) then Inl ValueError
         else Inr (Some \<lparr>rw_instrument_key = key, rw_ltp = mb_close (last sub),
                         rw_volume_cum = (case volume_sum sub of Fin v \<Rightarrow> py_int v | _ \<Rightarrow> 0),
                         rw_exchange_ts = mb_ts (last sub), rw_aware = True, rw_prev_close = None\<rparr>))"

fun parse_minute_frame :: "frame \<Rightarrow> (string, string) dict \<Rightarrow> (string, raw_quote) dict \<Rightarrow> (string, raw_quote) dict result" where
  "parse_minute_frame fr [] out = Inr out"
| "parse_minute_frame fr ((ticker, key) # rest) out =
     (case dget fr ticker of
        None \<Rightarrow> parse_minute_frame fr rest out
      | Some bars \<Rightarrow>
          (case ticker_quote key bars of
             Inl e \<Rightarrow> Inl e
           | Inr None \<Rightarrow> parse_minute_frame fr rest out
           | Inr (Some r) \<Rightarrow> parse_minute_frame fr rest (dset key r out)))"

subsection \<open>Staleness\<close>

record poll_result =
  pr_ok :: bool
  pr_quotes :: "(string, quote) dict"
  pr_missing :: "string list"
  pr_rejected :: "string list"

definition poll_failed :: "ts \<Rightarrow> quote_source \<Rightarrow> quote_source \<times> poll_result result" where
  "poll_failed now s =
     (let s1 = s\<lparr>qs_failures := Suc (qs_failures s)\<rparr>;
          s2 = (if qs_feed_down_since s1 = None
                then qs_emit (FeedStale (sort (map snd (qs_by_ticker s1))) None) (s1\<lparr>qs_feed_down_since := Some now\<rparr>) else s1)
      in (s2, Inr \<lparr>pr_ok = False, pr_quotes = [], pr_missing = [], pr_rejected = []\<rparr>))"

definition total_seconds :: "int \<Rightarrow> rat" where
  "total_seconds us = fdiv (of_int us) (10 ^ 6)"

text \<open>The recovery event refuses a negative span: a clock that went back makes the poll raise after the marks are reset.\<close>

definition mark_feed_up :: "ts \<Rightarrow> quote_source \<Rightarrow> quote_source \<times> unit result" where
  "mark_feed_up now s =
     (case qs_feed_down_since s of
        None \<Rightarrow> (s\<lparr>qs_failures := 0\<rparr>, Inr ())
      | Some t \<Rightarrow>
          (let s1 = s\<lparr>qs_failures := 0, qs_feed_down_since := None\<rparr>; down_for = total_seconds (now - t)
           in if down_for < 0 then (s1, Inl ValueError) else (qs_emit (FeedRecovered [] down_for) s1, Inr ())))"

definition stale_keys_now :: "ts \<Rightarrow> (string, quote) dict \<Rightarrow> string list \<Rightarrow> quote_source \<Rightarrow> string list" where
  "stale_keys_now now quotes missing s =
     (if \<not> qs_market_open s now then missing
      else missing @ map fst (filter (\<lambda>(k, q). qs_stale_after_s s < age_seconds q now) quotes))"

definition oldest_age :: "ts \<Rightarrow> (string, quote) dict \<Rightarrow> string list \<Rightarrow> rat" where
  "oldest_age now quotes keys = Max (set (map (\<lambda>k. age_seconds (the (dget quotes k)) now) keys))"

definition longest_stale :: "ts \<Rightarrow> (string, ts) dict \<Rightarrow> string list \<Rightarrow> rat" where
  "longest_stale now since keys = Max (set (map (\<lambda>k. total_seconds (now - the (dget since k))) keys))"

definition report_stale :: "ts \<Rightarrow> (string, quote) dict \<Rightarrow> string list \<Rightarrow> quote_source \<Rightarrow> quote_source \<times> unit result" where
  "report_stale now quotes newly s =
     (let no_data = filter (\<lambda>k. dget quotes k = None) newly;
          too_old = filter (\<lambda>k. dget quotes k \<noteq> None) newly;
          s1 = (if no_data = [] then s else qs_emit (FeedStale no_data None) s);
          age = oldest_age now quotes too_old
      in if too_old \<noteq> [] \<and> age < 0 then (s1, Inl ValueError)
         else let s2 = (if too_old = [] then s1 else qs_emit (FeedStale too_old (Some age)) s1)
              in (s2\<lparr>qs_stale_since := foldl (\<lambda>d k. dset k now d) (qs_stale_since s2) newly\<rparr>, Inr ()))"

definition report_recovered :: "ts \<Rightarrow> string list \<Rightarrow> quote_source \<Rightarrow> quote_source \<times> unit result" where
  "report_recovered now recovered s =
     (let longest = longest_stale now (qs_stale_since s) recovered
      in if recovered = [] then (s, Inr ())
         else if longest < 0 then (s, Inl ValueError)
         else ((qs_emit (FeedRecovered recovered longest) s)\<lparr>qs_stale_since := foldl (\<lambda>d k. dpop k d) (qs_stale_since s) recovered\<rparr>,
               Inr ()))"

definition update_staleness :: "ts \<Rightarrow> (string, quote) dict \<Rightarrow> string list \<Rightarrow> quote_source \<Rightarrow> quote_source \<times> unit result" where
  "update_staleness now quotes missing s =
     (let stale_now = stale_keys_now now quotes missing s;
          newly = sort (remdups (filter (\<lambda>k. k \<notin> fst ` set (qs_stale_since s)) stale_now));
          recovered = sort (remdups (filter (\<lambda>k. k \<notin> set stale_now) (map fst (qs_stale_since s))))
      in case report_stale now quotes newly s of
           (s1, Inl e) \<Rightarrow> (s1, Inl e)
         | (s1, Inr u) \<Rightarrow> report_recovered now recovered s1)"

subsection \<open>A poll\<close>

fun accept_each ::
  "ts \<Rightarrow> (string \<times> raw_quote) list \<Rightarrow> quote_source \<Rightarrow> (string, quote) dict \<Rightarrow> string list \<Rightarrow>
   quote_source \<times> ((string, quote) dict \<times> string list) result" where
  "accept_each now [] s quotes rejected = (s, Inr (quotes, rejected))"
| "accept_each now ((key, r) # rest) s quotes rejected =
     (let item = with_prev_close (dget (qs_prev_close s) key) r
      in case check_quote (qs_validator s) item of
           Some reason \<Rightarrow> accept_each now rest (qs_emit (QuoteRejected key reason) s) quotes (rejected @ [key])
         | None \<Rightarrow>
             (case to_quote now YFINANCE item of
                Inl e \<Rightarrow> (s, Inl e)
              | Inr q \<Rightarrow> accept_each now rest (s\<lparr>qs_validator := accept_quote q (qs_validator s)\<rparr>) (dset key q quotes) rejected))"

definition accept_raw :: "ts \<Rightarrow> (string, raw_quote) dict \<Rightarrow> quote_source \<Rightarrow> quote_source \<times> poll_result result" where
  "accept_raw now raw s =
     (case mark_feed_up now s of
        (s0, Inl e) \<Rightarrow> (s0, Inl e)
      | (s0, Inr u) \<Rightarrow>
          (case accept_each now (sort_key fst raw) s0 [] [] of
             (s1, Inl e) \<Rightarrow> (s1, Inl e)
           | (s1, Inr (quotes, rejected)) \<Rightarrow>
               (let missing = sort (remdups (filter (\<lambda>k. dget raw k = None) (map snd (qs_by_ticker s1))))
                in case update_staleness now quotes missing s1 of
                     (s2, Inl e) \<Rightarrow> (s2, Inl e)
                   | (s2, Inr u') \<Rightarrow>
                       (s2\<lparr>qs_last_quotes := foldl (\<lambda>d (k, q). dset k q d) (qs_last_quotes s2) quotes\<rparr>,
                        Inr \<lparr>pr_ok = True, pr_quotes = quotes, pr_missing = missing, pr_rejected = rejected\<rparr>))))"

datatype download = Downloaded frame | TimedOut | DownloadError

definition poll_source :: "bool \<Rightarrow> download \<Rightarrow> ts \<Rightarrow> quote_source \<Rightarrow> quote_source \<times> poll_result result" where
  "poll_source finished dl now s =
     (if qs_inflight s \<and> \<not> finished then poll_failed now s
      else case dl of
             TimedOut \<Rightarrow> poll_failed now (s\<lparr>qs_inflight := True\<rparr>)
           | DownloadError \<Rightarrow> poll_failed now (s\<lparr>qs_inflight := False\<rparr>)
           | Downloaded fr \<Rightarrow>
               (let s1 = s\<lparr>qs_inflight := False\<rparr>
                in case parse_minute_frame fr (qs_by_ticker s1) [] of
                     Inl e \<Rightarrow> poll_failed now s1
                   | Inr raw \<Rightarrow> if raw = [] then poll_failed now s1 else accept_raw now raw s1))"

end
