(* ===== verification/Quote_Props.thy ===== *)
theory Quote_Props
  imports Quote_Feed
begin

text \<open>
  What the polling source guarantees: every quote it serves is valid, within the price band of its instrument and
  not behind the day volume of the quote served before it; the latest quotes are the ones served last; a poll never
  raises while previous closes are finite; and the set of stale symbols is exactly the set seen stale in the last
  good poll.
\<close>

section \<open>Runs\<close>

datatype feed_op = SetPrevCloses "(string, flt) dict" | PollFeed bool download ts

fun feed_do :: "feed_op \<Rightarrow> quote_source \<times> quote list \<Rightarrow> quote_source \<times> quote list" where
  "feed_do (SetPrevCloses c) (s, served) = (set_prev_closes c s, served)"
| "feed_do (PollFeed finished dl now) (s, served) =
     (case poll_source finished dl now s of
        (s1, Inl e) \<Rightarrow> (s1, served)
      | (s1, Inr r) \<Rightarrow> (s1, served @ map snd (pr_quotes r)))"

definition feed_run :: "feed_op list \<Rightarrow> quote_source \<times> quote list \<Rightarrow> quote_source \<times> quote list" where
  "feed_run ops x = fold feed_do ops x"

definition latest_served :: "string \<Rightarrow> quote list \<Rightarrow> quote option" where
  "latest_served k qs = find (\<lambda>q. q_instrument_key q = k) (rev qs)"

definition in_band :: "quote_validator \<Rightarrow> quote \<Rightarrow> bool" where
  "in_band v q =
     (case q_prev_close q of
        None \<Rightarrow> True
      | Some c \<Rightarrow> move_pct (q_ltp q) c \<le> fadd (qv_band_pct_for v (q_instrument_key q)) (qv_tolerance_pct v))"

text \<open>Of two quotes of an instrument and a session with none of the instrument between, the later has no less volume.\<close>

definition steady :: "quote list \<Rightarrow> bool" where
  "steady qs =
     (\<forall>xs q ys r zs. qs = xs @ q # ys @ r # zs \<longrightarrow> q_instrument_key q = q_instrument_key r \<longrightarrow>
        (\<forall>y \<in> set ys. q_instrument_key y \<noteq> q_instrument_key r) \<longrightarrow>
        ist_date (q_exchange_ts q) = ist_date (q_exchange_ts r) \<longrightarrow> q_volume_cum q \<le> q_volume_cum r)"

lemma latest_served_snoc:
  "latest_served k (qs @ [q]) = (if q_instrument_key q = k then Some q else latest_served k qs)"
  by (simp add: latest_served_def)

lemma latest_served_split:
  assumes "qs = xs @ q # ys" "\<forall>y \<in> set ys. q_instrument_key y \<noteq> q_instrument_key q"
  shows "latest_served (q_instrument_key q) qs = Some q"
  using assms by (induction ys arbitrary: qs rule: rev_induct)
    (simp_all add: latest_served_snoc, metis append.assoc append_Cons latest_served_snoc)

lemma steady_snoc:
  assumes "steady qs"
    and "\<And>q. latest_served (q_instrument_key r) qs = Some q \<Longrightarrow> ist_date (q_exchange_ts q) = ist_date (q_exchange_ts r)
           \<Longrightarrow> q_volume_cum q \<le> q_volume_cum r"
  shows "steady (qs @ [r])"
  unfolding steady_def
proof (intro allI impI)
  fix xs q ys s zs
  assume *: "qs @ [r] = xs @ q # ys @ s # zs" "q_instrument_key q = q_instrument_key s"
    "\<forall>y \<in> set ys. q_instrument_key y \<noteq> q_instrument_key s" "ist_date (q_exchange_ts q) = ist_date (q_exchange_ts s)"
  show "q_volume_cum q \<le> q_volume_cum s"
  proof (cases zs rule: rev_cases)
    case Nil
    with * have "qs = xs @ q # ys" "s = r" by (auto simp: append_eq_append_conv2)
    with latest_served_split [of qs xs q ys] assms(2) * show ?thesis by simp
  next
    case (snoc zs' z)
    with * have "qs = xs @ q # ys @ s # zs'" by (simp flip: append_assoc append_Cons)
    with assms(1) * show ?thesis unfolding steady_def by blast
  qed
qed

section \<open>The invariant\<close>

definition feed_rules :: "quote_source \<Rightarrow> (string \<Rightarrow> rat) \<times> rat \<times> (string, string) dict" where
  "feed_rules s = (qv_band_pct_for (qs_validator s), qv_tolerance_pct (qs_validator s), qs_by_ticker s)"

definition remembers :: "quote_source \<Rightarrow> quote list \<Rightarrow> bool" where
  "remembers s qs =
     ((\<forall>k. dget (qv_seen (qs_validator s)) k
             = map_option (\<lambda>q. (ist_date (q_exchange_ts q), q_volume_cum q)) (latest_served k qs))
      \<and> (\<forall>q \<in> set qs. quote_valid q \<and> in_band (qs_validator s) q) \<and> steady qs)"

lemma in_band_rules:
  "feed_rules s = feed_rules t \<Longrightarrow> in_band (qs_validator s) q = in_band (qs_validator t) q"
  by (simp add: feed_rules_def in_band_def split: option.split)

lemma remembers_cong:
  assumes "remembers s qs" "qs_validator t = qs_validator s"
  shows "remembers t qs"
  using assms by (simp add: remembers_def)

definition finite_closes :: "(string, flt) dict \<Rightarrow> bool" where
  "finite_closes d = (\<forall>(k, c) \<in> set d. \<exists>p. c = Fin p)"

lemma finite_closes_dget: "finite_closes d \<Longrightarrow> dget d k = Some c \<Longrightarrow> \<exists>p. c = Fin p"
  by (auto simp: finite_closes_def dest!: map_of_SomeD)

text \<open>A checked quote can be built, and passes every rule.\<close>

lemma checked_quote:
  assumes "check_quote v r = None" "rw_instrument_key r \<noteq> []" "\<And>c. rw_prev_close r = Some c \<Longrightarrow> \<exists>p. c = Fin p"
  shows "\<exists>q. to_quote now src r = Inr q \<and> quote_valid q \<and> in_band v q \<and> q_instrument_key q = rw_instrument_key r
             \<and> q_volume_cum q = rw_volume_cum r \<and> q_exchange_ts q = rw_exchange_ts r \<and> \<not> volume_down v r"
proof -
  from assms(1) obtain p where p: "rw_ltp r = Fin p" "0 < p" "0 \<le> rw_volume_cum r" "rw_aware r"
      "\<not> out_of_band v (rw_instrument_key r) p (rw_prev_close r)" "\<not> volume_down v r"
    by (auto simp: check_quote_def split: flt.splits if_splits)
  show ?thesis
  proof (cases "rw_prev_close r")
    case None
    with p assms(2) show ?thesis by (simp add: to_quote_def kept_prev_close_def quote_valid_def in_band_def)
  next
    case (Some c)
    with assms(3) obtain d where "c = Fin d" by blast
    with Some p assms(2) show ?thesis
      by (auto simp: to_quote_def kept_prev_close_def quote_valid_def in_band_def out_of_band_def)
  qed
qed

lemma remembers_accept:
  assumes "remembers s qs" "quote_valid q" "in_band (qs_validator s) q"
    and "rw_instrument_key r = q_instrument_key q" "rw_volume_cum r = q_volume_cum q" "rw_exchange_ts r = q_exchange_ts q"
    and "\<not> volume_down (qs_validator s) r"
  shows "remembers (s\<lparr>qs_validator := accept_quote q (qs_validator s)\<rparr>) (qs @ [q])"
proof -
  have "steady (qs @ [q])"
    using assms by (intro steady_snoc) (auto simp: remembers_def volume_down_def)
  moreover have "in_band (accept_quote q (qs_validator s)) y = in_band (qs_validator s) y" for y
    by (simp add: in_band_def accept_quote_def split: option.split)
  ultimately show ?thesis
    using assms(1-3) by (auto simp: remembers_def accept_quote_def latest_served_snoc update_conv)
qed

lemma qs_emit_simps [simp]:
  "qs_validator (qs_emit e s) = qs_validator s" "qs_prev_close (qs_emit e s) = qs_prev_close s"
  "qs_last_quotes (qs_emit e s) = qs_last_quotes s" "qs_by_ticker (qs_emit e s) = qs_by_ticker s"
  "qs_stale_since (qs_emit e s) = qs_stale_since s" "qs_failures (qs_emit e s) = qs_failures s"
  "qs_feed_down_since (qs_emit e s) = qs_feed_down_since s" "qs_stale_after_s (qs_emit e s) = qs_stale_after_s s"
  by (simp_all add: qs_emit_def)

definition item_ok :: "string \<times> raw_quote \<Rightarrow> bool" where
  "item_ok kr = (rw_instrument_key (snd kr) = fst kr \<and> fst kr \<noteq> [])"

lemma dset_new: "k \<notin> fst ` set d \<Longrightarrow> dset k v d = d @ [(k, v)]"
  by (induction d) auto

lemma accept_each_ok:
  assumes "distinct (map fst quotes @ map fst items)" "list_all item_ok items" "finite_closes (qs_prev_close s)"
    and "remembers s (served @ map snd quotes)" "\<forall>(k, q) \<in> set quotes. q_instrument_key q = k"
  shows "\<exists>s1 qs rej. accept_each now items s quotes rejected = (s1, Inr (qs, rej))
           \<and> remembers s1 (served @ map snd qs) \<and> distinct (map fst qs) \<and> (\<forall>(k, q) \<in> set qs. q_instrument_key q = k)
           \<and> qs_prev_close s1 = qs_prev_close s \<and> qs_last_quotes s1 = qs_last_quotes s \<and> feed_rules s1 = feed_rules s
           \<and> qs_feed_down_since s1 = qs_feed_down_since s \<and> qs_failures s1 = qs_failures s"
  using assms
proof (induction items arbitrary: s quotes rejected)
  case (Cons kr items)
  obtain k r where kr: "kr = (k, r)" by (cases kr)
  let ?item = "with_prev_close (dget (qs_prev_close s) k) r"
  show ?case
  proof (cases "check_quote (qs_validator s) ?item")
    case (Some reason)
    let ?s = "qs_emit (QuoteRejected k reason) s"
    have "remembers ?s (served @ map snd quotes)" using Cons.prems(4) by (rule remembers_cong) simp
    with Cons.IH [of quotes ?s "rejected @ [k]"] Cons.prems Some show ?thesis
      by (simp add: kr feed_rules_def Let_def)
  next
    case None
    have "rw_instrument_key ?item \<noteq> []" "rw_instrument_key ?item = k" using Cons.prems(2) by (auto simp: kr item_ok_def with_prev_close_def)
    moreover have "\<And>c. rw_prev_close ?item = Some c \<Longrightarrow> \<exists>p. c = Fin p"
      using finite_closes_dget [OF Cons.prems(3)] by (simp add: with_prev_close_def)
    ultimately obtain q where q: "to_quote now YFINANCE ?item = Inr q" "quote_valid q" "in_band (qs_validator s) q"
        "q_instrument_key q = k" "q_volume_cum q = rw_volume_cum ?item" "q_exchange_ts q = rw_exchange_ts ?item"
        "\<not> volume_down (qs_validator s) ?item"
      using checked_quote [OF None] by metis
    let ?s = "s\<lparr>qs_validator := accept_quote q (qs_validator s)\<rparr>"
    have new: "dset k q quotes = quotes @ [(k, q)]"
      using Cons.prems(1) by (intro dset_new) (auto simp: kr)
    have "remembers ?s (served @ map snd (dset k q quotes))"
      using remembers_accept [OF Cons.prems(4) q(2,3), of ?item] q \<open>rw_instrument_key ?item = k\<close> by (simp add: new)
    with Cons.IH [of "dset k q quotes" ?s rejected] Cons.prems None q show ?thesis
      by (simp add: kr new feed_rules_def accept_quote_def Let_def)
  qed
qed auto

lemma accept_each_frame:
  assumes "accept_each now items s quotes rejected = (s1, Inr (qs, rej))"
  shows "qs_stale_since s1 = qs_stale_since s" "qs_stale_after_s s1 = qs_stale_after_s s"
    "fst ` set qs \<subseteq> fst ` set quotes \<union> fst ` set items"
proof -
  have "qs_stale_since s1 = qs_stale_since s \<and> qs_stale_after_s s1 = qs_stale_after_s s
      \<and> fst ` set qs \<subseteq> fst ` set quotes \<union> fst ` set items"
    using assms
  proof (induction items arbitrary: s quotes rejected)
    case (Cons kr items)
    obtain k r where kr: "kr = (k, r)" by (cases kr)
    let ?item = "with_prev_close (dget (qs_prev_close s) k) r"
    show ?case
    proof (cases "check_quote (qs_validator s) ?item")
      case (Some reason)
      then show ?thesis using Cons.IH [of "qs_emit (QuoteRejected k reason) s" quotes "rejected @ [k]"] Cons.prems kr
        by (auto simp: Let_def)
    next
      case None
      then obtain q where q: "to_quote now YFINANCE ?item = Inr q"
        using Cons.prems kr by (auto simp: Let_def split: sum.splits)
      with None show ?thesis
        using Cons.IH [of "s\<lparr>qs_validator := accept_quote q (qs_validator s)\<rparr>" "dset k q quotes" rejected] Cons.prems kr
        by (auto simp: Let_def dom_update)
    qed
  qed simp
  then show "qs_stale_since s1 = qs_stale_since s" "qs_stale_after_s s1 = qs_stale_after_s s"
    "fst ` set qs \<subseteq> fst ` set quotes \<union> fst ` set items" by simp_all
qed

section \<open>Polls\<close>

lemma parse_minute_frame_ok:
  assumes "parse_minute_frame fr m out = Inr raw" "\<forall>(t, k) \<in> set m. k \<noteq> []" "list_all item_ok out" "distinct (map fst out)"
  shows "list_all item_ok raw \<and> distinct (map fst raw)"
  using assms
proof (induction fr m out rule: parse_minute_frame.induct)
  case (2 fr ticker key rest out)
  have ok: "list_all item_ok (dset key r out) \<and> distinct (map fst (dset key r out))"
    if r: "ticker_quote key bars = Inr (Some r)" for bars r
  proof -
    have "rw_instrument_key r = key" using r by (auto simp: ticker_quote_def Let_def split: if_splits)
    then have "item_ok (key, r)" using "2.prems"(2) by (simp add: item_ok_def)
    then have "list_all item_ok (dset key r out)" using "2.prems"(3)
      by (induction out) auto
    then show ?thesis using "2.prems"(4) by (simp add: distinct_update)
  qed
  have keys: "\<forall>(t, k) \<in> set rest. k \<noteq> []" using "2.prems"(2) by simp
  show ?case
  proof (cases "dget fr ticker")
    case None
    with "2.IH"(1) "2.prems" keys show ?thesis by simp
  next
    case (Some bars)
    show ?thesis
    proof (cases "ticker_quote key bars")
      case (Inl e)
      with Some "2.prems"(1) show ?thesis by simp
    next
      case (Inr r)
      show ?thesis
      proof (cases r)
        case None
        with Some Inr have "parse_minute_frame fr rest out = Inr raw" using "2.prems"(1) by simp
        from "2.IH"(2) [OF Some Inr None this keys "2.prems"(3,4)] show ?thesis .
      next
        case r': (Some r')
        with Some Inr have p: "parse_minute_frame fr rest (dset key r' out) = Inr raw" using "2.prems"(1) by simp
        from ok [of bars r'] Inr r' have "list_all item_ok (dset key r' out)" "distinct (map fst (dset key r' out))" by simp_all
        from "2.IH"(3) [OF Some Inr r' p keys this] show ?thesis .
      qed
    qed
  qed
qed simp

lemma latest_served_append:
  assumes "\<forall>(k, q) \<in> set qs. q_instrument_key q = k" "distinct (map fst qs)"
  shows "latest_served k (served @ map snd qs) = (case dget qs k of None \<Rightarrow> latest_served k served | Some q \<Rightarrow> Some q)"
  using assms
proof (induction qs rule: rev_induct)
  case (snoc kq qs)
  obtain k' q where kq: "kq = (k', q)" by (cases kq)
  have "latest_served k (served @ map snd (qs @ [kq])) = latest_served k ((served @ map snd qs) @ [q])" by (simp add: kq)
  also have "\<dots> = (if k' = k then Some q else latest_served k (served @ map snd qs))"
    using snoc.prems(1) unfolding latest_served_snoc by (simp add: kq)
  finally have step: "latest_served k (served @ map snd (qs @ [kq])) = (if k' = k then Some q else latest_served k (served @ map snd qs))" .
  have "dget (qs @ [kq]) k = (if k' = k then Some q else dget qs k)"
    using snoc.prems(2) map_of_eq_None_iff [of qs k] by (auto simp: kq map_add_def split: option.split)
  with step snoc.IH snoc.prems show ?case by simp
qed simp

lemma dget_updates:
  assumes "distinct (map fst qs)"
  shows "dget (foldl (\<lambda>d (k, q). dset k q d) d qs) k = (case dget qs k of None \<Rightarrow> dget d k | Some q \<Rightarrow> Some q)"
  using assms
proof (induction qs arbitrary: d)
  case (Cons kq qs)
  have "k \<notin> fst ` set qs \<Longrightarrow> dget qs k = None" by (simp add: map_of_eq_None_iff)
  with Cons show ?case by (cases kq) (auto simp: update_conv split: option.splits)
qed simp

definition same_feed :: "quote_source \<Rightarrow> quote_source \<Rightarrow> bool" where
  "same_feed s s1 =
     (qs_validator s1 = qs_validator s \<and> qs_prev_close s1 = qs_prev_close s \<and> qs_last_quotes s1 = qs_last_quotes s
      \<and> qs_by_ticker s1 = qs_by_ticker s \<and> qs_failures s1 = qs_failures s \<and> qs_feed_down_since s1 = qs_feed_down_since s
      \<and> qs_stale_after_s s1 = qs_stale_after_s s)"

lemma report_stale_same: "report_stale now quotes newly s = (s1, r) \<Longrightarrow> same_feed s s1"
  by (auto simp: report_stale_def same_feed_def Let_def split: if_splits)

lemma report_recovered_same: "report_recovered now recovered s = (s1, r) \<Longrightarrow> same_feed s s1"
  by (auto simp: report_recovered_def same_feed_def Let_def split: if_splits)

lemma update_staleness_same:
  assumes "update_staleness now quotes missing s = (s1, r)"
  shows "same_feed s s1"
  using assms
  by (auto simp: update_staleness_def Let_def same_feed_def split: prod.splits sum.splits
      dest!: report_stale_same report_recovered_same)

lemmas update_staleness_frame = update_staleness_same [unfolded same_feed_def]

lemma total_seconds_nonneg: "0 \<le> us \<Longrightarrow> 0 \<le> total_seconds us"
  by (simp add: total_seconds_def fdiv_nonneg)

definition marks_before :: "ts \<Rightarrow> quote_source \<Rightarrow> bool" where
  "marks_before t s = ((\<forall>u. qs_feed_down_since s = Some u \<longrightarrow> u \<le> t) \<and> (\<forall>u \<in> snd ` set (qs_stale_since s). u \<le> t))"

text \<open>A clock that does not go back makes no recovery event fail.\<close>

lemma mark_feed_up_ok:
  assumes "marks_before t s" "t \<le> now"
  shows "\<exists>s1. mark_feed_up now s = (s1, Inr ()) \<and> marks_before now s1 \<and> qs_validator s1 = qs_validator s
    \<and> qs_prev_close s1 = qs_prev_close s \<and> qs_last_quotes s1 = qs_last_quotes s \<and> qs_by_ticker s1 = qs_by_ticker s
    \<and> qs_failures s1 = 0 \<and> qs_feed_down_since s1 = None \<and> qs_stale_after_s s1 = qs_stale_after_s s"
proof (cases "qs_feed_down_since s")
  case None
  then show ?thesis using assms by (auto simp: mark_feed_up_def marks_before_def)
next
  case (Some u)
  then have "\<not> total_seconds (now - u) < 0"
    using assms total_seconds_nonneg [of "now - u"] by (simp add: marks_before_def not_less)
  then show ?thesis using Some assms by (auto simp: mark_feed_up_def marks_before_def Let_def)
qed

lemma snd_fold_dset: "snd ` set (foldl (\<lambda>d k. dset k v d) d ks) \<subseteq> insert v (snd ` set d)"
proof (induction ks arbitrary: d)
  case (Cons k ks)
  have "snd ` set (dset k v d) \<subseteq> insert v (snd ` set d)" by (induction d) auto
  with Cons [of "dset k v d"] show ?case by auto
qed auto

lemma snd_fold_dpop: "snd ` set (foldl (\<lambda>d k. dpop k d) d ks) \<subseteq> snd ` set d"
proof (induction ks arbitrary: d)
  case (Cons k ks)
  show ?case using Cons [of "dpop k d"] by (auto simp: AList.delete_eq)
qed simp

lemma set_fold_dset: "fst ` set (foldl (\<lambda>d k. dset k v d) d ks) = fst ` set d \<union> set ks"
proof (induction ks arbitrary: d)
  case (Cons k ks)
  show ?case using Cons [of "dset k v d"] by (simp add: dom_update)
qed simp

lemma longest_stale_nonneg:
  assumes "keys \<noteq> []" "set keys \<subseteq> fst ` set since" "\<forall>u \<in> snd ` set since. u \<le> now"
  shows "0 \<le> longest_stale now since keys"
proof -
  obtain k where k: "k \<in> set keys" using assms(1) by (cases keys) auto
  then obtain u where u: "dget since k = Some u"
    using assms(2) by (metis map_of_eq_None_iff not_Some_eq subsetD)
  then have "(k, u) \<in> set since" by (rule map_of_SomeD)
  then have "u \<le> now" using assms(3) by force
  then have "0 \<le> total_seconds (now - the (dget since k))" using u by (simp add: total_seconds_nonneg)
  also have "\<dots> \<le> longest_stale now since keys" unfolding longest_stale_def using k by (intro Max_ge) auto
  finally show ?thesis .
qed

lemma oldest_age_nonneg:
  assumes "keys \<noteq> []" "\<forall>k \<in> set keys. 0 \<le> age_seconds (the (dget quotes k)) now"
  shows "0 \<le> oldest_age now quotes keys"
proof -
  obtain k where k: "k \<in> set keys" using assms(1) by (cases keys) auto
  then have "0 \<le> age_seconds (the (dget quotes k)) now" using assms(2) by simp
  also have "\<dots> \<le> oldest_age now quotes keys" unfolding oldest_age_def using k by (intro Max_ge) auto
  finally show ?thesis .
qed

lemma report_stale_marks:
  assumes "report_stale now quotes newly s = (s1, Inr ())" "marks_before t s" "t \<le> now"
  shows "marks_before now s1" "qs_stale_since s1 = foldl (\<lambda>d k. dset k now d) (qs_stale_since s) newly"
proof -
  show s: "qs_stale_since s1 = foldl (\<lambda>d k. dset k now d) (qs_stale_since s) newly"
    using assms(1) by (auto simp: report_stale_def Let_def split: if_splits)
  have "u \<le> now" if "u \<in> snd ` set (qs_stale_since s1)" for u
    using that snd_fold_dset [of now "qs_stale_since s" newly] assms(2,3) unfolding s marks_before_def by fastforce
  moreover have "qs_feed_down_since s1 = qs_feed_down_since s"
    using report_stale_same [OF assms(1)] by (simp add: same_feed_def)
  ultimately show "marks_before now s1" using assms(2,3) by (fastforce simp: marks_before_def)
qed

lemma report_stale_ok:
  assumes "\<forall>k \<in> set newly. \<forall>q. dget quotes k = Some q \<longrightarrow> 0 \<le> age_seconds q now"
  shows "\<exists>s1. report_stale now quotes newly s = (s1, Inr ())"
proof -
  let ?old = "filter (\<lambda>k. dget quotes k \<noteq> None) newly"
  have "?old \<noteq> [] \<Longrightarrow> 0 \<le> oldest_age now quotes ?old"
    by (rule oldest_age_nonneg) (use assms in auto)
  then show ?thesis by (auto simp: report_stale_def Let_def)
qed

lemma report_recovered_ok:
  assumes "marks_before now s" "set recovered \<subseteq> fst ` set (qs_stale_since s)"
  shows "\<exists>s1. report_recovered now recovered s = (s1, Inr ()) \<and> marks_before now s1"
proof (cases "recovered = []")
  case True
  then show ?thesis using assms(1) by (simp add: report_recovered_def)
next
  case False
  have "0 \<le> longest_stale now (qs_stale_since s) recovered"
    by (rule longest_stale_nonneg [OF False assms(2)]) (use assms(1) in \<open>auto simp: marks_before_def\<close>)
  moreover have "\<forall>u \<in> snd ` set (foldl (\<lambda>d k. dpop k d) (qs_stale_since s) recovered). u \<le> now"
    using snd_fold_dpop [of "qs_stale_since s" recovered] assms(1) unfolding marks_before_def by blast
  ultimately show ?thesis
    using False assms(1) by (simp add: report_recovered_def marks_before_def Let_def)
qed

lemma update_staleness_ok:
  assumes "marks_before t s" "t \<le> now" "0 \<le> qs_stale_after_s s" "distinct (map fst quotes)"
    and "\<forall>k \<in> set missing. dget quotes k = None"
  shows "\<exists>s1. update_staleness now quotes missing s = (s1, Inr ()) \<and> marks_before now s1"
proof -
  define stale_now where "stale_now = stale_keys_now now quotes missing s"
  define newly where "newly = sort (remdups (filter (\<lambda>k. k \<notin> fst ` set (qs_stale_since s)) stale_now))"
  define recovered where "recovered = sort (remdups (filter (\<lambda>k. k \<notin> set stale_now) (map fst (qs_stale_since s))))"
  have "0 \<le> age_seconds q now" if "k \<in> set newly" "dget quotes k = Some q" for k q
  proof -
    have "k \<in> set stale_now" using that(1) by (auto simp: newly_def)
    with that(2) obtain q' where "(k, q') \<in> set quotes" "qs_stale_after_s s < age_seconds q' now"
      using assms(5) by (auto simp: stale_now_def stale_keys_now_def split: if_splits)
    then show ?thesis using assms(3,4) that(2) by (simp add: map_of_is_SomeI)
  qed
  then obtain s1 where s1: "report_stale now quotes newly s = (s1, Inr ())"
    using report_stale_ok [of newly quotes now s] by blast
  note m = report_stale_marks [OF s1 assms(1,2)]
  have "set recovered \<subseteq> fst ` set (qs_stale_since s1)"
    unfolding m(2) set_fold_dset by (auto simp: recovered_def)
  with report_recovered_ok [OF m(1)] s1 show ?thesis
    by (simp add: update_staleness_def Let_def flip: stale_now_def newly_def recovered_def)
qed

definition feed_inv :: "ts \<Rightarrow> quote_source \<times> quote list \<Rightarrow> bool" where
  "feed_inv t x =
     (case x of (s, served) \<Rightarrow>
        remembers s served \<and> finite_closes (qs_prev_close s) \<and> (\<forall>(t, k) \<in> set (qs_by_ticker s). k \<noteq> [])
        \<and> (\<forall>k. dget (qs_last_quotes s) k = latest_served k served)
        \<and> (qs_feed_down_since s = None) = (qs_failures s = 0) \<and> 0 \<le> qs_stale_after_s s \<and> marks_before t s)"

lemma poll_failed_ok:
  assumes "feed_inv t (s, served)" "t \<le> now"
  shows "\<exists>s1. poll_failed now s = (s1, Inr \<lparr>pr_ok = False, pr_quotes = [], pr_missing = [], pr_rejected = []\<rparr>)
           \<and> feed_inv now (s1, served) \<and> feed_rules s1 = feed_rules s"
  using assms by (auto simp: poll_failed_def Let_def feed_inv_def remembers_def marks_before_def feed_rules_def qs_emit_def)

lemma accept_raw_ok:
  assumes inv: "feed_inv t (s, served)" and raw: "list_all item_ok raw" "distinct (map fst raw)" and t: "t \<le> now"
  shows "\<exists>s1 r. accept_raw now raw s = (s1, Inr r) \<and> feed_inv now (s1, served @ map snd (pr_quotes r)) \<and> feed_rules s1 = feed_rules s"
proof -
  have marks: "marks_before t s" using inv by (simp add: feed_inv_def)
  obtain u where u: "mark_feed_up now s = (u, Inr ())" "marks_before now u" "qs_validator u = qs_validator s"
      "qs_prev_close u = qs_prev_close s" "qs_last_quotes u = qs_last_quotes s" "qs_by_ticker u = qs_by_ticker s"
      "qs_failures u = 0" "qs_feed_down_since u = None" "qs_stale_after_s u = qs_stale_after_s s"
    using mark_feed_up_ok [OF marks t] by blast
  have r: "remembers u (served @ map snd ([] :: (string, quote) dict))" "finite_closes (qs_prev_close u)"
    using inv remembers_cong [of s served u] by (simp_all add: feed_inv_def u(3,4))
  have "set (sort_key fst raw) = set raw" "distinct (map fst (sort_key fst raw))"
    using raw(2) by (simp_all add: distinct_map)
  with raw(1) have srt: "distinct (map fst ([] :: (string, quote) dict) @ map fst (sort_key fst raw))" "list_all item_ok (sort_key fst raw)"
    by (simp_all add: list_all_iff)
  from accept_each_ok [OF srt r(2,1), of now "[]"] obtain s1 qs rej where e:
      "accept_each now (sort_key fst raw) u [] [] = (s1, Inr (qs, rej))" "remembers s1 (served @ map snd qs)"
      "distinct (map fst qs)" "\<forall>(k, q) \<in> set qs. q_instrument_key q = k" "qs_prev_close s1 = qs_prev_close s"
      "qs_last_quotes s1 = qs_last_quotes s" "feed_rules s1 = feed_rules u" "qs_feed_down_since s1 = None" "qs_failures s1 = 0"
    using u by (auto simp: feed_rules_def)
  note g = accept_each_frame [OF e(1)]
  define missing where "missing = sort (remdups (filter (\<lambda>k. dget raw k = None) (map snd (qs_by_ticker s1))))"
  have "marks_before now s1" using u(2) e(8) g(1) by (simp add: marks_before_def)
  moreover have "\<forall>k \<in> set missing. dget qs k = None"
  proof
    fix k assume "k \<in> set missing"
    then have "k \<notin> fst ` set raw" by (simp add: missing_def map_of_eq_None_iff)
    then show "dget qs k = None" using g(3) by (auto simp: map_of_eq_None_iff)
  qed
  ultimately obtain s2 where s2: "update_staleness now qs missing s1 = (s2, Inr ())" "marks_before now s2"
    using update_staleness_ok [of now s1 now qs missing] e(3) g(2) u(9) inv by (auto simp: feed_inv_def)
  note f = update_staleness_frame [OF s2(1)]
  let ?t = "s2\<lparr>qs_last_quotes := foldl (\<lambda>d (k, q). dset k q d) (qs_last_quotes s2) qs\<rparr>"
  have "remembers ?t (served @ map snd qs)" using e(2) by (rule remembers_cong) (simp add: f)
  moreover have "dget (qs_last_quotes ?t) k = latest_served k (served @ map snd qs)" for k
    using inv e(3,4,6) by (simp add: dget_updates latest_served_append feed_inv_def f split: option.splits)
  moreover have "marks_before now ?t" using s2(2) by (simp add: marks_before_def)
  ultimately have "feed_inv now (?t, served @ map snd qs)"
    using inv e(5-9) g(2) s2(2) u(3,6,9) by (simp add: feed_inv_def feed_rules_def f)
  moreover have "feed_rules ?t = feed_rules s" using e(7) u(3,6) by (simp add: feed_rules_def f)
  ultimately show ?thesis using u(1) e(1) s2(1) by (simp add: accept_raw_def Let_def missing_def)
qed

lemma poll_source_ok:
  assumes "feed_inv t (s, served)" "t \<le> now"
  shows "\<exists>s1 r. poll_source finished dl now s = (s1, Inr r) \<and> feed_inv now (s1, served @ map snd (pr_quotes r)) \<and> feed_rules s1 = feed_rules s"
proof -
  have i: "feed_inv t (s\<lparr>qs_inflight := b\<rparr>, served)" "feed_rules (s\<lparr>qs_inflight := b\<rparr>) = feed_rules s" for b
    using assms by (auto simp: feed_rules_def feed_inv_def remembers_def marks_before_def)
  have f: "\<exists>s1 r. poll_failed now (s\<lparr>qs_inflight := b\<rparr>) = (s1, Inr r) \<and> feed_inv now (s1, served @ map snd (pr_quotes r)) \<and> feed_rules s1 = feed_rules s" for b
    using poll_failed_ok [OF i(1) [of b] assms(2)] i(2) [of b] by auto
  have f0: "\<exists>s1 r. poll_failed now s = (s1, Inr r) \<and> feed_inv now (s1, served @ map snd (pr_quotes r)) \<and> feed_rules s1 = feed_rules s"
    using poll_failed_ok [OF assms] by auto
  have a: "\<exists>s1 r. accept_raw now raw (s\<lparr>qs_inflight := False\<rparr>) = (s1, Inr r) \<and> feed_inv now (s1, served @ map snd (pr_quotes r)) \<and> feed_rules s1 = feed_rules s"
    if "parse_minute_frame fr (qs_by_ticker s) [] = Inr raw" for fr raw
    using parse_minute_frame_ok [OF that] accept_raw_ok [OF i(1) [of False] _ _ assms(2), of raw] i(2) [of False] assms(1)
    by (auto simp: feed_inv_def)
  show ?thesis using f f0 a by (auto simp: poll_source_def Let_def split: download.split sum.split)
qed

text \<open>After a good poll the symbols marked stale are exactly those seen stale in it.\<close>

lemma set_fold_dpop: "fst ` set (foldl (\<lambda>d k. dpop k d) d ks) = fst ` set d - set ks"
proof (induction ks arbitrary: d)
  case (Cons k ks)
  show ?case using Cons [of "dpop k d"] by (auto simp: AList.delete_eq)
qed simp

lemma stale_set_exact:
  assumes "update_staleness now quotes missing s = (s1, Inr ())"
  shows "fst ` set (qs_stale_since s1) = set (stale_keys_now now quotes missing s)"
proof -
  let ?n = "stale_keys_now now quotes missing s" and ?o = "qs_stale_since s"
  let ?newly = "sort (remdups (filter (\<lambda>k. k \<notin> fst ` set ?o) ?n))"
  let ?rec = "sort (remdups (filter (\<lambda>k. k \<notin> set ?n) (map fst ?o)))"
  obtain s2 where s2: "report_stale now quotes ?newly s = (s2, Inr ())" "report_recovered now ?rec s2 = (s1, Inr ())"
    using assms unfolding update_staleness_def Let_def by (auto split: prod.splits sum.splits)
  have "qs_stale_since s2 = foldl (\<lambda>d k. dset k now d) ?o ?newly"
    using s2(1) by (auto simp: report_stale_def Let_def split: if_splits)
  moreover have "qs_stale_since s1 = foldl (\<lambda>d k. dpop k d) (qs_stale_since s2) ?rec"
    using s2(2) unfolding report_recovered_def Let_def by (auto split: if_splits)
  ultimately have "qs_stale_since s1 = foldl (\<lambda>d k. dpop k d) (foldl (\<lambda>d k. dset k now d) ?o ?newly) ?rec" by simp
  moreover have "fst ` set ?o \<union> set ?newly - set ?rec = set ?n" by auto
  ultimately show ?thesis by (simp only: set_fold_dset set_fold_dpop)
qed

section \<open>Served quotes are sound\<close>

lemma keys_by_ticker_keys:
  assumes "keys_by_ticker is d = Inr m" "\<forall>i \<in> set is. ins_key i \<noteq> []" "\<forall>(t, k) \<in> set d. k \<noteq> []"
  shows "\<forall>(t, k) \<in> set m. k \<noteq> []"
  using assms
proof (induction "is" d rule: keys_by_ticker.induct)
  case (2 i rest d)
  then obtain t where t: "yahoo_ticker (ins_symbol i) = Inr t" by (auto split: sum.splits)
  have "\<forall>(t, k) \<in> set (dset t (ins_key i) d). k \<noteq> []"
    using "2.prems"(2,3) by (induction d) auto
  with 2 t show ?case by simp
qed simp

definition poll_times :: "feed_op list \<Rightarrow> ts list" where
  "poll_times ops = List.map_filter (\<lambda>op. case op of PollFeed f d t \<Rightarrow> Some t | _ \<Rightarrow> None) ops"

lemma feed_run_ok:
  assumes "feed_inv t x" "\<forall>c. SetPrevCloses c \<in> set ops \<longrightarrow> finite_closes c" "sorted (t # poll_times ops)"
  shows "feed_inv (last (t # poll_times ops)) (feed_run ops x) \<and> feed_rules (fst (feed_run ops x)) = feed_rules (fst x)"
  using assms
proof (induction ops arbitrary: x t)
  case (Cons op ops)
  obtain s served where x: "x = (s, served)" by (cases x)
  obtain t' where t': "feed_inv t' (feed_do op x)" "feed_rules (fst (feed_do op x)) = feed_rules s" "sorted (t' # poll_times ops)"
    "last (t # poll_times (op # ops)) = last (t' # poll_times ops)"
  proof (cases op)
    case (SetPrevCloses c)
    with Cons.prems have "finite_closes c" by simp
    with Cons.prems(1) SetPrevCloses have "feed_inv t (feed_do op x)" "feed_rules (fst (feed_do op x)) = feed_rules s"
      by (auto simp: x feed_inv_def set_prev_closes_def feed_rules_def remembers_def marks_before_def)
    with Cons.prems(3) SetPrevCloses that show thesis by (simp add: poll_times_def List.map_filter_def)
  next
    case (PollFeed f d n)
    have times: "poll_times (op # ops) = n # poll_times ops" by (simp add: PollFeed poll_times_def List.map_filter_def)
    from poll_source_ok [of t s served n f d] Cons.prems(1,3) x obtain s1 r where
      "poll_source f d n s = (s1, Inr r)" "feed_inv n (s1, served @ map snd (pr_quotes r))" "feed_rules s1 = feed_rules s"
      by (auto simp: times)
    with PollFeed x Cons.prems(3) times that [of n] show thesis by simp
  qed
  with Cons.IH [OF t'(1) _ t'(3)] Cons.prems(2) x show ?case by (simp add: feed_run_def)
qed (simp add: feed_run_def poll_times_def List.map_filter_def)

text \<open>C37: Over any polls of a new quote source at instants that do not go back, with downloads that succeed, fail, time
  out or overlap, previous closes that are finite and a staleness limit that is not negative: every quote it serves is
  a valid quote within its instrument's band around the previous close, of two quotes of an instrument in a session
  served one after the other the later has no less volume, the latest quotes are the ones served last, and no further
  poll raises unless the clock went back.\<close>

theorem served_quotes_are_sound:
  assumes "new_quote_source is (new_validator band tolerance) is_open interval backoff stale_after = Inr s0"
    and "\<forall>i \<in> set is. ins_key i \<noteq> []" "\<forall>c. SetPrevCloses c \<in> set ops \<longrightarrow> finite_closes c" "0 \<le> stale_after"
    and "feed_run ops (s0, []) = (s, served)" "sorted (poll_times ops @ [now])"
  shows "(\<forall>q \<in> set served. quote_valid q \<and> in_band (new_validator band tolerance) q) \<and> steady served
         \<and> (\<forall>k. dget (qs_last_quotes s) k = latest_served k served)
         \<and> (\<exists>s1 r. poll_source finished dl now s = (s1, Inr r))"
proof -
  from assms(1) obtain m where m: "keys_by_ticker is [] = Inr m" "qs_by_ticker s0 = m" "qs_validator s0 = new_validator band tolerance"
      "qs_prev_close s0 = []" "qs_last_quotes s0 = []" "qs_feed_down_since s0 = None" "qs_failures s0 = 0"
      "qs_stale_since s0 = []" "qs_stale_after_s s0 = stale_after"
    by (auto simp: new_quote_source_def split: if_splits sum.splits)
  have start: "feed_inv t (s0, [])" for t
    using m keys_by_ticker_keys [OF m(1) assms(2)] assms(4)
    by (auto simp: feed_inv_def remembers_def finite_closes_def latest_served_def steady_def new_validator_def marks_before_def)
  define t where "t = hd (poll_times ops @ [now])"
  have t: "sorted (t # poll_times ops)" "last (t # poll_times ops) \<le> now"
    using assms(6) by (cases "poll_times ops"; auto simp: t_def sorted_append last_ConsL)+
  from feed_run_ok [OF start assms(3) t(1)] have inv: "feed_inv (last (t # poll_times ops)) (s, served)" and r: "feed_rules s = feed_rules s0"
    by (simp_all add: assms(5))
  have "in_band (new_validator band tolerance) q = in_band (qs_validator s) q" for q
    using in_band_rules [OF r] m(3) by simp
  with inv poll_source_ok [OF inv t(2), of finished dl] show ?thesis by (auto simp: feed_inv_def remembers_def)
qed

text \<open>When the clock has gone back since the feed went down, the poll that finds it up again raises.\<close>

lemma clock_back_fails_the_poll:
  assumes "qs_feed_down_since s = Some t" "total_seconds (now - t) < 0"
  shows "accept_raw now raw s = (s\<lparr>qs_failures := 0, qs_feed_down_since := None\<rparr>, Inl ValueError)"
  using assms by (simp add: accept_raw_def mark_feed_up_def Let_def)

text \<open>A minute bar at the previous close of the share, then a time-out.\<close>

definition sample_feed :: "feed_op list" where
  "sample_feed =
     [SetPrevCloses [(''NSE:EQ:INFY'', Fin 100)],
      PollFeed False (Downloaded [(''INFY.NS'', [\<lparr>mb_ts = 60000000, mb_aware = True, mb_close = Fin 100, mb_volume = NaN\<rparr>])]) 120000000,
      PollFeed False TimedOut 180000000]"

definition sample_source :: "quote_source result" where
  "sample_source = new_quote_source [nse_equity ''INFY''] (new_validator None 2) (\<lambda>t. False) 60 900 1200"

lemma sample_feed_run:
  "\<exists>s0 s q. sample_source = Inr s0 \<and> feed_run sample_feed (s0, []) = (s, [q]) \<and> q_ltp q = 100 \<and> qs_failures s = 1"
proof -
  have "fdiv 100 100 = 1" "fl64 22 = 22" by code_simp+
  then show ?thesis
    by (simp add: sample_source_def sample_feed_def new_quote_source_def yahoo_ticker_def strip_def is_ws_def nse_equity_def
      feed_run_def set_prev_closes_def poll_source_def ticker_quote_def accept_raw_def mark_feed_up_def with_prev_close_def
      check_quote_def new_validator_def out_of_band_def volume_down_def to_quote_def kept_prev_close_def quote_valid_def
      accept_quote_def update_staleness_def report_stale_def report_recovered_def stale_keys_now_def poll_failed_def volume_sum_def to_flt_def move_pct_def fsub_def
      fmul_def fadd_def default_band_pct_def py_int_def Let_def)
qed

theorem served_quotes_are_sound_witness:
  "\<exists>s0 s q. sample_source = Inr s0 \<and> feed_run sample_feed (s0, []) = (s, [q]) \<and> quote_valid q
     \<and> dget (qs_last_quotes s) ''NSE:EQ:INFY'' = latest_served ''NSE:EQ:INFY'' [q]"
proof -
  obtain s0 s q where run: "sample_source = Inr s0" "feed_run sample_feed (s0, []) = (s, [q])"
    using sample_feed_run by blast
  have "\<forall>c. SetPrevCloses c \<in> set sample_feed \<longrightarrow> finite_closes c"
    by (simp add: sample_feed_def finite_closes_def)
  moreover have "sorted (poll_times sample_feed @ [180000000])"
    by (simp add: sample_feed_def poll_times_def List.map_filter_def)
  ultimately show ?thesis
    using served_quotes_are_sound [OF run(1) [unfolded sample_source_def] _ _ _ run(2), of 180000000] run by (auto simp: nse_equity_def)
qed

end
