(* ===== verification/Daily_History.thy ===== *)
theory Daily_History
  imports Domain_Types Cascade "HOL-Library.List_Lexorder" "HOL-Library.Char_ord"
begin

text \<open>
  The settled daily bars of a session (\<^verbatim>\<open>src/marketdata/history.py\<close>): reducing the downloaded frame to one series per
  instrument, the back-adjustment for dividends, the tape of the bars a day was decided on and the reconstruction of
  the history from that tape.

  A downloaded frame gives, per ticker, the rows in date order with \<open>NaN\<close> for missing cells; the columns of dividends
  and splits may be missing. A data frame is the list of its rows. Reasons are constructors instead of texts.
\<close>

section \<open>Series\<close>

record day_row =
  dr_date :: date
  dr_open :: flt
  dr_high :: flt
  dr_low :: flt
  dr_close :: flt
  dr_volume :: int
  dr_dividend :: flt
  dr_split :: flt
  dr_factor :: rat

record price_series =
  se_key :: string
  se_rows :: "day_row list"

record day_bar =
  br_instrument_key :: string
  br_session_date :: date
  br_open :: rat
  br_high :: rat
  br_low :: rat
  br_close :: rat
  br_volume :: int
  br_is_settled :: bool
  br_adjusted :: bool

definition bar_valid :: "day_bar \<Rightarrow> bool" where
  "bar_valid b =
     (br_instrument_key b \<noteq> [] \<and> 0 < br_open b \<and> 0 < br_high b \<and> 0 < br_low b \<and> 0 < br_close b \<and> 0 \<le> br_volume b
      \<and> max (max (br_open b) (br_close b)) (br_low b) \<le> br_high b \<and> br_low b \<le> min (br_open b) (br_close b))"

definition last_date :: "price_series \<Rightarrow> date" where
  "last_date s = dr_date (last (se_rows s))"

definition last_close :: "price_series \<Rightarrow> flt" where
  "last_close s = dr_close (last (se_rows s))"

definition adjusted_row :: "day_row \<Rightarrow> day_row" where
  "adjusted_row r =
     r\<lparr>dr_open := flt_scale (dr_factor r) (dr_open r), dr_high := flt_scale (dr_factor r) (dr_high r),
       dr_low := flt_scale (dr_factor r) (dr_low r), dr_close := flt_scale (dr_factor r) (dr_close r)\<rparr>"

definition raw_rows :: "price_series \<Rightarrow> day_row list" where
  "raw_rows s = se_rows s"

definition adjusted_rows :: "price_series \<Rightarrow> day_row list" where
  "adjusted_rows s = map adjusted_row (se_rows s)"

text \<open>A bar refuses prices that are not finite and positive and prices out of order.\<close>

definition bar_of_row :: "string \<Rightarrow> bool \<Rightarrow> day_row \<Rightarrow> day_bar result" where
  "bar_of_row key adj r =
     (case (dr_open r, dr_high r, dr_low r, dr_close r) of
        (Fin a, Fin h, Fin l, Fin c) \<Rightarrow>
          (let b = \<lparr>br_instrument_key = key, br_session_date = dr_date r, br_open = a, br_high = h, br_low = l, br_close = c,
                    br_volume = dr_volume r, br_is_settled = True, br_adjusted = adj\<rparr>
           in if bar_valid b then Inr b else Inl ValueError)
      | _ \<Rightarrow> Inl ValueError)"

fun all_bars :: "string \<Rightarrow> bool \<Rightarrow> day_row list \<Rightarrow> day_bar list result" where
  "all_bars key adj [] = Inr []"
| "all_bars key adj (r # rs) =
     (case bar_of_row key adj r of
        Inl e \<Rightarrow> Inl e
      | Inr b \<Rightarrow> (case all_bars key adj rs of Inl e \<Rightarrow> Inl e | Inr bs \<Rightarrow> Inr (b # bs)))"

definition series_bars :: "bool \<Rightarrow> price_series \<Rightarrow> day_bar list result" where
  "series_bars adj s = all_bars (se_key s) adj (if adj then adjusted_rows s else raw_rows s)"

section \<open>Dividends\<close>

fun flt_pos :: "flt \<Rightarrow> bool" where
  "flt_pos (Fin x) = (0 < x)"
| "flt_pos (Inf neg) = (\<not> neg)"
| "flt_pos NaN = False"

fun scaled_down :: "rat \<Rightarrow> flt \<Rightarrow> flt \<Rightarrow> rat result" where
  "scaled_down running (Fin d) (Fin prev) =
     (if d < prev then Inr (fmul running (fsub 1 (fdiv d prev))) else Inl ValueError)"
| "scaled_down running d prev = Inl ValueError"

text \<open>The loop from the newest bar down to the second; the first bar gets what is left.\<close>

fun factors_down :: "flt list \<Rightarrow> flt list \<Rightarrow> nat \<Rightarrow> rat \<Rightarrow> rat list \<Rightarrow> rat list result" where
  "factors_down cs ds 0 running fs = Inr (running # fs)"
| "factors_down cs ds (Suc i) running fs =
     (if flt_pos (ds ! Suc i)
      then (case scaled_down running (ds ! Suc i) (cs ! i) of
              Inl e \<Rightarrow> Inl e
            | Inr running' \<Rightarrow> factors_down cs ds i running' (running # fs))
      else factors_down cs ds i running (running # fs))"

definition dividend_factors :: "flt list \<Rightarrow> flt list \<Rightarrow> rat list result" where
  "dividend_factors cs ds =
     (if length cs \<noteq> length ds then Inl ValueError
      else if cs = [] then Inr []
      else factors_down cs ds (length cs - 1) 1 [])"

section \<open>The downloaded frame\<close>

record frame_row =
  fr_date :: date
  fr_open :: flt
  fr_high :: flt
  fr_low :: flt
  fr_close :: flt
  fr_volume :: flt
  fr_dividends :: "flt option"
  fr_splits :: "flt option"

datatype no_history = NoData | TooFewBars nat int | BadDividends | DownloadFailed | NotOnTape

record history_result =
  hr_series :: "(string, price_series) dict"
  hr_failed :: "(string, no_history) dict"
  hr_repaired :: "(string, nat) dict"
  hr_lagging :: "(string, date) dict"

definition no_nan :: "flt \<Rightarrow> flt \<Rightarrow> flt" where
  "no_nan d x = (if x = NaN then d else x)"

definition flt_max4 :: "flt \<Rightarrow> flt \<Rightarrow> flt \<Rightarrow> flt \<Rightarrow> flt" where
  "flt_max4 a b c d = foldl (\<lambda>m y. if flt_less m y then y else m) a [b, c, d]"

definition flt_min4 :: "flt \<Rightarrow> flt \<Rightarrow> flt \<Rightarrow> flt \<Rightarrow> flt" where
  "flt_min4 a b c d = foldl (\<lambda>m y. if flt_less y m then y else m) a [b, c, d]"

definition settled_rows :: "date \<Rightarrow> frame_row list \<Rightarrow> frame_row list" where
  "settled_rows before rows = filter (\<lambda>r. fr_close r \<noteq> NaN \<and> fr_date r < before) rows"

text \<open>Filling the gaps of a row; a volume that is infinite cannot be converted.\<close>

definition filled_row :: "frame_row \<Rightarrow> day_row result" where
  "filled_row r =
     (case no_nan (Fin 0) (fr_volume r) of
        Fin v \<Rightarrow>
          Inr \<lparr>dr_date = fr_date r, dr_open = no_nan (fr_close r) (fr_open r), dr_high = no_nan (fr_close r) (fr_high r),
               dr_low = no_nan (fr_close r) (fr_low r), dr_close = fr_close r, dr_volume = py_int v,
               dr_dividend = no_nan (Fin 0) (case fr_dividends r of None \<Rightarrow> Fin 0 | Some d \<Rightarrow> d),
               dr_split = no_nan (Fin 0) (case fr_splits r of None \<Rightarrow> Fin 0 | Some s \<Rightarrow> s), dr_factor = 1\<rparr>
      | _ \<Rightarrow> Inl ValueError)"

fun filled_rows :: "frame_row list \<Rightarrow> day_row list result" where
  "filled_rows [] = Inr []"
| "filled_rows (r # rs) =
     (case filled_row r of
        Inl e \<Rightarrow> Inl e
      | Inr d \<Rightarrow> (case filled_rows rs of Inl e \<Rightarrow> Inl e | Inr ds \<Rightarrow> Inr (d # ds)))"

definition row_high :: "day_row \<Rightarrow> flt" where
  "row_high r = flt_max4 (dr_open r) (dr_high r) (dr_low r) (dr_close r)"

definition row_low :: "day_row \<Rightarrow> flt" where
  "row_low r = flt_min4 (dr_open r) (dr_high r) (dr_low r) (dr_close r)"

definition out_of_order :: "day_row \<Rightarrow> bool" where
  "out_of_order r = (dr_high r \<noteq> row_high r \<or> dr_low r \<noteq> row_low r)"

definition reordered :: "day_row \<Rightarrow> day_row" where
  "reordered r = r\<lparr>dr_high := row_high r, dr_low := row_low r\<rparr>"

definition with_factors :: "day_row list \<Rightarrow> rat list \<Rightarrow> day_row list" where
  "with_factors rows fs = map2 (\<lambda>r f. r\<lparr>dr_factor := f\<rparr>) rows fs"

definition lagging_of :: "date option \<Rightarrow> (string, price_series) dict \<Rightarrow> (string, date) dict" where
  "lagging_of expected series =
     (case expected of
        None \<Rightarrow> []
      | Some d \<Rightarrow> map (\<lambda>(k, s). (k, last_date s)) (filter (\<lambda>(k, s). last_date s < d) series))"

fun parse_tickers ::
  "(string, frame_row list) dict \<Rightarrow> date \<Rightarrow> int \<Rightarrow> (string, string) dict \<Rightarrow> history_result \<Rightarrow> history_result result" where
  "parse_tickers frame before min_bars [] h = Inr h"
| "parse_tickers frame before min_bars ((key, ticker) # rest) h =
     (case dget frame ticker of
        None \<Rightarrow> parse_tickers frame before min_bars rest (h\<lparr>hr_failed := dset key NoData (hr_failed h)\<rparr>)
      | Some rows \<Rightarrow>
          (let sub = settled_rows before rows
           in if int (length sub) < min_bars
              then parse_tickers frame before min_bars rest (h\<lparr>hr_failed := dset key (TooFewBars (length sub) min_bars) (hr_failed h)\<rparr>)
              else case filled_rows sub of
                     Inl e \<Rightarrow> Inl e
                   | Inr days \<Rightarrow>
                       (let bad = length (filter out_of_order days);
                            h1 = (if bad = 0 then h else h\<lparr>hr_repaired := dset key bad (hr_repaired h)\<rparr>);
                            fixed = (if bad = 0 then days else map reordered days)
                        in case dividend_factors (map dr_close fixed) (map dr_dividend fixed) of
                             Inl e \<Rightarrow> parse_tickers frame before min_bars rest (h1\<lparr>hr_failed := dset key BadDividends (hr_failed h1)\<rparr>)
                           | Inr fs \<Rightarrow>
                               parse_tickers frame before min_bars rest
                                 (h1\<lparr>hr_series := dset key \<lparr>se_key = key, se_rows = with_factors fixed fs\<rparr> (hr_series h1)\<rparr>))))"

definition parse_daily_frame ::
  "(string, frame_row list) dict \<Rightarrow> (string, string) dict \<Rightarrow> date \<Rightarrow> int \<Rightarrow> date option \<Rightarrow> history_result result" where
  "parse_daily_frame frame tickers before min_bars expected =
     (case parse_tickers frame before min_bars tickers \<lparr>hr_series = [], hr_failed = [], hr_repaired = [], hr_lagging = []\<rparr> of
        Inl e \<Rightarrow> Inl e
      | Inr h \<Rightarrow> Inr (h\<lparr>hr_lagging := lagging_of expected (hr_series h)\<rparr>))"

text \<open>Any exception of the download or of the parsing fails every symbol; a time-out has no frame.\<close>

definition fetch_daily_history ::
  "(string, frame_row list) dict option \<Rightarrow> (string, string) dict \<Rightarrow> date \<Rightarrow> int \<Rightarrow> date option \<Rightarrow> history_result" where
  "fetch_daily_history downloaded tickers before min_bars expected =
     (let down = \<lparr>hr_series = [], hr_failed = map (\<lambda>(k, t). (k, DownloadFailed)) tickers, hr_repaired = [], hr_lagging = []\<rparr>
      in case downloaded of
           None \<Rightarrow> down
         | Some frame \<Rightarrow>
             (case parse_daily_frame frame tickers before min_bars expected of Inl e \<Rightarrow> down | Inr h \<Rightarrow> h))"

definition prev_closes :: "history_result \<Rightarrow> (string, flt) dict" where
  "prev_closes h = map (\<lambda>(k, s). (k, last_close s)) (hr_series h)"

section \<open>The tape\<close>

fun record_series :: "(string \<times> price_series) list \<Rightarrow> day_bar list \<Rightarrow> day_bar list result" where
  "record_series [] tape = Inr tape"
| "record_series ((k, s) # rest) tape =
     (case series_bars False s of
        Inl e \<Rightarrow> Inl e
      | Inr raw \<Rightarrow> (case series_bars True s of Inl e \<Rightarrow> Inl e | Inr adj \<Rightarrow> record_series rest (tape @ raw @ adj)))"

definition record_history :: "history_result \<Rightarrow> day_bar list \<Rightarrow> day_bar list result" where
  "record_history h tape = record_series (hr_series h) tape"

definition file_bar :: "day_bar \<Rightarrow> (string, (date, day_bar) dict) dict \<Rightarrow> (string, (date, day_bar) dict) dict" where
  "file_bar b d = dset (br_instrument_key b) (dset (br_session_date b) b (dget_or [] d (br_instrument_key b))) d"

definition filed :: "day_bar list \<Rightarrow> (string, (date, day_bar) dict) dict" where
  "filed bars = foldl (\<lambda>d b. file_bar b d) [] bars"

definition taped_row :: "(date, day_bar) dict \<Rightarrow> date \<times> day_bar \<Rightarrow> day_row" where
  "taped_row adj db =
     (case db of (d, b) \<Rightarrow>
        \<lparr>dr_date = d, dr_open = Fin (br_open b), dr_high = Fin (br_high b), dr_low = Fin (br_low b), dr_close = Fin (br_close b),
         dr_volume = br_volume b, dr_dividend = Fin 0, dr_split = Fin 0,
         dr_factor = (case dget adj d of None \<Rightarrow> 1 | Some a \<Rightarrow> fdiv (br_close a) (br_close b))\<rparr>)"

fun taped_series ::
  "int \<Rightarrow> (string, (date, day_bar) dict) dict \<Rightarrow> (string \<times> (date, day_bar) dict) list \<Rightarrow> history_result \<Rightarrow> history_result" where
  "taped_series min_bars adjusted [] h = h"
| "taped_series min_bars adjusted ((key, by_day) # rest) h =
     (if int (length by_day) < min_bars
      then taped_series min_bars adjusted rest (h\<lparr>hr_failed := dset key (TooFewBars (length by_day) min_bars) (hr_failed h)\<rparr>)
      else taped_series min_bars adjusted rest
             (h\<lparr>hr_series := dset key \<lparr>se_key = key, se_rows = map (taped_row (dget_or [] adjusted key)) (sort_key fst by_day)\<rparr> (hr_series h)\<rparr>))"

definition series_from_bars :: "day_bar list \<Rightarrow> date \<Rightarrow> int \<Rightarrow> date option \<Rightarrow> history_result" where
  "series_from_bars bars before min_bars expected =
     (let kept = filter (\<lambda>b. br_session_date b < before \<and> br_is_settled b) bars;
          raw = filed (filter (\<lambda>b. \<not> br_adjusted b) kept);
          adjusted = filed (filter br_adjusted kept);
          h = taped_series min_bars adjusted (sort_key fst raw) \<lparr>hr_series = [], hr_failed = [], hr_repaired = [], hr_lagging = []\<rparr>
      in h\<lparr>hr_lagging := lagging_of expected (hr_series h)\<rparr>)"

text \<open>The history of a replay: what was asked for and is not on the tape has failed.\<close>

definition tape_history :: "day_bar list \<Rightarrow> int \<Rightarrow> string list \<Rightarrow> date \<Rightarrow> date option \<Rightarrow> history_result" where
  "tape_history bars min_bars keys before expected =
     (let h = series_from_bars (filter (\<lambda>b. br_instrument_key b \<in> set keys) bars) before min_bars expected
      in h\<lparr>hr_failed := hr_failed h
            @ map (\<lambda>k. (k, NotOnTape))
                (sort (remdups (filter (\<lambda>k. dget (hr_series h) k = None \<and> dget (hr_failed h) k = None) keys))),
           hr_repaired := []\<rparr>)"

section \<open>Alerts\<close>

datatype history_alert = HistoryMissing string | HistoryLagging string

definition alert_failures :: "history_result \<Rightarrow> history_alert list" where
  "alert_failures h =
     map (\<lambda>(k, r). HistoryMissing k) (sort_key fst (hr_failed h)) @ map (\<lambda>(k, d). HistoryLagging k) (sort_key fst (hr_lagging h))"

end
