(* ===== verification/History_Props.thy ===== *)
theory History_Props
  imports Daily_History Strategy_Props
begin

text \<open>
  What the daily history guarantees: dividend factors are between zero and one, grow towards the newest bar and end
  there with one; and a history that was taped and is rebuilt from the tape has the same raw bars per instrument, the
  same last closes and the same lagging instruments, with nothing failed.
\<close>

section \<open>Dividend factors\<close>

lemma fl64_idem: "fl64 (fl64 x) = fl64 x"
  by (simp add: fl64_def sig_round_idem)

lemma scaled_down_bounds:
  assumes "scaled_down r d p = Inr r'" "flt_pos d" "0 \<le> r" "r \<le> 1" "fl64 r = r"
  shows "0 \<le> r' \<and> r' \<le> r \<and> fl64 r' = r'"
proof -
  from assms(1,2) obtain x y where xy: "d = Fin x" "p = Fin y" "0 < x" "x < y" "r' = fmul r (fsub 1 (fdiv x y))"
    by (cases d; cases p) (auto split: if_splits)
  have q: "0 \<le> fdiv x y" "fdiv x y \<le> 1"
    using xy by (simp_all add: fdiv_nonneg fdiv_def fl64_le_1 fl64_nonneg)
  then have s: "0 \<le> fsub 1 (fdiv x y)" "fsub 1 (fdiv x y) \<le> 1"
    by (simp_all add: fsub_def fl64_nonneg fl64_le_1)
  have "r * fsub 1 (fdiv x y) \<le> r"
    using s assms(3) by (simp add: mult_left_le)
  then have "r' \<le> fl64 r"
    unfolding xy(5) fmul_def by (rule fl64_mono)
  with s assms(3,5) show ?thesis
    by (simp add: xy(5) fmul_def fl64_nonneg fl64_idem)
qed

lemma factors_down_bounds:
  assumes "factors_down cs ds i r fs = Inr gs" "0 \<le> r" "r \<le> 1" "fl64 r = r"
    and "sorted (r # fs)" "\<forall>f \<in> set fs. f \<le> 1" "last (r # fs) = 1"
  shows "length gs = Suc i + length fs \<and> sorted gs \<and> last gs = 1 \<and> (\<forall>f \<in> set gs. 0 \<le> f \<and> f \<le> 1)"
  using assms
proof (induction i arbitrary: r fs)
  case 0
  then show ?case by (fastforce intro: order_trans)
next
  case (Suc i)
  show ?case
  proof (cases "flt_pos (ds ! Suc i)")
    case False
    with Suc.IH [of r "r # fs"] Suc.prems show ?thesis by auto
  next
    case True
    with Suc.prems(1) obtain r' where r': "scaled_down r (ds ! Suc i) (cs ! i) = Inr r'" "factors_down cs ds i r' (r # fs) = Inr gs"
      by (auto split: sum.splits)
    from scaled_down_bounds [OF r'(1) True Suc.prems(2,3,4)] have b: "0 \<le> r'" "r' \<le> r" "fl64 r' = r'" by auto
    with Suc.IH [OF r'(2)] Suc.prems show ?thesis by fastforce
  qed
qed

fun adjustable :: "flt \<Rightarrow> flt \<Rightarrow> bool" where
  "adjustable (Fin d) (Fin prev) = (d < prev)"
| "adjustable d prev = False"

definition bad_dividends :: "flt list \<Rightarrow> flt list \<Rightarrow> nat \<Rightarrow> bool" where
  "bad_dividends cs ds n = (\<exists>j < n. flt_pos (ds ! Suc j) \<and> \<not> adjustable (ds ! Suc j) (cs ! j))"

lemma scaled_down_error: "(\<exists>r'. scaled_down r d p = Inr r') = adjustable d p" "scaled_down r d p = Inl e \<Longrightarrow> e = ValueError"
  by (cases d; cases p; auto split: if_splits)+

lemma factors_down_error:
  "case factors_down cs ds i r fs of Inl e \<Rightarrow> e = ValueError \<and> bad_dividends cs ds i | Inr gs \<Rightarrow> \<not> bad_dividends cs ds i"
proof (induction i arbitrary: r fs)
  case (Suc i)
  have step: "bad_dividends cs ds (Suc i) = (bad_dividends cs ds i \<or> (flt_pos (ds ! Suc i) \<and> \<not> adjustable (ds ! Suc i) (cs ! i)))"
    by (auto simp: bad_dividends_def less_Suc_eq)
  show ?case
  proof (cases "flt_pos (ds ! Suc i)")
    case False
    with Suc [of r "r # fs"] show ?thesis by (simp add: step split: sum.splits)
  next
    case True
    show ?thesis
    proof (cases "scaled_down r (ds ! Suc i) (cs ! i)")
      case (Inl e)
      with True scaled_down_error [of r "ds ! Suc i" "cs ! i"] show ?thesis by (auto simp: step)
    next
      case (Inr r')
      with True Suc [of r' "r # fs"] scaled_down_error(1) [of r "ds ! Suc i" "cs ! i"] show ?thesis by (simp add: step split: sum.splits)
    qed
  qed
qed (simp add: bad_dividends_def)

text \<open>C40: Back-adjustment factors for dividends, one per bar, are between zero and one, never decrease from one bar to
  the next newer one, and the newest bar has factor one, whatever prices and dividends the vendor reports; the
  routine raises, and then ValueError, exactly when the lists differ in length or a dividend after the first bar is not
  smaller than the finite close before it.\<close>

theorem dividend_factors_bounds:
  "case dividend_factors cs ds of
     Inl e \<Rightarrow> e = ValueError \<and> (length cs \<noteq> length ds \<or> bad_dividends cs ds (length cs - 1))
   | Inr fs \<Rightarrow> length cs = length ds \<and> \<not> bad_dividends cs ds (length cs - 1)
       \<and> length fs = length cs \<and> sorted fs \<and> (fs \<noteq> [] \<longrightarrow> last fs = 1) \<and> (\<forall>f \<in> set fs. 0 \<le> f \<and> f \<le> 1)"
proof (cases "length cs \<noteq> length ds \<or> cs = []")
  case True
  then show ?thesis by (auto simp: dividend_factors_def bad_dividends_def)
next
  case False
  then have d: "dividend_factors cs ds = factors_down cs ds (length cs - 1) 1 []" by (simp add: dividend_factors_def)
  have b: "length gs = Suc (length cs - 1) + length ([] :: rat list) \<and> sorted gs \<and> last gs = 1 \<and> (\<forall>f \<in> set gs. 0 \<le> f \<and> f \<le> 1)"
    if "factors_down cs ds (length cs - 1) 1 [] = Inr gs" for gs
    using factors_down_bounds [OF that] by simp
  have "Suc (length ds - Suc 0) = length ds" using False by (cases ds) auto
  then show ?thesis unfolding d
    using factors_down_error [of cs ds "length cs - 1" 1 "[]"] b False by (auto split: sum.splits)
qed

text \<open>Three bars at 100, with a dividend of 50 on the last one.\<close>

theorem dividend_factors_bounds_witness:
  "dividend_factors [Fin 100, Fin 100, Fin 100] [Fin 0, Fin 0, Fin 50] = Inr [1 / 2, 1 / 2, 1] \<and> sorted [1 / 2, 1 / 2, 1 :: rat]"
proof -
  have "fmul 1 (fsub 1 (fdiv 50 100)) = 1 / 2" by code_simp
  then have run: "dividend_factors [Fin 100, Fin 100, Fin 100] [Fin 0, Fin 0, Fin 50] = Inr [1 / 2, 1 / 2, 1]"
    by (simp add: dividend_factors_def numeral_2_eq_2)
  with dividend_factors_bounds [of "[Fin 100, Fin 100, Fin 100]" "[Fin 0, Fin 0, Fin 50]"] show ?thesis by (simp only: sum.case)
qed

section \<open>Bars of a series\<close>

definition bar_for :: "string \<Rightarrow> bool \<Rightarrow> day_row \<Rightarrow> day_bar \<Rightarrow> bool" where
  "bar_for key adj r b =
     (dr_open r = Fin (br_open b) \<and> dr_high r = Fin (br_high b) \<and> dr_low r = Fin (br_low b) \<and> dr_close r = Fin (br_close b)
      \<and> dr_volume r = br_volume b \<and> dr_date r = br_session_date b \<and> br_instrument_key b = key \<and> br_adjusted b = adj
      \<and> br_is_settled b \<and> bar_valid b)"

lemma bar_of_row_iff: "bar_of_row key adj r = Inr b \<longleftrightarrow> bar_for key adj r b"
  by (auto simp: bar_of_row_def bar_for_def bar_valid_def Let_def split: flt.splits if_splits)

lemma all_bars_iff: "all_bars key adj rs = Inr bs \<longleftrightarrow> list_all2 (bar_for key adj) rs bs"
proof (induction rs arbitrary: bs)
  case (Cons r rs)
  show ?case
  proof (cases bs)
    case c: (Cons b bs')
    have b: "bar_for key adj r b = (bar_of_row key adj r = Inr b)" by (simp add: bar_of_row_iff)
    have l: "list_all2 (bar_for key adj) rs bs' = (all_bars key adj rs = Inr bs')" by (simp add: Cons.IH)
    show ?thesis unfolding c list_all2_Cons b l by (auto split: sum.splits)
  qed (auto split: sum.splits)
qed auto

lemma all_bars_dates: "list_all2 (bar_for key adj) rs bs \<Longrightarrow> map dr_date rs = map br_session_date bs"
  by (induction rs bs rule: list_all2_induct) (auto simp: bar_for_def)

lemma all_bars_each: "list_all2 (bar_for key adj) rs bs \<Longrightarrow> b \<in> set bs \<Longrightarrow> \<exists>r \<in> set rs. bar_for key adj r b"
  by (induction rs bs rule: list_all2_induct) auto

text \<open>Rebuilt rows give the bars they were built from.\<close>

lemma taped_rows_bars:
  "list_all2 (bar_for key False) rs bs \<Longrightarrow> all_bars key False (map (taped_row adj) (map (\<lambda>b. (br_session_date b, b)) bs)) = Inr bs"
  unfolding all_bars_iff
  by (induction rs bs rule: list_all2_induct) (auto simp: bar_for_def taped_row_def)

section \<open>Filing bars by instrument and day\<close>

lemma filed_snoc: "filed (bs @ [b]) = file_bar b (filed bs)"
  by (simp add: filed_def)

lemma distinct_filed: "distinct (map fst (filed bs))"
  by (induction bs rule: rev_induct) (auto simp: filed_snoc file_bar_def distinct_update, simp add: filed_def)

lemma dget_filed:
  "dget (filed bs) k =
     (if filter (\<lambda>b. br_instrument_key b = k) bs = [] then None
      else Some (foldl (\<lambda>d b. dset (br_session_date b) b d) [] (filter (\<lambda>b. br_instrument_key b = k) bs)))"
proof (induction bs rule: rev_induct)
  case Nil
  then show ?case by (simp add: filed_def)
next
  case (snoc b bs)
  show ?case
  proof (cases "br_instrument_key b = k")
    case True
    with snoc show ?thesis by (simp add: filed_snoc file_bar_def update_conv dget_or_def True)
  next
    case False
    with snoc show ?thesis by (simp add: filed_snoc file_bar_def update_conv)
  qed
qed

lemma days_filed:
  assumes "distinct (map br_session_date bs)"
  shows "foldl (\<lambda>d b. dset (br_session_date b) b d) [] bs = map (\<lambda>b. (br_session_date b, b)) bs"
  using assms
proof (induction bs rule: rev_induct)
  case (snoc b bs)
  have "br_session_date b \<notin> fst ` set (map (\<lambda>b. (br_session_date b, b)) bs)" using snoc.prems by (auto simp: image_iff)
  then have "dset (br_session_date b) b (map (\<lambda>b. (br_session_date b, b)) bs) = map (\<lambda>b. (br_session_date b, b)) bs @ [(br_session_date b, b)]"
    by (induction bs) auto
  with snoc show ?case by simp
qed simp

lemma sorted_days:
  assumes "sorted_wrt (<) (map br_session_date bs)"
  shows "distinct (map br_session_date bs)" "sort_key fst (map (\<lambda>b. (br_session_date b, b)) bs) = map (\<lambda>b. (br_session_date b, b)) bs"
proof -
  show "distinct (map br_session_date bs)" using assms by (simp add: strict_sorted_iff)
  have "sorted (map fst (map (\<lambda>b. (br_session_date b, b)) bs))"
    using assms by (simp add: strict_sorted_iff comp_def)
  then show "sort_key fst (map (\<lambda>b. (br_session_date b, b)) bs) = map (\<lambda>b. (br_session_date b, b)) bs"
    by (rule sort_key_id_if_sorted)
qed

lemma filter_keyed:
  assumes "distinct (map fst xs)" "\<And>k s b. (k, s) \<in> set xs \<Longrightarrow> b \<in> set (g s) \<Longrightarrow> br_instrument_key b = k"
  shows "filter (\<lambda>b. br_instrument_key b = k) (concat (map (\<lambda>(k, s). g s) xs)) = (case dget xs k of None \<Rightarrow> [] | Some s \<Rightarrow> g s)"
  using assms
proof (induction xs)
  case (Cons x xs)
  obtain k' s where x: "x = (k', s)" by (cases x)
  have g: "\<forall>b \<in> set (g s). br_instrument_key b = k'" using Cons.prems(2) [of k' s] by (simp add: x)
  have IH: "filter (\<lambda>b. br_instrument_key b = k) (concat (map (\<lambda>(k, s). g s) xs)) = (case dget xs k of None \<Rightarrow> [] | Some s \<Rightarrow> g s)"
    by (rule Cons.IH) (use Cons.prems in auto)
  show ?case
  proof (cases "k = k'")
    case True
    then have "dget xs k = None" using Cons.prems(1) by (simp add: x map_of_eq_None_iff)
    with IH g True show ?thesis by (simp add: x)
  next
    case False
    then have "filter (\<lambda>b. br_instrument_key b = k) (g s) = []" using g by (auto simp: filter_empty_conv)
    with IH False show ?thesis by (simp add: x)
  qed
qed simp

section \<open>What was parsed\<close>

definition series_ok :: "date \<Rightarrow> int \<Rightarrow> string \<times> price_series \<Rightarrow> bool" where
  "series_ok before min_bars ks =
     (se_key (snd ks) = fst ks \<and> sorted_wrt (<) (map dr_date (se_rows (snd ks)))
      \<and> (\<forall>r \<in> set (se_rows (snd ks)). dr_date r < before) \<and> min_bars \<le> int (length (se_rows (snd ks))))"

lemma filled_rows_dates: "filled_rows rs = Inr ds \<Longrightarrow> map dr_date ds = map fr_date rs"
  by (induction rs arbitrary: ds) (auto simp: filled_row_def split: sum.splits flt.splits)

lemma with_factors_dates: "length fs = length rs \<Longrightarrow> map dr_date (with_factors rs fs) = map dr_date rs"
  by (induction rs fs rule: list_induct2') (auto simp: with_factors_def)

lemma reordered_dates: "map dr_date (map reordered rs) = map dr_date rs"
  by (simp add: reordered_def comp_def)

lemma dset_all: "\<forall>x \<in> set d. P x \<Longrightarrow> P (k, v) \<Longrightarrow> \<forall>x \<in> set (dset k v d). P x"
  by (induction d) auto

lemma parsed_series_ok:
  assumes "filled_rows (settled_rows before rows) = Inr days" "sorted_wrt (<) (map fr_date rows)"
    and "map dr_date fixed = map dr_date days" "dividend_factors (map dr_close fixed) (map dr_dividend fixed) = Inr fs"
    and "\<not> int (length (settled_rows before rows)) < min_bars"
  shows "series_ok before min_bars (key, \<lparr>se_key = key, se_rows = with_factors fixed fs\<rparr>)"
proof -
  have "length fs = length fixed"
    using dividend_factors_bounds [of "map dr_close fixed" "map dr_dividend fixed"] assms(4) by simp
  then have d: "map dr_date (with_factors fixed fs) = map fr_date (settled_rows before rows)"
    using with_factors_dates assms(3) filled_rows_dates [OF assms(1)] by simp
  then have "set (map dr_date (with_factors fixed fs)) = set (map fr_date (settled_rows before rows))" by (rule arg_cong)
  then have "\<forall>r \<in> set (with_factors fixed fs). dr_date r < before"
    by (force simp: settled_rows_def)
  moreover have "sorted_wrt (<) (map dr_date (with_factors fixed fs))"
    unfolding d settled_rows_def using assms(2) by (auto simp: sorted_wrt_map intro: sorted_wrt_filter)
  moreover have "length (with_factors fixed fs) = length (settled_rows before rows)" using d by (metis length_map)
  ultimately show ?thesis using assms(5) by (simp add: series_ok_def)
qed

lemma parse_tickers_ok:
  assumes "parse_tickers frame before min_bars tickers h = Inr h'"
    and "\<forall>(t, rows) \<in> set frame. sorted_wrt (<) (map fr_date rows)"
    and "\<forall>ks \<in> set (hr_series h). series_ok before min_bars ks" "distinct (map fst (hr_series h))"
  shows "(\<forall>ks \<in> set (hr_series h'). series_ok before min_bars ks) \<and> distinct (map fst (hr_series h'))"
  using assms
proof (induction tickers arbitrary: h)
  case (Cons kt tickers)
  obtain key ticker where kt: "kt = (key, ticker)" by (cases kt)
  show ?case
  proof (cases "dget frame ticker")
    case None
    with Cons show ?thesis by (simp add: kt)
  next
    case (Some rows)
    then have srt: "sorted_wrt (<) (map fr_date rows)" using Cons.prems(2) by (auto dest: map_of_SomeD)
    show ?thesis
    proof (cases "int (length (settled_rows before rows)) < min_bars")
      case True
      with Some Cons show ?thesis by (simp add: kt Let_def)
    next
      case enough: False
      show ?thesis
      proof (cases "filled_rows (settled_rows before rows)")
        case (Inl e)
        with Some enough Cons.prems(1) show ?thesis by (simp add: kt Let_def)
      next
        case (Inr days)
        define bad where "bad = length (filter out_of_order days)"
        define h1 where "h1 = (if bad = 0 then h else h\<lparr>hr_repaired := dset key bad (hr_repaired h)\<rparr>)"
        define fixed where "fixed = (if bad = 0 then days else map reordered days)"
        have h1: "hr_series h1 = hr_series h" by (simp add: h1_def)
        have fd: "map dr_date fixed = map dr_date days" unfolding fixed_def using reordered_dates by simp
        have p: "(case dividend_factors (map dr_close fixed) (map dr_dividend fixed) of
               Inl e \<Rightarrow> parse_tickers frame before min_bars tickers (h1\<lparr>hr_failed := dset key BadDividends (hr_failed h1)\<rparr>)
             | Inr fs \<Rightarrow> parse_tickers frame before min_bars tickers
                 (h1\<lparr>hr_series := dset key \<lparr>se_key = key, se_rows = with_factors fixed fs\<rparr> (hr_series h1)\<rparr>)) = Inr h'"
          using Cons.prems(1) Some enough Inr unfolding bad_def h1_def fixed_def kt
          by (simp only: parse_tickers.simps option.case sum.case Let_def if_False)
        show ?thesis
        proof (cases "dividend_factors (map dr_close fixed) (map dr_dividend fixed)")
          case (Inl e)
          with p have "parse_tickers frame before min_bars tickers (h1\<lparr>hr_failed := dset key BadDividends (hr_failed h1)\<rparr>) = Inr h'"
            by simp
          then show ?thesis by (rule Cons.IH) (use Cons.prems h1 in simp_all)
        next
          case (Inr fs)
          have ok: "series_ok before min_bars (key, \<lparr>se_key = key, se_rows = with_factors fixed fs\<rparr>)"
            by (rule parsed_series_ok [OF \<open>filled_rows (settled_rows before rows) = Inr days\<close> srt fd Inr enough])
          from p Inr have "parse_tickers frame before min_bars tickers
              (h1\<lparr>hr_series := dset key \<lparr>se_key = key, se_rows = with_factors fixed fs\<rparr> (hr_series h1)\<rparr>) = Inr h'"
            by simp
          then show ?thesis
            by (rule Cons.IH) (use Cons.prems h1 dset_all [where P = "series_ok before min_bars", OF _ ok] distinct_update in simp_all)
        qed
      qed
    qed
  qed
qed simp

section \<open>The tape\<close>

definition bars_or_none :: "bool \<Rightarrow> price_series \<Rightarrow> day_bar list" where
  "bars_or_none adj s = (case series_bars adj s of Inl e \<Rightarrow> [] | Inr bs \<Rightarrow> bs)"

lemma record_series_bars:
  assumes "record_series xs tape = Inr out"
  shows "out = tape @ concat (map (\<lambda>(k, s). bars_or_none False s @ bars_or_none True s) xs)
         \<and> (\<forall>(k, s) \<in> set xs. \<forall>adj. series_bars adj s = Inr (bars_or_none adj s))"
  using assms
proof (induction xs tape rule: record_series.induct)
  case (2 k s rest tape)
  from "2.prems" obtain raw adj where b: "series_bars False s = Inr raw" "series_bars True s = Inr adj"
      "record_series rest (tape @ raw @ adj) = Inr out"
    by (auto split: sum.splits)
  have n: "bars_or_none False s = raw" "bars_or_none True s = adj" using b by (simp_all add: bars_or_none_def)
  have "series_bars a s = Inr (bars_or_none a s)" for a using b n by (cases a) simp_all
  with "2.IH" [OF b] show ?case by (auto simp: n)
qed simp

lemma taped_series_result:
  assumes "distinct (map fst xs)" "\<forall>(k, d) \<in> set xs. min_bars \<le> int (length d)"
  shows "hr_failed (taped_series min_bars adjusted xs h) = hr_failed h
         \<and> dget (hr_series (taped_series min_bars adjusted xs h)) k =
             (case dget xs k of
                None \<Rightarrow> dget (hr_series h) k
              | Some d \<Rightarrow> Some \<lparr>se_key = k, se_rows = map (taped_row (dget_or [] adjusted k)) (sort_key fst d)\<rparr>)"
  using assms
proof (induction xs arbitrary: h)
  case (Cons x xs)
  obtain key d where x: "x = (key, d)" by (cases x)
  let ?s = "\<lparr>se_key = key, se_rows = map (taped_row (dget_or [] adjusted key)) (sort_key fst d)\<rparr>"
  have step: "taped_series min_bars adjusted (x # xs) h = taped_series min_bars adjusted xs (h\<lparr>hr_series := dset key ?s (hr_series h)\<rparr>)"
    using Cons.prems(2) by (simp add: x)
  have IH: "hr_failed (taped_series min_bars adjusted xs (h\<lparr>hr_series := dset key ?s (hr_series h)\<rparr>)) = hr_failed h
         \<and> dget (hr_series (taped_series min_bars adjusted xs (h\<lparr>hr_series := dset key ?s (hr_series h)\<rparr>))) k =
             (case dget xs k of
                None \<Rightarrow> dget (dset key ?s (hr_series h)) k
              | Some d \<Rightarrow> Some \<lparr>se_key = k, se_rows = map (taped_row (dget_or [] adjusted k)) (sort_key fst d)\<rparr>)"
    using Cons.IH [of "h\<lparr>hr_series := dset key ?s (hr_series h)\<rparr>"] Cons.prems by (simp split: option.split)
  have "key = k \<Longrightarrow> dget xs k = None" using Cons.prems(1) by (auto simp: x map_of_eq_None_iff)
  with IH show ?case unfolding step by (auto simp: x update_conv split: option.split)
qed simp

lemma dget_lagging:
  "distinct (map fst series) \<Longrightarrow>
     dget (lagging_of expected series) k =
       (case (expected, dget series k) of (Some d, Some s) \<Rightarrow> if last_date s < d then Some (last_date s) else None | _ \<Rightarrow> None)"
proof (induction series)
  case (Cons x series)
  obtain a b where x: "x = (a, b)" by (cases x)
  show ?case
  proof (cases expected)
    case None
    then show ?thesis by (simp add: lagging_of_def)
  next
    case (Some d)
    have IH: "dget (lagging_of (Some d) series) k
        = (case dget series k of None \<Rightarrow> None | Some s \<Rightarrow> if last_date s < d then Some (last_date s) else None)"
      using Cons Some by simp
    show ?thesis
    proof (cases "a = k")
      case True
      then have "dget series k = None" using Cons.prems by (simp add: x map_of_eq_None_iff)
      with IH True Some show ?thesis by (simp add: lagging_of_def x)
    next
      case False
      with IH Some show ?thesis by (simp add: lagging_of_def x)
    qed
  qed
qed (simp add: lagging_of_def split: option.split)

lemma distinct_taped_series:
  "distinct (map fst (hr_series h)) \<Longrightarrow> distinct (map fst (hr_series (taped_series min_bars adjusted xs h)))"
  by (induction min_bars adjusted xs h rule: taped_series.induct) (simp_all add: distinct_update)

lemma last_of_bars:
  assumes "list_all2 (bar_for key adj) rs bs" "rs \<noteq> []"
  shows "dr_close (last rs) = Fin (br_close (last bs))" "dr_date (last rs) = br_session_date (last bs)"
proof -
  have "bs \<noteq> []" using assms by (cases bs) auto
  then have "bar_for key adj (last rs) (last bs)"
    using assms list_all2_lengthD [OF assms(1)] by (simp add: last_conv_nth list_all2_conv_all_nth)
  then show "dr_close (last rs) = Fin (br_close (last bs))" "dr_date (last rs) = br_session_date (last bs)"
    by (simp_all add: bar_for_def)
qed

text \<open>What is on the tape of one instrument.\<close>

lemma taped_instrument:
  assumes "series_ok before min_bars (k, s)" "\<forall>adj. series_bars adj s = Inr (bars_or_none adj s)"
  shows "list_all2 (bar_for k False) (se_rows s) (bars_or_none False s)"
    and "\<forall>b \<in> set (bars_or_none adj s). br_instrument_key b = k \<and> br_adjusted b = adj \<and> br_is_settled b \<and> br_session_date b < before"
    and "sorted_wrt (<) (map br_session_date (bars_or_none False s))"
proof -
  have bars: "list_all2 (bar_for k adj) (if adj then adjusted_rows s else se_rows s) (bars_or_none adj s)" for adj
    using assms by (auto simp: series_bars_def all_bars_iff series_ok_def raw_rows_def split: if_splits)
  from bars [of False] show raw: "list_all2 (bar_for k False) (se_rows s) (bars_or_none False s)" by simp
  from assms(1) all_bars_dates [OF raw] show "sorted_wrt (<) (map br_session_date (bars_or_none False s))"
    by (simp add: series_ok_def)
  show "\<forall>b \<in> set (bars_or_none adj s). br_instrument_key b = k \<and> br_adjusted b = adj \<and> br_is_settled b \<and> br_session_date b < before"
  proof
    fix b assume "b \<in> set (bars_or_none adj s)"
    from all_bars_each [OF bars this] obtain r where r: "r \<in> set (if adj then adjusted_rows s else se_rows s)" "bar_for k adj r b"
      by blast
    then have "dr_date r < before" using assms(1) by (auto simp: series_ok_def adjusted_rows_def adjusted_row_def split: if_splits)
    with r(2) show "br_instrument_key b = k \<and> br_adjusted b = adj \<and> br_is_settled b \<and> br_session_date b < before"
      by (simp add: bar_for_def)
  qed
qed

lemma taped_parts:
  assumes "distinct (map fst xs)" "\<forall>ks \<in> set xs. series_ok before min_bars ks"
    and "\<forall>(k, s) \<in> set xs. \<forall>adj. series_bars adj s = Inr (bars_or_none adj s)"
    and "bars = concat (map (\<lambda>(k, s). bars_or_none False s @ bars_or_none True s) xs)"
  shows "filter (\<lambda>b. br_session_date b < before \<and> br_is_settled b) bars = bars"
    and "filter (\<lambda>b. \<not> br_adjusted b) bars = concat (map (\<lambda>(k, s). bars_or_none False s) xs)"
    and "filter (\<lambda>b. br_instrument_key b = k) (concat (map (\<lambda>(k, s). bars_or_none False s) xs))
           = (case dget xs k of None \<Rightarrow> [] | Some s \<Rightarrow> bars_or_none False s)"
proof -
  have each: "\<forall>b \<in> set (bars_or_none adj s). br_instrument_key b = k \<and> br_adjusted b = adj \<and> br_is_settled b \<and> br_session_date b < before"
    if "(k, s) \<in> set xs" for k s adj
    using taped_instrument(2) [of before min_bars k s adj] assms(2,3) that by fastforce
  show "filter (\<lambda>b. br_session_date b < before \<and> br_is_settled b) bars = bars"
    using each unfolding assms(4) filter_id_conv by fastforce
  have "filter (\<lambda>b. \<not> br_adjusted b) (bars_or_none False s) = bars_or_none False s"
    "filter (\<lambda>b. \<not> br_adjusted b) (bars_or_none True s) = []" if "(k, s) \<in> set xs" for k s
    using each [OF that, of False] each [OF that, of True] by (auto simp: filter_id_conv filter_empty_conv)
  then have "map (filter (\<lambda>b. \<not> br_adjusted b)) (map (\<lambda>(k, s). bars_or_none False s @ bars_or_none True s) xs)
      = map (\<lambda>(k, s). bars_or_none False s) xs"
    by auto
  then show "filter (\<lambda>b. \<not> br_adjusted b) bars = concat (map (\<lambda>(k, s). bars_or_none False s) xs)"
    unfolding assms(4) filter_concat by (rule arg_cong)
  show "filter (\<lambda>b. br_instrument_key b = k) (concat (map (\<lambda>(k, s). bars_or_none False s) xs))
      = (case dget xs k of None \<Rightarrow> [] | Some s \<Rightarrow> bars_or_none False s)"
    by (rule filter_keyed [OF assms(1)]) (use each in blast)
qed

lemma rebuilt_series:
  assumes "distinct (map fst xs)" "\<forall>ks \<in> set xs. series_ok before min_bars ks" "0 < min_bars"
    and "\<forall>(k, s) \<in> set xs. \<forall>adj. series_bars adj s = Inr (bars_or_none adj s)"
    and "bars = concat (map (\<lambda>(k, s). bars_or_none False s @ bars_or_none True s) xs)"
  shows "hr_failed (series_from_bars bars before min_bars expected) = []"
    and "\<exists>adj. dget (hr_series (series_from_bars bars before min_bars expected)) k
           = map_option (\<lambda>s. \<lparr>se_key = k, se_rows = map (taped_row adj) (map (\<lambda>b. (br_session_date b, b)) (bars_or_none False s))\<rparr>) (dget xs k)"
    and "distinct (map fst (hr_series (series_from_bars bars before min_bars expected)))"
    and "hr_lagging (series_from_bars bars before min_bars expected)
           = lagging_of expected (hr_series (series_from_bars bars before min_bars expected))"
proof -
  define raw where "raw = filed (concat (map (\<lambda>(k, s). bars_or_none False s) xs))"
  define adjusted where "adjusted = filed (filter br_adjusted bars)"
  let ?h0 = "\<lparr>hr_series = [], hr_failed = [], hr_repaired = [], hr_lagging = []\<rparr>"
  define h where "h = taped_series min_bars adjusted (sort_key fst raw) ?h0"
  have sb: "series_from_bars bars before min_bars expected = h\<lparr>hr_lagging := lagging_of expected (hr_series h)\<rparr>"
    unfolding series_from_bars_def Let_def taped_parts(1,2) [OF assms(1,2,4,5)] h_def raw_def adjusted_def by simp
  have rk: "dget raw k = map_option (\<lambda>s. map (\<lambda>b. (br_session_date b, b)) (bars_or_none False s)) (dget xs k)" for k
  proof (cases "dget xs k")
    case None
    then show ?thesis unfolding raw_def dget_filed taped_parts(3) [OF assms(1,2,4,5)] by simp
  next
    case (Some s)
    then have m: "(k, s) \<in> set xs" by (rule map_of_SomeD)
    then have ok: "series_ok before min_bars (k, s)" and b: "\<forall>adj. series_bars adj s = Inr (bars_or_none adj s)"
      using assms(2,4) by auto
    have "bars_or_none False s \<noteq> []"
      using list_all2_lengthD [OF taped_instrument(1) [OF ok b]] ok assms(3) by (auto simp: series_ok_def)
    then show ?thesis
      unfolding raw_def dget_filed taped_parts(3) [OF assms(1,2,4,5)] Some
      using days_filed [OF sorted_days(1) [OF taped_instrument(3) [OF ok b]]] by simp
  qed
  have dr: "distinct (map fst (sort_key fst raw))"
    using distinct_filed [of "concat (map (\<lambda>(k, s). bars_or_none False s) xs)"] by (simp add: raw_def distinct_map)
  have entry: "\<exists>s. dget xs k = Some s \<and> d = map (\<lambda>b. (br_session_date b, b)) (bars_or_none False s)" if "(k, d) \<in> set raw" for k d
  proof -
    have "dget raw k = Some d" using that distinct_filed unfolding raw_def by (intro map_of_is_SomeI)
    with rk show ?thesis by auto
  qed
  have long: "\<forall>(k, d) \<in> set (sort_key fst raw). min_bars \<le> int (length d)"
  proof (clarsimp)
    fix k d assume "(k, d) \<in> set raw"
    with entry obtain s where s: "dget xs k = Some s" "d = map (\<lambda>b. (br_session_date b, b)) (bars_or_none False s)" by blast
    then have "(k, s) \<in> set xs" by (simp add: map_of_SomeD)
    with assms(2,4) taped_instrument(1) [of before min_bars k s] have "length (se_rows s) = length (bars_or_none False s)"
      using list_all2_lengthD by blast
    moreover have "min_bars \<le> int (length (se_rows s))" using assms(2) \<open>(k, s) \<in> set xs\<close> by (auto simp: series_ok_def)
    ultimately show "min_bars \<le> int (length d)" by (simp add: s(2))
  qed
  have "dget (sort_key fst raw) = dget raw"
    using dr distinct_filed by (intro iffD2 [OF map_of_inject_set]) (simp_all add: raw_def)
  then have "dget (hr_series h) k = map_option (\<lambda>s. \<lparr>se_key = k, se_rows =
      map (taped_row (dget_or [] adjusted k)) (sort_key fst (map (\<lambda>b. (br_session_date b, b)) (bars_or_none False s)))\<rparr>) (dget xs k)"
    unfolding h_def using taped_series_result [OF dr long, of adjusted ?h0 k] rk [of k] by (simp split: option.split)
  moreover have "sort_key fst (map (\<lambda>b. (br_session_date b, b)) (bars_or_none False s)) = map (\<lambda>b. (br_session_date b, b)) (bars_or_none False s)"
    if "dget xs k = Some s" for s
  proof -
    have "(k, s) \<in> set xs" using that by (rule map_of_SomeD)
    with assms(2,4) have "series_ok before min_bars (k, s)" "\<forall>adj. series_bars adj s = Inr (bars_or_none adj s)" by auto
    then show ?thesis by (intro sorted_days(2) taped_instrument(3))
  qed
  ultimately show "\<exists>adj. dget (hr_series (series_from_bars bars before min_bars expected)) k
      = map_option (\<lambda>s. \<lparr>se_key = k, se_rows = map (taped_row adj) (map (\<lambda>b. (br_session_date b, b)) (bars_or_none False s))\<rparr>) (dget xs k)"
    unfolding sb by (intro exI [of _ "dget_or [] adjusted k"]) (cases "dget xs k"; simp)
  show "hr_failed (series_from_bars bars before min_bars expected) = []"
    unfolding sb h_def using taped_series_result [OF dr long, of adjusted ?h0] by simp
  show "distinct (map fst (hr_series (series_from_bars bars before min_bars expected)))"
    unfolding sb h_def using distinct_taped_series [of ?h0 min_bars adjusted "sort_key fst raw"] by simp
  show "hr_lagging (series_from_bars bars before min_bars expected)
      = lagging_of expected (hr_series (series_from_bars bars before min_bars expected))"
    unfolding sb by simp
qed

text \<open>C39: A daily history that was parsed from a downloaded frame with rows in date order and then taped bar by bar is
  rebuilt from the tape for the replay of that session: nothing fails, every instrument has exactly the raw bars, the
  last close and the lag it had, and no instrument is added.\<close>

theorem taped_history_replays:
  assumes "parse_daily_frame frame tickers before min_bars expected = Inr h"
    and "\<forall>(t, rows) \<in> set frame. sorted_wrt (<) (map fr_date rows)" "0 < min_bars"
    and "record_history h [] = Inr bars"
  shows "hr_failed (series_from_bars bars before min_bars expected) = []
         \<and> map_option (series_bars False) (dget (hr_series (series_from_bars bars before min_bars expected)) k)
             = map_option (series_bars False) (dget (hr_series h) k)
         \<and> map_option last_close (dget (hr_series (series_from_bars bars before min_bars expected)) k)
             = map_option last_close (dget (hr_series h) k)
         \<and> dget (hr_lagging (series_from_bars bars before min_bars expected)) k = dget (hr_lagging h) k"
proof -
  let ?r = "series_from_bars bars before min_bars expected"
  obtain h0 where h0: "parse_tickers frame before min_bars tickers \<lparr>hr_series = [], hr_failed = [], hr_repaired = [], hr_lagging = []\<rparr> = Inr h0"
      "h = h0\<lparr>hr_lagging := lagging_of expected (hr_series h0)\<rparr>"
    using assms(1) by (auto simp: parse_daily_frame_def split: sum.splits)
  let ?xs = "hr_series h"
  have ok: "\<forall>ks \<in> set ?xs. series_ok before min_bars ks" "distinct (map fst ?xs)"
    using parse_tickers_ok [OF h0(1) assms(2)] by (simp_all add: h0(2))
  from record_series_bars [OF assms(4) [unfolded record_history_def]]
  have out: "bars = concat (map (\<lambda>(k, s). bars_or_none False s @ bars_or_none True s) ?xs)"
      "\<forall>(k, s) \<in> set ?xs. \<forall>adj. series_bars adj s = Inr (bars_or_none adj s)" by simp_all
  note re = rebuilt_series [OF ok(2,1) assms(3) out(2,1), of expected]
  from re(2) [of k] obtain adj where d: "dget (hr_series ?r) k = map_option (\<lambda>s. \<lparr>se_key = k,
      se_rows = map (taped_row adj) (map (\<lambda>b. (br_session_date b, b)) (bars_or_none False s))\<rparr>) (dget ?xs k)" by blast
  have each: "series_bars False s' = series_bars False s \<and> last_close s' = last_close s \<and> last_date s' = last_date s"
    if "dget ?xs k = Some s" "s' = \<lparr>se_key = k, se_rows = map (taped_row adj) (map (\<lambda>b. (br_session_date b, b)) (bars_or_none False s))\<rparr>" for s s'
  proof -
    have m: "(k, s) \<in> set ?xs" using that(1) by (rule map_of_SomeD)
    have s: "series_ok before min_bars (k, s)" "\<forall>adj. series_bars adj s = Inr (bars_or_none adj s)" using ok(1) out(2) m by auto
    note b = taped_instrument(1) [OF s]
    have b': "list_all2 (bar_for k False) (se_rows s') (bars_or_none False s)"
      using taped_rows_bars [OF b, of adj] by (simp add: that(2) all_bars_iff)
    have ne: "se_rows s \<noteq> []" using s(1) assms(3) by (auto simp: series_ok_def)
    then have ne': "se_rows s' \<noteq> []" using list_all2_lengthD [OF b] list_all2_lengthD [OF b'] by auto
    have "series_bars False s' = Inr (bars_or_none False s)"
      using taped_rows_bars [OF b, of adj] by (simp add: that(2) series_bars_def raw_rows_def)
    with s(2) last_of_bars [OF b ne] last_of_bars [OF b' ne'] show ?thesis by (simp add: last_close_def last_date_def)
  qed
  have "hr_lagging h = lagging_of expected ?xs" by (simp add: h0(2))
  then have "dget (hr_lagging ?r) k = dget (hr_lagging h) k"
    unfolding re(4) dget_lagging [OF re(3)] \<open>hr_lagging h = lagging_of expected ?xs\<close> dget_lagging [OF ok(2)] d
    using each by (cases "dget ?xs k") (auto split: option.split)
  with re(1) d each show ?thesis by (cases "dget ?xs k") auto
qed

text \<open>Two bars of one share, taped and rebuilt.\<close>

definition sample_row :: "date \<Rightarrow> frame_row" where
  "sample_row d =
     \<lparr>fr_date = d, fr_open = Fin 100, fr_high = Fin 102, fr_low = Fin 99, fr_close = Fin 100, fr_volume = Fin 10,
      fr_dividends = None, fr_splits = None\<rparr>"

definition sample_frame :: "(string, frame_row list) dict" where
  "sample_frame = [(''INFY.NS'', [sample_row 1, sample_row 2])]"

definition sample_day :: "rat \<Rightarrow> date \<Rightarrow> day_row" where
  "sample_day op d =
     \<lparr>dr_date = d, dr_open = Fin op, dr_high = Fin 102, dr_low = Fin (min op 99), dr_close = Fin 100, dr_volume = 10,
      dr_dividend = Fin 0, dr_split = Fin 0, dr_factor = 1\<rparr>"

definition sample_result :: history_result where
  "sample_result =
     \<lparr>hr_series = [(''NSE:EQ:INFY'', \<lparr>se_key = ''NSE:EQ:INFY'', se_rows = [sample_day 100 1, sample_day 100 2]\<rparr>)],
      hr_failed = [], hr_repaired = [], hr_lagging = []\<rparr>"

lemma sample_to_flt: "to_flt 100 = Fin 100" "to_flt 102 = Fin 102" "to_flt 99 = Fin 99"
proof -
  have "fl64 100 = 100" "fl64 102 = 102" "fl64 99 = 99" by code_simp+
  then show "to_flt 100 = Fin 100" "to_flt 102 = Fin 102" "to_flt 99 = Fin 99" by (simp_all add: to_flt_def)
qed

lemmas sample_bars_simps = series_bars_def raw_rows_def adjusted_rows_def adjusted_row_def bar_of_row_def bar_valid_def Let_def

lemma sample_history:
  "parse_daily_frame sample_frame [(''NSE:EQ:INFY'', ''INFY.NS'')] 5 2 None = Inr sample_result"
  "\<exists>bars. record_history sample_result [] = Inr bars"
proof -
  show "parse_daily_frame sample_frame [(''NSE:EQ:INFY'', ''INFY.NS'')] 5 2 None = Inr sample_result" by code_simp
  show "\<exists>bars. record_history sample_result [] = Inr bars"
    by (simp add: sample_result_def sample_day_def record_history_def sample_to_flt sample_bars_simps)
qed

theorem taped_history_replays_witness:
  "\<exists>h bars r s. parse_daily_frame sample_frame [(''NSE:EQ:INFY'', ''INFY.NS'')] 5 2 None = Inr h \<and> record_history h [] = Inr bars
     \<and> r = series_from_bars bars 5 2 None \<and> hr_failed r = [] \<and> dget (hr_series h) ''NSE:EQ:INFY'' = Some s
     \<and> map_option last_close (dget (hr_series r) ''NSE:EQ:INFY'') = Some (last_close s)"
proof -
  obtain h bars s where run: "parse_daily_frame sample_frame [(''NSE:EQ:INFY'', ''INFY.NS'')] 5 2 None = Inr h"
      "record_history h [] = Inr bars" "dget (hr_series h) ''NSE:EQ:INFY'' = Some s"
    using sample_history by (auto simp: sample_result_def)
  have "\<forall>(t, rows) \<in> set sample_frame. sorted_wrt (<) (map fr_date rows)" by (simp add: sample_frame_def sample_row_def)
  from taped_history_replays [OF run(1) this _ run(2), of "''NSE:EQ:INFY''"] run show ?thesis by auto
qed

section \<open>Where the code departs from its documentation\<close>

text \<open>
  The module excludes an instrument whose data is unusable and reports it. A bar that the taped record refuses, here an
  opening price of zero, is not such a case: the parsed history is fine for every instrument, and taping it raises
  for all of them.
\<close>

definition mixed_result :: history_result where
  "mixed_result =
     sample_result\<lparr>hr_series := hr_series sample_result
       @ [(''NSE:EQ:TCS'', \<lparr>se_key = ''NSE:EQ:TCS'', se_rows = [sample_day 100 1, sample_day 0 2]\<rparr>)],
       hr_repaired := [(''NSE:EQ:TCS'', 1)]\<rparr>"

lemma one_bad_bar_fails_the_fetch:
  "parse_daily_frame [(''INFY.NS'', [sample_row 1, sample_row 2]), (''TCS.NS'', [sample_row 1, sample_row 2 \<lparr>fr_open := Fin 0\<rparr>])]
     [(''NSE:EQ:INFY'', ''INFY.NS''), (''NSE:EQ:TCS'', ''TCS.NS'')] 5 2 None = Inr mixed_result"
  "record_history mixed_result [] = Inl ValueError"
proof -
  show "parse_daily_frame [(''INFY.NS'', [sample_row 1, sample_row 2]), (''TCS.NS'', [sample_row 1, sample_row 2 \<lparr>fr_open := Fin 0\<rparr>])]
     [(''NSE:EQ:INFY'', ''INFY.NS''), (''NSE:EQ:TCS'', ''TCS.NS'')] 5 2 None = Inr mixed_result"
    by code_simp
  show "record_history mixed_result [] = Inl ValueError"
    by (simp add: mixed_result_def sample_result_def sample_day_def record_history_def sample_to_flt sample_bars_simps)
qed

end
