(* ===== verification/Market_Service.thy ===== *)
theory Market_Service
  imports Quote_Props History_Props Risk_Base
begin

text \<open>
  The replay source of quotes (\<^verbatim>\<open>src/marketdata/replay.py\<close>) and the market service that all components read
  (\<^verbatim>\<open>src/engine/market.py\<close>). The service knows its quote source by the protocol \<^verbatim>\<open>QuoteSource\<close>: here the locale
  \<open>quote_polling\<close>, with the live source and the tape as its interpretations. The computation of features is a
  parameter, and so are the listeners: state transformers of whatever they keep, which may raise.
\<close>

section \<open>The tape of quotes\<close>

record tape_source =
  tq_quotes :: "(string, quote list) dict"
  tq_interval_s :: rat
  tq_last_quotes :: "(string, quote) dict"

definition file_quote :: "(string, quote list) dict \<Rightarrow> quote \<Rightarrow> (string, quote list) dict" where
  "file_quote d q = dset (q_instrument_key q) (dget_or [] d (q_instrument_key q) @ [q]) d"

definition new_tape_source :: "quote list \<Rightarrow> rat \<Rightarrow> tape_source" where
  "new_tape_source quotes interval =
     \<lparr>tq_quotes = map (\<lambda>(k, v). (k, sort_key q_receipt_ts v)) (foldl file_quote [] quotes), tq_interval_s = interval,
      tq_last_quotes = []\<rparr>"

text \<open>\<^verbatim>\<open>bisect_right\<close> on a sorted list: how many elements are at or before the instant.\<close>

definition bisect_right :: "ts list \<Rightarrow> ts \<Rightarrow> nat" where
  "bisect_right instants x = length (takeWhile (\<lambda>t. t \<le> x) instants)"

definition tape_latest :: "tape_source \<Rightarrow> string \<Rightarrow> ts \<Rightarrow> quote option" where
  "tape_latest s key now =
     (let qs = dget_or [] (tq_quotes s) key; i = bisect_right (map q_receipt_ts qs) now
      in if qs = [] \<or> i = 0 then None else Some (qs ! (i - 1)))"

fun tape_fresh :: "ts \<Rightarrow> string list \<Rightarrow> tape_source \<Rightarrow> (string, quote) dict \<Rightarrow> tape_source \<times> (string, quote) dict" where
  "tape_fresh now [] s fresh = (s, fresh)"
| "tape_fresh now (k # ks) s fresh =
     (case tape_latest s k now of
        None \<Rightarrow> tape_fresh now ks s fresh
      | Some q \<Rightarrow>
          if dget (tq_last_quotes s) k = Some q then tape_fresh now ks s fresh
          else tape_fresh now ks (s\<lparr>tq_last_quotes := dset k q (tq_last_quotes s)\<rparr>) (dset k q fresh))"

definition tape_poll :: "ts \<Rightarrow> tape_source \<Rightarrow> tape_source \<times> poll_result result" where
  "tape_poll now s =
     (case tape_fresh now (map fst (tq_quotes s)) s [] of
        (s1, fresh) \<Rightarrow> (s1, Inr \<lparr>pr_ok = True, pr_quotes = fresh, pr_missing = [], pr_rejected = []\<rparr>))"

section \<open>The market service\<close>

definition index_key :: string where
  "index_key = ''NSE:INDEX:NIFTY50''"

datatype market_event = HistoryAlert history_alert | FeaturesFailed string | ListenerFailed string

record market_service =
  ms_instruments :: "(string, instrument) dict"
  ms_history :: history_result
  ms_closes :: "(string, flt) dict"
  ms_features :: "(string, features) dict"
  ms_events :: "market_event list"

definition new_market_service :: "(string, instrument) dict \<Rightarrow> market_service" where
  "new_market_service is =
     \<lparr>ms_instruments = is, ms_history = \<lparr>hr_series = [], hr_failed = [], hr_repaired = [], hr_lagging = []\<rparr>,
      ms_closes = [], ms_features = [], ms_events = []\<rparr>"

text \<open>\<^verbatim>\<open>Decimal(str(x))\<close> of a float that may be infinite or undefined.\<close>

fun decimal_of :: "flt \<Rightarrow> flt" where
  "decimal_of (Fin x) = Fin (dec_of_float x)"
| "decimal_of x = x"

fun feature_all ::
  "(day_row list \<Rightarrow> string \<Rightarrow> features result) \<Rightarrow> (string \<times> price_series) list \<Rightarrow> market_service \<Rightarrow> market_service" where
  "feature_all compute [] m = m"
| "feature_all compute ((k, s) # rest) m =
     feature_all compute rest
       (if k = index_key then m
        else case compute (adjusted_rows s) k of
               Inl e \<Rightarrow> m\<lparr>ms_events := ms_events m @ [FeaturesFailed k]\<rparr>
             | Inr f \<Rightarrow> m\<lparr>ms_features := dset k f (ms_features m)\<rparr>)"

text \<open>The result of the history source, and what is handed to the quote source: the previous closes.\<close>

definition stock_series :: "history_result \<Rightarrow> (string \<times> price_series) list" where
  "stock_series h = filter (\<lambda>(k, s). k \<noteq> index_key) (hr_series h)"

definition load_history ::
  "(day_row list \<Rightarrow> string \<Rightarrow> features result) \<Rightarrow> history_result \<Rightarrow> market_service \<Rightarrow> market_service \<times> (string, flt) dict" where
  "load_history compute h m =
     (let m1 = m\<lparr>ms_events := ms_events m @ map HistoryAlert (alert_failures h), ms_history := h,
                 ms_closes := map (\<lambda>(k, s). (k, decimal_of (last_close s))) (stock_series h), ms_features := []\<rparr>
      in (feature_all compute (hr_series h) m1, map (\<lambda>(k, s). (k, last_close s)) (stock_series h)))"

definition daily :: "market_service \<Rightarrow> string \<Rightarrow> price_series option" where
  "daily m key = dget (hr_series (ms_history m)) key"

definition index_series :: "market_service \<Rightarrow> price_series option" where
  "index_series m = dget (hr_series (ms_history m)) index_key"

definition is_lagging :: "market_service \<Rightarrow> string \<Rightarrow> bool" where
  "is_lagging m key = (dget (hr_lagging (ms_history m)) key \<noteq> None)"

type_synonym 'w listener = "quote \<Rightarrow> 'w \<Rightarrow> 'w \<times> unit result"

fun tell_listeners :: "'w listener list \<Rightarrow> string \<Rightarrow> quote \<Rightarrow> market_service \<times> 'w \<Rightarrow> market_service \<times> 'w" where
  "tell_listeners [] key q (m, w) = (m, w)"
| "tell_listeners (l # ls) key q (m, w) =
     (case l q w of
        (w1, Inr u) \<Rightarrow> tell_listeners ls key q (m, w1)
      | (w1, Inl e) \<Rightarrow> tell_listeners ls key q (m\<lparr>ms_events := ms_events m @ [ListenerFailed key]\<rparr>, w1))"

fun tell_quotes :: "'w listener list \<Rightarrow> (string \<times> quote) list \<Rightarrow> market_service \<times> 'w \<Rightarrow> market_service \<times> 'w" where
  "tell_quotes ls [] x = x"
| "tell_quotes ls ((k, q) # rest) x = tell_quotes ls rest (tell_listeners ls k q x)"

definition market_poll ::
  "('e \<Rightarrow> 's \<Rightarrow> 's \<times> poll_result result) \<Rightarrow> 'w listener list \<Rightarrow> 'e \<Rightarrow> 's \<times> market_service \<times> 'w
   \<Rightarrow> ('s \<times> market_service \<times> 'w) \<times> poll_result result" where
  "market_poll poll ls e x =
     (case x of (s, m, w) \<Rightarrow>
        (case poll e s of
           (s1, Inl err) \<Rightarrow> ((s1, m, w), Inl err)
         | (s1, Inr r) \<Rightarrow> ((s1, tell_quotes ls (sort_key fst (pr_quotes r)) (m, w)), Inr r)))"

definition market_requote ::
  "('e \<Rightarrow> 's \<Rightarrow> 's \<times> poll_result result) \<Rightarrow> ('s \<Rightarrow> (string, quote) dict) \<Rightarrow> 'w listener list \<Rightarrow> 'e \<Rightarrow> string list
   \<Rightarrow> 's \<times> market_service \<times> 'w \<Rightarrow> ('s \<times> market_service \<times> 'w) \<times> (string, quote) dict result" where
  "market_requote poll latest ls e keys x =
     (case market_poll poll ls e x of
        (x1, Inl err) \<Rightarrow> (x1, Inl err)
      | (x1, Inr r) \<Rightarrow>
          (x1, Inr (foldl (\<lambda>d k. case dget (latest (fst x1)) k of None \<Rightarrow> d | Some q \<Rightarrow> dset k q d) [] keys)))"

definition marks :: "market_service \<Rightarrow> (string, quote) dict \<Rightarrow> (string, flt) dict" where
  "marks m last_quotes = foldl (\<lambda>d (k, q). dset k (Fin (dec_of_float (q_ltp q))) d) (ms_closes m) last_quotes"

definition market_facts_of :: "market_service \<Rightarrow> (string, quote) dict \<Rightarrow> instrument \<Rightarrow> market_facts" where
  "market_facts_of m last_quotes i =
     (let q = dget last_quotes (ins_key i); f = dget (ms_features m) (ins_key i)
      in \<lparr>mf_quote = q,
          mf_atr = Option.bind f (\<lambda>f. case ft_atr_14 f of None \<Rightarrow> None | Some a \<Rightarrow> if a = 0 then None else Some (dec_of_float a)),
          mf_adv_shares = Option.bind f ft_adv20_shares,
          mf_data_source = map_option q_source q\<rparr>)"

section \<open>What the service relies on\<close>

locale quote_polling =
  fixes poll :: "'e \<Rightarrow> 's \<Rightarrow> 's \<times> poll_result result"
    and latest :: "'s \<Rightarrow> (string, quote) dict"
  assumes poll_latest:
    "poll e s = (s1, Inr r) \<Longrightarrow> dget (latest s1) k = (case dget (pr_quotes r) k of None \<Rightarrow> dget (latest s) k | Some q \<Rightarrow> Some q)"
    and latest_distinct: "distinct (map fst (latest s)) \<Longrightarrow> poll e s = (s1, r1) \<Longrightarrow> distinct (map fst (latest s1))"
begin

lemma marks_lookup:
  "distinct (map fst qs) \<Longrightarrow>
     dget (marks m qs) k = (case dget qs k of None \<Rightarrow> dget (ms_closes m) k | Some q \<Rightarrow> Some (Fin (dec_of_float (q_ltp q))))"
  unfolding marks_def
proof (induction qs rule: rev_induct)
  case (snoc x qs)
  obtain k' q where x: "x = (k', q)" by (cases x)
  have "k' = k \<Longrightarrow> dget qs k = None" using snoc.prems by (auto simp: x map_of_eq_None_iff)
  with snoc show ?case by (auto simp: x update_conv map_add_def split: option.split)
qed simp

lemma tell_listeners_closes: "ms_closes (fst (tell_listeners ls k q x)) = ms_closes (fst x)"
  by (induction ls k q x rule: tell_listeners.induct) (auto split: prod.split sum.split)

lemma tell_quotes_closes: "ms_closes (fst (tell_quotes ls qs x)) = ms_closes (fst x)"
  by (induction ls qs x rule: tell_quotes.induct) (simp_all add: tell_listeners_closes)

lemma marks_after_poll:
  assumes "market_poll poll ls e (s, m, w) = ((s1, m1, w1), Inr r)" "distinct (map fst (latest s))"
  shows "dget (marks m1 (latest s1)) k =
           (case dget (pr_quotes r) k of
              Some q \<Rightarrow> Some (Fin (dec_of_float (q_ltp q)))
            | None \<Rightarrow> dget (marks m (latest s)) k)"
proof -
  from assms(1) have p: "poll e s = (s1, Inr r)" "ms_closes m1 = ms_closes m"
    using tell_quotes_closes [of ls "sort_key fst (pr_quotes r)" "(m, w)"]
    by (auto simp: market_poll_def split: prod.splits sum.splits)
  have "dget (marks m1 (latest s1)) k = (case dget (latest s1) k of None \<Rightarrow> dget (ms_closes m) k | Some q \<Rightarrow> Some (Fin (dec_of_float (q_ltp q))))"
    unfolding marks_lookup [OF latest_distinct [OF assms(2) p(1)]] p(2) ..
  then show ?thesis
    using marks_lookup [OF assms(2), of m k] poll_latest [OF p(1), of k] by (simp split: option.split)
qed

lemma requote_serves_latest:
  assumes "market_requote poll latest ls e keys (s, m, w) = ((s1, m1, w1), Inr quotes)"
  shows "dget quotes k = (if k \<in> set keys then dget (latest s1) k else None)"
proof -
  from assms have q: "quotes = foldl (\<lambda>d k. case dget (latest s1) k of None \<Rightarrow> d | Some q \<Rightarrow> dset k q d) [] keys"
    by (auto simp: market_requote_def split: prod.splits sum.splits)
  have "dget (foldl (\<lambda>d k. case dget (latest s1) k of None \<Rightarrow> d | Some q \<Rightarrow> dset k q d) [] keys) k
      = (if k \<in> set keys then dget (latest s1) k else None)"
    by (induction keys rule: rev_induct) (auto simp: update_conv split: option.split)
  with q show ?thesis by simp
qed

end

section \<open>The live source keeps the contract\<close>

lemma accept_each_keys:
  assumes "accept_each now items s quotes rejected = (s1, r)"
  shows "qs_last_quotes s1 = qs_last_quotes s"
    and "r = Inr (qs, rej) \<Longrightarrow> distinct (map fst quotes) \<Longrightarrow> distinct (map fst qs)"
  using assms
  by (induction now items s quotes rejected rule: accept_each.induct)
    (auto simp: Let_def distinct_update split: option.splits sum.splits)

lemma poll_failed_latest:
  "poll_failed now s = (s1, r) \<Longrightarrow>
     qs_last_quotes s1 = qs_last_quotes s \<and> r = Inr \<lparr>pr_ok = False, pr_quotes = [], pr_missing = [], pr_rejected = []\<rparr>"
  by (auto simp: poll_failed_def Let_def split: if_splits)

lemma mark_feed_up_latest: "mark_feed_up now s = (s1, r) \<Longrightarrow> qs_last_quotes s1 = qs_last_quotes s"
  by (auto simp: mark_feed_up_def Let_def split: option.splits if_splits)

lemma accept_raw_latest:
  assumes "accept_raw now raw s = (s1, r)"
  shows "case r of Inl e \<Rightarrow> qs_last_quotes s1 = qs_last_quotes s
         | Inr p \<Rightarrow> distinct (map fst (pr_quotes p))
             \<and> qs_last_quotes s1 = foldl (\<lambda>d (k, q). dset k q d) (qs_last_quotes s) (pr_quotes p)"
proof -
  obtain s0 r0 where m: "mark_feed_up now s = (s0, r0)" by fastforce
  note l0 = mark_feed_up_latest [OF m]
  obtain s2 r2 where a: "accept_each now (sort_key fst raw) s0 [] [] = (s2, r2)" by fastforce
  have l: "qs_last_quotes s2 = qs_last_quotes s" using accept_each_keys(1) [OF a] l0 by simp
  show ?thesis
  proof (cases r0)
    case (Inl e)
    with assms m l0 show ?thesis by (auto simp: accept_raw_def)
  next
    case up: (Inr u)
    show ?thesis
    proof (cases r2)
      case (Inl e)
      with assms m up a l show ?thesis by (auto simp: accept_raw_def)
    next
      case (Inr x)
      obtain qs rej where x: "x = (qs, rej)" by (cases x)
      have "distinct (map fst qs)" using accept_each_keys(2) [OF a] Inr x by simp
      with assms m up a l Inr x show ?thesis
        by (auto simp: accept_raw_def Let_def update_staleness_frame split: prod.splits sum.splits)
    qed
  qed
qed

lemma distinct_updates: "distinct (map fst d) \<Longrightarrow> distinct (map fst (foldl (\<lambda>d (k, q). dset k q d) d qs))"
  by (induction qs arbitrary: d) (auto simp: distinct_update)

lemma poll_source_latest:
  assumes "poll_source f dl n s = (s1, r)"
  shows "r = Inr p \<Longrightarrow> dget (qs_last_quotes s1) k = (case dget (pr_quotes p) k of None \<Rightarrow> dget (qs_last_quotes s) k | Some q \<Rightarrow> Some q)"
    and "distinct (map fst (qs_last_quotes s)) \<Longrightarrow> distinct (map fst (qs_last_quotes s1))"
proof -
  have "(\<exists>s0. qs_last_quotes s0 = qs_last_quotes s \<and> poll_failed n s0 = (s1, r))
      \<or> (\<exists>s0 raw. qs_last_quotes s0 = qs_last_quotes s \<and> accept_raw n raw s0 = (s1, r))"
    using assms unfolding poll_source_def Let_def
    by (auto split: if_splits download.splits sum.splits)
  then have *: "(qs_last_quotes s1 = qs_last_quotes s \<and> (\<forall>p. r = Inr p \<longrightarrow> pr_quotes p = []))
      \<or> (\<exists>p. r = Inr p \<and> distinct (map fst (pr_quotes p))
              \<and> qs_last_quotes s1 = foldl (\<lambda>d (k, q). dset k q d) (qs_last_quotes s) (pr_quotes p))"
    by (auto dest!: poll_failed_latest accept_raw_latest split: sum.splits)
  then show "r = Inr p \<Longrightarrow> dget (qs_last_quotes s1) k = (case dget (pr_quotes p) k of None \<Rightarrow> dget (qs_last_quotes s) k | Some q \<Rightarrow> Some q)"
    by (auto simp: dget_updates)
  from * show "distinct (map fst (qs_last_quotes s)) \<Longrightarrow> distinct (map fst (qs_last_quotes s1))"
    by (auto simp: distinct_updates)
qed

interpretation live_feed: quote_polling "\<lambda>(f, dl, n). poll_source f dl n" qs_last_quotes
  by unfold_locales (auto dest: poll_source_latest)

section \<open>The tape keeps the contract\<close>

lemma tape_fresh_latest:
  assumes "tape_fresh now ks s fresh = (s1, fresh1)"
    and "\<forall>k. dget (tq_last_quotes s) k = (case dget fresh k of None \<Rightarrow> dget l k | Some q \<Rightarrow> Some q)"
  shows "\<forall>k. dget (tq_last_quotes s1) k = (case dget fresh1 k of None \<Rightarrow> dget l k | Some q \<Rightarrow> Some q)"
  using assms
proof (induction now ks s fresh rule: tape_fresh.induct)
  case (2 now k ks s fresh)
  show ?case
  proof (cases "tape_latest s k now")
    case None
    with 2 show ?thesis by simp
  next
    case (Some q)
    show ?thesis
    proof (cases "dget (tq_last_quotes s) k = Some q")
      case True
      with 2 Some show ?thesis by simp
    next
      case False
      from "2.prems"(1) Some False
      have "tape_fresh now ks (s\<lparr>tq_last_quotes := dset k q (tq_last_quotes s)\<rparr>) (dset k q fresh) = (s1, fresh1)" by simp
      from "2.IH"(3) [OF Some False this] "2.prems"(2) show ?thesis by (simp add: update_conv)
    qed
  qed
qed simp

lemma tape_fresh_distinct:
  "tape_fresh now ks s fresh = (s1, fresh1) \<Longrightarrow> distinct (map fst (tq_last_quotes s)) \<Longrightarrow> distinct (map fst (tq_last_quotes s1))"
  by (induction now ks s fresh rule: tape_fresh.induct) (auto simp: distinct_update split: option.splits if_splits)

interpretation tape_feed: quote_polling tape_poll tq_last_quotes
proof
  fix e s s1 r k assume "tape_poll e s = (s1, Inr r)"
  then have "tape_fresh e (map fst (tq_quotes s)) s [] = (s1, pr_quotes r)" by (auto simp: tape_poll_def split: prod.splits)
  from tape_fresh_latest [OF this, of "tq_last_quotes s"]
  show "dget (tq_last_quotes s1) k = (case dget (pr_quotes r) k of None \<Rightarrow> dget (tq_last_quotes s) k | Some q \<Rightarrow> Some q)" by simp
next
  fix e s s1 r1 assume "distinct (map fst (tq_last_quotes s))" "tape_poll e s = (s1, r1)"
  then show "distinct (map fst (tq_last_quotes s1))" by (auto simp: tape_poll_def tape_fresh_distinct split: prod.splits)
qed

section \<open>A replay never looks ahead\<close>

lemma tape_fresh_result:
  assumes "distinct ks" "tape_fresh now ks s fresh = (s1, fresh1)"
  shows "tq_quotes s1 = tq_quotes s \<and> dget (tq_last_quotes s1) k =
           (if k \<in> set ks then (case tape_latest s k now of None \<Rightarrow> dget (tq_last_quotes s) k | Some q \<Rightarrow> Some q)
            else dget (tq_last_quotes s) k)"
  using assms
proof (induction ks arbitrary: s fresh)
  case (Cons k' ks)
  have same: "tape_latest (s\<lparr>tq_last_quotes := d\<rparr>) j now = tape_latest s j now" for d j by (simp add: tape_latest_def)
  show ?case
  proof (cases "tape_latest s k' now")
    case None
    with Cons show ?thesis by auto
  next
    case (Some q)
    show ?thesis
    proof (cases "dget (tq_last_quotes s) k' = Some q")
      case True
      with Cons Some show ?thesis by auto
    next
      case False
      from Cons.prems Some False
      have "tape_fresh now ks (s\<lparr>tq_last_quotes := dset k' q (tq_last_quotes s)\<rparr>) (dset k' q fresh) = (s1, fresh1)" by simp
      from Cons.IH [OF _ this] Cons.prems(1) Some show ?thesis by (auto simp: same update_conv split: option.split)
    qed
  qed
qed simp

lemma file_quotes:
  "dget (foldl file_quote [] quotes) k =
     (if filter (\<lambda>q. q_instrument_key q = k) quotes = [] then None else Some (filter (\<lambda>q. q_instrument_key q = k) quotes))
   \<and> distinct (map fst (foldl file_quote [] quotes))"
proof (induction quotes rule: rev_induct)
  case (snoc q quotes)
  show ?case
  proof (cases "q_instrument_key q = k")
    case True
    with snoc show ?thesis by (simp add: file_quote_def update_conv distinct_update dget_or_def True)
  next
    case False
    with snoc show ?thesis by (simp add: file_quote_def update_conv distinct_update)
  qed
qed simp

lemma dget_map_value: "dget (map (\<lambda>(k, v). (k, f v)) d) k = map_option f (dget d k)"
  by (induction d) auto

lemma tape_quotes:
  "dget_or [] (tq_quotes (new_tape_source quotes iv)) k = sort_key q_receipt_ts (filter (\<lambda>q. q_instrument_key q = k) quotes)"
  "distinct (map fst (tq_quotes (new_tape_source quotes iv)))"
  "k \<notin> fst ` set (tq_quotes (new_tape_source quotes iv)) \<Longrightarrow> filter (\<lambda>q. q_instrument_key q = k) quotes = []"
proof -
  have d: "dget (tq_quotes (new_tape_source quotes iv)) k = map_option (sort_key q_receipt_ts) (dget (foldl file_quote [] quotes) k)"
    by (simp add: new_tape_source_def dget_map_value)
  with file_quotes [of quotes k] show "dget_or [] (tq_quotes (new_tape_source quotes iv)) k
      = sort_key q_receipt_ts (filter (\<lambda>q. q_instrument_key q = k) quotes)"
    by (simp add: dget_or_def)
  have "map fst (tq_quotes (new_tape_source quotes iv)) = map fst (foldl file_quote [] quotes)"
    by (simp add: new_tape_source_def comp_def case_prod_beta)
  with file_quotes [of quotes k] show "distinct (map fst (tq_quotes (new_tape_source quotes iv)))" by simp
  show "k \<notin> fst ` set (tq_quotes (new_tape_source quotes iv)) \<Longrightarrow> filter (\<lambda>q. q_instrument_key q = k) quotes = []"
    using d file_quotes [of quotes k] by (auto simp flip: map_of_eq_None_iff split: if_splits)
qed

lemma bisect_last:
  assumes "sorted (map r qs)" "i = bisect_right (map r qs) now"
  shows "i = 0 \<Longrightarrow> \<forall>q \<in> set qs. now < r q"
    and "i \<noteq> 0 \<Longrightarrow> qs ! (i - 1) \<in> set qs \<and> r (qs ! (i - 1)) \<le> now \<and> (\<forall>q \<in> set qs. r q \<le> now \<longrightarrow> r q \<le> r (qs ! (i - 1)))"
proof -
  have i: "i = length (takeWhile (\<lambda>q. r q \<le> now) qs)" using assms(2) by (simp add: bisect_right_def takeWhile_map comp_def)
  have after: "now < r (qs ! j)" if "i \<le> j" "j < length qs" for j
  proof -
    have "\<not> r (qs ! i) \<le> now" using that nth_length_takeWhile [of "\<lambda>q. r q \<le> now" qs] by (simp add: i)
    moreover have "r (qs ! i) \<le> r (qs ! j)" using assms(1) that by (simp add: sorted_iff_nth_mono)
    ultimately show ?thesis by simp
  qed
  show "i = 0 \<Longrightarrow> \<forall>q \<in> set qs. now < r q" using after by (auto simp: in_set_conv_nth)
  assume "i \<noteq> 0"
  have len: "i \<le> length qs" by (simp add: i length_takeWhile_le)
  have "qs ! (i - 1) = takeWhile (\<lambda>q. r q \<le> now) qs ! (i - 1)" using \<open>i \<noteq> 0\<close> by (simp add: i takeWhile_nth)
  then have "r (qs ! (i - 1)) \<le> now" using \<open>i \<noteq> 0\<close> nth_mem [of "i - 1" "takeWhile (\<lambda>q. r q \<le> now) qs"]
    by (metis i set_takeWhileD diff_less length_greater_0_conv list.size(3) zero_less_one gr0I)
  moreover have "r (qs ! j) \<le> r (qs ! (i - 1))" if "j < length qs" "r (qs ! j) \<le> now" for j
  proof -
    have "j < i" using after [of j] that by force
    then show ?thesis using assms(1) len by (simp add: sorted_iff_nth_mono)
  qed
  ultimately show "qs ! (i - 1) \<in> set qs \<and> r (qs ! (i - 1)) \<le> now \<and> (\<forall>q \<in> set qs. r q \<le> now \<longrightarrow> r q \<le> r (qs ! (i - 1)))"
    using \<open>i \<noteq> 0\<close> len by (auto simp: in_set_conv_nth) (metis Suc_pred less_eq_Suc_le)
qed

lemma tape_latest_spec:
  "case tape_latest (new_tape_source quotes iv) k now of
           None \<Rightarrow> \<forall>q \<in> set quotes. q_instrument_key q = k \<longrightarrow> now < q_receipt_ts q
         | Some q \<Rightarrow> q \<in> set quotes \<and> q_instrument_key q = k \<and> q_receipt_ts q \<le> now
             \<and> (\<forall>q' \<in> set quotes. q_instrument_key q' = k \<and> q_receipt_ts q' \<le> now \<longrightarrow> q_receipt_ts q' \<le> q_receipt_ts q)"
proof -
  let ?qs = "sort_key q_receipt_ts (filter (\<lambda>q. q_instrument_key q = k) quotes)" and ?init = "new_tape_source quotes iv"
  define i where "i = bisect_right (map q_receipt_ts ?qs) now"
  have l: "tape_latest ?init k now = (if ?qs = [] \<or> i = 0 then None else Some (?qs ! (i - 1)))"
    by (simp add: tape_latest_def tape_quotes(1) i_def Let_def)
  have srt: "sorted (map q_receipt_ts ?qs)" by simp
  note b = bisect_last [OF srt i_def]
  show ?thesis
  proof (cases "i = 0")
    case True
    with b(1) l show ?thesis by simp
  next
    case False
    have "?qs \<noteq> []" using False by (auto simp: i_def bisect_right_def)
    with b(2) [OF False] l False show ?thesis by simp
  qed
qed

lemma tape_latest_later:
  assumes "tape_latest (new_tape_source quotes iv) k now = None" "before \<le> now"
  shows "tape_latest (new_tape_source quotes iv) k before = None"
  using tape_latest_spec [where quotes = quotes and iv = iv and k = k and now = before] tape_latest_spec [where quotes = quotes and iv = iv and k = k and now = now] assms
  by (cases "tape_latest (new_tape_source quotes iv) k before") force+

definition tape_run :: "ts list \<Rightarrow> tape_source \<Rightarrow> tape_source" where
  "tape_run instants s = fold (\<lambda>now s. fst (tape_poll now s)) instants s"

lemma tape_run_latest:
  assumes "sorted instants" "instants \<noteq> []"
  shows "tq_quotes (tape_run instants (new_tape_source quotes iv)) = tq_quotes (new_tape_source quotes iv)
         \<and> dget (tq_last_quotes (tape_run instants (new_tape_source quotes iv))) k
             = tape_latest (new_tape_source quotes iv) k (last instants)"
  using assms
proof (induction instants rule: rev_induct)
  case (snoc now instants)
  let ?init = "new_tape_source quotes iv" and ?s = "tape_run instants (new_tape_source quotes iv)"
  have "tq_quotes ?s = tq_quotes ?init
      \<and> dget (tq_last_quotes ?s) k = (if instants = [] then None else tape_latest ?init k (last instants))"
  proof (cases "instants = []")
    case True
    then show ?thesis by (simp add: tape_run_def new_tape_source_def)
  next
    case False
    with snoc.IH snoc.prems(1) show ?thesis unfolding sorted_append if_not_P [OF False] by blast
  qed
  then have before: "tq_quotes ?s = tq_quotes ?init"
      "dget (tq_last_quotes ?s) k = (if instants = [] then None else tape_latest ?init k (last instants))" by blast+
  have earlier: "instants \<noteq> [] \<Longrightarrow> last instants \<le> now" using snoc.prems by (simp add: sorted_append)
  have same: "tape_latest ?s k now = tape_latest ?init k now" using before(1) by (simp add: tape_latest_def)
  obtain s1 fresh where f: "tape_fresh now (map fst (tq_quotes ?s)) ?s [] = (s1, fresh)" by fastforce
  have run: "tape_run (instants @ [now]) ?init = s1" using f by (simp add: tape_run_def tape_poll_def)
  have "distinct (map fst (tq_quotes ?s))" using tape_quotes(2) before(1) by metis
  note r = tape_fresh_result [OF this f, of k]
  have "dget (tq_last_quotes s1) k = tape_latest ?init k now"
  proof (cases "k \<in> set (map fst (tq_quotes ?s))")
    case True
    show ?thesis
    proof (cases "tape_latest ?init k now")
      case None
      then have "dget (tq_last_quotes ?s) k = None" using before(2) tape_latest_later [OF None] earlier by simp
      with r True None same show ?thesis by simp
    qed (use r True same in simp)
  next
    case False
    then have "filter (\<lambda>q. q_instrument_key q = k) quotes = []" using tape_quotes(3) [of k quotes iv] before(1) by simp
    then have "tape_latest ?init k t = None" for t by (simp add: tape_latest_def tape_quotes(1))
    with r False before(2) show ?thesis by simp
  qed
  with r before(1) run show ?case by simp
qed simp

text \<open>C38: A replay sees at every moment exactly what had been received by then: after any polls at instants that do not
  go back, the latest quote of an instrument is a taped quote of that instrument received at or before the last poll
  and no earlier than any other such quote, and there is none exactly if the tape has none received by then.\<close>

theorem tape_never_looks_ahead:
  assumes "sorted instants" "instants \<noteq> []"
  shows "case dget (tq_last_quotes (tape_run instants (new_tape_source quotes iv))) k of
           None \<Rightarrow> \<forall>q \<in> set quotes. q_instrument_key q = k \<longrightarrow> last instants < q_receipt_ts q
         | Some q \<Rightarrow> q \<in> set quotes \<and> q_instrument_key q = k \<and> q_receipt_ts q \<le> last instants
             \<and> (\<forall>q' \<in> set quotes. q_instrument_key q' = k \<and> q_receipt_ts q' \<le> last instants
                  \<longrightarrow> q_receipt_ts q' \<le> q_receipt_ts q)"
  using tape_latest_spec [where quotes = quotes and iv = iv and k = k and now = "last instants"] tape_run_latest [OF assms, of quotes iv k] by simp

definition taped_quote :: "rat \<Rightarrow> ts \<Rightarrow> quote" where
  "taped_quote p t =
     \<lparr>q_instrument_key = ''NSE:EQ:INFY'', q_ltp = p, q_bid = None, q_ask = None, q_prev_close = None, q_volume_cum = 0,
      q_exchange_ts = t, q_receipt_ts = t, q_source = YFINANCE, q_is_delayed = True\<rparr>"

theorem tape_never_looks_ahead_witness:
  "\<exists>q. dget (tq_last_quotes (tape_run [2, 5] (new_tape_source [taped_quote 101 4, taped_quote 100 1, taped_quote 102 9] 60)))
         ''NSE:EQ:INFY'' = Some q \<and> q_receipt_ts q \<le> 5 \<and> q_ltp q = 101"
proof -
  let ?tape = "[taped_quote 101 4, taped_quote 100 1, taped_quote 102 9]"
  have "sorted [2, 5 :: ts]" "[2, 5 :: ts] \<noteq> []" by simp_all
  from tape_never_looks_ahead [OF this, where quotes = ?tape and iv = 60 and k = "''NSE:EQ:INFY''"] show ?thesis
    by (auto simp: taped_quote_def split: option.splits)
qed

text \<open>Marks after a poll of the live source and of the tape: a fresh quote, or the mark there was.\<close>

lemmas live_marks = live_feed.marks_after_poll
lemmas tape_marks = tape_feed.marks_after_poll

end
