(* ===== verification/Spec2Isabelle.thy ===== *)
theory Spec2Isabelle
  imports Lifecycle Sim_Broker_Inv Book_Rounding OMS_Recon Risk_Batch Exit_Orders Outage Store_Props Shadow_Props Replay_Clock Market_Service
begin

text \<open>
  \<^bold>\<open>RakshaQuant: a verification library.\<close> RakshaQuant is a paper-trading engine for the Indian exchange NSE,
  written in Python under \<^verbatim>\<open>src/src\<close>. Signals of four strategies become proposals, an optional advisor may
  veto them, a risk gate sizes or blocks them, an order manager submits them to a simulated broker, and an
  exit manager protects what was bought; everything that happens is an event in an append-only log. This
  library translates that core into definitions and proves what makes it correct. Paths below are relative
  to \<^verbatim>\<open>src/src\<close>.

  \<^bold>\<open>How the parts work together.\<close>
  The lifecycle turns the calendar into the phases of a day. The market service loads the daily history before
  the open and then polls quotes; every accepted quote goes to the simulated broker (which may fill orders) and
  to the exit manager (which may exit). In the entry window the decision engine scans the universe, applies the
  regime gate, asks the book's advisor and submits through the order manager, which asks the risk gate for the
  quantity. The gate builds a snapshot from book, marks, day state, kill switches and HALT file and lets the risk
  engine evaluate its table of checks. The monitor marks the book, feeds the day state and trips kill switches;
  the flattener closes everything on FLATTEN. Events of all of them go to the store, whose tables are
  projections of the log; order manager, day state, switches, language-model ledger and the counterfactual
  ledger restart from stored events or stored state.

  \<^bold>\<open>Theories and sources.\<close>

  \<^item> Foundations. \<open>Prelude\<close>: Python exceptions as values (\<open>Inl\<close> a raise, \<open>Inr\<close> a return) and dictionaries as
    association lists in insertion order. \<open>Py_Numeric\<close>: \<^verbatim>\<open>Decimal\<close> with 28 digits and binary64 floats as
    rationals rounded after every operation (\<open>dec28\<close>, \<open>fl64\<close>). \<open>Py_Text\<close>: text, \<^verbatim>\<open>float(text)\<close> and floats that
    can be infinite or undefined (\<open>flt\<close>). \<open>Domain_Types\<close>: \<^verbatim>\<open>domain/types.py\<close>. \<open>Calendar\<close>:
    \<^verbatim>\<open>domain/calendar.py\<close>, \<^verbatim>\<open>utils/market_time.py\<close>.
  \<^item> Broker. \<open>Costs\<close> and \<open>Fill_Model\<close> (\<^verbatim>\<open>brokers/simulated/costs.py\<close>, \<^verbatim>\<open>fill_model.py\<close>), \<open>Broker_Base\<close>
    (\<^verbatim>\<open>brokers/base.py\<close>), \<open>Sim_Broker\<close> (\<^verbatim>\<open>brokers/simulated/broker.py\<close>, one definition per public or private
    method). \<open>Sim_Broker_Steps\<close> shows that every operation is a sequence of five elementary steps,
    \<open>Sim_Broker_Inv\<close> proves the invariants over the steps.
  \<^item> Order management. \<open>Position_Book\<close> (\<^verbatim>\<open>oms/position_book.py\<close>) with the interface \<open>fill_ledger\<close> of what its
    clients rely on, in exact arithmetic; \<open>Book_Rounding\<close>, the same book with every operation rounded (the names end in
    28) and the proof that both agree in range; \<open>OMS\<close> (\<^verbatim>\<open>oms/oms.py\<close>), \<open>OMS_Steps\<close>, \<open>OMS_Inv\<close>, \<open>OMS_Props\<close>, \<open>OMS_Recon\<close> in the same manner;
    \<open>Exit_Manager\<close> (\<^verbatim>\<open>oms/exit_manager.py\<close>), \<open>Exit_Props\<close>, \<open>Exit_Orders\<close>. The managed positions are objects
    in a store, because an awaited broker call can change a position under the running method.
  \<^item> Risk. \<open>Risk_Events\<close>, \<open>Risk_Base\<close>, \<open>Risk_Checks\<close>, \<open>Risk_Engine\<close>, \<open>Risk_Props\<close>, \<open>Risk_Batch\<close>
    (\<^verbatim>\<open>risk/events.py\<close>, \<^verbatim>\<open>config/limits.py\<close>, \<^verbatim>\<open>risk/snapshot.py\<close>, \<^verbatim>\<open>risk/checks/*.py\<close>, \<^verbatim>\<open>risk/engine.py\<close>);
    the interface \<open>sound_check\<close> says what a check guarantees of the quantity it lets through and is interpreted for
    each check of the default table. \<open>Risk_State\<close> (\<^verbatim>\<open>risk/state.py\<close>), \<open>Kill_Switch\<close> (\<^verbatim>\<open>risk/kill_switch.py\<close>),
    \<open>Risk_Gate\<close> and \<open>Gate_Props\<close> (\<^verbatim>\<open>risk/marks.py\<close>, \<^verbatim>\<open>risk/gate.py\<close>, \<^verbatim>\<open>risk/utilisation.py\<close>), \<open>Risk_Monitor\<close>
    (\<^verbatim>\<open>risk/monitor.py\<close> and the flattener of \<^verbatim>\<open>risk/kill_switch.py\<close>).
  \<^item> Decisions. \<open>Strategies\<close>, \<open>Strategy_Props\<close> (\<^verbatim>\<open>strategies/*.py\<close>, \<^verbatim>\<open>features/regime.py\<close> and the feature record),
    \<open>Decision\<close> (\<^verbatim>\<open>decision/engine.py\<close>), \<open>Advisors\<close> (\<^verbatim>\<open>decision/advisors/*.py\<close>), \<open>Evidence\<close>
    (\<^verbatim>\<open>llm/prompts/base.py\<close>, \<^verbatim>\<open>evidence.py\<close>), \<open>Outage\<close> (what a cycle does when every model fails).
  \<^item> Models. \<open>LLM_Registry\<close>, \<open>LLM_Router\<close>, \<open>LLM_Props\<close>, \<open>LLM_Budget\<close>, \<open>LLM_Chain\<close> (\<^verbatim>\<open>llm/registry.py\<close>, \<^verbatim>\<open>pricing.py\<close>,
    \<^verbatim>\<open>types.py\<close>, \<^verbatim>\<open>router.py\<close>), \<open>Cascade\<close>, \<open>Cascade_Props\<close> (\<^verbatim>\<open>decision_models/base.py\<close>, \<^verbatim>\<open>cascade.py\<close>).
  \<^item> Time, data, records. \<open>Lifecycle\<close> (\<^verbatim>\<open>engine/lifecycle.py\<close>), \<open>Replay_Clock\<close>
    (\<^verbatim>\<open>domain/clock.py\<close>), \<open>Quote_Feed\<close>, \<open>Quote_Props\<close> (\<^verbatim>\<open>marketdata/validation.py\<close>,
    \<^verbatim>\<open>yfinance_source.py\<close>), \<open>Daily_History\<close>, \<open>History_Props\<close> (\<^verbatim>\<open>marketdata/history.py\<close>), \<open>Market_Service\<close>
    (\<^verbatim>\<open>engine/market.py\<close>, \<^verbatim>\<open>marketdata/replay.py\<close>; the locale \<open>quote_polling\<close> is the protocol between the service
    and its source, interpreted for the live source and the tape), \<open>Event_Store\<close>, \<open>Store_Props\<close>
    (\<^verbatim>\<open>domain/events.py\<close>, \<^verbatim>\<open>store/event_store.py\<close>, \<^verbatim>\<open>projections.py\<close>, \<^verbatim>\<open>sink.py\<close>), \<open>Shadow_Ledger\<close>,
    \<open>Shadow_Props\<close> (\<^verbatim>\<open>evaluation/shadow_ledger.py\<close>).

  A class is a record of its attributes and a method is a definition of the same name on that record, with every
  early return, raise and change of state; a Pydantic validator is a predicate; the events a method emits are a
  list in the state or in the result. A step function with the suffix \<open>_do\<close> and a fold with the suffix \<open>_run\<close>
  give the sequences of public operations over which the invariants are stated.

  \<^bold>\<open>What the lemmas show.\<close>
  Position book and broker: money is conserved to the last digit also in rounded arithmetic (amounts on four decimals,
  within the bounds of \<open>fill_fits\<close>), closing is first-in first-out, broker and book agree; with a valid configuration, as
  long as no sale costs more than its notional, available cash never goes negative (delivery holdings stay covered only
  while no working sell is modified to a larger quantity, \<open>Sim_Broker_Inv.modify_order_uncovers\<close>). Order manager: orders stay valid, submission is
  gated, recorded first and idempotent, a restart from the events rebuilds book and orders, reconciliation finds
  exactly the differences. Risk: the engine approves exactly the largest quantity all checks allow, an approved
  entry had a clear system and stays within every limit (also within a batch), exits pass, switches latch, the day
  state survives restarts, a loss stops entries. Exits: every managed position has a resting stop or is known
  to be without one, exit orders only reduce, a trailing stop does not loosen. Decisions: every signal is
  disposed of once per book, only approved proposals are submitted, a veto is grounded, an outage of all models
  changes nothing but the advice. Models: spend stays within the caps up to the calls in flight, the chain is
  tried in order, the ledger survives a restart, the parser of durations returns. Store and ledger: tables are the
  projection of the log, the orders table shows the orders, every counterfactual is counted once and follows its
  exit rules. The replay clock always comes to the end of a drive and wakes
  sleepers in order. Data: served quotes are valid, in band and in volume order, a taped history is rebuilt with the
  same bars, and a replay sees exactly what had been received by the time of the clock.

  \<^bold>\<open>Numbers, time, bounds and fuel.\<close>
  Money and prices are rationals. Float operations are followed by their rounding to 53 bits, with an unbounded exponent,
  so overflow and underflow of prices are outside the model; where a value can be infinite or undefined the
  type is \<open>flt\<close>. A \<^verbatim>\<open>Decimal\<close> quotient is followed by its rounding to 28 significant digits (half even), and so is
  every sum, difference and product in risk, exits, sizing, model costs and the counterfactual ledger. The position
  book, the simulated broker's cash and cost, the charges and the cash comparison of the reconciliation add and multiply exactly:
  their operands are ticks, paise, shares, rates and quotes, and for the book \<open>Book_Rounding\<close> proves that rounding would change nothing. Instants are microseconds, dates are days since 1970-01-01, quantities are unbounded integers, as
  in Python. There is no fuel anywhere: recursion is structural or has a measure. The calendar scans are bounded
  by the limits the source gives them. The loops that could run forever are \<open>partial_function\<close>s whose result
  is proved to exist (the scan of rate-limit durations and the wake loop of the replay clock).

  \<^bold>\<open>Concurrency.\<close>
  The program is a single asyncio loop, so code between two awaits is atomic. An await of the broker is modelled by
  the notices (updates and fills) that arrive during it, handled by the order manager's own listener; the exit
  manager's listener runs on the same fills, and operations of the exit manager may find their position replaced.
  Router calls interleave at the await of the client: a transition system with any number of calls in flight. The
  gate does not suspend between its decision and the registration of the order; resolving unknown orders and
  reconciliation are taken as atomic; the clock is read once per method. Advisors are functions of
  the proposal with arbitrary outcomes. A database error is a fault of one insertion, with the rollback that follows.

  \<^bold>\<open>Not modelled.\<close>
  File, network, database and process input and output (\<^verbatim>\<open>store/sqlite.py\<close>, \<^verbatim>\<open>store/tape.py\<close>, \<^verbatim>\<open>ops\<close>,
  \<^verbatim>\<open>notifications\<close>, \<^verbatim>\<open>reference\<close>, \<^verbatim>\<open>config/settings.py\<close>): the parsed contents are parameters. The indicator
  formulas of \<^verbatim>\<open>features/technical.py\<close> and the statistics of \<^verbatim>\<open>backtesting\<close> and of the reports are pandas, numpy
  and ta computations. Model inference, calibration and HTTP clients (\<^verbatim>\<open>decision_models/adapters.py\<close>,
  \<^verbatim>\<open>calibration.py\<close>, \<^verbatim>\<open>llm/clients\<close>) are the external systems whose replies are parameters. The remaining parts
  (market-data downloads, reports, the web console, backtests) read or present what the modelled core produces.
  Texts that are only displayed or logged, latencies and JSON encodings are left out
  everywhere; hashes and time-ordered identifiers are parameters, with freshness as a named hypothesis where
  a property needs it.
\<close>

section \<open>Broker and position book\<close>

lemma broker_calls_ok:
  assumes "fills_inv cfg s"
  shows "\<forall>c \<in> set (broker_calls s). fill_valid (fst c) \<and> f_book_id (fst c) = sc_book_id cfg"
    and "fresh_fills {} (broker_calls s) = broker_calls s"
proof -
  show "\<forall>c \<in> set (broker_calls s). fill_valid (fst c) \<and> f_book_id (fst c) = sc_book_id cfg"
    using assms by (auto simp: fills_inv_def broker_calls_def)
  have "map fc_id (broker_calls s) = map f_fill_id (ss_fills s)" by (simp add: broker_calls_def)
  then show "fresh_fills {} (broker_calls s) = broker_calls s"
    using assms fresh_fills_distinct [of "broker_calls s" "{}"] by (simp add: fills_inv_def)
qed

text \<open>C16: The broker's own records and the position book computed from its fills always agree. After any
  sequence of broker operations, feeding the broker's trades to a new position book succeeds and
  gives, for every instrument and product, the position the broker reports, and a cash balance
  equal to the broker's settled cash plus its unsettled sale proceeds.\<close>

theorem broker_and_book_agree:
  assumes "config_ok cfg" "sim_run cfg (new_broker c0) ops = Inr s"
  shows "\<exists>pb. fold_fills apply_fill (new_book (sc_book_id cfg) c0) (broker_calls s) = Inr pb
    \<and> (\<forall>ik pr. pb_quantity pb ik pr = sp_quantity (pos_of s (ik, pr)))
    \<and> pb_cash pb = ss_cash s + sum_list (map snd (ss_unsettled s))"
proof -
  have inv: "fills_inv cfg s" "positions_inv s" "money s = c0 + sum_list (map cash_flow (ss_fills s))"
    using run_from_new(2) [OF assms] by (simp_all add: broker_inv_def)
  note ok = broker_calls_ok [OF inv(1)]
  let ?nb = "new_book (sc_book_id cfg) c0"
  have nb: "pb_book_id ?nb = sc_book_id cfg" "pb_seen ?nb = {}" "pb_cash ?nb = c0" "pb_quantity ?nb ik pr = 0" for ik pr
    by (simp_all add: new_book_def pb_quantity_def)
  obtain pb where r: "fold_fills apply_fill ?nb (broker_calls s) = Inr pb"
    using pbl.fold_total [of "broker_calls s" ?nb] ok(1) nb by auto
  have "pb_quantity pb ik pr = sp_quantity (pos_of s (ik, pr))
      \<and> pb_cash pb = c0 + sum_list (map (cash_flow \<circ> fst) (broker_calls s))" for ik pr
    using pbl.fold_refines [OF r new_book_inv, of ik pr] ok nb inv(2) by (simp add: positions_inv_def)
  moreover have "map (cash_flow \<circ> fst) (broker_calls s) = map cash_flow (ss_fills s)"
    by (simp add: broker_calls_def)
  ultimately show ?thesis using r inv(3) by (simp add: money_def)
qed

theorem broker_and_book_agree_witness:
  "\<exists>s pb. sim_run sample_config (new_broker 5000) sample_ops = Inr s
     \<and> fold_fills apply_fill (new_book (sc_book_id sample_config) 5000) (broker_calls s) = Inr pb
     \<and> pb_quantity pb ''NSE:EQ:INFY'' MIS = sp_quantity (pos_of s (''NSE:EQ:INFY'', MIS))"
proof -
  from sample_run_ok obtain s where r: "sim_run sample_config (new_broker 5000) sample_ops = Inr s
    \<and> map f_quantity (ss_fills s) = [6] \<and> list_all (\<lambda>f. f_side f = BUY) (ss_fills s)" ..
  note s = r [THEN conjunct1]
  from broker_and_book_agree [OF sample_config_ok s] obtain pb where
    pb: "fold_fills apply_fill (new_book (sc_book_id sample_config) 5000) (broker_calls s) = Inr pb
      \<and> (\<forall>ik pr. pb_quantity pb ik pr = sp_quantity (pos_of s (ik, pr)))
      \<and> pb_cash pb = ss_cash s + sum_list (map snd (ss_unsettled s))" ..
  note q = pb [THEN conjunct2, THEN conjunct1, rule_format, of "''NSE:EQ:INFY''" MIS]
  show ?thesis by (intro exI [where x = s] exI [where x = pb] conjI) (fact s, fact pb [THEN conjunct1], fact q)
qed

end
